(* ===== verification/Prelude.thy ===== *)
theory Prelude
  imports Main "HOL-Library.Word"
begin

text \<open>
  Shared vocabulary of the development: the widths of the C++ integers the
  bytecode assembler and the virtual machine use, results of operations that
  may signal an error, in-place writes to byte vectors, and the generic lemmas
  on lists and words that the components share.
\<close>

section \<open>Machine integers and results\<close>

type_synonym byte = "8 word"
type_synonym u16 = "16 word"
type_synonym u32 = "32 word"
type_synonym u64 = "64 word"

type_synonym ('e, 'a) res = "'e + 'a"

named_theorems byte_simps \<open>facts that turn byte arithmetic into integer arithmetic\<close>

abbreviation ok :: "'a \<Rightarrow> 'e + 'a" where
  "ok x \<equiv> Inr x"

abbreviation err :: "'e \<Rightarrow> 'e + 'a" where
  "err e \<equiv> Inl e"

definition bind_res :: "'e + 'a \<Rightarrow> ('a \<Rightarrow> 'e + 'b) \<Rightarrow> 'e + 'b" where
  "bind_res r f = (case r of Inl e \<Rightarrow> Inl e | Inr a \<Rightarrow> f a)"

lemma bind_res_simps [simp]:
  "bind_res (Inl e) f = Inl e"
  "bind_res (Inr a) f = f a"
  by (simp_all add: bind_res_def)

lemma bind_res_Inr_iff:
  "bind_res r f = Inr b \<longleftrightarrow> (\<exists>a. r = Inr a \<and> f a = Inr b)"
  by (cases r) simp_all

lemma bind_res_Inl_iff:
  "bind_res r f = Inl e \<longleftrightarrow> r = Inl e \<or> (\<exists>a. r = Inr a \<and> f a = Inl e)"
  by (cases r) simp_all

section \<open>Writing a run of bytes into a vector\<close>

text \<open>
  The assembler writes bytes one at a time into a vector that has been
  allocated with its final size.  \<open>write_list\<close> is the effect of such a run of
  writes starting at an index.
\<close>

fun write_list :: "'a list \<Rightarrow> nat \<Rightarrow> 'a list \<Rightarrow> 'a list" where
  "write_list code p [] = code"
| "write_list code p (b # bs) = write_list (code[p := b]) (Suc p) bs"

lemma length_write_list [simp]: "length (write_list code p bs) = length code"
  by (induction code p bs rule: write_list.induct) simp_all

lemma write_list_append:
  "write_list code p (as @ bs) = write_list (write_list code p as) (p + length as) bs"
  by (induction code p as rule: write_list.induct) simp_all

lemma write_list_nth:
  "p + length bs \<le> length code \<Longrightarrow> i < length code \<Longrightarrow>
   write_list code p bs ! i = (if p \<le> i \<and> i < p + length bs then bs ! (i - p) else code ! i)"
proof (induction code p bs rule: write_list.induct)
  case (1 code p)
  then show ?case by auto
next
  case (2 code p b bs)
  then show ?case
    by (cases "i = p") (auto simp: nth_Cons' Suc_diff_Suc)
qed

lemma take_write_list:
  "p + length bs \<le> length code \<Longrightarrow> take p (write_list code p bs) = take p code"
  by (rule nth_equalityI) (auto simp: write_list_nth)

lemma take_write_list_extend:
  assumes "p + length bs \<le> length code"
  shows "take (p + length bs) (write_list code p bs) = take p code @ bs"
proof (rule nth_equalityI)
  show "length (take (p + length bs) (write_list code p bs)) = length (take p code @ bs)"
    using assms by simp
next
  fix i assume "i < length (take (p + length bs) (write_list code p bs))"
  with assms show "take (p + length bs) (write_list code p bs) ! i = (take p code @ bs) ! i"
    by (auto simp: write_list_nth nth_append)
qed

section \<open>Sums along a list\<close>

lemma sum_list_take_le: "sum_list (take i (xs :: nat list)) \<le> sum_list xs"
  by (induction xs arbitrary: i) (auto simp: take_Cons' split: nat.splits)

lemma sum_list_take_mono:
  "i \<le> j \<Longrightarrow> sum_list (take i (xs :: nat list)) \<le> sum_list (take j xs)"
  by (metis min.absorb1 sum_list_take_le take_take)

lemma sum_list_update_add:
  "i < length xs \<Longrightarrow> sum_list (xs[i := xs ! i + (d :: nat)]) = sum_list xs + d"
proof (induction xs arbitrary: i)
  case Nil
  then show ?case by simp
next
  case (Cons x xs)
  then show ?case by (cases i) simp_all
qed

lemma sum_list_bounded:
  "(\<forall>x \<in> set xs. x \<le> (b :: nat)) \<Longrightarrow> sum_list xs \<le> b * length xs"
  by (induction xs) auto

end
