(* ===== verification/VmCodes.thy ===== *)
theory VmCodes
  imports Prelude
begin

text \<open>
  The instruction set of the bytecode machine (the table of
  \<open>bytecode-machines.lisp\<close>, from which \<open>virtualMachine.h\<close> is generated) and the
  operand formats the virtual machine reads (\<open>read_s16\<close>, \<open>read_label\<close> and the
  one-byte casts of \<open>bytecode.cc\<close>).
\<close>

unbundle bit_operations_syntax

section \<open>The instruction table\<close>

datatype (plugins only: code size) opcode =
    Vm_ref | Vm_const | Vm_closure | Vm_call | Vm_call_receive_one | Vm_call_receive_fixed
  | Vm_bind | Vm_set | Vm_make_cell | Vm_cell_ref | Vm_cell_set | Vm_make_closure
  | Vm_make_uninitialized_closure | Vm_initialize_closure | Vm_return
  | Vm_bind_required_args | Vm_bind_optional_args | Vm_listify_rest_args
  | Vm_vaslistify_rest_args | Vm_parse_key_args | Vm_jump_8 | Vm_jump_16 | Vm_jump_24
  | Vm_jump_if_8 | Vm_jump_if_16 | Vm_jump_if_24 | Vm_jump_if_supplied_8
  | Vm_jump_if_supplied_16 | Vm_check_arg_count_LE | Vm_check_arg_count_GE
  | Vm_check_arg_count_EQ | Vm_push_values | Vm_append_values | Vm_pop_values
  | Vm_mv_call | Vm_mv_call_receive_one | Vm_mv_call_receive_fixed | Vm_save_sp
  | Vm_restore_sp | Vm_entry | Vm_exit_8 | Vm_exit_16 | Vm_exit_24 | Vm_entry_close
  | Vm_catch_8 | Vm_catch_16 | Vm_throw | Vm_catch_close | Vm_special_bind
  | Vm_symbol_value | Vm_symbol_value_set | Vm_unbind | Vm_progv | Vm_fdefinition
  | Vm_nil | Vm_eq | Vm_push | Vm_pop | Vm_dup | Vm_fdesignator | Vm_called_fdefinition
  | Vm_encell | Vm_long

primrec vm_code :: "opcode \<Rightarrow> byte" where
  "vm_code Vm_ref = 0"
| "vm_code Vm_const = 1"
| "vm_code Vm_closure = 2"
| "vm_code Vm_call = 3"
| "vm_code Vm_call_receive_one = 4"
| "vm_code Vm_call_receive_fixed = 5"
| "vm_code Vm_bind = 6"
| "vm_code Vm_set = 7"
| "vm_code Vm_make_cell = 8"
| "vm_code Vm_cell_ref = 9"
| "vm_code Vm_cell_set = 10"
| "vm_code Vm_make_closure = 11"
| "vm_code Vm_make_uninitialized_closure = 12"
| "vm_code Vm_initialize_closure = 13"
| "vm_code Vm_return = 14"
| "vm_code Vm_bind_required_args = 15"
| "vm_code Vm_bind_optional_args = 16"
| "vm_code Vm_listify_rest_args = 17"
| "vm_code Vm_vaslistify_rest_args = 18"
| "vm_code Vm_parse_key_args = 19"
| "vm_code Vm_jump_8 = 20"
| "vm_code Vm_jump_16 = 21"
| "vm_code Vm_jump_24 = 22"
| "vm_code Vm_jump_if_8 = 23"
| "vm_code Vm_jump_if_16 = 24"
| "vm_code Vm_jump_if_24 = 25"
| "vm_code Vm_jump_if_supplied_8 = 26"
| "vm_code Vm_jump_if_supplied_16 = 27"
| "vm_code Vm_check_arg_count_LE = 28"
| "vm_code Vm_check_arg_count_GE = 29"
| "vm_code Vm_check_arg_count_EQ = 30"
| "vm_code Vm_push_values = 31"
| "vm_code Vm_append_values = 32"
| "vm_code Vm_pop_values = 33"
| "vm_code Vm_mv_call = 34"
| "vm_code Vm_mv_call_receive_one = 35"
| "vm_code Vm_mv_call_receive_fixed = 36"
| "vm_code Vm_save_sp = 37"
| "vm_code Vm_restore_sp = 38"
| "vm_code Vm_entry = 39"
| "vm_code Vm_exit_8 = 40"
| "vm_code Vm_exit_16 = 41"
| "vm_code Vm_exit_24 = 42"
| "vm_code Vm_entry_close = 43"
| "vm_code Vm_catch_8 = 44"
| "vm_code Vm_catch_16 = 45"
| "vm_code Vm_throw = 46"
| "vm_code Vm_catch_close = 47"
| "vm_code Vm_special_bind = 48"
| "vm_code Vm_symbol_value = 49"
| "vm_code Vm_symbol_value_set = 50"
| "vm_code Vm_unbind = 51"
| "vm_code Vm_progv = 52"
| "vm_code Vm_fdefinition = 53"
| "vm_code Vm_nil = 54"
| "vm_code Vm_eq = 55"
| "vm_code Vm_push = 56"
| "vm_code Vm_pop = 57"
| "vm_code Vm_dup = 58"
| "vm_code Vm_fdesignator = 59"
| "vm_code Vm_called_fdefinition = 60"
| "vm_code Vm_encell = 63"
| "vm_code Vm_long = 255"

definition all_opcodes :: "opcode list" where
  "all_opcodes =
    [Vm_ref, Vm_const, Vm_closure, Vm_call, Vm_call_receive_one, Vm_call_receive_fixed,
     Vm_bind, Vm_set, Vm_make_cell, Vm_cell_ref, Vm_cell_set, Vm_make_closure,
     Vm_make_uninitialized_closure, Vm_initialize_closure, Vm_return,
     Vm_bind_required_args, Vm_bind_optional_args, Vm_listify_rest_args,
     Vm_vaslistify_rest_args, Vm_parse_key_args, Vm_jump_8, Vm_jump_16, Vm_jump_24,
     Vm_jump_if_8, Vm_jump_if_16, Vm_jump_if_24, Vm_jump_if_supplied_8,
     Vm_jump_if_supplied_16, Vm_check_arg_count_LE, Vm_check_arg_count_GE,
     Vm_check_arg_count_EQ, Vm_push_values, Vm_append_values, Vm_pop_values,
     Vm_mv_call, Vm_mv_call_receive_one, Vm_mv_call_receive_fixed, Vm_save_sp,
     Vm_restore_sp, Vm_entry, Vm_exit_8, Vm_exit_16, Vm_exit_24, Vm_entry_close,
     Vm_catch_8, Vm_catch_16, Vm_throw, Vm_catch_close, Vm_special_bind,
     Vm_symbol_value, Vm_symbol_value_set, Vm_unbind, Vm_progv, Vm_fdefinition,
     Vm_nil, Vm_eq, Vm_push, Vm_pop, Vm_dup, Vm_fdesignator, Vm_called_fdefinition,
     Vm_encell, Vm_long]"

text \<open>What the \<open>switch\<close> of the interpreter does with a byte: the opcode, if there is one.\<close>

definition decode_op :: "byte \<Rightarrow> opcode option" where
  "decode_op b = List.find (\<lambda>c. vm_code c = b) all_opcodes"

lemma all_opcodes_complete [simp]: "c \<in> set all_opcodes"
  by (cases c) (simp_all add: all_opcodes_def)

lemma decode_vm_code [simp]: "decode_op (vm_code c) = Some c"
  by (cases c) (simp_all add: decode_op_def all_opcodes_def)

lemma vm_code_inject [simp]: "vm_code c = vm_code d \<longleftrightarrow> c = d"
  by (metis decode_vm_code option.inject)

lemma decode_op_Some: "decode_op b = Some c \<longleftrightarrow> b = vm_code c"
  by (auto simp: decode_op_def find_Some_iff dest: nth_mem)
     (metis decode_op_def decode_vm_code find_Some_iff)

lemma decode_op_None: "decode_op b = None \<longleftrightarrow> (\<forall>c. vm_code c \<noteq> b)"
  by (auto simp: decode_op_def find_None_iff)

text \<open>Opcodes are ordered by their codes.\<close>

instantiation opcode :: linorder
begin

definition less_eq_opcode :: "opcode \<Rightarrow> opcode \<Rightarrow> bool" where
  "less_eq_opcode c d \<longleftrightarrow> vm_code c \<le> vm_code d"

definition less_opcode :: "opcode \<Rightarrow> opcode \<Rightarrow> bool" where
  "less_opcode c d \<longleftrightarrow> vm_code c < vm_code d"

instance
  by standard (auto simp: less_eq_opcode_def less_opcode_def order.strict_iff_order)

end

section \<open>Reading operands\<close>

definition s8 :: "byte \<Rightarrow> int" where
  "s8 b = sint b"

definition read_s16 :: "byte \<Rightarrow> byte \<Rightarrow> int" where
  "read_s16 byte0 byte1 =
     (let nibble = (ucast byte0 OR push_bit 8 (ucast byte1) :: u16) in sint nibble)"

text \<open>
  \<open>read_label\<close> for a label of at least one byte: all bytes but the last are
  accumulated little-endian; the last one is masked with \<open>0x7f\<close> before it is
  shifted in, as the source does.
\<close>

fun read_label_low :: "byte list \<Rightarrow> nat \<Rightarrow> u32 \<Rightarrow> u32" where
  "read_label_low [] i result = result"
| "read_label_low (b # bs) i result =
     read_label_low bs (Suc i) (result OR push_bit (i * 8) (ucast b))"

definition read_label :: "byte list \<Rightarrow> int" where
  "read_label bs =
     (let result = read_label_low (butlast bs) 0 0;
          msb = last bs
      in sint (result OR push_bit ((length bs - 1) * 8) (ucast (msb AND 0x7f))))"

definition read_u16 :: "byte \<Rightarrow> byte \<Rightarrow> u16" where
  "read_u16 low high = ucast low + push_bit 8 (ucast high)"

end
