(* ===== verification/CompData.thy ===== *)
theory CompData
  imports VmCodes
begin

text \<open>
  The data of the bytecode compiler (\<open>bytecode_compiler.h\<close>): lexical infos,
  variable and function infos, lexical environments, compilation contexts,
  annotations (labels and fixups), cfunctions, modules and their literals.

  Objects the compiler mutates (lexical infos, annotations, cfunctions) live in
  heaps, lists indexed by object identity, inside one store \<open>comp\<close>; a smart pointer
  is the index of its object, so that aliasing is as in the code.  Objects that
  are never mutated (environments, infos, contexts) are plain values.
\<close>

section \<open>Lisp data seen by the compiler\<close>

text \<open>
  Source forms are not mutated during compilation, so they are trees; a cons
  carries its address because \<open>EQ\<close> compares addresses.  \<open>LObj\<close> stands for any
  object that \<open>EQUAL\<close> compares by identity.
\<close>

datatype lisp = LNil | LSym nat | LFix int | LObj nat | LCons nat lisp lisp

fun eq_lisp :: "lisp \<Rightarrow> lisp \<Rightarrow> bool" where
  "eq_lisp (LCons a _ _) (LCons b _ _) = (a = b)"
| "eq_lisp x y = (x = y)"

fun equal_lisp :: "lisp \<Rightarrow> lisp \<Rightarrow> bool" where
  "equal_lisp (LCons _ a d) (LCons _ a' d') = (equal_lisp a a' \<and> equal_lisp d d')"
| "equal_lisp x y = (x = y)"

fun oCar :: "lisp \<Rightarrow> lisp" where
  "oCar (LCons _ a _) = a"
| "oCar _ = LNil"

fun oCdr :: "lisp \<Rightarrow> lisp" where
  "oCdr (LCons _ _ d) = d"
| "oCdr _ = LNil"

fun consp :: "lisp \<Rightarrow> bool" where
  "consp (LCons _ _ _) = True"
| "consp _ = False"

fun lisp_list :: "lisp \<Rightarrow> lisp list" where
  "lisp_list (LCons _ a d) = a # lisp_list d"
| "lisp_list _ = []"

lemma equal_lisp_refl [simp]: "equal_lisp x x"
  by (induction x) simp_all

lemma equal_lisp_sym: "equal_lisp x y \<Longrightarrow> equal_lisp y x"
  by (induction x y rule: equal_lisp.induct) auto

lemma equal_lisp_trans: "equal_lisp x y \<Longrightarrow> equal_lisp y z \<Longrightarrow> equal_lisp x z"
proof (induction x y arbitrary: z rule: equal_lisp.induct)
  case (1 i a d j a' d')
  then show ?case by (cases z) auto
qed auto

lemma eq_lisp_refl [simp]: "eq_lisp x x"
  by (cases x) simp_all

lemma eq_lisp_sym [simp]: "eq_lisp (LSym s) x \<longleftrightarrow> x = LSym s" "eq_lisp x (LSym s) \<longleftrightarrow> x = LSym s"
  by (cases x; auto)+

lemma equal_lisp_symbol [simp]: "equal_lisp x (LSym s) \<longleftrightarrow> x = LSym s"
  by (cases x) simp_all

section \<open>Lexical infos\<close>

datatype ignore_status = NOIGNORE | IGNORE | IGNORABLE

record lexical_info =
  frame_index :: u16
  lex_cfunction :: nat
  closed_over_p :: bool
  set_p :: bool
  ignore :: ignore_status
  read_p :: bool
  lex_decls :: "lisp list"

definition lexical_info_make :: "nat \<Rightarrow> nat \<Rightarrow> lexical_info" where
  "lexical_info_make ind funct =
     \<lparr>frame_index = word_of_nat ind, lex_cfunction = funct, closed_over_p = False,
      set_p = False, ignore = NOIGNORE, read_p = False, lex_decls = []\<rparr>"

definition indirect_lexical_p :: "lexical_info \<Rightarrow> bool" where
  "indirect_lexical_p l \<longleftrightarrow> closed_over_p l \<and> set_p l"

section \<open>Variable, function, block and tag infos\<close>

datatype var_info =
    LexicalVarInfo nat
  | SpecialVarInfo bool
  | SymbolMacroVarInfo lisp
  | ConstantVarInfo lisp

datatype fun_info =
    GlobalFunInfo lisp
  | LocalFunInfo nat
  | GlobalMacroInfo lisp
  | LocalMacroInfo lisp

record block_info =
  block_lex :: nat
  block_exit :: nat
  block_receiving :: int

record tag_info =
  tag_lex :: nat
  tag_exit :: nat

section \<open>Lexical environments and contexts\<close>

record lexenv =
  vars :: "(lisp \<times> var_info) list"
  tags :: "(lisp \<times> tag_info) list"
  blocks :: "(lisp \<times> block_info) list"
  funs :: "(lisp \<times> fun_info) list"
  decls :: "lisp list"
  frame_end :: nat

datatype dynenv_entry = DeLex nat | DeBindings nat | DeOther lisp

record cctx =
  receiving :: int
  dynenv :: "dynenv_entry list"
  ctxt_cfunction :: nat
  source_info :: lisp

section \<open>Annotations: labels and fixups\<close>

datatype annot_kind =
    Label
  | ControlLabelFixup nat byte byte byte
  | JumpIfSuppliedFixup nat byte
  | LexRefFixup nat byte
  | EncageFixup nat
  | LexSetFixup nat
  | EntryFixup nat
  | RestoreSPFixup nat
  | ExitFixup nat nat
  | EntryCloseFixup nat

record annotation =
  ann_kind :: annot_kind
  ann_cfunction :: "nat option"
  ann_index :: nat
  ann_position :: nat
  ann_initial_position :: nat
  ann_size :: nat
  ann_initial_size :: nat

definition label_make :: annotation where
  "label_make = \<lparr>ann_kind = Label, ann_cfunction = None, ann_index = 0, ann_position = 0,
     ann_initial_position = 0, ann_size = 0, ann_initial_size = 0\<rparr>"

text \<open>The initial size each fixup class passes to its superclass constructor.\<close>

fun fixup_initial_size :: "annot_kind \<Rightarrow> nat" where
  "fixup_initial_size Label = 0"
| "fixup_initial_size (ControlLabelFixup _ _ _ _) = 2"
| "fixup_initial_size (JumpIfSuppliedFixup _ _) = 3"
| "fixup_initial_size (LexRefFixup _ _) = 0"
| "fixup_initial_size (EncageFixup _) = 0"
| "fixup_initial_size (LexSetFixup _) = 0"
| "fixup_initial_size (EntryFixup _) = 0"
| "fixup_initial_size (RestoreSPFixup _) = 0"
| "fixup_initial_size (ExitFixup _ _) = 2"
| "fixup_initial_size (EntryCloseFixup _) = 0"

definition fixup_make :: "annot_kind \<Rightarrow> annotation" where
  "fixup_make k = \<lparr>ann_kind = k, ann_cfunction = None, ann_index = 0, ann_position = 0,
     ann_initial_position = 0, ann_size = fixup_initial_size k,
     ann_initial_size = fixup_initial_size k\<rparr>"

section \<open>Debug information\<close>

text \<open>The start and end of a debug info: a label while compiling, a position after linking.\<close>

datatype debug_pos = DLabel nat | DFixnum nat | DOther

datatype debug_binding =
    DVLex lisp nat
  | DVVar lisp u16 bool "lisp list"
  | DVOther lisp

datatype debug_tag = DTLabel lisp nat | DTFixnum lisp nat | DTOther lisp

datatype debug_kind =
    DebugVars "debug_binding list"
  | DebugLocation lisp
  | AstDecls "lisp list"
  | AstThe lisp int
  | AstIf int
  | AstTagbody "debug_tag list"
  | AstBlock lisp int
  | AstExit int
  | DebugMacroexpansion lisp

record debug_info =
  di_start :: debug_pos
  di_end :: debug_pos
  di_kind :: debug_kind

section \<open>Cfunctions, literals, modules\<close>

record cfunction =
  bytecode :: "byte list"
  annotations :: "nat list"
  debug_infos :: "nat list"
  nlocals :: nat
  closed :: "nat list"
  entry_point :: nat
  cf_position :: nat
  cf_extra :: nat
  cf_index :: nat
  cf_name :: lisp
  cf_doc :: lisp
  cf_lambda_list :: lisp
  cf_source_pos :: lisp

datatype literal =
    ConstantInfo lisp
  | LoadTimeValueInfo lisp bool
  | CfunctionLit nat
  | FunctionCellInfo lisp
  | VariableCellInfo nat
  | EnvInfo

text \<open>The Lisp functions the compiler calls to report what it noticed, with their arguments.\<close>

datatype compiler_note =
    WarnUsedIgnored lisp lisp
  | WarnUndefinedGlobal lisp lisp
  | RegisterGlobalRef lisp lisp
  | WarnUnused lisp lisp
  | WarnSetUnused lisp lisp

text \<open>
  The store: the heaps of lexical infos, annotations, debug infos and cfunctions,
  the module being compiled (its vector of cfunctions and its literals), the address
  of the next cons the compiler makes, and the warnings so far, the latest first.
\<close>

record comp =
  lexs :: "lexical_info list"
  annots :: "annotation list"
  dinfos :: "debug_info list"
  cfuns :: "cfunction list"
  mod_cfunctions :: "nat list"
  mod_literals :: "literal list"
  next_addr :: nat
  warnings :: "compiler_note list"

definition final_size :: "cfunction \<Rightarrow> nat" where
  "final_size f = length (bytecode f) + cf_extra f"

definition cfun_of :: "comp \<Rightarrow> nat \<Rightarrow> cfunction" where
  "cfun_of c f = cfuns c ! f"

definition annot_of :: "comp \<Rightarrow> nat \<Rightarrow> annotation" where
  "annot_of c a = annots c ! a"

definition lex_of :: "comp \<Rightarrow> nat \<Rightarrow> lexical_info" where
  "lex_of c l = lexs c ! l"

definition upd_cfun :: "nat \<Rightarrow> (cfunction \<Rightarrow> cfunction) \<Rightarrow> comp \<Rightarrow> comp" where
  "upd_cfun f g c = c\<lparr>cfuns := (cfuns c)[f := g (cfuns c ! f)]\<rparr>"

definition upd_annot :: "nat \<Rightarrow> (annotation \<Rightarrow> annotation) \<Rightarrow> comp \<Rightarrow> comp" where
  "upd_annot a g c = c\<lparr>annots := (annots c)[a := g (annots c ! a)]\<rparr>"

definition upd_lex :: "nat \<Rightarrow> (lexical_info \<Rightarrow> lexical_info) \<Rightarrow> comp \<Rightarrow> comp" where
  "upd_lex l g c = c\<lparr>lexs := (lexs c)[l := g (lexs c ! l)]\<rparr>"

text \<open>Allocation in a heap returns the new store and the identity of the object.\<close>

definition new_annot :: "annotation \<Rightarrow> comp \<Rightarrow> comp \<times> nat" where
  "new_annot a c = (c\<lparr>annots := annots c @ [a]\<rparr>, length (annots c))"

definition new_lex :: "lexical_info \<Rightarrow> comp \<Rightarrow> comp \<times> nat" where
  "new_lex l c = (c\<lparr>lexs := lexs c @ [l]\<rparr>, length (lexs c))"

text \<open>
  An empty module, and the constructor of cfunctions, which allocates the label
  of the entry point.
\<close>

definition module_make :: comp where
  "module_make = \<lparr>lexs = [], annots = [], dinfos = [], cfuns = [], mod_cfunctions = [],
     mod_literals = [], next_addr = 0, warnings = []\<rparr>"

definition cfunction_make :: "lisp \<Rightarrow> lisp \<Rightarrow> lisp \<Rightarrow> lisp \<Rightarrow> comp \<Rightarrow> comp \<times> nat" where
  "cfunction_make name doc lambda_list source_pos c =
     (case new_annot label_make c of
        (c', lab) \<Rightarrow>
          (c'\<lparr>cfuns := cfuns c' @ [\<lparr>bytecode = [], annotations = [], debug_infos = [],
               nlocals = 0, closed = [], entry_point = lab, cf_position = 0, cf_extra = 0,
               cf_index = 0, cf_name = name, cf_doc = doc, cf_lambda_list = lambda_list,
               cf_source_pos = source_pos\<rparr>]\<rparr>, length (cfuns c')))"

text \<open>Registering a cfunction with its module, as the compiler does after making one.\<close>

definition register_cfunction :: "nat \<Rightarrow> comp \<Rightarrow> comp" where
  "register_cfunction f c =
     upd_cfun f (\<lambda>cf. cf\<lparr>cf_index := length (mod_cfunctions c)\<rparr>)
       (c\<lparr>mod_cfunctions := mod_cfunctions c @ [f]\<rparr>)"

section \<open>The global environment and errors of the compiler\<close>

text \<open>
  What the compiler asks of the running system about symbols.  It is an argument
  of the operations that look at it; \<open>NIL\<close> is a symbol with its own entry.
\<close>

record symbol_info =
  si_keywordp :: bool
  si_read_only :: bool
  si_special_p :: bool
  si_value :: lisp
  si_symbol_macro :: "lisp option"
  si_fboundp :: bool
  si_macro_p :: bool
  si_function :: lisp
  si_fboundp_setf :: bool
  si_setf_function :: lisp

record genv =
  symbol_info :: "nat \<Rightarrow> symbol_info"
  nil_info :: symbol_info
  compiler_macro_fboundp :: bool
  compiler_macro :: "lisp \<Rightarrow> lisp"

definition sym_setf :: nat where "sym_setf = 0"
definition sym_special :: nat where "sym_special = 1"
definition sym_notinline :: nat where "sym_notinline = 2"


datatype cerror =
    CannotBindConstant lisp
  | SymbolMacroDeclaredSpecial lisp
  | TypeErr lisp
  | LimitReached
  | AssemblerBug nat
  | CannotCompileLiteral int
  | BadBody lisp
  | IllegalSpecial lisp
  | LambdaListError
  | InvalidFunctionName lisp
  | NotAFunctionName lisp
  | NoSuchTag lisp
  | NoSuchBlock lisp
  | BadReadOnlyFlag lisp
  | SymbolMacroOfConstant lisp
  | SymbolMacroOfSpecial lisp
  | IllegalCombination lisp lisp
  | NotALambdaExpression lisp
  | UnreachableBranch
  | LispCodeExited
  | LinkingDiverged
  | CompilerOutOfFuel

text \<open>\<open>gc::As<Symbol_sp>\<close>: a symbol (\<open>NIL\<close> is one) or a type error.\<close>

fun as_symbol :: "genv \<Rightarrow> lisp \<Rightarrow> cerror + symbol_info" where
  "as_symbol g LNil = Inr (nil_info g)"
| "as_symbol g (LSym s) = Inr (symbol_info g s)"
| "as_symbol g x = Inl (TypeErr x)"

lemma upd_simps [simp]:
  "cfuns (upd_annot a g c) = cfuns c" "lexs (upd_annot a g c) = lexs c"
  "mod_cfunctions (upd_annot a g c) = mod_cfunctions c"
  "mod_literals (upd_annot a g c) = mod_literals c" "dinfos (upd_annot a g c) = dinfos c"
  "annots (upd_cfun f h c) = annots c" "lexs (upd_cfun f h c) = lexs c"
  "mod_cfunctions (upd_cfun f h c) = mod_cfunctions c"
  "mod_literals (upd_cfun f h c) = mod_literals c" "dinfos (upd_cfun f h c) = dinfos c"
  "length (annots (upd_annot a g c)) = length (annots c)"
  "length (cfuns (upd_cfun f h c)) = length (cfuns c)"
  "annots (upd_lex l k c) = annots c" "cfuns (upd_lex l k c) = cfuns c"
  by (simp_all add: upd_annot_def upd_cfun_def upd_lex_def)

lemma annot_of_upd_annot:
  "a < length (annots c) \<Longrightarrow>
   annot_of (upd_annot a g c) b = (if b = a then g (annot_of c a) else annot_of c b)"
  by (simp add: annot_of_def upd_annot_def)

lemma cfun_of_upd_cfun:
  "f < length (cfuns c) \<Longrightarrow>
   cfun_of (upd_cfun f g c) h = (if h = f then g (cfun_of c f) else cfun_of c h)"
  by (simp add: cfun_of_def upd_cfun_def)

lemma of_upd_simps [simp]:
  "cfun_of (upd_annot a g c) f = cfun_of c f"
  "lex_of (upd_annot a g c) l = lex_of c l"
  "annot_of (upd_cfun f h c) a = annot_of c a"
  "lex_of (upd_cfun f h c) l = lex_of c l"
  by (simp_all add: cfun_of_def lex_of_def annot_of_def)

end
