(* ===== verification/LexEnv.thy ===== *)
theory LexEnv
  imports CompData
begin

text \<open>
  Lexical environments of the compiler (\<open>Lexenv_O\<close>): lookup of variables, functions,
  blocks and tags, the operations that bind them to stack-frame slots, and the
  classification of names (\<open>var_info\<close>, \<open>fun_info\<close> and their variant forms).
\<close>

section \<open>Lookup\<close>

fun alist_assoc_eq :: "(lisp \<times> 'i) list \<Rightarrow> lisp \<Rightarrow> (lisp \<times> 'i) option" where
  "alist_assoc_eq [] key = None"
| "alist_assoc_eq (p # ps) key = (if eq_lisp (fst p) key then Some p else alist_assoc_eq ps key)"

fun alist_assoc_equal :: "(lisp \<times> 'i) list \<Rightarrow> lisp \<Rightarrow> (lisp \<times> 'i) option" where
  "alist_assoc_equal [] key = None"
| "alist_assoc_equal (p # ps) key =
     (if equal_lisp (fst p) key then Some p else alist_assoc_equal ps key)"

definition variableInfo :: "lexenv \<Rightarrow> lisp \<Rightarrow> var_info option" where
  "variableInfo env varname =
     (if vars env = [] then None
      else case alist_assoc_eq (vars env) varname of None \<Rightarrow> None | Some pair \<Rightarrow> Some (snd pair))"

definition lookupSymbolMacro :: "lexenv \<Rightarrow> lisp \<Rightarrow> lisp option" where
  "lookupSymbolMacro env sname =
     (case variableInfo env sname of Some (SymbolMacroVarInfo e) \<Rightarrow> Some e | _ \<Rightarrow> None)"

definition functionInfo :: "lexenv \<Rightarrow> lisp \<Rightarrow> fun_info option" where
  "functionInfo env funname =
     (if funs env = [] then None
      else case alist_assoc_equal (funs env) funname of None \<Rightarrow> None | Some pair \<Rightarrow> Some (snd pair))"

definition lookupMacro :: "genv \<Rightarrow> lexenv \<Rightarrow> nat \<Rightarrow> lisp option" where
  "lookupMacro g env macroname =
     (case functionInfo env (LSym macroname) of
        Some (LocalMacroInfo e) \<Rightarrow> Some e
      | Some (LocalFunInfo _) \<Rightarrow> None
      | _ \<Rightarrow> (let si = symbol_info g macroname
             in if si_fboundp si \<and> si_macro_p si then Some (si_function si) else None))"

definition blockInfo :: "lexenv \<Rightarrow> lisp \<Rightarrow> block_info option" where
  "blockInfo env blockname =
     (if blocks env = [] then None
      else case alist_assoc_equal (blocks env) blockname of None \<Rightarrow> None | Some pair \<Rightarrow> Some (snd pair))"

definition tagInfo :: "lexenv \<Rightarrow> lisp \<Rightarrow> tag_info option" where
  "tagInfo env tagname =
     (if tags env = [] then None
      else case alist_assoc_equal (tags env) tagname of None \<Rightarrow> None | Some pair \<Rightarrow> Some (snd pair))"

section \<open>Sub-environments\<close>

definition sub_vars :: "(lisp \<times> var_info) list \<Rightarrow> nat \<Rightarrow> lexenv \<Rightarrow> lexenv" where
  "sub_vars vs fe env = env\<lparr>vars := vs, frame_end := fe\<rparr>"

definition sub_funs :: "(lisp \<times> fun_info) list \<Rightarrow> nat \<Rightarrow> lexenv \<Rightarrow> lexenv" where
  "sub_funs fs fe env = env\<lparr>funs := fs, frame_end := fe\<rparr>"

definition sub_tags :: "(lisp \<times> tag_info) list \<Rightarrow> lexenv \<Rightarrow> lexenv" where
  "sub_tags ts env = env\<lparr>tags := ts, frame_end := frame_end env + 1\<rparr>"

definition sub_block :: "(lisp \<times> block_info) list \<Rightarrow> lexenv \<Rightarrow> lexenv" where
  "sub_block bs env = env\<lparr>blocks := bs, frame_end := frame_end env + 1\<rparr>"

definition sub_decls :: "lisp list \<Rightarrow> lexenv \<Rightarrow> lexenv" where
  "sub_decls ds env = env\<lparr>decls := ds\<rparr>"

definition make_null_lexical_environment :: lexenv where
  "make_null_lexical_environment =
     \<lparr>vars = [], tags = [], blocks = [], funs = [], decls = [], frame_end = 0\<rparr>"

section \<open>Binding\<close>

definition setNlocals :: "nat \<Rightarrow> nat \<Rightarrow> comp \<Rightarrow> comp" where
  "setNlocals f n c = upd_cfun f (\<lambda>cf. cf\<lparr>nlocals := n\<rparr>) c"

fun bind_vars_loop :: "genv \<Rightarrow> nat \<Rightarrow> lisp list \<Rightarrow> nat \<Rightarrow> (lisp \<times> var_info) list \<Rightarrow> comp
    \<Rightarrow> cerror + (comp \<times> (lisp \<times> var_info) list)" where
  "bind_vars_loop g cf [] idx new_vars c = Inr (c, new_vars)"
| "bind_vars_loop g cf (var # cur) idx new_vars c =
     (case as_symbol g var of
        Inl e \<Rightarrow> Inl e
      | Inr si \<Rightarrow>
          if si_read_only si then Inl (CannotBindConstant var)
          else case new_lex (lexical_info_make idx cf) c of
            (c', l) \<Rightarrow>
              bind_vars_loop g cf cur (Suc idx) ((var, LexicalVarInfo l) # new_vars) c')"

definition bind_vars :: "genv \<Rightarrow> lisp list \<Rightarrow> cctx \<Rightarrow> comp \<Rightarrow> lexenv \<Rightarrow> cerror + (comp \<times> lexenv)" where
  "bind_vars g vs ctxt c env =
     (if vs = [] then Inr (c, env)
      else
        let frame_start = frame_end env;
            frame_end' = frame_start + length vs;
            cf = ctxt_cfunction ctxt;
            c1 = setNlocals cf (max frame_end' (nlocals (cfun_of c cf))) c
        in case bind_vars_loop g cf vs frame_start (vars env) c1 of
             Inl e \<Rightarrow> Inl e
           | Inr (c2, new_vars) \<Rightarrow> Inr (c2, sub_vars new_vars frame_end' env))"

definition bind1var :: "lisp \<Rightarrow> cctx \<Rightarrow> comp \<Rightarrow> lexenv \<Rightarrow> comp \<times> lexenv" where
  "bind1var var ctxt c env =
     (let frame_start = frame_end env;
          frame_end' = frame_start + 1;
          cf = ctxt_cfunction ctxt;
          c1 = setNlocals cf (max frame_end' (nlocals (cfun_of c cf))) c
      in case new_lex (lexical_info_make frame_start cf) c1 of
           (c2, l) \<Rightarrow> (c2, sub_vars ((var, LexicalVarInfo l) # vars env) frame_end' env))"

fun bind_funs_loop :: "nat \<Rightarrow> lisp list \<Rightarrow> nat \<Rightarrow> (lisp \<times> fun_info) list \<Rightarrow> comp
    \<Rightarrow> comp \<times> (lisp \<times> fun_info) list" where
  "bind_funs_loop cf [] idx new_funs c = (c, new_funs)"
| "bind_funs_loop cf (name # cur) idx new_funs c =
     (case new_lex (lexical_info_make idx cf) c of
        (c', l) \<Rightarrow> bind_funs_loop cf cur (Suc idx) ((name, LocalFunInfo l) # new_funs) c')"

definition bind_funs :: "lisp list \<Rightarrow> cctx \<Rightarrow> comp \<Rightarrow> lexenv \<Rightarrow> comp \<times> lexenv" where
  "bind_funs fs ctxt c env =
     (if fs = [] then (c, env)
      else
        let frame_start = frame_end env;
            frame_end' = frame_start + length fs;
            cf = ctxt_cfunction ctxt;
            c1 = setNlocals cf (max frame_end' (nlocals (cfun_of c cf))) c
        in case bind_funs_loop cf fs frame_start (funs env) c1 of
             (c2, new_funs) \<Rightarrow> (c2, sub_funs new_funs frame_end' env))"

definition bind_block :: "lisp \<Rightarrow> nat \<Rightarrow> cctx \<Rightarrow> comp \<Rightarrow> lexenv \<Rightarrow> comp \<times> lexenv" where
  "bind_block name exit_label ctxt c env =
     (let frame_start = frame_end env;
          cf = ctxt_cfunction ctxt;
          c1 = setNlocals cf (max (frame_start + 1) (nlocals (cfun_of c cf))) c
      in case new_lex (lexical_info_make frame_start cf) c1 of
           (c2, l) \<Rightarrow>
             (c2, sub_block ((name, \<lparr>block_lex = l, block_exit = exit_label,
                                     block_receiving = receiving ctxt\<rparr>) # blocks env) env))"

fun bind_tags_loop :: "nat \<Rightarrow> lisp list \<Rightarrow> (lisp \<times> tag_info) list \<Rightarrow> comp
    \<Rightarrow> comp \<times> (lisp \<times> tag_info) list" where
  "bind_tags_loop de [] new_tags c = (c, new_tags)"
| "bind_tags_loop de (tag # cur) new_tags c =
     (case new_annot label_make c of
        (c', lab) \<Rightarrow>
          bind_tags_loop de cur ((tag, \<lparr>tag_lex = de, tag_exit = lab\<rparr>) # new_tags) c')"

definition bind_tags :: "lisp list \<Rightarrow> nat \<Rightarrow> cctx \<Rightarrow> comp \<Rightarrow> lexenv \<Rightarrow> comp \<times> lexenv" where
  "bind_tags ts de ctxt c env =
     (let cf = ctxt_cfunction ctxt;
          c1 = setNlocals cf (max (frame_end env + 1) (nlocals (cfun_of c cf))) c
      in if ts = [] then (c1, env)
         else case bind_tags_loop de ts (tags env) c1 of
                (c2, new_tags) \<Rightarrow> (c2, sub_tags new_tags env))"

fun add_specials_loop :: "genv \<Rightarrow> lexenv \<Rightarrow> lisp list \<Rightarrow> (lisp \<times> var_info) list
    \<Rightarrow> cerror + (lisp \<times> var_info) list" where
  "add_specials_loop g env [] new_vars = Inr new_vars"
| "add_specials_loop g env (var # cur) new_vars =
     (case as_symbol g var of
        Inl e \<Rightarrow> Inl e
      | Inr si \<Rightarrow>
          if lookupSymbolMacro env var \<noteq> None then Inl (SymbolMacroDeclaredSpecial var)
          else add_specials_loop g env cur ((var, SpecialVarInfo (si_special_p si)) # new_vars))"

definition add_specials :: "genv \<Rightarrow> lisp list \<Rightarrow> lexenv \<Rightarrow> cerror + lexenv" where
  "add_specials g vs env =
     (if vs = [] then Inr env
      else case add_specials_loop g env vs (vars env) of
             Inl e \<Rightarrow> Inl e
           | Inr new_vars \<Rightarrow> Inr (sub_vars new_vars (frame_end env) env))"

definition scrub_decls :: "lisp list \<Rightarrow> lisp list" where
  "scrub_decls ds = filter (\<lambda>d. \<not> consp d \<or> oCar d \<noteq> LSym sym_special) ds"

definition add_decls :: "lisp list \<Rightarrow> lexenv \<Rightarrow> lexenv" where
  "add_decls ds env =
     (let ds' = scrub_decls ds
      in if ds' = [] then env else sub_decls (ds' @ decls env) env)"

fun is_macroexpansion_var :: "var_info \<Rightarrow> bool" where
  "is_macroexpansion_var (ConstantVarInfo _) = True"
| "is_macroexpansion_var (SymbolMacroVarInfo _) = True"
| "is_macroexpansion_var _ = False"

fun is_macroexpansion_fun :: "fun_info \<Rightarrow> bool" where
  "is_macroexpansion_fun (GlobalMacroInfo _) = True"
| "is_macroexpansion_fun (LocalMacroInfo _) = True"
| "is_macroexpansion_fun _ = False"

definition macroexpansion_environment :: "lexenv \<Rightarrow> lexenv" where
  "macroexpansion_environment env =
     \<lparr>vars = filter (\<lambda>p. is_macroexpansion_var (snd p)) (vars env), tags = [], blocks = [],
      funs = filter (\<lambda>p. is_macroexpansion_fun (snd p)) (funs env), decls = decls env,
      frame_end = 0\<rparr>"

definition notinlinep :: "lisp \<Rightarrow> lexenv \<Rightarrow> bool" where
  "notinlinep fname env =
     list_ex (\<lambda>d. consp d \<and> oCar d = LSym sym_notinline \<and> consp (oCdr d) \<and>
                  list_ex (\<lambda>n. eq_lisp n fname) (lisp_list (oCdr d))) (decls env)"

section \<open>Classifying names\<close>

definition global_var_info :: "genv \<Rightarrow> symbol_info \<Rightarrow> var_info option" where
  "global_var_info g si =
     (if si_keywordp si \<or> si_read_only si then Some (ConstantVarInfo (si_value si))
      else if si_special_p si then Some (SpecialVarInfo True)
      else case si_symbol_macro si of
             Some f \<Rightarrow> Some (SymbolMacroVarInfo f)
           | None \<Rightarrow> None)"

definition var_info :: "genv \<Rightarrow> nat \<Rightarrow> lexenv \<Rightarrow> var_info option" where
  "var_info g s env =
     (case variableInfo env (LSym s) of
        Some info \<Rightarrow> Some info
      | None \<Rightarrow> global_var_info g (symbol_info g s))"

text \<open>
  The variant form dispatches on three local classes only; any other local info
  (which the assertion excludes) would fall through to the global checks.
\<close>

definition var_info_v :: "genv \<Rightarrow> nat \<Rightarrow> lexenv \<Rightarrow> var_info option" where
  "var_info_v g s env =
     (case variableInfo env (LSym s) of
        Some (LexicalVarInfo l) \<Rightarrow> Some (LexicalVarInfo l)
      | Some (SpecialVarInfo b) \<Rightarrow> Some (SpecialVarInfo b)
      | Some (SymbolMacroVarInfo e) \<Rightarrow> Some (SymbolMacroVarInfo e)
      | _ \<Rightarrow> global_var_info g (symbol_info g s))"

definition global_function_or_compiler_macro :: "genv \<Rightarrow> lisp \<Rightarrow> fun_info" where
  "global_function_or_compiler_macro g name =
     (if compiler_macro_fboundp g then GlobalFunInfo (compiler_macro g name) else GlobalFunInfo LNil)"

definition fun_info :: "genv \<Rightarrow> lisp \<Rightarrow> lexenv \<Rightarrow> cerror + fun_info option" where
  "fun_info g name env =
     (case functionInfo env name of
        Some info \<Rightarrow> Inr (Some info)
      | None \<Rightarrow>
          if consp name then
            (if oCar name = LSym sym_setf \<and> consp (oCdr name) then
               let dname = oCdr name in
               case as_symbol g (oCar dname) of
                 Inl e \<Rightarrow> Inl e
               | Inr si \<Rightarrow>
                   if oCar dname \<noteq> LNil \<and> oCdr dname = LNil then
                     (if \<not> si_fboundp_setf si then Inr None
                      else if si_macro_p si then Inr (Some (GlobalMacroInfo (si_setf_function si)))
                      else Inr (Some (global_function_or_compiler_macro g name)))
                   else Inr None
             else Inr None)
          else
            case as_symbol g name of
              Inl e \<Rightarrow> Inl e
            | Inr si \<Rightarrow>
                if \<not> si_fboundp si then Inr None
                else if si_macro_p si then Inr (Some (GlobalMacroInfo (si_function si)))
                else Inr (Some (global_function_or_compiler_macro g name)))"

definition fun_info_v :: "genv \<Rightarrow> lisp \<Rightarrow> lexenv \<Rightarrow> cerror + fun_info option" where
  "fun_info_v g name env =
     (case functionInfo env name of
        Some (LocalFunInfo l) \<Rightarrow> Inr (Some (LocalFunInfo l))
      | Some (LocalMacroInfo e) \<Rightarrow> Inr (Some (LocalMacroInfo e))
      | _ \<Rightarrow>
          if consp name then
            (let dname = oCdr name in
             if oCar name \<noteq> LSym sym_setf \<or> \<not> consp dname \<or> oCdr dname \<noteq> LNil then Inr None
             else case as_symbol g (oCar dname) of
                 Inl e \<Rightarrow> Inl e
               | Inr si \<Rightarrow>
                   if \<not> si_fboundp_setf si then Inr None
                   else if si_macro_p si then Inr (Some (GlobalMacroInfo (si_setf_function si)))
                   else Inr (Some (global_function_or_compiler_macro g name)))
          else
            case as_symbol g name of
              Inl e \<Rightarrow> Inl e
            | Inr si \<Rightarrow>
                if \<not> si_fboundp si then Inr None
                else if si_macro_p si then Inr (Some (GlobalMacroInfo (si_function si)))
                else Inr (Some (global_function_or_compiler_macro g name)))"


section \<open>Closed forms of the binding loops\<close>

lemma new_lex_simp [simp]: "new_lex l c = (c\<lparr>lexs := lexs c @ [l]\<rparr>, length (lexs c))"
  by (simp add: new_lex_def)

lemma upt_shift_Suc: "[i..<Suc (i + n)] = i # [Suc i..<Suc (i + n)]"
  by (simp add: upt_conv_Cons)

lemma bind_vars_loop_eq:
  "bind_vars_loop g cf vs idx nv c = Inr (c', nv') \<Longrightarrow>
   c' = c\<lparr>lexs := lexs c @ map (\<lambda>i. lexical_info_make i cf) [idx..<idx + length vs]\<rparr> \<and>
   nv' = rev (zip vs (map LexicalVarInfo [length (lexs c)..<length (lexs c) + length vs])) @ nv"
proof (induction g cf vs idx nv c rule: bind_vars_loop.induct)
  case (1 g cf idx nv c)
  then show ?case by simp
next
  case (2 g cf var cur idx nv c)
  then show ?case
    by (auto simp: upt_shift_Suc simp del: upt_Suc split: sum.splits if_splits)
qed

lemma bind_funs_loop_eq:
  "bind_funs_loop cf fs idx nf c =
   (c\<lparr>lexs := lexs c @ map (\<lambda>i. lexical_info_make i cf) [idx..<idx + length fs]\<rparr>,
    rev (zip fs (map LocalFunInfo [length (lexs c)..<length (lexs c) + length fs])) @ nf)"
  by (induction cf fs idx nf c rule: bind_funs_loop.induct)
     (simp_all add: upt_shift_Suc del: upt_Suc)

lemma bind_tags_loop_eq:
  "bind_tags_loop de ts nt c =
   (c\<lparr>annots := annots c @ replicate (length ts) label_make\<rparr>,
    rev (zip ts (map (\<lambda>a. \<lparr>tag_lex = de, tag_exit = a\<rparr>)
                  [length (annots c)..<length (annots c) + length ts])) @ nt)"
  by (induction de ts nt c rule: bind_tags_loop.induct)
     (simp_all add: new_annot_def upt_shift_Suc del: upt_Suc)

lemma bind_vars_loop_succeeds:
  "\<forall>v \<in> set vs. \<exists>si. as_symbol g v = Inr si \<and> \<not> si_read_only si \<Longrightarrow>
   \<exists>r. bind_vars_loop g cf vs idx nv c = Inr r"
  by (induction vs arbitrary: idx nv c) auto

section \<open>Frame discipline\<close>

text \<open>
  The slots of the current cfunction named by an environment: each lies below
  the frame end, which lies within the function's locals, and two different
  bindings never share a slot.
\<close>

definition env_lexs :: "lexenv \<Rightarrow> nat list" where
  "env_lexs env =
     concat (map (\<lambda>p. case snd p of LexicalVarInfo l \<Rightarrow> [l] | _ \<Rightarrow> []) (vars env)) @
     concat (map (\<lambda>p. case snd p of LocalFunInfo l \<Rightarrow> [l] | _ \<Rightarrow> []) (funs env)) @
     map (\<lambda>p. block_lex (snd p)) (blocks env) @ map (\<lambda>p. tag_lex (snd p)) (tags env)"

definition slot_of :: "comp \<Rightarrow> nat \<Rightarrow> nat" where
  "slot_of c l = unat (frame_index (lex_of c l))"

definition frame_ok :: "comp \<Rightarrow> nat \<Rightarrow> lexenv \<Rightarrow> bool" where
  "frame_ok c f env \<longleftrightarrow>
     f < length (cfuns c) \<and> frame_end env \<le> nlocals (cfun_of c f) \<and>
     (\<forall>l \<in> set (env_lexs env). l < length (lexs c) \<and>
        (lex_cfunction (lex_of c l) = f \<longrightarrow> slot_of c l < frame_end env \<and>
          (\<forall>k \<in> set (env_lexs env). lex_cfunction (lex_of c k) = f \<and> slot_of c k = slot_of c l
             \<longrightarrow> k = l)))"

lemma unat_word_of_nat_16: "i < 65536 \<Longrightarrow> unat (word_of_nat i :: u16) = i"
  by (simp add: unat_of_nat)

lemma lex_of_append:
  "lexs c' = lexs c @ xs \<Longrightarrow> l < length (lexs c) \<Longrightarrow> lex_of c' l = lex_of c l"
  by (simp add: lex_of_def nth_append)

text \<open>
  Allocating \<open>n\<close> consecutive slots from the frame end on, and naming only those
  besides the old ones, keeps the discipline while the frame end fits 16 bits.
\<close>

lemma frame_ok_extend:
  assumes ok: "frame_ok c f env"
    and lx: "lexs c' = lexs c @ map (\<lambda>i. lexical_info_make i f) [frame_end env..<frame_end env + n]"
    and sub: "set (env_lexs env') \<subseteq> set (env_lexs env) \<union> {length (lexs c)..<length (lexs c) + n}"
    and fe: "frame_end env' = frame_end env + n" "frame_end env + n \<le> 65536"
    and cf: "length (cfuns c') = length (cfuns c)" "frame_end env + n \<le> nlocals (cfun_of c' f)"
  shows "frame_ok c' f env'"
proof -
  have old: "lex_of c' l = lex_of c l" if "l < length (lexs c)" for l
    using lx that by (rule lex_of_append)
  have new: "lex_cfunction (lex_of c' l) = f \<and> slot_of c' l = frame_end env + (l - length (lexs c))"
    if "length (lexs c) \<le> l" "l < length (lexs c) + n" for l
  proof -
    from that obtain k where "l = length (lexs c) + k" "k < n"
      by (metis le_add_diff_inverse nat_add_left_cancel_less)
    with fe(2) show ?thesis
      by (simp add: lex_of_def slot_of_def lx nth_append lexical_info_make_def
          unat_word_of_nat_16 del: of_nat_add)
  qed
  have bound: "slot_of c' l < frame_end env" if "l \<in> set (env_lexs env)"
      "lex_cfunction (lex_of c' l) = f" for l
    using ok that old by (auto simp: frame_ok_def slot_of_def)
  have len: "l < length (lexs c) + n" if "l \<in> set (env_lexs env')" for l
    using ok sub that by (fastforce simp: frame_ok_def)
  have inj: "k = l" if "l \<in> set (env_lexs env')" "k \<in> set (env_lexs env')"
      "lex_cfunction (lex_of c' l) = f" "lex_cfunction (lex_of c' k) = f"
      "slot_of c' k = slot_of c' l" for k l
  proof (cases "l < length (lexs c)"; cases "k < length (lexs c)")
    assume "l < length (lexs c)" "k < length (lexs c)"
    moreover from this that sub have "l \<in> set (env_lexs env)" "k \<in> set (env_lexs env)" by fastforce+
    ultimately show ?thesis using ok that old by (auto simp: frame_ok_def slot_of_def)
  next
    assume a: "l < length (lexs c)" "\<not> k < length (lexs c)"
    with that sub have "l \<in> set (env_lexs env)" by fastforce
    with bound[of l] new[of k] len[of k] a that show ?thesis by simp
  next
    assume a: "\<not> l < length (lexs c)" "k < length (lexs c)"
    with that sub have "k \<in> set (env_lexs env)" by fastforce
    with bound[of k] new[of l] len[of l] a that show ?thesis by simp
  next
    assume a: "\<not> l < length (lexs c)" "\<not> k < length (lexs c)"
    with new[of k] new[of l] len[of k] len[of l] that show ?thesis by simp
  qed
  have slot: "slot_of c' l < frame_end env + n" if "l \<in> set (env_lexs env')"
      "lex_cfunction (lex_of c' l) = f" for l
  proof (cases "l < length (lexs c)")
    case True
    with that sub have "l \<in> set (env_lexs env)" by fastforce
    with bound[of l] that show ?thesis by simp
  next
    case False
    with new[of l] len[of l] that show ?thesis by simp
  qed
  from ok fe cf lx len inj slot show ?thesis by (auto simp: frame_ok_def)
qed

lemma setNlocals_fields [simp]:
  "lexs (setNlocals f n c) = lexs c" "annots (setNlocals f n c) = annots c"
  "length (cfuns (setNlocals f n c)) = length (cfuns c)"
  "lex_of (setNlocals f n c) l = lex_of c l"
  by (simp_all add: setNlocals_def)

lemma nlocals_setNlocals [simp]:
  "f < length (cfuns c) \<Longrightarrow> nlocals (cfun_of (setNlocals f n c) f) = n"
  by (simp add: setNlocals_def cfun_of_upd_cfun)

lemma cfun_of_upd_lexs [simp]:
  "cfun_of (c\<lparr>lexs := l\<rparr>) f = cfun_of c f" "cfun_of (c\<lparr>annots := a\<rparr>) f = cfun_of c f"
  "lex_of (c\<lparr>annots := a\<rparr>) k = lex_of c k"
  by (simp_all add: cfun_of_def lex_of_def)

lemma set_vars_env_lexs:
  "set (env_lexs (sub_vars (rev (zip vs (map LexicalVarInfo ls)) @ vars env) fe env)) \<subseteq>
   set (env_lexs env) \<union> set ls"
  by (auto simp: env_lexs_def sub_vars_def set_zip)

lemma set_funs_env_lexs:
  "set (env_lexs (sub_funs (rev (zip vs (map LocalFunInfo ls)) @ funs env) fe env)) \<subseteq>
   set (env_lexs env) \<union> set ls"
  by (auto simp: env_lexs_def sub_funs_def set_zip)

section \<open>The contract of a binding operation\<close>

text \<open>
  What the rest of the compiler relies on when it runs a binding operation for a
  cfunction: slots are never shared, the frame only grows, and no existing
  lexical info is touched.
\<close>

locale frame_binder =
  fixes bind :: "comp \<Rightarrow> lexenv \<Rightarrow> cerror + (comp \<times> lexenv)" and cfn :: nat
  assumes keeps_frame: "bind c env = Inr (c', env') \<Longrightarrow> frame_ok c cfn env \<Longrightarrow>
      frame_end env' \<le> 65536 \<Longrightarrow> frame_ok c' cfn env'"
    and frame_grows: "bind c env = Inr (c', env') \<Longrightarrow> frame_end env \<le> frame_end env'"
    and lexs_grow: "bind c env = Inr (c', env') \<Longrightarrow> \<exists>new. lexs c' = lexs c @ new"
begin

lemma old_slots_kept:
  assumes "bind c env = Inr (c', env')" "l < length (lexs c)"
  shows "slot_of c' l = slot_of c l"
  using lexs_grow[OF assms(1)] assms(2) by (auto simp: slot_of_def lex_of_append)

text \<open>A slot bound now differs from every slot live in an enclosing environment.\<close>

lemma inner_slot_fresh:
  assumes b: "bind c env = Inr (c', env')" and ok: "frame_ok c cfn env" "frame_end env' \<le> 65536"
    and out: "l \<in> set (env_lexs env)" "lex_cfunction (lex_of c l) = cfn"
    and new: "k \<in> set (env_lexs env')" "length (lexs c) \<le> k" "lex_cfunction (lex_of c' k) = cfn"
    and both: "l \<in> set (env_lexs env')"
  shows "slot_of c' k \<noteq> slot_of c l"
proof
  assume eq: "slot_of c' k = slot_of c l"
  from out ok have l: "l < length (lexs c)" by (auto simp: frame_ok_def)
  from lexs_grow[OF b] l have "lex_of c' l = lex_of c l" by (auto simp: lex_of_append)
  moreover from keeps_frame[OF b ok] have "frame_ok c' cfn env'" .
  ultimately have "k = l"
    using out new both eq old_slots_kept[OF b l] unfolding frame_ok_def by metis
  with l new show False by simp
qed

end

text \<open>Running one binding operation after another is again one.\<close>

locale binder_sequence = b1: frame_binder bind1 cfn + b2: frame_binder bind2 cfn
  for bind1 bind2 :: "comp \<Rightarrow> lexenv \<Rightarrow> cerror + (comp \<times> lexenv)" and cfn :: nat
begin

lemma sequence_keeps_frame:
  assumes "bind1 c env = Inr (c1, env1)" "bind2 c1 env1 = Inr (c2, env2)"
    and "frame_ok c cfn env" "frame_end env2 \<le> 65536"
  shows "frame_ok c2 cfn env2"
proof -
  from b2.frame_grows[OF assms(2)] assms(4) have "frame_end env1 \<le> 65536" by simp
  with b1.keeps_frame[OF assms(1,3)] b2.keeps_frame[OF assms(2)] assms(4) show ?thesis by simp
qed

end

lemma bind_vars_eq:
  assumes "bind_vars g vs ctxt c env = Inr (c', env')"
  shows "frame_end env' = frame_end env + length vs \<and>
    (\<exists>n. (vs = [] \<longrightarrow> n = nlocals (cfun_of c (ctxt_cfunction ctxt))) \<and>
      (vs \<noteq> [] \<longrightarrow> n = max (frame_end env + length vs) (nlocals (cfun_of c (ctxt_cfunction ctxt)))) \<and>
      (vs = [] \<longrightarrow> c' = c \<and> env' = env) \<and>
      (vs \<noteq> [] \<longrightarrow> c' = (setNlocals (ctxt_cfunction ctxt) n c)\<lparr>lexs := lexs c @
          map (\<lambda>i. lexical_info_make i (ctxt_cfunction ctxt))
            [frame_end env..<frame_end env + length vs]\<rparr> \<and>
        env' = sub_vars (rev (zip vs (map LexicalVarInfo
            [length (lexs c)..<length (lexs c) + length vs])) @ vars env)
            (frame_end env + length vs) env))"
  using assms
  by (auto simp: bind_vars_def Let_def sub_vars_def dest!: bind_vars_loop_eq split: if_splits sum.splits)

lemma frame_ok_bind_vars:
  assumes "bind_vars g vs ctxt c env = Inr (c', env')" "frame_ok c (ctxt_cfunction ctxt) env"
    "frame_end env' \<le> 65536"
  shows "frame_ok c' (ctxt_cfunction ctxt) env'"
proof (cases "vs = []")
  case True
  with bind_vars_eq[OF assms(1)] assms(2) show ?thesis by simp
next
  case False
  let ?f = "ctxt_cfunction ctxt"
  from assms(2) have f: "?f < length (cfuns c)" by (simp add: frame_ok_def)
  from False bind_vars_eq[OF assms(1)] have
    c': "c' = (setNlocals ?f (max (frame_end env + length vs) (nlocals (cfun_of c ?f))) c)\<lparr>lexs := lexs c @
        map (\<lambda>i. lexical_info_make i ?f) [frame_end env..<frame_end env + length vs]\<rparr>" and
    env': "env' = sub_vars (rev (zip vs (map LexicalVarInfo
            [length (lexs c)..<length (lexs c) + length vs])) @ vars env)
            (frame_end env + length vs) env" by auto
  show ?thesis
  proof (rule frame_ok_extend[OF assms(2), where n = "length vs"])
    show "set (env_lexs env') \<subseteq> set (env_lexs env) \<union> {length (lexs c)..<length (lexs c) + length vs}"
      unfolding env' by (rule order_trans[OF set_vars_env_lexs]) simp
  qed (use f c' env' assms(3) in \<open>simp_all add: sub_vars_def\<close>)
qed

lemma frame_ok_one_slot:
  assumes "frame_ok c f env" "frame_end env < 65536"
    and "set (env_lexs env') \<subseteq> set (env_lexs env) \<union> {length (lexs c)}"
    and "frame_end env' = frame_end env + 1"
  shows "frame_ok ((setNlocals f (max (frame_end env + 1) (nlocals (cfun_of c f))) c)
      \<lparr>lexs := lexs c @ [lexical_info_make (frame_end env) f]\<rparr>) f env'"
proof (rule frame_ok_extend[OF assms(1), where n = 1])
  from assms(1) have "f < length (cfuns c)" by (simp add: frame_ok_def)
  then show "frame_end env + 1 \<le> nlocals (cfun_of ((setNlocals f (max (frame_end env + 1)
      (nlocals (cfun_of c f))) c)\<lparr>lexs := lexs c @ [lexical_info_make (frame_end env) f]\<rparr>) f)"
    by simp
qed (use assms in auto)

lemma frame_ok_bind1var:
  assumes "bind1var v ctxt c env = (c', env')" "frame_ok c (ctxt_cfunction ctxt) env"
    "frame_end env' \<le> 65536"
  shows "frame_ok c' (ctxt_cfunction ctxt) env'"
proof -
  from assms(1) have eqs: "c' = (setNlocals (ctxt_cfunction ctxt) (max (frame_end env + 1)
      (nlocals (cfun_of c (ctxt_cfunction ctxt)))) c)
      \<lparr>lexs := lexs c @ [lexical_info_make (frame_end env) (ctxt_cfunction ctxt)]\<rparr>"
    "env' = sub_vars ((v, LexicalVarInfo (length (lexs c))) # vars env) (frame_end env + 1) env"
    by (auto simp: bind1var_def Let_def)
  show ?thesis unfolding eqs(1)
    by (rule frame_ok_one_slot[OF assms(2)])
       (use eqs(2) assms(3) in \<open>auto simp: sub_vars_def env_lexs_def\<close>)
qed

lemma frame_ok_bind_block:
  assumes "bind_block name lab ctxt c env = (c', env')" "frame_ok c (ctxt_cfunction ctxt) env"
    "frame_end env' \<le> 65536"
  shows "frame_ok c' (ctxt_cfunction ctxt) env'"
proof -
  from assms(1) have eqs: "c' = (setNlocals (ctxt_cfunction ctxt) (max (frame_end env + 1)
      (nlocals (cfun_of c (ctxt_cfunction ctxt)))) c)
      \<lparr>lexs := lexs c @ [lexical_info_make (frame_end env) (ctxt_cfunction ctxt)]\<rparr>"
    "env' = sub_block ((name, \<lparr>block_lex = length (lexs c), block_exit = lab,
        block_receiving = receiving ctxt\<rparr>) # blocks env) env"
    by (auto simp: bind_block_def Let_def)
  show ?thesis unfolding eqs(1)
    by (rule frame_ok_one_slot[OF assms(2)])
       (use eqs(2) assms(3) in \<open>auto simp: sub_block_def env_lexs_def\<close>)
qed

lemma frame_ok_bind_funs:
  assumes "bind_funs fs ctxt c env = (c', env')" "frame_ok c (ctxt_cfunction ctxt) env"
    "frame_end env' \<le> 65536"
  shows "frame_ok c' (ctxt_cfunction ctxt) env'"
proof (cases "fs = []")
  case True
  with assms show ?thesis by (simp add: bind_funs_def)
next
  case False
  let ?f = "ctxt_cfunction ctxt"
  from assms(2) have f: "?f < length (cfuns c)" by (simp add: frame_ok_def)
  from False assms(1) have
    c': "c' = (setNlocals ?f (max (frame_end env + length fs) (nlocals (cfun_of c ?f))) c)\<lparr>lexs := lexs c @
        map (\<lambda>i. lexical_info_make i ?f) [frame_end env..<frame_end env + length fs]\<rparr>" and
    env': "env' = sub_funs (rev (zip fs (map LocalFunInfo
            [length (lexs c)..<length (lexs c) + length fs])) @ funs env)
            (frame_end env + length fs) env"
    by (auto simp: bind_funs_def Let_def bind_funs_loop_eq)
  show ?thesis
  proof (rule frame_ok_extend[OF assms(2), where n = "length fs"])
    show "set (env_lexs env') \<subseteq> set (env_lexs env) \<union> {length (lexs c)..<length (lexs c) + length fs}"
      unfolding env' by (rule order_trans[OF set_funs_env_lexs]) simp
  qed (use f c' env' assms(3) in \<open>simp_all add: sub_funs_def\<close>)
qed

lemma set_tags_env_lexs:
  "set (env_lexs (sub_tags (new @ tags env) env)) =
   set (env_lexs env) \<union> (\<lambda>p. tag_lex (snd p)) ` set new"
  by (simp add: env_lexs_def sub_tags_def image_Un Un_ac)

text \<open>
  \<open>bind_tags\<close> names one slot for all tags: that of the dynamic-environment info
  the caller made at the frame end.
\<close>

lemma frame_ok_bind_tags:
  assumes b: "bind_tags ts de ctxt c env = (c', env')"
    and ok: "frame_ok c (ctxt_cfunction ctxt) env" "frame_end env' \<le> 65536"
    and de: "de < length (lexs c)" "lex_of c de = lexical_info_make (frame_end env) (ctxt_cfunction ctxt)"
  shows "frame_ok c' (ctxt_cfunction ctxt) env'"
proof -
  let ?f = "ctxt_cfunction ctxt"
  let ?n = "max (frame_end env + 1) (nlocals (cfun_of c ?f))"
  from ok have f: "?f < length (cfuns c)" by (simp add: frame_ok_def)
  have lex: "lexs c' = lexs c" "lex_of c' = lex_of c" "slot_of c' = slot_of c"
    "length (cfuns c') = length (cfuns c)" "nlocals (cfun_of c' ?f) = ?n"
    using b f by (auto simp: bind_tags_def Let_def bind_tags_loop_eq slot_of_def fun_eq_iff
        split: if_splits)
  show ?thesis
  proof (cases "ts = []")
    case True
    with b have "env' = env" by (auto simp: bind_tags_def Let_def)
    with ok lex show ?thesis by (auto simp: frame_ok_def)
  next
    case False
    with b have "env' = sub_tags (rev (zip ts (map (\<lambda>a. \<lparr>tag_lex = de, tag_exit = a\<rparr>)
        [length (annots c)..<length (annots c) + length ts])) @ tags env) env"
      by (auto simp: bind_tags_def Let_def bind_tags_loop_eq)
    then have env': "set (env_lexs env') \<subseteq> insert de (set (env_lexs env))"
      "frame_end env' = frame_end env + 1"
      by (auto simp: set_tags_env_lexs set_zip) (simp add: sub_tags_def)
    have "slot_of c de = frame_end env"
      using de ok(2) env'(2) by (simp add: slot_of_def lexical_info_make_def unat_word_of_nat_16)
    note slot = this
    have old: "l < length (lexs c)" "lex_cfunction (lex_of c l) = ?f \<Longrightarrow> slot_of c l < frame_end env"
      if "l \<in> set (env_lexs env)" for l
      using ok(1) that by (auto simp: frame_ok_def)
    have inj: "k = l" if "l \<in> set (env_lexs env')" "k \<in> set (env_lexs env')"
        "lex_cfunction (lex_of c l) = ?f" "lex_cfunction (lex_of c k) = ?f"
        "slot_of c k = slot_of c l" for k l
    proof (cases "l = de \<or> k = de")
      case True
      with that slot env'(1) old(2)[of l] old(2)[of k] show ?thesis by auto
    next
      case False
      with that env'(1) have "l \<in> set (env_lexs env)" "k \<in> set (env_lexs env)" by auto
      with that ok(1) show ?thesis by (auto simp: frame_ok_def)
    qed
    have each: "l < length (lexs c) \<and> (lex_cfunction (lex_of c l) = ?f \<longrightarrow> slot_of c l < frame_end env + 1)"
      if "l \<in> set (env_lexs env')" for l
      using that env'(1) slot de(1) old[of l] by (cases "l = de") auto
    show ?thesis
      unfolding frame_ok_def lex using f each inj by (auto simp: env'(2))
  qed
qed

interpretation vars_binder: frame_binder "\<lambda>c env. bind_vars g vs ctxt c env" "ctxt_cfunction ctxt"
  for g vs ctxt
proof unfold_locales
  show "frame_ok c' (ctxt_cfunction ctxt) env'" if "bind_vars g vs ctxt c env = Inr (c', env')"
    "frame_ok c (ctxt_cfunction ctxt) env" "frame_end env' \<le> 65536" for c env c' env'
    using that by (rule frame_ok_bind_vars)
next
  show "frame_end env \<le> frame_end env'" "\<exists>new. lexs c' = lexs c @ new"
    if "bind_vars g vs ctxt c env = Inr (c', env')" for c env c' env'
    using bind_vars_eq[OF that] by (cases "vs = []"; auto)+
qed

interpretation var_binder: frame_binder "\<lambda>c env. Inr (bind1var v ctxt c env)" "ctxt_cfunction ctxt"
  for v ctxt
  by unfold_locales (auto intro: frame_ok_bind1var simp: bind1var_def Let_def sub_vars_def)

interpretation funs_binder: frame_binder "\<lambda>c env. Inr (bind_funs fs ctxt c env)" "ctxt_cfunction ctxt"
  for fs ctxt
  by unfold_locales
     (auto intro: frame_ok_bind_funs simp: bind_funs_def Let_def sub_funs_def bind_funs_loop_eq
       split: if_splits)

interpretation block_binder: frame_binder "\<lambda>c env. Inr (bind_block name lab ctxt c env)"
  "ctxt_cfunction ctxt" for name lab ctxt
  by unfold_locales (auto intro: frame_ok_bind_block simp: bind_block_def Let_def sub_block_def)

interpretation funs_then_vars: binder_sequence "\<lambda>c env. Inr (bind_funs fs ctxt c env)"
  "\<lambda>c env. bind_vars g vs ctxt c env" "ctxt_cfunction ctxt" for fs g vs ctxt
  by unfold_locales

section \<open>What a binding makes visible\<close>

lemma alist_assoc_eq_symbol:
  "alist_assoc_eq al (LSym s) = (case map_of al (LSym s) of None \<Rightarrow> None | Some i \<Rightarrow> Some (LSym s, i))"
  by (induction al) auto

lemma variableInfo_symbol: "variableInfo env (LSym s) = map_of (vars env) (LSym s)"
  by (auto simp: variableInfo_def alist_assoc_eq_symbol split: option.splits)

lemma alist_assoc_equal_symbol:
  "alist_assoc_equal al (LSym s) = (case map_of al (LSym s) of None \<Rightarrow> None | Some i \<Rightarrow> Some (LSym s, i))"
  by (induction al) auto

lemma functionInfo_symbol: "functionInfo env (LSym s) = map_of (funs env) (LSym s)"
  by (auto simp: functionInfo_def alist_assoc_equal_symbol split: option.splits)

lemma map_of_rev_zip_distinct:
  "distinct xs \<Longrightarrow> length xs = length ys \<Longrightarrow> i < length xs \<Longrightarrow>
   map_of (rev (zip xs ys)) (xs ! i) = Some (ys ! i)"
  by (rule map_of_is_SomeI) (auto simp: rev_map[symmetric] set_zip)

lemma map_of_rev_zip_notin: "x \<notin> set xs \<Longrightarrow> map_of (rev (zip xs ys)) x = None"
  by (auto simp: map_of_eq_None_iff dest: set_zip_leftD)


section \<open>Properties\<close>

text \<open>Binding distinct variables gives the i-th variable the i-th slot after the old
  frame end in the current cfunction, and leaves the lookup of every other symbol as it was.\<close>

theorem bind_vars_lookup:
  assumes "bind_vars g (map LSym ss) ctxt c env = Inr (c', env')"
    and "distinct ss" and "frame_end env + length ss \<le> 65536"
  shows "(\<forall>i < length ss. \<exists>l. variableInfo env' (LSym (ss ! i)) = Some (LexicalVarInfo l) \<and>
            slot_of c' l = frame_end env + i \<and> lex_cfunction (lex_of c' l) = ctxt_cfunction ctxt) \<and>
         (\<forall>s. s \<notin> set ss \<longrightarrow> variableInfo env' (LSym s) = variableInfo env (LSym s))"
proof (cases "ss = []")
  case True
  with assms show ?thesis by (auto simp: bind_vars_def)
next
  case False
  let ?ls = "map LexicalVarInfo [length (lexs c)..<length (lexs c) + length ss]"
  from False bind_vars_eq[OF assms(1)] have
    v: "vars env' = rev (zip (map LSym ss) ?ls) @ vars env" and
    l: "lexs c' = lexs c @ map (\<lambda>i. lexical_info_make i (ctxt_cfunction ctxt))
          [frame_end env..<frame_end env + length ss]"
    by (auto simp: sub_vars_def)
  have "variableInfo env' (LSym (ss ! i)) = Some (LexicalVarInfo (length (lexs c) + i))"
    if "i < length ss" for i
    using that assms(2) map_of_rev_zip_distinct[of "map LSym ss" ?ls i]
    by (simp add: variableInfo_symbol v map_add_def distinct_map inj_on_def)
  moreover have "slot_of c' (length (lexs c) + i) = frame_end env + i \<and>
      lex_cfunction (lex_of c' (length (lexs c) + i)) = ctxt_cfunction ctxt" if "i < length ss" for i
    using that assms(3) by (simp add: slot_of_def lex_of_def l nth_append lexical_info_make_def
        unat_word_of_nat_16 del: of_nat_add)
  moreover have "variableInfo env' (LSym s) = variableInfo env (LSym s)" if "s \<notin> set ss" for s
    using that map_of_rev_zip_notin[of "LSym s" "map LSym ss" ?ls]
    by (simp add: variableInfo_symbol v map_add_def image_iff)
  ultimately show ?thesis by blast
qed


text \<open>C20: the 16-bit frame index is not checked: a variable bound when 65536 slots are taken
  gets slot 0 again.\<close>

theorem bind1var_slot_wraps:
  assumes "frame_end env = 65536" "bind1var v ctxt c env = (c', env')"
  shows "\<exists>l. map_of (vars env') v = Some (LexicalVarInfo l) \<and> slot_of c' l = 0"
  using assms by (auto simp: bind1var_def Let_def sub_vars_def slot_of_def lex_of_def
      lexical_info_make_def)

text \<open>The allocation-free classification of variables agrees with the allocating one in
  every environment without local constants (the compiler never binds one).\<close>

theorem var_info_v_eq:
  assumes "\<forall>p \<in> set (vars env). \<forall>x. snd p \<noteq> ConstantVarInfo x"
  shows "var_info_v g s env = var_info g s env"
proof -
  have "variableInfo env (LSym s) \<noteq> Some (ConstantVarInfo x)" for x
    using assms by (fastforce simp: variableInfo_symbol dest: map_of_SomeD)
  then show ?thesis
    by (auto simp: var_info_v_def var_info_def split: option.splits var_info.splits)
qed

text \<open>The two classifications of function names agree on every name that is a symbol or
  \<open>(setf f)\<close> for a symbol \<open>f\<close> other than \<open>NIL\<close>, when the environment binds only local
  functions and macros.\<close>

theorem fun_info_v_eq:
  assumes "\<forall>p \<in> set (funs env). (\<exists>l. snd p = LocalFunInfo l) \<or> (\<exists>e. snd p = LocalMacroInfo e)"
    and "name = LSym s \<or> name = LCons a1 (LSym sym_setf) (LCons a2 (LSym s) LNil)"
  shows "fun_info_v g name env = fun_info g name env"
proof -
  have "alist_assoc_equal al name = Some p \<Longrightarrow> p \<in> set al" for al and p :: "lisp \<times> fun_info"
    by (induction al) (auto split: if_splits)
  with assms(1) have "(\<exists>l. i = LocalFunInfo l) \<or> (\<exists>e. i = LocalMacroInfo e)"
    if "functionInfo env name = Some i" for i
    using that by (fastforce simp: functionInfo_def split: if_splits option.splits)
  with assms(2) show ?thesis
    by (fastforce simp: fun_info_v_def fun_info_def Let_def split: option.splits)
qed

section \<open>Witnesses\<close>

definition sample_symbol :: symbol_info where
  "sample_symbol = \<lparr>si_keywordp = False, si_read_only = False, si_special_p = False,
     si_value = LNil, si_symbol_macro = None, si_fboundp = False, si_macro_p = False,
     si_function = LNil, si_fboundp_setf = False, si_setf_function = LNil\<rparr>"

definition sample_genv :: genv where
  "sample_genv = \<lparr>symbol_info = (\<lambda>_. sample_symbol), nil_info = sample_symbol\<lparr>si_read_only := True\<rparr>,
     compiler_macro_fboundp = False, compiler_macro = (\<lambda>_. LNil)\<rparr>"

definition sample_comp :: comp where
  "sample_comp = register_cfunction 0 (fst (cfunction_make LNil LNil LNil LNil module_make))"

definition sample_ctxt :: cctx where
  "sample_ctxt = \<lparr>receiving = 1, dynenv = [], ctxt_cfunction = 0, source_info = LNil\<rparr>"

lemmas sample_defs = sample_symbol_def sample_genv_def sample_comp_def sample_ctxt_def
  module_make_def cfunction_make_def register_cfunction_def new_annot_def upd_cfun_def
  label_make_def make_null_lexical_environment_def


lemma bind_vars_lookup_witness:
  "\<exists>c' env' l. bind_vars sample_genv [LSym 7, LSym 8] sample_ctxt sample_comp
       make_null_lexical_environment = Inr (c', env') \<and>
     variableInfo env' (LSym 8) = Some (LexicalVarInfo l) \<and> slot_of c' l = 1"
proof -
  let ?r = "bind_vars sample_genv (map LSym [7, 8]) sample_ctxt sample_comp make_null_lexical_environment"
  obtain c' env' where r: "?r = Inr (c', env')"
    by (simp add: bind_vars_def sample_defs)
  from bind_vars_lookup[OF r] have "\<exists>l. variableInfo env' (LSym ([7, 8] ! 1)) = Some (LexicalVarInfo l) \<and>
      slot_of c' l = frame_end make_null_lexical_environment + 1"
    by (fastforce simp: make_null_lexical_environment_def)
  with r show ?thesis by (auto simp: make_null_lexical_environment_def)
qed


lemma bind1var_slot_wraps_witness:
  "\<exists>c' env' l. bind1var (LSym 7) sample_ctxt sample_comp
       (make_null_lexical_environment\<lparr>frame_end := 65536\<rparr>) = (c', env') \<and>
     map_of (vars env') (LSym 7) = Some (LexicalVarInfo l) \<and> slot_of c' l = 0"
proof -
  let ?env = "make_null_lexical_environment\<lparr>frame_end := 65536\<rparr>"
  obtain c' env' where b: "bind1var (LSym 7) sample_ctxt sample_comp ?env = (c', env')" by fastforce
  with bind1var_slot_wraps[OF _ b] show ?thesis by auto
qed

lemma var_info_v_eq_witness:
  "var_info_v sample_genv 7 (make_null_lexical_environment\<lparr>vars := [(LSym 7, SpecialVarInfo True)]\<rparr>) =
   Some (SpecialVarInfo True)"
  by (subst var_info_v_eq)
     (simp_all add: var_info_def variableInfo_def make_null_lexical_environment_def)

lemma fun_info_v_eq_witness:
  "fun_info_v sample_genv (LSym 7) (make_null_lexical_environment\<lparr>funs := [(LSym 7, LocalFunInfo 3)]\<rparr>) =
   Inr (Some (LocalFunInfo 3))"
  by (subst fun_info_v_eq)
     (simp_all add: fun_info_def functionInfo_def make_null_lexical_environment_def)

end
