(* ===== verification/Assemble.thy ===== *)
theory Assemble
  imports LexEnv
begin

text \<open>
  The assembling half of \<open>Context\<close>: indices of literals and closed-over variables,
  the byte sequences of instructions with short and long operands, and placing
  labels and fixups into the instruction stream of a cfunction.
\<close>

unbundle bit_operations_syntax

section \<open>Literals and closures\<close>

text \<open>
  The loops \<open>for (i = 0; i < length; ++i) if (match) return i;\<close> followed by a push:
  the first index that matches, or else a new element at the end.
\<close>

fun position_from :: "('a \<Rightarrow> bool) \<Rightarrow> nat \<Rightarrow> 'a list \<Rightarrow> nat option" where
  "position_from P i [] = None"
| "position_from P i (x # xs) = (if P x then Some i else position_from P (Suc i) xs)"

definition find_or_push :: "('a \<Rightarrow> bool) \<Rightarrow> 'a \<Rightarrow> 'a list \<Rightarrow> 'a list \<times> nat" where
  "find_or_push P new xs =
     (case position_from P 0 xs of
        Some i \<Rightarrow> (xs, i)
      | None \<Rightarrow> (xs @ [new], length xs))"

fun is_constant_of :: "lisp \<Rightarrow> literal \<Rightarrow> bool" where
  "is_constant_of v (ConstantInfo w) = eq_lisp w v"
| "is_constant_of v _ = False"

fun is_fcell_of :: "lisp \<Rightarrow> literal \<Rightarrow> bool" where
  "is_fcell_of n (FunctionCellInfo m) = eq_lisp m n"
| "is_fcell_of n _ = False"

definition update_literals :: "(literal list \<Rightarrow> literal list \<times> nat) \<Rightarrow> comp \<Rightarrow> comp \<times> nat" where
  "update_literals g c =
     (case g (mod_literals c) of (ls, i) \<Rightarrow> (c\<lparr>mod_literals := ls\<rparr>, i))"

definition literal_index :: "lisp \<Rightarrow> comp \<Rightarrow> comp \<times> nat" where
  "literal_index literal c =
     update_literals (find_or_push (is_constant_of literal) (ConstantInfo literal)) c"

definition new_literal_index :: "lisp \<Rightarrow> comp \<Rightarrow> comp \<times> nat" where
  "new_literal_index literal c =
     update_literals (\<lambda>ls. (ls @ [ConstantInfo literal], length ls)) c"

definition ltv_index :: "lisp \<Rightarrow> bool \<Rightarrow> comp \<Rightarrow> comp \<times> nat" where
  "ltv_index form read_only_p c =
     update_literals (\<lambda>ls. (ls @ [LoadTimeValueInfo form read_only_p], length ls)) c"

definition cfunction_index :: "nat \<Rightarrow> comp \<Rightarrow> comp \<times> nat" where
  "cfunction_index f c = update_literals (find_or_push (\<lambda>l. l = CfunctionLit f) (CfunctionLit f)) c"

definition fcell_index :: "lisp \<Rightarrow> comp \<Rightarrow> comp \<times> nat" where
  "fcell_index name c = update_literals (find_or_push (is_fcell_of name) (FunctionCellInfo name)) c"

definition vcell_index :: "nat \<Rightarrow> comp \<Rightarrow> comp \<times> nat" where
  "vcell_index name c =
     update_literals (find_or_push (\<lambda>l. l = VariableCellInfo name) (VariableCellInfo name)) c"

definition env_index :: "comp \<Rightarrow> comp \<times> nat" where
  "env_index c = update_literals (find_or_push (\<lambda>l. l = EnvInfo) EnvInfo) c"

definition closure_index :: "cctx \<Rightarrow> nat \<Rightarrow> comp \<Rightarrow> comp \<times> nat" where
  "closure_index ctxt info c =
     (case find_or_push (\<lambda>k. k = info) info (closed (cfun_of c (ctxt_cfunction ctxt))) of
        (cl, i) \<Rightarrow> (upd_cfun (ctxt_cfunction ctxt) (\<lambda>f. f\<lparr>closed := cl\<rparr>) c, i))"

definition push_debug_info :: "cctx \<Rightarrow> nat \<Rightarrow> comp \<Rightarrow> comp" where
  "push_debug_info ctxt d c =
     upd_cfun (ctxt_cfunction ctxt) (\<lambda>f. f\<lparr>debug_infos := debug_infos f @ [d]\<rparr>) c"

section \<open>Bytes of instructions\<close>

definition emit_bytes :: "nat \<Rightarrow> byte list \<Rightarrow> comp \<Rightarrow> comp" where
  "emit_bytes f bs c = upd_cfun f (\<lambda>cf. cf\<lparr>bytecode := bytecode cf @ bs\<rparr>) c"

abbreviation low_byte :: "nat \<Rightarrow> byte" where
  "low_byte n \<equiv> word_of_nat (n mod 256)"

abbreviation high_byte :: "nat \<Rightarrow> byte" where
  "high_byte n \<equiv> word_of_nat (n div 256)"

text \<open>
  \<open>clasp_to_integral<uint8_t>\<close> and \<open><uint16_t>\<close>: the value when it is in range,
  a type error otherwise.
\<close>

definition to_integral :: "nat \<Rightarrow> int \<Rightarrow> cerror + nat" where
  "to_integral w v = (if 0 \<le> v \<and> v < 2 ^ w then Inr (nat v) else Inl (TypeErr (LFix v)))"

fun integrals :: "nat \<Rightarrow> int list \<Rightarrow> cerror + nat list" where
  "integrals w [] = Inr []"
| "integrals w (v # vs) =
     bind_res (to_integral w v) (\<lambda>n. bind_res (integrals w vs) (\<lambda>ns. Inr (n # ns)))"

definition assemble :: "cctx \<Rightarrow> byte \<Rightarrow> int list \<Rightarrow> comp \<Rightarrow> cerror + comp" where
  "assemble ctxt opc operands c =
     bind_res (integrals 8 operands) (\<lambda>ns.
       Inr (emit_bytes (ctxt_cfunction ctxt) (opc # map word_of_nat ns) c))"

fun assemble_into :: "byte list \<Rightarrow> nat \<Rightarrow> int list \<Rightarrow> cerror + byte list" where
  "assemble_into code position [] = Inr code"
| "assemble_into code position (v # vs) =
     bind_res (to_integral 8 v) (\<lambda>n. assemble_into (code[position := word_of_nat n]) (Suc position) vs)"

text \<open>
  The scan for a long operand stops at the first one above 255, so an operand of
  more than 16 bits after it is only noticed while emitting.
\<close>

fun find_long :: "int list \<Rightarrow> cerror + bool" where
  "find_long [] = Inr False"
| "find_long (v # vs) =
     bind_res (to_integral 16 v) (\<lambda>n. if 255 < n then Inr True else find_long vs)"

definition assemble_maybe_long :: "cctx \<Rightarrow> byte \<Rightarrow> int list \<Rightarrow> comp \<Rightarrow> cerror + comp" where
  "assemble_maybe_long ctxt opc operands c =
     bind_res (find_long operands) (\<lambda>longp.
       if longp then
         bind_res (integrals 16 operands) (\<lambda>ns.
           Inr (emit_bytes (ctxt_cfunction ctxt)
             ([vm_code Vm_long, opc] @ concat (map (\<lambda>n. [low_byte n, high_byte n]) ns)) c))
       else
         bind_res (integrals 8 operands) (\<lambda>ns.
           Inr (emit_bytes (ctxt_cfunction ctxt) (opc # map word_of_nat ns) c)))"

definition assemble0 :: "cctx \<Rightarrow> byte \<Rightarrow> comp \<Rightarrow> comp" where
  "assemble0 ctxt opc c = emit_bytes (ctxt_cfunction ctxt) [opc] c"

definition assemble1 :: "cctx \<Rightarrow> byte \<Rightarrow> nat \<Rightarrow> comp \<Rightarrow> cerror + comp" where
  "assemble1 ctxt opc operand c =
     (let f = ctxt_cfunction ctxt in
      if operand < 2 ^ 8 then Inr (emit_bytes f [opc, word_of_nat operand] c)
      else if operand < 2 ^ 16 then
        Inr (emit_bytes f [vm_code Vm_long, opc, low_byte operand, high_byte operand] c)
      else Inl LimitReached)"

definition assemble2 :: "cctx \<Rightarrow> byte \<Rightarrow> nat \<Rightarrow> nat \<Rightarrow> comp \<Rightarrow> cerror + comp" where
  "assemble2 ctxt opc operand1 operand2 c =
     (let f = ctxt_cfunction ctxt in
      if operand1 < 2 ^ 8 \<and> operand2 < 2 ^ 8 then
        Inr (emit_bytes f [opc, word_of_nat operand1, word_of_nat operand2] c)
      else if operand1 < 2 ^ 16 \<and> operand2 < 2 ^ 16 then
        Inr (emit_bytes f [vm_code Vm_long, opc, low_byte operand1, high_byte operand1,
                           low_byte operand2, high_byte operand2] c)
      else Inl LimitReached)"

text \<open>
  The long form of \<open>parse-key-args\<close> pushes its two opcodes as fixnum objects.  The
  byte vector's \<open>vectorPushExtend\<close> takes a byte, and the only conversion of a fixnum
  pointer to a byte goes through its \<open>operator bool\<close>: a fixnum whose tagged word is
  not zero becomes 1.
\<close>

definition fixnum_as_byte :: "nat \<Rightarrow> byte" where
  "fixnum_as_byte n = (if n = 0 then 0 else 1)"

definition emit_parse_key_args ::
    "cctx \<Rightarrow> nat \<Rightarrow> nat \<Rightarrow> nat \<Rightarrow> nat \<Rightarrow> bool \<Rightarrow> comp \<Rightarrow> cerror + comp" where
  "emit_parse_key_args ctxt max_count key_count keystart indx aokp c =
     (let f = ctxt_cfunction ctxt in
      if max_count < 2 ^ 8 \<and> key_count < 2 ^ 8 \<and> keystart < 2 ^ 8 \<and> indx < 2 ^ 8 then
        Inr (emit_bytes f
          [vm_code Vm_parse_key_args, word_of_nat max_count,
           word_of_nat key_count OR (if aokp then 0x80 else 0),
           word_of_nat keystart, word_of_nat indx] c)
      else if max_count < 2 ^ 16 \<and> key_count < 2 ^ 16 \<and> keystart < 2 ^ 16 \<and> indx < 2 ^ 16 then
        Inr (emit_bytes f
          [fixnum_as_byte (unat (vm_code Vm_long)), fixnum_as_byte (unat (vm_code Vm_parse_key_args)),
           low_byte max_count, high_byte max_count, low_byte key_count,
           high_byte key_count OR (if aokp then 0x80 else 0),
           low_byte keystart, high_byte keystart, low_byte indx, high_byte indx] c)
      else Inl LimitReached)"

definition emit_bind :: "cctx \<Rightarrow> nat \<Rightarrow> nat \<Rightarrow> comp \<Rightarrow> cerror + comp" where
  "emit_bind ctxt count offset c =
     (if count = 1 then assemble1 ctxt (vm_code Vm_set) offset c
      else if count = 0 then Inr c
      else assemble2 ctxt (vm_code Vm_bind) count offset c)"

definition emit_call :: "cctx \<Rightarrow> nat \<Rightarrow> comp \<Rightarrow> cerror + comp" where
  "emit_call ctxt argcount c =
     (if receiving ctxt = 1 then assemble1 ctxt (vm_code Vm_call_receive_one) argcount c
      else if receiving ctxt = -1 then assemble1 ctxt (vm_code Vm_call) argcount c
      else assemble2 ctxt (vm_code Vm_call_receive_fixed) argcount (unat (word_of_int (receiving ctxt) :: u64)) c)"

definition emit_mv_call :: "cctx \<Rightarrow> comp \<Rightarrow> cerror + comp" where
  "emit_mv_call ctxt c =
     (if receiving ctxt = 1 then Inr (assemble0 ctxt (vm_code Vm_mv_call_receive_one) c)
      else if receiving ctxt = -1 then Inr (assemble0 ctxt (vm_code Vm_mv_call) c)
      else assemble1 ctxt (vm_code Vm_mv_call_receive_fixed) (unat (word_of_int (receiving ctxt) :: u64)) c)"

definition emit_special_bind :: "cctx \<Rightarrow> nat \<Rightarrow> comp \<Rightarrow> cerror + comp" where
  "emit_special_bind ctxt s c =
     (case vcell_index s c of (c', i) \<Rightarrow> assemble1 ctxt (vm_code Vm_special_bind) i c')"

fun emit_unbind :: "cctx \<Rightarrow> nat \<Rightarrow> comp \<Rightarrow> comp" where
  "emit_unbind ctxt 0 c = c"
| "emit_unbind ctxt (Suc count) c = emit_unbind ctxt count (assemble0 ctxt (vm_code Vm_unbind) c)"

section \<open>Placing annotations\<close>

definition label_contextualize :: "cctx \<Rightarrow> nat \<Rightarrow> comp \<Rightarrow> comp" where
  "label_contextualize ctxt lab c =
     (let f = ctxt_cfunction ctxt; cf = cfun_of c f;
          c1 = upd_annot lab (\<lambda>a. a\<lparr>ann_position := length (bytecode cf), ann_cfunction := Some f\<rparr>) c;
          c2 = upd_cfun f (\<lambda>cf. cf\<lparr>annotations := annotations cf @ [lab]\<rparr>) c1
      in upd_annot lab (\<lambda>a. a\<lparr>ann_index := length (annotations cf)\<rparr>) c2)"

definition fixup_contextualize :: "cctx \<Rightarrow> nat \<Rightarrow> comp \<Rightarrow> comp" where
  "fixup_contextualize ctxt fx c =
     (let f = ctxt_cfunction ctxt; cf = cfun_of c f; position = length (bytecode cf);
          c1 = upd_annot fx (\<lambda>a. a\<lparr>ann_cfunction := Some f, ann_initial_position := position,
                                    ann_position := position\<rparr>) c;
          c2 = upd_cfun f (\<lambda>cf. cf\<lparr>annotations := annotations cf @ [fx]\<rparr>) c1;
          c3 = upd_annot fx (\<lambda>a. a\<lparr>ann_index := length (annotations cf)\<rparr>) c2
      in emit_bytes f (replicate (ann_initial_size (annot_of c fx)) 0) c3)"

definition emit_fixup :: "cctx \<Rightarrow> annot_kind \<Rightarrow> comp \<Rightarrow> comp" where
  "emit_fixup ctxt k c =
     (case new_annot (fixup_make k) c of (c', fx) \<Rightarrow> fixup_contextualize ctxt fx c')"

definition emit_jump :: "cctx \<Rightarrow> nat \<Rightarrow> comp \<Rightarrow> comp" where
  "emit_jump ctxt lab c =
     emit_fixup ctxt (ControlLabelFixup lab (vm_code Vm_jump_8) (vm_code Vm_jump_16) (vm_code Vm_jump_24)) c"

definition emit_jump_if :: "cctx \<Rightarrow> nat \<Rightarrow> comp \<Rightarrow> comp" where
  "emit_jump_if ctxt lab c =
     emit_fixup ctxt (ControlLabelFixup lab (vm_code Vm_jump_if_8) (vm_code Vm_jump_if_16)
       (vm_code Vm_jump_if_24)) c"

definition emit_entry_or_save_sp :: "cctx \<Rightarrow> nat \<Rightarrow> comp \<Rightarrow> comp" where
  "emit_entry_or_save_sp ctxt de c = emit_fixup ctxt (EntryFixup de) c"

definition emit_ref_or_restore_sp :: "cctx \<Rightarrow> nat \<Rightarrow> comp \<Rightarrow> comp" where
  "emit_ref_or_restore_sp ctxt de c = emit_fixup ctxt (RestoreSPFixup de) c"

definition emit_exit :: "cctx \<Rightarrow> nat \<Rightarrow> comp \<Rightarrow> comp" where
  "emit_exit ctxt lab c =
     emit_fixup ctxt (ControlLabelFixup lab (vm_code Vm_exit_8) (vm_code Vm_exit_16) (vm_code Vm_exit_24)) c"

definition emit_exit_or_jump :: "cctx \<Rightarrow> nat \<Rightarrow> nat \<Rightarrow> comp \<Rightarrow> comp" where
  "emit_exit_or_jump ctxt de lab c = emit_fixup ctxt (ExitFixup de lab) c"

definition maybe_emit_entry_close :: "cctx \<Rightarrow> nat \<Rightarrow> comp \<Rightarrow> comp" where
  "maybe_emit_entry_close ctxt de c = emit_fixup ctxt (EntryCloseFixup de) c"

definition emit_catch :: "cctx \<Rightarrow> nat \<Rightarrow> comp \<Rightarrow> comp" where
  "emit_catch ctxt lab c =
     emit_fixup ctxt (ControlLabelFixup lab (vm_code Vm_catch_8) (vm_code Vm_catch_16) 0) c"

definition emit_jump_if_supplied :: "cctx \<Rightarrow> nat \<Rightarrow> nat \<Rightarrow> comp \<Rightarrow> comp" where
  "emit_jump_if_supplied ctxt lab ind c =
     emit_fixup ctxt (JumpIfSuppliedFixup lab (word_of_nat ind)) c"

definition reference_lexical_info :: "cctx \<Rightarrow> nat \<Rightarrow> comp \<Rightarrow> cerror + comp" where
  "reference_lexical_info ctxt info c =
     (if lex_cfunction (lex_of c info) = ctxt_cfunction ctxt
      then assemble1 ctxt (vm_code Vm_ref) (unat (frame_index (lex_of c info))) c
      else case closure_index ctxt info c of
             (c', i) \<Rightarrow> assemble1 ctxt (vm_code Vm_closure) i c')"

definition maybe_emit_make_cell :: "cctx \<Rightarrow> nat \<Rightarrow> comp \<Rightarrow> comp" where
  "maybe_emit_make_cell ctxt lx c = emit_fixup ctxt (LexRefFixup lx (vm_code Vm_make_cell)) c"

definition maybe_emit_cell_ref :: "cctx \<Rightarrow> nat \<Rightarrow> comp \<Rightarrow> comp" where
  "maybe_emit_cell_ref ctxt lx c = emit_fixup ctxt (LexRefFixup lx (vm_code Vm_cell_ref)) c"

definition maybe_emit_encage :: "cctx \<Rightarrow> nat \<Rightarrow> comp \<Rightarrow> comp" where
  "maybe_emit_encage ctxt lx c = emit_fixup ctxt (EncageFixup lx) c"

definition emit_lexical_set :: "cctx \<Rightarrow> nat \<Rightarrow> comp \<Rightarrow> comp" where
  "emit_lexical_set ctxt lx c = emit_fixup ctxt (LexSetFixup lx) c"

definition compile_literal :: "lisp \<Rightarrow> cctx \<Rightarrow> comp \<Rightarrow> cerror + comp" where
  "compile_literal literal ctxt c =
     (let push_it = (\<lambda>c. if literal = LNil then Inr (assemble0 ctxt (vm_code Vm_nil) c)
                    else case literal_index literal c of
                           (c', i) \<Rightarrow> assemble1 ctxt (vm_code Vm_const) i c')
      in if receiving ctxt = 0 then Inr c
         else if receiving ctxt = 1 then push_it c
         else if receiving ctxt = -1 then
           bind_res (push_it c) (\<lambda>c'. Inr (assemble0 ctxt (vm_code Vm_pop) c'))
         else Inl (CannotCompileLiteral (receiving ctxt)))"


section \<open>Interning into a vector\<close>

lemma position_from_Some:
  "position_from P i xs = Some j \<Longrightarrow> i \<le> j \<and> j < i + length xs \<and> P (xs ! (j - i))"
proof (induction xs arbitrary: i)
  case Nil
  then show ?case by simp
next
  case (Cons x xs)
  then show ?case
    by (cases "P x") (fastforce simp: nth_Cons' dest!: Cons.IH[of "Suc i"])+
qed

lemma position_from_None: "position_from P i xs = None \<longleftrightarrow> (\<forall>x \<in> set xs. \<not> P x)"
  by (induction xs arbitrary: i) auto

lemma position_from_append:
  "position_from P i (xs @ ys) =
     (case position_from P i xs of Some j \<Rightarrow> Some j | None \<Rightarrow> position_from P (i + length xs) ys)"
  by (induction xs arbitrary: i) (auto split: option.splits)

lemma find_or_push_spec:
  assumes "find_or_push P new xs = (ys, i)" "P new"
  shows "i < length ys \<and> P (ys ! i) \<and> (ys = xs \<or> ys = xs @ [new]) \<and> find_or_push P new ys = (ys, i)"
  using assms
  by (auto simp: find_or_push_def position_from_append split: option.splits
      dest: position_from_Some)

text \<open>
  The contract of the index operations of a compilation context: the index they
  return holds a suitable element, indices handed out before keep theirs, and
  asking again gives the same index without growing the vector.
\<close>

locale interner =
  fixes intern :: "comp \<Rightarrow> comp \<times> nat" and view :: "comp \<Rightarrow> 'a list" and good :: "'a \<Rightarrow> bool"
  assumes intern_hit: "intern c = (c', i) \<Longrightarrow> i < length (view c') \<and> good (view c' ! i)"
    and intern_extends: "intern c = (c', i) \<Longrightarrow> \<exists>new. view c' = view c @ new \<and> length new \<le> 1"
    and intern_again: "intern c = (c', i) \<Longrightarrow> intern c' = (c', i)"
begin

lemma intern_keeps_old:
  assumes "intern c = (c', i)" "j < length (view c)"
  shows "view c' ! j = view c ! j"
  using intern_extends[OF assms(1)] assms(2) by (auto simp: nth_append)

lemma intern_grows_once:
  assumes "intern c = (c1, i)" "intern c1 = (c2, k)"
  shows "c2 = c1 \<and> k = i \<and> length (view c2) \<le> Suc (length (view c))"
  using intern_again[OF assms(1)] assms(2) intern_extends[OF assms(1)] by auto

end

lemma update_literals_interner:
  assumes "P new"
  shows "interner (\<lambda>c. update_literals (find_or_push P new) c) mod_literals P"
proof
  fix c c' i assume u: "update_literals (find_or_push P new) c = (c', i)"
  then obtain ls where f: "find_or_push P new (mod_literals c) = (ls, i)"
    and c': "c' = c\<lparr>mod_literals := ls\<rparr>"
    by (auto simp: update_literals_def split: prod.splits)
  from find_or_push_spec[OF f assms] c'
  show "i < length (mod_literals c') \<and> P (mod_literals c' ! i)"
    "\<exists>new. mod_literals c' = mod_literals c @ new \<and> length new \<le> 1"
    "update_literals (find_or_push P new) c' = (c', i)"
    by (auto simp: update_literals_def)
qed

interpretation literals_intern: interner "literal_index v" mod_literals "is_constant_of v" for v
  using update_literals_interner[of "is_constant_of v" "ConstantInfo v"] by (simp add: literal_index_def[abs_def])

interpretation cfunctions_intern: interner "cfunction_index f" mod_literals "\<lambda>l. l = CfunctionLit f" for f
  using update_literals_interner[of "\<lambda>l. l = CfunctionLit f" "CfunctionLit f"]
  by (simp add: cfunction_index_def[abs_def])

interpretation fcells_intern: interner "fcell_index n" mod_literals "is_fcell_of n" for n
  using update_literals_interner[of "is_fcell_of n" "FunctionCellInfo n"] by (simp add: fcell_index_def[abs_def])

interpretation vcells_intern: interner "vcell_index n" mod_literals "\<lambda>l. l = VariableCellInfo n" for n
  using update_literals_interner[of "\<lambda>l. l = VariableCellInfo n" "VariableCellInfo n"]
  by (simp add: vcell_index_def[abs_def])

interpretation env_intern: interner env_index mod_literals "\<lambda>l. l = EnvInfo"
  using update_literals_interner[of "\<lambda>l. l = EnvInfo" EnvInfo] by (simp add: env_index_def[abs_def])

lemma cfuns_no_change: "f < length (cfuns c) \<Longrightarrow> closed (cfun_of c f) = cl \<Longrightarrow>
   upd_cfun f (\<lambda>cf. cf\<lparr>closed := cl\<rparr>) c = c"
  by (auto simp: upd_cfun_def cfun_of_def)

text \<open>A closed-over variable gets one slot of the closure vector: its index names it,
  earlier indices are unchanged, and asking again returns the same index.\<close>

theorem closure_index_stable:
  assumes "closure_index ctxt info c = (c', i)" and f: "ctxt_cfunction ctxt < length (cfuns c)"
  defines "view \<equiv> \<lambda>c. closed (cfun_of c (ctxt_cfunction ctxt))"
  shows "i < length (view c') \<and> view c' ! i = info \<and>
    (\<forall>j < length (view c). view c' ! j = view c ! j) \<and> closure_index ctxt info c' = (c', i)"
proof -
  from assms(1) obtain cl where fp: "find_or_push (\<lambda>k. k = info) info (view c) = (cl, i)"
    and c': "c' = upd_cfun (ctxt_cfunction ctxt) (\<lambda>f. f\<lparr>closed := cl\<rparr>) c"
    by (auto simp: closure_index_def view_def split: prod.splits)
  from f c' have v: "view c' = cl" by (simp add: view_def cfun_of_upd_cfun)
  from find_or_push_spec[OF fp] have s: "i < length cl" "cl ! i = info"
    "cl = view c \<or> cl = view c @ [info]" "find_or_push (\<lambda>k. k = info) info cl = (cl, i)" by auto
  have "closure_index ctxt info c' = (c', i)"
    using s(4) v f c' by (simp add: closure_index_def view_def cfuns_no_change)
  moreover have "cl ! j = view c ! j" if "j < length (view c)" for j
    using s(3) that by (auto simp: nth_append)
  ultimately show ?thesis using s(1,2) v by simp
qed

text \<open>Interning a literal returns an index whose entry is a constant \<open>EQ\<close> to it, keeps
  the entries at all indices handed out before, and is idempotent.\<close>

theorem literal_index_stable:
  assumes "literal_index v c = (c', i)"
  shows "i < length (mod_literals c') \<and> is_constant_of v (mod_literals c' ! i) \<and>
    (\<forall>j < length (mod_literals c). mod_literals c' ! j = mod_literals c ! j) \<and>
    literal_index v c' = (c', i)"
  using literals_intern.intern_hit[OF assms] literals_intern.intern_keeps_old[OF assms]
    literals_intern.intern_again[OF assms] by blast

lemma closure_index_stable_witness:
  "\<exists>c' i. closure_index sample_ctxt 4 sample_comp = (c', i) \<and>
     closed (cfun_of c' (ctxt_cfunction sample_ctxt)) ! i = 4"
proof -
  obtain c' i where e: "closure_index sample_ctxt 4 sample_comp = (c', i)" by fastforce
  have "ctxt_cfunction sample_ctxt < length (cfuns sample_comp)" by (simp add: sample_defs)
  with closure_index_stable[OF e] e show ?thesis by blast
qed

lemma literal_index_stable_witness:
  "\<exists>c' i. literal_index (LFix 3) sample_comp = (c', i) \<and> is_constant_of (LFix 3) (mod_literals c' ! i)"
proof -
  obtain c' i where e: "literal_index (LFix 3) sample_comp = (c', i)" by fastforce
  with literal_index_stable[OF e] show ?thesis by blast
qed

end
