(* ===== verification/Fixups.thy ===== *)
theory Fixups
  imports Assemble
begin

text \<open>
  Fixups (\<open>Fixup_O\<close> and its subclasses): the displacement to a label, the size a
  fixup needs, and the bytes it writes into the final bytecode vector; together
  with the proof that what a label fixup writes is what the virtual machine's
  operand readers recover.
\<close>

unbundle bit_operations_syntax

section \<open>Positions and displacements\<close>

definition module_position :: "comp \<Rightarrow> nat \<Rightarrow> nat" where
  "module_position c a =
     ann_position (annot_of c a) + cf_position (cfun_of c (the (ann_cfunction (annot_of c a))))"

definition delta :: "comp \<Rightarrow> nat \<Rightarrow> nat \<Rightarrow> int" where
  "delta c fx lab = int (module_position c lab) - int (module_position c fx)"

section \<open>Sizes\<close>

definition resize_control_label_fixup :: "int \<Rightarrow> cerror + nat" where
  "resize_control_label_fixup d =
     (if - (2 ^ 7) \<le> d \<and> d \<le> 2 ^ 7 - 1 then Inr 2
      else if - (2 ^ 15) \<le> d \<and> d \<le> 2 ^ 15 - 1 then Inr 3
      else if - (2 ^ 23) \<le> d \<and> d \<le> 2 ^ 23 - 1 then Inr 4
      else Inl LimitReached)"

definition resize_jump_if_supplied :: "int \<Rightarrow> cerror + nat" where
  "resize_jump_if_supplied d =
     (if - (2 ^ 7) \<le> d \<and> d \<le> 2 ^ 7 - 1 then Inr 3
      else if - (2 ^ 15) \<le> d \<and> d \<le> 2 ^ 15 - 1 then Inr 4
      else Inl LimitReached)"

definition resize_lex_ref :: "lexical_info \<Rightarrow> nat" where
  "resize_lex_ref l = (if indirect_lexical_p l then 1 else 0)"

definition resize_encage :: "lexical_info \<Rightarrow> cerror + nat" where
  "resize_encage l =
     (let index = unat (frame_index l) in
      if \<not> indirect_lexical_p l then Inr 0
      else if index < 2 ^ 8 then Inr 2
      else if index < 2 ^ 16 then Inr 4
      else Inl LimitReached)"

definition resize_lex_set :: "lexical_info \<Rightarrow> cerror + nat" where
  "resize_lex_set l =
     (let indirectp = indirect_lexical_p l; index = unat (frame_index l) in
      if index < 2 ^ 8 then (if indirectp then Inr 3 else Inr 2)
      else if index < 2 ^ 16 then (if indirectp then Inr 5 else Inr 4)
      else Inl LimitReached)"

definition resize_entry :: "lexical_info \<Rightarrow> nat" where
  "resize_entry l = (if unat (frame_index l) < 2 ^ 8 then 2 else 4)"

definition resize_restore_sp :: "lexical_info \<Rightarrow> nat" where
  "resize_restore_sp l = (if unat (frame_index l) < 2 ^ 8 then 2 else 4)"

definition resize_entry_close :: "lexical_info \<Rightarrow> nat" where
  "resize_entry_close l = (if closed_over_p l then 1 else 0)"

text \<open>The virtual method, dispatching on the class of the fixup.\<close>

definition resize :: "comp \<Rightarrow> nat \<Rightarrow> cerror + nat" where
  "resize c fx =
     (case ann_kind (annot_of c fx) of
        Label \<Rightarrow> Inr 0
      | ControlLabelFixup lab _ _ _ \<Rightarrow> resize_control_label_fixup (delta c fx lab)
      | JumpIfSuppliedFixup lab _ \<Rightarrow> resize_jump_if_supplied (delta c fx lab)
      | LexRefFixup l _ \<Rightarrow> Inr (resize_lex_ref (lex_of c l))
      | EncageFixup l \<Rightarrow> resize_encage (lex_of c l)
      | LexSetFixup l \<Rightarrow> resize_lex_set (lex_of c l)
      | EntryFixup l \<Rightarrow> Inr (resize_entry (lex_of c l))
      | RestoreSPFixup l \<Rightarrow> Inr (resize_restore_sp (lex_of c l))
      | ExitFixup _ lab \<Rightarrow> resize_control_label_fixup (delta c fx lab)
      | EntryCloseFixup l \<Rightarrow> Inr (resize_entry_close (lex_of c l)))"

section \<open>Emission\<close>

text \<open>The loop that writes an offset one byte at a time, least significant first.\<close>

fun write_offset :: "nat \<Rightarrow> nat \<Rightarrow> u64 \<Rightarrow> byte list \<Rightarrow> byte list" where
  "write_offset 0 p offset code = code"
| "write_offset (Suc n) p offset code =
     write_offset n (Suc p) (drop_bit 8 offset) (code[p := ucast (offset AND 0xff)])"

definition emit_control_label_fixup ::
    "nat \<Rightarrow> u64 \<Rightarrow> nat \<Rightarrow> byte list \<Rightarrow> byte \<Rightarrow> byte \<Rightarrow> byte \<Rightarrow> cerror + byte list" where
  "emit_control_label_fixup sz offset position code opcode8 opcode16 opcode24 =
     (let wr = (\<lambda>opc. Inr (write_offset (sz - 1) (position + 1) offset (code[position := opc])))
      in if sz = 2 then wr opcode8 else if sz = 3 then wr opcode16 else if sz = 4 then wr opcode24
         else Inl (AssemblerBug sz))"

definition emit_jump_if_supplied_fixup ::
    "nat \<Rightarrow> byte \<Rightarrow> u64 \<Rightarrow> nat \<Rightarrow> byte list \<Rightarrow> cerror + byte list" where
  "emit_jump_if_supplied_fixup sz index offset position code =
     (let wr = (\<lambda>opc. Inr (write_offset (sz - 2) (position + 2) offset
                             (code[position := opc, position + 1 := index])))
      in if sz = 3 then wr (vm_code Vm_jump_if_supplied_8)
         else if sz = 4 then wr (vm_code Vm_jump_if_supplied_16)
         else Inl (AssemblerBug sz))"

definition emit_lex_ref :: "nat \<Rightarrow> byte \<Rightarrow> nat \<Rightarrow> byte list \<Rightarrow> cerror + byte list" where
  "emit_lex_ref sz opc position code =
     (if sz = 1 then Inr (code[position := opc]) else Inl (AssemblerBug sz))"

definition emit_encage :: "nat \<Rightarrow> nat \<Rightarrow> nat \<Rightarrow> byte list \<Rightarrow> cerror + byte list" where
  "emit_encage sz index position code =
     (if sz = 2 then
        Inr (code[position := vm_code Vm_encell, position + 1 := word_of_nat index])
      else if sz = 4 then
        Inr (code[position := vm_code Vm_long, position + 1 := vm_code Vm_encell,
                  position + 2 := low_byte index, position + 3 := high_byte index])
      else Inl (AssemblerBug sz))"

definition emit_lex_set :: "nat \<Rightarrow> nat \<Rightarrow> nat \<Rightarrow> byte list \<Rightarrow> cerror + byte list" where
  "emit_lex_set sz index position code =
     (if sz = 2 then Inr (code[position := vm_code Vm_set, position + 1 := word_of_nat index])
      else if sz = 3 then
        Inr (code[position := vm_code Vm_ref, position + 1 := word_of_nat index,
                  position + 2 := vm_code Vm_cell_set])
      else if sz = 4 then
        Inr (code[position := vm_code Vm_long, position + 1 := vm_code Vm_set,
                  position + 2 := low_byte index, position + 3 := high_byte index])
      else if sz = 5 then
        Inr (code[position := vm_code Vm_long, position + 1 := vm_code Vm_ref,
                  position + 2 := low_byte index, position + 3 := high_byte index,
                  position + 4 := vm_code Vm_cell_set])
      else Inl (AssemblerBug sz))"

definition emit_long_prefixed :: "byte \<Rightarrow> nat \<Rightarrow> nat \<Rightarrow> byte list \<Rightarrow> byte list" where
  "emit_long_prefixed opc index position code =
     (if index \<ge> 2 ^ 8 then
        code[position := vm_code Vm_long, position + 1 := opc,
             position + 2 := low_byte index, position + 3 := high_byte index]
      else code[position := opc, position + 1 := word_of_nat index])"

definition emit_entry :: "lexical_info \<Rightarrow> nat \<Rightarrow> byte list \<Rightarrow> byte list" where
  "emit_entry l position code =
     emit_long_prefixed (if closed_over_p l then vm_code Vm_entry else vm_code Vm_save_sp)
       (unat (frame_index l)) position code"

definition emit_restore_sp :: "lexical_info \<Rightarrow> nat \<Rightarrow> byte list \<Rightarrow> byte list" where
  "emit_restore_sp l position code =
     emit_long_prefixed (if closed_over_p l then vm_code Vm_ref else vm_code Vm_restore_sp)
       (unat (frame_index l)) position code"

definition emit_exit_fixup :: "lexical_info \<Rightarrow> nat \<Rightarrow> u64 \<Rightarrow> nat \<Rightarrow> byte list \<Rightarrow> cerror + byte list" where
  "emit_exit_fixup l sz offset position code =
     (if closed_over_p l
      then emit_control_label_fixup sz offset position code
             (vm_code Vm_exit_8) (vm_code Vm_exit_16) (vm_code Vm_exit_24)
      else emit_control_label_fixup sz offset position code
             (vm_code Vm_jump_8) (vm_code Vm_jump_16) (vm_code Vm_jump_24))"

definition emit_entry_close :: "nat \<Rightarrow> nat \<Rightarrow> byte list \<Rightarrow> cerror + byte list" where
  "emit_entry_close sz position code =
     (if sz = 1 then Inr (code[position := vm_code Vm_entry_close]) else Inl (AssemblerBug sz))"

definition emit :: "comp \<Rightarrow> nat \<Rightarrow> nat \<Rightarrow> byte list \<Rightarrow> cerror + byte list" where
  "emit c fx position code =
     (let sz = ann_size (annot_of c fx) in
      case ann_kind (annot_of c fx) of
        Label \<Rightarrow> Inr code
      | ControlLabelFixup lab o8 o16 o24 \<Rightarrow>
          emit_control_label_fixup sz (word_of_int (delta c fx lab)) position code o8 o16 o24
      | JumpIfSuppliedFixup lab index \<Rightarrow>
          emit_jump_if_supplied_fixup sz index (word_of_int (delta c fx lab)) position code
      | LexRefFixup l opc \<Rightarrow> emit_lex_ref sz opc position code
      | EncageFixup l \<Rightarrow> emit_encage sz (unat (frame_index (lex_of c l))) position code
      | LexSetFixup l \<Rightarrow> emit_lex_set sz (unat (frame_index (lex_of c l))) position code
      | EntryFixup l \<Rightarrow> Inr (emit_entry (lex_of c l) position code)
      | RestoreSPFixup l \<Rightarrow> Inr (emit_restore_sp (lex_of c l) position code)
      | ExitFixup l lab \<Rightarrow>
          emit_exit_fixup (lex_of c l) sz (word_of_int (delta c fx lab)) position code
      | EntryCloseFixup l \<Rightarrow> emit_entry_close sz position code)"

section \<open>The bytes a fixup stands for\<close>

fun offset_bytes :: "nat \<Rightarrow> u64 \<Rightarrow> byte list" where
  "offset_bytes 0 offset = []"
| "offset_bytes (Suc n) offset = ucast (offset AND 0xff) # offset_bytes n (drop_bit 8 offset)"

definition control_bytes :: "nat \<Rightarrow> int \<Rightarrow> byte \<Rightarrow> byte \<Rightarrow> byte \<Rightarrow> byte list" where
  "control_bytes sz d o8 o16 o24 =
     (if sz = 2 then o8 else if sz = 3 then o16 else o24) # offset_bytes (sz - 1) (word_of_int d)"

definition long_prefixed_bytes :: "byte \<Rightarrow> nat \<Rightarrow> byte list" where
  "long_prefixed_bytes opc index =
     (if index < 2 ^ 8 then [opc, word_of_nat index]
      else [vm_code Vm_long, opc, low_byte index, high_byte index])"

definition fixup_bytes :: "comp \<Rightarrow> nat \<Rightarrow> byte list" where
  "fixup_bytes c fx =
     (let sz = ann_size (annot_of c fx) in
      case ann_kind (annot_of c fx) of
        Label \<Rightarrow> []
      | ControlLabelFixup lab o8 o16 o24 \<Rightarrow> control_bytes sz (delta c fx lab) o8 o16 o24
      | JumpIfSuppliedFixup lab index \<Rightarrow>
          (if sz = 3 then vm_code Vm_jump_if_supplied_8 else vm_code Vm_jump_if_supplied_16) # index #
          offset_bytes (sz - 2) (word_of_int (delta c fx lab))
      | LexRefFixup l opc \<Rightarrow> (if sz = 0 then [] else [opc])
      | EncageFixup l \<Rightarrow>
          (if sz = 0 then [] else long_prefixed_bytes (vm_code Vm_encell) (unat (frame_index (lex_of c l))))
      | LexSetFixup l \<Rightarrow>
          (if indirect_lexical_p (lex_of c l)
           then long_prefixed_bytes (vm_code Vm_ref) (unat (frame_index (lex_of c l))) @ [vm_code Vm_cell_set]
           else long_prefixed_bytes (vm_code Vm_set) (unat (frame_index (lex_of c l))))
      | EntryFixup l \<Rightarrow>
          long_prefixed_bytes (if closed_over_p (lex_of c l) then vm_code Vm_entry else vm_code Vm_save_sp)
            (unat (frame_index (lex_of c l)))
      | RestoreSPFixup l \<Rightarrow>
          long_prefixed_bytes (if closed_over_p (lex_of c l) then vm_code Vm_ref else vm_code Vm_restore_sp)
            (unat (frame_index (lex_of c l)))
      | ExitFixup l lab \<Rightarrow>
          (if closed_over_p (lex_of c l)
           then control_bytes sz (delta c fx lab) (vm_code Vm_exit_8) (vm_code Vm_exit_16) (vm_code Vm_exit_24)
           else control_bytes sz (delta c fx lab) (vm_code Vm_jump_8) (vm_code Vm_jump_16) (vm_code Vm_jump_24))
      | EntryCloseFixup l \<Rightarrow> (if sz = 0 then [] else [vm_code Vm_entry_close]))"

lemma write_offset_eq: "write_offset n p offset code = write_list code p (offset_bytes n offset)"
  by (induction n p offset code rule: write_offset.induct) simp_all

lemma length_offset_bytes [simp]: "length (offset_bytes n w) = n"
  by (induction n w rule: offset_bytes.induct) simp_all

lemma emit_control_label_fixup_eq:
  "sz \<in> {2, 3, 4} \<Longrightarrow> emit_control_label_fixup sz (word_of_int d) p code o8 o16 o24 =
     Inr (write_list code p (control_bytes sz d o8 o16 o24))"
  by (auto simp: emit_control_label_fixup_def control_bytes_def write_offset_eq)

lemma emit_long_prefixed_eq:
  "emit_long_prefixed opc index p code = write_list code p (long_prefixed_bytes opc index)"
  by (simp add: emit_long_prefixed_def long_prefixed_bytes_def numeral_3_eq_3)

lemma resize_control_sizes: "resize_control_label_fixup d = Inr n \<Longrightarrow> n \<in> {2, 3, 4}"
  by (auto simp: resize_control_label_fixup_def split: if_splits)

lemma resize_supplied_sizes: "resize_jump_if_supplied d = Inr n \<Longrightarrow> n \<in> {3, 4}"
  by (auto simp: resize_jump_if_supplied_def split: if_splits)

lemma frame_index_16: "unat (frame_index l) < 65536"
  using unsigned_less[of "frame_index l"] by simp


text \<open>
  For every fixup whose size is the one it asks for, \<open>emit\<close> succeeds and writes
  exactly the bytes the fixup stands for.
\<close>

lemma emit_eq:
  assumes "resize c fx = Inr (ann_size (annot_of c fx))" "ann_size (annot_of c fx) \<noteq> 0"
  shows "emit c fx p code = Inr (write_list code p (fixup_bytes c fx))"
proof (cases "ann_kind (annot_of c fx)")
  case (ControlLabelFixup lab o8 o16 o24)
  with assms show ?thesis
    by (simp add: resize_def emit_def fixup_bytes_def Let_def emit_control_label_fixup_eq
        resize_control_sizes[simplified])
next
  case (JumpIfSuppliedFixup lab index)
  with assms(1) resize_supplied_sizes[of "delta c fx lab" "ann_size (annot_of c fx)"] show ?thesis
    by (auto simp: resize_def emit_def fixup_bytes_def Let_def emit_jump_if_supplied_fixup_def
        write_offset_eq)
next
  case (ExitFixup l lab)
  with assms show ?thesis
    by (simp add: resize_def emit_def fixup_bytes_def Let_def emit_exit_fixup_def
        emit_control_label_fixup_eq resize_control_sizes[simplified])
next
  case (EncageFixup l)
  with assms frame_index_16[of "lex_of c l"] show ?thesis
    by (auto simp: resize_def emit_def fixup_bytes_def Let_def resize_encage_def emit_encage_def
        long_prefixed_bytes_def numeral_3_eq_3 split: if_splits)
next
  case (LexSetFixup l)
  with assms frame_index_16[of "lex_of c l"] show ?thesis
    by (auto simp: resize_def emit_def fixup_bytes_def Let_def resize_lex_set_def emit_lex_set_def
        long_prefixed_bytes_def numeral_3_eq_3 numeral_eq_Suc[of "num.Bit0 (num.Bit0 num.One)"]
        split: if_splits)
next
  case (LexRefFixup l opc)
  with assms show ?thesis
    by (auto simp: resize_def emit_def fixup_bytes_def Let_def resize_lex_ref_def emit_lex_ref_def
        split: if_splits)
next
  case (EntryCloseFixup l)
  with assms show ?thesis
    by (auto simp: resize_def emit_def fixup_bytes_def Let_def resize_entry_close_def
        emit_entry_close_def split: if_splits)
qed (use assms in \<open>simp_all add: resize_def emit_def fixup_bytes_def emit_entry_def
    emit_restore_sp_def emit_long_prefixed_eq\<close>)

lemma length_fixup_bytes:
  assumes "resize c fx = Inr (ann_size (annot_of c fx))"
  shows "length (fixup_bytes c fx) = ann_size (annot_of c fx)"
proof (cases "ann_kind (annot_of c fx)")
  case (ControlLabelFixup lab o8 o16 o24)
  with assms resize_control_sizes[of "delta c fx lab" "ann_size (annot_of c fx)"] show ?thesis
    by (auto simp: resize_def fixup_bytes_def control_bytes_def)
next
  case (ExitFixup l lab)
  with assms resize_control_sizes[of "delta c fx lab" "ann_size (annot_of c fx)"] show ?thesis
    by (auto simp: resize_def fixup_bytes_def control_bytes_def)
next
  case (JumpIfSuppliedFixup lab index)
  with assms resize_supplied_sizes[of "delta c fx lab" "ann_size (annot_of c fx)"] show ?thesis
    by (auto simp: resize_def fixup_bytes_def)
next
  case (EncageFixup l)
  with assms show ?thesis
    by (auto simp: resize_def fixup_bytes_def resize_encage_def long_prefixed_bytes_def Let_def
        split: if_splits)
next
  case (LexSetFixup l)
  with assms show ?thesis
    by (auto simp: resize_def fixup_bytes_def resize_lex_set_def long_prefixed_bytes_def Let_def
        split: if_splits)
qed (use assms in \<open>auto simp: resize_def fixup_bytes_def resize_lex_ref_def resize_entry_def
    resize_restore_sp_def resize_entry_close_def long_prefixed_bytes_def split: if_splits\<close>)

text \<open>A fixup over a lexical variable always fits: its size never exceeds five bytes and
  the limit error of its \<open>resize\<close> is unreachable, because a frame index has 16 bits.\<close>

theorem lexical_fixups_always_fit:
  assumes "ann_kind (annot_of c fx) \<in> {EncageFixup l, LexSetFixup l, EntryFixup l, RestoreSPFixup l}"
  shows "\<exists>n. resize c fx = Inr n \<and> n \<le> 5"
  using assms frame_index_16[of "lex_of c l"]
  by (auto simp: resize_def resize_encage_def resize_lex_set_def resize_entry_def
      resize_restore_sp_def Let_def)

section \<open>Displacements survive the trip through the instruction stream\<close>

text \<open>
  The contract between the assembler, which writes a displacement as little-endian
  bytes, and the virtual machine, which reads it back.
\<close>

locale label_codec =
  fixes width :: nat and lo hi :: int and read :: "byte list \<Rightarrow> int"
  assumes codec: "lo \<le> d \<Longrightarrow> d \<le> hi \<Longrightarrow> read (offset_bytes width (word_of_int d)) = d"
begin

lemma lands_on_label:
  assumes "lo \<le> delta c fx lab" "delta c fx lab \<le> hi"
  shows "int (module_position c fx) + read (offset_bytes width (word_of_int (delta c fx lab))) =
    int (module_position c lab)"
  using codec[OF assms] by (simp add: delta_def)

lemma displacements_distinct:
  assumes "lo \<le> d" "d \<le> hi" "lo \<le> e" "e \<le> hi"
    and "offset_bytes width (word_of_int d) = offset_bytes width (word_of_int e)"
  shows "d = e"
  using codec[of d] codec[of e] assms by metis

end

lemma mask_8_64: "(0xff :: u64) = mask 8"
  by (simp add: mask_eq_exp_minus_1)

lemma ucast_and_255: "(ucast ((w :: u64) AND 0xff) :: byte) = ucast w"
  unfolding mask_8_64 by (rule bit_word_eqI) (auto simp: bit_simps)

lemma offset_bytes_unfold:
  "offset_bytes 1 w = [ucast w]"
  "offset_bytes 2 w = [ucast w, ucast (drop_bit 8 w)]"
  "offset_bytes 3 w = [ucast w, ucast (drop_bit 8 w), ucast (drop_bit 16 w)]"
  by (simp_all add: numeral_eq_Suc ucast_and_255)

lemma bytes_16: "(ucast (ucast w :: byte) OR push_bit 8 (ucast (ucast (drop_bit 8 (w :: u64)) :: byte)) :: u16)
   = ucast w"
  by (rule bit_word_eqI) (auto simp: bit_simps)

lemma ucast_word_of_int_8: "(ucast (word_of_int d :: u64) :: byte) = word_of_int d"
  by (rule bit_word_eqI) (auto simp: bit_simps)

lemma ucast_word_of_int_16: "(ucast (word_of_int d :: u64) :: u16) = word_of_int d"
  by (rule bit_word_eqI) (auto simp: bit_simps)

lemma read_8_codec:
  assumes "- 128 \<le> d" "d \<le> 127"
  shows "s8 (hd (offset_bytes 1 (word_of_int d))) = d"
  using assms by (simp add: ucast_and_255 s8_def ucast_word_of_int_8 sint_sbintrunc'
      signed_take_bit_int_eq_self)

lemma read_16_codec:
  assumes "- 32768 \<le> d" "d \<le> 32767"
  shows "read_s16 (offset_bytes 2 (word_of_int d) ! 0) (offset_bytes 2 (word_of_int d) ! 1) = d"
  using assms by (simp add: offset_bytes_unfold read_s16_def bytes_16 ucast_word_of_int_16
      sint_sbintrunc' signed_take_bit_int_eq_self)

lemma mask_7_8: "(0x7f :: byte) = mask 7"
  by (simp add: mask_eq_exp_minus_1)

lemma bytes_24:
  "((ucast (ucast w :: byte) OR push_bit 8 (ucast (ucast (drop_bit 8 w) :: byte))) OR
    push_bit 16 (ucast ((ucast (drop_bit 16 w) :: byte) AND 0x7f)) :: u32) = ucast (take_bit 23 (w :: u64))"
  unfolding mask_7_8 by (rule bit_word_eqI) (auto simp: bit_simps)

text \<open>What \<open>read_label\<close> makes of a three-byte displacement: the sign bit is lost.\<close>

lemma read_label_24:
  "read_label (offset_bytes 3 (word_of_int d)) = d mod 2 ^ 23"
proof -
  have "read_label (offset_bytes 3 (word_of_int d)) =
      sint (ucast (take_bit 23 (word_of_int d :: u64)) :: u32)"
    by (simp add: offset_bytes_unfold read_label_def bytes_24)
  also have "(ucast (take_bit 23 (word_of_int d :: u64)) :: u32) = word_of_int (take_bit 23 d)"
    by (rule bit_word_eqI) (auto simp: bit_simps)
  also have "sint (word_of_int (take_bit 23 d) :: u32) = take_bit 23 d"
    by (simp add: sint_sbintrunc') (rule signed_take_bit_int_eq_self,
      simp_all add: take_bit_eq_mod pos_mod_bound order_trans[OF _ pos_mod_sign] less_trans[OF pos_mod_bound])
  finally show ?thesis by (simp add: take_bit_eq_mod)
qed

interpretation codec8: label_codec 1 "-128" 127 "\<lambda>bs. s8 (hd bs)"
  by unfold_locales (rule read_8_codec)

interpretation codec16: label_codec 2 "-32768" 32767 "\<lambda>bs. read_s16 (bs ! 0) (bs ! 1)"
  by unfold_locales (rule read_16_codec)

interpretation codec24: label_codec 3 0 "2 ^ 23 - 1" read_label
  by unfold_locales (simp add: read_label_24)

text \<open>An 8-bit or 16-bit displacement written by a label fixup is read back by the virtual
  machine so that the jump lands on the label, in both directions.\<close>

theorem short_displacements_land:
  "(- 128 \<le> delta c fx lab \<and> delta c fx lab \<le> 127 \<longrightarrow>
     int (module_position c fx) + s8 (hd (offset_bytes 1 (word_of_int (delta c fx lab)))) =
     int (module_position c lab)) \<and>
   (- 32768 \<le> delta c fx lab \<and> delta c fx lab \<le> 32767 \<longrightarrow>
     (let bs = offset_bytes 2 (word_of_int (delta c fx lab)) in
      int (module_position c fx) + read_s16 (bs ! 0) (bs ! 1) = int (module_position c lab)))"
  using codec8.lands_on_label[of c fx lab] codec16.lands_on_label[of c fx lab]
  by (simp add: Let_def)

text \<open>C0: a 24-bit displacement is read back exactly when it is not negative; a backward one
  comes back \<open>2^23\<close> too large, because \<open>read_label\<close> masks the sign bit away.\<close>

theorem label24_loses_sign:
  assumes "- (2 ^ 23) \<le> d" "d < 2 ^ 23"
  shows "read_label (offset_bytes 3 (word_of_int d)) = (if d < 0 then d + 2 ^ 23 else d)"
proof (cases "d < 0")
  case True
  have "d mod 2 ^ 23 = (d + 2 ^ 23) mod 2 ^ 23" by simp
  also have "\<dots> = d + 2 ^ 23" using True assms by (intro mod_pos_pos_trivial) simp_all
  finally show ?thesis using True by (simp add: read_label_24)
next
  case False
  with assms show ?thesis by (simp add: read_label_24)
qed

section \<open>Witnesses\<close>

definition sample_fixups :: comp where
  "sample_fixups = sample_comp\<lparr>annots := [fixup_make (LexSetFixup 0)],
     lexs := [lexical_info_make 300 0]\<rparr>"

lemma lexical_fixups_always_fit_witness:
  "ann_kind (annot_of sample_fixups 0) = LexSetFixup 0 \<and> (\<exists>n. resize sample_fixups 0 = Inr n \<and> n \<le> 5)"
proof -
  have k: "ann_kind (annot_of sample_fixups 0) = LexSetFixup 0"
    by (simp add: sample_fixups_def annot_of_def fixup_make_def)
  then show ?thesis using lexical_fixups_always_fit[of sample_fixups 0 0] by simp
qed

lemma short_displacements_land_witness:
  "int (module_position sample_fixups 0) +
     s8 (hd (offset_bytes 1 (word_of_int (delta sample_fixups 0 0)))) =
   int (module_position sample_fixups 0)"
  using short_displacements_land[of sample_fixups 0 0] by (simp add: delta_def)

lemma label24_loses_sign_witness:
  "read_label (offset_bytes 3 (word_of_int (- 40000))) = - 40000 + 2 ^ 23"
  using label24_loses_sign[of "- 40000"] by simp

end
