(* ===== verification/Layout.thy ===== *)
theory Layout
  imports Link
begin

text \<open>
  The layout invariant of linking: growing a fixup keeps every position equal to
  the assembly-time position shifted by the growth before it, sizes never shrink,
  and the loop ends with every fixup at the size it asks for.
\<close>

section \<open>Well-formed modules\<close>

fun label_target :: "annot_kind \<Rightarrow> nat option" where
  "label_target (ControlLabelFixup lab _ _ _) = Some lab"
| "label_target (JumpIfSuppliedFixup lab _) = Some lab"
| "label_target (ExitFixup _ lab) = Some lab"
| "label_target _ = None"

abbreviation anns :: "comp \<Rightarrow> nat \<Rightarrow> nat list" where
  "anns c f \<equiv> annotations (cfun_of c f)"

definition slots :: "comp \<Rightarrow> nat list" where
  "slots c = concat (map (anns c) (mod_cfunctions c))"

text \<open>What placing annotations establishes: owners and indices agree with the vectors.\<close>

definition wf_module :: "comp \<Rightarrow> bool" where
  "wf_module c \<longleftrightarrow>
     (\<forall>k < length (mod_cfunctions c).
        mod_cfunctions c ! k < length (cfuns c) \<and> cf_index (cfun_of c (mod_cfunctions c ! k)) = k \<and>
        (\<forall>j < length (anns c (mod_cfunctions c ! k)).
           let a = anns c (mod_cfunctions c ! k) ! j in
           a < length (annots c) \<and> ann_cfunction (annot_of c a) = Some (mod_cfunctions c ! k) \<and>
           ann_index (annot_of c a) = j \<and>
           ann_initial_size (annot_of c a) = fixup_initial_size (ann_kind (annot_of c a)) \<and>
           (\<forall>lab. label_target (ann_kind (annot_of c a)) = Some lab \<longrightarrow>
              lab \<in> set (slots c) \<and> ann_kind (annot_of c lab) = Label)))"

text \<open>
  The segments of bytecode between annotations: positions at assembly time
  (\<open>raw\<close>) ascend, leave room for the initial bytes of fixups, and stay inside.
\<close>

definition segments_ok :: "comp \<Rightarrow> (nat \<Rightarrow> nat) \<Rightarrow> bool" where
  "segments_ok c raw \<longleftrightarrow>
     (\<forall>f \<in> set (mod_cfunctions c).
        (\<forall>j < length (anns c f).
           (ann_kind (annot_of c (anns c f ! j)) \<noteq> Label \<longrightarrow>
              raw (anns c f ! j) = ann_initial_position (annot_of c (anns c f ! j))) \<and>
           raw (anns c f ! j) + ann_initial_size (annot_of c (anns c f ! j)) \<le> length (bytecode (cfun_of c f)) \<and>
           (\<forall>i < j. raw (anns c f ! i) + ann_initial_size (annot_of c (anns c f ! i)) \<le> raw (anns c f ! j))))"

definition grow :: "comp \<Rightarrow> nat \<Rightarrow> nat" where
  "grow c a = ann_size (annot_of c a) - ann_initial_size (annot_of c a)"

text \<open>
  The layout invariant of linking: positions are those at assembly time shifted by
  the growth of all fixups before.
\<close>

definition layout :: "comp \<Rightarrow> (nat \<Rightarrow> nat) \<Rightarrow> bool" where
  "layout c raw \<longleftrightarrow>
     (\<forall>f \<in> set (mod_cfunctions c).
        (\<forall>j < length (anns c f).
           ann_position (annot_of c (anns c f ! j)) = raw (anns c f ! j) + (\<Sum>i<j. grow c (anns c f ! i)) \<and>
           ann_initial_size (annot_of c (anns c f ! j)) \<le> ann_size (annot_of c (anns c f ! j))) \<and>
        cf_extra (cfun_of c f) = (\<Sum>i<length (anns c f). grow c (anns c f ! i))) \<and>
     (\<forall>k < length (mod_cfunctions c).
        cf_position (cfun_of c (mod_cfunctions c ! k)) =
          (\<Sum>i<k. final_size (cfun_of c (mod_cfunctions c ! i))))"

text \<open>Order of annotations in the module: by cfunction, then by index.\<close>

definition before :: "comp \<Rightarrow> nat \<Rightarrow> nat \<Rightarrow> bool" where
  "before c a b \<longleftrightarrow>
     (let fa = the (ann_cfunction (annot_of c a)); fb = the (ann_cfunction (annot_of c b))
      in cf_index (cfun_of c fa) < cf_index (cfun_of c fb) \<or>
         cf_index (cfun_of c fa) = cf_index (cfun_of c fb) \<and>
         ann_index (annot_of c a) < ann_index (annot_of c b))"

section \<open>What a step leaves alone\<close>

definition same_static :: "comp \<Rightarrow> comp \<Rightarrow> bool" where
  "same_static c c' \<longleftrightarrow>
     lexs c' = lexs c \<and> dinfos c' = dinfos c \<and> mod_cfunctions c' = mod_cfunctions c \<and>
     mod_literals c' = mod_literals c \<and> length (annots c') = length (annots c) \<and>
     length (cfuns c') = length (cfuns c) \<and>
     (\<forall>a. (annot_of c' a)\<lparr>ann_position := 0, ann_size := 0\<rparr> = (annot_of c a)\<lparr>ann_position := 0, ann_size := 0\<rparr>) \<and>
     (\<forall>f. (cfun_of c' f)\<lparr>cf_position := 0, cf_extra := 0\<rparr> = (cfun_of c f)\<lparr>cf_position := 0, cf_extra := 0\<rparr>)"

lemma same_static_refl [simp]: "same_static c c"
  by (simp add: same_static_def)

lemma same_static_trans: "same_static a b \<Longrightarrow> same_static b c \<Longrightarrow> same_static a c"
  by (simp add: same_static_def)

lemma same_static_fields:
  assumes "same_static c c'"
  shows "ann_kind (annot_of c' a) = ann_kind (annot_of c a)"
    "ann_cfunction (annot_of c' a) = ann_cfunction (annot_of c a)"
    "ann_index (annot_of c' a) = ann_index (annot_of c a)"
    "ann_initial_position (annot_of c' a) = ann_initial_position (annot_of c a)"
    "ann_initial_size (annot_of c' a) = ann_initial_size (annot_of c a)"
    "annotations (cfun_of c' f) = annotations (cfun_of c f)"
    "bytecode (cfun_of c' f) = bytecode (cfun_of c f)"
    "cf_index (cfun_of c' f) = cf_index (cfun_of c f)"
    "lex_of c' l = lex_of c l" "mod_cfunctions c' = mod_cfunctions c"
    "length (annots c') = length (annots c)" "length (cfuns c') = length (cfuns c)"
    "slots c' = slots c" "before c' a b = before c a b"
proof -
  have ann: "(annot_of c' x)\<lparr>ann_position := 0, ann_size := 0\<rparr> = (annot_of c x)\<lparr>ann_position := 0, ann_size := 0\<rparr>"
    and cf: "(cfun_of c' x)\<lparr>cf_position := 0, cf_extra := 0\<rparr> = (cfun_of c x)\<lparr>cf_position := 0, cf_extra := 0\<rparr>" for x
    using assms by (simp_all add: same_static_def)
  show k: "ann_kind (annot_of c' a) = ann_kind (annot_of c a)"
    "ann_cfunction (annot_of c' a) = ann_cfunction (annot_of c a)"
    "ann_index (annot_of c' a) = ann_index (annot_of c a)"
    "ann_initial_position (annot_of c' a) = ann_initial_position (annot_of c a)"
    "ann_initial_size (annot_of c' a) = ann_initial_size (annot_of c a)" for a
    using ann[of a] by (cases "annot_of c a"; cases "annot_of c' a"; simp)+
  show f: "annotations (cfun_of c' f) = annotations (cfun_of c f)"
    "bytecode (cfun_of c' f) = bytecode (cfun_of c f)"
    "cf_index (cfun_of c' f) = cf_index (cfun_of c f)" for f
    using cf[of f] by (cases "cfun_of c f"; cases "cfun_of c' f"; simp)+
  show "lex_of c' l = lex_of c l" "mod_cfunctions c' = mod_cfunctions c"
    "length (annots c') = length (annots c)" "length (cfuns c') = length (cfuns c)"
    using assms by (simp_all add: same_static_def lex_of_def)
  then show "slots c' = slots c" by (simp add: slots_def f)
  show "before c' a b = before c a b" by (simp add: before_def k f)
qed

lemma wf_module_same: "same_static c c' \<Longrightarrow> wf_module c' = wf_module c"
  by (simp add: wf_module_def same_static_fields)

lemma segments_ok_same: "same_static c c' \<Longrightarrow> segments_ok c' raw = segments_ok c raw"
  by (simp add: segments_ok_def same_static_fields)


section \<open>The effect of growing one fixup\<close>

lemma cfuns_bump_annots [simp]:
  "cfuns (bump_annots as d c) = cfuns c" "lexs (bump_annots as d c) = lexs c"
  "mod_cfunctions (bump_annots as d c) = mod_cfunctions c"
  "dinfos (bump_annots as d c) = dinfos c" "mod_literals (bump_annots as d c) = mod_literals c"
  "length (annots (bump_annots as d c)) = length (annots c)"
  "cfun_of (bump_annots as d c) f = cfun_of c f"
  by (induction as d c rule: bump_annots.induct) simp_all

lemma annots_bump_cfuns [simp]:
  "annots (bump_cfuns fs d c) = annots c" "lexs (bump_cfuns fs d c) = lexs c"
  "mod_cfunctions (bump_cfuns fs d c) = mod_cfunctions c"
  "dinfos (bump_cfuns fs d c) = dinfos c" "mod_literals (bump_cfuns fs d c) = mod_literals c"
  "length (cfuns (bump_cfuns fs d c)) = length (cfuns c)"
  "annot_of (bump_cfuns fs d c) a = annot_of c a"
  by (induction fs d c rule: bump_cfuns.induct) simp_all

lemma annot_of_bump_annots:
  "distinct as \<Longrightarrow> \<forall>a \<in> set as. a < length (annots c) \<Longrightarrow>
   annot_of (bump_annots as d c) b =
     (annot_of c b)\<lparr>ann_position := ann_position (annot_of c b) + (if b \<in> set as then d else 0)\<rparr>"
  by (induction as d c rule: bump_annots.induct) (auto simp: annot_of_upd_annot)

lemma cfun_of_bump_cfuns:
  "distinct fs \<Longrightarrow> \<forall>f \<in> set fs. f < length (cfuns c) \<Longrightarrow>
   cfun_of (bump_cfuns fs d c) g =
     (cfun_of c g)\<lparr>cf_position := cf_position (cfun_of c g) + (if g \<in> set fs then d else 0)\<rparr>"
  by (induction fs d c rule: bump_cfuns.induct) (auto simp: cfun_of_upd_cfun)

lemma set_size_simps [simp]:
  "cfuns (set_size a n c) = cfuns c" "lexs (set_size a n c) = lexs c"
  "mod_cfunctions (set_size a n c) = mod_cfunctions c" "dinfos (set_size a n c) = dinfos c"
  "mod_literals (set_size a n c) = mod_literals c"
  "length (annots (set_size a n c)) = length (annots c)"
  "cfun_of (set_size a n c) f = cfun_of c f"
  by (simp_all add: set_size_def)

lemma annot_of_set_size:
  "a < length (annots c) \<Longrightarrow> annot_of (set_size a n c) b =
     (if b = a then (annot_of c a)\<lparr>ann_size := n\<rparr> else annot_of c b)"
  by (simp add: set_size_def annot_of_upd_annot)

text \<open>Where an annotation of a well-formed module lives.\<close>

lemma wf_mod_nth:
  assumes "wf_module c" "k < length (mod_cfunctions c)"
  shows "mod_cfunctions c ! k < length (cfuns c)" "cf_index (cfun_of c (mod_cfunctions c ! k)) = k"
  using assms by (auto simp: wf_module_def)

lemma distinct_mods: "wf_module c \<Longrightarrow> distinct (mod_cfunctions c)"
  by (auto simp: distinct_conv_nth dest: wf_mod_nth(2)) (metis wf_mod_nth(2))

lemma wf_ann_nth:
  assumes "wf_module c" "f \<in> set (mod_cfunctions c)" "j < length (anns c f)"
  shows "anns c f ! j < length (annots c)" "ann_cfunction (annot_of c (anns c f ! j)) = Some f"
    "ann_index (annot_of c (anns c f ! j)) = j"
    "ann_initial_size (annot_of c (anns c f ! j)) = fixup_initial_size (ann_kind (annot_of c (anns c f ! j)))"
    "label_target (ann_kind (annot_of c (anns c f ! j))) = Some lab \<Longrightarrow>
      lab \<in> set (slots c) \<and> ann_kind (annot_of c lab) = Label"
  using assms by (auto simp: wf_module_def in_set_conv_nth Let_def)

lemma distinct_anns: "wf_module c \<Longrightarrow> f \<in> set (mod_cfunctions c) \<Longrightarrow> distinct (anns c f)"
  by (auto simp: distinct_conv_nth) (metis wf_ann_nth(3))

lemma slotE:
  assumes "wf_module c" "a \<in> set (slots c)"
  obtains f j where "f \<in> set (mod_cfunctions c)" "j < length (anns c f)" "a = anns c f ! j"
    "a < length (annots c)" "ann_cfunction (annot_of c a) = Some f" "ann_index (annot_of c a) = j"
proof -
  from assms(2) obtain f where f: "f \<in> set (mod_cfunctions c)" "a \<in> set (anns c f)"
    by (auto simp: slots_def)
  then obtain j where "j < length (anns c f)" "a = anns c f ! j" by (metis in_set_conv_nth)
  note j = this
  show thesis
    using that[OF f(1) j] wf_ann_nth(1-3)[OF assms(1) f(1) j(1)] j(2) by metis
qed

lemma slotI: "f \<in> set (mod_cfunctions c) \<Longrightarrow> j < length (anns c f) \<Longrightarrow> anns c f ! j \<in> set (slots c)"
  by (auto simp: slots_def intro: nth_mem)

lemma nth_in_set_drop:
  assumes "distinct xs" "j < length xs"
  shows "xs ! j \<in> set (drop n xs) \<longleftrightarrow> n \<le> j"
proof
  assume "xs ! j \<in> set (drop n xs)"
  then obtain i where "i < length xs - n" "xs ! j = xs ! (n + i)" by (auto simp: in_set_conv_nth)
  with assms show "n \<le> j" by (simp add: nth_eq_iff_index_eq)
next
  assume "n \<le> j"
  with assms(2) have "drop n xs ! (j - n) = xs ! j" "j - n < length (drop n xs)" by simp_all
  then show "xs ! j \<in> set (drop n xs)" by (metis nth_mem)
qed

text \<open>
  The new state after growing fixup \<open>x\<close> at index \<open>jx\<close> of cfunction \<open>fx\<close> by \<open>d\<close>.
\<close>

lemma grow_effect:
  fixes n d :: nat
  assumes wf: "wf_module c" and fx: "fx \<in> set (mod_cfunctions c)" "jx < length (anns c fx)"
    and x: "x = anns c fx ! jx"
  defines "c' \<equiv> update_positions x d (set_size x n c)"
  shows "same_static c c'"
    and "annot_of c' x = (annot_of c x)\<lparr>ann_size := n\<rparr>"
    and "j < length (anns c fx) \<Longrightarrow> j \<noteq> jx \<Longrightarrow> annot_of c' (anns c fx ! j) =
      (annot_of c (anns c fx ! j))\<lparr>ann_position := ann_position (annot_of c (anns c fx ! j)) +
          (if jx < j then d else 0)\<rparr>"
    and "f \<in> set (mod_cfunctions c) \<Longrightarrow> f \<noteq> fx \<Longrightarrow> j < length (anns c f) \<Longrightarrow>
      annot_of c' (anns c f ! j) = annot_of c (anns c f ! j)"
    and "k < length (mod_cfunctions c) \<Longrightarrow> cfun_of c' (mod_cfunctions c ! k) =
      (cfun_of c (mod_cfunctions c ! k))\<lparr>
          cf_position := cf_position (cfun_of c (mod_cfunctions c ! k)) +
            (if cf_index (cfun_of c fx) < k then d else 0),
          cf_extra := cf_extra (cfun_of c (mod_cfunctions c ! k)) +
            (if mod_cfunctions c ! k = fx then d else 0)\<rparr>"
proof -
  note ax = wf_ann_nth[OF wf fx]
  let ?s = "set_size x n c"
  let ?as = "drop (Suc jx) (anns c fx)" and ?fs = "drop (Suc (cf_index (cfun_of c fx))) (mod_cfunctions c)"
  let ?b = "bump_annots ?as d ?s"
  let ?e = "upd_cfun fx (\<lambda>cf. cf\<lparr>cf_extra := cf_extra cf + d\<rparr>) ?b"
  from fx(1) obtain kx where kx: "kx < length (mod_cfunctions c)" "fx = mod_cfunctions c ! kx"
    by (metis in_set_conv_nth)
  with wf_mod_nth[OF wf kx(1)] have kx': "cf_index (cfun_of c fx) = kx" "fx < length (cfuns c)" by auto
  have c': "c' = bump_cfuns ?fs d ?e"
    using ax(1-3) x kx'(2)
    by (simp add: c'_def update_positions_def annot_of_set_size cfun_of_upd_cfun Let_def)
  have das: "distinct ?as" "\<forall>a \<in> set ?as. a < length (annots c)"
    using distinct_anns[OF wf fx(1)] wf_ann_nth(1)[OF wf fx(1)]
    by (auto simp: in_set_conv_nth)
  have dfs: "distinct ?fs" "\<forall>f \<in> set ?fs. f < length (cfuns c)"
    using distinct_mods[OF wf] wf_mod_nth(1)[OF wf] by (auto simp: in_set_conv_nth)
  have A: "annot_of c' b = (if b = x then (annot_of c x)\<lparr>ann_size := n\<rparr> else annot_of c b)
      \<lparr>ann_position := ann_position (annot_of c b) + (if b \<in> set ?as then d else 0)\<rparr>" for b
    using ax(1) x das by (simp add: c' annot_of_bump_annots annot_of_set_size)
  have F: "cfun_of c' g = (cfun_of c g)\<lparr>
          cf_position := cf_position (cfun_of c g) + (if g \<in> set ?fs then d else 0),
          cf_extra := cf_extra (cfun_of c g) + (if g = fx then d else 0)\<rparr>" for g
    using dfs kx'(2) by (simp add: c' cfun_of_bump_cfuns cfun_of_upd_cfun)
  have in_as: "anns c fx ! j \<in> set ?as \<longleftrightarrow> jx < j" if "j < length (anns c fx)" for j
    using nth_in_set_drop[OF distinct_anns[OF wf fx(1)] that, of "Suc jx"] by (simp add: Suc_le_eq)
  have in_fs: "mod_cfunctions c ! k \<in> set ?fs \<longleftrightarrow> kx < k" if "k < length (mod_cfunctions c)" for k
    using nth_in_set_drop[OF distinct_mods[OF wf] that, of "Suc kx"] kx'(1) by (simp add: Suc_le_eq)
  show "same_static c c'"
    unfolding same_static_def using A F by (simp add: c')
  show "annot_of c' x = (annot_of c x)\<lparr>ann_size := n\<rparr>"
    using A[of x] in_as[OF fx(2)] x by simp
  show "annot_of c' (anns c fx ! j) =
      (annot_of c (anns c fx ! j))\<lparr>ann_position := ann_position (annot_of c (anns c fx ! j)) +
          (if jx < j then d else 0)\<rparr>" if "j < length (anns c fx)" "j \<noteq> jx"
    using that A[of "anns c fx ! j"] in_as[OF that(1)] x distinct_anns[OF wf fx(1)] fx(2)
    by (simp add: nth_eq_iff_index_eq)
  show "annot_of c' (anns c f ! j) = annot_of c (anns c f ! j)"
    if "f \<in> set (mod_cfunctions c)" "f \<noteq> fx" "j < length (anns c f)"
  proof -
    from wf_ann_nth(2)[OF wf that(1,3)] wf_ann_nth(2)[OF wf fx(1)] that(2)
    have "anns c f ! j \<notin> set (anns c fx)" by (auto simp: in_set_conv_nth) (metis option.inject)
    with x fx(2) have "anns c f ! j \<noteq> x" "anns c f ! j \<notin> set ?as"
      by (auto dest: in_set_dropD)
    with A[of "anns c f ! j"] show ?thesis by simp
  qed
  show "cfun_of c' (mod_cfunctions c ! k) = (cfun_of c (mod_cfunctions c ! k))\<lparr>
          cf_position := cf_position (cfun_of c (mod_cfunctions c ! k)) +
            (if cf_index (cfun_of c fx) < k then d else 0),
          cf_extra := cf_extra (cfun_of c (mod_cfunctions c ! k)) +
            (if mod_cfunctions c ! k = fx then d else 0)\<rparr>" if "k < length (mod_cfunctions c)"
    using F[of "mod_cfunctions c ! k"] in_fs[OF that] kx'(1) by simp
qed

end
