(* ===== verification/Relax.thy ===== *)
theory Relax
  imports Layout
begin

text \<open>
  The growing loop of linking: every step keeps the layout invariant, displacements
  keep their sign and only grow in magnitude, so a fixup never has to shrink, the loop
  ends, and at its end every fixup has exactly the size it asks for.
\<close>

section \<open>A step keeps the layout\<close>

lemma sum_bump:
  fixes g g' :: "nat \<Rightarrow> nat"
  assumes "\<And>i. i < j \<Longrightarrow> g' i = g i + (if i = x then d else 0)"
  shows "(\<Sum>i<j. g' i) = (\<Sum>i<j. g i) + (if x < j then d else 0)"
proof -
  have "(\<Sum>i<j. g' i) = (\<Sum>i<j. g i + (if i = x then d else 0))"
    using assms by simp
  then show ?thesis by (simp add: sum.distrib sum.delta)
qed

lemma layoutD:
  assumes "layout c raw" "f \<in> set (mod_cfunctions c)"
  shows "j < length (anns c f) \<Longrightarrow>
      ann_position (annot_of c (anns c f ! j)) = raw (anns c f ! j) + (\<Sum>i<j. grow c (anns c f ! i))"
    and "j < length (anns c f) \<Longrightarrow>
      ann_initial_size (annot_of c (anns c f ! j)) \<le> ann_size (annot_of c (anns c f ! j))"
    and "cf_extra (cfun_of c f) = (\<Sum>i<length (anns c f). grow c (anns c f ! i))"
  using assms by (auto simp: layout_def)

lemma layout_position:
  "layout c raw \<Longrightarrow> k < length (mod_cfunctions c) \<Longrightarrow>
   cf_position (cfun_of c (mod_cfunctions c ! k)) =
     (\<Sum>i<k. final_size (cfun_of c (mod_cfunctions c ! i)))"
  by (auto simp: layout_def)

definition grown :: "comp \<Rightarrow> nat \<Rightarrow> nat \<Rightarrow> comp" where
  "grown c x n = update_positions x (n - ann_size (annot_of c x)) (set_size x n c)"

lemma grown_annot:
  assumes wf: "wf_module c" and x: "x \<in> set (slots c)"
    and f: "f \<in> set (mod_cfunctions c)" and j: "j < length (anns c f)"
    and le: "ann_size (annot_of c x) \<le> n"
  shows "ann_size (annot_of (grown c x n) (anns c f ! j)) =
      ann_size (annot_of c (anns c f ! j)) + (if anns c f ! j = x then n - ann_size (annot_of c x) else 0)"
    and "ann_position (annot_of (grown c x n) (anns c f ! j)) =
      ann_position (annot_of c (anns c f ! j)) +
        (if ann_cfunction (annot_of c x) = Some f \<and> ann_index (annot_of c x) < j
         then n - ann_size (annot_of c x) else 0)"
    and "same_static c (grown c x n)"
proof -
  from slotE[OF wf x] obtain fx jx where fx: "fx \<in> set (mod_cfunctions c)" "jx < length (anns c fx)"
    and xx: "x = anns c fx ! jx" "ann_cfunction (annot_of c x) = Some fx" "ann_index (annot_of c x) = jx"
    by metis
  note ge = grow_effect[OF wf fx xx(1), where d = "n - ann_size (annot_of c x)" and n = n,
      folded grown_def]
  have eq: "anns c f ! j = x \<longleftrightarrow> f = fx \<and> j = jx"
    using wf_ann_nth(2,3)[OF wf f j] xx by auto
  have A: "annot_of (grown c x n) (anns c f ! j) = (annot_of c (anns c f ! j))
      \<lparr>ann_position := ann_position (annot_of c (anns c f ! j)) + (if f = fx \<and> jx < j then n - ann_size (annot_of c x) else 0),
       ann_size := ann_size (annot_of c (anns c f ! j)) + (if f = fx \<and> j = jx then n - ann_size (annot_of c x) else 0)\<rparr>"
  proof (cases "f = fx \<and> j = jx")
    case True
    then have "anns c f ! j = x" using eq by blast
    with ge(2) True le show ?thesis by simp
  next
    case False
    show ?thesis
    proof (cases "f = fx")
      case True
      with False ge(3)[of j] j show ?thesis by simp
    next
      case False
      with ge(4)[OF f False j] show ?thesis by simp
    qed
  qed
  show "ann_size (annot_of (grown c x n) (anns c f ! j)) =
      ann_size (annot_of c (anns c f ! j)) + (if anns c f ! j = x then n - ann_size (annot_of c x) else 0)"
    unfolding A eq by simp
  show "ann_position (annot_of (grown c x n) (anns c f ! j)) =
      ann_position (annot_of c (anns c f ! j)) +
        (if ann_cfunction (annot_of c x) = Some f \<and> ann_index (annot_of c x) < j
         then n - ann_size (annot_of c x) else 0)"
    unfolding A xx(2,3) by auto
  show "same_static c (grown c x n)" by (rule ge(1))
qed

lemma grown_cfun:
  assumes wf: "wf_module c" and x: "x \<in> set (slots c)" and k: "k < length (mod_cfunctions c)"
  shows "cf_position (cfun_of (grown c x n) (mod_cfunctions c ! k)) =
      cf_position (cfun_of c (mod_cfunctions c ! k)) +
      (if cf_index (cfun_of c (the (ann_cfunction (annot_of c x)))) < k then n - ann_size (annot_of c x) else 0)"
    and "cf_extra (cfun_of (grown c x n) (mod_cfunctions c ! k)) =
      cf_extra (cfun_of c (mod_cfunctions c ! k)) +
      (if cf_index (cfun_of c (the (ann_cfunction (annot_of c x)))) = k then n - ann_size (annot_of c x) else 0)"
proof -
  from slotE[OF wf x] obtain fx jx where fx: "fx \<in> set (mod_cfunctions c)" "jx < length (anns c fx)"
    and xx: "x = anns c fx ! jx" "ann_cfunction (annot_of c x) = Some fx"
    by metis
  note ge = grow_effect(5)[OF wf fx xx(1), where d = "n - ann_size (annot_of c x)" and n = n,
      folded grown_def, OF k]
  from fx(1) obtain kx where kx: "kx < length (mod_cfunctions c)" "fx = mod_cfunctions c ! kx"
    by (metis in_set_conv_nth)
  have "mod_cfunctions c ! k = fx \<longleftrightarrow> kx = k"
    using distinct_mods[OF wf] kx k by (auto simp: nth_eq_iff_index_eq)
  with ge show "cf_position (cfun_of (grown c x n) (mod_cfunctions c ! k)) =
      cf_position (cfun_of c (mod_cfunctions c ! k)) +
      (if cf_index (cfun_of c (the (ann_cfunction (annot_of c x)))) < k then n - ann_size (annot_of c x) else 0)"
    "cf_extra (cfun_of (grown c x n) (mod_cfunctions c ! k)) =
      cf_extra (cfun_of c (mod_cfunctions c ! k)) +
      (if cf_index (cfun_of c (the (ann_cfunction (annot_of c x)))) = k then n - ann_size (annot_of c x) else 0)"
    using wf_mod_nth(2)[OF wf kx(1)] kx(2) xx(2) by simp_all
qed

lemma grown_layout:
  assumes wf: "wf_module c" and lay: "layout c raw" and x: "x \<in> set (slots c)"
    and le: "ann_size (annot_of c x) \<le> n"
  shows "layout (grown c x n) raw"
proof -
  let ?d = "n - ann_size (annot_of c x)" and ?c = "grown c x n"
  from slotE[OF wf x] obtain fx jx where fx: "fx \<in> set (mod_cfunctions c)" "jx < length (anns c fx)"
    and xx: "x = anns c fx ! jx" "ann_cfunction (annot_of c x) = Some fx" "ann_index (annot_of c x) = jx"
    by metis
  from fx(1) obtain kx where kx: "kx < length (mod_cfunctions c)" "fx = mod_cfunctions c ! kx"
    by (metis in_set_conv_nth)
  have kx': "cf_index (cfun_of c fx) = kx" using wf_mod_nth(2)[OF wf kx(1)] kx(2) by simp
  have st: "same_static c ?c" using grown_annot(3)[OF wf x fx le] .
  note ss = same_static_fields[OF st]
  have gr: "grow ?c (anns c f ! i) = grow c (anns c f ! i) + (if f = fx \<and> i = jx then ?d else 0)"
    if "f \<in> set (mod_cfunctions c)" "i < length (anns c f)" for f i
  proof -
    have "anns c f ! i = x \<longleftrightarrow> f = fx \<and> i = jx"
      using wf_ann_nth(2,3)[OF wf that] xx by auto
    then show ?thesis
      using grown_annot(1)[OF wf x that le] layoutD(2)[OF lay that] by (simp add: grow_def ss)
  qed
  have sums: "(\<Sum>i<j. grow ?c (anns c f ! i)) = (\<Sum>i<j. grow c (anns c f ! i)) + (if f = fx \<and> jx < j then ?d else 0)"
    if "f \<in> set (mod_cfunctions c)" "j \<le> length (anns c f)" for f j
  proof -
    have "(\<Sum>i<j. grow ?c (anns c f ! i)) =
        (\<Sum>i<j. grow c (anns c f ! i)) + (if jx < j then (if f = fx then ?d else 0) else 0)"
      by (rule sum_bump) (use gr[OF that(1)] that(2) in auto)
    then show ?thesis by simp
  qed
  have fs: "final_size (cfun_of ?c (mod_cfunctions c ! i)) =
      final_size (cfun_of c (mod_cfunctions c ! i)) + (if i = kx then ?d else 0)"
    if "i < length (mod_cfunctions c)" for i
    using grown_cfun(2)[OF wf x that, of n] kx' xx(2) by (simp add: final_size_def ss)
  show ?thesis unfolding layout_def ss
  proof (intro conjI ballI allI impI)
    fix f j assume f: "f \<in> set (mod_cfunctions c)" and j: "j < length (anns c f)"
    show "ann_position (annot_of ?c (anns c f ! j)) = raw (anns c f ! j) + (\<Sum>i<j. grow ?c (anns c f ! i))"
      using grown_annot(2)[OF wf x f j le] layoutD(1)[OF lay f j] sums[OF f, of j] j xx(2,3) by auto
    show "ann_initial_size (annot_of c (anns c f ! j)) \<le> ann_size (annot_of ?c (anns c f ! j))"
      using grown_annot(1)[OF wf x f j le] layoutD(2)[OF lay f j] by simp
  next
    fix f assume f: "f \<in> set (mod_cfunctions c)"
    then obtain k where k: "k < length (mod_cfunctions c)" "f = mod_cfunctions c ! k"
      by (metis in_set_conv_nth)
    have "f = fx \<longleftrightarrow> kx = k"
      using distinct_mods[OF wf] kx k by (auto simp: nth_eq_iff_index_eq)
    then show "cf_extra (cfun_of ?c f) = (\<Sum>i<length (anns c f). grow ?c (anns c f ! i))"
      using grown_cfun(2)[OF wf x k(1), of n] layoutD(3)[OF lay f] sums[OF f order_refl] k(2) kx' xx(2) fx(2)
      by auto
  next
    fix k assume k: "k < length (mod_cfunctions c)"
    show "cf_position (cfun_of ?c (mod_cfunctions c ! k)) =
        (\<Sum>i<k. final_size (cfun_of ?c (mod_cfunctions c ! i)))"
      using grown_cfun(1)[OF wf x k, of n] layout_position[OF lay k] kx' xx(2)
        sum_bump[of k "\<lambda>i. final_size (cfun_of ?c (mod_cfunctions c ! i))"
          "\<lambda>i. final_size (cfun_of c (mod_cfunctions c ! i))" kx ?d] fs k by simp
  qed
qed


section \<open>Order and displacements\<close>

lemma grown_module_position:
  assumes wf: "wf_module c" and x: "x \<in> set (slots c)" and b: "b \<in> set (slots c)"
    and le: "ann_size (annot_of c x) \<le> n"
  shows "module_position (grown c x n) b =
    module_position c b + (if before c x b then n - ann_size (annot_of c x) else 0)"
proof -
  from slotE[OF wf b] obtain f j where f: "f \<in> set (mod_cfunctions c)" "j < length (anns c f)"
    and bb: "b = anns c f ! j" "ann_cfunction (annot_of c b) = Some f" "ann_index (annot_of c b) = j"
    by metis
  from slotE[OF wf x] obtain fx where fx: "fx \<in> set (mod_cfunctions c)"
    and xx: "ann_cfunction (annot_of c x) = Some fx"
    by metis
  from f(1) obtain k where k: "k < length (mod_cfunctions c)" "f = mod_cfunctions c ! k"
    by (metis in_set_conv_nth)
  from fx obtain kx where kx: "kx < length (mod_cfunctions c)" "fx = mod_cfunctions c ! kx"
    by (metis in_set_conv_nth)
  have "fx = f \<longleftrightarrow> kx = k"
    using distinct_mods[OF wf] kx k by (auto simp: nth_eq_iff_index_eq)
  moreover have "cf_index (cfun_of c f) = k" "cf_index (cfun_of c fx) = kx"
    using wf_mod_nth(2)[OF wf] k kx by simp_all
  ultimately show ?thesis
    using grown_annot(2)[OF wf x f le] grown_cfun(1)[OF wf x k(1), of n]
      same_static_fields(2)[OF grown_annot(3)[OF wf x f le], of b] bb xx k(2)
    by (auto simp: module_position_def before_def)
qed

lemma before_cases:
  assumes "wf_module c" "a \<in> set (slots c)" "b \<in> set (slots c)"
  shows "a = b \<or> before c a b \<or> before c b a"
proof -
  from slotE[OF assms(1,2)] obtain f j where f: "f \<in> set (mod_cfunctions c)"
    "a = anns c f ! j" "ann_cfunction (annot_of c a) = Some f" "ann_index (annot_of c a) = j" by metis
  from slotE[OF assms(1,3)] obtain g i where g: "g \<in> set (mod_cfunctions c)"
    "b = anns c g ! i" "ann_cfunction (annot_of c b) = Some g" "ann_index (annot_of c b) = i" by metis
  have "cf_index (cfun_of c f) = cf_index (cfun_of c g) \<Longrightarrow> f = g"
    using f(1) g(1) wf_mod_nth(2)[OF assms(1)] by (metis in_set_conv_nth)
  with f g show ?thesis 
    by (cases "cf_index (cfun_of c f)" "cf_index (cfun_of c g)" rule: linorder_cases;
        cases i j rule: linorder_cases) (auto simp: before_def)
qed

lemma before_trans: "before c a b \<Longrightarrow> before c b d \<Longrightarrow> before c a d"
  by (auto simp: before_def Let_def)

lemma before_irrefl [simp]: "\<not> before c a a"
  by (simp add: before_def)

lemma sum_lessThan_split:
  "i < (j::nat) \<Longrightarrow> (\<Sum>k<i. (g k :: nat)) + g i \<le> (\<Sum>k<j. g k)"
  using sum_mono2[of "{..<j}" "{..<Suc i}" g] by (simp add: Suc_le_eq)

lemma grow_add:
  "layout c raw \<Longrightarrow> f \<in> set (mod_cfunctions c) \<Longrightarrow> j < length (anns c f) \<Longrightarrow>
   ann_initial_size (annot_of c (anns c f ! j)) + grow c (anns c f ! j) = ann_size (annot_of c (anns c f ! j))"
  using layoutD(2) by (simp add: grow_def)

lemma ann_end_bound:
  assumes "layout c raw" "segments_ok c raw" "f \<in> set (mod_cfunctions c)" "j < length (anns c f)"
  shows "ann_position (annot_of c (anns c f ! j)) + ann_size (annot_of c (anns c f ! j)) \<le> final_size (cfun_of c f)"
  using assms layoutD(1,3)[OF assms(1,3)] grow_add[OF assms(1,3,4)]
    sum_lessThan_split[OF assms(4), of "\<lambda>i. grow c (anns c f ! i)"]
  by (fastforce simp: final_size_def segments_ok_def)

lemma module_position_order:
  assumes wf: "wf_module c" and lay: "layout c raw" and seg: "segments_ok c raw"
    and a: "a \<in> set (slots c)" and b: "b \<in> set (slots c)" and ab: "before c a b"
  shows "module_position c a + ann_size (annot_of c a) \<le> module_position c b"
proof -
  from slotE[OF wf a] obtain f j where f: "f \<in> set (mod_cfunctions c)" "j < length (anns c f)"
    and aa: "a = anns c f ! j" "ann_cfunction (annot_of c a) = Some f" "ann_index (annot_of c a) = j" by metis
  from slotE[OF wf b] obtain g i where g: "g \<in> set (mod_cfunctions c)" "i < length (anns c g)"
    and bb: "b = anns c g ! i" "ann_cfunction (annot_of c b) = Some g" "ann_index (annot_of c b) = i" by metis
  from f(1) obtain k where k: "k < length (mod_cfunctions c)" "f = mod_cfunctions c ! k"
    by (metis in_set_conv_nth)
  from g(1) obtain l where l: "l < length (mod_cfunctions c)" "g = mod_cfunctions c ! l"
    by (metis in_set_conv_nth)
  have "k < l \<or> k = l \<and> j < i"
    using ab aa bb wf_mod_nth(2)[OF wf] k l by (simp add: before_def)
  then show ?thesis
  proof
    assume "k < l"
    then have "cf_position (cfun_of c f) + final_size (cfun_of c f) \<le> cf_position (cfun_of c g)"
      using layout_position[OF lay] k l
        sum_lessThan_split[of k l "\<lambda>i. final_size (cfun_of c (mod_cfunctions c ! i))"] by simp
    with ann_end_bound[OF lay seg f] aa bb show ?thesis by (simp add: module_position_def)
  next
    assume "k = l \<and> j < i"
    then have fg: "g = f" and ji: "j < i" using k l by simp_all
    have "raw a + ann_initial_size (annot_of c a) \<le> raw b"
      using seg g ji fg aa bb unfolding segments_ok_def by blast
    moreover have "(\<Sum>k<j. grow c (anns c f ! k)) + grow c a \<le> (\<Sum>k<i. grow c (anns c f ! k))"
      using sum_lessThan_split[OF ji, of "\<lambda>i. grow c (anns c f ! i)"] aa by simp
    ultimately show ?thesis
      using layoutD(1)[OF lay f] layoutD(1)[OF lay g] grow_add[OF lay f] aa bb fg
      by (simp add: module_position_def)
  qed
qed

text \<open>Displacements move away from zero as fixups grow.\<close>

lemma delta_grows:
  assumes wf: "wf_module c" and lay: "layout c raw" and seg: "segments_ok c raw"
    and x: "x \<in> set (slots c)" and b: "b \<in> set (slots c)" and lab: "lab \<in> set (slots c)"
    and le: "ann_size (annot_of c x) \<le> n"
  shows "0 \<le> delta c b lab \<and> delta c b lab \<le> delta (grown c x n) b lab \<or>
         delta c b lab \<le> 0 \<and> delta (grown c x n) b lab \<le> delta c b lab"
proof -
  note g = grown_module_position[OF wf x b le] grown_module_position[OF wf x lab le]
  note o = module_position_order[OF wf lay seg b lab] module_position_order[OF wf lay seg lab b]
  from before_cases[OF wf b lab] show ?thesis
  proof (elim disjE)
    assume "b = lab" then show ?thesis by (simp add: delta_def)
  next
    assume "before c b lab"
    with o(1) before_trans[of c x b lab] show ?thesis by (auto simp: delta_def g)
  next
    assume "before c lab b"
    with o(2) before_trans[of c x lab b] show ?thesis by (auto simp: delta_def g)
  qed
qed

lemma resize_control_mono:
  assumes "0 \<le> d \<and> d \<le> e \<or> d \<le> 0 \<and> e \<le> d" "resize_control_label_fixup e = Inr n"
  shows "\<exists>m \<le> n. resize_control_label_fixup d = Inr m"
  using assms unfolding resize_control_label_fixup_def by (auto split: if_splits)

lemma resize_supplied_mono:
  assumes "0 \<le> d \<and> d \<le> e \<or> d \<le> 0 \<and> e \<le> d" "resize_jump_if_supplied e = Inr n"
  shows "\<exists>m \<le> n. resize_jump_if_supplied d = Inr m"
  using assms unfolding resize_jump_if_supplied_def by (auto split: if_splits)

lemma resize_grown:
  assumes wf: "wf_module c" and lay: "layout c raw" and seg: "segments_ok c raw"
    and x: "x \<in> set (slots c)" and b: "b \<in> set (slots c)"
    and le: "ann_size (annot_of c x) \<le> n" and r: "resize (grown c x n) b = Inr m"
  shows "\<exists>m' \<le> m. resize c b = Inr m'"
proof -
  from slotE[OF wf b] obtain f j where f: "f \<in> set (mod_cfunctions c)" "j < length (anns c f)"
    and bb: "b = anns c f ! j" by metis
  note st = same_static_fields[OF grown_annot(3)[OF wf x f le]]
  note lab = wf_ann_nth(5)[OF wf f, folded bb]
  note dg = delta_grows[OF wf lay seg x b _ le]
  show ?thesis
  proof (cases "ann_kind (annot_of c b)")
    case (ControlLabelFixup t u v w)
    with r st dg[of t] lab[of t] show ?thesis
      by (auto simp: resize_def intro!: resize_control_mono)
  next
    case (JumpIfSuppliedFixup t u)
    with r st dg[of t] lab[of t] show ?thesis
      by (auto simp: resize_def intro!: resize_supplied_mono)
  next
    case (ExitFixup t u)
    with r st dg[of u] lab[of u] show ?thesis
      by (auto simp: resize_def intro!: resize_control_mono)
  qed (use r st in \<open>auto simp: resize_def\<close>)
qed


section \<open>The invariant of the loop\<close>

text \<open>
  Besides the layout: no fixup is larger than what it asks for, and none exceeds
  five bytes.
\<close>

definition link_inv :: "comp \<Rightarrow> (nat \<Rightarrow> nat) \<Rightarrow> bool" where
  "link_inv c raw \<longleftrightarrow>
     wf_module c \<and> segments_ok c raw \<and> layout c raw \<and>
     (\<forall>a \<in> set (slots c). ann_size (annot_of c a) \<le> 5 \<and>
        (\<forall>n. resize c a = Inr n \<longrightarrow> ann_size (annot_of c a) \<le> n))"

lemma link_invD:
  assumes "link_inv c raw"
  shows "wf_module c" "segments_ok c raw" "layout c raw"
    "a \<in> set (slots c) \<Longrightarrow> ann_size (annot_of c a) \<le> 5"
    "a \<in> set (slots c) \<Longrightarrow> resize c a = Inr n \<Longrightarrow> ann_size (annot_of c a) \<le> n"
  using assms by (auto simp: link_inv_def)

lemma resize_le_5: "resize c a = Inr n \<Longrightarrow> n \<le> 5"
  by (auto simp: resize_def resize_control_label_fixup_def resize_jump_if_supplied_def resize_lex_ref_def
      resize_encage_def resize_lex_set_def resize_entry_def resize_restore_sp_def resize_entry_close_def
      Let_def split: annot_kind.splits if_splits)

lemma resize_error: "resize c a = Inl e \<Longrightarrow> e = LimitReached"
  by (auto simp: resize_def resize_control_label_fixup_def resize_jump_if_supplied_def
      resize_encage_def resize_lex_set_def Let_def split: annot_kind.splits if_splits)

lemma resize_ge_initial: "resize c a = Inr n \<Longrightarrow> fixup_initial_size (ann_kind (annot_of c a)) \<le> n"
  by (auto simp: resize_def resize_control_label_fixup_def resize_jump_if_supplied_def resize_lex_ref_def
      resize_encage_def resize_lex_set_def resize_entry_def resize_restore_sp_def resize_entry_close_def
      Let_def split: annot_kind.splits if_splits)

lemma grown_size:
  assumes wf: "wf_module c" and x: "x \<in> set (slots c)" and b: "b \<in> set (slots c)"
    and le: "ann_size (annot_of c x) \<le> n"
  shows "ann_size (annot_of (grown c x n) b) = (if b = x then n else ann_size (annot_of c b))"
proof -
  from slotE[OF wf b] obtain f j where f: "f \<in> set (mod_cfunctions c)" "j < length (anns c f)"
    and bb: "b = anns c f ! j" by metis
  show ?thesis using grown_annot(1)[OF wf x f le] bb le by simp
qed

lemma grown_static:
  assumes wf: "wf_module c" and x: "x \<in> set (slots c)" and le: "ann_size (annot_of c x) \<le> n"
  shows "same_static c (grown c x n)"
proof -
  from slotE[OF wf x] obtain f j where "f \<in> set (mod_cfunctions c)" "j < length (anns c f)" by metis
  from grown_annot(3)[OF wf x this le] show ?thesis .
qed

lemma grown_inv:
  assumes inv: "link_inv c raw" and x: "x \<in> set (slots c)" and r: "resize c x = Inr n"
  shows "link_inv (grown c x n) raw"
proof -
  note I = link_invD[OF inv]
  have le: "ann_size (annot_of c x) \<le> n" using I(5)[OF x r] .
  note st = grown_static[OF I(1) x le]
  have "ann_size (annot_of (grown c x n) b) \<le> 5 \<and>
      (\<forall>m. resize (grown c x n) b = Inr m \<longrightarrow> ann_size (annot_of (grown c x n) b) \<le> m)"
    if b: "b \<in> set (slots c)" for b
  proof (intro conjI allI impI)
    show "ann_size (annot_of (grown c x n) b) \<le> 5"
      using grown_size[OF I(1) x b le] I(4)[OF b] resize_le_5[OF r] by simp
    fix m assume "resize (grown c x n) b = Inr m"
    from resize_grown[OF I(1,3,2) x b le this] obtain m' where "m' \<le> m" "resize c b = Inr m'" by blast
    then show "ann_size (annot_of (grown c x n) b) \<le> m"
      using grown_size[OF I(1) x b le] I(5)[OF b] r by fastforce
  qed
  then show ?thesis
    using wf_module_same[OF st] segments_ok_same[OF st] grown_layout[OF I(1,3) x le] I(1,2)
    by (simp add: link_inv_def same_static_fields(13)[OF st])
qed

definition total_size :: "comp \<Rightarrow> nat" where
  "total_size c = (\<Sum>a \<in> set (slots c). ann_size (annot_of c a))"

lemma total_size_bound: "link_inv c raw \<Longrightarrow> total_size c \<le> 5 * card (set (slots c))"
  unfolding total_size_def
  by (rule order_trans[OF sum_bounded_above[of _ _ 5]]) (auto dest: link_invD(4))

lemma total_size_grown:
  assumes wf: "wf_module c" and x: "x \<in> set (slots c)" and less: "ann_size (annot_of c x) < n"
  shows "total_size c < total_size (grown c x n)"
proof -
  note st = grown_static[OF wf x less_imp_le[OF less]]
  show ?thesis unfolding total_size_def same_static_fields(13)[OF st]
    by (rule sum_strict_mono_ex1)
      (use x less grown_size[OF wf x _ less_imp_le[OF less]] in \<open>auto intro!: bexI[of _ x]\<close>)
qed

text \<open>
  What one visit of a fixup yields: nothing changes and the fixup has the size it
  asks for, or the module grows.
\<close>

definition progress :: "comp \<Rightarrow> (nat \<Rightarrow> nat) \<Rightarrow> nat set \<Rightarrow> bool \<Rightarrow> cerror + comp \<times> bool \<Rightarrow> bool" where
  "progress c raw A before_changed r \<longleftrightarrow>
     (case r of
        Inl e \<Rightarrow> e = LimitReached
      | Inr (c', changed) \<Rightarrow>
          link_inv c' raw \<and> same_static c c' \<and> total_size c \<le> total_size c' \<and>
          (before_changed \<longrightarrow> changed) \<and>
          (changed \<and> \<not> before_changed \<longrightarrow> total_size c < total_size c') \<and>
          (\<not> changed \<longrightarrow> c' = c \<and>
             (\<forall>a \<in> A. ann_kind (annot_of c a) \<noteq> Label \<longrightarrow> resize c a = Inr (ann_size (annot_of c a)))))"

lemma resolve_step_progress:
  assumes inv: "link_inv c raw" and x: "x \<in> set (slots c)"
  shows "progress c raw {x} False (resolve_step x c)"
proof (cases "ann_kind (annot_of c x) = Label")
  case True
  then show ?thesis using inv by (simp add: resolve_step_def progress_def)
next
  case False
  show ?thesis
  proof (cases "resize c x")
    case (Inl e)
    with False show ?thesis by (simp add: resolve_step_def progress_def resize_error)
  next
    case (Inr n)
    note le = link_invD(5)[OF inv x Inr]
    show ?thesis
    proof (cases "ann_size (annot_of c x) = n")
      case True
      with False Inr inv show ?thesis by (simp add: resolve_step_def progress_def)
    next
      case False
      with le have less: "ann_size (annot_of c x) < n" by simp
      have "resolve_step x c = Inr (grown c x n, True)"
        using \<open>ann_kind (annot_of c x) \<noteq> Label\<close> Inr less
        by (simp add: resolve_step_def grown_def)
      then show ?thesis
        using grown_inv[OF inv x Inr] grown_static[OF link_invD(1)[OF inv] x le]
          total_size_grown[OF link_invD(1)[OF inv] x less] by (simp add: progress_def)
    qed
  qed
qed

lemma resolve_annots_progress:
  "link_inv c raw \<Longrightarrow> set as \<subseteq> set (slots c) \<Longrightarrow>
   progress c raw (set as) changed (resolve_annots as changed c)"
proof (induction as arbitrary: c changed)
  case Nil
  then show ?case by (simp add: progress_def)
next
  case (Cons a as)
  from Cons.prems have "progress c raw {a} False (resolve_step a c)"
    by (intro resolve_step_progress) simp_all
  note step = this
  show ?case
  proof (cases "resolve_step a c")
    case (Inl e)
    with step show ?thesis by (simp add: progress_def)
  next
    case (Inr r)
    then obtain c1 ch where r: "resolve_step a c = Inr (c1, ch)" by (cases r) auto
    with step have s: "link_inv c1 raw" "same_static c c1" by (simp_all add: progress_def)
    with Cons.IH[of c1 "changed \<or> ch"] Cons.prems(2)
    have "progress c1 raw (set as) (changed \<or> ch) (resolve_annots as (changed \<or> ch) c1)"
      by (simp add: same_static_fields(13))
    with step r s(2) show ?thesis
      by (auto simp: progress_def split: sum.splits intro: same_static_trans)
  qed
qed

lemma resolve_cfuns_progress:
  "link_inv c raw \<Longrightarrow> set fs \<subseteq> set (mod_cfunctions c) \<Longrightarrow>
   progress c raw (\<Union>f \<in> set fs. set (anns c f)) changed (resolve_cfuns fs changed c)"
proof (induction fs arbitrary: c changed)
  case Nil
  then show ?case by (simp add: progress_def)
next
  case (Cons f fs)
  have "set (anns c f) \<subseteq> set (slots c)" using Cons.prems(2) by (auto simp: slots_def)
  then have step: "progress c raw (set (anns c f)) changed (resolve_annots (anns c f) changed c)"
    by (rule resolve_annots_progress[OF Cons.prems(1)])
  show ?case
  proof (cases "resolve_annots (anns c f) changed c")
    case (Inl e)
    with step show ?thesis by (simp add: progress_def)
  next
    case (Inr r)
    then obtain c1 ch where r: "resolve_annots (anns c f) changed c = Inr (c1, ch)" by (cases r) auto
    with step have s: "link_inv c1 raw" "same_static c c1" by (simp_all add: progress_def)
    with Cons.IH[of c1 ch] Cons.prems(2)
    have "progress c1 raw (\<Union>g \<in> set fs. set (anns c g)) ch (resolve_cfuns fs ch c1)"
      by (simp add: same_static_fields(6,10))
    with step r s(2) show ?thesis
      by (auto simp: progress_def split: sum.splits intro: same_static_trans)
  qed
qed


section \<open>The loop ends\<close>

definition resolved :: "comp \<Rightarrow> bool" where
  "resolved c \<longleftrightarrow> (\<forall>a \<in> set (slots c). ann_kind (annot_of c a) \<noteq> Label \<longrightarrow>
     resize c a = Inr (ann_size (annot_of c a)))"

lemma resolve_fixup_sizes_result:
  assumes "link_inv c raw"
  shows "\<exists>r. resolve_fixup_sizes c = Some r \<and>
    (case r of Inl e \<Rightarrow> e = LimitReached
     | Inr c' \<Rightarrow> link_inv c' raw \<and> same_static c c' \<and> resolved c')"
  using assms
proof (induction "5 * card (set (slots c)) - total_size c" arbitrary: c rule: less_induct)
  case less
  note p = resolve_cfuns_progress[OF less.prems order_refl, of False]
  show ?case
  proof (cases "resolve_cfuns (mod_cfunctions c) False c")
    case (Inl e)
    with p show ?thesis by (subst resolve_fixup_sizes.simps) (simp add: progress_def)
  next
    case (Inr r)
    then obtain c1 ch where r: "resolve_cfuns (mod_cfunctions c) False c = Inr (c1, ch)" by (cases r) auto
    show ?thesis
    proof (cases ch)
      case False
      with p r less.prems show ?thesis
        by (subst resolve_fixup_sizes.simps) (auto simp: progress_def resolved_def slots_def)
    next
      case True
      with p r have s: "link_inv c1 raw" "same_static c c1" "total_size c < total_size c1"
        by (simp_all add: progress_def)
      have "5 * card (set (slots c1)) - total_size c1 < 5 * card (set (slots c)) - total_size c"
        using s total_size_bound[OF s(1)] by (simp add: same_static_fields(13))
      from less.hyps[OF this s(1)] s(2) r True show ?thesis
        by (subst resolve_fixup_sizes.simps) (auto split: sum.splits intro: same_static_trans)
    qed
  qed
qed

section \<open>From assembly to the loop\<close>

text \<open>
  A module as the assembler leaves it: fixups at their initial sizes, positions
  relative to their cfunction and nothing grown.
\<close>

definition assembled :: "comp \<Rightarrow> bool" where
  "assembled c \<longleftrightarrow>
     wf_module c \<and> segments_ok c (\<lambda>a. ann_position (annot_of c a)) \<and>
     (\<forall>a \<in> set (slots c). ann_size (annot_of c a) = ann_initial_size (annot_of c a)) \<and>
     (\<forall>f \<in> set (mod_cfunctions c). cf_extra (cfun_of c f) = 0)"

lemma set_positions_effect:
  "distinct fs \<Longrightarrow> \<forall>f \<in> set fs. f < length (cfuns c) \<Longrightarrow>
   annots (set_positions fs p c) = annots c \<and> lexs (set_positions fs p c) = lexs c \<and>
   dinfos (set_positions fs p c) = dinfos c \<and> mod_cfunctions (set_positions fs p c) = mod_cfunctions c \<and>
   mod_literals (set_positions fs p c) = mod_literals c \<and>
   length (cfuns (set_positions fs p c)) = length (cfuns c) \<and>
   (\<forall>g. g \<notin> set fs \<longrightarrow> cfun_of (set_positions fs p c) g = cfun_of c g) \<and>
   (\<forall>k < length fs. cfun_of (set_positions fs p c) (fs ! k) = (cfun_of c (fs ! k))
      \<lparr>cf_position := p + (\<Sum>i<k. length (bytecode (cfun_of c (fs ! i))))\<rparr>)"
proof (induction fs arbitrary: p c)
  case Nil
  then show ?case by simp
next
  case (Cons f fs)
  let ?c = "upd_cfun f (\<lambda>cf. cf\<lparr>cf_position := p\<rparr>) c"
  from Cons.prems have "f < length (cfuns c)" by simp
  note u = cfun_of_upd_cfun[OF this]
  have ne: "fs ! i \<noteq> f" if "i < length fs" for i using that Cons.prems(1) by auto
  have I: "cfun_of ?c (fs ! i) = cfun_of c (fs ! i)" if "i < length fs" for i
    using u ne[OF that] by simp
  have "(\<Sum>i<Suc k. length (bytecode (cfun_of c ((f # fs) ! i)))) =
      length (bytecode (cfun_of c f)) + (\<Sum>i<k. length (bytecode (cfun_of ?c (fs ! i))))"
    if "k < length fs" for k
    unfolding sum.lessThan_Suc_shift using that by (simp add: I)
  note sh = this
  note IH = Cons.IH[of ?c "p + length (bytecode (cfun_of c f))"]
  have "\<forall>k < length (f # fs). cfun_of (set_positions (f # fs) p c) ((f # fs) ! k) = (cfun_of c ((f # fs) ! k))
      \<lparr>cf_position := p + (\<Sum>i<k. length (bytecode (cfun_of c ((f # fs) ! i))))\<rparr>"
  proof (intro allI impI)
    fix k assume k: "k < length (f # fs)"
    show "cfun_of (set_positions (f # fs) p c) ((f # fs) ! k) = (cfun_of c ((f # fs) ! k))
      \<lparr>cf_position := p + (\<Sum>i<k. length (bytecode (cfun_of c ((f # fs) ! i))))\<rparr>"
    proof (cases k)
      case 0
      with IH Cons.prems u show ?thesis by simp
    next
      case (Suc m)
      with k have m: "m < length fs" by simp
      show ?thesis using Suc m IH Cons.prems I[OF m] sh[OF m] by (simp add: add.assoc)
    qed
  qed
  moreover have "cfun_of (set_positions (f # fs) p c) g = cfun_of c g" if "g \<notin> set (f # fs)" for g
    using IH Cons.prems u that by simp
  ultimately show ?case using IH Cons.prems by simp
qed

lemma initialize_effect:
  assumes "wf_module c"
  shows "same_static c (initialize_cfunction_positions c)"
    "annot_of (initialize_cfunction_positions c) a = annot_of c a"
    "cf_extra (cfun_of (initialize_cfunction_positions c) f) = cf_extra (cfun_of c f)"
    "k < length (mod_cfunctions c) \<Longrightarrow>
       cf_position (cfun_of (initialize_cfunction_positions c) (mod_cfunctions c ! k)) =
       (\<Sum>i<k. length (bytecode (cfun_of c (mod_cfunctions c ! i))))"
proof -
  have "\<forall>f \<in> set (mod_cfunctions c). f < length (cfuns c)"
    using wf_mod_nth(1)[OF assms] by (auto simp: in_set_conv_nth)
  note e = set_positions_effect[OF distinct_mods[OF assms] this, of 0, folded initialize_cfunction_positions_def]
  have f: "\<exists>p. cfun_of (initialize_cfunction_positions c) f = (cfun_of c f)\<lparr>cf_position := p\<rparr>" for f
  proof (cases "f \<in> set (mod_cfunctions c)")
    case True
    then obtain k where "k < length (mod_cfunctions c)" "f = mod_cfunctions c ! k" by (metis in_set_conv_nth)
    with e show ?thesis by blast
  next
    case False
    with e have "cfun_of (initialize_cfunction_positions c) f = (cfun_of c f)\<lparr>cf_position := cf_position (cfun_of c f)\<rparr>"
      by simp
    then show ?thesis by blast
  qed
  show a: "annot_of (initialize_cfunction_positions c) a = annot_of c a" for a
    using e by (simp add: annot_of_def)
  show "cf_extra (cfun_of (initialize_cfunction_positions c) f) = cf_extra (cfun_of c f)"
    using f[of f] by auto
  show "k < length (mod_cfunctions c) \<Longrightarrow>
       cf_position (cfun_of (initialize_cfunction_positions c) (mod_cfunctions c ! k)) =
       (\<Sum>i<k. length (bytecode (cfun_of c (mod_cfunctions c ! i))))"
    using e by simp
  have "(cfun_of (initialize_cfunction_positions c) f)\<lparr>cf_position := 0, cf_extra := 0\<rparr> =
      (cfun_of c f)\<lparr>cf_position := 0, cf_extra := 0\<rparr>" for f
    using f[of f] by auto
  with e show "same_static c (initialize_cfunction_positions c)"
    by (simp add: same_static_def a)
qed

lemma assembled_link_inv:
  assumes "assembled c"
  shows "link_inv (initialize_cfunction_positions c) (\<lambda>a. ann_position (annot_of c a))"
proof -
  let ?i = "initialize_cfunction_positions c" and ?raw = "\<lambda>a. ann_position (annot_of c a)"
  from assms have wf: "wf_module c" and seg: "segments_ok c ?raw"
    and sz: "\<And>a. a \<in> set (slots c) \<Longrightarrow> ann_size (annot_of c a) = ann_initial_size (annot_of c a)"
    and ex: "\<And>f. f \<in> set (mod_cfunctions c) \<Longrightarrow> cf_extra (cfun_of c f) = 0"
    by (auto simp: assembled_def)
  note ie = initialize_effect[OF wf]
  note st = same_static_fields[OF ie(1)]
  have g0: "grow c (anns c f ! j) = 0" if "f \<in> set (mod_cfunctions c)" "j < length (anns c f)" for f j
    using sz[OF slotI[OF that]] by (simp add: grow_def)
  have "grow ?i a = grow c a" for a by (simp add: grow_def ie(2))
  moreover have "(\<Sum>i<k. final_size (cfun_of ?i (mod_cfunctions c ! i))) =
      (\<Sum>i<k. length (bytecode (cfun_of c (mod_cfunctions c ! i))))" if "k < length (mod_cfunctions c)" for k
    using that ex by (simp add: final_size_def ie(3) st)
  ultimately have "layout ?i ?raw"
    using g0 ex sz slotI[of _ c] by (simp add: layout_def ie st)
  moreover have "ann_size (annot_of c a) \<le> 5" "\<And>n. resize ?i a = Inr n \<Longrightarrow> ann_size (annot_of c a) \<le> n"
    if a: "a \<in> set (slots c)" for a
  proof -
    from slotE[OF wf a] obtain f j where "f \<in> set (mod_cfunctions c)" "j < length (anns c f)" "a = anns c f ! j"
      by metis
    with wf_ann_nth(4)[OF wf this(1,2)] sz[OF a]
    have s: "ann_size (annot_of c a) = fixup_initial_size (ann_kind (annot_of c a))" by simp
    show "ann_size (annot_of c a) \<le> 5" unfolding s
      by (cases "ann_kind (annot_of c a)") simp_all
    show "ann_size (annot_of c a) \<le> n" if "resize ?i a = Inr n" for n
      using resize_ge_initial[OF that] s by (simp add: ie)
  qed
  ultimately show ?thesis
    using wf seg wf_module_same[OF ie(1)] segments_ok_same[OF ie(1)]
    by (simp add: link_inv_def ie(2) st)
qed

text \<open>C3: linking an assembled module always ends; when it does not report that a
  displacement is out of range, the module has the layout of its grown fixups, every
  fixup has exactly the size it asks for, and nothing but positions and sizes changed.\<close>

theorem link_terminates:
  assumes "assembled c"
  shows "\<exists>r. link c = Some r \<and>
    (case r of Inl e \<Rightarrow> e = LimitReached
     | Inr c' \<Rightarrow> layout c' (\<lambda>a. ann_position (annot_of c a)) \<and> same_static c c' \<and> resolved c')"
proof -
  note inv = assembled_link_inv[OF assms]
  have st: "same_static c (initialize_cfunction_positions c)"
    using assms by (simp add: assembled_def initialize_effect(1))
  from resolve_fixup_sizes_result[OF inv] same_static_trans[OF st] show ?thesis
    by (fastforce simp: link_def split: sum.splits dest: link_invD(3))
qed

end
