(* ===== verification/Image.thy ===== *)
theory Image
  imports Relax
begin

text \<open>
  The bytecode vector of a linked module: \<open>create_bytecode\<close> writes the segments of
  assembled code with every fixup replaced by its bytes, each fixup at its module
  position, so that the displacements read back by the machine land on their labels.
\<close>

section \<open>The image of a cfunction\<close>

definition active :: "comp \<Rightarrow> nat \<Rightarrow> bool" where
  "active c a \<longleftrightarrow> ann_kind (annot_of c a) \<noteq> Label \<and> ann_size (annot_of c a) \<noteq> 0"

fun expand :: "comp \<Rightarrow> byte list \<Rightarrow> nat list \<Rightarrow> nat \<Rightarrow> byte list" where
  "expand c src [] p = drop p src"
| "expand c src (a # as) p =
     (if active c a
      then take (ann_initial_position (annot_of c a) - p) (drop p src) @ fixup_bytes c a @
             expand c src as (ann_initial_position (annot_of c a) + ann_initial_size (annot_of c a))
      else expand c src as p)"

definition cfun_image :: "comp \<Rightarrow> nat \<Rightarrow> byte list" where
  "cfun_image c f = expand c (bytecode (cfun_of c f)) (anns c f) 0"

definition module_image :: "comp \<Rightarrow> byte list" where
  "module_image c = concat (map (cfun_image c) (mod_cfunctions c))"

fun ascending :: "comp \<Rightarrow> nat \<Rightarrow> nat list \<Rightarrow> nat \<Rightarrow> bool" where
  "ascending c n [] p \<longleftrightarrow> p \<le> n"
| "ascending c n (a # as) p \<longleftrightarrow>
     (if active c a
      then p \<le> ann_initial_position (annot_of c a) \<and> ann_initial_position (annot_of c a) \<le> n \<and>
        ascending c n as (ann_initial_position (annot_of c a) + ann_initial_size (annot_of c a))
      else ascending c n as p)"

lemma ascendingI:
  assumes "p \<le> n" "\<forall>a \<in> set as. active c a \<longrightarrow> p \<le> ann_initial_position (annot_of c a) \<and>
      ann_initial_position (annot_of c a) + ann_initial_size (annot_of c a) \<le> n"
    and "sorted_wrt (\<lambda>a b. active c a \<longrightarrow> active c b \<longrightarrow>
      ann_initial_position (annot_of c a) + ann_initial_size (annot_of c a) \<le> ann_initial_position (annot_of c b)) as"
  shows "ascending c n as p"
  using assms
proof (induction as arbitrary: p)
  case Nil
  then show ?case by simp
next
  case (Cons a as)
  show ?case
  proof (cases "active c a")
    case True
    have "ascending c n as (ann_initial_position (annot_of c a) + ann_initial_size (annot_of c a))"
      by (rule Cons.IH) (use Cons.prems True in auto)
    with Cons.prems True show ?thesis by auto
  next
    case False
    have "ascending c n as p"
      by (rule Cons.IH) (use Cons.prems in auto)
    with False show ?thesis by simp
  qed
qed

lemma replace_bytecode_eq:
  "i2 \<le> e2 \<Longrightarrow> e2 \<le> length src \<Longrightarrow>
   replace_bytecode dest src i1 i2 e2 = write_list dest i1 (take (e2 - i2) (drop i2 src))"
proof (induction dest src i1 i2 e2 rule: replace_bytecode.induct)
  case (1 dest src i1 i2 e2)
  show ?case
  proof (cases "i2 < e2")
    case True
    then have "take (e2 - i2) (drop i2 src) = src ! i2 # take (e2 - Suc i2) (drop (Suc i2) src)"
      using 1(3) by (simp add: Cons_nth_drop_Suc[symmetric] take_Cons' )
    with True 1 show ?thesis by (subst replace_bytecode.simps) simp
  next
    case False
    with 1 show ?thesis by (subst replace_bytecode.simps) simp
  qed
qed

lemma create_annots_eq:
  assumes "ascending c (length src) as p"
    and "\<forall>a \<in> set as. active c a \<longrightarrow> resize c a = Inr (ann_size (annot_of c a))"
  shows "\<exists>bs p'. create_annots c src as (code, index, p) = Inr (write_list code index bs, index + length bs, p') \<and>
    bs @ drop p' src = expand c src as p \<and> p' \<le> length src"
  using assms
proof (induction as arbitrary: code index p)
  case Nil
  then show ?case by (auto intro!: exI[of _ "[]"])
next
  case (Cons a as)
  show ?case
  proof (cases "active c a")
    case False
    then have "create_annots c src (a # as) (code, index, p) = create_annots c src as (code, index, p)"
      by (auto simp: active_def)
    with False Cons.IH[of p code index] Cons.prems show ?thesis by simp
  next
    case True
    let ?e = "ann_initial_position (annot_of c a)"
    let ?seg = "take (?e - p) (drop p src)"
    let ?w = "write_list (write_list code index ?seg) (index + (?e - p)) (fixup_bytes c a)"
    have r: "resize c a = Inr (ann_size (annot_of c a))" "ann_size (annot_of c a) \<noteq> 0"
      using True Cons.prems(2) by (simp_all add: active_def)
    have le: "p \<le> ?e" "?e \<le> length src" using Cons.prems(1) True by simp_all
    then have l: "length ?seg = ?e - p" by simp
    from Cons.IH[of "?e + ann_initial_size (annot_of c a)" ?w "index + (?e - p) + ann_size (annot_of c a)"]
      Cons.prems True
    obtain bs p' where IH: "create_annots c src as
        (?w, index + (?e - p) + ann_size (annot_of c a), ?e + ann_initial_size (annot_of c a)) =
        Inr (write_list ?w (index + (?e - p) + ann_size (annot_of c a)) bs,
          index + (?e - p) + ann_size (annot_of c a) + length bs, p')"
      "bs @ drop p' src = expand c src as (?e + ann_initial_size (annot_of c a))" "p' \<le> length src"
      by auto
    have "create_annots c src (a # as) (code, index, p) =
        Inr (write_list code index (?seg @ fixup_bytes c a @ bs),
          index + length (?seg @ fixup_bytes c a @ bs), p')"
      using True le IH(1) l length_fixup_bytes[OF r(1)] emit_eq[OF r]
      by (simp add: active_def replace_bytecode_eq write_list_append add.assoc Let_def)
    with IH(2,3) True show ?thesis
      by (intro exI[of _ "?seg @ fixup_bytes c a @ bs"] exI[of _ p']) simp
  qed
qed

lemma create_cfuns_eq:
  assumes "\<forall>f \<in> set fs. ascending c (length (bytecode (cfun_of c f))) (anns c f) 0 \<and>
      (\<forall>a \<in> set (anns c f). active c a \<longrightarrow> resize c a = Inr (ann_size (annot_of c a)))"
  shows "create_cfuns c fs (code, index) = Inr (write_list code index (concat (map (cfun_image c) fs)))"
  using assms
proof (induction fs arbitrary: code index)
  case Nil
  then show ?case by simp
next
  case (Cons f fs)
  let ?src = "bytecode (cfun_of c f)"
  from create_annots_eq[of c ?src "anns c f" 0 code index] Cons.prems
  obtain bs p' where b: "create_annots c ?src (anns c f) (code, index, 0) =
      Inr (write_list code index bs, index + length bs, p')"
    "bs @ drop p' ?src = cfun_image c f" "p' \<le> length ?src"
    by (auto simp: cfun_image_def)
  have len: "length (cfun_image c f) = length bs + (length ?src - p')"
    using b(2) by (metis length_append length_drop)
  have "replace_bytecode (write_list code index bs) ?src (index + length bs) p' (length ?src) =
      write_list code index (cfun_image c f)"
    using b(3) by (simp add: replace_bytecode_eq b(2)[symmetric] write_list_append)
  then show ?case
    using b(1) len Cons by (simp add: Let_def write_list_append add.assoc)
qed

section \<open>Positions in the image\<close>

lemma expand_position:
  assumes "ascending c (length src) as p" "j < length as" "active c (as ! j)"
    and "\<forall>a \<in> set as. active c a \<longrightarrow> resize c a = Inr (ann_size (annot_of c a)) \<and>
      ann_initial_size (annot_of c a) \<le> ann_size (annot_of c a)"
    and "\<forall>a \<in> set as. \<not> active c a \<longrightarrow> ann_size (annot_of c a) = 0"
  shows "\<exists>pre post. expand c src as p = pre @ fixup_bytes c (as ! j) @ post \<and>
    length pre + p = ann_initial_position (annot_of c (as ! j)) + (\<Sum>i<j. grow c (as ! i))"
  using assms
proof (induction as arbitrary: p j)
  case Nil
  then show ?case by simp
next
  case (Cons a as)
  let ?e = "ann_initial_position (annot_of c a)" and ?s = "ann_initial_size (annot_of c a)"
  show ?case
  proof (cases j)
    case 0
    with Cons.prems(1,3) have "expand c src (a # as) p =
        take (?e - p) (drop p src) @ fixup_bytes c a @ expand c src as (?e + ?s)"
      and "length (take (?e - p) (drop p src)) + p = ?e"
      by auto
    with 0 show ?thesis by (metis add.right_neutral lessThan_0 nth_Cons_0 sum.empty)
  next
    case (Suc m)
    have sum: "(\<Sum>i<j. grow c ((a # as) ! i)) = grow c a + (\<Sum>i<m. grow c (as ! i))"
      unfolding Suc sum.lessThan_Suc_shift by simp
    show ?thesis
    proof (cases "active c a")
      case True
      with Cons.prems Suc Cons.IH[of "?e + ?s" m] obtain pre post where
        IH: "expand c src as (?e + ?s) = pre @ fixup_bytes c (as ! m) @ post"
          "length pre + (?e + ?s) = ann_initial_position (annot_of c (as ! m)) + (\<Sum>i<m. grow c (as ! i))"
        by auto
      have "length (fixup_bytes c a) = ?s + grow c a"
        using Cons.prems(4) True length_fixup_bytes[of c a] by (simp add: grow_def)
      moreover have "length (take (?e - p) (drop p src)) + p = ?e"
        using Cons.prems(1) True by auto
      ultimately show ?thesis
        using IH True Suc sum
        by (intro exI[of _ "take (?e - p) (drop p src) @ fixup_bytes c a @ pre"] exI[of _ post]) simp
    next
      case False
      with Cons.prems Suc Cons.IH[of p m] sum show ?thesis by (auto simp: grow_def)
    qed
  qed
qed

lemma length_expand:
  assumes "ascending c (length src) as p"
    and "\<forall>a \<in> set as. active c a \<longrightarrow> resize c a = Inr (ann_size (annot_of c a)) \<and>
      ann_initial_size (annot_of c a) \<le> ann_size (annot_of c a)"
    and "\<forall>a \<in> set as. \<not> active c a \<longrightarrow> ann_size (annot_of c a) = 0"
  shows "length (expand c src as p) + p = length src + (\<Sum>i<length as. grow c (as ! i))"
  using assms
proof (induction as arbitrary: p)
  case Nil
  then show ?case by simp
next
  case (Cons a as)
  let ?e = "ann_initial_position (annot_of c a)" and ?s = "ann_initial_size (annot_of c a)"
  have sum: "(\<Sum>i<length (a # as). grow c ((a # as) ! i)) = grow c a + (\<Sum>i<length as. grow c (as ! i))"
    unfolding length_Cons sum.lessThan_Suc_shift by simp
  show ?case
  proof (cases "active c a")
    case True
    have "length (fixup_bytes c a) = ?s + grow c a"
      using Cons.prems(2) True length_fixup_bytes[of c a] by (simp add: grow_def)
    with True Cons.prems Cons.IH[of "?e + ?s"] show ?thesis unfolding sum by auto
  next
    case False
    with Cons.prems Cons.IH[of p] show ?thesis unfolding sum by (auto simp: grow_def)
  qed
qed

section \<open>The bytecode of a linked module\<close>

lemma link_result:
  assumes "assembled c" "link c = Some (Inr c')"
  shows "link_inv c' (\<lambda>a. ann_position (annot_of c a))" "same_static c c'" "resolved c'"
proof -
  note r = resolve_fixup_sizes_result[OF assembled_link_inv[OF assms(1)]]
  have st: "same_static c (initialize_cfunction_positions c)"
    using assms(1) by (simp add: assembled_def initialize_effect(1))
  show "link_inv c' (\<lambda>a. ann_position (annot_of c a))" "resolved c'"
    using r assms(2) by (auto simp: link_def)
  show "same_static c c'"
    using r assms(2) same_static_trans[OF st] by (auto simp: link_def)
qed

lemma inactive_size:
  assumes "link_inv c raw" "a \<in> set (slots c)" "\<not> active c a"
  shows "ann_size (annot_of c a) = 0"
  using assms link_invD(5)[OF assms(1,2), of 0] by (auto simp: active_def resize_def)

lemma linked_ascending:
  assumes inv: "link_inv c raw" and f: "f \<in> set (mod_cfunctions c)"
  shows "ascending c (length (bytecode (cfun_of c f))) (anns c f) 0"
proof (rule ascendingI)
  note seg = link_invD(2)[OF inv, unfolded segments_ok_def, rule_format, OF f]
  show "\<forall>a \<in> set (anns c f). active c a \<longrightarrow> 0 \<le> ann_initial_position (annot_of c a) \<and>
      ann_initial_position (annot_of c a) + ann_initial_size (annot_of c a) \<le> length (bytecode (cfun_of c f))"
  proof (intro ballI impI)
    fix a assume "a \<in> set (anns c f)" "active c a"
    moreover from this obtain j where "j < length (anns c f)" "a = anns c f ! j" by (metis in_set_conv_nth)
    ultimately show "0 \<le> ann_initial_position (annot_of c a) \<and>
      ann_initial_position (annot_of c a) + ann_initial_size (annot_of c a) \<le> length (bytecode (cfun_of c f))"
      using seg[of j] by (simp add: active_def)
  qed
  show "sorted_wrt (\<lambda>a b. active c a \<longrightarrow> active c b \<longrightarrow>
      ann_initial_position (annot_of c a) + ann_initial_size (annot_of c a) \<le> ann_initial_position (annot_of c b))
      (anns c f)"
    unfolding sorted_wrt_iff_nth_less
  proof (intro allI impI)
    fix i j assume ij: "i < j" "j < length (anns c f)" "active c (anns c f ! i)" "active c (anns c f ! j)"
    from ij seg[of i] seg[of j] show "ann_initial_position (annot_of c (anns c f ! i)) +
        ann_initial_size (annot_of c (anns c f ! i)) \<le> ann_initial_position (annot_of c (anns c f ! j))"
      by (fastforce simp: active_def)
  qed
qed simp

lemma linked_cfun:
  assumes inv: "link_inv c raw" and res: "resolved c" and f: "f \<in> set (mod_cfunctions c)"
  shows "\<forall>a \<in> set (anns c f). active c a \<longrightarrow> resize c a = Inr (ann_size (annot_of c a)) \<and>
      ann_initial_size (annot_of c a) \<le> ann_size (annot_of c a)"
    and "\<forall>a \<in> set (anns c f). \<not> active c a \<longrightarrow> ann_size (annot_of c a) = 0"
proof -
  have s: "a \<in> set (slots c)" if "a \<in> set (anns c f)" for a using that f by (auto simp: slots_def)
  show "\<forall>a \<in> set (anns c f). active c a \<longrightarrow> resize c a = Inr (ann_size (annot_of c a)) \<and>
      ann_initial_size (annot_of c a) \<le> ann_size (annot_of c a)"
    using s res layoutD(2)[OF link_invD(3)[OF inv] f]
    by (auto simp: resolved_def active_def in_set_conv_nth)
  show "\<forall>a \<in> set (anns c f). \<not> active c a \<longrightarrow> ann_size (annot_of c a) = 0"
    using s inactive_size[OF inv] by blast
qed

lemma length_cfun_image:
  assumes inv: "link_inv c raw" and res: "resolved c" and f: "f \<in> set (mod_cfunctions c)"
  shows "length (cfun_image c f) = final_size (cfun_of c f)"
  using length_expand[OF linked_ascending[OF inv f] linked_cfun[OF inv res f]]
    layoutD(3)[OF link_invD(3)[OF inv] f] by (simp add: cfun_image_def final_size_def)

lemma length_images:
  assumes "link_inv c raw" "resolved c" "k \<le> length (mod_cfunctions c)"
  shows "length (concat (map (cfun_image c) (take k (mod_cfunctions c)))) =
    (\<Sum>i<k. final_size (cfun_of c (mod_cfunctions c ! i)))"
  using assms(3)
proof (induction k)
  case (Suc k)
  then show ?case
    using length_cfun_image[OF assms(1,2), of "mod_cfunctions c ! k"]
    by (simp add: take_Suc_conv_app_nth)
qed simp

lemma length_module_image:
  assumes inv: "link_inv c raw" and res: "resolved c" and ne: "mod_cfunctions c \<noteq> []"
  shows "length (module_image c) = bytecode_size c"
proof -
  let ?n = "length (mod_cfunctions c)"
  have l: "last (mod_cfunctions c) = mod_cfunctions c ! (?n - 1)" using ne by (rule last_conv_nth)
  have n: "?n = Suc (?n - 1)" using ne by simp
  have "length (module_image c) = (\<Sum>i<Suc (?n - 1). final_size (cfun_of c (mod_cfunctions c ! i)))"
    using length_images[OF inv res order_refl] n by (simp add: module_image_def)
  also have "\<dots> = bytecode_size c"
    using layout_position[OF link_invD(3)[OF inv], of "?n - 1"] ne l
    by (simp add: bytecode_size_def del: Suc_pred Suc_diff_Suc)
  finally show ?thesis .
qed

lemma create_bytecode_eq:
  assumes inv: "link_inv c raw" and res: "resolved c" and ne: "mod_cfunctions c \<noteq> []"
  shows "create_bytecode c = Inr (module_image c)"
proof -
  have "create_bytecode c = Inr (write_list (replicate (bytecode_size c) 0) 0 (module_image c))"
    unfolding create_bytecode_def module_image_def
    by (rule create_cfuns_eq) (use linked_ascending[OF inv] linked_cfun(1)[OF inv res] in blast)
  also have "write_list (replicate (bytecode_size c) 0) 0 (module_image c) = module_image c"
    using take_write_list_extend[of 0 "module_image c" "replicate (bytecode_size c) 0"]
      length_module_image[OF assms] by simp
  finally show ?thesis .
qed

text \<open>Every fixup's bytes are found at its module position.\<close>

lemma fixup_in_image:
  assumes inv: "link_inv c raw" and res: "resolved c" and a: "a \<in> set (slots c)" and act: "active c a"
  shows "take (ann_size (annot_of c a)) (drop (module_position c a) (module_image c)) = fixup_bytes c a"
    and "module_position c a + ann_size (annot_of c a) \<le> length (module_image c)"
proof -
  from slotE[OF link_invD(1)[OF inv] a] obtain f j where f: "f \<in> set (mod_cfunctions c)" "j < length (anns c f)"
    and aa: "a = anns c f ! j" "ann_cfunction (annot_of c a) = Some f" by metis
  from f(1) obtain k where k: "k < length (mod_cfunctions c)" "f = mod_cfunctions c ! k"
    by (metis in_set_conv_nth)
  from expand_position[OF linked_ascending[OF inv f(1)] f(2) _ linked_cfun[OF inv res f(1)]] act aa
  obtain pre post where e: "cfun_image c f = pre @ fixup_bytes c a @ post"
    "length pre = ann_initial_position (annot_of c a) + (\<Sum>i<j. grow c (anns c f ! i))"
    by (auto simp: cfun_image_def)
  have "raw a = ann_initial_position (annot_of c a)"
    using link_invD(2)[OF inv] f act aa(1) by (auto simp: segments_ok_def active_def)
  then have pos: "length pre = ann_position (annot_of c a)"
    using layoutD(1)[OF link_invD(3)[OF inv] f] aa(1) e(2) by simp
  let ?before = "concat (map (cfun_image c) (take k (mod_cfunctions c)))"
  have img: "module_image c = ?before @ cfun_image c f @
      concat (map (cfun_image c) (drop (Suc k) (mod_cfunctions c)))"
    unfolding module_image_def using k
    by (metis append_Cons append_take_drop_id concat.simps(2) concat_append Cons_nth_drop_Suc
        list.simps(9) map_append)
  have lb: "length ?before + length pre = module_position c a"
    using length_images[OF inv res, of k] k layout_position[OF link_invD(3)[OF inv] k(1)] pos aa(2)
    by (simp add: module_position_def)
  have lf: "length (fixup_bytes c a) = ann_size (annot_of c a)"
    using res a act by (intro length_fixup_bytes) (simp add: resolved_def active_def)
  show "take (ann_size (annot_of c a)) (drop (module_position c a) (module_image c)) = fixup_bytes c a"
    unfolding img e(1) lb[symmetric] lf[symmetric] by simp
  show "module_position c a + ann_size (annot_of c a) \<le> length (module_image c)"
    unfolding img e(1) lb[symmetric] lf[symmetric] by simp
qed

text \<open>C0: the vector built from a linked module has the size announced by \<open>bytecode_size\<close> and is
  the assembled code of the cfunctions in order, with every fixup replaced by the bytes it stands
  for; no write of a fixup or of a segment reports an assembler error.\<close>

theorem create_bytecode_is_image:
  assumes "assembled c" "link c = Some (Inr c')" "mod_cfunctions c \<noteq> []"
  shows "create_bytecode c' = Inr (module_image c') \<and> length (module_image c') = bytecode_size c'"
proof -
  note r = link_result[OF assms(1,2)]
  have "mod_cfunctions c' \<noteq> []" using same_static_fields(10)[OF r(2)] assms(3) by simp
  then show ?thesis using create_bytecode_eq[OF r(1,3)] length_module_image[OF r(1,3)] by simp
qed

lemma image_nth:
  assumes "link_inv c raw" "resolved c" "a \<in> set (slots c)" "active c a" "i < ann_size (annot_of c a)"
  shows "module_image c ! (module_position c a + i) = fixup_bytes c a ! i"
  using fixup_in_image[OF assms(1-4)] assms(5)
  by (metis add.commute add_leD1 nth_drop nth_take)

text \<open>What is found at the position of a jump in the final bytecode, for each size.\<close>

lemma jump_bytes_land:
  assumes "assembled c" "link c = Some (Inr c')" "create_bytecode c' = Inr code"
    and "a \<in> set (slots c)" "ann_kind (annot_of c a) = ControlLabelFixup lab o8 o16 o24"
    and "p = module_position c' a"
  shows "(ann_size (annot_of c' a) = 2 \<longrightarrow>
      code ! p = o8 \<and> int p + s8 (code ! (p + 1)) = int (module_position c' lab)) \<and>
    (ann_size (annot_of c' a) = 3 \<longrightarrow>
      code ! p = o16 \<and> int p + read_s16 (code ! (p + 1)) (code ! (p + 2)) = int (module_position c' lab)) \<and>
    (ann_size (annot_of c' a) = 4 \<longrightarrow>
      code ! p = o24 \<and> read_label [code ! (p + 1), code ! (p + 2), code ! (p + 3)] = delta c' a lab mod 2 ^ 23) \<and>
    ann_size (annot_of c' a) \<in> {2, 3, 4} \<and> p + ann_size (annot_of c' a) \<le> length code"
proof -
  note r = link_result[OF assms(1,2)]
  have a: "a \<in> set (slots c')" and k: "ann_kind (annot_of c' a) = ControlLabelFixup lab o8 o16 o24"
    using assms(4,5) same_static_fields(1,13)[OF r(2)] by simp_all
  have rz: "resize_control_label_fixup (delta c' a lab) = Inr (ann_size (annot_of c' a))"
    using r(3)[unfolded resolved_def, rule_format, OF a] k by (simp add: resize_def)
  note sz = resize_control_sizes[OF rz]
  have act: "active c' a" using k sz by (auto simp: active_def)
  have ne: "mod_cfunctions c' \<noteq> []" using a by (auto simp: slots_def)
  have code: "code = module_image c'"
    using create_bytecode_eq[OF r(1,3) ne] assms(3) by simp
  note nth = image_nth[OF r(1,3) a act, folded assms(6) code]
  have fb: "fixup_bytes c' a = control_bytes (ann_size (annot_of c' a)) (delta c' a lab) o8 o16 o24"
    using k by (simp add: fixup_bytes_def)
  have two: "code ! p = o8 \<and> int p + s8 (code ! (p + 1)) = int (module_position c' lab)"
    if "ann_size (annot_of c' a) = 2"
  proof -
    have "- 128 \<le> delta c' a lab" "delta c' a lab \<le> 127"
      using rz that by (auto simp: resize_control_label_fixup_def split: if_splits)
    with codec8.lands_on_label[of c' a lab] nth[of 0] nth[of 1] that
    show ?thesis by (simp add: fb control_bytes_def assms(6))
  qed
  have three: "code ! p = o16 \<and> int p + read_s16 (code ! (p + 1)) (code ! (p + 2)) = int (module_position c' lab)"
    if "ann_size (annot_of c' a) = 3"
  proof -
    have "- 32768 \<le> delta c' a lab" "delta c' a lab \<le> 32767"
      using rz that by (auto simp: resize_control_label_fixup_def split: if_splits)
    with codec16.lands_on_label[of c' a lab] nth[of 0] nth[of 1] nth[of 2] that
    show ?thesis by (simp add: fb control_bytes_def assms(6) numeral_2_eq_2)
  qed
  have four: "code ! p = o24 \<and>
      read_label [code ! (p + 1), code ! (p + 2), code ! (p + 3)] = delta c' a lab mod 2 ^ 23"
    if "ann_size (annot_of c' a) = 4"
  proof -
    have "offset_bytes 3 w = [offset_bytes 3 w ! 0, offset_bytes 3 w ! 1, offset_bytes 3 w ! 2]" for w
      by (simp add: offset_bytes_unfold)
    with read_label_24[of "delta c' a lab"] nth[of 0] nth[of 1] nth[of 2] nth[of 3] that
    show ?thesis by (simp add: fb control_bytes_def numeral_2_eq_2 numeral_3_eq_3)
  qed
  have "p + ann_size (annot_of c' a) \<le> length code"
    using fixup_in_image(2)[OF r(1,3) a act] by (simp add: code assms(6))
  with two three four sz show ?thesis by blast
qed


end
