(* ===== verification/Placing.thy ===== *)
theory Placing
  imports Image
begin

text \<open>
  Assembly keeps a module fit for linking: every operation that appends code, places
  a label or a fixup, or registers a cfunction keeps the invariant \<open>building\<close>, and a
  module that is building and whose jump targets have been placed is \<open>assembled\<close>.
\<close>

section \<open>The invariant of assembly\<close>

definition placed :: "comp \<Rightarrow> nat \<Rightarrow> bool" where
  "placed c f \<longleftrightarrow>
     (\<forall>j < length (anns c f).
        let a = anns c f ! j; r = annot_of c a in
        a < length (annots c) \<and> ann_cfunction r = Some f \<and> ann_index r = j \<and>
        ann_initial_size r = fixup_initial_size (ann_kind r) \<and> ann_size r = ann_initial_size r \<and>
        (ann_kind r \<noteq> Label \<longrightarrow> ann_position r = ann_initial_position r) \<and>
        ann_position r + ann_initial_size r \<le> length (bytecode (cfun_of c f)) \<and>
        (\<forall>i < j. ann_position (annot_of c (anns c f ! i)) + ann_initial_size (annot_of c (anns c f ! i))
           \<le> ann_position r))"

definition building :: "comp \<Rightarrow> bool" where
  "building c \<longleftrightarrow>
     (\<forall>k < length (mod_cfunctions c).
        mod_cfunctions c ! k < length (cfuns c) \<and>
        cf_index (cfun_of c (mod_cfunctions c ! k)) = k \<and>
        cf_extra (cfun_of c (mod_cfunctions c ! k)) = 0) \<and>
     (\<forall>f \<in> set (mod_cfunctions c). placed c f)"

definition targets_placed :: "comp \<Rightarrow> bool" where
  "targets_placed c \<longleftrightarrow>
     (\<forall>a \<in> set (slots c). case label_target (ann_kind (annot_of c a)) of
        None \<Rightarrow> True
      | Some lab \<Rightarrow> lab \<in> set (slots c) \<and> ann_kind (annot_of c lab) = Label)"

lemma placedD:
  assumes "placed c f" "j < length (anns c f)"
  shows "anns c f ! j < length (annots c)" "ann_cfunction (annot_of c (anns c f ! j)) = Some f"
    "ann_index (annot_of c (anns c f ! j)) = j"
    "ann_initial_size (annot_of c (anns c f ! j)) = fixup_initial_size (ann_kind (annot_of c (anns c f ! j)))"
    "ann_size (annot_of c (anns c f ! j)) = ann_initial_size (annot_of c (anns c f ! j))"
    "ann_kind (annot_of c (anns c f ! j)) \<noteq> Label \<Longrightarrow>
      ann_position (annot_of c (anns c f ! j)) = ann_initial_position (annot_of c (anns c f ! j))"
    "ann_position (annot_of c (anns c f ! j)) + ann_initial_size (annot_of c (anns c f ! j))
      \<le> length (bytecode (cfun_of c f))"
    "i < j \<Longrightarrow> ann_position (annot_of c (anns c f ! i)) + ann_initial_size (annot_of c (anns c f ! i))
      \<le> ann_position (annot_of c (anns c f ! j))"
  using assms unfolding placed_def Let_def by blast+

lemma buildingD:
  assumes "building c"
  shows "f \<in> set (mod_cfunctions c) \<Longrightarrow> placed c f" "f \<in> set (mod_cfunctions c) \<Longrightarrow> f < length (cfuns c)"
    "k < length (mod_cfunctions c) \<Longrightarrow> cf_index (cfun_of c (mod_cfunctions c ! k)) = k"
    "f \<in> set (mod_cfunctions c) \<Longrightarrow> cf_extra (cfun_of c f) = 0"
  using assms by (auto simp: building_def in_set_conv_nth)

lemma building_assembled:
  assumes b: "building c" and t: "targets_placed c"
  shows "assembled c"
proof -
  have tgt: "lab \<in> set (slots c) \<and> ann_kind (annot_of c lab) = Label"
    if "f \<in> set (mod_cfunctions c)" "j < length (anns c f)"
      "label_target (ann_kind (annot_of c (anns c f ! j))) = Some lab" for f j lab
    using t[unfolded targets_placed_def, rule_format, OF slotI[OF that(1,2)]] that(3) by simp
  have "wf_module c"
    unfolding wf_module_def Let_def
  proof (intro allI impI conjI)
    fix k assume k: "k < length (mod_cfunctions c)"
    then have f: "mod_cfunctions c ! k \<in> set (mod_cfunctions c)" by simp
    show "mod_cfunctions c ! k < length (cfuns c)" "cf_index (cfun_of c (mod_cfunctions c ! k)) = k"
      using buildingD(2)[OF b f] buildingD(3)[OF b k] by simp_all
    fix j assume j: "j < length (anns c (mod_cfunctions c ! k))"
    show "anns c (mod_cfunctions c ! k) ! j < length (annots c)"
      "ann_cfunction (annot_of c (anns c (mod_cfunctions c ! k) ! j)) = Some (mod_cfunctions c ! k)"
      "ann_index (annot_of c (anns c (mod_cfunctions c ! k) ! j)) = j"
      "ann_initial_size (annot_of c (anns c (mod_cfunctions c ! k) ! j)) =
        fixup_initial_size (ann_kind (annot_of c (anns c (mod_cfunctions c ! k) ! j)))"
      by (rule placedD[OF buildingD(1)[OF b f] j])+
    fix lab assume "label_target (ann_kind (annot_of c (anns c (mod_cfunctions c ! k) ! j))) = Some lab"
    from tgt[OF f j this] show "lab \<in> set (slots c)" "ann_kind (annot_of c lab) = Label" by simp_all
  qed
  moreover have "segments_ok c (\<lambda>a. ann_position (annot_of c a))"
    unfolding segments_ok_def using placedD(6-8) buildingD(1)[OF b] by blast
  moreover have "\<forall>a \<in> set (slots c). ann_size (annot_of c a) = ann_initial_size (annot_of c a)"
  proof
    fix a assume "a \<in> set (slots c)"
    then obtain f j where "f \<in> set (mod_cfunctions c)" "j < length (anns c f)" "a = anns c f ! j"
      by (auto simp: slots_def in_set_conv_nth)
    then show "ann_size (annot_of c a) = ann_initial_size (annot_of c a)"
      using placedD(5)[OF buildingD(1)[OF b]] by blast
  qed
  ultimately show ?thesis using buildingD(4)[OF b] by (simp add: assembled_def)
qed

section \<open>Operations\<close>

text \<open>A cfunction whose annotations are left alone while its code may grow stays placed.\<close>

lemma placed_mono:
  assumes "placed c g" "anns c' g = anns c g"
    "length (bytecode (cfun_of c g)) \<le> length (bytecode (cfun_of c' g))"
    "length (annots c) \<le> length (annots c')"
    "\<And>a. a \<in> set (anns c g) \<Longrightarrow> annot_of c' a = annot_of c a"
  shows "placed c' g"
  unfolding placed_def Let_def assms(2)
proof (intro allI impI)
  fix j assume j: "j < length (anns c g)"
  note p = placedD[OF assms(1) j]
  have e: "annot_of c' (anns c g ! i) = annot_of c (anns c g ! i)" if "i \<le> j" for i
    using that j by (intro assms(5)) simp
  show "anns c g ! j < length (annots c') \<and>
      ann_cfunction (annot_of c' (anns c g ! j)) = Some g \<and> ann_index (annot_of c' (anns c g ! j)) = j \<and>
      ann_initial_size (annot_of c' (anns c g ! j)) = fixup_initial_size (ann_kind (annot_of c' (anns c g ! j))) \<and>
      ann_size (annot_of c' (anns c g ! j)) = ann_initial_size (annot_of c' (anns c g ! j)) \<and>
      (ann_kind (annot_of c' (anns c g ! j)) \<noteq> Label \<longrightarrow>
       ann_position (annot_of c' (anns c g ! j)) = ann_initial_position (annot_of c' (anns c g ! j))) \<and>
      ann_position (annot_of c' (anns c g ! j)) + ann_initial_size (annot_of c' (anns c g ! j))
      \<le> length (bytecode (cfun_of c' g)) \<and>
      (\<forall>i<j. ann_position (annot_of c' (anns c g ! i)) + ann_initial_size (annot_of c' (anns c g ! i))
        \<le> ann_position (annot_of c' (anns c g ! j)))"
    using p assms(3,4) e by simp
qed

lemma building_step:
  assumes b: "building c" and m: "mod_cfunctions c' = mod_cfunctions c"
    and l: "length (cfuns c) \<le> length (cfuns c')"
    and s: "\<And>f. f \<in> set (mod_cfunctions c) \<Longrightarrow>
      cf_index (cfun_of c' f) = cf_index (cfun_of c f) \<and> cf_extra (cfun_of c' f) = cf_extra (cfun_of c f)"
    and p: "\<And>f. f \<in> set (mod_cfunctions c) \<Longrightarrow> placed c f \<Longrightarrow> placed c' f"
  shows "building c'"
  using assms by (auto simp: building_def m intro: less_le_trans)

lemma cfun_of_upd_any:
  "cfun_of (upd_cfun f g c) h = (if h = f \<and> f < length (cfuns c) then g (cfun_of c f) else cfun_of c h)"
  by (cases "f < length (cfuns c)") (simp_all add: cfun_of_def upd_cfun_def nth_list_update list_update_beyond)

lemma emit_bytes_building: "building c \<Longrightarrow> building (emit_bytes f bs c)"
  unfolding emit_bytes_def
  by (erule building_step) (auto simp: cfun_of_upd_any intro!: placed_mono[of c])

lemma upd_cfun_building:
  assumes "building c" "\<And>cf. bytecode (g cf) = bytecode cf \<and> annotations (g cf) = annotations cf \<and>
    cf_index (g cf) = cf_index cf \<and> cf_extra (g cf) = cf_extra cf"
  shows "building (upd_cfun f g c)"
  using assms by (intro building_step[OF assms(1)]) (auto simp: cfun_of_upd_any intro!: placed_mono[of c])

lemma same_code_building:
  assumes "building c" "annots c' = annots c" "cfuns c' = cfuns c" "mod_cfunctions c' = mod_cfunctions c"
  shows "building c'"
  using assms by (intro building_step[OF assms(1)])
    (auto simp: cfun_of_def annot_of_def intro!: placed_mono[of c])

lemma new_annot_building:
  assumes "building c" "new_annot r c = (c', a)"
  shows "building c'" "a = length (annots c)" "annot_of c' a = r" "length (annots c') = Suc a"
    "cfun_of c' f = cfun_of c f" "mod_cfunctions c' = mod_cfunctions c" "cfuns c' = cfuns c"
proof -
  show "a = length (annots c)" "annot_of c' a = r" "length (annots c') = Suc a"
    "cfun_of c' f = cfun_of c f" "mod_cfunctions c' = mod_cfunctions c" "cfuns c' = cfuns c"
    using assms(2) by (auto simp: new_annot_def annot_of_def cfun_of_def)
  have c': "c' = c\<lparr>annots := annots c @ [r]\<rparr>" using assms(2) by (simp add: new_annot_def)
  show "building c'"
  proof (rule building_step[OF assms(1)])
    fix f assume "placed c f"
    then have "a < length (annots c)" if "a \<in> set (anns c f)" for a
      using that placedD(1) by (metis in_set_conv_nth)
    with \<open>placed c f\<close> show "placed c' f"
      by (auto simp: c' cfun_of_def annot_of_def nth_append intro!: placed_mono[of c])
  qed (simp_all add: c' cfun_of_def)
qed

text \<open>Placing one annotation at the end of the code, with room for its initial bytes.\<close>

definition unplaced :: "comp \<Rightarrow> nat \<Rightarrow> bool" where
  "unplaced c a \<longleftrightarrow> a < length (annots c) \<and> ann_cfunction (annot_of c a) = None \<and>
     ann_initial_size (annot_of c a) = fixup_initial_size (ann_kind (annot_of c a)) \<and>
     ann_size (annot_of c a) = ann_initial_size (annot_of c a)"

lemma place_building:
  assumes b: "building c" and f: "f \<in> set (mod_cfunctions c)" and u: "unplaced c a"
    and A: "\<And>x. annot_of c' x = (if x = a then r else annot_of c x)"
    and F: "\<And>g. cfun_of c' g = (if g = f then (cfun_of c f)\<lparr>annotations := anns c f @ [a],
              bytecode := bytecode (cfun_of c f) @ replicate (ann_initial_size r) 0\<rparr> else cfun_of c g)"
    and r: "ann_kind r = ann_kind (annot_of c a)" "ann_cfunction r = Some f" "ann_index r = length (anns c f)"
      "ann_initial_size r = ann_initial_size (annot_of c a)" "ann_size r = ann_size (annot_of c a)"
      "ann_position r = length (bytecode (cfun_of c f))"
      "ann_kind r \<noteq> Label \<Longrightarrow> ann_initial_position r = ann_position r"
    and m: "mod_cfunctions c' = mod_cfunctions c" "length (annots c') = length (annots c)"
      "length (cfuns c') = length (cfuns c)"
  shows "building c'"
proof (rule building_step[OF b m(1)])
  fix g assume g: "g \<in> set (mod_cfunctions c)" and pg: "placed c g"
  have new: "a \<notin> set (anns c g)" using placedD(2)[OF pg] u by (auto simp: unplaced_def in_set_conv_nth)
  show "placed c' g"
  proof (cases "g = f")
    case False
    with new m(2) pg show ?thesis by (auto simp: A F intro!: placed_mono[of c])
  next
    case True
    have ne: "anns c f ! j \<noteq> a" if "j < length (anns c f)" for j using new True that by auto
    show ?thesis unfolding placed_def Let_def
    proof (intro allI impI)
      fix j assume "j < length (anns c' g)"
      then consider "j < length (anns c f)" | "j = length (anns c f)" by (auto simp: F True less_Suc_eq)
      then show "anns c' g ! j < length (annots c') \<and>
      ann_cfunction (annot_of c' (anns c' g ! j)) = Some g \<and> ann_index (annot_of c' (anns c' g ! j)) = j \<and>
      ann_initial_size (annot_of c' (anns c' g ! j)) = fixup_initial_size (ann_kind (annot_of c' (anns c' g ! j))) \<and>
      ann_size (annot_of c' (anns c' g ! j)) = ann_initial_size (annot_of c' (anns c' g ! j)) \<and>
      (ann_kind (annot_of c' (anns c' g ! j)) \<noteq> Label \<longrightarrow>
       ann_position (annot_of c' (anns c' g ! j)) = ann_initial_position (annot_of c' (anns c' g ! j))) \<and>
      ann_position (annot_of c' (anns c' g ! j)) + ann_initial_size (annot_of c' (anns c' g ! j))
      \<le> length (bytecode (cfun_of c' g)) \<and>
      (\<forall>i<j. ann_position (annot_of c' (anns c' g ! i)) + ann_initial_size (annot_of c' (anns c' g ! i))
        \<le> ann_position (annot_of c' (anns c' g ! j)))"
      proof cases
        case 1
        with placedD[OF pg, of j] True ne m(2) show ?thesis
          by (simp add: F A nth_append le_Suc_ex trans_le_add1)
      next
        case 2
        with u True ne m(2) r placedD(7)[OF pg] show ?thesis
          by (simp add: F A nth_append unplaced_def)
      qed
    qed
  qed
qed (use m in \<open>auto simp: F\<close>)

lemma fixup_contextualize_building:
  assumes b: "building c" and f: "ctxt_cfunction ctxt \<in> set (mod_cfunctions c)" and u: "unplaced c a"
  shows "building (fixup_contextualize ctxt a c)"
proof -
  have "a < length (annots c)" using u by (simp add: unplaced_def)
  note A = annot_of_upd_annot[of a, simplified]
  note lt = buildingD(2)[OF b f]
  show ?thesis
    by (rule place_building[OF b f u, where r = "(annot_of c a)\<lparr>ann_cfunction := Some (ctxt_cfunction ctxt),
        ann_initial_position := length (bytecode (cfun_of c (ctxt_cfunction ctxt))),
        ann_position := length (bytecode (cfun_of c (ctxt_cfunction ctxt))),
        ann_index := length (anns c (ctxt_cfunction ctxt))\<rparr>"])
      (use \<open>a < length (annots c)\<close> lt in
        \<open>auto simp: fixup_contextualize_def Let_def emit_bytes_def A cfun_of_upd_any\<close>)
qed

lemma label_contextualize_building:
  assumes b: "building c" and f: "ctxt_cfunction ctxt \<in> set (mod_cfunctions c)" and u: "unplaced c a"
    and k: "ann_kind (annot_of c a) = Label"
  shows "building (label_contextualize ctxt a c)"
proof -
  have "a < length (annots c)" and z: "ann_initial_size (annot_of c a) = 0"
    using u k by (simp_all add: unplaced_def)
  note A = annot_of_upd_annot[of a, simplified]
  note lt = buildingD(2)[OF b f]
  show ?thesis
    by (rule place_building[OF b f u, where r = "(annot_of c a)\<lparr>
        ann_position := length (bytecode (cfun_of c (ctxt_cfunction ctxt))),
        ann_cfunction := Some (ctxt_cfunction ctxt),
        ann_index := length (anns c (ctxt_cfunction ctxt))\<rparr>"])
      (use \<open>a < length (annots c)\<close> lt k z in
        \<open>auto simp: label_contextualize_def Let_def A cfun_of_upd_any\<close>)
qed

lemma emit_fixup_building:
  assumes b: "building c" and f: "ctxt_cfunction ctxt \<in> set (mod_cfunctions c)"
  shows "building (emit_fixup ctxt k c)"
proof -
  obtain c' a where n: "new_annot (fixup_make k) c = (c', a)" by (cases "new_annot (fixup_make k) c")
  note nb = new_annot_building[OF b n]
  have "unplaced c' a" using nb(3,4) by (simp add: unplaced_def fixup_make_def)
  with fixup_contextualize_building[OF nb(1) _ this] f nb(6) n show ?thesis
    by (simp add: emit_fixup_def)
qed

lemma register_building:
  assumes b: "building c" and f: "f < length (cfuns c)" "f \<notin> set (mod_cfunctions c)"
    and e: "anns c f = []" "cf_extra (cfun_of c f) = 0"
  shows "building (register_cfunction f c)"
proof -
  let ?r = "register_cfunction f c"
  have F: "cfun_of ?r g = (if g = f then (cfun_of c f)\<lparr>cf_index := length (mod_cfunctions c)\<rparr> else cfun_of c g)" for g
    using f by (simp add: register_cfunction_def upd_cfun_def cfun_of_def nth_list_update)
  have m: "mod_cfunctions ?r = mod_cfunctions c @ [f]" "length (cfuns ?r) = length (cfuns c)"
    "annots ?r = annots c"
    by (simp_all add: register_cfunction_def upd_cfun_def)
  have "placed ?r g" if g: "g \<in> set (mod_cfunctions c @ [f])" for g
  proof (cases "g = f")
    case True
    then show ?thesis using e by (simp add: placed_def F)
  next
    case False
    with g have "placed c g" by (intro buildingD(1)[OF b]) simp
    then show ?thesis
      by (rule placed_mono) (simp_all add: F m annot_of_def False)
  qed
  moreover have "(mod_cfunctions c @ [f]) ! k < length (cfuns c) \<and>
      cf_index (cfun_of ?r ((mod_cfunctions c @ [f]) ! k)) = k \<and> cf_extra (cfun_of ?r ((mod_cfunctions c @ [f]) ! k)) = 0"
    if "k < length (mod_cfunctions c @ [f])" for k
  proof (cases "k = length (mod_cfunctions c)")
    case True
    then show ?thesis using f e by (simp add: F)
  next
    case False
    with that have k: "k < length (mod_cfunctions c)" by simp
    then have "mod_cfunctions c ! k \<in> set (mod_cfunctions c)" by simp
    with k f buildingD(2)[OF b this] buildingD(4)[OF b this] buildingD(3)[OF b k] show ?thesis
      by (auto simp: F nth_append)
  qed
  ultimately show ?thesis unfolding building_def m by blast
qed


section \<open>The emitters\<close>

lemmas emitter_building = emit_bytes_building emit_fixup_building label_contextualize_building
  upd_cfun_building same_code_building

lemma assemble_building:
  assumes "building c"
  shows "building (assemble0 ctxt opc c)" "assemble1 ctxt opc n c = Inr c' \<Longrightarrow> building c'"
    "assemble2 ctxt opc n m c = Inr c' \<Longrightarrow> building c'"
    "assemble_maybe_long ctxt opc vs c = Inr c' \<Longrightarrow> building c'"
  using emit_bytes_building[OF assms]
  by (auto simp: assemble0_def assemble1_def assemble2_def assemble_maybe_long_def bind_res_Inr_iff Let_def
      split: if_splits)

lemma literal_index_building: "building c \<Longrightarrow> building (fst (literal_index l c))"
  by (erule same_code_building) (auto simp: literal_index_def update_literals_def split: prod.splits)

lemma closure_index_building: "building c \<Longrightarrow> building (fst (closure_index ctxt info c))"
  by (simp add: closure_index_def upd_cfun_building split: prod.splits)

lemma compile_literal_building:
  assumes "building c" "compile_literal l ctxt c = Inr c'"
  shows "building c'"
  using assms(2) assms(1) literal_index_building[OF assms(1), of l]
  by (auto dest: assemble_building(2)[rotated] intro: assemble_building(1) simp: compile_literal_def Let_def bind_res_Inr_iff split: if_splits prod.splits)

lemma reference_building:
  assumes "building c" "reference_lexical_info ctxt info c = Inr c'"
  shows "building c'"
  using assms(2) assms(1) closure_index_building[OF assms(1), of ctxt info]
  by (auto dest: assemble_building(2)[rotated] simp: reference_lexical_info_def split: if_splits prod.splits)

text \<open>C6: the operations of the assembler keep a module fit for linking: whatever is emitted,
  every annotation stays at its recorded index and position, in order and inside the code.\<close>

theorem assembly_keeps_building:
  assumes "building c" "ctxt_cfunction ctxt \<in> set (mod_cfunctions c)"
  shows "building (emit_fixup ctxt k c) \<and>
    (unplaced c lab \<and> ann_kind (annot_of c lab) = Label \<longrightarrow> building (label_contextualize ctxt lab c)) \<and>
    building (assemble0 ctxt opc c) \<and>
    (\<forall>c'. assemble1 ctxt opc n c = Inr c' \<or> assemble2 ctxt opc n m c = Inr c' \<or>
       assemble_maybe_long ctxt opc vs c = Inr c' \<or> compile_literal l ctxt c = Inr c' \<or>
       reference_lexical_info ctxt info c = Inr c' \<longrightarrow> building c')"
proof (intro conjI allI impI)
  show "building (emit_fixup ctxt k c)" by (rule emit_fixup_building[OF assms])
  show "building (assemble0 ctxt opc c)" by (rule assemble_building(1)[OF assms(1)])
  show "building (label_contextualize ctxt lab c)" if "unplaced c lab \<and> ann_kind (annot_of c lab) = Label"
    using label_contextualize_building[OF assms] that by blast
  show "building c'" if "assemble1 ctxt opc n c = Inr c' \<or> assemble2 ctxt opc n m c = Inr c' \<or>
       assemble_maybe_long ctxt opc vs c = Inr c' \<or> compile_literal l ctxt c = Inr c' \<or>
       reference_lexical_info ctxt info c = Inr c'" for c'
    using that assemble_building(2-4)[OF assms(1)] compile_literal_building[OF assms(1)]
      reference_building[OF assms(1)] by (elim disjE)
qed

section \<open>A module with a jump that grows\<close>

definition sample_target :: "comp \<times> nat" where
  "sample_target = (case cfunction_make LNil LNil LNil LNil module_make of
      (c, f) \<Rightarrow> new_annot label_make (register_cfunction f c))"

definition sample_jump :: comp where
  "sample_jump = label_contextualize sample_ctxt (snd sample_target)
     (emit_bytes 0 (replicate 130 (vm_code Vm_nil))
       (emit_jump sample_ctxt (snd sample_target) (fst sample_target)))"
lemma sample_assembled: "assembled sample_jump"
proof (rule building_assembled)
  show "targets_placed sample_jump" by code_simp
  show "building sample_jump" by code_simp
qed

text \<open>The displacement does not fit a byte, so the jump grows to its 16-bit form.\<close>

definition sample_linked :: comp where
  "sample_linked = upd_cfun 0 (\<lambda>f. f\<lparr>cf_extra := 1\<rparr>)
     (upd_annot 1 (\<lambda>r. r\<lparr>ann_position := 133\<rparr>) (upd_annot 2 (\<lambda>r. r\<lparr>ann_size := 3\<rparr>) sample_jump))"

lemma sample_link: "link sample_jump = Some (Inr sample_linked)"
  by code_simp

lemma sample_create: "create_bytecode sample_linked =
   Inr ([vm_code Vm_jump_16, 133, 0] @ replicate 130 (vm_code Vm_nil))"
  by code_simp

lemma link_terminates_witness:
  "\<exists>r. link sample_jump = Some r \<and>
    (case r of Inl e \<Rightarrow> e = LimitReached
     | Inr c' \<Rightarrow> layout c' (\<lambda>a. ann_position (annot_of sample_jump a)) \<and> same_static sample_jump c' \<and> resolved c')"
  by (rule link_terminates[OF sample_assembled])

lemma create_bytecode_is_image_witness:
  "create_bytecode sample_linked = Inr (module_image sample_linked) \<and>
   length (module_image sample_linked) = bytecode_size sample_linked"
proof -
  have "mod_cfunctions sample_jump \<noteq> []" by code_simp
  from create_bytecode_is_image[OF sample_assembled sample_link this] show ?thesis .
qed


lemma assembly_keeps_building_witness:
  "building (emit_fixup sample_ctxt (LexSetFixup 0) sample_jump)"
proof -
  have "building sample_jump" "ctxt_cfunction sample_ctxt \<in> set (mod_cfunctions sample_jump)" by code_simp+
  from assembly_keeps_building[OF this] show ?thesis by blast
qed

end
