(* ===== verification/VmState.thy ===== *)
theory VmState
  imports VmCodes
begin

text \<open>
  The state of the virtual machine: tagged words, the heap objects its instructions
  look at, the value stack with its two pointers, the multiple-values area, the
  cells of special variables and the stack of dynamic environments.
\<close>

section \<open>Words\<close>

text \<open>
  A word of the stack is a tagged Lisp value or a raw address.  \<open>lcc_args\<close> points
  either into the stack or at an array outside it; \<open>args_plus\<close> is pointer arithmetic
  on it.  \<open>VNargs\<close> is the shifted count in the second word of a vaslist.
\<close>

datatype val =
    VNil
  | VUnbound
  | VNoBinding
  | VSym nat
  | VFix int
  | VOther nat
  | VCons nat
  | VObj nat
  | VVaslist int
  | VStack int
  | VPc nat int
  | VArgs argptr
  | VNargs nat
and argptr =
    OnStack int
  | InArray "val list" nat

fun args_plus :: "argptr \<Rightarrow> nat \<Rightarrow> argptr" where
  "args_plus (OnStack p) n = OnStack (p + int n)"
| "args_plus (InArray vs i) n = InArray vs (i + n)"

section \<open>Heap objects\<close>

text \<open>
  \<open>BytecodeSimpleFun_O\<close> (module, entry pc, locals frame size, environment size),
  closures with their slots, special variable cells (global value, and the
  thread-local value of this thread), function cells, the function of an unbound
  cell, tagbody and block environments with the frame they were made in, and
  functions that are not bytecode.
\<close>

datatype obj =
    SimpleFun nat int nat nat
  | Closure nat "val list"
  | VarCell val val
  | FunCell nat
  | UnboundFun val
  | TagbodyEnv nat
  | BlockEnv nat
  | Native nat

text \<open>Entries of the dynamic environment stack, the classes of \<open>unwind.h\<close> and \<open>VMFrameDynEnv_O\<close>.\<close>

datatype dynenv =
    DTagbody nat
  | DBlock nat
  | DCatch nat val
  | DUnwindProtect nat
  | DBinding nat val
  | DVMFrame int int
  | DUnknown

record bmodule =
  b_code :: "byte list"
  b_literals :: "val list"

record machine =
  stack :: "int \<Rightarrow> val"
  vm_sp :: int
  vm_fp :: int
  vm_pc :: "nat \<times> int"
  mv_values :: "nat \<Rightarrow> val"
  mv_size :: nat
  conses :: "(val \<times> val) list"
  objs :: "obj list"
  bmodules :: "bmodule list"
  dynenvs :: "dynenv list"
  next_frame :: nat
  fcells :: "nat \<Rightarrow> nat option"
  unwind_dest :: "dynenv \<times> nat"

text \<open>What the functions of the machine and of the unwinder may do besides continuing.\<close>

datatype vm_error =
    OddKeywords
  | UnrecognizedKeywords val
  | TooManyArguments nat nat
  | TooFewArguments nat nat
  | UnboundVariable nat
  | UndefinedFunction val
  | NotAFunctionDesignator val
  | OutOfExtentUnwind
  | NoCatchTag val
  | UnknownOpcode byte
  | UnknownLongOpcode byte

text \<open>
  \<open>LongJumped\<close> names the dynamic environment whose \<open>jmp_buf\<close> is the target;
  \<open>Thrown\<close> is the C++ exception \<open>Unwind\<close> with its frame and index, \<open>CatchThrown\<close> is
  \<open>CatchThrow\<close>.  \<open>Undefined\<close> stands for behaviour the source leaves undefined.
\<close>

datatype outcome =
    Returned val nat machine
  | LongJumped dynenv nat machine
  | Thrown nat nat machine
  | CatchThrown val machine
  | Signalled vm_error machine
  | Undefined
  | OutOfFuel

datatype step = Next int int machine | Stop outcome

section \<open>The value stack\<close>

definition poke :: "int \<Rightarrow> val \<Rightarrow> machine \<Rightarrow> machine" where
  "poke p v m = m\<lparr>stack := (stack m)(p := v)\<rparr>"

definition push :: "int \<Rightarrow> val \<Rightarrow> machine \<Rightarrow> int \<times> machine" where
  "push sp v m = (sp + 1, poke (sp + 1) v m)"

definition pop :: "int \<Rightarrow> machine \<Rightarrow> val \<times> int" where
  "pop sp m = (stack m sp, sp - 1)"

definition drop_n :: "int \<Rightarrow> nat \<Rightarrow> int" where
  "drop_n sp nelems = sp - int nelems"

definition stackref :: "int \<Rightarrow> int \<Rightarrow> int" where
  "stackref sp n = sp - n"

definition push_frame :: "int \<Rightarrow> nat \<Rightarrow> int" where
  "push_frame fp nlocals = fp + int nlocals"

definition reg :: "int \<Rightarrow> nat \<Rightarrow> int" where
  "reg fp n = fp + int n + 1"

definition setreg :: "int \<Rightarrow> nat \<Rightarrow> val \<Rightarrow> machine \<Rightarrow> machine" where
  "setreg fp base v m = poke (fp + int base + 1) v m"

definition savesp :: "int \<Rightarrow> int \<Rightarrow> nat \<Rightarrow> machine \<Rightarrow> machine" where
  "savesp fp sp base m = poke (fp + int base + 1) (VStack sp) m"

definition restoresp :: "int \<Rightarrow> nat \<Rightarrow> machine \<Rightarrow> int option" where
  "restoresp fp base m = (case stack m (fp + int base + 1) of VStack p \<Rightarrow> Some p | _ \<Rightarrow> None)"

definition poke_list :: "int \<Rightarrow> val list \<Rightarrow> machine \<Rightarrow> machine" where
  "poke_list p vs m = m\<lparr>stack := (\<lambda>q. if p \<le> q \<and> q < p + int (length vs) then vs ! nat (q - p) else stack m q)\<rparr>"

fun arg_at :: "machine \<Rightarrow> argptr \<Rightarrow> nat \<Rightarrow> val option" where
  "arg_at m (OnStack p) i = Some (stack m (p + int i))"
| "arg_at m (InArray vs j) i = (if j + i < length vs then Some (vs ! (j + i)) else None)"

text \<open>Reading a range; reading past the end of an array is undefined (\<open>None\<close>).\<close>

fun all_some :: "'a option list \<Rightarrow> 'a list option" where
  "all_some [] = Some []"
| "all_some (x # xs) =
     (case x of None \<Rightarrow> None | Some a \<Rightarrow> map_option ((#) a) (all_some xs))"

definition args_range :: "machine \<Rightarrow> argptr \<Rightarrow> nat \<Rightarrow> val list option" where
  "args_range m p n = all_some (map (arg_at m p) [0..<n])"

definition copytoreg :: "int \<Rightarrow> argptr \<Rightarrow> nat \<Rightarrow> nat \<Rightarrow> machine \<Rightarrow> machine option" where
  "copytoreg fp source n base m =
     map_option (\<lambda>vs. poke_list (fp + int base + 1) vs m) (args_range m source n)"

definition fillreg :: "int \<Rightarrow> val \<Rightarrow> nat \<Rightarrow> nat \<Rightarrow> machine \<Rightarrow> machine" where
  "fillreg fp v n base m = poke_list (fp + int base + 1) (replicate n v) m"

text \<open>The n most recent pushes, the most recent last.\<close>

definition copyto :: "int \<Rightarrow> nat \<Rightarrow> machine \<Rightarrow> val list" where
  "copyto sp n m = map (\<lambda>i. stack m (sp + 1 - int n + int i)) [0..<n]"

definition alloca_vaslist1 :: "int \<Rightarrow> argptr \<Rightarrow> nat \<Rightarrow> machine \<Rightarrow> val \<times> int \<times> machine" where
  "alloca_vaslist1 sp args nargs m =
     (VVaslist (sp + 1), sp + 2, poke (sp + 2) (VNargs nargs) (poke (sp + 1) (VArgs args) m))"

definition alloca_vaslist2 :: "int \<Rightarrow> argptr \<Rightarrow> nat \<Rightarrow> machine \<Rightarrow> val \<times> int \<times> machine" where
  "alloca_vaslist2 sp args nargs m =
     (case alloca_vaslist1 sp args nargs m of (vl, sp1, m1) \<Rightarrow>
      case alloca_vaslist1 sp1 args nargs m1 of (_, sp2, m2) \<Rightarrow> (vl, sp2, m2))"

fun push_list :: "int \<Rightarrow> val list \<Rightarrow> machine \<Rightarrow> int \<times> machine" where
  "push_list sp [] m = (sp, m)"
| "push_list sp (v # vs) m = (case push sp v m of (sp', m') \<Rightarrow> push_list sp' vs m')"

section \<open>Multiple values\<close>

definition multiple_values_limit :: nat where "multiple_values_limit = 8192"

definition valueGet :: "machine \<Rightarrow> nat \<Rightarrow> nat \<Rightarrow> val" where
  "valueGet m idx number_of_values = (if idx < number_of_values then mv_values m idx else VNil)"

definition set1 :: "val \<Rightarrow> machine \<Rightarrow> machine" where
  "set1 v m = m\<lparr>mv_values := (mv_values m)(0 := v), mv_size := 1\<rparr>"

definition setN :: "val \<Rightarrow> nat \<Rightarrow> machine \<Rightarrow> machine" where
  "setN v n m = m\<lparr>mv_values := (mv_values m)(0 := v), mv_size := n\<rparr>"

definition values_list :: "machine \<Rightarrow> val list" where
  "values_list m = map (\<lambda>i. valueGet m i (mv_size m)) [0..<mv_size m]"

section \<open>Heap\<close>

definition obj_at :: "machine \<Rightarrow> val \<Rightarrow> obj option" where
  "obj_at m v = (case v of VObj a \<Rightarrow> if a < length (objs m) then Some (objs m ! a) else None | _ \<Rightarrow> None)"

definition new_obj :: "obj \<Rightarrow> machine \<Rightarrow> nat \<times> machine" where
  "new_obj x m = (length (objs m), m\<lparr>objs := objs m @ [x]\<rparr>)"

definition set_obj :: "nat \<Rightarrow> obj \<Rightarrow> machine \<Rightarrow> machine" where
  "set_obj a x m = m\<lparr>objs := (objs m)[a := x]\<rparr>"

definition new_cons :: "val \<Rightarrow> val \<Rightarrow> machine \<Rightarrow> val \<times> machine" where
  "new_cons a d m = (VCons (length (conses m)), m\<lparr>conses := conses m @ [(a, d)]\<rparr>)"

definition cons_car :: "machine \<Rightarrow> val \<Rightarrow> val option" where
  "cons_car m v = (case v of VCons a \<Rightarrow> if a < length (conses m) then Some (fst (conses m ! a)) else None
     | _ \<Rightarrow> None)"

definition rplaca :: "val \<Rightarrow> val \<Rightarrow> machine \<Rightarrow> machine option" where
  "rplaca v x m = (case v of VCons a \<Rightarrow>
       if a < length (conses m) then Some (m\<lparr>conses := (conses m)[a := (x, snd (conses m ! a))]\<rparr>) else None
     | _ \<Rightarrow> None)"

text \<open>\<open>ql::list\<close>: a fresh list of the values, built from its first cons on.\<close>

fun list_of :: "val list \<Rightarrow> machine \<Rightarrow> val \<times> machine" where
  "list_of [] m = (VNil, m)"
| "list_of (v # vs) m =
     (let a = length (conses m);
          rest = (if vs = [] then VNil else VCons (Suc a))
      in (VCons a, snd (list_of vs (m\<lparr>conses := conses m @ [(v, rest)]\<rparr>))))"

text \<open>
  Cells of special variables (\<open>VariableCell_O\<close>): the thread-local value when this
  thread has bound the cell, the global one otherwise.
\<close>

definition cell_value :: "val \<Rightarrow> val \<Rightarrow> val" where
  "cell_value global local = (if local = VNoBinding then global else local)"

definition cell_set_value :: "nat \<Rightarrow> val \<Rightarrow> machine \<Rightarrow> machine" where
  "cell_set_value a v m =
     (case objs m ! a of
        VarCell g l \<Rightarrow> set_obj a (if l = VNoBinding then VarCell v l else VarCell g v) m
      | _ \<Rightarrow> m)"

definition cell_bind :: "nat \<Rightarrow> val \<Rightarrow> machine \<Rightarrow> val \<times> machine" where
  "cell_bind a v m =
     (case objs m ! a of VarCell g l \<Rightarrow> (l, set_obj a (VarCell g v) m) | _ \<Rightarrow> (VNoBinding, m))"

definition cell_unbind :: "nat \<Rightarrow> val \<Rightarrow> machine \<Rightarrow> machine" where
  "cell_unbind a old m =
     (case objs m ! a of VarCell g l \<Rightarrow> set_obj a (VarCell g old) m | _ \<Rightarrow> m)"

definition environment_size :: "machine \<Rightarrow> val \<Rightarrow> nat option" where
  "environment_size m v = (case obj_at m v of Some (SimpleFun _ _ _ n) \<Rightarrow> Some n | _ \<Rightarrow> None)"

definition entry_point :: "machine \<Rightarrow> nat \<Rightarrow> nat option" where
  "entry_point m f =
     (case obj_at m (VObj f) of Some (SimpleFun _ _ _ _) \<Rightarrow> Some f | Some (Closure sf _) \<Rightarrow> Some sf | _ \<Rightarrow> None)"

definition closure_slots :: "machine \<Rightarrow> nat \<Rightarrow> val list" where
  "closure_slots m f = (case obj_at m (VObj f) of Some (Closure _ vs) \<Rightarrow> vs | _ \<Rightarrow> [])"

section \<open>Facts\<close>

lemma stack_poke [simp]: "stack (poke p v m) q = (if q = p then v else stack m q)"
  by (simp add: poke_def)

lemma poke_simps [simp]:
  "vm_sp (poke p v m) = vm_sp m" "vm_fp (poke p v m) = vm_fp m" "vm_pc (poke p v m) = vm_pc m"
  "mv_values (poke p v m) = mv_values m" "mv_size (poke p v m) = mv_size m"
  "conses (poke p v m) = conses m" "objs (poke p v m) = objs m" "bmodules (poke p v m) = bmodules m"
  "dynenvs (poke p v m) = dynenvs m" "next_frame (poke p v m) = next_frame m" "fcells (poke p v m) = fcells m"
  "unwind_dest (poke p v m) = unwind_dest m"
  by (simp_all add: poke_def)

lemma poke_list_simps [simp]:
  "vm_sp (poke_list p v m) = vm_sp m" "vm_fp (poke_list p v m) = vm_fp m" "vm_pc (poke_list p v m) = vm_pc m"
  "mv_values (poke_list p v m) = mv_values m" "mv_size (poke_list p v m) = mv_size m"
  "conses (poke_list p v m) = conses m" "objs (poke_list p v m) = objs m"
  "bmodules (poke_list p v m) = bmodules m" "dynenvs (poke_list p v m) = dynenvs m"
  "next_frame (poke_list p v m) = next_frame m" "fcells (poke_list p v m) = fcells m"
  "unwind_dest (poke_list p v m) = unwind_dest m"
  by (simp_all add: poke_list_def)

lemma stack_poke_list:
  "stack (poke_list p vs m) q = (if p \<le> q \<and> q < p + int (length vs) then vs ! nat (q - p) else stack m q)"
  by (simp add: poke_list_def)

lemma poke_list_Nil [simp]: "poke_list p [] m = m"
proof -
  have "(\<lambda>q. if p \<le> q \<and> q < p + int (length []) then [] ! nat (q - p) else stack m q) = stack m"
    by (auto simp: fun_eq_iff)
  then show ?thesis by (simp add: poke_list_def)
qed

lemma push_list_eq: "push_list sp vs m = (sp + int (length vs), poke_list (sp + 1) vs m)"
proof (induction sp vs m rule: push_list.induct)
  case (1 sp m)
  then show ?case by simp
next
  case (2 sp v vs m)
  have "poke_list (sp + 2) vs (poke (sp + 1) v m) = poke_list (sp + 1) (v # vs) m"
  proof -
    have "stack (poke_list (sp + 2) vs (poke (sp + 1) v m)) q = stack (poke_list (sp + 1) (v # vs) m) q" for q
      by (cases "q = sp + 1") (auto simp: stack_poke_list nth_Cons' nat_diff_distrib intro!: arg_cong[of _ _ "(!) vs"])
    then show ?thesis by (simp add: poke_list_def poke_def fun_eq_iff)
  qed
  with 2 show ?case by (simp add: push_def add.assoc)
qed

lemma all_some_map_Some: "all_some (map (\<lambda>x. Some (f x)) xs) = Some (map f xs)"
  by (induction xs) simp_all

lemma args_range_stack: "args_range m (OnStack p) n = Some (map (\<lambda>i. stack m (p + int i)) [0..<n])"
proof -
  have "arg_at m (OnStack p) = (\<lambda>i. Some (stack m (p + int i)))" by (simp add: fun_eq_iff)
  then show ?thesis by (simp add: args_range_def all_some_map_Some)
qed

lemma copytoreg_stack:
  "copytoreg fp (OnStack p) n base m =
     Some (poke_list (fp + int base + 1) (map (\<lambda>i. stack m (p + int i)) [0..<n]) m)"
  by (simp add: copytoreg_def args_range_stack)

lemma cell_ops_simps [simp]:
  "stack (set_obj a x m) = stack m" "vm_sp (set_obj a x m) = vm_sp m" "vm_fp (set_obj a x m) = vm_fp m"
  "vm_pc (set_obj a x m) = vm_pc m" "dynenvs (set_obj a x m) = dynenvs m"
  "length (objs (set_obj a x m)) = length (objs m)" "conses (set_obj a x m) = conses m"
  "bmodules (set_obj a x m) = bmodules m" "next_frame (set_obj a x m) = next_frame m"
  "mv_values (set_obj a x m) = mv_values m" "mv_size (set_obj a x m) = mv_size m"
  by (simp_all add: set_obj_def)

end
