(* ===== verification/DynEnv.thy ===== *)
theory DynEnv
  imports VmState
begin

text \<open>
  Nonlocal exits (\<open>unwind.cc\<close>, \<open>unwind.h\<close>): the search through the dynamic environments,
  the unwinding loop that undoes them one by one, and the functions that install
  environments around a body.  A body is a function from machine states to outcomes;
  a \<open>longjmp\<close> runs no destructors, a C++ exception and a normal return run them.
\<close>

section \<open>Search\<close>

datatype search_status = SContinue | SProceed | SOutOfExtent | SFallBack

definition dynenv_search :: "dynenv \<Rightarrow> search_status" where
  "dynenv_search d = (case d of DUnknown \<Rightarrow> SFallBack | _ \<Rightarrow> SContinue)"

fun unwind_search_loop :: "dynenv \<Rightarrow> dynenv list \<Rightarrow> search_status \<Rightarrow> search_status" where
  "unwind_search_loop dest [] status = SOutOfExtent"
| "unwind_search_loop dest (d # ds) status =
     (if d = dest then status
      else unwind_search_loop dest ds
             (if dynenv_search d \<noteq> SContinue then dynenv_search d else status))"

definition sjlj_unwind_search :: "dynenv \<Rightarrow> machine \<Rightarrow> search_status" where
  "sjlj_unwind_search dest m = unwind_search_loop dest (dynenvs m) SProceed"

fun throw_search_loop :: "val \<Rightarrow> dynenv list \<Rightarrow> search_status \<Rightarrow> search_status \<times> dynenv option" where
  "throw_search_loop tag [] status = (SOutOfExtent, None)"
| "throw_search_loop tag (d # ds) status =
     (let next = throw_search_loop tag ds
                   (if dynenv_search d \<noteq> SContinue then dynenv_search d else status)
      in case d of
           DCatch k t \<Rightarrow> if tag = t then (status, Some d) else next
         | _ \<Rightarrow> next)"

definition sjlj_throw_search :: "val \<Rightarrow> machine \<Rightarrow> search_status \<times> dynenv option" where
  "sjlj_throw_search tag m = throw_search_loop tag (dynenvs m) SProceed"

section \<open>Unwinding\<close>

text \<open>Blocks and catches are left behind when unwound to, a tagbody stays in place.\<close>

definition unwound_dynenv_p :: "dynenv \<Rightarrow> bool" where
  "unwound_dynenv_p d = (case d of DTagbody _ \<Rightarrow> False | _ \<Rightarrow> True)"

text \<open>The \<open>proceed\<close> methods that return; that of \<open>UnwindProtectDynEnv_O\<close> jumps away.\<close>

definition dynenv_proceed :: "dynenv \<Rightarrow> machine \<Rightarrow> machine" where
  "dynenv_proceed d m =
     (case d of
        DBinding c old \<Rightarrow> cell_unbind c old m
      | DVMFrame old_sp old_fp \<Rightarrow> m\<lparr>vm_sp := old_sp, vm_fp := old_fp\<rparr>
      | _ \<Rightarrow> m)"

fun proceed_loop :: "dynenv \<Rightarrow> nat \<Rightarrow> dynenv list \<Rightarrow> machine \<Rightarrow> outcome" where
  "proceed_loop dest index [] m = Undefined"
| "proceed_loop dest index (d # ds) m =
     (if d = dest then
        LongJumped d index (m\<lparr>dynenvs := (if unwound_dynenv_p d then ds else d # ds)\<rparr>)
      else let m1 = m\<lparr>dynenvs := d # ds\<rparr> in
           case d of
             DUnwindProtect _ \<Rightarrow> LongJumped d 1 (m1\<lparr>dynenvs := ds\<rparr>)
           | _ \<Rightarrow> proceed_loop dest index ds (dynenv_proceed d m1))"

text \<open>Only \<open>DestDynEnv_O\<close>s can be destinations: they carry a \<open>jmp_buf\<close>.\<close>

definition dest_dynenv_p :: "dynenv \<Rightarrow> bool" where
  "dest_dynenv_p d = (case d of DTagbody _ \<Rightarrow> True | DBlock _ \<Rightarrow> True | DCatch _ _ \<Rightarrow> True | _ \<Rightarrow> False)"

definition sjlj_unwind_proceed :: "dynenv \<Rightarrow> nat \<Rightarrow> machine \<Rightarrow> outcome" where
  "sjlj_unwind_proceed dest index m =
     (if dest_dynenv_p dest
      then proceed_loop dest index (dynenvs m) (m\<lparr>unwind_dest := (dest, index)\<rparr>)
      else Undefined)"

definition dest_frame :: "dynenv \<Rightarrow> machine \<Rightarrow> nat option" where
  "dest_frame d m =
     (case d of
        DTagbody a \<Rightarrow> (case obj_at m (VObj a) of Some (TagbodyEnv fr) \<Rightarrow> Some fr | _ \<Rightarrow> None)
      | DBlock a \<Rightarrow> (case obj_at m (VObj a) of Some (BlockEnv fr) \<Rightarrow> Some fr | _ \<Rightarrow> None)
      | _ \<Rightarrow> None)"

definition sjlj_unwind :: "dynenv \<Rightarrow> nat \<Rightarrow> machine \<Rightarrow> outcome" where
  "sjlj_unwind dest index m =
     (case sjlj_unwind_search dest m of
        SOutOfExtent \<Rightarrow> Signalled OutOfExtentUnwind m
      | SFallBack \<Rightarrow> (case dest_frame dest m of Some fr \<Rightarrow> Thrown fr index m | None \<Rightarrow> Undefined)
      | SProceed \<Rightarrow> sjlj_unwind_proceed dest index m
      | SContinue \<Rightarrow> Undefined)"

definition sjlj_throw :: "val \<Rightarrow> machine \<Rightarrow> outcome" where
  "sjlj_throw tag m =
     (case sjlj_throw_search tag m of
        (SOutOfExtent, _) \<Rightarrow> Signalled (NoCatchTag tag) m
      | (SFallBack, _) \<Rightarrow> CatchThrown tag m
      | (SProceed, Some dest) \<Rightarrow> sjlj_unwind_proceed dest 1 m
      | _ \<Rightarrow> Undefined)"

definition sjlj_continue_unwinding :: "machine \<Rightarrow> outcome" where
  "sjlj_continue_unwinding m = sjlj_unwind_proceed (fst (unwind_dest m)) (snd (unwind_dest m)) m"

section \<open>Installing environments\<close>

text \<open>What a destructor does on a normal return and on a C++ exception, but not on a longjmp.\<close>

definition on_exit :: "(machine \<Rightarrow> machine) \<Rightarrow> outcome \<Rightarrow> outcome" where
  "on_exit f r =
     (case r of
        Returned v n m \<Rightarrow> Returned v n (f m)
      | Thrown fr i m \<Rightarrow> Thrown fr i (f m)
      | CatchThrown t m \<Rightarrow> CatchThrown t (f m)
      | _ \<Rightarrow> r)"

definition with_dynenv :: "dynenv list \<Rightarrow> (machine \<Rightarrow> outcome) \<Rightarrow> machine \<Rightarrow> outcome" where
  "with_dynenv newstack body m =
     on_exit (\<lambda>m'. m'\<lparr>dynenvs := dynenvs m\<rparr>) (body (m\<lparr>dynenvs := newstack\<rparr>))"

definition call_with_cell_bound :: "nat \<Rightarrow> val \<Rightarrow> (machine \<Rightarrow> outcome) \<Rightarrow> machine \<Rightarrow> outcome" where
  "call_with_cell_bound cell v bound m =
     (case cell_bind cell v m of (old, m1) \<Rightarrow>
        on_exit (cell_unbind cell old)
          (with_dynenv (DBinding cell old # dynenvs m1) bound m1))"

definition read_values0 :: "machine \<Rightarrow> outcome" where
  "read_values0 m = Returned (valueGet m 0 (mv_size m)) (mv_size m) m"

definition new_frame :: "machine \<Rightarrow> nat \<times> machine" where
  "new_frame m = (next_frame m, m\<lparr>next_frame := Suc (next_frame m)\<rparr>)"

definition call_with_escape :: "(val \<Rightarrow> machine \<Rightarrow> outcome) \<Rightarrow> machine \<Rightarrow> outcome" where
  "call_with_escape block m =
     (case new_frame m of (frame, m1) \<Rightarrow>
      case new_obj (BlockEnv frame) m1 of (a, m2) \<Rightarrow>
      case with_dynenv (DBlock a # dynenvs m2) (block (VObj a)) m2 of
        LongJumped d i m3 \<Rightarrow> if d = DBlock a then read_values0 m3 else LongJumped d i m3
      | Thrown fr i m3 \<Rightarrow> if fr = frame then read_values0 m3 else Thrown fr i m3
      | r \<Rightarrow> r)"

text \<open>
  The loop of \<open>call_with_tagbody\<close>, which may go round for ever: \<open>again\<close> resets the
  dynamic environment after an exception; the longjmp has already done so.  On leaving
  the loop the destructor of the pusher runs.
\<close>

partial_function (option) tagbody_loop ::
    "(nat \<Rightarrow> machine \<Rightarrow> outcome) \<Rightarrow> nat \<Rightarrow> nat \<Rightarrow> dynenv list \<Rightarrow> nat \<Rightarrow> machine \<Rightarrow> outcome option" where
  "tagbody_loop tagbody a frame env index m =
     (case tagbody index m of
        LongJumped d i m1 \<Rightarrow>
          if d = DTagbody a then tagbody_loop tagbody a frame env i m1 else Some (LongJumped d i m1)
      | Thrown fr i m1 \<Rightarrow>
          if fr = frame then tagbody_loop tagbody a frame env i (m1\<lparr>dynenvs := env\<rparr>)
          else Some (Thrown fr i m1)
      | r \<Rightarrow> Some r)"

definition call_with_tagbody :: "(val \<Rightarrow> nat \<Rightarrow> machine \<Rightarrow> outcome) \<Rightarrow> machine \<Rightarrow> outcome option" where
  "call_with_tagbody tagbody m =
     (case new_frame m of (frame, m1) \<Rightarrow>
      case new_obj (TagbodyEnv frame) m1 of (a, m2) \<Rightarrow>
      let env = DTagbody a # dynenvs m2 in
      map_option (on_exit (\<lambda>m'. m'\<lparr>dynenvs := dynenvs m2\<rparr>))
        (tagbody_loop (tagbody (VObj a)) a frame env 0 (m2\<lparr>dynenvs := env\<rparr>)))"

definition call_with_catch :: "val \<Rightarrow> (machine \<Rightarrow> outcome) \<Rightarrow> machine \<Rightarrow> outcome" where
  "call_with_catch tag cf m =
     (case new_frame m of (k, m1) \<Rightarrow>
      case with_dynenv (DCatch k tag # dynenvs m1) cf m1 of
        LongJumped d i m2 \<Rightarrow> if d = DCatch k tag then read_values0 m2 else LongJumped d i m2
      | CatchThrown t m2 \<Rightarrow> if t \<noteq> tag then CatchThrown t m2 else read_values0 m2
      | r \<Rightarrow> r)"

definition load_temp :: "nat \<Rightarrow> (nat \<Rightarrow> val) \<Rightarrow> machine \<Rightarrow> machine" where
  "load_temp nvals temp m =
     m\<lparr>mv_size := nvals, mv_values := (\<lambda>i. if i < nvals then temp i else mv_values m i)\<rparr>"

text \<open>
  \<open>returnTypeSaveToTemp\<close> and \<open>returnTypeLoadFromTemp\<close>: the values beyond the first are put
  back, the size of the multiple-values area is not.
\<close>

definition load_return :: "val \<Rightarrow> nat \<Rightarrow> (nat \<Rightarrow> val) \<Rightarrow> machine \<Rightarrow> outcome" where
  "load_return primary nvals temp m =
     Returned (if nvals = 0 then VNil else primary) nvals
       (m\<lparr>mv_values := (\<lambda>i. if 1 \<le> i \<and> i < nvals then temp i else mv_values m i)\<rparr>)"

text \<open>
  \<open>funwind_protect\<close>: the cleanup runs on every way out.  What it returns is dropped;
  when it leaves by itself, that exit wins.
\<close>

definition after_cleanup :: "(machine \<Rightarrow> outcome) \<Rightarrow> (machine \<Rightarrow> outcome) \<Rightarrow> machine \<Rightarrow> outcome" where
  "after_cleanup cleanup k m = (case cleanup m of Returned _ _ m' \<Rightarrow> k m' | r \<Rightarrow> r)"

definition funwind_protect :: "(machine \<Rightarrow> outcome) \<Rightarrow> (machine \<Rightarrow> outcome) \<Rightarrow> machine \<Rightarrow> outcome" where
  "funwind_protect protected_thunk cleanup m =
     (case new_frame m of (k, m1) \<Rightarrow>
      case with_dynenv (DUnwindProtect k # dynenvs m1) protected_thunk m1 of
        LongJumped d i m2 \<Rightarrow>
          if d = DUnwindProtect k then
            after_cleanup cleanup
              (\<lambda>m3. sjlj_continue_unwinding
                     ((load_temp (mv_size m2) (mv_values m2) m3)\<lparr>unwind_dest := unwind_dest m2\<rparr>)) m2
          else LongJumped d i m2
      | Thrown fr i m2 \<Rightarrow>
          after_cleanup cleanup (\<lambda>m3. Thrown fr i (load_temp (mv_size m2) (mv_values m2) m3)) m2
      | CatchThrown t m2 \<Rightarrow>
          after_cleanup cleanup (\<lambda>m3. CatchThrown t (load_temp (mv_size m2) (mv_values m2) m3)) m2
      | Returned v n m2 \<Rightarrow> after_cleanup cleanup (load_return v n (mv_values m2)) m2
      | r \<Rightarrow> r)"


section \<open>What the search finds\<close>

lemma unwind_search_loop_status:
  "status = SProceed \<or> status = SFallBack \<Longrightarrow>
   unwind_search_loop dest ds status =
     (if dest \<notin> set ds then SOutOfExtent
      else if status = SFallBack \<or> DUnknown \<in> set (takeWhile (\<lambda>d. d \<noteq> dest) ds) then SFallBack
      else SProceed)"
  by (induction dest ds status rule: unwind_search_loop.induct)
    (auto simp: dynenv_search_def split: dynenv.splits if_splits)

text \<open>C15: the search phase of a nonlocal exit says that the destination is out of extent exactly
  when it is not on the dynamic environment stack, and asks for the C++ unwinder exactly when
  unknown C++ frames lie between here and the destination.\<close>

theorem sjlj_unwind_search_correct:
  "sjlj_unwind_search dest m =
     (if dest \<notin> set (dynenvs m) then SOutOfExtent
      else if DUnknown \<in> set (takeWhile (\<lambda>d. d \<noteq> dest) (dynenvs m)) then SFallBack
      else SProceed)"
  by (simp add: sjlj_unwind_search_def unwind_search_loop_status)

lemma throw_search_loop_Some:
  "throw_search_loop tag ds status = (s, Some d) \<Longrightarrow> s \<noteq> SOutOfExtent \<or> status = SOutOfExtent"
  by (induction tag ds status rule: throw_search_loop.induct)
    (auto simp: dynenv_search_def Let_def split: dynenv.splits if_splits)

lemma throw_search_loop_dest:
  "throw_search_loop tag ds status = (s, Some d) \<Longrightarrow> d \<in> set ds \<and> (\<exists>k. d = DCatch k tag)"
  by (induction tag ds status rule: throw_search_loop.induct)
    (auto simp: Let_def split: dynenv.splits if_splits)

section \<open>The unwinding loop undoes the environments\<close>

definition undo :: "dynenv list \<Rightarrow> machine \<Rightarrow> machine" where
  "undo ds m = fold (\<lambda>d m. dynenv_proceed d m) ds m"

lemma dynenvs_proceed [simp]: "dynenvs (dynenv_proceed d m) = dynenvs m"
  by (simp add: dynenv_proceed_def cell_unbind_def split: dynenv.splits obj.splits)

lemma proceed_dynenvs_update:
  "dynenv_proceed d (m\<lparr>dynenvs := x\<rparr>) = (dynenv_proceed d m)\<lparr>dynenvs := x\<rparr>"
  by (auto simp: dynenv_proceed_def cell_unbind_def set_obj_def split: dynenv.splits obj.splits)

lemma undo_dynenvs_update: "undo ds (m\<lparr>dynenvs := x\<rparr>) = (undo ds m)\<lparr>dynenvs := x\<rparr>"
  unfolding undo_def by (induction ds arbitrary: m) (simp_all add: proceed_dynenvs_update)

lemma proceed_loop_eq:
  assumes "dest \<notin> set pre" "\<forall>k. DUnwindProtect k \<notin> set pre"
  shows "proceed_loop dest index (pre @ dest # post) m =
    LongJumped dest index
      ((undo pre m)\<lparr>dynenvs := (if unwound_dynenv_p dest then post else dest # post)\<rparr>)"
  using assms
proof (induction pre arbitrary: m)
  case Nil
  then show ?case by (simp add: undo_def)
next
  case (Cons d pre)
  have "proceed_loop dest index ((d # pre) @ dest # post) m =
      proceed_loop dest index (pre @ dest # post) (dynenv_proceed d (m\<lparr>dynenvs := d # pre @ dest # post\<rparr>))"
    using Cons.prems by (auto simp: Let_def split: dynenv.splits)
  also have "\<dots> = LongJumped dest index ((undo pre (dynenv_proceed d (m\<lparr>dynenvs := d # pre @ dest # post\<rparr>)))
      \<lparr>dynenvs := (if unwound_dynenv_p dest then post else dest # post)\<rparr>)"
    using Cons.prems by (intro Cons.IH) auto
  finally show ?case
    by (simp add: proceed_dynenvs_update undo_dynenvs_update) (simp add: undo_def)
qed

fun binding_of :: "nat \<Rightarrow> dynenv \<Rightarrow> val option" where
  "binding_of c (DBinding c' old) = (if c = c' then Some old else None)"
| "binding_of c _ = None"

text \<open>The value a cell has before a run of environments was entered: the outermost binding tells.\<close>

fun outermost :: "nat \<Rightarrow> dynenv list \<Rightarrow> val \<Rightarrow> val" where
  "outermost c [] l = l"
| "outermost c (d # ds) l =
     outermost c ds (case binding_of c d of None \<Rightarrow> l | Some old \<Rightarrow> old)"

lemma undo_cell:
  assumes "c < length (objs m)" "objs m ! c = VarCell g l"
  shows "c < length (objs (undo ds m)) \<and> objs (undo ds m) ! c = VarCell g (outermost c ds l)"
  using assms unfolding undo_def
proof (induction ds arbitrary: m l)
  case Nil
  then show ?case by simp
next
  case (Cons d ds)
  have "c < length (objs (dynenv_proceed d m)) \<and>
      objs (dynenv_proceed d m) ! c = VarCell g (case binding_of c d of None \<Rightarrow> l | Some old \<Rightarrow> old)"
    using Cons.prems
    by (cases d) (auto simp: dynenv_proceed_def cell_unbind_def set_obj_def nth_list_update split: obj.splits)
  with Cons.IH[of "dynenv_proceed d m"] show ?case by simp
qed

text \<open>C13: an exit through any number of special bindings and call frames, with no cleanup and no
  unknown C++ code on the way, reaches its destination, leaves exactly the environments outside it
  (a tagbody stays installed, a block does not), and every special variable has the value it had
  outside the outermost binding left behind.\<close>

theorem unwinding_restores_bindings:
  assumes "dynenvs m = pre @ dest # post" "dest \<notin> set pre" "dest_dynenv_p dest"
    and "\<forall>k. DUnwindProtect k \<notin> set pre" "DUnknown \<notin> set pre"
  shows "\<exists>m'. sjlj_unwind dest index m = LongJumped dest index m' \<and>
    dynenvs m' = (if unwound_dynenv_p dest then post else dest # post) \<and>
    (\<forall>c g l. c < length (objs m) \<and> objs m ! c = VarCell g l \<longrightarrow>
       objs m' ! c = VarCell g (outermost c pre l))"
proof -
  have "takeWhile (\<lambda>d. d \<noteq> dest) (pre @ dest # post) = pre"
    using assms(2) by (subst takeWhile_append2) auto
  then have "sjlj_unwind_search dest m = SProceed"
    using assms by (simp add: sjlj_unwind_search_correct)
  then have "sjlj_unwind dest index m = LongJumped dest index ((undo pre (m\<lparr>unwind_dest := (dest, index)\<rparr>))
      \<lparr>dynenvs := (if unwound_dynenv_p dest then post else dest # post)\<rparr>)"
    using proceed_loop_eq[OF assms(2,4)] assms(1,3)
    by (simp add: sjlj_unwind_def sjlj_unwind_proceed_def)
  then show ?thesis
    using undo_cell[of _ "m\<lparr>unwind_dest := (dest, index)\<rparr>" _ _ pre] by auto
qed

text \<open>Binding a special variable around a body that returns gives the variable its value back
  and restores the dynamic environment, whatever the body did to either.\<close>

theorem cell_binding_is_undone:
  assumes "bound ((snd (cell_bind c v m))\<lparr>dynenvs := DBinding c l # dynenvs m\<rparr>) = Returned w n m1"
    and "objs m ! c = VarCell g l" "objs m1 ! c = VarCell g1 l1" "c < length (objs m1)"
  shows "\<exists>m'. call_with_cell_bound c v bound m = Returned w n m' \<and>
    objs m' ! c = VarCell g1 l \<and> dynenvs m' = dynenvs m"
proof -
  have b: "cell_bind c v m = (l, set_obj c (VarCell g v) m)" using assms(2) by (simp add: cell_bind_def)
  show ?thesis
    using assms by (auto simp: call_with_cell_bound_def with_dynenv_def on_exit_def b cell_unbind_def set_obj_def)
qed

section \<open>Bodies that respect the dynamic environment\<close>

text \<open>
  The contract between a body and the code that installs environments around it:
  a return or a C++ exception leaves the stack as the body found it, and a longjmp goes
  to an environment on it, leaving the part outside.
\<close>

definition outside :: "dynenv \<Rightarrow> dynenv list \<Rightarrow> dynenv list" where
  "outside d ds = (let rest = dropWhile (\<lambda>x. x \<noteq> d) ds in if unwound_dynenv_p d then tl rest else rest)"

definition target_p :: "dynenv \<Rightarrow> bool" where
  "target_p d \<longleftrightarrow> dest_dynenv_p d \<or> (\<exists>k. d = DUnwindProtect k)"

lemma not_target [simp]: "\<not> target_p (DBinding c v)" "\<not> target_p (DVMFrame p q)"
  by (simp_all add: target_p_def dest_dynenv_p_def)

lemma target_UP [simp]: "target_p (DUnwindProtect k)"
  by (simp add: target_p_def)

definition leaves :: "dynenv list \<Rightarrow> outcome \<Rightarrow> bool" where
  "leaves ds r \<longleftrightarrow>
     (case r of
        Returned _ _ m \<Rightarrow> dynenvs m = ds
      | Thrown _ _ m \<Rightarrow> dynenvs m = ds
      | CatchThrown _ m \<Rightarrow> dynenvs m = ds
      | LongJumped d _ m \<Rightarrow> target_p d \<and> d \<in> set ds \<and> dynenvs m = outside d ds
      | _ \<Rightarrow> True)"

definition disciplined :: "(machine \<Rightarrow> outcome) \<Rightarrow> bool" where
  "disciplined body \<longleftrightarrow> (\<forall>m. leaves (dynenvs m) (body m))"

lemma disciplinedD: "disciplined body \<Longrightarrow> dynenvs m = ds \<Longrightarrow> leaves ds (body m)"
  by (auto simp: disciplined_def)

lemma outside_Cons [simp]:
  "d \<noteq> x \<Longrightarrow> outside d (x # ds) = outside d ds"
  "outside d (d # ds) = (if unwound_dynenv_p d then ds else d # ds)"
  by (simp_all add: outside_def)

lemma dynenvs_cell_unbind [simp]: "dynenvs (cell_unbind c old m) = dynenvs m"
  by (simp add: cell_unbind_def split: obj.splits)

lemma proceed_loop_step:
  "d \<noteq> dest \<Longrightarrow> \<forall>k. d \<noteq> DUnwindProtect k \<Longrightarrow>
   proceed_loop dest index (d # ds) m =
     proceed_loop dest index ds (dynenv_proceed d (m\<lparr>dynenvs := d # ds\<rparr>))"
  by (cases d) (simp_all add: Let_def)

lemma proceed_loop_stop:
  "proceed_loop d index (d # ds) m =
     LongJumped d index (m\<lparr>dynenvs := outside d (d # ds)\<rparr>)"
  "DUnwindProtect k \<noteq> dest \<Longrightarrow> proceed_loop dest index (DUnwindProtect k # ds) m =
     LongJumped (DUnwindProtect k) 1 (m\<lparr>dynenvs := outside (DUnwindProtect k) (DUnwindProtect k # ds)\<rparr>)"
  by (simp_all add: Let_def unwound_dynenv_p_def)

lemma leaves_Cons:
  assumes "leaves ds r" "\<And>x i m. r = LongJumped x i m \<Longrightarrow> x \<noteq> d"
    "\<And>v n m. r \<noteq> Returned v n m" "\<And>f i m. r \<noteq> Thrown f i m" "\<And>t m. r \<noteq> CatchThrown t m"
  shows "leaves (d # ds) r"
  using assms by (cases r) (auto simp: leaves_def)

lemma proceed_loop_leaves:
  "dest_dynenv_p dest \<Longrightarrow> leaves ds (proceed_loop dest index ds m) \<and>
   (case proceed_loop dest index ds m of
      LongJumped x i m' \<Rightarrow> x = dest \<or> (\<exists>k. x = DUnwindProtect k)
    | Undefined \<Rightarrow> True
    | _ \<Rightarrow> False)"
proof (induction ds arbitrary: m)
  case Nil
  then show ?case by (simp add: leaves_def)
next
  case (Cons d ds)
  have "target_p dest" using Cons.prems by (simp add: target_p_def)
  consider "d = dest" | k where "d \<noteq> dest" "d = DUnwindProtect k"
    | "d \<noteq> dest" "\<forall>k. d \<noteq> DUnwindProtect k" by blast
  then show ?case
  proof cases
    case 1
    then show ?thesis using \<open>target_p dest\<close> by (simp only: proceed_loop_stop) (simp add: leaves_def)
  next
    case 2
    then show ?thesis by (simp only: proceed_loop_stop(2)) (simp add: leaves_def unwound_dynenv_p_def)
  next
    case 3
    note IH = Cons.IH[OF Cons.prems, of "dynenv_proceed d (m\<lparr>dynenvs := d # ds\<rparr>)"]
    show ?thesis unfolding proceed_loop_step[OF 3]
      using IH leaves_Cons[OF conjunct1[OF IH], of d] 3 by (auto split: outcome.splits)
  qed
qed

lemma sjlj_unwind_proceed_disciplined: "disciplined (sjlj_unwind_proceed dest index)"
  unfolding disciplined_def sjlj_unwind_proceed_def
  by (auto simp: proceed_loop_leaves leaves_def[of _ Undefined])

lemma sjlj_unwind_disciplined: "disciplined (sjlj_unwind dest index)"
  using sjlj_unwind_proceed_disciplined[of dest index]
  unfolding disciplined_def sjlj_unwind_def
  by (auto simp: leaves_def[of _ "Thrown a b c" for a b c] leaves_def[of _ "Signalled a b" for a b]
      leaves_def[of _ Undefined] split: search_status.splits option.splits)

lemma sjlj_throw_disciplined: "disciplined (sjlj_throw tag)"
  using sjlj_unwind_proceed_disciplined
  unfolding disciplined_def sjlj_throw_def
  by (auto simp: leaves_def[of _ "CatchThrown a b" for a b] leaves_def[of _ "Signalled a b" for a b]
      leaves_def[of _ Undefined] split: search_status.splits option.splits prod.splits)

text \<open>
  Code that installs an environment: given a disciplined body it is disciplined itself,
  so such code nests to any depth.
\<close>

locale contour =
  fixes wrap :: "(machine \<Rightarrow> outcome) \<Rightarrow> machine \<Rightarrow> outcome"
  assumes wrap_disciplined: "disciplined body \<Longrightarrow> disciplined (wrap body)"
begin

lemma wrap_nested: "disciplined body \<Longrightarrow> disciplined ((wrap ^^ n) body)"
  by (induction n) (simp_all add: wrap_disciplined)

lemma wrap_return_restores:
  assumes "disciplined body" "wrap body m = Returned v n m'"
  shows "dynenvs m' = dynenvs m"
  using wrap_disciplined[OF assms(1)] assms(2) by (auto simp: disciplined_def leaves_def split: outcome.splits)

lemma wrap_jump_outside:
  assumes "disciplined body" "wrap body m = LongJumped d i m'"
  shows "target_p d \<and> d \<in> set (dynenvs m) \<and> dynenvs m' = outside d (dynenvs m)"
  using disciplinedD[OF wrap_disciplined[OF assms(1)] refl, of m] assms(2) by (simp add: leaves_def)

end

lemma leaves_ConsD: "leaves (x # ds) (LongJumped d i m) \<Longrightarrow> d \<noteq> x \<Longrightarrow> leaves ds (LongJumped d i m)"
  by (simp add: leaves_def)

lemma with_dynenv_leaves:
  assumes "disciplined body"
  shows "case with_dynenv (x # dynenvs m) body m of
      LongJumped d i m' \<Rightarrow> target_p d \<and> (if d = x then dynenvs m' = outside x (x # dynenvs m)
        else leaves (dynenvs m) (LongJumped d i m'))
    | r \<Rightarrow> leaves (dynenvs m) r"
  using disciplinedD[OF assms, of "m\<lparr>dynenvs := x # dynenvs m\<rparr>" "x # dynenvs m"]
    leaves_ConsD[of x "dynenvs m"]
  by (cases "body (m\<lparr>dynenvs := x # dynenvs m\<rparr>)") (auto simp: with_dynenv_def on_exit_def leaves_def)

lemma dynenvs_new [simp]:
  "dynenvs (snd (new_frame m)) = dynenvs m" "dynenvs (snd (new_obj x m)) = dynenvs m"
  "dynenvs (snd (cell_bind c v m)) = dynenvs m"
  by (simp_all add: new_frame_def new_obj_def cell_bind_def split: obj.splits)

lemma leaves_on_exit:
  "(\<And>m. dynenvs (f m) = dynenvs m) \<Longrightarrow> leaves ds (on_exit f r) = leaves ds r"
  by (cases r) (simp_all add: on_exit_def leaves_def)


lemma cell_bound_disciplined:
  assumes "disciplined body"
  shows "disciplined (call_with_cell_bound c v body)"
  unfolding disciplined_def
proof
  fix m
  obtain old m1 where b: "cell_bind c v m = (old, m1)" by fastforce
  have d: "dynenvs m1 = dynenvs m" using dynenvs_new(3)[of c v m] b by simp
  show "leaves (dynenvs m) (call_with_cell_bound c v body m)"
    using with_dynenv_leaves[OF assms, where x = "DBinding c old" and m = m1]
    by (auto simp: call_with_cell_bound_def b d leaves_on_exit split: outcome.splits if_splits)
qed

lemma read_values0_leaves: "dynenvs m = ds \<Longrightarrow> leaves ds (read_values0 m)"
  by (simp add: leaves_def read_values0_def)

lemma escape_disciplined:
  assumes "\<And>v. disciplined (block v)"
  shows "disciplined (call_with_escape block)"
  unfolding disciplined_def
proof
  fix m :: machine
  let ?a = "length (objs m)"
  let ?m = "snd (new_obj (BlockEnv (next_frame m)) (snd (new_frame m)))"
  have d: "dynenvs ?m = dynenvs m" by simp
  show "leaves (dynenvs m) (call_with_escape block m)"
    using with_dynenv_leaves[OF assms, where x = "DBlock ?a" and m = ?m, of "VObj ?a"] d
    by (auto simp: call_with_escape_def new_frame_def new_obj_def read_values0_leaves unwound_dynenv_p_def
        split: outcome.splits if_splits) (auto simp: leaves_def read_values0_def)
qed

lemma catch_disciplined:
  assumes "disciplined body"
  shows "disciplined (call_with_catch tag body)"
  unfolding disciplined_def
proof
  fix m
  have d: "dynenvs (snd (new_frame m)) = dynenvs m" by simp
  show "leaves (dynenvs m) (call_with_catch tag body m)"
    using with_dynenv_leaves[OF assms, where x = "DCatch (next_frame m) tag" and m = "snd (new_frame m)"] d
    by (auto simp: call_with_catch_def new_frame_def read_values0_leaves unwound_dynenv_p_def
        split: outcome.splits if_splits) (auto simp: leaves_def read_values0_def)
qed

lemma after_cleanup_leaves:
  assumes "disciplined cleanup" "dynenvs m = ds" "\<And>m'. dynenvs m' = ds \<Longrightarrow> leaves ds (k m')"
  shows "leaves ds (after_cleanup cleanup k m)"
  using disciplinedD[OF assms(1,2)] assms(3)
  by (cases "cleanup m") (simp_all add: after_cleanup_def leaves_def)

lemma continue_disciplined: "disciplined sjlj_continue_unwinding"
  using sjlj_unwind_proceed_disciplined by (auto simp: disciplined_def sjlj_continue_unwinding_def)

lemma protect_disciplined:
  assumes "disciplined body" "disciplined cleanup"
  shows "disciplined (funwind_protect body cleanup)"
  unfolding disciplined_def
proof
  fix m
  have d: "dynenvs (snd (new_frame m)) = dynenvs m" by simp
  note w = with_dynenv_leaves[OF assms(1), where x = "DUnwindProtect (next_frame m)" and m = "snd (new_frame m)"]
  show "leaves (dynenvs m) (funwind_protect body cleanup m)"
  proof (cases "with_dynenv (DUnwindProtect (next_frame m) # dynenvs m) body (snd (new_frame m))")
    case (Returned v n m2)
    with w d have m2: "dynenvs m2 = dynenvs m" by (simp add: leaves_def)
    have "leaves (dynenvs m) (load_return v n (mv_values m2) m')" if "dynenvs m' = dynenvs m" for m'
      using that by (simp add: leaves_def load_return_def)
    from after_cleanup_leaves[OF assms(2) m2 this] Returned show ?thesis
      by (simp add: funwind_protect_def new_frame_def)
  next
    case (LongJumped x i m2)
    show ?thesis
    proof (cases "x = DUnwindProtect (next_frame m)")
      case True
      with w d LongJumped have m2: "dynenvs m2 = dynenvs m" by (simp add: unwound_dynenv_p_def)
      have "leaves (dynenvs m) (sjlj_continue_unwinding m')" if "dynenvs m' = dynenvs m" for m'
        using disciplinedD[OF continue_disciplined that] .
      with True LongJumped show ?thesis
        by (auto simp: funwind_protect_def new_frame_def load_temp_def intro!: after_cleanup_leaves[OF assms(2) m2])
    next
      case False
      with w d LongJumped show ?thesis
        by (simp add: funwind_protect_def new_frame_def)
    qed
  next
    case (Thrown f i m2)
    with w d have m2: "dynenvs m2 = dynenvs m" by (simp add: leaves_def)
    have "leaves (dynenvs m) (Thrown f i (load_temp (mv_size m2) (mv_values m2) m'))" if "dynenvs m' = dynenvs m" for m'
      using that by (simp add: leaves_def load_temp_def)
    from after_cleanup_leaves[OF assms(2) m2 this] Thrown show ?thesis
      by (simp add: funwind_protect_def new_frame_def)
  next
    case (CatchThrown t m2)
    with w d have m2: "dynenvs m2 = dynenvs m" by (simp add: leaves_def)
    have "leaves (dynenvs m) (CatchThrown t (load_temp (mv_size m2) (mv_values m2) m'))" if "dynenvs m' = dynenvs m" for m'
      using that by (simp add: leaves_def load_temp_def)
    from after_cleanup_leaves[OF assms(2) m2 this] CatchThrown show ?thesis
      by (simp add: funwind_protect_def new_frame_def)
  qed (simp_all add: funwind_protect_def new_frame_def leaves_def)
qed

interpretation bound_contour: contour "call_with_cell_bound c v" for c v
  by unfold_locales (rule cell_bound_disciplined)

interpretation escape_contour: contour "\<lambda>body. call_with_escape (\<lambda>v. body)"
  by unfold_locales (rule escape_disciplined)

interpretation catch_contour: contour "call_with_catch tag" for tag
  by unfold_locales (rule catch_disciplined)

interpretation protect_contour: contour "\<lambda>body. funwind_protect body (\<lambda>m. Returned VNil 0 m)"
  by unfold_locales (rule protect_disciplined, simp_all add: disciplined_def leaves_def)

text \<open>C16: special bindings, blocks, catches and unwind-protects keep the discipline of the dynamic
  environment stack and nest: if the code inside returns only with the stack it found and jumps only
  to environments on it, so does the whole; the exits themselves obey it.\<close>

theorem contours_disciplined:
  assumes "disciplined body" "\<And>v. disciplined (block v)" "disciplined cleanup"
  shows "disciplined (call_with_cell_bound c v body) \<and> disciplined (call_with_escape block) \<and>
    disciplined (call_with_catch tag body) \<and> disciplined (funwind_protect body cleanup) \<and>
    disciplined (sjlj_unwind dest index) \<and> disciplined (sjlj_throw tag)"
  by (intro conjI bound_contour.wrap_disciplined catch_contour.wrap_disciplined escape_disciplined
      protect_disciplined sjlj_unwind_disciplined sjlj_throw_disciplined assms)

lemma tagbody_loop_leaves:
  assumes d: "\<And>i. disciplined (tagbody i)"
    and "tagbody_loop tagbody a frame (DTagbody a # ds) index m = Some r" "dynenvs m = DTagbody a # ds"
  shows "leaves ds (on_exit (\<lambda>m. m\<lparr>dynenvs := ds\<rparr>) r) "
proof -
  let ?P = "\<lambda>tagbody a frame env index m r. env = DTagbody a # ds \<longrightarrow> dynenvs m = DTagbody a # ds \<longrightarrow>
      (\<forall>i. disciplined (tagbody i)) \<longrightarrow>
      leaves (DTagbody a # ds) r \<and> (\<forall>i m'. r \<noteq> LongJumped (DTagbody a) i m')"
  have "?P tagbody a frame (DTagbody a # ds) index m r"
  proof (rule tagbody_loop.raw_induct[where P = ?P, OF _ assms(2)])
    fix loop :: "(nat \<Rightarrow> machine \<Rightarrow> outcome) \<Rightarrow> nat \<Rightarrow> nat \<Rightarrow> dynenv list \<Rightarrow> nat \<Rightarrow> machine \<Rightarrow> outcome option"
      and tagbody a frame env index m r
    assume IH: "\<And>tagbody a frame env index m r. loop tagbody a frame env index m = Some r \<Longrightarrow>
        ?P tagbody a frame env index m r"
      and step: "(case tagbody index m of
        LongJumped d i m1 \<Rightarrow> if d = DTagbody a then loop tagbody a frame env i m1 else Some (LongJumped d i m1)
      | Thrown fr i m1 \<Rightarrow> if fr = frame then loop tagbody a frame env i (m1\<lparr>dynenvs := env\<rparr>)
          else Some (Thrown fr i m1)
      | r \<Rightarrow> Some r) = Some r"
    show "?P tagbody a frame env index m r"
    proof (intro impI)
      assume e: "env = DTagbody a # ds" "dynenvs m = DTagbody a # ds" "\<forall>i. disciplined (tagbody i)"
      have l: "leaves (DTagbody a # ds) (tagbody index m)"
        using disciplinedD[OF e(3)[rule_format] e(2)] .
      show "leaves (DTagbody a # ds) r \<and> (\<forall>i m'. r \<noteq> LongJumped (DTagbody a) i m')"
      proof (cases "tagbody index m")
        case (LongJumped x i m')
        show ?thesis
        proof (cases "x = DTagbody a")
          case True
          with l LongJumped have "dynenvs m' = DTagbody a # ds"
            by (simp add: leaves_def unwound_dynenv_p_def)
          with IH[of tagbody a frame env i m' r] step LongJumped True e show ?thesis by simp
        next
          case False
          with step LongJumped l show ?thesis by auto
        qed
      next
        case (Thrown f i m')
        with IH[of tagbody a frame env i "m'\<lparr>dynenvs := env\<rparr>" r] step l e show ?thesis
          by (auto split: if_splits)
      qed (use l step in auto)
    qed
  qed
  with assms(3) d show ?thesis
    by (cases r) (auto simp: on_exit_def leaves_def)
qed

text \<open>A tagbody, however many times it is re-entered by exits to its tags, leaves the dynamic
  environment as it was when it is left by a return or an exception, and passes on only jumps to
  environments outside it.\<close>

theorem tagbody_disciplined:
  assumes "\<And>v i. disciplined (tagbody v i)" "call_with_tagbody tagbody m = Some r"
  shows "leaves (dynenvs m) r"
proof -
  let ?a = "length (objs m)" and ?f = "next_frame m"
  let ?m = "(snd (new_obj (TagbodyEnv ?f) (snd (new_frame m))))\<lparr>dynenvs := DTagbody ?a # dynenvs m\<rparr>"
  obtain r0 where r0: "tagbody_loop (tagbody (VObj ?a)) ?a ?f (DTagbody ?a # dynenvs m) 0 ?m = Some r0"
    "r = on_exit (\<lambda>m'. m'\<lparr>dynenvs := dynenvs m\<rparr>) r0"
    using assms(2) by (auto simp: call_with_tagbody_def new_frame_def new_obj_def Let_def)
  show ?thesis
    using tagbody_loop_leaves[OF assms(1) r0(1)] r0(2) by simp
qed


section \<open>Witnesses\<close>

definition empty_machine :: machine where
  "empty_machine = \<lparr>stack = (\<lambda>_. VNil), vm_sp = 0, vm_fp = 0, vm_pc = (0, 0), mv_values = (\<lambda>_. VNil),
     mv_size = 0, conses = [], objs = [], bmodules = [], dynenvs = [], next_frame = 0,
     fcells = (\<lambda>_. None), unwind_dest = (DUnknown, 0)\<rparr>"

definition sample_dyn :: machine where
  "sample_dyn = empty_machine\<lparr>
     objs := [VarCell (VFix 1) (VFix 3), TagbodyEnv 0],
     dynenvs := [DBinding 0 (VFix 2), DVMFrame 5 4, DBinding 0 VNoBinding, DTagbody 1]\<rparr>"

lemmas sample_dyn_defs = sample_dyn_def empty_machine_def

lemma sjlj_unwind_target_sample:
  "dynenvs sample_dyn = [DBinding 0 (VFix 2), DVMFrame 5 4, DBinding 0 VNoBinding] @ DTagbody 1 # []"
  by (simp add: sample_dyn_defs)

lemma unwinding_restores_bindings_witness:
  "\<exists>m'. sjlj_unwind (DTagbody 1) 1 sample_dyn = LongJumped (DTagbody 1) 1 m' \<and>
     dynenvs m' = [DTagbody 1] \<and> objs m' ! 0 = VarCell (VFix 1) VNoBinding"
  using unwinding_restores_bindings[OF sjlj_unwind_target_sample, of 1]
  by (auto simp: dest_dynenv_p_def unwound_dynenv_p_def sample_dyn_defs)

lemma cell_binding_is_undone_witness:
  "\<exists>m'. call_with_cell_bound 0 (VFix 9) (\<lambda>m. Returned VNil 0 (cell_set_value 0 (VFix 10) m)) sample_dyn =
       Returned VNil 0 m' \<and> objs m' ! 0 = VarCell (VFix 1) (VFix 3) \<and> dynenvs m' = dynenvs sample_dyn"
proof -
  let ?m0 = "(snd (cell_bind 0 (VFix 9) sample_dyn))\<lparr>dynenvs := DBinding 0 (VFix 3) # dynenvs sample_dyn\<rparr>"
  have "(\<lambda>m. Returned VNil 0 (cell_set_value 0 (VFix 10) m)) ?m0 = Returned VNil 0 (cell_set_value 0 (VFix 10) ?m0)"
    by simp
  moreover have "objs sample_dyn ! 0 = VarCell (VFix 1) (VFix 3)"
    "objs (cell_set_value 0 (VFix 10) ?m0) ! 0 = VarCell (VFix 1) (VFix 10)"
    "0 < length (objs (cell_set_value 0 (VFix 10) ?m0))"
    by (simp_all add: sample_dyn_defs cell_bind_def set_obj_def cell_set_value_def)
  ultimately show ?thesis by (rule cell_binding_is_undone)
qed

lemma contours_disciplined_witness:
  "disciplined (call_with_cell_bound 0 VNil (sjlj_unwind (DTagbody 1) 1)) \<and>
   disciplined (funwind_protect (sjlj_throw VNil) (\<lambda>m. Returned VNil 0 m))"
proof -
  have c: "disciplined (\<lambda>m. Returned VNil 0 m)" by (simp add: disciplined_def leaves_def)
  from contours_disciplined[OF sjlj_unwind_disciplined c c, of 0 VNil "DTagbody 1" 1]
    contours_disciplined[OF sjlj_throw_disciplined c c, of 0 VNil VNil]
  show ?thesis by blast
qed

lemma tagbody_disciplined_witness:
  "\<exists>m'. call_with_tagbody (\<lambda>v i m. if i = 0 then sjlj_unwind (DTagbody 2) 1 m else Returned VNil 0 m) sample_dyn
     = Some (Returned VNil 0 m') \<and> dynenvs m' = dynenvs sample_dyn"
proof -
  let ?tb = "\<lambda>v i m. if i = 0 then sjlj_unwind (DTagbody 2) 1 m else Returned VNil 0 m"
  have d: "disciplined (?tb v i)" for v :: val and i :: nat
    using sjlj_unwind_disciplined by (cases i) (auto simp: disciplined_def leaves_def)
  obtain m' where r: "call_with_tagbody ?tb sample_dyn = Some (Returned VNil 0 m')"
    by (simp add: call_with_tagbody_def sample_dyn_defs new_frame_def new_obj_def Let_def
        tagbody_loop.simps sjlj_unwind_def sjlj_unwind_search_def sjlj_unwind_proceed_def
        dest_dynenv_p_def unwound_dynenv_p_def on_exit_def)
  from tagbody_disciplined[OF d r] r show ?thesis by (simp add: leaves_def)
qed


end
