(* ===== verification/VmCases.thy ===== *)
theory VmCases
  imports DynEnv
begin

text \<open>
  The cases of the \<open>switch\<close> of \<open>bytecode_vm\<close>, one definition each, for the one-byte
  operand forms.  An activation fixes the module, the closure, the frame pointer, the
  arguments and the identity of the C++ frame; a case gets the program counter and the
  local stack pointer and gives the next ones, or the outcome that leaves the activation.
\<close>

unbundle bit_operations_syntax

section \<open>Activations and operands\<close>

record act =
  a_mod :: nat
  a_closure :: nat
  a_fp :: int
  a_nargs :: nat
  a_args :: argptr
  a_frame :: nat

definition code_of :: "act \<Rightarrow> machine \<Rightarrow> byte list" where
  "code_of a m = (if a_mod a < length (bmodules m) then b_code (bmodules m ! a_mod a) else [])"

definition literal_at :: "act \<Rightarrow> machine \<Rightarrow> nat \<Rightarrow> val option" where
  "literal_at a m n =
     (if a_mod a < length (bmodules m) \<and> n < length (b_literals (bmodules m ! a_mod a))
      then Some (b_literals (bmodules m ! a_mod a) ! n) else None)"

definition closed_at :: "act \<Rightarrow> machine \<Rightarrow> nat \<Rightarrow> val option" where
  "closed_at a m n =
     (if n < length (closure_slots m (a_closure a)) then Some (closure_slots m (a_closure a) ! n) else None)"

text \<open>The bytes after the one at \<open>pc\<close>; reading outside the code is undefined.\<close>

definition operands :: "act \<Rightarrow> machine \<Rightarrow> int \<Rightarrow> nat \<Rightarrow> (byte list \<Rightarrow> step) \<Rightarrow> step" where
  "operands a m pc k f =
     (if 0 \<le> pc \<and> nat pc + k < length (code_of a m)
      then f (take k (drop (nat pc + 1) (code_of a m))) else Stop Undefined)"

abbreviation undef :: step where
  "undef \<equiv> Stop Undefined"

definition push_next :: "int \<Rightarrow> int \<Rightarrow> val \<Rightarrow> machine \<Rightarrow> step" where
  "push_next pc sp v m = (case push sp v m of (sp', m') \<Rightarrow> Next pc sp' m')"

definition or_undef :: "'a option \<Rightarrow> ('a \<Rightarrow> step) \<Rightarrow> step" where
  "or_undef x f = (case x of None \<Rightarrow> undef | Some a \<Rightarrow> f a)"

lemma or_undef_simps [simp]: "or_undef None f = undef" "or_undef (Some a) f = f a"
  by (simp_all add: or_undef_def)

section \<open>What instructions do, given their operands\<close>

text \<open>
  The effects shared by the one-byte and the \<open>long\<close> cases, which the source writes out
  twice.  \<open>pc\<close> here is the address after the instruction.
\<close>

definition do_ref :: "act \<Rightarrow> nat \<Rightarrow> int \<Rightarrow> int \<Rightarrow> machine \<Rightarrow> step" where
  "do_ref a n pc sp m = push_next pc sp (stack m (reg (a_fp a) n)) m"

definition do_const :: "act \<Rightarrow> nat \<Rightarrow> int \<Rightarrow> int \<Rightarrow> machine \<Rightarrow> step" where
  "do_const a n pc sp m = or_undef (literal_at a m n) (\<lambda>v. push_next pc sp v m)"

definition do_closure :: "act \<Rightarrow> nat \<Rightarrow> int \<Rightarrow> int \<Rightarrow> machine \<Rightarrow> step" where
  "do_closure a n pc sp m = or_undef (closed_at a m n) (\<lambda>v. push_next pc sp v m)"

definition do_set :: "act \<Rightarrow> nat \<Rightarrow> int \<Rightarrow> int \<Rightarrow> machine \<Rightarrow> step" where
  "do_set a n pc sp m = (case pop sp m of (v, sp') \<Rightarrow> Next pc sp' (setreg (a_fp a) n v m))"

definition do_bind :: "act \<Rightarrow> nat \<Rightarrow> nat \<Rightarrow> int \<Rightarrow> int \<Rightarrow> machine \<Rightarrow> step" where
  "do_bind a nelems base pc sp m =
     or_undef (copytoreg (a_fp a) (OnStack (stackref sp (int nelems - 1))) nelems base m)
       (\<lambda>m'. Next pc (drop_n sp nelems) m')"

definition do_make_closure :: "act \<Rightarrow> nat \<Rightarrow> int \<Rightarrow> int \<Rightarrow> machine \<Rightarrow> step" where
  "do_make_closure a c pc sp m =
     or_undef (literal_at a m c) (\<lambda>fn.
     or_undef (environment_size m fn) (\<lambda>nclosed.
       case fn of
         VObj sf \<Rightarrow>
           (case new_obj (Closure sf (copyto sp nclosed m)) m of
              (f, m') \<Rightarrow> push_next pc (drop_n sp nclosed) (VObj f) m')
       | _ \<Rightarrow> undef))"

definition do_make_uninitialized_closure :: "act \<Rightarrow> nat \<Rightarrow> int \<Rightarrow> int \<Rightarrow> machine \<Rightarrow> step" where
  "do_make_uninitialized_closure a c pc sp m =
     or_undef (literal_at a m c) (\<lambda>fn.
     or_undef (environment_size m fn) (\<lambda>nclosed.
       case fn of
         VObj sf \<Rightarrow>
           (case new_obj (Closure sf (replicate nclosed VUnbound)) m of
              (f, m') \<Rightarrow> push_next pc sp (VObj f) m')
       | _ \<Rightarrow> undef))"

text \<open>The closure's slots, of which there are as many as its function's environment size.\<close>

definition do_initialize_closure :: "act \<Rightarrow> nat \<Rightarrow> int \<Rightarrow> int \<Rightarrow> machine \<Rightarrow> step" where
  "do_initialize_closure a c pc sp m =
     (case stack m (reg (a_fp a) c) of
        VObj f \<Rightarrow>
          (case obj_at m (VObj f) of
             Some (Closure sf slots) \<Rightarrow>
               or_undef (environment_size m (VObj sf)) (\<lambda>nclosed.
                 if nclosed \<le> length slots
                 then Next pc (drop_n sp nclosed)
                        (set_obj f (Closure sf (copyto sp nclosed m @ drop nclosed slots)) m)
                 else undef)
           | _ \<Rightarrow> undef)
      | _ \<Rightarrow> undef)"

definition do_bind_required_args :: "act \<Rightarrow> nat \<Rightarrow> int \<Rightarrow> int \<Rightarrow> machine \<Rightarrow> step" where
  "do_bind_required_args a nargs pc sp m =
     or_undef (copytoreg (a_fp a) (a_args a) nargs 0 m) (\<lambda>m'. Next pc sp m')"

text \<open>With fewer arguments than required ones the unsigned difference wraps and the copy is undefined.\<close>

definition do_bind_optional_args :: "act \<Rightarrow> nat \<Rightarrow> nat \<Rightarrow> int \<Rightarrow> int \<Rightarrow> machine \<Rightarrow> step" where
  "do_bind_optional_args a nreq nopt pc sp m =
     (if a_nargs a \<ge> nreq + nopt then
        or_undef (copytoreg (a_fp a) (args_plus (a_args a) nreq) nopt nreq m) (\<lambda>m'. Next pc sp m')
      else if a_nargs a < nreq then undef
      else
        or_undef (copytoreg (a_fp a) (args_plus (a_args a) nreq) (a_nargs a - nreq) nreq m)
          (\<lambda>m'. Next pc sp (fillreg (a_fp a) VUnbound (nreq + nopt - a_nargs a) (a_nargs a) m')))"

definition do_listify_rest_args :: "act \<Rightarrow> nat \<Rightarrow> int \<Rightarrow> int \<Rightarrow> machine \<Rightarrow> step" where
  "do_listify_rest_args a start pc sp m =
     or_undef (args_range m (args_plus (a_args a) start) (a_nargs a - start)) (\<lambda>vs.
       case list_of vs m of (l, m') \<Rightarrow> Next pc sp (setreg (a_fp a) start l m'))"

text \<open>
  Keyword arguments are read from the last to the first, so that the first of several
  values wins.  The loop takes the pairs still to do as a count; \<open>arg_index\<close> is the
  index of the value of the last of them.
\<close>

fun find_key :: "act \<Rightarrow> machine \<Rightarrow> val \<Rightarrow> nat \<Rightarrow> nat \<Rightarrow> nat \<Rightarrow> nat option option" where
  "find_key a m key literal_start 0 key_id = Some None"
| "find_key a m key literal_start (Suc k) key_id =
     (case literal_at a m (key_id + literal_start) of
        None \<Rightarrow> None
      | Some ckey \<Rightarrow>
          if key = ckey then Some (Some key_id) else find_key a m key literal_start k (Suc key_id))"

definition sym_allow_other_keys :: nat where "sym_allow_other_keys = 3"

fun parse_keys :: "act \<Rightarrow> nat \<times> bool \<Rightarrow> nat \<Rightarrow> nat \<Rightarrow> nat \<Rightarrow> nat \<Rightarrow> machine \<times> val \<times> bool
    \<Rightarrow> (machine \<times> val \<times> bool) option" where
  "parse_keys a key_info more_start literal_start frame_start 0 st = Some st"
| "parse_keys a key_info more_start literal_start frame_start (Suc k) (m, unknown_keys, aokp) =
     (case (arg_at m (a_args a) (more_start + 2 * k), arg_at m (a_args a) (more_start + 2 * k + 1)) of
        (Some key, Some v) \<Rightarrow>
          (let aok_key = (key = VSym sym_allow_other_keys);
               aokp' = (if aok_key then v \<noteq> VNil else aokp)
           in case find_key a m key literal_start (fst key_info) 0 of
                None \<Rightarrow> None
              | Some found \<Rightarrow>
                  let m1 = (case found of None \<Rightarrow> m
                            | Some key_id \<Rightarrow> poke (reg (a_fp a) (frame_start + key_id)) v m);
                      valid_key_p = (aok_key \<or> found \<noteq> None)
                  in if \<not> valid_key_p \<and> \<not> snd key_info then
                       (case new_cons key unknown_keys m1 of
                          (u, m2) \<Rightarrow> parse_keys a key_info more_start literal_start frame_start k (m2, u, aokp'))
                     else parse_keys a key_info more_start literal_start frame_start k (m1, unknown_keys, aokp'))
      | _ \<Rightarrow> None)"

text \<open>\<open>key_info\<close> carries the count of keywords and the flag for \<open>&allow-other-keys\<close>.\<close>

definition do_parse_key_args ::
    "act \<Rightarrow> nat \<Rightarrow> nat \<times> bool \<Rightarrow> nat \<Rightarrow> nat \<Rightarrow> int \<Rightarrow> int \<Rightarrow> machine \<Rightarrow> step" where
  "do_parse_key_args a more_start key_info literal_start frame_start pc sp m =
     (let m1 = fillreg (a_fp a) VUnbound (fst key_info) frame_start m in
      if a_nargs a > more_start then
        (if (a_nargs a - more_start) mod 2 \<noteq> 0 then Stop (Signalled OddKeywords m1)
         else or_undef (parse_keys a key_info more_start literal_start frame_start
                          ((a_nargs a - more_start) div 2) (m1, VNil, False))
                (\<lambda>(m2, unknown_keys, aokp).
                   if unknown_keys \<noteq> VNil \<and> \<not> aokp
                   then Stop (Signalled (UnrecognizedKeywords unknown_keys) m2)
                   else Next pc sp m2))
      else Next pc sp m1)"

definition check_LE :: "act \<Rightarrow> nat \<Rightarrow> int \<Rightarrow> int \<Rightarrow> machine \<Rightarrow> step" where
  "check_LE a max_nargs pc sp m =
     (if a_nargs a > max_nargs then Stop (Signalled (TooManyArguments (a_nargs a) max_nargs) m)
      else Next pc sp m)"

definition check_GE :: "act \<Rightarrow> nat \<Rightarrow> int \<Rightarrow> int \<Rightarrow> machine \<Rightarrow> step" where
  "check_GE a min_nargs pc sp m =
     (if a_nargs a < min_nargs then Stop (Signalled (TooFewArguments (a_nargs a) min_nargs) m)
      else Next pc sp m)"

definition wrong_number_of_arguments :: "nat \<Rightarrow> nat \<Rightarrow> vm_error" where
  "wrong_number_of_arguments given required =
     (if given < required then TooFewArguments given required else TooManyArguments given required)"

definition check_EQ :: "act \<Rightarrow> nat \<Rightarrow> int \<Rightarrow> int \<Rightarrow> machine \<Rightarrow> step" where
  "check_EQ a req_nargs pc sp m =
     (if a_nargs a \<noteq> req_nargs then Stop (Signalled (wrong_number_of_arguments (a_nargs a) req_nargs) m)
      else Next pc sp m)"

definition do_restore_sp :: "act \<Rightarrow> nat \<Rightarrow> int \<Rightarrow> int \<Rightarrow> machine \<Rightarrow> step" where
  "do_restore_sp a n pc sp m = or_undef (restoresp (a_fp a) n m) (\<lambda>sp'. Next pc sp' m)"

definition var_cell_at :: "act \<Rightarrow> machine \<Rightarrow> nat \<Rightarrow> (nat \<times> val \<times> val) option" where
  "var_cell_at a m n =
     (case literal_at a m n of
        Some (VObj c) \<Rightarrow> (case obj_at m (VObj c) of Some (VarCell g l) \<Rightarrow> Some (c, g, l) | _ \<Rightarrow> None)
      | _ \<Rightarrow> None)"

definition do_symbol_value :: "act \<Rightarrow> nat \<Rightarrow> int \<Rightarrow> int \<Rightarrow> machine \<Rightarrow> step" where
  "do_symbol_value a n pc sp m =
     or_undef (var_cell_at a m n) (\<lambda>(c, g, l).
       if cell_value g l = VUnbound then Stop (Signalled (UnboundVariable c) m)
       else push_next pc sp (cell_value g l) m)"

definition do_symbol_value_set :: "act \<Rightarrow> nat \<Rightarrow> int \<Rightarrow> int \<Rightarrow> machine \<Rightarrow> step" where
  "do_symbol_value_set a n pc sp m =
     or_undef (var_cell_at a m n) (\<lambda>(c, g, l).
       case pop sp m of (v, sp') \<Rightarrow> Next pc sp' (cell_set_value c v m))"

text \<open>\<open>FunctionCell_O::fdefinition\<close>: the function, or an error for the function of an unbound cell.\<close>

definition do_fdefinition :: "act \<Rightarrow> nat \<Rightarrow> int \<Rightarrow> int \<Rightarrow> machine \<Rightarrow> step" where
  "do_fdefinition a n pc sp m =
     (case literal_at a m n of
        Some cell \<Rightarrow>
          (case obj_at m cell of
             Some (FunCell f) \<Rightarrow>
               (case obj_at m (VObj f) of
                  Some (UnboundFun name) \<Rightarrow> Stop (Signalled (UndefinedFunction name) m)
                | Some _ \<Rightarrow> push_next pc sp (VObj f) m
                | None \<Rightarrow> undef)
           | _ \<Rightarrow> undef)
      | None \<Rightarrow> undef)"

definition function_p :: "obj \<Rightarrow> bool" where
  "function_p x =
     (case x of SimpleFun _ _ _ _ \<Rightarrow> True | Closure _ _ \<Rightarrow> True | FunCell _ \<Rightarrow> True
      | UnboundFun _ \<Rightarrow> True | Native _ \<Rightarrow> True | _ \<Rightarrow> False)"

text \<open>\<open>ensureFunctionCell\<close>: a symbol without a function cell gets an unbound one.\<close>

definition ensure_function_cell :: "nat \<Rightarrow> machine \<Rightarrow> nat \<times> machine" where
  "ensure_function_cell s m =
     (case fcells m s of
        Some f \<Rightarrow> (f, m)
      | None \<Rightarrow>
          (case new_obj (UnboundFun (VSym s)) m of (u, m1) \<Rightarrow>
           case new_obj (FunCell u) m1 of (f, m2) \<Rightarrow> (f, m2\<lparr>fcells := (fcells m2)(s \<mapsto> f)\<rparr>)))"

definition called_function_designator :: "val \<Rightarrow> machine \<Rightarrow> vm_error + (nat \<times> machine)" where
  "called_function_designator v m =
     (case v of
        VObj f \<Rightarrow>
          (case obj_at m v of
             Some x \<Rightarrow> if function_p x then Inr (f, m) else Inl (NotAFunctionDesignator v)
           | None \<Rightarrow> Inl (NotAFunctionDesignator v))
      | VNil \<Rightarrow> Inl (UndefinedFunction v)
      | VUnbound \<Rightarrow> Inl (UndefinedFunction v)
      | VSym s \<Rightarrow> Inr (ensure_function_cell s m)
      | _ \<Rightarrow> Inl (NotAFunctionDesignator v))"

definition do_fdesignator :: "int \<Rightarrow> int \<Rightarrow> machine \<Rightarrow> step" where
  "do_fdesignator pc sp m =
     (case pop sp m of (desig, sp') \<Rightarrow>
      case called_function_designator desig m of
        Inl e \<Rightarrow> Stop (Signalled e m)
      | Inr (f, m') \<Rightarrow> push_next pc sp' (VObj f) m')"

definition do_encell :: "act \<Rightarrow> nat \<Rightarrow> int \<Rightarrow> int \<Rightarrow> machine \<Rightarrow> step" where
  "do_encell a n pc sp m =
     (case new_cons (stack m (reg (a_fp a) n)) VNil m of
        (c, m') \<Rightarrow> Next pc sp (setreg (a_fp a) n c m'))"

section \<open>The one-byte cases\<close>

definition u8 :: "byte list \<Rightarrow> nat \<Rightarrow> nat" where
  "u8 b i = unat (b ! i)"

definition case_ref :: "act \<Rightarrow> int \<Rightarrow> int \<Rightarrow> machine \<Rightarrow> step" where
  "case_ref a pc sp m = operands a m pc 1 (\<lambda>b. do_ref a (u8 b 0) (pc + 2) sp m)"

definition case_const :: "act \<Rightarrow> int \<Rightarrow> int \<Rightarrow> machine \<Rightarrow> step" where
  "case_const a pc sp m = operands a m pc 1 (\<lambda>b. do_const a (u8 b 0) (pc + 2) sp m)"

definition case_closure :: "act \<Rightarrow> int \<Rightarrow> int \<Rightarrow> machine \<Rightarrow> step" where
  "case_closure a pc sp m = operands a m pc 1 (\<lambda>b. do_closure a (u8 b 0) (pc + 2) sp m)"

definition case_bind :: "act \<Rightarrow> int \<Rightarrow> int \<Rightarrow> machine \<Rightarrow> step" where
  "case_bind a pc sp m = operands a m pc 2 (\<lambda>b. do_bind a (u8 b 0) (u8 b 1) (pc + 3) sp m)"

definition case_set :: "act \<Rightarrow> int \<Rightarrow> int \<Rightarrow> machine \<Rightarrow> step" where
  "case_set a pc sp m = operands a m pc 1 (\<lambda>b. do_set a (u8 b 0) (pc + 2) sp m)"

definition case_make_cell :: "int \<Rightarrow> int \<Rightarrow> machine \<Rightarrow> step" where
  "case_make_cell pc sp m =
     (case pop sp m of (car, sp') \<Rightarrow>
      case new_cons car VNil m of (c, m') \<Rightarrow> push_next (pc + 1) sp' c m')"

definition case_cell_ref :: "int \<Rightarrow> int \<Rightarrow> machine \<Rightarrow> step" where
  "case_cell_ref pc sp m =
     (case pop sp m of (cell, sp') \<Rightarrow>
      or_undef (cons_car m cell) (\<lambda>v. push_next (pc + 1) sp' v m))"

definition case_cell_set :: "int \<Rightarrow> int \<Rightarrow> machine \<Rightarrow> step" where
  "case_cell_set pc sp m =
     (case pop sp m of (cell, sp1) \<Rightarrow>
      case pop sp1 m of (v, sp2) \<Rightarrow>
      or_undef (rplaca cell v m) (\<lambda>m'. Next (pc + 1) sp2 m'))"

definition case_make_closure :: "act \<Rightarrow> int \<Rightarrow> int \<Rightarrow> machine \<Rightarrow> step" where
  "case_make_closure a pc sp m = operands a m pc 1 (\<lambda>b. do_make_closure a (u8 b 0) (pc + 2) sp m)"

definition case_make_uninitialized_closure :: "act \<Rightarrow> int \<Rightarrow> int \<Rightarrow> machine \<Rightarrow> step" where
  "case_make_uninitialized_closure a pc sp m =
     operands a m pc 1 (\<lambda>b. do_make_uninitialized_closure a (u8 b 0) (pc + 2) sp m)"

definition case_initialize_closure :: "act \<Rightarrow> int \<Rightarrow> int \<Rightarrow> machine \<Rightarrow> step" where
  "case_initialize_closure a pc sp m =
     operands a m pc 1 (\<lambda>b. do_initialize_closure a (u8 b 0) (pc + 2) sp m)"

definition case_return :: "machine \<Rightarrow> step" where
  "case_return m = (let nvalues = mv_size m in Stop (Returned (valueGet m 0 nvalues) nvalues m))"

definition case_bind_required_args :: "act \<Rightarrow> int \<Rightarrow> int \<Rightarrow> machine \<Rightarrow> step" where
  "case_bind_required_args a pc sp m =
     operands a m pc 1 (\<lambda>b. do_bind_required_args a (u8 b 0) (pc + 2) sp m)"

definition case_bind_optional_args :: "act \<Rightarrow> int \<Rightarrow> int \<Rightarrow> machine \<Rightarrow> step" where
  "case_bind_optional_args a pc sp m =
     operands a m pc 2 (\<lambda>b. do_bind_optional_args a (u8 b 0) (u8 b 1) (pc + 3) sp m)"

definition case_listify_rest_args :: "act \<Rightarrow> int \<Rightarrow> int \<Rightarrow> machine \<Rightarrow> step" where
  "case_listify_rest_args a pc sp m =
     operands a m pc 1 (\<lambda>b. do_listify_rest_args a (u8 b 0) (pc + 2) sp m)"

text \<open>The count of a vaslist is a difference of unsigned 64-bit integers.\<close>

definition case_vaslistify_rest_args :: "act \<Rightarrow> int \<Rightarrow> int \<Rightarrow> machine \<Rightarrow> step" where
  "case_vaslistify_rest_args a pc sp m =
     operands a m pc 1 (\<lambda>b. let start = u8 b 0 in
       case alloca_vaslist2 sp (args_plus (a_args a) start)
              (unat (word_of_nat (a_nargs a) - word_of_nat start :: u64)) m of
         (vl, sp', m') \<Rightarrow> Next (pc + 2) sp' (setreg (a_fp a) start vl m'))"

definition case_parse_key_args :: "act \<Rightarrow> int \<Rightarrow> int \<Rightarrow> machine \<Rightarrow> step" where
  "case_parse_key_args a pc sp m =
     operands a m pc 4 (\<lambda>b.
       do_parse_key_args a (u8 b 0) (unat (b ! 1 AND 0x7f), b ! 1 AND 0x80 \<noteq> 0) (u8 b 2) (u8 b 3)
         (pc + 5) sp m)"

definition case_jump_8 :: "act \<Rightarrow> int \<Rightarrow> int \<Rightarrow> machine \<Rightarrow> step" where
  "case_jump_8 a pc sp m = operands a m pc 1 (\<lambda>b. Next (pc + s8 (b ! 0)) sp m)"

definition case_jump_16 :: "act \<Rightarrow> int \<Rightarrow> int \<Rightarrow> machine \<Rightarrow> step" where
  "case_jump_16 a pc sp m = operands a m pc 2 (\<lambda>b. Next (pc + read_s16 (b ! 0) (b ! 1)) sp m)"

definition case_jump_24 :: "act \<Rightarrow> int \<Rightarrow> int \<Rightarrow> machine \<Rightarrow> step" where
  "case_jump_24 a pc sp m = operands a m pc 3 (\<lambda>b. Next (pc + read_label b) sp m)"

definition jump_if :: "int \<Rightarrow> int \<Rightarrow> int \<Rightarrow> int \<Rightarrow> machine \<Rightarrow> step" where
  "jump_if rel len pc sp m =
     (case pop sp m of (tval, sp') \<Rightarrow> Next (if tval \<noteq> VNil then pc + rel else pc + len) sp' m)"

definition case_jump_if_8 :: "act \<Rightarrow> int \<Rightarrow> int \<Rightarrow> machine \<Rightarrow> step" where
  "case_jump_if_8 a pc sp m = operands a m pc 1 (\<lambda>b. jump_if (s8 (b ! 0)) 2 pc sp m)"

definition case_jump_if_16 :: "act \<Rightarrow> int \<Rightarrow> int \<Rightarrow> machine \<Rightarrow> step" where
  "case_jump_if_16 a pc sp m = operands a m pc 2 (\<lambda>b. jump_if (read_s16 (b ! 0) (b ! 1)) 3 pc sp m)"

definition case_jump_if_24 :: "act \<Rightarrow> int \<Rightarrow> int \<Rightarrow> machine \<Rightarrow> step" where
  "case_jump_if_24 a pc sp m = operands a m pc 3 (\<lambda>b. jump_if (read_label b) 4 pc sp m)"

text \<open>The displacement of the 8-bit form is read as an unsigned byte.\<close>

definition case_jump_if_supplied_8 :: "act \<Rightarrow> int \<Rightarrow> int \<Rightarrow> machine \<Rightarrow> step" where
  "case_jump_if_supplied_8 a pc sp m =
     operands a m pc 2 (\<lambda>b.
       Next (if stack m (reg (a_fp a) (u8 b 0)) = VUnbound then pc + 3 else pc + int (u8 b 1)) sp m)"

definition case_jump_if_supplied_16 :: "act \<Rightarrow> int \<Rightarrow> int \<Rightarrow> machine \<Rightarrow> step" where
  "case_jump_if_supplied_16 a pc sp m =
     operands a m pc 3 (\<lambda>b. let pc' = pc + 1; rel = read_s16 (b ! 1) (b ! 2) in
       Next (if stack m (reg (a_fp a) (u8 b 0)) = VUnbound then pc' + 4 else pc' + (rel - 1)) sp m)"

definition case_check_arg_count_LE :: "act \<Rightarrow> int \<Rightarrow> int \<Rightarrow> machine \<Rightarrow> step" where
  "case_check_arg_count_LE a pc sp m = operands a m pc 1 (\<lambda>b. check_LE a (u8 b 0) (pc + 2) sp m)"

definition case_check_arg_count_GE :: "act \<Rightarrow> int \<Rightarrow> int \<Rightarrow> machine \<Rightarrow> step" where
  "case_check_arg_count_GE a pc sp m = operands a m pc 1 (\<lambda>b. check_GE a (u8 b 0) (pc + 2) sp m)"

definition case_check_arg_count_EQ :: "act \<Rightarrow> int \<Rightarrow> int \<Rightarrow> machine \<Rightarrow> step" where
  "case_check_arg_count_EQ a pc sp m = operands a m pc 1 (\<lambda>b. check_EQ a (u8 b 0) (pc + 2) sp m)"

definition case_push_values :: "int \<Rightarrow> int \<Rightarrow> machine \<Rightarrow> step" where
  "case_push_values pc sp m =
     (case push_list sp (values_list m) m of
        (sp', m') \<Rightarrow> push_next (pc + 1) sp' (VFix (int (mv_size m))) m')"

text \<open>The counts of values are fixnums the compiler's code pushed; anything else is undefined.\<close>

definition fixnum_count :: "val \<Rightarrow> nat option" where
  "fixnum_count v = (case v of VFix i \<Rightarrow> if 0 \<le> i then Some (nat i) else None | _ \<Rightarrow> None)"

definition case_append_values :: "int \<Rightarrow> int \<Rightarrow> machine \<Rightarrow> step" where
  "case_append_values pc sp m =
     (case pop sp m of (v, sp1) \<Rightarrow>
      or_undef (fixnum_count v) (\<lambda>existing_values.
        case push_list sp1 (values_list m) m of
          (sp2, m2) \<Rightarrow> push_next (pc + 1) sp2 (VFix (int (mv_size m + existing_values))) m2))"

definition case_pop_values :: "int \<Rightarrow> int \<Rightarrow> machine \<Rightarrow> step" where
  "case_pop_values pc sp m =
     (case pop sp m of (v, sp1) \<Rightarrow>
      or_undef (fixnum_count v) (\<lambda>existing_values.
        if existing_values \<le> multiple_values_limit
        then Next (pc + 1) (drop_n sp1 existing_values)
               (m\<lparr>mv_values := (\<lambda>i. if i < existing_values then copyto sp1 existing_values m ! i else mv_values m i),
                  mv_size := existing_values\<rparr>)
        else undef))"

definition case_save_sp :: "act \<Rightarrow> int \<Rightarrow> int \<Rightarrow> machine \<Rightarrow> step" where
  "case_save_sp a pc sp m = operands a m pc 1 (\<lambda>b. Next (pc + 2) sp (savesp (a_fp a) sp (u8 b 0) m))"

definition case_restore_sp :: "act \<Rightarrow> int \<Rightarrow> int \<Rightarrow> machine \<Rightarrow> step" where
  "case_restore_sp a pc sp m = operands a m pc 1 (\<lambda>b. do_restore_sp a (u8 b 0) (pc + 2) sp m)"

text \<open>The three exits set the saved pc, pop the tagbody environment and unwind to it.\<close>

definition exit_to :: "act \<Rightarrow> int \<Rightarrow> int \<Rightarrow> int \<Rightarrow> machine \<Rightarrow> step" where
  "exit_to a rel pc sp m =
     (let m1 = m\<lparr>vm_pc := (a_mod a, pc + rel)\<rparr> in
      case fst (pop sp m1) of
        VObj e \<Rightarrow> (case obj_at m1 (VObj e) of
                     Some (TagbodyEnv _) \<Rightarrow> Stop (sjlj_unwind (DTagbody e) 1 m1)
                   | _ \<Rightarrow> undef)
      | _ \<Rightarrow> undef)"

definition case_exit_8 :: "act \<Rightarrow> int \<Rightarrow> int \<Rightarrow> machine \<Rightarrow> step" where
  "case_exit_8 a pc sp m = operands a m pc 1 (\<lambda>b. exit_to a (s8 (b ! 0)) pc sp m)"

definition case_exit_16 :: "act \<Rightarrow> int \<Rightarrow> int \<Rightarrow> machine \<Rightarrow> step" where
  "case_exit_16 a pc sp m = operands a m pc 2 (\<lambda>b. exit_to a (read_s16 (b ! 0) (b ! 1)) pc sp m)"

definition case_exit_24 :: "act \<Rightarrow> int \<Rightarrow> int \<Rightarrow> machine \<Rightarrow> step" where
  "case_exit_24 a pc sp m = operands a m pc 3 (\<lambda>b. exit_to a (read_label b) pc sp m)"

definition case_entry_close :: "act \<Rightarrow> int \<Rightarrow> int \<Rightarrow> machine \<Rightarrow> step" where
  "case_entry_close a pc sp m =
     Stop (Returned VNil 0 (m\<lparr>vm_pc := (a_mod a, pc + 1), vm_sp := sp\<rparr>))"

definition case_unbind :: "act \<Rightarrow> int \<Rightarrow> int \<Rightarrow> machine \<Rightarrow> step" where
  "case_unbind a pc sp m =
     Stop (Returned VNil 0 (m\<lparr>vm_pc := (a_mod a, pc + 1), vm_sp := sp\<rparr>))"

definition case_symbol_value :: "act \<Rightarrow> int \<Rightarrow> int \<Rightarrow> machine \<Rightarrow> step" where
  "case_symbol_value a pc sp m = operands a m pc 1 (\<lambda>b. do_symbol_value a (u8 b 0) (pc + 2) sp m)"

definition case_symbol_value_set :: "act \<Rightarrow> int \<Rightarrow> int \<Rightarrow> machine \<Rightarrow> step" where
  "case_symbol_value_set a pc sp m =
     operands a m pc 1 (\<lambda>b. do_symbol_value_set a (u8 b 0) (pc + 2) sp m)"

definition case_fdefinition :: "act \<Rightarrow> int \<Rightarrow> int \<Rightarrow> machine \<Rightarrow> step" where
  "case_fdefinition a pc sp m = operands a m pc 1 (\<lambda>b. do_fdefinition a (u8 b 0) (pc + 2) sp m)"

definition case_push_nil :: "int \<Rightarrow> int \<Rightarrow> machine \<Rightarrow> step" where
  "case_push_nil pc sp m = push_next (pc + 1) sp VNil m"

definition case_push :: "int \<Rightarrow> int \<Rightarrow> machine \<Rightarrow> step" where
  "case_push pc sp m = push_next (pc + 1) sp (valueGet m 0 (mv_size m)) m"

definition case_pop :: "int \<Rightarrow> int \<Rightarrow> machine \<Rightarrow> step" where
  "case_pop pc sp m = (case pop sp m of (v, sp') \<Rightarrow> Next (pc + 1) sp' (set1 v m))"

definition case_dup :: "int \<Rightarrow> int \<Rightarrow> machine \<Rightarrow> step" where
  "case_dup pc sp m =
     (case pop sp m of (v, sp1) \<Rightarrow>
      case push sp1 v m of (sp2, m2) \<Rightarrow> push_next (pc + 1) sp2 v m2)"

definition case_fdesignator :: "act \<Rightarrow> int \<Rightarrow> int \<Rightarrow> machine \<Rightarrow> step" where
  "case_fdesignator a pc sp m = operands a m pc 1 (\<lambda>b. do_fdesignator (pc + 2) sp m)"

definition case_called_fdefinition :: "act \<Rightarrow> int \<Rightarrow> int \<Rightarrow> machine \<Rightarrow> step" where
  "case_called_fdefinition a pc sp m = operands a m pc 1 (\<lambda>b. do_const a (u8 b 0) (pc + 2) sp m)"

definition case_encell :: "act \<Rightarrow> int \<Rightarrow> int \<Rightarrow> machine \<Rightarrow> step" where
  "case_encell a pc sp m = operands a m pc 1 (\<lambda>b. do_encell a (u8 b 0) (pc + 2) sp m)"

end
