(* ===== verification/VmLong.thy ===== *)
theory VmLong
  imports VmCases
begin

text \<open>
  The cases of \<open>long_dispatch\<close> that do not run other code: the same instructions with
  two-byte operands.  \<open>pc\<close> is the address of the opcode after the \<open>long\<close> prefix.
\<close>

unbundle bit_operations_syntax

definition u16_at :: "byte list \<Rightarrow> nat \<Rightarrow> nat" where
  "u16_at b i = unat (read_u16 (b ! i) (b ! Suc i))"

definition long_ref :: "act \<Rightarrow> int \<Rightarrow> int \<Rightarrow> machine \<Rightarrow> step" where
  "long_ref a pc sp m = operands a m pc 2 (\<lambda>b. do_ref a (u16_at b 0) (pc + 3) sp m)"

definition long_const :: "act \<Rightarrow> int \<Rightarrow> int \<Rightarrow> machine \<Rightarrow> step" where
  "long_const a pc sp m = operands a m pc 2 (\<lambda>b. do_const a (u16_at b 0) (pc + 3) sp m)"

definition long_closure :: "act \<Rightarrow> int \<Rightarrow> int \<Rightarrow> machine \<Rightarrow> step" where
  "long_closure a pc sp m = operands a m pc 2 (\<lambda>b. do_closure a (u16_at b 0) (pc + 3) sp m)"

definition long_bind :: "act \<Rightarrow> int \<Rightarrow> int \<Rightarrow> machine \<Rightarrow> step" where
  "long_bind a pc sp m = operands a m pc 4 (\<lambda>b. do_bind a (u16_at b 0) (u16_at b 2) (pc + 5) sp m)"

definition long_set :: "act \<Rightarrow> int \<Rightarrow> int \<Rightarrow> machine \<Rightarrow> step" where
  "long_set a pc sp m = operands a m pc 2 (\<lambda>b. do_set a (u16_at b 0) (pc + 3) sp m)"

definition long_fdefinition :: "act \<Rightarrow> int \<Rightarrow> int \<Rightarrow> machine \<Rightarrow> step" where
  "long_fdefinition a pc sp m = operands a m pc 2 (\<lambda>b. do_fdefinition a (u16_at b 0) (pc + 3) sp m)"

definition long_make_closure :: "act \<Rightarrow> int \<Rightarrow> int \<Rightarrow> machine \<Rightarrow> step" where
  "long_make_closure a pc sp m = operands a m pc 2 (\<lambda>b. do_make_closure a (u16_at b 0) (pc + 3) sp m)"

definition long_make_uninitialized_closure :: "act \<Rightarrow> int \<Rightarrow> int \<Rightarrow> machine \<Rightarrow> step" where
  "long_make_uninitialized_closure a pc sp m = operands a m pc 2 (\<lambda>b. do_make_uninitialized_closure a (u16_at b 0) (pc + 3) sp m)"

definition long_initialize_closure :: "act \<Rightarrow> int \<Rightarrow> int \<Rightarrow> machine \<Rightarrow> step" where
  "long_initialize_closure a pc sp m = operands a m pc 2 (\<lambda>b. do_initialize_closure a (u16_at b 0) (pc + 3) sp m)"

definition long_bind_required_args :: "act \<Rightarrow> int \<Rightarrow> int \<Rightarrow> machine \<Rightarrow> step" where
  "long_bind_required_args a pc sp m = operands a m pc 2 (\<lambda>b. do_bind_required_args a (u16_at b 0) (pc + 3) sp m)"

definition long_bind_optional_args :: "act \<Rightarrow> int \<Rightarrow> int \<Rightarrow> machine \<Rightarrow> step" where
  "long_bind_optional_args a pc sp m =
     operands a m pc 4 (\<lambda>b. do_bind_optional_args a (u16_at b 0) (u16_at b 2) (pc + 5) sp m)"

definition long_listify_rest_args :: "act \<Rightarrow> int \<Rightarrow> int \<Rightarrow> machine \<Rightarrow> step" where
  "long_listify_rest_args a pc sp m = operands a m pc 2 (\<lambda>b. do_listify_rest_args a (u16_at b 0) (pc + 3) sp m)"

definition long_check_arg_count_LE :: "act \<Rightarrow> int \<Rightarrow> int \<Rightarrow> machine \<Rightarrow> step" where
  "long_check_arg_count_LE a pc sp m = operands a m pc 2 (\<lambda>b. check_LE a (u16_at b 0) (pc + 3) sp m)"

text \<open>
  The case of \<open>vm_parse_key_args\<close> has no \<open>break\<close>: having advanced past its operands it
  goes on into the next case, which takes the two bytes there for a maximal argument count.
\<close>

definition long_parse_key_args :: "act \<Rightarrow> int \<Rightarrow> int \<Rightarrow> machine \<Rightarrow> step" where
  "long_parse_key_args a pc sp m =
     operands a m pc 8 (\<lambda>b. let key_count_info = read_u16 (b ! 2) (b ! 3) in
       case do_parse_key_args a (u16_at b 0)
              (unat (key_count_info AND 0x7fff), key_count_info AND 0x8000 \<noteq> 0) (u16_at b 4) (u16_at b 6)
              (pc + 9) sp m of
         Next pc' sp' m' \<Rightarrow> long_check_arg_count_LE a pc' sp' m'
       | Stop r \<Rightarrow> Stop r)"

definition long_check_arg_count_GE :: "act \<Rightarrow> int \<Rightarrow> int \<Rightarrow> machine \<Rightarrow> step" where
  "long_check_arg_count_GE a pc sp m = operands a m pc 2 (\<lambda>b. check_GE a (u16_at b 0) (pc + 3) sp m)"

definition long_check_arg_count_EQ :: "act \<Rightarrow> int \<Rightarrow> int \<Rightarrow> machine \<Rightarrow> step" where
  "long_check_arg_count_EQ a pc sp m = operands a m pc 2 (\<lambda>b. check_EQ a (u16_at b 0) (pc + 3) sp m)"

definition long_save_sp :: "act \<Rightarrow> int \<Rightarrow> int \<Rightarrow> machine \<Rightarrow> step" where
  "long_save_sp a pc sp m = operands a m pc 2 (\<lambda>b. Next (pc + 3) sp (savesp (a_fp a) sp (u16_at b 0) m))"

definition long_restore_sp :: "act \<Rightarrow> int \<Rightarrow> int \<Rightarrow> machine \<Rightarrow> step" where
  "long_restore_sp a pc sp m = operands a m pc 2 (\<lambda>b. do_restore_sp a (u16_at b 0) (pc + 3) sp m)"

definition long_symbol_value :: "act \<Rightarrow> int \<Rightarrow> int \<Rightarrow> machine \<Rightarrow> step" where
  "long_symbol_value a pc sp m = operands a m pc 2 (\<lambda>b. do_symbol_value a (u16_at b 0) (pc + 3) sp m)"

definition long_symbol_value_set :: "act \<Rightarrow> int \<Rightarrow> int \<Rightarrow> machine \<Rightarrow> step" where
  "long_symbol_value_set a pc sp m = operands a m pc 2 (\<lambda>b. do_symbol_value_set a (u16_at b 0) (pc + 3) sp m)"

definition long_fdesignator :: "act \<Rightarrow> int \<Rightarrow> int \<Rightarrow> machine \<Rightarrow> step" where
  "long_fdesignator a pc sp m = operands a m pc 2 (\<lambda>b. do_fdesignator (pc + 3) sp m)"

definition long_called_fdefinition :: "act \<Rightarrow> int \<Rightarrow> int \<Rightarrow> machine \<Rightarrow> step" where
  "long_called_fdefinition a pc sp m = operands a m pc 2 (\<lambda>b. do_const a (u16_at b 0) (pc + 3) sp m)"

definition long_encell :: "act \<Rightarrow> int \<Rightarrow> int \<Rightarrow> machine \<Rightarrow> step" where
  "long_encell a pc sp m = operands a m pc 2 (\<lambda>b. do_encell a (u16_at b 0) (pc + 3) sp m)"

end
