(* ===== verification/VmRun.thy ===== *)
theory VmRun
  imports VmLong
begin

text \<open>
  The instructions that run other code (calls, special bindings, tagbody entries), the
  interpreter loop \<open>bytecode_vm\<close> and the call of a bytecode function \<open>bytecode_call\<close>.
  What a function that is not bytecode does is a parameter, \<open>native\<close>.
\<close>

section \<open>Calls\<close>

text \<open>
  \<open>call\<close> stands for \<open>func->apply_raw(nargs, args)\<close>.  Before it the program counter is
  pushed and both registers of the machine are saved.  \<open>pc\<close> is the address saved.
\<close>

definition do_call ::
    "(nat \<Rightarrow> nat \<Rightarrow> argptr \<Rightarrow> machine \<Rightarrow> outcome) \<Rightarrow> act \<Rightarrow> nat \<Rightarrow> int \<Rightarrow> int \<Rightarrow> machine
     \<Rightarrow> (val \<Rightarrow> nat \<Rightarrow> machine \<Rightarrow> step) \<Rightarrow> step" where
  "do_call call a nargs pc sp m k =
     (case stack m (stackref sp (int nargs)) of
        VObj f \<Rightarrow>
          (let args = OnStack (stackref sp (int nargs - 1)) in
           case push sp (VPc (a_mod a) pc) m of
             (sp', m') \<Rightarrow>
               case call f nargs args (m'\<lparr>vm_pc := (a_mod a, pc), vm_sp := sp'\<rparr>) of
                 Returned v n m2 \<Rightarrow> k v n m2
               | r \<Rightarrow> Stop r)
      | _ \<Rightarrow> undef)"

text \<open>The local stack pointer during the call is one above \<open>sp\<close>; dropping \<open>nargs + 2\<close> removes
  the saved pc, the arguments and the function.\<close>

definition call_multiple where
  "call_multiple call a nargs pc pc' sp m =
     do_call call a nargs pc sp m (\<lambda>v n m2. Next pc' (drop_n (sp + 1) (nargs + 2)) (setN v n m2))"

definition call_one where
  "call_one call a nargs pc pc' sp m =
     do_call call a nargs pc sp m (\<lambda>v n m2. push_next pc' (drop_n (sp + 1) (nargs + 2)) v m2)"

definition call_fixed where
  "call_fixed call a nargs nvals pc pc' sp m =
     do_call call a nargs pc sp m (\<lambda>v n m2.
       let sp1 = drop_n (sp + 1) (nargs + 2) in
       if nvals \<noteq> 0 then
         (case push_list sp1 (v # map (\<lambda>i. valueGet m2 i (mv_size m2)) [1..<nvals]) m2 of
            (sp2, m3) \<Rightarrow> Next pc' sp2 m3)
       else Next pc' sp1 m2)"

type_synonym caller = "nat \<Rightarrow> nat \<Rightarrow> argptr \<Rightarrow> machine \<Rightarrow> outcome"
type_synonym runner = "act \<Rightarrow> int \<Rightarrow> int \<Rightarrow> machine \<Rightarrow> outcome"

definition case_call :: "caller \<Rightarrow> act \<Rightarrow> int \<Rightarrow> int \<Rightarrow> machine \<Rightarrow> step" where
  "case_call call a pc sp m =
     operands a m pc 1 (\<lambda>b. call_multiple call a (u8 b 0) (pc + 1) (pc + 2) sp m)"

definition case_call_receive_one :: "caller \<Rightarrow> act \<Rightarrow> int \<Rightarrow> int \<Rightarrow> machine \<Rightarrow> step" where
  "case_call_receive_one call a pc sp m =
     operands a m pc 1 (\<lambda>b. call_one call a (u8 b 0) (pc + 1) (pc + 2) sp m)"

definition case_call_receive_fixed :: "caller \<Rightarrow> act \<Rightarrow> int \<Rightarrow> int \<Rightarrow> machine \<Rightarrow> step" where
  "case_call_receive_fixed call a pc sp m =
     operands a m pc 2 (\<lambda>b. call_fixed call a (u8 b 0) (u8 b 1) (pc + 2) (pc + 3) sp m)"

text \<open>The multiple-value calls take the number of arguments from the stack.\<close>

definition with_count :: "int \<Rightarrow> machine \<Rightarrow> (nat \<Rightarrow> int \<Rightarrow> step) \<Rightarrow> step" where
  "with_count sp m k = (case pop sp m of (v, sp') \<Rightarrow> or_undef (fixnum_count v) (\<lambda>nargs. k nargs sp'))"

definition case_mv_call :: "caller \<Rightarrow> act \<Rightarrow> int \<Rightarrow> int \<Rightarrow> machine \<Rightarrow> step" where
  "case_mv_call call a pc sp m =
     with_count sp m (\<lambda>nargs sp'. call_multiple call a nargs pc (pc + 1) sp' m)"

definition case_mv_call_receive_one :: "caller \<Rightarrow> act \<Rightarrow> int \<Rightarrow> int \<Rightarrow> machine \<Rightarrow> step" where
  "case_mv_call_receive_one call a pc sp m =
     with_count sp m (\<lambda>nargs sp'.
       do_call call a nargs pc sp' m (\<lambda>v n m2.
         push_next (pc + 1) (drop_n (sp' + 1) (nargs + 2)) v (set1 v m2)))"

definition case_mv_call_receive_fixed :: "caller \<Rightarrow> act \<Rightarrow> int \<Rightarrow> int \<Rightarrow> machine \<Rightarrow> step" where
  "case_mv_call_receive_fixed call a pc sp m =
     operands a m pc 1 (\<lambda>b.
       with_count sp m (\<lambda>nargs sp'. call_fixed call a nargs (u8 b 0) (pc + 1) (pc + 2) sp' m))"

definition long_call :: "caller \<Rightarrow> act \<Rightarrow> int \<Rightarrow> int \<Rightarrow> machine \<Rightarrow> step" where
  "long_call call a pc sp m =
     operands a m pc 2 (\<lambda>b. call_multiple call a (u16_at b 0) pc (pc + 3) sp m)"

definition long_call_receive_one :: "caller \<Rightarrow> act \<Rightarrow> int \<Rightarrow> int \<Rightarrow> machine \<Rightarrow> step" where
  "long_call_receive_one call a pc sp m =
     operands a m pc 2 (\<lambda>b. call_one call a (u16_at b 0) pc (pc + 3) sp m)"

definition long_call_receive_fixed :: "caller \<Rightarrow> act \<Rightarrow> int \<Rightarrow> int \<Rightarrow> machine \<Rightarrow> step" where
  "long_call_receive_fixed call a pc sp m =
     operands a m pc 4 (\<lambda>b. call_fixed call a (u16_at b 0) (u16_at b 2) pc (pc + 5) sp m)"

definition long_mv_call_receive_fixed :: "caller \<Rightarrow> act \<Rightarrow> int \<Rightarrow> int \<Rightarrow> machine \<Rightarrow> step" where
  "long_mv_call_receive_fixed call a pc sp m =
     operands a m pc 2 (\<lambda>b.
       with_count sp m (\<lambda>nargs sp'. call_fixed call a nargs (u16_at b 0) pc (pc + 3) sp' m))"

section \<open>Special bindings and tagbodies\<close>

text \<open>
  \<open>run\<close> stands for the recursive invocation of \<open>bytecode_vm\<close>, which starts at the saved
  program counter; it gets a C++ frame of its own.  After it the local registers are
  reloaded from the machine (\<open>reload\<close>).  A saved program counter of another module makes
  both undefined, as the literals in use are those of this one.
\<close>

definition nested :: "runner \<Rightarrow> act \<Rightarrow> int \<Rightarrow> machine \<Rightarrow> outcome" where
  "nested run a sp m =
     (case new_frame m of (frame, m') \<Rightarrow>
        if fst (vm_pc m') = a_mod a then run (a\<lparr>a_frame := frame\<rparr>) (snd (vm_pc m')) sp m' else Undefined)"

definition reload :: "act \<Rightarrow> machine \<Rightarrow> step" where
  "reload a m = (if fst (vm_pc m) = a_mod a then Next (snd (vm_pc m)) (vm_sp m) m else undef)"

definition do_special_bind :: "runner \<Rightarrow> act \<Rightarrow> nat \<Rightarrow> int \<Rightarrow> int \<Rightarrow> machine \<Rightarrow> step" where
  "do_special_bind run a n pc sp m =
     (case pop sp m of (v, sp') \<Rightarrow>
      or_undef (var_cell_at a m n) (\<lambda>(c, g, l).
        case call_with_cell_bound c v (nested run a sp') (m\<lparr>vm_pc := (a_mod a, pc)\<rparr>) of
          Returned _ _ m' \<Rightarrow> reload a m'
        | r \<Rightarrow> Stop r))"

definition case_special_bind :: "runner \<Rightarrow> act \<Rightarrow> int \<Rightarrow> int \<Rightarrow> machine \<Rightarrow> step" where
  "case_special_bind run a pc sp m =
     operands a m pc 1 (\<lambda>b. do_special_bind run a (u8 b 0) (pc + 2) sp m)"

definition long_special_bind :: "runner \<Rightarrow> act \<Rightarrow> int \<Rightarrow> int \<Rightarrow> machine \<Rightarrow> step" where
  "long_special_bind run a pc sp m =
     operands a m pc 2 (\<lambda>b. do_special_bind run a (u16_at b 0) (pc + 3) sp m)"

text \<open>
  A tagbody: the body is run again every time an exit to it arrives, by a longjmp or by
  an exception for this C++ frame.  The loop may be endless, so it is given fuel.
\<close>

fun entry_loop :: "nat \<Rightarrow> runner \<Rightarrow> act \<Rightarrow> nat \<Rightarrow> dynenv list \<Rightarrow> int \<Rightarrow> machine \<Rightarrow> outcome" where
  "entry_loop 0 run a e env sp m = OutOfFuel"
| "entry_loop (Suc k) run a e env sp m =
     (case nested run a sp m of
        LongJumped d i m' \<Rightarrow>
          if d = DTagbody e then entry_loop k run a e env sp m' else LongJumped d i m'
      | Thrown fr i m' \<Rightarrow>
          if fr = a_frame a then entry_loop k run a e env sp (m'\<lparr>dynenvs := env\<rparr>) else Thrown fr i m'
      | r \<Rightarrow> r)"

definition do_entry :: "nat \<Rightarrow> runner \<Rightarrow> act \<Rightarrow> nat \<Rightarrow> int \<Rightarrow> int \<Rightarrow> machine \<Rightarrow> step" where
  "do_entry k run a n pc sp m =
     (case new_obj (TagbodyEnv (a_frame a)) (m\<lparr>vm_pc := (a_mod a, pc)\<rparr>) of (e, m1) \<Rightarrow>
      let m2 = setreg (a_fp a) n (VObj e) m1;
          env = DTagbody e # dynenvs m2
      in case on_exit (\<lambda>m'. m'\<lparr>dynenvs := dynenvs m2\<rparr>)
                (entry_loop k run a e env sp (m2\<lparr>dynenvs := env\<rparr>)) of
           Returned _ _ m' \<Rightarrow> reload a m'
         | r \<Rightarrow> Stop r)"

definition case_entry :: "nat \<Rightarrow> runner \<Rightarrow> act \<Rightarrow> int \<Rightarrow> int \<Rightarrow> machine \<Rightarrow> step" where
  "case_entry k run a pc sp m = operands a m pc 1 (\<lambda>b. do_entry k run a (u8 b 0) (pc + 2) sp m)"

text \<open>In the long form the C++ frame is that of \<open>long_dispatch\<close>, a new one.\<close>

definition long_entry :: "nat \<Rightarrow> runner \<Rightarrow> act \<Rightarrow> int \<Rightarrow> int \<Rightarrow> machine \<Rightarrow> step" where
  "long_entry k run a pc sp m =
     operands a m pc 2 (\<lambda>b.
       case new_frame m of (frame, m') \<Rightarrow>
         do_entry k run (a\<lparr>a_frame := frame\<rparr>) (u16_at b 0) (pc + 3) sp m')"

section \<open>The interpreter\<close>

definition long_dispatch :: "nat \<Rightarrow> caller \<Rightarrow> runner \<Rightarrow> act \<Rightarrow> byte \<Rightarrow> int \<Rightarrow> int \<Rightarrow> machine \<Rightarrow> step" where
  "long_dispatch k call run a sub_opcode pc sp m =
     (case decode_op sub_opcode of
        Some Vm_ref \<Rightarrow> long_ref a pc sp m
      | Some Vm_const \<Rightarrow> long_const a pc sp m
      | Some Vm_closure \<Rightarrow> long_closure a pc sp m
      | Some Vm_call \<Rightarrow> long_call call a pc sp m
      | Some Vm_call_receive_one \<Rightarrow> long_call_receive_one call a pc sp m
      | Some Vm_call_receive_fixed \<Rightarrow> long_call_receive_fixed call a pc sp m
      | Some Vm_bind \<Rightarrow> long_bind a pc sp m
      | Some Vm_set \<Rightarrow> long_set a pc sp m
      | Some Vm_fdefinition \<Rightarrow> long_fdefinition a pc sp m
      | Some Vm_make_closure \<Rightarrow> long_make_closure a pc sp m
      | Some Vm_make_uninitialized_closure \<Rightarrow> long_make_uninitialized_closure a pc sp m
      | Some Vm_initialize_closure \<Rightarrow> long_initialize_closure a pc sp m
      | Some Vm_bind_required_args \<Rightarrow> long_bind_required_args a pc sp m
      | Some Vm_bind_optional_args \<Rightarrow> long_bind_optional_args a pc sp m
      | Some Vm_listify_rest_args \<Rightarrow> long_listify_rest_args a pc sp m
      | Some Vm_parse_key_args \<Rightarrow> long_parse_key_args a pc sp m
      | Some Vm_check_arg_count_LE \<Rightarrow> long_check_arg_count_LE a pc sp m
      | Some Vm_check_arg_count_GE \<Rightarrow> long_check_arg_count_GE a pc sp m
      | Some Vm_check_arg_count_EQ \<Rightarrow> long_check_arg_count_EQ a pc sp m
      | Some Vm_mv_call_receive_fixed \<Rightarrow> long_mv_call_receive_fixed call a pc sp m
      | Some Vm_save_sp \<Rightarrow> long_save_sp a pc sp m
      | Some Vm_restore_sp \<Rightarrow> long_restore_sp a pc sp m
      | Some Vm_entry \<Rightarrow> long_entry k run a pc sp m
      | Some Vm_special_bind \<Rightarrow> long_special_bind run a pc sp m
      | Some Vm_symbol_value \<Rightarrow> long_symbol_value a pc sp m
      | Some Vm_symbol_value_set \<Rightarrow> long_symbol_value_set a pc sp m
      | Some Vm_fdesignator \<Rightarrow> long_fdesignator a pc sp m
      | Some Vm_called_fdefinition \<Rightarrow> long_called_fdefinition a pc sp m
      | Some Vm_encell \<Rightarrow> long_encell a pc sp m
      | _ \<Rightarrow> Stop (Signalled (UnknownLongOpcode sub_opcode) m))"

text \<open>On return from \<open>long_dispatch\<close> the machine's stack pointer is the local one.\<close>

definition case_long :: "nat \<Rightarrow> caller \<Rightarrow> runner \<Rightarrow> act \<Rightarrow> int \<Rightarrow> int \<Rightarrow> machine \<Rightarrow> step" where
  "case_long k call run a pc sp m =
     operands a m pc 1 (\<lambda>b.
       case long_dispatch k call run a (b ! 0) (pc + 1) sp m of
         Next pc' sp' m' \<Rightarrow> Next pc' sp' (m'\<lparr>vm_sp := sp'\<rparr>)
       | Stop r \<Rightarrow> Stop r)"

definition vm_step :: "nat \<Rightarrow> caller \<Rightarrow> runner \<Rightarrow> act \<Rightarrow> int \<Rightarrow> int \<Rightarrow> machine \<Rightarrow> step" where
  "vm_step k call run a pc sp m =
     (if \<not> (0 \<le> pc \<and> nat pc < length (code_of a m)) then undef
      else case decode_op (code_of a m ! nat pc) of
        Some Vm_ref \<Rightarrow> case_ref a pc sp m
      | Some Vm_const \<Rightarrow> case_const a pc sp m
      | Some Vm_closure \<Rightarrow> case_closure a pc sp m
      | Some Vm_call \<Rightarrow> case_call call a pc sp m
      | Some Vm_call_receive_one \<Rightarrow> case_call_receive_one call a pc sp m
      | Some Vm_call_receive_fixed \<Rightarrow> case_call_receive_fixed call a pc sp m
      | Some Vm_bind \<Rightarrow> case_bind a pc sp m
      | Some Vm_set \<Rightarrow> case_set a pc sp m
      | Some Vm_make_cell \<Rightarrow> case_make_cell pc sp m
      | Some Vm_cell_ref \<Rightarrow> case_cell_ref pc sp m
      | Some Vm_cell_set \<Rightarrow> case_cell_set pc sp m
      | Some Vm_make_closure \<Rightarrow> case_make_closure a pc sp m
      | Some Vm_make_uninitialized_closure \<Rightarrow> case_make_uninitialized_closure a pc sp m
      | Some Vm_initialize_closure \<Rightarrow> case_initialize_closure a pc sp m
      | Some Vm_return \<Rightarrow> case_return m
      | Some Vm_bind_required_args \<Rightarrow> case_bind_required_args a pc sp m
      | Some Vm_bind_optional_args \<Rightarrow> case_bind_optional_args a pc sp m
      | Some Vm_listify_rest_args \<Rightarrow> case_listify_rest_args a pc sp m
      | Some Vm_vaslistify_rest_args \<Rightarrow> case_vaslistify_rest_args a pc sp m
      | Some Vm_parse_key_args \<Rightarrow> case_parse_key_args a pc sp m
      | Some Vm_jump_8 \<Rightarrow> case_jump_8 a pc sp m
      | Some Vm_jump_16 \<Rightarrow> case_jump_16 a pc sp m
      | Some Vm_jump_24 \<Rightarrow> case_jump_24 a pc sp m
      | Some Vm_jump_if_8 \<Rightarrow> case_jump_if_8 a pc sp m
      | Some Vm_jump_if_16 \<Rightarrow> case_jump_if_16 a pc sp m
      | Some Vm_jump_if_24 \<Rightarrow> case_jump_if_24 a pc sp m
      | Some Vm_jump_if_supplied_8 \<Rightarrow> case_jump_if_supplied_8 a pc sp m
      | Some Vm_jump_if_supplied_16 \<Rightarrow> case_jump_if_supplied_16 a pc sp m
      | Some Vm_check_arg_count_LE \<Rightarrow> case_check_arg_count_LE a pc sp m
      | Some Vm_check_arg_count_GE \<Rightarrow> case_check_arg_count_GE a pc sp m
      | Some Vm_check_arg_count_EQ \<Rightarrow> case_check_arg_count_EQ a pc sp m
      | Some Vm_push_values \<Rightarrow> case_push_values pc sp m
      | Some Vm_append_values \<Rightarrow> case_append_values pc sp m
      | Some Vm_pop_values \<Rightarrow> case_pop_values pc sp m
      | Some Vm_mv_call \<Rightarrow> case_mv_call call a pc sp m
      | Some Vm_mv_call_receive_one \<Rightarrow> case_mv_call_receive_one call a pc sp m
      | Some Vm_mv_call_receive_fixed \<Rightarrow> case_mv_call_receive_fixed call a pc sp m
      | Some Vm_save_sp \<Rightarrow> case_save_sp a pc sp m
      | Some Vm_restore_sp \<Rightarrow> case_restore_sp a pc sp m
      | Some Vm_entry \<Rightarrow> case_entry k run a pc sp m
      | Some Vm_exit_8 \<Rightarrow> case_exit_8 a pc sp m
      | Some Vm_exit_16 \<Rightarrow> case_exit_16 a pc sp m
      | Some Vm_exit_24 \<Rightarrow> case_exit_24 a pc sp m
      | Some Vm_entry_close \<Rightarrow> case_entry_close a pc sp m
      | Some Vm_special_bind \<Rightarrow> case_special_bind run a pc sp m
      | Some Vm_symbol_value \<Rightarrow> case_symbol_value a pc sp m
      | Some Vm_symbol_value_set \<Rightarrow> case_symbol_value_set a pc sp m
      | Some Vm_unbind \<Rightarrow> case_unbind a pc sp m
      | Some Vm_fdefinition \<Rightarrow> case_fdefinition a pc sp m
      | Some Vm_nil \<Rightarrow> case_push_nil pc sp m
      | Some Vm_push \<Rightarrow> case_push pc sp m
      | Some Vm_pop \<Rightarrow> case_pop pc sp m
      | Some Vm_dup \<Rightarrow> case_dup pc sp m
      | Some Vm_fdesignator \<Rightarrow> case_fdesignator a pc sp m
      | Some Vm_called_fdefinition \<Rightarrow> case_called_fdefinition a pc sp m
      | Some Vm_encell \<Rightarrow> case_encell a pc sp m
      | Some Vm_long \<Rightarrow> case_long k call run a pc sp m
      | _ \<Rightarrow> Stop (Signalled (UnknownOpcode (code_of a m ! nat pc)) m))"

text \<open>
  \<open>bytecode_call\<close>: a new frame above the caller's stack, a dynamic environment that
  restores the stack on exits, and the interpreter from the entry point of the function.
  Both destructors run on a return and on an exception.
\<close>

definition bytecode_call :: "runner \<Rightarrow> nat \<Rightarrow> nat \<Rightarrow> argptr \<Rightarrow> machine \<Rightarrow> outcome" where
  "bytecode_call run closure nargs args m =
     (case entry_point m closure of
        None \<Rightarrow> Undefined
      | Some ep \<Rightarrow>
          (case obj_at m (VObj ep) of
             Some (SimpleFun md entry nlocals nclosed) \<Rightarrow>
               (let old_pc = vm_pc m; old_fp = vm_fp m; old_sp = vm_sp m;
                    m1 = poke (old_sp + 1) (VStack old_fp) (m\<lparr>vm_pc := (md, entry)\<rparr>);
                    fp = old_sp + 1;
                    m2 = m1\<lparr>vm_sp := fp, vm_fp := fp\<rparr>;
                    sp = push_frame fp nlocals
                in case new_frame m2 of (frame, m3) \<Rightarrow>
                   on_exit (\<lambda>m'. m'\<lparr>vm_sp := old_sp, vm_fp := old_fp\<rparr>)
                     (case with_dynenv (DVMFrame old_sp old_fp # dynenvs m3)
                             (run \<lparr>a_mod = md, a_closure = closure, a_fp = fp, a_nargs = nargs,
                                   a_args = args, a_frame = frame\<rparr> entry sp) m3 of
                        Returned v n m' \<Rightarrow> Returned v n (m'\<lparr>vm_pc := old_pc\<rparr>)
                      | r \<Rightarrow> r))
           | _ \<Rightarrow> Undefined))"

text \<open>
  The interpreter loop and \<open>apply_raw\<close>, with fuel that every step and every call uses
  up.  A function cell passes the call on to its function.
\<close>

fun bytecode_vm :: "nat \<Rightarrow> (nat \<Rightarrow> caller) \<Rightarrow> runner"
  and apply_raw :: "nat \<Rightarrow> (nat \<Rightarrow> caller) \<Rightarrow> caller" where
  "bytecode_vm 0 native a pc sp m = OutOfFuel"
| "bytecode_vm (Suc k) native a pc sp m =
     (case vm_step k (apply_raw k native) (bytecode_vm k native) a pc sp m of
        Next pc' sp' m' \<Rightarrow> bytecode_vm k native a pc' sp' m'
      | Stop r \<Rightarrow> r)"
| "apply_raw 0 native f nargs args m = OutOfFuel"
| "apply_raw (Suc k) native f nargs args m =
     (case obj_at m (VObj f) of
        Some (FunCell g) \<Rightarrow> apply_raw k native g nargs args m
      | Some (UnboundFun name) \<Rightarrow> Signalled (UndefinedFunction name) m
      | Some (Native j) \<Rightarrow> native j f nargs args m
      | Some (SimpleFun _ _ _ _) \<Rightarrow> bytecode_call (bytecode_vm k native) f nargs args m
      | Some (Closure _ _) \<Rightarrow> bytecode_call (bytecode_vm k native) f nargs args m
      | _ \<Rightarrow> Undefined)"

end
