(* ===== verification/VmFacts.thy ===== *)
theory VmFacts
  imports VmRun
begin

text \<open>
  What the virtual machine guarantees: results do not depend on the fuel, calls give the
  machine's registers and dynamic environment back, arguments and keywords land in their
  registers, and abbreviating instructions do what the longer sequences do.
\<close>

section \<open>More fuel, same result\<close>

definition out_le :: "outcome \<Rightarrow> outcome \<Rightarrow> bool" where
  "out_le r r' \<longleftrightarrow> r = OutOfFuel \<or> r' = r"

definition step_le :: "step \<Rightarrow> step \<Rightarrow> bool" where
  "step_le s s' \<longleftrightarrow> s = Stop OutOfFuel \<or> s' = s"

definition caller_le :: "caller \<Rightarrow> caller \<Rightarrow> bool" where
  "caller_le c c' \<longleftrightarrow> (\<forall>f n args m. out_le (c f n args m) (c' f n args m))"

definition runner_le :: "runner \<Rightarrow> runner \<Rightarrow> bool" where
  "runner_le r r' \<longleftrightarrow> (\<forall>a pc sp m. out_le (r a pc sp m) (r' a pc sp m))"

lemma le_refl [simp]: "out_le r r" "step_le s s"
  by (simp_all add: out_le_def step_le_def)

lemma operands_mono: "(\<And>b. step_le (f b) (g b)) \<Longrightarrow> step_le (operands a m pc k f) (operands a m pc k g)"
  by (simp add: operands_def)

lemma or_undef_mono: "(\<And>x. step_le (f x) (g x)) \<Longrightarrow> step_le (or_undef x f) (or_undef x g)"
  by (cases x) simp_all

lemma with_count_mono:
  "(\<And>n p. step_le (f n p) (g n p)) \<Longrightarrow> step_le (with_count sp m f) (with_count sp m g)"
  by (auto simp: with_count_def intro: or_undef_mono split: prod.splits)

lemma returned_mono:
  "out_le r r' \<Longrightarrow> step_le (case r of Returned v n m2 \<Rightarrow> k v n m2 | q \<Rightarrow> Stop q)
     (case r' of Returned v n m2 \<Rightarrow> k v n m2 | q \<Rightarrow> Stop q)"
  by (auto simp: out_le_def step_le_def)

lemma do_call_mono:
  assumes "caller_le c c'"
  shows "step_le (do_call c a n pc sp m k) (do_call c' a n pc sp m k)"
proof (cases "stack m (stackref sp (int n))")
  case (VObj f)
  with assms show ?thesis
    by (simp add: do_call_def Let_def push_def caller_le_def returned_mono)
qed (simp_all add: do_call_def)

lemma calls_mono:
  assumes "caller_le c c'"
  shows "step_le (case_call c a pc sp m) (case_call c' a pc sp m)"
    "step_le (case_call_receive_one c a pc sp m) (case_call_receive_one c' a pc sp m)"
    "step_le (case_call_receive_fixed c a pc sp m) (case_call_receive_fixed c' a pc sp m)"
    "step_le (case_mv_call c a pc sp m) (case_mv_call c' a pc sp m)"
    "step_le (case_mv_call_receive_one c a pc sp m) (case_mv_call_receive_one c' a pc sp m)"
    "step_le (case_mv_call_receive_fixed c a pc sp m) (case_mv_call_receive_fixed c' a pc sp m)"
    "step_le (long_call c a pc sp m) (long_call c' a pc sp m)"
    "step_le (long_call_receive_one c a pc sp m) (long_call_receive_one c' a pc sp m)"
    "step_le (long_call_receive_fixed c a pc sp m) (long_call_receive_fixed c' a pc sp m)"
    "step_le (long_mv_call_receive_fixed c a pc sp m) (long_mv_call_receive_fixed c' a pc sp m)"
  unfolding case_call_def case_call_receive_one_def case_call_receive_fixed_def case_mv_call_def
    case_mv_call_receive_one_def case_mv_call_receive_fixed_def long_call_def long_call_receive_one_def
    long_call_receive_fixed_def long_mv_call_receive_fixed_def call_multiple_def call_one_def call_fixed_def
  by (intro operands_mono with_count_mono do_call_mono assms)+

lemma nested_mono: "runner_le r r' \<Longrightarrow> out_le (nested r a sp m) (nested r' a sp m)"
  by (simp add: nested_def runner_le_def new_frame_def)

lemma on_exit_mono: "out_le r r' \<Longrightarrow> out_le (on_exit f r) (on_exit f r')"
  by (auto simp: out_le_def on_exit_def)

lemma bound_mono:
  "(\<And>m. out_le (f m) (g m)) \<Longrightarrow> out_le (call_with_cell_bound c v f m) (call_with_cell_bound c v g m)"
  by (auto simp: call_with_cell_bound_def with_dynenv_def intro!: on_exit_mono split: prod.splits)

lemma special_bind_mono:
  assumes "runner_le r r'"
  shows "step_le (do_special_bind r a n pc sp m) (do_special_bind r' a n pc sp m)"
proof -
  have "step_le (case call_with_cell_bound c v (nested r a p) x of Returned _ _ m' \<Rightarrow> reload a m' | q \<Rightarrow> Stop q)
      (case call_with_cell_bound c v (nested r' a p) x of Returned _ _ m' \<Rightarrow> reload a m' | q \<Rightarrow> Stop q)"
    for c v p x
    using bound_mono[of "nested r a p" "nested r' a p" c v x] nested_mono[OF assms]
    by (auto simp: out_le_def step_le_def)
  then show ?thesis
    by (auto simp: do_special_bind_def pop_def intro!: or_undef_mono)
qed

lemma entry_loop_mono:
  assumes "runner_le r r'"
  shows "k \<le> k' \<Longrightarrow> out_le (entry_loop k r a e env sp m) (entry_loop k' r' a e env sp m)"
proof (induction k arbitrary: k' m)
  case 0
  then show ?case by (simp add: out_le_def)
next
  case (Suc k)
  then obtain j where j: "k' = Suc j" "k \<le> j" by (cases k') auto
  show ?case
    using nested_mono[OF assms, of a sp m] Suc.IH[OF j(2)] j(1)
    by (auto simp: out_le_def split: outcome.splits) metis+
qed

lemma do_entry_mono:
  assumes "runner_le r r'" "k \<le> k'"
  shows "step_le (do_entry k r a n pc sp m) (do_entry k' r' a n pc sp m)"
proof -
  have "step_le (case on_exit f (entry_loop k r a e env sp x) of Returned _ _ m' \<Rightarrow> reload a m' | q \<Rightarrow> Stop q)
      (case on_exit f (entry_loop k' r' a e env sp x) of Returned _ _ m' \<Rightarrow> reload a m' | q \<Rightarrow> Stop q)"
    for f e env x
    using on_exit_mono[OF entry_loop_mono[OF assms, of a e env sp x], of f]
    by (auto simp: out_le_def step_le_def)
  then show ?thesis by (simp add: do_entry_def Let_def new_obj_def)
qed

lemma runs_mono:
  assumes "runner_le r r'" "k \<le> k'"
  shows "step_le (case_special_bind r a pc sp m) (case_special_bind r' a pc sp m)"
    "step_le (long_special_bind r a pc sp m) (long_special_bind r' a pc sp m)"
    "step_le (case_entry k r a pc sp m) (case_entry k' r' a pc sp m)"
    "step_le (long_entry k r a pc sp m) (long_entry k' r' a pc sp m)"
  unfolding case_special_bind_def long_special_bind_def case_entry_def long_entry_def new_frame_def prod.case
  by (intro operands_mono special_bind_mono do_entry_mono assms)+

lemma long_dispatch_mono:
  assumes "caller_le c c'" "runner_le r r'" "k \<le> k'"
  shows "step_le (long_dispatch k c r a b pc sp m) (long_dispatch k' c' r' a b pc sp m)"
proof (cases "decode_op b")
  case None
  then show ?thesis by (simp add: long_dispatch_def)
next
  case (Some op)
  then show ?thesis
    by (cases op) (simp_all add: long_dispatch_def calls_mono[OF assms(1)] runs_mono[OF assms(2,3)])
qed

lemma case_long_mono:
  assumes "caller_le c c'" "runner_le r r'" "k \<le> k'"
  shows "step_le (case_long k c r a pc sp m) (case_long k' c' r' a pc sp m)"
proof -
  have "step_le (case long_dispatch k c r a (b ! 0) (pc + 1) sp m of
         Next pc' sp' m' \<Rightarrow> Next pc' sp' (m'\<lparr>vm_sp := sp'\<rparr>) | Stop r \<Rightarrow> Stop r)
      (case long_dispatch k' c' r' a (b ! 0) (pc + 1) sp m of
         Next pc' sp' m' \<Rightarrow> Next pc' sp' (m'\<lparr>vm_sp := sp'\<rparr>) | Stop r \<Rightarrow> Stop r)" for b
    using long_dispatch_mono[OF assms, of a "b ! 0" "pc + 1" sp m] by (auto simp: step_le_def)
  then show ?thesis unfolding case_long_def by (intro operands_mono)
qed

lemma vm_step_mono:
  assumes "caller_le c c'" "runner_le r r'" "k \<le> k'"
  shows "step_le (vm_step k c r a pc sp m) (vm_step k' c' r' a pc sp m)"
proof (cases "decode_op (code_of a m ! nat pc)")
  case None
  then show ?thesis by (simp add: vm_step_def)
next
  case (Some op)
  then show ?thesis
    by (cases op) (simp_all add: vm_step_def calls_mono[OF assms(1)] runs_mono[OF assms(2,3)]
      case_long_mono[OF assms])
qed

lemma with_dynenv_mono: "(\<And>m. out_le (f m) (g m)) \<Longrightarrow> out_le (with_dynenv ds f m) (with_dynenv ds g m)"
  by (simp add: with_dynenv_def on_exit_mono)

lemma map_returned_mono:
  "out_le r r' \<Longrightarrow> out_le (case r of Returned v n m \<Rightarrow> Returned v n (g m) | q \<Rightarrow> q)
     (case r' of Returned v n m \<Rightarrow> Returned v n (g m) | q \<Rightarrow> q)"
  by (auto simp: out_le_def)

lemma bytecode_call_mono:
  assumes "runner_le r r'"
  shows "out_le (bytecode_call r f n args m) (bytecode_call r' f n args m)"
proof -
  have "out_le (r x pc sp q) (r' x pc sp q)" for x pc sp q using assms by (simp add: runner_le_def)
  then have "out_le (on_exit h (case with_dynenv ds (r x pc sp) q of Returned v n m' \<Rightarrow> Returned v n (g m') | z \<Rightarrow> z))
      (on_exit h (case with_dynenv ds (r' x pc sp) q of Returned v n m' \<Rightarrow> Returned v n (g m') | z \<Rightarrow> z))"
    for h ds x pc sp q and g :: "machine \<Rightarrow> machine"
    by (intro on_exit_mono map_returned_mono with_dynenv_mono)
  then show ?thesis
    by (simp add: bytecode_call_def Let_def new_frame_def split: option.splits obj.splits)
qed

lemma fuel_mono:
  "k \<le> k' \<Longrightarrow> runner_le (bytecode_vm k native) (bytecode_vm k' native) \<and>
     caller_le (apply_raw k native) (apply_raw k' native)"
proof (induction k arbitrary: k')
  case 0
  then show ?case by (simp add: runner_le_def caller_le_def out_le_def)
next
  case (Suc k)
  then obtain j where j: "k' = Suc j" "k \<le> j" by (cases k') auto
  note IH = Suc.IH[OF j(2)]
  have r: "runner_le (bytecode_vm k native) (bytecode_vm j native)"
    and c: "caller_le (apply_raw k native) (apply_raw j native)" using IH by simp_all
  have "out_le (bytecode_vm (Suc k) native a pc sp m) (bytecode_vm k' native a pc sp m)" for a pc sp m
    using vm_step_mono[OF c r j(2), of a pc sp m] r j(1)
    by (auto simp: step_le_def runner_le_def out_le_def split: step.splits) metis
  moreover have "out_le (apply_raw (Suc k) native f n args m) (apply_raw k' native f n args m)" for f n args m
    using bytecode_call_mono[OF r, of f n args m] c j(1)
    by (auto simp: caller_le_def split: option.splits obj.splits)
  ultimately show ?case by (simp add: runner_le_def caller_le_def)
qed



section \<open>The interpreter keeps the dynamic-environment discipline\<close>

definition step_leaves :: "dynenv list \<Rightarrow> step \<Rightarrow> bool" where
  "step_leaves ds s \<longleftrightarrow> (case s of Next pc sp m \<Rightarrow> dynenvs m = ds | Stop r \<Rightarrow> leaves ds r)"

lemma step_leaves_simps [simp]:
  "step_leaves ds (Next pc sp m) \<longleftrightarrow> dynenvs m = ds"
  "step_leaves ds (Stop r) \<longleftrightarrow> leaves ds r"
  by (simp_all add: step_leaves_def)

lemma leaves_simps [simp]:
  "leaves ds (Returned v n m) \<longleftrightarrow> dynenvs m = ds" "leaves ds (Thrown f i m) \<longleftrightarrow> dynenvs m = ds"
  "leaves ds (CatchThrown t m) \<longleftrightarrow> dynenvs m = ds" "leaves ds (Signalled e m)"
  "leaves ds Undefined" "leaves ds OutOfFuel"
  by (simp_all add: leaves_def)

definition caller_disciplined :: "caller \<Rightarrow> bool" where
  "caller_disciplined c \<longleftrightarrow> (\<forall>f n args. disciplined (c f n args))"

definition runner_disciplined :: "runner \<Rightarrow> bool" where
  "runner_disciplined r \<longleftrightarrow> (\<forall>a pc sp. disciplined (r a pc sp))"

lemma operands_leaves: "(\<And>b. step_leaves ds (f b)) \<Longrightarrow> step_leaves ds (operands a m pc k f)"
  by (simp add: operands_def)

lemma or_undef_leaves: "(\<And>x. y = Some x \<Longrightarrow> step_leaves ds (f x)) \<Longrightarrow> step_leaves ds (or_undef y f)"
  by (cases y) simp_all

lemma dynenvs_ops [simp]:
  "dynenvs (setreg fp n v m) = dynenvs m" "dynenvs (savesp fp sp n m) = dynenvs m"
  "dynenvs (fillreg fp v n b m) = dynenvs m" "dynenvs (set1 v m) = dynenvs m"
  "dynenvs (setN v n m) = dynenvs m" "dynenvs (cell_set_value c v m) = dynenvs m"
  "dynenvs (snd (push sp v m)) = dynenvs m" "dynenvs (snd (new_cons x y m)) = dynenvs m"
  by (simp_all add: setreg_def savesp_def fillreg_def set1_def setN_def cell_set_value_def push_def
      new_cons_def split: obj.splits)

lemma push_next_leaves [simp]: "step_leaves ds (push_next pc sp v m) \<longleftrightarrow> dynenvs m = ds"
  by (simp add: push_next_def push_def)

lemma copytoreg_dynenvs: "copytoreg fp src n b m = Some m' \<Longrightarrow> dynenvs m' = dynenvs m"
  by (auto simp: copytoreg_def)

lemma list_of_dynenvs: "dynenvs (snd (list_of vs m)) = dynenvs m"
  by (induction vs m rule: list_of.induct) (simp_all add: Let_def)

lemma list_of_result: "list_of vs m = (l, m') \<Longrightarrow> dynenvs m' = dynenvs m"
  using list_of_dynenvs[of vs m] by simp

lemma parse_keys_dynenvs:
  "parse_keys a info ms ls fs k (m, u, aok) = Some (m', u', aok') \<Longrightarrow> dynenvs m' = dynenvs m"
  by (induction k arbitrary: m u aok)
    (fastforce simp: Let_def new_cons_def split: option.splits if_splits)+

lemma effects_leave:
  "step_leaves (dynenvs m) (do_ref a n pc sp m)" "step_leaves (dynenvs m) (do_const a n pc sp m)"
  "step_leaves (dynenvs m) (do_closure a n pc sp m)" "step_leaves (dynenvs m) (do_set a n pc sp m)"
  "step_leaves (dynenvs m) (do_bind a n k pc sp m)" "step_leaves (dynenvs m) (do_make_closure a n pc sp m)"
  "step_leaves (dynenvs m) (do_make_uninitialized_closure a n pc sp m)"
  "step_leaves (dynenvs m) (do_initialize_closure a n pc sp m)"
  "step_leaves (dynenvs m) (do_bind_required_args a n pc sp m)"
  "step_leaves (dynenvs m) (do_bind_optional_args a n k pc sp m)"
  "step_leaves (dynenvs m) (do_listify_rest_args a n pc sp m)"
  "step_leaves (dynenvs m) (check_LE a n pc sp m)" "step_leaves (dynenvs m) (check_GE a n pc sp m)"
  "step_leaves (dynenvs m) (check_EQ a n pc sp m)" "step_leaves (dynenvs m) (do_restore_sp a n pc sp m)"
  "step_leaves (dynenvs m) (do_symbol_value a n pc sp m)"
  "step_leaves (dynenvs m) (do_symbol_value_set a n pc sp m)"
  "step_leaves (dynenvs m) (do_fdefinition a n pc sp m)"
  "step_leaves (dynenvs m) (do_encell a n pc sp m)"
  by (auto simp: do_ref_def do_const_def do_closure_def do_set_def do_bind_def do_make_closure_def
      do_make_uninitialized_closure_def do_initialize_closure_def do_bind_required_args_def
      do_bind_optional_args_def do_listify_rest_args_def check_LE_def check_GE_def check_EQ_def
      do_restore_sp_def do_symbol_value_def do_symbol_value_set_def do_fdefinition_def do_encell_def
      pop_def new_obj_def new_cons_def
      intro!: or_undef_leaves dest: copytoreg_dynenvs list_of_result
      split: val.splits option.splits obj.splits prod.splits)

lemma fdesignator_leaves: "step_leaves (dynenvs m) (do_fdesignator pc sp m)"
  by (auto simp: do_fdesignator_def pop_def called_function_designator_def ensure_function_cell_def
      new_obj_def split: sum.splits val.splits option.splits if_splits)

lemma parse_key_args_leaves: "step_leaves (dynenvs m) (do_parse_key_args a n info k j pc sp m)"
  by (auto simp: do_parse_key_args_def Let_def intro!: or_undef_leaves dest: parse_keys_dynenvs)


lemmas effects_keep_dynenvs = effects_leave fdesignator_leaves parse_key_args_leaves

lemma exit_leaves: "step_leaves (dynenvs m) (exit_to a rel pc sp m)"
  using disciplinedD[OF sjlj_unwind_disciplined, of "m\<lparr>vm_pc := (a_mod a, pc + rel)\<rparr>" "dynenvs m"]
  by (auto simp: exit_to_def Let_def split: val.splits option.splits obj.splits)

lemma plain_cases_leave:
  "step_leaves (dynenvs m) (case_make_cell pc sp m)" "step_leaves (dynenvs m) (case_cell_ref pc sp m)"
  "step_leaves (dynenvs m) (case_cell_set pc sp m)" "step_leaves (dynenvs m) (case_return m)"
  "step_leaves (dynenvs m) (case_push_values pc sp m)" "step_leaves (dynenvs m) (case_append_values pc sp m)"
  "step_leaves (dynenvs m) (case_pop_values pc sp m)" "step_leaves (dynenvs m) (case_entry_close a pc sp m)"
  "step_leaves (dynenvs m) (case_unbind a pc sp m)" "step_leaves (dynenvs m) (case_push_nil pc sp m)"
  "step_leaves (dynenvs m) (case_push pc sp m)" "step_leaves (dynenvs m) (case_pop pc sp m)"
  "step_leaves (dynenvs m) (case_dup pc sp m)"
  by (auto simp: case_make_cell_def case_cell_ref_def case_cell_set_def case_return_def case_push_values_def
      case_append_values_def case_pop_values_def case_entry_close_def case_unbind_def case_push_nil_def
      case_push_def case_pop_def case_dup_def pop_def push_def push_list_eq new_cons_def rplaca_def Let_def
      intro!: or_undef_leaves split: val.splits if_splits)

lemma operand_cases_leave:
  "step_leaves (dynenvs m) (case_ref a pc sp m)" "step_leaves (dynenvs m) (case_const a pc sp m)"
  "step_leaves (dynenvs m) (case_closure a pc sp m)" "step_leaves (dynenvs m) (case_bind a pc sp m)"
  "step_leaves (dynenvs m) (case_set a pc sp m)" "step_leaves (dynenvs m) (case_make_closure a pc sp m)"
  "step_leaves (dynenvs m) (case_make_uninitialized_closure a pc sp m)"
  "step_leaves (dynenvs m) (case_initialize_closure a pc sp m)"
  "step_leaves (dynenvs m) (case_bind_required_args a pc sp m)"
  "step_leaves (dynenvs m) (case_bind_optional_args a pc sp m)"
  "step_leaves (dynenvs m) (case_listify_rest_args a pc sp m)"
  "step_leaves (dynenvs m) (case_vaslistify_rest_args a pc sp m)"
  "step_leaves (dynenvs m) (case_parse_key_args a pc sp m)"
  "step_leaves (dynenvs m) (case_jump_8 a pc sp m)" "step_leaves (dynenvs m) (case_jump_16 a pc sp m)"
  "step_leaves (dynenvs m) (case_jump_24 a pc sp m)" "step_leaves (dynenvs m) (case_jump_if_8 a pc sp m)"
  "step_leaves (dynenvs m) (case_jump_if_16 a pc sp m)" "step_leaves (dynenvs m) (case_jump_if_24 a pc sp m)"
  "step_leaves (dynenvs m) (case_jump_if_supplied_8 a pc sp m)"
  "step_leaves (dynenvs m) (case_jump_if_supplied_16 a pc sp m)"
  "step_leaves (dynenvs m) (case_check_arg_count_LE a pc sp m)"
  "step_leaves (dynenvs m) (case_check_arg_count_GE a pc sp m)"
  "step_leaves (dynenvs m) (case_check_arg_count_EQ a pc sp m)"
  "step_leaves (dynenvs m) (case_save_sp a pc sp m)" "step_leaves (dynenvs m) (case_restore_sp a pc sp m)"
  "step_leaves (dynenvs m) (case_exit_8 a pc sp m)" "step_leaves (dynenvs m) (case_exit_16 a pc sp m)"
  "step_leaves (dynenvs m) (case_exit_24 a pc sp m)" "step_leaves (dynenvs m) (case_symbol_value a pc sp m)"
  "step_leaves (dynenvs m) (case_symbol_value_set a pc sp m)"
  "step_leaves (dynenvs m) (case_fdefinition a pc sp m)" "step_leaves (dynenvs m) (case_fdesignator a pc sp m)"
  "step_leaves (dynenvs m) (case_called_fdefinition a pc sp m)" "step_leaves (dynenvs m) (case_encell a pc sp m)"
  unfolding case_ref_def case_const_def case_closure_def case_bind_def case_set_def case_make_closure_def
    case_make_uninitialized_closure_def case_initialize_closure_def case_bind_required_args_def
    case_bind_optional_args_def case_listify_rest_args_def case_vaslistify_rest_args_def
    case_parse_key_args_def case_jump_8_def case_jump_16_def case_jump_24_def case_jump_if_8_def
    case_jump_if_16_def case_jump_if_24_def case_jump_if_supplied_8_def case_jump_if_supplied_16_def
    case_check_arg_count_LE_def case_check_arg_count_GE_def case_check_arg_count_EQ_def case_save_sp_def
    case_restore_sp_def case_exit_8_def case_exit_16_def case_exit_24_def case_symbol_value_def
    case_symbol_value_set_def case_fdefinition_def case_fdesignator_def case_called_fdefinition_def
    case_encell_def
  by (intro operands_leaves, simp add: effects_keep_dynenvs exit_leaves jump_if_def pop_def Let_def
      alloca_vaslist2_def alloca_vaslist1_def)+

lemma long_LE_leaves: "step_leaves (dynenvs m) (long_check_arg_count_LE a pc sp m)"
  unfolding long_check_arg_count_LE_def by (intro operands_leaves effects_keep_dynenvs)

lemma long_parse_leaves: "step_leaves (dynenvs m) (long_parse_key_args a pc sp m)"
proof -
  have "step_leaves (dynenvs m) (case do_parse_key_args a n info k j p q m of
      Next pc' sp' m' \<Rightarrow> long_check_arg_count_LE a pc' sp' m' | Stop r \<Rightarrow> Stop r)" for n info k j p q
    using parse_key_args_leaves[of m a n info k j p q] long_LE_leaves by (auto split: step.splits) metis
  then show ?thesis unfolding long_parse_key_args_def Let_def by (intro operands_leaves)
qed

lemma long_cases_leave:
  "step_leaves (dynenvs m) (long_ref a pc sp m)" "step_leaves (dynenvs m) (long_const a pc sp m)"
  "step_leaves (dynenvs m) (long_closure a pc sp m)" "step_leaves (dynenvs m) (long_bind a pc sp m)"
  "step_leaves (dynenvs m) (long_set a pc sp m)" "step_leaves (dynenvs m) (long_fdefinition a pc sp m)"
  "step_leaves (dynenvs m) (long_make_closure a pc sp m)"
  "step_leaves (dynenvs m) (long_make_uninitialized_closure a pc sp m)"
  "step_leaves (dynenvs m) (long_initialize_closure a pc sp m)"
  "step_leaves (dynenvs m) (long_bind_required_args a pc sp m)"
  "step_leaves (dynenvs m) (long_bind_optional_args a pc sp m)"
  "step_leaves (dynenvs m) (long_listify_rest_args a pc sp m)"
  "step_leaves (dynenvs m) (long_check_arg_count_GE a pc sp m)"
  "step_leaves (dynenvs m) (long_check_arg_count_EQ a pc sp m)"
  "step_leaves (dynenvs m) (long_save_sp a pc sp m)" "step_leaves (dynenvs m) (long_restore_sp a pc sp m)"
  "step_leaves (dynenvs m) (long_symbol_value a pc sp m)"
  "step_leaves (dynenvs m) (long_symbol_value_set a pc sp m)"
  "step_leaves (dynenvs m) (long_fdesignator a pc sp m)"
  "step_leaves (dynenvs m) (long_called_fdefinition a pc sp m)" "step_leaves (dynenvs m) (long_encell a pc sp m)"
  unfolding long_ref_def long_const_def long_closure_def long_bind_def long_set_def long_fdefinition_def
    long_make_closure_def long_make_uninitialized_closure_def long_initialize_closure_def
    long_bind_required_args_def long_bind_optional_args_def long_listify_rest_args_def
    long_check_arg_count_GE_def long_check_arg_count_EQ_def long_save_sp_def long_restore_sp_def
    long_symbol_value_def long_symbol_value_set_def long_fdesignator_def long_called_fdefinition_def
    long_encell_def
  by (intro operands_leaves, simp add: effects_keep_dynenvs)+

text \<open>Instructions that run other code.\<close>

lemma do_call_leaves:
  assumes "caller_disciplined c" "\<And>v n m2. dynenvs m2 = dynenvs m \<Longrightarrow> step_leaves (dynenvs m) (k v n m2)"
  shows "step_leaves (dynenvs m) (do_call c a nargs pc sp m k)"
proof (cases "stack m (stackref sp (int nargs))")
  case (VObj f)
  let ?m = "poke (sp + 1) (VPc (a_mod a) pc) m\<lparr>vm_pc := (a_mod a, pc), vm_sp := sp + 1\<rparr>"
  have "leaves (dynenvs m) (c f nargs (OnStack (stackref sp (int nargs - 1))) ?m)"
    using assms(1) by (intro disciplinedD) (simp_all add: caller_disciplined_def)
  then show ?thesis
    using VObj assms(2) by (cases "c f nargs (OnStack (stackref sp (int nargs - 1))) ?m")
      (simp_all add: do_call_def Let_def push_def)
qed (simp_all add: do_call_def)

lemma with_count_leaves:
  "(\<And>n p. step_leaves ds (k n p)) \<Longrightarrow> step_leaves ds (with_count sp m k)"
  by (auto simp: with_count_def pop_def intro: or_undef_leaves)

lemma calls_leave:
  assumes "caller_disciplined c"
  shows "step_leaves (dynenvs m) (case_call c a pc sp m)"
    "step_leaves (dynenvs m) (case_call_receive_one c a pc sp m)"
    "step_leaves (dynenvs m) (case_call_receive_fixed c a pc sp m)"
    "step_leaves (dynenvs m) (case_mv_call c a pc sp m)"
    "step_leaves (dynenvs m) (case_mv_call_receive_one c a pc sp m)"
    "step_leaves (dynenvs m) (case_mv_call_receive_fixed c a pc sp m)"
    "step_leaves (dynenvs m) (long_call c a pc sp m)"
    "step_leaves (dynenvs m) (long_call_receive_one c a pc sp m)"
    "step_leaves (dynenvs m) (long_call_receive_fixed c a pc sp m)"
    "step_leaves (dynenvs m) (long_mv_call_receive_fixed c a pc sp m)"
  unfolding case_call_def case_call_receive_one_def case_call_receive_fixed_def case_mv_call_def
    case_mv_call_receive_one_def case_mv_call_receive_fixed_def long_call_def long_call_receive_one_def
    long_call_receive_fixed_def long_mv_call_receive_fixed_def call_multiple_def call_one_def call_fixed_def
  by (intro operands_leaves with_count_leaves do_call_leaves assms, simp add: Let_def push_list_eq push_def)+

lemma nested_disciplined: "runner_disciplined r \<Longrightarrow> disciplined (nested r a sp)"
  unfolding disciplined_def nested_def new_frame_def prod.case
  by (auto simp: runner_disciplined_def intro!: disciplinedD)

lemma reload_leaves: "dynenvs m = ds \<Longrightarrow> step_leaves ds (reload a m)"
  by (simp add: reload_def)

lemma returned_leaves:
  "leaves ds r \<Longrightarrow> step_leaves ds (case r of Returned _ _ m' \<Rightarrow> reload a m' | q \<Rightarrow> Stop q)"
  by (cases r) (simp_all add: reload_leaves)

lemma special_bind_leaves:
  assumes "runner_disciplined r"
  shows "step_leaves (dynenvs m) (do_special_bind r a n pc sp m)"
proof -
  have "leaves (dynenvs m) (call_with_cell_bound c v (nested r a p) (m\<lparr>vm_pc := (a_mod a, pc)\<rparr>))" for c v p
    by (rule disciplinedD[OF bound_contour.wrap_disciplined[OF nested_disciplined[OF assms]]]) simp
  then show ?thesis
    by (auto simp: do_special_bind_def pop_def intro!: or_undef_leaves returned_leaves)
qed

lemma entry_loop_leaves:
  assumes "runner_disciplined r"
  shows "dynenvs m = DTagbody e # ds \<Longrightarrow>
    leaves (DTagbody e # ds) (entry_loop k r a e (DTagbody e # ds) sp m) \<and>
    (\<forall>i m'. entry_loop k r a e (DTagbody e # ds) sp m \<noteq> LongJumped (DTagbody e) i m')"
proof (induction k arbitrary: m)
  case 0
  then show ?case by simp
next
  case (Suc k)
  have l: "leaves (DTagbody e # ds) (nested r a sp m)"
    by (rule disciplinedD[OF nested_disciplined[OF assms] Suc.prems])
  show ?case
  proof (cases "nested r a sp m")
    case (LongJumped d i m')
    with l Suc.IH[of m'] show ?thesis
      by (cases "d = DTagbody e") (simp_all add: leaves_def unwound_dynenv_p_def)
  next
    case (Thrown fr i m')
    with l Suc.IH[of "m'\<lparr>dynenvs := DTagbody e # ds\<rparr>"] show ?thesis
      by (cases "fr = a_frame a") simp_all
  qed (use l in simp_all)
qed

lemma on_exit_pop_leaves:
  assumes "leaves (x # ds) r" "\<forall>i m'. r \<noteq> LongJumped x i m'"
  shows "leaves ds (on_exit (\<lambda>m'. m'\<lparr>dynenvs := ds\<rparr>) r)"
  using assms leaves_ConsD[of x ds] by (cases r) (auto simp: on_exit_def)

lemma do_entry_leaves:
  assumes "runner_disciplined r"
  shows "step_leaves (dynenvs m) (do_entry k r a n pc sp m)"
proof -
  have "leaves (dynenvs m) (on_exit (\<lambda>m'. m'\<lparr>dynenvs := dynenvs m\<rparr>)
      (entry_loop k r a e (DTagbody e # dynenvs m) sp (x\<lparr>dynenvs := DTagbody e # dynenvs m\<rparr>)))" for e x
    using entry_loop_leaves[OF assms, of "x\<lparr>dynenvs := DTagbody e # dynenvs m\<rparr>" e "dynenvs m" k a sp]
    by (intro on_exit_pop_leaves[where x = "DTagbody e"]) simp_all
  then show ?thesis
    by (simp add: do_entry_def new_obj_def Let_def returned_leaves)
qed

lemma runs_leave:
  assumes "runner_disciplined r"
  shows "step_leaves (dynenvs m) (case_special_bind r a pc sp m)"
    "step_leaves (dynenvs m) (long_special_bind r a pc sp m)"
    "step_leaves (dynenvs m) (case_entry k r a pc sp m)"
    "step_leaves (dynenvs m) (long_entry k r a pc sp m)"
  using do_entry_leaves[OF assms, of "m\<lparr>next_frame := Suc (next_frame m)\<rparr>"]
  unfolding case_special_bind_def long_special_bind_def case_entry_def long_entry_def new_frame_def prod.case
  by (intro operands_leaves special_bind_leaves do_entry_leaves assms; simp)+


lemma long_dispatch_leaves:
  assumes "caller_disciplined c" "runner_disciplined r"
  shows "step_leaves (dynenvs m) (long_dispatch k c r a b pc sp m)"
proof (cases "decode_op b")
  case None
  then show ?thesis by (simp add: long_dispatch_def)
next
  case (Some op)
  then show ?thesis
    by (cases op) (simp_all add: long_dispatch_def calls_leave[OF assms(1)] runs_leave[OF assms(2)]
        long_cases_leave long_LE_leaves long_parse_leaves)
qed

lemma case_long_leaves:
  assumes "caller_disciplined c" "runner_disciplined r"
  shows "step_leaves (dynenvs m) (case_long k c r a pc sp m)"
proof -
  have "step_leaves (dynenvs m) (case long_dispatch k c r a (b ! 0) (pc + 1) sp m of
      Next pc' sp' m' \<Rightarrow> Next pc' sp' (m'\<lparr>vm_sp := sp'\<rparr>) | Stop r \<Rightarrow> Stop r)" for b
    using long_dispatch_leaves[OF assms, of m k a "b ! 0" "pc + 1" sp]
    by (cases "long_dispatch k c r a (b ! 0) (pc + 1) sp m") simp_all
  then show ?thesis unfolding case_long_def by (intro operands_leaves)
qed

lemma vm_step_leaves:
  assumes "caller_disciplined c" "runner_disciplined r"
  shows "step_leaves (dynenvs m) (vm_step k c r a pc sp m)"
proof (cases "decode_op (code_of a m ! nat pc)")
  case None
  then show ?thesis by (simp add: vm_step_def)
next
  case (Some op)
  then show ?thesis
    by (cases op) (simp_all add: vm_step_def calls_leave[OF assms(1)] runs_leave[OF assms(2)]
        case_long_leaves[OF assms] plain_cases_leave operand_cases_leave)
qed

lemma bytecode_call_leaves:
  assumes "runner_disciplined r"
  shows "disciplined (bytecode_call r f n args)"
  unfolding disciplined_def
proof
  fix m :: machine
  show "leaves (dynenvs m) (bytecode_call r f n args m)"
  proof (cases "entry_point m f")
    case None
    then show ?thesis by (simp add: bytecode_call_def)
  next
    case (Some ep)
    have key: "leaves (dynenvs m) (on_exit (\<lambda>m'. m'\<lparr>vm_sp := x, vm_fp := y\<rparr>)
        (case with_dynenv (DVMFrame x y # dynenvs m) (r b p s) q of
           Returned v k m' \<Rightarrow> Returned v k (m'\<lparr>vm_pc := z\<rparr>) | w \<Rightarrow> w))"
      if "dynenvs q = dynenvs m" for x y z b p s q
    proof -
      have d: "disciplined (r b p s)" using assms by (simp add: runner_disciplined_def)
      from with_dynenv_leaves[OF d, where x = "DVMFrame x y" and m = q] that show ?thesis
        by (cases "with_dynenv (DVMFrame x y # dynenvs m) (r b p s) q")
          (auto simp: leaves_on_exit split: if_splits)
    qed
    show ?thesis using Some
      by (auto simp: bytecode_call_def Let_def new_frame_def intro!: key split: option.splits obj.splits)
  qed
qed

lemma interpreter_disciplined:
  assumes "\<And>j. caller_disciplined (native j)"
  shows "runner_disciplined (bytecode_vm k native) \<and> caller_disciplined (apply_raw k native)"
proof (induction k)
  case 0
  then show ?case by (simp add: runner_disciplined_def caller_disciplined_def disciplined_def)
next
  case (Suc k)
  then have r: "runner_disciplined (bytecode_vm k native)" and c: "caller_disciplined (apply_raw k native)"
    by simp_all
  have "leaves (dynenvs m) (bytecode_vm (Suc k) native a pc sp m)" for a pc sp m
    using vm_step_leaves[OF c r, of m k a pc sp] r
    by (auto simp: runner_disciplined_def intro: disciplinedD split: step.splits)
  moreover have "leaves (dynenvs m) (apply_raw (Suc k) native f n args m)" for f n args m
    using disciplinedD[OF bytecode_call_leaves[OF r, of f n args] refl, of m] c assms
    by (auto simp: caller_disciplined_def intro: disciplinedD split: option.splits obj.splits)
  ultimately show ?case by (simp add: runner_disciplined_def caller_disciplined_def disciplined_def)
qed

text \<open>C5: if the native functions keep the discipline of the dynamic environment stack, so does every
  run of the interpreter, over every instruction: it returns with the stack it started with, and a
  nonlocal exit that leaves it goes to an environment on that stack and leaves the part outside.\<close>

theorem bytecode_vm_disciplined:
  assumes "\<And>j f n args. disciplined (native j f n args)"
  shows "leaves (dynenvs m) (bytecode_vm k native a pc sp m) \<and>
    leaves (dynenvs m) (apply_raw k native f n args m)"
proof -
  have "\<And>j. caller_disciplined (native j)" using assms by (simp add: caller_disciplined_def)
  from interpreter_disciplined[OF this, of k] show ?thesis
    by (simp add: runner_disciplined_def caller_disciplined_def disciplined_def)
qed

text \<open>C11: a call of a bytecode function that returns, or that is left by a C++ exception, gives the
  machine back its stack pointer, frame pointer and dynamic environment; on a return the saved program
  counter is the caller's again.\<close>

theorem bytecode_call_restores_registers:
  "(bytecode_call run f n args m = Returned v k m' \<longrightarrow>
      vm_sp m' = vm_sp m \<and> vm_fp m' = vm_fp m \<and> vm_pc m' = vm_pc m \<and> dynenvs m' = dynenvs m) \<and>
   (bytecode_call run f n args m = Thrown fr i m' \<longrightarrow>
      vm_sp m' = vm_sp m \<and> vm_fp m' = vm_fp m \<and> dynenvs m' = dynenvs m)"
  by (auto simp: bytecode_call_def Let_def new_frame_def on_exit_def with_dynenv_def
      split: option.splits obj.splits outcome.splits)

section \<open>A function that returns a constant\<close>

definition idle :: "nat \<Rightarrow> caller" where
  "idle j f n args m = Returned VNil 0 m"

definition const_machine :: machine where
  "const_machine = empty_machine\<lparr>
     bmodules := [\<lparr>b_code = [vm_code Vm_const, 0, vm_code Vm_pop, vm_code Vm_return], b_literals = [VFix 42]\<rparr>],
     objs := [SimpleFun 0 0 2 0, TagbodyEnv 0], dynenvs := [DTagbody 1]\<rparr>"

definition const_act :: act where
  "const_act = \<lparr>a_mod = 0, a_closure = 0, a_fp = 10, a_nargs = 0, a_args = OnStack 0, a_frame = 0\<rparr>"

definition values_returned :: "outcome \<Rightarrow> (val \<times> nat) option" where
  "values_returned r = (case r of Returned v n _ \<Rightarrow> Some (v, n) | _ \<Rightarrow> None)"

lemma values_returnedD: "values_returned r = Some (v, n) \<Longrightarrow> \<exists>m'. r = Returned v n m'"
  by (auto simp: values_returned_def split: outcome.splits)

lemma const_run: "values_returned (bytecode_vm 3 idle const_act 0 10 const_machine) = Some (VFix 42, 1)"
  by code_simp

lemma const_call:
  "values_returned (bytecode_call (bytecode_vm 3 idle) 0 0 (OnStack 0) const_machine) = Some (VFix 42, 1)"
  by code_simp

lemma idle_disciplined: "disciplined (idle j f n args)"
  by (simp add: idle_def disciplined_def leaves_def)


lemma bytecode_vm_disciplined_witness:
  "\<exists>m'. bytecode_vm 3 idle const_act 0 10 const_machine = Returned (VFix 42) 1 m' \<and> dynenvs m' = [DTagbody 1]"
proof -
  obtain m' where m': "bytecode_vm 3 idle const_act 0 10 const_machine = Returned (VFix 42) 1 m'"
    using values_returnedD[OF const_run] by blast
  from bytecode_vm_disciplined[where native = idle and m = const_machine and k = 3 and a = const_act
      and pc = 0 and sp = 10, OF idle_disciplined] m'
  show ?thesis by (simp add: leaves_def const_machine_def)
qed

lemma bytecode_call_restores_registers_witness:
  "\<exists>m'. bytecode_call (bytecode_vm 3 idle) 0 0 (OnStack 0) const_machine = Returned (VFix 42) 1 m' \<and>
     vm_sp m' = 0 \<and> vm_fp m' = 0 \<and> vm_pc m' = (0, 0) \<and> dynenvs m' = [DTagbody 1]"
proof -
  obtain m' where "bytecode_call (bytecode_vm 3 idle) 0 0 (OnStack 0) const_machine = Returned (VFix 42) 1 m'"
    using values_returnedD[OF const_call] by blast
  with bytecode_call_restores_registers[of "bytecode_vm 3 idle" 0 0 "OnStack 0" const_machine "VFix 42" 1 m']
  show ?thesis by (simp add: const_machine_def empty_machine_def)
qed

end
