(* ===== verification/VmArgs.thy ===== *)
theory VmArgs
  imports VmFacts
begin

text \<open>
  The instructions that bring arguments into registers: required and optional
  arguments, keyword arguments, and the abbreviation \<open>encell\<close>.
\<close>

section \<open>Arguments apart from the frame\<close>

text \<open>
  The arguments lie below the frame of the callee, as they do in a call from bytecode,
  or in an array that has them all.
\<close>

definition args_apart :: "act \<Rightarrow> bool" where
  "args_apart a \<longleftrightarrow>
     (case a_args a of
        OnStack p \<Rightarrow> p + int (a_nargs a) \<le> a_fp a + 1
      | InArray vs i \<Rightarrow> i + a_nargs a \<le> length vs)"

definition arg :: "act \<Rightarrow> machine \<Rightarrow> nat \<Rightarrow> val" where
  "arg a m i = the (arg_at m (a_args a) i)"

lemma arg_at_apart: "args_apart a \<Longrightarrow> i < a_nargs a \<Longrightarrow> arg_at m (a_args a) i = Some (arg a m i)"
  by (cases "a_args a") (auto simp: args_apart_def arg_def)

lemma arg_same:
  "args_apart a \<Longrightarrow> i < a_nargs a \<Longrightarrow> (\<And>q. q \<le> a_fp a \<Longrightarrow> stack m' q = stack m q) \<Longrightarrow> arg a m' i = arg a m i"
  by (cases "a_args a") (auto simp: args_apart_def arg_def)

lemma args_plus_at: "arg_at m (args_plus p k) i = arg_at m p (k + i)"
  by (cases p) (simp_all add: add.assoc)

lemma args_range_apart:
  assumes "args_apart a" "k + n \<le> a_nargs a"
  shows "args_range m (args_plus (a_args a) k) n = Some (map (\<lambda>i. arg a m (k + i)) [0..<n])"
proof -
  have "map (arg_at m (args_plus (a_args a) k)) [0..<n] = map (\<lambda>i. Some (arg a m (k + i))) [0..<n]"
    using assms arg_at_apart[OF assms(1)] by (intro map_cong) (auto simp: args_plus_at)
  then show ?thesis unfolding args_range_def by (simp only: all_some_map_Some)
qed

lemma copytoreg_apart:
  assumes "args_apart a" "k + n \<le> a_nargs a"
  shows "copytoreg fp (args_plus (a_args a) k) n b m =
    Some (poke_list (fp + int b + 1) (map (\<lambda>i. arg a m (k + i)) [0..<n]) m)"
  by (simp add: copytoreg_def args_range_apart[OF assms])

text \<open>Binding optional arguments puts every supplied one into its register and the unbound
  marker into the registers of the others, touches no other word of the stack, and never fails when
  the required arguments are there.\<close>

theorem optional_args_bound:
  assumes "args_apart a" "nreq \<le> a_nargs a"
  shows "\<exists>m'. do_bind_optional_args a nreq nopt pc sp m = Next pc sp m' \<and>
    (\<forall>i < nopt. stack m' (reg (a_fp a) (nreq + i)) =
       (if nreq + i < a_nargs a then arg a m (nreq + i) else VUnbound)) \<and>
    (\<forall>q. q < reg (a_fp a) nreq \<or> reg (a_fp a) (nreq + nopt) \<le> q \<longrightarrow> stack m' q = stack m q)"
proof (cases "nreq + nopt \<le> a_nargs a")
  case True
  then show ?thesis
    by (auto simp: do_bind_optional_args_def copytoreg_apart[OF assms(1)] stack_poke_list reg_def)
next
  case False
  then show ?thesis using assms(2)
    by (auto simp: do_bind_optional_args_def copytoreg_apart[OF assms(1)] stack_poke_list reg_def fillreg_def)
qed

section \<open>Keyword arguments\<close>

definition key_pairs :: "act \<Rightarrow> machine \<Rightarrow> nat \<Rightarrow> nat \<Rightarrow> (val \<times> val) list" where
  "key_pairs a m more_start k = map (\<lambda>j. (arg a m (more_start + 2 * j), arg a m (more_start + 2 * j + 1))) [0..<k]"

text \<open>The value that a keyword gets: that of its first occurrence.\<close>

definition first_value :: "val \<Rightarrow> (val \<times> val) list \<Rightarrow> val option" where
  "first_value key ps = map_of ps key"

definition known_key :: "val list \<Rightarrow> val \<Rightarrow> bool" where
  "known_key ckeys key \<longleftrightarrow> key = VSym sym_allow_other_keys \<or> key \<in> set ckeys"

definition literal_keys :: "act \<Rightarrow> machine \<Rightarrow> nat \<Rightarrow> val list \<Rightarrow> bool" where
  "literal_keys a m literal_start ckeys \<longleftrightarrow>
     (\<forall>i < length ckeys. literal_at a m (i + literal_start) = Some (ckeys ! i))"

lemma find_key_eq:
  assumes "literal_keys a m s ckeys" "i \<le> length ckeys"
  shows "find_key a m key s (length ckeys - i) i =
    Some (if key \<in> set (drop i ckeys)
          then Some (i + length (takeWhile (\<lambda>c. c \<noteq> key) (drop i ckeys))) else None)"
  using assms(2)
proof (induction "length ckeys - i" arbitrary: i)
  case 0
  then show ?case by simp
next
  case (Suc k)
  then have i: "i < length ckeys" and k: "k = length ckeys - Suc i" by simp_all
  have d: "drop i ckeys = ckeys ! i # drop (Suc i) ckeys" using i by (simp add: Cons_nth_drop_Suc)
  have l: "literal_at a m (i + s) = Some (ckeys ! i)" using assms(1) i by (simp add: literal_keys_def)
  have "find_key a m key s (Suc k) i =
      (if key = ckeys ! i then Some (Some i) else find_key a m key s k (Suc i))"
    by (simp add: l)
  moreover have "length ckeys - i = Suc k" using Suc(2) by simp
  ultimately show ?case using Suc(1)[OF k] i by (auto simp: d k)
qed

lemma find_key_position:
  assumes "literal_keys a m s ckeys" "distinct ckeys"
  shows "find_key a m key s (length ckeys) 0 = Some r \<Longrightarrow>
    (case r of None \<Rightarrow> key \<notin> set ckeys | Some i \<Rightarrow> i < length ckeys \<and> ckeys ! i = key)"
proof -
  assume "find_key a m key s (length ckeys) 0 = Some r"
  then have r: "r = (if key \<in> set ckeys then Some (length (takeWhile (\<lambda>c. c \<noteq> key) ckeys)) else None)"
    using find_key_eq[OF assms(1), of 0 key] by simp
  show ?thesis
  proof (cases "key \<in> set ckeys")
    case True
    then have "length (takeWhile (\<lambda>c. c \<noteq> key) ckeys) < length ckeys"
      by (induction ckeys) auto
    moreover from nth_length_takeWhile[OF this] have "ckeys ! length (takeWhile (\<lambda>c. c \<noteq> key) ckeys) = key"
      by simp
    ultimately show ?thesis using r True by simp
  qed (simp add: r)
qed

lemma find_key_total:
  "literal_keys a m s ckeys \<Longrightarrow> \<exists>r. find_key a m key s (length ckeys) 0 = Some r"
  using find_key_eq[of a m s ckeys 0 key] by simp

text \<open>
  What the loop over the last \<open>k\<close> pairs achieves: the invariant relates the registers, the
  list of unknown keywords and the \<open>:allow-other-keys\<close> flag to the pairs.
\<close>

lemma parse_keys_correct:
  assumes apart: "args_apart a" and ck: "distinct ckeys" "fst info = length ckeys"
  shows "more_start + 2 * k \<le> a_nargs a \<Longrightarrow> literal_keys a m s ckeys \<Longrightarrow>
    \<exists>m' u' aok'. parse_keys a info more_start s fs k (m, u, aok) = Some (m', u', aok') \<and>
      (\<forall>i < length ckeys. stack m' (reg (a_fp a) (fs + i)) =
         (case first_value (ckeys ! i) (key_pairs a m more_start k) of
            None \<Rightarrow> stack m (reg (a_fp a) (fs + i)) | Some v \<Rightarrow> v)) \<and>
      (\<forall>q. q < reg (a_fp a) fs \<or> reg (a_fp a) (fs + length ckeys) \<le> q \<longrightarrow> stack m' q = stack m q) \<and>
      (u' \<noteq> VNil \<longleftrightarrow> u \<noteq> VNil \<or> \<not> snd info \<and>
         (\<exists>p \<in> set (key_pairs a m more_start k). \<not> known_key ckeys (fst p))) \<and>
      (aok' \<longleftrightarrow> (case first_value (VSym sym_allow_other_keys) (key_pairs a m more_start k) of
                  None \<Rightarrow> aok | Some v \<Rightarrow> v \<noteq> VNil))"
proof (induction k arbitrary: m u aok)
  case 0
  then show ?case by (simp add: key_pairs_def first_value_def)
next
  case (Suc k)
  let ?key = "arg a m (more_start + 2 * k)" and ?v = "arg a m (more_start + 2 * k + 1)"
  obtain found where found: "find_key a m ?key s (length ckeys) 0 = Some found"
    using find_key_total[OF Suc.prems(2)] by blast
  note fp = find_key_position[OF Suc.prems(2) ck(1) found]
  let ?m1 = "case found of None \<Rightarrow> m | Some i \<Rightarrow> poke (reg (a_fp a) (fs + i)) ?v m"
  let ?bad = "\<not> known_key ckeys ?key \<and> \<not> snd info"
  define aok2 where "aok2 = (if ?key = VSym sym_allow_other_keys then ?v \<noteq> VNil else aok)"
  define m2 where "m2 = (if ?bad then snd (new_cons ?key u ?m1) else ?m1)"
  define u2 where "u2 = (if ?bad then fst (new_cons ?key u ?m1) else u)"
  have bad: "\<not> (?key = VSym sym_allow_other_keys \<or> found \<noteq> None) \<longleftrightarrow> \<not> known_key ckeys ?key"
    using fp nth_mem by (fastforce simp: known_key_def split: option.splits)
  have at: "arg_at m (a_args a) (more_start + 2 * k) = Some ?key"
    "arg_at m (a_args a) (more_start + 2 * k + 1) = Some ?v"
    using arg_at_apart[OF apart] Suc.prems(1) by simp_all
  have step: "parse_keys a info more_start s fs (Suc k) (m, u, aok) =
      parse_keys a info more_start s fs k (m2, u2, aok2)"
    using bad by (auto simp: at[simplified] found ck(2) Let_def new_cons_def m2_def u2_def aok2_def split: option.splits)
  have st2: "stack m2 q = (case found of None \<Rightarrow> stack m q
      | Some i \<Rightarrow> if q = reg (a_fp a) (fs + i) then ?v else stack m q)" for q
    by (simp add: m2_def new_cons_def split: option.splits)
  have lk: "literal_keys a m2 s ckeys"
  proof -
    have "bmodules m2 = bmodules m" by (simp add: m2_def new_cons_def split: option.splits)
    then show ?thesis using Suc.prems(2) by (simp only: literal_keys_def literal_at_def)
  qed
  have args: "arg a m2 i = arg a m i" if "i < a_nargs a" for i
    using that by (intro arg_same[OF apart]) (auto simp: st2 reg_def split: option.splits)
  have pairs: "key_pairs a m2 more_start k = key_pairs a m more_start k"
    using Suc.prems(1) by (auto simp: key_pairs_def args)
  have snoc: "key_pairs a m more_start (Suc k) = key_pairs a m more_start k @ [(?key, ?v)]"
    by (simp add: key_pairs_def)
  have le: "more_start + 2 * k \<le> a_nargs a" using Suc.prems(1) by simp
  from Suc.IH[OF le lk, of u2 aok2, unfolded pairs] obtain m' u' aok' where
    IH: "parse_keys a info more_start s fs k (m2, u2, aok2) = Some (m', u', aok')"
      "\<And>i. i < length ckeys \<Longrightarrow> stack m' (reg (a_fp a) (fs + i)) =
         (case first_value (ckeys ! i) (key_pairs a m more_start k) of
            None \<Rightarrow> stack m2 (reg (a_fp a) (fs + i)) | Some v \<Rightarrow> v)"
      "\<And>q. q < reg (a_fp a) fs \<or> reg (a_fp a) (fs + length ckeys) \<le> q \<Longrightarrow> stack m' q = stack m2 q"
      "u' \<noteq> VNil \<longleftrightarrow> u2 \<noteq> VNil \<or> \<not> snd info \<and>
         (\<exists>p \<in> set (key_pairs a m more_start k). \<not> known_key ckeys (fst p))"
      "aok' \<longleftrightarrow> (case first_value (VSym sym_allow_other_keys) (key_pairs a m more_start k) of
                  None \<Rightarrow> aok2 | Some v \<Rightarrow> v \<noteq> VNil)"
    by blast
  have regs: "stack m2 (reg (a_fp a) (fs + i)) = (if ?key = ckeys ! i then ?v else stack m (reg (a_fp a) (fs + i)))"
    if "i < length ckeys" for i
    using fp that ck(1) by (auto simp: st2 reg_def nth_eq_iff_index_eq split: option.splits)
  have "stack m' (reg (a_fp a) (fs + i)) =
      (case first_value (ckeys ! i) (key_pairs a m more_start (Suc k)) of
         None \<Rightarrow> stack m (reg (a_fp a) (fs + i)) | Some v \<Rightarrow> v)" if "i < length ckeys" for i
    using IH(2)[OF that] regs[OF that] by (auto simp: snoc first_value_def map_add_def split: option.splits)
  moreover have "stack m' q = stack m q"
    if "q < reg (a_fp a) fs \<or> reg (a_fp a) (fs + length ckeys) \<le> q" for q
    using IH(3)[OF that] that fp by (auto simp: st2 reg_def split: option.splits)
  moreover have "u' \<noteq> VNil \<longleftrightarrow> u \<noteq> VNil \<or> \<not> snd info \<and>
      (\<exists>p \<in> set (key_pairs a m more_start (Suc k)). \<not> known_key ckeys (fst p))"
    unfolding IH(4) by (auto simp: snoc new_cons_def u2_def)
  moreover have "aok' \<longleftrightarrow> (case first_value (VSym sym_allow_other_keys) (key_pairs a m more_start (Suc k)) of
      None \<Rightarrow> aok | Some v \<Rightarrow> v \<noteq> VNil)"
    unfolding IH(5) by (auto simp: snoc aok2_def first_value_def map_add_def split: option.splits)
  ultimately show ?case using step IH(1) by auto
qed


lemma fillreg_facts:
  "q \<le> a_fp a \<Longrightarrow> stack (fillreg (a_fp a) v n b m) q = stack m q"
  "stack (fillreg (a_fp a) v n b m) (reg (a_fp a) (b + i)) =
     (if i < n then v else stack m (reg (a_fp a) (b + i)))"
  "q < reg (a_fp a) b \<or> reg (a_fp a) (b + n) \<le> q \<Longrightarrow> stack (fillreg (a_fp a) v n b m) q = stack m q"
  "literal_at a (fillreg (a_fp a) v n b m) k = literal_at a m k"
  by (auto simp: fillreg_def stack_poke_list reg_def literal_at_def)

text \<open>C0: keyword arguments.  An odd number of them is an error.  Otherwise a keyword that the function
  does not know is an error, unless the function or the first \<open>:allow-other-keys\<close> of the call allows
  others; and else every keyword's register holds the value of the first occurrence of the keyword in
  the call, or the unbound marker, and no other word of the stack has changed.\<close>

theorem keyword_args_bound:
  assumes apart: "args_apart a" and lit: "literal_keys a m literal_start ckeys" "distinct ckeys"
    and ps: "ps = key_pairs a m more_start ((a_nargs a - more_start) div 2)"
  shows "\<exists>s. do_parse_key_args a more_start (length ckeys, ll_aokp) literal_start frame_start pc sp m = s \<and>
    (if odd (a_nargs a - more_start) then \<exists>m'. s = Stop (Signalled OddKeywords m')
     else if (\<exists>p \<in> set ps. \<not> known_key ckeys (fst p)) \<and> \<not> ll_aokp \<and>
             first_value (VSym sym_allow_other_keys) ps \<in> {None, Some VNil}
     then \<exists>u m'. s = Stop (Signalled (UnrecognizedKeywords u) m')
     else \<exists>m'. s = Next pc sp m' \<and>
       (\<forall>i < length ckeys. stack m' (reg (a_fp a) (frame_start + i)) =
          (case first_value (ckeys ! i) ps of None \<Rightarrow> VUnbound | Some v \<Rightarrow> v)) \<and>
       (\<forall>q. q < reg (a_fp a) frame_start \<or> reg (a_fp a) (frame_start + length ckeys) \<le> q \<longrightarrow>
          stack m' q = stack m q))"
proof -
  define m1 where "m1 = fillreg (a_fp a) VUnbound (length ckeys) frame_start m"
  let ?k = "(a_nargs a - more_start) div 2"
  have args: "arg a m1 i = arg a m i" if "i < a_nargs a" for i
    using that by (intro arg_same[OF apart]) (simp_all add: m1_def fillreg_facts)
  have pairs: "key_pairs a m1 more_start ?k = ps"
    by (auto simp: ps key_pairs_def args)
  have lk: "literal_keys a m1 literal_start ckeys"
    using lit(1) by (simp add: literal_keys_def m1_def fillreg_facts)
  show ?thesis
  proof (cases "more_start < a_nargs a")
    case False
    then have "ps = []" by (simp add: ps key_pairs_def)
    with False show ?thesis
      by (auto simp: do_parse_key_args_def Let_def first_value_def fillreg_facts)
  next
    case True
    show ?thesis
    proof (cases "odd (a_nargs a - more_start)")
      case odd: True
      then have "(a_nargs a - more_start) mod 2 = 1" by (simp only: odd_iff_mod_2_eq_one)
      with True have "do_parse_key_args a more_start (length ckeys, ll_aokp) literal_start frame_start pc sp m =
          Stop (Signalled OddKeywords m1)"
        by (simp add: do_parse_key_args_def Let_def m1_def)
      with odd show ?thesis by auto
    next
      case even: False
      have le: "more_start + 2 * ?k \<le> a_nargs a" using True by simp
      note PK = parse_keys_correct[OF apart lit(2) _ le lk, where info = "(length ckeys, ll_aokp)"
          and fs = frame_start and u = VNil and aok = False, unfolded pairs fst_conv snd_conv, OF refl]
      obtain m' u' aok' where
        P: "parse_keys a (length ckeys, ll_aokp) more_start literal_start frame_start ?k (m1, VNil, False) =
              Some (m', u', aok')"
          "\<And>i. i < length ckeys \<Longrightarrow> stack m' (reg (a_fp a) (frame_start + i)) =
             (case first_value (ckeys ! i) ps of
                None \<Rightarrow> stack m1 (reg (a_fp a) (frame_start + i)) | Some v \<Rightarrow> v)"
          "\<And>q. q < reg (a_fp a) frame_start \<or> reg (a_fp a) (frame_start + length ckeys) \<le> q \<Longrightarrow>
             stack m' q = stack m1 q"
          "u' \<noteq> VNil \<longleftrightarrow> \<not> ll_aokp \<and> (\<exists>p \<in> set ps. \<not> known_key ckeys (fst p))"
          "aok' \<longleftrightarrow> (case first_value (VSym sym_allow_other_keys) ps of None \<Rightarrow> False | Some v \<Rightarrow> v \<noteq> VNil)"
        using PK by blast
      have D: "do_parse_key_args a more_start (length ckeys, ll_aokp) literal_start frame_start pc sp m =
          (if u' \<noteq> VNil \<and> \<not> aok' then Stop (Signalled (UnrecognizedKeywords u') m') else Next pc sp m')"
        using True even P(1) by (simp add: do_parse_key_args_def Let_def m1_def[symmetric] even_iff_mod_2_eq_zero)
      have regs: "stack m' (reg (a_fp a) (frame_start + i)) =
          (case first_value (ckeys ! i) ps of None \<Rightarrow> VUnbound | Some v \<Rightarrow> v)" if "i < length ckeys" for i
        using P(2)[OF that] that by (simp add: m1_def fillreg_facts split: option.splits)
      have rest: "stack m' q = stack m q"
        if "q < reg (a_fp a) frame_start \<or> reg (a_fp a) (frame_start + length ckeys) \<le> q" for q
        using P(3)[OF that] that by (simp add: m1_def fillreg_facts)
      show ?thesis unfolding D using even P(4,5) regs rest
        by (auto split: option.splits)
    qed
  qed
qed

section \<open>Instructions that abbreviate others\<close>

text \<open>\<open>encell n\<close> does what \<open>ref n; make-cell; set n\<close> does, as its comment says: after both the
  local stack pointer is the same and the machines differ at most in the word above the stack.\<close>

theorem encell_abbreviates:
  assumes "reg (a_fp a) n \<le> sp"
  shows "\<exists>m1 m2 m3 m'. do_ref a n pc1 sp m = Next pc1 (sp + 1) m1 \<and>
    case_make_cell pc1 (sp + 1) m1 = Next (pc1 + 1) (sp + 1) m2 \<and>
    do_set a n pc3 (sp + 1) m2 = Next pc3 sp m3 \<and>
    do_encell a n pc sp m = Next pc sp m' \<and>
    m3\<lparr>stack := (stack m3)(sp + 1 := stack m' (sp + 1))\<rparr> = m'"
  using assms
  by (auto simp: do_ref_def case_make_cell_def do_set_def do_encell_def push_next_def push_def pop_def
      new_cons_def setreg_def poke_def reg_def fun_eq_iff)

text \<open>Pushing the multiple values and popping them back leaves the values, their number and the
  stack pointer as they were, for any number of values below the limit.\<close>

theorem push_pop_values_roundtrip:
  assumes "mv_size m \<le> multiple_values_limit"
  shows "\<exists>m1 sp1 m2. case_push_values pc sp m = Next (pc + 1) sp1 m1 \<and>
    case_pop_values (pc + 1) sp1 m1 = Next (pc + 2) sp m2 \<and>
    mv_size m2 = mv_size m \<and> (\<forall>i. mv_values m2 i = mv_values m i) \<and>
    sp1 = sp + int (mv_size m) + 1"
proof -
  let ?n = "mv_size m" and ?vs = "values_list m"
  let ?m1 = "poke (sp + int ?n + 1) (VFix (int ?n)) (poke_list (sp + 1) ?vs m)"
  have len: "length ?vs = ?n" by (simp add: values_list_def)
  have push: "case_push_values pc sp m = Next (pc + 1) (sp + int ?n + 1) ?m1"
    by (simp add: case_push_values_def push_list_eq push_next_def push_def len)
  have copy: "copyto (sp + int ?n) ?n ?m1 ! i = mv_values m i" if "i < ?n" for i
    using that by (simp add: copyto_def stack_poke_list len values_list_def valueGet_def)
  have "case_pop_values (pc + 1) (sp + int ?n + 1) ?m1 = Next (pc + 2) sp
      (?m1\<lparr>mv_values := (\<lambda>i. if i < ?n then copyto (sp + int ?n) ?n ?m1 ! i else mv_values ?m1 i),
          mv_size := ?n\<rparr>)"
    using assms by (simp add: case_pop_values_def pop_def fixnum_count_def drop_n_def)
  note pop = this
  show ?thesis
    by (rule exI[of _ ?m1], rule exI[of _ "sp + int ?n + 1"], rule exI, rule conjI[OF push], rule conjI[OF pop])
      (use copy in auto)
qed

section \<open>Witnesses\<close>

text \<open>An activation called with \<open>:b 1 :a 2 :b 3\<close> and keywords \<open>:a :b\<close> in its literals.\<close>

definition key_act :: act where
  "key_act = \<lparr>a_mod = 0, a_closure = 0, a_fp = 10, a_nargs = 6,
     a_args = InArray [VSym 8, VFix 1, VSym 7, VFix 2, VSym 8, VFix 3] 0, a_frame = 0\<rparr>"

definition key_machine :: machine where
  "key_machine = empty_machine\<lparr>bmodules := [\<lparr>b_code = [], b_literals = [VSym 7, VSym 8]\<rparr>]\<rparr>"

lemma key_act_apart: "args_apart key_act"
  by (simp add: key_act_def args_apart_def)

lemma key_act_fp: "a_fp key_act = 10"
  by (simp add: key_act_def)

lemma key_pairs_sample:
  "key_pairs key_act key_machine 0 3 = [(VSym 8, VFix 1), (VSym 7, VFix 2), (VSym 8, VFix 3)]"
  by (simp add: key_pairs_def arg_def key_act_def numeral_eq_Suc)

lemma optional_args_bound_witness:
  "\<exists>m'. do_bind_optional_args key_act 5 3 5 20 key_machine = Next 5 20 m' \<and>
     stack m' 16 = VFix 3 \<and> stack m' 17 = VUnbound"
proof -
  have "5 \<le> a_nargs key_act" by (simp add: key_act_def)
  from optional_args_bound[OF key_act_apart this, of 3 5 20 key_machine] obtain m' where
    m': "do_bind_optional_args key_act 5 3 5 20 key_machine = Next 5 20 m'"
    "\<And>i. i < 3 \<Longrightarrow> stack m' (reg (a_fp key_act) (5 + i)) =
       (if 5 + i < a_nargs key_act then arg key_act key_machine (5 + i) else VUnbound)"
    by blast
  from m'(2)[of 0] m'(2)[of 1] have "stack m' 16 = VFix 3" "stack m' 17 = VUnbound"
    by (simp_all add: key_act_def reg_def arg_def numeral_eq_Suc)
  with m'(1) show ?thesis by blast
qed

lemma keyword_args_bound_witness:
  "\<exists>m'. do_parse_key_args key_act 0 (2, False) 0 4 5 20 key_machine = Next 5 20 m' \<and>
     stack m' 15 = VFix 2 \<and> stack m' 16 = VFix 1"
proof -
  have lit: "literal_keys key_act key_machine 0 [VSym 7, VSym 8]" "distinct [VSym 7, VSym 8]"
    by (auto simp: literal_keys_def literal_at_def key_act_def key_machine_def less_Suc_eq numeral_eq_Suc)
  have n: "(a_nargs key_act - 0) div 2 = 3" "even (a_nargs key_act - 0)" by (simp_all add: key_act_def)
  have known: "\<forall>p \<in> set (key_pairs key_act key_machine 0 3). known_key [VSym 7, VSym 8] (fst p)"
    by (simp add: key_pairs_sample known_key_def)
  from keyword_args_bound[OF key_act_apart lit refl, of 0 False 4 5 20, unfolded n(1)] n(2) known
  obtain m' where m': "do_parse_key_args key_act 0 (2, False) 0 4 5 20 key_machine = Next 5 20 m'"
    "\<And>i. i < 2 \<Longrightarrow> stack m' (reg (a_fp key_act) (4 + i)) =
       (case first_value ([VSym 7, VSym 8] ! i) (key_pairs key_act key_machine 0 3) of
          None \<Rightarrow> VUnbound | Some v \<Rightarrow> v)"
    by (auto simp: numeral_2_eq_2)
  from m'(2)[of 0] m'(2)[of 1] have "stack m' 15 = VFix 2" "stack m' 16 = VFix 1"
    by (simp_all add: key_pairs_sample first_value_def key_act_fp reg_def)
  with m'(1) show ?thesis by blast
qed

lemma encell_abbreviates_witness:
  "\<exists>m'. do_encell key_act 0 5 20 key_machine = Next 5 20 m'"
proof -
  have "reg (a_fp key_act) 0 \<le> 20" by (simp add: key_act_def reg_def)
  from encell_abbreviates[OF this, of 0 key_machine 0 5] show ?thesis by blast
qed

lemma push_pop_values_roundtrip_witness:
  "\<exists>m1 sp1 m2. case_push_values 0 7 (set1 (VFix 5) empty_machine) = Next 1 sp1 m1 \<and>
     case_pop_values 1 sp1 m1 = Next 2 7 m2 \<and> mv_values m2 0 = VFix 5"
proof -
  have "mv_size (set1 (VFix 5) empty_machine) \<le> multiple_values_limit"
    by (simp add: set1_def multiple_values_limit_def)
  from push_pop_values_roundtrip[OF this, of 0 7] obtain m1 sp1 m2 where
    "case_push_values 0 7 (set1 (VFix 5) empty_machine) = Next 1 sp1 m1"
    "case_pop_values 1 sp1 m1 = Next 2 7 m2" "\<forall>i. mv_values m2 i = mv_values (set1 (VFix 5) empty_machine) i"
    by auto
  then show ?thesis by (auto simp: set1_def)
qed

end
