(* ===== verification/VmCode.thy ===== *)
theory VmCode
  imports Placing VmArgs
begin

text \<open>
  The assembler and the virtual machine agree: what the assembler emits for an
  instruction and its operands is executed as that instruction with those operands, in
  the short and in the long form, and linked jumps transfer control to their labels.
\<close>

unbundle bit_operations_syntax

declare vm_code.simps [simp del]

section \<open>Operand encoding\<close>

lemma u8_word: "n < 256 \<Longrightarrow> u8 (word_of_nat n # bs) 0 = n"
  by (simp add: u8_def unat_of_nat)

lemma read_u16_bytes:
  assumes "n < 65536"
  shows "unat (read_u16 (low_byte n) (high_byte n)) = n"
proof -
  have h: "n div 256 < 256" using assms by (simp add: less_mult_imp_div_less)
  have l: "ucast (low_byte n) = (word_of_nat (n mod 256) :: u16)"
    by (simp add: unsigned_of_nat take_bit_eq_mod)
  have hi: "ucast (high_byte n) = (word_of_nat (n div 256) :: u16)"
    using h by (simp add: unsigned_of_nat take_bit_eq_mod)
  have "read_u16 (low_byte n) (high_byte n) = (word_of_nat (n mod 256) + 256 * word_of_nat (n div 256) :: u16)"
    by (simp add: read_u16_def l hi push_bit_eq_mult mult.commute)
  also have "\<dots> = word_of_nat (n mod 256 + 256 * (n div 256))"
    by (simp only: of_nat_add of_nat_mult of_nat_numeral)
  finally have "read_u16 (low_byte n) (high_byte n) = (word_of_nat (n mod 256 + 256 * (n div 256)) :: u16)" .
  then have "read_u16 (low_byte n) (high_byte n) = (word_of_nat n :: u16)"
    by (simp only: mod_mult_div_eq)
  with assms show ?thesis by (simp add: unat_of_nat)
qed

lemma u16_at_bytes: "n < 65536 \<Longrightarrow> u16_at [low_byte n, high_byte n] 0 = n"
  by (simp add: u16_at_def read_u16_bytes)

text \<open>The code of an activation has some bytes at an address.\<close>

definition code_at :: "act \<Rightarrow> machine \<Rightarrow> nat \<Rightarrow> byte list \<Rightarrow> bool" where
  "code_at a m p bs \<longleftrightarrow> take (length bs) (drop p (code_of a m)) = bs \<and> p + length bs \<le> length (code_of a m)"

lemma code_at_nth: "code_at a m p bs \<Longrightarrow> i < length bs \<Longrightarrow> code_of a m ! (p + i) = bs ! i"
  by (metis add.commute code_at_def nth_drop nth_take add_leD2)

lemma operands_code_at:
  "code_at a m p (b # bs) \<Longrightarrow> operands a m (int p) (length bs) f = f bs"
  by (auto simp: operands_def code_at_def drop_Suc_Cons take_Suc drop_Suc tl_drop
      intro!: arg_cong[of _ _ f])

text \<open>What the loop adds to a step of \<open>long_dispatch\<close>.\<close>

definition after_long :: "step \<Rightarrow> step" where
  "after_long s = (case s of Next pc sp m \<Rightarrow> Next pc sp (m\<lparr>vm_sp := sp\<rparr>) | Stop r \<Rightarrow> Stop r)"

lemma vm_step_long:
  assumes "code_at a m p (vm_code Vm_long # b # bs)"
  shows "vm_step k call run a (int p) sp m = after_long (long_dispatch k call run a b (int p + 1) sp m)"
proof -
  have c: "code_of a m ! p = vm_code Vm_long" "code_of a m ! (p + 1) = b"
    using code_at_nth[OF assms, of 0] code_at_nth[OF assms, of 1] by simp_all
  have l: "p + 1 < length (code_of a m)" "p < length (code_of a m)" using assms by (simp_all add: code_at_def)
  have "take (Suc 0) (drop (Suc p) (code_of a m)) = [b]"
    using c(2) l by (simp add: take_Suc_conv_app_nth)
  moreover have "decode_op (code_of a m ! p) = Some Vm_long"
    unfolding c(1) by (rule decode_vm_code)
  ultimately show ?thesis
    using c(2) l by (simp add: vm_step_def case_long_def operands_def after_long_def)
qed

section \<open>Instructions with one operand\<close>

text \<open>
  The contract of an instruction that has a short and a long form with one operand: both
  forms perform the same effect, told where the next instruction is.
\<close>

locale one_operand =
  fixes opc :: opcode and effect :: "act \<Rightarrow> nat \<Rightarrow> int \<Rightarrow> int \<Rightarrow> machine \<Rightarrow> step"
  assumes short_form: "0 \<le> pc \<Longrightarrow> nat pc < length (code_of a m) \<Longrightarrow> code_of a m ! nat pc = vm_code opc \<Longrightarrow>
      vm_step k call run a pc sp m = operands a m pc 1 (\<lambda>b. effect a (u8 b 0) (pc + 2) sp m)"
    and long_form: "long_dispatch k call run a (vm_code opc) pc sp m =
      operands a m pc 2 (\<lambda>b. effect a (u16_at b 0) (pc + 3) sp m)"
begin

lemma assembled_runs:
  assumes "assemble1 ctxt (vm_code opc) n c = Inr c'"
    and "ctxt_cfunction ctxt < length (cfuns c)"
    and "code_of a m = bytecode (cfun_of c' (ctxt_cfunction ctxt))"
    and "p = length (bytecode (cfun_of c (ctxt_cfunction ctxt)))"
  shows "vm_step k call run a (int p) sp m =
    (if n < 256 then effect a n (int p + 2) sp m else after_long (effect a n (int p + 4) sp m))"
proof (cases "n < 256")
  case True
  then have code: "code_of a m = bytecode (cfun_of c (ctxt_cfunction ctxt)) @ [vm_code opc, word_of_nat n]"
    using assms by (auto simp: assemble1_def emit_bytes_def cfun_of_upd_cfun Let_def)
  have at: "code_at a m p [vm_code opc, word_of_nat n]"
    using code assms(4) by (simp add: code_at_def)
  have "vm_step k call run a (int p) sp m = operands a m (int p) 1 (\<lambda>b. effect a (u8 b 0) (int p + 2) sp m)"
    using code assms(4) by (intro short_form) simp_all
  also have "\<dots> = effect a n (int p + 2) sp m"
    using operands_code_at[OF at] True by (simp add: u8_word)
  finally show ?thesis using True by simp
next
  case False
  then have n: "n < 65536" and code: "code_of a m = bytecode (cfun_of c (ctxt_cfunction ctxt)) @
      [vm_code Vm_long, vm_code opc, low_byte n, high_byte n]"
    using assms by (auto simp: assemble1_def emit_bytes_def cfun_of_upd_cfun Let_def split: if_splits)
  have at: "code_at a m p [vm_code Vm_long, vm_code opc, low_byte n, high_byte n]"
    "code_at a m (p + 1) [vm_code opc, low_byte n, high_byte n]"
    using code assms(4) by (simp_all add: code_at_def)
  have p1: "int p + 1 = int (p + 1)" by simp
  have "vm_step k call run a (int p) sp m = after_long (long_dispatch k call run a (vm_code opc) (int p + 1) sp m)"
    by (rule vm_step_long[OF at(1)])
  also have "long_dispatch k call run a (vm_code opc) (int p + 1) sp m =
      operands a m (int (p + 1)) 2 (\<lambda>b. effect a (u16_at b 0) (int p + 4) sp m)"
    unfolding long_form p1 by (simp add: add.assoc add.commute)
  also have "\<dots> = effect a n (int p + 4) sp m"
    using operands_code_at[OF at(2)] n by (simp add: u16_at_bytes numeral_2_eq_2)
  finally show ?thesis using False by simp
qed

end

lemmas one_operand_defs = vm_step_def long_dispatch_def

interpretation ref_op: one_operand Vm_ref do_ref
  by unfold_locales (simp_all add: one_operand_defs case_ref_def long_ref_def)

interpretation const_op: one_operand Vm_const do_const
  by unfold_locales (simp_all add: one_operand_defs case_const_def long_const_def)

interpretation closure_op: one_operand Vm_closure do_closure
  by unfold_locales (simp_all add: one_operand_defs case_closure_def long_closure_def)

interpretation set_op: one_operand Vm_set do_set
  by unfold_locales (simp_all add: one_operand_defs case_set_def long_set_def)

interpretation make_closure_op: one_operand Vm_make_closure do_make_closure
  by unfold_locales (simp_all add: one_operand_defs case_make_closure_def long_make_closure_def)

interpretation make_uninitialized_closure_op:
  one_operand Vm_make_uninitialized_closure do_make_uninitialized_closure
  by unfold_locales (simp_all add: one_operand_defs case_make_uninitialized_closure_def
      long_make_uninitialized_closure_def)

interpretation initialize_closure_op: one_operand Vm_initialize_closure do_initialize_closure
  by unfold_locales (simp_all add: one_operand_defs case_initialize_closure_def long_initialize_closure_def)

interpretation bind_required_args_op: one_operand Vm_bind_required_args do_bind_required_args
  by unfold_locales (simp_all add: one_operand_defs case_bind_required_args_def long_bind_required_args_def)

interpretation listify_rest_args_op: one_operand Vm_listify_rest_args do_listify_rest_args
  by unfold_locales (simp_all add: one_operand_defs case_listify_rest_args_def long_listify_rest_args_def)

interpretation check_LE_op: one_operand Vm_check_arg_count_LE check_LE
  by unfold_locales (simp_all add: one_operand_defs case_check_arg_count_LE_def long_check_arg_count_LE_def)

interpretation check_GE_op: one_operand Vm_check_arg_count_GE check_GE
  by unfold_locales (simp_all add: one_operand_defs case_check_arg_count_GE_def long_check_arg_count_GE_def)

interpretation check_EQ_op: one_operand Vm_check_arg_count_EQ check_EQ
  by unfold_locales (simp_all add: one_operand_defs case_check_arg_count_EQ_def long_check_arg_count_EQ_def)

interpretation restore_sp_op: one_operand Vm_restore_sp do_restore_sp
  by unfold_locales (simp_all add: one_operand_defs case_restore_sp_def long_restore_sp_def)

interpretation symbol_value_op: one_operand Vm_symbol_value do_symbol_value
  by unfold_locales (simp_all add: one_operand_defs case_symbol_value_def long_symbol_value_def)

interpretation symbol_value_set_op: one_operand Vm_symbol_value_set do_symbol_value_set
  by unfold_locales (simp_all add: one_operand_defs case_symbol_value_set_def long_symbol_value_set_def)

interpretation fdefinition_op: one_operand Vm_fdefinition do_fdefinition
  by unfold_locales (simp_all add: one_operand_defs case_fdefinition_def long_fdefinition_def)

interpretation called_fdefinition_op: one_operand Vm_called_fdefinition do_const
  by unfold_locales (simp_all add: one_operand_defs case_called_fdefinition_def long_called_fdefinition_def)

interpretation encell_op: one_operand Vm_encell do_encell
  by unfold_locales (simp_all add: one_operand_defs case_encell_def long_encell_def)

text \<open>The instructions with one operand and what they do.\<close>

definition operand_effects :: "(opcode \<times> (act \<Rightarrow> nat \<Rightarrow> int \<Rightarrow> int \<Rightarrow> machine \<Rightarrow> step)) list" where
  "operand_effects =
     [(Vm_ref, do_ref), (Vm_const, do_const), (Vm_closure, do_closure), (Vm_set, do_set),
      (Vm_make_closure, do_make_closure), (Vm_make_uninitialized_closure, do_make_uninitialized_closure),
      (Vm_initialize_closure, do_initialize_closure), (Vm_bind_required_args, do_bind_required_args),
      (Vm_listify_rest_args, do_listify_rest_args), (Vm_check_arg_count_LE, check_LE),
      (Vm_check_arg_count_GE, check_GE), (Vm_check_arg_count_EQ, check_EQ), (Vm_restore_sp, do_restore_sp),
      (Vm_symbol_value, do_symbol_value), (Vm_symbol_value_set, do_symbol_value_set),
      (Vm_fdefinition, do_fdefinition), (Vm_called_fdefinition, do_const), (Vm_encell, do_encell)]"


section \<open>Jumps\<close>

lemma long_jump_range:
  assumes "assembled c" "link c = Some (Inr c')" "a \<in> set (slots c)"
    and "ann_kind (annot_of c a) = ControlLabelFixup lab o8 o16 o24" "ann_size (annot_of c' a) = 4"
  shows "- (2 ^ 23) \<le> delta c' a lab" "delta c' a lab < 2 ^ 23"
proof -
  note r = link_result[OF assms(1,2)]
  have "a \<in> set (slots c')" and k: "ann_kind (annot_of c' a) = ControlLabelFixup lab o8 o16 o24"
    using assms(3,4) same_static_fields(1,13)[OF r(2)] by simp_all
  then have "resize_control_label_fixup (delta c' a lab) = Inr 4"
    using r(3)[unfolded resolved_def, rule_format, of a] assms(5) by (simp add: resize_def)
  then show "- (2 ^ 23) \<le> delta c' a lab" "delta c' a lab < 2 ^ 23"
    by (auto simp: resize_control_label_fixup_def split: if_splits)
qed

lemma mod_23: "- (2 ^ 23) \<le> d \<Longrightarrow> d < 2 ^ 23 \<Longrightarrow> d mod 2 ^ 23 = d + (if d < 0 then 2 ^ 23 else 0)" for d :: int
proof (cases "d < 0")
  case True
  assume "- (2 ^ 23) \<le> d"
  have "d mod 2 ^ 23 = (d + 2 ^ 23) mod 2 ^ 23" by simp
  also have "\<dots> = d + 2 ^ 23" using True \<open>- (2 ^ 23) \<le> d\<close> by (intro mod_pos_pos_trivial) simp_all
  finally show ?thesis using True by simp
qed simp

text \<open>C0: the jump of a linked module takes the virtual machine from the fixup to its label without
  touching stack or machine; in the 24-bit form this holds for forward jumps only, a backward one goes
  \<open>2^23\<close> too far.\<close>

theorem linked_jump_executes:
  assumes "assembled c" "link c = Some (Inr c')" "create_bytecode c' = Inr code"
    and "a \<in> set (slots c)"
    and "ann_kind (annot_of c a) = ControlLabelFixup lab (vm_code Vm_jump_8) (vm_code Vm_jump_16) (vm_code Vm_jump_24)"
    and "code_of act m = code"
  shows "vm_step k call run act (int (module_position c' a)) sp m =
    Next (int (module_position c' lab) +
      (if ann_size (annot_of c' a) = 4 \<and> delta c' a lab < 0 then 2 ^ 23 else 0)) sp m"
proof -
  define p where "p = module_position c' a"
  note J = jump_bytes_land[OF assms(1-5) p_def]
  have tk: "take n (drop (Suc p) code) = map (\<lambda>i. code ! (p + 1 + i)) [0..<n]"
    if "p + 1 + n \<le> length code" for n
    using that by (intro nth_equalityI) simp_all
  consider "ann_size (annot_of c' a) = 2" | "ann_size (annot_of c' a) = 3" | "ann_size (annot_of c' a) = 4"
    using J by blast
  then show ?thesis
  proof cases
    case 1
    with J tk[of 1] assms(6) show ?thesis
      by (simp add: vm_step_def case_jump_8_def operands_def p_def[symmetric])
  next
    case 2
    with J tk[of 2] assms(6) show ?thesis
      by (simp add: vm_step_def case_jump_16_def operands_def p_def[symmetric] numeral_2_eq_2)
  next
    case 3
    have "code ! p = vm_code Vm_jump_24" "p + 4 \<le> length code"
      and b: "read_label [code ! (p + 1), code ! (p + 2), code ! (p + 3)] = delta c' a lab mod 2 ^ 23"
      using 3 J by simp_all
    moreover have "take 3 (drop (Suc p) code) = [code ! (p + 1), code ! (p + 2), code ! (p + 3)]"
      using tk[of 3] \<open>p + 4 \<le> length code\<close> by (simp add: numeral_3_eq_3)
    moreover note mod_23[OF long_jump_range[OF assms(1,2,4,5) 3]]
    ultimately show ?thesis
      using 3 assms(6)
      by (simp add: vm_step_def case_jump_24_def operands_def p_def[symmetric] delta_def)
  qed
qed

section \<open>The sample module runs\<close>

definition sample_act :: act where
  "sample_act = \<lparr>a_mod = 0, a_closure = 0, a_fp = 10, a_nargs = 0, a_args = OnStack 0, a_frame = 0\<rparr>"

definition machine_with :: "byte list \<Rightarrow> machine" where
  "machine_with bs = empty_machine\<lparr>bmodules := [\<lparr>b_code = bs, b_literals = []\<rparr>]\<rparr>"

lemma code_of_sample: "code_of sample_act (machine_with bs) = bs"
  by (simp add: code_of_def sample_act_def machine_with_def)


lemma linked_jump_executes_witness:
  "vm_step 0 (\<lambda>_ _ _ _. Undefined) (\<lambda>_ _ _ _. Undefined) sample_act 0 20
     (machine_with ([vm_code Vm_jump_16, 133, 0] @ replicate 130 (vm_code Vm_nil))) =
   Next 133 20 (machine_with ([vm_code Vm_jump_16, 133, 0] @ replicate 130 (vm_code Vm_nil)))"
proof -
  have k: "2 \<in> set (slots sample_jump)"
    "ann_kind (annot_of sample_jump 2) =
       ControlLabelFixup 1 (vm_code Vm_jump_8) (vm_code Vm_jump_16) (vm_code Vm_jump_24)"
    by code_simp+
  have "module_position sample_linked 2 = 0" "module_position sample_linked 1 = 133"
    "ann_size (annot_of sample_linked 2) = 3"
    by code_simp+
  with linked_jump_executes[OF sample_assembled sample_link sample_create k code_of_sample,
      of 0 "\<lambda>_ _ _ _. Undefined" "\<lambda>_ _ _ _. Undefined" 20]
  show ?thesis by simp
qed

end
