(* ===== verification/LispData.thy ===== *)
theory LispData
  imports Assemble
begin

text \<open>
  What the compilation of forms is written with: accessors of lists that signal type errors,
  iteration over lists, the symbols the compiler knows, the running system it consults, and
  the combinators that thread the compiler's store through a sequence of operations.
\<close>

section \<open>Lists\<close>

text \<open>\<open>oCar\<close> and \<open>oCdr\<close> signal a type error on an atom other than \<open>NIL\<close>.\<close>

fun lcar :: "lisp \<Rightarrow> cerror + lisp" where
  "lcar (LCons _ a _) = Inr a"
| "lcar LNil = Inr LNil"
| "lcar x = Inl (TypeErr x)"

fun lcdr :: "lisp \<Rightarrow> cerror + lisp" where
  "lcdr (LCons _ _ d) = Inr d"
| "lcdr LNil = Inr LNil"
| "lcdr x = Inl (TypeErr x)"

definition lcadr :: "lisp \<Rightarrow> cerror + lisp" where
  "lcadr x = bind_res (lcdr x) lcar"

definition lcddr :: "lisp \<Rightarrow> cerror + lisp" where
  "lcddr x = bind_res (lcdr x) lcdr"

definition lcaddr :: "lisp \<Rightarrow> cerror + lisp" where
  "lcaddr x = bind_res (lcddr x) lcar"

definition lcdddr :: "lisp \<Rightarrow> cerror + lisp" where
  "lcdddr x = bind_res (lcddr x) lcdr"

text \<open>A conversion to \<open>List_sp\<close> checks for a list.\<close>

fun as_list :: "lisp \<Rightarrow> cerror + lisp" where
  "as_list LNil = Inr LNil"
| "as_list (LCons i a d) = Inr (LCons i a d)"
| "as_list x = Inl (TypeErr x)"

fun as_cons :: "lisp \<Rightarrow> cerror + lisp" where
  "as_cons (LCons i a d) = Inr (LCons i a d)"
| "as_cons x = Inl (TypeErr x)"

fun symbolp :: "lisp \<Rightarrow> bool" where
  "symbolp LNil = True"
| "symbolp (LSym _) = True"
| "symbolp _ = False"

definition need_symbol :: "lisp \<Rightarrow> cerror + lisp" where
  "need_symbol x = (if symbolp x then Inr x else Inl (TypeErr x))"

text \<open>
  The loop \<open>for (auto cur : list)\<close>: the body sees the cons, and a tail that is not a list is an
  error when the iterator reaches it.
\<close>

fun for_conses :: "(lisp \<Rightarrow> 's \<Rightarrow> cerror + 's) \<Rightarrow> lisp \<Rightarrow> 's \<Rightarrow> cerror + 's" where
  "for_conses f LNil s = Inr s"
| "for_conses f (LCons i a d) s = bind_res (f (LCons i a d) s) (for_conses f d)"
| "for_conses f x s = Inl (TypeErr x)"

definition for_each :: "(lisp \<Rightarrow> 's \<Rightarrow> cerror + 's) \<Rightarrow> lisp \<Rightarrow> 's \<Rightarrow> cerror + 's" where
  "for_each f = for_conses (\<lambda>cur. f (oCar cur))"

text \<open>The same over a vector or a list already taken apart.\<close>

fun each :: "('a \<Rightarrow> 's \<Rightarrow> cerror + 's) \<Rightarrow> 'a list \<Rightarrow> 's \<Rightarrow> cerror + 's" where
  "each f [] s = Inr s"
| "each f (x # xs) s = bind_res (f x s) (each f xs)"

text \<open>The elements of a proper list.\<close>

fun proper_items :: "lisp \<Rightarrow> cerror + lisp list" where
  "proper_items LNil = Inr []"
| "proper_items (LCons _ a d) = bind_res (proper_items d) (\<lambda>xs. Inr (a # xs))"
| "proper_items x = Inl (TypeErr x)"

text \<open>\<open>Cons_O::memberEq\<close>, which stops at the first element found.\<close>

fun member_eq :: "lisp \<Rightarrow> lisp \<Rightarrow> cerror + bool" where
  "member_eq item LNil = Inr False"
| "member_eq item (LCons _ a d) = (if eq_lisp a item then Inr True else member_eq item d)"
| "member_eq item x = Inl (TypeErr x)"

fun member_equal :: "lisp \<Rightarrow> lisp \<Rightarrow> cerror + bool" where
  "member_equal item LNil = Inr False"
| "member_equal item (LCons _ a d) = (if equal_lisp a item then Inr True else member_equal item d)"
| "member_equal item x = Inl (TypeErr x)"

lemma for_conses_proper:
  "proper_items x = Inr xs \<Longrightarrow>
   for_each f x s = foldl (\<lambda>r a. bind_res r (f a)) (Inr s) xs"
proof (induction x arbitrary: xs s)
  case (LCons i a d)
  then obtain ys where ys: "proper_items d = Inr ys" "xs = a # ys" by (auto simp: bind_res_Inr_iff)
  have "foldl (\<lambda>r a. bind_res r (f a)) (Inl e) zs = Inl e" for e zs
    by (induction zs) simp_all
  with LCons.IH(2)[OF ys(1)] ys(2) show ?case
    by (cases "f a s") (simp_all add: for_each_def)
qed (simp_all add: for_each_def)

lemma for_conses_induct_rel:
  assumes "for_conses f x s = Inr s'" "\<And>s. R s s" "\<And>s t u. R s t \<Longrightarrow> R t u \<Longrightarrow> R s u"
    and "\<And>cur s s'. f cur s = Inr s' \<Longrightarrow> R s s'"
  shows "R s s'"
  using assms(1)
proof (induction x arbitrary: s)
  case (LCons i a d)
  then obtain t where "f (LCons i a d) s = Inr t" "for_conses f d t = Inr s'"
    by (auto simp: bind_res_Inr_iff)
  with LCons.IH(2) assms(3,4) show ?case by blast
qed (use assms(2) in simp_all)

lemma for_each_induct_rel:
  assumes "for_each f x s = Inr s'" "\<And>s. R s s" "\<And>s t u. R s t \<Longrightarrow> R t u \<Longrightarrow> R s u"
    and "\<And>a s s'. f a s = Inr s' \<Longrightarrow> R s s'"
  shows "R s s'"
  using for_conses_induct_rel[OF assms(1)[unfolded for_each_def], of R] assms(2-4) by blast

lemma each_induct_rel:
  assumes "each f xs s = Inr s'" "\<And>s. R s s" "\<And>s t u. R s t \<Longrightarrow> R t u \<Longrightarrow> R s u"
    and "\<And>x s s'. x \<in> set xs \<Longrightarrow> f x s = Inr s' \<Longrightarrow> R s s'"
  shows "R s s'"
  using assms(1,4)
proof (induction xs arbitrary: s)
  case (Cons x xs)
  then obtain t where "f x s = Inr t" "each f xs t = Inr s'" by (auto simp: bind_res_Inr_iff)
  with Cons assms(3) show ?case by (meson list.set_intros)
qed (use assms(2) in simp_all)

section \<open>Symbols\<close>

text \<open>The symbols the compiler compares with; other symbols have other numbers.\<close>

definition sym_nil :: nat where "sym_nil = 4"
definition sym_T :: nat where "sym_T = 5"
definition sym_declare :: nat where "sym_declare = 6"
definition sym_lambda :: nat where "sym_lambda = 7"
definition sym_function :: nat where "sym_function = 8"
definition sym_quote :: nat where "sym_quote = 9"
definition sym_progn :: nat where "sym_progn = 10"
definition sym_let :: nat where "sym_let = 11"
definition sym_letSTAR :: nat where "sym_letSTAR = 12"
definition sym_flet :: nat where "sym_flet = 13"
definition sym_labels :: nat where "sym_labels = 14"
definition sym_setq :: nat where "sym_setq = 15"
definition sym_if :: nat where "sym_if = 16"
definition sym_tagbody :: nat where "sym_tagbody = 17"
definition sym_go :: nat where "sym_go = 18"
definition sym_block :: nat where "sym_block = 19"
definition sym_return_from :: nat where "sym_return_from = 20"
definition sym_load_time_value :: nat where "sym_load_time_value = 21"
definition sym_macrolet :: nat where "sym_macrolet = 22"
definition sym_symbol_macrolet :: nat where "sym_symbol_macrolet = 23"
definition sym_multiple_value_call :: nat where "sym_multiple_value_call = 24"
definition sym_multiple_value_prog1 :: nat where "sym_multiple_value_prog1 = 25"
definition sym_locally :: nat where "sym_locally = 26"
definition sym_eval_when :: nat where "sym_eval_when = 27"
definition sym_the :: nat where "sym_the = 28"
definition sym_funcall :: nat where "sym_funcall = 29"
definition sym_primop_funcall :: nat where "sym_primop_funcall = 30"
definition sym_primop_eq :: nat where "sym_primop_eq = 31"
definition sym_eq :: nat where "sym_eq = 32"
definition sym_case :: nat where "sym_case = 33"
definition sym_eval :: nat where "sym_eval = 34"
definition kw_execute :: nat where "kw_execute = 35"
definition sym_ignore :: nat where "sym_ignore = 36"
definition sym_ignorable :: nat where "sym_ignorable = 37"
definition sym_dynamic_extent :: nat where "sym_dynamic_extent = 38"
definition sym_type :: nat where "sym_type = 39"
definition sym_ftype :: nat where "sym_ftype = 40"
definition sym_inline :: nat where "sym_inline = 41"
definition sym_optimize :: nat where "sym_optimize = 42"
definition sym_lambdaName :: nat where "sym_lambdaName = 43"
definition sym_lambdaList :: nat where "sym_lambdaList = 44"
definition sym_speed :: nat where "sym_speed = 45"
definition sym_AMPoptional :: nat where "sym_AMPoptional = 46"
definition sym_AMPrest :: nat where "sym_AMPrest = 47"
definition sym_AMPbody :: nat where "sym_AMPbody = 48"
definition sym_AMPva_rest :: nat where "sym_AMPva_rest = 49"
definition sym_AMPkey :: nat where "sym_AMPkey = 50"
definition sym_AMPaux :: nat where "sym_AMPaux = 51"
definition sym_AMPallow_other_keys :: nat where "sym_AMPallow_other_keys = 52"
definition sym_DOT :: nat where "sym_DOT = 53"
definition sym_AMPwhole :: nat where "sym_AMPwhole = 54"
definition sym_AMPenvironment :: nat where "sym_AMPenvironment = 55"
definition sym_space :: nat where "sym_space = 56"
definition sym_safety :: nat where "sym_safety = 57"
definition sym_debug :: nat where "sym_debug = 58"
definition sym_compilation_speed :: nat where "sym_compilation_speed = 59"
definition sym_sequence :: nat where "sym_sequence = 60"
definition sym_simple_base_string :: nat where "sym_simple_base_string = 61"
definition sym_member :: nat where "sym_member = 62"
definition sym_eql :: nat where "sym_eql = 63"
definition sym_c_local :: nat where "sym_c_local = 64"
definition sym_type_assertions :: nat where "sym_type_assertions = 65"
definition kw_read_only :: nat where "kw_read_only = 66"
definition sym_array_index :: nat where "sym_array_index = 67"
definition sym_index :: nat where "sym_index = 68"
definition sym_check_arguments_type :: nat where "sym_check_arguments_type = 69"
definition sym_assume_no_errors :: nat where "sym_assume_no_errors = 70"

text \<open>The variable-cell table is indexed by symbols, \<open>NIL\<close> among them.\<close>

fun symbol_number :: "lisp \<Rightarrow> nat" where
  "symbol_number (LSym s) = s"
| "symbol_number _ = sym_nil"

text \<open>The symbols are pairwise different.\<close>

lemmas symbol_numbers = sym_nil_def sym_T_def sym_declare_def sym_lambda_def sym_function_def sym_quote_def
  sym_progn_def sym_let_def sym_letSTAR_def sym_flet_def sym_labels_def sym_setq_def sym_if_def sym_tagbody_def
  sym_go_def sym_block_def sym_return_from_def sym_load_time_value_def sym_macrolet_def sym_symbol_macrolet_def
  sym_multiple_value_call_def sym_multiple_value_prog1_def sym_locally_def sym_eval_when_def sym_the_def
  sym_funcall_def sym_primop_funcall_def sym_primop_eq_def sym_eq_def sym_case_def sym_eval_def kw_execute_def
  sym_ignore_def sym_ignorable_def sym_dynamic_extent_def sym_type_def sym_ftype_def sym_inline_def
  sym_optimize_def sym_lambdaName_def sym_lambdaList_def sym_speed_def sym_setf_def sym_special_def sym_notinline_def

lemmas lambda_list_numbers = sym_AMPoptional_def sym_AMPrest_def sym_AMPbody_def sym_AMPva_rest_def sym_AMPkey_def
  sym_AMPaux_def sym_AMPallow_other_keys_def sym_DOT_def sym_AMPwhole_def sym_AMPenvironment_def sym_T_def

section \<open>The running system\<close>

text \<open>
  What the compiler asks of the system it runs in.  Calling a Lisp function may leave the
  compiler by a nonlocal exit, which is an error value here.
  \<open>h_expand\<close> calls \<open>*macroexpand-hook*\<close>, \<open>h_expand_cm\<close> calls \<open>expand-compiler-macro-safely\<close>,
  \<open>h_parse_macro\<close> calls \<open>ext:parse-macro\<close>; \<open>h_walker\<close> is the value of \<open>*code-walker*\<close>,
  \<open>h_source\<close> looks up the source location table; \<open>h_function\<close> is the function object made of
  a cfunction of a linked module.
\<close>

record host =
  h_genv :: genv
  h_walker :: "(lisp \<Rightarrow> lexenv \<Rightarrow> cerror + lisp) option"
  h_source :: "lisp \<Rightarrow> lisp option"
  h_expand :: "lisp \<Rightarrow> lisp \<Rightarrow> lexenv \<Rightarrow> cerror + lisp"
  h_expand_cm :: "lisp \<Rightarrow> lisp \<Rightarrow> lexenv \<Rightarrow> lisp \<Rightarrow> cerror + lisp"
  h_parse_macro :: "lisp \<Rightarrow> lisp \<Rightarrow> lisp \<Rightarrow> lexenv \<Rightarrow> cerror + lisp"
  h_stringp :: "lisp \<Rightarrow> bool"
  h_integerp :: "nat \<Rightarrow> bool"
  h_functionp :: "lisp \<Rightarrow> bool"
  h_keyword :: "lisp \<Rightarrow> lisp"
  h_gensym :: "nat \<Rightarrow> lisp"
  h_undefined_hook :: bool
  h_register_hook :: bool
  h_function :: "comp \<Rightarrow> nat \<Rightarrow> cerror + lisp"
  h_source_pos :: lisp

definition code_walking_p :: "host \<Rightarrow> bool" where
  "code_walking_p h = (h_walker h \<noteq> None)"

definition source_location_for :: "host \<Rightarrow> lisp \<Rightarrow> lisp \<Rightarrow> lisp" where
  "source_location_for h form fallback = (case h_source h form of Some loc \<Rightarrow> loc | None \<Rightarrow> fallback)"

text \<open>The classification of a symbol, \<open>NIL\<close> included.\<close>

definition lisp_var_info :: "host \<Rightarrow> lisp \<Rightarrow> lexenv \<Rightarrow> var_info option" where
  "lisp_var_info h x env =
     (case x of
        LSym s \<Rightarrow> var_info_v (h_genv h) s env
      | _ \<Rightarrow>
         (case variableInfo env x of
            Some (LexicalVarInfo l) \<Rightarrow> Some (LexicalVarInfo l)
          | Some (SpecialVarInfo b) \<Rightarrow> Some (SpecialVarInfo b)
          | Some (SymbolMacroVarInfo e) \<Rightarrow> Some (SymbolMacroVarInfo e)
          | _ \<Rightarrow> global_var_info (h_genv h) (nil_info (h_genv h))))"

section \<open>Sequences of operations\<close>

type_synonym action = "comp \<Rightarrow> cerror + comp"

fun steps :: "action list \<Rightarrow> action" where
  "steps [] c = Inr c"
| "steps (m # ms) c = bind_res (m c) (steps ms)"

definition always :: "(comp \<Rightarrow> comp) \<Rightarrow> action" where
  "always f c = Inr (f c)"

definition only_if :: "bool \<Rightarrow> action \<Rightarrow> action" where
  "only_if b m c = (if b then m c else Inr c)"

text \<open>These carry a result of any type.\<close>

definition attempt :: "cerror + 'a \<Rightarrow> ('a \<Rightarrow> comp \<Rightarrow> cerror + 'b) \<Rightarrow> comp \<Rightarrow> cerror + 'b" where
  "attempt r k c = bind_res r (\<lambda>x. k x c)"

definition fetch :: "(comp \<Rightarrow> 'a) \<Rightarrow> ('a \<Rightarrow> comp \<Rightarrow> cerror + 'b) \<Rightarrow> comp \<Rightarrow> cerror + 'b" where
  "fetch f k c = k (f c) c"

definition using_new :: "(comp \<Rightarrow> comp \<times> 'a) \<Rightarrow> ('a \<Rightarrow> comp \<Rightarrow> cerror + 'b) \<Rightarrow> comp \<Rightarrow> cerror + 'b" where
  "using_new f k c = (case f c of (c', x) \<Rightarrow> k x c')"

definition using_try ::
    "(comp \<Rightarrow> cerror + comp \<times> 'a) \<Rightarrow> ('a \<Rightarrow> comp \<Rightarrow> cerror + 'b) \<Rightarrow> comp \<Rightarrow> cerror + 'b" where
  "using_try f k c = bind_res (f c) (\<lambda>(c', x). k x c')"

definition after :: "action \<Rightarrow> (comp \<Rightarrow> cerror + 'b) \<Rightarrow> comp \<Rightarrow> cerror + 'b" where
  "after m k c = bind_res (m c) k"

definition yield :: "(comp \<Rightarrow> 'b) \<Rightarrow> comp \<Rightarrow> cerror + 'b" where
  "yield f c = Inr (f c)"

text \<open>A loop whose state holds the store: \<open>start\<close> makes the state, \<open>store\<close> takes the store out again.\<close>

definition looping :: "('s \<Rightarrow> cerror + 's) \<Rightarrow> (comp \<Rightarrow> 's) \<Rightarrow> ('s \<Rightarrow> comp) \<Rightarrow> ('s \<Rightarrow> comp \<Rightarrow> cerror + 'b)
    \<Rightarrow> comp \<Rightarrow> cerror + 'b" where
  "looping f start store k c = bind_res (f (start c)) (\<lambda>st. k st (store st))"

definition with_label :: "(nat \<Rightarrow> comp \<Rightarrow> cerror + 'b) \<Rightarrow> comp \<Rightarrow> cerror + 'b" where
  "with_label = using_new (new_annot label_make)"

definition place :: "cctx \<Rightarrow> nat \<Rightarrow> action" where
  "place ctxt lab = always (label_contextualize ctxt lab)"

definition opcode0 :: "cctx \<Rightarrow> opcode \<Rightarrow> action" where
  "opcode0 ctxt opc = always (assemble0 ctxt (vm_code opc))"

definition opcode1 :: "cctx \<Rightarrow> opcode \<Rightarrow> nat \<Rightarrow> action" where
  "opcode1 ctxt opc n = assemble1 ctxt (vm_code opc) n"

definition report :: "compiler_note \<Rightarrow> action" where
  "report n = always (\<lambda>c. c\<lparr>warnings := n # warnings c\<rparr>)"

text \<open>Debug information: a new info is allocated and pushed on the cfunction's vector.\<close>

definition new_dinfo :: "debug_info \<Rightarrow> comp \<Rightarrow> comp \<times> nat" where
  "new_dinfo d c = (c\<lparr>dinfos := dinfos c @ [d]\<rparr>, length (dinfos c))"

definition debug :: "cctx \<Rightarrow> nat \<Rightarrow> nat \<Rightarrow> debug_kind \<Rightarrow> action" where
  "debug ctxt start_label end_label k =
     using_new (new_dinfo \<lparr>di_start = DLabel start_label, di_end = DLabel end_label, di_kind = k\<rparr>)
       (\<lambda>d. always (push_debug_info ctxt d))"

text \<open>Conses and lists made by the compiler.\<close>

definition new_cons :: "lisp \<Rightarrow> lisp \<Rightarrow> comp \<Rightarrow> comp \<times> lisp" where
  "new_cons a d c = (c\<lparr>next_addr := Suc (next_addr c)\<rparr>, LCons (next_addr c) a d)"

fun new_list :: "lisp list \<Rightarrow> comp \<Rightarrow> comp \<times> lisp" where
  "new_list [] c = (c, LNil)"
| "new_list (x # xs) c = (case new_list xs c of (c', d) \<Rightarrow> new_cons x d c')"

definition new_gensym :: "host \<Rightarrow> comp \<Rightarrow> comp \<times> lisp" where
  "new_gensym h c = (c\<lparr>next_addr := Suc (next_addr c)\<rparr>, h_gensym h (next_addr c))"

lemma new_list_items: "new_list xs c = (c', x) \<Longrightarrow> proper_items x = Inr xs"
  by (induction xs arbitrary: c' x) (auto simp: new_cons_def split: prod.splits)

section \<open>Contexts\<close>

definition sub_receiving :: "int \<Rightarrow> cctx \<Rightarrow> cctx" where
  "sub_receiving n ctxt = ctxt\<lparr>receiving := n\<rparr>"

definition sub_de :: "dynenv_entry \<Rightarrow> cctx \<Rightarrow> cctx" where
  "sub_de de ctxt = ctxt\<lparr>dynenv := de # dynenv ctxt\<rparr>"

definition sub_source :: "lisp \<Rightarrow> cctx \<Rightarrow> cctx" where
  "sub_source loc ctxt = ctxt\<lparr>source_info := loc\<rparr>"

text \<open>Marks on lexical infos.\<close>

definition mark_read :: "nat \<Rightarrow> comp \<Rightarrow> comp" where
  "mark_read l = upd_lex l (\<lambda>r. r\<lparr>read_p := True\<rparr>)"

definition mark_closed_over :: "nat \<Rightarrow> comp \<Rightarrow> comp" where
  "mark_closed_over l = upd_lex l (\<lambda>r. r\<lparr>closed_over_p := True\<rparr>)"

definition mark_set :: "nat \<Rightarrow> comp \<Rightarrow> comp" where
  "mark_set l = upd_lex l (\<lambda>r. r\<lparr>set_p := True\<rparr>)"

definition declare_lex :: "nat \<Rightarrow> ignore_status \<Rightarrow> lisp list \<Rightarrow> comp \<Rightarrow> comp" where
  "declare_lex l ig ds = upd_lex l (\<lambda>r. r\<lparr>ignore := ig, lex_decls := ds\<rparr>)"

section \<open>A sample system\<close>

text \<open>No macros are defined and no hook is installed; calling Lisp code leaves the compiler.\<close>

definition plain_host :: "genv \<Rightarrow> host" where
  "plain_host g = \<lparr>h_genv = g, h_walker = None, h_source = (\<lambda>_. None), h_expand = (\<lambda>_ _ _. Inl LispCodeExited),
     h_expand_cm = (\<lambda>_ _ _ _. Inl LispCodeExited), h_parse_macro = (\<lambda>_ _ _ _. Inl LispCodeExited),
     h_stringp = (\<lambda>_. False), h_integerp = (\<lambda>_. False), h_functionp = (\<lambda>_. False), h_keyword = (\<lambda>x. x),
     h_gensym = (\<lambda>n. LSym (1000 + n)), h_undefined_hook = False, h_register_hook = False,
     h_function = (\<lambda>_ f. Inr (LObj f)), h_source_pos = LNil\<rparr>"

definition lisp_of :: "nat \<Rightarrow> lisp list \<Rightarrow> lisp" where
  "lisp_of i xs = foldr (\<lambda>x d. LCons i x d) xs LNil"

end
