(* ===== verification/Declares.thy ===== *)
theory Declares
  imports LispData
begin

text \<open>
  Declarations: splitting a body into declarations, documentation, special variables and code
  (\<open>evaluator.cc\<close>), and what the compiler reads out of declarations for a binding
  (\<open>bytecode_compiler.cc\<close>).
\<close>

section \<open>Splitting a body\<close>

record parsed_body =
  pb_declares :: "lisp list"
  pb_doc :: lisp
  pb_code :: lisp
  pb_specials :: "lisp list"

text \<open>The variables of one \<open>special\<close> sentence are pushed on the specials so far.\<close>

fun extract_specials :: "lisp \<Rightarrow> lisp list \<Rightarrow> cerror + lisp list" where
  "extract_specials LNil specials = Inr specials"
| "extract_specials (LCons _ v sentence) specials =
     bind_res (as_list sentence) (\<lambda>sentence'.
       if symbolp v then extract_specials sentence (v # specials) else Inl (IllegalSpecial v))"
| "extract_specials x specials = Inl (TypeErr x)"

text \<open>The sentences of one \<open>declare\<close> expression; both lists grow at the front.\<close>

fun extract_sentences :: "lisp \<Rightarrow> lisp list \<Rightarrow> lisp list \<Rightarrow> cerror + (lisp list \<times> lisp list)" where
  "extract_sentences LNil declares specials = Inr (declares, specials)"
| "extract_sentences (LCons _ s cform) declares specials =
     bind_res (as_list s) (\<lambda>sentence.
     bind_res (as_list cform) (\<lambda>cform'.
     bind_res (lcar sentence) (\<lambda>head.
     bind_res (bind_res (lcdr sentence) as_list) (\<lambda>rest.
     bind_res (if head = LSym sym_special then extract_specials rest specials else Inr specials) (\<lambda>specials'.
       extract_sentences cform (sentence # declares) specials')))))"
| "extract_sentences x declares specials = Inl (TypeErr x)"

fun extract_loop :: "host \<Rightarrow> bool \<Rightarrow> lisp \<Rightarrow> lisp list \<Rightarrow> lisp \<Rightarrow> lisp list \<Rightarrow> cerror + parsed_body" where
  "extract_loop h expect_doc LNil declares doc specials =
     Inr \<lparr>pb_declares = rev declares, pb_doc = doc, pb_code = LNil, pb_specials = specials\<rparr>"
| "extract_loop h expect_doc (LCons i form body) declares doc specials =
     (let stop = Inr \<lparr>pb_declares = rev declares, pb_doc = doc, pb_code = LCons i form body,
                      pb_specials = specials\<rparr>
      in if expect_doc \<and> h_stringp h form then
           (if body \<noteq> LNil
            then bind_res (as_list body) (\<lambda>body'. extract_loop h expect_doc body declares form specials)
            else stop)
         else if \<not> consp form \<or> oCar form \<noteq> LSym sym_declare then stop
         else
           bind_res (bind_res (lcdr form) as_list) (\<lambda>cform.
           bind_res (extract_sentences cform declares specials) (\<lambda>(declares', specials').
           bind_res (as_list body) (\<lambda>body'. extract_loop h expect_doc body declares' doc specials'))))"
| "extract_loop h expect_doc x declares doc specials = Inl (TypeErr x)"

definition extract_declares_docstring_code_specials :: "host \<Rightarrow> bool \<Rightarrow> lisp \<Rightarrow> cerror + parsed_body" where
  "extract_declares_docstring_code_specials h expect_doc body =
     extract_loop h expect_doc body [] LNil []"

section \<open>Declarations about a binding\<close>

text \<open>
  The ignore status of a variable, or of \<open>#'f\<close>, hence \<open>EQUAL\<close>.
\<close>

fun binding_ignore :: "lisp \<Rightarrow> lisp list \<Rightarrow> cerror + ignore_status" where
  "binding_ignore name [] = Inr NOIGNORE"
| "binding_ignore name (decl # dl) =
     (if \<not> consp decl \<or> \<not> consp (oCdr decl) then binding_ignore name dl
      else if oCar decl = LSym sym_ignore then
        bind_res (member_equal name (oCdr decl)) (\<lambda>b. if b then Inr IGNORE else binding_ignore name dl)
      else if oCar decl = LSym sym_ignorable then
        bind_res (member_equal name (oCdr decl)) (\<lambda>b. if b then Inr IGNORABLE else binding_ignore name dl)
      else binding_ignore name dl)"

definition not_type_specs :: "lisp list" where
  "not_type_specs = map LSym [sym_ftype, sym_inline, sym_notinline, sym_optimize, sym_special,
     sym_lambdaName, sym_lambdaList]"

text \<open>What one declaration says about a variable: nothing, a specifier, or a list to be made.\<close>

definition var_decl :: "lisp \<Rightarrow> lisp \<Rightarrow> cerror + (lisp + lisp list) option" where
  "var_decl varname decl =
     (if \<not> consp decl \<or> \<not> consp (oCdr decl) then Inr None
      else
        let spec = oCar decl; rest = oCdr decl in
        if spec \<in> {LSym sym_dynamic_extent, LSym sym_ignore, LSym sym_ignorable} then
          bind_res (member_eq varname rest) (\<lambda>b. Inr (if b then Some (Inl spec) else None))
        else if spec = LSym sym_type \<and> consp (oCdr rest) then
          bind_res (member_eq varname (oCdr rest)) (\<lambda>b. Inr (if b then Some (Inr [spec, oCar rest]) else None))
        else if spec \<notin> set not_type_specs then
          bind_res (member_eq varname rest) (\<lambda>b. Inr (if b then Some (Inr [LSym sym_type, spec]) else None))
        else Inr None)"

text \<open>The search for \<open>#'f\<close> among the names of a declaration; only \<open>EQ\<close> function names are found.\<close>

fun mentions_function :: "lisp \<Rightarrow> lisp \<Rightarrow> cerror + bool" where
  "mentions_function funname LNil = Inr False"
| "mentions_function funname (LCons _ n rest) =
     (if consp n \<and> oCar n = LSym sym_function then
        bind_res (lcadr n) (\<lambda>m.
          if eq_lisp m funname then
            bind_res (lcddr n) (\<lambda>t. if t = LNil then Inr True else mentions_function funname rest)
          else mentions_function funname rest)
      else mentions_function funname rest)"
| "mentions_function funname x = Inl (TypeErr x)"

definition fun_decl :: "lisp \<Rightarrow> lisp \<Rightarrow> cerror + (lisp + lisp list) option" where
  "fun_decl funname decl =
     (if \<not> consp decl \<or> \<not> consp (oCdr decl) then Inr None
      else
        let spec = oCar decl; rest = oCdr decl in
        if spec \<in> {LSym sym_dynamic_extent, LSym sym_ignore, LSym sym_ignorable} then
          bind_res (mentions_function funname rest) (\<lambda>b. Inr (if b then Some (Inl spec) else None))
        else if spec \<in> {LSym sym_inline, LSym sym_notinline} then
          bind_res (member_eq funname rest) (\<lambda>b. Inr (if b then Some (Inl spec) else None))
        else if spec = LSym sym_ftype \<and> consp (oCdr rest) then
          bind_res (member_eq funname (oCdr rest)) (\<lambda>b. Inr (if b then Some (Inr [spec, oCar rest]) else None))
        else Inr None)"

text \<open>The loops over the declarations; the lists are made as they are found.\<close>

fun collect_decls :: "(lisp \<Rightarrow> cerror + (lisp + lisp list) option) \<Rightarrow> lisp list \<Rightarrow> comp
    \<Rightarrow> cerror + comp \<times> lisp list" where
  "collect_decls f [] c = Inr (c, [])"
| "collect_decls f (decl # dl) c =
     bind_res (f decl) (\<lambda>r.
       case r of
         None \<Rightarrow> collect_decls f dl c
       | Some (Inl spec) \<Rightarrow> bind_res (collect_decls f dl c) (\<lambda>(c', ds). Inr (c', spec # ds))
       | Some (Inr xs) \<Rightarrow>
           (case new_list xs c of (c1, x) \<Rightarrow>
              bind_res (collect_decls f dl c1) (\<lambda>(c', ds). Inr (c', x # ds))))"

definition decls_for_var :: "lisp \<Rightarrow> lisp list \<Rightarrow> comp \<Rightarrow> cerror + comp \<times> lisp list" where
  "decls_for_var varname = collect_decls (var_decl varname)"

definition decls_for_fun :: "lisp \<Rightarrow> lisp list \<Rightarrow> comp \<Rightarrow> cerror + comp \<times> lisp list" where
  "decls_for_fun funname = collect_decls (fun_decl funname)"

fun extract_lambda_name_from_declares :: "lisp list \<Rightarrow> cerror + lisp" where
  "extract_lambda_name_from_declares [] = Inr LNil"
| "extract_lambda_name_from_declares (d # ds) =
     bind_res (as_list d) (\<lambda>decl.
       if oCar decl = LSym sym_lambdaName then lcadr decl else extract_lambda_name_from_declares ds)"

fun extract_lambda_list_from_declares :: "lisp list \<Rightarrow> lisp \<Rightarrow> cerror + lisp" where
  "extract_lambda_list_from_declares [] defaultll = Inr defaultll"
| "extract_lambda_list_from_declares (d # ds) defaultll =
     bind_res (as_list d) (\<lambda>decl.
       if oCar decl = LSym sym_lambdaList then lcdr decl else extract_lambda_list_from_declares ds defaultll)"

section \<open>Canonical declarations\<close>

text \<open>
  Each declaration about several names is broken into one per name; \<open>known\<close> tells the symbols
  that name a type or a class.  The canonical declarations grow at the front.
\<close>

definition is_a_type :: "(lisp \<Rightarrow> bool) \<Rightarrow> lisp \<Rightarrow> bool" where
  "is_a_type known form \<longleftrightarrow>
     form \<in> {LSym sym_T, LNil, LSym sym_sequence, LSym sym_simple_base_string} \<or>
     (symbolp form \<and> known form) \<or>
     (consp form \<and> (\<exists>xs. proper_items form = Inr xs) \<and> oCar form = LSym sym_member) \<or>
     (consp form \<and> oCar form = LSym sym_eql)"

definition per_name :: "lisp list \<Rightarrow> lisp \<Rightarrow> comp \<times> lisp list \<Rightarrow> cerror + comp \<times> lisp list" where
  "per_name front names st =
     for_each (\<lambda>x (c, canon). case new_list (front @ [x]) c of (c', d) \<Rightarrow> Inr (c', d # canon)) names st"

definition maybe_canonicalize_declaration :: "lisp \<Rightarrow> comp \<times> lisp list \<Rightarrow> cerror + comp \<times> lisp list" where
  "maybe_canonicalize_declaration decl st =
     bind_res (need_symbol (oCar decl)) (\<lambda>s.
     bind_res (lcddr decl) (\<lambda>too_many.
       if too_many \<noteq> LNil then bind_res (as_list (oCdr decl)) (\<lambda>names. per_name [s] names st)
       else Inr (fst st, decl # snd st)))"

definition optimize_qualities :: "lisp list" where
  "optimize_qualities = map LSym [sym_speed, sym_space, sym_safety, sym_debug, sym_compilation_speed]"

definition maybe_canonicalize_optimize_declaration ::
    "lisp \<Rightarrow> comp \<times> lisp list \<Rightarrow> cerror + comp \<times> lisp list" where
  "maybe_canonicalize_optimize_declaration decl st =
     bind_res (as_list (oCdr decl)) (\<lambda>qualities.
       for_each (\<lambda>d (c, canon).
           case (if d \<in> set optimize_qualities then new_list [d, LFix 3] c else (c, d)) of
             (c1, q) \<Rightarrow> (case new_list [LSym sym_optimize, q] c1 of (c2, x) \<Rightarrow> Inr (c2, x # canon)))
         qualities st)"

definition ignored_declarations :: "lisp list" where
  "ignored_declarations = map LSym [sym_c_local, sym_type_assertions, kw_read_only, sym_array_index, sym_index,
     sym_check_arguments_type, sym_assume_no_errors]"

text \<open>\<open>(ftype t f ...)\<close> and \<open>(type t v ...)\<close>: one name is kept as it is.\<close>

definition canonicalize_typed :: "lisp \<Rightarrow> lisp \<Rightarrow> comp \<times> lisp list \<Rightarrow> cerror + comp \<times> lisp list" where
  "canonicalize_typed head d st =
     bind_res (lcdddr d) (\<lambda>more_than_one.
       if more_than_one = LNil then Inr (fst st, d # snd st)
       else bind_res (lcadr d) (\<lambda>t.
            bind_res (bind_res (lcddr d) as_list) (\<lambda>names. per_name [head, t] names st)))"

definition canonicalize_one ::
    "(lisp \<Rightarrow> bool) \<Rightarrow> lisp \<Rightarrow> comp \<times> lisp list \<Rightarrow> cerror + comp \<times> lisp list" where
  "canonicalize_one known decl st =
     bind_res (as_cons decl) (\<lambda>d.
       let head = oCar d in
       if head \<in> LSym ` {sym_dynamic_extent, sym_ignore, sym_inline, sym_special, sym_ignorable, sym_notinline}
       then maybe_canonicalize_declaration d st
       else if head = LSym sym_ftype then canonicalize_typed head d st
       else if head = LSym sym_optimize then maybe_canonicalize_optimize_declaration d st
       else if head = LSym sym_lambdaName then Inr (fst st, d # snd st)
       else if head = LSym sym_type then canonicalize_typed head d st
       else if head \<in> set ignored_declarations then Inr st
       else if is_a_type known head
       then bind_res (as_list (oCdr d)) (\<lambda>names. per_name [LSym sym_type, head] names st)
       else Inr (fst st, d # snd st))"

definition canonicalize_declarations ::
    "(lisp \<Rightarrow> bool) \<Rightarrow> lisp \<Rightarrow> comp \<Rightarrow> cerror + comp \<times> lisp list" where
  "canonicalize_declarations known dl c = for_each (canonicalize_one known) dl (c, [])"

section \<open>What a body is made of\<close>

text \<open>
  A body is recovered from its parts: the conses before the code hold declarations or
  documentation only, and the declarations are those of the \<open>declare\<close> expressions in order.
\<close>

fun body_prefix :: "host \<Rightarrow> bool \<Rightarrow> lisp list \<Rightarrow> lisp list \<Rightarrow> bool" where
  "body_prefix h expect_doc [] ds = (ds = [])"
| "body_prefix h expect_doc (form # forms) ds =
     (if expect_doc \<and> h_stringp h form then body_prefix h expect_doc forms ds
      else consp form \<and> oCar form = LSym sym_declare \<and>
        (\<exists>xs ys. proper_items (oCdr form) = Inr xs \<and> ds = xs @ ys \<and> body_prefix h expect_doc forms ys))"

definition code_starts :: "host \<Rightarrow> bool \<Rightarrow> lisp \<Rightarrow> bool" where
  "code_starts h expect_doc code \<longleftrightarrow>
     (case code of
        LCons _ form body \<Rightarrow>
          (if expect_doc \<and> h_stringp h form then body = LNil
           else \<not> consp form \<or> oCar form \<noteq> LSym sym_declare)
      | _ \<Rightarrow> code = LNil)"

fun lisp_append :: "lisp list \<Rightarrow> lisp \<Rightarrow> lisp \<Rightarrow> bool" where
  "lisp_append [] code body = (body = code)"
| "lisp_append (x # xs) code body = (\<exists>i d. body = LCons i x d \<and> lisp_append xs code d)"

text \<open>The variables a declaration makes special, in order.\<close>

definition special_names :: "lisp \<Rightarrow> lisp list" where
  "special_names decl = (if oCar decl = LSym sym_special then lisp_list (oCdr decl) else [])"

lemma extract_specials_eq:
  "extract_specials sentence specials = Inr r \<Longrightarrow>
   r = rev (lisp_list sentence) @ specials \<and> (\<forall>v \<in> set (lisp_list sentence). symbolp v)"
  by (induction sentence specials rule: extract_specials.induct)
     (auto simp: bind_res_Inr_iff split: if_splits)

lemma extract_sentences_eq:
  "extract_sentences cform declares specials = Inr (ds, sp) \<Longrightarrow>
   \<exists>xs. proper_items cform = Inr xs \<and> ds = rev xs @ declares \<and>
     sp = rev (concat (map special_names xs)) @ specials \<and>
     (\<forall>x \<in> set xs. \<forall>v \<in> set (special_names x). symbolp v)"
proof (induction cform declares specials arbitrary: ds sp rule: extract_sentences.induct)
  case (2 i s cform declares specials)
  from 2(2) obtain sentence head rest specials' where
    s: "as_list s = Inr sentence" "as_list cform = Inr cform" "lcar sentence = Inr head"
      "lcdr sentence = Inr rest" "as_list rest = Inr rest"
      "(if head = LSym sym_special then extract_specials rest specials else Inr specials) = Inr specials'"
      "extract_sentences cform (sentence # declares) specials' = Inr (ds, sp)"
    by (auto simp: bind_res_Inr_iff elim!: as_list.elims)
  have e: "sentence = s" "head = oCar s" "rest = oCdr s"
    using s(1,3,4) by (cases s; auto)+
  have "specials' = rev (special_names s) @ specials \<and> (\<forall>v \<in> set (special_names s). symbolp v)"
    using s(6) extract_specials_eq[of rest specials specials'] e by (auto simp: special_names_def split: if_splits)
  moreover obtain xs where "proper_items cform = Inr xs" "ds = rev xs @ sentence # declares"
    "sp = rev (concat (map special_names xs)) @ specials'" "\<forall>x \<in> set xs. \<forall>v \<in> set (special_names x). symbolp v"
    using "2.IH"[OF s(7)] by blast
  ultimately show ?case by (intro exI[of _ "s # xs"]) (simp add: e)
qed simp_all

lemma extract_loop_eq:
  "extract_loop h expect_doc body declares doc specials = Inr pb \<Longrightarrow>
   \<exists>forms ds. lisp_append forms (pb_code pb) body \<and> body_prefix h expect_doc forms ds \<and>
     pb_declares pb = rev declares @ ds \<and>
     pb_specials pb = rev (concat (map special_names ds)) @ specials \<and>
     (\<forall>x \<in> set ds. \<forall>v \<in> set (special_names x). symbolp v) \<and> code_starts h expect_doc (pb_code pb)"
proof (induction h expect_doc body declares doc specials arbitrary: pb rule: extract_loop.induct)
  case (1 h expect_doc declares doc specials)
  then show ?case by (intro exI[of _ "[]"]) (auto simp: code_starts_def)
next
  case (2 h expect_doc i form body declares doc specials)
  consider (stop) "pb = \<lparr>pb_declares = rev declares, pb_doc = doc, pb_code = LCons i form body, pb_specials = specials\<rparr>"
      "if expect_doc \<and> h_stringp h form then body = LNil else \<not> consp form \<or> oCar form \<noteq> LSym sym_declare"
    | (doc) "expect_doc" "h_stringp h form" "body \<noteq> LNil"
    | (decl) "\<not> (expect_doc \<and> h_stringp h form)" "consp form" "oCar form = LSym sym_declare"
    using "2.prems" by (auto simp: Let_def split: if_splits)
  then show ?case
  proof cases
    case stop
    then show ?thesis by (intro exI[of _ "[]"]) (auto simp: code_starts_def)
  next
    case doc
    with "2.prems" obtain body' where b: "as_list body = Inr body'"
      "extract_loop h expect_doc body declares form specials = Inr pb"
      by (auto simp: Let_def bind_res_Inr_iff)
    from "2.IH"(1)[OF refl _ _ b(2)] doc obtain forms ds where
      "lisp_append forms (pb_code pb) body" "body_prefix h expect_doc forms ds"
      "pb_declares pb = rev declares @ ds" "pb_specials pb = rev (concat (map special_names ds)) @ specials"
      "\<forall>x \<in> set ds. \<forall>v \<in> set (special_names x). symbolp v" "code_starts h expect_doc (pb_code pb)"
      by blast
    with doc show ?thesis by (intro exI[of _ "form # forms"] exI[of _ ds]) auto
  next
    case decl
    then have "bind_res (bind_res (lcdr form) as_list) (\<lambda>cform.
        bind_res (extract_sentences cform declares specials) (\<lambda>(declares', specials').
        bind_res (as_list body) (\<lambda>body'. extract_loop h expect_doc body declares' doc specials'))) = Inr pb"
      using "2.prems" by (simp only: extract_loop.simps Let_def if_False if_True simp_thms)
    then obtain cform ds1 sp1 body' where b: "bind_res (lcdr form) as_list = Inr cform"
      "extract_sentences cform declares specials = Inr (ds1, sp1)" "as_list body = Inr body'"
      "extract_loop h expect_doc body ds1 doc sp1 = Inr pb"
      unfolding bind_res_Inr_iff by (auto simp: bind_res_Inr_iff)
    have cf: "cform = oCdr form" using b(1) decl(2) by (cases form) (auto elim: as_list.elims)
    obtain xs where xs: "proper_items cform = Inr xs" "ds1 = rev xs @ declares"
      "sp1 = rev (concat (map special_names xs)) @ specials" "\<forall>x \<in> set xs. \<forall>v \<in> set (special_names x). symbolp v"
      using extract_sentences_eq[OF b(2)] by blast
    from "2.IH"(2)[OF refl _ _ b(4)] decl obtain forms ds where
      "lisp_append forms (pb_code pb) body" "body_prefix h expect_doc forms ds"
      "pb_declares pb = rev ds1 @ ds" "pb_specials pb = rev (concat (map special_names ds)) @ sp1"
      "\<forall>x \<in> set ds. \<forall>v \<in> set (special_names x). symbolp v" "code_starts h expect_doc (pb_code pb)"
      by blast
    with decl xs cf show ?thesis by (intro exI[of _ "form # forms"] exI[of _ "xs @ ds"]) auto
  qed
qed simp_all


definition sample_body :: lisp where
  "sample_body = lisp_of 0 [lisp_of 0 [LSym sym_declare, lisp_of 0 [LSym sym_special, LSym 160],
     lisp_of 0 [LSym sym_ignore, LSym 161]], LFix 5]"


end
