(* ===== verification/LambdaList.thy ===== *)
theory LambdaList
  imports LispData
begin

text \<open>
  Lambda lists (\<open>lambdaListHandler.cc\<close>): the state machine that reads the parameters of a lambda
  list in each of the contexts that have one, and the lists derived from what it found.
\<close>

section \<open>Modes\<close>

datatype argument_mode =
  RequiredMode | OptionalMode | DotRestMode | RestMode | VaRestMode | KeywordMode | AllowOtherKeysMode | AuxMode

datatype ll_context =
    CtxFunction
  | CtxMethod
  | CtxDefmacro
  | CtxDefineCompilerMacro
  | CtxDestructuringBind
  | CtxDeftype
  | CtxT
  | CtxGenericFunction
  | CtxDefsetf
  | CtxDefineModifyMacro
  | CtxDefineMethodCombination
  | CtxOther lisp

datatype mode_switch = Stay | BadMode | NewMode argument_mode

text \<open>What a symbol means in each mode; \<open>&body\<close> is a name of \<open>&rest\<close>.\<close>

definition before_rest :: "lisp \<Rightarrow> mode_switch option" where
  "before_rest s =
     (if s \<in> {LSym sym_AMPrest, LSym sym_AMPbody} then Some (NewMode RestMode)
      else if s = LSym sym_AMPva_rest then Some (NewMode VaRestMode)
      else if s = LSym sym_AMPkey then Some (NewMode KeywordMode)
      else if s = LSym sym_AMPaux then Some (NewMode AuxMode)
      else if s = LSym sym_AMPallow_other_keys then Some BadMode
      else if s = LSym sym_DOT then Some (NewMode DotRestMode)
      else None)"

definition after_rest :: "lisp \<Rightarrow> mode_switch" where
  "after_rest s =
     (if s \<in> LSym ` {sym_AMPoptional, sym_AMPrest, sym_AMPbody, sym_AMPva_rest} then BadMode
      else if s = LSym sym_AMPkey then NewMode KeywordMode
      else if s = LSym sym_AMPaux then NewMode AuxMode
      else if s = LSym sym_AMPallow_other_keys then BadMode
      else if s = LSym sym_DOT then NewMode DotRestMode
      else Stay)"

fun next_mode :: "argument_mode \<Rightarrow> lisp \<Rightarrow> mode_switch" where
  "next_mode RequiredMode s =
     (if s = LSym sym_AMPoptional then NewMode OptionalMode
      else case before_rest s of Some r \<Rightarrow> r | None \<Rightarrow> Stay)"
| "next_mode OptionalMode s =
     (if s = LSym sym_AMPoptional then BadMode
      else case before_rest s of Some r \<Rightarrow> r | None \<Rightarrow> Stay)"
| "next_mode RestMode s = after_rest s"
| "next_mode VaRestMode s = after_rest s"
| "next_mode KeywordMode s =
     (if s \<in> LSym ` {sym_AMPoptional, sym_AMPrest, sym_AMPbody, sym_AMPva_rest, sym_AMPkey} then BadMode
      else if s = LSym sym_AMPaux then NewMode AuxMode
      else if s = LSym sym_AMPallow_other_keys then NewMode AllowOtherKeysMode
      else Stay)"
| "next_mode AllowOtherKeysMode s =
     (if s \<in> LSym ` {sym_AMPoptional, sym_AMPrest, sym_AMPbody, sym_AMPva_rest, sym_AMPkey} then BadMode
      else if s = LSym sym_AMPaux then NewMode AuxMode
      else if s = LSym sym_AMPallow_other_keys then BadMode
      else Stay)"
| "next_mode AuxMode s =
     (if s \<in> LSym ` {sym_AMPoptional, sym_AMPrest, sym_AMPbody, sym_AMPva_rest, sym_AMPkey, sym_AMPaux,
                    sym_AMPallow_other_keys} then BadMode else Stay)"
| "next_mode DotRestMode s =
     (if s \<in> LSym ` {sym_AMPoptional, sym_AMPrest, sym_AMPbody, sym_AMPva_rest, sym_AMPkey, sym_AMPaux,
                    sym_AMPallow_other_keys} then BadMode else Stay)"

text \<open>
  The check of the new mode against the context.  The condition for \<open>dot_rest\<close> has a symbol where a
  comparison was meant and is never true.
\<close>

definition mode_illegal :: "ll_context \<Rightarrow> argument_mode \<Rightarrow> bool" where
  "mode_illegal context mode =
     (case mode of
        KeywordMode \<Rightarrow> context = CtxDefineModifyMacro
      | AllowOtherKeysMode \<Rightarrow> context = CtxDefineModifyMacro
      | AuxMode \<Rightarrow> context \<in> {CtxGenericFunction, CtxDefsetf, CtxDefineModifyMacro}
      | _ \<Rightarrow> False)"

text \<open>The result says whether the mode was switched, and to which.\<close>

definition switch_add_argument_mode :: "ll_context \<Rightarrow> lisp \<Rightarrow> argument_mode \<Rightarrow> cerror + argument_mode option" where
  "switch_add_argument_mode context s mode =
     (case next_mode mode s of
        Stay \<Rightarrow> Inr None
      | BadMode \<Rightarrow> Inl LambdaListError
      | NewMode m \<Rightarrow> if mode_illegal context m then Inl LambdaListError else Inr (Some m))"

definition throw_if_invalid_context :: "ll_context \<Rightarrow> cerror + unit" where
  "throw_if_invalid_context context =
     (if context \<in> {CtxDefmacro, CtxDefineCompilerMacro, CtxFunction, CtxMethod, CtxDestructuringBind,
                    CtxDeftype, CtxT} then Inr () else Inl LambdaListError)"

section \<open>Parsing\<close>

record optional_arg =
  o_target :: lisp
  o_default :: lisp
  o_sensor :: lisp

record keyword_arg =
  k_keyword :: lisp
  k_target :: lisp
  k_default :: lisp
  k_sensor :: lisp

record lambda_args =
  ll_reqs :: "lisp list"
  ll_optionals :: "optional_arg list"
  ll_rest :: lisp
  ll_va_rest :: bool
  ll_key_flag :: bool
  ll_keys :: "keyword_arg list"
  ll_allow_other_keys :: bool
  ll_auxs :: "(lisp \<times> lisp) list"

definition no_args :: lambda_args where
  "no_args = \<lparr>ll_reqs = [], ll_optionals = [], ll_rest = LNil, ll_va_rest = False, ll_key_flag = False,
     ll_keys = [], ll_allow_other_keys = False, ll_auxs = []\<rparr>"

definition checkTargetArgument :: "lisp \<Rightarrow> cerror + unit" where
  "checkTargetArgument arg = (if arg = LSym sym_T then Inl LambdaListError else Inr ())"

text \<open>The default and the supplied-p variable of \<open>(target default supplied)\<close>.\<close>

definition default_and_sensor :: "lisp \<Rightarrow> lisp \<Rightarrow> cerror + lisp \<times> lisp" where
  "default_and_sensor dd carg =
     bind_res (lcdr carg) (\<lambda>d.
       if d = LNil then Inr (dd, LNil)
       else bind_res (lcadr carg) (\<lambda>dflt.
            bind_res (lcddr carg) (\<lambda>dd'.
              if dd' = LNil then Inr (dflt, LNil)
              else bind_res (lcaddr carg) (\<lambda>s. Inr (dflt, s)))))"

definition parse_optional :: "lisp \<Rightarrow> lisp \<Rightarrow> cerror + optional_arg" where
  "parse_optional dd oarg =
     (if consp oarg then
        bind_res (lcar oarg) (\<lambda>sarg.
        bind_res (default_and_sensor dd oarg) (\<lambda>(dflt, s).
        bind_res (checkTargetArgument sarg) (\<lambda>_.
          Inr \<lparr>o_target = sarg, o_default = dflt, o_sensor = s\<rparr>)))
      else bind_res (checkTargetArgument oarg) (\<lambda>_.
          Inr \<lparr>o_target = oarg, o_default = dd, o_sensor = LNil\<rparr>))"

text \<open>
  A keyword parameter: the keyword is derived from the target unless it is given.  The check for \<open>T\<close>
  is made on the keyword.
\<close>

definition parse_keyword :: "host \<Rightarrow> lisp \<Rightarrow> lisp \<Rightarrow> cerror + keyword_arg" where
  "parse_keyword h dd oarg =
     (if symbolp oarg then
        bind_res (checkTargetArgument (h_keyword h oarg)) (\<lambda>_.
          Inr \<lparr>k_keyword = h_keyword h oarg, k_target = oarg, k_default = dd, k_sensor = LNil\<rparr>)
      else if consp oarg then
        bind_res (lcar oarg) (\<lambda>head.
        bind_res (if consp head
                  then bind_res (bind_res (lcar head) need_symbol) (\<lambda>kw.
                       bind_res (lcadr head) (\<lambda>t. Inr (kw, t)))
                  else bind_res (need_symbol head) (\<lambda>t. Inr (h_keyword h t, t))) (\<lambda>(kw, t).
        bind_res (default_and_sensor dd oarg) (\<lambda>(dflt, s).
        bind_res (checkTargetArgument kw) (\<lambda>_.
          Inr \<lparr>k_keyword = kw, k_target = t, k_default = dflt, k_sensor = s\<rparr>))))
      else Inl LambdaListError)"

definition parse_aux :: "lisp \<Rightarrow> cerror + lisp \<times> lisp" where
  "parse_aux oarg =
     (if consp oarg then
        bind_res (bind_res (lcar oarg) need_symbol) (\<lambda>s.
        bind_res (lcdr oarg) (\<lambda>d. if d = LNil then Inr (s, LNil) else bind_res (lcadr oarg) (\<lambda>e. Inr (s, e))))
      else Inr (oarg, LNil))"

definition parse_rest :: "bool \<Rightarrow> lisp \<Rightarrow> lambda_args \<Rightarrow> cerror + lambda_args" where
  "parse_rest va oarg st =
     (if ll_rest st \<noteq> LNil then Inl LambdaListError
      else bind_res (checkTargetArgument oarg) (\<lambda>_. Inr (st\<lparr>ll_rest := oarg, ll_va_rest := va\<rparr>)))"

text \<open>One parameter in a mode; \<open>rest\<close> is the list behind it.\<close>

fun add_argument :: "host \<Rightarrow> lisp \<Rightarrow> argument_mode \<Rightarrow> lisp \<Rightarrow> lisp \<Rightarrow> lambda_args \<Rightarrow> cerror + lambda_args" where
  "add_argument h dd RequiredMode oarg rest st =
     bind_res (checkTargetArgument oarg) (\<lambda>_. Inr (st\<lparr>ll_reqs := ll_reqs st @ [oarg]\<rparr>))"
| "add_argument h dd OptionalMode oarg rest st =
     bind_res (parse_optional dd oarg) (\<lambda>a. Inr (st\<lparr>ll_optionals := ll_optionals st @ [a]\<rparr>))"
| "add_argument h dd RestMode oarg rest st = parse_rest False oarg st"
| "add_argument h dd VaRestMode oarg rest st = parse_rest True oarg st"
| "add_argument h dd DotRestMode oarg rest st =
     (if rest \<noteq> LNil then Inl LambdaListError
      else bind_res (checkTargetArgument oarg) (\<lambda>_. Inr (st\<lparr>ll_rest := oarg\<rparr>)))"
| "add_argument h dd KeywordMode oarg rest st =
     bind_res (parse_keyword h dd oarg) (\<lambda>a. Inr (st\<lparr>ll_keys := ll_keys st @ [a]\<rparr>))"
| "add_argument h dd AllowOtherKeysMode oarg rest st = Inl LambdaListError"
| "add_argument h dd AuxMode oarg rest st =
     bind_res (parse_aux oarg) (\<lambda>a. Inr (st\<lparr>ll_auxs := ll_auxs st @ [a]\<rparr>))"

text \<open>A switch of mode sets the flags that go with it.\<close>

definition enter_mode :: "argument_mode \<Rightarrow> lambda_args \<Rightarrow> lambda_args" where
  "enter_mode m st =
     (case m of
        KeywordMode \<Rightarrow> st\<lparr>ll_key_flag := True\<rparr>
      | AllowOtherKeysMode \<Rightarrow> st\<lparr>ll_allow_other_keys := True\<rparr>
      | _ \<Rightarrow> st)"

text \<open>
  One element of the list: the mode it leaves behind, and the arguments so far.  After \<open>dot_rest\<close> the
  list is at its end, so that nothing follows.
\<close>

definition parse_element ::
    "host \<Rightarrow> ll_context \<Rightarrow> lisp \<Rightarrow> lisp \<Rightarrow> lisp \<Rightarrow> argument_mode \<times> lambda_args \<Rightarrow> cerror + argument_mode \<times> lambda_args" where
  "parse_element h context dd oarg rest ms =
     (case ms of (mode, st) \<Rightarrow>
        bind_res (if symbolp oarg then switch_add_argument_mode context oarg mode else Inr None) (\<lambda>sw.
          case sw of
            Some m \<Rightarrow> Inr (m, enter_mode m st)
          | None \<Rightarrow> bind_res (add_argument h dd mode oarg rest st) (\<lambda>st'. Inr (mode, st'))))"

text \<open>The tail of a dotted list becomes the rest parameter.\<close>

fun parse_loop :: "host \<Rightarrow> ll_context \<Rightarrow> lisp \<Rightarrow> lisp \<Rightarrow> argument_mode \<times> lambda_args \<Rightarrow> cerror + lambda_args" where
  "parse_loop h context dd LNil (mode, st) = Inr st"
| "parse_loop h context dd (LCons i oarg rest) (mode, st) =
     bind_res (parse_element h context dd oarg rest (mode, st)) (parse_loop h context dd rest)"
| "parse_loop h context dd ocur (mode, st) = Inr (st\<lparr>ll_rest := ocur\<rparr>)"

text \<open>
  \<open>quoted_star\<close> is the form \<open>'*\<close>, the default default of \<open>deftype\<close>.  The list itself must be a list;
  an empty one is accepted in every context.
\<close>

definition parse_lambda_list :: "host \<Rightarrow> ll_context \<Rightarrow> lisp \<Rightarrow> lisp \<Rightarrow> cerror + lambda_args" where
  "parse_lambda_list h context quoted_star lambda_list =
     bind_res (as_list lambda_list) (\<lambda>ll.
       if ll = LNil then Inr no_args
       else bind_res (throw_if_invalid_context context) (\<lambda>_.
              parse_loop h context (if context = CtxDeftype then quoted_star else LNil) ll
                (RequiredMode, no_args)))"

section \<open>Derived lists\<close>

definition sensor_names :: "lisp \<Rightarrow> lisp list" where
  "sensor_names s = (if s = LNil then [] else [s])"

definition lexical_variable_names :: "lambda_args \<Rightarrow> lisp list" where
  "lexical_variable_names a =
     ll_reqs a @ concat (map (\<lambda>it. o_target it # sensor_names (o_sensor it)) (ll_optionals a)) @
     sensor_names (ll_rest a) @ concat (map (\<lambda>it. k_target it # sensor_names (k_sensor it)) (ll_keys a)) @
     map fst (ll_auxs a)"

text \<open>The eight values of \<open>process-lambda-list\<close>, lists given by their elements.\<close>

definition process_lambda_list :: "host \<Rightarrow> ll_context \<Rightarrow> lisp \<Rightarrow> lisp \<Rightarrow>
    cerror + lisp list \<times> lisp list \<times> lisp \<times> bool \<times> lisp list \<times> bool \<times> lisp list \<times> bool" where
  "process_lambda_list h context quoted_star lambda_list =
     bind_res (parse_lambda_list h context quoted_star lambda_list) (\<lambda>a.
       Inr (LFix (int (length (ll_reqs a))) # ll_reqs a,
            LFix (int (length (ll_optionals a))) #
              concat (map (\<lambda>it. [o_target it, o_default it, o_sensor it]) (ll_optionals a)),
            ll_rest a, ll_key_flag a,
            LFix (int (length (ll_keys a))) #
              concat (map (\<lambda>it. [k_keyword it, k_target it, k_default it, k_sensor it]) (ll_keys a)),
            ll_allow_other_keys a,
            concat (map (\<lambda>(v, e). [v, e]) (ll_auxs a)),
            ll_va_rest a))"

definition display_items :: "lambda_args \<Rightarrow> lisp list" where
  "display_items a =
     ll_reqs a @
     (if ll_optionals a = [] then [] else LSym sym_AMPoptional # map o_target (ll_optionals a)) @
     (if ll_rest a = LNil then [] else [LSym sym_AMPrest, ll_rest a]) @
     (if ll_key_flag a then LSym sym_AMPkey # map k_keyword (ll_keys a) else []) @
     (if ll_allow_other_keys a then [LSym sym_AMPallow_other_keys] else [])"

definition lambda_list_for_name :: "host \<Rightarrow> lisp \<Rightarrow> cerror + lisp list" where
  "lambda_list_for_name h lambda_list =
     bind_res (parse_lambda_list h CtxFunction LNil lambda_list) (\<lambda>a. Inr (display_items a))"

text \<open>
  Trivial initializers: a list that mentions no seen symbol among its elements, or an atom that is
  not a seen symbol.
\<close>

definition initializerIsTrivial :: "lisp \<Rightarrow> lisp \<Rightarrow> cerror + bool" where
  "initializerIsTrivial seen initializer =
     (if consp initializer then
        bind_res (for_each (\<lambda>oseen b. if \<not> b then Inr b
                              else bind_res (member_eq oseen initializer) (\<lambda>found. Inr (\<not> found)))
                    seen True) Inr
      else if symbolp initializer \<and> consp seen
      then bind_res (member_eq initializer seen) (\<lambda>found. Inr (\<not> found))
      else Inr True)"

section \<open>Lambda lists of single dispatch methods and of macros\<close>

definition lambda_list_keywords :: "lisp list" where
  "lambda_list_keywords = map LSym [sym_AMPoptional, sym_AMPrest, sym_AMPbody, sym_AMPva_rest, sym_AMPkey,
     sym_AMPallow_other_keys, sym_AMPaux]"

fun lisp_length :: "lisp \<Rightarrow> cerror + nat" where
  "lisp_length LNil = Inr 0"
| "lisp_length (LCons _ _ d) = bind_res (lisp_length d) (\<lambda>n. Inr (Suc n))"
| "lisp_length x = Inl (TypeErr x)"

text \<open>
  The loop over a copy of the lambda list: the dispatched parameter \<open>(symbol class)\<close> is replaced by
  its symbol.  The dispatch is the symbol, the class and the index found so far; a symbol that is
  \<open>NIL\<close> counts as not found.
\<close>

fun dispatch_loop :: "lisp \<Rightarrow> nat \<Rightarrow> lisp \<times> lisp \<times> nat \<Rightarrow> cerror + lisp \<times> lisp \<times> lisp \<times> nat" where
  "dispatch_loop LNil idx d = Inr (LNil, d)"
| "dispatch_loop (LCons i arg rest) idx (sd_symbol, sd_class, dispatch_index) =
     (if symbolp arg then
        (if arg \<in> set lambda_list_keywords then Inr (LCons i arg rest, sd_symbol, sd_class, dispatch_index)
         else bind_res (dispatch_loop rest (Suc idx) (sd_symbol, sd_class, dispatch_index)) (\<lambda>(ll, d).
                Inr (LCons i arg ll, d)))
      else if consp arg then
        bind_res (lisp_length arg) (\<lambda>n.
          if n \<noteq> 2 \<or> sd_symbol \<noteq> LNil then Inl LambdaListError
          else
            bind_res (bind_res (lcar arg) need_symbol) (\<lambda>s.
            bind_res (bind_res (lcadr arg) need_symbol) (\<lambda>cl.
            bind_res (dispatch_loop rest (Suc idx) (s, cl, idx)) (\<lambda>(ll, d).
              Inr (LCons i s ll, d)))))
      else Inl LambdaListError)"
| "dispatch_loop x idx d = Inl (TypeErr x)"

definition process_single_dispatch_lambda_list :: "lisp \<Rightarrow> bool \<Rightarrow> cerror + lisp \<times> lisp \<times> lisp \<times> nat" where
  "process_single_dispatch_lambda_list llraw allow_first_argument_default_dispatcher =
     bind_res (dispatch_loop llraw 0 (LNil, LNil, 0)) (\<lambda>(ll, sd_symbol, sd_class, i).
       if sd_symbol \<noteq> LNil then Inr (ll, sd_symbol, sd_class, i)
       else if allow_first_argument_default_dispatcher then
         bind_res (bind_res (lcar ll) need_symbol) (\<lambda>s. Inr (ll, s, sd_class, i))
       else Inl LambdaListError)"

text \<open>
  The lambda list of a macro: \<open>&whole\<close> and \<open>&environment\<close> with their variables are taken out and
  prefixed as required parameters, in front of a destructuring parameter \<open>(name . rest)\<close>; a variable
  that is not given (or is \<open>NIL\<close>) is a fresh symbol.  The first \<open>&environment\<close> behind the head is
  removed from the copy of the list.
\<close>

fun remove_environment :: "lisp \<Rightarrow> cerror + lisp \<times> lisp" where
  "remove_environment LNil = Inr (LNil, LNil)"
| "remove_environment (LCons i a d) =
     (if a = LSym sym_AMPenvironment then
        bind_res (bind_res (lcar d) need_symbol) (\<lambda>s.
        bind_res (lcdr d) (\<lambda>rest. Inr (s, rest)))
      else
        bind_res (as_list d) (\<lambda>d'.
        bind_res (remove_environment d) (\<lambda>(s, rest). Inr (s, LCons i a rest))))"
| "remove_environment x = Inl (TypeErr x)"

definition take_keyword :: "nat \<Rightarrow> lisp \<Rightarrow> cerror + lisp \<times> lisp" where
  "take_keyword kw ll =
     (if oCar ll = LSym kw then
        bind_res (bind_res (lcadr ll) need_symbol) (\<lambda>s.
        bind_res (bind_res (lcddr ll) as_list) (\<lambda>rest. Inr (s, rest)))
      else Inr (LNil, ll))"

definition named_or_gensym :: "host \<Rightarrow> lisp \<Rightarrow> comp \<Rightarrow> comp \<times> lisp" where
  "named_or_gensym h s c = (if s = LNil then new_gensym h c else (c, s))"

definition process_macro_lambda_list :: "host \<Rightarrow> lisp \<Rightarrow> comp \<Rightarrow> cerror + comp \<times> lisp" where
  "process_macro_lambda_list h lambda_list c =
     bind_res (as_list lambda_list) (\<lambda>ll.
     bind_res (take_keyword sym_AMPwhole ll) (\<lambda>(whole, ll1).
     bind_res (if oCar ll1 = LSym sym_AMPenvironment then take_keyword sym_AMPenvironment ll1
               else bind_res (bind_res (lcdr ll1) as_list) (\<lambda>d.
                    bind_res (remove_environment d) (\<lambda>(s, rest).
                      Inr (s, case ll1 of LCons i a _ \<Rightarrow> LCons i a rest | _ \<Rightarrow> ll1)))) (\<lambda>(environment, ll2).
       case named_or_gensym h whole c of
         (c1, whole_symbol) \<Rightarrow>
         (case named_or_gensym h environment c1 of
            (c2, environment_symbol) \<Rightarrow>
            (case new_gensym h c2 of
               (c3, name_symbol) \<Rightarrow>
               (case new_cons name_symbol ll2 c3 of
                  (c4, destructuring) \<Rightarrow>
                    Inr (new_list [whole_symbol, environment_symbol, destructuring] c4)))))))"

section \<open>Lambda lists written out\<close>

text \<open>
  The lambda list that says everything about its parameters, and the parameters it can be written
  for: no parameter is \<open>T\<close> where the parser checks, none is a lambda list keyword where it would be
  taken for one.
\<close>

definition plain :: "lisp \<Rightarrow> bool" where
  "plain x \<longleftrightarrow> x \<noteq> LSym sym_T \<and> x \<notin> set lambda_list_keywords \<and> x \<noteq> LSym sym_DOT"

definition wf_args :: "lambda_args \<Rightarrow> bool" where
  "wf_args a \<longleftrightarrow>
     list_all plain (ll_reqs a) \<and> list_all (\<lambda>o'. o_target o' \<noteq> LSym sym_T) (ll_optionals a) \<and>
     plain (ll_rest a) \<and> (ll_va_rest a \<longrightarrow> ll_rest a \<noteq> LNil) \<and>
     list_all (\<lambda>k. symbolp (k_keyword k) \<and> k_keyword k \<noteq> LSym sym_T) (ll_keys a) \<and>
     (\<not> ll_key_flag a \<longrightarrow> ll_keys a = [] \<and> \<not> ll_allow_other_keys a) \<and>
     list_all (\<lambda>x. symbolp (fst x)) (ll_auxs a)"

definition unparse_lambda_list :: "lambda_args \<Rightarrow> lisp list" where
  "unparse_lambda_list a =
     ll_reqs a @
     (if ll_optionals a = [] then []
      else LSym sym_AMPoptional # map (\<lambda>x. lisp_of 0 [o_target x, o_default x, o_sensor x]) (ll_optionals a)) @
     (if ll_rest a = LNil then []
      else [LSym (if ll_va_rest a then sym_AMPva_rest else sym_AMPrest), ll_rest a]) @
     (if ll_key_flag a
      then LSym sym_AMPkey # map (\<lambda>k. lisp_of 0 [lisp_of 0 [k_keyword k, k_target k], k_default k, k_sensor k]) (ll_keys a)
      else []) @
     (if ll_allow_other_keys a then [LSym sym_AMPallow_other_keys] else []) @
     (if ll_auxs a = [] then [] else LSym sym_AMPaux # map (\<lambda>(v, e). lisp_of 0 [v, e]) (ll_auxs a))"

lemma lisp_of_simps [simp]:
  "lisp_of i [] = LNil" "lisp_of i (x # xs) = LCons i x (lisp_of i xs)"
  by (simp_all add: lisp_of_def)

lemma parse_items:
  assumes "\<And>x. x \<in> set xs \<Longrightarrow> \<not> symbolp x \<or> next_mode mode x = Stay"
    and "\<And>x r st. x \<in> set xs \<Longrightarrow> add_argument h dd mode x r st = Inr (f x st)"
  shows "parse_loop h context dd (lisp_of i (xs @ ys)) (mode, st) =
    parse_loop h context dd (lisp_of i ys) (mode, fold f xs st)"
  using assms
proof (induction xs arbitrary: st)
  case (Cons x xs)
  from Cons.prems(1)[of x] Cons.prems(2)[of x] have
    "parse_element h context dd x r (mode, st) = Inr (mode, f x st)" for r
    by (auto simp: parse_element_def switch_add_argument_mode_def)
  with Cons.IH[of "f x st"] Cons.prems show ?case by simp
qed simp

text \<open>The keyword that switches the mode of a function's lambda list.\<close>

lemma parse_switch:
  assumes "next_mode mode (LSym s) = NewMode m"
  shows "parse_loop h CtxFunction dd (lisp_of i (LSym s # ys)) (mode, st) =
    parse_loop h CtxFunction dd (lisp_of i ys) (m, enter_mode m st)"
  using assms
  by (cases m) (simp_all add: parse_element_def switch_add_argument_mode_def mode_illegal_def)

lemma plain_stays: "plain x \<Longrightarrow> next_mode RequiredMode x = Stay \<and> next_mode RestMode x = Stay \<and>
    next_mode VaRestMode x = Stay"
  by (simp add: plain_def lambda_list_keywords_def before_rest_def after_rest_def)

lemma plain_target: "plain x \<Longrightarrow> checkTargetArgument x = Inr ()"
  by (simp add: plain_def checkTargetArgument_def)

lemma fold_append_field:
  "fold (\<lambda>x st. st\<lparr>ll_reqs := ll_reqs st @ [g x]\<rparr>) xs st = st\<lparr>ll_reqs := ll_reqs st @ map g xs\<rparr>"
  "fold (\<lambda>x st. st\<lparr>ll_optionals := ll_optionals st @ [g' x]\<rparr>) xs st = st\<lparr>ll_optionals := ll_optionals st @ map g' xs\<rparr>"
  "fold (\<lambda>x st. st\<lparr>ll_keys := ll_keys st @ [g'' x]\<rparr>) xs st = st\<lparr>ll_keys := ll_keys st @ map g'' xs\<rparr>"
  "fold (\<lambda>x st. st\<lparr>ll_auxs := ll_auxs st @ [h' x]\<rparr>) xs st = st\<lparr>ll_auxs := ll_auxs st @ map h' xs\<rparr>"
  by (induction xs arbitrary: st) simp_all

lemma parse_reqs:
  assumes "list_all plain xs"
  shows "parse_loop h context dd (lisp_of i (xs @ ys)) (RequiredMode, st) =
     parse_loop h context dd (lisp_of i ys) (RequiredMode, st\<lparr>ll_reqs := ll_reqs st @ xs\<rparr>)"
proof -
  have "next_mode RequiredMode x = Stay" "checkTargetArgument x = Inr ()" if "x \<in> set xs" for x
    using that assms plain_stays plain_target by (auto simp: list_all_iff simp del: next_mode.simps)
  then show ?thesis
    by (subst parse_items[where f = "\<lambda>x st. st\<lparr>ll_reqs := ll_reqs st @ [x]\<rparr>"])
       (simp_all add: fold_append_field(1)[where g = "\<lambda>x. x", simplified] del: next_mode.simps)
qed

lemma parse_optionals:
  assumes "list_all (\<lambda>o'. o_target o' \<noteq> LSym sym_T) xs"
  shows "parse_loop h context dd (lisp_of i (map (\<lambda>x. lisp_of 0 [o_target x, o_default x, o_sensor x]) xs @ ys))
      (OptionalMode, st) =
    parse_loop h context dd (lisp_of i ys) (OptionalMode, st\<lparr>ll_optionals := ll_optionals st @ xs\<rparr>)"
proof -
  let ?g = "\<lambda>y. \<lparr>o_target = oCar y, o_default = oCar (oCdr y), o_sensor = oCar (oCdr (oCdr y))\<rparr>"
  have "map (?g \<circ> (\<lambda>x. lisp_of 0 [o_target x, o_default x, o_sensor x])) xs = xs" by (rule map_idI) simp
  then show ?thesis
    by (subst parse_items[where f = "\<lambda>x st. st\<lparr>ll_optionals := ll_optionals st @ [?g x]\<rparr>"])
       (use assms in \<open>auto simp: list_all_iff fold_append_field(2)[where g' = ?g] comp_def parse_optional_def
          default_and_sensor_def checkTargetArgument_def lcadr_def lcddr_def lcaddr_def\<close>)
qed

lemma parse_keys:
  assumes "list_all (\<lambda>k. symbolp (k_keyword k) \<and> k_keyword k \<noteq> LSym sym_T) xs"
  shows "parse_loop h context dd (lisp_of i
      (map (\<lambda>k. lisp_of 0 [lisp_of 0 [k_keyword k, k_target k], k_default k, k_sensor k]) xs @ ys)) (KeywordMode, st) =
    parse_loop h context dd (lisp_of i ys) (KeywordMode, st\<lparr>ll_keys := ll_keys st @ xs\<rparr>)"
proof -
  let ?g = "\<lambda>y. \<lparr>k_keyword = oCar (oCar y), k_target = oCar (oCdr (oCar y)), k_default = oCar (oCdr y),
    k_sensor = oCar (oCdr (oCdr y))\<rparr>"
  have "map (?g \<circ> (\<lambda>k. lisp_of 0 [lisp_of 0 [k_keyword k, k_target k], k_default k, k_sensor k])) xs = xs"
    by (rule map_idI) simp
  then show ?thesis
    by (subst parse_items[where f = "\<lambda>x st. st\<lparr>ll_keys := ll_keys st @ [?g x]\<rparr>"])
       (use assms in \<open>auto simp: list_all_iff fold_append_field(3)[where g'' = ?g] comp_def parse_keyword_def
          default_and_sensor_def checkTargetArgument_def lcadr_def lcddr_def lcaddr_def need_symbol_def\<close>)
qed

lemma parse_auxs:
  assumes "list_all (\<lambda>x. symbolp (fst x)) xs"
  shows "parse_loop h context dd (lisp_of i (map (\<lambda>(v, e). lisp_of 0 [v, e]) xs @ ys)) (AuxMode, st) =
    parse_loop h context dd (lisp_of i ys) (AuxMode, st\<lparr>ll_auxs := ll_auxs st @ xs\<rparr>)"
proof -
  let ?g = "\<lambda>y. (oCar y, oCar (oCdr y))"
  have "map (?g \<circ> (\<lambda>(v, e). lisp_of 0 [v, e])) xs = xs" by (simp add: comp_def split_beta)
  then show ?thesis
    by (subst parse_items[where f = "\<lambda>x st. st\<lparr>ll_auxs := ll_auxs st @ [?g x]\<rparr>"])
       (use assms in \<open>auto simp: list_all_iff fold_append_field(4)[where h' = ?g] parse_aux_def
          lcadr_def need_symbol_def\<close>)
qed

lemma keyword_modes:
  "next_mode RequiredMode (LSym sym_AMPoptional) = NewMode OptionalMode"
  "m \<in> {RequiredMode, OptionalMode} \<Longrightarrow> next_mode m (LSym sym_AMPrest) = NewMode RestMode"
  "m \<in> {RequiredMode, OptionalMode} \<Longrightarrow> next_mode m (LSym sym_AMPva_rest) = NewMode VaRestMode"
  "m \<in> {RequiredMode, OptionalMode, RestMode, VaRestMode} \<Longrightarrow> next_mode m (LSym sym_AMPkey) = NewMode KeywordMode"
  "next_mode KeywordMode (LSym sym_AMPallow_other_keys) = NewMode AllowOtherKeysMode"
  "m \<notin> {AuxMode, DotRestMode} \<Longrightarrow> next_mode m (LSym sym_AMPaux) = NewMode AuxMode"
  by (cases m; simp add: before_rest_def after_rest_def lambda_list_numbers)+

text \<open>The sections behind the required parameters, from the last to the first.\<close>

lemma parse_aux_section:
  assumes "m \<notin> {AuxMode, DotRestMode}" "list_all (\<lambda>x. symbolp (fst x)) xs" "ll_auxs st = []"
  shows "parse_loop h CtxFunction dd (lisp_of i (if xs = [] then []
      else LSym sym_AMPaux # map (\<lambda>(v, e). lisp_of 0 [v, e]) xs)) (m, st) = Inr (st\<lparr>ll_auxs := xs\<rparr>)"
  using assms(3) parse_switch[OF keyword_modes(6)[OF assms(1)]]
    parse_auxs[OF assms(2), where ys = "[]", unfolded append_Nil2 lisp_of_simps(1)]
  by (simp add: enter_mode_def del: lisp_of_simps(2))

text \<open>The keyword section, with what may follow it.\<close>

definition key_items :: "lambda_args \<Rightarrow> lisp list" where
  "key_items a =
     (if ll_key_flag a
      then LSym sym_AMPkey # map (\<lambda>k. lisp_of 0 [lisp_of 0 [k_keyword k, k_target k], k_default k, k_sensor k]) (ll_keys a)
      else []) @
     (if ll_allow_other_keys a then [LSym sym_AMPallow_other_keys] else []) @
     (if ll_auxs a = [] then [] else LSym sym_AMPaux # map (\<lambda>(v, e). lisp_of 0 [v, e]) (ll_auxs a))"

lemma parse_key_section:
  assumes w: "wf_args a" and m: "m \<in> {RequiredMode, OptionalMode, RestMode, VaRestMode}"
    and st: "ll_keys st = []" "\<not> ll_key_flag st" "\<not> ll_allow_other_keys st" "ll_auxs st = []"
  shows "parse_loop h CtxFunction dd (lisp_of i (key_items a)) (m, st) =
    Inr (st\<lparr>ll_key_flag := ll_key_flag a, ll_keys := ll_keys a,
      ll_allow_other_keys := ll_allow_other_keys a, ll_auxs := ll_auxs a\<rparr>)"
proof -
  let ?aux = "if ll_auxs a = [] then [] else LSym sym_AMPaux # map (\<lambda>(v, e). lisp_of 0 [v, e]) (ll_auxs a)"
  from w have aux: "list_all (\<lambda>x. symbolp (fst x)) (ll_auxs a)"
    and keys: "list_all (\<lambda>k. symbolp (k_keyword k) \<and> k_keyword k \<noteq> LSym sym_T) (ll_keys a)"
    by (simp_all add: wf_args_def)
  note last = parse_aux_section[OF _ aux]
  show ?thesis
  proof (cases "ll_key_flag a")
    case False
    with w st m last[of m st] show ?thesis by (auto simp: wf_args_def key_items_def)
  next
    case True
    note switch = parse_switch[OF keyword_modes(4)[OF m]] parse_switch[OF keyword_modes(5)]
    show ?thesis
    proof (cases "ll_allow_other_keys a")
      case False
      with True st show ?thesis
        by (simp add: key_items_def switch(1) parse_keys[OF keys] last enter_mode_def del: lisp_of_simps(2))
    next
      case aok: True
      have "parse_loop h CtxFunction dd (lisp_of i (LSym sym_AMPallow_other_keys # ?aux)) (KeywordMode, x) =
          Inr (x\<lparr>ll_allow_other_keys := True, ll_auxs := ll_auxs a\<rparr>)" if "ll_auxs x = []" for x
        using that by (subst switch(2), subst last) (simp_all add: enter_mode_def)
      with True aok st show ?thesis
        by (simp add: key_items_def switch(1) parse_keys[OF keys] enter_mode_def del: lisp_of_simps(2))
    qed
  qed
qed

text \<open>C0: a lambda list written out with its sections in order is parsed back into exactly its
  parameters: required, optional with defaults and supplied-p variables, rest or va-rest, keyword,
  \<open>&allow-other-keys\<close> and auxiliary ones.\<close>

theorem parse_unparse_lambda_list:
  assumes w: "wf_args a"
  shows "parse_lambda_list h CtxFunction q (lisp_of i (unparse_lambda_list a)) = Inr a"
proof -
  let ?opt = "if ll_optionals a = [] then []
      else LSym sym_AMPoptional # map (\<lambda>x. lisp_of 0 [o_target x, o_default x, o_sensor x]) (ll_optionals a)"
  let ?rest = "if ll_rest a = LNil then []
      else [LSym (if ll_va_rest a then sym_AMPva_rest else sym_AMPrest), ll_rest a]"
  let ?done = "\<lambda>st :: lambda_args. st\<lparr>ll_key_flag := ll_key_flag a, ll_keys := ll_keys a,
      ll_allow_other_keys := ll_allow_other_keys a, ll_auxs := ll_auxs a\<rparr>"
  let ?P = "\<lambda>xs m st. parse_loop h CtxFunction LNil (lisp_of i xs) (m, st)"
  define fresh :: "lambda_args \<Rightarrow> bool" where "fresh st \<longleftrightarrow> ll_keys st = [] \<and> \<not> ll_key_flag st \<and> \<not> ll_allow_other_keys st \<and>
    ll_auxs st = [] \<and> ll_rest st = LNil \<and> \<not> ll_va_rest st" for st
  have rest: "?P (?rest @ key_items a) m st =
      Inr (?done (st\<lparr>ll_rest := ll_rest a, ll_va_rest := ll_va_rest a\<rparr>))"
    if "fresh st" "m \<in> {RequiredMode, OptionalMode}" for m st
  proof (cases "ll_rest a = LNil")
    case True
    with w that parse_key_section[OF w, of m st] show ?thesis by (auto simp: fresh_def wf_args_def)
  next
    case False
    let ?m = "if ll_va_rest a then VaRestMode else RestMode"
    from w have "plain (ll_rest a)" by (simp add: wf_args_def)
    then have "next_mode ?m (ll_rest a) = Stay" "checkTargetArgument (ll_rest a) = Inr ()"
      using plain_stays plain_target by (simp_all split: if_splits)
    with that have "?P (ll_rest a # key_items a) ?m st =
        ?P (key_items a) ?m (st\<lparr>ll_rest := ll_rest a, ll_va_rest := ll_va_rest a\<rparr>)"
      by (cases "ll_va_rest a")
         (simp_all add: parse_element_def switch_add_argument_mode_def parse_rest_def fresh_def del: next_mode.simps)
    moreover have "?P (LSym (if ll_va_rest a then sym_AMPva_rest else sym_AMPrest) # ll_rest a # key_items a) m st =
        ?P (ll_rest a # key_items a) ?m st"
      using that(2) parse_switch[OF keyword_modes(2)] parse_switch[OF keyword_modes(3)]
      by (simp add: enter_mode_def del: lisp_of_simps(2))
    ultimately show ?thesis
      using False that parse_key_section[OF w, of ?m] by (simp add: fresh_def del: lisp_of_simps(2))
  qed
  have opt: "?P (?opt @ ?rest @ key_items a) RequiredMode st =
      Inr (?done (st\<lparr>ll_optionals := ll_optionals a, ll_rest := ll_rest a, ll_va_rest := ll_va_rest a\<rparr>))"
    if "fresh st" "ll_optionals st = []" for st
  proof (cases "ll_optionals a = []")
    case True
    with that rest[of st RequiredMode] show ?thesis by simp
  next
    case False
    from w have "list_all (\<lambda>o'. o_target o' \<noteq> LSym sym_T) (ll_optionals a)" by (simp add: wf_args_def)
    from parse_optionals[OF this] False that rest[of "st\<lparr>ll_optionals := ll_optionals a\<rparr>" OptionalMode]
    show ?thesis
      by (simp add: parse_switch[OF keyword_modes(1)] enter_mode_def fresh_def del: lisp_of_simps(2))
  qed
  have items: "unparse_lambda_list a = ll_reqs a @ ?opt @ ?rest @ key_items a"
    by (simp add: unparse_lambda_list_def key_items_def)
  have "fresh no_args" by (simp add: fresh_def no_args_def)
  moreover have "list_all plain (ll_reqs a)" using w by (simp add: wf_args_def)
  ultimately have loop: "?P (unparse_lambda_list a) RequiredMode no_args = Inr a"
    unfolding items
    by (subst parse_reqs, simp, subst opt) (simp_all add: fresh_def no_args_def)
  have "as_list (lisp_of i xs) = Inr (lisp_of i xs)" for xs by (cases xs) simp_all
  moreover have "lisp_of i (unparse_lambda_list a) = LNil \<Longrightarrow> a = no_args"
    using loop by (simp add: no_args_def)
  ultimately show ?thesis
    using loop by (auto simp: parse_lambda_list_def throw_if_invalid_context_def)
qed

section \<open>The order of the sections\<close>

definition keyword_rank :: "lisp \<Rightarrow> nat option" where
  "keyword_rank x =
     (if x = LSym sym_AMPoptional then Some 1
      else if x \<in> {LSym sym_AMPrest, LSym sym_AMPbody, LSym sym_AMPva_rest} then Some 2
      else if x = LSym sym_AMPkey then Some 3
      else if x = LSym sym_AMPallow_other_keys then Some 4
      else if x = LSym sym_AMPaux then Some 5
      else None)"

fun mode_rank :: "argument_mode \<Rightarrow> nat" where
  "mode_rank RequiredMode = 0"
| "mode_rank OptionalMode = 1"
| "mode_rank RestMode = 2"
| "mode_rank VaRestMode = 2"
| "mode_rank KeywordMode = 3"
| "mode_rank AllowOtherKeysMode = 4"
| "mode_rank AuxMode = 5"
| "mode_rank DotRestMode = 5"

lemma keyword_rank_symbol: "keyword_rank x = Some n \<Longrightarrow> symbolp x"
  by (auto simp: keyword_rank_def split: if_splits)

lemma keyword_rank_cases:
  assumes "keyword_rank x = Some n"
  obtains "x = LSym sym_AMPoptional" "n = 1" | "x = LSym sym_AMPrest" "n = 2" | "x = LSym sym_AMPbody" "n = 2"
    | "x = LSym sym_AMPva_rest" "n = 2" | "x = LSym sym_AMPkey" "n = 3"
    | "x = LSym sym_AMPallow_other_keys" "n = 4" | "x = LSym sym_AMPaux" "n = 5"
  using assms by (auto simp: keyword_rank_def split: if_splits)

lemma next_mode_ranks:
  assumes "keyword_rank x = Some n"
  shows "next_mode m x \<noteq> Stay" "next_mode m x = NewMode m' \<Longrightarrow> mode_rank m < n \<and> n = mode_rank m'"
  using assms
  by (cases rule: keyword_rank_cases; cases m;
      simp add: before_rest_def after_rest_def lambda_list_numbers)+

lemma next_mode_dot: "keyword_rank x = None \<Longrightarrow> next_mode m x = NewMode m' \<Longrightarrow> m' = DotRestMode"
  by (cases m) (simp_all add: keyword_rank_def before_rest_def after_rest_def split: if_splits)

lemma next_mode_rank_mono: "next_mode m x = NewMode m' \<Longrightarrow> mode_rank m \<le> mode_rank m'"
proof (cases "keyword_rank x")
  case None
  assume "next_mode m x = NewMode m'"
  from next_mode_dot[OF None this] show ?thesis by (cases m) simp_all
next
  case (Some n)
  assume "next_mode m x = NewMode m'"
  from next_mode_ranks(2)[OF Some this] show ?thesis by simp
qed

lemma parse_element_ranks:
  assumes "parse_element h context dd x rest (m, st) = Inr (m', st')"
  shows "mode_rank m \<le> mode_rank m' \<and> (\<forall>n. keyword_rank x = Some n \<longrightarrow> mode_rank m < n \<and> n = mode_rank m')"
proof (cases "symbolp x \<and> next_mode m x \<noteq> Stay")
  case True
  with assms have "next_mode m x = NewMode m'"
    by (auto simp: parse_element_def switch_add_argument_mode_def bind_res_Inr_iff
        split: mode_switch.splits if_splits)
  then show ?thesis using next_mode_ranks(2) next_mode_rank_mono by blast
next
  case False
  with assms have "m' = m"
    by (auto simp: parse_element_def switch_add_argument_mode_def bind_res_Inr_iff split: if_splits)
  moreover have "keyword_rank x = None" using False next_mode_ranks(1) keyword_rank_symbol by fastforce
  ultimately show ?thesis by simp
qed

lemma parse_loop_ranks:
  "parse_loop h context dd ll (m, st) = Inr a \<Longrightarrow>
   sorted_wrt (<) (mode_rank m # List.map_filter keyword_rank (lisp_list ll))"
proof (induction ll arbitrary: m st)
  case (LCons i x d)
  then obtain m' st' where e: "parse_element h context dd x d (m, st) = Inr (m', st')"
    and l: "parse_loop h context dd d (m', st') = Inr a"
    by (auto simp: bind_res_Inr_iff)
  from LCons.IH(2)[OF l] have s: "sorted_wrt (<) (mode_rank m' # List.map_filter keyword_rank (lisp_list d))" .
  show ?case
  proof (cases "keyword_rank x")
    case None
    with s parse_element_ranks[OF e] show ?thesis by (auto simp: List.map_filter_simps)
  next
    case (Some n)
    with s parse_element_ranks[OF e] show ?thesis by (auto simp: List.map_filter_simps)
  qed
qed (simp_all add: List.map_filter_simps)

text \<open>C0: in an accepted lambda list the lambda list keywords stand in the order \<open>&optional\<close>,
  \<open>&rest\<close> (or \<open>&body\<close>, \<open>&va-rest\<close>), \<open>&key\<close>, \<open>&allow-other-keys\<close>, \<open>&aux\<close>, each at most once: every
  other order is an error.\<close>

theorem accepted_sections_in_order:
  assumes "parse_lambda_list h context q ll = Inr a"
  shows "sorted_wrt (<) (List.map_filter keyword_rank (lisp_list ll))"
proof (cases "ll = LNil")
  case False
  with assms obtain dd where "parse_loop h context dd ll (RequiredMode, no_args) = Inr a"
    unfolding parse_lambda_list_def bind_res_Inr_iff by (auto simp: bind_res_Inr_iff elim!: as_list.elims
      simp del: parse_loop.simps)
  from parse_loop_ranks[OF this] show ?thesis by simp
qed (simp add: List.map_filter_simps)


section \<open>Witnesses\<close>

definition sample_args :: lambda_args where
  "sample_args = no_args\<lparr>ll_reqs := [LSym 160], ll_optionals := [\<lparr>o_target = LSym 161, o_default = LFix 5,
     o_sensor = LSym 162\<rparr>], ll_rest := LSym 163, ll_key_flag := True, ll_keys := [\<lparr>k_keyword = LSym 164,
     k_target = LSym 165, k_default = LNil, k_sensor = LNil\<rparr>], ll_auxs := [(LSym 166, LFix 7)]\<rparr>"

lemma parse_unparse_lambda_list_witness:
  "parse_lambda_list (plain_host sample_genv) CtxFunction LNil
     (lisp_of 9 (unparse_lambda_list sample_args)) = Inr sample_args"
proof -
  have "wf_args sample_args" by code_simp
  from parse_unparse_lambda_list[OF this] show ?thesis .
qed

lemma accepted_sections_in_order_witness:
  "sorted_wrt (<) (List.map_filter keyword_rank (unparse_lambda_list sample_args)) \<and>
   List.map_filter keyword_rank (unparse_lambda_list sample_args) = [1, 2, 3, 5]"
proof -
  have "parse_lambda_list (plain_host sample_genv) CtxFunction LNil
      (lisp_of 9 (unparse_lambda_list sample_args)) = Inr sample_args" by code_simp
  from accepted_sections_in_order[OF this]
  have "sorted_wrt (<) (List.map_filter keyword_rank (lisp_list (lisp_of 9 (unparse_lambda_list sample_args))))" .
  moreover have "lisp_list (lisp_of 9 (unparse_lambda_list sample_args)) = unparse_lambda_list sample_args"
    "List.map_filter keyword_rank (unparse_lambda_list sample_args) = [1, 2, 3, 5]" by code_simp+
  ultimately show ?thesis by simp
qed


end
