(* ===== verification/Forms.thy ===== *)
theory Forms
  imports Declares LambdaList
begin

text \<open>
  Compilation of variables, sequences and variable bindings (\<open>bytecode_compiler.cc\<close>):
  \<open>compile_symbol\<close>, \<open>compile_progn\<close>, \<open>compile_locally\<close>, \<open>compile_let\<close>, \<open>compile_letSTAR\<close> and the
  warnings about variables.  The compiler of subforms is an argument, \<open>rec\<close>, of every operation that
  compiles subforms; the recursion is closed where the operations are put together.
\<close>

type_synonym form_compiler = "lisp \<Rightarrow> lexenv \<Rightarrow> cctx \<Rightarrow> action"

section \<open>Expansion and warnings\<close>

definition expand_macro :: "host \<Rightarrow> lisp \<Rightarrow> lisp \<Rightarrow> lexenv \<Rightarrow> cerror + lisp" where
  "expand_macro h expander form env = h_expand h expander form env"

definition expand_compiler_macro :: "host \<Rightarrow> lisp \<Rightarrow> lisp \<Rightarrow> lexenv \<Rightarrow> lisp \<Rightarrow> cerror + lisp" where
  "expand_compiler_macro h expander form env loc =
     (if h_functionp h expander then h_expand_cm h expander form env loc else Inl (TypeErr expander))"

text \<open>A reference to a lexical declared \<open>ignore\<close> is reported; a function by its \<open>#'\<close> form.\<close>

definition maybe_warn_used :: "lisp \<Rightarrow> nat \<Rightarrow> lisp \<Rightarrow> bool \<Rightarrow> action" where
  "maybe_warn_used name l sloc funp =
     fetch (\<lambda>c. ignore (lex_of c l)) (\<lambda>ig.
       if ig = IGNORE then
         (if funp then using_new (new_list [LSym sym_function, name]) (\<lambda>rname. report (WarnUsedIgnored rname sloc))
          else report (WarnUsedIgnored name sloc))
       else Inr)"

text \<open>The bindings are (name, lexical info, source location).\<close>

definition warn_one :: "lisp \<times> nat \<times> lisp \<Rightarrow> comp \<Rightarrow> comp" where
  "warn_one b c =
     (case b of (name, l, sloc) \<Rightarrow>
        if ignore (lex_of c l) = NOIGNORE \<and> \<not> read_p (lex_of c l)
        then c\<lparr>warnings := (if set_p (lex_of c l) then WarnSetUnused name sloc else WarnUnused name sloc) # warnings c\<rparr>
        else c)"

definition warn_ignorance :: "host \<Rightarrow> (lisp \<times> nat \<times> lisp) list \<Rightarrow> comp \<Rightarrow> comp" where
  "warn_ignorance h bindings c = (if code_walking_p h then c else fold warn_one bindings c)"

section \<open>Variables\<close>

text \<open>The value is read from the frame, or from the closure of the current cfunction.\<close>

definition read_lexical :: "nat \<Rightarrow> cctx \<Rightarrow> action" where
  "read_lexical l ctxt =
     fetch (\<lambda>c. lex_of c l) (\<lambda>r.
       if lex_cfunction r = ctxt_cfunction ctxt then opcode1 ctxt Vm_ref (unat (frame_index r))
       else steps [always (mark_closed_over l), using_new (closure_index ctxt l) (opcode1 ctxt Vm_closure)])"

definition pop_for_values :: "cctx \<Rightarrow> action" where
  "pop_for_values ctxt = only_if (receiving ctxt = -1) (opcode0 ctxt Vm_pop)"

definition symbol_value :: "lisp \<Rightarrow> cctx \<Rightarrow> action" where
  "symbol_value s ctxt = using_new (vcell_index (symbol_number s)) (opcode1 ctxt Vm_symbol_value)"

definition warn_undefined :: "host \<Rightarrow> lisp \<Rightarrow> cctx \<Rightarrow> action" where
  "warn_undefined h s ctxt =
     only_if (h_undefined_hook h \<and> \<not> code_walking_p h) (report (WarnUndefinedGlobal (source_info ctxt) s))"

definition compile_symbol :: "form_compiler \<Rightarrow> host \<Rightarrow> lisp \<Rightarrow> lexenv \<Rightarrow> cctx \<Rightarrow> action" where
  "compile_symbol rec h s env ctxt =
     (case lisp_var_info h s env of
        Some (SymbolMacroVarInfo expander) \<Rightarrow>
          attempt (expand_macro h expander s env) (\<lambda>expansion. rec expansion env ctxt)
      | info \<Rightarrow>
          if receiving ctxt = 0 then
            (case info of
               Some (LexicalVarInfo l) \<Rightarrow>
                 steps [always (mark_read l), maybe_warn_used s l (source_info ctxt) False]
             | _ \<Rightarrow> Inr)
          else
            (case info of
               Some (LexicalVarInfo l) \<Rightarrow>
                 steps [read_lexical l ctxt, always (maybe_emit_cell_ref ctxt l), always (mark_read l),
                        maybe_warn_used s l (source_info ctxt) False, pop_for_values ctxt]
             | Some (ConstantVarInfo v) \<Rightarrow> compile_literal v ctxt
             | None \<Rightarrow> steps [warn_undefined h s ctxt, symbol_value s ctxt, pop_for_values ctxt]
             | _ \<Rightarrow> steps [symbol_value s ctxt, pop_for_values ctxt]))"

section \<open>Sequences\<close>

definition compile_progn :: "form_compiler \<Rightarrow> lisp \<Rightarrow> lexenv \<Rightarrow> cctx \<Rightarrow> action" where
  "compile_progn rec forms env ctxt =
     (if forms = LNil then compile_literal LNil ctxt
      else for_conses (\<lambda>cur. rec (oCar cur) env (if oCdr cur \<noteq> LNil then sub_receiving 0 ctxt else ctxt)) forms)"

text \<open>The declarations of a body, kept for later passes.\<close>

definition compile_locally :: "form_compiler \<Rightarrow> host \<Rightarrow> lisp \<Rightarrow> lexenv \<Rightarrow> cctx \<Rightarrow> action" where
  "compile_locally rec h body env ctxt =
     attempt (extract_declares_docstring_code_specials h False body) (\<lambda>pb.
       let declares = scrub_decls (pb_declares pb) in
       attempt (add_specials (h_genv h) (pb_specials pb) env) (\<lambda>env1.
         with_label (\<lambda>begin_label. with_label (\<lambda>end_label.
           steps
             [only_if (declares \<noteq> []) (steps
                [place ctxt begin_label, debug ctxt begin_label end_label (AstDecls declares)]),
              compile_progn rec (pb_code pb) (add_decls declares env1) ctxt,
              only_if (declares \<noteq> []) (place ctxt end_label)]))))"

section \<open>Bindings\<close>

definition special_binding_p :: "host \<Rightarrow> lisp \<Rightarrow> lisp list \<Rightarrow> lexenv \<Rightarrow> bool" where
  "special_binding_p h s specials env \<longleftrightarrow>
     list_ex (\<lambda>x. eq_lisp x s) specials \<or>
     (case lisp_var_info h s env of Some (SpecialVarInfo globalp) \<Rightarrow> globalp | _ \<Rightarrow> False)"

text \<open>The variable and the value form of a binding.\<close>

definition binding_parts :: "lisp \<Rightarrow> cerror + lisp \<times> lisp" where
  "binding_parts binding =
     (if consp binding then
        bind_res (bind_res (lcar binding) need_symbol) (\<lambda>var.
        bind_res (lcadr binding) (\<lambda>valf. Inr (var, valf)))
      else bind_res (need_symbol binding) (\<lambda>var. Inr (var, LNil)))"

definition bound_lexical :: "lexenv \<Rightarrow> lisp \<Rightarrow> cerror + nat" where
  "bound_lexical env var =
     (case variableInfo env var of Some (LexicalVarInfo l) \<Rightarrow> Inr l | _ \<Rightarrow> Inl UnreachableBranch)"

text \<open>The ignore status and the declarations of a new lexical.\<close>

definition set_declarations :: "lisp \<Rightarrow> nat \<Rightarrow> lisp list \<Rightarrow> action" where
  "set_declarations var l declares =
     attempt (binding_ignore var declares) (\<lambda>ig.
       using_try (decls_for_var var declares) (\<lambda>ds. always (declare_lex l ig ds)))"

record let_state =
  ls_comp :: comp
  ls_env :: lexenv
  ls_ctxt :: cctx
  ls_specials :: nat
  ls_lexicals :: nat
  ls_debug :: "debug_binding list"
  ls_ignore :: "(lisp \<times> nat \<times> lisp) list"

text \<open>\<open>let\<close>: the values are all computed in the outer environment and left on the stack.\<close>

definition let_binding ::
    "form_compiler \<Rightarrow> host \<Rightarrow> lisp list \<Rightarrow> lisp list \<Rightarrow> lexenv \<Rightarrow> cctx \<Rightarrow> lisp \<Rightarrow> let_state \<Rightarrow> cerror + let_state" where
  "let_binding rec h specials declares env ctxt binding st =
     attempt (binding_parts binding) (\<lambda>(var, valf).
     after (rec valf env (sub_receiving 1 ctxt))
       (if special_binding_p h var specials env then
          after (emit_special_bind ctxt (symbol_number var))
            (yield (\<lambda>c. st\<lparr>ls_comp := c, ls_specials := Suc (ls_specials st)\<rparr>))
        else
          using_new (\<lambda>c. bind1var var ctxt c (ls_env st)) (\<lambda>env1.
          attempt (bound_lexical env1 var) (\<lambda>l.
          after (steps [set_declarations var l declares, always (maybe_emit_make_cell ctxt l)])
            (yield (\<lambda>c. st\<lparr>ls_comp := c, ls_env := env1,
                    ls_lexicals := Suc (ls_lexicals st), ls_debug := ls_debug st @ [DVLex var l],
                    ls_ignore := ls_ignore st @
                      [(var, l, source_location_for h binding (source_info ctxt))]\<rparr>))))))
     (ls_comp st)"

definition let_start :: "lexenv \<Rightarrow> cctx \<Rightarrow> comp \<Rightarrow> let_state" where
  "let_start env ctxt c = \<lparr>ls_comp = c, ls_env = env, ls_ctxt = ctxt, ls_specials = 0, ls_lexicals = 0,
     ls_debug = [], ls_ignore = []\<rparr>"

definition compile_let :: "form_compiler \<Rightarrow> host \<Rightarrow> lisp \<Rightarrow> lisp \<Rightarrow> lexenv \<Rightarrow> cctx \<Rightarrow> action" where
  "compile_let rec h bindings body env ctxt =
     attempt (extract_declares_docstring_code_specials h False body) (\<lambda>pb.
     attempt (add_specials (h_genv h) (pb_specials pb) env) (\<lambda>env0.
     with_label (\<lambda>begin_label. with_label (\<lambda>end_label.
     looping (for_each (let_binding rec h (pb_specials pb) (pb_declares pb) env ctxt) bindings)
       (let_start env0 ctxt) ls_comp (\<lambda>st. steps
         [emit_bind ctxt (ls_lexicals st) (frame_end env),
          place ctxt begin_label,
          only_if (ls_debug st \<noteq> []) (debug ctxt begin_label end_label (DebugVars (ls_debug st))),
          only_if (pb_declares pb \<noteq> []) (debug ctxt begin_label end_label (AstDecls (pb_declares pb))),
          compile_progn rec (pb_code pb) (add_decls (pb_declares pb) (ls_env st))
            (sub_de (DeBindings (ls_specials st)) ctxt),
          always (emit_unbind ctxt (ls_specials st)),
          place ctxt end_label,
          always (warn_ignorance h (ls_ignore st))])))))"

text \<open>\<open>let*\<close>: each value is stored at once and seen by the next one.\<close>

definition letSTAR_binding ::
    "form_compiler \<Rightarrow> host \<Rightarrow> lisp list \<Rightarrow> lisp list \<Rightarrow> lexenv \<Rightarrow> nat \<Rightarrow> lisp \<Rightarrow> let_state \<Rightarrow> cerror + let_state" where
  "letSTAR_binding rec h specials declares env end_label binding st =
     attempt (binding_parts binding) (\<lambda>(var, valf).
     after (rec valf (ls_env st) (sub_receiving 1 (ls_ctxt st)))
       (if special_binding_p h var specials env then
          attempt (add_specials (h_genv h) [var] (ls_env st)) (\<lambda>env1.
          after (emit_special_bind (ls_ctxt st) (symbol_number var))
            (yield (\<lambda>c. st\<lparr>ls_comp := c, ls_env := env1, ls_ctxt := sub_de (DeBindings 1) (ls_ctxt st),
                    ls_specials := Suc (ls_specials st)\<rparr>)))
        else
          with_label (\<lambda>begin_label.
          using_new (\<lambda>c. bind1var var (ls_ctxt st) c (ls_env st)) (\<lambda>env1.
          attempt (bound_lexical env1 var) (\<lambda>l.
          after (steps
              [always (maybe_emit_make_cell (ls_ctxt st) l),
               opcode1 (ls_ctxt st) Vm_set (frame_end (ls_env st)),
               set_declarations var l declares,
               place (ls_ctxt st) begin_label,
               debug (ls_ctxt st) begin_label end_label (DebugVars [DVLex var l])])
            (yield (\<lambda>c. st\<lparr>ls_comp := c, ls_env := env1, ls_debug := ls_debug st @ [DVLex var l],
                    ls_ignore := ls_ignore st @
                      [(var, l, source_location_for h binding (source_info (ls_ctxt st)))]\<rparr>)))))))
     (ls_comp st)"

definition compile_letSTAR :: "form_compiler \<Rightarrow> host \<Rightarrow> lisp \<Rightarrow> lisp \<Rightarrow> lexenv \<Rightarrow> cctx \<Rightarrow> action" where
  "compile_letSTAR rec h bindings body env ectxt =
     attempt (extract_declares_docstring_code_specials h False body) (\<lambda>pb.
     with_label (\<lambda>end_label.
     looping (for_each (letSTAR_binding rec h (pb_specials pb) (pb_declares pb) env end_label) bindings)
       (let_start env ectxt) ls_comp (\<lambda>st.
         attempt (add_specials (h_genv h) (pb_specials pb) (add_decls (pb_declares pb) (ls_env st))) (\<lambda>env1. steps
           [compile_progn rec (pb_code pb) env1 (ls_ctxt st),
            always (emit_unbind (ls_ctxt st) (ls_specials st)),
            place (ls_ctxt st) end_label,
            always (warn_ignorance h (ls_ignore st))]))))"

end
