(* ===== verification/Lambdas.thy ===== *)
theory Lambdas
  imports Forms
begin

text \<open>
  Compilation of lambda expressions: argument checks and bindings, default forms of \<open>&optional\<close> and
  \<open>&key\<close> parameters, the body, and references to the resulting cfunctions.
\<close>

section \<open>Optional and keyword parameters\<close>

text \<open>
  The code that gives one parameter its value; \<open>l\<close> is the lexical info of its slot.  The result is the
  environment in which the parameter, and its supplied-p variable, are bound.
\<close>

definition item_env :: "host \<Rightarrow> lisp \<Rightarrow> nat \<Rightarrow> lisp \<Rightarrow> bool \<Rightarrow> bool \<Rightarrow> cctx \<Rightarrow> lexenv \<Rightarrow> comp
    \<Rightarrow> cerror + comp \<times> lexenv" where
  "item_env h var l supplied_var var_specialp supplied_specialp ctxt env =
     attempt (if var_specialp then add_specials (h_genv h) [var] env
              else Inr (sub_vars ((var, LexicalVarInfo l) # vars env) (frame_end env) env)) (\<lambda>env1.
       if supplied_var \<noteq> LNil then
         (if supplied_specialp then attempt (add_specials (h_genv h) [supplied_var] env1) (\<lambda>env2. yield (\<lambda>c. (c, env2)))
          else yield (\<lambda>c. bind1var supplied_var ctxt c env1))
       else yield (\<lambda>c. (c, env1)))"

definition bind_supplied :: "lisp \<Rightarrow> bool \<Rightarrow> cctx \<Rightarrow> lexenv \<Rightarrow> action" where
  "bind_supplied supplied_var supplied_specialp ctxt env =
     only_if (supplied_var \<noteq> LNil)
       (if supplied_specialp then emit_special_bind ctxt (symbol_number supplied_var)
        else attempt (bound_lexical env supplied_var) (\<lambda>ls.
          steps [always (maybe_emit_make_cell ctxt ls),
                 fetch (\<lambda>c. unat (frame_index (lex_of c ls))) (opcode1 ctxt Vm_set)]))"

definition compile_optional_or_key_item ::
    "form_compiler \<Rightarrow> host \<Rightarrow> lisp \<Rightarrow> lisp \<Rightarrow> nat \<Rightarrow> lisp \<Rightarrow> bool \<Rightarrow> bool \<Rightarrow> cctx \<Rightarrow> lexenv \<Rightarrow> comp
       \<Rightarrow> cerror + comp \<times> lexenv" where
  "compile_optional_or_key_item rec h var defaulting_form l supplied_var var_specialp supplied_specialp ctxt env =
     with_label (\<lambda>supplied_label. with_label (\<lambda>next_label.
     after (fetch (\<lambda>c. unat (frame_index (lex_of c l))) (\<lambda>i. always (emit_jump_if_supplied ctxt supplied_label i)))
     (with_label (\<lambda>else_label.
     after (steps
        [place ctxt else_label,
         debug ctxt else_label next_label (AstIf (if supplied_var \<noteq> LNil then 2 else 1)),
         only_if (supplied_var \<noteq> LNil) (opcode0 ctxt Vm_nil),
         rec defaulting_form env (sub_receiving 1 ctxt),
         always (emit_jump ctxt next_label)])
     (using_try (item_env h var l supplied_var var_specialp supplied_specialp ctxt env) (\<lambda>env1.
     after (steps
        [place ctxt supplied_label,
         only_if (supplied_var \<noteq> LNil) (compile_literal (LSym sym_T) (sub_receiving 1 ctxt)),
         fetch (\<lambda>c. unat (frame_index (lex_of c l))) (opcode1 ctxt Vm_ref),
         place ctxt next_label,
         (if var_specialp then emit_special_bind ctxt (symbol_number var)
          else steps
            [always (maybe_emit_make_cell ctxt l),
             fetch (\<lambda>c. unat (frame_index (lex_of c l))) (opcode1 ctxt Vm_set)]),
         bind_supplied supplied_var supplied_specialp ctxt env1])
       (yield (\<lambda>c. (c, env1)))))))))"

text \<open>Debug information and declarations of the parameter and its supplied-p variable.\<close>

definition annotate_one :: "host \<Rightarrow> lisp \<Rightarrow> lisp list \<Rightarrow> lexenv \<Rightarrow> (debug_binding list \<Rightarrow> action) \<Rightarrow> debug_binding list \<Rightarrow> action" where
  "annotate_one h var declares env k dvars =
     (case lisp_var_info h var env of
        Some (LexicalVarInfo l) \<Rightarrow> after (set_declarations var l declares) (k (dvars @ [DVLex var l]))
      | _ \<Rightarrow> k dvars)"

definition annotate_optional_or_key_item ::
    "host \<Rightarrow> lisp \<Rightarrow> lisp \<Rightarrow> lisp list \<Rightarrow> nat \<Rightarrow> cctx \<Rightarrow> lexenv \<Rightarrow> action" where
  "annotate_optional_or_key_item h key_var supplied_var declares end_label ctxt env =
     (let annotate = (\<lambda>dvars. only_if (dvars \<noteq> [])
            (with_label (\<lambda>dlabel. steps [place ctxt dlabel, debug ctxt dlabel end_label (DebugVars dvars)])))
      in annotate_one h key_var declares env
           (if supplied_var \<noteq> LNil then annotate_one h supplied_var declares env annotate else annotate) [])"

section \<open>Lambda lists\<close>

record lambda_state =
  wl_comp :: comp
  wl_env :: lexenv
  wl_optkey :: lexenv
  wl_specials :: nat
  wl_ignore :: "(lisp \<times> nat \<times> lisp) list"

definition check_arg_count :: "cctx \<Rightarrow> nat \<Rightarrow> nat \<Rightarrow> bool \<Rightarrow> action" where
  "check_arg_count ctxt min_count max_count morep =
     (if min_count > 0 \<and> min_count = max_count \<and> \<not> morep then opcode1 ctxt Vm_check_arg_count_EQ min_count
      else steps [only_if (min_count > 0) (opcode1 ctxt Vm_check_arg_count_GE min_count),
                  only_if (\<not> morep) (opcode1 ctxt Vm_check_arg_count_LE max_count)])"

text \<open>Required parameters are bound by one instruction; then each is bound specially or put in a cell.\<close>

record req_state =
  rq_comp :: comp
  rq_specials :: "lisp list"
  rq_debug :: "debug_binding list"
  rq_ignore :: "(lisp \<times> nat \<times> lisp) list"

definition bind_required_one ::
    "host \<Rightarrow> lisp list \<Rightarrow> lisp list \<Rightarrow> lexenv \<Rightarrow> lexenv \<Rightarrow> cctx \<Rightarrow> lisp \<Rightarrow> req_state \<Rightarrow> cerror + req_state" where
  "bind_required_one h specials declares env new_env ctxt var st =
     attempt (bound_lexical new_env var) (\<lambda>l.
       if special_binding_p h var specials env then
         after (steps [fetch (\<lambda>c. unat (frame_index (lex_of c l))) (opcode1 ctxt Vm_ref),
                       emit_special_bind ctxt (symbol_number var)])
           (yield (\<lambda>c. st\<lparr>rq_comp := c, rq_specials := rq_specials st @ [var]\<rparr>))
       else
         after (steps [always (maybe_emit_encage ctxt l), set_declarations var l declares])
           (yield (\<lambda>c. st\<lparr>rq_comp := c, rq_debug := rq_debug st @ [DVLex var l],
                   rq_ignore := rq_ignore st @ [(var, l, source_info ctxt)]\<rparr>)))
     (rq_comp st)"

definition req_start :: "comp \<Rightarrow> req_state" where
  "req_start c = \<lparr>rq_comp = c, rq_specials = [], rq_debug = [], rq_ignore = []\<rparr>"

definition bind_required ::
    "host \<Rightarrow> lisp list \<Rightarrow> lisp list \<Rightarrow> lexenv \<Rightarrow> cctx \<Rightarrow> nat \<Rightarrow> lisp list \<Rightarrow> lambda_state \<Rightarrow> cerror + lambda_state" where
  "bind_required h specials declares env ctxt end_label reqs st =
     (if reqs = [] then yield (\<lambda>c. st\<lparr>wl_comp := c\<rparr>)
      else
        with_label (\<lambda>begin_label.
        after (opcode1 ctxt Vm_bind_required_args (length reqs))
        (looping (each (bind_required_one h specials declares env (wl_env st) ctxt) reqs) req_start rq_comp (\<lambda>rq.
           attempt (add_specials (h_genv h) (rq_specials rq) (wl_env st)) (\<lambda>env1.
           after (steps [place ctxt begin_label, debug ctxt begin_label end_label (DebugVars (rq_debug rq))])
             (yield (\<lambda>c. st\<lparr>wl_comp := c, wl_env := env1,
                     wl_specials := wl_specials st + length (rq_specials rq),
                     wl_ignore := wl_ignore st @ rq_ignore rq\<rparr>)))))))
     (wl_comp st)"

text \<open>
  The slots of optional and keyword parameters are named in \<open>optkey_env\<close> only, so that the default
  forms do not see them; both environments have the same frame end.
\<close>

definition with_frame_of :: "lexenv \<Rightarrow> lexenv \<Rightarrow> lexenv" where
  "with_frame_of optkey new_env = sub_vars (vars new_env) (frame_end optkey) optkey"

definition bind_optionals ::
    "host \<Rightarrow> cctx \<Rightarrow> nat \<Rightarrow> optional_arg list \<Rightarrow> lambda_state \<Rightarrow> cerror + lambda_state" where
  "bind_optionals h ctxt min_count optionals st =
     (if optionals = [] then yield (\<lambda>c. st\<lparr>wl_comp := c, wl_optkey := wl_env st\<rparr>)
      else
        after (assemble2 ctxt (vm_code Vm_bind_optional_args) min_count (length optionals))
        (using_try (\<lambda>c. bind_vars (h_genv h) (map o_target optionals) ctxt c (wl_env st)) (\<lambda>optkey.
           yield (\<lambda>c. st\<lparr>wl_comp := c, wl_optkey := optkey, wl_env := with_frame_of optkey (wl_env st)\<rparr>))))
     (wl_comp st)"

definition bind_rest ::
    "host \<Rightarrow> lisp list \<Rightarrow> lisp list \<Rightarrow> lexenv \<Rightarrow> cctx \<Rightarrow> nat \<Rightarrow> nat \<Rightarrow> lisp \<Rightarrow> bool \<Rightarrow> lambda_state
       \<Rightarrow> cerror + lambda_state" where
  "bind_rest h specials declares env ctxt end_label max_count rest varestp st =
     (if rest = LNil then yield (\<lambda>c. st\<lparr>wl_comp := c\<rparr>)
      else
        attempt (need_symbol rest) (\<lambda>_.
        after (opcode1 ctxt (if varestp then Vm_vaslistify_rest_args else Vm_listify_rest_args) max_count)
        (using_new (\<lambda>c. bind1var rest ctxt c (wl_env st)) (\<lambda>new_env.
         using_new (\<lambda>c. bind1var rest ctxt c (wl_optkey st)) (\<lambda>optkey.
         attempt (bound_lexical new_env rest) (\<lambda>l.
           if special_binding_p h rest specials env then
             after (steps [fetch (\<lambda>c. unat (frame_index (lex_of c l))) (opcode1 ctxt Vm_ref),
                           emit_special_bind ctxt (symbol_number rest)])
             (attempt (add_specials (h_genv h) [rest] new_env) (\<lambda>env1.
                yield (\<lambda>c. st\<lparr>wl_comp := c, wl_env := env1, wl_optkey := optkey,
                        wl_specials := Suc (wl_specials st)\<rparr>)))
           else
             after (steps
                 [always (maybe_emit_encage ctxt l),
                  with_label (\<lambda>begin_label. steps
                    [place ctxt begin_label, debug ctxt begin_label end_label (DebugVars [DVLex rest l])]),
                  set_declarations rest l declares])
             (yield (\<lambda>c. st\<lparr>wl_comp := c, wl_env := new_env, wl_optkey := optkey,
                     wl_ignore := wl_ignore st @ [(rest, l, source_info ctxt)]\<rparr>))))))))
     (wl_comp st)"

text \<open>Keywords get new consecutive literals, even when they occur among the literals already.\<close>

fun key_literals :: "keyword_arg list \<Rightarrow> comp \<Rightarrow> comp \<times> nat option" where
  "key_literals [] c = (c, None)"
| "key_literals (k # ks) c =
     (case new_literal_index (k_keyword k) c of (c1, i) \<Rightarrow> (fst (key_literals ks c1), Some i))"

definition bind_keys ::
    "host \<Rightarrow> cctx \<Rightarrow> nat \<Rightarrow> lambda_args \<Rightarrow> lambda_state \<Rightarrow> cerror + lambda_state" where
  "bind_keys h ctxt max_count a st =
     (if \<not> ll_key_flag a then yield (\<lambda>c. st\<lparr>wl_comp := c\<rparr>)
      else
        using_new (key_literals (ll_keys a)) (\<lambda>first_key_index.
        after (emit_parse_key_args ctxt max_count (length (ll_keys a))
            (case first_key_index of Some i \<Rightarrow> i | None \<Rightarrow> 0) (frame_end (wl_optkey st)) (ll_allow_other_keys a))
        (using_try (\<lambda>c. bind_vars (h_genv h) (map k_target (ll_keys a)) ctxt c (wl_optkey st)) (\<lambda>optkey.
           yield (\<lambda>c. st\<lparr>wl_comp := c, wl_optkey := optkey, wl_env := with_frame_of optkey (wl_env st)\<rparr>)))))
     (wl_comp st)"

definition var_info_of :: "host \<Rightarrow> lisp \<Rightarrow> lexenv \<Rightarrow> var_info option" where
  "var_info_of h x env =
     (case x of
        LSym s \<Rightarrow> var_info (h_genv h) s env
      | _ \<Rightarrow> (case variableInfo env x of
                Some i \<Rightarrow> Some i
              | None \<Rightarrow> global_var_info (h_genv h) (nil_info (h_genv h))))"

definition lexical_of :: "host \<Rightarrow> lisp \<Rightarrow> lexenv \<Rightarrow> cerror + nat" where
  "lexical_of h x env =
     (case var_info_of h x env of Some (LexicalVarInfo l) \<Rightarrow> Inr l | _ \<Rightarrow> Inl UnreachableBranch)"

text \<open>One optional or keyword parameter: its value, its debug information, what to warn about.\<close>

definition default_item ::
    "form_compiler \<Rightarrow> host \<Rightarrow> lisp list \<Rightarrow> lisp list \<Rightarrow> lexenv \<Rightarrow> cctx \<Rightarrow> nat \<Rightarrow> lisp \<times> lisp \<times> lisp \<Rightarrow> lambda_state
       \<Rightarrow> cerror + lambda_state" where
  "default_item rec h specials declares env ctxt end_label item st =
     (case item of (var, defaulting_form, supplied_var) \<Rightarrow>
        let var_specialp = special_binding_p h var specials env;
            supplied_specialp = (supplied_var \<noteq> LNil \<and> special_binding_p h supplied_var specials env)
        in
        attempt (need_symbol var) (\<lambda>_.
        attempt (lexical_of h var (wl_optkey st)) (\<lambda>l.
        attempt (need_symbol supplied_var) (\<lambda>_.
        using_try (compile_optional_or_key_item rec h var defaulting_form l supplied_var var_specialp supplied_specialp
            ctxt (wl_env st)) (\<lambda>new_env.
        after (annotate_optional_or_key_item h var supplied_var declares end_label ctxt new_env)
        (attempt (if supplied_specialp \<or> supplied_var = LNil then Inr []
                  else bind_res (lexical_of h supplied_var new_env) (\<lambda>ls. Inr [(supplied_var, ls, source_info ctxt)])) (\<lambda>sup.
           yield (\<lambda>c. st\<lparr>wl_comp := c, wl_env := new_env,
                   wl_specials := wl_specials st + (if var_specialp then 1 else 0) + (if supplied_specialp then 1 else 0),
                   wl_ignore := wl_ignore st @ (if var_specialp then [] else [(var, l, source_info ctxt)]) @ sup\<rparr>)))))))
     (wl_comp st))"

text \<open>The \<open>&aux\<close> parameters and the body are compiled as a \<open>let*\<close> with the declarations repeated.\<close>

fun new_bindings :: "(lisp \<times> lisp) list \<Rightarrow> comp \<Rightarrow> comp \<times> lisp list" where
  "new_bindings [] c = (c, [])"
| "new_bindings ((v, e) # xs) c =
     (case new_list [v, e] c of (c1, b) \<Rightarrow> (case new_bindings xs c1 of (c2, bs) \<Rightarrow> (c2, b # bs)))"

definition compile_aux_and_body ::
    "form_compiler \<Rightarrow> host \<Rightarrow> (lisp \<times> lisp) list \<Rightarrow> lisp list \<Rightarrow> lisp \<Rightarrow> lexenv \<Rightarrow> cctx \<Rightarrow> action" where
  "compile_aux_and_body rec h auxs declares code env ctxt =
     using_new (new_bindings auxs) (\<lambda>bs.
     using_new (new_list bs) (\<lambda>auxbinds.
     using_new (new_list declares) (\<lambda>dl.
     using_new (new_cons (LSym sym_declare) dl) (\<lambda>declexpr.
     using_new (new_cons declexpr code) (\<lambda>lbody.
       compile_letSTAR rec h auxbinds lbody env ctxt)))))"

text \<open>The binding of all parameters, in the order of the lambda list.\<close>

definition bind_parameters ::
    "form_compiler \<Rightarrow> host \<Rightarrow> parsed_body \<Rightarrow> lambda_args \<Rightarrow> lexenv \<Rightarrow> cctx \<Rightarrow> nat \<Rightarrow> lambda_state \<Rightarrow> cerror + lambda_state" where
  "bind_parameters rec h pb a env ctxt end_label st =
     (let specials = pb_specials pb; declares = pb_declares pb;
          min_count = length (ll_reqs a); max_count = min_count + length (ll_optionals a);
          items = map (\<lambda>it. (o_target it, o_default it, o_sensor it)) (ll_optionals a) @
            (if ll_key_flag a then map (\<lambda>it. (k_target it, k_default it, k_sensor it)) (ll_keys a) else [])
      in
      bind_res (bind_required h specials declares env ctxt end_label (ll_reqs a) st) (\<lambda>st1.
      bind_res (bind_optionals h ctxt min_count (ll_optionals a) st1) (\<lambda>st2.
      bind_res (bind_rest h specials declares env ctxt end_label max_count (ll_rest a) (ll_va_rest a) st2) (\<lambda>st3.
      bind_res (bind_keys h ctxt max_count a st3)
        (each (default_item rec h specials declares env ctxt end_label) items)))))"

definition lambda_start :: "lexenv \<Rightarrow> comp \<Rightarrow> lambda_state" where
  "lambda_start env c = \<lparr>wl_comp = c, wl_env = env, wl_optkey = env, wl_specials = 0, wl_ignore = []\<rparr>"

definition compile_with_lambda_list :: "form_compiler \<Rightarrow> host \<Rightarrow> lisp \<Rightarrow> lisp \<Rightarrow> lexenv \<Rightarrow> cctx \<Rightarrow> action" where
  "compile_with_lambda_list rec h lambda_list body env ctxt =
     attempt (extract_declares_docstring_code_specials h True body) (\<lambda>pb.
     attempt (parse_lambda_list h CtxFunction LNil lambda_list) (\<lambda>a.
       let min_count = length (ll_reqs a); max_count = min_count + length (ll_optionals a);
           morep = (ll_rest a \<noteq> LNil \<or> ll_key_flag a)
       in
       with_label (\<lambda>end_label.
       using_try (\<lambda>c. bind_vars (h_genv h) (ll_reqs a) ctxt c env) (\<lambda>new_env.
       after (steps
         [fetch (\<lambda>c. entry_point (cfun_of c (ctxt_cfunction ctxt))) (place ctxt),
          check_arg_count ctxt min_count max_count morep])
       (looping (bind_parameters rec h pb a env ctxt end_label) (lambda_start new_env) wl_comp (\<lambda>st. steps
          [compile_aux_and_body rec h (ll_auxs a) (pb_declares pb) (pb_code pb) (wl_env st) ctxt,
           always (emit_unbind ctxt (wl_specials st)),
           place ctxt end_label,
           always (warn_ignorance h (wl_ignore st))]))))))"

section \<open>Lambda expressions\<close>

text \<open>The display name: declared, or \<open>(lambda lambda-list)\<close>.\<close>

definition lambda_name :: "host \<Rightarrow> lisp list \<Rightarrow> lisp \<Rightarrow> (lisp \<Rightarrow> comp \<Rightarrow> cerror + 'b) \<Rightarrow> comp \<Rightarrow> cerror + 'b" where
  "lambda_name h declares oll k =
     attempt (extract_lambda_name_from_declares declares) (\<lambda>name.
       if name \<noteq> LNil then k name
       else attempt (lambda_list_for_name h oll) (\<lambda>xs.
            using_new (new_list xs) (\<lambda>ll. using_new (new_list [LSym sym_lambda, ll]) k)))"

text \<open>A new cfunction is registered with the module at once.\<close>

definition new_cfunction :: "lisp \<Rightarrow> lisp \<Rightarrow> lisp \<Rightarrow> lisp \<Rightarrow> comp \<Rightarrow> comp \<times> nat" where
  "new_cfunction name doc oll loc c =
     (case cfunction_make name doc oll loc c of (c', f) \<Rightarrow> (register_cfunction f c', f))"

definition lambda_ctxt :: "nat \<Rightarrow> lisp \<Rightarrow> cctx" where
  "lambda_ctxt f loc = \<lparr>receiving = -1, dynenv = [], ctxt_cfunction = f, source_info = loc\<rparr>"

definition compile_lambda ::
    "form_compiler \<Rightarrow> host \<Rightarrow> lisp \<Rightarrow> lisp \<Rightarrow> lexenv \<Rightarrow> lisp \<Rightarrow> comp \<Rightarrow> cerror + comp \<times> nat" where
  "compile_lambda rec h lambda_list body env loc =
     with_label (\<lambda>begin_label. with_label (\<lambda>end_label.
     attempt (extract_declares_docstring_code_specials h True body) (\<lambda>pb.
     attempt (extract_lambda_list_from_declares (pb_declares pb) lambda_list) (\<lambda>oll.
     lambda_name h (pb_declares pb) oll (\<lambda>name.
     using_new (new_cfunction name (pb_doc pb) oll loc) (\<lambda>f.
       let all_declares = pb_declares pb @ decls env; ctxt = lambda_ctxt f loc;
           annotated = (all_declares \<noteq> [] \<or> loc \<noteq> LNil)
       in after (steps
            [only_if annotated (steps
               [place ctxt begin_label,
                only_if (all_declares \<noteq> []) (debug ctxt begin_label end_label (AstDecls all_declares)),
                only_if (loc \<noteq> LNil) (debug ctxt begin_label end_label (DebugLocation loc))]),
             compile_with_lambda_list rec h lambda_list body (env\<lparr>frame_end := 0\<rparr>) ctxt,
             opcode0 ctxt Vm_return,
             only_if annotated (place ctxt end_label)])
          (yield (\<lambda>c. (c, f)))))))))"

text \<open>A lambda expression is a constant, or a closure over the lexicals its cfunction refers to.\<close>

definition lambda_reference :: "form_compiler \<Rightarrow> host \<Rightarrow> lisp \<Rightarrow> lexenv \<Rightarrow> cctx \<Rightarrow> action" where
  "lambda_reference rec h fnameoid env ctxt =
     attempt (lcadr fnameoid) (\<lambda>lambda_list.
     attempt (lcddr fnameoid) (\<lambda>body.
     using_try (compile_lambda rec h lambda_list body env (source_location_for h fnameoid (source_info ctxt))) (\<lambda>cfn.
     fetch (\<lambda>c. closed (cfun_of c cfn)) (\<lambda>cl.
       steps
         [each (reference_lexical_info ctxt) cl,
          using_new (cfunction_index cfn)
            (opcode1 ctxt (if cl = [] then Vm_const else Vm_make_closure))]))))"

definition is_lambda_expression :: "lisp \<Rightarrow> bool" where
  "is_lambda_expression x \<longleftrightarrow> consp x \<and> oCar x = LSym sym_lambda"

definition name_reference :: "opcode \<Rightarrow> host \<Rightarrow> lisp \<Rightarrow> lexenv \<Rightarrow> cctx \<Rightarrow> action" where
  "name_reference opc h fnameoid env ctxt =
     attempt (fun_info_v (h_genv h) fnameoid env) (\<lambda>info.
       case info of
         Some (LocalFunInfo l) \<Rightarrow>
           steps [always (mark_read l), maybe_warn_used fnameoid l (source_info ctxt) True,
                  reference_lexical_info ctxt l]
       | Some (GlobalFunInfo _) \<Rightarrow> using_new (fcell_index fnameoid) (opcode1 ctxt opc)
       | None \<Rightarrow>
           steps [only_if (h_register_hook h \<and> \<not> code_walking_p h)
                    (report (RegisterGlobalRef fnameoid (source_info ctxt))),
                  using_new (fcell_index fnameoid) (opcode1 ctxt opc)]
       | _ \<Rightarrow> (\<lambda>_. Inl (NotAFunctionName fnameoid)))"

definition compile_function :: "form_compiler \<Rightarrow> host \<Rightarrow> lisp \<Rightarrow> lexenv \<Rightarrow> cctx \<Rightarrow> action" where
  "compile_function rec h fnameoid env ctxt =
     (if receiving ctxt = 0 then Inr
      else steps
        [if is_lambda_expression fnameoid then lambda_reference rec h fnameoid env ctxt
         else name_reference Vm_fdefinition h fnameoid env ctxt,
         pop_for_values ctxt])"

definition compile_called_function :: "form_compiler \<Rightarrow> host \<Rightarrow> lisp \<Rightarrow> lexenv \<Rightarrow> cctx \<Rightarrow> action" where
  "compile_called_function rec h fnameoid env ctxt =
     (if is_lambda_expression fnameoid then lambda_reference rec h fnameoid env ctxt
      else name_reference Vm_called_fdefinition h fnameoid env ctxt)"

text \<open>A function designator that is called at once.\<close>

definition compile_fdesignator :: "form_compiler \<Rightarrow> host \<Rightarrow> lisp \<Rightarrow> lexenv \<Rightarrow> cctx \<Rightarrow> action" where
  "compile_fdesignator rec h fform env ctxt =
     (if consp fform \<and> oCar fform = LSym sym_function then
        attempt (lcadr fform) (\<lambda>fnameoid. compile_called_function rec h fnameoid env ctxt)
      else if is_lambda_expression fform then compile_called_function rec h fform env ctxt
      else steps [rec fform env (sub_receiving 1 ctxt), using_new env_index (opcode1 ctxt Vm_fdesignator)])"

section \<open>Local functions\<close>

definition function_block_name :: "lisp \<Rightarrow> cerror + lisp" where
  "function_block_name name =
     (if symbolp name then Inr name
      else if consp name \<and> oCar name = LSym sym_setf \<and> consp (oCdr name) then
        bind_res (lcadr name) (\<lambda>s.
          if symbolp s then bind_res (lcddr name) (\<lambda>d. if d = LNil then Inr s else Inl (InvalidFunctionName name))
          else Inl (InvalidFunctionName name))
      else Inl (InvalidFunctionName name))"

text \<open>
  A local definition \<open>(name lambda-list . body)\<close>: its body is wrapped in a block of the function's name,
  with the declarations in front.
\<close>

definition definition_body ::
    "host \<Rightarrow> lisp \<Rightarrow> lisp \<Rightarrow> (lisp \<Rightarrow> lisp \<Rightarrow> lisp \<Rightarrow> comp \<Rightarrow> cerror + 'b) \<Rightarrow> comp \<Rightarrow> cerror + 'b" where
  "definition_body h name defn k =
     attempt (lcddr defn) (\<lambda>body.
     attempt (extract_declares_docstring_code_specials h False body) (\<lambda>pb.
     attempt (function_block_name name) (\<lambda>bname.
     using_new (new_cons bname (pb_code pb)) (\<lambda>x.
     using_new (new_cons (LSym sym_block) x) (\<lambda>block.
     using_new (new_list (pb_declares pb)) (\<lambda>dl.
     using_new (new_cons (LSym sym_declare) dl) (\<lambda>declexpr.
     attempt (lcadr defn) (\<lambda>lambda_list. k lambda_list declexpr block))))))))"

record fun_state =
  fs_comp :: comp
  fs_names :: "lisp list"
  fs_debug :: "debug_binding list"
  fs_ignore :: "(lisp \<times> nat \<times> lisp) list"
  fs_closures :: "(nat \<times> nat) list"

definition fun_start :: "comp \<Rightarrow> fun_state" where
  "fun_start c = \<lparr>fs_comp = c, fs_names = [], fs_debug = [], fs_ignore = [], fs_closures = []\<rparr>"

definition flet_definition :: "form_compiler \<Rightarrow> host \<Rightarrow> lexenv \<Rightarrow> cctx \<Rightarrow> lisp \<Rightarrow> fun_state \<Rightarrow> cerror + fun_state" where
  "flet_definition rec h env ctxt x st =
     attempt (as_cons x) (\<lambda>defn.
     definition_body h (oCar defn) defn (\<lambda>lambda_list declexpr block.
     using_new (new_list [LSym sym_lambda, lambda_list, declexpr, block]) (\<lambda>lambda_expr.
     after (compile_function rec h lambda_expr env (sub_receiving 1 ctxt))
       (yield (\<lambda>c. st\<lparr>fs_comp := c, fs_names := fs_names st @ [oCar defn]\<rparr>)))))
     (fs_comp st)"

definition bound_function :: "lexenv \<Rightarrow> lisp \<Rightarrow> cerror + nat" where
  "bound_function env name =
     (case functionInfo env name of Some (LocalFunInfo l) \<Rightarrow> Inr l | _ \<Rightarrow> Inl UnreachableBranch)"

text \<open>What is recorded for a local function: its declarations, debug binding and source location.\<close>

definition record_function ::
    "host \<Rightarrow> lisp list \<Rightarrow> cctx \<Rightarrow> lisp \<Rightarrow> lisp \<Rightarrow> nat \<Rightarrow> (nat \<times> nat) list \<Rightarrow> fun_state \<Rightarrow> comp \<Rightarrow> cerror + fun_state" where
  "record_function h declares ctxt defn name l cls st =
     using_new (new_list [LSym sym_function, name]) (\<lambda>fname.
     attempt (binding_ignore fname declares) (\<lambda>ig.
     using_try (decls_for_fun name declares) (\<lambda>ds.
     after (always (declare_lex l ig ds))
       (yield (\<lambda>c. st\<lparr>fs_comp := c, fs_debug := fs_debug st @ [DVLex fname l],
               fs_ignore := fs_ignore st @ [(fname, l, source_location_for h defn (source_info ctxt))],
               fs_closures := fs_closures st @ cls\<rparr>)))))"

definition flet_record :: "host \<Rightarrow> lisp list \<Rightarrow> lexenv \<Rightarrow> cctx \<Rightarrow> lisp \<Rightarrow> fun_state \<Rightarrow> cerror + fun_state" where
  "flet_record h declares new_env ctxt x st =
     attempt (bound_function new_env (oCar x)) (\<lambda>l. record_function h declares ctxt x (oCar x) l [] st) (fs_comp st)"

definition compile_flet :: "form_compiler \<Rightarrow> host \<Rightarrow> lisp \<Rightarrow> lisp \<Rightarrow> lexenv \<Rightarrow> cctx \<Rightarrow> action" where
  "compile_flet rec h definitions body env ctxt =
     attempt (extract_declares_docstring_code_specials h False body) (\<lambda>pb.
     looping (for_each (flet_definition rec h env ctxt) definitions) fun_start fs_comp (\<lambda>st0.
     after (emit_bind ctxt (length (fs_names st0)) (frame_end env))
     (using_new (\<lambda>c. bind_funs (fs_names st0) ctxt c env) (\<lambda>new_env.
      with_label (\<lambda>begin_label. with_label (\<lambda>end_label.
      after (only_if (definitions \<noteq> LNil) (place ctxt begin_label))
      (looping (for_each (flet_record h (pb_declares pb) new_env ctxt) definitions) fun_start fs_comp (\<lambda>st. steps
         [only_if (fs_debug st \<noteq> []) (debug ctxt begin_label end_label (DebugVars (fs_debug st))),
          compile_locally rec h body new_env ctxt,
          only_if (fs_debug st \<noteq> []) (place ctxt end_label),
          always (warn_ignorance h (fs_ignore st))]))))))))"

text \<open>\<open>labels\<close>: closures are made empty and filled once all of them are bound.\<close>

definition labels_definition ::
    "form_compiler \<Rightarrow> host \<Rightarrow> lisp list \<Rightarrow> lexenv \<Rightarrow> cctx \<Rightarrow> lisp \<Rightarrow> fun_state \<Rightarrow> cerror + fun_state" where
  "labels_definition rec h body_declares new_env ctxt defn st =
     definition_body h (oCar defn) defn (\<lambda>lambda_list declexpr block.
     using_new (new_list [declexpr, block]) (\<lambda>fun_body.
     using_try (compile_lambda rec h lambda_list fun_body new_env (source_location_for h defn (source_info ctxt))) (\<lambda>cfn.
     using_new (cfunction_index cfn) (\<lambda>ix.
     attempt (fun_info (h_genv h) (oCar defn) new_env) (\<lambda>info.
       case info of
         Some (LocalFunInfo l) \<Rightarrow>
           fetch (\<lambda>c. (closed (cfun_of c cfn) \<noteq> [], unat (frame_index (lex_of c l)))) (\<lambda>(closedp, index).
           after (opcode1 ctxt (if closedp then Vm_make_uninitialized_closure else Vm_const) ix)
             (record_function h body_declares ctxt defn (oCar defn) l (if closedp then [(cfn, index)] else []) st))
       | _ \<Rightarrow> (\<lambda>_. Inl UnreachableBranch))))))
     (fs_comp st)"

definition initialize_closure :: "cctx \<Rightarrow> nat \<times> nat \<Rightarrow> action" where
  "initialize_closure ctxt cf =
     fetch (\<lambda>c. closed (cfun_of c (fst cf))) (\<lambda>cl.
       steps [each (reference_lexical_info ctxt) cl, opcode1 ctxt Vm_initialize_closure (snd cf)])"

definition labels_names :: "lisp \<Rightarrow> cerror + lisp list" where
  "labels_names definitions =
     for_each (\<lambda>x names. bind_res (as_cons x) (\<lambda>d. Inr (names @ [oCar d]))) definitions []"

definition compile_labels :: "form_compiler \<Rightarrow> host \<Rightarrow> lisp \<Rightarrow> lisp \<Rightarrow> lexenv \<Rightarrow> cctx \<Rightarrow> action" where
  "compile_labels rec h definitions body env ctxt =
     attempt (extract_declares_docstring_code_specials h False body) (\<lambda>pb.
     with_label (\<lambda>begin_label. with_label (\<lambda>end_label.
     attempt (labels_names definitions) (\<lambda>fun_vars.
     using_new (\<lambda>c. bind_funs fun_vars ctxt c env) (\<lambda>new_env.
     looping (for_each (labels_definition rec h (pb_declares pb) new_env ctxt) definitions) fun_start fs_comp (\<lambda>st. steps
       [emit_bind ctxt (length fun_vars) (frame_end env),
        only_if (fs_debug st \<noteq> []) (debug ctxt begin_label end_label (DebugVars (fs_debug st))),
        place ctxt begin_label,
        each (initialize_closure ctxt) (fs_closures st),
        compile_locally rec h body new_env ctxt,
        place ctxt end_label,
        always (warn_ignorance h (fs_ignore st))]))))))"

end
