(* ===== verification/Control.thy ===== *)
theory Control
  imports Lambdas
begin

text \<open>
  Compilation of assignments, conditionals, exits, blocks and tagbodies, multiple values and calls.
\<close>

section \<open>Assignment\<close>

definition dup_for_value :: "cctx \<Rightarrow> action" where
  "dup_for_value ctxt = only_if (receiving ctxt \<noteq> 0) (opcode0 ctxt Vm_dup)"

definition set_special :: "lisp \<Rightarrow> cctx \<Rightarrow> action" where
  "set_special var ctxt = using_new (vcell_index (symbol_number var)) (opcode1 ctxt Vm_symbol_value_set)"

text \<open>
  A symbol macro is expanded and set by \<open>setf\<close>.  A constant reaches \<open>UNREACHABLE()\<close>.
\<close>

definition compile_setq_1 :: "form_compiler \<Rightarrow> host \<Rightarrow> lisp \<Rightarrow> lisp \<Rightarrow> lexenv \<Rightarrow> cctx \<Rightarrow> action" where
  "compile_setq_1 rec h var valf env ctxt =
     (case lisp_var_info h var env of
        Some (SymbolMacroVarInfo expander) \<Rightarrow>
          attempt (expand_macro h expander var env) (\<lambda>expansion.
            using_new (new_list [LSym sym_setf, expansion, valf]) (\<lambda>setform. rec setform env ctxt))
      | Some (LexicalVarInfo l) \<Rightarrow>
          fetch (\<lambda>c. lex_cfunction (lex_of c l) = ctxt_cfunction ctxt) (\<lambda>localp. steps
            [only_if (\<not> localp) (always (mark_closed_over l)),
             always (mark_set l),
             rec valf env (sub_receiving 1 ctxt),
             dup_for_value ctxt,
             (if localp then always (emit_lexical_set ctxt l)
              else steps [using_new (closure_index ctxt l) (opcode1 ctxt Vm_closure), opcode0 ctxt Vm_cell_set]),
             pop_for_values ctxt])
      | Some (ConstantVarInfo _) \<Rightarrow> (\<lambda>_. Inl UnreachableBranch)
      | info \<Rightarrow> steps
            [only_if (info = None) (warn_undefined h var ctxt),
             rec valf env (sub_receiving 1 ctxt),
             dup_for_value ctxt,
             set_special var ctxt,
             pop_for_values ctxt])"

text \<open>A missing last value form is \<open>NIL\<close>; only the last assignment has the values of the form.\<close>

fun setq_pairs :: "form_compiler \<Rightarrow> host \<Rightarrow> lexenv \<Rightarrow> cctx \<Rightarrow> lisp \<Rightarrow> action" where
  "setq_pairs rec h env ctxt (LCons _ v (LCons _ valf pairs)) c =
     bind_res (need_symbol v) (\<lambda>var.
     bind_res (as_list pairs) (\<lambda>_.
     bind_res (compile_setq_1 rec h var valf env (if pairs \<noteq> LNil then sub_receiving 0 ctxt else ctxt) c) (\<lambda>c1.
       if pairs \<noteq> LNil then setq_pairs rec h env ctxt pairs c1 else Inr c1)))"
| "setq_pairs rec h env ctxt (LCons _ v LNil) c =
     bind_res (need_symbol v) (\<lambda>var. compile_setq_1 rec h var LNil env ctxt c)"
| "setq_pairs rec h env ctxt (LCons _ v x) c = bind_res (need_symbol v) (\<lambda>_. Inl (TypeErr x))"
| "setq_pairs rec h env ctxt x c = Inl (TypeErr x)"

definition nil_value :: "cctx \<Rightarrow> action" where
  "nil_value ctxt = only_if (receiving ctxt \<noteq> 0) (steps [opcode0 ctxt Vm_nil, pop_for_values ctxt])"

definition compile_setq :: "form_compiler \<Rightarrow> host \<Rightarrow> lisp \<Rightarrow> lexenv \<Rightarrow> cctx \<Rightarrow> action" where
  "compile_setq rec h pairs env ctxt =
     (if pairs = LNil then nil_value ctxt else setq_pairs rec h env ctxt pairs)"

section \<open>Conditionals\<close>

fun eval_when_execp :: "lisp \<Rightarrow> cerror + bool" where
  "eval_when_execp LNil = Inr False"
| "eval_when_execp (LCons _ situation rest) =
     (if situation \<in> {LSym sym_eval, LSym kw_execute} then Inr True else eval_when_execp rest)"
| "eval_when_execp x = Inl (TypeErr x)"

definition compile_eval_when :: "form_compiler \<Rightarrow> lisp \<Rightarrow> lisp \<Rightarrow> lexenv \<Rightarrow> cctx \<Rightarrow> action" where
  "compile_eval_when rec situations body env ctxt =
     attempt (eval_when_execp situations) (\<lambda>execp.
       if execp then compile_progn rec body env ctxt else compile_literal LNil ctxt)"

text \<open>The type is only recorded, behind the code of the form.\<close>

definition compile_the :: "form_compiler \<Rightarrow> lisp \<Rightarrow> lisp \<Rightarrow> lexenv \<Rightarrow> cctx \<Rightarrow> action" where
  "compile_the rec type_spec form env ctxt =
     with_label (\<lambda>lab. steps
       [rec form env ctxt, place ctxt lab, debug ctxt lab lab (AstThe type_spec (receiving ctxt))])"

definition compile_if :: "form_compiler \<Rightarrow> lisp \<Rightarrow> lisp \<Rightarrow> lisp \<Rightarrow> lexenv \<Rightarrow> cctx \<Rightarrow> action" where
  "compile_if rec cond thn els env ctxt =
     steps
       [rec cond env (sub_receiving 1 ctxt),
        with_label (\<lambda>then_label. with_label (\<lambda>else_label. with_label (\<lambda>done_label. steps
          [always (emit_jump_if ctxt then_label),
           place ctxt else_label,
           debug ctxt else_label done_label (AstIf (receiving ctxt)),
           rec els env ctxt,
           always (emit_jump ctxt done_label),
           place ctxt then_label,
           rec thn env ctxt,
           place ctxt done_label])))]"

section \<open>Tagbodies and blocks\<close>

fun go_tag_p :: "host \<Rightarrow> lisp \<Rightarrow> bool" where
  "go_tag_p h (LFix _) = True"
| "go_tag_p h (LObj n) = h_integerp h n"
| "go_tag_p h (LCons _ _ _) = False"
| "go_tag_p h _ = True"

definition tagbody_tags :: "host \<Rightarrow> lisp \<Rightarrow> cerror + lisp list" where
  "tagbody_tags h statements =
     for_each (\<lambda>s ts. Inr (if go_tag_p h s then ts @ [s] else ts)) statements []"

definition tag_label :: "lexenv \<Rightarrow> lisp \<Rightarrow> cerror + nat" where
  "tag_label env tag = (case tagInfo env tag of Some t \<Rightarrow> Inr (tag_exit t) | None \<Rightarrow> Inl UnreachableBranch)"

definition debug_tags :: "lexenv \<Rightarrow> lisp list \<Rightarrow> cerror + debug_tag list" where
  "debug_tags env ts = each (\<lambda>t ds. bind_res (tag_label env t) (\<lambda>l. Inr (ds @ [DTLabel t l]))) ts []"

definition tagbody_statement :: "form_compiler \<Rightarrow> host \<Rightarrow> lexenv \<Rightarrow> cctx \<Rightarrow> lisp \<Rightarrow> action" where
  "tagbody_statement rec h nenv stmt_ctxt statement =
     (if go_tag_p h statement then attempt (tag_label nenv statement) (place stmt_ctxt)
      else rec statement nenv stmt_ctxt)"

definition compile_tagbody :: "form_compiler \<Rightarrow> host \<Rightarrow> lisp \<Rightarrow> lexenv \<Rightarrow> cctx \<Rightarrow> action" where
  "compile_tagbody rec h statements env ctxt =
     with_label (\<lambda>start_label. with_label (\<lambda>end_label.
     attempt (tagbody_tags h statements) (\<lambda>ts.
       steps
         [if ts = [] then for_each (\<lambda>s. rec s env (sub_receiving 0 ctxt)) statements
          else
            using_new (new_lex (lexical_info_make (frame_end env) (ctxt_cfunction ctxt))) (\<lambda>de.
            using_new (\<lambda>c. bind_tags ts de ctxt c env) (\<lambda>nenv.
            attempt (debug_tags nenv ts) (\<lambda>dtags.
              let stmt_ctxt = sub_receiving 0 (sub_de (DeLex de) ctxt) in
              steps
                [always (emit_entry_or_save_sp ctxt de),
                 place ctxt start_label,
                 debug ctxt start_label end_label (AstTagbody dtags),
                 for_each (tagbody_statement rec h nenv stmt_ctxt) statements,
                 place ctxt end_label,
                 always (maybe_emit_entry_close stmt_ctxt de)]))),
          nil_value ctxt])))"

text \<open>
  Leaving to a dynamic environment of the current cfunction closes the environments in between,
  innermost first; a binding count stands for that many unbindings.
\<close>

fun unwind_interposed :: "cctx \<Rightarrow> nat \<Rightarrow> dynenv_entry list \<Rightarrow> action" where
  "unwind_interposed ctxt exit_de [] c = Inr c"
| "unwind_interposed ctxt exit_de (DeLex l # ds) c =
     (if l = exit_de then Inr c else unwind_interposed ctxt exit_de ds (maybe_emit_entry_close ctxt l c))"
| "unwind_interposed ctxt exit_de (DeBindings n # ds) c =
     unwind_interposed ctxt exit_de ds (emit_unbind ctxt n c)"
| "unwind_interposed ctxt exit_de (DeOther x # ds) c = Inl UnreachableBranch"

definition compile_exit :: "nat \<Rightarrow> nat \<Rightarrow> cctx \<Rightarrow> action" where
  "compile_exit exit_de exit_label ctxt =
     fetch (\<lambda>c. lex_cfunction (lex_of c exit_de) = ctxt_cfunction ctxt) (\<lambda>localp.
       if localp then
         steps [unwind_interposed ctxt exit_de (dynenv ctxt),
                always (emit_ref_or_restore_sp ctxt exit_de),
                always (emit_exit_or_jump ctxt exit_de exit_label)]
       else
         steps [always (mark_closed_over exit_de), reference_lexical_info ctxt exit_de,
                always (emit_exit ctxt exit_label)])"

definition compile_go :: "lisp \<Rightarrow> lexenv \<Rightarrow> cctx \<Rightarrow> action" where
  "compile_go tag env ctxt =
     (case tagInfo env tag of
        Some info \<Rightarrow>
          with_label (\<lambda>start_label. with_label (\<lambda>end_label. steps
            [place ctxt start_label, compile_exit (tag_lex info) (tag_exit info) ctxt, place ctxt end_label]))
      | None \<Rightarrow> (\<lambda>_. Inl (NoSuchTag tag)))"

text \<open>The conversion of the name to a symbol pointer lets fixnums pass.\<close>

fun symbol_pointer :: "lisp \<Rightarrow> cerror + lisp" where
  "symbol_pointer (LObj n) = Inl (TypeErr (LObj n))"
| "symbol_pointer (LCons i a d) = Inl (TypeErr (LCons i a d))"
| "symbol_pointer x = Inr x"

definition found_block :: "lexenv \<Rightarrow> lisp \<Rightarrow> cerror + block_info" where
  "found_block env name = (case blockInfo env name of Some b \<Rightarrow> Inr b | None \<Rightarrow> Inl UnreachableBranch)"

definition compile_block :: "form_compiler \<Rightarrow> lisp \<Rightarrow> lisp \<Rightarrow> lexenv \<Rightarrow> cctx \<Rightarrow> action" where
  "compile_block rec bname body env ctxt =
     attempt (symbol_pointer bname) (\<lambda>name.
     with_label (\<lambda>lab. with_label (\<lambda>normal_label. with_label (\<lambda>start_label.
     using_new (\<lambda>c. bind_block name lab ctxt c env) (\<lambda>nenv.
     attempt (found_block nenv name) (\<lambda>binfo.
       let blex = block_lex binfo; r1p = (receiving ctxt = 1) in
       steps
         [always (emit_entry_or_save_sp ctxt blex),
          place ctxt start_label,
          debug ctxt start_label lab (AstBlock name (receiving ctxt)),
          compile_progn rec body nenv (sub_de (DeLex blex) ctxt),
          only_if r1p (always (emit_jump ctxt normal_label)),
          place ctxt lab,
          only_if r1p (steps [opcode0 ctxt Vm_push, place ctxt normal_label]),
          always (maybe_emit_entry_close ctxt blex)]))))))"

definition compile_return_from :: "form_compiler \<Rightarrow> lisp \<Rightarrow> lisp \<Rightarrow> lexenv \<Rightarrow> cctx \<Rightarrow> action" where
  "compile_return_from rec name valuef env ctxt =
     (case blockInfo env name of
        Some binfo \<Rightarrow>
          with_label (\<lambda>start_label. with_label (\<lambda>end_label. steps
            [place ctxt start_label,
             rec valuef env (sub_receiving (if block_receiving binfo = 0 then 0 else -1) ctxt),
             compile_exit (block_lex binfo) (block_exit binfo) ctxt,
             place ctxt end_label]))
      | None \<Rightarrow> (\<lambda>_. Inl (NoSuchBlock name)))"

section \<open>Catch, throw and progv\<close>

definition compile_catch :: "form_compiler \<Rightarrow> lisp \<Rightarrow> lisp \<Rightarrow> lexenv \<Rightarrow> cctx \<Rightarrow> action" where
  "compile_catch rec tag body env ctxt =
     steps
       [rec tag env (sub_receiving 1 ctxt),
        with_label (\<lambda>target. steps
          [always (emit_catch ctxt target), compile_progn rec body env ctxt,
           opcode0 ctxt Vm_catch_close, place ctxt target])]"

definition compile_throw :: "form_compiler \<Rightarrow> lisp \<Rightarrow> lisp \<Rightarrow> lexenv \<Rightarrow> cctx \<Rightarrow> action" where
  "compile_throw rec tag rform env ctxt =
     steps [rec tag env (sub_receiving 1 ctxt), rec rform env (sub_receiving (-1) ctxt), opcode0 ctxt Vm_throw]"

definition compile_progv :: "form_compiler \<Rightarrow> lisp \<Rightarrow> lisp \<Rightarrow> lisp \<Rightarrow> lexenv \<Rightarrow> cctx \<Rightarrow> action" where
  "compile_progv rec syms vals body env ctxt =
     steps [rec syms env (sub_receiving 1 ctxt), rec vals env (sub_receiving 1 ctxt), opcode0 ctxt Vm_progv,
            compile_progn rec body env ctxt, always (emit_unbind ctxt 1)]"

section \<open>Multiple values and calls\<close>

definition compile_multiple_value_call :: "form_compiler \<Rightarrow> host \<Rightarrow> lisp \<Rightarrow> lisp \<Rightarrow> lexenv \<Rightarrow> cctx \<Rightarrow> action" where
  "compile_multiple_value_call rec h fform aforms env ctxt =
     attempt (as_list aforms) (\<lambda>args.
       steps
         [compile_fdesignator rec h fform env ctxt,
          (if args = LNil then emit_call ctxt 0
           else attempt (bind_res (lcdr args) as_list) (\<lambda>rest. steps
             [rec (oCar args) env (sub_receiving (-1) ctxt),
              opcode0 ctxt Vm_push_values,
              for_each (\<lambda>x. steps [rec x env (sub_receiving (-1) ctxt), opcode0 ctxt Vm_append_values]) rest,
              emit_mv_call ctxt]))])"

definition compile_multiple_value_prog1 :: "form_compiler \<Rightarrow> lisp \<Rightarrow> lisp \<Rightarrow> lexenv \<Rightarrow> cctx \<Rightarrow> action" where
  "compile_multiple_value_prog1 rec fform forms env ctxt =
     steps
       [rec fform env ctxt,
        only_if (receiving ctxt = -1) (opcode0 ctxt Vm_push_values),
        for_each (\<lambda>x. rec x env (sub_receiving 0 ctxt)) forms,
        only_if (receiving ctxt = -1) (opcode0 ctxt Vm_pop_values)]"

definition call_argument :: "form_compiler \<Rightarrow> lexenv \<Rightarrow> cctx \<Rightarrow> lisp \<Rightarrow> comp \<times> nat \<Rightarrow> cerror + comp \<times> nat" where
  "call_argument rec env ctxt x st =
     after (rec x env (sub_receiving 1 ctxt)) (yield (\<lambda>c. (c, Suc (snd st)))) (fst st)"

definition compile_call :: "form_compiler \<Rightarrow> lisp \<Rightarrow> lexenv \<Rightarrow> cctx \<Rightarrow> action" where
  "compile_call rec args env ctxt =
     looping (for_each (call_argument rec env ctxt) args) (\<lambda>c. (c, 0)) fst (\<lambda>st. emit_call ctxt (snd st))"

definition compile_load_time_value :: "lisp \<Rightarrow> lisp \<Rightarrow> cctx \<Rightarrow> action" where
  "compile_load_time_value form tread_only_p ctxt =
     attempt (if tread_only_p = LNil then Inr False else if tread_only_p = LSym sym_T then Inr True
              else Inl (BadReadOnlyFlag tread_only_p)) (\<lambda>read_only_p.
     using_new (ltv_index form read_only_p) (\<lambda>ind.
       if receiving ctxt = 0 then Inr
       else if receiving ctxt = 1 then opcode1 ctxt Vm_const ind
       else if receiving ctxt = -1 then steps [opcode1 ctxt Vm_const ind, opcode0 ctxt Vm_pop]
       else (\<lambda>_. Inl (CannotCompileLiteral (receiving ctxt)))))"

end
