(* ===== verification/Compiler.thy ===== *)
theory Compiler
  imports Control Link
begin

text \<open>
  The compiler put together: local macros, combinations, forms and the entry points.  The recursion
  through \<open>compile_form\<close> is bounded by fuel, as macro expansion need not end.
\<close>

section \<open>Expanders of local macros\<close>

definition bytecompile_into :: "form_compiler \<Rightarrow> host \<Rightarrow> lisp \<Rightarrow> lexenv \<Rightarrow> comp \<Rightarrow> cerror + comp \<times> nat" where
  "bytecompile_into rec h lambda_expression env =
     (if \<not> is_lambda_expression lambda_expression then (\<lambda>_. Inl (NotALambdaExpression lambda_expression))
      else attempt (lcadr lambda_expression) (\<lambda>lambda_list.
           attempt (lcddr lambda_expression) (\<lambda>body.
             compile_lambda rec h lambda_list body env
               (source_location_for h lambda_expression (h_source_pos h)))))"

text \<open>
  A new module is compiled and linked.  Only macroexpansion and toplevel environments come here, which
  name no objects of the enclosing module, so that the new module has heaps of its own; addresses and
  warnings go on.
\<close>

definition fresh_module :: "comp \<Rightarrow> comp" where
  "fresh_module c = module_make\<lparr>next_addr := next_addr c, warnings := warnings c\<rparr>"

definition link_function :: "host \<Rightarrow> comp \<Rightarrow> nat \<Rightarrow> cerror + comp \<times> lisp" where
  "link_function h m cfn =
     (case link m of
        None \<Rightarrow> Inl LinkingDiverged
      | Some r \<Rightarrow> bind_res r (\<lambda>m'. bind_res (create_bytecode m') (\<lambda>_. bind_res (h_function h m' cfn) (\<lambda>x. Inr (m', x)))))"

definition bytecompile :: "form_compiler \<Rightarrow> host \<Rightarrow> lisp \<Rightarrow> lexenv \<Rightarrow> comp \<Rightarrow> cerror + comp \<times> lisp" where
  "bytecompile rec h lambda_expression env c =
     bind_res (bytecompile_into rec h lambda_expression env (fresh_module c)) (\<lambda>(m, cfn).
     bind_res (link_function h m cfn) (\<lambda>(m', function).
       Inr (c\<lparr>next_addr := next_addr m', warnings := warnings m'\<rparr>, function)))"

definition symbol_macro_expander :: "host \<Rightarrow> lisp \<Rightarrow> (lisp \<Rightarrow> comp \<Rightarrow> cerror + 'b) \<Rightarrow> comp \<Rightarrow> cerror + 'b" where
  "symbol_macro_expander h expansion k =
     using_new (new_gensym h) (\<lambda>formv.
     using_new (new_gensym h) (\<lambda>envv.
     using_new (new_list [formv, envv]) (\<lambda>params.
     using_new (new_list [LSym sym_ignore, formv, envv]) (\<lambda>ign.
     using_new (new_list [LSym sym_declare, ign]) (\<lambda>dl.
     using_new (new_list [LSym sym_quote, expansion]) (\<lambda>body.
     using_new (new_list [LSym sym_lambda, params, dl, body]) k))))))"

definition symbol_macro_binding ::
    "form_compiler \<Rightarrow> host \<Rightarrow> lexenv \<Rightarrow> lisp \<Rightarrow> comp \<times> (lisp \<times> var_info) list
       \<Rightarrow> cerror + comp \<times> (lisp \<times> var_info) list" where
  "symbol_macro_binding rec h menv binding st =
     attempt (lcar binding) (\<lambda>name.
     attempt (as_symbol (h_genv h) name) (\<lambda>si.
       if si_read_only si then (\<lambda>_. Inl (SymbolMacroOfConstant name))
       else if si_special_p si then (\<lambda>_. Inl (SymbolMacroOfSpecial name))
       else attempt (lcadr binding) (\<lambda>expansion.
         symbol_macro_expander h expansion (\<lambda>lexpr.
         using_try (bytecompile rec h lexpr menv) (\<lambda>expander.
           yield (\<lambda>c. (c, (name, SymbolMacroVarInfo expander) # snd st))))))) (fst st)"

definition symbol_macrolet_bindings ::
    "form_compiler \<Rightarrow> host \<Rightarrow> lexenv \<Rightarrow> lisp \<Rightarrow> (lisp \<times> var_info) list \<Rightarrow> comp
       \<Rightarrow> cerror + comp \<times> (lisp \<times> var_info) list" where
  "symbol_macrolet_bindings rec h menv bindings vs c =
     for_each (symbol_macro_binding rec h menv) bindings (c, vs)"

definition compile_symbol_macrolet :: "form_compiler \<Rightarrow> host \<Rightarrow> lisp \<Rightarrow> lisp \<Rightarrow> lexenv \<Rightarrow> cctx \<Rightarrow> action" where
  "compile_symbol_macrolet rec h bindings body env ctxt =
     using_try (symbol_macrolet_bindings rec h (macroexpansion_environment env) bindings (vars env)) (\<lambda>vs.
       compile_locally rec h body (sub_vars vs (frame_end env) env) ctxt)"

definition macro_binding ::
    "form_compiler \<Rightarrow> host \<Rightarrow> lexenv \<Rightarrow> lisp \<Rightarrow> comp \<times> (lisp \<times> fun_info) list
       \<Rightarrow> cerror + comp \<times> (lisp \<times> fun_info) list" where
  "macro_binding rec h menv binding st =
     attempt (lcar binding) (\<lambda>name.
     attempt (lcadr binding) (\<lambda>lambda_list.
     attempt (lcddr binding) (\<lambda>body.
     attempt (h_parse_macro h name lambda_list body menv) (\<lambda>eform.
     using_try (bytecompile rec h eform menv) (\<lambda>expander.
       yield (\<lambda>c. (c, (name, LocalMacroInfo expander) # snd st))))))) (fst st)"

definition macrolet_bindings ::
    "form_compiler \<Rightarrow> host \<Rightarrow> lexenv \<Rightarrow> lisp \<Rightarrow> (lisp \<times> fun_info) list \<Rightarrow> comp
       \<Rightarrow> cerror + comp \<times> (lisp \<times> fun_info) list" where
  "macrolet_bindings rec h menv bindings fs c = for_each (macro_binding rec h menv) bindings (c, fs)"

definition compile_macrolet :: "form_compiler \<Rightarrow> host \<Rightarrow> lisp \<Rightarrow> lisp \<Rightarrow> lexenv \<Rightarrow> cctx \<Rightarrow> action" where
  "compile_macrolet rec h bindings body env ctxt =
     using_try (macrolet_bindings rec h (macroexpansion_environment env) bindings (funs env)) (\<lambda>fs.
       compile_locally rec h body (sub_funs fs (frame_end env) env) ctxt)"

section \<open>Calls\<close>

text \<open>\<open>(funcall #'f ...)\<close> for a global function with a compiler macro; the form is made anew.\<close>

definition names_function :: "lisp \<Rightarrow> cerror + bool" where
  "names_function fform =
     (if consp fform \<and> oCar fform = LSym sym_function \<and> consp (oCdr fform) then
        bind_res (lcddr fform) (\<lambda>d.
          if d \<noteq> LNil then Inr False
          else let x = oCar (oCdr fform) in Inr (symbolp x \<or> (consp x \<and> oCar x \<noteq> LSym sym_lambda)))
      else Inr False)"

text \<open>The compiler macro of a global function, unless it is declared \<open>notinline\<close>.\<close>

definition compiler_macro_of :: "host \<Rightarrow> lisp \<Rightarrow> lexenv \<Rightarrow> cerror + lisp option" where
  "compiler_macro_of h fname env =
     bind_res (fun_info_v (h_genv h) fname env) (\<lambda>info.
       case info of
         Some (GlobalFunInfo cmexpander) \<Rightarrow>
           Inr (if cmexpander \<noteq> LNil \<and> \<not> notinlinep fname env then Some cmexpander else None)
       | _ \<Rightarrow> Inr None)"

definition try_compiler_macro ::
    "form_compiler \<Rightarrow> host \<Rightarrow> lisp \<Rightarrow> lisp \<Rightarrow> lexenv \<Rightarrow> cctx \<Rightarrow> action \<Rightarrow> action" where
  "try_compiler_macro rec h expander form env ctxt otherwise =
     attempt (expand_compiler_macro h expander form env (source_info ctxt)) (\<lambda>expansion.
       if \<not> eq_lisp expansion form then rec expansion env ctxt else otherwise)"

definition compile_funcall :: "form_compiler \<Rightarrow> host \<Rightarrow> lisp \<Rightarrow> lisp \<Rightarrow> lexenv \<Rightarrow> cctx \<Rightarrow> action" where
  "compile_funcall rec h fform args env ctxt =
     (let call = steps [compile_fdesignator rec h fform env ctxt, compile_call rec args env ctxt] in
      attempt (as_list args) (\<lambda>_.
      attempt (names_function fform) (\<lambda>namedp.
      attempt (if namedp then compiler_macro_of h (oCar (oCdr fform)) env else Inr None) (\<lambda>cm.
        case cm of
          None \<Rightarrow> call
        | Some cmexpander \<Rightarrow>
            using_new (new_cons fform args) (\<lambda>x.
            using_new (new_cons (LSym sym_funcall) x) (\<lambda>form.
              try_compiler_macro rec h cmexpander form env ctxt call))))))"

definition compile_primop_funcall :: "form_compiler \<Rightarrow> lisp \<Rightarrow> lisp \<Rightarrow> lexenv \<Rightarrow> cctx \<Rightarrow> action" where
  "compile_primop_funcall rec callee args env ctxt =
     steps [rec callee env (sub_receiving 1 ctxt), compile_call rec args env ctxt]"

text \<open>Combinations whose head is not a special operator.\<close>

definition compile_named_call :: "form_compiler \<Rightarrow> host \<Rightarrow> lisp \<Rightarrow> lisp \<Rightarrow> lexenv \<Rightarrow> cctx \<Rightarrow> action" where
  "compile_named_call rec h head rest env ctxt =
     steps [compile_called_function rec h head env ctxt, compile_call rec rest env ctxt]"

definition compile_application :: "form_compiler \<Rightarrow> host \<Rightarrow> lisp \<Rightarrow> lisp \<Rightarrow> lexenv \<Rightarrow> cctx \<Rightarrow> action" where
  "compile_application rec h head rest env ctxt =
     (if symbolp head then
        attempt (fun_info_v (h_genv h) head env) (\<lambda>info.
          case info of
            Some (GlobalMacroInfo expander) \<Rightarrow>
              using_new (new_cons head rest) (\<lambda>form.
              attempt (expand_macro h expander form env) (\<lambda>expansion.
              with_label (\<lambda>begin_label. with_label (\<lambda>end_label. steps
                [place ctxt begin_label,
                 debug ctxt begin_label end_label (DebugMacroexpansion head),
                 rec expansion env ctxt,
                 place ctxt end_label]))))
          | Some (LocalMacroInfo expander) \<Rightarrow>
              using_new (new_cons head rest) (\<lambda>form.
              attempt (expand_macro h expander form env) (\<lambda>expansion. rec expansion env ctxt))
          | Some (GlobalFunInfo cmexpander) \<Rightarrow>
              if cmexpander \<noteq> LNil \<and> \<not> notinlinep head env \<and> head \<noteq> LSym sym_case then
                using_new (new_cons head rest) (\<lambda>form.
                  try_compiler_macro rec h cmexpander form env ctxt (compile_named_call rec h head rest env ctxt))
              else compile_named_call rec h head rest env ctxt
          | _ \<Rightarrow> compile_named_call rec h head rest env ctxt)
      else if is_lambda_expression head then compile_named_call rec h head rest env ctxt
      else (\<lambda>_. Inl (IllegalCombination head rest)))"

section \<open>Combinations and forms\<close>

text \<open>Operators with one, two or three subforms taken from the rest of the combination.\<close>

definition with_car :: "lisp \<Rightarrow> (lisp \<Rightarrow> action) \<Rightarrow> action" where
  "with_car rest k = attempt (lcar rest) k"

definition with_car_cdr :: "lisp \<Rightarrow> (lisp \<Rightarrow> lisp \<Rightarrow> action) \<Rightarrow> action" where
  "with_car_cdr rest k = attempt (lcar rest) (\<lambda>a. attempt (lcdr rest) (\<lambda>d. k a d))"

definition with_two :: "lisp \<Rightarrow> (lisp \<Rightarrow> lisp \<Rightarrow> action) \<Rightarrow> action" where
  "with_two rest k = attempt (lcar rest) (\<lambda>a. attempt (lcadr rest) (\<lambda>b. k a b))"

definition with_three :: "lisp \<Rightarrow> (lisp \<Rightarrow> lisp \<Rightarrow> lisp \<Rightarrow> action) \<Rightarrow> action" where
  "with_three rest k =
     attempt (lcar rest) (\<lambda>a. attempt (lcadr rest) (\<lambda>b. attempt (lcaddr rest) (\<lambda>d. k a b d)))"

definition compile_combination :: "form_compiler \<Rightarrow> host \<Rightarrow> lisp \<Rightarrow> lisp \<Rightarrow> lexenv \<Rightarrow> cctx \<Rightarrow> action" where
  "compile_combination rec h head rest env ctxt =
     (if head = LSym sym_progn then compile_progn rec rest env ctxt
      else if head = LSym sym_let then with_car_cdr rest (\<lambda>b body. compile_let rec h b body env ctxt)
      else if head = LSym sym_letSTAR then with_car_cdr rest (\<lambda>b body. compile_letSTAR rec h b body env ctxt)
      else if head = LSym sym_flet then with_car_cdr rest (\<lambda>b body. compile_flet rec h b body env ctxt)
      else if head = LSym sym_labels then with_car_cdr rest (\<lambda>b body. compile_labels rec h b body env ctxt)
      else if head = LSym sym_setq then compile_setq rec h rest env ctxt
      else if head = LSym sym_if then with_three rest (\<lambda>cond thn els. compile_if rec cond thn els env ctxt)
      else if head = LSym sym_function then with_car rest (\<lambda>f. compile_function rec h f env ctxt)
      else if head = LSym sym_tagbody then compile_tagbody rec h rest env ctxt
      else if head = LSym sym_go then with_car rest (\<lambda>tag. compile_go tag env ctxt)
      else if head = LSym sym_block then with_car_cdr rest (\<lambda>name body. compile_block rec name body env ctxt)
      else if head = LSym sym_return_from then with_two rest (\<lambda>name valuef. compile_return_from rec name valuef env ctxt)
      else if head = LSym sym_quote then with_car rest (\<lambda>x. compile_literal x ctxt)
      else if head = LSym sym_load_time_value then with_two rest (\<lambda>form ro. compile_load_time_value form ro ctxt)
      else if head = LSym sym_macrolet then with_car_cdr rest (\<lambda>b body. compile_macrolet rec h b body env ctxt)
      else if head = LSym sym_symbol_macrolet then
        with_car_cdr rest (\<lambda>b body. compile_symbol_macrolet rec h b body env ctxt)
      else if head = LSym sym_multiple_value_call then
        with_car_cdr rest (\<lambda>f args. compile_multiple_value_call rec h f args env ctxt)
      else if head = LSym sym_multiple_value_prog1 then
        with_car_cdr rest (\<lambda>f forms. compile_multiple_value_prog1 rec f forms env ctxt)
      else if head = LSym sym_locally then compile_locally rec h rest env ctxt
      else if head = LSym sym_eval_when then with_car_cdr rest (\<lambda>s body. compile_eval_when rec s body env ctxt)
      else if head = LSym sym_the then with_two rest (\<lambda>ty form. compile_the rec ty form env ctxt)
      else if head = LSym sym_funcall \<and> consp rest then with_car_cdr rest (\<lambda>f args. compile_funcall rec h f args env ctxt)
      else if head = LSym sym_primop_funcall then
        with_car_cdr rest (\<lambda>f args. compile_primop_funcall rec f args env ctxt)
      else if head = LSym sym_primop_eq then compile_named_call rec h (LSym sym_eq) rest env ctxt
      else compile_application rec h head rest env ctxt)"

definition form_to_walk :: "host \<Rightarrow> lisp \<Rightarrow> lexenv \<Rightarrow> cerror + lisp" where
  "form_to_walk h form env = (case h_walker h of Some f \<Rightarrow> f form env | None \<Rightarrow> Inr form)"

text \<open>One layer of \<open>compile_form\<close>: the source location is kept around the code of the form.\<close>

definition compile_form_step :: "form_compiler \<Rightarrow> host \<Rightarrow> form_compiler" where
  "compile_form_step rec h form0 env ctxt =
     attempt (form_to_walk h form0 env) (\<lambda>form.
       let loc = source_location_for h form LNil;
           nctxt = (if loc \<noteq> LNil then sub_source loc ctxt else ctxt)
       in
       with_label (\<lambda>begin_label. with_label (\<lambda>end_label. steps
         [only_if (loc \<noteq> LNil) (steps
            [place nctxt begin_label, debug ctxt begin_label end_label (DebugLocation loc)]),
          (if symbolp form then compile_symbol rec h form env nctxt
           else if consp form then compile_combination rec h (oCar form) (oCdr form) env nctxt
           else compile_literal form nctxt),
          only_if (loc \<noteq> LNil) (place nctxt end_label)])))"

fun compile_form :: "nat \<Rightarrow> host \<Rightarrow> form_compiler" where
  "compile_form 0 h = (\<lambda>_ _ _ _. Inl CompilerOutOfFuel)"
| "compile_form (Suc n) h = compile_form_step (compile_form n h) h"

text \<open>The entry point: a lambda expression is compiled into a module of its own.\<close>

definition compile_module :: "nat \<Rightarrow> host \<Rightarrow> lisp \<Rightarrow> lexenv \<Rightarrow> nat \<Rightarrow> cerror + comp \<times> nat" where
  "compile_module n h lambda_expression env addr =
     bytecompile_into (compile_form n h) h lambda_expression env (module_make\<lparr>next_addr := addr\<rparr>)"

end
