(* ===== verification/Worlds.thy ===== *)
theory Worlds
  imports Compiler Placing "HOL-Library.Multiset"
begin

text \<open>
  What a compilation step may rely on and must keep: labels promised to be placed, lexical infos and
  cfunctions that exist, labels placed already.  The judgement \<open>does\<close> says that a computation over the
  compiler's store keeps the module fit for linking and all references in the store defined, as long as
  no label is placed twice.
\<close>

section \<open>Worlds\<close>

record world =
  w_labels :: "nat set"
  w_lexs :: "nat set"
  w_funs :: "nat set"
  w_done :: "nat set"

definition add_label :: "nat \<Rightarrow> world \<Rightarrow> world" where
  "add_label l K = K\<lparr>w_labels := insert l (w_labels K)\<rparr>"

definition add_lexs :: "nat set \<Rightarrow> world \<Rightarrow> world" where
  "add_lexs X K = K\<lparr>w_lexs := X \<union> w_lexs K\<rparr>"

definition add_fun :: "nat \<Rightarrow> world \<Rightarrow> world" where
  "add_fun f K = K\<lparr>w_funs := insert f (w_funs K)\<rparr>"

definition add_done :: "nat \<Rightarrow> world \<Rightarrow> world" where
  "add_done l K = K\<lparr>w_done := insert l (w_done K)\<rparr>"

lemma world_fields [simp]:
  "w_labels (add_label l K) = insert l (w_labels K)" "w_lexs (add_label l K) = w_lexs K"
  "w_funs (add_label l K) = w_funs K" "w_done (add_label l K) = w_done K"
  "w_labels (add_lexs X K) = w_labels K" "w_lexs (add_lexs X K) = X \<union> w_lexs K"
  "w_funs (add_lexs X K) = w_funs K" "w_done (add_lexs X K) = w_done K"
  "w_labels (add_fun f K) = w_labels K" "w_lexs (add_fun f K) = w_lexs K"
  "w_funs (add_fun f K) = insert f (w_funs K)" "w_done (add_fun f K) = w_done K"
  "w_labels (add_done l K) = w_labels K" "w_lexs (add_done l K) = w_lexs K"
  "w_funs (add_done l K) = w_funs K" "w_done (add_done l K) = insert l (w_done K)"
  by (simp_all add: add_label_def add_lexs_def add_fun_def add_done_def)

text \<open>A world promises less when it knows less and only drops labels that are placed.\<close>

definition weaker :: "world \<Rightarrow> world \<Rightarrow> bool" where
  "weaker J K \<longleftrightarrow> w_labels J \<subseteq> w_labels K \<and> w_labels K \<subseteq> w_labels J \<union> w_done K \<and>
     w_lexs J \<subseteq> w_lexs K \<and> w_funs J \<subseteq> w_funs K \<and> w_done J \<subseteq> w_done K"

lemma weaker_refl [simp]: "weaker K K"
  by (simp add: weaker_def)

lemma weaker_trans: "weaker I J \<Longrightarrow> weaker J K \<Longrightarrow> weaker I K"
  unfolding weaker_def by blast

section \<open>The store\<close>

definition mods_ok :: "comp \<Rightarrow> bool" where
  "mods_ok c \<longleftrightarrow> (\<forall>f \<in> set (mod_cfunctions c). f < length (cfuns c))"

definition extends :: "comp \<Rightarrow> comp \<Rightarrow> bool" where
  "extends c c' \<longleftrightarrow> mset (slots c) \<subseteq># mset (slots c') \<and> set (mod_cfunctions c) \<subseteq> set (mod_cfunctions c')"

definition label_ok :: "comp \<Rightarrow> nat \<Rightarrow> bool" where
  "label_ok c l \<longleftrightarrow> l < length (annots c) \<and> ann_kind (annot_of c l) = Label \<and>
     (l \<in> set (slots c) \<or> unplaced c l)"

fun kind_lex :: "annot_kind \<Rightarrow> nat option" where
  "kind_lex (LexRefFixup l _) = Some l"
| "kind_lex (EncageFixup l) = Some l"
| "kind_lex (LexSetFixup l) = Some l"
| "kind_lex (EntryFixup l) = Some l"
| "kind_lex (RestoreSPFixup l) = Some l"
| "kind_lex (ExitFixup l _) = Some l"
| "kind_lex (EntryCloseFixup l) = Some l"
| "kind_lex _ = None"

fun pos_labels :: "debug_pos \<Rightarrow> nat set" where
  "pos_labels (DLabel l) = {l}"
| "pos_labels _ = {}"

fun tag_labels :: "debug_tag \<Rightarrow> nat set" where
  "tag_labels (DTLabel _ l) = {l}"
| "tag_labels _ = {}"

fun kind_labels :: "debug_kind \<Rightarrow> nat set" where
  "kind_labels (AstTagbody ts) = (\<Union>t \<in> set ts. tag_labels t)"
| "kind_labels _ = {}"

fun binding_lexs :: "debug_binding \<Rightarrow> nat set" where
  "binding_lexs (DVLex _ l) = {l}"
| "binding_lexs _ = {}"

fun kind_lexs :: "debug_kind \<Rightarrow> nat set" where
  "kind_lexs (DebugVars bs) = (\<Union>b \<in> set bs. binding_lexs b)"
| "kind_lexs _ = {}"

definition dinfo_labels :: "debug_info \<Rightarrow> nat set" where
  "dinfo_labels d = pos_labels (di_start d) \<union> pos_labels (di_end d) \<union> kind_labels (di_kind d)"

text \<open>
  Every reference in the store is defined: lexical infos of fixups, closures and debug information,
  owners of lexical infos, cfunctions among the literals.
\<close>

definition typed :: "comp \<Rightarrow> bool" where
  "typed c \<longleftrightarrow>
     (\<forall>a \<in> set (annots c). \<forall>l. kind_lex (ann_kind a) = Some l \<longrightarrow> l < length (lexs c)) \<and>
     (\<forall>f \<in> set (cfuns c). \<forall>l \<in> set (closed f). l < length (lexs c)) \<and>
     (\<forall>l \<in> set (lexs c). lex_cfunction l \<in> set (mod_cfunctions c)) \<and>
     (\<forall>f. CfunctionLit f \<in> set (mod_literals c) \<longrightarrow> f \<in> set (mod_cfunctions c)) \<and>
     (\<forall>d \<in> set (dinfos c). \<forall>l \<in> kind_lexs (di_kind d). l < length (lexs c))"

text \<open>Jump targets, and labels of debug information, are placed or promised.\<close>

definition targets_in :: "nat set \<Rightarrow> comp \<Rightarrow> bool" where
  "targets_in P c \<longleftrightarrow>
     (\<forall>a \<in> set (slots c). \<forall>l. label_target (ann_kind (annot_of c a)) = Some l \<longrightarrow> label_ok c l \<and> (l \<in> set (slots c) \<or> l \<in> P)) \<and>
     (\<forall>d \<in> set (dinfos c). \<forall>l \<in> dinfo_labels d. label_ok c l \<and> (l \<in> set (slots c) \<or> l \<in> P))"

definition inv :: "world \<Rightarrow> comp \<Rightarrow> bool" where
  "inv K c \<longleftrightarrow> building c \<and> typed c \<and> targets_in (w_labels K) c \<and>
     (\<forall>l \<in> w_labels K. label_ok c l) \<and>
     (\<forall>g \<in> set (mod_cfunctions c). label_ok c (entry_point (cfun_of c g))) \<and>
     (\<forall>x \<in> w_lexs K. x < length (lexs c)) \<and> w_funs K \<subseteq> set (mod_cfunctions c) \<and>
     w_done K \<subseteq> set (slots c)"

lemma inv_weaker: "inv K c \<Longrightarrow> weaker J K \<Longrightarrow> inv J c"
  unfolding inv_def weaker_def targets_in_def by blast

lemma extends_refl [simp]: "extends c c"
  by (simp add: extends_def)

lemma extends_trans: "extends a b \<Longrightarrow> extends b c \<Longrightarrow> extends a c"
  unfolding extends_def by (blast intro: subset_mset.order_trans)

lemma extends_distinct: "extends c c' \<Longrightarrow> distinct (slots c') \<Longrightarrow> distinct (slots c)"
proof -
  assume e: "extends c c'" and d: "distinct (slots c')"
  then obtain M where "mset (slots c') = mset (slots c) + M" by (auto simp: extends_def mset_subset_eq_exists_conv)
  moreover obtain zs where "mset zs = M" using ex_mset by blast
  ultimately have "mset (slots c') = mset (slots c @ zs)" by simp
  with d have "distinct (slots c @ zs)" using mset_eq_imp_distinct_iff by blast
  then show ?thesis by simp
qed

lemma extends_slots: "extends c c' \<Longrightarrow> l \<in> set (slots c) \<Longrightarrow> l \<in> set (slots c')"
  unfolding extends_def by (metis mset_subset_eqD set_mset_mset)

section \<open>The judgement\<close>

definition does :: "world \<Rightarrow> (comp \<Rightarrow> cerror + 'r) \<Rightarrow> ('r \<Rightarrow> comp) \<Rightarrow> ('r \<Rightarrow> world) \<Rightarrow> bool" where
  "does K m s W \<longleftrightarrow>
     (\<forall>c r. m c = Inr r \<longrightarrow> mods_ok c \<longrightarrow>
        mods_ok (s r) \<and> extends c (s r) \<and> (distinct (slots (s r)) \<longrightarrow> inv K c \<longrightarrow> inv (W r) (s r)))"

abbreviation leads :: "world \<Rightarrow> action \<Rightarrow> world \<Rightarrow> bool" where
  "leads K m J \<equiv> does K m (\<lambda>c. c) (\<lambda>_. J)"

abbreviation keeps :: "world \<Rightarrow> action \<Rightarrow> bool" where
  "keeps K m \<equiv> leads K m K"

lemma doesI:
  assumes "\<And>c r. m c = Inr r \<Longrightarrow> mods_ok c \<Longrightarrow> mods_ok (s r) \<and> extends c (s r)"
    and "\<And>c r. m c = Inr r \<Longrightarrow> mods_ok c \<Longrightarrow> distinct (slots (s r)) \<Longrightarrow> inv K c \<Longrightarrow> inv (W r) (s r)"
  shows "does K m s W"
  using assms unfolding does_def by blast

lemma doesD:
  assumes "does K m s W" "m c = Inr r" "mods_ok c"
  shows "mods_ok (s r)" "extends c (s r)" "distinct (slots (s r)) \<Longrightarrow> inv K c \<Longrightarrow> inv (W r) (s r)"
  using assms unfolding does_def by blast+

lemma does_weaken:
  assumes "does K m s W" "weaker K J" "\<And>c r. m c = Inr r \<Longrightarrow> weaker (W' r) (W r)"
  shows "does J m s W'"
  using assms unfolding does_def by (meson inv_weaker)

lemma leads_weaken: "leads K m J \<Longrightarrow> weaker J' J \<Longrightarrow> leads K m J'"
  by (rule does_weaken[where K = K]) simp_all

lemma does_bind:
  assumes "does K m s W" "\<And>c r. m c = Inr r \<Longrightarrow> does (W r) (k r) s' W'"
  shows "does K (\<lambda>c. bind_res (m c) (\<lambda>r. k r (s r))) s' W'"
proof (rule doesI)
  fix c r' assume "bind_res (m c) (\<lambda>r. k r (s r)) = Inr r'" and c: "mods_ok c"
  then obtain r where r: "m c = Inr r" "k r (s r) = Inr r'" by (auto simp: bind_res_Inr_iff)
  note d1 = doesD[OF assms(1) r(1) c]
  note d2 = doesD[OF assms(2)[OF r(1)] r(2) d1(1)]
  show "mods_ok (s' r') \<and> extends c (s' r')" using d1 d2 extends_trans by blast
  show "inv (W' r') (s' r')" if "distinct (slots (s' r'))" "inv K c"
    using that d1 d2 extends_distinct by blast
qed

lemma does_fail [simp]: "does K (\<lambda>_. Inl e) s W"
  by (simp add: does_def)

lemma does_return: "(\<And>c. s (f c) = c) \<Longrightarrow> (\<And>c. weaker (W (f c)) K) \<Longrightarrow> does K (\<lambda>c. Inr (f c)) s W"
  by (rule doesI) (auto intro: inv_weaker)

lemma keeps_skip [simp]: "keeps K Inr"
  by (rule doesI) auto

lemma keeps_steps_Nil [simp]: "keeps K (steps [])"
  by (rule doesI) auto

lemma leads_steps:
  assumes "leads K m J" "leads J (steps ms) I"
  shows "leads K (steps (m # ms)) I"
proof -
  have "steps (m # ms) = (\<lambda>c. bind_res (m c) (\<lambda>r. steps ms r))" by (simp add: fun_eq_iff)
  with does_bind[OF assms(1), of "\<lambda>_. steps ms" "\<lambda>c. c" "\<lambda>_. I"] assms(2) show ?thesis by simp
qed

lemma keeps_steps: "(\<And>m. m \<in> set ms \<Longrightarrow> keeps K m) \<Longrightarrow> keeps K (steps ms)"
  by (induction ms) (auto intro: leads_steps)

lemma does_attempt: "(\<And>x. r = Inr x \<Longrightarrow> does K (k x) s W) \<Longrightarrow> does K (attempt r k) s W"
  unfolding attempt_def[abs_def] by (cases r) simp_all

lemma does_fetch: "(\<And>x. does K (k x) s W) \<Longrightarrow> does K (fetch f k) s W"
  unfolding fetch_def does_def by blast

lemma leads_only_if: "(b \<Longrightarrow> leads K m J) \<Longrightarrow> (\<not> b \<Longrightarrow> weaker J K) \<Longrightarrow> leads K (only_if b m) J"
  using leads_weaken[OF keeps_skip] by (cases b) (simp_all add: only_if_def[abs_def])

lemma keeps_only_if: "(b \<Longrightarrow> keeps K m) \<Longrightarrow> keeps K (only_if b m)"
  by (rule leads_only_if) simp_all

lemma does_after: "leads K m J \<Longrightarrow> does J k s W \<Longrightarrow> does K (after m k) s W"
  unfolding after_def[abs_def] using does_bind[of K m "\<lambda>c. c" "\<lambda>_. J" "\<lambda>_. k" s W] by simp

lemma does_yield: "(\<And>c. s (f c) = c) \<Longrightarrow> (\<And>c. weaker (W (f c)) K) \<Longrightarrow> does K (yield f) s W"
  unfolding yield_def[abs_def] by (rule does_return)

lemma does_if: "(b \<Longrightarrow> does K m s W) \<Longrightarrow> (\<not> b \<Longrightarrow> does K m' s W) \<Longrightarrow> does K (if b then m else m') s W"
  by simp

lemma does_using_try:
  assumes "does K f fst (\<lambda>r. V (snd r))" "\<And>c c' x. f c = Inr (c', x) \<Longrightarrow> does (V x) (k x) s W"
  shows "does K (using_try f k) s W"
proof -
  have "using_try f k = (\<lambda>c. bind_res (f c) (\<lambda>r. k (snd r) (fst r)))"
    by (simp add: fun_eq_iff using_try_def split_beta')
  with does_bind[OF assms(1), of "\<lambda>r. k (snd r)"] assms(2) show ?thesis by (metis prod.collapse)
qed

lemma does_using_new:
  assumes "does K (\<lambda>c. Inr (f c)) fst (\<lambda>r. V (snd r))" "\<And>c c' x. f c = (c', x) \<Longrightarrow> does (V x) (k x) s W"
  shows "does K (using_new f k) s W"
proof -
  have "using_new f k = using_try (\<lambda>c. Inr (f c)) k"
    by (simp add: fun_eq_iff using_new_def using_try_def split_beta')
  moreover have "does K (using_try (\<lambda>c. Inr (f c)) k) s W"
    by (rule does_using_try[where V = V, OF assms(1)]) (simp add: assms(2))
  ultimately show ?thesis by simp
qed

text \<open>
  A loop carries a state that holds the store; \<open>Q\<close> is what the state says by itself, \<open>W\<close> the world it
  stands for.
\<close>

definition loops :: "('s \<Rightarrow> comp) \<Rightarrow> ('s \<Rightarrow> world) \<Rightarrow> ('s \<Rightarrow> bool) \<Rightarrow> ('s \<Rightarrow> cerror + 's) \<Rightarrow> bool" where
  "loops s W Q f \<longleftrightarrow>
     (\<forall>t t'. f t = Inr t' \<longrightarrow> Q t \<longrightarrow> mods_ok (s t) \<longrightarrow>
        Q t' \<and> mods_ok (s t') \<and> extends (s t) (s t') \<and>
        (distinct (slots (s t')) \<longrightarrow> inv (W t) (s t) \<longrightarrow> inv (W t') (s t')))"

lemma loopsI:
  assumes "\<And>t. Q t \<Longrightarrow> does (W t) (g t) s W" "\<And>t. f t = g t (s t)"
    and "\<And>t t'. Q t \<Longrightarrow> f t = Inr t' \<Longrightarrow> Q t'"
  shows "loops s W Q f"
  using assms unfolding loops_def does_def by metis

lemma loops_skip: "loops s W Q Inr"
  by (auto simp: loops_def)

lemma loops_then: "loops s W Q f \<Longrightarrow> loops s W Q g \<Longrightarrow> loops s W Q (\<lambda>t. bind_res (f t) g)"
  unfolding loops_def bind_res_Inr_iff by (meson extends_distinct extends_trans)

lemma loops_each: "(\<And>x. x \<in> set xs \<Longrightarrow> loops s W Q (f x)) \<Longrightarrow> loops s W Q (each f xs)"
proof (induction xs)
  case Nil
  have "each f [] = Inr" by (simp add: fun_eq_iff)
  then show ?case by (simp add: loops_skip)
next
  case (Cons x xs)
  have "each f (x # xs) = (\<lambda>t. bind_res (f x t) (each f xs))" by (simp add: fun_eq_iff)
  with Cons loops_then[of s W Q "f x" "each f xs"] show ?case by simp
qed

lemma loops_for_conses: "(\<And>x. loops s W Q (f x)) \<Longrightarrow> loops s W Q (for_conses f x)"
proof (induction x)
  case (LCons i a d)
  have "for_conses f (LCons i a d) = (\<lambda>t. bind_res (f (LCons i a d) t) (for_conses f d))"
    by (simp add: fun_eq_iff)
  with LCons loops_then[of s W Q "f (LCons i a d)" "for_conses f d"] show ?case by simp
qed (auto simp: loops_def)

lemma loops_for_each: "(\<And>x. loops s W Q (f x)) \<Longrightarrow> loops s W Q (for_each f x)"
  unfolding for_each_def by (rule loops_for_conses)

lemma does_loop:
  assumes "loops s W Q f" "\<And>c. s (init c) = c" "\<And>c. Q (init c)" "\<And>c. weaker (W (init c)) K"
    and "\<And>c t. f (init c) = Inr t \<Longrightarrow> Q t \<Longrightarrow> does (W t) (k t) s' W'"
  shows "does K (\<lambda>c. bind_res (f (init c)) (\<lambda>t. k t (s t))) s' W'"
proof (rule doesI)
  fix c r assume "bind_res (f (init c)) (\<lambda>t. k t (s t)) = Inr r" and c: "mods_ok c"
  then obtain t where t: "f (init c) = Inr t" "k t (s t) = Inr r" by (auto simp: bind_res_Inr_iff)
  from assms(1) t(1) assms(2,3) c have l: "Q t" "mods_ok (s t)" "extends c (s t)"
    "distinct (slots (s t)) \<Longrightarrow> inv (W (init c)) c \<Longrightarrow> inv (W t) (s t)"
    unfolding loops_def by metis+
  note d = doesD[OF assms(5)[OF t(1) l(1)] t(2) l(2)]
  show "mods_ok (s' r) \<and> extends c (s' r)" using d l extends_trans by blast
  show "inv (W' r) (s' r)" if "distinct (slots (s' r))" "inv K c"
    using that d l extends_distinct inv_weaker[OF _ assms(4)] by blast
qed

lemma does_looping:
  assumes "loops s W Q f" "\<And>c. s (init c) = c" "\<And>c. Q (init c)" "\<And>c. weaker (W (init c)) K"
    and "\<And>t. Q t \<Longrightarrow> does (W t) (k t) s' W'"
  shows "does K (looping f init s k) s' W'"
  unfolding looping_def[abs_def] by (rule does_loop[OF assms(1-4)]) (rule assms(5))

text \<open>The same, with what the loop is known to have done.\<close>

lemma does_looping_done:
  assumes "loops s W Q f" "\<And>c. s (init c) = c" "\<And>c. Q (init c)" "\<And>c. weaker (W (init c)) K"
    and "\<And>c t. f (init c) = Inr t \<Longrightarrow> P t" "\<And>t. Q t \<Longrightarrow> P t \<Longrightarrow> does (W t) (k t) s' W'"
  shows "does K (looping f init s k) s' W'"
  unfolding looping_def[abs_def] by (rule does_loop[OF assms(1-4)]) (blast intro: assms(5,6))

lemma leads_looping:
  assumes "loops s W Q f" "\<And>c. s (init c) = c" "\<And>c. Q (init c)" "\<And>c. weaker (W (init c)) K"
    and "\<And>t. Q t \<Longrightarrow> leads (W t) (k t) (J t)" "\<And>t. Q t \<Longrightarrow> weaker I (J t)"
  shows "leads K (looping f init s k) I"
  by (rule does_looping[OF assms(1-4)]) (auto intro: leads_weaken assms(5,6))

lemma loops_action: "keeps K m \<Longrightarrow> loops (\<lambda>c. c) (\<lambda>_. K) (\<lambda>_. True) m"
  unfolding loops_def does_def by blast

lemma keeps_loop: "loops (\<lambda>c. c) (\<lambda>_. K) (\<lambda>_. True) m \<Longrightarrow> keeps K m"
  unfolding loops_def does_def by blast

lemma keeps_each: "(\<And>x. x \<in> set xs \<Longrightarrow> keeps K (f x)) \<Longrightarrow> keeps K (each f xs)"
  by (rule keeps_loop, rule loops_each) (rule loops_action)

lemma keeps_for_each: "(\<And>x. keeps K (f x)) \<Longrightarrow> keeps K (for_each f x)"
  by (rule keeps_loop, rule loops_for_each) (rule loops_action)

lemma keeps_for_conses: "(\<And>x. keeps K (f x)) \<Longrightarrow> keeps K (for_conses f x)"
  by (rule keeps_loop, rule loops_for_conses) (rule loops_action)

section \<open>Operations that leave annotations alone\<close>

definition quiet :: "comp \<Rightarrow> comp \<Rightarrow> bool" where
  "quiet c c' \<longleftrightarrow>
     annots c' = annots c \<and> dinfos c' = dinfos c \<and> mod_cfunctions c' = mod_cfunctions c \<and>
     map lex_cfunction (lexs c') = map lex_cfunction (lexs c) \<and>
     (\<forall>f. CfunctionLit f \<in> set (mod_literals c') \<longrightarrow> CfunctionLit f \<in> set (mod_literals c)) \<and>
     length (cfuns c') = length (cfuns c) \<and>
     (\<forall>f < length (cfuns c).
        annotations (cfun_of c' f) = annotations (cfun_of c f) \<and>
        length (bytecode (cfun_of c f)) \<le> length (bytecode (cfun_of c' f)) \<and>
        cf_index (cfun_of c' f) = cf_index (cfun_of c f) \<and> cf_extra (cfun_of c' f) = cf_extra (cfun_of c f) \<and>
        entry_point (cfun_of c' f) = entry_point (cfun_of c f) \<and> closed (cfun_of c' f) = closed (cfun_of c f))"

lemma quiet_refl [simp]: "quiet c c"
  by (simp add: quiet_def)

lemma quiet_trans: "quiet a b \<Longrightarrow> quiet b c \<Longrightarrow> quiet a c"
  unfolding quiet_def by (auto intro: order_trans)

lemma slots_cong:
  "mod_cfunctions c' = mod_cfunctions c \<Longrightarrow>
   (\<And>f. f \<in> set (mod_cfunctions c) \<Longrightarrow> annotations (cfun_of c' f) = annotations (cfun_of c f)) \<Longrightarrow> slots c' = slots c"
  by (simp add: slots_def cong: map_cong)

lemma quiet_slots: "quiet c c' \<Longrightarrow> mods_ok c \<Longrightarrow> slots c' = slots c"
  by (rule slots_cong) (auto simp: quiet_def mods_ok_def)

lemma label_ok_cong: "annots c' = annots c \<Longrightarrow> slots c' = slots c \<Longrightarrow> label_ok c' l = label_ok c l"
  by (simp add: label_ok_def unplaced_def annot_of_def)

lemma targets_in_cong:
  "annots c' = annots c \<Longrightarrow> slots c' = slots c \<Longrightarrow> dinfos c' = dinfos c \<Longrightarrow> targets_in P c' = targets_in P c"
  by (simp add: targets_in_def label_ok_cong[of c' c] annot_of_def)

lemma typed_quiet:
  assumes q: "quiet c c'" and t: "typed c"
  shows "typed c'"
proof -
  have n: "length (lexs c') = length (lexs c)" using q unfolding quiet_def by (metis length_map)
  have "lex_cfunction l \<in> lex_cfunction ` set (lexs c)" if "l \<in> set (lexs c')" for l
    using q that unfolding quiet_def by (metis imageI set_map)
  moreover have "\<forall>l \<in> set (closed f). l < length (lexs c)" if "f \<in> set (cfuns c')" for f
    using q t that unfolding quiet_def typed_def cfun_of_def in_set_conv_nth[of f] by (metis nth_mem)
  ultimately show ?thesis using q t n by (fastforce simp: quiet_def typed_def)
qed

lemma mods_ok_building: "building c \<Longrightarrow> mods_ok c"
  by (auto simp: mods_ok_def intro: buildingD(2))

lemma inv_quiet:
  assumes q: "quiet c c'" and i: "inv K c"
  shows "inv K c'"
proof -
  have b: "building c" and m: "mods_ok c" using i mods_ok_building by (auto simp: inv_def)
  have n: "length (lexs c') = length (lexs c)" using q unfolding quiet_def by (metis length_map)
  have s: "slots c' = slots c" by (rule quiet_slots[OF q m])
  have "building c'"
    using q m by (intro building_step[OF b])
      (auto simp: quiet_def mods_ok_def annot_of_def intro!: placed_mono[of c])
  moreover have "label_ok c' (entry_point (cfun_of c' g))" if "g \<in> set (mod_cfunctions c)" for g
    using that q i m s by (simp add: inv_def label_ok_cong[of c' c] quiet_def mods_ok_def)
  ultimately show ?thesis
    using i q s n typed_quiet[OF q]
    by (simp add: inv_def quiet_def label_ok_cong[of c' c] targets_in_cong[of c' c])
qed

lemma does_quiet:
  assumes "\<And>c r. m c = Inr r \<Longrightarrow> quiet c (s r)" "\<And>r. weaker (W r) K"
  shows "does K m s W"
proof (rule doesI)
  fix c r assume "m c = Inr r"
  from assms(1)[OF \<open>m c = Inr r\<close>] have q: "quiet c (s r)" .
  then show "mods_ok (s r) \<and> extends c (s r)" if c: "mods_ok c"
    using c quiet_slots[OF q c] by (simp add: mods_ok_def extends_def quiet_def)
  show "inv (W r) (s r)" if "inv K c"
    by (rule inv_weaker[OF inv_quiet[OF q that] assms(2)])
qed

lemma keeps_always: "(\<And>c. quiet c (f c)) \<Longrightarrow> keeps K (always f)"
  by (rule does_quiet) (auto simp: always_def)

lemma quiet_emit_bytes [simp]: "quiet c (emit_bytes f bs c)"
  by (auto simp: quiet_def emit_bytes_def cfun_of_upd_any)

lemma quiet_assemble:
  "quiet c (assemble0 ctxt opc c)" "assemble1 ctxt opc n c = Inr c' \<Longrightarrow> quiet c c'"
  "assemble2 ctxt opc n m c = Inr c' \<Longrightarrow> quiet c c'"
  "emit_parse_key_args ctxt a b d e aokp c = Inr c' \<Longrightarrow> quiet c c'"
  by (auto simp: assemble0_def assemble1_def assemble2_def emit_parse_key_args_def Let_def split: if_splits)

lemma quiet_upd_cfun:
  "(\<And>cf. annotations (g cf) = annotations cf \<and> bytecode (g cf) = bytecode cf \<and> cf_index (g cf) = cf_index cf \<and>
     cf_extra (g cf) = cf_extra cf \<and> entry_point (g cf) = entry_point cf \<and> closed (g cf) = closed cf) \<Longrightarrow>
   quiet c (upd_cfun f g c)"
  by (auto simp: quiet_def cfun_of_upd_any)

lemma quiet_upd_lex: "(\<And>r. lex_cfunction (g r) = lex_cfunction r) \<Longrightarrow> quiet c (upd_lex l g c)"
proof -
  assume g: "\<And>r. lex_cfunction (g r) = lex_cfunction r"
  have "map lex_cfunction ((lexs c)[l := g (lexs c ! l)]) = map lex_cfunction (lexs c)"
    using g by (cases "l < length (lexs c)") (simp_all add: map_update list_update_same_conv list_update_beyond)
  then show ?thesis by (simp add: quiet_def upd_lex_def cfun_of_def)
qed

lemma quiet_marks [simp]:
  "quiet c (mark_read l c)" "quiet c (mark_closed_over l c)" "quiet c (mark_set l c)" "quiet c (declare_lex l ig ds c)"
  by (simp_all add: mark_read_def mark_closed_over_def mark_set_def declare_lex_def quiet_upd_lex)

lemma quiet_push_debug_info [simp]: "quiet c (push_debug_info ctxt d c)"
  by (simp add: push_debug_info_def quiet_upd_cfun)

lemma quiet_counters [simp]:
  "quiet c (c\<lparr>next_addr := n\<rparr>)" "quiet c (c\<lparr>warnings := w\<rparr>)"
  by (simp_all add: quiet_def cfun_of_def)

lemma quiet_emit_unbind [simp]: "quiet c (emit_unbind ctxt n c)"
  by (induction ctxt n c rule: emit_unbind.induct) (auto intro: quiet_trans quiet_assemble(1))

lemma quiet_setNlocals [simp]: "quiet c (setNlocals f n c)"
  by (simp add: setNlocals_def quiet_upd_cfun)

end
