(* ===== verification/WorldOps.thy ===== *)
theory WorldOps
  imports Worlds
begin

text \<open>
  The operations of the assembler and of environments, judged: each keeps the world it is run in, or
  extends it by what it allocates or places.
\<close>

section \<open>Allocation\<close>

text \<open>A label made for the steps that follow: it must be placed when it is dropped again.\<close>

lemma new_label_store:
  assumes "new_annot label_make c = (c', l)"
  shows "annots c' = annots c @ [label_make]" "l = length (annots c)" "dinfos c' = dinfos c"
    "mod_cfunctions c' = mod_cfunctions c" "lexs c' = lexs c" "mod_literals c' = mod_literals c"
    "cfuns c' = cfuns c" "slots c' = slots c"
  using assms by (auto simp: new_annot_def slots_def cfun_of_def)

lemma old_annots: "building c \<Longrightarrow> a \<in> set (slots c) \<Longrightarrow> a < length (annots c)"
  by (auto simp: slots_def in_set_conv_nth dest!: buildingD(1) placedD(1))

lemma label_ok_append:
  assumes "annots c' = annots c @ [r]" "slots c' = slots c" "label_ok c l"
  shows "label_ok c' l"
  using assms by (auto simp: label_ok_def unplaced_def annot_of_def nth_append)

lemma does_new_label: "does K (\<lambda>c. Inr (new_annot label_make c)) fst (\<lambda>r. add_label (snd r) K)"
proof (rule doesI)
  fix c :: comp and r assume "Inr (new_annot label_make c) = (Inr r :: cerror + comp \<times> nat)"
  then obtain c' l where r: "r = (c', l)" and n: "new_annot label_make c = (c', l)" by (cases r) auto
  note s = new_label_store[OF n]
  show "mods_ok (fst r) \<and> extends c (fst r)" if "mods_ok c"
    using that s by (simp add: r mods_ok_def extends_def)
  show "inv (add_label (snd r) K) (fst r)" if i: "inv K c"
  proof -
    have b: "building c" using i by (simp add: inv_def)
    have l: "label_ok c' l" using s by (simp add: label_ok_def unplaced_def annot_of_def label_make_def)
    have old: "annot_of c' a = annot_of c a" if "a < length (annots c)" for a
      using that s(1) by (simp add: annot_of_def nth_append)
    have ok: "label_ok c' a" if "label_ok c a" for a by (rule label_ok_append[OF s(1,8) that])
    have "targets_in (insert l (w_labels K)) c'"
      using i old old_annots[OF b] ok s by (fastforce simp: inv_def targets_in_def)
    moreover have "typed c'" using i s by (auto simp: inv_def typed_def label_make_def)
    moreover have "building c'" by (rule new_annot_building(1)[OF b n])
    ultimately show ?thesis
      using i l ok s by (auto simp: r inv_def cfun_of_def)
  qed
qed

lemma does_with_label:
  assumes "\<And>l. does (add_label l K) (k l) s W"
  shows "does K (with_label k) s W"
  unfolding with_label_def
  by (rule does_using_new[where V = "\<lambda>l. add_label l K"]) (use does_new_label assms in auto)

text \<open>The usual case: the steps place the label.\<close>

lemma leads_with_label:
  assumes "\<And>l. leads (add_label l K) (k l) (add_done l (add_label l J))" 
  shows "leads K (with_label k) J"
  by (rule does_with_label) (rule leads_weaken[OF assms], auto simp: weaker_def)

lemma does_new_lex:
  assumes "f \<in> w_funs K"
  shows "does K (\<lambda>c. Inr (new_lex (lexical_info_make i f) c)) fst (\<lambda>r. add_lexs {snd r} K)"
proof (rule doesI)
  fix c :: comp and r assume "Inr (new_lex (lexical_info_make i f) c) = (Inr r :: cerror + comp \<times> nat)"
  then have r: "r = (c\<lparr>lexs := lexs c @ [lexical_info_make i f]\<rparr>, length (lexs c))" by simp
  let ?c = "c\<lparr>lexs := lexs c @ [lexical_info_make i f]\<rparr>"
  have s: "slots ?c = slots c" by (simp add: slots_def cfun_of_def)
  then show "mods_ok (fst r) \<and> extends c (fst r)" if "mods_ok c"
    using that by (simp add: r mods_ok_def extends_def)
  show "inv (add_lexs {snd r} K) (fst r)" if i: "inv K c"
  proof -
    have "typed ?c" using i assms by (fastforce simp: inv_def typed_def lexical_info_make_def)
    moreover have "building ?c" by (rule same_code_building[of c]) (use i in \<open>auto simp: inv_def\<close>)
    ultimately show ?thesis
      using i s by (auto simp: r inv_def label_ok_cong[of ?c c] targets_in_cong[of ?c c] cfun_of_def)
  qed
qed

lemma does_new_dinfo:
  assumes "dinfo_labels d \<subseteq> w_labels K" "kind_lexs (di_kind d) \<subseteq> w_lexs K"
  shows "does K (\<lambda>c. Inr (new_dinfo d c)) fst (\<lambda>_. K)"
proof (rule doesI)
  fix c :: comp and r assume "Inr (new_dinfo d c) = (Inr r :: cerror + comp \<times> nat)"
  then have r: "r = (c\<lparr>dinfos := dinfos c @ [d]\<rparr>, length (dinfos c))" by (simp add: new_dinfo_def)
  let ?c = "c\<lparr>dinfos := dinfos c @ [d]\<rparr>"
  have s: "slots ?c = slots c" by (simp add: slots_def cfun_of_def)
  then show "mods_ok (fst r) \<and> extends c (fst r)" if "mods_ok c"
    using that by (simp add: r mods_ok_def extends_def)
  show "inv K (fst r)" if i: "inv K c"
  proof -
    have "typed ?c" using i assms by (auto simp: inv_def typed_def)
    moreover have "building ?c" by (rule same_code_building[of c]) (use i in \<open>auto simp: inv_def\<close>)
    moreover have "targets_in (w_labels K) ?c"
      using i assms s by (auto simp: inv_def targets_in_def label_ok_cong[of ?c c] annot_of_def)
    ultimately show ?thesis
      using i s by (simp add: r inv_def label_ok_cong[of ?c c] cfun_of_def)
  qed
qed

lemma does_alloc_quiet: "(\<And>c. quiet c (fst (f c))) \<Longrightarrow> does K (\<lambda>c. Inr (f c)) fst (\<lambda>_. K)"
  by (rule does_quiet) (metis sum.inject(2), simp)

lemma does_using_quiet:
  assumes "\<And>c. quiet c (fst (f c))" "\<And>c c' x. f c = (c', x) \<Longrightarrow> does K (k x) s W"
  shows "does K (using_new f k) s W"
  by (rule does_using_new[where V = "\<lambda>_. K"]) (use does_alloc_quiet assms in auto)

lemma quiet_new_cons [simp]: "quiet c (fst (new_cons a d c))"
  by (simp add: new_cons_def)

lemma quiet_new_list [simp]: "quiet c (fst (new_list xs c))"
  by (induction xs arbitrary: c) (auto simp: split_beta intro: quiet_trans[OF _ quiet_new_cons])

lemma quiet_new_gensym [simp]: "quiet c (fst (new_gensym h c))"
  by (simp add: new_gensym_def)

text \<open>Literals.\<close>

lemma quiet_update_literals:
  assumes "\<And>ls f. CfunctionLit f \<in> set (fst (g ls)) \<Longrightarrow> CfunctionLit f \<in> set ls"
  shows "quiet c (fst (update_literals g c))"
  using assms[of _ "mod_literals c"]
  by (auto simp: update_literals_def quiet_def cfun_of_def split_beta)

lemma find_or_push_set: "set (fst (find_or_push P x xs)) \<subseteq> insert x (set xs)"
  by (auto simp: find_or_push_def split: option.splits)

lemma quiet_intern:
  assumes "\<And>f. x \<noteq> CfunctionLit f"
  shows "quiet c (fst (update_literals (find_or_push P x) c))"
proof (rule quiet_update_literals)
  fix ls f assume "CfunctionLit f \<in> set (fst (find_or_push P x ls))"
  with find_or_push_set[of P x ls] assms show "CfunctionLit f \<in> set ls" by fastforce
qed

lemma quiet_literals [simp]:
  "quiet c (fst (literal_index l c))" "quiet c (fst (fcell_index n c))" "quiet c (fst (vcell_index v c))"
  "quiet c (fst (env_index c))" "quiet c (fst (ltv_index x b c))" "quiet c (fst (new_literal_index l c))"
  unfolding literal_index_def fcell_index_def vcell_index_def env_index_def ltv_index_def new_literal_index_def
  by (rule quiet_intern quiet_update_literals; simp)+

lemma does_cfunction_index:
  assumes "f \<in> w_funs K"
  shows "does K (\<lambda>c. Inr (cfunction_index f c)) fst (\<lambda>_. K)"
proof (rule doesI)
  fix c :: comp and r assume "Inr (cfunction_index f c) = (Inr r :: cerror + comp \<times> nat)"
  then have r: "r = cfunction_index f c" by simp
  define ls where "ls = fst (find_or_push (\<lambda>l. l = CfunctionLit f) (CfunctionLit f) (mod_literals c))"
  have c: "fst r = c\<lparr>mod_literals := ls\<rparr>" "set ls \<subseteq> insert (CfunctionLit f) (set (mod_literals c))"
    using find_or_push_set[of _ "CfunctionLit f"]
    by (simp_all add: r ls_def cfunction_index_def update_literals_def split_beta)
  let ?c = "c\<lparr>mod_literals := ls\<rparr>"
  have s: "slots ?c = slots c" by (simp add: slots_def cfun_of_def)
  then show "mods_ok (fst r) \<and> extends c (fst r)" if "mods_ok c"
    using that by (simp add: c mods_ok_def extends_def)
  show "inv K (fst r)" if i: "inv K c"
  proof -
    have "f \<in> set (mod_cfunctions c)" using i assms by (auto simp: inv_def)
    with c(2) i have "typed ?c" by (auto simp: inv_def typed_def)
    moreover have "building ?c" by (rule same_code_building[of c]) (use i in \<open>auto simp: inv_def\<close>)
    ultimately show ?thesis
      using i s by (simp add: c(1) inv_def label_ok_cong[of ?c c] targets_in_cong[of ?c c] cfun_of_def)
  qed
qed

text \<open>A lexical a cfunction closes over.\<close>

lemma does_closure_index:
  assumes "l \<in> w_lexs K"
  shows "does K (\<lambda>c. Inr (closure_index ctxt l c)) fst (\<lambda>_. K)"
proof (rule doesI)
  let ?f = "ctxt_cfunction ctxt"
  fix c :: comp and r assume "Inr (closure_index ctxt l c) = (Inr r :: cerror + comp \<times> nat)"
  then have r: "r = closure_index ctxt l c" by simp
  define cl where "cl = fst (find_or_push (\<lambda>k. k = l) l (closed (cfun_of c ?f)))"
  have c: "fst r = upd_cfun ?f (\<lambda>f. f\<lparr>closed := cl\<rparr>) c" "set cl \<subseteq> insert l (set (closed (cfun_of c ?f)))"
    using find_or_push_set by (simp_all add: r cl_def closure_index_def split_beta)
  let ?c = "upd_cfun ?f (\<lambda>f. f\<lparr>closed := cl\<rparr>) c"
  have F: "annotations (cfun_of ?c g) = annotations (cfun_of c g)" "entry_point (cfun_of ?c g) = entry_point (cfun_of c g)" for g
    by (simp_all add: cfun_of_upd_any)
  have s: "slots ?c = slots c" by (rule slots_cong) (simp_all add: F)
  then show "mods_ok (fst r) \<and> extends c (fst r)" if "mods_ok c"
    using that by (simp add: c mods_ok_def extends_def)
  show "inv K (fst r)" if i: "inv K c"
  proof -
    have t: "typed c" and l: "l < length (lexs c)" using i assms by (auto simp: inv_def)
    have cl: "\<forall>k \<in> set cl. k < length (lexs c)" if "?f < length (cfuns c)"
      using c(2) t l that by (fastforce simp: typed_def cfun_of_def)
    have "\<forall>k \<in> set (closed f). k < length (lexs c)" if "f \<in> set (cfuns ?c)" for f
    proof (cases "?f < length (cfuns c)")
      case True
      with that cl t show ?thesis by (auto simp: upd_cfun_def typed_def dest!: set_update_subset_insert[THEN subsetD])
    next
      case False
      with that t show ?thesis by (simp add: upd_cfun_def typed_def list_update_beyond)
    qed
    with t have "typed ?c" by (simp add: typed_def)
    moreover have "building ?c" by (rule upd_cfun_building) (use i in \<open>auto simp: inv_def\<close>)
    ultimately show ?thesis
      using i s F by (simp add: c(1) inv_def label_ok_cong[of ?c c] targets_in_cong[of ?c c])
  qed
qed

section \<open>Placing\<close>

lemma placing_slots:
  assumes "mods_ok c" "mod_cfunctions c' = mod_cfunctions c"
    and F: "\<And>g. g < length (cfuns c) \<Longrightarrow>
      annotations (cfun_of c' g) = (if g = f then anns c f @ [a] else anns c g)"
  shows "extends c c'" "f \<in> set (mod_cfunctions c) \<Longrightarrow> a \<in> set (slots c')"
    "set (slots c') \<subseteq> insert a (set (slots c))"
proof -
  have m: "mset (concat (map (anns c) fs)) \<subseteq># mset (concat (map (anns c') fs))"
    if "\<forall>g \<in> set fs. g < length (cfuns c)" for fs
    using that
  proof (induction fs)
    case (Cons g fs)
    then have "mset (anns c g) \<subseteq># mset (anns c' g)" by (auto simp: F)
    with Cons show ?case by (auto intro: subset_mset.add_mono)
  qed simp
  from m[of "mod_cfunctions c"] assms(1,2) show "extends c c'"
    by (auto simp: extends_def slots_def mods_ok_def)
  show "a \<in> set (slots c')" if "f \<in> set (mod_cfunctions c)"
    using that assms by (force simp: slots_def mods_ok_def)
  show "set (slots c') \<subseteq> insert a (set (slots c))"
    using assms by (auto simp: slots_def mods_ok_def split: if_splits)
qed

lemma placing_store:
  assumes "a < length (annots c)"
  shows "mod_cfunctions (label_contextualize ctxt a c) = mod_cfunctions c"
    "lexs (label_contextualize ctxt a c) = lexs c" "dinfos (label_contextualize ctxt a c) = dinfos c"
    "mod_literals (label_contextualize ctxt a c) = mod_literals c"
    "length (cfuns (label_contextualize ctxt a c)) = length (cfuns c)"
    "length (annots (label_contextualize ctxt a c)) = length (annots c)"
    "g < length (cfuns c) \<Longrightarrow> annotations (cfun_of (label_contextualize ctxt a c) g) =
       (if g = ctxt_cfunction ctxt then anns c g @ [a] else anns c g)"
    "entry_point (cfun_of (label_contextualize ctxt a c) g) = entry_point (cfun_of c g)"
    "closed (cfun_of (label_contextualize ctxt a c) g) = closed (cfun_of c g)"
    "ann_kind (annot_of (label_contextualize ctxt a c) b) = ann_kind (annot_of c b)"
    "b \<noteq> a \<Longrightarrow> annot_of (label_contextualize ctxt a c) b = annot_of c b"
  using assms by (auto simp: label_contextualize_def Let_def cfun_of_upd_any annot_of_upd_annot)

lemma label_ok_placed:
  assumes "label_ok c b" "a < length (annots c)" "set (slots c) \<subseteq> set (slots c')"
    "length (annots c') = length (annots c)" "\<And>b. ann_kind (annot_of c' b) = ann_kind (annot_of c b)"
    "\<And>b. b \<noteq> a \<Longrightarrow> annot_of c' b = annot_of c b" "a \<in> set (slots c')"
  shows "label_ok c' b"
  using assms by (cases "b = a") (auto simp: label_ok_def unplaced_def)

lemma not_yet_placed:
  assumes "label_ok c a" "distinct (slots c')" "mset (slots c') = mset (a # slots c)"
  shows "unplaced c a"
proof -
  from assms(2,3) have "distinct (a # slots c)" using mset_eq_imp_distinct_iff by blast
  with assms(1) show ?thesis by (simp add: label_ok_def)
qed

lemma slots_snoc:
  assumes "mod_cfunctions c' = mod_cfunctions c" "distinct (mod_cfunctions c)" "f \<in> set (mod_cfunctions c)"
    "\<And>g. g \<in> set (mod_cfunctions c) \<Longrightarrow> anns c' g = (if g = f then anns c f @ [a] else anns c g)"
  shows "mset (slots c') = mset (a # slots c)"
proof -
  have "mset (concat (map (anns c') fs)) = (if f \<in> set fs then {#a#} else {#}) + mset (concat (map (anns c) fs))"
    if "distinct fs" "set fs \<subseteq> set (mod_cfunctions c)" for fs
    using that by (induction fs) (auto simp: assms(4))
  from this[OF assms(2)] assms(1,3) show ?thesis by (simp add: slots_def)
qed

lemma building_distinct_mods: "building c \<Longrightarrow> distinct (mod_cfunctions c)"
  by (simp add: distinct_conv_nth) (metis buildingD(3))

lemma leads_place:
  assumes "l \<in> w_labels K" "ctxt_cfunction ctxt \<in> w_funs K"
  shows "leads K (place ctxt l) (add_done l K)"
proof (rule doesI)
  let ?f = "ctxt_cfunction ctxt"
  fix c r assume "place ctxt l c = Inr r"
  then have r: "r = label_contextualize ctxt l c" by (simp add: place_def always_def)
  have F: "annotations (cfun_of r g) = (if g = ?f then anns c ?f @ [l] else anns c g)"
    "entry_point (cfun_of r g) = entry_point (cfun_of c g)" if "g < length (cfuns c)" for g
    using that by (auto simp: r label_contextualize_def Let_def cfun_of_upd_any)
  have m: "mod_cfunctions r = mod_cfunctions c" "length (cfuns r) = length (cfuns c)"
    by (simp_all add: r label_contextualize_def Let_def)
  show "mods_ok r \<and> extends c r" if "mods_ok c"
    using placing_slots(1)[OF that m(1), of ?f l] F(1) that m by (simp add: mods_ok_def)
  show "inv (add_done l K) r" if d: "distinct (slots r)" and i: "inv K c" and "mods_ok c"
  proof -
    have l: "label_ok c l" and f: "?f \<in> set (mod_cfunctions c)" and b: "building c"
      using i assms by (auto simp: inv_def)
    then have "l < length (annots c)" by (simp add: label_ok_def)
    note s = placing_store[OF this, where ctxt = ctxt, folded r]
    have e: "extends c r" "?f \<in> set (mod_cfunctions c) \<Longrightarrow> l \<in> set (slots r)"
      "set (slots r) \<subseteq> insert l (set (slots c))"
      by (rule placing_slots[OF \<open>mods_ok c\<close> m(1), where f = ?f], erule F(1), assumption?)+
    have "mset (slots r) = mset (l # slots c)"
      by (rule slots_snoc[OF m(1) building_distinct_mods[OF b] f]) (use F(1) \<open>mods_ok c\<close> in \<open>auto simp: mods_ok_def\<close>)
    from not_yet_placed[OF l d this] have u: "unplaced c l" .
    have sub: "set (slots c) \<subseteq> set (slots r)" using e(1) extends_slots by blast
    have ok: "label_ok r b" if "label_ok c b" for b
      by (rule label_ok_placed[OF that \<open>l < length (annots c)\<close> sub s(6,10,11) e(2)[OF f]])
    have "building r"
      unfolding r by (rule label_contextualize_building[OF b f u]) (use l in \<open>simp add: label_ok_def\<close>)
    moreover have "\<forall>x \<in> set (cfuns r). \<forall>l \<in> set (closed x). l < length (lexs c)"
    proof
      fix x assume "x \<in> set (cfuns r)"
      then obtain g where "g < length (cfuns c)" "x = cfun_of r g" by (auto simp: in_set_conv_nth cfun_of_def m)
      with s(9)[of g] i show "\<forall>l \<in> set (closed x). l < length (lexs c)"
        by (auto simp: inv_def typed_def cfun_of_def)
    qed
    moreover have "\<forall>x \<in> set (annots r). \<forall>l. kind_lex (ann_kind x) = Some l \<longrightarrow> l < length (lexs c)"
    proof
      fix x assume "x \<in> set (annots r)"
      then obtain g where "g < length (annots c)" "ann_kind x = ann_kind (annot_of c g)"
        using s(6,10) by (auto simp: in_set_conv_nth annot_of_def)
      with i show "\<forall>l. kind_lex (ann_kind x) = Some l \<longrightarrow> l < length (lexs c)"
        by (auto simp: inv_def typed_def annot_of_def)
    qed
    ultimately have bt: "building r" "typed r" using i s(1-4) by (auto simp: typed_def inv_def)
    have "label_ok r k \<and> (k \<in> set (slots r) \<or> k \<in> w_labels K)"
      if "a \<in> set (slots r)" "label_target (ann_kind (annot_of r a)) = Some k" for a k
    proof -
      from that(2) s(10) l have "a \<noteq> l" by (auto simp: label_ok_def)
      with that(1) e(3) have "a \<in> set (slots c)" by blast
      with that(2) s(10) i ok sub show ?thesis by (force simp: inv_def targets_in_def)
    qed
    with i ok sub s(3) have "targets_in (w_labels K) r" by (force simp: targets_in_def inv_def)
    then show ?thesis
      using bt i ok sub s(1,2,8) e(2)[OF f] by (auto simp: inv_def)
  qed
qed

text \<open>A fixup over a known lexical, to a known label.\<close>

definition kind_ok :: "world \<Rightarrow> annot_kind \<Rightarrow> bool" where
  "kind_ok K k \<longleftrightarrow> k \<noteq> Label \<and> (\<forall>l. label_target k = Some l \<longrightarrow> l \<in> w_labels K) \<and>
     (\<forall>l. kind_lex k = Some l \<longrightarrow> l \<in> w_lexs K)"

lemma emit_fixup_store:
  assumes "c' = emit_fixup ctxt k c"
  shows "mod_cfunctions c' = mod_cfunctions c" "lexs c' = lexs c" "dinfos c' = dinfos c"
    "mod_literals c' = mod_literals c" "length (cfuns c') = length (cfuns c)"
    "length (annots c') = Suc (length (annots c))"
    "g < length (cfuns c) \<Longrightarrow> annotations (cfun_of c' g) =
       (if g = ctxt_cfunction ctxt then anns c (ctxt_cfunction ctxt) @ [length (annots c)] else anns c g)"
    "entry_point (cfun_of c' g) = entry_point (cfun_of c g)" "closed (cfun_of c' g) = closed (cfun_of c g)"
    "b < length (annots c) \<Longrightarrow> annot_of c' b = annot_of c b"
    "ann_kind (annot_of c' (length (annots c))) = k"
proof -
  note defs = emit_fixup_def new_annot_def fixup_contextualize_def Let_def emit_bytes_def cfun_of_upd_any
    fixup_make_def
  show "mod_cfunctions c' = mod_cfunctions c" "lexs c' = lexs c" "dinfos c' = dinfos c"
    "mod_literals c' = mod_literals c" "length (cfuns c') = length (cfuns c)"
    "length (annots c') = Suc (length (annots c))"
    "g < length (cfuns c) \<Longrightarrow> annotations (cfun_of c' g) =
       (if g = ctxt_cfunction ctxt then anns c (ctxt_cfunction ctxt) @ [length (annots c)] else anns c g)"
    "entry_point (cfun_of c' g) = entry_point (cfun_of c g)" "closed (cfun_of c' g) = closed (cfun_of c g)"
    unfolding assms by (simp_all add: defs)
  show "b < length (annots c) \<Longrightarrow> annot_of c' b = annot_of c b"
    "ann_kind (annot_of c' (length (annots c))) = k"
    unfolding assms by (simp_all add: defs annot_of_upd_annot) (simp_all add: annot_of_def nth_append)
qed

lemma keeps_emit_fixup:
  assumes k: "kind_ok K k" and f: "ctxt_cfunction ctxt \<in> w_funs K"
  shows "keeps K (always (emit_fixup ctxt k))"
proof (rule doesI)
  let ?f = "ctxt_cfunction ctxt"
  fix c r assume "always (emit_fixup ctxt k) c = Inr r"
  then have r: "r = emit_fixup ctxt k c" by (simp add: always_def)
  note s = emit_fixup_store[OF r]
  show "mods_ok r \<and> extends c r" if "mods_ok c"
    using placing_slots(1)[OF that s(1), of ?f "length (annots c)"] s(7) that s(1,5) by (simp add: mods_ok_def)
  show "inv K r" if i: "inv K c" and "mods_ok c"
  proof -
    have fm: "?f \<in> set (mod_cfunctions c)" and b: "building c" using i f by (auto simp: inv_def)
    have e: "extends c r" "set (slots r) \<subseteq> insert (length (annots c)) (set (slots c))"
      by (rule placing_slots[OF \<open>mods_ok c\<close> s(1), where f = ?f], erule s(7))+
    have sub: "set (slots c) \<subseteq> set (slots r)" using e(1) extends_slots by blast
    have ok: "label_ok r b" if "label_ok c b" for b
      using that s(6,10) sub by (auto simp: label_ok_def unplaced_def)
    have br: "building r" unfolding r by (rule emit_fixup_building[OF b fm])
    have "\<forall>l \<in> set (closed x). l < length (lexs c)" if "x \<in> set (cfuns r)" for x
    proof -
      from that obtain g where "g < length (cfuns c)" "x = cfun_of r g" by (auto simp: in_set_conv_nth cfun_of_def s)
      with s(9)[of g] i show ?thesis by (auto simp: inv_def typed_def cfun_of_def)
    qed
    moreover have "l < length (lexs c)" if "x \<in> set (annots r)" "kind_lex (ann_kind x) = Some l" for x l
    proof -
      from that(1) obtain g where g: "g < Suc (length (annots c))" "x = annot_of r g"
        using s(6) by (auto simp: in_set_conv_nth annot_of_def)
      show ?thesis
      proof (cases "g = length (annots c)")
        case True
        with g that(2) s(11) k i show ?thesis by (auto simp: kind_ok_def inv_def)
      next
        case False
        with g s(10)[of g] that(2) i show ?thesis by (auto simp: inv_def typed_def annot_of_def)
      qed
    qed
    ultimately have "typed r" using i s(1-4) by (auto simp: typed_def inv_def)
    moreover have "label_ok r t \<and> (t \<in> set (slots r) \<or> t \<in> w_labels K)"
      if "a \<in> set (slots r)" "label_target (ann_kind (annot_of r a)) = Some t" for a t
    proof (cases "a = length (annots c)")
      case True
      with that(2) s(11) k i ok show ?thesis by (auto simp: kind_ok_def inv_def)
    next
      case False
      with that(1) e(2) have "a \<in> set (slots c)" by blast
      with that(2) old_annots[OF b] s(10) i ok sub show ?thesis by (force simp: inv_def targets_in_def)
    qed
    with i ok sub s(3) have "targets_in (w_labels K) r" by (force simp: targets_in_def inv_def)
    ultimately show ?thesis
      using br i ok sub s(1,2,8) by (auto simp: inv_def)
  qed
qed

end
