(* ===== verification/WorldForms.thy ===== *)
theory WorldForms
  imports WorldOps
begin

text \<open>
  Contexts and environments in a world, and the judgements for the emitters the compiler of forms
  calls.
\<close>

section \<open>Contexts and environments\<close>

definition de_lexs :: "dynenv_entry list \<Rightarrow> nat set" where
  "de_lexs ds = {l. DeLex l \<in> set ds}"

definition ctxt_ok :: "world \<Rightarrow> cctx \<Rightarrow> bool" where
  "ctxt_ok K ctxt \<longleftrightarrow> ctxt_cfunction ctxt \<in> w_funs K \<and> de_lexs (dynenv ctxt) \<subseteq> w_lexs K"

text \<open>The labels that \<open>go\<close> and \<open>return-from\<close> may find in an environment.\<close>

definition exit_labels :: "lexenv \<Rightarrow> nat set" where
  "exit_labels env = {tag_exit i | i t. tagInfo env t = Some i} \<union> {block_exit b | b n. blockInfo env n = Some b}"

definition env_ok :: "world \<Rightarrow> lexenv \<Rightarrow> bool" where
  "env_ok K env \<longleftrightarrow> set (env_lexs env) \<subseteq> w_lexs K \<and> exit_labels env \<subseteq> w_labels K"

lemma ctxt_ok_sub [simp]:
  "ctxt_ok K (sub_receiving n ctxt) = ctxt_ok K ctxt" "ctxt_ok K (sub_source loc ctxt) = ctxt_ok K ctxt"
  "ctxt_ok K (sub_de (DeBindings k) ctxt) = ctxt_ok K ctxt"
  "ctxt_ok K (sub_de (DeLex l) ctxt) \<longleftrightarrow> l \<in> w_lexs K \<and> ctxt_ok K ctxt"
  by (auto simp: ctxt_ok_def sub_receiving_def sub_source_def sub_de_def de_lexs_def)

lemma ctxt_cfunction_sub [simp]:
  "ctxt_cfunction (sub_receiving n ctxt) = ctxt_cfunction ctxt" "ctxt_cfunction (sub_source loc ctxt) = ctxt_cfunction ctxt"
  "ctxt_cfunction (sub_de d ctxt) = ctxt_cfunction ctxt"
  by (simp_all add: sub_receiving_def sub_source_def sub_de_def)

text \<open>What is known of a world grows when labels, lexical infos or cfunctions are added.\<close>

definition more :: "world \<Rightarrow> world \<Rightarrow> bool" where
  "more K J \<longleftrightarrow> w_labels K \<subseteq> w_labels J \<and> w_lexs K \<subseteq> w_lexs J \<and> w_funs K \<subseteq> w_funs J"

lemma more_add [simp]:
  "more K (add_label l K)" "more K (add_lexs X K)" "more K (add_fun f K)" "more K (add_done l K)" "more K K"
  by (auto simp: more_def)

lemma more_trans: "more I J \<Longrightarrow> more J K \<Longrightarrow> more I K"
  by (auto simp: more_def)

lemma more_funs: "more K J \<Longrightarrow> f \<in> w_funs K \<Longrightarrow> f \<in> w_funs J"
  by (auto simp: more_def)

lemma env_ok_more: "env_ok K env \<Longrightarrow> more K J \<Longrightarrow> env_ok J env"
  by (auto simp: env_ok_def more_def)

lemma ctxt_ok_more: "ctxt_ok K ctxt \<Longrightarrow> more K J \<Longrightarrow> ctxt_ok J ctxt"
  by (auto simp: ctxt_ok_def more_def)

lemma ctxt_ok_fun: "ctxt_ok K ctxt \<Longrightarrow> ctxt_cfunction ctxt \<in> w_funs K"
  by (simp add: ctxt_ok_def)

lemma env_ok_add [simp]:
  "env_ok K env \<Longrightarrow> env_ok (add_label l K) env" "env_ok K env \<Longrightarrow> env_ok (add_lexs X K) env"
  "env_ok K env \<Longrightarrow> env_ok (add_fun f K) env" "env_ok K env \<Longrightarrow> env_ok (add_done l K) env"
  by (simp_all add: env_ok_more)

lemma ctxt_ok_add [simp]:
  "ctxt_ok K ctxt \<Longrightarrow> ctxt_ok (add_label l K) ctxt" "ctxt_ok K ctxt \<Longrightarrow> ctxt_ok (add_lexs X K) ctxt"
  "ctxt_ok K ctxt \<Longrightarrow> ctxt_ok (add_fun f K) ctxt" "ctxt_ok K ctxt \<Longrightarrow> ctxt_ok (add_done l K) ctxt"
  by (simp_all add: ctxt_ok_more)

text \<open>Environments with the same exits, and lexical infos among some others.\<close>

definition same_exits :: "lexenv \<Rightarrow> lexenv \<Rightarrow> bool" where
  "same_exits env env' \<longleftrightarrow> tags env' = tags env \<and> blocks env' = blocks env"

lemma same_exits_refl [simp]: "same_exits env env"
  by (simp add: same_exits_def)

lemma same_exits_trans: "same_exits a b \<Longrightarrow> same_exits b c \<Longrightarrow> same_exits a c"
  by (simp add: same_exits_def)

lemma exit_labels_same: "same_exits env env' \<Longrightarrow> exit_labels env' = exit_labels env"
  by (simp add: same_exits_def exit_labels_def tagInfo_def blockInfo_def)

lemma env_ok_same:
  "env_ok K env \<Longrightarrow> same_exits env env' \<Longrightarrow> set (env_lexs env') \<subseteq> w_lexs K \<Longrightarrow> env_ok K env'"
  by (simp add: env_ok_def exit_labels_same)

lemma env_lexs_sub_vars:
  "set (env_lexs (sub_vars vs fe env)) =
   {l. \<exists>v. (v, LexicalVarInfo l) \<in> set vs} \<union> {l. \<exists>v. (v, LocalFunInfo l) \<in> set (funs env)} \<union>
   (\<lambda>p. block_lex (snd p)) ` set (blocks env) \<union> (\<lambda>p. tag_lex (snd p)) ` set (tags env)"
proof -
  have "set (concat (map (\<lambda>p. case snd p of LexicalVarInfo l \<Rightarrow> [l] | _ \<Rightarrow> []) ps)) =
      {l. \<exists>v. (v, LexicalVarInfo l) \<in> set ps}" for ps :: "(lisp \<times> var_info) list"
    by (induction ps) (auto split: var_info.splits)
  moreover have "set (concat (map (\<lambda>p. case snd p of LocalFunInfo l \<Rightarrow> [l] | _ \<Rightarrow> []) ps)) =
      {l. \<exists>v. (v, LocalFunInfo l) \<in> set ps}" for ps :: "(lisp \<times> fun_info) list"
    by (induction ps) (auto split: fun_info.splits)
  ultimately show ?thesis by (simp add: env_lexs_def sub_vars_def Un_assoc del: set_concat)
qed

lemma same_exits_sub_vars [simp]: "same_exits env (sub_vars vs fe env)"
  by (simp add: same_exits_def sub_vars_def)

lemma env_ok_sub_vars:
  assumes "env_ok K env" "\<And>l v. (v, LexicalVarInfo l) \<in> set vs \<Longrightarrow> l \<in> w_lexs K"
  shows "env_ok K (sub_vars vs fe env)"
proof (rule env_ok_same[OF assms(1)])
  have "sub_vars (vars env) (frame_end env) env = env" by (simp add: sub_vars_def)
  with assms(1) env_lexs_sub_vars[of "vars env" "frame_end env" env]
  have "{l. \<exists>v. (v, LocalFunInfo l) \<in> set (funs env)} \<union> (\<lambda>p. block_lex (snd p)) ` set (blocks env) \<union>
      (\<lambda>p. tag_lex (snd p)) ` set (tags env) \<subseteq> w_lexs K"
    unfolding env_ok_def by auto
  with assms(2) show "set (env_lexs (sub_vars vs fe env)) \<subseteq> w_lexs K"
    unfolding env_lexs_sub_vars by blast
qed simp

lemma env_lex_var: "(v, LexicalVarInfo l) \<in> set (vars env) \<Longrightarrow> l \<in> set (env_lexs env)"
  by (force simp: env_lexs_def split: var_info.splits)

lemma env_lex_fun: "(v, LocalFunInfo l) \<in> set (funs env) \<Longrightarrow> l \<in> set (env_lexs env)"
  by (force simp: env_lexs_def split: fun_info.splits)

lemma alist_assoc_eq_mem: "alist_assoc_eq ps k = Some p \<Longrightarrow> p \<in> set ps"
  by (induction ps) (auto split: if_splits)

lemma alist_assoc_equal_mem: "alist_assoc_equal ps k = Some p \<Longrightarrow> p \<in> set ps"
  by (induction ps) (auto split: if_splits)

lemma variableInfo_mem: "variableInfo env x = Some i \<Longrightarrow> \<exists>v. (v, i) \<in> set (vars env)"
  by (force simp: variableInfo_def split: if_splits option.splits dest: alist_assoc_eq_mem)

lemma functionInfo_mem: "functionInfo env x = Some i \<Longrightarrow> \<exists>v. (v, i) \<in> set (funs env)"
  by (force simp: functionInfo_def split: if_splits option.splits dest: alist_assoc_equal_mem)

lemma global_not_lexical: "global_var_info g si \<noteq> Some (LexicalVarInfo l)"
  by (auto simp: global_var_info_def split: option.splits)

text \<open>A lexical found in an environment is known in its world.\<close>

lemma found_lexical:
  assumes "env_ok K env"
  shows "lisp_var_info h x env = Some (LexicalVarInfo l) \<Longrightarrow> l \<in> w_lexs K"
    "bound_lexical env x = Inr l \<Longrightarrow> l \<in> w_lexs K" "lexical_of h x env = Inr l \<Longrightarrow> l \<in> w_lexs K"
    "bound_function env x = Inr l \<Longrightarrow> l \<in> w_lexs K"
proof -
  have v: "l \<in> w_lexs K" if "variableInfo env y = Some (LexicalVarInfo l)" for y l
    using that assms by (auto simp: env_ok_def dest!: variableInfo_mem env_lex_var)
  show "lisp_var_info h x env = Some (LexicalVarInfo l) \<Longrightarrow> l \<in> w_lexs K"
    by (cases x) (auto simp: lisp_var_info_def var_info_v_def global_not_lexical dest: v
      split: option.splits var_info.splits)
  show "bound_lexical env x = Inr l \<Longrightarrow> l \<in> w_lexs K"
    by (auto simp: bound_lexical_def dest: v split: option.splits var_info.splits)
  show "lexical_of h x env = Inr l \<Longrightarrow> l \<in> w_lexs K"
    by (cases x) (auto simp: lexical_of_def var_info_of_def var_info_def global_not_lexical dest: v
      split: option.splits var_info.splits)
  show "bound_function env x = Inr l \<Longrightarrow> l \<in> w_lexs K"
    using assms by (auto simp: bound_function_def env_ok_def dest!: functionInfo_mem env_lex_fun
      split: option.splits fun_info.splits)
qed

lemma global_not_local_fun: "global_function_or_compiler_macro g name \<noteq> LocalFunInfo l"
  by (simp add: global_function_or_compiler_macro_def)

lemma found_function:
  assumes "env_ok K env"
  shows "fun_info_v g x env = Inr (Some (LocalFunInfo l)) \<Longrightarrow> l \<in> w_lexs K"
    "fun_info g x env = Inr (Some (LocalFunInfo l)) \<Longrightarrow> l \<in> w_lexs K"
proof -
  have f: "l \<in> w_lexs K" if "functionInfo env y = Some (LocalFunInfo l)" for y l
    using that assms by (auto simp: env_ok_def dest!: functionInfo_mem env_lex_fun)
  show "fun_info_v g x env = Inr (Some (LocalFunInfo l)) \<Longrightarrow> l \<in> w_lexs K"
    by (auto simp: fun_info_v_def Let_def global_not_local_fun dest: f
      split: option.splits fun_info.splits if_splits sum.splits)
  show "fun_info g x env = Inr (Some (LocalFunInfo l)) \<Longrightarrow> l \<in> w_lexs K"
    by (auto simp: fun_info_def Let_def global_not_local_fun dest: f
      split: option.splits fun_info.splits if_splits sum.splits)
qed

lemma found_exit:
  assumes "env_ok K env"
  shows "tagInfo env t = Some i \<Longrightarrow> tag_lex i \<in> w_lexs K \<and> tag_exit i \<in> w_labels K"
    "blockInfo env n = Some b \<Longrightarrow> block_lex b \<in> w_lexs K \<and> block_exit b \<in> w_labels K"
proof -
  show "tag_lex i \<in> w_lexs K \<and> tag_exit i \<in> w_labels K" if "tagInfo env t = Some i"
  proof -
    from that obtain p where "p \<in> set (tags env)" "i = snd p"
      by (auto simp: tagInfo_def split: if_splits option.splits dest: alist_assoc_equal_mem)
    then have "tag_lex i \<in> set (env_lexs env)" by (simp add: env_lexs_def)
    moreover have "tag_exit i \<in> exit_labels env" using that by (auto simp: exit_labels_def)
    ultimately show ?thesis using assms by (auto simp: env_ok_def)
  qed
  show "block_lex b \<in> w_lexs K \<and> block_exit b \<in> w_labels K" if "blockInfo env n = Some b"
  proof -
    from that obtain p where "p \<in> set (blocks env)" "b = snd p"
      by (auto simp: blockInfo_def split: if_splits option.splits dest: alist_assoc_equal_mem)
    then have "block_lex b \<in> set (env_lexs env)" by (simp add: env_lexs_def)
    moreover have "block_exit b \<in> exit_labels env" using that by (auto simp: exit_labels_def)
    ultimately show ?thesis using assms by (auto simp: env_ok_def)
  qed
qed

lemma add_specials_vars:
  assumes "add_specials g vs env = Inr env'"
  shows "same_exits env env' \<and> set (env_lexs env') = set (env_lexs env) \<and> funs env' = funs env \<and> frame_end env' = frame_end env"
proof -
  have loop: "add_specials_loop g env xs nv = Inr nv' \<Longrightarrow>
      (v, LexicalVarInfo l) \<in> set nv' \<longleftrightarrow> (v, LexicalVarInfo l) \<in> set nv" for xs nv nv' v l
    by (induction xs arbitrary: nv) (auto split: sum.splits if_splits)
  have self: "sub_vars (vars env) (frame_end env) env = env" by (simp add: sub_vars_def)
  show ?thesis
  proof (cases "vs = []")
    case False
    with assms obtain nv where nv: "add_specials_loop g env vs (vars env) = Inr nv"
      "env' = sub_vars nv (frame_end env) env"
      by (auto simp: add_specials_def split: sum.splits)
    have "set (env_lexs env') = set (env_lexs (sub_vars (vars env) (frame_end env) env))"
      unfolding nv(2) env_lexs_sub_vars using loop[OF nv(1)] by simp
    with nv(2) self show ?thesis by (simp add: sub_vars_def same_exits_def)
  qed (use assms in \<open>simp add: add_specials_def\<close>)
qed

lemma env_ok_add_specials: "env_ok K env \<Longrightarrow> add_specials g vs env = Inr env' \<Longrightarrow> env_ok K env'"
  using add_specials_vars by (metis env_ok_def env_ok_same)

lemma env_ok_add_decls [simp]: "env_ok K (add_decls ds env) = env_ok K env"
  by (simp add: add_decls_def Let_def sub_decls_def env_ok_def env_lexs_def exit_labels_def tagInfo_def blockInfo_def)

lemma same_exits_add_decls [simp]: "same_exits env (add_decls ds env)"
  by (simp add: add_decls_def Let_def sub_decls_def same_exits_def)

section \<open>Emitters\<close>

lemma keeps_opcode [simp]: "keeps K (opcode0 ctxt opc)" "keeps K (opcode1 ctxt opc n)"
  "keeps K (assemble2 ctxt b n m)"
proof -
  show "keeps K (opcode0 ctxt opc)" by (simp add: opcode0_def keeps_always quiet_assemble(1))
  show "keeps K (opcode1 ctxt opc n)" by (rule does_quiet) (auto simp: opcode1_def intro: quiet_assemble(2))
  show "keeps K (assemble2 ctxt b n m)" by (rule does_quiet) (auto intro: quiet_assemble(3))
qed

lemma keeps_report [simp]: "keeps K (report n)"
  by (simp add: report_def keeps_always)

lemma keeps_marks [simp]:
  "keeps K (always (mark_read l))" "keeps K (always (mark_closed_over l))" "keeps K (always (mark_set l))"
  "keeps K (always (declare_lex l ig ds))" "keeps K (always (emit_unbind ctxt n))"
  by (simp_all add: keeps_always)

lemma quiet_fold: "(\<And>x c. quiet c (f x c)) \<Longrightarrow> quiet c (fold f xs c)"
  by (induction xs arbitrary: c) (auto intro: quiet_trans)

lemma keeps_warn [simp]: "keeps K (always (warn_ignorance h bs))"
  by (rule keeps_always) (auto simp: warn_ignorance_def warn_one_def split_beta intro!: quiet_fold)

lemma keeps_debug:
  assumes "b \<in> w_labels K" "e \<in> w_labels K" "kind_labels k \<subseteq> w_labels K" "kind_lexs k \<subseteq> w_lexs K"
  shows "keeps K (debug ctxt b e k)"
  unfolding debug_def
  by (rule does_using_new[where V = "\<lambda>_. K"])
     (use assms in \<open>auto intro!: does_new_dinfo keeps_always simp: dinfo_labels_def\<close>)

lemma keeps_fixups:
  assumes "ctxt_ok K ctxt"
  shows "lab \<in> w_labels K \<Longrightarrow> keeps K (always (emit_jump ctxt lab))"
    "lab \<in> w_labels K \<Longrightarrow> keeps K (always (emit_jump_if ctxt lab))"
    "lab \<in> w_labels K \<Longrightarrow> keeps K (always (emit_exit ctxt lab))"
    "lab \<in> w_labels K \<Longrightarrow> keeps K (always (emit_catch ctxt lab))"
    "lab \<in> w_labels K \<Longrightarrow> keeps K (always (emit_jump_if_supplied ctxt lab i))"
    "lab \<in> w_labels K \<Longrightarrow> l \<in> w_lexs K \<Longrightarrow> keeps K (always (emit_exit_or_jump ctxt l lab))"
    "l \<in> w_lexs K \<Longrightarrow> keeps K (always (emit_entry_or_save_sp ctxt l))"
    "l \<in> w_lexs K \<Longrightarrow> keeps K (always (emit_ref_or_restore_sp ctxt l))"
    "l \<in> w_lexs K \<Longrightarrow> keeps K (always (maybe_emit_entry_close ctxt l))"
    "l \<in> w_lexs K \<Longrightarrow> keeps K (always (maybe_emit_make_cell ctxt l))"
    "l \<in> w_lexs K \<Longrightarrow> keeps K (always (maybe_emit_cell_ref ctxt l))"
    "l \<in> w_lexs K \<Longrightarrow> keeps K (always (maybe_emit_encage ctxt l))"
    "l \<in> w_lexs K \<Longrightarrow> keeps K (always (emit_lexical_set ctxt l))"
  using assms unfolding emit_jump_def[abs_def] emit_jump_if_def[abs_def] emit_exit_def[abs_def] emit_catch_def[abs_def]
    emit_jump_if_supplied_def[abs_def] emit_exit_or_jump_def[abs_def] emit_entry_or_save_sp_def[abs_def]
    emit_ref_or_restore_sp_def[abs_def] maybe_emit_entry_close_def[abs_def] maybe_emit_make_cell_def[abs_def]
    maybe_emit_cell_ref_def[abs_def] maybe_emit_encage_def[abs_def] emit_lexical_set_def[abs_def] ctxt_ok_def
  by (auto intro!: keeps_emit_fixup simp: kind_ok_def)

lemma keeps_special_bind [simp]: "keeps K (emit_special_bind ctxt s)"
proof -
  have "emit_special_bind ctxt s = using_new (vcell_index s) (opcode1 ctxt Vm_special_bind)"
    by (simp add: fun_eq_iff emit_special_bind_def using_new_def opcode1_def split_beta)
  then show ?thesis by (auto intro!: does_using_quiet)
qed

lemma keeps_literal [simp]: "keeps K (compile_literal v ctxt)"
proof (rule does_quiet)
  have lit: "quiet c c'" if "assemble1 ctxt (vm_code Vm_const) (snd (literal_index v c)) (fst (literal_index v c)) = Inr c'"
    for c c' by (rule quiet_trans[OF quiet_literals(1) quiet_assemble(2)[OF that]])
  show "quiet c r" if "compile_literal v ctxt c = Inr r" for c r
    using that lit
    by (auto simp: compile_literal_def Let_def bind_res_Inr_iff split_beta
        intro: quiet_assemble(1) quiet_trans[OF _ quiet_assemble(1)] split: if_splits)
qed simp

lemma keeps_reference:
  assumes "l \<in> w_lexs K"
  shows "keeps K (reference_lexical_info ctxt l)"
proof -
  have "reference_lexical_info ctxt l = fetch (\<lambda>c. lex_of c l) (\<lambda>r.
      if lex_cfunction r = ctxt_cfunction ctxt then opcode1 ctxt Vm_ref (unat (frame_index r))
      else using_new (closure_index ctxt l) (opcode1 ctxt Vm_closure))"
    by (simp add: fun_eq_iff reference_lexical_info_def fetch_def using_new_def opcode1_def split_beta)
  then show ?thesis
    using does_closure_index[OF assms] by (auto intro!: does_fetch does_if does_using_new[where V = "\<lambda>_. K"])
qed

lemma keeps_emit_calls [simp]:
  "keeps K (emit_call ctxt n)" "keeps K (emit_mv_call ctxt)" "keeps K (emit_bind ctxt n m)"
proof -
  show "keeps K (emit_call ctxt n)"
    by (rule does_quiet) (auto simp: emit_call_def intro: quiet_assemble(2,3) split: if_splits)
  show "keeps K (emit_mv_call ctxt)"
    by (rule does_quiet) (auto simp: emit_mv_call_def intro: quiet_assemble(1,2) split: if_splits)
  show "keeps K (emit_bind ctxt n m)"
    by (rule does_quiet) (auto simp: emit_bind_def intro: quiet_assemble(2,3) split: if_splits)
qed

end
