(* ===== verification/WorldBinds.thy ===== *)
theory WorldBinds
  imports WorldForms
begin

text \<open>
  Environment operations and new cfunctions in a world: binding variables, functions, blocks and tags
  makes lexical infos and labels; making a cfunction registers it and its entry point.
\<close>

section \<open>Several lexical infos at once\<close>

lemma inv_more_lexs:
  assumes i: "inv K c" and f: "f \<in> w_funs K"
    and c': "c' = c\<lparr>lexs := lexs c @ map (\<lambda>i. lexical_info_make i f) is\<rparr>"
  shows "inv (add_lexs {length (lexs c)..<length (lexs c')} K) c'"
proof -
  have s: "slots c' = slots c" by (simp add: c' slots_def cfun_of_def)
  have "f \<in> set (mod_cfunctions c)" using i f by (auto simp: inv_def)
  then have "typed c'" using i by (fastforce simp: c' inv_def typed_def lexical_info_make_def)
  moreover have "building c'" by (rule same_code_building[of c]) (use i c' in \<open>auto simp: inv_def\<close>)
  moreover have e: "annots c' = annots c" "dinfos c' = dinfos c" "mod_cfunctions c' = mod_cfunctions c"
    "cfun_of c' = cfun_of c" "length (lexs c') = length (lexs c) + length is"
    by (simp_all add: c' cfun_of_def fun_eq_iff)
  ultimately show ?thesis
    using i by (auto simp: e s inv_def label_ok_cong[OF e(1) s] targets_in_cong[OF e(1) s e(2)])
qed

text \<open>
  A binder changes nothing, or raises the number of locals and makes lexical infos of the current
  cfunction; the environment it returns names only those besides the old ones.
\<close>

lemma does_binder:
  assumes f: "f \<in> w_funs K" and e: "set (env_lexs env) \<subseteq> w_lexs K"
    and b: "\<And>c c' env'. b c = Inr (c', env') \<Longrightarrow>
      (c' = c \<or> (\<exists>n is. c' = (setNlocals f n c)\<lparr>lexs := lexs c @ map (\<lambda>i. lexical_info_make i f) is\<rparr>)) \<and>
      set (env_lexs env') \<subseteq> set (env_lexs env) \<union> {length (lexs c)..<length (lexs c')}"
  shows "does K b fst (\<lambda>r. add_lexs (set (env_lexs (snd r))) K)"
proof (rule doesI)
  fix c r assume "b c = Inr r"
  then have r: "b c = Inr (fst r, snd r)" by simp
  from b[OF r] consider (same) "fst r = c" "set (env_lexs (snd r)) \<subseteq> set (env_lexs env)"
    | (new) n "is" where "fst r = (setNlocals f n c)\<lparr>lexs := lexs c @ map (\<lambda>i. lexical_info_make i f) is\<rparr>"
      "set (env_lexs (snd r)) \<subseteq> set (env_lexs env) \<union> {length (lexs c)..<length (lexs (fst r))}"
    by auto
  then have "(mods_ok c \<longrightarrow> mods_ok (fst r) \<and> extends c (fst r)) \<and>
      (inv K c \<longrightarrow> inv (add_lexs (set (env_lexs (snd r))) K) (fst r))"
  proof cases
    case same
    with e have "weaker (add_lexs (set (env_lexs (snd r))) K) K" by (auto simp: weaker_def)
    with same show ?thesis by (auto intro: inv_weaker)
  next
    case new
    let ?c = "setNlocals f n c"
    have q: "quiet c ?c" by simp
    have s: "slots (fst r) = slots ?c" unfolding new(1) by (simp add: slots_def cfun_of_def)
    have "mods_ok c \<longrightarrow> mods_ok (fst r) \<and> extends c (fst r)"
      using q quiet_slots[OF q] s by (auto simp: new(1) mods_ok_def extends_def setNlocals_def)
    moreover have "inv (add_lexs (set (env_lexs (snd r))) K) (fst r)" if "inv K c"
    proof -
      have n: "fst r = ?c\<lparr>lexs := lexs ?c @ map (\<lambda>i. lexical_info_make i f) is\<rparr>" by (simp add: new(1))
      have w: "weaker (add_lexs (set (env_lexs (snd r))) K) (add_lexs {length (lexs ?c)..<length (lexs (fst r))} K)"
        using new(2) e by (auto simp: weaker_def)
      show ?thesis by (rule inv_weaker[OF inv_more_lexs[OF inv_quiet[OF q that] f n] w])
    qed
    ultimately show ?thesis by blast
  qed
  then show "mods_ok c \<Longrightarrow> mods_ok (fst r) \<and> extends c (fst r)"
    "inv K c \<Longrightarrow> inv (add_lexs (set (env_lexs (snd r))) K) (fst r)" by blast+
qed

lemma bind1var_eq:
  assumes "bind1var v ctxt c env = (c', env')"
  shows "\<exists>n. c' = (setNlocals (ctxt_cfunction ctxt) n c)\<lparr>lexs := lexs c @ [lexical_info_make (frame_end env) (ctxt_cfunction ctxt)]\<rparr>"
    "env' = sub_vars ((v, LexicalVarInfo (length (lexs c))) # vars env) (frame_end env + 1) env"
  using assms by (auto simp: bind1var_def Let_def)

lemma sub_vars_self: "sub_vars (vars env) (frame_end env) env = env"
  by (simp add: sub_vars_def)

lemma env_lexs_extend:
  "{l. \<exists>v. (v, LexicalVarInfo l) \<in> set new} \<subseteq> X \<Longrightarrow>
   set (env_lexs (sub_vars (new @ vars env) fe env)) \<subseteq> set (env_lexs env) \<union> X"
  using env_lexs_sub_vars[of "new @ vars env" fe env] env_lexs_sub_vars[of "vars env" "frame_end env" env]
  unfolding sub_vars_self by auto

lemma does_bind1var:
  assumes "env_ok K env" "ctxt_ok K ctxt"
  shows "does K (\<lambda>c. Inr (bind1var v ctxt c env)) fst (\<lambda>r. add_lexs (set (env_lexs (snd r))) K)"
proof (rule does_binder[OF ctxt_ok_fun[OF assms(2)]])
  fix c c' env' assume "Inr (bind1var v ctxt c env) = Inr (c', env')"
  then have b: "bind1var v ctxt c env = (c', env')" by simp
  note e = bind1var_eq[OF b]
  from e(1) have "length (lexs c') = Suc (length (lexs c))" by auto
  with e env_lexs_extend[of "[(v, LexicalVarInfo (length (lexs c)))]" "{length (lexs c)}" env "frame_end env + 1"]
  show "(c' = c \<or> (\<exists>n is. c' = (setNlocals (ctxt_cfunction ctxt) n c)
          \<lparr>lexs := lexs c @ map (\<lambda>i. lexical_info_make i (ctxt_cfunction ctxt)) is\<rparr>)) \<and>
      set (env_lexs env') \<subseteq> set (env_lexs env) \<union> {length (lexs c)..<length (lexs c')}"
    by (auto intro!: exI[of _ "[frame_end env]"])
qed (use assms in \<open>simp add: env_ok_def\<close>)

lemma bind1var_same_exits: "bind1var v ctxt c env = (c', env') \<Longrightarrow> same_exits env env'"
  by (auto simp: bind1var_def Let_def)

lemma does_bind_vars:
  assumes "env_ok K env" "ctxt_ok K ctxt"
  shows "does K (\<lambda>c. bind_vars g vs ctxt c env) fst (\<lambda>r. add_lexs (set (env_lexs (snd r))) K)"
proof (rule does_binder[OF ctxt_ok_fun[OF assms(2)]])
  fix c c' env' assume b: "bind_vars g vs ctxt c env = Inr (c', env')"
  show "(c' = c \<or> (\<exists>n is. c' = (setNlocals (ctxt_cfunction ctxt) n c)
          \<lparr>lexs := lexs c @ map (\<lambda>i. lexical_info_make i (ctxt_cfunction ctxt)) is\<rparr>)) \<and>
      set (env_lexs env') \<subseteq> set (env_lexs env) \<union> {length (lexs c)..<length (lexs c')}"
  proof (cases "vs = []")
    case True
    with bind_vars_eq[OF b] show ?thesis by simp
  next
    case False
    with bind_vars_eq[OF b] obtain n where
      c': "c' = (setNlocals (ctxt_cfunction ctxt) n c)\<lparr>lexs := lexs c @
          map (\<lambda>i. lexical_info_make i (ctxt_cfunction ctxt)) [frame_end env..<frame_end env + length vs]\<rparr>" and
      env': "env' = sub_vars (rev (zip vs (map LexicalVarInfo
            [length (lexs c)..<length (lexs c) + length vs])) @ vars env) (frame_end env + length vs) env"
      by auto
    have "set (env_lexs env') \<subseteq> set (env_lexs env) \<union> {length (lexs c)..<length (lexs c')}"
      unfolding env' c' using set_vars_env_lexs by fastforce
    with c' show ?thesis by blast
  qed
qed (use assms in \<open>simp add: env_ok_def\<close>)

lemma bind_vars_same_exits: "bind_vars g vs ctxt c env = Inr (c', env') \<Longrightarrow> same_exits env env'"
  by (auto simp: bind_vars_def Let_def split: if_splits sum.splits)

lemma does_bind_funs:
  assumes "env_ok K env" "ctxt_ok K ctxt"
  shows "does K (\<lambda>c. Inr (bind_funs fs ctxt c env)) fst (\<lambda>r. add_lexs (set (env_lexs (snd r))) K)"
proof (rule does_binder[OF ctxt_ok_fun[OF assms(2)]])
  let ?f = "ctxt_cfunction ctxt"
  fix c c' env' assume "Inr (bind_funs fs ctxt c env) = Inr (c', env')"
  then have b: "bind_funs fs ctxt c env = (c', env')" by simp
  show "(c' = c \<or> (\<exists>n is. c' = (setNlocals ?f n c)\<lparr>lexs := lexs c @ map (\<lambda>i. lexical_info_make i ?f) is\<rparr>)) \<and>
      set (env_lexs env') \<subseteq> set (env_lexs env) \<union> {length (lexs c)..<length (lexs c')}"
  proof (cases "fs = []")
    case True
    with b show ?thesis by (auto simp: bind_funs_def)
  next
    case False
    with b have
      c': "c' = (setNlocals ?f (max (frame_end env + length fs) (nlocals (cfun_of c ?f))) c)\<lparr>lexs := lexs c @
          map (\<lambda>i. lexical_info_make i ?f) [frame_end env..<frame_end env + length fs]\<rparr>" and
      env': "env' = sub_funs (rev (zip fs (map LocalFunInfo
              [length (lexs c)..<length (lexs c) + length fs])) @ funs env) (frame_end env + length fs) env"
      by (auto simp: bind_funs_def Let_def bind_funs_loop_eq)
    have "set (env_lexs env') \<subseteq> set (env_lexs env) \<union> {length (lexs c)..<length (lexs c')}"
      unfolding env' c' using set_funs_env_lexs by fastforce
    with c' show ?thesis by blast
  qed
qed (use assms in \<open>simp add: env_ok_def\<close>)

lemma bind_funs_same_exits: "bind_funs fs ctxt c env = (c', env') \<Longrightarrow> same_exits env env'"
  by (auto simp: bind_funs_def Let_def sub_funs_def same_exits_def split: if_splits prod.splits)

lemma does_bind_block:
  assumes "env_ok K env" "ctxt_ok K ctxt"
  shows "does K (\<lambda>c. Inr (bind_block name lab ctxt c env)) fst (\<lambda>r. add_lexs (set (env_lexs (snd r))) K)"
proof (rule does_binder[OF ctxt_ok_fun[OF assms(2)]])
  let ?f = "ctxt_cfunction ctxt"
  fix c c' env' assume "Inr (bind_block name lab ctxt c env) = Inr (c', env')"
  then have
    c': "c' = (setNlocals ?f (max (frame_end env + 1) (nlocals (cfun_of c ?f))) c)
        \<lparr>lexs := lexs c @ map (\<lambda>i. lexical_info_make i ?f) [frame_end env]\<rparr>" and
    env': "env' = sub_block ((name, \<lparr>block_lex = length (lexs c), block_exit = lab,
        block_receiving = receiving ctxt\<rparr>) # blocks env) env"
    by (auto simp: bind_block_def Let_def)
  have "set (env_lexs env') \<subseteq> set (env_lexs env) \<union> {length (lexs c)..<length (lexs c')}"
    unfolding env' c' by (auto simp: sub_block_def env_lexs_def)
  with c' show "(c' = c \<or> (\<exists>n is. c' = (setNlocals ?f n c)\<lparr>lexs := lexs c @ map (\<lambda>i. lexical_info_make i ?f) is\<rparr>)) \<and>
      set (env_lexs env') \<subseteq> set (env_lexs env) \<union> {length (lexs c)..<length (lexs c')}"
    by blast
qed (use assms in \<open>simp add: env_ok_def\<close>)

lemma blockInfo_nonempty: "blockInfo env t = map_option snd (alist_assoc_equal (blocks env) t)"
  by (cases "blocks env") (auto simp: blockInfo_def split: option.splits)

lemma bind_block_exits:
  assumes "bind_block name lab ctxt c env = (c', env')"
  shows "exit_labels env' \<subseteq> insert lab (exit_labels env)"
proof -
  from assms obtain b where b: "tags env' = tags env" "blocks env' = (name, b) # blocks env" "block_exit b = lab"
    by (auto simp: bind_block_def Let_def sub_block_def)
  have "tagInfo env' = tagInfo env" by (simp add: fun_eq_iff tagInfo_def b(1))
  moreover have "i = b \<or> blockInfo env n = Some i" if "blockInfo env' n = Some i" for n i
    using that by (auto simp: blockInfo_nonempty b(2) split: if_splits)
  note tb = calculation this
  show ?thesis
  proof
    fix l assume "l \<in> exit_labels env'"
    then consider t i where "tagInfo env' t = Some i" "l = tag_exit i"
      | n i where "blockInfo env' n = Some i" "l = block_exit i"
      by (auto simp: exit_labels_def)
    then show "l \<in> insert lab (exit_labels env)"
    proof cases
      case 1
      with tb(1) show ?thesis by (auto simp: exit_labels_def)
    next
      case 2
      with tb(2)[OF 2(1)] b(3) show ?thesis by (auto simp: exit_labels_def)
    qed
  qed
qed

section \<open>Tags\<close>

definition add_labels :: "nat set \<Rightarrow> world \<Rightarrow> world" where
  "add_labels N K = K\<lparr>w_labels := N \<union> w_labels K\<rparr>"

lemma add_labels_fields [simp]:
  "w_labels (add_labels N K) = N \<union> w_labels K" "w_lexs (add_labels N K) = w_lexs K"
  "w_funs (add_labels N K) = w_funs K" "w_done (add_labels N K) = w_done K"
  by (simp_all add: add_labels_def)

lemma inv_more_labels:
  assumes i: "inv K c" and c': "c' = c\<lparr>annots := annots c @ replicate n label_make\<rparr>"
    and N: "\<And>l. l \<in> N \<Longrightarrow> l \<in> w_labels K \<or> (length (annots c) \<le> l \<and> l < length (annots c) + n)"
  shows "inv (add_labels N K) c'"
proof -
  have b: "building c" using i by (simp add: inv_def)
  have s: "slots c' = slots c" by (simp add: c' slots_def cfun_of_def)
  have old: "annot_of c' a = annot_of c a" if "a < length (annots c)" for a
    using that by (simp add: c' annot_of_def nth_append)
  have ok: "label_ok c' l" if "label_ok c l" for l
    using that s old by (auto simp: label_ok_def unplaced_def c')
  have new: "label_ok c' l" if "length (annots c) \<le> l" "l < length (annots c) + n" for l
    using that by (simp add: label_ok_def unplaced_def annot_of_def c' nth_append label_make_def)
  have labels: "label_ok c' l" if "l \<in> N \<union> w_labels K" for l
    using that N new ok i by (auto simp: inv_def)
  have "building c'"
  proof (rule building_step[OF b])
    fix f assume f: "f \<in> set (mod_cfunctions c)" "placed c f"
    then have "a < length (annots c)" if "a \<in> set (anns c f)" for a
      using that placedD(1) by (metis in_set_conv_nth)
    with f show "placed c' f" by (auto simp: c' cfun_of_def annot_of_def nth_append intro!: placed_mono[of c])
  qed (simp_all add: c' cfun_of_def)
  moreover have "typed c'" using i by (auto simp: c' inv_def typed_def label_make_def)
  moreover have "targets_in (N \<union> w_labels K) c'"
    using i old old_annots[OF b] ok s by (fastforce simp: inv_def targets_in_def c')
  ultimately show ?thesis using i labels ok s by (auto simp: inv_def c' cfun_of_def)
qed

lemma tagInfo_nonempty: "tagInfo env t = map_option snd (alist_assoc_equal (tags env) t)"
  by (cases "tags env") (auto simp: tagInfo_def split: option.splits)

lemma alist_assoc_equal_append:
  "alist_assoc_equal (xs @ ys) t = (case alist_assoc_equal xs t of Some p \<Rightarrow> Some p | None \<Rightarrow> alist_assoc_equal ys t)"
  by (induction xs) auto

lemma alist_assoc_equal_key: "alist_assoc_equal xs t = Some p \<Longrightarrow> equal_lisp (fst p) t"
  by (induction xs) (auto split: if_splits)

lemma alist_assoc_equal_cong:
  "equal_lisp t u \<Longrightarrow> alist_assoc_equal xs t = alist_assoc_equal xs u"
proof (induction xs)
  case (Cons p xs)
  then have "equal_lisp (fst p) t = equal_lisp (fst p) u"
    using equal_lisp_trans equal_lisp_sym by blast
  with Cons show ?case by simp
qed simp

text \<open>The new tags are all of the given ones; an older tag is found as before.\<close>

lemma bind_tags_eq:
  assumes "bind_tags ts de ctxt c env = (c', env')" "ts \<noteq> []"
  obtains new where "tags env' = new @ tags env" "fst ` set new = set ts"
    "\<And>p. p \<in> set new \<Longrightarrow> tag_lex (snd p) = de \<and> length (annots c) \<le> tag_exit (snd p) \<and>
       tag_exit (snd p) < length (annots c) + length ts"
    "c' = (setNlocals (ctxt_cfunction ctxt) (max (frame_end env + 1) (nlocals (cfun_of c (ctxt_cfunction ctxt)))) c)
       \<lparr>annots := annots c @ replicate (length ts) label_make\<rparr>"
    "blocks env' = blocks env" "set (env_lexs env') \<subseteq> insert de (set (env_lexs env))"
proof -
  let ?ls = "[length (annots c)..<length (annots c) + length ts]"
  let ?new = "rev (zip ts (map (\<lambda>a. \<lparr>tag_lex = de, tag_exit = a\<rparr>) ?ls))"
  from assms have eqs: "env' = sub_tags (?new @ tags env) env"
    "c' = (setNlocals (ctxt_cfunction ctxt) (max (frame_end env + 1) (nlocals (cfun_of c (ctxt_cfunction ctxt)))) c)
       \<lparr>annots := annots c @ replicate (length ts) label_make\<rparr>"
    by (auto simp: bind_tags_def Let_def bind_tags_loop_eq)
  have "fst ` set ?new = set ts" by (metis length_map length_upt add_diff_cancel_left' map_fst_zip set_map set_rev)
  moreover have "tag_lex (snd p) = de \<and> length (annots c) \<le> tag_exit (snd p) \<and>
      tag_exit (snd p) < length (annots c) + length ts" if "p \<in> set ?new" for p
  proof (cases p)
    case (Pair a b)
    with that show ?thesis by (auto dest!: set_zip_rightD)
  qed
  moreover have "set (env_lexs env') \<subseteq> insert de (set (env_lexs env))"
    unfolding eqs(1) set_tags_env_lexs using calculation(2) by auto
  ultimately show ?thesis using that[of ?new] eqs by (simp add: sub_tags_def)
qed

lemma does_bind_tags:
  assumes e: "env_ok K env" and ts: "ts \<noteq> []" and de: "de \<in> w_lexs K"
  shows "does K (\<lambda>c. Inr (bind_tags ts de ctxt c env)) fst (\<lambda>r. add_labels (exit_labels (snd r)) K)"
proof (rule doesI)
  fix c :: comp and r assume "Inr (bind_tags ts de ctxt c env) = (Inr r :: cerror + comp \<times> lexenv)"
  then have "bind_tags ts de ctxt c env = (fst r, snd r)" by simp
  from bind_tags_eq[OF this ts] obtain new n where
    new: "tags (snd r) = new @ tags env" "blocks (snd r) = blocks env"
      "\<And>p. p \<in> set new \<Longrightarrow> length (annots c) \<le> tag_exit (snd p) \<and> tag_exit (snd p) < length (annots c) + length ts"
    and c': "fst r = (setNlocals (ctxt_cfunction ctxt) n c)\<lparr>annots := annots c @ replicate (length ts) label_make\<rparr>"
    by metis
  let ?c = "setNlocals (ctxt_cfunction ctxt) n c"
  have q: "quiet c ?c" by simp
  have s: "slots (fst r) = slots ?c" unfolding c' by (simp add: slots_def cfun_of_def)
  show "mods_ok (fst r) \<and> extends c (fst r)" if "mods_ok c"
    using that quiet_slots[OF q that] s by (auto simp: c' mods_ok_def extends_def setNlocals_def)
  show "inv (add_labels (exit_labels (snd r)) K) (fst r)" if "inv K c"
  proof (rule inv_more_labels[OF inv_quiet[OF q that]])
    show "fst r = ?c\<lparr>annots := annots ?c @ replicate (length ts) label_make\<rparr>" by (simp add: c')
    fix l assume "l \<in> exit_labels (snd r)"
    moreover have "blockInfo (snd r) = blockInfo env" by (simp add: fun_eq_iff blockInfo_def new(2))
    ultimately consider t i where "tagInfo (snd r) t = Some i" "l = tag_exit i" | "l \<in> exit_labels env"
      by (auto simp: exit_labels_def)
    then show "l \<in> w_labels K \<or> (length (annots ?c) \<le> l \<and> l < length (annots ?c) + length ts)"
    proof cases
      case 1
      then obtain p where p: "alist_assoc_equal (new @ tags env) t = Some p" "l = tag_exit (snd p)"
        by (auto simp: tagInfo_nonempty new(1))
      show ?thesis
      proof (cases "alist_assoc_equal new t")
        case None
        with p have "tagInfo env t = Some (snd p)" by (simp add: tagInfo_nonempty alist_assoc_equal_append)
        then have "l \<in> exit_labels env" using p by (auto simp: exit_labels_def)
        with e show ?thesis by (auto simp: env_ok_def)
      next
        case (Some p')
        with p have "p \<in> set new" by (auto simp: alist_assoc_equal_append dest: alist_assoc_equal_mem)
        with new(3) p show ?thesis by simp
      qed
    next
      case 2
      with e show ?thesis by (auto simp: env_ok_def)
    qed
  qed
qed

section \<open>New cfunctions\<close>

lemma does_new_cfunction:
  "does K (\<lambda>c. case cfunction_make name doc ll loc c of (c', f) \<Rightarrow> Inr (register_cfunction f c', f)) fst
     (\<lambda>r. add_fun (snd r) K)"
proof (rule doesI)
  fix c r assume "(case cfunction_make name doc ll loc c of (c', f) \<Rightarrow> Inr (register_cfunction f c', f)) = Inr r"
  then obtain c1 f where m: "cfunction_make name doc ll loc c = (c1, f)" "r = (register_cfunction f c1, f)"
    by (auto split: prod.splits)
  obtain c0 lab where n: "new_annot label_make c = (c0, lab)" by fastforce
  note s = new_label_store[OF n]
  from m(1) n have c1: "f = length (cfuns c0)" "annots c1 = annots c0" "dinfos c1 = dinfos c0" "lexs c1 = lexs c0"
    "mod_cfunctions c1 = mod_cfunctions c0" "mod_literals c1 = mod_literals c0"
    "length (cfuns c1) = Suc (length (cfuns c0))" "\<And>g. g < length (cfuns c0) \<Longrightarrow> cfun_of c1 g = cfun_of c0 g"
    "anns c1 f = []" "cf_extra (cfun_of c1 f) = 0" "entry_point (cfun_of c1 f) = lab" "closed (cfun_of c1 f) = []"
    by (auto simp: cfunction_make_def cfun_of_def nth_append)
  let ?r = "register_cfunction f c1"
  have R: "cfun_of ?r g = (if g = f then (cfun_of c1 f)\<lparr>cf_index := length (mod_cfunctions c1)\<rparr> else cfun_of c1 g)" for g
    using c1(1,7) by (simp add: register_cfunction_def upd_cfun_def cfun_of_def nth_list_update)
  have rf: "annots ?r = annots c0" "dinfos ?r = dinfos c0" "lexs ?r = lexs c0"
    "mod_cfunctions ?r = mod_cfunctions c @ [f]" "mod_literals ?r = mod_literals c0"
    "length (cfuns ?r) = Suc (length (cfuns c0))"
    using c1 s by (simp_all add: register_cfunction_def upd_cfun_def)
  have keep: "cfun_of ?r g = cfun_of c g" if "g < length (cfuns c)" for g
    using that c1(1) c1(8)[of g] s(7) R[of g] by (auto simp: cfun_of_def[of c] cfun_of_def[of c0])
  have slots: "slots ?r = slots c" if "mods_ok c"
    using that c1(9) keep by (auto simp: slots_def rf R mods_ok_def cong: map_cong)
  show "mods_ok (fst r) \<and> extends c (fst r)" if "mods_ok c"
    using that slots[OF that] rf c1(1) s by (auto simp: m mods_ok_def extends_def)
  show "inv (add_fun (snd r) K) (fst r)" if i: "inv K c" and "mods_ok c"
  proof -
    have b: "building c" using i by (simp add: inv_def)
    have b0: "building c0" by (rule new_annot_building(1)[OF b n])
    have b1: "building c1"
      by (rule building_step[OF b0 c1(5)])
        (use c1 s \<open>mods_ok c\<close> in \<open>auto simp: mods_ok_def annot_of_def intro!: placed_mono[of c0]\<close>)
    have f: "f \<notin> set (mod_cfunctions c1)" using \<open>mods_ok c\<close> c1(1,5) s(4,7) by (auto simp: mods_ok_def)
    have br: "building ?r"
      by (rule register_building[OF b1 _ f c1(9,10)]) (use c1 in simp)
    note S = slots[OF \<open>mods_ok c\<close>]
    have old: "annot_of ?r a = annot_of c a" if "a < length (annots c)" for a
      using that s(1) by (simp add: annot_of_def rf nth_append)
    have ok: "label_ok ?r a" if "label_ok c a" for a
      using that old S s(1) by (auto simp: label_ok_def unplaced_def rf)
    have lab: "label_ok ?r lab"
      using s(1,2) by (simp add: label_ok_def unplaced_def annot_of_def rf label_make_def)
    have "\<forall>l \<in> set (closed x). l < length (lexs c)" if "x \<in> set (cfuns ?r)" for x
    proof -
      from that obtain g where g: "g < Suc (length (cfuns c))" "x = cfun_of ?r g"
        using rf(6) s(7) by (auto simp: in_set_conv_nth cfun_of_def)
      show ?thesis
      proof (cases "g = f")
        case True
        with g c1(12) show ?thesis by (simp add: R)
      next
        case False
        with g c1(1) s(7) have "g < length (cfuns c)" by simp
        with keep g i show ?thesis by (auto simp: inv_def typed_def cfun_of_def)
      qed
    qed
    then have "typed ?r" using i rf s by (auto simp: typed_def inv_def label_make_def)
    moreover have "targets_in (w_labels K) ?r"
      using i old old_annots[OF b] ok S s(3) by (fastforce simp: inv_def targets_in_def rf)
    ultimately show ?thesis
      using i br ok lab S s(5) c1(11) keep \<open>mods_ok c\<close>
      by (auto simp: m inv_def rf R mods_ok_def)
  qed
qed

end
