(* ===== verification/WorldCompile.thy ===== *)
theory WorldCompile
  imports WorldBinds
begin

text \<open>
  Every operation of the compiler of forms keeps the world it runs in, when the compiler of subforms
  does: the contract of the recursion as a locale, and the operations in the order of the code.
\<close>

lemma keeps_labels1:
  assumes "\<And>l. leads (add_label l K) (k l) (J l)" "\<And>l. weaker K (J l)"
  shows "keeps K (with_label k)"
  by (rule does_with_label) (rule leads_weaken[OF assms])

lemma keeps_labels2:
  assumes "\<And>l m. leads (add_label m (add_label l K)) (k l m) (J l m)" "\<And>l m. weaker K (J l m)"
  shows "keeps K (with_label (\<lambda>l. with_label (k l)))"
  by (rule does_with_label)+ (rule leads_weaken[OF assms])

lemma keeps_labels3:
  assumes "\<And>l m n. leads (add_label n (add_label m (add_label l K))) (k l m n) (J l m n)" "\<And>l m n. weaker K (J l m n)"
  shows "keeps K (with_label (\<lambda>l. with_label (\<lambda>m. with_label (k l m))))"
  by (rule does_with_label)+ (rule leads_weaken[OF assms])

text \<open>A label that is never placed nor used.\<close>

lemma does_label_unused:
  assumes "\<And>l. does K (k l) s W"
  shows "does K (with_label k) s W"
  unfolding with_label_def
proof (rule does_using_new[where V = "\<lambda>_. K"])
  show "does K (\<lambda>c. Inr (new_annot label_make c)) fst (\<lambda>r. K)"
  proof (rule doesI)
    fix c :: comp and r assume "Inr (new_annot label_make c) = (Inr r :: cerror + comp \<times> nat)"
    then have n: "new_annot label_make c = (fst r, snd r)" by simp
    note st = new_label_store[OF n]
    show "mods_ok (fst r) \<and> extends c (fst r)" if "mods_ok c"
      using that st by (simp add: mods_ok_def extends_def)
    have "fst r = c\<lparr>annots := annots c @ replicate 1 label_make\<rparr>" using n by (auto simp: new_annot_def)
    moreover have "add_labels {} K = K" by (simp add: add_labels_def)
    ultimately show "inv K (fst r)" if "inv K c"
      using inv_more_labels[OF that, of "fst r" 1 "{}"] by (simp only: empty_iff simp_thms)
  qed
qed (rule assms)

lemma only_if_simps [simp]: "only_if True m = m" "only_if False m = Inr"
  by (simp_all add: only_if_def[abs_def])

lemma leads_place_ctxt: "l \<in> w_labels K \<Longrightarrow> ctxt_ok K ctxt \<Longrightarrow> leads K (place ctxt l) (add_done l K)"
  by (simp add: leads_place ctxt_ok_def)

lemmas world_intros = leads_steps keeps_steps_Nil keeps_skip leads_place_ctxt keeps_debug keeps_fixups
  keeps_opcode keeps_report keeps_marks keeps_warn keeps_special_bind keeps_literal keeps_emit_calls

text \<open>A result that names no more than the store it was made in.\<close>

lemma does_pure: "(\<And>c r. m c = Inr r \<Longrightarrow> s r = c) \<Longrightarrow> (\<And>r. weaker (W r) K) \<Longrightarrow> does K m s W"
  by (rule doesI) (auto intro: inv_weaker)

lemma quiet_collect_decls: "collect_decls f ds c = Inr (c', xs) \<Longrightarrow> quiet c c'"
proof (induction f ds c arbitrary: c' xs rule: collect_decls.induct)
  case (2 f decl dl c)
  from "2.prems" obtain r where r: "f decl = Inr r"
    "(case r of None \<Rightarrow> collect_decls f dl c
      | Some (Inl spec) \<Rightarrow> bind_res (collect_decls f dl c) (\<lambda>(c', ds). Inr (c', spec # ds))
      | Some (Inr xs) \<Rightarrow> (case new_list xs c of (c1, x) \<Rightarrow>
              bind_res (collect_decls f dl c1) (\<lambda>(c', ds). Inr (c', x # ds)))) = Inr (c', xs)"
    by (auto simp: bind_res_Inr_iff)
  show ?case
  proof (cases r)
    case None
    with r 2 show ?thesis by simp
  next
    case (Some a)
    show ?thesis
    proof (cases a)
      case (Inl x)
      with r(2) Some 2 show ?thesis by (auto simp: bind_res_Inr_iff)
    next
      case (Inr ys)
      obtain c1 x where n: "new_list ys c = (c1, x)" by fastforce
      with Inr r(2) Some obtain ds where "collect_decls f dl c1 = Inr (c', ds)"
        by (auto simp: bind_res_Inr_iff)
      with "2.IH"(3)[OF n[symmetric]] quiet_new_list[of c ys] n show ?thesis
        by (auto intro: quiet_trans)
    qed
  qed
qed simp

lemma keeps_set_declarations: "keeps K (set_declarations var l declares)"
  unfolding set_declarations_def
  by (intro does_attempt does_using_try[where V = "\<lambda>_. K"] world_intros)
     (rule does_quiet, auto simp: decls_for_var_def dest: quiet_collect_decls)

lemma keeps_maybe_warn_used: "keeps K (maybe_warn_used name l sloc funp)"
  unfolding maybe_warn_used_def
  by (intro does_fetch does_if does_using_quiet world_intros) (rule quiet_new_list)

lemma keeps_read_lexical: "l \<in> w_lexs K \<Longrightarrow> keeps K (read_lexical l ctxt)"
  unfolding read_lexical_def
  by (auto intro!: does_fetch does_if world_intros does_using_new[where V = "\<lambda>_. K"] does_closure_index)

lemma keeps_pop_for_values: "keeps K (pop_for_values ctxt)"
  unfolding pop_for_values_def by (auto intro!: keeps_only_if)

lemma keeps_symbol_value: "keeps K (symbol_value s ctxt)" "keeps K (set_special s ctxt)"
  unfolding symbol_value_def set_special_def by (auto intro!: does_using_quiet)

lemma keeps_warn_undefined: "keeps K (warn_undefined h s ctxt)"
  unfolding warn_undefined_def by (auto intro!: keeps_only_if)

lemmas world_intros2 = world_intros keeps_set_declarations keeps_maybe_warn_used keeps_read_lexical
  keeps_pop_for_values keeps_symbol_value keeps_warn_undefined keeps_reference

text \<open>What holds of a result whatever the store.\<close>

definition gives :: "(comp \<Rightarrow> cerror + 'r) \<Rightarrow> ('r \<Rightarrow> bool) \<Rightarrow> bool" where
  "gives m P \<longleftrightarrow> (\<forall>c r. m c = Inr r \<longrightarrow> P r)"

lemma gives_attempt: "(\<And>x. r = Inr x \<Longrightarrow> gives (k x) P) \<Longrightarrow> gives (attempt r k) P"
  by (cases r) (auto simp: gives_def attempt_def)

lemma gives_after: "gives k P \<Longrightarrow> gives (after m k) P"
  by (auto simp: gives_def after_def bind_res_Inr_iff)

lemma gives_yield: "(\<And>c. P (f c)) \<Longrightarrow> gives (yield f) P"
  by (simp add: gives_def yield_def)

lemma gives_fetch: "(\<And>x. gives (k x) P) \<Longrightarrow> gives (fetch f k) P"
  by (simp add: gives_def fetch_def)

lemma gives_using_new: "(\<And>c c' x. f c = (c', x) \<Longrightarrow> gives (k x) P) \<Longrightarrow> gives (using_new f k) P"
  by (auto simp: gives_def using_new_def split: prod.splits)

lemma gives_using_try: "(\<And>c c' x. f c = Inr (c', x) \<Longrightarrow> gives (k x) P) \<Longrightarrow> gives (using_try f k) P"
  by (auto simp: gives_def using_try_def bind_res_Inr_iff)

lemma gives_with_label: "(\<And>l. gives (k l) P) \<Longrightarrow> gives (with_label k) P"
  unfolding with_label_def by (rule gives_using_new)

lemma gives_looping:
  assumes "\<And>t. gives (k t) P"
  shows "gives (looping f start store k) P"
  using assms by (auto simp: gives_def looping_def bind_res_Inr_iff)

lemma gives_if: "(b \<Longrightarrow> gives m P) \<Longrightarrow> (\<not> b \<Longrightarrow> gives m' P) \<Longrightarrow> gives (if b then m else m') P"
  by simp

lemma gives_fail [simp]: "gives (\<lambda>_. Inl e) P"
  by (simp add: gives_def)

lemmas gives_intros = gives_if gives_attempt gives_after gives_yield gives_fetch gives_using_new gives_using_try
  gives_with_label gives_looping

lemma loops_store:
  assumes "\<And>t. Q t \<Longrightarrow> does (W t) (m t) s W" "\<And>t. Q t \<Longrightarrow> gives (m t) Q"
  shows "loops s W Q (\<lambda>t. m t (s t))"
  by (rule loopsI[where g = m]) (use assms in \<open>auto simp: gives_def\<close>)

text \<open>The world of the bindings of a \<open>let\<close> so far.\<close>

definition let_world :: "world \<Rightarrow> let_state \<Rightarrow> world" where
  "let_world K st = add_lexs (set (env_lexs (ls_env st)) \<union> (\<Union>b \<in> set (ls_debug st). binding_lexs b)) K"

definition let_ok :: "world \<Rightarrow> lexenv \<Rightarrow> let_state \<Rightarrow> bool" where
  "let_ok K env st \<longleftrightarrow> same_exits env (ls_env st) \<and> ctxt_ok K (ls_ctxt st)"

lemma let_world_env: "let_ok K env st \<Longrightarrow> env_ok K env \<Longrightarrow> env_ok (let_world K st) (ls_env st)"
  by (auto simp: let_ok_def let_world_def env_ok_def exit_labels_same)

lemma let_world_more [simp]:
  "env_ok K env \<Longrightarrow> env_ok (let_world K st) env" "ctxt_ok K ctxt \<Longrightarrow> ctxt_ok (let_world K st) ctxt"
  "w_labels (let_world K st) = w_labels K" "w_funs (let_world K st) = w_funs K"
  "w_done (let_world K st) = w_done K"
  by (simp_all add: let_world_def)

lemma leads_let:
  assumes "loops ls_comp (let_world K) (let_ok K env) f" "env_ok K env" "ctxt_ok K ctxt"
    and "same_exits env env0" "set (env_lexs env0) \<subseteq> set (env_lexs env)"
    and "\<And>t. let_ok K env t \<Longrightarrow> env_ok (let_world K t) (ls_env t) \<Longrightarrow> ctxt_ok (let_world K t) (ls_ctxt t) \<Longrightarrow>
      leads (let_world K t) (k t) (J t)"
    and "\<And>t. weaker I (J t)"
  shows "leads K (looping f (let_start env0 ctxt) ls_comp k) I"
  by (rule leads_looping[OF assms(1) _ _ _ assms(6,7)])
     (use assms(2-5) in \<open>auto simp: let_start_def let_ok_def weaker_def let_world_def env_ok_def exit_labels_same\<close>)

lemma env_ok_specials:
  "add_specials g vs env = Inr env' \<Longrightarrow> env_ok K env \<Longrightarrow> env_ok K env'"
  "add_specials g vs (add_decls ds env) = Inr env' \<Longrightarrow> env_ok K env \<Longrightarrow> env_ok K env'"
  using env_ok_add_specials env_ok_add_decls by blast+

lemma bound_lexical_env: "bound_lexical env x = Inr l \<Longrightarrow> l \<in> set (env_lexs env)"
  by (auto simp: bound_lexical_def split: option.splits var_info.splits dest!: variableInfo_mem env_lex_var)

lemma does_using_bind1var:
  assumes "env_ok K env" "ctxt_ok K ctxt"
    and "\<And>env'. same_exits env env' \<Longrightarrow> does (add_lexs (set (env_lexs env')) K) (k env') s W"
  shows "does K (using_new (\<lambda>c. bind1var v ctxt c env) k) s W"
  by (rule does_using_new[where V = "\<lambda>e. add_lexs (set (env_lexs e)) K"])
     (auto intro: does_bind1var assms bind1var_same_exits)

locale subform_compiler =
  fixes rec :: form_compiler
  assumes rec_keeps: "env_ok K env \<Longrightarrow> ctxt_ok K ctxt \<Longrightarrow> keeps K (rec x env ctxt)"
begin

lemma symbol_keeps:
  assumes e: "env_ok K env" and x: "ctxt_ok K ctxt"
  shows "keeps K (compile_symbol rec h s env ctxt)"
proof (cases "lisp_var_info h s env")
  case None
  then show ?thesis unfolding compile_symbol_def by (auto intro!: world_intros2)
next
  case (Some i)
  show ?thesis
  proof (cases i)
    case (LexicalVarInfo l)
    with Some found_lexical(1)[OF e] have "l \<in> w_lexs K" by simp
    with Some LexicalVarInfo x show ?thesis unfolding compile_symbol_def by (auto intro!: world_intros2)
  next
    case (SymbolMacroVarInfo f)
    with Some show ?thesis unfolding compile_symbol_def by (auto intro!: does_attempt rec_keeps e x)
  qed (use Some in \<open>auto simp: compile_symbol_def intro!: world_intros2\<close>)
qed

lemma progn_keeps:
  assumes "env_ok K env" "ctxt_ok K ctxt"
  shows "keeps K (compile_progn rec forms env ctxt)"
  unfolding compile_progn_def using assms
  by (auto intro!: does_if world_intros keeps_for_conses rec_keeps)

lemma locally_keeps:
  assumes "env_ok K env" "ctxt_ok K ctxt"
  shows "keeps K (compile_locally rec h body env ctxt)"
proof -
  have "keeps K (with_label (\<lambda>begin_label. with_label (\<lambda>end_label.
           steps
             [only_if (ds \<noteq> []) (steps [place ctxt begin_label, debug ctxt begin_label end_label (AstDecls ds)]),
              compile_progn rec code (add_decls ds env1) ctxt,
              only_if (ds \<noteq> []) (place ctxt end_label)])))" if "env_ok K env1" for ds code env1
  proof (cases "ds = []")
    case True
    then show ?thesis using that assms
      by (auto intro!: does_label_unused keeps_steps progn_keeps)
  next
    case False
    then show ?thesis using that assms
      by (auto simp: weaker_def intro!: keeps_labels2 world_intros progn_keeps)
  qed
  then show ?thesis
    unfolding compile_locally_def Let_def using env_ok_add_specials[OF assms(1)]
    by (auto intro!: does_attempt)
qed

lemma let_binding_loops:
  assumes e: "env_ok K env" and x: "ctxt_ok K ctxt"
  shows "loops ls_comp (let_world K) (let_ok K env) (let_binding rec h specials declares env ctxt binding)"
  unfolding let_binding_def[abs_def]
proof (rule loops_store, goal_cases)
  case (1 t)
  then have "env_ok (let_world K t) (ls_env t)" using e by (rule let_world_env)
  then show ?case
    using 1 x e unfolding split_beta
    by - ((rule does_attempt does_after does_if rec_keeps does_using_bind1var does_yield world_intros2) |
        (auto simp: let_world_def weaker_def dest: bound_lexical_env; fail))+

next
  case (2 t)
  then show ?case
    unfolding split_beta
    by (intro gives_intros) (auto simp: let_ok_def intro: same_exits_trans bind1var_same_exits)
qed

lemma let_keeps:
  assumes e: "env_ok K env" and x: "ctxt_ok K ctxt"
  shows "keeps K (compile_let rec h bindings body env ctxt)"
  unfolding compile_let_def
  using e x
  by - (rule does_attempt leads_let loops_for_each let_binding_loops does_with_label
        keeps_only_if progn_keeps world_intros2 | 
        (auto simp: let_world_def weaker_def dest: add_specials_vars; fail))+

lemma letSTAR_binding_loops:
  assumes e: "env_ok K env" and l: "end_label \<in> w_labels K"
  shows "loops ls_comp (let_world K) (let_ok K env) (letSTAR_binding rec h specials declares env end_label binding)"
  unfolding letSTAR_binding_def[abs_def]
proof (rule loops_store, goal_cases)
  case (1 t)
  then have "env_ok (let_world K t) (ls_env t)" "ctxt_ok (let_world K t) (ls_ctxt t)"
    using e by (auto simp: let_ok_def intro: let_world_env)
  then show ?case
    using 1 e l unfolding split_beta
    by - (rule does_attempt does_after does_if rec_keeps does_with_label does_using_bind1var does_yield world_intros2 |
        (auto simp: let_world_def weaker_def dest: bound_lexical_env add_specials_vars; fail))+
next
  case (2 t)
  then show ?case
    unfolding split_beta
    by (intro gives_intros)
       (auto simp: let_ok_def intro: same_exits_trans bind1var_same_exits dest: add_specials_vars)
qed

lemma letSTAR_keeps:
  assumes e: "env_ok K env" and x: "ctxt_ok K ctxt"
  shows "keeps K (compile_letSTAR rec h bindings body env ctxt)"
  unfolding compile_letSTAR_def
  using e x
  by - (rule does_attempt leads_let loops_for_each letSTAR_binding_loops does_with_label
        keeps_only_if progn_keeps world_intros2 | 
        (auto simp: let_world_def weaker_def intro: env_ok_specials; fail))+
end

end
