(* ===== verification/WorldLambdas.thy ===== *)
theory WorldLambdas
  imports WorldCompile
begin

text \<open>
  Lambda lists, lambda expressions and local functions in a world.
\<close>

section \<open>Parameters\<close>

lemma does_yield_env: "env_ok K env \<Longrightarrow> does K (yield (\<lambda>c. (c, env))) fst (\<lambda>r. add_lexs (set (env_lexs (snd r))) K)"
  by (rule does_yield) (auto simp: weaker_def env_ok_def)

lemma does_yield_bind1var:
  "env_ok K env \<Longrightarrow> ctxt_ok K ctxt \<Longrightarrow>
   does K (yield (\<lambda>c. bind1var v ctxt c env)) fst (\<lambda>r. add_lexs (set (env_lexs (snd r))) K)"
  unfolding yield_def[abs_def] by (rule does_bind1var)

lemma env_ok_bind_var:
  "env_ok K env \<Longrightarrow> l \<in> w_lexs K \<Longrightarrow> env_ok K (sub_vars ((v, LexicalVarInfo l) # vars env) (frame_end env) env)"
  by (rule env_ok_sub_vars) (auto simp: env_ok_def dest: env_lex_var)

lemma does_item_env:
  assumes "env_ok K env" "ctxt_ok K ctxt" "l \<in> w_lexs K"
  shows "does K (item_env h var l supplied_var vsp ssp ctxt env) fst (\<lambda>r. add_lexs (set (env_lexs (snd r))) K)"
proof -
  have "env_ok K e" if "(if vsp then add_specials (h_genv h) [var] env
      else Inr (sub_vars ((var, LexicalVarInfo l) # vars env) (frame_end env) env)) = Inr e" for e
    using that assms env_ok_specials(1) env_ok_bind_var by (auto split: if_splits)
  then show ?thesis
    unfolding item_env_def using assms(2)
    by - (rule does_attempt does_if does_yield_env does_yield_bind1var | (auto intro: env_ok_specials; fail))+
qed

lemma item_env_same: "gives (item_env h var l supplied_var vsp ssp ctxt env) (\<lambda>r. same_exits env (snd r))"
proof -
  have 1: "same_exits env e" if "(if vsp then add_specials (h_genv h) [var] env
      else Inr (sub_vars ((var, LexicalVarInfo l) # vars env) (frame_end env) env)) = Inr e" for e
    using that by (auto split: if_splits dest: add_specials_vars)
  have 2: "same_exits e (snd (bind1var supplied_var ctxt c e))" for c e
    by (rule bind1var_same_exits[of supplied_var ctxt c e "fst (bind1var supplied_var ctxt c e)"]) simp
  show ?thesis
    unfolding item_env_def
    by (intro gives_intros) (auto dest: 1 add_specials_vars intro: same_exits_trans[OF 1] same_exits_trans 2)
qed

lemma keeps_bind_supplied:
  assumes "env_ok K env" "ctxt_ok K ctxt"
  shows "keeps K (bind_supplied supplied_var ssp ctxt env)"
proof -
  have "l \<in> w_lexs K" if "bound_lexical env supplied_var = Inr l" for l
    using bound_lexical_env[OF that] assms by (auto simp: env_ok_def)
  then show ?thesis
    unfolding bind_supplied_def using assms(2)
    by - (rule keeps_only_if does_if does_attempt does_fetch world_intros2 | (auto; fail))+
qed

lemma keeps_annotate_item:
  assumes "env_ok K env" "ctxt_ok K ctxt" "end_label \<in> w_labels K"
  shows "keeps K (annotate_optional_or_key_item h v sv declares end_label ctxt env)"
proof -
  have one: "keeps K (annotate_one h x declares env k ds)"
    if "\<And>ds. (\<Union>b \<in> set ds. binding_lexs b) \<subseteq> w_lexs K \<Longrightarrow> keeps K (k ds)" "(\<Union>b \<in> set ds. binding_lexs b) \<subseteq> w_lexs K"
    for x k ds
    unfolding annotate_one_def using that found_lexical(1)[OF assms(1), of h x]
    by (auto split: option.splits var_info.splits intro!: does_after[OF keeps_set_declarations])
  have last: "keeps K (only_if (ds \<noteq> []) (with_label (\<lambda>dlabel. steps
        [place ctxt dlabel, debug ctxt dlabel end_label (DebugVars ds)])))"
    if "(\<Union>b \<in> set ds. binding_lexs b) \<subseteq> w_lexs K" for ds
    using that assms
    by - (rule keeps_only_if keeps_labels1 world_intros | (auto simp: weaker_def; fail))+
  show ?thesis
    unfolding annotate_optional_or_key_item_def Let_def
    by (intro one) (auto intro!: one last)
qed

lemma does_using_item_env:
  assumes "env_ok K env" "ctxt_ok K ctxt" "l \<in> w_lexs K"
    and "\<And>e. same_exits env e \<Longrightarrow> env_ok (add_lexs (set (env_lexs e)) K) e \<Longrightarrow>
      does (add_lexs (set (env_lexs e)) K) (k e) s W"
  shows "does K (using_try (item_env h var l sv vsp ssp ctxt env) k) s W"
proof (rule does_using_try[where V = "\<lambda>e. add_lexs (set (env_lexs e)) K"])
  show "does (add_lexs (set (env_lexs e)) K) (k e) s W" if "item_env h var l sv vsp ssp ctxt env c = Inr (c', e)" for c c' e
  proof (rule assms(4))
    from item_env_same that show "same_exits env e" unfolding gives_def by force
    then show "env_ok (add_lexs (set (env_lexs e)) K) e" using assms(1) by (auto simp: env_ok_def exit_labels_same)
  qed
qed (rule does_item_env[OF assms(1-3)])

context subform_compiler
begin

lemma does_item:
  assumes "env_ok K env" "ctxt_ok K ctxt" "l \<in> w_lexs K"
  shows "does K (compile_optional_or_key_item rec h var form l sv vsp ssp ctxt env) fst
    (\<lambda>r. add_lexs (set (env_lexs (snd r))) K)"
  unfolding compile_optional_or_key_item_def using assms
  by - (rule does_with_label does_after does_using_item_env does_yield keeps_only_if does_if does_fetch rec_keeps
      keeps_bind_supplied world_intros2 | (auto simp: weaker_def; fail))+

end

lemma item_same:
  "gives (compile_optional_or_key_item rec h var form l sv vsp ssp ctxt env) (\<lambda>r. same_exits env (snd r))"
  unfolding compile_optional_or_key_item_def using item_env_same
  by (intro gives_intros) (fastforce simp: gives_def)

section \<open>Lambda lists\<close>

text \<open>The lexical infos of both environments of a lambda list.\<close>

definition lambda_world :: "world \<Rightarrow> lambda_state \<Rightarrow> world" where
  "lambda_world K st = add_lexs (set (env_lexs (wl_env st)) \<union> set (env_lexs (wl_optkey st))) K"

definition lambda_ok :: "lexenv \<Rightarrow> lambda_state \<Rightarrow> bool" where
  "lambda_ok env st \<longleftrightarrow> same_exits env (wl_env st) \<and> same_exits env (wl_optkey st)"

lemma lambda_world_env:
  "lambda_ok env st \<Longrightarrow> env_ok K env \<Longrightarrow> env_ok (lambda_world K st) (wl_env st)"
  "lambda_ok env st \<Longrightarrow> env_ok K env \<Longrightarrow> env_ok (lambda_world K st) (wl_optkey st)"
  by (auto simp: lambda_ok_def lambda_world_def env_ok_def exit_labels_same)

lemma lambda_world_more [simp]:
  "env_ok K env \<Longrightarrow> env_ok (lambda_world K st) env" "ctxt_ok K ctxt \<Longrightarrow> ctxt_ok (lambda_world K st) ctxt"
  "w_labels (lambda_world K st) = w_labels K" "w_funs (lambda_world K st) = w_funs K"
  "w_done (lambda_world K st) = w_done K"
  by (simp_all add: lambda_world_def)

lemma required_one_loops:
  assumes e: "env_ok K new_env" and x: "ctxt_ok K ctxt"
  shows "loops rq_comp (\<lambda>_. K) (\<lambda>rq. (\<Union>b \<in> set (rq_debug rq). binding_lexs b) \<subseteq> w_lexs K)
    (bind_required_one h specials declares env new_env ctxt var)"
  unfolding bind_required_one_def[abs_def]
proof (rule loops_store, goal_cases)
  case (1 rq)
  have "l \<in> w_lexs K" if "bound_lexical new_env var = Inr l" for l
    using bound_lexical_env[OF that] e by (auto simp: env_ok_def)
  then show ?case
    using 1 x
    by - (rule does_attempt does_if does_after does_yield does_fetch world_intros2 | (auto; fail))+
next
  case (2 rq)
  have "l \<in> w_lexs K" if "bound_lexical new_env var = Inr l" for l
    using bound_lexical_env[OF that] e by (auto simp: env_ok_def)
  with 2 show ?case by (intro gives_intros) auto
qed

lemma does_required:
  assumes "env_ok K new_env" "ctxt_ok K ctxt"
    and "\<And>rq. (\<Union>b \<in> set (rq_debug rq). binding_lexs b) \<subseteq> w_lexs K \<Longrightarrow> does K (k rq) s W"
  shows "does K (looping (each (bind_required_one h specials declares env new_env ctxt) reqs) req_start rq_comp k) s W"
  by (rule does_looping[OF loops_each[OF required_one_loops[OF assms(1,2)]]]) (auto simp: req_start_def intro: assms(3))

lemma does_lambda_store: "does (lambda_world K t) (yield (\<lambda>c. t\<lparr>wl_comp := c\<rparr>)) wl_comp (lambda_world K)"
  by (rule does_yield) (simp_all add: lambda_world_def)

lemma bind_required_loops:
  assumes e: "env_ok K env" and x: "ctxt_ok K ctxt" and l: "end_label \<in> w_labels K"
  shows "loops wl_comp (lambda_world K) (lambda_ok env) (bind_required h specials declares env1 ctxt end_label reqs)"
  unfolding bind_required_def[abs_def]
proof (rule loops_store, goal_cases)
  case (1 t)
  from lambda_world_env[OF 1 e] x l show ?case
    by - (rule does_if does_lambda_store does_with_label does_after does_required does_attempt does_yield world_intros2 |
        (auto simp: lambda_world_def weaker_def dest: add_specials_vars; fail))+
next
  case (2 t)
  then show ?case
    by (intro gives_intros)
      (auto simp: lambda_ok_def intro: same_exits_trans dest: add_specials_vars)
qed

lemma with_frame_of_lexs:
  "set (env_lexs (with_frame_of optkey e)) \<subseteq> set (env_lexs optkey) \<union> set (env_lexs e)"
proof -
  have lexs: "set (env_lexs x) = {l. \<exists>v. (v, LexicalVarInfo l) \<in> set (vars x)} \<union>
      {l. \<exists>v. (v, LocalFunInfo l) \<in> set (funs x)} \<union>
      (\<lambda>p. block_lex (snd p)) ` set (blocks x) \<union> (\<lambda>p. tag_lex (snd p)) ` set (tags x)" for x
    using env_lexs_sub_vars[of "vars x" "frame_end x" x] unfolding sub_vars_self .
  show ?thesis
    unfolding with_frame_of_def env_lexs_sub_vars lexs[of optkey] lexs[of e] by (intro Un_least) (rule subsetI; simp)+
qed

lemma with_frame_of_lexs_mem:
  "x \<in> set (env_lexs (with_frame_of optkey e)) \<Longrightarrow> x \<in> set (env_lexs optkey) \<or> x \<in> set (env_lexs e)"
  using with_frame_of_lexs by blast

lemma with_frame_of_same:
  "same_exits env env' \<Longrightarrow> same_exits env' optkey \<Longrightarrow> same_exits env (with_frame_of optkey e)"
  by (auto simp: with_frame_of_def intro: same_exits_trans)

lemma does_using_bind_vars:
  assumes "env_ok K env" "ctxt_ok K ctxt"
    and "\<And>env'. same_exits env env' \<Longrightarrow> does (add_lexs (set (env_lexs env')) K) (k env') s W"
  shows "does K (using_try (\<lambda>c. bind_vars g vs ctxt c env) k) s W"
  by (rule does_using_try[where V = "\<lambda>e. add_lexs (set (env_lexs e)) K"])
     (auto intro: does_bind_vars assms bind_vars_same_exits)

lemma bind_optionals_loops:
  assumes e: "env_ok K env" and x: "ctxt_ok K ctxt"
  shows "loops wl_comp (lambda_world K) (lambda_ok env) (bind_optionals h ctxt m opts)"
  unfolding bind_optionals_def[abs_def]
proof (rule loops_store, goal_cases)
  case (1 t)
  from lambda_world_env[OF 1 e] x show ?case
    by - (rule does_if does_after does_using_bind_vars does_yield world_intros |
        (auto simp: lambda_world_def weaker_def dest!: with_frame_of_lexs_mem; fail))+
next
  case (2 t)
  then show ?case
    by (intro gives_intros) (auto simp: lambda_ok_def intro: same_exits_trans with_frame_of_same dest: bind_vars_same_exits)
qed

lemma bind_rest_loops:
  assumes e: "env_ok K env" and x: "ctxt_ok K ctxt" and l: "end_label \<in> w_labels K"
  shows "loops wl_comp (lambda_world K) (lambda_ok env) (bind_rest h specials declares env1 ctxt end_label n rest va)"
  unfolding bind_rest_def[abs_def]
proof (rule loops_store, goal_cases)
  case (1 t)
  from lambda_world_env[OF 1 e] x l show ?case
    by - (rule does_if does_lambda_store does_attempt does_after does_using_bind1var does_yield does_fetch keeps_labels1
          world_intros2 |
        (auto simp: lambda_world_def weaker_def dest: bound_lexical_env add_specials_vars; fail))+
next
  case (2 t)
  then show ?case
    by (intro gives_intros)
       (auto simp: lambda_ok_def intro: same_exits_trans dest: bind1var_same_exits add_specials_vars)
qed

lemma quiet_key_literals [simp]: "quiet c (fst (key_literals ks c))"
  by (induction ks arbitrary: c) (auto simp: split_beta intro: quiet_trans[OF quiet_literals(6)])

lemma keeps_parse_key_args: "keeps K (emit_parse_key_args ctxt a b d e aokp)"
  by (rule does_quiet) (auto intro: quiet_assemble(4))

lemma bind_keys_loops:
  assumes e: "env_ok K env" and x: "ctxt_ok K ctxt"
  shows "loops wl_comp (lambda_world K) (lambda_ok env) (bind_keys h ctxt n a)"
  unfolding bind_keys_def[abs_def]
proof (rule loops_store, goal_cases)
  case (1 t)
  from lambda_world_env[OF 1 e] x show ?case
    by - (rule does_if does_lambda_store does_using_quiet does_after does_using_bind_vars does_yield keeps_parse_key_args |
        (auto simp: lambda_world_def weaker_def dest!: with_frame_of_lexs_mem; fail))+
next
  case (2 t)
  then show ?case
    by (intro gives_intros) (auto simp: lambda_ok_def intro: same_exits_trans with_frame_of_same dest: bind_vars_same_exits)
qed

lemma quiet_new_bindings [simp]: "quiet c (fst (new_bindings bs c))"
proof (induction bs arbitrary: c)
  case (Cons b bs)
  then show ?case
    using quiet_trans[OF quiet_new_list[of c "[fst b, snd b]"] Cons.IH] by (cases b) (simp add: split_beta)
qed simp

text \<open>The entry point of a registered cfunction is a label, to be placed in its own code.\<close>

lemma keeps_place_entry:
  assumes "ctxt_ok K ctxt"
  shows "keeps K (fetch (\<lambda>c. entry_point (cfun_of c (ctxt_cfunction ctxt))) (place ctxt))"
proof (rule doesI)
  fix c r assume "fetch (\<lambda>c. entry_point (cfun_of c (ctxt_cfunction ctxt))) (place ctxt) c = Inr r"
  then have m: "place ctxt (entry_point (cfun_of c (ctxt_cfunction ctxt))) c = Inr r" by (simp add: fetch_def)
  let ?l = "entry_point (cfun_of c (ctxt_cfunction ctxt))"
  have d: "leads (add_label ?l K) (place ctxt ?l) (add_done ?l (add_label ?l K))"
    by (rule leads_place_ctxt) (use assms in simp_all)
  show "mods_ok r \<and> extends c r" if "mods_ok c" using doesD(1,2)[OF d m that] by simp
  show "inv K r" if "mods_ok c" "distinct (slots r)" and i: "inv K c"
  proof -
    have "ctxt_cfunction ctxt \<in> set (mod_cfunctions c)" using i assms by (auto simp: inv_def ctxt_ok_def)
    then have "inv (add_label ?l K) c" using i by (auto simp: inv_def targets_in_def)
    from doesD(3)[OF d m that(1,2) this] show ?thesis by (rule inv_weaker) (auto simp: weaker_def)
  qed
qed

context subform_compiler
begin

lemma does_using_item:
  assumes "env_ok K env" "ctxt_ok K ctxt" "l \<in> w_lexs K"
    and "\<And>e. same_exits env e \<Longrightarrow> env_ok (add_lexs (set (env_lexs e)) K) e \<Longrightarrow>
      does (add_lexs (set (env_lexs e)) K) (k e) s W"
  shows "does K (using_try (compile_optional_or_key_item rec h var form l sv vsp ssp ctxt env) k) s W"
proof (rule does_using_try[where V = "\<lambda>e. add_lexs (set (env_lexs e)) K"])
  show "does (add_lexs (set (env_lexs e)) K) (k e) s W"
    if "compile_optional_or_key_item rec h var form l sv vsp ssp ctxt env c = Inr (c', e)" for c c' e
  proof (rule assms(4))
    from item_same that show "same_exits env e" unfolding gives_def by force
    then show "env_ok (add_lexs (set (env_lexs e)) K) e" using assms(1) by (auto simp: env_ok_def exit_labels_same)
  qed
qed (rule does_item[OF assms(1-3)])

lemma default_item_loops:
  assumes e: "env_ok K env0" and x: "ctxt_ok K ctxt" and l: "end_label \<in> w_labels K"
  shows "loops wl_comp (lambda_world K) (lambda_ok env0) (default_item rec h specials declares env ctxt end_label item)"
  unfolding default_item_def[abs_def] split_beta Let_def
proof (rule loops_store, goal_cases)
  case (1 t)
  note w = lambda_world_env[OF 1 e]
  from w x l found_lexical(3)[OF w(2)] show ?case
    by - (rule does_attempt does_using_item does_after does_yield keeps_annotate_item |
        (auto simp: lambda_world_def weaker_def; fail))+
next
  case (2 t)
  have same: "same_exits (wl_env t) e"
    if "compile_optional_or_key_item rec h v f l sv a b ctxt (wl_env t) c = Inr (c', e)" for v f l sv a b c c' e
    using that item_same unfolding gives_def by force
  from 2 show ?case
    by (intro gives_intros) (auto simp: lambda_ok_def dest: same intro: same_exits_trans)
qed

lemma aux_and_body_keeps:
  assumes "env_ok K env" "ctxt_ok K ctxt"
  shows "keeps K (compile_aux_and_body rec h auxs declares code env ctxt)"
  unfolding compile_aux_and_body_def
  by (intro does_using_quiet letSTAR_keeps assms) simp_all

lemma parameters_loop:
  assumes "env_ok K env0" "ctxt_ok K ctxt" "end_label \<in> w_labels K"
  shows "loops wl_comp (lambda_world K) (lambda_ok env0) (bind_parameters rec h pb a env ctxt end_label)"
  unfolding bind_parameters_def[abs_def] Let_def
  by (intro loops_then loops_each bind_required_loops bind_optionals_loops bind_rest_loops bind_keys_loops
      default_item_loops assms)

lemma leads_parameters:
  assumes "env_ok K env0" "ctxt_ok K ctxt" "end_label \<in> w_labels K"
    and "\<And>t. env_ok (lambda_world K t) (wl_env t) \<Longrightarrow> leads (lambda_world K t) (k t) (J t)" "\<And>t. weaker I (J t)"
  shows "leads K (looping (bind_parameters rec h pb a env ctxt end_label) (lambda_start env0) wl_comp k) I"
  by (rule leads_looping[OF parameters_loop[OF assms(1-3)] _ _ _ assms(4,5)])
    (use assms(1) in \<open>auto simp: lambda_start_def lambda_ok_def lambda_world_def weaker_def env_ok_def exit_labels_same\<close>)

lemma keeps_check_arg_count: "keeps K (check_arg_count ctxt a b m)"
  unfolding check_arg_count_def by (rule does_if keeps_only_if world_intros)+

lemma with_lambda_list_keeps:
  assumes e: "env_ok K env" and x: "ctxt_ok K ctxt"
  shows "keeps K (compile_with_lambda_list rec h lambda_list body env ctxt)"
  unfolding compile_with_lambda_list_def Let_def using e x
  by - (rule does_attempt does_with_label does_using_bind_vars does_after leads_parameters keeps_place_entry
      keeps_check_arg_count aux_and_body_keeps world_intros |
      (auto simp: lambda_world_def weaker_def env_ok_def exit_labels_same; fail))+

end

end
