(* ===== verification/WorldFunctions.thy ===== *)
theory WorldFunctions
  imports WorldLambdas
begin

text \<open>
  Lambda expressions, function references and local functions in a world.
\<close>

section \<open>Rules\<close>

lemma does_using_cfunction:
  assumes "\<And>f. does (add_fun f K) (k f) s W"
  shows "does K (using_new (new_cfunction name doc oll loc) k) s W"
proof (rule does_using_new[where V = "\<lambda>f. add_fun f K"])
  have "(\<lambda>c. Inr (new_cfunction name doc oll loc c) :: cerror + comp \<times> nat) =
      (\<lambda>c. case cfunction_make name doc oll loc c of (c', f) \<Rightarrow> Inr (register_cfunction f c', f))"
    by (simp add: new_cfunction_def fun_eq_iff split: prod.splits)
  with does_new_cfunction show "does K (\<lambda>c. Inr (new_cfunction name doc oll loc c)) fst (\<lambda>r. add_fun (snd r) K)" by simp
qed (rule assms)

lemma attempt_Inr: "attempt (Inr x) k = k x"
  by (simp add: fun_eq_iff attempt_def)

lemma does_lambda_name: "(\<And>x. does K (k x) s W) \<Longrightarrow> does K (lambda_name h ds oll k) s W"
  unfolding lambda_name_def by (intro does_attempt does_if does_using_quiet quiet_new_list)

lemma does_definition_body: "(\<And>a b d. does K (k a b d) s W) \<Longrightarrow> does K (definition_body h name defn k) s W"
  unfolding definition_body_def by (intro does_attempt does_using_quiet quiet_new_list quiet_new_cons)

lemma does_using_index: "f \<in> w_funs K \<Longrightarrow> (\<And>i. does K (k i) s W) \<Longrightarrow> does K (using_new (cfunction_index f) k) s W"
  by (rule does_using_new[where V = "\<lambda>_. K"]) (auto intro: does_cfunction_index)

text \<open>What a cfunction closes over exists.\<close>

lemma does_fetch_closed:
  assumes f: "f \<in> w_funs K" and k: "\<And>cl. does (add_lexs (set cl) K) (k cl) s W"
  shows "does K (fetch (\<lambda>c. closed (cfun_of c f)) k) s W"
proof (rule doesI)
  fix c r assume "fetch (\<lambda>c. closed (cfun_of c f)) k c = Inr r"
  then have m: "k (closed (cfun_of c f)) c = Inr r" by (simp add: fetch_def)
  note d = doesD[OF k m]
  then show "mods_ok c \<Longrightarrow> mods_ok (s r) \<and> extends c (s r)" by simp
  show "inv (W r) (s r)" if "mods_ok c" "distinct (slots (s r))" and i: "inv K c"
  proof -
    have "f < length (cfuns c)" using i f that(1) by (auto simp: inv_def mods_ok_def)
    then have "\<forall>l \<in> set (closed (cfun_of c f)). l < length (lexs c)"
      using i by (auto simp: inv_def typed_def cfun_of_def)
    then have "inv (add_lexs (set (closed (cfun_of c f))) K) c" using i by (auto simp: inv_def)
    with d(3) that show ?thesis by blast
  qed
qed

lemma leads_fetch_closed:
  "f \<in> w_funs K \<Longrightarrow> (\<And>cl. leads (add_lexs (set cl) K) (k cl) (J cl)) \<Longrightarrow> (\<And>cl. weaker I (J cl)) \<Longrightarrow>
   leads K (fetch (\<lambda>c. closed (cfun_of c f)) k) I"
  by (rule does_fetch_closed) (auto intro: leads_weaken)

lemma env_ok_frame_end [simp]: "env_ok K (env\<lparr>frame_end := n\<rparr>) = env_ok K env"
  by (simp add: env_ok_def env_lexs_def exit_labels_def tagInfo_def blockInfo_def)

lemma ctxt_ok_lambda [simp]: "f \<in> w_funs K \<Longrightarrow> ctxt_ok K (lambda_ctxt f loc)"
  by (simp add: ctxt_ok_def lambda_ctxt_def de_lexs_def)

lemma keeps_reference_each: "set cl \<subseteq> w_lexs K \<Longrightarrow> keeps K (each (reference_lexical_info ctxt) cl)"
  by (rule keeps_each) (auto intro: keeps_reference)

section \<open>Lambda expressions\<close>

context subform_compiler
begin

lemma does_lambda:
  assumes e: "env_ok K env"
  shows "does K (compile_lambda rec h lambda_list body env loc) fst (\<lambda>r. add_fun (snd r) K)"
proof (cases "extract_declares_docstring_code_specials h True body")
  case (Inl x)
  then show ?thesis by (simp add: does_def compile_lambda_def with_label_def using_new_def attempt_def split_beta)
next
  case (Inr pb)
  show ?thesis
  proof (cases "pb_declares pb @ decls env \<noteq> [] \<or> loc \<noteq> LNil")
    case True
    show ?thesis
      unfolding compile_lambda_def Inr attempt_Inr Let_def eqTrueI[OF True] only_if_simps using e
      by - (rule does_with_label does_attempt does_lambda_name does_using_cfunction does_after does_yield keeps_only_if
          with_lambda_list_keeps world_intros | (auto simp: weaker_def; fail))+
  next
    case False
    show ?thesis
      unfolding compile_lambda_def Inr attempt_Inr Let_def eq_False[THEN iffD2, OF False] only_if_simps using e
      by - (rule does_label_unused does_attempt does_lambda_name does_using_cfunction does_after does_yield
          with_lambda_list_keeps world_intros | (auto simp: weaker_def; fail))+
  qed
qed

lemma does_using_lambda:
  "env_ok K env \<Longrightarrow> (\<And>f. does (add_fun f K) (k f) s W) \<Longrightarrow>
   does K (using_try (compile_lambda rec h lambda_list body env loc) k) s W"
  by (rule does_using_try[where V = "\<lambda>f. add_fun f K", OF does_lambda])

lemma lambda_reference_keeps:
  assumes "env_ok K env" "ctxt_ok K ctxt"
  shows "keeps K (lambda_reference rec h fnameoid env ctxt)"
  unfolding lambda_reference_def using assms
  by - (rule does_attempt does_using_lambda leads_fetch_closed keeps_reference_each does_using_index world_intros |
      (auto simp: weaker_def; fail))+

end

text \<open>A name stands for a local function or a global one.\<close>

lemma keeps_name_reference:
  assumes e: "env_ok K env"
  shows "keeps K (name_reference opc h fnameoid env ctxt)"
  unfolding name_reference_def
proof (rule does_attempt)
  fix info assume i: "fun_info_v (h_genv h) fnameoid env = Inr info"
  have fcell: "keeps K (using_new (fcell_index fnameoid) (opcode1 ctxt opc))"
    by (rule does_using_quiet) simp_all
  show "keeps K (case info of
         Some (LocalFunInfo l) \<Rightarrow>
           steps [always (mark_read l), maybe_warn_used fnameoid l (source_info ctxt) True,
                  reference_lexical_info ctxt l]
       | Some (GlobalFunInfo _) \<Rightarrow> using_new (fcell_index fnameoid) (opcode1 ctxt opc)
       | None \<Rightarrow>
           steps [only_if (h_register_hook h \<and> \<not> code_walking_p h)
                    (report (RegisterGlobalRef fnameoid (source_info ctxt))),
                  using_new (fcell_index fnameoid) (opcode1 ctxt opc)]
       | _ \<Rightarrow> (\<lambda>_. Inl (NotAFunctionName fnameoid)))"
    using fcell i found_function(1)[OF e, of "h_genv h" fnameoid]
    by (cases info rule: option.exhaust[case_product fun_info.exhaust])
       (auto intro!: keeps_only_if world_intros2 split: fun_info.splits)
qed

context subform_compiler
begin

lemma function_keeps:
  assumes "env_ok K env" "ctxt_ok K ctxt"
  shows "keeps K (compile_function rec h fnameoid env ctxt)"
    "keeps K (compile_called_function rec h fnameoid env ctxt)"
    "keeps K (compile_fdesignator rec h fnameoid env ctxt)"
proof -
  note k = lambda_reference_keeps[OF assms] keeps_name_reference[OF assms(1)]
  show "keeps K (compile_function rec h fnameoid env ctxt)"
    unfolding compile_function_def by (rule does_if k world_intros2)+
  show c: "keeps K (compile_called_function rec h fnameoid env ctxt)" for fnameoid
    unfolding compile_called_function_def by (rule does_if k)+
  show "keeps K (compile_fdesignator rec h fnameoid env ctxt)"
    unfolding compile_fdesignator_def using assms
    by - (rule does_if does_attempt c rec_keeps does_using_quiet quiet_literals world_intros | simp)+
qed

end

section \<open>Local functions\<close>

definition fun_world :: "world \<Rightarrow> fun_state \<Rightarrow> world" where
  "fun_world K st = K\<lparr>w_lexs := (\<Union>b \<in> set (fs_debug st). binding_lexs b) \<union> w_lexs K,
     w_funs := fst ` set (fs_closures st) \<union> w_funs K\<rparr>"

lemma fun_world_fields [simp]:
  "w_labels (fun_world K st) = w_labels K" "w_done (fun_world K st) = w_done K"
  "w_lexs (fun_world K st) = (\<Union>b \<in> set (fs_debug st). binding_lexs b) \<union> w_lexs K"
  "w_funs (fun_world K st) = fst ` set (fs_closures st) \<union> w_funs K"
  by (simp_all add: fun_world_def)

lemma fun_world_more [simp]:
  "env_ok K env \<Longrightarrow> env_ok (fun_world K st) env" "ctxt_ok K ctxt \<Longrightarrow> ctxt_ok (fun_world K st) ctxt"
  by (auto simp: env_ok_def ctxt_ok_def)

lemma fun_start_comp [simp]: "fs_comp (fun_start c) = c"
  by (simp add: fun_start_def)

lemma fun_world_start [simp]: "weaker (fun_world K (fun_start c)) K"
  by (simp add: weaker_def fun_start_def)

lemma does_using_decls_for_fun:
  "(\<And>ds. does K (k ds) s W) \<Longrightarrow> does K (using_try (decls_for_fun name declares) k) s W"
  by (rule does_using_try[where V = "\<lambda>_. K"])
     (rule does_quiet, auto simp: decls_for_fun_def dest: quiet_collect_decls)

lemma does_record_function:
  assumes "l \<in> w_lexs J" "fst ` set cls \<subseteq> w_funs J" "weaker (fun_world K st) J"
  shows "does J (record_function h declares ctxt defn name l cls st) fs_comp (fun_world K)"
  unfolding record_function_def using assms
  by - (rule does_using_quiet quiet_new_list does_attempt does_using_decls_for_fun does_after does_yield world_intros |
      (auto simp: weaker_def; fail))+

lemma does_using_bind_funs:
  assumes "env_ok K env" "ctxt_ok K ctxt"
    and "\<And>env'. same_exits env env' \<Longrightarrow> env_ok (add_lexs (set (env_lexs env')) K) env' \<Longrightarrow>
      does (add_lexs (set (env_lexs env')) K) (k env') s W"
  shows "does K (using_new (\<lambda>c. bind_funs fs ctxt c env) k) s W"
proof (rule does_using_new[where V = "\<lambda>e. add_lexs (set (env_lexs e)) K"])
  show "does (add_lexs (set (env_lexs e)) K) (k e) s W" if "bind_funs fs ctxt c env = (c', e)" for c c' e
  proof (rule assms(3))
    show "same_exits env e" by (rule bind_funs_same_exits[OF that])
    then show "env_ok (add_lexs (set (env_lexs e)) K) e" using assms(1) by (auto simp: env_ok_def exit_labels_same)
  qed
qed (rule does_bind_funs[OF assms(1,2)])

lemma only_if_true: "b \<Longrightarrow> leads K m J \<Longrightarrow> leads K (only_if b m) J"
  by simp

lemma only_if_false: "\<not> b \<Longrightarrow> keeps K (only_if b m)"
  by simp

lemma flet_record_loops:
  assumes "env_ok K new_env"
  shows "loops fs_comp (fun_world K) (\<lambda>_. True) (flet_record h declares new_env ctxt x)"
  unfolding flet_record_def[abs_def]
  using found_lexical(4)[OF assms] by (intro loops_store does_attempt does_record_function) (auto simp: gives_def)

text \<open>A definition was recorded when there is one.\<close>

lemma record_function_debug: "gives (record_function h declares ctxt defn name l cls st) (\<lambda>t. fs_debug t \<noteq> [])"
  unfolding record_function_def by (intro gives_intros) simp_all

lemma flet_record_debug: "flet_record h declares e ctxt x st = Inr t \<Longrightarrow> fs_debug t \<noteq> []"
  using record_function_debug by (auto simp: flet_record_def attempt_def bind_res_Inr_iff gives_def)

lemma flet_records_debug:
  "for_each (flet_record h declares e ctxt) ds (fun_start c) = Inr t \<Longrightarrow> fs_debug t \<noteq> [] \<longleftrightarrow> ds \<noteq> LNil"
proof (cases ds)
  case (LCons i a d)
  assume "for_each (flet_record h declares e ctxt) ds (fun_start c) = Inr t"
  then obtain u where u: "flet_record h declares e ctxt a (fun_start c) = Inr u"
    "for_each (flet_record h declares e ctxt) d u = Inr t"
    by (auto simp: LCons for_each_def bind_res_Inr_iff)
  have "fs_debug u \<noteq> [] \<longrightarrow> fs_debug t \<noteq> []"
    by (rule for_each_induct_rel[OF u(2)]) (auto dest: flet_record_debug)
  with flet_record_debug[OF u(1)] show ?thesis by (simp add: LCons)
qed (auto simp: for_each_def fun_start_def)

lemma leads_flet_records:
  assumes "env_ok K new_env"
    and "\<And>t. fs_debug t \<noteq> [] \<longleftrightarrow> ds \<noteq> LNil \<Longrightarrow> leads (fun_world K t) (k t) (J t)" "\<And>t. weaker I (J t)"
  shows "leads K (looping (for_each (flet_record h declares new_env ctxt) ds) fun_start fs_comp k) I"
proof (rule does_looping_done[OF loops_for_each[OF flet_record_loops[OF assms(1)]] _ _ _ flet_records_debug])
  show "leads (fun_world K t) (k t) I" if "fs_debug t \<noteq> [] \<longleftrightarrow> ds \<noteq> LNil" for t
    by (rule leads_weaken[OF assms(2)[OF that] assms(3)])
qed simp_all

lemma keeps_initialize_closure:
  "fst cf \<in> w_funs K \<Longrightarrow> keeps K (initialize_closure ctxt cf)"
  unfolding initialize_closure_def
  by (rule leads_fetch_closed keeps_reference_each world_intros | (auto simp: weaker_def; fail))+

lemma keeps_initialize_closures: "fst ` set cls \<subseteq> w_funs K \<Longrightarrow> keeps K (each (initialize_closure ctxt) cls)"
  by (rule keeps_each) (auto intro: keeps_initialize_closure)

context subform_compiler
begin

lemma flet_definition_loops:
  assumes "env_ok K env" "ctxt_ok K ctxt"
  shows "loops fs_comp (\<lambda>_. K) (\<lambda>_. True) (flet_definition rec h env ctxt x)"
  unfolding flet_definition_def[abs_def]
proof (rule loops_store, goal_cases)
  case (1 t)
  from assms show ?case
    by - (rule does_attempt does_definition_body does_using_quiet quiet_new_list does_after does_yield function_keeps |
        (simp; fail))+
qed (simp add: gives_def)

lemma flet_keeps:
  assumes e: "env_ok K env" and x: "ctxt_ok K ctxt"
  shows "keeps K (compile_flet rec h definitions body env ctxt)"
  unfolding compile_flet_def
proof (rule does_attempt, rule does_looping[OF loops_for_each[OF flet_definition_loops[OF assms]]], goal_cases)
  case (4 pb t)
  show ?case
  proof (rule does_after, rule keeps_emit_calls, rule does_using_bind_funs[OF assms], goal_cases)
    case (1 new_env)
    let ?K = "add_lexs (set (env_lexs new_env)) K"
    show ?case
    proof (cases "definitions = LNil")
      case True
      with 1 x show ?thesis
        by - (rule does_label_unused does_after leads_flet_records only_if_false locally_keeps world_intros |
            (auto simp: weaker_def; fail))+
    next
      case False
      with 1 x show ?thesis
        by - (rule does_with_label does_after leads_flet_records only_if_true locally_keeps world_intros |
            (auto simp: weaker_def; fail))+
    qed
  qed
qed simp_all

lemma labels_definition_loops:
  assumes "env_ok K new_env" "ctxt_ok K ctxt"
  shows "loops fs_comp (fun_world K) (\<lambda>_. True) (labels_definition rec h declares new_env ctxt defn)"
  unfolding labels_definition_def[abs_def]
proof (rule loops_store, goal_cases)
  case (1 t)
  have local: "does J (case info of Some (LocalFunInfo l) \<Rightarrow> k l | _ \<Rightarrow> (\<lambda>_. Inl UnreachableBranch)) s W"
    if "fun_info (h_genv h) (oCar defn) new_env = Inr info" "\<And>l. l \<in> w_lexs K \<Longrightarrow> does J (k l) s W"
    for J info k s W
    using that found_function(2)[OF assms(1)] by (auto split: option.splits fun_info.splits)
  from assms show ?case
    by - (rule does_definition_body does_using_quiet quiet_new_list does_using_lambda does_using_index does_attempt local
        does_fetch does_after does_record_function world_intros | assumption | simp only: split_beta |
        (auto simp: weaker_def; fail))+
qed (simp add: gives_def)

lemma leads_labels_definitions:
  assumes "env_ok K new_env" "ctxt_ok K ctxt"
    and "\<And>t. leads (fun_world K t) (k t) (J t)" "\<And>t. weaker I (J t)"
  shows "leads K (looping (for_each (labels_definition rec h declares new_env ctxt) ds) fun_start fs_comp k) I"
  by (rule leads_looping[OF loops_for_each[OF labels_definition_loops[OF assms(1,2)]] _ _ _ assms(3,4)]) simp_all

lemma labels_keeps:
  assumes "env_ok K env" "ctxt_ok K ctxt"
  shows "keeps K (compile_labels rec h definitions body env ctxt)"
  unfolding compile_labels_def using assms
  by - (rule does_attempt does_with_label does_using_bind_funs leads_labels_definitions keeps_only_if
      keeps_initialize_closures locally_keeps world_intros | (auto simp: weaker_def; fail))+

end

end
