(* ===== verification/WorldControl.thy ===== *)
theory WorldControl
  imports WorldFunctions
begin

text \<open>
  Assignments, exits, blocks and tagbodies, multiple values and calls in a world.
\<close>

section \<open>Exits\<close>

lemma keeps_unwind:
  "de_lexs ds \<subseteq> w_lexs K \<Longrightarrow> ctxt_ok K ctxt \<Longrightarrow> keeps K (unwind_interposed ctxt de ds)"
proof (induction ds)
  case Nil
  have "unwind_interposed ctxt de [] = Inr" by (simp add: fun_eq_iff)
  then show ?case by simp
next
  case (Cons d ds)
  then have IH: "keeps K (unwind_interposed ctxt de ds)" by (auto simp: de_lexs_def)
  show ?case
  proof (cases d)
    case (DeLex l)
    then have l: "l \<in> w_lexs K" using Cons.prems by (auto simp: de_lexs_def)
    have "unwind_interposed ctxt de (d # ds) = (if l = de then Inr
        else after (always (maybe_emit_entry_close ctxt l)) (unwind_interposed ctxt de ds))"
      by (simp add: DeLex fun_eq_iff after_def always_def)
    then show ?thesis using IH l Cons.prems(2) by (auto intro!: does_after keeps_fixups)
  next
    case (DeBindings n)
    have "unwind_interposed ctxt de (d # ds) = after (always (emit_unbind ctxt n)) (unwind_interposed ctxt de ds)"
      by (simp add: DeBindings fun_eq_iff after_def always_def)
    then show ?thesis using IH by (auto intro!: does_after keeps_marks)
  next
    case (DeOther x)
    then show ?thesis by (simp add: does_def)
  qed
qed

lemma keeps_exit:
  assumes "ctxt_ok K ctxt" "de \<in> w_lexs K" "lab \<in> w_labels K"
  shows "keeps K (compile_exit de lab ctxt)"
  unfolding compile_exit_def using assms
  by - (rule does_fetch does_if keeps_unwind world_intros2 | (auto simp: ctxt_ok_def; fail))+

lemma go_keeps:
  assumes "env_ok K env" "ctxt_ok K ctxt"
  shows "keeps K (compile_go tag env ctxt)"
proof (cases "tagInfo env tag")
  case (Some info)
  show ?thesis
    unfolding compile_go_def Some option.case using assms found_exit(1)[OF assms(1) Some]
    by - (rule keeps_labels2 keeps_exit world_intros | (auto simp: weaker_def; fail))+
qed (simp add: compile_go_def)

lemma does_using_bind_block:
  assumes "env_ok K env" "ctxt_ok K ctxt" "lab \<in> w_labels K"
    and "\<And>e. env_ok (add_lexs (set (env_lexs e)) K) e \<Longrightarrow> does (add_lexs (set (env_lexs e)) K) (k e) s W"
  shows "does K (using_new (\<lambda>c. bind_block name lab ctxt c env) k) s W"
proof (rule does_using_new[where V = "\<lambda>e. add_lexs (set (env_lexs e)) K"])
  show "does (add_lexs (set (env_lexs e)) K) (k e) s W" if "bind_block name lab ctxt c env = (c', e)" for c c' e
    by (rule assms(4)) (use bind_block_exits[OF that] assms(1,3) in \<open>auto simp: env_ok_def\<close>)
qed (rule does_bind_block[OF assms(1,2)])

lemma found_block_env: "found_block env n = Inr b \<Longrightarrow> block_lex b \<in> set (env_lexs env)"
proof -
  assume "found_block env n = Inr b"
  then obtain p where "p \<in> set (blocks env)" "b = snd p"
    by (auto simp: found_block_def blockInfo_def split: option.splits if_splits dest: alist_assoc_equal_mem)
  then show ?thesis by (simp add: env_lexs_def)
qed

section \<open>Tags\<close>

fun statement_tags :: "host \<Rightarrow> lisp \<Rightarrow> lisp set" where
  "statement_tags h (LCons _ a d) = (if go_tag_p h a then {a} else {}) \<union> statement_tags h d"
| "statement_tags h _ = {}"

lemma tagbody_tags_set: "tagbody_tags h statements = Inr ts \<Longrightarrow> set ts = statement_tags h statements"
proof -
  have "for_conses (\<lambda>cur ts. Inr (if go_tag_p h (oCar cur) then ts @ [oCar cur] else ts)) x acc = Inr r \<Longrightarrow>
      set r = set acc \<union> statement_tags h x" for x acc r
    by (induction x arbitrary: acc) (auto split: if_splits)
  from this[of statements "[]" ts] show "tagbody_tags h statements = Inr ts \<Longrightarrow> ?thesis"
    by (simp add: tagbody_tags_def for_each_def)
qed

lemma tag_label_exit: "tag_label env t = Inr l \<Longrightarrow> l \<in> exit_labels env"
  by (auto simp: tag_label_def exit_labels_def split: option.splits)

lemma debug_tags_labels:
  assumes "debug_tags env ts = Inr ds"
  shows "(\<Union>t \<in> set ds. tag_labels t) \<subseteq> exit_labels env"
proof -
  have "(\<Union>t \<in> set ([] :: debug_tag list). tag_labels t) \<subseteq> exit_labels env \<longrightarrow> ?thesis"
    by (rule each_induct_rel[OF assms[unfolded debug_tags_def],
          where R = "\<lambda>xs ys. (\<Union>t \<in> set xs. tag_labels t) \<subseteq> exit_labels env \<longrightarrow> (\<Union>t \<in> set ys. tag_labels t) \<subseteq> exit_labels env"])
       ((auto simp: bind_res_Inr_iff)[3], (blast intro: tag_label_exit)+)
  then show ?thesis by simp
qed

lemma exit_labelsI:
  "tagInfo env t = Some i \<Longrightarrow> tag_exit i \<in> exit_labels env"
  "blockInfo env n = Some b \<Longrightarrow> block_exit b \<in> exit_labels env"
  by (auto simp: exit_labels_def)

text \<open>Every exit of the new environment is an older one or the label of a tag of the tagbody.\<close>

lemma bind_tags_exits:
  assumes b: "bind_tags ts de ctxt c env = (c', env')" "ts \<noteq> []" and e: "env_ok K env" "de \<in> w_lexs K"
  shows "exit_labels env' \<subseteq> {l. \<exists>t \<in> set ts. tag_label env' t = Inr l} \<union> w_labels K"
    "env_ok (add_labels (exit_labels env') K) env'"
proof -
  from bind_tags_eq[OF b] obtain new where new: "tags env' = new @ tags env" "fst ` set new = set ts"
    "blocks env' = blocks env" "set (env_lexs env') \<subseteq> insert de (set (env_lexs env))" by metis
  show "env_ok (add_labels (exit_labels env') K) env'" using new(4) e by (auto simp: env_ok_def)
  have "blockInfo env' = blockInfo env" by (simp add: fun_eq_iff blockInfo_def new(3))
  then have old: "l \<in> w_labels K" if "blockInfo env' n = Some i" "l = block_exit i" for n i l
    using that e(1) exit_labelsI(2)[of env n i] by (auto simp: env_ok_def)
  show "exit_labels env' \<subseteq> {l. \<exists>t \<in> set ts. tag_label env' t = Inr l} \<union> w_labels K"
  proof
    fix l assume "l \<in> exit_labels env'"
    then consider t i where "tagInfo env' t = Some i" "l = tag_exit i" | "l \<in> w_labels K"
      using old by (auto simp: exit_labels_def)
    then show "l \<in> {l. \<exists>t \<in> set ts. tag_label env' t = Inr l} \<union> w_labels K"
    proof cases
      case 1
      then obtain p where p: "alist_assoc_equal (new @ tags env) t = Some p" "i = snd p"
        by (auto simp: tagInfo_nonempty new(1))
      show ?thesis
      proof (cases "alist_assoc_equal new t")
        case None
        with p have "tagInfo env t = Some i" by (simp add: tagInfo_nonempty alist_assoc_equal_append)
        with 1 e(1) exit_labelsI(1)[of env t i] show ?thesis by (auto simp: env_ok_def)
      next
        case (Some q)
        with p have q: "q = p" by (simp add: alist_assoc_equal_append)
        with Some have "fst p \<in> set ts" "equal_lisp (fst p) t"
          using new(2) alist_assoc_equal_mem alist_assoc_equal_key by blast+
        moreover have "tagInfo env' (fst p) = tagInfo env' t"
          by (simp only: tagInfo_nonempty alist_assoc_equal_cong[OF calculation(2)])
        ultimately show ?thesis using 1 by (auto simp: tag_label_def intro!: bexI[of _ "fst p"])
      qed
    qed simp
  qed
qed

lemma leads_bind_tags:
  assumes "env_ok K env" "ts \<noteq> []" "de \<in> w_lexs K"
    and "\<And>e. env_ok (add_labels (exit_labels e) K) e \<Longrightarrow>
      exit_labels e \<subseteq> {l. \<exists>t \<in> set ts. tag_label e t = Inr l} \<union> w_labels K \<Longrightarrow>
      leads (add_labels (exit_labels e) K) (k e) I"
  shows "leads K (using_new (\<lambda>c. bind_tags ts de ctxt c env) k) I"
  by (rule does_using_new[where V = "\<lambda>e. add_labels (exit_labels e) K"])
     (rule does_bind_tags[OF assms(1-3)], use bind_tags_exits[OF _ assms(2,1,3)] assms(4) in blast)

lemma leads_new_lex:
  assumes "f \<in> w_funs K" "\<And>l. leads (add_lexs {l} K) (k l) I"
  shows "leads K (using_new (new_lex (lexical_info_make i f)) k) I"
  by (rule does_using_new[where V = "\<lambda>l. add_lexs {l} K"]) (use does_new_lex assms in auto)

text \<open>The statements place the labels of their tags.\<close>

definition add_dones :: "nat set \<Rightarrow> world \<Rightarrow> world" where
  "add_dones N K = K\<lparr>w_done := N \<union> w_done K\<rparr>"

lemma add_dones_fields [simp]:
  "w_labels (add_dones N K) = w_labels K" "w_lexs (add_dones N K) = w_lexs K"
  "w_funs (add_dones N K) = w_funs K" "w_done (add_dones N K) = N \<union> w_done K"
  by (simp_all add: add_dones_def)

lemma add_dones_empty [simp]: "add_dones {} K = K"
  by (simp add: add_dones_def)

lemma ok_add_more [simp]:
  "ctxt_ok K ctxt \<Longrightarrow> ctxt_ok (add_labels N K) ctxt" "ctxt_ok K ctxt \<Longrightarrow> ctxt_ok (add_dones N K) ctxt"
  "env_ok K env \<Longrightarrow> env_ok (add_labels N K) env" "env_ok K env \<Longrightarrow> env_ok (add_dones N K) env"
  by (auto simp: ctxt_ok_def env_ok_def)

lemma world_eq_weaker:
  "w_labels J = w_labels K \<Longrightarrow> w_lexs J = w_lexs K \<Longrightarrow> w_funs J = w_funs K \<Longrightarrow> w_done J \<subseteq> w_done K \<Longrightarrow> weaker J K"
  by (auto simp: weaker_def)

context subform_compiler
begin

lemma tagbody_statements:
  assumes "env_ok K nenv" "ctxt_ok K ctxt"
  shows "leads K (for_each (tagbody_statement rec h nenv ctxt) x)
    (add_dones {l. \<exists>t \<in> statement_tags h x. tag_label nenv t = Inr l} K)"
  unfolding for_each_def using assms
proof (induction x arbitrary: K)
  case (LCons i a d)
  let ?f = "\<lambda>cur. tagbody_statement rec h nenv ctxt (oCar cur)"
  let ?D = "if go_tag_p h a then {l. tag_label nenv a = Inr l} else {}"
  have eq: "for_conses ?f (LCons i a d) = after (tagbody_statement rec h nenv ctxt a) (for_conses ?f d)"
    by (simp add: fun_eq_iff after_def)
  have "leads K (tagbody_statement rec h nenv ctxt a) (add_dones ?D K)"
  proof (cases "go_tag_p h a")
    case True
    show ?thesis
      unfolding tagbody_statement_def using True
    proof (simp, intro does_attempt)
      fix l assume l: "tag_label nenv a = Inr l"
      then have "l \<in> w_labels K" using LCons.prems(1) tag_label_exit by (auto simp: env_ok_def)
      with LCons.prems(2) have "leads K (place ctxt l) (add_done l K)" by (simp add: leads_place_ctxt)
      then show "leads K (place ctxt l) (add_dones {l. tag_label nenv a = Inr l} K)"
        by (rule leads_weaken) (use l in \<open>auto intro: world_eq_weaker\<close>)
    qed
  next
    case False
    then show ?thesis
      using leads_weaken[OF rec_keeps[OF LCons.prems, of a]]
      by (simp add: tagbody_statement_def world_eq_weaker)
  qed
  moreover have "leads (add_dones ?D K) (for_conses ?f d)
      (add_dones {l. \<exists>t \<in> statement_tags h d. tag_label nenv t = Inr l} (add_dones ?D K))"
    by (rule LCons.IH(2)) (use LCons.prems in \<open>simp_all add: env_ok_def ctxt_ok_def\<close>)
  ultimately have "leads K (for_conses ?f (LCons i a d))
      (add_dones {l. \<exists>t \<in> statement_tags h d. tag_label nenv t = Inr l} (add_dones ?D K))"
    unfolding eq by (rule does_after)
  then show ?case by (rule leads_weaken) (auto intro: world_eq_weaker)
qed (auto simp: does_def)

lemma tagbody_keeps:
  assumes e: "env_ok K env" and x: "ctxt_ok K ctxt"
  shows "keeps K (compile_tagbody rec h statements env ctxt)"
proof (cases "tagbody_tags h statements")
  case (Inl r)
  then show ?thesis by (simp add: does_def compile_tagbody_def with_label_def using_new_def attempt_def split_beta)
next
  case (Inr ts)
  have nil: "keeps J (nil_value ctxt)" for J
    unfolding nil_value_def by (rule keeps_only_if keeps_pop_for_values world_intros)+
  show ?thesis
  proof (cases "ts = []")
    case True
    show ?thesis
      unfolding compile_tagbody_def Inr attempt_Inr eqTrueI[OF True] if_True using e x
      by - (rule does_label_unused keeps_for_each rec_keeps nil world_intros | (auto; fail))+
  next
    case False
    show ?thesis
      unfolding compile_tagbody_def Inr attempt_Inr eq_False[THEN iffD2, OF False] if_False Let_def
    proof (rule keeps_labels2, rule leads_steps)
      fix l m
      let ?K = "add_label m (add_label l K)"
      show "leads ?K (using_new (new_lex (lexical_info_make (frame_end env) (ctxt_cfunction ctxt))) (\<lambda>de.
            using_new (\<lambda>c. bind_tags ts de ctxt c env) (\<lambda>nenv.
            attempt (debug_tags nenv ts) (\<lambda>dtags. steps
                [always (emit_entry_or_save_sp ctxt de),
                 place ctxt l,
                 debug ctxt l m (AstTagbody dtags),
                 for_each (tagbody_statement rec h nenv (sub_receiving 0 (sub_de (DeLex de) ctxt))) statements,
                 place ctxt m,
                 always (maybe_emit_entry_close (sub_receiving 0 (sub_de (DeLex de) ctxt)) de)]))))
          (add_done m (add_done l ?K))"
      proof (rule leads_new_lex, simp add: ctxt_ok_fun[OF x], rule leads_bind_tags[OF _ False])
        fix de nenv dtags
        let ?J = "add_labels (exit_labels nenv) (add_lexs {de} ?K)"
        assume n: "env_ok ?J nenv"
          "exit_labels nenv \<subseteq> {l. \<exists>t \<in> set ts. tag_label nenv t = Inr l} \<union> w_labels (add_lexs {de} ?K)"
        show "leads ?J (attempt (debug_tags nenv ts) (\<lambda>dtags. steps
                [always (emit_entry_or_save_sp ctxt de),
                 place ctxt l,
                 debug ctxt l m (AstTagbody dtags),
                 for_each (tagbody_statement rec h nenv (sub_receiving 0 (sub_de (DeLex de) ctxt))) statements,
                 place ctxt m,
                 always (maybe_emit_entry_close (sub_receiving 0 (sub_de (DeLex de) ctxt)) de)]))
            (add_done m (add_done l ?K))"
          using n e x tagbody_tags_set[OF Inr]
          by - (rule does_attempt, drule debug_tags_labels, rule leads_weaken, (rule tagbody_statements world_intros | (auto simp: weaker_def; fail))+)
      qed (use e in simp_all)
    next
      show "leads (add_done m (add_done l (add_label m (add_label l K)))) (steps [nil_value ctxt])
          (add_done m (add_done l (add_label m (add_label l K))))" for l m
        by (rule world_intros nil)+
    qed (auto simp: weaker_def)
  qed
qed

lemma block_keeps:
  assumes e: "env_ok K env" and x: "ctxt_ok K ctxt"
  shows "keeps K (compile_block rec bname body env ctxt)"
proof (cases "receiving ctxt = 1")
  case True
  show ?thesis
    unfolding compile_block_def Let_def eqTrueI[OF True] only_if_simps using e x
    apply -
    apply (rule does_attempt, rule does_with_label, rule does_with_label, rule does_with_label)
    apply (rule does_using_bind_block, simp, simp, simp, rule does_attempt, rule leads_weaken)
    by (rule progn_keeps world_intros | (auto simp: weaker_def dest: found_block_env; fail))+
next
  case False
  show ?thesis
    unfolding compile_block_def Let_def eq_False[THEN iffD2, OF False] only_if_simps using e x
    apply -
    apply (rule does_attempt, rule does_with_label, rule does_label_unused, rule does_with_label)
    apply (rule does_using_bind_block, simp, simp, simp, rule does_attempt, rule leads_weaken)
    by (rule progn_keeps world_intros | (auto simp: weaker_def dest: found_block_env; fail))+
qed

lemma return_from_keeps:
  assumes e: "env_ok K env" and x: "ctxt_ok K ctxt"
  shows "keeps K (compile_return_from rec name valuef env ctxt)"
proof (cases "blockInfo env name")
  case (Some b)
  show ?thesis
    unfolding compile_return_from_def Some option.case using assms found_exit(2)[OF e Some]
    by - (rule keeps_labels2 keeps_exit rec_keeps world_intros | (auto simp: weaker_def; fail))+
qed (simp add: compile_return_from_def)

section \<open>Assignment\<close>

lemma setq_1_keeps:
  assumes e: "env_ok K env" and x: "ctxt_ok K ctxt"
  shows "keeps K (compile_setq_1 rec h var valf env ctxt)"
proof -
  have cl: "keeps K (using_new (closure_index ctxt l) (opcode1 ctxt Vm_closure))" if "l \<in> w_lexs K" for l
    by (rule does_using_new[where V = "\<lambda>_. K"]) (auto intro: does_closure_index that)
  note rules = does_attempt does_fetch does_using_quiet quiet_new_list rec_keeps keeps_only_if does_if cl world_intros2
  show ?thesis
  proof (cases "lisp_var_info h var env")
    case None
    then show ?thesis
      unfolding compile_setq_1_def dup_for_value_def using e x
      by simp (rule rules | (simp; fail))+
  next
    case (Some i)
    have "l \<in> w_lexs K" if "i = LexicalVarInfo l" for l using found_lexical(1)[OF e] that Some by simp
    then show ?thesis
      unfolding compile_setq_1_def dup_for_value_def Some option.case using e x
      by - (cases i; hypsubst; (rule rules | simp only: var_info.case | simp; fail)+)
  qed
qed

lemma setq_pairs_keeps:
  assumes "env_ok K env" "ctxt_ok K ctxt"
  shows "keeps K (setq_pairs rec h env ctxt pairs)"
proof (induction pairs rule: measure_induct_rule[of size])
  case (less pairs)
  have fail: "keeps K (setq_pairs rec h env ctxt pairs)" if "\<And>c. \<exists>e. setq_pairs rec h env ctxt pairs c = Inl e"
    using that by (simp add: does_def) (metis Inl_Inr_False)
  show ?case
  proof (cases pairs)
    case (LCons i v rest)
    show ?thesis
    proof (cases rest)
      case (LCons j valf more)
      have "setq_pairs rec h env ctxt pairs = attempt (need_symbol v) (\<lambda>var. attempt (as_list more) (\<lambda>_.
          after (compile_setq_1 rec h var valf env (if more \<noteq> LNil then sub_receiving 0 ctxt else ctxt))
            (if more \<noteq> LNil then setq_pairs rec h env ctxt more else Inr)))"
        by (simp add: \<open>pairs = _\<close> LCons fun_eq_iff attempt_def after_def)
      moreover have "keeps K (setq_pairs rec h env ctxt more)" by (rule less) (simp add: \<open>pairs = _\<close> LCons)
      ultimately show ?thesis
        using assms by (auto intro!: does_attempt does_after setq_1_keeps)
    next
      case LNil
      have "setq_pairs rec h env ctxt pairs = attempt (need_symbol v) (\<lambda>var. compile_setq_1 rec h var LNil env ctxt)"
        by (simp add: \<open>pairs = _\<close> LNil fun_eq_iff attempt_def)
      then show ?thesis using assms by (auto intro!: does_attempt setq_1_keeps)
    qed (rule fail, simp add: \<open>pairs = _\<close> need_symbol_def)+
  qed (rule fail, simp)+
qed

lemma setq_keeps:
  assumes "env_ok K env" "ctxt_ok K ctxt"
  shows "keeps K (compile_setq rec h pairs env ctxt)"
  unfolding compile_setq_def nil_value_def
  by (rule does_if keeps_only_if setq_pairs_keeps assms world_intros2)+

section \<open>Conditionals, catch and progv\<close>

lemma eval_when_keeps:
  assumes "env_ok K env" "ctxt_ok K ctxt"
  shows "keeps K (compile_eval_when rec situations body env ctxt)"
  unfolding compile_eval_when_def by (rule does_attempt does_if progn_keeps assms world_intros)+

lemma the_keeps:
  assumes "env_ok K env" "ctxt_ok K ctxt"
  shows "keeps K (compile_the rec type_spec form env ctxt)"
  unfolding compile_the_def using assms
  by - (rule keeps_labels1 rec_keeps world_intros | (auto simp: weaker_def; fail))+

lemma if_keeps:
  assumes "env_ok K env" "ctxt_ok K ctxt"
  shows "keeps K (compile_if rec cond thn els env ctxt)"
  unfolding compile_if_def using assms
  by - (rule keeps_labels3 rec_keeps world_intros | (auto simp: weaker_def; fail))+

lemma catch_keeps:
  assumes "env_ok K env" "ctxt_ok K ctxt"
  shows "keeps K (compile_catch rec tag body env ctxt)"
  unfolding compile_catch_def using assms
  by - (rule keeps_labels1 rec_keeps progn_keeps world_intros | (auto simp: weaker_def; fail))+

lemma throw_keeps:
  assumes "env_ok K env" "ctxt_ok K ctxt"
  shows "keeps K (compile_throw rec tag rform env ctxt)"
  unfolding compile_throw_def using assms
  by - (rule rec_keeps world_intros | (simp; fail))+

lemma progv_keeps:
  assumes "env_ok K env" "ctxt_ok K ctxt"
  shows "keeps K (compile_progv rec syms vals body env ctxt)"
  unfolding compile_progv_def using assms
  by - (rule rec_keeps progn_keeps world_intros | (simp; fail))+

section \<open>Multiple values and calls\<close>

lemma mv_call_keeps:
  assumes "env_ok K env" "ctxt_ok K ctxt"
  shows "keeps K (compile_multiple_value_call rec h fform aforms env ctxt)"
  unfolding compile_multiple_value_call_def using assms
  by - (rule does_attempt does_if keeps_for_each function_keeps rec_keeps world_intros | (simp; fail))+

lemma mv_prog1_keeps:
  assumes "env_ok K env" "ctxt_ok K ctxt"
  shows "keeps K (compile_multiple_value_prog1 rec fform forms env ctxt)"
  unfolding compile_multiple_value_prog1_def using assms
  by - (rule keeps_only_if keeps_for_each rec_keeps world_intros | (simp; fail))+

lemma call_argument_loops:
  assumes "env_ok K env" "ctxt_ok K ctxt"
  shows "loops fst (\<lambda>_. K) (\<lambda>_. True) (call_argument rec env ctxt x)"
  unfolding call_argument_def[abs_def]
  by (rule loops_store, rule does_after[OF rec_keeps does_yield]) (use assms in \<open>simp_all add: gives_def\<close>)

lemma call_keeps:
  assumes "env_ok K env" "ctxt_ok K ctxt"
  shows "keeps K (compile_call rec args env ctxt)"
  unfolding compile_call_def
  by (rule does_looping[OF loops_for_each[OF call_argument_loops[OF assms]]]) simp_all

end

lemma ltv_keeps: "keeps K (compile_load_time_value form ro ctxt)"
  unfolding compile_load_time_value_def
  by (rule does_attempt does_using_quiet quiet_literals does_if does_fail world_intros)+

end
