(* ===== verification/WorldModule.thy ===== *)
theory WorldModule
  imports WorldControl
begin

text \<open>
  Local macros, combinations, forms and modules in a world.  A module that was compiled, and in which no
  label is placed twice, is fit for linking, and every reference in it is defined.
\<close>

section \<open>Local macros\<close>

lemma quiet_bytecompile: "bytecompile rec h l menv c = Inr (c', x) \<Longrightarrow> quiet c c'"
  by (auto simp: bytecompile_def bind_res_Inr_iff intro: quiet_trans[OF quiet_counters(1) quiet_counters(2)])

lemma does_using_bytecompile:
  "(\<And>x. does K (k x) s W) \<Longrightarrow> does K (using_try (bytecompile rec h l menv) k) s W"
  by (rule does_using_try[where V = "\<lambda>_. K"]) (rule does_quiet, auto dest: quiet_bytecompile)

lemma does_symbol_macro_expander: "(\<And>x. does K (k x) s W) \<Longrightarrow> does K (symbol_macro_expander h e k) s W"
  unfolding symbol_macro_expander_def by (rule does_using_quiet quiet_new_gensym quiet_new_list | assumption)+

lemma gives_symbol_macro_expander: "(\<And>x. gives (k x) P) \<Longrightarrow> gives (symbol_macro_expander h e k) P"
  unfolding symbol_macro_expander_def by (intro gives_intros)

lemma does_using_loop:
  assumes "loops fst (\<lambda>_. K) Q f" "\<And>c. Q (c, v)" "\<And>c x. Q (c, x) \<Longrightarrow> does K (k x) s W"
  shows "does K (using_try (\<lambda>c. f (c, v)) k) s W"
proof -
  have "using_try (\<lambda>c. f (c, v)) k = (\<lambda>c. bind_res (f (c, v)) (\<lambda>t. k (snd t) (fst t)))"
    by (simp add: fun_eq_iff using_try_def split_beta')
  moreover have "does K (\<lambda>c. bind_res (f (c, v)) (\<lambda>t. k (snd t) (fst t))) s W"
    by (rule does_loop[OF assms(1)]) (use assms(2,3) in auto)
  ultimately show ?thesis by simp
qed

lemma symbol_macro_loops:
  "loops fst (\<lambda>_. K) (\<lambda>st. \<forall>v l. (v, LexicalVarInfo l) \<in> set (snd st) \<longrightarrow> l \<in> w_lexs K)
     (symbol_macro_binding rec h menv binding)"
  unfolding symbol_macro_binding_def[abs_def]
proof (rule loops_store, goal_cases)
  case (1 t)
  show ?case
    by (rule does_attempt does_if does_fail does_symbol_macro_expander does_using_bytecompile does_yield | simp)+
next
  case (2 t)
  then show ?case by (intro gives_intros gives_symbol_macro_expander) auto
qed

lemma macro_loops:
  "loops fst (\<lambda>_. K) (\<lambda>st. \<forall>v l. (v, LocalFunInfo l) \<in> set (snd st) \<longrightarrow> l \<in> w_lexs K)
     (macro_binding rec h menv binding)"
  unfolding macro_binding_def[abs_def]
proof (rule loops_store, goal_cases)
  case (1 t)
  show ?case by (rule does_attempt does_using_bytecompile does_yield | simp)+
next
  case (2 t)
  then show ?case by (intro gives_intros) auto
qed

lemma env_ok_sub_funs:
  assumes "env_ok K env" "\<And>l v. (v, LocalFunInfo l) \<in> set fs \<Longrightarrow> l \<in> w_lexs K"
  shows "env_ok K (sub_funs fs fe env)"
proof (rule env_ok_same[OF assms(1)])
  show "same_exits env (sub_funs fs fe env)" by (simp add: same_exits_def sub_funs_def)
  have "set (concat (map (\<lambda>p. case snd p of LocalFunInfo l \<Rightarrow> [l] | _ \<Rightarrow> []) ps)) =
      {l. \<exists>v. (v, LocalFunInfo l) \<in> set ps}" for ps :: "(lisp \<times> fun_info) list"
    by (induction ps) (auto split: fun_info.splits)
  with assms show "set (env_lexs (sub_funs fs fe env)) \<subseteq> w_lexs K"
    by (auto simp: env_ok_def env_lexs_def sub_funs_def simp del: set_concat)
qed

lemma env_lexs_in:
  assumes "env_ok K env"
  shows "(v, LexicalVarInfo l) \<in> set (vars env) \<Longrightarrow> l \<in> w_lexs K"
    "(v, LocalFunInfo l) \<in> set (funs env) \<Longrightarrow> l \<in> w_lexs K"
  using assms env_lex_var env_lex_fun by (auto simp: env_ok_def)

context subform_compiler
begin

lemma symbol_macrolet_keeps:
  assumes e: "env_ok K env" and x: "ctxt_ok K ctxt"
  shows "keeps K (compile_symbol_macrolet rec h bindings body env ctxt)"
  unfolding compile_symbol_macrolet_def symbol_macrolet_bindings_def[abs_def]
  by (rule does_using_loop[OF loops_for_each[OF symbol_macro_loops]])
     (auto intro!: locally_keeps x env_ok_sub_vars[OF e] intro: env_lexs_in(1)[OF e])

lemma macrolet_keeps:
  assumes e: "env_ok K env" and x: "ctxt_ok K ctxt"
  shows "keeps K (compile_macrolet rec h bindings body env ctxt)"
  unfolding compile_macrolet_def macrolet_bindings_def[abs_def]
  by (rule does_using_loop[OF loops_for_each[OF macro_loops]])
     (auto intro!: locally_keeps x env_ok_sub_funs[OF e] intro: env_lexs_in(2)[OF e])

section \<open>Combinations\<close>

lemma try_compiler_macro_keeps:
  "env_ok K env \<Longrightarrow> ctxt_ok K ctxt \<Longrightarrow> keeps K m \<Longrightarrow> keeps K (try_compiler_macro rec h ex form env ctxt m)"
  unfolding try_compiler_macro_def by (rule does_attempt does_if rec_keeps | assumption)+

lemma funcall_keeps:
  assumes "env_ok K env" "ctxt_ok K ctxt"
  shows "keeps K (compile_funcall rec h fform args env ctxt)"
    "keeps K (compile_primop_funcall rec fform args env ctxt)"
    "keeps K (compile_named_call rec h fform args env ctxt)"
proof -
  have call: "keeps K (steps [compile_fdesignator rec h fform env ctxt, compile_call rec args env ctxt])"
    by (rule leads_steps keeps_steps_Nil function_keeps call_keeps assms)+
  show "keeps K (compile_funcall rec h fform args env ctxt)"
    unfolding compile_funcall_def Let_def
  proof (intro does_attempt)
    fix cm
    show "keeps K (case cm of None \<Rightarrow> steps [compile_fdesignator rec h fform env ctxt, compile_call rec args env ctxt]
        | Some cmexpander \<Rightarrow>
            using_new (new_cons fform args) (\<lambda>x.
            using_new (new_cons (LSym sym_funcall) x) (\<lambda>form.
              try_compiler_macro rec h cmexpander form env ctxt
                (steps [compile_fdesignator rec h fform env ctxt, compile_call rec args env ctxt]))))"
      using call by (cases cm) (auto intro!: does_using_quiet try_compiler_macro_keeps assms)
  qed
  show "keeps K (compile_primop_funcall rec fform args env ctxt)"
    unfolding compile_primop_funcall_def using assms
    by - (rule leads_steps keeps_steps_Nil rec_keeps call_keeps | (simp; fail))+
  show "keeps K (compile_named_call rec h fform args env ctxt)"
    unfolding compile_named_call_def by (rule leads_steps keeps_steps_Nil function_keeps call_keeps assms)+
qed

lemma application_keeps:
  assumes e: "env_ok K env" and x: "ctxt_ok K ctxt"
  shows "keeps K (compile_application rec h head rest env ctxt)"
proof -
  have macro: "keeps K (with_label (\<lambda>begin_label. with_label (\<lambda>end_label. steps
                [place ctxt begin_label,
                 debug ctxt begin_label end_label (DebugMacroexpansion head),
                 rec expansion env ctxt,
                 place ctxt end_label])))" for expansion
    using assms by - (rule keeps_labels2 rec_keeps world_intros | (auto simp: weaker_def; fail))+
  note rules = does_using_quiet quiet_new_cons does_attempt macro rec_keeps[OF e x] does_if funcall_keeps(3)[OF e x]
    try_compiler_macro_keeps[OF e x]
  have "keeps K (case info of
            Some (GlobalMacroInfo expander) \<Rightarrow>
              using_new (new_cons head rest) (\<lambda>form.
              attempt (expand_macro h expander form env) (\<lambda>expansion.
              with_label (\<lambda>begin_label. with_label (\<lambda>end_label. steps
                [place ctxt begin_label,
                 debug ctxt begin_label end_label (DebugMacroexpansion head),
                 rec expansion env ctxt,
                 place ctxt end_label]))))
          | Some (LocalMacroInfo expander) \<Rightarrow>
              using_new (new_cons head rest) (\<lambda>form.
              attempt (expand_macro h expander form env) (\<lambda>expansion. rec expansion env ctxt))
          | Some (GlobalFunInfo cmexpander) \<Rightarrow>
              if cmexpander \<noteq> LNil \<and> \<not> notinlinep head env \<and> head \<noteq> LSym sym_case then
                using_new (new_cons head rest) (\<lambda>form.
                  try_compiler_macro rec h cmexpander form env ctxt (compile_named_call rec h head rest env ctxt))
              else compile_named_call rec h head rest env ctxt
          | _ \<Rightarrow> compile_named_call rec h head rest env ctxt)" for info
    by (cases info rule: option.exhaust[case_product fun_info.exhaust])
       (auto intro!: rules split: fun_info.splits)
  then show ?thesis
    unfolding compile_application_def
    by (intro does_if does_attempt does_fail funcall_keeps(3)[OF e x])
qed

lemma combination_keeps:
  assumes "env_ok K env" "ctxt_ok K ctxt"
  shows "keeps K (compile_combination rec h head rest env ctxt)"
  unfolding compile_combination_def with_car_def with_car_cdr_def with_two_def with_three_def
  by (intro does_if does_attempt progn_keeps let_keeps letSTAR_keeps flet_keeps labels_keeps setq_keeps if_keeps
      function_keeps tagbody_keeps go_keeps block_keeps return_from_keeps keeps_literal ltv_keeps macrolet_keeps
      symbol_macrolet_keeps mv_call_keeps mv_prog1_keeps locally_keeps eval_when_keeps the_keeps funcall_keeps
      application_keeps assms)

lemma form_step_keeps:
  assumes e: "env_ok K env" and x: "ctxt_ok K ctxt"
  shows "keeps K (compile_form_step rec h form env ctxt)"
  unfolding compile_form_step_def Let_def
proof (rule does_attempt, goal_cases)
  case (1 y)
  show ?case
  proof (cases "source_location_for h y LNil = LNil")
    case True
    show ?thesis
      unfolding True using assms
      by - (simp only: simp_thms if_False only_if_simps,
          (rule does_label_unused does_if symbol_keeps combination_keeps world_intros | (simp; fail))+)
  next
    case False
    show ?thesis
      unfolding eqTrueI[OF False] if_True only_if_simps using assms
      by - (rule keeps_labels2 does_if symbol_keeps combination_keeps world_intros | (auto simp: weaker_def; fail))+
  qed
qed

end

section \<open>Modules\<close>

lemma compile_form_keeps: "env_ok K env \<Longrightarrow> ctxt_ok K ctxt \<Longrightarrow> keeps K (compile_form n h x env ctxt)"
proof (induction n arbitrary: K env ctxt x)
  case (Suc n)
  have "subform_compiler (compile_form n h)" by unfold_locales (rule Suc.IH)
  then show ?case using subform_compiler.form_step_keeps[of "compile_form n h"] Suc.prems by simp
qed simp

interpretation forms: subform_compiler "compile_form n h" for n h
  by unfold_locales (rule compile_form_keeps)

text \<open>Nothing is known of an empty module; an environment without lexicals promises nothing.\<close>

definition empty_world :: world where
  "empty_world = \<lparr>w_labels = {}, w_lexs = {}, w_funs = {}, w_done = {}\<rparr>"

lemma inv_empty: "inv empty_world (module_make\<lparr>next_addr := a\<rparr>)" "mods_ok (module_make\<lparr>next_addr := a\<rparr>)"
  by (simp_all add: inv_def empty_world_def building_def typed_def targets_in_def module_make_def slots_def mods_ok_def)

lemma no_lexicals_env_ok:
  assumes "env_lexs env = []"
  shows "env_ok K env"
proof -
  from assms have "tags env = []" "blocks env = []" by (auto simp: env_lexs_def)
  then show ?thesis using assms by (simp add: env_ok_def exit_labels_def tagInfo_def blockInfo_def)
qed

lemma compiled_module_inv:
  assumes "compile_module n h lam env addr = Inr (m, f)" "env_lexs env = []" "distinct (slots m)"
  shows "inv (add_fun f empty_world) m"
proof -
  obtain ll body where "compile_lambda (compile_form n h) h ll body env
      (source_location_for h lam (h_source_pos h)) (module_make\<lparr>next_addr := addr\<rparr>) = Inr (m, f)"
    using assms(1)
    by (auto simp: compile_module_def bytecompile_into_def attempt_def bind_res_Inr_iff split: if_splits)
  from doesD(3)[OF forms.does_lambda[OF no_lexicals_env_ok[OF assms(2)]] this inv_empty(2)] assms(3) inv_empty(1)
  show ?thesis by simp
qed

lemma inv_assembled:
  assumes "inv K m" "w_labels K = {}"
  shows "assembled m"
proof (rule building_assembled)
  show "building m" using assms(1) by (simp add: inv_def)
  have t: "targets_in {} m" using assms by (simp add: inv_def)
  show "targets_placed m"
    unfolding targets_placed_def
  proof
    fix a assume "a \<in> set (slots m)"
    with t have "label_ok m l \<and> l \<in> set (slots m)" if "label_target (ann_kind (annot_of m a)) = Some l" for l
      using that unfolding targets_in_def by blast
    then show "case label_target (ann_kind (annot_of m a)) of None \<Rightarrow> True
        | Some lab \<Rightarrow> lab \<in> set (slots m) \<and> ann_kind (annot_of m lab) = Label"
      by (simp add: label_ok_def split: option.split)
  qed
qed


text \<open>C8: every reference in a compiled module is defined: the lexical infos of fixups, closures and debug
  information exist, cfunctions among the literals and owners of lexical infos belong to the module, and
  every label that is jumped to or that bounds debug information is placed; provided no label is
  placed twice.\<close>

theorem compiled_module_typed:
  assumes "compile_module n h lam env addr = Inr (m, f)" "env_lexs env = []" "distinct (slots m)"
  shows "typed m \<and> targets_in {} m \<and> f \<in> set (mod_cfunctions m)"
  using compiled_module_inv[OF assms] by (simp add: inv_def empty_world_def)

section \<open>A compiled module\<close>

text \<open>
  The compiler is run by rewriting.  The combinators are rewritten from the outside: a continuation is
  left alone until its argument is known.
\<close>

lemma run_later:
  "r = r' \<Longrightarrow> attempt r k1 c = attempt r' k1 c" "after m k2 c = after m k2 c" "r = r' \<Longrightarrow> bind_res r k3 = bind_res r' k3"
  "fetch f k1 c = fetch f k1 c" "using_new g k1 c = using_new g k1 c" "using_try u k1 c = using_try u k1 c"
  "with_label k4 c = with_label k4 c" "steps ms c = steps ms c" "looping v a s k1 c = looping v a s k1 c"
  "b = b' \<Longrightarrow> only_if b m c = only_if b' m c" "x = x' \<Longrightarrow> for_conses y x t = for_conses y x' t"
  by simp_all

lemma run_combinators:
  "attempt (Inr x) k1 c = k1 x c" "attempt (Inl e) k1 c = Inl e" "after m k2 c = bind_res (m c) k2"
  "using_try u k1 c = bind_res (u c) (\<lambda>p. k1 (snd p) (fst p))" "using_new g k1 c = (\<lambda>p. k1 (snd p) (fst p)) (g c)"
  by (simp_all add: attempt_def after_def using_try_def using_new_def split_beta split_beta')

lemmas run_compiler = run_combinators Let_def only_if_def fetch_def with_label_def yield_def looping_def symbol_numbers
  lambda_list_numbers
  add_decls_def add_specials_def always_def annot_of_def assemble0_def assemble1_def before_rest_def bind_keys_def
  bind_optionals_def bind_parameters_def bind_required_def bind_required_one_def bind_rest_def bind_vars_def
  bound_lexical_def bytecompile_into_def cfun_of_def cfunction_make_def checkTargetArgument_def check_arg_count_def
  code_walking_p_def compile_aux_and_body_def compile_combination_def compile_form_step_def compile_if_def
  compile_lambda_def compile_letSTAR_def compile_literal_def compile_module_def compile_progn_def
  compile_symbol_def compile_with_lambda_list_def debug_def declare_lex_def decls_for_var_def display_items_def
  emit_bytes_def emit_fixup_def emit_jump_def emit_jump_if_def extract_declares_docstring_code_specials_def
  find_or_push_def fixup_contextualize_def fixup_make_def for_each_def form_to_walk_def global_var_info_def
  is_lambda_expression_def label_contextualize_def label_make_def lambda_ctxt_def lambda_list_for_name_def
  lambda_name_def lambda_start_def lcaddr_def lcadr_def lcddr_def let_start_def lex_of_def lexical_info_make_def
  lisp_of_def lisp_var_info_def literal_index_def make_null_lexical_environment_def mark_read_def
  maybe_emit_cell_ref_def maybe_emit_encage_def maybe_warn_used_def module_make_def new_annot_def new_cfunction_def
  new_cons_def new_dinfo_def no_args_def opcode0_def opcode1_def parse_element_def parse_lambda_list_def place_def
  plain_host_def pop_for_values_def push_debug_info_def read_lexical_def register_cfunction_def req_start_def
  sample_genv_def sample_symbol_def scrub_decls_def setNlocals_def set_declarations_def slots_def
  source_location_for_def special_binding_p_def sub_receiving_def sub_vars_def switch_add_argument_mode_def
  throw_if_invalid_context_def upd_annot_def upd_cfun_def upd_lex_def update_literals_def var_info_v_def
  variableInfo_def warn_ignorance_def warn_one_def with_three_def

text \<open>\<open>(lambda (x) (if x 1 2))\<close>\<close>

definition sample_lambda :: lisp where
  "sample_lambda = lisp_of 1 [LSym sym_lambda, lisp_of 1 [LSym 200], lisp_of 1 [LSym sym_if, LSym 200, LFix 1, LFix 2]]"

definition sample_module :: "cerror + comp \<times> nat" where
  "sample_module = compile_module (Suc (Suc (Suc 0))) (plain_host sample_genv) sample_lambda make_null_lexical_environment 1000"

lemma sample_module_distinct: "case sample_module of Inl e \<Rightarrow> False | Inr p \<Rightarrow> distinct (slots (fst p))"
  unfolding sample_module_def sample_lambda_def by (simp add: run_compiler cong: run_later if_weak_cong)

lemma sample_module_compiled:
  obtains m f where "sample_module = Inr (m, f)" "distinct (slots m)"
  using sample_module_distinct by (auto split: sum.splits prod.splits)

lemma null_environment_lexs: "env_lexs make_null_lexical_environment = []"
  by code_simp


lemma compiled_module_typed_witness: "\<exists>m f. sample_module = Inr (m, f) \<and> typed m \<and> targets_in {} m"
proof -
  from sample_module_compiled obtain m f where "sample_module = Inr (m, f)" "distinct (slots m)" .
  with compiled_module_typed[OF _ null_environment_lexs] show ?thesis unfolding sample_module_def by blast
qed

end
