(* ===== verification/GfInterp.thy ===== *)
theory GfInterp
  imports Prelude
begin

text \<open>
  The interpreter of discriminating functions (\<open>src/src/core/dtree-interpreter.cc\<close>,
  \<open>src/src/core/funcallableInstance.cc\<close>): a generic function is called by running a small bytecode program that
  looks at the stamps of the arguments and ends in an effective method, a slot access or a dispatch miss.
\<close>

section \<open>Values and the world\<close>

text \<open>
  Tagged values by their tag; \<open>GVaslist\<close> and \<open>GUnbound\<close> are the tags the interpreter knows no test for.  The
  world holds what instructions read of objects in the heap: the four places a stamp can be in, the racks
  of instances, the cars of conses, \<open>eql_\<close> of general objects and the bits of a pointer.
\<close>

datatype gval =
    GFix int
  | GSingle nat
  | GChar nat
  | GCons nat
  | GGeneral nat
  | GVaslist nat
  | GUnbound

record gfworld =
  header_stamp :: "nat \<Rightarrow> u64"
  rack_stamp :: "nat \<Rightarrow> u64"
  wrapped_stamp :: "nat \<Rightarrow> u64"
  derived_stamp :: "nat \<Rightarrow> u64"
  racks :: "nat \<Rightarrow> gval list"
  cars :: "nat \<Rightarrow> gval"
  eql_general :: "nat \<Rightarrow> gval \<Rightarrow> bool"
  pointer_bits :: "gval \<Rightarrow> u64"

text \<open>Fixnums are shifted by two bits and have a zero tag (\<open>FIXNUM_SHIFT\<close>).\<close>

fun tagged_bits :: "gfworld \<Rightarrow> gval \<Rightarrow> u64" where
  "tagged_bits w (GFix i) = push_bit 2 (word_of_int i)"
| "tagged_bits w v = pointer_bits w v"

text \<open>\<open>None\<close> is the error of an object without a comparable tag.\<close>

fun cl_eql :: "gfworld \<Rightarrow> gval \<Rightarrow> gval \<Rightarrow> bool option" where
  "cl_eql w (GFix i) y = Some (y = GFix i)"
| "cl_eql w (GSingle i) y = Some (y = GSingle i)"
| "cl_eql w (GChar i) y = Some (y = GChar i)"
| "cl_eql w (GCons i) y = Some (y = GCons i)"
| "cl_eql w (GGeneral i) y = Some (y = GGeneral i \<or> eql_general w i y)"
| "cl_eql w (GVaslist i) y = None"
| "cl_eql w GUnbound y = None"

text \<open>
  The two bits that say where the stamp of an object is (\<open>where_mask\<close>, \<open>header_wtag\<close> and the other
  \<open>wtag\<close> constants of \<open>memoryManagement.h\<close>, shifted by the width of the mtag).
\<close>

definition where_mask :: u64 where "where_mask = 24"
definition derivable_wtag :: u64 where "derivable_wtag = 0"
definition rack_wtag :: u64 where "rack_wtag = 8"
definition wrapped_wtag :: u64 where "wrapped_wtag = 16"
definition header_wtag :: u64 where "header_wtag = 24"

section \<open>Calls\<close>

text \<open>
  One call of a discriminating function: through the general entry point, where the arguments are an array with
  a count, or through an entry point of fixed arity; its arguments, its program, its literals and the number of
  specialized parameters.
\<close>

record gfcall =
  general_entry :: bool
  lcc_args :: "gval list"
  program :: "byte list"
  literals :: "gval list"
  specialized_length :: nat

abbreviation nargs :: "gfcall \<Rightarrow> nat" where
  "nargs c \<equiv> length (lcc_args c)"

text \<open>
  How a call can end: an effective method is called with the arguments, one of the two dispatch misses is called,
  a value is returned, a slot is unbound (instance and slot name), an error is signalled; \<open>GfUndefined\<close> is a read
  outside an array or of an uninitialized register, which C++ leaves undefined.
\<close>

datatype gf_result =
    CallMethod gval "gval list"
  | DispatchMiss "gval list"
  | SingleDispatchMiss "gval list"
  | ReturnValue gval
  | SlotUnbound gval gval
  | WrongNargs nat
  | InterpWrongNargs nat
  | UnknownTag gval
  | BadEql gval
  | BadOpcode nat
  | GfUndefined

text \<open>The registers: instruction pointer, \<open>arg\<close> and \<open>stamp\<close>, the latter two uninitialized at first.\<close>

record gfregs =
  ip :: nat
  arg :: "gval option"
  stamp :: "u64 option"

datatype gf_step =
    GfNext gfregs
  | GfStop gf_result gfworld

definition nth_or :: "'a list \<Rightarrow> nat \<Rightarrow> gfworld \<Rightarrow> ('a \<Rightarrow> gf_step) \<Rightarrow> gf_step" where
  "nth_or xs i w k = (if i < length xs then k (xs ! i) else GfStop GfUndefined w)"

definition some_or :: "'a option \<Rightarrow> gfworld \<Rightarrow> ('a \<Rightarrow> gf_step) \<Rightarrow> gf_step" where
  "some_or x w k = (case x of Some y \<Rightarrow> k y | None \<Rightarrow> GfStop GfUndefined w)"

section \<open>Operands\<close>

text \<open>
  \<open>ReadArg<1>\<close> reads operands of one byte, \<open>ReadArg<2>\<close> of two, low byte first; \<open>offset\<close> is the distance from the
  opcode to an operand or to the next instruction.
\<close>

definition arg_offset :: "bool \<Rightarrow> nat \<Rightarrow> nat" where
  "arg_offset long off = (if long then 1 + (off - 1) * 2 else 1 + (off - 1))"

definition read_arg :: "bool \<Rightarrow> gfcall \<Rightarrow> nat \<Rightarrow> nat \<Rightarrow> gfworld \<Rightarrow> (nat \<Rightarrow> gf_step) \<Rightarrow> gf_step" where
  "read_arg long c addr off w k =
     (if long then
        nth_or (program c) (addr + 1 + 2 * (off - 1)) w (\<lambda>low.
        nth_or (program c) (addr + 1 + 2 * (off - 1) + 1) w (\<lambda>high. k (unat high * 256 + unat low)))
      else nth_or (program c) (addr + off) w (\<lambda>b. k (unat b)))"

definition read_literal :: "bool \<Rightarrow> gfcall \<Rightarrow> nat \<Rightarrow> nat \<Rightarrow> gfworld \<Rightarrow> (gval \<Rightarrow> gf_step) \<Rightarrow> gf_step" where
  "read_literal long c addr off w k = read_arg long c addr off w (\<lambda>i. nth_or (literals c) i w k)"

definition read_literal_tagged :: "bool \<Rightarrow> gfcall \<Rightarrow> nat \<Rightarrow> nat \<Rightarrow> gfworld \<Rightarrow> (u64 \<Rightarrow> gf_step) \<Rightarrow> gf_step" where
  "read_literal_tagged long c addr off w k = read_literal long c addr off w (\<lambda>v. k (tagged_bits w v))"

definition jump_by :: "bool \<Rightarrow> gfcall \<Rightarrow> gfworld \<Rightarrow> nat \<Rightarrow> gfregs \<Rightarrow> gf_step" where
  "jump_by long c w off r = read_arg long c (ip r) off w (\<lambda>d. GfNext (r\<lparr>ip := ip r + d\<rparr>))"

definition skip_to :: "bool \<Rightarrow> nat \<Rightarrow> gfregs \<Rightarrow> gf_step" where
  "skip_to long off r = GfNext (r\<lparr>ip := ip r + arg_offset long off\<rparr>)"

section \<open>The instructions\<close>

text \<open>
  \<open>DTREE_OP_ARGN\<close>: the general entry has an error of its own for a missing argument, the fixed ones find the
  argument by counting through the tuple.
\<close>

definition op_argn :: "bool \<Rightarrow> gfcall \<Rightarrow> gfworld \<Rightarrow> gfregs \<Rightarrow> gf_step" where
  "op_argn long c w r =
     read_arg long c (ip r) 1 w (\<lambda>idx.
       if nargs c \<le> idx then GfStop (if general_entry c then InterpWrongNargs (nargs c) else WrongNargs (nargs c)) w
       else skip_to long 2 (r\<lparr>arg := Some (lcc_args c ! idx)\<rparr>))"

definition op_tag_test :: "bool \<Rightarrow> gfcall \<Rightarrow> gfworld \<Rightarrow> gfregs \<Rightarrow> gf_step" where
  "op_tag_test long c w r =
     some_or (arg r) w (\<lambda>a. case a of
         GFix _ \<Rightarrow> jump_by long c w 1 r
       | GCons _ \<Rightarrow> jump_by long c w 4 r
       | GSingle _ \<Rightarrow> jump_by long c w 2 r
       | GChar _ \<Rightarrow> jump_by long c w 3 r
       | GGeneral _ \<Rightarrow> skip_to long 5 r
       | _ \<Rightarrow> GfStop (UnknownTag a) w)"

text \<open>Only the stamps of general objects are read; the pointer is not checked.\<close>

definition op_stamp_read :: "bool \<Rightarrow> gfcall \<Rightarrow> gfworld \<Rightarrow> gfregs \<Rightarrow> gf_step" where
  "op_stamp_read long c w r =
     some_or (arg r) w (\<lambda>a. case a of
         GGeneral p \<Rightarrow>
           (let s = header_stamp w p; place = and s where_mask in
            if place = header_wtag then jump_by long c w 1 (r\<lparr>stamp := Some s\<rparr>)
            else if place = rack_wtag then skip_to long 2 (r\<lparr>stamp := Some (rack_stamp w p)\<rparr>)
            else if place = wrapped_wtag then skip_to long 2 (r\<lparr>stamp := Some (wrapped_stamp w p)\<rparr>)
            else skip_to long 2 (r\<lparr>stamp := Some (derived_stamp w p)\<rparr>))
       | _ \<Rightarrow> GfStop GfUndefined w)"

definition op_lt_branch :: "bool \<Rightarrow> gfcall \<Rightarrow> gfworld \<Rightarrow> gfregs \<Rightarrow> gf_step" where
  "op_lt_branch long c w r =
     read_literal_tagged long c (ip r) 1 w (\<lambda>pivot.
     some_or (stamp r) w (\<lambda>s.
       if s < pivot then jump_by long c w 2 r else skip_to long 3 r))"

definition op_eq_check :: "bool \<Rightarrow> gfcall \<Rightarrow> gfworld \<Rightarrow> gfregs \<Rightarrow> gf_step" where
  "op_eq_check long c w r =
     read_literal_tagged long c (ip r) 1 w (\<lambda>pivot.
     some_or (stamp r) w (\<lambda>s.
       if s \<noteq> pivot then GfStop (DispatchMiss (lcc_args c)) w else skip_to long 2 r))"

definition op_range_check :: "bool \<Rightarrow> gfcall \<Rightarrow> gfworld \<Rightarrow> gfregs \<Rightarrow> gf_step" where
  "op_range_check long c w r =
     read_literal_tagged long c (ip r) 1 w (\<lambda>mn.
     read_literal_tagged long c (ip r) 2 w (\<lambda>mx.
     some_or (stamp r) w (\<lambda>s.
       if s < mn \<or> s > mx then GfStop (DispatchMiss (lcc_args c)) w else skip_to long 3 r)))"

definition op_eql :: "bool \<Rightarrow> gfcall \<Rightarrow> gfworld \<Rightarrow> gfregs \<Rightarrow> gf_step" where
  "op_eql long c w r =
     read_literal long c (ip r) 1 w (\<lambda>object.
     some_or (arg r) w (\<lambda>a.
       case cl_eql w a object of
         None \<Rightarrow> GfStop (BadEql a) w
       | Some b \<Rightarrow> if b then jump_by long c w 2 r else skip_to long 3 r))"

text \<open>
  Accessors check the number of arguments themselves.  The instance and the kind of location are not checked:
  the classes have been tested before.
\<close>

definition fixnum_index :: "gval \<Rightarrow> nat option" where
  "fixnum_index v = (case v of GFix i \<Rightarrow> if 0 \<le> i then Some (nat i) else None | _ \<Rightarrow> None)"

definition general_pointer :: "gval \<Rightarrow> nat option" where
  "general_pointer v = (case v of GGeneral p \<Rightarrow> Some p | _ \<Rightarrow> None)"

definition cons_pointer :: "gval \<Rightarrow> nat option" where
  "cons_pointer v = (case v of GCons p \<Rightarrow> Some p | _ \<Rightarrow> None)"

definition value_or_unbound :: "gval \<Rightarrow> gval \<Rightarrow> gval \<Rightarrow> gfworld \<Rightarrow> gf_step" where
  "value_or_unbound v inst slot_name w =
     GfStop (if v = GUnbound then SlotUnbound inst slot_name else ReturnValue v) w"

definition op_slot_read :: "bool \<Rightarrow> gfcall \<Rightarrow> gfworld \<Rightarrow> gfregs \<Rightarrow> gf_step" where
  "op_slot_read long c w r =
     (if nargs c \<noteq> 1 then GfStop (WrongNargs (nargs c)) w
      else
        let a = lcc_args c ! 0 in
        read_literal long c (ip r) 1 w (\<lambda>location.
        read_literal long c (ip r) 2 w (\<lambda>slot_name.
        some_or (fixnum_index location) w (\<lambda>index.
        some_or (general_pointer a) w (\<lambda>inst.
        nth_or (racks w inst) index w (\<lambda>v. value_or_unbound v a slot_name w))))))"

definition op_car :: "bool \<Rightarrow> gfcall \<Rightarrow> gfworld \<Rightarrow> gfregs \<Rightarrow> gf_step" where
  "op_car long c w r =
     (if nargs c \<noteq> 1 then GfStop (WrongNargs (nargs c)) w
      else
        read_literal long c (ip r) 1 w (\<lambda>location.
        read_literal long c (ip r) 2 w (\<lambda>slot_name.
        some_or (cons_pointer location) w (\<lambda>cell.
          value_or_unbound (cars w cell) (lcc_args c ! 0) slot_name w))))"

definition op_slot_write :: "bool \<Rightarrow> gfcall \<Rightarrow> gfworld \<Rightarrow> gfregs \<Rightarrow> gf_step" where
  "op_slot_write long c w r =
     (if nargs c \<noteq> 2 then GfStop (WrongNargs (nargs c)) w
      else
        let v = lcc_args c ! 0 in
        read_literal long c (ip r) 1 w (\<lambda>location.
        some_or (fixnum_index location) w (\<lambda>index.
        some_or (general_pointer (lcc_args c ! 1)) w (\<lambda>inst.
        nth_or (racks w inst) index w (\<lambda>_.
          GfStop (ReturnValue v) (w\<lparr>racks := (racks w)(inst := (racks w inst)[index := v])\<rparr>))))))"

definition op_rplaca :: "bool \<Rightarrow> gfcall \<Rightarrow> gfworld \<Rightarrow> gfregs \<Rightarrow> gf_step" where
  "op_rplaca long c w r =
     (if nargs c \<noteq> 2 then GfStop (WrongNargs (nargs c)) w
      else
        let v = lcc_args c ! 0 in
        read_literal long c (ip r) 1 w (\<lambda>location.
        some_or (cons_pointer location) w (\<lambda>cell.
          GfStop (ReturnValue v) (w\<lparr>cars := (cars w)(cell := v)\<rparr>))))"

definition op_effective_method :: "bool \<Rightarrow> gfcall \<Rightarrow> gfworld \<Rightarrow> gfregs \<Rightarrow> gf_step" where
  "op_effective_method long c w r =
     read_literal long c (ip r) 1 w (\<lambda>func. GfStop (CallMethod func (lcc_args c)) w)"

text \<open>
  \<open>DTREE_OP_FARG0\<close> to \<open>DTREE_OP_FARG4\<close>: the general entry does not check the index, as \<open>entry_point_n\<close> has compared
  the number of arguments with the number of specialized parameters.
\<close>

definition op_farg :: "nat \<Rightarrow> gfcall \<Rightarrow> gfworld \<Rightarrow> gfregs \<Rightarrow> gf_step" where
  "op_farg n c w r =
     (if n < nargs c then GfNext (r\<lparr>arg := Some (lcc_args c ! n), ip := Suc (ip r)\<rparr>)
      else GfStop (if general_entry c then GfUndefined else WrongNargs (nargs c)) w)"

text \<open>Both branches use fixed offsets; the label operand is not read.\<close>

definition op_sd_eq_branch :: "bool \<Rightarrow> gfcall \<Rightarrow> gfworld \<Rightarrow> gfregs \<Rightarrow> gf_step" where
  "op_sd_eq_branch long c w r =
     read_literal_tagged long c (ip r) 1 w (\<lambda>pivot.
     some_or (stamp r) w (\<lambda>s.
       if s \<noteq> pivot then skip_to long 2 r else skip_to long 3 r))"

section \<open>The loop\<close>

text \<open>
  The opcodes of \<open>bytecode-machines.lisp\<close>; the long form of an instruction has its opcode increased by their number.
  \<open>advance\<close> has no case.
\<close>

definition op_count :: nat where "op_count = 21"

definition dtree_case :: "bool \<Rightarrow> nat \<Rightarrow> gfcall \<Rightarrow> gfworld \<Rightarrow> gfregs \<Rightarrow> gf_step" where
  "dtree_case long op c w r =
     (if op = 0 then GfStop (DispatchMiss (lcc_args c)) w
      else if op = 2 then op_tag_test long c w r
      else if op = 3 then op_stamp_read long c w r
      else if op = 4 then op_lt_branch long c w r
      else if op = 5 then op_eq_check long c w r
      else if op = 6 then op_range_check long c w r
      else if op = 7 then op_eql long c w r
      else if op = 8 then op_slot_read long c w r
      else if op = 9 then op_slot_write long c w r
      else if op = 10 then op_car long c w r
      else if op = 11 then op_rplaca long c w r
      else if op = 12 then op_effective_method long c w r
      else if 13 \<le> op \<and> op \<le> 17 then op_farg (op - 13) c w r
      else if op = 18 then op_argn long c w r
      else if op = 19 then op_sd_eq_branch long c w r
      else if op = 20 then GfStop (SingleDispatchMiss (lcc_args c)) w
      else GfStop (BadOpcode (op + (if long then op_count else 0))) w)"

definition dtree_step :: "gfcall \<Rightarrow> gfworld \<Rightarrow> gfregs \<Rightarrow> gf_step" where
  "dtree_step c w r =
     nth_or (program c) (ip r) w (\<lambda>op.
       if unat op < op_count then dtree_case False (unat op) c w r
       else dtree_case True (unat op - op_count) c w r)"

text \<open>A label of zero would make the loop run for ever.\<close>

partial_function (option) dtree_loop :: "gfcall \<Rightarrow> gfworld \<Rightarrow> gfregs \<Rightarrow> (gf_result \<times> gfworld) option" where
  [code]: "dtree_loop c w r =
     (case dtree_step c w r of GfNext r' \<Rightarrow> dtree_loop c w r' | GfStop res w' \<Rightarrow> Some (res, w'))"

definition start_regs :: gfregs where
  "start_regs = \<lparr>ip = 0, arg = None, stamp = None\<rparr>"

text \<open>
  The general entry compares the number of arguments with the number of specialized parameters; the entries
  of fixed arity were chosen by \<open>XepStereotype\<close>, which installs the error for too few arguments.
\<close>

definition entry_point_n :: "gfcall \<Rightarrow> gfworld \<Rightarrow> (gf_result \<times> gfworld) option" where
  "entry_point_n c w =
     (if nargs c < specialized_length c then Some (WrongNargs (nargs c), w)
      else dtree_loop (c\<lparr>general_entry := True\<rparr>) w start_regs)"

definition entry_point_fixed :: "gfcall \<Rightarrow> gfworld \<Rightarrow> (gf_result \<times> gfworld) option" where
  "entry_point_fixed c w = dtree_loop (c\<lparr>general_entry := False\<rparr>) w start_regs"

definition error_entry_point_fixed :: "gfcall \<Rightarrow> gfworld \<Rightarrow> (gf_result \<times> gfworld) option" where
  "error_entry_point_fixed c w = Some (WrongNargs (nargs c), w)"

text \<open>
  The entry points for zero to five arguments that \<open>XepStereotype\<close> installs for a given number of specialized
  parameters.
\<close>

definition xep_entry :: "gfcall \<Rightarrow> gfworld \<Rightarrow> (gf_result \<times> gfworld) option" where
  "xep_entry c w = (if nargs c < specialized_length c then error_entry_point_fixed c w else entry_point_fixed c w)"

end
