(* ===== verification/GfTree.thy ===== *)
theory GfTree
  imports GfInterp
begin

text \<open>
  The decision trees that discriminating programs are made from (\<open>src/src/lisp/kernel/clos/dtree.lisp\<close>), what such
  a tree decides, and that the interpreter decides the same when it runs a program in which the tree has been
  laid out.
\<close>

section \<open>Decision trees\<close>

text \<open>
  The structures of \<open>dtree.lisp\<close>: \<open>argument\<close> with its count, \<open>tag-test\<close> with the entries of its vector and the default,
  \<open>stamp-read\<close>, \<open><-branch\<close>, \<open>=-check\<close>, \<open>range-check\<close>, one step of an \<open>eql-search\<close>, \<open>miss\<close>; and the outcomes of \<open>outcome.lisp\<close>.
\<close>

datatype outcome =
    SlotReader gval gval
  | SlotWriter gval
  | EffectiveMethod gval

datatype dtree =
    Argument nat dtree
  | TagTest dtree dtree dtree dtree dtree
  | StampRead dtree dtree
  | LtBranch int dtree dtree
  | EqCheck int dtree
  | RangeCheck int int dtree
  | EqlSearch gval dtree dtree
  | Outcome outcome
  | Miss

text \<open>The stamp of a general object as \<open>stamp-read\<close> gets it, and whether it comes from the header.\<close>

definition read_stamp :: "gfworld \<Rightarrow> nat \<Rightarrow> u64" where
  "read_stamp w p =
     (let s = header_stamp w p; place = and s where_mask in
      if place = header_wtag then s
      else if place = rack_wtag then rack_stamp w p
      else if place = wrapped_wtag then wrapped_stamp w p
      else derived_stamp w p)"

definition cxx_object :: "gfworld \<Rightarrow> nat \<Rightarrow> bool" where
  "cxx_object w p \<longleftrightarrow> and (header_stamp w p) where_mask = header_wtag"

section \<open>What a tree decides\<close>

text \<open>
  The machine with two registers that the commentary of \<open>dtree.lisp\<close> describes: each node acts and branches.
\<close>

definition run_outcome :: "gval list \<Rightarrow> gfworld \<Rightarrow> outcome \<Rightarrow> gf_result \<times> gfworld" where
  "run_outcome args w out =
     (case out of
        EffectiveMethod f \<Rightarrow> (CallMethod f args, w)
      | SlotReader loc name \<Rightarrow>
          if length args \<noteq> 1 then (WrongNargs (length args), w)
          else (case loc of
              GFix i \<Rightarrow>
                (case args ! 0 of
                   GGeneral inst \<Rightarrow>
                     if 0 \<le> i \<and> nat i < length (racks w inst)
                     then (let v = racks w inst ! nat i in
                           (if v = GUnbound then SlotUnbound (args ! 0) name else ReturnValue v, w))
                     else (GfUndefined, w)
                 | _ \<Rightarrow> (GfUndefined, w))
            | GCons cell \<Rightarrow>
                (if cars w cell = GUnbound then SlotUnbound (args ! 0) name else ReturnValue (cars w cell), w)
            | _ \<Rightarrow> (GfUndefined, w))
      | SlotWriter loc \<Rightarrow>
          if length args \<noteq> 2 then (WrongNargs (length args), w)
          else (case loc of
              GFix i \<Rightarrow>
                (case args ! 1 of
                   GGeneral inst \<Rightarrow>
                     if 0 \<le> i \<and> nat i < length (racks w inst)
                     then (ReturnValue (args ! 0),
                           w\<lparr>racks := (racks w)(inst := (racks w inst)[nat i := args ! 0])\<rparr>)
                     else (GfUndefined, w)
                 | _ \<Rightarrow> (GfUndefined, w))
            | GCons cell \<Rightarrow> (ReturnValue (args ! 0), w\<lparr>cars := (cars w)(cell := args ! 0)\<rparr>)
            | _ \<Rightarrow> (GfUndefined, w)))"

abbreviation stamp_word :: "int \<Rightarrow> u64" where
  "stamp_word i \<equiv> push_bit 2 (word_of_int i)"

fun run_tree :: "gval list \<Rightarrow> gfworld \<Rightarrow> gval option \<Rightarrow> u64 option \<Rightarrow> dtree \<Rightarrow> gf_result \<times> gfworld" where
  "run_tree args w a s (Argument n t) = run_tree args w (Some (args ! n)) s t"
| "run_tree args w a s (TagTest fix single char cons general) =
     (case a of
        None \<Rightarrow> (GfUndefined, w)
      | Some (GFix _) \<Rightarrow> run_tree args w a s fix
      | Some (GSingle _) \<Rightarrow> run_tree args w a s single
      | Some (GChar _) \<Rightarrow> run_tree args w a s char
      | Some (GCons _) \<Rightarrow> run_tree args w a s cons
      | Some (GGeneral _) \<Rightarrow> run_tree args w a s general
      | Some v \<Rightarrow> (UnknownTag v, w))"
| "run_tree args w a s (StampRead cxx other) =
     (case a of
        Some (GGeneral p) \<Rightarrow>
          if cxx_object w p then run_tree args w a (Some (read_stamp w p)) cxx
          else run_tree args w a (Some (read_stamp w p)) other
      | _ \<Rightarrow> (GfUndefined, w))"
| "run_tree args w a s (LtBranch pivot left right) =
     (case s of
        None \<Rightarrow> (GfUndefined, w)
      | Some x \<Rightarrow> if x < stamp_word pivot then run_tree args w a s left else run_tree args w a s right)"
| "run_tree args w a s (EqCheck pivot t) =
     (case s of
        None \<Rightarrow> (GfUndefined, w)
      | Some x \<Rightarrow> if x = stamp_word pivot then run_tree args w a s t else (DispatchMiss args, w))"
| "run_tree args w a s (RangeCheck mn mx t) =
     (case s of
        None \<Rightarrow> (GfUndefined, w)
      | Some x \<Rightarrow> if stamp_word mn \<le> x \<and> x \<le> stamp_word mx then run_tree args w a s t else (DispatchMiss args, w))"
| "run_tree args w a s (EqlSearch object t other) =
     (case a of
        None \<Rightarrow> (GfUndefined, w)
      | Some x \<Rightarrow> (case cl_eql w x object of
            None \<Rightarrow> (BadEql x, w)
          | Some True \<Rightarrow> run_tree args w a s t
          | Some False \<Rightarrow> run_tree args w a s other))"
| "run_tree args w a s (Outcome out) = run_outcome args w out"
| "run_tree args w a s Miss = (DispatchMiss args, w)"

section \<open>Trees laid out in a program\<close>

text \<open>Reading an opcode and its operands from a program, as far as they lie inside it.\<close>

definition op_at :: "byte list \<Rightarrow> nat \<Rightarrow> (bool \<times> nat) option" where
  "op_at prog i =
     (if i < length prog then
        (if unat (prog ! i) < op_count then Some (False, unat (prog ! i)) else Some (True, unat (prog ! i) - op_count))
      else None)"

definition operand_at :: "byte list \<Rightarrow> nat \<Rightarrow> bool \<Rightarrow> nat \<Rightarrow> nat option" where
  "operand_at prog i long off =
     (if long then
        (if i + 2 * off < length prog then Some (unat (prog ! (i + 2 * off)) * 256 + unat (prog ! (i + 2 * off - 1))) else None)
      else (if i + off < length prog then Some (unat (prog ! (i + off))) else None))"

definition literal_at :: "byte list \<Rightarrow> gval list \<Rightarrow> nat \<Rightarrow> bool \<Rightarrow> nat \<Rightarrow> gval option" where
  "literal_at prog lits i long off =
     (case operand_at prog i long off of
        Some k \<Rightarrow> if k < length lits then Some (lits ! k) else None
      | None \<Rightarrow> None)"

definition op_long :: "byte list \<Rightarrow> nat \<Rightarrow> nat \<Rightarrow> bool" where
  "op_long prog i op \<longleftrightarrow> op_at prog i = Some (True, op)"

definition op_is :: "byte list \<Rightarrow> nat \<Rightarrow> nat \<Rightarrow> bool" where
  "op_is prog i op \<longleftrightarrow> op_at prog i = Some (False, op) \<or> op_at prog i = Some (True, op)"

definition label_to :: "byte list \<Rightarrow> nat \<Rightarrow> bool \<Rightarrow> nat \<Rightarrow> (nat \<Rightarrow> bool) \<Rightarrow> bool" where
  "label_to prog i long off P = (case operand_at prog i long off of Some d \<Rightarrow> P (i + d) | None \<Rightarrow> False)"

text \<open>
  \<open>laid_out prog lits i t\<close>: the instructions of the tree \<open>t\<close> begin at \<open>i\<close>; the default branch of a node follows it, the
  others are reached through labels.  Arguments up to the fifth have opcodes of their own.
\<close>

definition laid_out_outcome :: "byte list \<Rightarrow> gval list \<Rightarrow> nat \<Rightarrow> outcome \<Rightarrow> bool" where
  "laid_out_outcome prog lits i out =
     (case out of
        EffectiveMethod f \<Rightarrow> op_is prog i 12 \<and> literal_at prog lits i (op_long prog i 12) 1 = Some f
      | SlotReader loc name \<Rightarrow>
          (let op = (case loc of GFix _ \<Rightarrow> 8 | _ \<Rightarrow> 10) in
           op_is prog i op \<and> literal_at prog lits i (op_long prog i op) 1 = Some loc \<and>
           literal_at prog lits i (op_long prog i op) 2 = Some name)
      | SlotWriter loc \<Rightarrow>
          (let op = (case loc of GFix _ \<Rightarrow> 9 | _ \<Rightarrow> 11) in
           op_is prog i op \<and> literal_at prog lits i (op_long prog i op) 1 = Some loc))"

fun laid_out :: "byte list \<Rightarrow> gval list \<Rightarrow> nat \<Rightarrow> dtree \<Rightarrow> bool" where
  "laid_out prog lits i (Argument n t) =
     (if op_is prog i (13 + n) \<and> n < 5 then laid_out prog lits (Suc i) t
      else op_is prog i 18 \<and> operand_at prog i (op_long prog i 18) 1 = Some n \<and>
           laid_out prog lits (i + arg_offset (op_long prog i 18) 2) t)"
| "laid_out prog lits i (TagTest fix single char cons general) \<longleftrightarrow>
     op_is prog i 2 \<and>
     label_to prog i (op_long prog i 2) 1 (\<lambda>j. laid_out prog lits j fix) \<and>
     label_to prog i (op_long prog i 2) 2 (\<lambda>j. laid_out prog lits j single) \<and>
     label_to prog i (op_long prog i 2) 3 (\<lambda>j. laid_out prog lits j char) \<and>
     label_to prog i (op_long prog i 2) 4 (\<lambda>j. laid_out prog lits j cons) \<and>
     laid_out prog lits (i + arg_offset (op_long prog i 2) 5) general"
| "laid_out prog lits i (StampRead cxx other) \<longleftrightarrow>
     op_is prog i 3 \<and>
     label_to prog i (op_long prog i 3) 1 (\<lambda>j. laid_out prog lits j cxx) \<and>
     laid_out prog lits (i + arg_offset (op_long prog i 3) 2) other"
| "laid_out prog lits i (LtBranch pivot left right) \<longleftrightarrow>
     op_is prog i 4 \<and> literal_at prog lits i (op_long prog i 4) 1 = Some (GFix pivot) \<and>
     label_to prog i (op_long prog i 4) 2 (\<lambda>j. laid_out prog lits j left) \<and>
     laid_out prog lits (i + arg_offset (op_long prog i 4) 3) right"
| "laid_out prog lits i (EqCheck pivot t) \<longleftrightarrow>
     op_is prog i 5 \<and> literal_at prog lits i (op_long prog i 5) 1 = Some (GFix pivot) \<and>
     laid_out prog lits (i + arg_offset (op_long prog i 5) 2) t"
| "laid_out prog lits i (RangeCheck mn mx t) \<longleftrightarrow>
     op_is prog i 6 \<and> literal_at prog lits i (op_long prog i 6) 1 = Some (GFix mn) \<and>
     literal_at prog lits i (op_long prog i 6) 2 = Some (GFix mx) \<and>
     laid_out prog lits (i + arg_offset (op_long prog i 6) 3) t"
| "laid_out prog lits i (EqlSearch object t other) \<longleftrightarrow>
     op_is prog i 7 \<and> literal_at prog lits i (op_long prog i 7) 1 = Some object \<and>
     label_to prog i (op_long prog i 7) 2 (\<lambda>j. laid_out prog lits j t) \<and>
     laid_out prog lits (i + arg_offset (op_long prog i 7) 3) other"
| "laid_out prog lits i (Outcome out) \<longleftrightarrow> laid_out_outcome prog lits i out"
| "laid_out prog lits i Miss \<longleftrightarrow> op_is prog i 0"

text \<open>Every argument the tree asks for has been passed.\<close>

fun args_needed :: "dtree \<Rightarrow> nat" where
  "args_needed (Argument n t) = max (Suc n) (args_needed t)"
| "args_needed (TagTest a b c d e) = max (args_needed a) (max (args_needed b) (max (args_needed c) (max (args_needed d) (args_needed e))))"
| "args_needed (StampRead a b) = max (args_needed a) (args_needed b)"
| "args_needed (LtBranch _ a b) = max (args_needed a) (args_needed b)"
| "args_needed (EqCheck _ a) = args_needed a"
| "args_needed (RangeCheck _ _ a) = args_needed a"
| "args_needed (EqlSearch _ a b) = max (args_needed a) (args_needed b)"
| "args_needed (Outcome _) = 0"
| "args_needed Miss = 0"

section \<open>The interpreter runs laid out trees\<close>

lemma dtree_loop_step:
  "dtree_step c w r = GfNext r' \<Longrightarrow> dtree_loop c w r = dtree_loop c w r'"
  "dtree_step c w r = GfStop res w' \<Longrightarrow> dtree_loop c w r = Some (res, w')"
  by (simp_all add: dtree_loop.simps)

lemma op_is_step:
  assumes "op_is (program c) (ip r) op" "op < op_count"
  shows "dtree_step c w r = dtree_case (op_long (program c) (ip r) op) op c w r"
  using assms
  by (auto simp: dtree_step_def nth_or_def op_is_def op_long_def op_at_def op_count_def split: if_splits)

lemma node_steps:
  "op_is (program c) (ip r) 2 \<Longrightarrow> dtree_step c w r = op_tag_test (op_long (program c) (ip r) 2) c w r"
  "op_is (program c) (ip r) 3 \<Longrightarrow> dtree_step c w r = op_stamp_read (op_long (program c) (ip r) 3) c w r"
  "op_is (program c) (ip r) 4 \<Longrightarrow> dtree_step c w r = op_lt_branch (op_long (program c) (ip r) 4) c w r"
  "op_is (program c) (ip r) 5 \<Longrightarrow> dtree_step c w r = op_eq_check (op_long (program c) (ip r) 5) c w r"
  "op_is (program c) (ip r) 6 \<Longrightarrow> dtree_step c w r = op_range_check (op_long (program c) (ip r) 6) c w r"
  "op_is (program c) (ip r) 7 \<Longrightarrow> dtree_step c w r = op_eql (op_long (program c) (ip r) 7) c w r"
  "op_is (program c) (ip r) 18 \<Longrightarrow> dtree_step c w r = op_argn (op_long (program c) (ip r) 18) c w r"
  "op_is (program c) (ip r) 0 \<Longrightarrow> dtree_step c w r = GfStop (DispatchMiss (lcc_args c)) w"
  by (simp_all add: op_is_step[of c r] dtree_case_def op_count_def)

lemma read_arg_operand:
  assumes "operand_at (program c) i long off = Some d" "0 < off"
  shows "read_arg long c i off w k = k d"
proof -
  have "i + 1 + 2 * (off - 1) = i + 2 * off - 1" "i + 1 + 2 * (off - 1) + 1 = i + 2 * off" using assms(2) by auto
  with assms show ?thesis
    by (auto simp: operand_at_def read_arg_def nth_or_def split: if_splits)
qed

lemma read_literal_operand:
  assumes "literal_at (program c) (literals c) i long off = Some v" "0 < off"
  shows "read_literal long c i off w k = k v"
  using assms by (auto simp: literal_at_def read_literal_def read_arg_operand nth_or_def split: option.splits if_splits)

lemma jump_by_label:
  assumes "label_to (program c) (ip r) long off P" "0 < off"
  obtains j where "jump_by long c w off r = GfNext (r\<lparr>ip := j\<rparr>)" "P j"
  using assms by (auto simp: label_to_def jump_by_def read_arg_operand split: option.splits)

lemmas dtree_ops = dtree_case_def skip_to_def read_literal_tagged_def some_or_def nth_or_def op_count_def
  read_literal_operand read_arg_operand

lemma run_outcome_laid_out:
  assumes "laid_out_outcome (program c) (literals c) (ip r) out"
  shows "dtree_loop c w r = Some (run_outcome (lcc_args c) w out)"
proof (cases out)
  case (SlotReader loc name)
  with assms show ?thesis
    by (cases loc) (auto simp: laid_out_outcome_def run_outcome_def op_is_step dtree_ops op_slot_read_def op_car_def Let_def
      fixnum_index_def general_pointer_def cons_pointer_def value_or_unbound_def
      intro!: dtree_loop_step(2) split: gval.splits)
next
  case (SlotWriter loc)
  with assms show ?thesis
    by (cases loc) (auto simp: laid_out_outcome_def run_outcome_def op_is_step dtree_ops op_slot_write_def op_rplaca_def Let_def
      fixnum_index_def general_pointer_def cons_pointer_def
      intro!: dtree_loop_step(2) split: gval.splits)
next
  case (EffectiveMethod f)
  with assms show ?thesis
    by (auto simp: laid_out_outcome_def run_outcome_def op_is_step dtree_ops op_effective_method_def
      intro!: dtree_loop_step(2))
qed

text \<open>
  For one node: the step of its instruction, then the induction hypothesis at the branch taken.
\<close>

lemmas branch_simps = node_steps label_to_def jump_by_def read_arg_operand skip_to_def some_or_def
  read_literal_tagged_def read_literal_operand

lemma dtree_loop_runs_tree:
  assumes "laid_out (program c) (literals c) (ip r) t" "args_needed t \<le> nargs c"
  shows "dtree_loop c w r = Some (run_tree (lcc_args c) w (arg r) (stamp r) t)"
  using assms
proof (induction t arbitrary: r)
  case (Argument n t)
  note IH = Argument.IH[of "r\<lparr>arg := _, ip := _\<rparr>", simplified]
  from Argument.prems show ?case
    by (subst dtree_loop.simps)
      (auto simp: branch_simps op_argn_def op_farg_def op_is_step[of c r "13 + n"] dtree_case_def op_count_def IH
        split: option.splits if_splits)
next
  case (TagTest fix' single char cons' general)
  note IH = TagTest.IH[of "r\<lparr>ip := _\<rparr>", simplified]
  from TagTest.prems show ?case
    by (subst dtree_loop.simps) (auto simp: branch_simps op_tag_test_def IH split: option.splits gval.splits)
next
  case (StampRead cxx other)
  note IH = StampRead.IH[of "r\<lparr>stamp := _, ip := _\<rparr>", simplified]
  from StampRead.prems show ?case
    by (subst dtree_loop.simps) (auto simp: branch_simps op_stamp_read_def cxx_object_def read_stamp_def Let_def IH
      split: option.splits gval.splits)
next
  case (LtBranch pivot left right)
  note IH = LtBranch.IH[of "r\<lparr>ip := _\<rparr>", simplified]
  from LtBranch.prems show ?case
    by (subst dtree_loop.simps) (auto simp: branch_simps op_lt_branch_def IH split: option.splits)
next
  case (EqCheck pivot t)
  note IH = EqCheck.IH[of "r\<lparr>ip := _\<rparr>", simplified]
  from EqCheck.prems show ?case
    by (subst dtree_loop.simps) (auto simp: branch_simps op_eq_check_def IH split: option.splits)
next
  case (RangeCheck mn mx t)
  note IH = RangeCheck.IH[of "r\<lparr>ip := _\<rparr>", simplified]
  from RangeCheck.prems show ?case
    by (subst dtree_loop.simps) (auto simp: branch_simps op_range_check_def not_less IH split: option.splits)
next
  case (EqlSearch object t other)
  note IH = EqlSearch.IH[of "r\<lparr>ip := _\<rparr>", simplified]
  from EqlSearch.prems show ?case
    by (subst dtree_loop.simps) (auto simp: branch_simps op_eql_def IH split: option.splits)
next
  case (Outcome out)
  then show ?case by (simp add: run_outcome_laid_out)
next
  case Miss
  then show ?case by (simp add: node_steps dtree_loop_step)
qed

end
