(* ===== verification/GfBuild.thy ===== *)
theory GfBuild
  imports GfTree
begin

text \<open>
  How the decision tree of a generic function is made from its call history (\<open>dtree.lisp\<close>): entries are added to a
  basic tree that branches on one specializer after the other, and the branches of a node are compiled into
  searches over \<open>eql\<close> objects, tags and ranges of stamps.
\<close>

section \<open>Basic trees\<close>

text \<open>A class is known by its stamp for instances, a fixnum.\<close>

datatype specializer =
    EqlSpec gval
  | ClassSpec int

datatype btree =
    BTest nat "(specializer \<times> btree) list"
  | BOutcome outcome

text \<open>One entry of the call history: the specializers of all arguments and the outcome.\<close>

type_synonym call_entry = "specializer list \<times> outcome"

fun bc_remaining_subtree :: "specializer list \<Rightarrow> outcome \<Rightarrow> nat list \<Rightarrow> btree" where
  "bc_remaining_subtree specs out [] = BOutcome out"
| "bc_remaining_subtree specs out (i # is) = BTest i [(specs ! i, bc_remaining_subtree specs out is)]"

text \<open>\<open>assoc\<close> finds the first pair with the key, which is then changed in place.\<close>

fun change_first :: "'k \<Rightarrow> 'v \<Rightarrow> ('k \<times> 'v) list \<Rightarrow> ('k \<times> 'v) list" where
  "change_first k v [] = []"
| "change_first k v ((k', v') # ps) = (if k' = k then (k', v) # ps else (k', v') # change_first k v ps)"

text \<open>\<open>None\<close> is the error about a redundant entry.\<close>

fun bc_add_entry :: "specializer list \<Rightarrow> outcome \<Rightarrow> nat list \<Rightarrow> btree \<Rightarrow> btree option" where
  "bc_add_entry specs out [] node = Some node"
| "bc_add_entry specs out (i # is) (BOutcome o') = None"
| "bc_add_entry specs out (i # is) (BTest j paths) =
     (case map_of paths (specs ! i) of
        Some t \<Rightarrow>
          (case bc_add_entry specs out is t of
             Some t' \<Rightarrow> Some (BTest j (change_first (specs ! i) t' paths))
           | None \<Rightarrow> None)
      | None \<Rightarrow> Some (BTest j ((specs ! i, bc_remaining_subtree specs out is) # paths)))"

fun bc_add_entries :: "nat list \<Rightarrow> call_entry list \<Rightarrow> btree \<Rightarrow> btree option" where
  "bc_add_entries is [] node = Some node"
| "bc_add_entries is ((specs, out) # es) node =
     (case bc_add_entry specs out is node of Some node' \<Rightarrow> bc_add_entries is es node' | None \<Rightarrow> None)"

text \<open>The specializer profile says which arguments are specialized by some method.\<close>

definition specializer_indices :: "bool list \<Rightarrow> nat list" where
  "specializer_indices profile = filter (\<lambda>i. profile ! i) [0..<length profile]"

text \<open>The tree, and the number of arguments up to the last specialized one.\<close>

definition bc_basic_tree :: "call_entry list \<Rightarrow> bool list \<Rightarrow> (btree \<times> nat) option" where
  "bc_basic_tree history profile =
     (if history = [] then None
      else if specializer_indices profile = [] then Some (BOutcome (snd (hd history)), 0)
      else map_option (\<lambda>t. (t, Suc (last (specializer_indices profile))))
        (bc_add_entries (specializer_indices profile) history (BTest (hd (specializer_indices profile)) [])))"

section \<open>Searches over stamps\<close>

text \<open>Ranges of stamps, both ends included, with the tree to go on with.\<close>

type_synonym stamp_range = "int \<times> int \<times> dtree"

text \<open>
  \<open>core__stamps_adjacent_p\<close> compares the stamps without the bits that say where they are stored.  Subtrees are the same
  only if they are the same outcome: outcomes are cached, other nodes are made afresh.
\<close>

definition stamps_adjacent_p :: "int \<Rightarrow> int \<Rightarrow> bool" where
  "stamps_adjacent_p a b \<longleftrightarrow> a div 8 + 1 = b div 8"

fun next_eq :: "dtree \<Rightarrow> dtree \<Rightarrow> bool" where
  "next_eq (Outcome a) (Outcome b) \<longleftrightarrow> a = b"
| "next_eq _ _ \<longleftrightarrow> False"

fun insert_sorted :: "int \<times> dtree \<Rightarrow> (int \<times> dtree) list \<Rightarrow> (int \<times> dtree) list" where
  "insert_sorted x [] = [x]"
| "insert_sorted x (y # ys) = (if fst x < fst y then x # y # ys else y # insert_sorted x ys)"

fun merge_ranges :: "stamp_range \<Rightarrow> (int \<times> dtree) list \<Rightarrow> stamp_range list" where
  "merge_ranges cur [] = [cur]"
| "merge_ranges (lo, hi, t) ((s, t') # ps) =
     (if stamps_adjacent_p hi s \<and> next_eq t t' then merge_ranges (lo, s, t) ps
      else (lo, hi, t) # merge_ranges (s, s, t') ps)"

fun classes_to_ranges :: "(int \<times> dtree) list \<Rightarrow> stamp_range list" where
  "classes_to_ranges [] = []"
| "classes_to_ranges ((s, t) # ps) = merge_ranges (s, s, t) ps"

function compile_ranges :: "stamp_range list \<Rightarrow> dtree" where
  "compile_ranges [] = Miss"
| "compile_ranges [(lo, hi, t)] = (if lo = hi then EqCheck lo t else RangeCheck lo hi t)"
| "compile_ranges (r1 # r2 # rs) =
     (let matches = r1 # r2 # rs; half = length matches div 2;
          left = take half matches; right = drop half matches
      in LtBranch (fst (hd right)) (compile_ranges left) (compile_ranges right))"
  by pat_completeness auto
termination by (relation "measure length") auto

section \<open>Compiling a node\<close>

text \<open>
  What the running system says of classes: the stamps of the four classes with tags of their own, in the order of
  \<open>*tag-tests*\<close>, and the bound \<open>+c++-stamp-max+\<close> below which stamps are kept in headers.
\<close>

record gf_classes =
  fixnum_stamp :: int
  single_stamp :: int
  character_stamp :: int
  cons_stamp :: int
  cxx_stamp_max :: int

definition tag_spec_p :: "gf_classes \<Rightarrow> int \<Rightarrow> bool" where
  "tag_spec_p k s \<longleftrightarrow> s \<in> {fixnum_stamp k, single_stamp k, character_stamp k, cons_stamp k}"

text \<open>\<open>differentiate-specializers\<close>: the paths by kind; of two entries for one tag the later one counts.\<close>

fun eql_paths :: "(specializer \<times> dtree) list \<Rightarrow> (gval \<times> dtree) list" where
  "eql_paths [] = []"
| "eql_paths ((EqlSpec v, t) # ps) = eql_paths ps @ [(v, t)]"
| "eql_paths ((ClassSpec s, t) # ps) = eql_paths ps"

fun tag_path :: "int \<Rightarrow> (specializer \<times> dtree) list \<Rightarrow> dtree option" where
  "tag_path s [] = None"
| "tag_path s ((EqlSpec v, t) # ps) = tag_path s ps"
| "tag_path s ((ClassSpec s', t) # ps) =
     (case tag_path s ps of Some t' \<Rightarrow> Some t' | None \<Rightarrow> if s' = s then Some t else None)"

fun stamp_paths :: "(int \<Rightarrow> bool) \<Rightarrow> (specializer \<times> dtree) list \<Rightarrow> (int \<times> dtree) list \<Rightarrow> (int \<times> dtree) list" where
  "stamp_paths P [] acc = acc"
| "stamp_paths P ((EqlSpec v, t) # ps) acc = stamp_paths P ps acc"
| "stamp_paths P ((ClassSpec s, t) # ps) acc = stamp_paths P ps (if P s then insert_sorted (s, t) acc else acc)"

definition cxx_paths :: "gf_classes \<Rightarrow> (specializer \<times> dtree) list \<Rightarrow> (int \<times> dtree) list" where
  "cxx_paths k ps = stamp_paths (\<lambda>s. \<not> tag_spec_p k s \<and> s < cxx_stamp_max k) ps []"

definition other_paths :: "gf_classes \<Rightarrow> (specializer \<times> dtree) list \<Rightarrow> (int \<times> dtree) list" where
  "other_paths k ps = stamp_paths (\<lambda>s. \<not> tag_spec_p k s \<and> \<not> s < cxx_stamp_max k) ps []"

definition or_miss :: "dtree option \<Rightarrow> dtree" where
  "or_miss t = (case t of Some t' \<Rightarrow> t' | None \<Rightarrow> Miss)"

definition compile_tag_test :: "gf_classes \<Rightarrow> (specializer \<times> dtree) list \<Rightarrow> dtree \<Rightarrow> dtree" where
  "compile_tag_test k ps where_test =
     TagTest (or_miss (tag_path (fixnum_stamp k) ps)) (or_miss (tag_path (single_stamp k) ps))
       (or_miss (tag_path (character_stamp k) ps)) (or_miss (tag_path (cons_stamp k) ps)) where_test"

fun compile_eql_search :: "(gval \<times> dtree) list \<Rightarrow> dtree \<Rightarrow> dtree" where
  "compile_eql_search [] next = next"
| "compile_eql_search ((v, t) # es) next = EqlSearch v t (compile_eql_search es next)"

definition stamp_test :: "gf_classes \<Rightarrow> (specializer \<times> dtree) list \<Rightarrow> dtree" where
  "stamp_test k ps =
     (let cxx = compile_ranges (classes_to_ranges (cxx_paths k ps));
          other = compile_ranges (classes_to_ranges (other_paths k ps))
      in if cxx = Miss \<and> other = Miss then Miss else StampRead cxx other)"

definition tag_test :: "gf_classes \<Rightarrow> (specializer \<times> dtree) list \<Rightarrow> dtree" where
  "tag_test k ps =
     (if stamp_test k ps = Miss \<and>
         (\<forall>s \<in> {fixnum_stamp k, single_stamp k, character_stamp k, cons_stamp k}. tag_path s ps = None)
      then Miss else compile_tag_test k ps (stamp_test k ps))"

definition compile_test :: "gf_classes \<Rightarrow> nat \<Rightarrow> (specializer \<times> dtree) list \<Rightarrow> dtree" where
  "compile_test k i ps = Argument i (compile_eql_search (eql_paths ps) (tag_test k ps))"

fun compile_tree :: "gf_classes \<Rightarrow> btree \<Rightarrow> dtree" where
  "compile_tree k (BOutcome out) = Outcome out"
| "compile_tree k (BTest i paths) = compile_test k i (map (\<lambda>(s, t). (s, compile_tree k t)) paths)"

definition dtree_compile :: "gf_classes \<Rightarrow> call_entry list \<Rightarrow> bool list \<Rightarrow> (dtree \<times> nat) option" where
  "dtree_compile k history profile = map_option (\<lambda>(t, n). (compile_tree k t, n)) (bc_basic_tree history profile)"

section \<open>Searches find the range of a stamp\<close>

text \<open>Stamps are small enough for fixnums.\<close>

definition stamp_ok :: "int \<Rightarrow> bool" where
  "stamp_ok s \<longleftrightarrow> 0 \<le> s \<and> s < 2 ^ 61"

lemma stamp_word_uint: "stamp_ok s \<Longrightarrow> uint (stamp_word s) = 4 * s"
  by (simp add: stamp_ok_def push_bit_eq_mult uint_word_ariths uint_word_of_int)

lemma stamp_word_order:
  "stamp_ok a \<Longrightarrow> stamp_ok b \<Longrightarrow> stamp_word a < stamp_word b \<longleftrightarrow> a < b"
  "stamp_ok a \<Longrightarrow> stamp_ok b \<Longrightarrow> stamp_word a \<le> stamp_word b \<longleftrightarrow> a \<le> b"
  "stamp_ok a \<Longrightarrow> stamp_ok b \<Longrightarrow> stamp_word a = stamp_word b \<longleftrightarrow> a = b"
  by (simp_all add: word_less_def word_le_def stamp_word_uint word_uint_eq_iff)

fun in_range :: "int \<Rightarrow> stamp_range \<Rightarrow> bool" where
  "in_range x (lo, hi, t) \<longleftrightarrow> lo \<le> x \<and> x \<le> hi"

text \<open>Ranges in increasing order that do not meet.\<close>

fun range_ok :: "stamp_range \<Rightarrow> bool" where
  "range_ok (lo, hi, t) \<longleftrightarrow> stamp_ok lo \<and> stamp_ok hi \<and> lo \<le> hi"

definition ranges_ok :: "stamp_range list \<Rightarrow> bool" where
  "ranges_ok rs \<longleftrightarrow> (\<forall>r \<in> set rs. range_ok r) \<and> sorted_wrt (\<lambda>r1 r2. fst (snd r1) < fst r2) rs"

definition range_of :: "int \<Rightarrow> stamp_range list \<Rightarrow> dtree option" where
  "range_of x rs = map_option (snd \<circ> snd) (find (in_range x) rs)"

lemma find_append: "find P (xs @ ys) = (case find P xs of None \<Rightarrow> find P ys | Some x \<Rightarrow> Some x)"
  by (induction xs) auto

lemma ranges_ok_append:
  "ranges_ok (xs @ ys) \<longleftrightarrow> ranges_ok xs \<and> ranges_ok ys \<and> (\<forall>x \<in> set xs. \<forall>y \<in> set ys. fst (snd x) < fst y)"
  by (auto simp: ranges_ok_def sorted_wrt_append)

lemma range_of_append_left:
  assumes "ranges_ok (xs @ ys)" "ys \<noteq> []" "x < fst (hd ys)"
  shows "range_of x (xs @ ys) = range_of x xs"
proof -
  have "\<not> in_range x r" if "r \<in> set ys" for r
  proof -
    from assms(2) obtain y ys' where ys: "ys = y # ys'" by (cases ys) auto
    have "fst y \<le> fst r"
    proof (cases "r = y")
      case False
      with that ys assms(1) have "fst (snd y) < fst r" "range_ok y" by (auto simp: ranges_ok_def sorted_wrt_append)
      then show ?thesis by (cases y) auto
    qed simp
    with assms(3) ys show ?thesis by (cases r) auto
  qed
  then have "find (in_range x) ys = None" by (auto simp: find_None_iff)
  then show ?thesis by (simp add: range_of_def find_append split: option.split)
qed

lemma range_of_append_right:
  assumes "ranges_ok (xs @ ys)" "ys \<noteq> []" "\<not> x < fst (hd ys)"
  shows "range_of x (xs @ ys) = range_of x ys"
proof -
  have "\<not> in_range x r" if "r \<in> set xs" for r
  proof -
    from assms(1,2) that have "fst (snd r) < fst (hd ys)" by (simp add: ranges_ok_append)
    with assms(3) show ?thesis by (cases r) auto
  qed
  then have "find (in_range x) xs = None" by (auto simp: find_None_iff)
  then show ?thesis by (simp add: range_of_def find_append)
qed

text \<open>The binary search over ranges finds the range that contains the stamp, if there is one.\<close>

lemma run_compile_ranges:
  assumes "ranges_ok rs" "stamp_ok x"
  shows "run_tree args w a (Some (stamp_word x)) (compile_ranges rs) =
    (case range_of x rs of Some t \<Rightarrow> run_tree args w a (Some (stamp_word x)) t | None \<Rightarrow> (DispatchMiss args, w))"
  using assms(1)
proof (induction rs rule: compile_ranges.induct)
  case 1
  then show ?case by (simp add: range_of_def)
next
  case (2 lo hi t)
  with assms(2) show ?case
    by (auto simp: ranges_ok_def range_of_def stamp_word_order)
next
  case (3 r1 r2 rs)
  let ?m = "r1 # r2 # rs"
  let ?l = "take (length ?m div 2) ?m"
  let ?r = "drop (length ?m div 2) ?m"
  have r: "?r \<noteq> []" by simp
  have m: "?l @ ?r = ?m" by (rule append_take_drop_id)
  have ok: "ranges_ok ?l" "ranges_ok ?r" using "3.prems" m by (metis ranges_ok_append)+
  have pivot: "stamp_ok (fst (hd ?r))"
  proof -
    have "range_ok (hd ?r)" using ok(2) hd_in_set[OF r] by (simp only: ranges_ok_def)
    then show ?thesis by (cases "hd ?r") (simp only: range_ok.simps fst_conv)
  qed
  have tree: "compile_ranges ?m = LtBranch (fst (hd ?r)) (compile_ranges ?l) (compile_ranges ?r)"
    by (simp only: compile_ranges.simps Let_def)
  note IH = "3.IH"[OF refl refl refl refl]
  show ?case
  proof (cases "x < fst (hd ?r)")
    case True
    have "range_of x ?m = range_of x ?l" using range_of_append_left[of ?l ?r x] "3.prems" m r True by metis
    with True pivot assms(2) IH(1)[OF ok(1)] show ?thesis by (simp only: tree run_tree.simps option.case stamp_word_order if_True)
  next
    case False
    have "range_of x ?m = range_of x ?r" using range_of_append_right[of ?l ?r x] "3.prems" m r False by metis
    with False pivot assms(2) IH(2)[OF ok(2)] show ?thesis by (simp only: tree run_tree.simps option.case stamp_word_order if_False)
  qed
qed

text \<open>
  A set of stamps of classes: no two differ only in the bits that say where the stamp is stored.
\<close>

definition class_stamps :: "int set \<Rightarrow> bool" where
  "class_stamps K \<longleftrightarrow> (\<forall>s \<in> K. stamp_ok s) \<and> inj_on (\<lambda>s. s div 8) K"

lemma between_adjacent:
  assumes "class_stamps K" "hi \<in> K" "s \<in> K" "x \<in> K" "stamps_adjacent_p hi s" "hi < x" "x \<le> s"
  shows "x = s"
proof -
  have "hi div 8 \<le> x div 8" "x div 8 \<le> s div 8" using assms(6,7) by (auto intro: zdiv_mono1)
  with assms(5) have "x div 8 = hi div 8 \<or> x div 8 = s div 8" by (auto simp: stamps_adjacent_p_def)
  moreover have "x = y" if "x div 8 = y div 8" "y \<in> K" for y
    using assms(1,4) that by (auto simp: class_stamps_def dest: inj_onD)
  ultimately show ?thesis using assms by auto
qed

lemma next_eq_imp: "next_eq t t' \<Longrightarrow> t = t'"
  by (induction t t' rule: next_eq.induct) auto

lemma merge_ranges_ok:
  assumes "range_ok (lo, hi, t)" "sorted_wrt (<) (hi # map fst ps)" "\<forall>p \<in> set ps. stamp_ok (fst p)"
  shows "ranges_ok (merge_ranges (lo, hi, t) ps) \<and> (\<forall>r \<in> set (merge_ranges (lo, hi, t) ps). lo \<le> fst r)"
  using assms
proof (induction "(lo, hi, t)" ps arbitrary: lo hi t rule: merge_ranges.induct)
  case (1 lo hi t)
  then show ?case by (simp add: ranges_ok_def)
next
  case (2 lo hi t s t' ps)
  show ?case
  proof (cases "stamps_adjacent_p hi s \<and> next_eq t t'")
    case True
    then show ?thesis using 2 by (auto simp: dest: order_trans)
  next
    case False
    then have "ranges_ok (merge_ranges (s, s, t') ps)" "\<forall>r \<in> set (merge_ranges (s, s, t') ps). s \<le> fst r"
      using 2 by auto
    moreover have "lo \<le> hi" "hi < s" "range_ok (lo, hi, t)" using "2.prems" by auto
    ultimately show ?thesis using False by (fastforce simp: ranges_ok_def)
  qed
qed

lemma range_of_merge_ranges:
  assumes "class_stamps K" "x \<in> K" "hi \<in> K" "fst ` set ps \<subseteq> K" "lo \<le> hi" "sorted_wrt (<) (hi # map fst ps)"
  shows "range_of x (merge_ranges (lo, hi, t) ps) = (if lo \<le> x \<and> x \<le> hi then Some t else map_of ps x)"
  using assms(3-)
proof (induction "(lo, hi, t)" ps arbitrary: lo hi t rule: merge_ranges.induct)
  case (1 lo hi t)
  then show ?case by (simp add: range_of_def)
next
  case (2 lo hi t s t' ps)
  show ?case
  proof (cases "stamps_adjacent_p hi s \<and> next_eq t t'")
    case True
    then have "range_of x (merge_ranges (lo, s, t) ps) = (if lo \<le> x \<and> x \<le> s then Some t else map_of ps x)"
      using 2 by auto
    moreover have "x = s" if "hi < x" "x \<le> s"
      using between_adjacent[OF assms(1) _ _ assms(2) _ that] True "2.prems" by auto
    ultimately show ?thesis using True "2.prems" next_eq_imp[of t t'] by auto
  next
    case False
    then have "range_of x (merge_ranges (s, s, t') ps) = (if s \<le> x \<and> x \<le> s then Some t' else map_of ps x)"
      using 2 by auto
    then show ?thesis using False "2.prems" by (auto simp: range_of_def)
  qed
qed

text \<open>The branches of sorted classes: the search finds the branch of the class with the given stamp.\<close>

lemma run_class_search:
  assumes "class_stamps K" "x \<in> K" "fst ` set ps \<subseteq> K" "sorted_wrt (<) (map fst ps)"
  shows "run_tree args w a (Some (stamp_word x)) (compile_ranges (classes_to_ranges ps)) =
    (case map_of ps x of Some t \<Rightarrow> run_tree args w a (Some (stamp_word x)) t | None \<Rightarrow> (DispatchMiss args, w))"
proof (cases ps)
  case (Cons p qs)
  obtain s t where p: "p = (s, t)" by (cases p)
  have ok: "stamp_ok y" if "y \<in> K" for y using assms(1) that by (simp add: class_stamps_def)
  have "ranges_ok (merge_ranges (s, s, t) qs)"
    using merge_ranges_ok[of s s t qs] assms(3,4) ok Cons p by auto
  moreover have "range_of x (merge_ranges (s, s, t) qs) = map_of ps x"
    using range_of_merge_ranges[OF assms(1,2), of s qs s t] assms(3,4) Cons p by auto
  ultimately show ?thesis using run_compile_ranges ok[OF assms(2)] Cons p by simp
qed simp

section \<open>The branches of a node by kind\<close>

lemma insert_sorted_sorted:
  "sorted_wrt (<) (map fst ps) \<Longrightarrow> fst x \<notin> fst ` set ps \<Longrightarrow>
   sorted_wrt (<) (map fst (insert_sorted x ps)) \<and> set (insert_sorted x ps) = insert x (set ps)"
  by (induction ps) (auto simp: less_le)

lemma map_of_insert_sorted:
  "fst x \<notin> fst ` set ps \<Longrightarrow> map_of (insert_sorted x ps) = (map_of ps)(fst x \<mapsto> snd x)"
  by (induction ps) (auto simp: fun_eq_iff)

lemma stamp_paths_sorted:
  assumes "distinct (map fst ps)" "sorted_wrt (<) (map fst acc)" "\<forall>s \<in> fst ` set acc. ClassSpec s \<notin> fst ` set ps"
  shows "sorted_wrt (<) (map fst (stamp_paths P ps acc)) \<and>
    fst ` set (stamp_paths P ps acc) \<subseteq> fst ` set acc \<union> {s. ClassSpec s \<in> fst ` set ps \<and> P s}"
  using assms
proof (induction P ps acc rule: stamp_paths.induct)
  case (3 P s t ps acc)
  let ?acc = "if P s then insert_sorted (s, t) acc else acc"
  have new: "s \<notin> fst ` set acc" using "3.prems"(3) by auto
  have sorted: "sorted_wrt (<) (map fst ?acc)" and dom: "fst ` set ?acc = fst ` set acc \<union> (if P s then {s} else {})"
    using insert_sorted_sorted[of acc "(s, t)"] "3.prems"(2) new by auto
  have keys: "\<forall>x \<in> fst ` set ?acc. ClassSpec x \<notin> fst ` set ps"
    unfolding dom using "3.prems"(1,3) by (simp split: if_splits)
  have "distinct (map fst ps)" using "3.prems"(1) by simp
  from "3.IH"[OF this sorted keys] have
    IH: "sorted_wrt (<) (map fst (stamp_paths P ps ?acc))"
        "fst ` set (stamp_paths P ps ?acc) \<subseteq> fst ` set ?acc \<union> {s. ClassSpec s \<in> fst ` set ps \<and> P s}" by blast+
  have "fst ` set ?acc \<union> {s. ClassSpec s \<in> fst ` set ps \<and> P s}
      \<subseteq> fst ` set acc \<union> {x. ClassSpec x \<in> fst ` set ((ClassSpec s, t) # ps) \<and> P x}"
    unfolding dom by (auto split: if_splits)
  with IH show ?case by (simp only: stamp_paths.simps) blast
qed auto

lemma map_of_stamp_paths:
  assumes "distinct (map fst ps)" "\<forall>s \<in> fst ` set acc. ClassSpec s \<notin> fst ` set ps" "sorted_wrt (<) (map fst acc)"
  shows "map_of (stamp_paths P ps acc) x =
    (case map_of acc x of Some t \<Rightarrow> Some t | None \<Rightarrow> if P x then map_of ps (ClassSpec x) else None)"
  using assms
proof (induction P ps acc rule: stamp_paths.induct)
  case (3 P s t ps acc)
  from 3(2-) have new: "s \<notin> fst ` set acc" by auto
  then have acc: "map_of acc s = None" by (simp add: map_of_eq_None_iff)
  have rest: "map_of ps (ClassSpec s) = None" using 3(2) by (simp add: map_of_eq_None_iff)
  show ?case
  proof (cases "P s")
    case True
    have "map_of (stamp_paths P ps (insert_sorted (s, t) acc)) x =
        (case map_of (insert_sorted (s, t) acc) x of Some t \<Rightarrow> Some t
         | None \<Rightarrow> if P x then map_of ps (ClassSpec x) else None)"
      using 3 True insert_sorted_sorted[of acc "(s, t)"] new by auto
    with True new acc show ?thesis by (auto simp: map_of_insert_sorted split: option.splits)
  next
    case False
    with 3 rest show ?thesis by (auto split: option.splits)
  qed
qed (auto split: option.splits)

lemma tag_path_map_of: "distinct (map fst ps) \<Longrightarrow> tag_path s ps = map_of ps (ClassSpec s)"
proof (induction s ps rule: tag_path.induct)
  case (3 s s' t ps)
  have "map_of ps (ClassSpec s') = None" using "3.prems" by (simp add: map_of_eq_None_iff)
  with 3 show ?case by (cases "s' = s") (auto split: option.split)
qed auto

lemma set_eql_paths: "set (eql_paths ps) = {(v, t). (EqlSpec v, t) \<in> set ps}"
  by (induction ps rule: eql_paths.induct) auto

end
