(* ===== verification/GfDispatch.thy ===== *)
theory GfDispatch
  imports GfBuild
begin

text \<open>
  A compiled decision tree takes at every node the branch of a specializer that matches the argument, or misses.
\<close>

section \<open>Specializers and arguments\<close>

text \<open>Objects with tags of their own belong to the four tagged classes, the others to the class with their stamp.\<close>

definition spec_matches :: "gf_classes \<Rightarrow> gfworld \<Rightarrow> gval \<Rightarrow> specializer \<Rightarrow> bool" where
  "spec_matches k w v spec =
     (case spec of
        EqlSpec x \<Rightarrow> cl_eql w v x = Some True
      | ClassSpec s \<Rightarrow>
          (case v of
             GFix _ \<Rightarrow> s = fixnum_stamp k
           | GSingle _ \<Rightarrow> s = single_stamp k
           | GChar _ \<Rightarrow> s = character_stamp k
           | GCons _ \<Rightarrow> s = cons_stamp k
           | GGeneral p \<Rightarrow> \<not> tag_spec_p k s \<and> stamp_ok s \<and> read_stamp w p = stamp_word s
           | _ \<Rightarrow> False))"

text \<open>
  What the running system guarantees about an argument: it has a tag the interpreter knows, and a general object
  has the stamp of a class, which lies below the bound for header stamps just if it is in the header.
\<close>

definition dispatchable :: "gf_classes \<Rightarrow> gfworld \<Rightarrow> int set \<Rightarrow> gval \<Rightarrow> bool" where
  "dispatchable k w K v =
     (case v of
        GVaslist _ \<Rightarrow> False
      | GUnbound \<Rightarrow> False
      | GGeneral p \<Rightarrow> \<exists>s \<in> K. \<not> tag_spec_p k s \<and> read_stamp w p = stamp_word s \<and> (cxx_object w p \<longleftrightarrow> s < cxx_stamp_max k)
      | _ \<Rightarrow> True)"

section \<open>One node\<close>

text \<open>The branch a node takes: one whose specializer matches, or a miss if there is none.\<close>

definition takes_branch ::
    "gf_classes \<Rightarrow> gfworld \<Rightarrow> gval list \<Rightarrow> gval \<Rightarrow> (specializer \<times> dtree) list \<Rightarrow> gf_result \<times> gfworld \<Rightarrow> bool" where
  "takes_branch k w args v ps res \<longleftrightarrow>
     (\<exists>(spec, t) \<in> set ps. spec_matches k w v spec \<and> (\<exists>a s. res = run_tree args w a s t)) \<or>
     (\<forall>(spec, t) \<in> set ps. \<not> spec_matches k w v spec) \<and> res = (DispatchMiss args, w)"

lemma run_eql_search:
  assumes "dispatchable k w K v"
  shows "(\<exists>(x, t) \<in> set es. cl_eql w v x = Some True \<and>
      run_tree args w (Some v) s (compile_eql_search es next) = run_tree args w (Some v) s t) \<or>
    (\<forall>(x, t) \<in> set es. cl_eql w v x = Some False) \<and>
      run_tree args w (Some v) s (compile_eql_search es next) = run_tree args w (Some v) s next"
proof (induction es)
  case (Cons e es)
  obtain x t where e: "e = (x, t)" by (cases e)
  from assms obtain b where "cl_eql w v x = Some b" by (cases v) (auto simp: dispatchable_def)
  with Cons e show ?case by (cases b) auto
qed simp

lemma run_or_miss:
  "run_tree args w a s (or_miss t) = (case t of Some t' \<Rightarrow> run_tree args w a s t' | None \<Rightarrow> (DispatchMiss args, w))"
  by (simp add: or_miss_def split: option.split)

lemma miss_ranges: "compile_ranges rs = Miss \<longleftrightarrow> rs = []"
  by (cases rs rule: compile_ranges.cases) (auto simp: Let_def)

lemma no_ranges: "classes_to_ranges ps = [] \<longleftrightarrow> ps = []"
proof -
  have "merge_ranges r qs \<noteq> []" for r qs by (induction r qs rule: merge_ranges.induct) auto
  then show ?thesis by (cases ps rule: classes_to_ranges.cases) auto
qed

text \<open>The search for the stamp of a general object.\<close>

lemma run_stamp_test:
  assumes "class_stamps K" "s \<in> K" "\<not> tag_spec_p k s" "read_stamp w p = stamp_word s"
    "cxx_object w p \<longleftrightarrow> s < cxx_stamp_max k" "distinct (map fst ps)" "\<forall>c. ClassSpec c \<in> fst ` set ps \<longrightarrow> c \<in> K"
  shows "\<exists>st. run_tree args w (Some (GGeneral p)) st0 (stamp_test k ps) =
    (case map_of ps (ClassSpec s) of Some t \<Rightarrow> run_tree args w (Some (GGeneral p)) st t | None \<Rightarrow> (DispatchMiss args, w))"
proof -
  let ?search = "\<lambda>P. compile_ranges (classes_to_ranges (stamp_paths P ps []))"
  let ?a = "Some (GGeneral p)"
  have search: "run_tree args w ?a (Some (stamp_word s)) (?search P) =
      (case map_of ps (ClassSpec s) of Some t \<Rightarrow> run_tree args w ?a (Some (stamp_word s)) t | None \<Rightarrow> (DispatchMiss args, w))"
    if "P s" for P
  proof -
    have "sorted_wrt (<) (map fst (stamp_paths P ps [])) \<and>
        fst ` set (stamp_paths P ps []) \<subseteq> {s. ClassSpec s \<in> fst ` set ps \<and> P s}"
      using stamp_paths_sorted[OF assms(6), of "[]" P] by simp
    with assms(7) have ps: "fst ` set (stamp_paths P ps []) \<subseteq> K" "sorted_wrt (<) (map fst (stamp_paths P ps []))" by blast+
    show ?thesis
      using run_class_search[OF assms(1,2) ps] map_of_stamp_paths[OF assms(6), of "[]" P s] that by simp
  qed
  show ?thesis
  proof (cases "stamp_test k ps = Miss")
    case True
    then have "cxx_paths k ps = []" "other_paths k ps = []"
      by (auto simp: stamp_test_def Let_def miss_ranges no_ranges split: if_splits)
    then have "map_of ps (ClassSpec s) = None"
      using map_of_stamp_paths[OF assms(6), of "[]" "\<lambda>s. \<not> tag_spec_p k s \<and> s < cxx_stamp_max k" s]
        map_of_stamp_paths[OF assms(6), of "[]" "\<lambda>s. \<not> tag_spec_p k s \<and> \<not> s < cxx_stamp_max k" s] assms(3)
      unfolding cxx_paths_def other_paths_def by (cases "s < cxx_stamp_max k") auto
    with True show ?thesis by simp
  next
    case False
    with assms(3,4,5) search[of "\<lambda>s. \<not> tag_spec_p k s \<and> s < cxx_stamp_max k"]
      search[of "\<lambda>s. \<not> tag_spec_p k s \<and> \<not> s < cxx_stamp_max k"]
    show ?thesis by (auto simp: stamp_test_def cxx_paths_def other_paths_def Let_def intro!: exI[of _ "Some (stamp_word s)"])
  qed
qed

text \<open>An argument has one class; its branch is the one for this class.\<close>

lemma run_tag_test:
  assumes "class_stamps K" "dispatchable k w K v" "distinct (map fst ps)" "\<forall>c. ClassSpec c \<in> fst ` set ps \<longrightarrow> c \<in> K"
  shows "\<exists>c st. (\<forall>c'. spec_matches k w v (ClassSpec c') \<longleftrightarrow> c' = c) \<and> run_tree args w (Some v) st0 (tag_test k ps) =
    (case map_of ps (ClassSpec c) of Some t \<Rightarrow> run_tree args w (Some v) st t | None \<Rightarrow> (DispatchMiss args, w))"
proof (cases "\<exists>p. v = GGeneral p")
  case True
  then obtain p where v: "v = GGeneral p" by auto
  with assms(2) obtain s where s: "s \<in> K" "\<not> tag_spec_p k s" "read_stamp w p = stamp_word s"
    "cxx_object w p \<longleftrightarrow> s < cxx_stamp_max k" by (auto simp: dispatchable_def)
  have "stamp_ok s" using assms(1) s(1) by (simp add: class_stamps_def)
  with s have "\<forall>c'. spec_matches k w v (ClassSpec c') \<longleftrightarrow> c' = s"
    by (auto simp: spec_matches_def v stamp_word_order)
  moreover have "run_tree args w (Some v) st0 (tag_test k ps) = run_tree args w (Some v) st0 (stamp_test k ps)"
    by (simp add: tag_test_def compile_tag_test_def v)
  ultimately show ?thesis using run_stamp_test[OF assms(1) s assms(3,4)] v by metis
next
  case False
  with assms(2) tag_path_map_of[OF assms(3)] show ?thesis
    by (cases v) (auto simp: dispatchable_def spec_matches_def tag_test_def compile_tag_test_def run_or_miss)
qed

lemma run_compile_test:
  assumes "class_stamps K" "dispatchable k w K (args ! i)" "distinct (map fst ps)"
    "\<forall>c. ClassSpec c \<in> fst ` set ps \<longrightarrow> c \<in> K"
  shows "takes_branch k w args (args ! i) ps (run_tree args w a s (compile_test k i ps))"
proof -
  let ?v = "args ! i"
  let ?res = "run_tree args w a s (compile_test k i ps)"
  have eql: "spec_matches k w ?v (EqlSpec x) \<longleftrightarrow> cl_eql w ?v x = Some True" for x by (simp add: spec_matches_def)
  from run_eql_search[OF assms(2), of "eql_paths ps" args s "tag_test k ps"] consider
    (object) x t where "(EqlSpec x, t) \<in> set ps" "cl_eql w ?v x = Some True" "?res = run_tree args w (Some ?v) s t"
  | (no_object) "\<forall>(x, t) \<in> set (eql_paths ps). cl_eql w ?v x = Some False" "?res = run_tree args w (Some ?v) s (tag_test k ps)"
    by (auto simp: set_eql_paths compile_test_def)
  then show ?thesis
  proof cases
    case object
    with eql show ?thesis unfolding takes_branch_def by blast
  next
    case no_object
    from run_tag_test[OF assms, of args s] obtain c st where c: "\<And>c'. spec_matches k w ?v (ClassSpec c') \<longleftrightarrow> c' = c"
      "run_tree args w (Some ?v) s (tag_test k ps) =
        (case map_of ps (ClassSpec c) of Some t \<Rightarrow> run_tree args w (Some ?v) st t | None \<Rightarrow> (DispatchMiss args, w))" by blast
    show ?thesis
    proof (cases "map_of ps (ClassSpec c)")
      case None
      have "\<not> spec_matches k w ?v spec" if "(spec, t) \<in> set ps" for spec t
      proof (cases spec)
        case (EqlSpec x)
        then show ?thesis using no_object(1) that eql by (auto simp: set_eql_paths)
      next
        case (ClassSpec c')
        then show ?thesis using c(1) None that by (force simp: map_of_eq_None_iff)
      qed
      with None c(2) no_object(2) show ?thesis by (auto simp: takes_branch_def)
    next
      case (Some t)
      then have "(ClassSpec c, t) \<in> set ps" by (rule map_of_SomeD)
      moreover have "spec_matches k w ?v (ClassSpec c)" by (simp add: c(1))
      ultimately show ?thesis using Some c(2) no_object(2) unfolding takes_branch_def by force
    qed
  qed
qed

section \<open>Whole trees\<close>

text \<open>The entries of a basic tree: the specializers along a path with the outcome at its end.\<close>

inductive tree_path :: "btree \<Rightarrow> (nat \<times> specializer) list \<Rightarrow> outcome \<Rightarrow> bool" where
  "tree_path (BOutcome out) [] out"
| "(spec, t) \<in> set paths \<Longrightarrow> tree_path t path out \<Longrightarrow> tree_path (BTest i paths) ((i, spec) # path) out"

inductive_cases tree_path_outcomeE: "tree_path (BOutcome out') path out"
inductive_cases tree_path_testE: "tree_path (BTest i paths) path out"

text \<open>
  A basic tree is in order if the specializers of a node are distinct, every class has a stamp of the set, and the
  arguments it tests can be dispatched on.
\<close>

fun tree_ok :: "(nat \<Rightarrow> bool) \<Rightarrow> int set \<Rightarrow> btree \<Rightarrow> bool" where
  "tree_ok D K (BOutcome out) \<longleftrightarrow> True"
| "tree_ok D K (BTest i paths) \<longleftrightarrow> D i \<and> distinct (map fst paths) \<and>
     (\<forall>(spec, t) \<in> set paths. (\<forall>c. spec = ClassSpec c \<longrightarrow> c \<in> K) \<and> tree_ok D K t)"

definition path_matches :: "gf_classes \<Rightarrow> gfworld \<Rightarrow> gval list \<Rightarrow> (nat \<times> specializer) list \<Rightarrow> bool" where
  "path_matches k w args path \<longleftrightarrow> (\<forall>(i, spec) \<in> set path. spec_matches k w (args ! i) spec)"

lemma run_compiled_tree:
  assumes "class_stamps K" "tree_ok (\<lambda>i. dispatchable k w K (args ! i)) K t"
  shows "(\<exists>path out. tree_path t path out \<and> path_matches k w args path \<and>
      run_tree args w a s (compile_tree k t) = run_outcome args w out) \<or>
    run_tree args w a s (compile_tree k t) = (DispatchMiss args, w)"
  using assms(2)
proof (induction t arbitrary: a s)
  case (BTest i paths)
  let ?ps = "map (\<lambda>(s, t). (s, compile_tree k t)) paths"
  have keys: "map fst ?ps = map fst paths" by (simp add: split_beta comp_def)
  have "fst ` set ?ps = fst ` set paths" using keys by (metis list.set_map)
  with BTest.prems have "takes_branch k w args (args ! i) ?ps (run_tree args w a s (compile_test k i ?ps))"
    by (intro run_compile_test[OF assms(1)]) (auto simp: keys simp del: map_map)
  then consider spec t a' s' where "(spec, t) \<in> set paths" "spec_matches k w (args ! i) spec"
      "run_tree args w a s (compile_test k i ?ps) = run_tree args w a' s' (compile_tree k t)"
    | "run_tree args w a s (compile_test k i ?ps) = (DispatchMiss args, w)"
    by (auto simp: takes_branch_def)
  then show ?case
  proof cases
    case 1
    from BTest.prems 1(1) have "tree_ok (\<lambda>i. dispatchable k w K (args ! i)) K t" by auto
    from BTest.IH[OF 1(1) _ this, of a' s'] 1 show ?thesis
      by (fastforce simp: path_matches_def intro: tree_path.intros)
  qed simp
next
  case (BOutcome out)
  have "tree_path (BOutcome out) [] out" by (rule tree_path.intros)
  then show ?case by (auto simp: path_matches_def intro!: exI[of _ "[]"])
qed

text \<open>A path all of whose specializers match is taken if no other specializer of the tree matches.\<close>

fun tree_specs :: "btree \<Rightarrow> (nat \<times> specializer) set" where
  "tree_specs (BOutcome out) = {}"
| "tree_specs (BTest i paths) = (\<Union>(spec, t) \<in> set paths. insert (i, spec) (tree_specs t))"

lemma run_compiled_tree_path:
  assumes "tree_path t path out" "path_matches k w args path" "class_stamps K"
    "tree_ok (\<lambda>i. dispatchable k w K (args ! i)) K t" "\<forall>(i, spec) \<in> set path. spec = f i"
    "\<forall>(i, spec) \<in> tree_specs t. spec_matches k w (args ! i) spec \<longrightarrow> spec = f i"
  shows "run_tree args w a s (compile_tree k t) = run_outcome args w out"
  using assms(1,2,4-)
proof (induction arbitrary: a s rule: tree_path.induct)
  case (2 spec t paths path out i)
  let ?ps = "map (\<lambda>(s, t). (s, compile_tree k t)) paths"
  have keys: "map fst ?ps = map fst paths" by (simp add: split_beta comp_def)
  have "fst ` set ?ps = fst ` set paths" using keys by (metis list.set_map)
  with "2.prems" have "takes_branch k w args (args ! i) ?ps (run_tree args w a s (compile_test k i ?ps))"
    by (intro run_compile_test[OF assms(3)]) (auto simp: keys simp del: map_map)
  moreover have "spec_matches k w (args ! i) spec" using "2.prems"(1) by (simp add: path_matches_def)
  ultimately obtain spec' t' a' s' where b: "(spec', t') \<in> set paths" "spec_matches k w (args ! i) spec'"
      "run_tree args w a s (compile_test k i ?ps) = run_tree args w a' s' (compile_tree k t')"
    using "2.hyps"(1) by (fastforce simp: takes_branch_def)
  have "spec' = f i" "spec = f i" using b(1,2) "2.prems"(3,4) by auto
  with b(1) "2.hyps"(1) "2.prems"(2) have "t' = t" by (auto dest: eq_key_imp_eq_value)
  moreover have "run_tree args w a' s' (compile_tree k t) = run_outcome args w out"
    using "2.prems" "2.hyps"(1) by (intro "2.IH") (auto simp: path_matches_def)
  ultimately show ?case using b(3) by simp
qed simp

end
