(* ===== verification/GfHistory.thy ===== *)
theory GfHistory
  imports GfDispatch
begin

text \<open>
  Dispatch is right: the discriminating function of a call history calls the outcome of an entry whose specializers
  match the arguments, or misses; and the function that \<open>core__build_single_dispatch_bytecode\<close> makes does not.
\<close>

section \<open>The basic tree of a call history\<close>

text \<open>
  Every path of the tree tests the same arguments; looking up specializers in it finds what the first entry with
  these specializers recorded.
\<close>

fun shaped :: "nat list \<Rightarrow> btree \<Rightarrow> bool" where
  "shaped [] (BOutcome out) \<longleftrightarrow> True"
| "shaped (i # is) (BTest j paths) \<longleftrightarrow> j = i \<and> distinct (map fst paths) \<and> (\<forall>(spec, t) \<in> set paths. shaped is t)"
| "shaped _ _ \<longleftrightarrow> False"

fun look_up :: "(nat \<Rightarrow> specializer) \<Rightarrow> btree \<Rightarrow> outcome option" where
  "look_up f (BOutcome out) = Some out"
| "look_up f (BTest i paths) =
     (case map_of (map (\<lambda>(spec, t). (spec, look_up f t)) paths) (f i) of Some r \<Rightarrow> r | None \<Rightarrow> None)"

lemma look_up_test:
  "look_up f (BTest i paths) = (case map_of paths (f i) of Some t \<Rightarrow> look_up f t | None \<Rightarrow> None)"
proof -
  have "map_of (map (\<lambda>(spec, t). (spec, look_up f t)) paths) x = map_option (look_up f) (map_of paths x)" for x
    by (induction paths) auto
  then show ?thesis by (simp split: option.split)
qed

declare look_up.simps(2) [simp del]
declare look_up_test [simp]

lemma map_of_change_first:
  "map_of ps k = Some v0 \<Longrightarrow> map_of (change_first k v ps) = (map_of ps)(k \<mapsto> v)"
  "map fst (change_first k v ps) = map fst ps"
  "x \<in> set (change_first k v ps) \<Longrightarrow> x = (k, v) \<or> x \<in> set ps"
  by (induction ps) (auto split: if_splits)

lemma remaining_subtree:
  "shaped is (bc_remaining_subtree specs out is)"
  "look_up f (bc_remaining_subtree specs out is) = (if \<forall>i \<in> set is. f i = specs ! i then Some out else None)"
  "tree_specs (bc_remaining_subtree specs out is) = (\<lambda>i. (i, specs ! i)) ` set is"
  by (induction "is") auto

lemma add_entry:
  assumes "shaped is t"
  obtains t' where "bc_add_entry specs out is t = Some t'" "shaped is t'"
    "\<And>f. look_up f t' = (case look_up f t of Some out' \<Rightarrow> Some out'
       | None \<Rightarrow> if \<forall>i \<in> set is. f i = specs ! i then Some out else None)"
    "tree_specs t' \<subseteq> tree_specs t \<union> (\<lambda>i. (i, specs ! i)) ` set is"
  using assms
proof (induction "is" arbitrary: t thesis)
  case Nil
  then show ?case by (cases t) auto
next
  case (Cons i "is")
  from Cons.prems(2) obtain paths where t: "t = BTest i paths" "distinct (map fst paths)"
    "\<And>spec t. (spec, t) \<in> set paths \<Longrightarrow> shaped is t" by (cases t) auto
  show ?case
  proof (cases "map_of paths (specs ! i)")
    case None
    then have "specs ! i \<notin> fst ` set paths" by (simp add: map_of_eq_None_iff)
    with t None show ?thesis
      by (intro Cons.prems(1)[of "BTest i ((specs ! i, bc_remaining_subtree specs out is) # paths)"])
        (auto simp: remaining_subtree split: option.splits)
  next
    case (Some u)
    then have u: "(specs ! i, u) \<in> set paths" by (rule map_of_SomeD)
    obtain u' where u': "bc_add_entry specs out is u = Some u'" "shaped is u'"
      "\<And>f. look_up f u' = (case look_up f u of Some out' \<Rightarrow> Some out'
         | None \<Rightarrow> if \<forall>i \<in> set is. f i = specs ! i then Some out else None)"
      "tree_specs u' \<subseteq> tree_specs u \<union> (\<lambda>i. (i, specs ! i)) ` set is" by (rule Cons.IH[OF that t(3)[OF u]])
    let ?t = "BTest i (change_first (specs ! i) u' paths)"
    have "bc_add_entry specs out (i # is) t = Some ?t" using t(1) Some u'(1) by simp
    moreover have "shaped (i # is) ?t"
      using t(2,3) u'(2) by (auto simp: map_of_change_first(2) dest!: map_of_change_first(3))
    moreover have "look_up f ?t = (case look_up f t of Some out' \<Rightarrow> Some out'
         | None \<Rightarrow> if \<forall>i \<in> set (i # is). f i = specs ! i then Some out else None)" for f
      using t(1) Some u'(3)[of f] by (auto simp: map_of_change_first(1)[OF Some] split: option.splits)
    moreover have "tree_specs ?t \<subseteq> tree_specs t \<union> (\<lambda>i. (i, specs ! i)) ` set (i # is)"
    proof
      fix p assume "p \<in> tree_specs ?t"
      then obtain spec v where v: "(spec, v) \<in> set (change_first (specs ! i) u' paths)" "p = (i, spec) \<or> p \<in> tree_specs v"
        by auto
      from map_of_change_first(3)[OF v(1)] consider "spec = specs ! i" "v = u'" | "(spec, v) \<in> set paths" by blast
      then show "p \<in> tree_specs t \<union> (\<lambda>i. (i, specs ! i)) ` set (i # is)"
      proof cases
        case 1
        with v(2) u'(4) u t(1) show ?thesis by auto
      next
        case 2
        with v(2) t(1) show ?thesis by auto
      qed
    qed
    ultimately show ?thesis by (rule Cons.prems(1))
  qed
qed

lemma add_entries:
  assumes "shaped is t"
  obtains t' where "bc_add_entries is history t = Some t'" "shaped is t'"
    "\<And>f. look_up f t' = (case look_up f t of Some out' \<Rightarrow> Some out'
       | None \<Rightarrow> map_option snd (find (\<lambda>(specs, out). \<forall>i \<in> set is. f i = specs ! i) history))"
    "tree_specs t' \<subseteq> tree_specs t \<union> {(i, specs ! i) | i specs. i \<in> set is \<and> specs \<in> fst ` set history}"
  using assms
proof (induction history arbitrary: t thesis)
  case Nil
  show ?case by (rule Nil.prems(1)[of t]) (auto simp: Nil.prems(2) split: option.split)
next
  case (Cons e history)
  obtain specs out where e: "e = (specs, out)" by (cases e)
  obtain u where u: "bc_add_entry specs out is t = Some u" "shaped is u"
    "\<And>f. look_up f u = (case look_up f t of Some out' \<Rightarrow> Some out'
       | None \<Rightarrow> if \<forall>i \<in> set is. f i = specs ! i then Some out else None)"
    "tree_specs u \<subseteq> tree_specs t \<union> (\<lambda>i. (i, specs ! i)) ` set is"
    using add_entry[OF Cons.prems(2), of specs out] by blast
  obtain t' where t': "bc_add_entries is history u = Some t'" "shaped is t'"
    "\<And>f. look_up f t' = (case look_up f u of Some out' \<Rightarrow> Some out'
       | None \<Rightarrow> map_option snd (find (\<lambda>(specs, out). \<forall>i \<in> set is. f i = specs ! i) history))"
    "tree_specs t' \<subseteq> tree_specs u \<union> {(i, specs ! i) | i specs. i \<in> set is \<and> specs \<in> fst ` set history}"
    by (rule Cons.IH[OF that u(2)])
  show ?case
  proof (rule Cons.prems(1)[of t'])
    show "bc_add_entries is (e # history) t = Some t'" using e u(1) t'(1) by simp
    show "look_up f t' = (case look_up f t of Some out' \<Rightarrow> Some out'
       | None \<Rightarrow> map_option snd (find (\<lambda>(specs, out). \<forall>i \<in> set is. f i = specs ! i) (e # history)))" for f
      using e t'(3)[of f] u(3)[of f] by (auto split: option.split)
    show "tree_specs t' \<subseteq> tree_specs t \<union> {(i, specs ! i) | i specs. i \<in> set is \<and> specs \<in> fst ` set (e # history)}"
    proof -
      let ?new = "\<lambda>h. {(i, specs ! i) | i specs. i \<in> set is \<and> specs \<in> fst ` set h}"
      have "(\<lambda>i. (i, specs ! i)) ` set is \<subseteq> ?new (e # history)" using e by force
      moreover have "?new history \<subseteq> ?new (e # history)" by auto
      ultimately show ?thesis using u(4) t'(4) by (meson Un_least order_trans sup.cobounded1 sup.coboundedI2)
    qed
  qed (rule t'(2))
qed

text \<open>Paths of a shaped tree are looked up.\<close>

lemma shaped_path:
  assumes "shaped is t" "tree_path t path out"
  shows "map fst path = is \<and> ((\<forall>(i, spec) \<in> set path. f i = spec) \<longrightarrow> look_up f t = Some out)"
  using assms(2,1)
proof (induction arbitrary: "is" rule: tree_path.induct)
  case (1 out)
  then show ?case by (cases "is") auto
next
  case (2 spec t paths path out i)
  from "2.prems" obtain is' where s: "is = i # is'" "distinct (map fst paths)" "shaped is' t"
    using "2.hyps"(1) by (cases "is") auto
  have "map_of paths spec = Some t" using s(2) "2.hyps"(1) by simp
  with "2.IH"[OF s(3)] s(1) show ?case by auto
qed

lemma looked_up_path:
  assumes "shaped is t" "look_up f t = Some out"
  shows "tree_path t (map (\<lambda>i. (i, f i)) is) out"
  using assms
proof (induction "is" t rule: shaped.induct)
  case (2 i "is" j paths)
  then obtain u where u: "map_of paths (f i) = Some u" "look_up f u = Some out" by (auto split: option.splits)
  then have "(f i, u) \<in> set paths" by (auto dest: map_of_SomeD)
  with 2 u show ?case by (auto intro!: tree_path.intros)
qed (auto intro: tree_path.intros)

lemma shaped_tree_ok:
  assumes "shaped is t" "\<forall>i \<in> set is. D i" "\<forall>(i, spec) \<in> tree_specs t. \<forall>c. spec = ClassSpec c \<longrightarrow> c \<in> K"
  shows "tree_ok D K t"
  using assms
proof (induction "is" t rule: shaped.induct)
  case (2 i "is" j paths)
  then have "tree_ok D K u \<and> (\<forall>c. spec = ClassSpec c \<longrightarrow> c \<in> K)" if "(spec, u) \<in> set paths" for spec u
    using that by (intro conjI "2.IH"[OF that refl]) fastforce+
  with 2 show ?case by auto
qed auto

section \<open>Arguments a compiled tree asks for\<close>

lemma args_needed_ranges:
  "\<forall>r \<in> set rs. args_needed (snd (snd r)) \<le> m \<Longrightarrow> args_needed (compile_ranges rs) \<le> m"
proof (induction rs rule: compile_ranges.induct)
  case (3 r1 r2 rs)
  let ?m = "r1 # r2 # rs"
  have "set (take (length ?m div 2) ?m) \<subseteq> set ?m" "set (drop (length ?m div 2) ?m) \<subseteq> set ?m"
    by (rule set_take_subset, rule set_drop_subset)
  then have "args_needed (compile_ranges (take (length ?m div 2) ?m)) \<le> m"
    "args_needed (compile_ranges (drop (length ?m div 2) ?m)) \<le> m"
    using "3.IH"[OF refl refl refl refl] "3.prems" by blast+
  then show ?case by (simp only: compile_ranges.simps Let_def args_needed.simps max.bounded_iff)
qed auto

lemma args_needed_merge:
  assumes "args_needed t \<le> m" "\<forall>p \<in> set ps. args_needed (snd p) \<le> m"
  shows "\<forall>r \<in> set (merge_ranges (lo, hi, t) ps). args_needed (snd (snd r)) \<le> m"
  using assms by (induction "(lo, hi, t)" ps arbitrary: lo hi t rule: merge_ranges.induct) auto

lemma args_needed_classes:
  assumes "\<forall>p \<in> set ps. args_needed (snd p) \<le> m"
  shows "args_needed (compile_ranges (classes_to_ranges ps)) \<le> m"
  using assms by (cases ps rule: classes_to_ranges.cases) (auto intro!: args_needed_ranges dest: args_needed_merge)

lemma set_insert_sorted: "set (insert_sorted x ps) = insert x (set ps)"
  by (induction ps) auto

lemma set_stamp_paths: "snd ` set (stamp_paths P ps acc) \<subseteq> snd ` set acc \<union> snd ` set ps"
  by (induction P ps acc rule: stamp_paths.induct) (auto simp: set_insert_sorted split: if_splits)

lemma tag_path_in: "tag_path c ps = Some t \<Longrightarrow> t \<in> snd ` set ps"
  by (induction c ps rule: tag_path.induct) (auto split: option.splits if_splits)

lemma args_needed_eql: 
  "args_needed nxt \<le> m \<Longrightarrow> \<forall>e \<in> set es. args_needed (snd e) \<le> m \<Longrightarrow> args_needed (compile_eql_search es nxt) \<le> m"
  by (induction es nxt rule: compile_eql_search.induct) auto

lemma args_needed_test:
  assumes "\<forall>p \<in> set ps. args_needed (snd p) \<le> m" "i < m"
  shows "args_needed (compile_test k i ps) \<le> m"
proof -
  have "\<forall>q \<in> set (stamp_paths P ps []). args_needed (snd q) \<le> m" for P
    using set_stamp_paths[of P ps "[]"] assms(1) by fastforce
  then have "args_needed (stamp_test k ps) \<le> m"
    by (auto simp: stamp_test_def cxx_paths_def other_paths_def Let_def intro: args_needed_classes)
  moreover have "args_needed (or_miss (tag_path c ps)) \<le> m" for c
    using tag_path_in[of c ps] assms(1) by (auto simp: or_miss_def split: option.split)
  ultimately have "args_needed (tag_test k ps) \<le> m" by (simp add: tag_test_def compile_tag_test_def)
  moreover have "\<forall>e \<in> set (eql_paths ps). args_needed (snd e) \<le> m" using assms(1) by (auto simp: set_eql_paths)
  ultimately show ?thesis using assms(2) by (simp add: compile_test_def args_needed_eql)
qed

lemma args_needed_shaped:
  "shaped is t \<Longrightarrow> \<forall>i \<in> set is. i < m \<Longrightarrow> args_needed (compile_tree k t) \<le> m"
proof (induction "is" t rule: shaped.induct)
  case (2 i "is" j paths)
  then show ?case by (fastforce intro!: args_needed_test)
qed auto

section \<open>Dispatch\<close>

text \<open>
  What a call should do: it misses or does what an entry with matching specializers recorded; and if the
  specializers of an entry match and no others of the history do, it does what an entry with just these
  specializers recorded.
\<close>

definition entry_matches :: "gf_classes \<Rightarrow> gfworld \<Rightarrow> gval list \<Rightarrow> nat list \<Rightarrow> specializer list \<Rightarrow> bool" where
  "entry_matches k w args idx specs \<longleftrightarrow> (\<forall>i \<in> set idx. spec_matches k w (args ! i) (specs ! i))"

definition only_match ::
    "gf_classes \<Rightarrow> gfworld \<Rightarrow> gval list \<Rightarrow> nat list \<Rightarrow> call_entry list \<Rightarrow> specializer list \<Rightarrow> bool" where
  "only_match k w args idx history specs \<longleftrightarrow>
     (\<forall>(specs', out) \<in> set history. \<forall>i \<in> set idx. spec_matches k w (args ! i) (specs' ! i) \<longrightarrow> specs' ! i = specs ! i)"

definition dispatched ::
    "gf_classes \<Rightarrow> gfworld \<Rightarrow> gval list \<Rightarrow> nat list \<Rightarrow> call_entry list \<Rightarrow> gf_result \<times> gfworld \<Rightarrow> bool" where
  "dispatched k w args idx history res \<longleftrightarrow>
     (res = (DispatchMiss args, w) \<or>
      (\<exists>(specs, out) \<in> set history. entry_matches k w args idx specs \<and> res = run_outcome args w out)) \<and>
     (\<forall>(specs, out) \<in> set history. entry_matches k w args idx specs \<and> only_match k w args idx history specs \<longrightarrow>
        (\<exists>(specs', out') \<in> set history. (\<forall>i \<in> set idx. specs' ! i = specs ! i) \<and> res = run_outcome args w out'))"

lemma increasing_last: "sorted_wrt (<) xs \<Longrightarrow> x \<in> set xs \<Longrightarrow> x \<le> last (xs :: nat list)"
  by (induction xs) (auto simp: less_imp_le)

text \<open>The tree of a history, and what is looked up in it.\<close>

lemma basic_tree_facts:
  assumes "bc_basic_tree history profile = Some (t, n)"
  shows "shaped (specializer_indices profile) t \<and>
    look_up f t = map_option snd (find (\<lambda>(specs, out). \<forall>i \<in> set (specializer_indices profile). f i = specs ! i) history) \<and>
    tree_specs t \<subseteq> {(i, specs ! i) | i specs. i \<in> set (specializer_indices profile) \<and> specs \<in> fst ` set history} \<and>
    (\<forall>i \<in> set (specializer_indices profile). i < n)"
proof (cases "specializer_indices profile")
  case Nil
  with assms have "history \<noteq> []" "t = BOutcome (snd (hd history))" by (auto simp: bc_basic_tree_def split: if_splits)
  then show ?thesis using Nil by (cases history) auto
next
  case (Cons i idx)
  let ?is = "i # idx"
  have start: "shaped ?is (BTest i [])" by simp
  obtain t' where t': "bc_add_entries ?is history (BTest i []) = Some t'" "shaped ?is t'"
    "\<And>f. look_up f t' = (case look_up f (BTest i []) of Some out' \<Rightarrow> Some out'
       | None \<Rightarrow> map_option snd (find (\<lambda>(specs, out). \<forall>j \<in> set ?is. f j = specs ! j) history))"
    "tree_specs t' \<subseteq> tree_specs (BTest i []) \<union> {(j, specs ! j) | j specs. j \<in> set ?is \<and> specs \<in> fst ` set history}"
    by (rule add_entries[OF start that])
  from assms Cons t'(1) have t: "t = t'" "n = Suc (last ?is)"
    by (auto simp: bc_basic_tree_def split: if_splits)
  have "sorted_wrt (<) ?is" unfolding Cons[symmetric] specializer_indices_def
    by (rule sorted_wrt_filter) (simp add: sorted_wrt_upt)
  then have "\<forall>j \<in> set ?is. j < n" using increasing_last t(2) by (simp only: less_Suc_eq_le) blast
  with t'(2,4) t'(3)[of f] show ?thesis unfolding Cons t(1) by simp
qed

lemmas basic_tree = basic_tree_facts[THEN conjunct1] basic_tree_facts[THEN conjunct2, THEN conjunct1]
  basic_tree_facts[THEN conjunct2, THEN conjunct2, THEN conjunct1]
  basic_tree_facts[THEN conjunct2, THEN conjunct2, THEN conjunct2]

lemma find_SomeD: "find P xs = Some x \<Longrightarrow> x \<in> set xs \<and> P x"
  by (induction xs) (auto split: if_splits)

text \<open>Looking up finds an entry with the specializers if there is one.\<close>

lemma basic_tree_look_up:
  assumes "bc_basic_tree history profile = Some (t, n)"
  shows "look_up f t = Some out \<Longrightarrow>
      \<exists>specs. (specs, out) \<in> set history \<and> (\<forall>i \<in> set (specializer_indices profile). f i = specs ! i)"
    and "(specs, out') \<in> set history \<Longrightarrow> \<forall>i \<in> set (specializer_indices profile). f i = specs ! i \<Longrightarrow>
      \<exists>out. look_up f t = Some out"
proof -
  let ?P = "\<lambda>(specs, out). \<forall>i \<in> set (specializer_indices profile). f i = specs ! i"
  note look = basic_tree(2)[OF assms, of f]
  show "\<exists>specs. (specs, out) \<in> set history \<and> (\<forall>i \<in> set (specializer_indices profile). f i = specs ! i)"
    if "look_up f t = Some out" using that look by (auto dest!: find_SomeD)
  show "\<exists>out. look_up f t = Some out"
    if "(specs, out') \<in> set history" "\<forall>i \<in> set (specializer_indices profile). f i = specs ! i"
  proof -
    from that(2) have "?P (specs, out')" by (simp only: prod.case)
    with that(1) have "find ?P history \<noteq> None" unfolding find_None_iff by blast
    with look show ?thesis by auto
  qed
qed


section \<open>A sample generic function\<close>

text \<open>
  Two Lisp classes with adjacent stamps and the same method, an \<open>eql\<close> specializer and the class of fixnums; the
  program is its tree laid out by hand.
\<close>

definition sample_classes :: gf_classes where
  "sample_classes = \<lparr>fixnum_stamp = 8, single_stamp = 16, character_stamp = 24, cons_stamp = 32, cxx_stamp_max = 1000\<rparr>"

definition sample_gfworld :: gfworld where
  "sample_gfworld = \<lparr>header_stamp = (\<lambda>_. 8), rack_stamp = (\<lambda>p. if p = 1 then 8032 else 8000), wrapped_stamp = (\<lambda>_. 0),
     derived_stamp = (\<lambda>_. 0), racks = (\<lambda>_. []), cars = (\<lambda>_. GUnbound), eql_general = (\<lambda>_ _. False),
     pointer_bits = (\<lambda>_. 1)\<rparr>"

definition sample_history :: "call_entry list" where
  "sample_history = [([ClassSpec 2000], EffectiveMethod (GGeneral 7)), ([ClassSpec 2008], EffectiveMethod (GGeneral 7)),
     ([EqlSpec (GFix 5)], EffectiveMethod (GGeneral 8)), ([ClassSpec 8], EffectiveMethod (GGeneral 9))]"

definition sample_tree :: dtree where
  "sample_tree = Argument 0 (EqlSearch (GFix 5) (Outcome (EffectiveMethod (GGeneral 8)))
     (TagTest (Outcome (EffectiveMethod (GGeneral 9))) Miss Miss Miss
        (StampRead Miss (RangeCheck 2000 2008 (Outcome (EffectiveMethod (GGeneral 7)))))))"

definition sample_call :: gfcall where
  "sample_call = \<lparr>general_entry = True, lcc_args = [GGeneral 1],
     program = [13, 7, 0, 18, 2, 13, 12, 12, 12, 3, 7, 6, 1, 2, 12, 3, 0, 12, 4, 12, 5],
     literals = [GFix 5, GFix 2000, GFix 2008, GGeneral 7, GGeneral 9, GGeneral 8], specialized_length = 1\<rparr>"

lemma sample_compiled: "dtree_compile sample_classes sample_history [True] = Some (sample_tree, 1)"
  by code_simp


section \<open>Single dispatch programs\<close>

text \<open>
  \<open>core__build_single_dispatch_bytecode\<close>: for each entry of a call history, the stamp of the class at the dispatch
  argument and the effective method.  The writes are made in the order of the code, into a vector of zeros.
\<close>

definition sd_write_entry :: "nat \<Rightarrow> nat \<Rightarrow> nat \<Rightarrow> byte list \<Rightarrow> byte list" where
  "sd_write_entry n ii p code =
     code[p := 19, p + 1 := word_of_nat ii, p + 2 := 5, p := 12, p + 1 := word_of_nat (n + ii)]"

fun sd_write_entries :: "nat \<Rightarrow> nat \<Rightarrow> nat \<Rightarrow> nat \<Rightarrow> byte list \<Rightarrow> nat \<times> byte list" where
  "sd_write_entries n 0 ii p code = (p, code)"
| "sd_write_entries n (Suc k) ii p code = sd_write_entries n k (Suc ii) (p + 5) (sd_write_entry n ii p code)"

text \<open>\<open>None\<close> is the error for a dispatch argument after the fifth.\<close>

definition build_single_dispatch_bytecode :: "(gval \<times> gval) list \<Rightarrow> nat \<Rightarrow> (byte list \<times> gval list) option" where
  "build_single_dispatch_bytecode history idx =
     (let n = length history; code = replicate (3 + n * 5) 0 in
      if idx \<ge> 5 then None
      else
        let (p, code1) = sd_write_entries n n 0 2 (code[0 := word_of_nat (13 + idx), 1 := 3])
        in Some (code1[p := 20], map fst history @ map snd history))"

text \<open>C0: the program that \<open>core__build_single_dispatch_bytecode\<close> makes for a call history of one entry cannot dispatch: whatever
  the stamp of the recorded class, a call whose dispatch argument is an instance reads the index of a literal as
  the opcode \<open>1\<close> and signals an invalid opcode, because the operand of \<open>stamp-read\<close> is missing and the
  branch is overwritten by the effective method.\<close>

theorem single_dispatch_program_unusable:
  assumes "build_single_dispatch_bytecode [(cls, efm)] idx = Some (code, lits)"
    "program c = code" "literals c = lits" "specialized_length c \<le> nargs c" "idx < nargs c"
    "lcc_args c ! idx = GGeneral p" "\<not> cxx_object w p"
  shows "entry_point_n c w = Some (BadOpcode 1, w)"
proof -
  have idx: "idx < 5" and code: "code = [word_of_nat (13 + idx), 3, 12, 1, 5, 0, 0, 20]"
    using assms(1) by (auto simp: build_single_dispatch_bytecode_def sd_write_entry_def Let_def numeral_eq_Suc split: if_splits)
  let ?c = "c\<lparr>general_entry := True\<rparr>"
  let ?r1 = "start_regs\<lparr>arg := Some (GGeneral p), ip := 1\<rparr>"
  have prog: "program ?c = code" using assms(2) by simp
  have first: "dtree_step ?c w start_regs = GfNext ?r1"
  proof -
    from idx have "idx = 0 \<or> idx = 1 \<or> idx = 2 \<or> idx = 3 \<or> idx = 4" by linarith
    then show ?thesis using assms(5,6)
      by (elim disjE) (simp_all add: dtree_step_def nth_or_def prog code start_regs_def op_count_def dtree_case_def op_farg_def)
  qed
  let ?st = "read_stamp w p"
  have second: "dtree_step ?c w ?r1 = GfNext (?r1\<lparr>stamp := Some ?st, ip := 3\<rparr>)"
    using assms(7) by (simp add: dtree_step_def nth_or_def prog code start_regs_def op_count_def dtree_case_def op_stamp_read_def
      some_or_def cxx_object_def read_stamp_def Let_def skip_to_def arg_offset_def)
  have third: "dtree_step ?c w (?r1\<lparr>stamp := Some ?st, ip := 3\<rparr>) = GfStop (BadOpcode 1) w"
    by (simp add: dtree_step_def nth_or_def prog code start_regs_def op_count_def dtree_case_def)
  have "dtree_loop ?c w start_regs = Some (BadOpcode 1, w)"
    using dtree_loop_step(1)[OF first] dtree_loop_step(1)[OF second] dtree_loop_step(2)[OF third] by (rule trans[OF _ trans])
  with assms(4) show ?thesis by (simp add: entry_point_n_def)
qed

lemma single_dispatch_program_unusable_witness:
  "\<exists>code lits. build_single_dispatch_bytecode [(GFix 2008, GGeneral 7)] 0 = Some (code, lits) \<and>
     entry_point_n (sample_call\<lparr>program := code, literals := lits\<rparr>) sample_gfworld = Some (BadOpcode 1, sample_gfworld)"
proof -
  have "build_single_dispatch_bytecode [(GFix 2008, GGeneral 7)] 0 = Some ([13, 3, 12, 1, 5, 0, 0, 20], [GFix 2008, GGeneral 7])"
    by code_simp
  moreover from this have "entry_point_n (sample_call\<lparr>program := [13, 3, 12, 1, 5, 0, 0, 20], literals := [GFix 2008, GGeneral 7]\<rparr>)
      sample_gfworld = Some (BadOpcode 1, sample_gfworld)"
    by (rule single_dispatch_program_unusable[where p = 1])
      (simp_all add: sample_call_def sample_gfworld_def cxx_object_def where_mask_def header_wtag_def)
  ultimately show ?thesis by blast
qed

end
