(* ===== verification/SingleDispatch.thy ===== *)
theory SingleDispatch
  imports Prelude
begin

text \<open>
  Single dispatch generic functions (\<open>src/include/clasp/core/singleDispatchGenericFunction.h\<close>,
  \<open>src/src/core/singleDispatchGenericFunction.cc\<close>): methods are found through the class precedence list of the
  dispatch argument and remembered in a call history, which threads share and extend by compare-and-swap.
\<close>

section \<open>Looking for a method\<close>

text \<open>
  Classes and methods by number.  \<open>SingleDispatchGenericFunction_O\<close> keeps the call history, pairs of a class and the
  method found for it, and the methods with their receiver classes; both are lists that only grow at the front.
\<close>

record sdgf =
  call_history :: "(nat \<times> nat) list"
  argument_index :: nat
  methods :: "(nat \<times> nat) list"

datatype sd_error =
    TooFewArguments nat nat
  | UnrecognizedClass nat

text \<open>The scan of the methods for one class of the precedence list, and of the list.\<close>

fun method_for :: "nat \<Rightarrow> (nat \<times> nat) list \<Rightarrow> nat option" where
  "method_for cls [] = None"
| "method_for cls ((receiver, m) # ms) = (if receiver = cls then Some m else method_for cls ms)"

fun search_precedence :: "nat list \<Rightarrow> (nat \<times> nat) list \<Rightarrow> nat option" where
  "search_precedence [] ms = None"
| "search_precedence (cls # cpl) ms =
     (case method_for cls ms of Some m \<Rightarrow> Some m | None \<Rightarrow> search_precedence cpl ms)"

fun cached :: "nat \<Rightarrow> (nat \<times> nat) list \<Rightarrow> nat option" where
  "cached cls [] = None"
| "cached cls ((c, m) # h) = (if c = cls then Some m else cached cls h)"

text \<open>\<open>dispatch\<close> without other threads.\<close>

definition dispatch :: "(nat \<Rightarrow> nat list) \<Rightarrow> nat \<Rightarrow> sdgf \<Rightarrow> sd_error + nat \<times> sdgf" where
  "dispatch cpl cls gf =
     (case cached cls (call_history gf) of
        Some m \<Rightarrow> Inr (m, gf)
      | None \<Rightarrow>
          (case search_precedence (cpl cls) (methods gf) of
             Some m \<Rightarrow> Inr (m, gf\<lparr>call_history := (cls, m) # call_history gf\<rparr>)
           | None \<Rightarrow> Inl (UnrecognizedClass cls)))"

text \<open>The entry points: the dispatch argument must have been passed; its class is found by \<open>class_of\<close>.\<close>

definition sd_entry_point :: "(nat \<Rightarrow> nat list) \<Rightarrow> ('v \<Rightarrow> nat) \<Rightarrow> 'v list \<Rightarrow> sdgf \<Rightarrow> sd_error + nat \<times> sdgf" where
  "sd_entry_point cpl class_of args gf =
     (if length args > argument_index gf then dispatch cpl (class_of (args ! argument_index gf)) gf
      else Inl (TooFewArguments (length args) (argument_index gf + 1)))"

definition ensure_single_dispatch_method :: "nat \<Rightarrow> nat \<Rightarrow> sdgf \<Rightarrow> sdgf" where
  "ensure_single_dispatch_method receiver m gf = gf\<lparr>methods := (receiver, m) # methods gf\<rparr>"

section \<open>Threads\<close>

text \<open>
  What a thread is doing: a call has been made, the call history has been read, it had no entry and the methods are to
  be read, a method has been found, the expected history has been loaded for the compare-and-swap, the call has returned
  or failed; or a method is being added in the same way.  The steps are the accesses to the shared variables;
  everything in between is local.
\<close>

datatype thread =
    Idle
  | Calling nat
  | Scanning nat "(nat \<times> nat) list"
  | Missed nat
  | Found nat nat
  | Pushing nat nat "(nat \<times> nat) list"
  | Returned nat nat
  | Failed nat
  | Adding nat nat
  | PushingMethod nat nat "(nat \<times> nat) list"

record sd_system =
  gf :: sdgf
  threads :: "nat \<Rightarrow> thread"

definition thread_to :: "nat \<Rightarrow> thread \<Rightarrow> sd_system \<Rightarrow> sd_system" where
  "thread_to t x s = s\<lparr>threads := (threads s)(t := x)\<rparr>"

text \<open>A weak compare-and-swap may fail without a reason; then the loop loads the variable again.\<close>

inductive sd_step :: "(nat \<Rightarrow> nat list) \<Rightarrow> sd_system \<Rightarrow> sd_system \<Rightarrow> bool" for cpl where
  call: "threads s t = Idle \<Longrightarrow> sd_step cpl s (thread_to t (Calling cls) s)"
| read_history: "threads s t = Calling cls \<Longrightarrow> sd_step cpl s (thread_to t (Scanning cls (call_history (gf s))) s)"
| hit: "threads s t = Scanning cls h \<Longrightarrow> cached cls h = Some m \<Longrightarrow> sd_step cpl s (thread_to t (Returned cls m) s)"
| miss: "threads s t = Scanning cls h \<Longrightarrow> cached cls h = None \<Longrightarrow> sd_step cpl s (thread_to t (Missed cls) s)"
| search: "threads s t = Missed cls \<Longrightarrow> search_precedence (cpl cls) (methods (gf s)) = Some m \<Longrightarrow>
    sd_step cpl s (thread_to t (Found cls m) s)"
| fail: "threads s t = Missed cls \<Longrightarrow> search_precedence (cpl cls) (methods (gf s)) = None \<Longrightarrow>
    sd_step cpl s (thread_to t (Failed cls) s)"
| load: "threads s t = Found cls m \<Longrightarrow> sd_step cpl s (thread_to t (Pushing cls m (call_history (gf s))) s)"
| swap: "threads s t = Pushing cls m h \<Longrightarrow> call_history (gf s) = h \<Longrightarrow>
    sd_step cpl s (thread_to t (Returned cls m) (s\<lparr>gf := (gf s)\<lparr>call_history := (cls, m) # h\<rparr>\<rparr>))"
| retry: "threads s t = Pushing cls m h \<Longrightarrow> sd_step cpl s (thread_to t (Found cls m) s)"
| add: "threads s t = Idle \<Longrightarrow> sd_step cpl s (thread_to t (Adding receiver m) s)"
| load_methods: "threads s t = Adding receiver m \<Longrightarrow> sd_step cpl s (thread_to t (PushingMethod receiver m (methods (gf s))) s)"
| swap_method: "threads s t = PushingMethod receiver m ms \<Longrightarrow> methods (gf s) = ms \<Longrightarrow>
    sd_step cpl s (thread_to t Idle (s\<lparr>gf := (gf s)\<lparr>methods := (receiver, m) # ms\<rparr>\<rparr>))"
| retry_method: "threads s t = PushingMethod receiver m ms \<Longrightarrow> sd_step cpl s (thread_to t (Adding receiver m) s)"
| idle: "threads s t = Returned cls m \<or> threads s t = Failed cls \<Longrightarrow> sd_step cpl s (thread_to t Idle s)"

section \<open>The history stays right\<close>

text \<open>
  A method is right for a class at some time if the search finds it among methods \<open>x @ ms0\<close> that were in force then:
  methods are only added in front, so these are tails of the current methods that contain the first ones, \<open>ms0\<close>.
\<close>

type_synonym method_list = "(nat \<times> nat) list"

definition once_right :: "(nat \<Rightarrow> nat list) \<Rightarrow> method_list \<Rightarrow> method_list \<Rightarrow> nat \<Rightarrow> nat \<Rightarrow> bool" where
  "once_right cpl ms0 ms cls m \<longleftrightarrow>
     (\<exists>added x. ms = added @ x @ ms0 \<and> search_precedence (cpl cls) (x @ ms0) = Some m)"

definition history_right :: "(nat \<Rightarrow> nat list) \<Rightarrow> method_list \<Rightarrow> method_list \<Rightarrow> (nat \<times> nat) list \<Rightarrow> bool" where
  "history_right cpl ms0 ms h \<longleftrightarrow> (\<forall>(cls, m) \<in> set h. once_right cpl ms0 ms cls m)"

fun thread_right :: "(nat \<Rightarrow> nat list) \<Rightarrow> method_list \<Rightarrow> method_list \<Rightarrow> thread \<Rightarrow> bool" where
  "thread_right cpl ms0 ms (Scanning cls h) \<longleftrightarrow> history_right cpl ms0 ms h"
| "thread_right cpl ms0 ms (Found cls m) \<longleftrightarrow> once_right cpl ms0 ms cls m"
| "thread_right cpl ms0 ms (Pushing cls m h) \<longleftrightarrow> once_right cpl ms0 ms cls m"
| "thread_right cpl ms0 ms (Returned cls m) \<longleftrightarrow> once_right cpl ms0 ms cls m"
| "thread_right cpl ms0 ms _ \<longleftrightarrow> True"

definition system_right :: "(nat \<Rightarrow> nat list) \<Rightarrow> method_list \<Rightarrow> sd_system \<Rightarrow> bool" where
  "system_right cpl ms0 s \<longleftrightarrow> (\<exists>x. methods (gf s) = x @ ms0) \<and>
     history_right cpl ms0 (methods (gf s)) (call_history (gf s)) \<and>
     (\<forall>t. thread_right cpl ms0 (methods (gf s)) (threads s t))"

lemma cached_in: "cached cls h = Some m \<Longrightarrow> (cls, m) \<in> set h"
  by (induction cls h rule: cached.induct) (auto split: if_splits)

lemma once_right_now: "search_precedence (cpl cls) (x @ ms0) = Some m \<Longrightarrow> once_right cpl ms0 (x @ ms0) cls m"
  unfolding once_right_def by (metis append_Nil)

lemma once_right_added: "once_right cpl ms0 ms cls m \<Longrightarrow> once_right cpl ms0 (p # ms) cls m"
  unfolding once_right_def by (metis append_Cons)

lemma history_right_added: "history_right cpl ms0 ms h \<Longrightarrow> history_right cpl ms0 (p # ms) h"
  by (auto simp: history_right_def once_right_added)

lemma thread_right_added: "thread_right cpl ms0 ms x \<Longrightarrow> thread_right cpl ms0 (p # ms) x"
  by (cases x) (auto simp: once_right_added history_right_added)

lemma system_right_thread:
  "system_right cpl ms0 s \<Longrightarrow> thread_right cpl ms0 (methods (gf s)) x \<Longrightarrow> system_right cpl ms0 (thread_to t x s)"
  by (simp add: system_right_def thread_to_def)

lemma right_thread: "system_right cpl ms0 s \<Longrightarrow> threads s t = x \<Longrightarrow> thread_right cpl ms0 (methods (gf s)) x"
  by (auto simp: system_right_def)

lemma sd_step_right: "sd_step cpl s s' \<Longrightarrow> system_right cpl ms0 s \<Longrightarrow> system_right cpl ms0 s'"
proof (induction rule: sd_step.induct)
  case (read_history s t cls)
  then show ?case by (auto simp: system_right_def thread_to_def)
next
  case (hit s t cls h m)
  with right_thread[OF hit(3,1)] show ?case by (auto intro!: system_right_thread dest!: cached_in simp: history_right_def)
next
  case (search s t cls m)
  then obtain x where "methods (gf s) = x @ ms0" by (auto simp: system_right_def)
  with search show ?case by (auto intro!: system_right_thread once_right_now)
next
  case (load s t cls m)
  with right_thread[OF load(2,1)] show ?case by (auto intro: system_right_thread)
next
  case (swap s t cls m h)
  with right_thread[OF swap(3,1)] show ?case by (auto simp: system_right_def thread_to_def history_right_def)
next
  case (retry s t cls m h)
  with right_thread[OF retry(2,1)] show ?case by (auto intro: system_right_thread)
next
  case (swap_method s t receiver m ms)
  then show ?case by (auto simp: system_right_def thread_to_def history_right_added thread_right_added)
qed (auto intro: system_right_thread)

text \<open>Runs start without any call in progress.\<close>

definition sd_start :: "nat \<Rightarrow> method_list \<Rightarrow> sd_system" where
  "sd_start idx ms = \<lparr>gf = \<lparr>call_history = [], argument_index = idx, methods = ms\<rparr>, threads = (\<lambda>_. Idle)\<rparr>"

lemma reachable_right:
  assumes "(sd_step cpl)\<^sup>*\<^sup>* (sd_start idx ms) s"
  shows "system_right cpl ms s"
  using assms
proof induction
  case base
  show ?case by (simp add: system_right_def sd_start_def history_right_def)
qed (rule sd_step_right)

text \<open>C26: however the calls of several threads and the addition of methods interleave, a call that has returned
  got a method that the search of the class precedence list found among the methods in force at some moment of the run;
  without additions it is the applicable method.  The compare-and-swap loses no entry that matters and publishes no wrong
  one.\<close>

theorem returned_method_was_applicable:
  assumes "(sd_step cpl)\<^sup>*\<^sup>* (sd_start idx ms) s" "threads s t = Returned cls m"
  shows "(\<exists>added x. methods (gf s) = added @ x @ ms \<and> search_precedence (cpl cls) (x @ ms) = Some m) \<and>
    (methods (gf s) = ms \<longrightarrow> search_precedence (cpl cls) ms = Some m)"
proof -
  obtain added x where "methods (gf s) = added @ x @ ms" "search_precedence (cpl cls) (x @ ms) = Some m"
    using right_thread[OF reachable_right[OF assms(1)] assms(2)] by (auto simp: once_right_def)
  then show ?thesis by auto
qed

text \<open>Once a class is in the call history, adding a method for this very class has no effect on it.\<close>

lemma added_method_ignored:
  assumes "dispatch cpl cls g = Inr (m, g')"
  shows "dispatch cpl cls (ensure_single_dispatch_method receiver m' g') =
    Inr (m, ensure_single_dispatch_method receiver m' g')"
  using assms by (auto simp: dispatch_def ensure_single_dispatch_method_def split: option.splits)

text \<open>The steps of one thread alone are \<open>dispatch\<close>.\<close>

lemma dispatch_is_a_run:
  assumes "threads s t = Idle" "dispatch cpl cls (gf s) = Inr (m, g')"
  shows "\<exists>s'. (sd_step cpl)\<^sup>*\<^sup>* s s' \<and> threads s' t = Returned cls m \<and> gf s' = g'"
proof -
  let ?s1 = "thread_to t (Calling cls) s"
  let ?s2 = "thread_to t (Scanning cls (call_history (gf s))) ?s1"
  have a: "sd_step cpl s ?s1" using assms(1) by (rule sd_step.call)
  have b: "sd_step cpl ?s1 ?s2"
    using sd_step.read_history[of ?s1 t cls cpl] by (simp add: thread_to_def)
  note start = rtranclp.rtrancl_into_rtrancl[OF r_into_rtranclp[where r = "sd_step cpl", OF a] b]
  show ?thesis
  proof (cases "cached cls (call_history (gf s))")
    case (Some x)
    with assms(2) have "x = m" "g' = gf s" by (auto simp: dispatch_def)
    with Some have "sd_step cpl ?s2 (thread_to t (Returned cls m) ?s2)"
      by (intro sd_step.hit) (simp_all add: thread_to_def)
    with start have "(sd_step cpl)\<^sup>*\<^sup>* s (thread_to t (Returned cls m) ?s2)" by (rule rtranclp.rtrancl_into_rtrancl)
    then show ?thesis using \<open>g' = gf s\<close> by (intro exI[of _ "thread_to t (Returned cls m) ?s2"]) (simp add: thread_to_def)
  next
    case None
    let ?s3 = "thread_to t (Missed cls) ?s2"
    let ?s4 = "thread_to t (Found cls m) ?s3"
    let ?s5 = "thread_to t (Pushing cls m (call_history (gf s))) ?s4"
    let ?s6 = "thread_to t (Returned cls m) (?s5\<lparr>gf := (gf ?s5)\<lparr>call_history := (cls, m) # call_history (gf s)\<rparr>\<rparr>)"
    from None assms(2) have m: "search_precedence (cpl cls) (methods (gf s)) = Some m"
      "g' = (gf s)\<lparr>call_history := (cls, m) # call_history (gf s)\<rparr>" by (auto simp: dispatch_def split: option.splits)
    have c: "sd_step cpl ?s2 ?s3" using None by (intro sd_step.miss) (simp_all add: thread_to_def)
    have d: "sd_step cpl ?s3 ?s4" using m(1) by (intro sd_step.search) (simp_all add: thread_to_def)
    have e: "sd_step cpl ?s4 ?s5" using sd_step.load[of ?s4 t cls m cpl] by (simp add: thread_to_def)
    have f: "sd_step cpl ?s5 ?s6" by (intro sd_step.swap) (simp_all add: thread_to_def)
    note step = rtranclp.rtrancl_into_rtrancl[where r = "sd_step cpl"]
    have "(sd_step cpl)\<^sup>*\<^sup>* s ?s6" by (rule step[OF step[OF step[OF step[OF start c] d] e] f])
    with m(2) show ?thesis by (intro exI[of _ ?s6]) (simp add: thread_to_def)
  qed
qed

text \<open>Class 1 inherits from class 0, which has a method.\<close>

definition sample_cpl :: "nat \<Rightarrow> nat list" where
  "sample_cpl c = (if c = 1 then [1, 0] else [0])"

lemma returned_method_was_applicable_witness:
  "\<exists>s. (sd_step sample_cpl)\<^sup>*\<^sup>* (sd_start 0 [(0, 7)]) s \<and> threads s 3 = Returned 1 7 \<and>
     (\<exists>added x. methods (gf s) = added @ x @ [(0, 7)] \<and> search_precedence (sample_cpl 1) (x @ [(0, 7)]) = Some 7)"
proof -
  have "\<exists>s. (sd_step sample_cpl)\<^sup>*\<^sup>* (sd_start 0 [(0, 7)]) s \<and> threads s 3 = Returned 1 7 \<and>
      gf s = \<lparr>call_history = [(1, 7)], argument_index = 0, methods = [(0, 7)]\<rparr>"
    by (rule dispatch_is_a_run) (simp_all add: sd_start_def dispatch_def sample_cpl_def)
  then obtain s where s: "(sd_step sample_cpl)\<^sup>*\<^sup>* (sd_start 0 [(0, 7)]) s" "threads s 3 = Returned 1 7" by auto
  with returned_method_was_applicable[OF s] show ?thesis by auto
qed

end
