(* ===== verification/Packages.thy ===== *)
theory Packages
  imports Prelude "HOL-Library.AList"
begin

text \<open>
  Packages (\<open>src/src/core/package.cc\<close>, \<open>src/include/clasp/core/package.h\<close>): which symbol a name means in a package,
  and the operations that change it.  The interactive resolution of name conflicts (\<open>src/src/lisp/kernel/clos/conditions.lisp\<close>)
  is modelled with the choices of the user as an argument.
\<close>

section \<open>Packages and symbols\<close>

text \<open>
  Packages and symbols by number.  The tables \<open>_InternalSymbols\<close> and \<open>_ExternalSymbols\<close>, from names to symbols, are
  association lists; \<open>_Shadowing\<close> is the list of its keys.  \<open>_UsingPackages\<close> and \<open>_PackagesUsedBy\<close> are vectors with the
  order in which packages were used.
\<close>

record package =
  package_name :: string
  internal_symbols :: "(string \<times> nat) list"
  external_symbols :: "(string \<times> nat) list"
  shadowing :: "nat list"
  using_packages :: "nat list"
  used_by :: "nat list"
  keyword_flag :: bool
  acts_like_keyword_flag :: bool
  nicknames :: "string list"
  local_nicknames :: "(string \<times> nat) list"
  system_locked :: bool
  user_locked :: bool
  zombie :: bool

record symbol_obj =
  symbol_name :: string
  home_package :: "nat option"
  global_value :: "nat option"

text \<open>
  Of the value cell of a symbol only the global value is modelled, which keywords get; \<open>None\<close> is the unbound marker.
  The vector \<open>_Packages\<close> with its size, the symbols made so far, the map from names to indices and \<open>*package*\<close>.
\<close>

record psys =
  packages :: "nat \<Rightarrow> package"
  package_count :: nat
  symbols :: "nat \<Rightarrow> symbol_obj"
  symbol_count :: nat
  name_index :: "(string \<times> nat) list"
  current_package :: nat

definition acts_like_keyword :: "package \<Rightarrow> bool" where
  "acts_like_keyword k \<longleftrightarrow> keyword_flag k \<or> acts_like_keyword_flag k"

definition locked :: "package \<Rightarrow> bool" where
  "locked k \<longleftrightarrow> system_locked k \<or> user_locked k"

definition upd_package :: "nat \<Rightarrow> (package \<Rightarrow> package) \<Rightarrow> psys \<Rightarrow> psys" where
  "upd_package p f s = s\<lparr>packages := (packages s)(p := f (packages s p))\<rparr>"

definition upd_symbol :: "nat \<Rightarrow> (symbol_obj \<Rightarrow> symbol_obj) \<Rightarrow> psys \<Rightarrow> psys" where
  "upd_symbol x f s = s\<lparr>symbols := (symbols s)(x := f (symbols s x))\<rparr>"

abbreviation sname :: "psys \<Rightarrow> nat \<Rightarrow> string" where
  "sname s x \<equiv> symbol_name (symbols s x)"

section \<open>Errors and restarts\<close>

text \<open>
  Errors leave the state as it is when they are signalled.  \<open>CEpackage_error\<close> is correctable: \<open>proceed\<close> says whether the
  user continues.  In a name conflict the user takes the new symbol, keeps the old one or gives up.
\<close>

datatype perror =
    NotAccessible
  | SameName
  | PackageLockViolation
  | NoSuchPackageName string
  | NicknameInUse
  | PackageInUse
  | PackageExists
  | CannotDeleteLocked
  | NotUsed
  | Aborted
  | AssertionFailed
  | DeletesNothing
  | OutOfFuel

datatype 'a pres =
    POk (pvalue: 'a) (pstate: psys)
  | PErr perror (pstate: psys)

definition pbind :: "'a pres \<Rightarrow> ('a \<Rightarrow> psys \<Rightarrow> 'b pres) \<Rightarrow> 'b pres" where
  "pbind r f = (case r of POk a s \<Rightarrow> f a s | PErr e s \<Rightarrow> PErr e s)"

lemma pbind_simps [simp]:
  "pbind (POk a s) f = f a s"
  "pbind (PErr e s) f = PErr e s"
  by (simp_all add: pbind_def)

fun peach :: "('a \<Rightarrow> psys \<Rightarrow> unit pres) \<Rightarrow> 'a list \<Rightarrow> psys \<Rightarrow> unit pres" where
  "peach f [] s = POk () s"
| "peach f (a # as) s = pbind (f a s) (\<lambda>_ s'. peach f as s')"

datatype choice = TakeNew | KeepOld | Abort

record handlers =
  proceed :: "perror \<Rightarrow> bool"
  accessibility_choice :: "psys \<Rightarrow> nat \<Rightarrow> nat \<Rightarrow> nat \<Rightarrow> choice"
  import_choice :: "psys \<Rightarrow> nat \<Rightarrow> nat \<Rightarrow> nat \<Rightarrow> choice"
  unintern_choice :: "psys \<Rightarrow> nat \<Rightarrow> nat list \<Rightarrow> nat option"

section \<open>Finding symbols\<close>

datatype access = External | Internal | Inherited

fun find_inherited :: "psys \<Rightarrow> nat list \<Rightarrow> string \<Rightarrow> nat option" where
  "find_inherited s [] n = None"
| "find_inherited s (u # us) n =
     (case map_of (external_symbols (packages s u)) n of
        Some x \<Rightarrow> Some x
      | None \<Rightarrow> find_inherited s us n)"

definition find_symbol :: "psys \<Rightarrow> nat \<Rightarrow> string \<Rightarrow> (nat \<times> access) option" where
  "find_symbol s p n =
     (let k = packages s p in
      case map_of (external_symbols k) n of
        Some x \<Rightarrow> Some (x, External)
      | None \<Rightarrow>
          if keyword_flag k then None else
          case map_of (internal_symbols k) n of
            Some x \<Rightarrow> Some (x, Internal)
          | None \<Rightarrow> map_option (\<lambda>x. (x, Inherited)) (find_inherited s (using_packages k) n))"

definition is_exported :: "psys \<Rightarrow> nat \<Rightarrow> nat \<Rightarrow> bool" where
  "is_exported s p x \<longleftrightarrow> map_of (external_symbols (packages s p)) (sname s x) \<noteq> None"

section \<open>Adding and removing symbols\<close>

definition put_external :: "nat \<Rightarrow> string \<Rightarrow> nat \<Rightarrow> psys \<Rightarrow> psys" where
  "put_external p n x = upd_package p (\<lambda>k. k\<lparr>external_symbols := AList.update n x (external_symbols k)\<rparr>)"

definition put_internal :: "nat \<Rightarrow> string \<Rightarrow> nat \<Rightarrow> psys \<Rightarrow> psys" where
  "put_internal p n x = upd_package p (\<lambda>k. k\<lparr>internal_symbols := AList.update n x (internal_symbols k)\<rparr>)"

definition rem_external :: "nat \<Rightarrow> string \<Rightarrow> psys \<Rightarrow> psys" where
  "rem_external p n = upd_package p (\<lambda>k. k\<lparr>external_symbols := AList.delete n (external_symbols k)\<rparr>)"

definition rem_internal :: "nat \<Rightarrow> string \<Rightarrow> psys \<Rightarrow> psys" where
  "rem_internal p n = upd_package p (\<lambda>k. k\<lparr>internal_symbols := AList.delete n (internal_symbols k)\<rparr>)"

definition put_shadowing :: "nat \<Rightarrow> nat \<Rightarrow> psys \<Rightarrow> psys" where
  "put_shadowing p x = upd_package p (\<lambda>k. k\<lparr>shadowing := List.insert x (shadowing k)\<rparr>)"

definition rem_shadowing :: "nat \<Rightarrow> nat \<Rightarrow> psys \<Rightarrow> psys" where
  "rem_shadowing p x = upd_package p (\<lambda>k. k\<lparr>shadowing := removeAll x (shadowing k)\<rparr>)"

definition set_home :: "nat \<Rightarrow> nat option \<Rightarrow> psys \<Rightarrow> psys" where
  "set_home x h = upd_symbol x (\<lambda>y. y\<lparr>home_package := h\<rparr>)"

definition add_symbol_to_package :: "nat \<Rightarrow> string \<Rightarrow> nat \<Rightarrow> bool \<Rightarrow> psys \<Rightarrow> psys" where
  "add_symbol_to_package p n x exportp s =
     (let k = packages s p;
          s1 = (if keyword_flag k \<or> acts_like_keyword k \<or> exportp then put_external p n x s else put_internal p n x s)
      in if home_package (symbols s1 x) = None then set_home x (Some p) s1 else s1)"

text \<open>\<open>Symbol_O::create\<close> followed by \<open>makunbound\<close> and \<open>setPackage\<close>.\<close>

definition create_symbol :: "string \<Rightarrow> nat option \<Rightarrow> psys \<Rightarrow> nat \<times> psys" where
  "create_symbol n h s =
     (let x = symbol_count s in
      (x, s\<lparr>symbols := (symbols s)(x := \<lparr>symbol_name = n, home_package = h, global_value = None\<rparr>), symbol_count := Suc x\<rparr>))"

definition intern_new :: "nat \<Rightarrow> string \<Rightarrow> psys \<Rightarrow> nat \<times> psys" where
  "intern_new p n s = (let (x, s1) = create_symbol n (Some p) s in (x, add_symbol_to_package p n x False s1))"

definition intern :: "nat \<Rightarrow> string \<Rightarrow> psys \<Rightarrow> (nat \<times> access option) \<times> psys" where
  "intern p n s =
     (let (x, status, s1) =
        (case find_symbol s p n of
           None \<Rightarrow> let (x, s1) = intern_new p n s in (x, None, s1)
         | Some (x, st) \<Rightarrow> (x, Some st, s));
       s2 = (if acts_like_keyword (packages s1 p) then upd_symbol x (\<lambda>y. y\<lparr>global_value := Some x\<rparr>) s1 else s1)
      in ((x, status), s2))"

definition unintern_unsafe :: "nat \<Rightarrow> nat \<Rightarrow> psys \<Rightarrow> bool \<times> psys" where
  "unintern_unsafe p x s =
     (let s1 = rem_shadowing p x s; n = sname s x;
          clear_home = (\<lambda>s'. if home_package (symbols s' x) = Some p then set_home x None s' else s')
      in case find_symbol s1 p n of
           None \<Rightarrow> (False, s1)
         | Some (y, st) \<Rightarrow>
             if y \<noteq> x then (False, s1)
             else (case st of
                     Internal \<Rightarrow> (True, clear_home (rem_internal p n s1))
                   | External \<Rightarrow> (True, clear_home (rem_external p n s1))
                   | Inherited \<Rightarrow> (False, s1)))"

section \<open>Shadowing\<close>

definition shadow :: "nat \<Rightarrow> string \<Rightarrow> psys \<Rightarrow> psys" where
  "shadow p n s =
     (case find_symbol s p n of
        Some (x, Internal) \<Rightarrow> put_shadowing p x s
      | Some (x, External) \<Rightarrow> put_shadowing p x s
      | _ \<Rightarrow> let (x, s1) = intern_new p n s in put_shadowing p x s1)"

definition shadowing_import1 :: "nat \<Rightarrow> nat \<Rightarrow> psys \<Rightarrow> psys" where
  "shadowing_import1 p x s =
     (let n = sname s x;
          s1 = (case find_symbol s p n of
                  Some (y, Internal) \<Rightarrow> snd (unintern_unsafe p y s)
                | Some (y, External) \<Rightarrow> snd (unintern_unsafe p y s)
                | _ \<Rightarrow> s)
      in put_shadowing p x (add_symbol_to_package p n x False s1))"

definition shadowing_import :: "nat \<Rightarrow> nat list \<Rightarrow> psys \<Rightarrow> psys" where
  "shadowing_import p xs s = fold (shadowing_import1 p) xs s"

section \<open>Conflicts\<close>

text \<open>\<open>unintern\<close> collects the symbols that the used packages export under the name, each once, in reverse.\<close>

fun unintern_candidates :: "psys \<Rightarrow> string \<Rightarrow> nat list \<Rightarrow> nat list \<Rightarrow> nat list" where
  "unintern_candidates s n [] cs = cs"
| "unintern_candidates s n (u # us) cs =
     (case find_symbol s u n of
        Some (y, External) \<Rightarrow> unintern_candidates s n us (if y \<in> set cs then cs else y # cs)
      | _ \<Rightarrow> unintern_candidates s n us cs)"

definition unintern_name_conflict :: "handlers \<Rightarrow> nat \<Rightarrow> nat \<Rightarrow> nat list \<Rightarrow> psys \<Rightarrow> unit pres" where
  "unintern_name_conflict h p x candidates s =
     (case unintern_choice h s p candidates of
        None \<Rightarrow> PErr Aborted s
      | Some y \<Rightarrow> if y \<in> set candidates then POk () (shadowing_import p [y] s) else PErr AssertionFailed s)"

definition unintern :: "handlers \<Rightarrow> nat \<Rightarrow> nat \<Rightarrow> psys \<Rightarrow> bool pres" where
  "unintern h p x s =
     (let k = packages s p; n = sname s x in
      if locked k then PErr PackageLockViolation s
      else let candidates = (if x \<in> set (shadowing k) then unintern_candidates s n (using_packages k) [] else []) in
        if length candidates > 1 then pbind (unintern_name_conflict h p x candidates s) (\<lambda>_ s'. POk True s')
        else (case unintern_unsafe p x s of (b, s') \<Rightarrow> POk b s'))"

text \<open>\<open>accessibility-conflict\<close>: the new symbol is about to become accessible in the package, where its name means another one.\<close>

definition accessibility_conflict :: "handlers \<Rightarrow> nat \<Rightarrow> nat \<Rightarrow> psys \<Rightarrow> unit pres" where
  "accessibility_conflict h q new s =
     (let n = sname s new in
      case find_symbol s q n of
        None \<Rightarrow> PErr AssertionFailed s
      | Some (old, st) \<Rightarrow>
          if old = new then PErr AssertionFailed s
          else (case (accessibility_choice h s q old new, st) of
                  (Abort, _) \<Rightarrow> PErr Aborted s
                | (KeepOld, Inherited) \<Rightarrow> POk () (shadowing_import q [old] s)
                | (TakeNew, Inherited) \<Rightarrow> POk () (shadowing_import q [new] s)
                | (KeepOld, _) \<Rightarrow> POk () (shadow q n s)
                | (TakeNew, _) \<Rightarrow> pbind (unintern h q old s) (\<lambda>_ s'. POk () s')))"

definition import_name_conflict :: "handlers \<Rightarrow> nat \<Rightarrow> nat \<Rightarrow> nat \<Rightarrow> psys \<Rightarrow> unit pres" where
  "import_name_conflict h p existing new s =
     (case import_choice h s p existing new of
        Abort \<Rightarrow> PErr Aborted s
      | KeepOld \<Rightarrow> POk () s
      | TakeNew \<Rightarrow> POk () (shadowing_import p [new] s))"

definition import1 :: "handlers \<Rightarrow> nat \<Rightarrow> nat \<Rightarrow> psys \<Rightarrow> unit pres" where
  "import1 h p x s =
     (let n = sname s x in
      case find_symbol s p n of
        None \<Rightarrow> POk () (add_symbol_to_package p n x False s)
      | Some (y, _) \<Rightarrow> if y = x then POk () s else import_name_conflict h p y x s)"

definition import_symbols :: "handlers \<Rightarrow> nat \<Rightarrow> nat list \<Rightarrow> psys \<Rightarrow> unit pres" where
  "import_symbols h p xs s = peach (import1 h p) xs s"

section \<open>Exporting\<close>

definition export_conflicts :: "psys \<Rightarrow> nat \<Rightarrow> string \<Rightarrow> nat \<Rightarrow> nat list" where
  "export_conflicts s p n x =
     rev (filter (\<lambda>q. case find_symbol s q n of
                        None \<Rightarrow> False
                      | Some (y, _) \<Rightarrow> x \<noteq> y \<and> y \<notin> set (shadowing (packages s q)))
        (used_by (packages s p)))"

definition export_name_conflict :: "handlers \<Rightarrow> nat \<Rightarrow> nat list \<Rightarrow> psys \<Rightarrow> unit pres" where
  "export_name_conflict h x problematic s = peach (\<lambda>q. accessibility_conflict h q x) problematic s"

text \<open>The method jumps back to its start once a conflict is resolved or the symbol has been imported; each time costs fuel.\<close>

fun export2 :: "nat \<Rightarrow> handlers \<Rightarrow> nat \<Rightarrow> nat \<Rightarrow> psys \<Rightarrow> unit pres" where
  "export2 0 h p x s = PErr OutOfFuel s"
| "export2 (Suc fuel) h p x s =
     (let n = sname s x in
      case find_symbol s p n of
        None \<Rightarrow>
          if proceed h NotAccessible then export2 fuel h p x (add_symbol_to_package p n x False s)
          else PErr NotAccessible s
      | Some (y, st) \<Rightarrow>
          if y \<noteq> x then PErr SameName s
          else if st = External then POk () s
          else (let conflicts = export_conflicts s p n x in
                if conflicts \<noteq> [] then pbind (export_name_conflict h x conflicts s) (\<lambda>_ s'. export2 fuel h p x s')
                else POk () (add_symbol_to_package p n x True (if st = Internal then rem_internal p n s else s))))"

definition unexport :: "nat \<Rightarrow> nat \<Rightarrow> psys \<Rightarrow> unit pres" where
  "unexport p x s =
     (let k = packages s p; n = sname s x in
      if locked k then PErr PackageLockViolation s
      else case find_symbol s p n of
             None \<Rightarrow> PErr NotAccessible s
           | Some (_, External) \<Rightarrow> POk () (put_internal p n x (rem_external p n s))
           | Some _ \<Rightarrow> POk () s)"

section \<open>Using packages\<close>

text \<open>\<open>FindConflicts\<close> is mapped over the external symbols of the used package and conses the conflicts up.\<close>

definition find_conflicts :: "psys \<Rightarrow> nat \<Rightarrow> nat \<Rightarrow> nat list" where
  "find_conflicts s p u =
     rev (map snd (filter (\<lambda>(n, x). case find_symbol s p n of
                                      None \<Rightarrow> False
                                    | Some (mine, _) \<Rightarrow> mine \<noteq> x \<and> mine \<notin> set (shadowing (packages s p)))
        (external_symbols (packages s u))))"

text \<open>\<open>use-package-name-conflict\<close> looks the new symbol up again by its name.\<close>

definition use_package_name_conflict :: "handlers \<Rightarrow> nat \<Rightarrow> nat \<Rightarrow> nat list \<Rightarrow> psys \<Rightarrow> unit pres" where
  "use_package_name_conflict h p u conflicts s =
     peach (\<lambda>x s'. case find_symbol s' u (sname s' x) of
                     None \<Rightarrow> PErr AssertionFailed s'
                   | Some (new, _) \<Rightarrow> accessibility_conflict h p new s') conflicts s"

fun use_package :: "nat \<Rightarrow> handlers \<Rightarrow> nat \<Rightarrow> nat \<Rightarrow> psys \<Rightarrow> bool pres" where
  "use_package 0 h p u s = PErr OutOfFuel s"
| "use_package (Suc fuel) h p u s =
     (if u \<in> set (using_packages (packages s p)) then POk True s
      else let conflicts = find_conflicts s p u in
        if conflicts \<noteq> [] then pbind (use_package_name_conflict h p u conflicts s) (\<lambda>_ s'. use_package fuel h p u s')
        else POk True
          (upd_package u (\<lambda>k. k\<lparr>used_by := used_by k @ [p]\<rparr>)
            (upd_package p (\<lambda>k. k\<lparr>using_packages := using_packages k @ [u]\<rparr>) s)))"

text \<open>Both loops of \<open>unusePackage_no_outer_lock\<close> erase the first occurrence.\<close>

definition unuse_package :: "nat \<Rightarrow> nat \<Rightarrow> psys \<Rightarrow> bool pres" where
  "unuse_package p u s =
     (if u \<in> set (using_packages (packages s p)) then
        let s1 = upd_package p (\<lambda>k. k\<lparr>using_packages := remove1 u (using_packages k)\<rparr>) s in
        if p \<in> set (used_by (packages s1 u)) then
          POk True (upd_package u (\<lambda>k. k\<lparr>used_by := remove1 p (used_by k)\<rparr>) s1)
        else PErr NotUsed s1
      else POk True s)"

end
