(* ===== verification/PackageNames.thy ===== *)
theory PackageNames
  imports Packages
begin

text \<open>
  The names of packages: \<open>makePackage\<close>, \<open>findPackage\<close> and the map from names to packages (\<open>src/src/core/lisp.cc\<close>),
  deletion, renaming and nicknames (\<open>src/src/core/package.cc\<close>).
\<close>

section \<open>The map from names to packages\<close>

definition blank_package :: "string \<Rightarrow> package" where
  "blank_package n = \<lparr>package_name = n, internal_symbols = [], external_symbols = [], shadowing = [],
     using_packages = [], used_by = [], keyword_flag = False, acts_like_keyword_flag = False, nicknames = [],
     local_nicknames = [], system_locked = False, user_locked = False, zombie = False\<rparr>"

definition find_package :: "psys \<Rightarrow> string \<Rightarrow> nat option" where
  "find_package s n =
     (case map_of (local_nicknames (packages s (current_package s))) n of
        Some p \<Rightarrow> Some p
      | None \<Rightarrow> map_of (name_index s) n)"

definition map_name :: "string \<Rightarrow> nat \<Rightarrow> psys \<Rightarrow> unit pres" where
  "map_name n p s =
     (if p < package_count s then POk () (s\<lparr>name_index := AList.update n p (name_index s)\<rparr>)
      else PErr (NoSuchPackageName n) s)"

definition unmap_name :: "string \<Rightarrow> psys \<Rightarrow> unit pres" where
  "unmap_name n s =
     (if map_of (name_index s) n = None then PErr (NoSuchPackageName n) s
      else POk () (s\<lparr>name_index := AList.delete n (name_index s)\<rparr>))"

text \<open>\<open>Lisp::remove_package\<close> takes the name out of the map and marks the package it led to.\<close>

definition remove_package :: "string \<Rightarrow> psys \<Rightarrow> unit pres" where
  "remove_package n s =
     (case map_of (name_index s) n of
        None \<Rightarrow> PErr (NoSuchPackageName n) s
      | Some i \<Rightarrow> POk () (upd_package i (\<lambda>k. k\<lparr>zombie := True\<rparr>) (s\<lparr>name_index := AList.delete n (name_index s)\<rparr>)))"

definition set_nicknames :: "nat \<Rightarrow> string list \<Rightarrow> psys \<Rightarrow> psys" where
  "set_nicknames p ns = upd_package p (\<lambda>k. k\<lparr>nicknames := ns\<rparr>)"

section \<open>Deleting packages\<close>

text \<open>\<open>Symbol_O::remove_package\<close>.\<close>

definition leave_home :: "nat \<Rightarrow> nat \<Rightarrow> psys \<Rightarrow> psys" where
  "leave_home p x s =
     (if locked (packages s p) then s
      else if home_package (symbols s x) = Some p then set_home x None s else s)"

definition empty_package :: "nat \<Rightarrow> psys \<Rightarrow> psys" where
  "empty_package p s =
     (let s1 = fold (\<lambda>(n, x). leave_home p x) (internal_symbols (packages s p)) s;
          s2 = upd_package p (\<lambda>k. k\<lparr>internal_symbols := []\<rparr>) s1;
          s3 = fold (\<lambda>(n, x). leave_home p x) (external_symbols (packages s2 p)) s2
      in upd_package p (\<lambda>k. k\<lparr>external_symbols := [], shadowing := []\<rparr>) s3)"

definition delete_package :: "handlers \<Rightarrow> nat \<Rightarrow> psys \<Rightarrow> bool pres" where
  "delete_package h p s =
     (let k = packages s p in
      if locked k then PErr CannotDeleteLocked s
      else if package_name k = [] then POk False s
      else if used_by k \<noteq> [] \<and> \<not> proceed h PackageInUse then PErr PackageInUse s
      else
        pbind (peach unmap_name (nicknames k) s) (\<lambda>_ s1.
        pbind (peach (\<lambda>u s'. pbind (unuse_package p u s') (\<lambda>_. POk ())) (rev (using_packages k)) (set_nicknames p [] s1)) (\<lambda>_ s2.
        pbind (peach (\<lambda>q s'. pbind (unuse_package q p s') (\<lambda>_. POk ())) (rev (used_by k)) s2) (\<lambda>_ s3.
        pbind (remove_package (package_name k) (upd_package p (\<lambda>k. k\<lparr>package_name := []\<rparr>) (empty_package p s3)))
          (\<lambda>_. POk True)))))"

section \<open>Making packages\<close>

definition new_package :: "string \<Rightarrow> psys \<Rightarrow> nat \<times> psys" where
  "new_package n s =
     (let p = package_count s in
      (p, s\<lparr>packages := (packages s)(p := blank_package n), package_count := Suc p,
            name_index := AList.update n p (name_index s)\<rparr>))"

definition add_nicknames :: "string \<Rightarrow> nat \<Rightarrow> string list \<Rightarrow> psys \<Rightarrow> unit pres" where
  "add_nicknames n p ns s =
     pbind (peach (\<lambda>nick s'.
         if map_of (name_index s') nick \<noteq> None \<and> nick \<noteq> n then PErr NicknameInUse s' else map_name nick p s') ns s)
       (\<lambda>_ s'. POk () (set_nicknames p (rev ns) s'))"

text \<open>
  When a name exists the user may delete its package and start over, at the cost of fuel.  When a nickname
  exists the package to delete has not been set.
\<close>

fun make_package :: "nat \<Rightarrow> handlers \<Rightarrow> string \<Rightarrow> string list \<Rightarrow> string list \<Rightarrow> string list \<Rightarrow> psys \<Rightarrow> nat pres" where
  "make_package 0 h n nicks uses shadows s = PErr OutOfFuel s"
| "make_package (Suc fuel) h n nicks uses shadows s =
     (let nickname_exists = (\<lambda>s'. if proceed h NicknameInUse then PErr DeletesNothing s' else PErr NicknameInUse s') in
      case map_of (name_index s) n of
        Some existing \<Rightarrow>
          if proceed h PackageExists
          then pbind (delete_package h existing s) (\<lambda>_ s'. make_package fuel h n nicks uses shadows s')
          else PErr PackageExists s
      | None \<Rightarrow>
          if \<exists>nick \<in> set nicks. map_of (name_index s) nick \<noteq> None \<and> nick \<noteq> n then nickname_exists s
          else (let (p, s1) = new_package n s in
            case add_nicknames n p nicks s1 of
              PErr e s2 \<Rightarrow> nickname_exists s2
            | POk _ s2 \<Rightarrow>
                pbind (peach (\<lambda>u s'. case find_package s' u of
                          None \<Rightarrow> PErr (NoSuchPackageName u) s'
                        | Some q \<Rightarrow> pbind (use_package fuel h p q s') (\<lambda>_. POk ())) uses (fold (shadow p) shadows s2))
                  (\<lambda>_. POk p)))"

section \<open>Renaming and nicknames\<close>

definition rename_package :: "nat \<Rightarrow> string \<Rightarrow> string list \<Rightarrow> psys \<Rightarrow> unit pres" where
  "rename_package p n nicks s =
     pbind (unmap_name (package_name (packages s p)) s) (\<lambda>_ s1.
     pbind (peach unmap_name (nicknames (packages s1 p)) s1) (\<lambda>_ s2.
     pbind (map_name n p (upd_package p (\<lambda>k. k\<lparr>package_name := n\<rparr>) s2)) (\<lambda>_ s3.
     pbind (peach (\<lambda>nick. map_name nick p) nicks s3) (\<lambda>_ s4.
     POk () (set_nicknames p nicks s4)))))"

definition package_add_nickname :: "nat \<Rightarrow> string \<Rightarrow> psys \<Rightarrow> string list pres" where
  "package_add_nickname p nick s =
     (if find_package s nick \<noteq> None then PErr NicknameInUse s
      else pbind (map_name nick p s) (\<lambda>_ s1.
        let ns = nick # nicknames (packages s1 p) in POk ns (set_nicknames p ns s1)))"

definition package_remove_nickname :: "nat \<Rightarrow> string \<Rightarrow> psys \<Rightarrow> string list pres" where
  "package_remove_nickname p nick s =
     (if nicknames (packages s p) = [] then POk [] s
      else if find_package s nick = Some p then
        pbind (unmap_name nick s) (\<lambda>_ s1.
          let ns = filter (\<lambda>m. m \<noteq> nick) (nicknames (packages s1 p)) in POk ns (set_nicknames p ns s1))
      else POk [] s)"

text \<open>The packages \<open>list-all-packages\<close> returns.\<close>

definition all_packages :: "psys \<Rightarrow> nat list" where
  "all_packages s = filter (\<lambda>p. \<not> zombie (packages s p)) [0..<package_count s]"

end
