(* ===== verification/PackageOk.thy ===== *)
theory PackageOk
  imports PackageNames
begin

text \<open>
  The consistency of the package system: in every package a name means at most one symbol, up to symbols that
  shadow the others; used packages and users agree; a home package has its symbol present.
\<close>

section \<open>Observing a state\<close>

definition ext_of :: "psys \<Rightarrow> nat \<Rightarrow> string \<Rightarrow> nat option" where
  "ext_of s p = map_of (external_symbols (packages s p))"

definition int_of :: "psys \<Rightarrow> nat \<Rightarrow> string \<Rightarrow> nat option" where
  "int_of s p = map_of (internal_symbols (packages s p))"

definition present :: "psys \<Rightarrow> nat \<Rightarrow> string \<Rightarrow> nat option" where
  "present s p n = (case ext_of s p n of Some x \<Rightarrow> Some x | None \<Rightarrow> int_of s p n)"

definition inherits :: "psys \<Rightarrow> nat \<Rightarrow> string \<Rightarrow> nat \<Rightarrow> bool" where
  "inherits s p n x \<longleftrightarrow> (\<exists>u \<in> set (using_packages (packages s p)). ext_of s u n = Some x)"

definition accessible :: "psys \<Rightarrow> nat \<Rightarrow> string \<Rightarrow> nat \<Rightarrow> bool" where
  "accessible s p n x \<longleftrightarrow> present s p n = Some x \<or> inherits s p n x"

abbreviation shads :: "psys \<Rightarrow> nat \<Rightarrow> nat set" where
  "shads s p \<equiv> set (shadowing (packages s p))"

definition shadowed :: "psys \<Rightarrow> nat \<Rightarrow> string \<Rightarrow> bool" where
  "shadowed s p n \<longleftrightarrow> (\<exists>z \<in> shads s p. sname s z = n)"

definition unambiguous :: "psys \<Rightarrow> nat \<Rightarrow> string \<Rightarrow> bool" where
  "unambiguous s p n \<longleftrightarrow>
     keyword_flag (packages s p) \<or> shadowed s p n \<or> (\<forall>x y. accessible s p n x \<longrightarrow> accessible s p n y \<longrightarrow> x = y)"

lemma present_cases:
  "present s p n = Some x \<longleftrightarrow> ext_of s p n = Some x \<or> ext_of s p n = None \<and> int_of s p n = Some x"
  "present s p n = None \<longleftrightarrow> ext_of s p n = None \<and> int_of s p n = None"
  by (auto simp: present_def split: option.splits)

lemma find_inherited_Some:
  "find_inherited s us n = Some x \<Longrightarrow> \<exists>u \<in> set us. ext_of s u n = Some x"
  by (induction us) (auto simp: ext_of_def split: option.splits)

lemma find_inherited_None:
  "find_inherited s us n = None \<longleftrightarrow> (\<forall>u \<in> set us. ext_of s u n = None)"
  by (induction us) (auto simp: ext_of_def split: option.splits)

lemma find_symbol_None:
  "find_symbol s p n = None \<longleftrightarrow>
     (if keyword_flag (packages s p) then ext_of s p n = None else \<forall>x. \<not> accessible s p n x)"
proof -
  have "(\<forall>u \<in> U. ext_of s u n = None) \<longleftrightarrow> (\<forall>x. \<forall>u \<in> U. ext_of s u n \<noteq> Some x)" for U by (metis not_Some_eq)
  then show ?thesis
    by (auto simp: find_symbol_def Let_def accessible_def inherits_def present_cases find_inherited_None
      simp flip: ext_of_def int_of_def split: option.splits)
qed

lemma find_symbol_External: "find_symbol s p n = Some (x, External) \<longleftrightarrow> ext_of s p n = Some x"
  by (auto simp: find_symbol_def Let_def simp flip: ext_of_def int_of_def split: option.splits)

lemma find_symbol_Internal:
  "find_symbol s p n = Some (x, Internal) \<longleftrightarrow>
     ext_of s p n = None \<and> \<not> keyword_flag (packages s p) \<and> int_of s p n = Some x"
  by (auto simp: find_symbol_def Let_def simp flip: ext_of_def int_of_def split: option.splits)

lemma find_symbol_Inherited:
  "find_symbol s p n = Some (x, Inherited) \<Longrightarrow>
     present s p n = None \<and> \<not> keyword_flag (packages s p) \<and> inherits s p n x"
  by (auto simp: find_symbol_def Let_def present_cases inherits_def dest: find_inherited_Some
      simp flip: ext_of_def int_of_def split: option.splits if_splits)

lemma find_symbol_accessible: "find_symbol s p n = Some (x, st) \<Longrightarrow> accessible s p n x"
  by (cases st)
    (auto simp: find_symbol_External find_symbol_Internal accessible_def present_cases dest: find_symbol_Inherited)

section \<open>Consistency\<close>

definition linked :: "psys \<Rightarrow> bool" where
  "linked s \<longleftrightarrow>
     (\<forall>p u. u \<in> set (using_packages (packages s p)) \<longleftrightarrow> p \<in> set (used_by (packages s u))) \<and>
     (\<forall>p. distinct (using_packages (packages s p)) \<and> distinct (used_by (packages s p)))"

definition keywords_apart :: "psys \<Rightarrow> bool" where
  "keywords_apart s \<longleftrightarrow>
     (\<forall>p. (acts_like_keyword (packages s p) \<longrightarrow> used_by (packages s p) = []) \<and>
          (keyword_flag (packages s p) \<longrightarrow> locked (packages s p) \<and> (\<forall>n. int_of s p n = None)))"

definition tables_ok :: "psys \<Rightarrow> bool" where
  "tables_ok s \<longleftrightarrow>
     (\<forall>p n x. ext_of s p n = Some x \<or> int_of s p n = Some x \<longrightarrow> sname s x = n \<and> x < symbol_count s) \<and>
     (\<forall>p n. ext_of s p n = None \<or> int_of s p n = None)"

definition homes_ok :: "psys \<Rightarrow> bool" where
  "homes_ok s \<longleftrightarrow>
     (\<forall>x p. x < symbol_count s \<longrightarrow> home_package (symbols s x) = Some p \<longrightarrow> present s p (sname s x) = Some x)"

definition consistent :: "psys \<Rightarrow> bool" where
  "consistent s \<longleftrightarrow>
     tables_ok s \<and> (\<forall>p. \<forall>z \<in> shads s p. present s p (sname s z) = Some z) \<and> (\<forall>p n. unambiguous s p n) \<and>
     linked s \<and> keywords_apart s \<and> homes_ok s \<and> (\<forall>p \<ge> package_count s. packages s p = blank_package [])"

lemma consistentD:
  assumes "consistent s"
  shows "tables_ok s" "\<And>p z. z \<in> shads s p \<Longrightarrow> present s p (sname s z) = Some z" "\<And>p n. unambiguous s p n"
    "linked s" "keywords_apart s" "homes_ok s" "\<And>p. package_count s \<le> p \<Longrightarrow> packages s p = blank_package []"
  using assms by (auto simp: consistent_def)

lemma consistent_present:
  assumes "consistent s" "present s p n = Some x"
  shows "sname s x = n" "x < symbol_count s"
  using assms by (auto simp: consistent_def tables_ok_def present_cases)

lemma consistent_inherits:
  assumes "consistent s" "inherits s p n x"
  shows "sname s x = n" "x < symbol_count s"
  using assms by (auto simp: consistent_def tables_ok_def inherits_def)

lemma consistent_accessible:
  assumes "consistent s" "accessible s p n x"
  shows "sname s x = n" "x < symbol_count s"
  using assms consistent_present consistent_inherits by (auto simp: accessible_def)

lemma consistent_shadow:
  assumes "consistent s" "z \<in> shads s p"
  shows "z < symbol_count s" "present s p (sname s z) = Some z"
  using assms consistent_present(2) consistentD(2) by blast+

lemma shadowed_iff:
  assumes "consistent s"
  shows "shadowed s p n \<longleftrightarrow> (\<exists>z. present s p n = Some z \<and> z \<in> shads s p)"
  unfolding shadowed_def using consistentD(2)[OF assms] consistent_present(1)[OF assms] by blast

section \<open>Changing what a name means in a package\<close>

text \<open>The names of a package and whether it has been deleted.\<close>

definition labels :: "package \<Rightarrow> string \<times> string list \<times> (string \<times> nat) list \<times> bool" where
  "labels k = (package_name k, nicknames k, local_nicknames k, zombie k)"

text \<open>All operations but those on use lists and on names of packages change the entries of one name in one package.\<close>

definition only_at :: "nat \<Rightarrow> string \<Rightarrow> psys \<Rightarrow> psys \<Rightarrow> bool" where
  "only_at p n s s' \<longleftrightarrow>
     package_count s' = package_count s \<and> (\<forall>q. q \<noteq> p \<longrightarrow> packages s' q = packages s q) \<and>
     using_packages (packages s' p) = using_packages (packages s p) \<and> used_by (packages s' p) = used_by (packages s p) \<and>
     keyword_flag (packages s' p) = keyword_flag (packages s p) \<and>
     acts_like_keyword_flag (packages s' p) = acts_like_keyword_flag (packages s p) \<and>
     locked (packages s' p) = locked (packages s p) \<and> labels (packages s' p) = labels (packages s p) \<and>
     name_index s' = name_index s \<and> current_package s' = current_package s \<and>
     (\<forall>m. m \<noteq> n \<longrightarrow> ext_of s' p m = ext_of s p m \<and> int_of s' p m = int_of s p m) \<and>
     (\<forall>z. sname s z \<noteq> n \<longrightarrow> z < symbol_count s \<longrightarrow> (z \<in> shads s' p \<longleftrightarrow> z \<in> shads s p)) \<and>
     symbol_count s \<le> symbol_count s' \<and> (\<forall>z < symbol_count s. sname s' z = sname s z) \<and>
     (\<forall>z < symbol_count s. sname s z \<noteq> n \<longrightarrow> home_package (symbols s' z) = home_package (symbols s z))"

lemma only_at_refl: "only_at p n s s"
  by (simp add: only_at_def)

lemma only_at_trans:
  assumes "only_at p n s s1" "only_at p n s1 s2"
  shows "only_at p n s s2"
proof -
  from assms have "z < symbol_count s \<Longrightarrow> z < symbol_count s1" for z by (simp add: only_at_def)
  with assms show ?thesis unfolding only_at_def by (intro conjI) simp_all
qed

lemma consistent_at:
  assumes C: "consistent s" and o: "only_at p n s s'" and p: "p < package_count s"
    and dis: "ext_of s' p n = None \<or> int_of s' p n = None"
    and names: "\<And>z. ext_of s' p n = Some z \<or> int_of s' p n = Some z \<Longrightarrow> sname s' z = n \<and> z < symbol_count s'"
    and shad: "\<And>z. z \<in> shads s' p \<Longrightarrow> z < symbol_count s \<and> sname s z \<noteq> n \<or> present s' p n = Some z"
    and exp: "\<And>x. ext_of s' p n = Some x \<Longrightarrow> ext_of s p n = Some x \<or>
      (\<forall>q \<in> set (used_by (packages s p)). q \<noteq> p \<longrightarrow> keyword_flag (packages s q) \<or> shadowed s q n \<or>
         (\<forall>y. accessible s q n y \<longrightarrow> y = x))"
    and here: "unambiguous s' p n"
    and kw: "keyword_flag (packages s p) \<Longrightarrow> int_of s' p n = None"
    and home: "\<And>z q. z < symbol_count s' \<Longrightarrow> home_package (symbols s' z) = Some q \<Longrightarrow> z < symbol_count s \<Longrightarrow> sname s z = n \<Longrightarrow>
      present s' q n = Some z"
    and home': "\<And>z q. z < symbol_count s' \<Longrightarrow> home_package (symbols s' z) = Some q \<Longrightarrow> symbol_count s \<le> z \<Longrightarrow>
      present s' q (sname s' z) = Some z"
  shows "consistent s'"
proof -
  note D = consistentD[OF C]
  from o have pk: "packages s' q = packages s q" if "q \<noteq> p" for q using that by (simp add: only_at_def)
  from o have pq: "using_packages (packages s' q) = using_packages (packages s q)"
      "used_by (packages s' q) = used_by (packages s q)" "keyword_flag (packages s' q) = keyword_flag (packages s q)"
      "locked (packages s' q) = locked (packages s q)"
      "acts_like_keyword (packages s' q) = acts_like_keyword (packages s q)" for q
    by (cases "q = p"; simp add: only_at_def acts_like_keyword_def)+
  from o have tab: "ext_of s' q m = ext_of s q m" "int_of s' q m = int_of s q m" if "q \<noteq> p \<or> m \<noteq> n" for q m
    using that by (cases "q = p"; simp add: only_at_def ext_of_def int_of_def)+
  have pres: "present s' q m = present s q m" if "q \<noteq> p \<or> m \<noteq> n" for q m
    using tab[OF that] by (simp add: present_def split: option.splits)
  from o have sc: "symbol_count s \<le> symbol_count s'" and sn: "\<And>z. z < symbol_count s \<Longrightarrow> sname s' z = sname s z"
    by (auto simp: only_at_def)
  from o have shin: "z \<in> shads s' p \<longleftrightarrow> z \<in> shads s p" if "z < symbol_count s" "sname s z \<noteq> n" for z
    using that by (simp add: only_at_def)
  have tabs: "tables_ok s'"
    unfolding tables_ok_def
  proof (intro conjI allI impI)
    fix q m x assume a: "ext_of s' q m = Some x \<or> int_of s' q m = Some x"
    show "sname s' x = m" "x < symbol_count s'"
    proof (atomize (full), cases "q = p \<and> m = n")
      case True with a names show "sname s' x = m \<and> x < symbol_count s'" by blast
    next
      case False
      with a tab[of q m] have "ext_of s q m = Some x \<or> int_of s q m = Some x" by auto
      with D(1) have "sname s x = m" "x < symbol_count s" by (auto simp: tables_ok_def)
      with sn sc show "sname s' x = m \<and> x < symbol_count s'" by auto
    qed
  next
    fix q m show "ext_of s' q m = None \<or> int_of s' q m = None"
    proof (cases "q = p \<and> m = n")
      case True with dis show ?thesis by simp
    next
      case False then show ?thesis using D(1) tab[of q m] by (auto simp: tables_ok_def)
    qed
  qed
  have shads': "present s' q (sname s' z) = Some z" if z: "z \<in> shads s' q" for q z
  proof (cases "q = p")
    case False
    with z pk have zs: "z \<in> shads s q" by simp
    from consistent_shadow[OF C this] sn pres[of q "sname s z"] False show ?thesis by simp
  next
    case True
    show ?thesis
    proof (cases "present s' p n = Some z")
      case pz: True
      then have "sname s' z = n" using names by (auto simp: present_cases)
      with pz True show ?thesis by simp
    next
      case pz: False
      with shad[of z] z True have zz: "z < symbol_count s" "sname s z \<noteq> n" by auto
      with shin z True have "z \<in> shads s p" by simp
      from consistent_shadow[OF C this] sn[OF zz(1)] pres[of p "sname s z"] zz(2) True show ?thesis by simp
    qed
  qed
  have shadowed': "shadowed s' q m = shadowed s q m" if qm: "q \<noteq> p \<or> m \<noteq> n" for q m
  proof (cases "q = p")
    case False
    with pk consistent_shadow(1)[OF C] sn show ?thesis by (auto simp: shadowed_def)
  next
    case True
    with qm have m: "m \<noteq> n" by simp
    show ?thesis
    proof
      assume "shadowed s' q m"
      then obtain z where z: "z \<in> shads s' p" "sname s' z = m" using True by (auto simp: shadowed_def)
      have "present s' p n \<noteq> Some z" using z(2) m names by (auto simp: present_cases)
      with shad[OF z(1)] have "z < symbol_count s" "sname s z \<noteq> n" by auto
      with shin z(1) have "z \<in> shads s q" "sname s z = m" using sn z(2) True by auto
      then show "shadowed s q m" by (auto simp: shadowed_def)
    next
      assume "shadowed s q m"
      then obtain z where z: "z \<in> shads s p" "sname s z = m" using True by (auto simp: shadowed_def)
      have "z \<in> shads s' q" "sname s' z = m"
        using consistent_shadow(1)[OF C z(1)] shin z m sn True by auto
      then show "shadowed s' q m" by (auto simp: shadowed_def)
    qed
  qed
  have unamb: "unambiguous s' q m" for q m
  proof (cases "q = p \<and> m = n")
    case True with here show ?thesis by simp
  next
    case qm: False
    have inh: "inherits s' q m y \<Longrightarrow> inherits s q m y \<or> m = n \<and> q \<in> set (used_by (packages s p)) \<and> ext_of s' p n = Some y" for y
    proof -
      assume "inherits s' q m y"
      then obtain u where u: "u \<in> set (using_packages (packages s q))" "ext_of s' u m = Some y"
        by (auto simp: inherits_def pq)
      show ?thesis
      proof (cases "u = p \<and> m = n")
        case True
        with u D(4) show ?thesis by (auto simp: linked_def)
      next
        case False with u tab[of u m] show ?thesis by (auto simp: inherits_def)
      qed
    qed
    have acc: "accessible s' q m y \<Longrightarrow> accessible s q m y \<or> m = n \<and> q \<in> set (used_by (packages s p)) \<and> ext_of s' p n = Some y" for y
      using inh[of y] pres[of q m] qm by (auto simp: accessible_def)
    from D(3)[of q m] consider "keyword_flag (packages s q)" | "shadowed s q m"
      | "\<And>x y. accessible s q m x \<Longrightarrow> accessible s q m y \<Longrightarrow> x = y" "\<not> shadowed s q m" "\<not> keyword_flag (packages s q)"
      by (auto simp: unambiguous_def)
    then show ?thesis
    proof cases
      case 1 then show ?thesis by (simp add: unambiguous_def pq)
    next
      case 2 with shadowed' qm show ?thesis by (auto simp: unambiguous_def)
    next
      case 3
      have "x = y" if "accessible s' q m x" "accessible s' q m y" for x y
      proof (cases "m = n \<and> q \<in> set (used_by (packages s p)) \<and> ext_of s' p n \<noteq> None")
        case False with acc[OF that(1)] acc[OF that(2)] 3(1) show ?thesis by auto
      next
        case True
        then obtain e where e: "ext_of s' p n = Some e" by auto
        from True qm have "q \<noteq> p" by auto
        from exp[OF e] show ?thesis
        proof
          assume "ext_of s p n = Some e"
          with True D(4) have "accessible s q m e" by (auto simp: accessible_def inherits_def linked_def)
          with acc[OF that(1)] acc[OF that(2)] e 3(1) show ?thesis by (metis option.inject)
        next
          assume "\<forall>q \<in> set (used_by (packages s p)). q \<noteq> p \<longrightarrow> keyword_flag (packages s q) \<or> shadowed s q n \<or>
            (\<forall>y. accessible s q n y \<longrightarrow> y = e)"
          with True \<open>q \<noteq> p\<close> 3 have "\<forall>y. accessible s q m y \<longrightarrow> y = e" by auto
          with acc[OF that(1)] acc[OF that(2)] e show ?thesis by auto
        qed
      qed
      then show ?thesis by (auto simp: unambiguous_def)
    qed
  qed
  have "linked s'" using D(4) by (simp add: linked_def pq)
  moreover have "keywords_apart s'"
    using D(5) kw tab by (auto simp: keywords_apart_def pq) (metis (no_types))
  moreover have "homes_ok s'"
    unfolding homes_ok_def
  proof (intro allI impI)
    fix z q assume z: "z < symbol_count s'" "home_package (symbols s' z) = Some q"
    show "present s' q (sname s' z) = Some z"
    proof (cases "z < symbol_count s")
      case False with home'[OF z] show ?thesis by simp
    next
      case zs: True
      show ?thesis
      proof (cases "sname s z = n")
        case True with home[OF z zs True] sn[OF zs] show ?thesis by simp
      next
        case False
        with o z zs have "home_package (symbols s z) = Some q" by (auto simp: only_at_def)
        with D(6) zs have "present s q (sname s z) = Some z" by (auto simp: homes_ok_def)
        with False pres[of q "sname s z"] sn[OF zs] show ?thesis by simp
      qed
    qed
  qed
  moreover have "packages s' q = blank_package []" if "package_count s' \<le> q" for q
  proof -
    from o that have "package_count s \<le> q" by (simp add: only_at_def)
    with p D(7) pk show ?thesis by fastforce
  qed
  ultimately show ?thesis
    using tabs shads' unamb by (simp add: consistent_def)
qed

section \<open>What the primitive operations change\<close>

named_theorems pk_simps \<open>the effect of primitive operations on what can be observed\<close>

lemma ext_of_simps [pk_simps]:
  "ext_of (put_external p n x s) q m = (if q = p \<and> m = n then Some x else ext_of s q m)"
  "ext_of (rem_external p n s) q m = (if q = p \<and> m = n then None else ext_of s q m)"
  "ext_of (put_internal p n x s) = ext_of s"
  "ext_of (rem_internal p n s) = ext_of s"
  "ext_of (put_shadowing p x s) = ext_of s"
  "ext_of (rem_shadowing p x s) = ext_of s"
  "ext_of (set_home x h s) = ext_of s"
  "ext_of (upd_symbol x f s) = ext_of s"
  by (auto simp: ext_of_def put_external_def rem_external_def put_internal_def rem_internal_def put_shadowing_def
      rem_shadowing_def set_home_def upd_package_def upd_symbol_def update_conv' delete_conv' fun_eq_iff)

lemma int_of_simps [pk_simps]:
  "int_of (put_internal p n x s) q m = (if q = p \<and> m = n then Some x else int_of s q m)"
  "int_of (rem_internal p n s) q m = (if q = p \<and> m = n then None else int_of s q m)"
  "int_of (put_external p n x s) = int_of s"
  "int_of (rem_external p n s) = int_of s"
  "int_of (put_shadowing p x s) = int_of s"
  "int_of (rem_shadowing p x s) = int_of s"
  "int_of (set_home x h s) = int_of s"
  "int_of (upd_symbol x f s) = int_of s"
  by (auto simp: int_of_def put_external_def rem_external_def put_internal_def rem_internal_def put_shadowing_def
      rem_shadowing_def set_home_def upd_package_def upd_symbol_def update_conv' delete_conv' fun_eq_iff)

lemma symbols_simps [pk_simps]:
  "symbols (put_internal p n x s) = symbols s"
  "symbols (rem_internal p n s) = symbols s"
  "symbols (put_external p n x s) = symbols s"
  "symbols (rem_external p n s) = symbols s"
  "symbols (put_shadowing p x s) = symbols s"
  "symbols (rem_shadowing p x s) = symbols s"
  "symbols (set_home y h s) z = (if z = y then (symbols s y)\<lparr>home_package := h\<rparr> else symbols s z)"
  by (simp_all add: put_external_def rem_external_def put_internal_def rem_internal_def put_shadowing_def
      rem_shadowing_def set_home_def upd_package_def upd_symbol_def)

lemma counts_simps [pk_simps]:
  "symbol_count (upd_package p f s) = symbol_count s"
  "symbol_count (put_internal p n x s) = symbol_count s"
  "symbol_count (rem_internal p n s) = symbol_count s"
  "symbol_count (put_external p n x s) = symbol_count s"
  "symbol_count (rem_external p n s) = symbol_count s"
  "symbol_count (put_shadowing p x s) = symbol_count s"
  "symbol_count (rem_shadowing p x s) = symbol_count s"
  "symbol_count (set_home y h s) = symbol_count s"
  "package_count (upd_package p f s) = package_count s"
  "package_count (put_internal p n x s) = package_count s"
  "package_count (rem_internal p n s) = package_count s"
  "package_count (put_external p n x s) = package_count s"
  "package_count (rem_external p n s) = package_count s"
  "package_count (put_shadowing p x s) = package_count s"
  "package_count (rem_shadowing p x s) = package_count s"
  "package_count (set_home y h s) = package_count s"
  by (simp_all add: put_external_def rem_external_def put_internal_def rem_internal_def put_shadowing_def
      rem_shadowing_def set_home_def upd_package_def upd_symbol_def)

lemma shadowing_simps [pk_simps]:
  "shads (put_internal p n x s) q = shads s q"
  "shads (rem_internal p n s) q = shads s q"
  "shads (put_external p n x s) q = shads s q"
  "shads (rem_external p n s) q = shads s q"
  "shads (put_shadowing p x s) q = (if q = p then insert x (shads s q) else shads s q)"
  "shads (rem_shadowing p x s) q = (if q = p then shads s q - {x} else shads s q)"
  "shads (set_home y h s) q = shads s q"
  by (simp_all add: put_external_def rem_external_def put_internal_def rem_internal_def put_shadowing_def
      rem_shadowing_def set_home_def upd_package_def upd_symbol_def)

text \<open>What these operations do not touch in any package.\<close>

definition same_links :: "psys \<Rightarrow> psys \<Rightarrow> bool" where
  "same_links s s' \<longleftrightarrow>
     (\<forall>q. using_packages (packages s' q) = using_packages (packages s q) \<and> used_by (packages s' q) = used_by (packages s q) \<and>
       keyword_flag (packages s' q) = keyword_flag (packages s q) \<and>
       acts_like_keyword_flag (packages s' q) = acts_like_keyword_flag (packages s q) \<and>
       locked (packages s' q) = locked (packages s q) \<and> labels (packages s' q) = labels (packages s q)) \<and>
     name_index s' = name_index s \<and> current_package s' = current_package s"

lemma same_linksD:
  assumes "same_links s s'"
  shows "using_packages (packages s' q) = using_packages (packages s q)" "used_by (packages s' q) = used_by (packages s q)"
    "keyword_flag (packages s' q) = keyword_flag (packages s q)" "locked (packages s' q) = locked (packages s q)"
    "acts_like_keyword (packages s' q) = acts_like_keyword (packages s q)"
    "labels (packages s' q) = labels (packages s q)" "name_index s' = name_index s" "current_package s' = current_package s"
  using assms by (auto simp: same_links_def acts_like_keyword_def)

lemma same_links_refl [simp]: "same_links s s"
  by (simp add: same_links_def)

lemma same_links_trans: "same_links s s1 \<Longrightarrow> same_links s1 s2 \<Longrightarrow> same_links s s2"
  by (simp add: same_links_def)

lemma only_at_links: "only_at p n s s' \<Longrightarrow> same_links s s'"
  unfolding only_at_def same_links_def by metis

lemma only_at_prims:
  "only_at p n s (put_internal p n x s)"
  "only_at p n s (rem_internal p n s)"
  "only_at p n s (put_external p n x s)"
  "only_at p n s (rem_external p n s)"
  "only_at p (sname s x) s (put_shadowing p x s)"
  "only_at p (sname s x) s (rem_shadowing p x s)"
  "only_at p (sname s x) s (set_home x h s)"
  by (auto simp: only_at_def pk_simps)
    (simp_all add: put_external_def rem_external_def put_internal_def rem_internal_def put_shadowing_def
      rem_shadowing_def set_home_def upd_package_def upd_symbol_def locked_def labels_def)

lemma create_symbol_simps:
  assumes "create_symbol n h s = (x, s')"
  shows "x = symbol_count s" "symbol_count s' = Suc x" "ext_of s' = ext_of s" "int_of s' = int_of s" "packages s' = packages s"
    "symbols s' z = (if z = x then \<lparr>symbol_name = n, home_package = h, global_value = None\<rparr> else symbols s z)"
    "package_count s' = package_count s" "name_index s' = name_index s" "current_package s' = current_package s"
  using assms by (auto simp: create_symbol_def Let_def ext_of_def int_of_def fun_eq_iff)

lemma only_at_create: "create_symbol m h s = (x, s') \<Longrightarrow> only_at p n s s'"
  by (frule create_symbol_simps(1)) (simp add: only_at_def create_symbol_simps(2-))

text \<open>Symbols keep their names, and the number of packages does not change.\<close>

lemma only_atD:
  assumes "only_at p n s s'"
  shows "z < symbol_count s \<Longrightarrow> sname s' z = sname s z" "symbol_count s \<le> symbol_count s'" "package_count s' = package_count s"
  using assms by (auto simp: only_at_def)

lemma add_symbol_simps:
  fixes s p n x e
  defines "s' \<equiv> add_symbol_to_package p n x e s" and "out \<equiv> acts_like_keyword (packages s p) \<or> e"
  shows "ext_of s' q m = (if q = p \<and> m = n \<and> out then Some x else ext_of s q m)"
    "int_of s' q m = (if q = p \<and> m = n \<and> \<not> out then Some x else int_of s q m)"
    "shads s' q = shads s q" "sname s' z = sname s z"
    "home_package (symbols s' z) = (if z = x \<and> home_package (symbols s x) = None then Some p else home_package (symbols s z))"
    "symbol_count s' = symbol_count s"
  unfolding s'_def out_def add_symbol_to_package_def Let_def acts_like_keyword_def by (simp_all add: pk_simps)

lemma only_at_set_home: "only_at p n s s1 \<Longrightarrow> sname s1 x = n \<Longrightarrow> only_at p n s (set_home x h s1)"
  using only_at_prims(7) only_at_trans by metis

lemma only_at_put_shadowing: "only_at p n s s1 \<Longrightarrow> sname s1 x = n \<Longrightarrow> only_at p n s (put_shadowing p x s1)"
  using only_at_prims(5) only_at_trans by metis

lemma only_at_add_symbol: "sname s x = n \<Longrightarrow> only_at p n s (add_symbol_to_package p n x e s)"
  unfolding add_symbol_to_package_def Let_def
  by (auto intro!: only_at_prims only_at_set_home simp: pk_simps)

lemma unambiguousI:
  assumes "\<And>x y. accessible s p n x \<Longrightarrow> accessible s p n y \<Longrightarrow> \<not> keyword_flag (packages s p) \<Longrightarrow> \<not> shadowed s p n \<Longrightarrow> x = y"
  shows "unambiguous s p n"
  using assms by (auto simp: unambiguous_def)

lemma unambiguousD:
  assumes "unambiguous s p n" "accessible s p n x" "accessible s p n y" "\<not> keyword_flag (packages s p)" "\<not> shadowed s p n"
  shows "x = y"
  using assms by (auto simp: unambiguous_def)

lemma keyword_like:
  assumes "consistent s"
  shows "keyword_flag (packages s p) \<Longrightarrow> acts_like_keyword (packages s p)"
    "acts_like_keyword (packages s p) \<Longrightarrow> used_by (packages s p) = []"
    "keyword_flag (packages s p) \<Longrightarrow> int_of s p n = None"
    "keyword_flag (packages s p) \<Longrightarrow> locked (packages s p)"
  using consistentD(5)[OF assms] by (auto simp: keywords_apart_def acts_like_keyword_def)

text \<open>A package that nobody uses is not used by itself either.\<close>

lemma inherits_other:
  assumes "consistent s" "same_links s s'" "inherits s' p n y" "\<And>u. u \<noteq> p \<or> p \<in> set (used_by (packages s p)) \<Longrightarrow> ext_of s' u n = ext_of s u n"
  shows "inherits s p n y"
proof -
  from assms(3) obtain u where u: "u \<in> set (using_packages (packages s p))" "ext_of s' u n = Some y"
    by (auto simp: inherits_def same_linksD[OF assms(2)])
  with consistentD(4)[OF assms(1)] have "p \<in> set (used_by (packages s u))" by (auto simp: linked_def)
  with u assms(4)[of u] show ?thesis by (cases "u = p") (auto simp: inherits_def)
qed

section \<open>Interning\<close>

lemma intern_new_effect:
  assumes "intern_new p n s = (x, s')"
  shows "x = symbol_count s" "symbol_count s' = Suc x" "only_at p n s s'" "sname s' x = n" "home_package (symbols s' x) = Some p"
    "ext_of s' q m = (if q = p \<and> m = n \<and> acts_like_keyword (packages s p) then Some x else ext_of s q m)"
    "int_of s' q m = (if q = p \<and> m = n \<and> \<not> acts_like_keyword (packages s p) then Some x else int_of s q m)"
    "shads s' q = shads s q"
    "z \<noteq> x \<Longrightarrow> home_package (symbols s' z) = home_package (symbols s z)"
    "z \<noteq> x \<Longrightarrow> sname s' z = sname s z"
proof -
  obtain s1 where c: "create_symbol n (Some p) s = (x, s1)" "s' = add_symbol_to_package p n x False s1"
    using assms by (auto simp: intern_new_def split: prod.splits)
  note e = create_symbol_simps[OF c(1)]
  have sx: "sname s1 x = n" "home_package (symbols s1 x) = Some p" using e(6)[of x] by simp_all
  show "x = symbol_count s" "symbol_count s' = Suc x" using e(1,2) by (simp_all add: c(2) add_symbol_simps)
  show "only_at p n s s'"
    unfolding c(2) by (rule only_at_trans[OF only_at_create[OF c(1)] only_at_add_symbol[OF sx(1)]])
  show "sname s' x = n" "home_package (symbols s' x) = Some p" using sx by (simp_all add: c(2) add_symbol_simps)
  show "ext_of s' q m = (if q = p \<and> m = n \<and> acts_like_keyword (packages s p) then Some x else ext_of s q m)"
    "int_of s' q m = (if q = p \<and> m = n \<and> \<not> acts_like_keyword (packages s p) then Some x else int_of s q m)"
    "shads s' q = shads s q"
    using e(3-5) by (simp_all add: c(2) add_symbol_simps)
  show "z \<noteq> x \<Longrightarrow> home_package (symbols s' z) = home_package (symbols s z)" "z \<noteq> x \<Longrightarrow> sname s' z = sname s z"
    using e(6)[of z] sx by (simp_all add: c(2) add_symbol_simps)
qed

lemma intern_new_ok:
  assumes C: "consistent s" and p: "p < package_count s" and none: "present s p n = None"
    and i: "intern_new p n s = (x, s1)"
    and s': "s' = s1 \<and> find_symbol s p n = None \<or> s' = put_shadowing p x s1"
  shows "consistent s'"
proof (rule consistent_at[OF C _ p])
  note e = intern_new_effect[OF i]
  have tab: "ext_of s' = ext_of s1" "int_of s' = int_of s1" "symbols s' = symbols s1" "symbol_count s' = symbol_count s1"
    using s' by (auto simp: pk_simps)
  have sh: "shads s' p \<subseteq> insert x (shads s p)" using s' e(8) by (auto simp: pk_simps)
  show o: "only_at p n s s'" using s' e(3,4) by (auto intro: only_at_put_shadowing)
  from none have nn: "ext_of s p n = None" "int_of s p n = None" by (auto simp: present_cases)
  have px: "present s' p n = Some x" using e(6,7)[of p n] tab nn by (auto simp: present_cases)
  show "ext_of s' p n = None \<or> int_of s' p n = None" using e(6,7)[of p n] tab nn by auto
  show "sname s' z = n \<and> z < symbol_count s'" if "ext_of s' p n = Some z \<or> int_of s' p n = Some z" for z
    using that e(6)[of p n] e(7)[of p n] e(1,2,4) tab nn by (auto split: if_splits)
  show "z < symbol_count s \<and> sname s z \<noteq> n \<or> present s' p n = Some z" if "z \<in> shads s' p" for z
  proof -
    from that sh consider "z = x" | "z \<in> shads s p" by blast
    then show ?thesis
    proof cases
      case 1 with px show ?thesis by simp
    next
      case 2 with consistent_shadow[OF C 2] none show ?thesis by auto
    qed
  qed
  show "ext_of s p n = Some y \<or> (\<forall>q \<in> set (used_by (packages s p)). q \<noteq> p \<longrightarrow> keyword_flag (packages s q) \<or> shadowed s q n \<or>
         (\<forall>z. accessible s q n z \<longrightarrow> z = y))" if "ext_of s' p n = Some y" for y
    using that e(6)[of p n] tab keyword_like(2)[OF C, of p] by (auto split: if_splits)
  show "int_of s' p n = None" if "keyword_flag (packages s p)"
    using that e(7)[of p n] tab keyword_like(1,3)[OF C] by auto
  show "unambiguous s' p n"
    using s'
  proof
    assume a: "s' = put_shadowing p x s1"
    have "x \<in> shads s' p" "sname s' x = n" using a e(4) by (simp_all add: pk_simps)
    then show ?thesis by (auto simp: unambiguous_def shadowed_def)
  next
    assume a: "s' = s1 \<and> find_symbol s p n = None"
    show ?thesis
    proof (rule unambiguousI)
      fix y z assume acc: "accessible s' p n y" "accessible s' p n z" and kw: "\<not> keyword_flag (packages s' p)"
      have l: "same_links s s'" by (rule only_at_links[OF o])
      have "inherits s p n w" if "inherits s' p n w" for w
        using that by (rule inherits_other[OF C l]) (use e(6) tab keyword_like(2)[OF C, of p] in auto)
      moreover have "\<not> inherits s p n w" for w
        using a kw same_linksD(3)[OF l, of p] by (simp add: find_symbol_None accessible_def)
      ultimately show "y = z" using acc px by (auto simp: accessible_def)
    qed
  qed
  show "present s' q n = Some z"
    if "z < symbol_count s'" "home_package (symbols s' z) = Some q" "z < symbol_count s" "sname s z = n" for z q
  proof -
    from that e(9)[of z] e(1) tab have "home_package (symbols s z) = Some q" by auto
    with consistentD(6)[OF C] that have z: "present s q n = Some z" by (auto simp: homes_ok_def)
    with none have "q \<noteq> p" by auto
    with z e(6,7) tab show ?thesis by (simp add: present_cases)
  qed
  show "present s' q (sname s' z) = Some z"
    if "z < symbol_count s'" "home_package (symbols s' z) = Some q" "symbol_count s \<le> z" for z q
  proof -
    from that e(1,2) tab have "z = x" by simp
    with that e(4,5) px tab show ?thesis by simp
  qed
qed

text \<open>Changing a value keeps the system consistent.\<close>

lemma consistent_upd_value:
  "consistent s \<Longrightarrow> consistent (upd_symbol x (\<lambda>y. y\<lparr>global_value := v\<rparr>) s)"
proof -
  let ?s = "upd_symbol x (\<lambda>y. y\<lparr>global_value := v\<rparr>) s"
  have [simp]: "packages ?s = packages s" "\<And>z. sname ?s z = sname s z" "\<And>z. home_package (symbols ?s z) = home_package (symbols s z)"
    "symbol_count ?s = symbol_count s" "package_count ?s = package_count s"
    by (simp_all add: upd_symbol_def fun_eq_iff)
  have [simp]: "present ?s = present s" "inherits ?s = inherits s" "shadowed ?s = shadowed s"
    by (simp_all add: fun_eq_iff present_def inherits_def shadowed_def pk_simps split: option.splits)
  then have [simp]: "unambiguous ?s = unambiguous s"
    by (simp add: fun_eq_iff unambiguous_def accessible_def)
  show "consistent s \<Longrightarrow> consistent ?s"
    by (simp add: consistent_def tables_ok_def linked_def keywords_apart_def homes_ok_def pk_simps)
qed

lemma find_None_present:
  assumes "consistent s" "find_symbol s p n = None" shows "present s p n = None"
proof (cases "keyword_flag (packages s p)")
  case True
  with assms(2) keyword_like(3)[OF assms(1), of p n] show ?thesis by (simp add: find_symbol_None present_cases)
next
  case False
  with assms(2) have "present s p n \<noteq> Some x" for x by (simp add: find_symbol_None accessible_def)
  then show ?thesis by (cases "present s p n") auto
qed

lemma intern_ok:
  assumes C: "consistent s" and p: "p < package_count s"
  shows "consistent (snd (intern p n s))"
proof -
  obtain x st s1 where i: "(case find_symbol s p n of
           None \<Rightarrow> let (x, s1) = intern_new p n s in (x, None, s1)
         | Some (x, st) \<Rightarrow> (x, Some st, s)) = (x, st, s1)"
    by (cases "(case find_symbol s p n of
           None \<Rightarrow> let (x, s1) = intern_new p n s in (x, None, s1)
         | Some (x, st) \<Rightarrow> (x, Some st, s))")
  have "consistent s1"
  proof (cases "find_symbol s p n")
    case None
    with i have "intern_new p n s = (x, s1)" by (auto split: prod.splits)
    from intern_new_ok[OF C p find_None_present[OF C None] this] None show ?thesis by blast
  next
    case (Some a)
    with i C show ?thesis by (auto split: prod.splits)
  qed
  then show ?thesis unfolding intern_def i by (simp add: consistent_upd_value)
qed

section \<open>Shadowing\<close>

lemma put_shadowing_ok:
  assumes C: "consistent s" and x: "present s p n = Some x" and p: "p < package_count s"
  shows "consistent (put_shadowing p x s)"
proof (rule consistent_at[OF C _ p])
  have sx: "sname s x = n" "x < symbol_count s" using consistent_present[OF C x] by auto
  show "only_at p n s (put_shadowing p x s)" by (rule only_at_put_shadowing[OF only_at_refl sx(1)])
  have pr: "present (put_shadowing p x s) = present s" by (simp add: fun_eq_iff present_def pk_simps split: option.splits)
  show "z < symbol_count s \<and> sname s z \<noteq> n \<or> present (put_shadowing p x s) p n = Some z"
    if "z \<in> shads (put_shadowing p x s) p" for z
    using that x pr consistent_shadow[OF C, of z p] by (auto simp: pk_simps)
  have "x \<in> shads (put_shadowing p x s) p" "sname (put_shadowing p x s) x = n" using sx by (simp_all add: pk_simps)
  then show "unambiguous (put_shadowing p x s) p n" by (auto simp: unambiguous_def shadowed_def)
  show "int_of (put_shadowing p x s) p n = None" if "keyword_flag (packages s p)"
    using that keyword_like(3)[OF C] by (simp add: pk_simps)
  show "present (put_shadowing p x s) q n = Some z" if "home_package (symbols (put_shadowing p x s) z) = Some q"
    "z < symbol_count s" "sname s z = n" for z q
    using that consistentD(6)[OF C] pr by (auto simp: homes_ok_def pk_simps)
  show "present (put_shadowing p x s) q (sname (put_shadowing p x s) z) = Some z"
    if "z < symbol_count (put_shadowing p x s)" "symbol_count s \<le> z" for z q
    using that by (simp add: pk_simps)
qed (use consistentD(1)[OF C] in \<open>auto simp: tables_ok_def pk_simps\<close>)

lemma shadow_ok:
  assumes C: "consistent s" and p: "p < package_count s"
  shows "consistent (shadow p n s)"
proof (cases "find_symbol s p n")
  case None
  obtain x s1 where i: "intern_new p n s = (x, s1)" by fastforce
  from intern_new_ok[OF C p find_None_present[OF C None] i] show ?thesis using None i by (simp add: shadow_def)
next
  case (Some a)
  then obtain x st where f: "find_symbol s p n = Some (x, st)" by (cases a) auto
  show ?thesis
  proof (cases st)
    case External
    with f have "present s p n = Some x" by (simp add: find_symbol_External present_cases)
    from put_shadowing_ok[OF C this p] show ?thesis using f External by (simp add: shadow_def)
  next
    case Internal
    with f have "present s p n = Some x" by (simp add: find_symbol_Internal present_cases)
    from put_shadowing_ok[OF C this p] show ?thesis using f Internal by (simp add: shadow_def)
  next
    case Inherited
    with f have none: "present s p n = None" using find_symbol_Inherited by blast
    obtain x s1 where i: "intern_new p n s = (x, s1)" by fastforce
    from intern_new_ok[OF C p none i] show ?thesis using f i Inherited by (simp add: shadow_def)
  qed
qed

end
