(* ===== verification/PackageOps.thy ===== *)
theory PackageOps
  imports PackageOk
begin

text \<open>The operations of packages keep the package system consistent.\<close>

section \<open>Removing symbols\<close>

text \<open>The state in which a name means nothing any more inside a package; its users may still be in conflict.\<close>

definition cleared :: "nat \<Rightarrow> string \<Rightarrow> psys \<Rightarrow> psys \<Rightarrow> bool" where
  "cleared p n s s' \<longleftrightarrow>
     only_at p n s s' \<and> ext_of s' p n = None \<and> int_of s' p n = None \<and> symbol_count s' = symbol_count s \<and>
     (\<forall>z. sname s' z = sname s z) \<and> (\<forall>z \<in> shads s' p. z \<in> shads s p \<and> sname s z \<noteq> n) \<and>
     (\<forall>z q. home_package (symbols s' z) = Some q \<longrightarrow> z < symbol_count s \<longrightarrow>
        home_package (symbols s z) = Some q \<and> (q = p \<longrightarrow> sname s z \<noteq> n))"

lemma rem_shadowing_absent: "x \<notin> shads s p \<Longrightarrow> rem_shadowing p x s = s"
  by (simp add: rem_shadowing_def upd_package_def)

lemma cleared_none:
  assumes C: "consistent s" and none: "present s p n = None"
  shows "cleared p n s s"
  using none consistent_shadow(2)[OF C] consistentD(6)[OF C]
  by (auto simp: cleared_def only_at_refl present_cases homes_ok_def) (metis option.distinct(1))+

lemma find_symbol_rem_shadowing: "find_symbol (rem_shadowing p x s) q n = find_symbol s q n"
proof -
  have pk: "external_symbols (packages (rem_shadowing p x s) u) = external_symbols (packages s u)"
    "internal_symbols (packages (rem_shadowing p x s) u) = internal_symbols (packages s u)"
    "using_packages (packages (rem_shadowing p x s) u) = using_packages (packages s u)"
    "keyword_flag (packages (rem_shadowing p x s) u) = keyword_flag (packages s u)" for u
    by (simp_all add: rem_shadowing_def upd_package_def)
  have "find_inherited (rem_shadowing p x s) us n = find_inherited s us n" for us
    by (induction us) (simp_all add: pk split: option.splits)
  then show ?thesis by (simp add: find_symbol_def Let_def pk split: option.splits)
qed

lemma find_symbol_present:
  assumes C: "consistent s" and x: "present s p n = Some x"
  shows "find_symbol s p n = Some (x, if ext_of s p n = None then Internal else External)"
  using x keyword_like(3)[OF C, of p n] by (auto simp: present_cases find_symbol_External find_symbol_Internal)

lemma unintern_unsafe_absent:
  assumes C: "consistent s" and a: "present s p (sname s x) \<noteq> Some x"
  shows "unintern_unsafe p x s = (False, s)"
proof -
  have r: "rem_shadowing p x s = s" using a consistentD(2)[OF C] by (auto intro: rem_shadowing_absent)
  show ?thesis
  proof (cases "find_symbol s p (sname s x)")
    case None then show ?thesis by (simp add: unintern_unsafe_def Let_def r)
  next
    case (Some b)
    then obtain y st where f: "find_symbol s p (sname s x) = Some (y, st)" by (cases b) auto
    have "y = x \<Longrightarrow> st = Inherited"
      using a f by (cases st) (auto simp: find_symbol_External find_symbol_Internal present_cases)
    with f show ?thesis by (auto simp: unintern_unsafe_def Let_def r)
  qed
qed

lemma unintern_unsafe_present:
  assumes C: "consistent s" and x: "present s p n = Some x"
  obtains s' where "unintern_unsafe p x s = (True, s')" "cleared p n s s'" "shads s' p = shads s p - {x}"
    "\<And>z. z \<noteq> x \<Longrightarrow> home_package (symbols s' z) = home_package (symbols s z)"
    "home_package (symbols s' x) = (if home_package (symbols s x) = Some p then None else home_package (symbols s x))"
proof -
  have sx: "sname s x = n" "x < symbol_count s" using consistent_present[OF C x] by auto
  define s2 where "s2 = (if ext_of s p n = None then rem_internal p n (rem_shadowing p x s) else rem_external p n (rem_shadowing p x s))"
  define s' where "s' = (if home_package (symbols s2 x) = Some p then set_home x None s2 else s2)"
  have eq: "unintern_unsafe p x s = (True, s')"
    using find_symbol_present[OF C x]
    by (simp add: unintern_unsafe_def Let_def sx find_symbol_rem_shadowing s2_def s'_def)
  have o2: "only_at p n s s2"
  proof -
    have r: "only_at p n s (rem_shadowing p x s)" using only_at_prims(6)[of p s x] unfolding sx .
    show ?thesis
      unfolding s2_def using only_at_trans[OF r only_at_prims(2)] only_at_trans[OF r only_at_prims(4)]
      by (simp split: if_splits)
  qed
  have sn2: "symbols s2 = symbols s" by (simp add: s2_def pk_simps)
  have o: "only_at p n s s'" unfolding s'_def using o2 sx sn2 by (auto intro: only_at_set_home)
  have dis: "ext_of s p n = None \<or> int_of s p n = None"
    using consistentD(1)[OF C] by (simp add: tables_ok_def)
  have tab: "ext_of s2 p n = None" "int_of s2 p n = None"
    using dis by (cases "ext_of s p n = None"; simp add: s2_def pk_simps)+
  have sh2: "shads s2 p = shads s p - {x}" by (simp add: s2_def pk_simps)
  have sc2: "symbol_count s2 = symbol_count s" by (simp add: s2_def pk_simps)
  have tab': "ext_of s' p n = None" "int_of s' p n = None" "shads s' p = shads s p - {x}" "symbol_count s' = symbol_count s"
    using tab sh2 by (simp_all add: s'_def pk_simps sc2)
  have hm: "home_package (symbols s' z) = home_package (symbols s z)" if "z \<noteq> x" for z
    using that by (simp add: s'_def sn2 pk_simps)
  have hx: "home_package (symbols s' x) = (if home_package (symbols s x) = Some p then None else home_package (symbols s x))"
    by (simp add: s'_def sn2 pk_simps)
  have sn: "sname s' z = sname s z" for z by (simp add: s'_def sn2 pk_simps)
  have unique: "sname s z \<noteq> n" if "z \<noteq> x" "present s p (sname s z) = Some z" for z
    using that x by auto
  have "cleared p n s s'"
    unfolding cleared_def
  proof (intro conjI allI ballI impI)
    fix z assume z: "z \<in> shads s' p"
    then show "z \<in> shads s p" using tab'(3) by simp
    from z tab'(3) consistent_shadow(2)[OF C, of z p] show "sname s z \<noteq> n" by (intro unique) auto
  next
    fix z q assume z: "home_package (symbols s' z) = Some q" "z < symbol_count s"
    show h: "home_package (symbols s z) = Some q" using z(1) hm[of z] hx by (cases "z = x") (auto split: if_splits)
    show "sname s z \<noteq> n" if "q = p"
    proof (rule unique)
      show "z \<noteq> x" using z(1) hx that by (auto split: if_splits)
      show "present s p (sname s z) = Some z" using consistentD(6)[OF C] h z(2) that by (simp add: homes_ok_def)
    qed
  qed (use o tab' sn in auto)
  with eq tab'(3) hm hx show thesis by (intro that) auto
qed

lemma cleared_only: "cleared p n s s' \<Longrightarrow> only_at p n s s'"
  by (simp add: cleared_def)

text \<open>A cleared name may be inherited; that is unambiguous unless the removed symbol shadowed a conflict.\<close>

lemma cleared_ok:
  assumes C: "consistent s" and p: "p < package_count s" and c: "cleared p n s s'"
    and one: "\<And>y z. \<not> keyword_flag (packages s p) \<Longrightarrow> inherits s p n y \<Longrightarrow> inherits s p n z \<Longrightarrow> y = z"
  shows "consistent s'"
proof (rule consistent_at[OF C cleared_only[OF c] p])
  have c': "ext_of s' p n = None" "int_of s' p n = None" "symbol_count s' = symbol_count s" "\<And>z. sname s' z = sname s z"
    "\<And>z. z \<in> shads s' p \<Longrightarrow> z \<in> shads s p \<and> sname s z \<noteq> n"
    "\<And>z q. home_package (symbols s' z) = Some q \<Longrightarrow> z < symbol_count s \<Longrightarrow>
        home_package (symbols s z) = Some q \<and> (q = p \<longrightarrow> sname s z \<noteq> n)"
    using c by (auto simp: cleared_def)
  have l: "same_links s s'" by (rule only_at_links[OF cleared_only[OF c]])
  have other: "ext_of s' q n = ext_of s q n" "int_of s' q n = int_of s q n" if "q \<noteq> p" for q
    using cleared_only[OF c] that by (simp_all add: only_at_def ext_of_def int_of_def)
  show "ext_of s' p n = None \<or> int_of s' p n = None" using c' by simp
  show "sname s' z = n \<and> z < symbol_count s'" if "ext_of s' p n = Some z \<or> int_of s' p n = Some z" for z
    using that c' by simp
  show "z < symbol_count s \<and> sname s z \<noteq> n \<or> present s' p n = Some z" if "z \<in> shads s' p" for z
    using c'(5)[OF that] consistent_shadow(1)[OF C] by blast
  show "unambiguous s' p n"
  proof (rule unambiguousI)
    fix y z assume "accessible s' p n y" "accessible s' p n z" "\<not> keyword_flag (packages s' p)"
    moreover have "present s' p n = None" using c' by (simp add: present_cases)
    moreover have "inherits s p n w" if "inherits s' p n w" for w
      using that other c'(1) by (auto simp: inherits_def same_linksD[OF l]) (metis option.distinct(1))
    ultimately show "y = z" using one by (auto simp: accessible_def same_linksD[OF l])
  qed
  show "int_of s' p n = None" by (rule c'(2))
  show "present s' q n = Some z"
    if "z < symbol_count s'" "home_package (symbols s' z) = Some q" "z < symbol_count s" "sname s z = n" for z q
  proof -
    from c'(6)[OF that(2,3)] that(4) have h: "home_package (symbols s z) = Some q" "q \<noteq> p" by auto
    with consistentD(6)[OF C] that(3,4) have "present s q n = Some z" by (auto simp: homes_ok_def)
    with other[OF h(2)] show ?thesis by (simp add: present_cases)
  qed
qed (use c in \<open>auto simp: cleared_def\<close>)

lemma unintern_unsafe_ok:
  assumes C: "consistent s" and p: "p < package_count s"
    and one: "\<And>y z. x \<in> shads s p \<Longrightarrow> inherits s p (sname s x) y \<Longrightarrow> inherits s p (sname s x) z \<Longrightarrow> y = z"
  shows "consistent (snd (unintern_unsafe p x s))"
proof (cases "present s p (sname s x) = Some x")
  case False
  with C show ?thesis by (simp add: unintern_unsafe_absent)
next
  case True
  from unintern_unsafe_present[OF C True] obtain s' where s': "unintern_unsafe p x s = (True, s')"
    "cleared p (sname s x) s s'" by metis
  have "consistent s'"
  proof (rule cleared_ok[OF C p s'(2)])
    fix u v assume kw: "\<not> keyword_flag (packages s p)" and uv: "inherits s p (sname s x) u" "inherits s p (sname s x) v"
    show "u = v"
    proof (cases "x \<in> shads s p")
      case True from one[OF True uv] show ?thesis .
    next
      case False
      with True have "\<not> shadowed s p (sname s x)" by (auto simp: shadowed_iff[OF C])
      with uv kw show ?thesis using unambiguousD[OF consistentD(3)[OF C]] by (auto simp: accessible_def)
    qed
  qed
  with s' show ?thesis by simp
qed

section \<open>Shadowing imports and uninterning\<close>

lemma shadowing_import1_clears:
  assumes C: "consistent s" and n: "sname s x = n"
  obtains s1 where "cleared p n s s1" "shadowing_import1 p x s = put_shadowing p x (add_symbol_to_package p n x False s1)"
proof (cases "present s p n")
  case None
  then have "case find_symbol s p n of Some (y, st) \<Rightarrow> st = Inherited | None \<Rightarrow> True"
    by (auto simp: find_symbol_External find_symbol_Internal present_cases split: option.splits access.splits)
       (metis access.exhaust find_symbol_External find_symbol_Internal option.distinct(1))
  then have "shadowing_import1 p x s = put_shadowing p x (add_symbol_to_package p n x False s)"
    unfolding shadowing_import1_def n Let_def by (auto split: option.splits access.splits)
  with cleared_none[OF C None] that show thesis by blast
next
  case (Some y)
  from unintern_unsafe_present[OF C Some] obtain s1 where s1: "unintern_unsafe p y s = (True, s1)" "cleared p n s s1" by metis
  have "shadowing_import1 p x s = put_shadowing p x (add_symbol_to_package p n x False s1)"
    unfolding shadowing_import1_def n Let_def using find_symbol_present[OF C Some] s1(1) by simp
  with s1(2) that show thesis by blast
qed

lemma shadowing_import1_effect:
  assumes C: "consistent s" and n: "sname s x = n" and x: "x < symbol_count s"
  shows "only_at p n s (shadowing_import1 p x s)" "present (shadowing_import1 p x s) p n = Some x"
    "x \<in> shads (shadowing_import1 p x s) p"
    "q \<noteq> p \<Longrightarrow> ext_of (shadowing_import1 p x s) q n = ext_of s q n \<and> int_of (shadowing_import1 p x s) q n = int_of s q n"
    "symbol_count (shadowing_import1 p x s) = symbol_count s" "sname (shadowing_import1 p x s) z = sname s z"
proof -
  obtain s1 where c: "cleared p n s s1" and eq: "shadowing_import1 p x s = put_shadowing p x (add_symbol_to_package p n x False s1)"
    by (rule shadowing_import1_clears[OF C n])
  from c n have sn: "sname s1 x = n" by (simp add: cleared_def)
  show o: "only_at p n s (shadowing_import1 p x s)"
    unfolding eq by (rule only_at_put_shadowing[OF only_at_trans[OF cleared_only[OF c] only_at_add_symbol[OF sn]]])
      (simp add: add_symbol_simps sn)
  show "present (shadowing_import1 p x s) p n = Some x" using c by (simp add: eq present_cases pk_simps add_symbol_simps cleared_def)
  show "x \<in> shads (shadowing_import1 p x s) p" by (simp add: eq pk_simps)
  show "ext_of (shadowing_import1 p x s) q n = ext_of s q n \<and> int_of (shadowing_import1 p x s) q n = int_of s q n" if "q \<noteq> p"
    using o that by (simp add: only_at_def ext_of_def int_of_def)
  show "symbol_count (shadowing_import1 p x s) = symbol_count s" using c by (simp add: eq pk_simps add_symbol_simps cleared_def)
  show "sname (shadowing_import1 p x s) z = sname s z" using c by (simp add: eq pk_simps add_symbol_simps cleared_def)
qed

lemma shadowing_import1_ok:
  assumes C: "consistent s" and p: "p < package_count s" and x: "x < symbol_count s"
  shows "consistent (shadowing_import1 p x s)"
proof -
  define n where n: "n = sname s x"
  define s' where s': "s' = shadowing_import1 p x s"
  note e = shadowing_import1_effect[OF C n[symmetric] x, where p = p, folded s']
  obtain s1 where c: "cleared p n s s1" and eq: "s' = put_shadowing p x (add_symbol_to_package p n x False s1)"
    unfolding s' by (rule shadowing_import1_clears[OF C n[symmetric]])
  have c': "ext_of s1 p n = None" "int_of s1 p n = None" "symbol_count s1 = symbol_count s" "\<And>z. sname s1 z = sname s z"
    "\<And>z. z \<in> shads s1 p \<Longrightarrow> z \<in> shads s p \<and> sname s z \<noteq> n"
    "\<And>z q. home_package (symbols s1 z) = Some q \<Longrightarrow> z < symbol_count s \<Longrightarrow>
        home_package (symbols s z) = Some q \<and> (q = p \<longrightarrow> sname s z \<noteq> n)"
    using c by (auto simp: cleared_def)
  have l1: "same_links s s1" by (rule only_at_links[OF cleared_only[OF c]])
  show ?thesis unfolding s'[symmetric]
  proof (rule consistent_at[OF C e(1) p])
    show "ext_of s' p n = None \<or> int_of s' p n = None" using c' by (simp add: eq pk_simps add_symbol_simps)
    show "sname s' z = n \<and> z < symbol_count s'" if "ext_of s' p n = Some z \<or> int_of s' p n = Some z" for z
    proof -
      from that e(2) c' have "z = x" by (auto simp: eq pk_simps add_symbol_simps split: if_splits)
      with e(5,6) n x show ?thesis by simp
    qed
    show "z < symbol_count s \<and> sname s z \<noteq> n \<or> present s' p n = Some z" if "z \<in> shads s' p" for z
    proof -
      from that have "z = x \<or> z \<in> shads s1 p" by (simp add: eq pk_simps add_symbol_simps)
      with e(2) c'(5)[of z] consistent_shadow(1)[OF C] show ?thesis by blast
    qed
    show "ext_of s p n = Some y \<or> (\<forall>q \<in> set (used_by (packages s p)). q \<noteq> p \<longrightarrow> keyword_flag (packages s q) \<or> shadowed s q n \<or>
         (\<forall>z. accessible s q n z \<longrightarrow> z = y))" if "ext_of s' p n = Some y" for y
      using that c'(1) keyword_like(2)[OF C, of p]
      by (auto simp: eq pk_simps add_symbol_simps same_linksD[OF l1] split: if_splits)
    show "unambiguous s' p n" using e(3,6) n by (auto simp: unambiguous_def shadowed_def)
    show "int_of s' p n = None" if "keyword_flag (packages s p)"
      using that c'(2) keyword_like(1)[OF C] by (simp add: eq pk_simps add_symbol_simps same_linksD[OF l1])
    show "present s' q n = Some z"
      if z: "z < symbol_count s'" "home_package (symbols s' z) = Some q" "z < symbol_count s" "sname s z = n" for z q
    proof (cases "q = p \<and> z = x")
      case True with e(2) show ?thesis by simp
    next
      case False
      with z(2) have "home_package (symbols s1 z) = Some q"
        by (auto simp: eq pk_simps add_symbol_simps split: if_splits)
      from c'(6)[OF this z(3)] z(4) have h: "home_package (symbols s z) = Some q" "q \<noteq> p" by auto
      with consistentD(6)[OF C] z have "present s q n = Some z" by (auto simp: homes_ok_def)
      with e(4)[OF h(2)] show ?thesis by (simp add: present_cases)
    qed
    show "present s' q (sname s' z) = Some z" if "z < symbol_count s'" "symbol_count s \<le> z" for z q
      using that e(5) by simp
  qed
qed

lemma shadowing_import_ok:
  assumes "consistent s" "p < package_count s" "\<forall>x \<in> set xs. x < symbol_count s"
  shows "consistent (shadowing_import p xs s) \<and> package_count (shadowing_import p xs s) = package_count s \<and>
    symbol_count (shadowing_import p xs s) = symbol_count s \<and> same_links s (shadowing_import p xs s)"
  using assms
proof (induction xs arbitrary: s)
  case Nil then show ?case by (simp add: shadowing_import_def)
next
  case (Cons x xs)
  let ?s = "shadowing_import1 p x s"
  have x: "x < symbol_count s" using Cons.prems(3) by simp
  note e = shadowing_import1_effect[OF Cons.prems(1) refl x, where p = p]
  have "consistent ?s" by (rule shadowing_import1_ok[OF Cons.prems(1,2) x])
  with Cons.IH[of ?s] Cons.prems e(5) only_atD(3)[OF e(1)] only_at_links[OF e(1)] show ?case
    by (auto simp: shadowing_import_def intro: same_links_trans)
qed

section \<open>Operations that may fail\<close>

text \<open>Whatever the outcome, the state is consistent, with the same packages and at least the symbols there were.\<close>

definition later :: "psys \<Rightarrow> psys \<Rightarrow> bool" where
  "later s s' \<longleftrightarrow> consistent s' \<and> package_count s' = package_count s \<and> symbol_count s \<le> symbol_count s' \<and> same_links s s'"

lemma laterI:
  assumes "consistent s'" "only_at p n s s'"
  shows "later s s'"
  using assms only_atD(2,3) only_at_links by (auto simp: later_def)

lemma later_refl [simp]: "consistent s \<Longrightarrow> later s s"
  by (simp add: later_def)

lemma later_trans: "later s s1 \<Longrightarrow> later s1 s2 \<Longrightarrow> later s s2"
  by (auto simp: later_def intro: same_links_trans)

lemma laterD:
  assumes "later s s'"
  shows "consistent s'" "package_count s' = package_count s" "x < symbol_count s \<Longrightarrow> x < symbol_count s'" "same_links s s'"
  using assms by (auto simp: later_def)

lemma peach_later:
  assumes "consistent s" and "\<And>a s'. a \<in> set as \<Longrightarrow> later s s' \<Longrightarrow> later s' (pstate (f a s'))"
  shows "later s (pstate (peach f as s))"
  using assms
proof (induction as arbitrary: s)
  case Nil then show ?case by simp
next
  case (Cons a as)
  from Cons.prems have l: "later s (pstate (f a s))" by simp
  show ?case
  proof (cases "f a s")
    case (PErr e s1) with l show ?thesis by simp
  next
    case (POk v s1)
    with l have l1: "later s s1" by simp
    have "later s1 (pstate (peach f as s1))"
      by (rule Cons.IH[OF laterD(1)[OF l1]]) (use Cons.prems(2) later_trans[OF l1] in auto)
    with POk later_trans[OF l1] show ?thesis by simp
  qed
qed

lemma shadowing_import_later:
  assumes "consistent s" "p < package_count s" "\<forall>x \<in> set xs. x < symbol_count s"
  shows "later s (shadowing_import p xs s)"
  using shadowing_import_ok[OF assms] by (simp add: later_def)

lemma intern_new_later:
  assumes "consistent s" "p < package_count s" "present s p n = None" "intern_new p n s = (x, s1)"
  shows "later s (put_shadowing p x s1)"
proof (rule laterI)
  show "consistent (put_shadowing p x s1)" by (rule intern_new_ok[OF assms]) simp
  show "only_at p n s (put_shadowing p x s1)"
    using intern_new_effect(3,4)[OF assms(4)] by (rule only_at_put_shadowing)
qed

lemma shadow_present: "present s p n = Some x \<Longrightarrow> consistent s \<Longrightarrow> shadow p n s = put_shadowing p x s"
  by (auto simp: shadow_def find_symbol_present split: option.splits)

lemma shadow_absent:
  assumes "present s p n = None"
  shows "shadow p n s = (let (x, s1) = intern_new p n s in put_shadowing p x s1)"
proof (cases "find_symbol s p n")
  case None then show ?thesis by (simp add: shadow_def)
next
  case (Some a)
  then obtain x st where f: "find_symbol s p n = Some (x, st)" by (cases a) auto
  with assms have "st = Inherited"
    by (cases st) (auto simp: find_symbol_External find_symbol_Internal present_cases)
  with f show ?thesis by (simp add: shadow_def)
qed

lemma shadow_later:
  assumes C: "consistent s" and p: "p < package_count s"
  shows "later s (shadow p n s)"
proof (cases "present s p n")
  case None
  obtain x s1 where i: "intern_new p n s = (x, s1)" by fastforce
  from intern_new_later[OF C p None i] show ?thesis by (simp add: shadow_absent[OF None] i)
next
  case (Some x)
  have "only_at p n s (put_shadowing p x s)"
    using consistent_present(1)[OF C Some] by (intro only_at_put_shadowing only_at_refl)
  with shadow_ok[OF C p, of n] show ?thesis unfolding shadow_present[OF Some C] by (rule laterI)
qed

lemma set_unintern_candidates:
  "x \<in> set (unintern_candidates s n us cs) \<longleftrightarrow> x \<in> set cs \<or> (\<exists>u \<in> set us. ext_of s u n = Some x)"
proof (induction us arbitrary: cs)
  case Nil then show ?case by simp
next
  case (Cons u us)
  show ?case
  proof (cases "ext_of s u n")
    case None
    then have "find_symbol s u n \<noteq> Some (y, External)" for y by (simp add: find_symbol_External)
    then have "unintern_candidates s n (u # us) cs = unintern_candidates s n us cs"
      by (auto split: option.splits access.splits)
    with Cons None show ?thesis by simp
  next
    case (Some y)
    then have "find_symbol s u n = Some (y, External)" by (simp add: find_symbol_External)
    with Cons Some show ?thesis by auto
  qed
qed

lemma unintern_unsafe_later:
  assumes C: "consistent s" and p: "p < package_count s"
    and one: "\<And>y z. x \<in> shads s p \<Longrightarrow> inherits s p (sname s x) y \<Longrightarrow> inherits s p (sname s x) z \<Longrightarrow> y = z"
  shows "later s (snd (unintern_unsafe p x s))"
proof (cases "present s p (sname s x) = Some x")
  case False with C show ?thesis by (simp add: unintern_unsafe_absent)
next
  case True
  from unintern_unsafe_present[OF C True] obtain s' where s': "unintern_unsafe p x s = (True, s')"
    "cleared p (sname s x) s s'" by metis
  have "consistent (snd (unintern_unsafe p x s))" by (rule unintern_unsafe_ok[OF C p one])
  then have "consistent s'" by (simp add: s')
  from laterI[OF this cleared_only[OF s'(2)]] show ?thesis by (simp add: s')
qed

lemma unintern_later:
  assumes C: "consistent s" and p: "p < package_count s"
  shows "later s (pstate (unintern h p x s))"
proof -
  define n where "n = sname s x"
  define cs where "cs = (if x \<in> shads s p then unintern_candidates s n (using_packages (packages s p)) [] else [])"
  have cs: "inherits s p n y" if "y \<in> set cs" for y
    using that unfolding cs_def inherits_def by (cases "x \<in> shads s p") (simp_all add: set_unintern_candidates)
  have one: "y = z" if "\<not> length cs > 1" "x \<in> shads s p" "inherits s p n y" "inherits s p n z" for y z
  proof -
    from that(2-4) have "y \<in> set cs" "z \<in> set cs" by (auto simp: cs_def set_unintern_candidates inherits_def)
    with that(1) show ?thesis by (cases cs) auto
  qed
  show ?thesis
  proof (cases "locked (packages s p)")
    case True with C show ?thesis by (simp add: unintern_def Let_def)
  next
    case unl: False
    show ?thesis
    proof (cases "length cs > 1")
      case False
      have "later s (snd (unintern_unsafe p x s))"
      proof (rule unintern_unsafe_later[OF C p])
        fix y z assume "x \<in> shads s p" "inherits s p (sname s x) y" "inherits s p (sname s x) z"
        then show "y = z" using one[OF False] by (simp add: n_def)
      qed
      moreover have "unintern h p x s = (case unintern_unsafe p x s of (b, s') \<Rightarrow> POk b s')"
        using False unl unfolding unintern_def Let_def cs_def n_def by simp
      ultimately show ?thesis by (simp split: prod.splits)
    next
      case True
      have eq: "unintern h p x s = pbind (unintern_name_conflict h p x cs s) (\<lambda>_ s'. POk True s')"
        using True unl unfolding unintern_def Let_def cs_def n_def by simp
      have "later s (shadowing_import p [y] s)" if "y \<in> set cs" for y
        using that cs consistent_inherits(2)[OF C] by (intro shadowing_import_later[OF C p]) auto
      with C show ?thesis by (simp add: eq unintern_name_conflict_def split: option.splits)
    qed
  qed
qed

lemma add_symbol_later:
  assumes C: "consistent s" and p: "p < package_count s" and x: "x < symbol_count s" and none: "find_symbol s p (sname s x) = None"
  shows "later s (add_symbol_to_package p (sname s x) x False s)"
proof -
  define n where "n = sname s x"
  define s' where "s' = add_symbol_to_package p n x False s"
  have o: "only_at p n s s'" unfolding s'_def by (rule only_at_add_symbol) (simp add: n_def)
  have pn: "ext_of s p n = None" "int_of s p n = None"
    using find_None_present[OF C none] by (auto simp: n_def present_cases)
  have px: "present s' p n = Some x" using pn by (simp add: s'_def present_cases add_symbol_simps)
  have "consistent s'"
  proof (rule consistent_at[OF C o p])
    show "ext_of s' p n = None \<or> int_of s' p n = None" using pn by (simp add: s'_def add_symbol_simps)
    show "sname s' z = n \<and> z < symbol_count s'" if "ext_of s' p n = Some z \<or> int_of s' p n = Some z" for z
      using that pn x by (auto simp: s'_def add_symbol_simps n_def split: if_splits)
    show "z < symbol_count s \<and> sname s z \<noteq> n \<or> present s' p n = Some z" if "z \<in> shads s' p" for z
      using that consistent_shadow[OF C, of z p] pn by (auto simp: s'_def add_symbol_simps present_cases)
    show "ext_of s p n = Some y \<or> (\<forall>q \<in> set (used_by (packages s p)). q \<noteq> p \<longrightarrow> keyword_flag (packages s q) \<or> shadowed s q n \<or>
         (\<forall>z. accessible s q n z \<longrightarrow> z = y))" if "ext_of s' p n = Some y" for y
      using that pn keyword_like(2)[OF C, of p] by (auto simp: s'_def add_symbol_simps split: if_splits)
    show "int_of s' p n = None" if "keyword_flag (packages s p)"
      using that pn keyword_like(1)[OF C] by (simp add: s'_def add_symbol_simps)
    show "unambiguous s' p n"
    proof (rule unambiguousI)
      fix y z assume acc: "accessible s' p n y" "accessible s' p n z" and kw: "\<not> keyword_flag (packages s' p)"
      have l: "same_links s s'" by (rule only_at_links[OF o])
      have "inherits s p n w" if "inherits s' p n w" for w
        using that by (rule inherits_other[OF C l]) (use keyword_like(2)[OF C, of p] in \<open>auto simp: s'_def add_symbol_simps\<close>)
      moreover have "\<not> inherits s p n w" for w
        using none kw by (simp add: n_def find_symbol_None accessible_def same_linksD[OF l])
      ultimately show "y = z" using acc px by (auto simp: accessible_def)
    qed
    show "present s' q n = Some z"
      if z: "z < symbol_count s'" "home_package (symbols s' z) = Some q" "z < symbol_count s" "sname s z = n" for z q
    proof (cases "z = x \<and> home_package (symbols s x) = None")
      case True with z px show ?thesis by (auto simp: s'_def add_symbol_simps)
    next
      case False
      with z have "home_package (symbols s z) = Some q" by (auto simp: s'_def add_symbol_simps)
      with consistentD(6)[OF C] z have z': "present s q n = Some z" by (auto simp: homes_ok_def)
      with pn have "q \<noteq> p" by (auto simp: present_cases)
      with z' show ?thesis by (simp add: present_cases s'_def add_symbol_simps)
    qed
    show "present s' q (sname s' z) = Some z" if "z < symbol_count s'" "symbol_count s \<le> z" for z q
      using that by (simp add: s'_def add_symbol_simps)
  qed
  with o show ?thesis by (auto simp: s'_def n_def intro: laterI)
qed

end
