(* ===== verification/PackageRun.thy ===== *)
theory PackageRun
  imports PackageOps
begin

text \<open>
  The operations users call, as steps of the package system: every state that can be reached is consistent, and in a
  consistent state a name means the same whatever the order of the used packages.
\<close>

section \<open>Importing and exporting\<close>

lemma find_symbol_count:
  "consistent s \<Longrightarrow> find_symbol s p n = Some (x, st) \<Longrightarrow> x < symbol_count s \<and> sname s x = n"
  using find_symbol_accessible consistent_accessible by blast

lemma accessibility_conflict_later:
  assumes C: "consistent s" and q: "q < package_count s" and x: "x < symbol_count s"
  shows "later s (pstate (accessibility_conflict h q x s))"
proof (cases "find_symbol s q (sname s x)")
  case None with C show ?thesis by (simp add: accessibility_conflict_def)
next
  case (Some a)
  then obtain old st where f: "find_symbol s q (sname s x) = Some (old, st)" by (cases a) auto
  have imp: "later s (shadowing_import q [y] s)" if "y = old \<or> y = x" for y
    using that find_symbol_count[OF C f] x by (intro shadowing_import_later[OF C q]) auto
  have un: "later s (pstate (pbind (unintern h q old s) (\<lambda>_ s'. POk () s')))"
    using unintern_later[OF C q, of h old] by (cases "unintern h q old s") simp_all
  from f C imp un shadow_later[OF C q] show ?thesis
    unfolding accessibility_conflict_def Let_def f option.case prod.case
    by (simp split: choice.split access.split)
qed

lemma import1_later:
  assumes C: "consistent s" and p: "p < package_count s" and x: "x < symbol_count s"
  shows "later s (pstate (import1 h p x s))"
proof -
  have "later s (shadowing_import p [x] s)" using x by (intro shadowing_import_later[OF C p]) simp
  with C add_symbol_later[OF C p x] show ?thesis
    by (simp add: import1_def Let_def import_name_conflict_def split: option.split choice.split)
qed

text \<open>Exporting an accessible symbol when no user is in conflict.\<close>

lemma export_without_conflict:
  assumes C: "consistent s" and p: "p < package_count s" and f: "find_symbol s p n = Some (x, st)" and n: "n = sname s x"
    and st: "st \<noteq> External" and nc: "export_conflicts s p n x = []"
    and s': "s' = add_symbol_to_package p n x True (if st = Internal then rem_internal p n s else s)"
  shows "only_at p n s s'" "ext_of s' p n = Some x" "shads s' q = shads s q" "consistent s'"
proof -
  define s1 where "s1 = (if st = Internal then rem_internal p n s else s)"
  have s': "s' = add_symbol_to_package p n x True s1" by (simp add: s' s1_def)
  have x: "x < symbol_count s" using find_symbol_count[OF C f] by simp
  have o1: "only_at p n s s1" by (simp add: s1_def only_at_prims only_at_refl)
  have sn1: "symbols s1 = symbols s" "symbol_count s1 = symbol_count s" "ext_of s1 = ext_of s" "shads s1 r = shads s r" for r
    by (simp_all add: s1_def pk_simps)
  have i1: "int_of s1 p n = None"
    using f st keyword_like(3)[OF C] by (cases st) (auto simp: s1_def pk_simps present_cases dest: find_symbol_Inherited)
  show o: "only_at p n s s'"
    unfolding s' by (rule only_at_trans[OF o1 only_at_add_symbol]) (simp add: n sn1)
  have l: "same_links s s'" by (rule only_at_links[OF o])
  show e: "ext_of s' p n = Some x" by (simp add: s' add_symbol_simps)
  show sh: "shads s' q = shads s q" for q by (simp add: s' add_symbol_simps sn1)
  have px: "present s' p n = Some x" using e by (simp add: present_cases)
  have acc: "accessible s p n x" by (rule find_symbol_accessible[OF f])
  have kw: "\<not> keyword_flag (packages s p)"
    using f st by (cases st) (auto simp: find_symbol_Internal dest: find_symbol_Inherited)
  have users: "keyword_flag (packages s q) \<or> shadowed s q n \<or> (\<forall>y. accessible s q n y \<longrightarrow> y = x)" if q: "q \<in> set (used_by (packages s p))" for q
  proof (cases "find_symbol s q n")
    case None
    then show ?thesis by (auto simp: find_symbol_None split: if_splits)
  next
    case (Some a)
    then obtain y t where fy: "find_symbol s q n = Some (y, t)" by (cases a) auto
    with nc q have "x = y \<or> y \<in> shads s q" by (auto simp: export_conflicts_def filter_empty_conv)
    with fy find_symbol_count[OF C fy] find_symbol_accessible[OF fy] consistentD(3)[OF C, of q n] show ?thesis
      by (auto simp: shadowed_def unambiguous_def)
  qed
  show "consistent s'"
  proof (rule consistent_at[OF C o p])
    show "ext_of s' p n = None \<or> int_of s' p n = None" using i1 by (simp add: s' add_symbol_simps)
    show "sname s' z = n \<and> z < symbol_count s'" if "ext_of s' p n = Some z \<or> int_of s' p n = Some z" for z
      using that i1 e n x by (auto simp: s' add_symbol_simps sn1)
    show "z < symbol_count s \<and> sname s z \<noteq> n \<or> present s' p n = Some z" if "z \<in> shads s' p" for z
    proof (cases "sname s z = n")
      case False with that sh consistent_shadow(1)[OF C] show ?thesis by blast
    next
      case True
      with that sh consistent_shadow(2)[OF C] have "present s p n = Some z" by blast
      with f have "z = x" using find_symbol_present[OF C] by fastforce
      with px show ?thesis by simp
    qed
    show "ext_of s p n = Some y \<or> (\<forall>q \<in> set (used_by (packages s p)). q \<noteq> p \<longrightarrow> keyword_flag (packages s q) \<or> shadowed s q n \<or>
         (\<forall>z. accessible s q n z \<longrightarrow> z = y))" if "ext_of s' p n = Some y" for y
      using that e users by auto
    show "int_of s' p n = None" if "keyword_flag (packages s p)" using that kw by simp
    show "unambiguous s' p n"
    proof (rule unambiguousI)
      fix y z assume yz: "accessible s' p n y" "accessible s' p n z" and ns: "\<not> shadowed s' p n"
      from ns sh have ns': "\<not> shadowed s p n" by (auto simp: shadowed_def s' add_symbol_simps sn1)
      have "w = x" if w: "accessible s' p n w" for w
      proof -
        from w px consider "w = x" | "inherits s' p n w" by (auto simp: accessible_def)
        then show "w = x"
        proof cases
          case 2
          then obtain u where u: "u \<in> set (using_packages (packages s p))" "ext_of s' u n = Some w"
            by (auto simp: inherits_def same_linksD[OF l])
          show ?thesis
          proof (cases "u = p")
            case True with u e show ?thesis by simp
          next
            case False
            with u have "accessible s p n w" by (auto simp: accessible_def inherits_def s' add_symbol_simps sn1)
            from unambiguousD[OF consistentD(3)[OF C] this acc kw ns'] show ?thesis .
          qed
        qed
      qed
      with yz show "y = z" by metis
    qed
    show "present s' q n = Some z"
      if z: "z < symbol_count s'" "home_package (symbols s' z) = Some q" "z < symbol_count s" "sname s z = n" for z q
    proof (cases "z = x \<and> home_package (symbols s x) = None")
      case True with z px show ?thesis by (auto simp: s' add_symbol_simps sn1)
    next
      case False
      with z have "home_package (symbols s z) = Some q" by (auto simp: s' add_symbol_simps sn1)
      with consistentD(6)[OF C] z have z': "present s q n = Some z" by (auto simp: homes_ok_def)
      show ?thesis
      proof (cases "q = p")
        case True
        with z' find_symbol_present[OF C] f have "z = x" by fastforce
        with True px show ?thesis by simp
      next
        case False
        with z' o show ?thesis by (simp add: present_cases only_at_def ext_of_def int_of_def)
      qed
    qed
    show "present s' q (sname s' z) = Some z" if "z < symbol_count s'" "symbol_count s \<le> z" for z q
      using that by (simp add: s' add_symbol_simps sn1)
  qed
qed

lemma used_by_count:
  assumes "consistent s" "q \<in> set (used_by (packages s p))"
  shows "q < package_count s"
proof (rule ccontr)
  assume "\<not> q < package_count s"
  with consistentD(7)[OF assms(1), of q] have "using_packages (packages s q) = []" by (simp add: blank_package_def)
  moreover have "p \<in> set (using_packages (packages s q))"
    using assms(2) consistentD(4)[OF assms(1)] by (simp add: linked_def)
  ultimately show False by simp
qed

lemma export2_later:
  assumes "consistent s" "p < package_count s" "x < symbol_count s"
  shows "later s (pstate (export2 fuel h p x s))"
  using assms
proof (induction fuel arbitrary: s)
  case 0 then show ?case by simp
next
  case (Suc fuel)
  note C = Suc.prems(1) and p = Suc.prems(2) and x = Suc.prems(3)
  define n where "n = sname s x"
  show ?case
  proof (cases "find_symbol s p n")
    case None
    let ?s = "add_symbol_to_package p n x False s"
    have l: "later s ?s" using add_symbol_later[OF C p x] None by (simp add: n_def)
    have "later ?s (pstate (export2 fuel h p x ?s))"
      using laterD[OF l] p x by (intro Suc.IH) simp_all
    with later_trans[OF l] None C show ?thesis by (simp add: Let_def flip: n_def)
  next
    case (Some a)
    then obtain y st where f: "find_symbol s p n = Some (y, st)" by (cases a) auto
    show ?thesis
    proof (cases "y = x \<and> st \<noteq> External")
      case False with f C show ?thesis by (auto simp: Let_def simp flip: n_def)
    next
      case True
      define cs where "cs = export_conflicts s p n x"
      have fx: "find_symbol s p n = Some (x, st)" using f True by simp
      show ?thesis
      proof (cases "cs = []")
        case nc: True
        define s' where "s' = add_symbol_to_package p n x True (if st = Internal then rem_internal p n s else s)"
        note e = export_without_conflict[OF C p fx n_def conjunct2[OF True] nc[unfolded cs_def] s'_def]
        have "later s s'" by (rule laterI[OF e(4) e(1)])
        moreover have "export2 (Suc fuel) h p x s = POk () s'"
          using True fx nc by (simp add: Let_def cs_def s'_def flip: n_def)
        ultimately show ?thesis by simp
      next
        case False
        have "later s (pstate (export_name_conflict h x cs s))"
          unfolding export_name_conflict_def
        proof (rule peach_later[OF C])
          fix q s1 assume q: "q \<in> set cs" "later s s1"
          have "q < package_count s1"
            using q(1) used_by_count[OF C] laterD(2)[OF q(2)] by (auto simp: cs_def export_conflicts_def)
          with laterD(1,3)[OF q(2)] x show "later s1 (pstate (accessibility_conflict h q x s1))"
            by (intro accessibility_conflict_later)
        qed
        moreover have "later s1 (pstate (export2 fuel h p x s1))" if "later s s1" for s1
          using laterD[OF that] p x by (intro Suc.IH) simp_all
        ultimately have "later s (pstate (pbind (export_name_conflict h x cs s) (\<lambda>_ s'. export2 fuel h p x s')))"
          by (cases "export_name_conflict h x cs s") (auto intro: later_trans)
        with True fx False show ?thesis by (simp add: Let_def cs_def flip: n_def)
      qed
    qed
  qed
qed

text \<open>\<open>unexport\<close> must be called with the symbol that is accessible.\<close>

lemma unexport_later:
  assumes C: "consistent s" and p: "p < package_count s"
    and same: "\<And>y. find_symbol s p (sname s x) = Some (y, External) \<Longrightarrow> y = x"
  shows "later s (pstate (unexport p x s))"
proof (cases "\<not> locked (packages s p) \<and> (\<exists>y. find_symbol s p (sname s x) = Some (y, External))")
  case False
  with C show ?thesis by (auto simp: unexport_def Let_def split: option.split access.split)
next
  case True
  define n where "n = sname s x"
  from True same have f: "find_symbol s p n = Some (x, External)" by (auto simp: n_def)
  then have e: "ext_of s p n = Some x" by (simp add: find_symbol_External)
  define s' where "s' = put_internal p n x (rem_external p n s)"
  have o: "only_at p n s s'" unfolding s'_def by (rule only_at_trans[OF only_at_prims(4,1)])
  have px: "present s p n = Some x" "present s' p n = Some x" using e by (simp_all add: s'_def pk_simps present_cases)
  have x: "x < symbol_count s" using consistent_present[OF C px(1)] by simp
  have l: "same_links s s'" by (rule only_at_links[OF o])
  have "consistent s'"
  proof (rule consistent_at[OF C o p])
    show "ext_of s' p n = None \<or> int_of s' p n = None" by (simp add: s'_def pk_simps)
    show "sname s' z = n \<and> z < symbol_count s'" if "ext_of s' p n = Some z \<or> int_of s' p n = Some z" for z
      using that x by (simp add: s'_def pk_simps n_def)
    show "z < symbol_count s \<and> sname s z \<noteq> n \<or> present s' p n = Some z" if "z \<in> shads s' p" for z
      using that consistent_shadow[OF C, of z p] px by (auto simp: s'_def pk_simps)
    show "ext_of s p n = Some y \<or> (\<forall>q \<in> set (used_by (packages s p)). q \<noteq> p \<longrightarrow> keyword_flag (packages s q) \<or> shadowed s q n \<or>
         (\<forall>z. accessible s q n z \<longrightarrow> z = y))" if "ext_of s' p n = Some y" for y
      using that by (simp add: s'_def pk_simps)
    show "int_of s' p n = None" if "keyword_flag (packages s p)"
      using that True keyword_like(4)[OF C] by simp
    show "unambiguous s' p n"
    proof -
      have "accessible s p n y" if "accessible s' p n y" for y
        using that px by (auto simp: accessible_def inherits_def same_linksD[OF l]) (auto simp: s'_def pk_simps split: if_splits)
      moreover have "shadowed s' p n = shadowed s p n" by (simp add: shadowed_def s'_def pk_simps)
      ultimately show ?thesis using consistentD(3)[OF C, of p n] by (auto simp: unambiguous_def same_linksD[OF l])
    qed
    show "present s' q n = Some z"
      if z: "z < symbol_count s'" "home_package (symbols s' z) = Some q" "z < symbol_count s" "sname s z = n" for z q
    proof -
      from z consistentD(6)[OF C] have "present s q n = Some z" by (auto simp: homes_ok_def s'_def pk_simps)
      with px show ?thesis by (cases "q = p") (auto simp: present_cases s'_def pk_simps)
    qed
    show "present s' q (sname s' z) = Some z" if "z < symbol_count s'" "symbol_count s \<le> z" for z q
      using that by (simp add: s'_def pk_simps)
  qed
  then have "later s s'" using o by (rule laterI)
  with True f show ?thesis by (simp add: unexport_def Let_def s'_def flip: n_def)
qed

section \<open>Use lists\<close>

text \<open>Operations that only change the use lists of packages.\<close>

lemma consistent_relinked:
  assumes C: "consistent s" and cnt: "package_count s' = package_count s" "symbol_count s' = symbol_count s" "symbols s' = symbols s"
    and pk: "\<And>q. packages s' q = (packages s q)\<lparr>using_packages := using_packages (packages s' q), used_by := used_by (packages s' q)\<rparr>"
    and link: "linked s'"
    and unamb: "\<And>q n. unambiguous s' q n"
    and kw: "\<And>q. acts_like_keyword (packages s q) \<Longrightarrow> used_by (packages s' q) = []"
    and blank: "\<And>q. package_count s \<le> q \<Longrightarrow> using_packages (packages s' q) = [] \<and> used_by (packages s' q) = []"
  shows "consistent s'"
proof -
  have f: "external_symbols (packages s' q) = external_symbols (packages s q)"
    "internal_symbols (packages s' q) = internal_symbols (packages s q)" "shadowing (packages s' q) = shadowing (packages s q)"
    "keyword_flag (packages s' q) = keyword_flag (packages s q)"
    "acts_like_keyword_flag (packages s' q) = acts_like_keyword_flag (packages s q)"
    "system_locked (packages s' q) = system_locked (packages s q)" "user_locked (packages s' q) = user_locked (packages s q)" for q
    using pk[of q] by (metis (no_types, lifting) package.select_convs package.surjective package.update_convs)+
  have o: "ext_of s' = ext_of s" "int_of s' = int_of s" by (simp_all add: fun_eq_iff ext_of_def int_of_def f)
  have pr: "present s' = present s" by (simp add: fun_eq_iff present_def o split: option.splits)
  have "packages s' q = blank_package []" if "package_count s' \<le> q" for q
  proof -
    from that cnt have q: "package_count s \<le> q" by simp
    have "packages s' q = (packages s q)\<lparr>using_packages := [], used_by := []\<rparr>" using pk[of q] blank[OF q] by simp
    also have "\<dots> = blank_package []" using consistentD(7)[OF C q] by (simp add: blank_package_def)
    finally show ?thesis .
  qed
  then show ?thesis
    using consistentD[OF C] link unamb kw
    by (simp add: consistent_def tables_ok_def keywords_apart_def homes_ok_def o pr cnt f locked_def acts_like_keyword_def)
qed

lemma use_without_conflict:
  assumes C: "consistent s" and p: "p < package_count s" and u: "u < package_count s"
    and kw: "\<not> acts_like_keyword (packages s u)" and new: "u \<notin> set (using_packages (packages s p))"
    and nc: "find_conflicts s p u = []"
    and s': "s' = upd_package u (\<lambda>k. k\<lparr>used_by := used_by k @ [p]\<rparr>)
            (upd_package p (\<lambda>k. k\<lparr>using_packages := using_packages k @ [u]\<rparr>) s)"
  shows "consistent s'" "package_count s' = package_count s" "symbol_count s' = symbol_count s"
proof -
  have using': "using_packages (packages s' q) = using_packages (packages s q) @ (if q = p then [u] else [])" for q
    by (simp add: s' upd_package_def)
  have used': "used_by (packages s' q) = used_by (packages s q) @ (if q = u then [p] else [])" for q
    by (simp add: s' upd_package_def)
  have sym: "symbols s' = symbols s" by (simp add: s' upd_package_def)
  have f: "external_symbols (packages s' q) = external_symbols (packages s q)"
    "internal_symbols (packages s' q) = internal_symbols (packages s q)" "shadowing (packages s' q) = shadowing (packages s q)"
    "keyword_flag (packages s' q) = keyword_flag (packages s q)" for q
    by (simp_all add: s' upd_package_def)
  show cnt: "package_count s' = package_count s" "symbol_count s' = symbol_count s"
    by (simp_all add: s' upd_package_def)
  have o: "ext_of s' = ext_of s" "present s' = present s" "shadowed s' = shadowed s"
    by (simp_all add: fun_eq_iff ext_of_def int_of_def present_def shadowed_def f sym split: option.splits)
  have users: "keyword_flag (packages s p) \<or> shadowed s p n \<or> (\<forall>y. accessible s p n y \<longrightarrow> y = x)" if x: "ext_of s u n = Some x" for n x
  proof (cases "find_symbol s p n")
    case None
    then show ?thesis by (auto simp: find_symbol_None split: if_splits)
  next
    case (Some a)
    then obtain y t where fy: "find_symbol s p n = Some (y, t)" by (cases a) auto
    from x have "(n, x) \<in> set (external_symbols (packages s u))" by (simp add: ext_of_def map_of_SomeD)
    with nc fy have "y = x \<or> y \<in> shads s p" by (auto simp: find_conflicts_def filter_empty_conv)
    with find_symbol_count[OF C fy] find_symbol_accessible[OF fy] consistentD(3)[OF C, of p n] show ?thesis
      by (auto simp: shadowed_def unambiguous_def)
  qed
  have unamb: "unambiguous s' q n" for q n
  proof (rule unambiguousI)
    fix y z assume yz: "accessible s' q n y" "accessible s' q n z"
      and k: "\<not> keyword_flag (packages s' q)" and ns: "\<not> shadowed s' q n"
    have acc: "accessible s q n w \<or> q = p \<and> ext_of s u n = Some w" if "accessible s' q n w" for w
      using that by (auto simp: accessible_def inherits_def o using' split: if_splits)
    have one: "v = w" if "accessible s q n v" "accessible s q n w" for v w
      using unambiguousD[OF consistentD(3)[OF C] that] k ns by (simp add: f o)
    show "y = z"
    proof (cases "q = p \<and> ext_of s u n \<noteq> None")
      case False with acc[OF yz(1)] acc[OF yz(2)] one show ?thesis by auto
    next
      case True
      then obtain x where x: "ext_of s u n = Some x" by auto
      with users[OF x] True k ns have "\<And>w. accessible s q n w \<Longrightarrow> w = x" by (auto simp: f o)
      with acc[OF yz(1)] acc[OF yz(2)] x show ?thesis by auto
    qed
  qed
  show "consistent s'"
  proof (rule consistent_relinked[OF C cnt sym _ _ unamb])
    show "packages s' q = (packages s q)\<lparr>using_packages := using_packages (packages s' q), used_by := used_by (packages s' q)\<rparr>" for q
      by (simp add: s' upd_package_def)
    show "linked s'"
      using consistentD(4)[OF C] new by (auto simp: linked_def using' used')
    show "used_by (packages s' q) = []" if "acts_like_keyword (packages s q)" for q
      using that kw keyword_like(2)[OF C that] by (auto simp: used')
    show "using_packages (packages s' q) = [] \<and> used_by (packages s' q) = []" if "package_count s \<le> q" for q
      using that p u consistentD(7)[OF C that] by (simp add: using' used' blank_package_def)
  qed
qed

text \<open>States with the same packages and at least the same symbols, whose links may differ.\<close>

definition system_grown :: "psys \<Rightarrow> psys \<Rightarrow> bool" where
  "system_grown s s' \<longleftrightarrow> consistent s' \<and> package_count s' = package_count s \<and> symbol_count s \<le> symbol_count s' \<and>
     (\<forall>q. acts_like_keyword (packages s' q) = acts_like_keyword (packages s q) \<and>
        labels (packages s' q) = labels (packages s q)) \<and>
     name_index s' = name_index s \<and> current_package s' = current_package s"

lemma later_grown: "later s s' \<Longrightarrow> system_grown s s'"
  by (simp add: later_def system_grown_def same_linksD)

lemma grown_trans: "system_grown s s1 \<Longrightarrow> system_grown s1 s2 \<Longrightarrow> system_grown s s2"
  by (auto simp: system_grown_def)

lemma use_package_name_conflict_later:
  assumes C: "consistent s" and p: "p < package_count s"
  shows "later s (pstate (use_package_name_conflict h p u conflicts s))"
  unfolding use_package_name_conflict_def
proof (rule peach_later[OF C])
  fix x s1 assume l: "later s s1"
  from accessibility_conflict_later[OF laterD(1)[OF l], of p] p laterD(2)[OF l] find_symbol_count[OF laterD(1)[OF l]]
  show "later s1 (pstate (case find_symbol s1 u (sname s1 x) of
      None \<Rightarrow> PErr AssertionFailed s1 | Some (new, _) \<Rightarrow> accessibility_conflict h p new s1))"
    using laterD(1)[OF l] by (auto split: option.split)
qed

lemma use_package_grown:
  assumes "consistent s" "p < package_count s" "u < package_count s" "\<not> acts_like_keyword (packages s u)"
  shows "system_grown s (pstate (use_package fuel h p u s))"
  using assms
proof (induction fuel arbitrary: s)
  case 0 then show ?case by (simp add: later_grown)
next
  case (Suc fuel)
  show ?case
  proof (cases "u \<in> set (using_packages (packages s p))")
    case True with Suc.prems show ?thesis by (simp add: later_grown)
  next
    case False
    define cs where "cs = find_conflicts s p u"
    show ?thesis
    proof (cases "cs = []")
      case True
      define s' where "s' = upd_package u (\<lambda>k. k\<lparr>used_by := used_by k @ [p]\<rparr>)
            (upd_package p (\<lambda>k. k\<lparr>using_packages := using_packages k @ [u]\<rparr>) s)"
      note e = use_without_conflict[OF Suc.prems False True[unfolded cs_def] s'_def]
      have "acts_like_keyword (packages s' q) = acts_like_keyword (packages s q) \<and>
        labels (packages s' q) = labels (packages s q)" "name_index s' = name_index s" "current_package s' = current_package s" for q
        by (simp_all add: s'_def upd_package_def acts_like_keyword_def labels_def)
      with e have "system_grown s s'" by (simp add: system_grown_def)
      with False True show ?thesis by (simp add: Let_def cs_def s'_def)
    next
      case nc: False
      have l: "later s (pstate (use_package_name_conflict h p u cs s))"
        by (rule use_package_name_conflict_later[OF Suc.prems(1,2)])
      have "system_grown s1 (pstate (use_package fuel h p u s1))" if "later s s1" for s1
        using laterD[OF that] Suc.prems same_linksD(5)[OF laterD(4)[OF that]] by (intro Suc.IH) simp_all
      with l have "system_grown s (pstate (pbind (use_package_name_conflict h p u cs s) (\<lambda>_ s'. use_package fuel h p u s')))"
        by (cases "use_package_name_conflict h p u cs s") (auto intro: later_grown grown_trans)
      with False nc show ?thesis by (simp add: Let_def cs_def)
    qed
  qed
qed

lemma unuse_package_grown:
  assumes C: "consistent s"
  shows "system_grown s (pstate (unuse_package p u s))" "\<exists>s'. unuse_package p u s = POk True s'"
proof -
  show ex: "\<exists>s'. unuse_package p u s = POk True s'"
    using consistentD(4)[OF C] by (auto simp: unuse_package_def Let_def upd_package_def linked_def)
  show "system_grown s (pstate (unuse_package p u s))"
  proof (cases "u \<in> set (using_packages (packages s p))")
    case False with C show ?thesis by (simp add: unuse_package_def later_grown)
  next
    case True
    define s' where "s' = upd_package u (\<lambda>k. k\<lparr>used_by := remove1 p (used_by k)\<rparr>)
      (upd_package p (\<lambda>k. k\<lparr>using_packages := remove1 u (using_packages k)\<rparr>) s)"
    have eq: "unuse_package p u s = POk True s'"
      using True ex by (auto simp: unuse_package_def Let_def s'_def split: if_splits)
    have using': "using_packages (packages s' q) = (if q = p then remove1 u else id) (using_packages (packages s q))" for q
      by (simp add: s'_def upd_package_def)
    have used': "used_by (packages s' q) = (if q = u then remove1 p else id) (used_by (packages s q))" for q
      by (simp add: s'_def upd_package_def)
    have cnt: "package_count s' = package_count s" "symbol_count s' = symbol_count s" "symbols s' = symbols s"
      by (simp_all add: s'_def upd_package_def)
    have f: "external_symbols (packages s' q) = external_symbols (packages s q)"
      "internal_symbols (packages s' q) = internal_symbols (packages s q)" "shadowing (packages s' q) = shadowing (packages s q)"
      "keyword_flag (packages s' q) = keyword_flag (packages s q)" for q
      by (simp_all add: s'_def upd_package_def)
    have o: "ext_of s' = ext_of s" "present s' = present s" "shadowed s' = shadowed s"
      by (simp_all add: fun_eq_iff ext_of_def int_of_def present_def shadowed_def f cnt split: option.splits)
    have "consistent s'"
    proof (rule consistent_relinked[OF C cnt])
      show "packages s' q = (packages s q)\<lparr>using_packages := using_packages (packages s' q), used_by := used_by (packages s' q)\<rparr>" for q
        by (simp add: s'_def upd_package_def)
      show "linked s'" using consistentD(4)[OF C] by (auto simp: linked_def using' used' distinct_remove1)
      have "set (using_packages (packages s' q)) \<subseteq> set (using_packages (packages s q))" for q
        by (simp add: using' set_remove1_subset)
      then have "accessible s q n x" if "accessible s' q n x" for q n x
        using that by (fastforce simp: accessible_def inherits_def o)
      then show "unambiguous s' q n" for q n
        using consistentD(3)[OF C, of q n] by (auto simp: unambiguous_def f o)
      show "used_by (packages s' q) = []" if "acts_like_keyword (packages s q)" for q
        using keyword_like(2)[OF C that] by (simp add: used')
      show "using_packages (packages s' q) = [] \<and> used_by (packages s' q) = []" if "package_count s \<le> q" for q
        using consistentD(7)[OF C that] by (simp add: using' used' blank_package_def)
    qed
    moreover have "acts_like_keyword (packages s' q) = acts_like_keyword (packages s q) \<and>
      labels (packages s' q) = labels (packages s q)" "name_index s' = name_index s" "current_package s' = current_package s" for q
      by (simp_all add: s'_def upd_package_def acts_like_keyword_def labels_def)
    ultimately show ?thesis by (simp add: eq system_grown_def cnt)
  qed
qed

end
