(* ===== verification/PackageSteps.thy ===== *)
theory PackageSteps
  imports PackageRun
begin

text \<open>
  Names of packages lead to packages that exist, every package is found under its names, and the operations on
  packages keep this and the consistency of the symbols.
\<close>

section \<open>Names\<close>

definition live :: "psys \<Rightarrow> nat \<Rightarrow> bool" where
  "live s p \<longleftrightarrow> p < package_count s \<and> \<not> zombie (packages s p)"

definition has_name :: "psys \<Rightarrow> nat \<Rightarrow> string \<Rightarrow> bool" where
  "has_name s p n \<longleftrightarrow> live s p \<and> (n = package_name (packages s p) \<or> n \<in> set (nicknames (packages s p)))"

definition names_ok :: "psys \<Rightarrow> bool" where
  "names_ok s \<longleftrightarrow>
     (\<forall>n p. map_of (name_index s) n = Some p \<longleftrightarrow> has_name s p n) \<and>
     (\<forall>p. live s p \<longrightarrow> package_name (packages s p) \<noteq> []) \<and>
     (\<forall>p. live s p \<longrightarrow> distinct (package_name (packages s p) # nicknames (packages s p))) \<and>
     (\<forall>p. zombie (packages s p) \<longrightarrow> package_name (packages s p) = []) \<and>
     (\<forall>p n q. map_of (local_nicknames (packages s p)) n = Some q \<longrightarrow> q < package_count s) \<and>
     current_package s < package_count s"

definition sound :: "psys \<Rightarrow> bool" where
  "sound s \<longleftrightarrow> consistent s \<and> names_ok s"

lemma names_okD:
  assumes "names_ok s"
  shows "map_of (name_index s) n = Some p \<longleftrightarrow> has_name s p n"
    "live s p \<Longrightarrow> package_name (packages s p) \<noteq> []"
    "live s p \<Longrightarrow> distinct (package_name (packages s p) # nicknames (packages s p))"
    "zombie (packages s p) \<Longrightarrow> package_name (packages s p) = []"
    "map_of (local_nicknames (packages s p)) n = Some q \<Longrightarrow> q < package_count s"
    "current_package s < package_count s"
  using assms unfolding names_ok_def by blast+

lemma labels_eq:
  "labels k = labels k' \<longleftrightarrow>
     package_name k = package_name k' \<and> nicknames k = nicknames k' \<and> local_nicknames k = local_nicknames k' \<and>
     zombie k = zombie k'"
  by (simp add: labels_def)

lemma names_ok_cong:
  assumes "names_ok s" "package_count s' = package_count s" "name_index s' = name_index s"
    "current_package s' = current_package s" "\<And>q. labels (packages s' q) = labels (packages s q)"
  shows "names_ok s'"
proof -
  from assms(5)[unfolded labels_eq] assms(2) have "has_name s' = has_name s" "live s' = live s"
    by (simp_all add: fun_eq_iff has_name_def live_def)
  with assms(1) assms(5)[unfolded labels_eq] show ?thesis unfolding names_ok_def assms(2-4) by simp
qed

lemma grown_sound: "sound s \<Longrightarrow> system_grown s s' \<Longrightarrow> sound s'"
  by (auto simp: sound_def system_grown_def intro: names_ok_cong)

lemma later_sound: "sound s \<Longrightarrow> later s s' \<Longrightarrow> sound s'"
  using grown_sound later_grown by blast

lemma find_package_count: "names_ok s \<Longrightarrow> find_package s n = Some p \<Longrightarrow> p < package_count s"
  using names_okD(1,5) by (auto simp: find_package_def has_name_def live_def split: option.splits)

text \<open>Changing names, nicknames and the mark of deleted packages leaves the symbols consistent.\<close>

definition same_content :: "psys \<Rightarrow> psys \<Rightarrow> bool" where
  "same_content s s' \<longleftrightarrow>
     (\<forall>q. external_symbols (packages s' q) = external_symbols (packages s q) \<and>
       internal_symbols (packages s' q) = internal_symbols (packages s q) \<and>
       shadowing (packages s' q) = shadowing (packages s q) \<and>
       using_packages (packages s' q) = using_packages (packages s q) \<and> used_by (packages s' q) = used_by (packages s q) \<and>
       keyword_flag (packages s' q) = keyword_flag (packages s q) \<and>
       acts_like_keyword_flag (packages s' q) = acts_like_keyword_flag (packages s q) \<and>
       locked (packages s' q) = locked (packages s q) \<and> (package_count s' \<le> q \<longrightarrow> packages s' q = packages s q)) \<and>
     symbols s' = symbols s \<and> symbol_count s' = symbol_count s \<and> package_count s \<le> package_count s'"

lemma same_content_trans [trans]: "same_content s s1 \<Longrightarrow> same_content s1 s2 \<Longrightarrow> same_content s s2"
  unfolding same_content_def by auto

lemma same_content_consistent:
  assumes C: "consistent s" and c: "same_content s s'"
  shows "consistent s'"
proof -
  from c have f: "external_symbols (packages s' q) = external_symbols (packages s q)"
    "internal_symbols (packages s' q) = internal_symbols (packages s q)" "shadowing (packages s' q) = shadowing (packages s q)"
    "using_packages (packages s' q) = using_packages (packages s q)" "used_by (packages s' q) = used_by (packages s q)"
    "keyword_flag (packages s' q) = keyword_flag (packages s q)" "locked (packages s' q) = locked (packages s q)"
    "acts_like_keyword (packages s' q) = acts_like_keyword (packages s q)"
    "symbols s' = symbols s" "symbol_count s' = symbol_count s" for q
    by (auto simp: same_content_def acts_like_keyword_def)
  have o: "ext_of s' = ext_of s" "int_of s' = int_of s" by (simp_all add: fun_eq_iff ext_of_def int_of_def f)
  then have p: "present s' = present s" "inherits s' = inherits s" "shadowed s' = shadowed s"
    by (simp_all add: fun_eq_iff present_def inherits_def shadowed_def f split: option.splits)
  then have "unambiguous s' = unambiguous s" by (simp add: fun_eq_iff unambiguous_def accessible_def f)
  moreover have "packages s' q = blank_package []" if "package_count s' \<le> q" for q
    using c that consistentD(7)[OF C, of q] by (simp add: same_content_def)
  ultimately show ?thesis
    using consistentD[OF C] by (simp add: consistent_def tables_ok_def linked_def keywords_apart_def homes_ok_def o p f)
qed

lemma same_content_index [simp]: "same_content s (s\<lparr>name_index := i\<rparr>)"
  by (simp add: same_content_def)

lemma same_content_upd:
  assumes "p < package_count s" "\<And>k. external_symbols (f k) = external_symbols k" "\<And>k. internal_symbols (f k) = internal_symbols k"
    "\<And>k. shadowing (f k) = shadowing k" "\<And>k. using_packages (f k) = using_packages k" "\<And>k. used_by (f k) = used_by k"
    "\<And>k. keyword_flag (f k) = keyword_flag k" "\<And>k. acts_like_keyword_flag (f k) = acts_like_keyword_flag k"
    "\<And>k. locked (f k) = locked k"
  shows "same_content s (upd_package p f s)"
  using assms by (simp add: same_content_def upd_package_def)

lemma set_nicknames_simps:
  "name_index (set_nicknames p ns s) = name_index s" "package_count (set_nicknames p ns s) = package_count s"
  "current_package (set_nicknames p ns s) = current_package s"
  "nicknames (packages (set_nicknames p ns s) q) = (if q = p then ns else nicknames (packages s q))"
  "package_name (packages (set_nicknames p ns s) q) = package_name (packages s q)"
  "zombie (packages (set_nicknames p ns s) q) = zombie (packages s q)"
  "local_nicknames (packages (set_nicknames p ns s) q) = local_nicknames (packages s q)"
  "acts_like_keyword (packages (set_nicknames p ns s) q) = acts_like_keyword (packages s q)"
  "locked (packages (set_nicknames p ns s) q) = locked (packages s q)"
  by (auto simp: set_nicknames_def upd_package_def acts_like_keyword_def locked_def)

lemma same_content_nicknames: "p < package_count s \<Longrightarrow> same_content s (set_nicknames p ns s)"
  unfolding set_nicknames_def by (rule same_content_upd) (simp_all add: locked_def)

lemma map_of_fold_delete: "map_of (fold AList.delete ns al) n = (if n \<in> set ns then None else map_of al n)"
  by (induction ns arbitrary: al) (auto simp: delete_conv')

lemma peach_unmap:
  assumes "distinct ns" "\<forall>n \<in> set ns. map_of (name_index s) n \<noteq> None"
  shows "peach unmap_name ns s = POk () (s\<lparr>name_index := fold AList.delete ns (name_index s)\<rparr>)"
  using assms
proof (induction ns arbitrary: s)
  case Nil then show ?case by simp
next
  case (Cons a ns)
  then have "\<forall>n \<in> set ns. map_of (AList.delete a (name_index s)) n \<noteq> None" by (auto simp: delete_conv')
  with Cons show ?case by (auto simp: unmap_name_def)
qed

lemma peach_map:
  assumes "p < package_count s"
  shows "peach (\<lambda>nick. map_name nick p) ns s = POk () (s\<lparr>name_index := fold (\<lambda>n. AList.update n p) ns (name_index s)\<rparr>)"
  using assms by (induction ns arbitrary: s) (auto simp: map_name_def)

lemma map_of_fold_update: "map_of (fold (\<lambda>n. AList.update n p) ns al) n = (if n \<in> set ns then Some p else map_of al n)"
  by (induction ns arbitrary: al) (auto simp: update_conv')

section \<open>Nicknames and renaming\<close>

text \<open>The names of one package change; the index changes with them.\<close>

lemma names_ok_renamed:
  assumes N: "names_ok s" and p: "live s p" and cnt: "package_count s' = package_count s" "current_package s' = current_package s"
    and other: "\<And>q. q \<noteq> p \<Longrightarrow> packages s' q = packages s q"
    and here: "zombie (packages s' p) = False" "local_nicknames (packages s' p) = local_nicknames (packages s p)"
      "package_name (packages s' p) \<noteq> []" "distinct (package_name (packages s' p) # nicknames (packages s' p))"
    and idx: "\<And>n. map_of (name_index s') n =
      (if n = package_name (packages s' p) \<or> n \<in> set (nicknames (packages s' p)) then Some p
       else if has_name s p n then None else map_of (name_index s) n)"
    and free: "\<And>n q. n = package_name (packages s' p) \<or> n \<in> set (nicknames (packages s' p)) \<Longrightarrow> has_name s q n \<Longrightarrow> q = p"
  shows "names_ok s'"
proof -
  note D = names_okD[OF N]
  have l: "live s' q = live s q" for q
    using p here(1) other cnt by (cases "q = p") (simp_all add: live_def)
  have hn: "has_name s' q n = has_name s q n" if "q \<noteq> p" for q n
    using l other[OF that] by (simp add: has_name_def)
  have hp: "has_name s' p n \<longleftrightarrow> n = package_name (packages s' p) \<or> n \<in> set (nicknames (packages s' p))" for n
    using l p by (simp add: has_name_def)
  have "map_of (name_index s') n = Some q \<longleftrightarrow> has_name s' q n" for n q
  proof (cases "q = p")
    case True
    with idx[of n] hp D(1)[of n p] show ?thesis by auto
  next
    case False
    with idx[of n] hp[of n] hn[of q n] D(1)[of n q] D(1)[of n p] free[of n q] show ?thesis by auto
  qed
  moreover have "package_name (packages s' q) \<noteq> []" "distinct (package_name (packages s' q) # nicknames (packages s' q))"
    if "live s' q" for q
    using that l here(3,4) other D(2,3) by (cases "q = p"; simp)+
  moreover have "package_name (packages s' q) = []" if "zombie (packages s' q)" for q
    using that here(1) other D(4) by (cases "q = p") simp_all
  moreover have "r < package_count s'" if "map_of (local_nicknames (packages s' q)) n = Some r" for q n r
    using that here(2) other D(5) cnt by (cases "q = p") auto
  moreover have "current_package s' < package_count s'" using D(6) cnt by simp
  ultimately show ?thesis unfolding names_ok_def by blast
qed

lemma renamed_sound:
  assumes "sound s" "same_content s s'" "names_ok s'"
  shows "sound s'"
  using assms same_content_consistent by (auto simp: sound_def)

lemma add_nickname_sound:
  assumes S: "sound s" and p: "live s p"
  shows "sound (pstate (package_add_nickname p nick s))"
proof (cases "find_package s nick")
  case (Some q) with S show ?thesis by (simp add: package_add_nickname_def)
next
  case None
  have N: "names_ok s" using S by (simp add: sound_def)
  note D = names_okD[OF N]
  from None have none: "\<not> has_name s q nick" for q by (auto simp: find_package_def D(1)[symmetric] split: option.splits)
  have pc: "p < package_count s" using p by (simp add: live_def)
  define s1 where "s1 = s\<lparr>name_index := AList.update nick p (name_index s)\<rparr>"
  define s' where "s' = set_nicknames p (nick # nicknames (packages s p)) s1"
  have eq: "package_add_nickname p nick s = POk (nick # nicknames (packages s p)) s'"
    using None pc by (simp add: package_add_nickname_def map_name_def Let_def s1_def s'_def)
  have c: "same_content s s'"
    unfolding s'_def by (rule same_content_trans[of _ s1]) (simp_all add: s1_def same_content_nicknames pc)
  have "names_ok s'"
  proof (rule names_ok_renamed[OF N p])
    show "packages s' q = packages s q" if "q \<noteq> p" for q
      using that by (simp add: s'_def s1_def set_nicknames_def upd_package_def)
    show "distinct (package_name (packages s' p) # nicknames (packages s' p))"
      using D(3)[OF p] none[of p] p by (auto simp: s'_def s1_def set_nicknames_simps has_name_def)
    show "map_of (name_index s') n = (if n = package_name (packages s' p) \<or> n \<in> set (nicknames (packages s' p)) then Some p
       else if has_name s p n then None else map_of (name_index s) n)" for n
      using D(1)[of n p] p by (auto simp: s'_def s1_def set_nicknames_simps update_conv' has_name_def)
    show "q = p" if "n = package_name (packages s' p) \<or> n \<in> set (nicknames (packages s' p))" "has_name s q n" for n q
    proof -
      from that none have "has_name s p n" using p by (auto simp: s'_def s1_def set_nicknames_simps has_name_def)
      with D(1)[of n] that(2) show ?thesis by (metis option.inject)
    qed
  qed (use p D(2)[OF p] in \<open>simp_all add: s'_def s1_def set_nicknames_simps live_def\<close>)
  with S c show ?thesis by (simp add: eq renamed_sound)
qed

text \<open>A nickname that is removed must be one of the package, and the local nicknames must not hide it.\<close>

lemma remove_nickname_sound:
  assumes S: "sound s" and p: "live s p" and nick: "nick \<in> set (nicknames (packages s p))"
  shows "sound (pstate (package_remove_nickname p nick s))"
proof (cases "find_package s nick = Some p")
  case False with S show ?thesis by (simp add: package_remove_nickname_def)
next
  case True
  have N: "names_ok s" using S by (simp add: sound_def)
  note D = names_okD[OF N]
  have pc: "p < package_count s" using p by (simp add: live_def)
  have hn: "has_name s p nick" using nick p by (simp add: has_name_def)
  define s1 where "s1 = s\<lparr>name_index := AList.delete nick (name_index s)\<rparr>"
  define ns where "ns = filter (\<lambda>m. m \<noteq> nick) (nicknames (packages s p))"
  define s' where "s' = set_nicknames p ns s1"
  have "map_of (name_index s) nick \<noteq> None" using D(1)[of nick p] hn by auto
  then have eq: "package_remove_nickname p nick s = POk ns s'"
    using True nick by (auto simp: package_remove_nickname_def unmap_name_def Let_def s1_def s'_def ns_def)
  have c: "same_content s s'"
    unfolding s'_def by (rule same_content_trans[of _ s1]) (simp_all add: s1_def same_content_nicknames pc)
  have "names_ok s'"
  proof (rule names_ok_renamed[OF N p])
    show "packages s' q = packages s q" if "q \<noteq> p" for q
      using that by (simp add: s'_def s1_def set_nicknames_def upd_package_def)
    show "distinct (package_name (packages s' p) # nicknames (packages s' p))"
      using D(3)[OF p] by (auto simp: s'_def s1_def set_nicknames_simps ns_def)
    show "map_of (name_index s') n = (if n = package_name (packages s' p) \<or> n \<in> set (nicknames (packages s' p)) then Some p
       else if has_name s p n then None else map_of (name_index s) n)" for n
      using D(1)[of n p] D(3)[OF p] p nick
      by (auto simp: s'_def s1_def set_nicknames_simps delete_conv' has_name_def ns_def)
    show "q = p" if "n = package_name (packages s' p) \<or> n \<in> set (nicknames (packages s' p))" "has_name s q n" for n q
    proof -
      from that have "has_name s p n" using p by (auto simp: s'_def s1_def set_nicknames_simps has_name_def ns_def)
      with D(1)[of n] that(2) show ?thesis by (metis option.inject)
    qed
  qed (use p D(2)[OF p] in \<open>simp_all add: s'_def s1_def set_nicknames_simps live_def\<close>)
  with S c show ?thesis by (simp add: eq renamed_sound)
qed

lemma rename_sound:
  assumes S: "sound s" and p: "live s p" and n: "n \<noteq> []" "distinct (n # nicks)"
    and free: "\<And>m q. m \<in> set (n # nicks) \<Longrightarrow> has_name s q m \<Longrightarrow> q = p"
  shows "sound (pstate (rename_package p n nicks s))"
proof -
  have N: "names_ok s" using S by (simp add: sound_def)
  note D = names_okD[OF N]
  have pc: "p < package_count s" using p by (simp add: live_def)
  define k where "k = packages s p"
  have hn: "has_name s p m \<longleftrightarrow> m = package_name k \<or> m \<in> set (nicknames k)" for m using p by (simp add: has_name_def k_def)
  define i1 where "i1 = AList.delete (package_name k) (name_index s)"
  define i2 where "i2 = fold AList.delete (nicknames k) i1"
  define i3 where "i3 = AList.update n p i2"
  define i4 where "i4 = fold (\<lambda>n. AList.update n p) nicks i3"
  define s' where "s' = set_nicknames p nicks (upd_package p (\<lambda>k. k\<lparr>package_name := n\<rparr>) (s\<lparr>name_index := i4\<rparr>))"
  have "map_of (name_index s) (package_name k) \<noteq> None" using D(1)[of "package_name k" p] hn by auto
  moreover have "map_of i1 m \<noteq> None" if "m \<in> set (nicknames k)" for m
    using that D(1)[of m p] D(3)[OF p] hn by (auto simp: i1_def delete_conv' k_def)
  moreover have "distinct (nicknames k)" using D(3)[OF p] by (simp add: k_def)
  ultimately have eq: "rename_package p n nicks s = POk () s'"
    using pc
    by (simp add: rename_package_def unmap_name_def peach_unmap map_name_def peach_map i1_def i2_def i3_def i4_def
        s'_def upd_package_def set_nicknames_def flip: k_def)
  have lab: "package_name (packages s' p) = n" "nicknames (packages s' p) = nicks" "zombie (packages s' p) = zombie k"
    "local_nicknames (packages s' p) = local_nicknames k" "name_index s' = i4" "package_count s' = package_count s"
    "current_package s' = current_package s"
    by (simp_all add: s'_def set_nicknames_def upd_package_def k_def)
  have "same_content s (s\<lparr>name_index := i4\<rparr>)" by simp
  also have "same_content (s\<lparr>name_index := i4\<rparr>) (upd_package p (\<lambda>k. k\<lparr>package_name := n\<rparr>) (s\<lparr>name_index := i4\<rparr>))"
    by (rule same_content_upd) (simp_all add: pc locked_def)
  also have "same_content (upd_package p (\<lambda>k. k\<lparr>package_name := n\<rparr>) (s\<lparr>name_index := i4\<rparr>)) s'"
    unfolding s'_def by (rule same_content_nicknames) (simp add: pc pk_simps)
  finally have c: "same_content s s'" .
  have "names_ok s'"
  proof (rule names_ok_renamed[OF N p])
    show "packages s' q = packages s q" if "q \<noteq> p" for q
      using that by (simp add: s'_def set_nicknames_def upd_package_def)
    show "map_of (name_index s') m = (if m = package_name (packages s' p) \<or> m \<in> set (nicknames (packages s' p)) then Some p
       else if has_name s p m then None else map_of (name_index s) m)" for m
      by (simp add: lab hn i4_def map_of_fold_update i3_def update_conv' i2_def map_of_fold_delete i1_def delete_conv')
    show "q = p" if "m = package_name (packages s' p) \<or> m \<in> set (nicknames (packages s' p))" "has_name s q m" for m q
      using that free[of m q] by (auto simp: lab)
  qed (use p n in \<open>simp_all add: lab live_def k_def\<close>)
  with S c show ?thesis by (simp add: eq renamed_sound)
qed

end
