(* ===== verification/PackageSound.thy ===== *)
theory PackageSound
  imports PackageSteps
begin

text \<open>
  Deleting and making packages, and the step relation of the package system: all states that operations lead to are
  consistent, and names in them are unambiguous.
\<close>

section \<open>Deleting packages\<close>

lemma unuse_package_effect:
  assumes C: "consistent s"
  obtains s' where "unuse_package p u s = POk True s'" "system_grown s s'"
    "\<And>q v. v \<in> set (using_packages (packages s' q)) \<longleftrightarrow> v \<in> set (using_packages (packages s q)) \<and> \<not> (q = p \<and> v = u)"
    "\<And>q. locked (packages s' q) = locked (packages s q)"
proof -
  from unuse_package_grown[OF C, of p u] obtain s' where s': "unuse_package p u s = POk True s'" "system_grown s s'" by auto
  have d: "distinct (using_packages (packages s p))" using consistentD(4)[OF C] by (simp add: linked_def)
  show thesis
  proof (rule that[OF s'])
    show "v \<in> set (using_packages (packages s' q)) \<longleftrightarrow> v \<in> set (using_packages (packages s q)) \<and> \<not> (q = p \<and> v = u)" for q v
      using s'(1) d by (auto simp: unuse_package_def Let_def upd_package_def split: if_splits)
    show "locked (packages s' q) = locked (packages s q)" for q
      using s'(1) by (auto simp: unuse_package_def Let_def upd_package_def locked_def split: if_splits)
  qed
qed

lemma grown_refl: "consistent s \<Longrightarrow> system_grown s s"
  by (simp add: system_grown_def)

text \<open>A list of use links is taken apart.\<close>

lemma peach_unuse:
  assumes "consistent s"
  obtains s' where "peach (\<lambda>(q, u) s'. pbind (unuse_package q u s') (\<lambda>_. POk ())) qus s = POk () s'" "system_grown s s'"
    "\<And>q v. v \<in> set (using_packages (packages s' q)) \<longleftrightarrow> v \<in> set (using_packages (packages s q)) \<and> (q, v) \<notin> set qus"
    "\<And>q. locked (packages s' q) = locked (packages s q)"
  using assms
proof (induction qus arbitrary: s thesis)
  case Nil
  show ?case by (rule Nil.prems(1)[of s]) (simp_all add: grown_refl Nil.prems(2))
next
  case (Cons a qus)
  obtain q u where a: "a = (q, u)" by (cases a)
  obtain s1 where s1: "unuse_package q u s = POk True s1" "system_grown s s1"
    "\<And>r v. v \<in> set (using_packages (packages s1 r)) \<longleftrightarrow> v \<in> set (using_packages (packages s r)) \<and> \<not> (r = q \<and> v = u)"
    "\<And>r. locked (packages s1 r) = locked (packages s r)"
    by (rule unuse_package_effect[OF Cons.prems(2), of q u]) (rule that; assumption)
  have c1: "consistent s1" using s1(2) by (simp add: system_grown_def)
  obtain s2 where
    s2: "peach (\<lambda>(q, u) s'. pbind (unuse_package q u s') (\<lambda>_. POk ())) qus s1 = POk () s2" "system_grown s1 s2"
    "\<And>r v. v \<in> set (using_packages (packages s2 r)) \<longleftrightarrow> v \<in> set (using_packages (packages s1 r)) \<and> (r, v) \<notin> set qus"
    "\<And>r. locked (packages s2 r) = locked (packages s1 r)"
    by (rule Cons.IH[OF _ c1]) (rule that; assumption)
  show ?case
  proof (rule Cons.prems(1))
    show "peach (\<lambda>(q, u) s'. pbind (unuse_package q u s') (\<lambda>_. POk ())) (a # qus) s = POk () s2"
      using s1(1) s2(1) by (simp add: a)
    show "system_grown s s2" by (rule grown_trans[OF s1(2) s2(2)])
    show "v \<in> set (using_packages (packages s2 r)) \<longleftrightarrow> v \<in> set (using_packages (packages s r)) \<and> (r, v) \<notin> set (a # qus)" for r v
      using s1(3)[of v r] s2(3)[of v r] by (auto simp: a)
    show "locked (packages s2 r) = locked (packages s r)" for r using s1(4) s2(4) by simp
  qed
qed

lemma peach_map_eq: "peach f (map g xs) s = peach (\<lambda>x. f (g x)) xs s"
proof (induction xs arbitrary: s)
  case (Cons x xs) then show ?case by (cases "f (g x) s") simp_all
qed simp

lemma fold_leave_home:
  fixes p s and xs :: "(string \<times> nat) list"
  assumes "\<not> locked (packages s p)"
  defines "s' \<equiv> fold (\<lambda>(n, x). leave_home p x) xs s"
  shows "packages s' = packages s" "symbol_count s' = symbol_count s" "package_count s' = package_count s"
    "name_index s' = name_index s" "current_package s' = current_package s"
    "symbols s' z = (if z \<in> snd ` set xs \<and> home_package (symbols s z) = Some p
      then (symbols s z)\<lparr>home_package := None\<rparr> else symbols s z)"
proof -
  have "packages s' = packages s \<and> symbol_count s' = symbol_count s \<and> package_count s' = package_count s \<and>
    name_index s' = name_index s \<and> current_package s' = current_package s \<and>
    (\<forall>z. symbols s' z = (if z \<in> snd ` set xs \<and> home_package (symbols s z) = Some p
      then (symbols s z)\<lparr>home_package := None\<rparr> else symbols s z))"
    unfolding s'_def using assms(1)
  proof (induction xs arbitrary: s)
    case Nil then show ?case by simp
  next
    case (Cons a xs)
    obtain n x where a: "a = (n, x)" by (cases a)
    let ?s = "leave_home p x s"
    have pk: "packages ?s = packages s" "symbol_count ?s = symbol_count s" "package_count ?s = package_count s"
      "name_index ?s = name_index s" "current_package ?s = current_package s"
      by (simp_all add: leave_home_def set_home_def upd_symbol_def)
    have sy: "symbols ?s z = (if z = x \<and> home_package (symbols s x) = Some p then (symbols s x)\<lparr>home_package := None\<rparr> else symbols s z)" for z
      using Cons.prems by (simp add: leave_home_def pk_simps)
    show ?case using Cons.IH[of ?s] Cons.prems by (auto simp: a pk sy)
  qed
  then show "packages s' = packages s" "symbol_count s' = symbol_count s" "package_count s' = package_count s"
    "name_index s' = name_index s" "current_package s' = current_package s"
    "symbols s' z = (if z \<in> snd ` set xs \<and> home_package (symbols s z) = Some p
      then (symbols s z)\<lparr>home_package := None\<rparr> else symbols s z)" by blast+
qed

lemma empty_package_effect:
  fixes p s
  assumes l: "\<not> locked (packages s p)"
  defines "s' \<equiv> empty_package p s"
    and "ts \<equiv> snd ` set (internal_symbols (packages s p)) \<union> snd ` set (external_symbols (packages s p))"
  shows "q \<noteq> p \<Longrightarrow> packages s' q = packages s q"
    "packages s' p = (packages s p)\<lparr>internal_symbols := [], external_symbols := [], shadowing := []\<rparr>"
    "symbol_count s' = symbol_count s" "package_count s' = package_count s"
    "name_index s' = name_index s" "current_package s' = current_package s"
    "sname s' z = sname s z"
    "home_package (symbols s' z) = (if z \<in> ts \<and> home_package (symbols s z) = Some p then None else home_package (symbols s z))"
proof -
  define s1 where "s1 = fold (\<lambda>(n, x). leave_home p x) (internal_symbols (packages s p)) s"
  define s2 where "s2 = upd_package p (\<lambda>k. k\<lparr>internal_symbols := []\<rparr>) s1"
  define s3 where "s3 = fold (\<lambda>(n, x). leave_home p x) (external_symbols (packages s2 p)) s2"
  note e1 = fold_leave_home[OF l, of "internal_symbols (packages s p)", folded s1_def]
  have e2: "packages s2 p = (packages s p)\<lparr>internal_symbols := []\<rparr>" "\<And>q. q \<noteq> p \<Longrightarrow> packages s2 q = packages s q"
    "symbols s2 = symbols s1" "symbol_count s2 = symbol_count s" "package_count s2 = package_count s"
    "name_index s2 = name_index s" "current_package s2 = current_package s"
    by (simp_all add: s2_def upd_package_def e1)
  have l2: "\<not> locked (packages s2 p)" using l by (simp add: e2 locked_def)
  note e3 = fold_leave_home[OF l2, of "external_symbols (packages s2 p)", folded s3_def]
  have s': "s' = upd_package p (\<lambda>k. k\<lparr>external_symbols := [], shadowing := []\<rparr>) s3"
    unfolding s'_def empty_package_def Let_def s1_def s2_def s3_def ..
  show "q \<noteq> p \<Longrightarrow> packages s' q = packages s q" by (simp add: s' upd_package_def e3(1) e2)
  show "packages s' p = (packages s p)\<lparr>internal_symbols := [], external_symbols := [], shadowing := []\<rparr>"
    by (simp add: s' upd_package_def e3(1) e2)
  show "symbol_count s' = symbol_count s" "package_count s' = package_count s"
    "name_index s' = name_index s" "current_package s' = current_package s"
    by (simp_all add: s' upd_package_def e3 e2)
  show "sname s' z = sname s z" by (simp add: s' upd_package_def e3(6) e2(3) e1(6))
  show "home_package (symbols s' z) = (if z \<in> ts \<and> home_package (symbols s z) = Some p then None else home_package (symbols s z))"
    by (auto simp: s' upd_package_def e3(6) e2 e1(6) ts_def)
qed

lemma empty_package_consistent:
  assumes C: "consistent s" and p: "p < package_count s" and l: "\<not> locked (packages s p)"
    and u: "using_packages (packages s p) = []" "used_by (packages s p) = []"
  shows "consistent (empty_package p s)"
proof -
  note e = empty_package_effect[OF l]
  let ?s = "empty_package p s"
  have tab: "ext_of ?s q = (if q = p then Map.empty else ext_of s q)" "int_of ?s q = (if q = p then Map.empty else int_of s q)"
    "shads ?s q = (if q = p then {} else shads s q)" for q
    using e(1)[of q] e(2) by (auto simp: ext_of_def int_of_def)
  have link: "using_packages (packages ?s q) = using_packages (packages s q)" "used_by (packages ?s q) = used_by (packages s q)"
    "keyword_flag (packages ?s q) = keyword_flag (packages s q)" "locked (packages ?s q) = locked (packages s q)"
    "acts_like_keyword (packages ?s q) = acts_like_keyword (packages s q)" for q
    using e(1)[of q] e(2) by (cases "q = p"; simp add: acts_like_keyword_def locked_def)+
  have nobody: "p \<notin> set (using_packages (packages s q))" for q
    using consistentD(4)[OF C] u(2) by (auto simp: linked_def)
  have pres: "present ?s q n = (if q = p then None else present s q n)" for q n
    by (simp add: present_def tab split: option.splits)
  have inh: "inherits ?s q n x = inherits s q n x" for q n x
    using nobody[of q] by (auto simp: inherits_def link tab)
  have "unambiguous ?s q n" for q n
  proof (cases "q = p")
    case True
    have "\<not> inherits s p n x" for x by (simp add: inherits_def u)
    with True show ?thesis by (simp add: unambiguous_def accessible_def pres inh)
  next
    case False
    then show ?thesis
      using consistentD(3)[OF C, of q n] by (auto simp: unambiguous_def accessible_def pres inh link shadowed_def tab e(7))
  qed
  moreover have "homes_ok ?s"
    unfolding homes_ok_def
  proof (intro allI impI)
    fix x q assume x: "x < symbol_count ?s" and h: "home_package (symbols ?s x) = Some q"
    from h e(8)[of x] have hs: "home_package (symbols s x) = Some q" by (auto split: if_splits)
    with x e(3) consistentD(6)[OF C] have pr: "present s q (sname s x) = Some x" by (auto simp: homes_ok_def)
    have "q \<noteq> p"
    proof
      assume q: "q = p"
      with pr have "x \<in> snd ` set (internal_symbols (packages s p)) \<union> snd ` set (external_symbols (packages s p))"
        by (force simp: present_cases ext_of_def int_of_def dest!: map_of_SomeD)
      with h hs e(8)[of x] q show False by simp
    qed
    with pr show "present ?s q (sname ?s x) = Some x" by (simp add: pres e(7))
  qed
  moreover have "tables_ok ?s" using consistentD(1)[OF C] by (auto simp: tables_ok_def tab e(3,7))
  moreover have "present ?s q (sname ?s z) = Some z" if "z \<in> shads ?s q" for q z
    using that consistentD(2)[OF C] by (auto simp: tab pres e(7) split: if_splits)
  moreover have "linked ?s" using consistentD(4)[OF C] by (simp add: linked_def link)
  moreover have "keywords_apart ?s" using consistentD(5)[OF C] by (simp add: keywords_apart_def link tab)
  moreover have "packages ?s q = blank_package []" if "package_count ?s \<le> q" for q
    using that consistentD(7)[OF C, of q] p e(1)[of q] e(4) by simp
  ultimately show ?thesis unfolding consistent_def by blast
qed

text \<open>Deletion never fails half way.\<close>

lemma delete_package_deletes:
  assumes S: "sound s" and p: "live s p" and l: "\<not> locked (packages s p)" and u: "used_by (packages s p) = [] \<or> proceed h PackageInUse"
  obtains s' where "delete_package h p s = POk True s'" "sound s'" "package_count s' = package_count s"
    "zombie (packages s' p)" "\<And>q. q \<noteq> p \<Longrightarrow> labels (packages s' q) = labels (packages s q)"
    "\<And>q. acts_like_keyword (packages s' q) = acts_like_keyword (packages s q)"
    "\<And>n. map_of (name_index s') n = (if has_name s p n then None else map_of (name_index s) n)"
    "current_package s' = current_package s" "local_nicknames (packages s' p) = local_nicknames (packages s p)"
    "symbol_count s \<le> symbol_count s'"
proof -
  have N: "names_ok s" and C: "consistent s" using S by (simp_all add: sound_def)
  note D = names_okD[OF N]
  have pc: "p < package_count s" using p by (simp add: live_def)
  define k where "k = packages s p"
  have hn: "has_name s p m \<longleftrightarrow> m = package_name k \<or> m \<in> set (nicknames k)" for m using p by (simp add: has_name_def k_def)
  have k: "package_name k \<noteq> []" "distinct (package_name k # nicknames k)" using D(2,3)[OF p] by (simp_all add: k_def)
  define s1 where "s1 = set_nicknames p [] (s\<lparr>name_index := fold AList.delete (nicknames k) (name_index s)\<rparr>)"
  have un: "peach unmap_name (nicknames k) s = POk () (s\<lparr>name_index := fold AList.delete (nicknames k) (name_index s)\<rparr>)"
    using k(2) D(1)[of _ p] hn by (intro peach_unmap) auto
  have c1: "same_content s s1"
    unfolding s1_def by (rule same_content_trans[OF same_content_index same_content_nicknames]) (simp add: pc)
  have C1: "consistent s1" by (rule same_content_consistent[OF C c1])
  have s1: "using_packages (packages s1 q) = using_packages (packages s q)" "locked (packages s1 q) = locked (packages s q)" for q
    using c1 by (simp_all add: same_content_def)
  obtain s2 where s2: "peach (\<lambda>(q, u) s'. pbind (unuse_package q u s') (\<lambda>_. POk ())) (map (Pair p) (rev (using_packages k))) s1 = POk () s2"
    "system_grown s1 s2"
    "\<And>q v. v \<in> set (using_packages (packages s2 q)) \<longleftrightarrow>
       v \<in> set (using_packages (packages s1 q)) \<and> (q, v) \<notin> set (map (Pair p) (rev (using_packages k)))"
    "\<And>q. locked (packages s2 q) = locked (packages s1 q)"
    by (rule peach_unuse[OF C1, where qus = "map (Pair p) (rev (using_packages k))"]) (rule that; assumption)
  have C2: "consistent s2" using s2(2) by (simp add: system_grown_def)
  obtain s3 where s3: "peach (\<lambda>(q, u) s'. pbind (unuse_package q u s') (\<lambda>_. POk ())) (map (\<lambda>q. (q, p)) (rev (used_by k))) s2 = POk () s3"
    "system_grown s2 s3"
    "\<And>q v. v \<in> set (using_packages (packages s3 q)) \<longleftrightarrow>
       v \<in> set (using_packages (packages s2 q)) \<and> (q, v) \<notin> set (map (\<lambda>q. (q, p)) (rev (used_by k)))"
    "\<And>q. locked (packages s3 q) = locked (packages s2 q)"
    by (rule peach_unuse[OF C2, where qus = "map (\<lambda>q. (q, p)) (rev (used_by k))"]) (rule that; assumption)
  have g: "system_grown s1 s3" by (rule grown_trans[OF s2(2) s3(2)])
  have C3: "consistent s3" using g by (simp add: system_grown_def)
  have l3: "\<not> locked (packages s3 p)" using l s1(2) s2(4) s3(4) by simp
  have using3: "using_packages (packages s3 p) = []"
  proof -
    have "v \<notin> set (using_packages (packages s3 p))" for v using s3(3)[of v p] s2(3)[of v p] s1(1) by (auto simp: k_def)
    then show ?thesis by (cases "using_packages (packages s3 p)") auto
  qed
  have used3: "used_by (packages s3 p) = []"
  proof -
    have "p \<notin> set (using_packages (packages s3 q))" for q
      using s3(3)[of p q] s2(3)[of p q] s1(1)[of q] consistentD(4)[OF C] by (auto simp: linked_def k_def)
    then have "q \<notin> set (used_by (packages s3 p))" for q using consistentD(4)[OF C3] by (simp add: linked_def)
    then show ?thesis by (cases "used_by (packages s3 p)") auto
  qed
  have p3: "p < package_count s3" using pc g by (simp add: system_grown_def s1_def set_nicknames_simps)
  define s4 where "s4 = empty_package p s3"
  note e = empty_package_effect[OF l3, folded s4_def]
  have C4: "consistent s4" unfolding s4_def by (rule empty_package_consistent[OF C3 p3 l3 using3 used3])
  define s5 where "s5 = upd_package p (\<lambda>k. k\<lparr>package_name := []\<rparr>) s4"
  define s6 where "s6 = upd_package p (\<lambda>k. k\<lparr>zombie := True\<rparr>) (s5\<lparr>name_index := AList.delete (package_name k) (name_index s5)\<rparr>)"
  have ix1: "map_of (name_index s1) m = (if m \<in> set (nicknames k) then None else map_of (name_index s) m)" for m
    by (simp add: s1_def set_nicknames_simps map_of_fold_delete)
  have ix5: "name_index s5 = name_index s1" using g by (simp add: s5_def upd_package_def e(5) system_grown_def)
  have "map_of (name_index s) (package_name k) = Some p" using D(1)[of "package_name k" p] hn by simp
  then have "map_of (name_index s5) (package_name k) = Some p" using ix5 ix1 k(2) by simp
  then have rm: "remove_package (package_name k) s5 = POk () s6" by (simp add: remove_package_def s6_def)
  have eq: "delete_package h p s = POk True s6"
    using u l k(1) un s2(1) s3(1) rm
    by (auto simp: delete_package_def Let_def peach_map_eq s1_def s4_def s5_def simp flip: k_def)
  have cnt: "package_count s6 = package_count s" "current_package s6 = current_package s"
    using g by (simp_all add: s6_def s5_def upd_package_def e system_grown_def s1_def set_nicknames_simps)
  have p4: "p < package_count s4" using p3 by (simp add: e)
  have "same_content s4 s5" unfolding s5_def by (rule same_content_upd) (simp_all add: p4 locked_def)
  also have "same_content s5 (s5\<lparr>name_index := AList.delete (package_name k) (name_index s5)\<rparr>)" by simp
  also have "same_content \<dots> s6" unfolding s6_def by (rule same_content_upd) (simp_all add: p4 locked_def s5_def pk_simps)
  finally have C6: "consistent s6" by (rule same_content_consistent[OF C4])
  have lab: "labels (packages s6 q) = labels (packages s q)" if "q \<noteq> p" for q
    using that g by (simp add: s6_def s5_def upd_package_def e system_grown_def labels_def s1_def set_nicknames_simps)
  have labp: "zombie (packages s6 p)" "package_name (packages s6 p) = []" "local_nicknames (packages s6 p) = local_nicknames k"
    using g by (simp_all add: s6_def s5_def upd_package_def e system_grown_def labels_def s1_def set_nicknames_simps k_def)
  have ix: "map_of (name_index s6) m = (if has_name s p m then None else map_of (name_index s) m)" for m
    using ix5 ix1[of m] by (auto simp: s6_def upd_package_def delete_conv' hn)
  have live6: "live s6 q \<longleftrightarrow> live s q \<and> q \<noteq> p" for q
    using labp(1) lab[of q] cnt by (cases "q = p") (simp_all add: live_def labels_def)
  have hn6: "has_name s6 q m \<longleftrightarrow> has_name s q m \<and> q \<noteq> p" for q m
    using live6[of q] lab[of q] by (cases "q = p") (simp_all add: has_name_def labels_def)
  have "names_ok s6"
    unfolding names_ok_def
  proof (intro conjI allI impI)
    show "map_of (name_index s6) m = Some q \<longleftrightarrow> has_name s6 q m" for m q
      using ix[of m] hn6[of q m] D(1)[of m q] D(1)[of m p] by auto
    show "package_name (packages s6 q) \<noteq> []" "distinct (package_name (packages s6 q) # nicknames (packages s6 q))" if "live s6 q" for q
      using that live6[of q] lab[of q] D(2,3) by (auto simp: labels_def)
    show "package_name (packages s6 q) = []" if "zombie (packages s6 q)" for q
      using that labp lab[of q] D(4)[of q] by (cases "q = p") (auto simp: labels_def)
    show "r < package_count s6" if "map_of (local_nicknames (packages s6 q)) n = Some r" for q n r
      using that labp lab[of q] D(5)[of q n r] cnt by (cases "q = p") (auto simp: labels_def k_def)
    show "current_package s6 < package_count s6" using D(6) cnt by simp
  qed
  with C6 have "sound s6" by (simp add: sound_def)
  moreover have "acts_like_keyword (packages s6 q) = acts_like_keyword (packages s q)" for q
    using g by (cases "q = p") (simp_all add: s6_def s5_def upd_package_def e system_grown_def acts_like_keyword_def s1_def set_nicknames_def)
  moreover have "symbol_count s \<le> symbol_count s6"
    using g by (simp add: s6_def s5_def upd_package_def e system_grown_def s1_def set_nicknames_def)
  ultimately show thesis
    using that eq cnt labp lab ix by (simp add: k_def)
qed

end
