(* ===== verification/PackageExport.thy ===== *)
theory PackageExport
  imports PackageRun
begin

text \<open>
  Exporting a symbol goes back to its start after every round of conflict resolution; it always ends.
\<close>

section \<open>Names that are left alone\<close>

definition frame :: "string \<Rightarrow> psys \<Rightarrow> psys \<Rightarrow> bool" where
  "frame n s s' \<longleftrightarrow> (\<forall>q m. m \<noteq> n \<longrightarrow> find_symbol s' q m = find_symbol s q m)"

lemma frame_refl [simp]: "frame n s s"
  by (simp add: frame_def)

lemma frame_trans: "frame n s s1 \<Longrightarrow> frame n s1 s2 \<Longrightarrow> frame n s s2"
  by (simp add: frame_def)

lemma find_symbol_cong:
  assumes "\<And>u. u \<in> set (using_packages (packages s q)) \<Longrightarrow> ext_of s' u m = ext_of s u m"
    "ext_of s' q m = ext_of s q m" "int_of s' q m = int_of s q m" "same_links s s'"
  shows "find_symbol s' q m = find_symbol s q m"
proof -
  have "find_inherited s' us m = find_inherited s us m" if "set us \<subseteq> set (using_packages (packages s q))" for us
    using that assms(1) by (induction us) (auto simp: ext_of_def split: option.splits)
  with assms(2,3) same_linksD[OF assms(4)] show ?thesis
    by (simp add: find_symbol_def Let_def ext_of_def int_of_def cong: option.case_cong)
qed

lemma only_at_frame: "only_at p n s s' \<Longrightarrow> frame n s s'"
  unfolding frame_def
proof (intro allI impI)
  fix q m assume o: "only_at p n s s'" and m: "m \<noteq> n"
  have "ext_of s' u m = ext_of s u m" "int_of s' u m = int_of s u m" for u
    using o m by (cases "u = p"; simp add: only_at_def ext_of_def int_of_def)+
  then show "find_symbol s' q m = find_symbol s q m" using only_at_links[OF o] by (intro find_symbol_cong)
qed

section \<open>Rounds of conflict resolution\<close>

text \<open>How far a package is from accepting the symbol: an inherited symbol is one choice away, a present one two.\<close>

definition distance :: "psys \<Rightarrow> nat \<Rightarrow> nat \<Rightarrow> nat" where
  "distance s x q =
     (case find_symbol s q (sname s x) of
        None \<Rightarrow> 0
      | Some (y, st) \<Rightarrow> if y = x \<or> y \<in> shads s q then 0 else if st = Inherited then 1 else 2)"

lemma distance_le: "distance s x q \<le> 2"
  by (auto simp: distance_def split: option.splits)

lemma export_conflicts_distance:
  "q \<in> set (export_conflicts s p (sname s x) x) \<longleftrightarrow> q \<in> set (used_by (packages s p)) \<and> 0 < distance s x q"
  by (auto simp: export_conflicts_def distance_def split: option.splits)

lemma distance_unshadowed:
  assumes "consistent s" "0 < distance s x q"
  shows "\<not> shadowed s q (sname s x)"
proof
  assume "shadowed s q (sname s x)"
  then obtain z where z: "present s q (sname s x) = Some z" "z \<in> shads s q" using shadowed_iff[OF assms(1)] by auto
  with find_symbol_present[OF assms(1) z(1)] assms(2) show False by (simp add: distance_def)
qed

text \<open>Resolving the conflict in one package never brings another one back.\<close>

lemma find_inherited_removal:
  assumes "find_inherited s us n = Some x" "x \<noteq> old"
    "\<And>u. u \<in> set us \<Longrightarrow> ext_of s' u n = ext_of s u n \<or> ext_of s' u n = None \<and> ext_of s u n = Some old"
  shows "find_inherited s' us n = Some x"
  using assms
proof (induction us)
  case Nil then show ?case by simp
next
  case (Cons u us)
  from Cons.prems(3)[of u] have u: "ext_of s' u n = ext_of s u n \<or> ext_of s' u n = None \<and> ext_of s u n = Some old" by simp
  show ?case
  proof (cases "ext_of s u n")
    case None
    with u Cons.prems(1) have "map_of (external_symbols (packages s' u)) n = None" "find_inherited s us n = Some x"
      by (auto simp: ext_of_def)
    with Cons.IH Cons.prems(2,3) show ?thesis by simp
  next
    case (Some y)
    with Cons.prems(1) have "y = x" by (simp add: ext_of_def)
    with u Some Cons.prems(2) show ?thesis by (auto simp: ext_of_def)
  qed
qed

lemma other_packages:
  assumes C: "consistent s" and l: "same_links s s'" and r: "shads s' r = shads s r" "present s' r n = present s r n"
      "ext_of s' r n = ext_of s r n"
    and n: "n = sname s x" "sname s' x = n"
    and ext: "\<And>u. u \<in> set (using_packages (packages s r)) \<Longrightarrow>
      ext_of s' u n = ext_of s u n \<or> ext_of s' u n = None \<and> ext_of s u n = Some old"
    and old: "old \<noteq> x"
  shows "distance s' x r \<le> distance s x r" "find_symbol s r n = Some (x, st) \<Longrightarrow> find_symbol s' r n = Some (x, st)"
proof -
  have i: "ext_of s r n = None \<Longrightarrow> int_of s' r n = int_of s r n"
    using r(2,3) by (simp add: present_def)
  have f: "find_symbol s t n = (case ext_of s t n of Some y \<Rightarrow> Some (y, External) | None \<Rightarrow>
      if keyword_flag (packages s t) then None else case int_of s t n of Some y \<Rightarrow> Some (y, Internal)
      | None \<Rightarrow> map_option (\<lambda>y. (y, Inherited)) (find_inherited s (using_packages (packages s t)) n))" for s t
    by (simp add: find_symbol_def Let_def ext_of_def int_of_def cong: option.case_cong)
  define us where "us = using_packages (packages s r)"
  have us': "using_packages (packages s' r) = us" "keyword_flag (packages s' r) = keyword_flag (packages s r)"
    using same_linksD[OF l] by (simp_all add: us_def)
  have keep: "find_inherited s us n = Some x \<Longrightarrow> find_inherited s' us n = Some x"
    using find_inherited_removal[OF _ old[symmetric]] ext by (metis us_def)
  have none: "find_inherited s us n = None \<Longrightarrow> find_inherited s' us n = None"
    using ext unfolding find_inherited_None us_def by (metis option.distinct(1))
  have inh: "find_inherited s us n = Some y \<Longrightarrow> present s r n = None \<Longrightarrow> y \<notin> shads s r" for y
    using find_inherited_Some[of s us n y] consistent_inherits(1)[OF C, of r n y] consistentD(2)[OF C, of y r]
    by (auto simp: inherits_def us_def)
  show "find_symbol s' r n = Some (x, st)" if "find_symbol s r n = Some (x, st)"
    using that keep i
    by (auto simp: f r(3) us' us_def[symmetric] split: option.splits if_splits)
  show "distance s' x r \<le> distance s x r"
  proof (cases "ext_of s r n = None \<and> \<not> keyword_flag (packages s r) \<and> int_of s r n = None")
    case False
    then have "find_symbol s' r n = find_symbol s r n"
      using i by (auto simp: f r(3) us' split: option.splits)
    with n r show ?thesis by (simp add: distance_def split: option.splits)
  next
    case True
    then have fs: "find_symbol s r n = map_option (\<lambda>y. (y, Inherited)) (find_inherited s us n)"
      "find_symbol s' r n = map_option (\<lambda>y. (y, Inherited)) (find_inherited s' us n)"
      using i by (simp_all add: f r(3) us' us_def)
    have d: "distance s' x r \<le> 1"
      using fs(2) n by (auto simp: distance_def split: option.splits)
    show ?thesis
    proof (cases "find_inherited s us n")
      case None
      then have "distance s' x r = 0" using none fs n by (simp add: distance_def)
      then show ?thesis by simp
    next
      case (Some y)
      show ?thesis
      proof (cases "y = x")
        case True with keep Some fs n have "distance s' x r = 0" by (simp add: distance_def)
        then show ?thesis by simp
      next
        case False
        have "present s r n = None" using True by (simp add: present_cases)
        with False inh[OF Some] fs Some n have "distance s x r = 1" by (simp add: distance_def)
        with d show ?thesis by simp
      qed
    qed
  qed
qed

definition conflict_resolved :: "nat \<Rightarrow> nat \<Rightarrow> psys \<Rightarrow> psys \<Rightarrow> bool" where
  "conflict_resolved x q s s' \<longleftrightarrow>
     later s s' \<and> frame (sname s x) s s' \<and> sname s' x = sname s x \<and> distance s' x q < distance s x q \<and>
     (\<forall>r. r \<noteq> q \<longrightarrow> distance s' x r \<le> distance s x r \<and> shads s' r = shads s r \<and>
        (\<forall>st. find_symbol s r (sname s x) = Some (x, st) \<longrightarrow> find_symbol s' r (sname s x) = Some (x, st)))"

text \<open>The operations on one name in one package, seen from the others.\<close>

lemma only_at_others:
  assumes C: "consistent s" and o: "only_at q n s s'" and n: "n = sname s x" "x < symbol_count s" and r: "r \<noteq> q"
    and ext: "q \<in> set (using_packages (packages s r)) \<Longrightarrow>
      ext_of s' q n = ext_of s q n \<or> ext_of s' q n = None \<and> ext_of s q n = Some old"
    and old: "old \<noteq> x"
  shows "distance s' x r \<le> distance s x r \<and> shads s' r = shads s r \<and>
    (\<forall>st. find_symbol s r n = Some (x, st) \<longrightarrow> find_symbol s' r n = Some (x, st))"
proof -
  have pk: "packages s' u = packages s u" if "u \<noteq> q" for u using o that by (simp add: only_at_def)
  have sn: "sname s' x = n" using only_atD(1)[OF o n(2)] n(1) by simp
  have e: "ext_of s' u n = ext_of s u n \<or> ext_of s' u n = None \<and> ext_of s u n = Some old"
    if "u \<in> set (using_packages (packages s r))" for u
    using that ext pk[of u] by (cases "u = q") (auto simp: ext_of_def)
  have "ext_of s' r n = ext_of s r n" "present s' r n = present s r n" "shads s' r = shads s r"
    using pk[OF r] by (simp_all add: ext_of_def present_def int_of_def cong: option.case_cong)
  with other_packages[OF C only_at_links[OF o] _ _ _ n(1) sn e old] show ?thesis by blast
qed

lemma resolve:
  assumes C: "consistent s" and q: "q < package_count s" and x: "x < symbol_count s"
    and ns: "\<not> shadowed s q (sname s x)" and ok: "accessibility_conflict h q x s = POk () s'"
  shows "conflict_resolved x q s s'"
proof -
  define n where "n = sname s x"
  from ok obtain old st where f: "find_symbol s q n = Some (old, st)" and old: "old \<noteq> x"
    by (auto simp: accessibility_conflict_def Let_def n_def split: option.splits if_splits)
  have oldn: "old < symbol_count s" "sname s old = n" using find_symbol_count[OF C f] by auto
  have uns: "old \<notin> shads s q" using ns oldn by (auto simp: shadowed_def n_def)
  have l: "later s s'" using accessibility_conflict_later[OF C q x, of h] ok by simp
  have C': "consistent s'" by (rule laterD(1)[OF l])
  have d: "distance s x q = (if st = Inherited then 1 else 2)" using f old uns by (simp add: distance_def n_def)
  obtain o: "only_at q n s s'" and dq: "distance s' x q < distance s x q" and e: "q \<in> set (using_packages (packages s r)) \<Longrightarrow>
      ext_of s' q n = ext_of s q n \<or> ext_of s' q n = None \<and> ext_of s q n = Some old" for r
  proof (cases "st = Inherited")
    case True
    then have pn: "present s q n = None" using f find_symbol_Inherited by blast
    obtain y where y: "y = old \<or> y = x" and s': "s' = shadowing_import q [y] s"
      using ok f old True by (auto simp: accessibility_conflict_def Let_def n_def split: choice.splits)
    have y': "y < symbol_count s" "sname s y = n" using y oldn x by (auto simp: n_def)
    have s'1: "s' = shadowing_import1 q y s" by (simp add: s' shadowing_import_def)
    note e = shadowing_import1_effect[OF C y'(2,1), where p = q, folded s'1]
    have "distance s' x q = 0"
      using find_symbol_present[OF C' e(2)] e(3) e(6)[of x] by (simp add: distance_def n_def)
    moreover have "ext_of s' q n = ext_of s q n" if "q \<in> set (using_packages (packages s r))" for r
    proof -
      have "r \<in> set (used_by (packages s q))" using that consistentD(4)[OF C] by (simp add: linked_def)
      then have "\<not> acts_like_keyword (packages s q)" using keyword_like(2)[OF C, of q] by auto
      moreover obtain s1 where c: "cleared q n s s1" and "s' = put_shadowing q y (add_symbol_to_package q n y False s1)"
        unfolding s'1 by (rule shadowing_import1_clears[OF C y'(2)])
      moreover have "acts_like_keyword (packages s1 q) = acts_like_keyword (packages s q)"
        by (rule same_linksD(5)[OF only_at_links[OF cleared_only[OF c]]])
      ultimately show ?thesis using pn by (simp add: pk_simps add_symbol_simps present_cases cleared_def)
    qed
    ultimately show thesis using that[OF e(1)] d True by simp
  next
    case False
    then have ps: "present s q n = Some old"
      using f by (cases st) (auto simp: find_symbol_External find_symbol_Internal present_cases)
    consider "s' = shadow q n s" | b where "unintern h q old s = POk b s'"
      using ok f old False
      by (auto simp: accessibility_conflict_def Let_def n_def pbind_def split: choice.splits access.splits pres.splits)
    then show thesis
    proof cases
      case 1
      then have s': "s' = put_shadowing q old s" by (simp add: shadow_present[OF ps C])
      have "present s' q n = Some old" using ps by (simp add: s' present_cases pk_simps)
      from find_symbol_present[OF C' this] have "distance s' x q = 0" by (simp add: distance_def s' pk_simps flip: n_def)
      moreover have "only_at q n s s'" using only_at_prims(5)[of q s old] by (simp add: s' oldn)
      ultimately show thesis using that d False by (simp add: s' pk_simps)
    next
      case 2
      obtain s1 where s1: "unintern_unsafe q old s = (True, s1)" "cleared q n s s1" by (rule unintern_unsafe_present[OF C ps]) blast
      with 2 uns have s': "s' = s1" by (auto simp: unintern_def Let_def split: if_splits)
      have c: "cleared q n s s'" using s1 s' by simp
      have "find_symbol s' q n \<noteq> Some (y, t)" if "t \<noteq> Inherited" for y t
        using c that by (cases t) (auto simp: find_symbol_External find_symbol_Internal cleared_def)
      then have "distance s' x q \<le> 1"
        using c by (auto simp: distance_def cleared_def n_def split: option.splits)
      then show thesis using that[OF cleared_only[OF c]] d False c ps by (auto simp: cleared_def present_cases)
    qed
  qed
  have "distance s' x r \<le> distance s x r \<and> shads s' r = shads s r \<and>
    (\<forall>st. find_symbol s r n = Some (x, st) \<longrightarrow> find_symbol s' r n = Some (x, st))" if "r \<noteq> q" for r
    using only_at_others[OF C o n_def x that e old] .
  with l only_at_frame[OF o] only_atD(1)[OF o x] dq show ?thesis by (simp add: conflict_resolved_def n_def)
qed

text \<open>A round resolves the conflicts one after the other.\<close>

lemma round:
  assumes "consistent s" "x < symbol_count s" "distinct qs" "\<forall>q \<in> set qs. q < package_count s \<and> \<not> shadowed s q (sname s x)"
    "export_name_conflict h x qs s = POk () s'"
  shows "later s s' \<and> frame (sname s x) s s' \<and> sname s' x = sname s x \<and>
    (\<forall>q. distance s' x q \<le> (if q \<in> set qs then distance s x q - 1 else distance s x q)) \<and>
    (\<forall>r st. r \<notin> set qs \<longrightarrow> find_symbol s r (sname s x) = Some (x, st) \<longrightarrow> find_symbol s' r (sname s x) = Some (x, st))"
  using assms
proof (induction qs arbitrary: s)
  case Nil
  then have "s' = s" by (simp add: export_name_conflict_def)
  with Nil show ?case by simp
next
  case (Cons q qs)
  let ?n = "sname s x"
  obtain s1 where s1: "accessibility_conflict h q x s = POk () s1" and rest: "export_name_conflict h x qs s1 = POk () s'"
    using Cons.prems(5) by (auto simp: export_name_conflict_def pbind_def split: pres.splits)
  have "conflict_resolved x q s s1"
    using Cons.prems(1,2,4) by (intro resolve[OF _ _ _ _ s1]) auto
  then have R: "later s s1" "frame ?n s s1" "sname s1 x = ?n" "distance s1 x q < distance s x q"
    "\<And>r. r \<noteq> q \<Longrightarrow> distance s1 x r \<le> distance s x r \<and> shads s1 r = shads s r \<and>
        (\<forall>st. find_symbol s r ?n = Some (x, st) \<longrightarrow> find_symbol s1 r ?n = Some (x, st))"
    by (auto simp: conflict_resolved_def)
  have unsh: "\<not> shadowed s1 r ?n" if "r \<noteq> q" "\<not> shadowed s r ?n" for r
  proof
    assume "shadowed s1 r ?n"
    then obtain z where z: "z \<in> shads s1 r" "sname s1 z = ?n" by (auto simp: shadowed_def)
    with R(5)[OF that(1)] have zs: "z \<in> shads s r" by simp
    from consistent_shadow[OF Cons.prems(1) this] consistent_shadow[OF laterD(1)[OF R(1)] z(1)] z(2)
    have p: "present s r (sname s z) = Some z" "present s1 r ?n = Some z" by simp_all
    show False
    proof (cases "sname s z = ?n")
      case True with zs that(2) show False by (auto simp: shadowed_def)
    next
      case False
      with R(2) have "find_symbol s1 r (sname s z) = find_symbol s r (sname s z)" by (simp add: frame_def)
      with find_symbol_present[OF Cons.prems(1) p(1)] find_symbol_count[OF laterD(1)[OF R(1)], of r "sname s z" z] z(2) False
      show False by auto
    qed
  qed
  have "\<forall>r \<in> set qs. r < package_count s1 \<and> \<not> shadowed s1 r (sname s1 x)"
    using Cons.prems(3,4) unsh laterD(2)[OF R(1)] R(3) by (metis distinct.simps(2) list.set_intros(2))
  from Cons.IH[OF laterD(1)[OF R(1)] laterD(3)[OF R(1) Cons.prems(2)] _ this rest] Cons.prems(3)
  have I: "later s1 s'" "frame ?n s1 s'" "sname s' x = ?n"
    "\<And>q. distance s' x q \<le> (if q \<in> set qs then distance s1 x q - 1 else distance s1 x q)"
    "\<And>r st. r \<notin> set qs \<Longrightarrow> find_symbol s1 r ?n = Some (x, st) \<Longrightarrow> find_symbol s' r ?n = Some (x, st)"
    by (simp_all add: R(3))
  have "distance s' x r \<le> (if r \<in> set (q # qs) then distance s x r - 1 else distance s x r)" for r
  proof (cases "r = q")
    case True
    with Cons.prems(3) have "distance s' x q \<le> distance s1 x q" using I(4)[of q] by simp
    with R(4) True show ?thesis by simp
  next
    case False
    with I(4)[of r] R(5)[OF False] show ?thesis by (auto split: if_splits)
  qed
  moreover have "find_symbol s' r ?n = Some (x, st)" if "r \<notin> set (q # qs)" "find_symbol s r ?n = Some (x, st)" for r st
    using I(5)[of r st] R(5)[of r] that by simp
  ultimately show ?case
    using later_trans[OF R(1) I(1)] frame_trans[OF R(2) I(2)] I(3) by blast
qed

lemma peach_accessibility_fuel: "peach (\<lambda>q. accessibility_conflict h q x) qs s \<noteq> PErr OutOfFuel s'"
proof (induction qs arbitrary: s)
  case (Cons q qs)
  have "unintern h q y t \<noteq> PErr OutOfFuel t'" for y t t'
    by (auto simp: unintern_def Let_def unintern_name_conflict_def split: option.splits prod.splits)
  then have "accessibility_conflict h q x s \<noteq> PErr OutOfFuel s'"
    by (auto simp: accessibility_conflict_def Let_def pbind_def split: option.splits choice.splits access.splits pres.splits)
  with Cons show ?case by (auto simp: pbind_def split: pres.splits)
qed simp

section \<open>Export ends\<close>

text \<open>What a successful export achieves.\<close>

definition exported :: "nat \<Rightarrow> nat \<Rightarrow> string \<Rightarrow> psys \<Rightarrow> psys \<Rightarrow> bool" where
  "exported p x n s s' \<longleftrightarrow>
     consistent s' \<and> find_symbol s' p n = Some (x, External) \<and> frame n s s' \<and>
     (\<forall>q \<in> set (used_by (packages s' p)). \<not> keyword_flag (packages s' q) \<longrightarrow>
        (\<exists>y st. find_symbol s' q n = Some (y, st) \<and> (y = x \<or> y \<in> shads s' q)))"

lemma exported_users:
  assumes C: "consistent s" and e: "find_symbol s p n = Some (x, External)"
  shows "exported p x n s s"
  unfolding exported_def
proof (intro conjI ballI impI)
  fix q assume q: "q \<in> set (used_by (packages s p))" and k: "\<not> keyword_flag (packages s q)"
  from q consistentD(4)[OF C] have "p \<in> set (using_packages (packages s q))" by (simp add: linked_def)
  with e have a: "accessible s q n x" by (auto simp: accessible_def inherits_def find_symbol_External)
  with k have "find_symbol s q n \<noteq> None" by (auto simp: find_symbol_None)
  then obtain y st where f: "find_symbol s q n = Some (y, st)" by auto
  show "\<exists>y st. find_symbol s q n = Some (y, st) \<and> (y = x \<or> y \<in> shads s q)"
  proof (cases "shadowed s q n")
    case True
    then obtain z where "present s q n = Some z" "z \<in> shads s q" using shadowed_iff[OF C] by auto
    with find_symbol_present[OF C] show ?thesis by blast
  next
    case False
    from unambiguousD[OF consistentD(3)[OF C] find_symbol_accessible[OF f] a k False] f show ?thesis by auto
  qed
qed (use C e in simp_all)

lemma exported_frame: "frame n s s1 \<Longrightarrow> exported p x n s1 s' \<Longrightarrow> exported p x n s s'"
  by (auto simp: exported_def intro: frame_trans)

definition ends_well :: "nat \<Rightarrow> nat \<Rightarrow> string \<Rightarrow> psys \<Rightarrow> unit pres \<Rightarrow> bool" where
  "ends_well p x n s r \<longleftrightarrow> (\<forall>s'. r \<noteq> PErr OutOfFuel s') \<and> (\<forall>s'. r = POk () s' \<longrightarrow> exported p x n s s')"

lemma export_accessible:
  assumes "consistent s" "p < package_count s" "find_symbol s p (sname s x) = Some (x, st)"
    "\<forall>q \<in> set (used_by (packages s p)). distance s x q \<le> d" "d < fuel"
  shows "ends_well p x (sname s x) s (export2 fuel h p x s)"
  using assms
proof (induction d arbitrary: s fuel)
  case (0 s fuel)
  note C = 0(1) and f = 0(3)
  let ?n = "sname s x"
  obtain k where k: "fuel = Suc k" using 0(5) by (cases fuel) auto
  have nc: "export_conflicts s p ?n x = []"
    using 0(4) export_conflicts_distance[of _ s p x] by (metis all_not_in_conv less_numeral_extra(3) le_zero_eq set_empty)
  show ?case
  proof (cases "st = External")
    case True
    with f k have "export2 fuel h p x s = POk () s" by (simp add: Let_def)
    with exported_users[OF C] f True show ?thesis by (simp add: ends_well_def)
  next
    case False
    define s' where "s' = add_symbol_to_package p ?n x True (if st = Internal then rem_internal p ?n s else s)"
    note e = export_without_conflict[OF C 0(2) f refl False nc s'_def]
    have "export2 fuel h p x s = POk () s'" using f k False nc by (simp add: Let_def s'_def)
    moreover have "exported p x ?n s' s'" using e by (intro exported_users) (simp_all add: find_symbol_External)
    ultimately show ?thesis using exported_frame[OF only_at_frame[OF e(1)]] by (simp add: ends_well_def)
  qed
next
  case (Suc d s fuel)
  note C = Suc.prems(1) and p = Suc.prems(2) and f = Suc.prems(3)
  let ?n = "sname s x"
  obtain k where k: "fuel = Suc k" "d < k" using Suc.prems(5) by (cases fuel) auto
  define cs where "cs = export_conflicts s p ?n x"
  show ?case
  proof (cases "st = External \<or> cs = []")
    case True
    show ?thesis
    proof (cases "st = External")
      case True
      with f k have "export2 fuel h p x s = POk () s" by (simp add: Let_def)
      with exported_users[OF C] f True show ?thesis by (simp add: ends_well_def)
    next
      case False
      with True have "export_conflicts s p ?n x = []" by (simp add: cs_def)
      then have "\<forall>q \<in> set (used_by (packages s p)). distance s x q \<le> d"
        using export_conflicts_distance[of _ s p x] by (metis empty_iff le0 list.set(1) not_gr_zero)
      from Suc.IH[OF C p f this, of fuel] k show ?thesis by simp
    qed
  next
    case False
    have eq: "export2 fuel h p x s = pbind (export_name_conflict h x cs s) (\<lambda>_ s'. export2 k h p x s')"
      using f False k by (simp add: Let_def cs_def)
    show ?thesis
    proof (cases "export_name_conflict h x cs s")
      case (PErr e s1)
      with peach_accessibility_fuel[of h x cs s] show ?thesis
        by (auto simp: eq ends_well_def export_name_conflict_def)
    next
      case (POk u s1)
      then have r: "export_name_conflict h x cs s = POk () s1" by simp
      have x: "x < symbol_count s" using find_symbol_count[OF C f] by simp
      have "distinct cs"
        using consistentD(4)[OF C] by (simp add: cs_def export_conflicts_def linked_def)
      moreover have "\<forall>q \<in> set cs. q < package_count s \<and> \<not> shadowed s q ?n"
        using used_by_count[OF C] distance_unshadowed[OF C] by (auto simp: cs_def export_conflicts_distance)
      ultimately have R: "later s s1" "frame ?n s s1" "sname s1 x = ?n"
        "\<And>q. distance s1 x q \<le> (if q \<in> set cs then distance s x q - 1 else distance s x q)"
        "\<And>r st. r \<notin> set cs \<Longrightarrow> find_symbol s r ?n = Some (x, st) \<Longrightarrow> find_symbol s1 r ?n = Some (x, st)"
        using round[OF C x _ _ r] by auto
      have "p \<notin> set cs" using f export_conflicts_distance[of p s p x] by (simp add: cs_def distance_def)
      with R(5) f have f1: "find_symbol s1 p (sname s1 x) = Some (x, st)" by (simp add: R(3))
      have "distance s1 x q \<le> d" if "q \<in> set (used_by (packages s1 p))" for q
      proof -
        have q: "q \<in> set (used_by (packages s p))" using that same_linksD(2)[OF laterD(4)[OF R(1)]] by simp
        show ?thesis
        proof (cases "q \<in> set cs")
          case True with R(4)[of q] Suc.prems(4) q show ?thesis by fastforce
        next
          case False
          with q have "distance s x q = 0" using export_conflicts_distance[of q s p x] by (simp add: cs_def)
          with R(4)[of q] False show ?thesis by simp
        qed
      qed
      from Suc.IH[OF laterD(1)[OF R(1)] _ f1 _ k(2)] this p laterD(2)[OF R(1)]
      have "ends_well p x ?n s1 (export2 k h p x s1)" by (simp add: R(3))
      with exported_frame[OF R(2)] show ?thesis by (auto simp: eq r ends_well_def)
    qed
  qed
qed

text \<open>C28: exporting a symbol ends after at most two rounds of conflict resolution, whatever the user chooses; when it
  succeeds, the symbol is external in the package, every user of the package finds it or a symbol of its own that
  shadows it, and no other name has changed its meaning anywhere.\<close>

theorem export_ends:
  assumes C: "consistent s" and p: "p < package_count s" and x: "x < symbol_count s" and fuel: "4 \<le> fuel"
  shows "(\<forall>s'. export2 fuel h p x s \<noteq> PErr OutOfFuel s') \<and>
    (\<forall>s'. export2 fuel h p x s = POk () s' \<longrightarrow> exported p x (sname s x) s s')"
proof -
  let ?n = "sname s x"
  obtain k where k: "fuel = Suc k" "3 \<le> k" using fuel by (cases fuel) auto
  have "ends_well p x ?n s (export2 fuel h p x s)"
  proof (cases "find_symbol s p ?n")
    case None
    define s1 where "s1 = add_symbol_to_package p ?n x False s"
    have l: "later s s1" unfolding s1_def by (rule add_symbol_later[OF C p x None])
    have o: "only_at p ?n s s1" unfolding s1_def by (rule only_at_add_symbol) simp
    have sn: "sname s1 x = ?n" by (rule only_atD(1)[OF o x])
    have "present s1 p ?n = Some x"
      using find_None_present[OF C None] by (simp add: s1_def present_cases add_symbol_simps)
    from find_symbol_present[OF laterD(1)[OF l] this]
    obtain st where f: "find_symbol s1 p (sname s1 x) = Some (x, st)" by (simp add: sn)
    have "ends_well p x ?n s1 (export2 k h p x s1)"
      using export_accessible[OF laterD(1)[OF l] _ f, of 2 k] distance_le k(2) p laterD(2)[OF l] by (simp add: sn)
    with exported_frame[OF only_at_frame[OF o]] None show ?thesis
      by (auto simp: k(1) ends_well_def Let_def simp flip: s1_def)
  next
    case (Some a)
    then obtain y st where f: "find_symbol s p ?n = Some (y, st)" by (cases a) auto
    show ?thesis
    proof (cases "y = x")
      case True
      from export_accessible[OF C p f[unfolded True], of 2 fuel] distance_le fuel show ?thesis by simp
    next
      case False with f show ?thesis by (simp add: k(1) ends_well_def Let_def)
    qed
  qed
  then show ?thesis by (simp add: ends_well_def)
qed

end
