(* ===== verification/PackageSystem.thy ===== *)
theory PackageSystem
  imports PackageSound PackageExport
begin

text \<open>
  The package system as a whole: making packages, and the step relation.  Every state the operations lead to from a
  sound one is sound, and names in it are unambiguous.
\<close>

section \<open>Making packages\<close>

text \<open>The packages named in a use list must not be keyword packages.\<close>

definition uses_ok :: "psys \<Rightarrow> string list \<Rightarrow> bool" where
  "uses_ok s uses \<longleftrightarrow> (\<forall>u \<in> set uses. \<forall>q. find_package s u = Some q \<longrightarrow> \<not> acts_like_keyword (packages s q))"

lemma grown_find_package: "system_grown s s' \<Longrightarrow> find_package s' n = find_package s n"
  by (simp add: system_grown_def find_package_def labels_eq split: option.splits)

lemma grown_uses_ok: "system_grown s s' \<Longrightarrow> uses_ok s uses \<Longrightarrow> uses_ok s' uses"
  using grown_find_package by (fastforce simp: uses_ok_def system_grown_def)

lemma new_package_sound:
  assumes S: "sound s" and n: "n \<noteq> []" "distinct (n # nicks)" and free: "\<forall>m \<in> set (n # nicks). map_of (name_index s) m = None"
  defines "p \<equiv> package_count s"
  obtains s2 where "add_nicknames n p nicks (snd (new_package n s)) = POk () s2" "sound s2" "package_count s2 = Suc p"
    "symbol_count s2 = symbol_count s" "uses_ok s uses \<Longrightarrow> uses_ok s2 uses" "packages s2 p = (blank_package n)\<lparr>nicknames := rev nicks\<rparr>"
proof -
  have N: "names_ok s" and C: "consistent s" using S by (simp_all add: sound_def)
  note D = names_okD[OF N]
  define s1 where "s1 = snd (new_package n s)"
  have s1: "packages s1 = (packages s)(p := blank_package n)" "package_count s1 = Suc p"
    "name_index s1 = AList.update n p (name_index s)" "symbols s1 = symbols s" "symbol_count s1 = symbol_count s"
    "current_package s1 = current_package s"
    by (simp_all add: s1_def new_package_def Let_def p_def)
  have nick: "peach (\<lambda>nick s'. if map_of (name_index s') nick \<noteq> None \<and> nick \<noteq> n then PErr NicknameInUse s' else map_name nick p s')
      ns t = POk () (t\<lparr>name_index := fold (\<lambda>m. AList.update m p) ns (name_index t)\<rparr>)"
    if "distinct ns" "\<forall>m \<in> set ns. map_of (name_index t) m = None" "p < package_count t" for ns t
    using that
  proof (induction ns arbitrary: t)
    case Nil then show ?case by simp
  next
    case (Cons a ns)
    let ?t = "t\<lparr>name_index := AList.update a p (name_index t)\<rparr>"
    have "\<forall>m \<in> set ns. map_of (name_index ?t) m = None" using Cons.prems by (auto simp: update_conv')
    with Cons.IH[of ?t] Cons.prems show ?case by (simp add: map_name_def)
  qed
  define s2 where "s2 = set_nicknames p (rev nicks) (s1\<lparr>name_index := fold (\<lambda>m. AList.update m p) nicks (name_index s1)\<rparr>)"
  have "\<forall>m \<in> set nicks. map_of (name_index s1) m = None" using free n by (auto simp: s1 update_conv')
  then have eq: "add_nicknames n p nicks s1 = POk () s2"
    unfolding add_nicknames_def using n by (subst nick) (simp_all add: s1(2) s2_def)
  have s2: "packages s2 = (packages s)(p := (blank_package n)\<lparr>nicknames := rev nicks\<rparr>)" "package_count s2 = Suc p"
    "symbols s2 = symbols s" "symbol_count s2 = symbol_count s" "current_package s2 = current_package s"
    "map_of (name_index s2) m = (if m = n \<or> m \<in> set nicks then Some p else map_of (name_index s) m)" for m
    by (simp_all add: s2_def set_nicknames_def upd_package_def s1 map_of_fold_update update_conv')
  have blank: "packages s p = blank_package []" using consistentD(7)[OF C] by (simp add: p_def)
  have "same_content s s2"
    using blank by (auto simp: same_content_def s2 blank_package_def locked_def p_def)
  then have C2: "consistent s2" by (rule same_content_consistent[OF C])
  have live2: "live s2 q \<longleftrightarrow> live s q \<or> q = p" for q
    by (auto simp: live_def s2 p_def blank_package_def)
  have notp: "\<not> live s p" by (simp add: live_def p_def)
  have hn2: "has_name s2 q m \<longleftrightarrow> has_name s q m \<or> q = p \<and> (m = n \<or> m \<in> set nicks)" for q m
    using live2[of q] notp by (auto simp: has_name_def s2 blank_package_def)
  have "names_ok s2"
    unfolding names_ok_def
  proof (intro conjI allI impI)
    show "map_of (name_index s2) m = Some q \<longleftrightarrow> has_name s2 q m" for m q
      using s2(6)[of m] hn2[of q m] D(1)[of m q] free notp by (auto simp: has_name_def)
    show "package_name (packages s2 q) \<noteq> []" "distinct (package_name (packages s2 q) # nicknames (packages s2 q))" if "live s2 q" for q
      using that live2[of q] D(2,3)[of q] n notp by (auto simp: s2 blank_package_def)
    show "package_name (packages s2 q) = []" if "zombie (packages s2 q)" for q
      using that D(4)[of q] by (auto simp: s2 blank_package_def split: if_splits)
    show "r < package_count s2" if "map_of (local_nicknames (packages s2 q)) m = Some r" for q m r
      using that D(5)[of q m r] by (auto simp: s2 blank_package_def p_def split: if_splits)
    show "current_package s2 < package_count s2" using D(6) by (simp add: s2 p_def)
  qed
  with C2 have snd: "sound s2" by (simp add: sound_def)
  have "uses_ok s2 uses" if u: "uses_ok s uses"
    unfolding uses_ok_def
  proof (intro ballI allI impI)
    fix u q assume uq: "u \<in> set uses" "find_package s2 u = Some q"
    have "current_package s \<noteq> p" using D(6) by (simp add: p_def)
    with uq(2) have "find_package s u = Some q \<or> q = p"
      by (auto simp: find_package_def s2 split: option.splits if_splits)
    then show "\<not> acts_like_keyword (packages s2 q)"
      using u uq(1) by (auto simp: uses_ok_def s2 blank_package_def acts_like_keyword_def)
  qed
  with that eq snd s2 show thesis unfolding s1_def by simp
qed

lemma shadow_fold_later:
  assumes "consistent s" "p < package_count s"
  shows "later s (fold (shadow p) ns s)"
  using assms
proof (induction ns arbitrary: s)
  case Nil then show ?case by simp
next
  case (Cons a ns)
  have l: "later s (shadow p a s)" by (rule shadow_later[OF Cons.prems])
  from Cons.IH[of "shadow p a s"] Cons.prems laterD(1,2)[OF l] later_trans[OF l] show ?case by simp
qed

lemma peach_use_sound:
  assumes "sound s" "p < package_count s" "uses_ok s uses"
  shows "sound (pstate (peach (\<lambda>u s'. case find_package s' u of
             None \<Rightarrow> PErr (NoSuchPackageName u) s'
           | Some q \<Rightarrow> pbind (use_package fuel h p q s') (\<lambda>_. POk ())) uses s))"
  using assms
proof (induction uses arbitrary: s)
  case Nil then show ?case by simp
next
  case (Cons u uses)
  show ?case
  proof (cases "find_package s u")
    case None with Cons.prems show ?thesis by simp
  next
    case (Some q)
    have q: "q < package_count s" "\<not> acts_like_keyword (packages s q)"
      using Some Cons.prems find_package_count by (auto simp: sound_def uses_ok_def)
    have g: "system_grown s (pstate (use_package fuel h p q s))"
      using Cons.prems by (intro use_package_grown q) (auto simp: sound_def)
    show ?thesis
    proof (cases "use_package fuel h p q s")
      case (PErr e s1)
      with g Some grown_sound[OF Cons.prems(1)] show ?thesis by simp
    next
      case (POk v s1)
      with g have g1: "system_grown s s1" by simp
      have u: "uses_ok s uses" using Cons.prems(3) by (simp add: uses_ok_def)
      have "p < package_count s1" using g1 Cons.prems(2) by (simp add: system_grown_def)
      from Cons.IH[OF grown_sound[OF Cons.prems(1) g1] this grown_uses_ok[OF g1 u]] POk Some show ?thesis by simp
    qed
  qed
qed

lemma make_package_sound:
  assumes "sound s" "n \<noteq> []" "distinct (n # nicks)" "uses_ok s uses"
  shows "sound (pstate (make_package fuel h n nicks uses shadows s))"
  using assms(1,4)
proof (induction fuel arbitrary: s)
  case 0 then show ?case by simp
next
  case (Suc fuel)
  note S = Suc.prems(1)
  have N: "names_ok s" and C: "consistent s" using S by (simp_all add: sound_def)
  note D = names_okD[OF N]
  show ?case
  proof (cases "map_of (name_index s) n")
    case (Some e)
    then have le: "live s e" using D(1)[of n e] by (simp add: has_name_def)
    show ?thesis
    proof (cases "proceed h PackageExists")
      case False with Some S show ?thesis by (simp add: Let_def)
    next
      case pr: True
      show ?thesis
      proof (cases "\<not> locked (packages s e) \<and> (used_by (packages s e) = [] \<or> proceed h PackageInUse)")
        case False
        then have "\<exists>err. delete_package h e s = PErr err s" using D(2)[OF le] by (auto simp: delete_package_def Let_def)
        with Some pr S show ?thesis by (auto simp: Let_def)
      next
        case True
        obtain s' where s': "delete_package h e s = POk True s'" "sound s'"
          "\<And>q. q \<noteq> e \<Longrightarrow> labels (packages s' q) = labels (packages s q)"
          "\<And>q. acts_like_keyword (packages s' q) = acts_like_keyword (packages s q)"
          "\<And>n. map_of (name_index s') n = (if has_name s e n then None else map_of (name_index s) n)"
          "current_package s' = current_package s" "local_nicknames (packages s' e) = local_nicknames (packages s e)"
          by (rule delete_package_deletes[OF S le, of h]) (use True in auto)
        have "local_nicknames (packages s' q) = local_nicknames (packages s q)" for q
          using s'(3)[of q] s'(7) by (cases "q = e") (simp_all add: labels_eq)
        then have "find_package s u = Some q" if "find_package s' u = Some q" for u q
          using that s'(5,6) by (auto simp: find_package_def split: option.splits if_splits)
        then have "uses_ok s' uses" using Suc.prems(2) s'(4) by (auto simp: uses_ok_def)
        from Suc.IH[OF s'(2) this] Some pr s'(1) show ?thesis by (simp add: Let_def)
      qed
    qed
  next
    case None
    show ?thesis
    proof (cases "\<exists>nick \<in> set nicks. map_of (name_index s) nick \<noteq> None \<and> nick \<noteq> n")
      case True with None S show ?thesis by (auto simp: Let_def)
    next
      case False
      with None have free: "\<forall>m \<in> set (n # nicks). map_of (name_index s) m = None" by auto
      define p where "p = package_count s"
      obtain s2 where s2: "add_nicknames n p nicks (snd (new_package n s)) = POk () s2" "sound s2" "package_count s2 = Suc p"
        "uses_ok s2 uses"
        unfolding p_def by (rule new_package_sound[OF S assms(2,3) free, where uses = uses]) (rule that; simp add: Suc.prems(2) p_def)
      obtain s1 where np: "new_package n s = (p, s1)" by (simp add: new_package_def Let_def p_def)
      with s2(1) have add: "add_nicknames n p nicks s1 = POk () s2" by simp
      have l: "later s2 (fold (shadow p) shadows s2)"
        using s2(2,3) by (intro shadow_fold_later) (auto simp: sound_def)
      define s3 where "s3 = fold (shadow p) shadows s2"
      have s3: "sound s3" "p < package_count s3" "uses_ok s3 uses"
        using later_sound[OF s2(2) l] laterD(2)[OF l] s2(3) grown_uses_ok[OF later_grown[OF l] s2(4)]
        by (simp_all add: s3_def)
      define r where "r = peach (\<lambda>u s'. case find_package s' u of
             None \<Rightarrow> PErr (NoSuchPackageName u) s'
           | Some q \<Rightarrow> pbind (use_package fuel h p q s') (\<lambda>_. POk ())) uses s3"
      have "make_package (Suc fuel) h n nicks uses shadows s = pbind r (\<lambda>_. POk p)"
        unfolding make_package.simps Let_def None option.case if_not_P[OF False] np prod.case add pres.case r_def s3_def ..
      moreover have "sound (pstate r)" unfolding r_def by (rule peach_use_sound[OF s3])
      ultimately show ?thesis by (cases r) simp_all
    qed
  qed
qed

lemma delete_package_sound:
  assumes S: "sound s" and p: "p < package_count s"
  shows "sound (pstate (delete_package h p s))"
proof (cases "live s p")
  case False
  with p have "package_name (packages s p) = []"
    using names_okD(4)[of s p] S by (simp add: live_def sound_def)
  with S show ?thesis by (simp add: delete_package_def Let_def)
next
  case True
  show ?thesis
  proof (cases "\<not> locked (packages s p) \<and> (used_by (packages s p) = [] \<or> proceed h PackageInUse)")
    case False
    then have "\<exists>err. delete_package h p s = PErr err s"
      using names_okD(2)[OF _ True] S by (auto simp: delete_package_def Let_def sound_def)
    with S show ?thesis by auto
  next
    case ok: True
    obtain s' where "delete_package h p s = POk True s'" "sound s'"
      by (rule delete_package_deletes[OF S True, of h]) (use ok in auto)
    then show ?thesis by simp
  qed
qed

section \<open>Steps\<close>

text \<open>
  Each step is one operation on packages and symbols that exist, whatever its outcome; the premises say what the code does
  not check.
\<close>

inductive package_step :: "psys \<Rightarrow> psys \<Rightarrow> bool" where
  step_intern: "package_step s (snd (intern p n s))" if "p < package_count s"
| step_shadow: "package_step s (shadow p n s)" if "p < package_count s"
| step_shadowing_import: "package_step s (shadowing_import p xs s)"
    if "p < package_count s" "\<forall>x \<in> set xs. x < symbol_count s"
| step_import: "package_step s (pstate (import_symbols h p xs s))"
    if "p < package_count s" "\<forall>x \<in> set xs. x < symbol_count s"
| step_export: "package_step s (pstate (export2 fuel h p x s))" if "p < package_count s" "x < symbol_count s"
| step_unexport: "package_step s (pstate (unexport p x s))"
    if "p < package_count s" "\<And>y. find_symbol s p (sname s x) = Some (y, External) \<Longrightarrow> y = x"
| step_unintern: "package_step s (pstate (unintern h p x s))" if "p < package_count s"
| step_use: "package_step s (pstate (use_package fuel h p u s))"
    if "p < package_count s" "u < package_count s" "\<not> acts_like_keyword (packages s u)"
| step_unuse: "package_step s (pstate (unuse_package p u s))"
| step_make: "package_step s (pstate (make_package fuel h n nicks uses shadows s))"
    if "n \<noteq> []" "distinct (n # nicks)" "uses_ok s uses"
| step_delete: "package_step s (pstate (delete_package h p s))" if "p < package_count s"
| step_rename: "package_step s (pstate (rename_package p n nicks s))"
    if "live s p" "n \<noteq> []" "distinct (n # nicks)" "\<And>m q. m \<in> set (n # nicks) \<Longrightarrow> has_name s q m \<Longrightarrow> q = p"
| step_add_nickname: "package_step s (pstate (package_add_nickname p nick s))" if "live s p"
| step_remove_nickname: "package_step s (pstate (package_remove_nickname p nick s))"
    if "live s p" "nick \<in> set (nicknames (packages s p))"

inductive package_steps :: "psys \<Rightarrow> psys \<Rightarrow> bool" where
  steps_refl: "package_steps s s"
| steps_step: "package_steps s s' \<Longrightarrow> package_step s' s'' \<Longrightarrow> package_steps s s''"

lemma import_symbols_later:
  assumes C: "consistent s" and p: "p < package_count s" and xs: "\<forall>x \<in> set xs. x < symbol_count s"
  shows "later s (pstate (import_symbols h p xs s))"
  unfolding import_symbols_def
proof (rule peach_later[OF C])
  fix x s1 assume "x \<in> set xs" "later s s1"
  then show "later s1 (pstate (import1 h p x s1))"
    using laterD[of s s1] p xs by (intro import1_later) auto
qed

lemma intern_later:
  assumes C: "consistent s" and p: "p < package_count s"
  shows "system_grown s (snd (intern p n s))"
proof (cases "find_symbol s p n")
  case None
  obtain x s1 where i: "intern_new p n s = (x, s1)" by fastforce
  have "consistent s1" using intern_new_ok[OF C p find_None_present[OF C None] i] None by blast
  then have "later s s1" using intern_new_effect(3)[OF i] by (rule laterI)
  moreover have "system_grown s1 (upd_symbol x (\<lambda>y. y\<lparr>global_value := Some x\<rparr>) s1)"
    using consistent_upd_value[OF \<open>consistent s1\<close>] by (simp add: system_grown_def upd_symbol_def)
  ultimately show ?thesis
    using None i by (auto simp: intern_def Let_def intro: later_grown grown_trans)
next
  case (Some a)
  have "system_grown s (upd_symbol (fst a) (\<lambda>y. y\<lparr>global_value := Some (fst a)\<rparr>) s)"
    using consistent_upd_value[OF C] by (simp add: system_grown_def upd_symbol_def)
  with Some C show ?thesis by (cases a) (simp add: intern_def grown_refl)
qed

lemma package_step_sound: "package_step s s' \<Longrightarrow> sound s \<Longrightarrow> sound s'"
proof (induction rule: package_step.induct)
  case (step_intern p s n)
  note hyps = this
  have C: "consistent s" using hyps by (simp add: sound_def)
  show ?case by (rule grown_sound[OF _ intern_later[OF C]]) (use hyps in simp_all)
next
  case (step_shadow p s n)
  note hyps = this
  have C: "consistent s" using hyps by (simp add: sound_def)
  show ?case by (rule later_sound[OF _ shadow_later[OF C]]) (use hyps in simp_all)
next
  case (step_shadowing_import p s xs)
  note hyps = this
  have C: "consistent s" using hyps by (simp add: sound_def)
  show ?case by (rule later_sound[OF _ shadowing_import_later[OF C]]) (use hyps in simp_all)
next
  case (step_import p s xs h)
  note hyps = this
  have C: "consistent s" using hyps by (simp add: sound_def)
  show ?case by (rule later_sound[OF _ import_symbols_later[OF C]]) (use hyps in simp_all)
next
  case (step_export p s x fuel h)
  note hyps = this
  have C: "consistent s" using hyps by (simp add: sound_def)
  show ?case by (rule later_sound[OF _ export2_later[OF C]]) (use hyps in simp_all)
next
  case (step_unexport p s x)
  note hyps = this
  have C: "consistent s" using hyps by (simp add: sound_def)
  show ?case by (rule later_sound[OF _ unexport_later[OF C]]) (use hyps in simp_all)
next
  case (step_unintern p s h x)
  note hyps = this
  have C: "consistent s" using hyps by (simp add: sound_def)
  show ?case by (rule later_sound[OF _ unintern_later[OF C]]) (use hyps in simp_all)
next
  case (step_use p s u fuel h)
  note hyps = this
  have C: "consistent s" using hyps by (simp add: sound_def)
  show ?case by (rule grown_sound[OF _ use_package_grown[OF C]]) (use hyps in simp_all)
next
  case (step_unuse s p u)
  note hyps = this
  have C: "consistent s" using hyps by (simp add: sound_def)
  show ?case by (rule grown_sound[OF _ unuse_package_grown(1)[OF C]]) (use hyps in simp_all)
next
  case step_make then show ?case by (intro make_package_sound)
next
  case step_delete then show ?case by (intro delete_package_sound)
next
  case step_rename then show ?case by (intro rename_sound)
next
  case step_add_nickname then show ?case by (intro add_nickname_sound)
next
  case step_remove_nickname then show ?case by (intro remove_nickname_sound)
qed

lemma package_steps_sound: "package_steps s s' \<Longrightarrow> sound s \<Longrightarrow> sound s'"
  by (induction rule: package_steps.induct) (auto intro: package_step_sound)

section \<open>The meaning of names\<close>

lemma find_inherited_order:
  assumes one: "\<And>x y. (\<exists>u \<in> set us. ext_of s u n = Some x) \<Longrightarrow> (\<exists>u \<in> set us. ext_of s u n = Some y) \<Longrightarrow> x = y"
    and set: "set vs = set us" and ext: "ext_of s' = ext_of s"
  shows "find_inherited s' vs n = find_inherited s us n"
proof (cases "find_inherited s us n")
  case None
  then show ?thesis using find_inherited_None[of s us n] find_inherited_None[of s' vs n] by (simp add: set ext)
next
  case (Some x)
  then have "\<not> (\<forall>u \<in> set us. ext_of s u n = None)" using find_inherited_None[of s us n] by simp
  then have "find_inherited s' vs n \<noteq> None" using find_inherited_None[of s' vs n] by (simp add: set ext)
  then obtain y where y: "find_inherited s' vs n = Some y" by auto
  from find_inherited_Some[OF this] find_inherited_Some[OF Some] one have "x = y" by (simp add: set ext)
  with y Some show ?thesis by simp
qed

lemma find_symbol_order:
  assumes C: "consistent s" and us: "set us = set (using_packages (packages s p))"
  shows "find_symbol (upd_package p (\<lambda>k. k\<lparr>using_packages := us\<rparr>) s) p n = find_symbol s p n"
proof -
  let ?s = "upd_package p (\<lambda>k. k\<lparr>using_packages := us\<rparr>) s"
  have pk: "packages ?s p = (packages s p)\<lparr>using_packages := us\<rparr>" by (simp add: upd_package_def)
  have ext: "ext_of ?s = ext_of s" by (auto simp: ext_of_def upd_package_def)
  show ?thesis
  proof (cases "present s p n = None \<and> \<not> keyword_flag (packages s p)")
    case False
    then show ?thesis
      by (auto simp: find_symbol_def Let_def pk present_cases ext_of_def int_of_def split: option.splits)
  next
    case True
    have "\<not> shadowed s p n" using True shadowed_iff[OF C] by auto
    then have "x = y" if "inherits s p n x" "inherits s p n y" for x y
      using unambiguousD[OF consistentD(3)[OF C], of p n x y] True that by (simp add: accessible_def)
    then have "find_inherited ?s us n = find_inherited s (using_packages (packages s p)) n"
      by (intro find_inherited_order us ext) (simp_all add: inherits_def)
    with True show ?thesis by (simp add: find_symbol_def Let_def pk present_cases ext_of_def int_of_def)
  qed
qed


section \<open>An example\<close>

text \<open>A system with the package \<open>CL\<close>, in which a symbol is interned and exported, and a package is made that uses it.\<close>

definition one_package :: psys where
  "one_package = \<lparr>packages = (\<lambda>_. blank_package [])(0 := blank_package ''CL''), package_count = 1,
     symbols = (\<lambda>_. \<lparr>symbol_name = [], home_package = None, global_value = None\<rparr>), symbol_count = 0,
     name_index = [(''CL'', 0)], current_package = 0\<rparr>"

lemma one_package_sound: "sound one_package"
proof -
  have pk: "using_packages (packages one_package p) = []" "used_by (packages one_package p) = []"
    "external_symbols (packages one_package p) = []" "internal_symbols (packages one_package p) = []"
    "shadowing (packages one_package p) = []" "keyword_flag (packages one_package p) = False"
    "acts_like_keyword_flag (packages one_package p) = False" "zombie (packages one_package p) = False"
    "local_nicknames (packages one_package p) = []" "nicknames (packages one_package p) = []" for p
    by (simp_all add: one_package_def blank_package_def)
  have "consistent one_package"
    unfolding consistent_def tables_ok_def linked_def keywords_apart_def homes_ok_def unambiguous_def accessible_def
      inherits_def present_cases ext_of_def int_of_def pk acts_like_keyword_def
    by (simp add: one_package_def)
  moreover have "names_ok one_package"
    unfolding names_ok_def has_name_def live_def pk by (auto simp: one_package_def blank_package_def)
  ultimately show ?thesis by (simp add: sound_def)
qed

definition example_handlers :: handlers where
  "example_handlers = \<lparr>proceed = \<lambda>_. False, accessibility_choice = \<lambda>_ _ _ _. KeepOld,
     import_choice = \<lambda>_ _ _ _. KeepOld, unintern_choice = \<lambda>_ _ _. None\<rparr>"

definition example_interned :: psys where
  "example_interned = snd (intern 0 ''CAR'' one_package)"

definition example_exported :: psys where
  "example_exported = pstate (export2 4 example_handlers 0 0 example_interned)"

definition example_used :: psys where
  "example_used = pstate (make_package 4 example_handlers ''USER'' [] [''CL''] [] example_exported)"

lemma example_steps:
  "package_steps one_package example_interned" "package_steps one_package example_exported"
  "package_steps one_package example_used"
proof -
  show i: "package_steps one_package example_interned"
    unfolding example_interned_def by (rule steps_step[OF steps_refl step_intern]) (simp add: one_package_def)
  show e: "package_steps one_package example_exported"
    unfolding example_exported_def by (rule steps_step[OF i step_export]) code_simp+
  show "package_steps one_package example_used"
    unfolding example_used_def
  proof (rule steps_step[OF e step_make])
    have "find_package example_exported ''CL'' = Some 0" by code_simp
    moreover have "\<not> acts_like_keyword (packages example_exported 0)" by code_simp
    ultimately show "uses_ok example_exported [''CL'']" by (simp add: uses_ok_def)
  qed simp_all
qed


lemma export_ends_witness:
  "(\<forall>s'. export2 4 example_handlers 0 0 example_interned \<noteq> PErr OutOfFuel s') \<and>
     exported 0 0 ''CAR'' example_interned example_exported"
proof -
  have c: "consistent example_interned"
    using package_steps_sound[OF example_steps(1) one_package_sound] by (simp add: sound_def)
  have n: "sname example_interned 0 = ''CAR''" "0 < package_count example_interned" "0 < symbol_count example_interned"
    by code_simp+
  obtain s' where s': "export2 4 example_handlers 0 0 example_interned = POk () s'"
  proof -
    have "case export2 4 example_handlers 0 0 example_interned of POk u s' \<Rightarrow> True | PErr e s' \<Rightarrow> False" by code_simp
    with that show thesis by (simp split: pres.splits)
  qed
  with export_ends[OF c n(2,3), of 4 example_handlers] n(1) show ?thesis by (simp add: example_exported_def)
qed

section \<open>A package that is its own nickname\<close>

text \<open>C0: \<open>makePackage\<close> accepts the name of the new package among its nicknames, but such a package cannot be deleted:
  \<open>delete-package\<close> takes the name out of the map with the nicknames, empties the package, and then signals an
  error because the name is not there, leaving a package without name that is still listed.\<close>

theorem delete_own_nickname_fails:
  assumes "\<not> locked (packages s p)" "package_name (packages s p) = n" "n \<noteq> []" "nicknames (packages s p) = [n]"
    and "using_packages (packages s p) = []" "used_by (packages s p) = []" "\<not> zombie (packages s p)"
    and "map_of (name_index s) n = Some p" "p < package_count s"
  shows "\<exists>s'. delete_package h p s = PErr (NoSuchPackageName n) s' \<and> package_name (packages s' p) = [] \<and>
    p \<in> set (all_packages s')"
proof -
  define s1 where "s1 = set_nicknames p [] (s\<lparr>name_index := AList.delete n (name_index s)\<rparr>)"
  have l1: "\<not> locked (packages s1 p)" using assms(1) by (simp add: s1_def set_nicknames_simps)
  define s2 where "s2 = upd_package p (\<lambda>k. k\<lparr>package_name := []\<rparr>) (empty_package p s1)"
  note e = empty_package_effect[OF l1]
  have ix: "map_of (name_index s2) n = None"
    by (simp add: s2_def upd_package_def e(5)) (simp add: s1_def set_nicknames_simps delete_conv')
  have "delete_package h p s = PErr (NoSuchPackageName n) s2"
    using assms ix by (simp add: delete_package_def Let_def unmap_name_def remove_package_def s1_def s2_def)
  moreover have "package_name (packages s2 p) = []" "zombie (packages s2 p) = False" "package_count s2 = package_count s"
    by (simp_all add: s2_def upd_package_def e(2,4)) (simp_all add: s1_def set_nicknames_simps assms(7))
  ultimately show ?thesis using assms(9) by (auto simp: all_packages_def)
qed

lemma delete_own_nickname_fails_witness:
  "\<exists>s'. delete_package example_handlers 1 (pstate (make_package 1 example_handlers ''A'' [''A''] [] [] one_package)) =
    PErr (NoSuchPackageName ''A'') s' \<and> package_name (packages s' 1) = [] \<and> 1 \<in> set (all_packages s')"
  by (rule delete_own_nickname_fails) code_simp+

end
