(* ===== verification/HashTables.thy ===== *)
theory HashTables
  imports Prelude "HOL-Library.Log_Nat"
begin

text \<open>
  Hash tables (hashTable.cc, hashTableEq.cc and its siblings): open addressing
  with linear probing over one vector, deleted entries left as tombstones, and
  growth by re-insertion into a larger vector.  What the subclasses override,
  the key test, the hash and the search routine, is a record of functions.
\<close>

section \<open>Floating-point numbers\<close>

text \<open>
  A finite \<open>double\<close> is a mantissa below \<open>2 ^ 53\<close> times a power of two.  The source
  multiplies a double by an integral size (exactly converted) and compares the
  product with a count or truncates it; the product is rounded to 53 bits, to
  the nearest and ties to even.  Products that overflow the exponent are not
  represented.
\<close>

record double =
  mantissa :: int
  expo :: int

definition round53 :: "int \<Rightarrow> int \<times> nat" where
  "round53 p =
     (let k = nat (bitlen \<bar>p\<bar>) - 53;
          q = \<bar>p\<bar> div 2 ^ k;
          r = \<bar>p\<bar> mod 2 ^ k;
          q' = (if 2 * r > 2 ^ k \<or> (2 * r = 2 ^ k \<and> odd q) then q + 1 else q)
      in (sgn p * q', k))"

definition double_times :: "double \<Rightarrow> nat \<Rightarrow> double" where
  "double_times d n =
     (let (m, k) = round53 (mantissa d * int n) in \<lparr>mantissa = m, expo = expo d + int k\<rparr>)"

text \<open>Conversion to an integer drops the fraction.\<close>

definition double_trunc :: "double \<Rightarrow> int" where
  "double_trunc d =
     (if 0 \<le> expo d then mantissa d * 2 ^ nat (expo d)
      else sgn (mantissa d) * (\<bar>mantissa d\<bar> div 2 ^ nat (- expo d)))"

definition nat_gt_double :: "nat \<Rightarrow> double \<Rightarrow> bool" where
  "nat_gt_double c d =
     (if 0 \<le> expo d then mantissa d * 2 ^ nat (expo d) < int c
      else mantissa d < int c * 2 ^ nat (- expo d))"

definition double_less :: "double \<Rightarrow> double \<Rightarrow> bool" where
  "double_less a b =
     (let e = min (expo a) (expo b)
      in mantissa a * 2 ^ nat (expo a - e) < mantissa b * 2 ^ nat (expo b - e))"

section \<open>Tables\<close>

text \<open>A tagged pointer: the two markers of the table, or an object.\<close>

datatype 'a tsp = No_key | Deleted | Obj 'a

record 'a key_value_pair =
  kv_key :: "'a tsp"
  kv_value :: "'a tsp"

text \<open>The rehash size is an integer, a float, or (unchecked) some other number.\<close>

datatype rehash_number = Rehash_integer int | Rehash_float double | Rehash_other

record 'a hash_table =
  ht_rehash_size :: rehash_number
  ht_rehash_threshold :: double
  ht_table :: "'a key_value_pair list"
  ht_count :: nat

text \<open>
  The virtual methods of a table: \<open>keyTest\<close>, the hash \<open>rawhash\<close> of \<open>sxhashKey\<close> and
  whether the class has the search routine of \<open>HashTableEq_O\<close>.
\<close>

record 'a key_class =
  key_test :: "'a tsp \<Rightarrow> 'a tsp \<Rightarrow> bool"
  raw_hash :: "'a tsp \<Rightarrow> nat"
  eq_search :: bool

definition sxhash_key :: "'a key_class \<Rightarrow> 'a tsp \<Rightarrow> nat \<Rightarrow> nat" where
  "sxhash_key c obj bound = (if bound = 0 then raw_hash c obj else raw_hash c obj mod bound)"

definition default_rehash_threshold :: double where
  "default_rehash_threshold = \<lparr>mantissa = 6305039478318694, expo = - 53\<rparr>"

definition maybe_fix_rehash_threshold :: "double \<Rightarrow> double" where
  "maybe_fix_rehash_threshold rt =
     (if mantissa rt < 0 \<or> double_less default_rehash_threshold rt then default_rehash_threshold else rt)"

abbreviation free_entry :: "'a key_value_pair" where
  "free_entry \<equiv> \<lparr>kv_key = No_key, kv_value = No_key\<rparr>"

definition is_live :: "'a key_value_pair \<Rightarrow> bool" where
  "is_live entry \<longleftrightarrow> kv_key entry \<noteq> No_key \<and> kv_key entry \<noteq> Deleted"

text \<open>Resizing discards the count and, on the empty vector it is applied to, fills it with free entries.\<close>

definition vec_resize :: "nat \<Rightarrow> 'b \<Rightarrow> 'b list \<Rightarrow> 'b list" where
  "vec_resize n x xs = take n xs @ replicate (n - length xs) x"

definition resize_empty_table :: "nat \<Rightarrow> 'a hash_table \<Rightarrow> 'a hash_table" where
  "resize_empty_table sz ht =
     (let sz' = (if sz < 16 then 16 else sz)
      in ht\<lparr>ht_count := 0, ht_table := vec_resize sz' free_entry (ht_table ht)\<rparr>)"

definition ht_setup :: "nat \<Rightarrow> rehash_number \<Rightarrow> double \<Rightarrow> 'a hash_table \<Rightarrow> 'a hash_table" where
  "ht_setup sz rehash_size rehash_threshold ht =
     (resize_empty_table (sz mod 2 ^ 32) ht)
       \<lparr>ht_rehash_size := rehash_size, ht_rehash_threshold := maybe_fix_rehash_threshold rehash_threshold\<rparr>"

definition new_hash_table :: "'a hash_table" where
  "new_hash_table =
     \<lparr>ht_rehash_size = Rehash_other, ht_rehash_threshold = maybe_fix_rehash_threshold default_rehash_threshold,
      ht_table = [], ht_count = 0\<rparr>"

definition create_hash_table :: "nat \<Rightarrow> rehash_number \<Rightarrow> double \<Rightarrow> 'a hash_table" where
  "create_hash_table sz rehash_size rehash_threshold = ht_setup sz rehash_size rehash_threshold new_hash_table"

definition clrhash :: "'a hash_table \<Rightarrow> 'a hash_table" where
  "clrhash ht =
     ht_setup 16 (ht_rehash_size ht) (ht_rehash_threshold ht)
       (ht\<lparr>ht_count := 0, ht_table := vec_resize 0 free_entry (ht_table ht)\<rparr>)"

section \<open>Searching\<close>

text \<open>
  The two loops of a search, from the index of the key to the end and then from
  the start to the index, visit these slots in this order.
\<close>

definition probes :: "nat \<Rightarrow> nat \<Rightarrow> nat list" where
  "probes sz index = [index..<sz] @ [0..<index]"

fun search_slots :: "('a tsp \<Rightarrow> 'a tsp \<Rightarrow> bool) \<Rightarrow> 'a key_value_pair list \<Rightarrow> 'a tsp \<Rightarrow> nat list \<Rightarrow> nat option" where
  "search_slots test table key [] = None"
| "search_slots test table key (cur # curs) =
     (let entry = table ! cur
      in if kv_key entry = No_key then None
         else if kv_key entry \<noteq> Deleted \<and> test (kv_key entry) key then Some cur
         else search_slots test table key curs)"

fun eq_search_slots :: "'a key_value_pair list \<Rightarrow> 'a tsp \<Rightarrow> nat list \<Rightarrow> nat option" where
  "eq_search_slots table key [] = None"
| "eq_search_slots table key (cur # curs) =
     (let entry = table ! cur
      in if kv_key entry = key then Some cur
         else if kv_key entry = No_key then None
         else eq_search_slots table key curs)"

definition search_table :: "'a key_class \<Rightarrow> 'a hash_table \<Rightarrow> 'a tsp \<Rightarrow> nat \<Rightarrow> nat option" where
  "search_table c ht key index =
     (if eq_search c then eq_search_slots (ht_table ht) key (probes (length (ht_table ht)) index)
      else search_slots (key_test c) (ht_table ht) key (probes (length (ht_table ht)) index))"

definition table_ref :: "'a key_class \<Rightarrow> 'a hash_table \<Rightarrow> 'a tsp \<Rightarrow> nat option" where
  "table_ref c ht key = search_table c ht key (sxhash_key c key (length (ht_table ht)))"

text \<open>The second value tells whether the key was found.\<close>

definition gethash :: "'a key_class \<Rightarrow> 'a hash_table \<Rightarrow> 'a tsp \<Rightarrow> 'a tsp \<Rightarrow> 'a tsp \<times> bool" where
  "gethash c ht key default_value =
     (case table_ref c ht key of
        Some i \<Rightarrow>
          (let value = kv_value (ht_table ht ! i)
           in if value = No_key then (default_value, False) else (value, True))
      | None \<Rightarrow> (default_value, False))"

definition ht_find :: "'a key_class \<Rightarrow> 'a hash_table \<Rightarrow> 'a tsp \<Rightarrow> nat option" where
  "ht_find c ht key =
     (case table_ref c ht key of
        None \<Rightarrow> None
      | Some i \<Rightarrow> if kv_value (ht_table ht ! i) = No_key then None else Some i)"

definition ht_contains :: "'a key_class \<Rightarrow> 'a hash_table \<Rightarrow> 'a tsp \<Rightarrow> bool" where
  "ht_contains c ht key \<longleftrightarrow> ht_find c ht key \<noteq> None"

definition remhash :: "'a key_class \<Rightarrow> 'a hash_table \<Rightarrow> 'a tsp \<Rightarrow> 'a hash_table \<times> bool" where
  "remhash c ht key =
     (case table_ref c ht key of
        Some i \<Rightarrow>
          (ht\<lparr>ht_table := (ht_table ht)[i := (ht_table ht ! i)\<lparr>kv_key := Deleted\<rparr>], ht_count := ht_count ht - 1\<rparr>, True)
      | None \<Rightarrow> (ht, False))"

section \<open>Storing and growing\<close>

datatype hash_error = Bad_key | Out_of_memory

fun first_free :: "'a key_value_pair list \<Rightarrow> nat list \<Rightarrow> nat option" where
  "first_free table [] = None"
| "first_free table (write # writes) =
     (if kv_key (table ! write) = No_key \<or> kv_key (table ! write) = Deleted then Some write
      else first_free table writes)"

definition over_threshold :: "'a hash_table \<Rightarrow> bool" where
  "over_threshold ht \<longleftrightarrow> nat_gt_double (ht_count ht) (double_times (ht_rehash_threshold ht) (length (ht_table ht)))"

definition new_size :: "'a hash_table \<Rightarrow> bool \<Rightarrow> int" where
  "new_size ht expand =
     (let cur = int (length (ht_table ht))
      in if expand
         then (case ht_rehash_size ht of
                 Rehash_integer i \<Rightarrow> cur + i
               | Rehash_float d \<Rightarrow> double_trunc (double_times d (length (ht_table ht)))
               | Rehash_other \<Rightarrow> 0)
         else cur)"

text \<open>
  Storing may grow the table, which stores every entry again: the two routines
  call each other.  They run on fuel; \<open>None\<close> stands for a run that needs more.
  A negative new size becomes a huge unsigned one, which cannot be allocated.
\<close>

fun setf_gethash ::
  "nat \<Rightarrow> 'a key_class \<Rightarrow> 'a hash_table \<Rightarrow> 'a tsp \<Rightarrow> 'a tsp \<Rightarrow> (hash_error + 'a hash_table) option"
and rehash ::
  "nat \<Rightarrow> 'a key_class \<Rightarrow> 'a hash_table \<Rightarrow> bool \<Rightarrow> 'a tsp \<Rightarrow> (hash_error + 'a hash_table \<times> nat option) option"
and reinsert ::
  "nat \<Rightarrow> 'a key_class \<Rightarrow> 'a hash_table \<Rightarrow> 'a key_value_pair list \<Rightarrow> 'a tsp \<Rightarrow> 'a tsp option \<Rightarrow>
   (hash_error + 'a hash_table \<times> 'a tsp option) option"
where
  "setf_gethash 0 c ht key value = None"
| "setf_gethash (Suc f) c ht key value =
     (if key = No_key then Some (Inl Bad_key)
      else
        let index = sxhash_key c key (length (ht_table ht))
        in case table_ref c ht key of
             Some i \<Rightarrow>
               Some (Inr (ht\<lparr>ht_table := (ht_table ht)[i := (ht_table ht ! i)\<lparr>kv_value := value\<rparr>]\<rparr>))
           | None \<Rightarrow>
               (case first_free (ht_table ht) (probes (length (ht_table ht)) index) of
                  Some write \<Rightarrow>
                    let ht' = ht\<lparr>ht_table := (ht_table ht)[write := \<lparr>kv_key = key, kv_value = value\<rparr>],
                                 ht_count := ht_count ht + 1\<rparr>
                    in if over_threshold ht'
                       then (case rehash f c ht' True No_key of
                               None \<Rightarrow> None
                             | Some (Inl e) \<Rightarrow> Some (Inl e)
                             | Some (Inr (ht'', _)) \<Rightarrow> Some (Inr ht''))
                       else Some (Inr ht')
                | None \<Rightarrow>
                    (case rehash f c ht True No_key of
                       None \<Rightarrow> None
                     | Some (Inl e) \<Rightarrow> Some (Inl e)
                     | Some (Inr (ht', _)) \<Rightarrow> setf_gethash f c ht' key value)))"
| "rehash 0 c ht expand find_key = None"
| "rehash (Suc f) c ht expand find_key =
     (if new_size ht expand < 0 then Some (Inl Out_of_memory)
      else
        case reinsert f c (resize_empty_table (nat (new_size ht expand)) (ht\<lparr>ht_table := []\<rparr>))
               (ht_table ht) find_key None of
          None \<Rightarrow> None
        | Some (Inl e) \<Rightarrow> Some (Inl e)
        | Some (Inr (ht', found)) \<Rightarrow>
            Some (Inr (ht', (case found of None \<Rightarrow> None | Some key \<Rightarrow> table_ref c ht' key))))"
| "reinsert f c ht [] find_key found = Some (Inr (ht, found))"
| "reinsert f c ht (entry # entries) find_key found =
     (if kv_key entry = No_key \<or> kv_key entry = Deleted then reinsert f c ht entries find_key found
      else
        let found' = (if found = None \<and> find_key \<noteq> No_key \<and> key_test c (kv_key entry) find_key
                      then Some (kv_key entry) else found)
        in case setf_gethash f c ht (kv_key entry) (kv_value entry) of
             None \<Rightarrow> None
           | Some (Inl e) \<Rightarrow> Some (Inl e)
           | Some (Inr ht') \<Rightarrow> reinsert f c ht' entries find_key found')"

definition force_rehash :: "nat \<Rightarrow> 'a key_class \<Rightarrow> 'a hash_table \<Rightarrow> (hash_error + 'a hash_table) option" where
  "force_rehash f c ht =
     (case rehash f c ht False No_key of
        None \<Rightarrow> None
      | Some (Inl e) \<Rightarrow> Some (Inl e)
      | Some (Inr (ht', _)) \<Rightarrow> Some (Inr ht'))"

section \<open>Making a table\<close>

datatype table_test = Test_eq | Test_eql | Test_equal | Test_equalp | Test_other

datatype make_error = Weak_needs_eq | Weak_unsupported

datatype 'a made_table = Weak_table | Made table_test "'a hash_table"

text \<open>
  The weakness is \<open>Some True\<close> for \<open>:key\<close>.  The size goes through a 32-bit integer;
  the table of the EQL class replaces a size of zero again.
\<close>

definition make_hash_table ::
  "table_test \<Rightarrow> nat \<Rightarrow> rehash_number \<Rightarrow> double \<Rightarrow> bool option \<Rightarrow> (make_error, 'a made_table) res" where
  "make_hash_table test sz rehash_size rehash_threshold weakness =
     (case weakness of
        Some True \<Rightarrow> if test = Test_eq then Inr Weak_table else Inl Weak_needs_eq
      | Some False \<Rightarrow> Inl Weak_unsupported
      | None \<Rightarrow>
          (let isize = (if sz = 0 then 16 else sz);
               isize' = (if test = Test_eql \<and> isize mod 2 ^ 32 = 0 then 16 else isize)
           in Inr (Made test (create_hash_table isize' rehash_size (maybe_fix_rehash_threshold rehash_threshold)))))"

section \<open>Walking a table\<close>

definition live_entries :: "'a hash_table \<Rightarrow> 'a key_value_pair list" where
  "live_entries ht = filter is_live (ht_table ht)"

definition map_hash :: "('a tsp \<Rightarrow> 'a tsp \<Rightarrow> 's \<Rightarrow> 's) \<Rightarrow> 'a hash_table \<Rightarrow> 's \<Rightarrow> 's" where
  "map_hash fn ht = fold (\<lambda>entry. fn (kv_key entry) (kv_value entry)) (live_entries ht)"

fun while_true :: "('a tsp \<Rightarrow> 'a tsp \<Rightarrow> bool) \<Rightarrow> 'a key_value_pair list \<Rightarrow> bool" where
  "while_true fn [] = True"
| "while_true fn (entry # entries) =
     (if is_live entry
      then (if fn (kv_key entry) (kv_value entry) then while_true fn entries else False)
      else while_true fn entries)"

definition map_while_true :: "('a tsp \<Rightarrow> 'a tsp \<Rightarrow> bool) \<Rightarrow> 'a hash_table \<Rightarrow> bool" where
  "map_while_true fn ht = while_true fn (ht_table ht)"

definition keys_as_cons :: "'a hash_table \<Rightarrow> 'a tsp list" where
  "keys_as_cons ht = map_hash (\<lambda>key val res. key # res) ht []"

fun count_live :: "'a key_value_pair list \<Rightarrow> nat" where
  "count_live [] = 0"
| "count_live (entry # entries) = (if is_live entry then Suc (count_live entries) else count_live entries)"

definition calculate_hash_table_count :: "'a hash_table \<Rightarrow> nat" where
  "calculate_hash_table_count ht = count_live (ht_table ht)"

text \<open>The vector of keys and values is allocated from the count and filled by the walk.\<close>

definition hash_table_pairs :: "'a tsp \<Rightarrow> 'a hash_table \<Rightarrow> 'a tsp list" where
  "hash_table_pairs nil ht =
     write_list (replicate (ht_count ht * 2) nil) 0
       (concat (map (\<lambda>entry. [kv_key entry, kv_value entry]) (live_entries ht)))"

definition hash_table_bucket :: "'a hash_table \<Rightarrow> nat \<Rightarrow> ('a tsp \<times> 'a tsp) option" where
  "hash_table_bucket ht index =
     (let entry = ht_table ht ! index
      in if kv_key entry \<noteq> No_key \<and> kv_value entry \<noteq> Deleted then Some (kv_key entry, kv_value entry) else None)"

text \<open>Sum and number of the distances of the entries from the index of their key.\<close>

definition slot_delta :: "'a key_class \<Rightarrow> 'a hash_table \<Rightarrow> nat \<Rightarrow> nat" where
  "slot_delta c ht it =
     (let index = sxhash_key c (kv_key (ht_table ht ! it)) (length (ht_table ht))
      in if index > it then (it + length (ht_table ht)) - index else it - index)"

definition average_search_length :: "'a key_class \<Rightarrow> 'a hash_table \<Rightarrow> (nat \<times> nat) option" where
  "average_search_length c ht =
     (let its = filter (\<lambda>it. is_live (ht_table ht ! it)) [0..<length (ht_table ht)]
      in if its = [] then None else Some (sum_list (map (slot_delta c ht) its), length its))"

text \<open>EQUALP of two tables that are different objects; the test of each is given.\<close>

definition hash_table_equalp ::
  "('a tsp \<Rightarrow> 'a tsp \<Rightarrow> bool) \<Rightarrow> 'a tsp \<Rightarrow> 'a key_class \<Rightarrow> table_test \<Rightarrow> 'a hash_table \<Rightarrow>
   table_test \<Rightarrow> 'a hash_table \<Rightarrow> bool" where
  "hash_table_equalp equalp nil c test ht other_test other \<longleftrightarrow>
     (if test \<noteq> other_test then False
      else if ht_count ht \<noteq> ht_count other then False
      else map_while_true (\<lambda>key val. equalp val (fst (gethash c other key nil))) ht)"

section \<open>Writing a table out and reading it back\<close>

definition save_pairs :: "'a tsp \<Rightarrow> 'a hash_table \<Rightarrow> 'a tsp list" where
  "save_pairs nil ht =
     write_list (replicate (2 * ht_count ht) nil) 0
       (map_hash (\<lambda>key val res. res @ [key, val]) ht [])"

fun load_pairs ::
  "nat \<Rightarrow> 'a key_class \<Rightarrow> 'a hash_table \<Rightarrow> 'a tsp list \<Rightarrow> (hash_error + 'a hash_table) option" where
  "load_pairs f c ht (key # val # vec) =
     (case setf_gethash f c ht key val of
        None \<Rightarrow> None
      | Some (Inl e) \<Rightarrow> Some (Inl e)
      | Some (Inr ht') \<Rightarrow> load_pairs f c ht' vec)"
| "load_pairs f c ht vec = Some (Inr ht)"

definition load_fields :: "nat \<Rightarrow> 'a key_class \<Rightarrow> 'a hash_table \<Rightarrow> 'a tsp list \<Rightarrow> (hash_error + 'a hash_table) option" where
  "load_fields f c ht vec = load_pairs f c (clrhash ht) vec"

end
