(* ===== verification/HashOk.thy ===== *)
theory HashOk
  imports HashTables
begin

text \<open>
  The invariant of a hash table and the search: under the laws of a key class,
  searching for an object finds the one live entry whose key tests equal to it.
\<close>

section \<open>Key classes\<close>

locale hashing =
  fixes c :: "'a key_class"
  assumes test_refl: "key_test c (Obj x) (Obj x)"
    and test_sym: "key_test c (Obj x) (Obj y) \<Longrightarrow> key_test c (Obj y) (Obj x)"
    and test_trans: "key_test c (Obj x) (Obj y) \<Longrightarrow> key_test c (Obj y) (Obj z) \<Longrightarrow> key_test c (Obj x) (Obj z)"
    and hash_respects: "key_test c (Obj x) (Obj y) \<Longrightarrow> raw_hash c (Obj x) = raw_hash c (Obj y)"
    and eq_search_eq: "eq_search c \<Longrightarrow> key_test c (Obj x) (Obj y) \<longleftrightarrow> x = y"

section \<open>Slots in probing order\<close>

lemma set_probes: "index < sz \<Longrightarrow> set (probes sz index) = {0..<sz}"
  by (auto simp: probes_def)

lemma distinct_probes: "distinct (probes sz index)"
  by (simp add: probes_def)

lemma sxhash_key_less: "0 < sz \<Longrightarrow> sxhash_key c key sz < sz"
  by (simp add: sxhash_key_def)

lemma is_live_iff: "is_live e \<longleftrightarrow> (\<exists>x. kv_key e = Obj x)"
  by (cases "kv_key e") (auto simp: is_live_def)

lemma live_free_entry [simp]: "\<not> is_live free_entry"
  by (simp add: is_live_def)

abbreviation before :: "nat \<Rightarrow> nat list \<Rightarrow> nat set" where
  "before i cs \<equiv> set (takeWhile (\<lambda>j. j \<noteq> i) cs)"

lemma search_slots_Some:
  "search_slots test table key cs = Some i \<Longrightarrow> i \<in> set cs \<and> is_live (table ! i) \<and> test (kv_key (table ! i)) key"
  by (induction cs) (auto simp: Let_def is_live_def split: if_splits)

lemma search_slots_hit:
  assumes "i \<in> set cs" "is_live (table ! i)" "test (kv_key (table ! i)) key"
    and "\<And>j. j \<in> before i cs \<Longrightarrow> kv_key (table ! j) \<noteq> No_key"
    and "\<And>j. j \<in> set cs \<Longrightarrow> is_live (table ! j) \<Longrightarrow> test (kv_key (table ! j)) key \<Longrightarrow> j = i"
  shows "search_slots test table key cs = Some i"
  using assms
proof (induction cs)
  case (Cons cur cs)
  show ?case
  proof (cases "cur = i")
    case True
    then show ?thesis using Cons.prems(2,3) by (simp add: Let_def is_live_def)
  next
    case False
    then have "kv_key (table ! cur) \<noteq> No_key" using Cons.prems(4)[of cur] by simp
    moreover have "kv_key (table ! cur) = Deleted \<or> \<not> test (kv_key (table ! cur)) key"
      using Cons.prems(5)[of cur] False calculation by (auto simp: is_live_def)
    moreover have "search_slots test table key cs = Some i"
    proof (rule Cons.IH)
      show "i \<in> set cs" using Cons.prems(1) False by simp
      show "is_live (table ! i)" "test (kv_key (table ! i)) key" by fact+
      show "kv_key (table ! j) \<noteq> No_key" if "j \<in> before i cs" for j
        using Cons.prems(4)[of j] that False by simp
      show "j = i" if "j \<in> set cs" "is_live (table ! j)" "test (kv_key (table ! j)) key" for j
        using Cons.prems(5)[of j] that by simp
    qed
    ultimately show ?thesis by (auto simp: Let_def)
  qed
next
  case Nil
  show ?case using Nil.prems(1) by simp
qed

lemma eq_search_slots_eq:
  assumes "\<And>k. k \<noteq> No_key \<Longrightarrow> k \<noteq> Deleted \<Longrightarrow> test k (Obj x) \<longleftrightarrow> k = Obj x"
  shows "eq_search_slots table (Obj x) cs = search_slots test table (Obj x) cs"
proof (induction cs)
  case (Cons cur cs)
  then show ?case using assms[of "kv_key (table ! cur)"] by (auto simp: Let_def)
qed simp

lemma first_free_Some:
  "first_free table cs = Some w \<Longrightarrow>
   w \<in> set cs \<and> \<not> is_live (table ! w) \<and> (\<forall>j \<in> before w cs. is_live (table ! j))"
  by (induction cs) (auto simp: is_live_def split: if_splits)

lemma first_free_None: "first_free table cs = None \<Longrightarrow> j \<in> set cs \<Longrightarrow> is_live (table ! j)"
  by (induction cs) (auto simp: is_live_def split: if_splits)

section \<open>Counting live entries\<close>

lemma count_live_filter: "count_live es = length (filter is_live es)"
  by (induction es) simp_all

lemma length_filter_update:
  assumes "i < length es"
  shows "length (filter P (es[i := e])) + (if P (es ! i) then 1 else 0)
       = length (filter P es) + (if P e then 1 else (0 :: nat))"
  using assms
proof (induction es arbitrary: i)
  case (Cons a es)
  then show ?case by (cases i) auto
qed simp

lemma all_live_count: "(\<And>j. j < length es \<Longrightarrow> is_live (es ! j)) \<Longrightarrow> length (filter is_live es) = length es"
  by (metis filter_True in_set_conv_nth)

section \<open>The invariant\<close>

definition in_reach :: "'a key_class \<Rightarrow> 'a key_value_pair list \<Rightarrow> nat \<Rightarrow> bool" where
  "in_reach c table i \<longleftrightarrow>
     (\<forall>j \<in> before i (probes (length table) (sxhash_key c (kv_key (table ! i)) (length table))).
        kv_key (table ! j) \<noteq> No_key)"

definition table_placed :: "'a key_class \<Rightarrow> 'a key_value_pair list \<Rightarrow> bool" where
  "table_placed c table \<longleftrightarrow> (\<forall>i < length table. is_live (table ! i) \<longrightarrow> in_reach c table i)"

definition table_distinct :: "'a key_class \<Rightarrow> 'a key_value_pair list \<Rightarrow> bool" where
  "table_distinct c table \<longleftrightarrow>
     (\<forall>i < length table. \<forall>j < length table.
        is_live (table ! i) \<and> is_live (table ! j) \<and> key_test c (kv_key (table ! i)) (kv_key (table ! j)) \<longrightarrow> i = j)"

definition threshold_ok :: "double \<Rightarrow> bool" where
  "threshold_ok d \<longleftrightarrow> 0 \<le> mantissa d \<and> \<not> double_less default_rehash_threshold d"

definition table_ok :: "'a key_class \<Rightarrow> 'a hash_table \<Rightarrow> bool" where
  "table_ok c ht \<longleftrightarrow>
     16 \<le> length (ht_table ht) \<and>
     ht_count ht = length (filter is_live (ht_table ht)) \<and>
     table_placed c (ht_table ht) \<and>
     table_distinct c (ht_table ht) \<and>
     threshold_ok (ht_rehash_threshold ht) \<and>
     \<not> over_threshold ht"

lemma table_okD:
  assumes "table_ok c ht"
  shows "16 \<le> length (ht_table ht)" "ht_count ht = length (filter is_live (ht_table ht))"
    "table_placed c (ht_table ht)" "table_distinct c (ht_table ht)"
    "threshold_ok (ht_rehash_threshold ht)" "\<not> over_threshold ht"
  using assms by (simp_all add: table_ok_def)

text \<open>What a table means: for each object the value stored under a key that tests equal to it.\<close>

definition entry_at :: "'a key_class \<Rightarrow> 'a key_value_pair list \<Rightarrow> 'a \<Rightarrow> nat \<Rightarrow> bool" where
  "entry_at c table x i \<longleftrightarrow> i < length table \<and> is_live (table ! i) \<and> key_test c (kv_key (table ! i)) (Obj x)"

definition ht_map :: "'a key_class \<Rightarrow> 'a hash_table \<Rightarrow> 'a \<Rightarrow> 'a tsp option" where
  "ht_map c ht x =
     map_option kv_value (find (\<lambda>e. is_live e \<and> key_test c (kv_key e) (Obj x)) (ht_table ht))"

lemma ht_map_None_iff: "ht_map c ht x = None \<longleftrightarrow> (\<forall>i. \<not> entry_at c (ht_table ht) x i)"
  by (auto simp: ht_map_def entry_at_def find_None_iff in_set_conv_nth)

context hashing
begin

lemma test_sym_iff: "key_test c (Obj x) (Obj y) \<longleftrightarrow> key_test c (Obj y) (Obj x)"
  using test_sym by blast

lemma entry_at_unique:
  assumes "table_distinct c table" "entry_at c table x i" "entry_at c table x j"
  shows "i = j"
proof -
  from assms(2,3) obtain k l where kl: "kv_key (table ! i) = Obj k" "kv_key (table ! j) = Obj l"
    by (auto simp: entry_at_def is_live_iff)
  have "key_test c (Obj k) (Obj x)" "key_test c (Obj l) (Obj x)" using assms(2,3) kl by (simp_all add: entry_at_def)
  then have "key_test c (Obj k) (Obj l)" using test_trans test_sym by blast
  then show ?thesis using assms kl by (simp add: entry_at_def table_distinct_def)
qed

lemma ht_map_entry:
  assumes "table_distinct c (ht_table ht)" "entry_at c (ht_table ht) x i"
  shows "ht_map c ht x = Some (kv_value (ht_table ht ! i))"
proof (cases "find (\<lambda>e. is_live e \<and> key_test c (kv_key e) (Obj x)) (ht_table ht)")
  case None
  then have "ht_map c ht x = None" by (simp add: ht_map_def)
  then show ?thesis using assms(2) by (simp add: ht_map_None_iff)
next
  case (Some e)
  then obtain j where "j < length (ht_table ht)" "e = ht_table ht ! j" "is_live e" "key_test c (kv_key e) (Obj x)"
    by (auto simp: find_Some_iff)
  then have "entry_at c (ht_table ht) x j" by (simp add: entry_at_def)
  then have "j = i" using entry_at_unique assms by blast
  then show ?thesis using Some \<open>e = ht_table ht ! j\<close> by (simp add: ht_map_def)
qed

lemma search_table_slots:
  "search_table c ht (Obj x) index = search_slots (key_test c) (ht_table ht) (Obj x) (probes (length (ht_table ht)) index)"
proof (cases "eq_search c")
  case True
  have "key_test c k (Obj x) \<longleftrightarrow> k = Obj x" if "k \<noteq> No_key" "k \<noteq> Deleted" for k
    using that eq_search_eq[OF True] by (cases k) auto
  then show ?thesis using True eq_search_slots_eq[of "key_test c" x] by (simp add: search_table_def)
qed (simp add: search_table_def)

lemma table_ref_Some:
  "table_ref c ht (Obj x) = Some i \<Longrightarrow> ht_table ht \<noteq> [] \<Longrightarrow> entry_at c (ht_table ht) x i"
  using set_probes[OF sxhash_key_less, of "length (ht_table ht)" c "Obj x"]
  by (auto simp: table_ref_def search_table_slots entry_at_def dest!: search_slots_Some)

lemma entry_at_table_ref:
  assumes "table_placed c (ht_table ht)" "table_distinct c (ht_table ht)" "entry_at c (ht_table ht) x i"
  shows "table_ref c ht (Obj x) = Some i"
proof -
  let ?t = "ht_table ht" and ?n = "length (ht_table ht)"
  have i: "i < ?n" "is_live (?t ! i)" "key_test c (kv_key (?t ! i)) (Obj x)"
    using assms(3) by (simp_all add: entry_at_def)
  obtain k where k: "kv_key (?t ! i) = Obj k" using i(2) by (auto simp: is_live_iff)
  have h: "sxhash_key c (kv_key (?t ! i)) ?n = sxhash_key c (Obj x) ?n"
    using i(3) hash_respects[of k x] by (simp add: k sxhash_key_def)
  have s: "set (probes ?n (sxhash_key c (Obj x) ?n)) = {0..<?n}"
    using i(1) by (intro set_probes sxhash_key_less) linarith
  show ?thesis
    unfolding table_ref_def search_table_slots
  proof (rule search_slots_hit)
    show "kv_key (?t ! j) \<noteq> No_key" if "j \<in> before i (probes ?n (sxhash_key c (Obj x) ?n))" for j
      using assms(1) i(1,2) that by (simp add: table_placed_def in_reach_def h)
    show "j = i" if "j \<in> set (probes ?n (sxhash_key c (Obj x) ?n))" "is_live (?t ! j)"
      "key_test c (kv_key (?t ! j)) (Obj x)" for j
      using that s assms(3) entry_at_unique[OF assms(2)] by (auto simp: entry_at_def)
  qed (use i s in auto)
qed

lemma table_ref_iff:
  assumes "table_ok c ht"
  shows "table_ref c ht (Obj x) = Some i \<longleftrightarrow> entry_at c (ht_table ht) x i"
proof
  have "ht_table ht \<noteq> []" using table_okD(1)[OF assms] by auto
  then show "entry_at c (ht_table ht) x i" if "table_ref c ht (Obj x) = Some i" using that by (rule table_ref_Some[rotated])
  show "table_ref c ht (Obj x) = Some i" if "entry_at c (ht_table ht) x i"
    using table_okD(3,4)[OF assms] that by (rule entry_at_table_ref)
qed

lemma table_ref_None_iff:
  assumes "table_ok c ht"
  shows "table_ref c ht (Obj x) = None \<longleftrightarrow> ht_map c ht x = None"
  using table_ref_iff[OF assms, of x] unfolding ht_map_None_iff
  by (metis not_None_eq)

lemma gethash_map:
  assumes "table_ok c ht"
  shows "gethash c ht (Obj x) d =
    (case ht_map c ht x of
       None \<Rightarrow> (d, False)
     | Some v \<Rightarrow> if v = No_key then (d, False) else (v, True))"
proof (cases "table_ref c ht (Obj x)")
  case None
  then have "ht_map c ht x = None" using table_ref_None_iff[OF assms] by simp
  with None show ?thesis by (simp add: gethash_def)
next
  case (Some i)
  then show ?thesis
    using table_ref_iff[OF assms, of x i] ht_map_entry[OF table_okD(4)[OF assms]]
    by (simp add: gethash_def Let_def)
qed

end

end
