(* ===== verification/HashKeys.thy ===== *)
theory HashKeys
  imports HashOk
begin

unbundle bit_operations_syntax

text \<open>
  The keys of hash tables: the hash generator, the hash codes of the EQ, EQL,
  EQUAL and EQUALP tables, and the tests that go with them.  Objects that test
  equal have the same hash code, so the three tables are key classes.
\<close>

section \<open>Objects\<close>

text \<open>
  An object is its address together with its contents when it is hashed or
  compared, so two pointers are the same pointer exactly when these are equal.
  Floats are bit patterns, strings character codes; what is compared by identity
  is an \<open>Instance\<close>.
\<close>

datatype lobj =
    Fixnum int
  | Single_float "32 word"
  | Character nat
  | Cons_cell nat lobj lobj
  | Bignum nat int
  | Double_float nat "64 word"
  | Ratio nat lobj lobj
  | Complex nat lobj lobj
  | Lstring nat "nat list"
  | Bit_vector nat "bool list"
  | Symbol nat
  | Instance nat

text \<open>
  What hashing asks the memory manager and the symbols: badges of addresses, the
  home package and the name of a symbol, and the raw bits of the two markers.
  Converting a float that does not fit an integer is undefined in C++; the value
  it yields is a field too.
\<close>

record henv =
  general_badge :: "nat \<Rightarrow> 32 word"
  cons_badge :: "nat \<Rightarrow> 32 word"
  sym_home :: "nat \<Rightarrow> nat option"
  sym_name_of :: "nat \<Rightarrow> nat list"
  nil_home :: nat
  marker_bits :: "lobj tsp \<Rightarrow> 64 word"
  wild_integer :: "double option \<Rightarrow> 64 word"
  upcase_char :: "nat \<Rightarrow> nat"

section \<open>The hash generator\<close>

record hash_generator =
  hg_depth :: nat
  hg_parts :: "64 word list"

definition new_generator :: hash_generator where
  "new_generator = \<lparr>hg_depth = 0, hg_parts = []\<rparr>"

definition is_filling :: "hash_generator \<Rightarrow> bool" where
  "is_filling hg \<longleftrightarrow> length (hg_parts hg) < 32 \<or> 8 \<le> hg_depth hg"

definition is_full :: "hash_generator \<Rightarrow> bool" where
  "is_full hg \<longleftrightarrow> 32 \<le> length (hg_parts hg)"

definition add_value :: "64 word \<Rightarrow> hash_generator \<Rightarrow> hash_generator" where
  "add_value part hg = (if is_full hg then hg else hg\<lparr>hg_parts := hg_parts hg @ [part]\<rparr>)"

definition add_value0 :: "64 word \<Rightarrow> hash_generator \<Rightarrow> hash_generator" where
  "add_value0 part hg = hg\<lparr>hg_parts := [part]\<rparr>"

definition golden_ratio :: u64 where
  "golden_ratio = 0x9e3779b97f4a7c13"

definition mix_round :: "nat \<Rightarrow> nat \<Rightarrow> nat \<Rightarrow> u64 \<times> u64 \<times> u64 \<Rightarrow> u64 \<times> u64 \<times> u64" where
  "mix_round i j k t =
     (let (a, b, c) = t;
          a = (a - b - c) XOR drop_bit i c;
          b = (b - c - a) XOR push_bit j a;
          c = (c - a - b) XOR drop_bit k b
      in (a, b, c))"

definition clasp_hash_mix :: "u64 \<times> u64 \<times> u64 \<Rightarrow> u64 \<times> u64 \<times> u64" where
  "clasp_hash_mix t = mix_round 12 18 22 (mix_round 35 49 11 (mix_round 38 23 5 (mix_round 43 9 8 t)))"

definition hash_word :: "u64 \<Rightarrow> u64 \<Rightarrow> u64" where
  "hash_word c w = snd (snd (clasp_hash_mix (w + golden_ratio, golden_ratio, c)))"

definition most_positive_fixnum :: u64 where
  "most_positive_fixnum = 2305843009213693951"

definition rawhash :: "hash_generator \<Rightarrow> u64" where
  "rawhash hg = fold (\<lambda>part hash. hash_word hash part) (hg_parts hg) 5381 AND most_positive_fixnum"

section \<open>Numbers, strings and bit vectors\<close>

definition decode_float :: "nat \<Rightarrow> nat \<Rightarrow> int \<Rightarrow> double option" where
  "decode_float mant_bits expo_bits w =
     (let frac = w mod 2 ^ mant_bits;
          e = w div 2 ^ mant_bits mod 2 ^ expo_bits;
          s = (if w div 2 ^ (mant_bits + expo_bits) mod 2 = 1 then - 1 else 1);
          bias = 2 ^ (expo_bits - 1) - 1 + int mant_bits
      in if e = 2 ^ expo_bits - 1 then None
         else if e = 0 then Some \<lparr>mantissa = s * frac, expo = 1 - bias\<rparr>
         else Some \<lparr>mantissa = s * (frac + 2 ^ mant_bits), expo = e - bias\<rparr>)"

definition decode_single :: "32 word \<Rightarrow> double option" where
  "decode_single w = decode_float 23 8 (uint w)"

definition decode_double :: "64 word \<Rightarrow> double option" where
  "decode_double w = decode_float 52 11 (uint w)"

definition floor_double :: "double \<Rightarrow> int" where
  "floor_double d =
     (if 0 \<le> expo d then mantissa d * 2 ^ nat (expo d) else mantissa d div 2 ^ nat (- expo d))"

definition abs_floor :: "henv \<Rightarrow> double option \<Rightarrow> 64 word" where
  "abs_floor env d =
     (case d of
        None \<Rightarrow> wild_integer env None
      | Some x \<Rightarrow>
          (let v = \<bar>floor_double x\<bar> in if v < 2 ^ 63 then word_of_int v else wild_integer env d))"

text \<open>The conversion inside \<open>clasp_sxhash\<close> goes through a 32-bit integer.\<close>

definition abs_int_floor :: "henv \<Rightarrow> double option \<Rightarrow> 64 word" where
  "abs_int_floor env d =
     (case d of
        None \<Rightarrow> wild_integer env None
      | Some x \<Rightarrow>
          (let v = floor_double x in if - (2 ^ 31) < v \<and> v < 2 ^ 31 then word_of_int \<bar>v\<bar> else wild_integer env d))"

fun limbs :: "nat \<Rightarrow> 64 word list" where
  "limbs n = (if n = 0 then [] else word_of_nat (n mod 2 ^ 64) # limbs (n div 2 ^ 64))"

declare limbs.simps [simp del]

definition bignum_length :: "int \<Rightarrow> int" where
  "bignum_length v = sgn v * int (length (limbs (nat \<bar>v\<bar>)))"

definition sxhash_bignum :: "int \<Rightarrow> hash_generator \<Rightarrow> hash_generator" where
  "sxhash_bignum v hg = fold add_value (word_of_int (bignum_length v) # limbs (nat \<bar>v\<bar>)) hg"

definition ranged_sxhash :: "nat list \<Rightarrow> hash_generator \<Rightarrow> hash_generator" where
  "ranged_sxhash cs hg =
     (if is_filling hg
      then add_value (fold (\<lambda>c hash. push_bit 5 hash + hash + word_of_nat c) cs 5381) hg
      else hg)"

section \<open>Hash codes\<close>

text \<open>\<open>hashObject\<close> on the parts of numbers and conses: one level deeper, unless that is too deep.\<close>

definition deeper :: "(hash_generator \<Rightarrow> hash_generator) \<Rightarrow> hash_generator \<Rightarrow> hash_generator" where
  "deeper f hg =
     (let depth = hg_depth hg;
          hg1 = hg\<lparr>hg_depth := depth + 1\<rparr>;
          hg2 = (if hg_depth hg1 < 8 then f hg1 else hg1)
      in hg2\<lparr>hg_depth := depth\<rparr>)"

definition when_filling :: "(hash_generator \<Rightarrow> hash_generator) \<Rightarrow> hash_generator \<Rightarrow> hash_generator" where
  "when_filling f hg = (if is_filling hg then f hg else hg)"

primrec clasp_sxhash :: "henv \<Rightarrow> lobj \<Rightarrow> hash_generator \<Rightarrow> hash_generator" where
  "clasp_sxhash env (Fixnum i) hg = add_value (word_of_int i) hg"
| "clasp_sxhash env (Single_float w) hg = add_value (abs_int_floor env (decode_single w)) hg"
| "clasp_sxhash env (Character ch) hg = add_value (word_of_nat ch) hg"
| "clasp_sxhash env (Cons_cell a car cdr) hg =
     when_filling (deeper (clasp_sxhash env cdr)) (when_filling (deeper (clasp_sxhash env car)) hg)"
| "clasp_sxhash env (Bignum a v) hg = sxhash_bignum v hg"
| "clasp_sxhash env (Double_float a w) hg = add_value (abs_floor env (decode_double w)) hg"
| "clasp_sxhash env (Ratio a num den) hg =
     when_filling (deeper (clasp_sxhash env den)) (when_filling (deeper (clasp_sxhash env num)) hg)"
| "clasp_sxhash env (Complex a re im) hg =
     when_filling (deeper (clasp_sxhash env im)) (when_filling (deeper (clasp_sxhash env re)) hg)"
| "clasp_sxhash env (Lstring a cs) hg = ranged_sxhash cs hg"
| "clasp_sxhash env (Bit_vector a bs) hg = ranged_sxhash (map of_bool bs) hg"
| "clasp_sxhash env (Symbol a) hg = when_filling (ranged_sxhash (sym_name_of env a)) hg"
| "clasp_sxhash env (Instance a) hg = when_filling (add_value (ucast (general_badge env a))) hg"

definition hash_object :: "henv \<Rightarrow> lobj \<Rightarrow> hash_generator \<Rightarrow> hash_generator" where
  "hash_object env obj = deeper (clasp_sxhash env obj)"

definition address_of :: "lobj \<Rightarrow> nat" where
  "address_of obj =
     (case obj of
        Cons_cell a _ _ \<Rightarrow> a | Bignum a _ \<Rightarrow> a | Double_float a _ \<Rightarrow> a | Ratio a _ _ \<Rightarrow> a | Complex a _ _ \<Rightarrow> a
      | Lstring a _ \<Rightarrow> a | Bit_vector a _ \<Rightarrow> a | Symbol a \<Rightarrow> a | Instance a \<Rightarrow> a | _ \<Rightarrow> 0)"

text \<open>The raw bits of an immediate: fixnums shifted over two tag bits, the others over the three bits of their tag.\<close>

definition immediate_bits :: "lobj \<Rightarrow> 64 word" where
  "immediate_bits obj =
     (case obj of
        Fixnum i \<Rightarrow> push_bit 2 (word_of_int i)
      | Single_float w \<Rightarrow> push_bit 3 (ucast w) OR 6
      | Character ch \<Rightarrow> push_bit 3 (word_of_nat ch) OR 2
      | _ \<Rightarrow> 0)"

definition is_number :: "lobj \<Rightarrow> bool" where
  "is_number obj =
     (case obj of
        Fixnum _ \<Rightarrow> True | Single_float _ \<Rightarrow> True | Bignum _ _ \<Rightarrow> True | Double_float _ _ \<Rightarrow> True
      | Ratio _ _ _ \<Rightarrow> True | Complex _ _ _ \<Rightarrow> True | _ \<Rightarrow> False)"

definition sxhash_eq :: "henv \<Rightarrow> lobj \<Rightarrow> hash_generator \<Rightarrow> hash_generator" where
  "sxhash_eq env obj hg =
     (case obj of
        Fixnum _ \<Rightarrow> add_value (immediate_bits obj) hg
      | Single_float _ \<Rightarrow> add_value (immediate_bits obj) hg
      | Character _ \<Rightarrow> add_value (immediate_bits obj) hg
      | Cons_cell a _ _ \<Rightarrow> add_value (ucast (cons_badge env a)) hg
      | _ \<Rightarrow> add_value (ucast (general_badge env (address_of obj))) hg)"

definition sxhash_eql :: "henv \<Rightarrow> lobj \<Rightarrow> hash_generator \<Rightarrow> hash_generator" where
  "sxhash_eql env obj hg =
     (case obj of
        Fixnum i \<Rightarrow> add_value0 (word_of_int i) hg
      | Single_float w \<Rightarrow> add_value0 (abs_floor env (decode_single w)) hg
      | Character ch \<Rightarrow> add_value0 (word_of_nat ch) hg
      | Cons_cell a _ _ \<Rightarrow> add_value (ucast (cons_badge env a)) hg
      | _ \<Rightarrow>
          if is_number obj then hash_object env obj hg
          else add_value (ucast (general_badge env (address_of obj))) hg)"

text \<open>A symbol of an EQUAL table: its home package, or NIL when it has none, and then its name.\<close>

definition nil_name :: "nat list" where
  "nil_name = [78, 73, 76]"

definition sxhash_equal_package :: "henv \<Rightarrow> nat \<Rightarrow> hash_generator \<Rightarrow> hash_generator" where
  "sxhash_equal_package env p = when_filling (add_value (ucast (general_badge env p)))"

definition sxhash_equal_symbol :: "henv \<Rightarrow> nat \<Rightarrow> hash_generator \<Rightarrow> hash_generator" where
  "sxhash_equal_symbol env a hg =
     when_filling (when_filling (ranged_sxhash (sym_name_of env a)))
       (when_filling
         (\<lambda>hg. case sym_home env a of
            Some p \<Rightarrow> sxhash_equal_package env p hg
          | None \<Rightarrow>
              when_filling (when_filling (ranged_sxhash nil_name))
                (when_filling (sxhash_equal_package env (nil_home env)) hg)) hg)"

primrec sxhash_equal :: "henv \<Rightarrow> lobj \<Rightarrow> hash_generator \<Rightarrow> hash_generator" where
  "sxhash_equal env (Fixnum i) hg = when_filling (add_value (word_of_int i)) hg"
| "sxhash_equal env (Single_float w) hg = when_filling (add_value (abs_floor env (decode_single w))) hg"
| "sxhash_equal env (Character ch) hg = when_filling (add_value (word_of_nat ch)) hg"
| "sxhash_equal env (Cons_cell a car cdr) hg =
     when_filling (sxhash_equal env cdr) (when_filling (sxhash_equal env car) hg)"
| "sxhash_equal env (Bignum a v) hg = hash_object env (Bignum a v) hg"
| "sxhash_equal env (Double_float a w) hg = hash_object env (Double_float a w) hg"
| "sxhash_equal env (Ratio a num den) hg = hash_object env (Ratio a num den) hg"
| "sxhash_equal env (Complex a re im) hg = hash_object env (Complex a re im) hg"
| "sxhash_equal env (Lstring a cs) hg = when_filling (ranged_sxhash cs) hg"
| "sxhash_equal env (Bit_vector a bs) hg = when_filling (ranged_sxhash (map of_bool bs)) hg"
| "sxhash_equal env (Symbol a) hg = sxhash_equal_symbol env a hg"
| "sxhash_equal env (Instance a) hg = when_filling (add_value (ucast (general_badge env a))) hg"

primrec sxhash_equalp :: "henv \<Rightarrow> lobj \<Rightarrow> hash_generator \<Rightarrow> hash_generator" where
  "sxhash_equalp env (Fixnum i) hg = when_filling (add_value (word_of_int i)) hg"
| "sxhash_equalp env (Single_float w) hg = when_filling (add_value (abs_floor env (decode_single w))) hg"
| "sxhash_equalp env (Character ch) hg = when_filling (add_value (word_of_nat (upcase_char env ch))) hg"
| "sxhash_equalp env (Cons_cell a car cdr) hg =
     when_filling (sxhash_equalp env cdr) (when_filling (sxhash_equalp env car) hg)"
| "sxhash_equalp env (Bignum a v) hg = when_filling (hash_object env (Bignum a v)) hg"
| "sxhash_equalp env (Double_float a w) hg = when_filling (hash_object env (Double_float a w)) hg"
| "sxhash_equalp env (Ratio a num den) hg = when_filling (hash_object env (Ratio a num den)) hg"
| "sxhash_equalp env (Complex a re im) hg = when_filling (hash_object env (Complex a re im)) hg"
| "sxhash_equalp env (Lstring a cs) hg = hash_object env (Lstring a (map (upcase_char env) cs)) hg"
| "sxhash_equalp env (Bit_vector a bs) hg =
     fold (\<lambda>b. when_filling (add_value (of_bool b))) bs hg"
| "sxhash_equalp env (Symbol a) hg = sxhash_equal_symbol env a hg"
| "sxhash_equalp env (Instance a) hg = when_filling (add_value (ucast (general_badge env a))) hg"

text \<open>\<open>hash-eql\<close> and \<open>hash-equal\<close> of several objects; the first stops when the generator no longer fills.\<close>

fun hash_eql :: "henv \<Rightarrow> lobj list \<Rightarrow> hash_generator \<Rightarrow> u64" where
  "hash_eql env [] hg = rawhash hg"
| "hash_eql env (obj # objs) hg =
     (let hg' = sxhash_eql env obj hg in if is_filling hg' then hash_eql env objs hg' else rawhash hg')"

fun hash_equal :: "henv \<Rightarrow> lobj list \<Rightarrow> hash_generator \<Rightarrow> u64" where
  "hash_equal env [] hg = rawhash hg"
| "hash_equal env (obj # objs) hg =
     (let hg' = sxhash_equal env obj hg in if is_full hg' then rawhash hg' else hash_equal env objs hg')"

fun hash_equalp :: "henv \<Rightarrow> lobj list \<Rightarrow> hash_generator \<Rightarrow> u64" where
  "hash_equalp env [] hg = rawhash hg"
| "hash_equalp env (obj # objs) hg =
     (let hg' = sxhash_equalp env obj hg in if is_full hg' then rawhash hg' else hash_equalp env objs hg')"

section \<open>Tests\<close>

primrec cl_eql :: "lobj \<Rightarrow> lobj \<Rightarrow> bool" where
  "cl_eql (Fixnum i) y \<longleftrightarrow> Fixnum i = y"
| "cl_eql (Single_float w) y \<longleftrightarrow> (case y of Single_float w' \<Rightarrow> w = w' | _ \<Rightarrow> False)"
| "cl_eql (Character ch) y \<longleftrightarrow> (case y of Character ch' \<Rightarrow> ch = ch' | _ \<Rightarrow> False)"
| "cl_eql (Cons_cell a car cdr) y \<longleftrightarrow> Cons_cell a car cdr = y"
| "cl_eql (Bignum a v) y \<longleftrightarrow>
     Bignum a v = y \<or>
     (case y of Bignum b u \<Rightarrow> bignum_length v = bignum_length u \<and> limbs (nat \<bar>v\<bar>) = limbs (nat \<bar>u\<bar>) | _ \<Rightarrow> False)"
| "cl_eql (Double_float a w) y \<longleftrightarrow>
     Double_float a w = y \<or> (case y of Double_float b w' \<Rightarrow> w = w' | _ \<Rightarrow> False)"
| "cl_eql (Ratio a num den) y \<longleftrightarrow>
     Ratio a num den = y \<or> (case y of Ratio b num' den' \<Rightarrow> cl_eql num num' \<and> cl_eql den den' | _ \<Rightarrow> False)"
| "cl_eql (Complex a re im) y \<longleftrightarrow>
     Complex a re im = y \<or> (case y of Complex b re' im' \<Rightarrow> cl_eql re re' \<and> cl_eql im im' | _ \<Rightarrow> False)"
| "cl_eql (Lstring a cs) y \<longleftrightarrow> Lstring a cs = y"
| "cl_eql (Bit_vector a bs) y \<longleftrightarrow> Bit_vector a bs = y"
| "cl_eql (Symbol a) y \<longleftrightarrow> Symbol a = y"
| "cl_eql (Instance a) y \<longleftrightarrow> Instance a = y"

primrec cl_equal :: "lobj \<Rightarrow> lobj \<Rightarrow> bool" where
  "cl_equal (Fixnum i) y \<longleftrightarrow> Fixnum i = y"
| "cl_equal (Single_float w) y \<longleftrightarrow> (case y of Single_float w' \<Rightarrow> w = w' | _ \<Rightarrow> False)"
| "cl_equal (Character ch) y \<longleftrightarrow> (case y of Character ch' \<Rightarrow> ch = ch' | _ \<Rightarrow> False)"
| "cl_equal (Cons_cell a car cdr) y \<longleftrightarrow>
     (case y of
        Cons_cell b car' cdr' \<Rightarrow>
          if Cons_cell a car cdr = y then True else cl_equal car car' \<and> cl_equal cdr cdr'
      | _ \<Rightarrow> False)"
| "cl_equal (Bignum a v) y \<longleftrightarrow> Bignum a v = y \<or> cl_eql (Bignum a v) y"
| "cl_equal (Double_float a w) y \<longleftrightarrow> Double_float a w = y \<or> cl_eql (Double_float a w) y"
| "cl_equal (Ratio a num den) y \<longleftrightarrow> Ratio a num den = y \<or> cl_eql (Ratio a num den) y"
| "cl_equal (Complex a re im) y \<longleftrightarrow> Complex a re im = y \<or> cl_eql (Complex a re im) y"
| "cl_equal (Lstring a cs) y \<longleftrightarrow> Lstring a cs = y \<or> (case y of Lstring b cs' \<Rightarrow> cs = cs' | _ \<Rightarrow> False)"
| "cl_equal (Bit_vector a bs) y \<longleftrightarrow> Bit_vector a bs = y \<or> (case y of Bit_vector b bs' \<Rightarrow> bs = bs' | _ \<Rightarrow> False)"
| "cl_equal (Symbol a) y \<longleftrightarrow> Symbol a = y"
| "cl_equal (Instance a) y \<longleftrightarrow> Instance a = y"

section \<open>The key classes of the tables\<close>

definition obj_test :: "(lobj \<Rightarrow> lobj \<Rightarrow> bool) \<Rightarrow> lobj tsp \<Rightarrow> lobj tsp \<Rightarrow> bool" where
  "obj_test test x y = (case (x, y) of (Obj a, Obj b) \<Rightarrow> test a b | _ \<Rightarrow> False)"

definition obj_hash :: "henv \<Rightarrow> (lobj \<Rightarrow> hash_generator \<Rightarrow> hash_generator) \<Rightarrow> lobj tsp \<Rightarrow> nat" where
  "obj_hash env sxhash x =
     unat (rawhash (case x of Obj a \<Rightarrow> sxhash a new_generator | _ \<Rightarrow> add_value (marker_bits env x) new_generator))"

definition eq_class :: "henv \<Rightarrow> lobj key_class" where
  "eq_class env = \<lparr>key_test = (=), raw_hash = obj_hash env (sxhash_eq env), eq_search = True\<rparr>"

definition eql_class :: "henv \<Rightarrow> lobj key_class" where
  "eql_class env = \<lparr>key_test = obj_test cl_eql, raw_hash = obj_hash env (sxhash_eql env), eq_search = False\<rparr>"

definition equal_class :: "henv \<Rightarrow> lobj key_class" where
  "equal_class env = \<lparr>key_test = obj_test cl_equal, raw_hash = obj_hash env (sxhash_equal env), eq_search = False\<rparr>"

end
