(* ===== verification/HashRefine.thy ===== *)
theory HashRefine
  imports HashOk
begin

text \<open>
  The operations of a hash table keep its invariant and act on the map the
  table stands for as lookup, update and deletion do.
\<close>

section \<open>Changing one slot\<close>

definition map_put :: "'a key_class \<Rightarrow> ('a \<Rightarrow> 'a tsp option) \<Rightarrow> 'a \<Rightarrow> 'a tsp option \<Rightarrow> 'a \<Rightarrow> 'a tsp option" where
  "map_put c m x v = (\<lambda>y. if key_test c (Obj x) (Obj y) then v else m y)"

text \<open>The invariant without the bound on the count: what holds between an insertion and the rehash it causes.\<close>

definition struct_ok :: "'a key_class \<Rightarrow> 'a hash_table \<Rightarrow> bool" where
  "struct_ok c ht \<longleftrightarrow>
     16 \<le> length (ht_table ht) \<and> ht_count ht = length (filter is_live (ht_table ht)) \<and>
     table_placed c (ht_table ht) \<and> table_distinct c (ht_table ht) \<and> threshold_ok (ht_rehash_threshold ht)"

lemma table_ok_iff: "table_ok c ht \<longleftrightarrow> struct_ok c ht \<and> \<not> over_threshold ht"
  by (auto simp: table_ok_def struct_ok_def)

lemma struct_size: "struct_ok c ht \<Longrightarrow> 16 \<le> length (ht_table ht)"
  by (simp add: struct_ok_def)

definition same_parameters :: "'a hash_table \<Rightarrow> 'a hash_table \<Rightarrow> bool" where
  "same_parameters ht ht' \<longleftrightarrow>
     ht_rehash_size ht' = ht_rehash_size ht \<and> ht_rehash_threshold ht' = ht_rehash_threshold ht"

lemma same_parameters_refl [simp]: "same_parameters ht ht"
  by (simp add: same_parameters_def)

lemma same_parameters_trans: "same_parameters a b \<Longrightarrow> same_parameters b d \<Longrightarrow> same_parameters a d"
  by (simp add: same_parameters_def)

definition set_value :: "nat \<Rightarrow> 'a tsp \<Rightarrow> 'a hash_table \<Rightarrow> 'a hash_table" where
  "set_value i v ht = ht\<lparr>ht_table := (ht_table ht)[i := (ht_table ht ! i)\<lparr>kv_value := v\<rparr>]\<rparr>"

definition place_new :: "nat \<Rightarrow> 'a tsp \<Rightarrow> 'a tsp \<Rightarrow> 'a hash_table \<Rightarrow> 'a hash_table" where
  "place_new w k v ht = ht\<lparr>ht_table := (ht_table ht)[w := \<lparr>kv_key = k, kv_value = v\<rparr>], ht_count := ht_count ht + 1\<rparr>"

definition bury :: "nat \<Rightarrow> 'a hash_table \<Rightarrow> 'a hash_table" where
  "bury i ht = ht\<lparr>ht_table := (ht_table ht)[i := (ht_table ht ! i)\<lparr>kv_key := Deleted\<rparr>], ht_count := ht_count ht - 1\<rparr>"

lemma table_set_value [simp]:
  "ht_table (set_value i v ht) = (ht_table ht)[i := (ht_table ht ! i)\<lparr>kv_value := v\<rparr>]"
  "ht_count (set_value i v ht) = ht_count ht"
  "same_parameters ht (set_value i v ht)"
  by (simp_all add: set_value_def same_parameters_def)

lemma table_place_new [simp]:
  "ht_table (place_new w k v ht) = (ht_table ht)[w := \<lparr>kv_key = k, kv_value = v\<rparr>]"
  "ht_count (place_new w k v ht) = ht_count ht + 1"
  "same_parameters ht (place_new w k v ht)"
  by (simp_all add: place_new_def same_parameters_def)

lemma table_bury [simp]:
  "ht_table (bury i ht) = (ht_table ht)[i := (ht_table ht ! i)\<lparr>kv_key := Deleted\<rparr>]"
  "ht_count (bury i ht) = ht_count ht - 1"
  "same_parameters ht (bury i ht)"
  by (simp_all add: bury_def same_parameters_def)

lemma key_set_value:
  "i < length t \<Longrightarrow> kv_key (t[i := (t ! i)\<lparr>kv_value := v\<rparr>] ! j) = kv_key (t ! j)"
  by (cases "i = j") auto

lemma is_live_key: "kv_key e = kv_key e' \<Longrightarrow> is_live e = is_live e'"
  by (simp add: is_live_def)

lemma set_value_struct:
  assumes "struct_ok c ht" "i < length (ht_table ht)"
  shows "struct_ok c (set_value i v ht)"
proof -
  let ?t = "ht_table ht" and ?t' = "(ht_table ht)[i := (ht_table ht ! i)\<lparr>kv_value := v\<rparr>]"
  have k: "kv_key (?t' ! j) = kv_key (?t ! j)" for j using assms(2) by (rule key_set_value)
  then have l: "is_live (?t' ! j) = is_live (?t ! j)" for j by (rule is_live_key)
  have "table_placed c ?t'" using assms(1) by (simp add: struct_ok_def table_placed_def in_reach_def k l)
  moreover have "table_distinct c ?t'" using assms(1) by (simp add: struct_ok_def table_distinct_def k l)
  moreover have "length (filter is_live ?t') = length (filter is_live ?t)"
    using length_filter_update[OF assms(2), of is_live "(?t ! i)\<lparr>kv_value := v\<rparr>"] l[of i] assms(2)
    by (simp split: if_splits)
  ultimately show ?thesis using assms(1) by (simp add: struct_ok_def) (simp add: set_value_def)
qed

lemma over_threshold_cong:
  "ht_count ht' = ht_count ht \<Longrightarrow> length (ht_table ht') = length (ht_table ht) \<Longrightarrow> same_parameters ht ht' \<Longrightarrow>
   over_threshold ht' = over_threshold ht"
  by (simp add: over_threshold_def same_parameters_def)

lemma nat_gt_double_mono: "nat_gt_double n d \<Longrightarrow> n \<le> m \<Longrightarrow> nat_gt_double m d"
  unfolding nat_gt_double_def by (auto split: if_splits intro: order.strict_trans2 mult_right_mono)

lemma bury_struct:
  assumes "struct_ok c ht" "i < length (ht_table ht)" "is_live (ht_table ht ! i)"
  shows "struct_ok c (bury i ht)"
proof -
  let ?t = "ht_table ht" and ?t' = "(ht_table ht)[i := (ht_table ht ! i)\<lparr>kv_key := Deleted\<rparr>]"
  have k: "kv_key (?t' ! j) = (if j = i then Deleted else kv_key (?t ! j))" for j using assms(2) by auto
  have l: "is_live (?t' ! j) \<longleftrightarrow> j \<noteq> i \<and> is_live (?t ! j)" for j by (simp add: is_live_def k)
  have "table_placed c ?t'" using assms(1) by (simp add: struct_ok_def table_placed_def in_reach_def k l)
  moreover have "table_distinct c ?t'" using assms(1) by (simp add: struct_ok_def table_distinct_def k l)
  moreover have "length (filter is_live ?t') = length (filter is_live ?t) - 1"
    using length_filter_update[OF assms(2), of is_live "(?t ! i)\<lparr>kv_key := Deleted\<rparr>"] l[of i] assms(2,3)
    by (simp split: if_splits)
  ultimately show ?thesis using assms(1) by (simp add: struct_ok_def) (simp add: bury_def)
qed

lemma resize_empty_table [simp]:
  "ht_table (resize_empty_table n (ht\<lparr>ht_table := []\<rparr>)) = replicate (max n 16) free_entry"
  "ht_count (resize_empty_table n (ht\<lparr>ht_table := []\<rparr>)) = 0"
  "same_parameters ht (resize_empty_table n (ht\<lparr>ht_table := []\<rparr>))"
  by (auto simp: resize_empty_table_def vec_resize_def Let_def same_parameters_def max_def)

lemma round53_nonneg: "0 \<le> p \<Longrightarrow> 0 \<le> fst (round53 p)"
  using pos_imp_zdiv_nonneg_iff[of "2 ^ (nat (bitlen p) - 53)" p] by (auto simp: round53_def Let_def sgn_if)

lemma not_over_empty:
  assumes "ht_count ht = 0" "threshold_ok (ht_rehash_threshold ht)"
  shows "\<not> over_threshold ht"
proof -
  have "0 \<le> fst (round53 (mantissa (ht_rehash_threshold ht) * int (length (ht_table ht))))"
    using assms(2) by (intro round53_nonneg) (simp add: threshold_ok_def)
  then show ?thesis
    using assms(1)
    by (auto simp: over_threshold_def double_times_def nat_gt_double_def split_def Let_def mult_less_0_iff split: if_splits)
qed

lemma empty_table_ok:
  assumes "ht_table ht = replicate n free_entry" "16 \<le> n" "ht_count ht = 0" "threshold_ok (ht_rehash_threshold ht)"
  shows "table_ok c ht" "ht_map c ht = (\<lambda>x. None)"
  using assms not_over_empty[OF assms(3,4)]
  by (simp_all add: table_ok_def table_placed_def table_distinct_def ht_map_def find_None_iff fun_eq_iff)

section \<open>The three updates on the map\<close>

context hashing
begin

lemma place_new_struct:
  assumes s: "struct_ok c ht" and new: "ht_map c ht x = None"
    and w: "first_free (ht_table ht) (probes (length (ht_table ht)) (sxhash_key c (Obj x) (length (ht_table ht)))) = Some w"
  shows "struct_ok c (place_new w (Obj x) v ht)"
proof -
  let ?t = "ht_table ht" and ?n = "length (ht_table ht)"
  let ?t' = "?t[w := \<lparr>kv_key = Obj x, kv_value = v\<rparr>]"
  have n: "0 < ?n" using struct_size[OF s] by linarith
  have wn: "w < ?n" "\<not> is_live (?t ! w)"
    "\<And>j. j \<in> before w (probes ?n (sxhash_key c (Obj x) ?n)) \<Longrightarrow> is_live (?t ! j)"
    using first_free_Some[OF w] set_probes[OF sxhash_key_less[OF n], of c "Obj x"] by auto
  have k: "kv_key (?t' ! j) = (if j = w then Obj x else kv_key (?t ! j))" for j using wn(1) by auto
  have l: "is_live (?t' ! j) \<longleftrightarrow> j = w \<or> is_live (?t ! j)" for j by (simp add: is_live_def k)
  have "table_placed c ?t'"
    unfolding table_placed_def
  proof (intro allI impI)
    fix i assume i: "i < length ?t'" "is_live (?t' ! i)"
    show "in_reach c ?t' i"
    proof (cases "i = w")
      case True
      then show ?thesis using wn(1,3) by (auto simp: in_reach_def k is_live_def)
    next
      case False
      then have "in_reach c ?t i" using s i l by (simp add: struct_ok_def table_placed_def)
      then show ?thesis using False by (auto simp: in_reach_def k)
    qed
  qed
  moreover have "table_distinct c ?t'"
    unfolding table_distinct_def
  proof (intro allI impI, elim conjE)
    fix i j assume ij: "i < length ?t'" "j < length ?t'" "is_live (?t' ! i)" "is_live (?t' ! j)"
      "key_test c (kv_key (?t' ! i)) (kv_key (?t' ! j))"
    have no: "\<not> key_test c (kv_key (?t ! a)) (Obj x)" if "a < ?n" "is_live (?t ! a)" for a
      using new that by (simp add: ht_map_None_iff entry_at_def)
    have no': "\<not> key_test c (Obj x) (kv_key (?t ! a))" if a: "a < ?n" "is_live (?t ! a)" for a
      using no[OF a] a(2) test_sym by (auto simp: is_live_iff)
    show "i = j"
    proof (cases "i = w \<or> j = w")
      case True
      then show ?thesis using ij no no' by (auto simp: k l split: if_splits)
    next
      case False
      then show ?thesis using ij s by (simp add: struct_ok_def table_distinct_def k l)
    qed
  qed
  moreover have "length (filter is_live ?t') = length (filter is_live ?t) + 1"
    using length_filter_update[OF wn(1), of is_live "\<lparr>kv_key = Obj x, kv_value = v\<rparr>"] wn(2)
    by (simp add: is_live_iff)
  ultimately show ?thesis using s by (simp add: struct_ok_def) (simp add: place_new_def)
qed

lemma ht_map_place_new:
  assumes s: "struct_ok c ht" and new: "ht_map c ht x = None"
    and w: "first_free (ht_table ht) (probes (length (ht_table ht)) (sxhash_key c (Obj x) (length (ht_table ht)))) = Some w"
  shows "ht_map c (place_new w (Obj x) v ht) = map_put c (ht_map c ht) x (Some v)"
proof (rule ext)
  fix y
  let ?t = "ht_table ht" and ?ht = "place_new w (Obj x) v ht"
  have n: "0 < length ?t" using struct_size[OF s] by linarith
  have wn: "w < length ?t" "\<not> is_live (?t ! w)"
    using first_free_Some[OF w] set_probes[OF sxhash_key_less[OF n], of c "Obj x"] by auto
  have d: "table_distinct c (ht_table ?ht)" "table_distinct c ?t"
    using place_new_struct[OF assms] s by (simp_all add: struct_ok_def)
  have e: "entry_at c (ht_table ?ht) y j \<longleftrightarrow>
      (if j = w then key_test c (Obj x) (Obj y) else entry_at c ?t y j)" for j
    using wn(1) by (auto simp: entry_at_def is_live_def)
  show "ht_map c ?ht y = map_put c (ht_map c ht) x (Some v) y"
  proof (cases "key_test c (Obj x) (Obj y)")
    case True
    then have "entry_at c (ht_table ?ht) y w" by (simp add: e del: table_place_new)
    then show ?thesis using ht_map_entry[OF d(1)] wn(1) True by (simp add: map_put_def)
  next
    case False
    show ?thesis
    proof (cases "\<exists>j. entry_at c ?t y j")
      case True
      then obtain j where j: "entry_at c ?t y j" by blast
      with wn(2) have "j \<noteq> w" by (auto simp: entry_at_def)
      then have "entry_at c (ht_table ?ht) y j" using j by (simp only: e if_False)
      then show ?thesis
        using ht_map_entry[OF d(1)] ht_map_entry[OF d(2) j] False \<open>j \<noteq> w\<close> by (simp add: map_put_def)
    next
      case no: False
      then have "\<not> entry_at c (ht_table ?ht) y j" for j using False by (simp only: e) simp
      then have "ht_map c ?ht y = None" "ht_map c ht y = None" using no unfolding ht_map_None_iff by blast+
      then show ?thesis using False by (simp add: map_put_def)
    qed
  qed
qed

lemma ht_map_set_value:
  assumes s: "struct_ok c ht" and i: "entry_at c (ht_table ht) x i"
  shows "ht_map c (set_value i v ht) = map_put c (ht_map c ht) x (Some v)"
proof (rule ext)
  fix y
  let ?t = "ht_table ht" and ?ht = "set_value i v ht"
  have n: "i < length ?t" using i by (simp add: entry_at_def)
  have d: "table_distinct c (ht_table ?ht)" "table_distinct c ?t"
    using set_value_struct[OF s n, of v] s by (simp_all add: struct_ok_def)
  have e: "entry_at c (ht_table ?ht) y j = entry_at c ?t y j" for j
    using key_set_value[OF n, of v j] is_live_key[OF key_set_value[OF n, of v j]] by (simp add: entry_at_def)
  obtain k where k: "kv_key (?t ! i) = Obj k" "is_live (?t ! i)" using i by (auto simp: entry_at_def is_live_iff)
  show "ht_map c ?ht y = map_put c (ht_map c ht) x (Some v) y"
  proof (cases "key_test c (Obj x) (Obj y)")
    case True
    have "key_test c (Obj k) (Obj x)" using i k by (simp add: entry_at_def)
    then have "entry_at c ?t y i" using test_trans[OF _ True] n k by (simp add: entry_at_def)
    then have "entry_at c (ht_table ?ht) y i" by (simp only: e)
    then show ?thesis using ht_map_entry[OF d(1)] n True by (simp add: map_put_def)
  next
    case False
    show ?thesis
    proof (cases "\<exists>j. entry_at c ?t y j")
      case True
      then obtain j where j: "entry_at c ?t y j" by blast
      have "j \<noteq> i"
      proof
        assume "j = i"
        then have "key_test c (Obj k) (Obj x)" "key_test c (Obj k) (Obj y)" using i j k by (simp_all add: entry_at_def)
        then show False using False test_trans[OF test_sym] by blast
      qed
      then show ?thesis
        using ht_map_entry[OF d(1)] ht_map_entry[OF d(2) j] j False by (simp only: e map_put_def) simp
    next
      case no: False
      then have "ht_map c ?ht y = None" "ht_map c ht y = None" unfolding ht_map_None_iff by (simp_all only: e) simp_all
      then show ?thesis using False by (simp add: map_put_def)
    qed
  qed
qed

lemma ht_map_bury:
  assumes s: "struct_ok c ht" and i: "entry_at c (ht_table ht) x i"
  shows "ht_map c (bury i ht) = map_put c (ht_map c ht) x None"
proof (rule ext)
  fix y
  let ?t = "ht_table ht" and ?ht = "bury i ht"
  have n: "i < length ?t" "is_live (?t ! i)" using i by (simp_all add: entry_at_def)
  have d: "table_distinct c (ht_table ?ht)" "table_distinct c ?t"
    using bury_struct[OF s n] s by (simp_all add: struct_ok_def)
  have e: "entry_at c (ht_table ?ht) y j \<longleftrightarrow> j \<noteq> i \<and> entry_at c ?t y j" for j
    using n(1) by (auto simp: entry_at_def is_live_def nth_list_update)
  obtain k where k: "kv_key (?t ! i) = Obj k" using n(2) by (auto simp: is_live_iff)
  have ix: "key_test c (Obj k) (Obj x)" using i k by (simp add: entry_at_def)
  show "ht_map c ?ht y = map_put c (ht_map c ht) x None y"
  proof (cases "key_test c (Obj x) (Obj y)")
    case True
    have "entry_at c ?t y i" using test_trans[OF ix True] n k by (simp add: entry_at_def)
    then have "\<not> entry_at c (ht_table ?ht) y j" for j using entry_at_unique[OF d(2), of y i j] by (auto simp only: e)
    then show ?thesis using True by (simp add: map_put_def ht_map_None_iff)
  next
    case False
    show ?thesis
    proof (cases "\<exists>j. entry_at c ?t y j")
      case True
      then obtain j where j: "entry_at c ?t y j" by blast
      have "j \<noteq> i"
      proof
        assume "j = i"
        then have "key_test c (Obj k) (Obj y)" using j k by (simp add: entry_at_def)
        then show False using False ix test_trans[OF test_sym] by blast
      qed
      then show ?thesis
        using ht_map_entry[OF d(1)] ht_map_entry[OF d(2) j] j False by (simp only: e map_put_def) simp
    next
      case no: False
      then have "ht_map c ?ht y = None" "ht_map c ht y = None" unfolding ht_map_None_iff by (simp_all only: e) simp_all
      then show ?thesis using False by (simp add: map_put_def)
    qed
  qed
qed

lemma remhash_ok:
  assumes "table_ok c ht" "remhash c ht (Obj x) = (ht', b)"
  shows "table_ok c ht'" "ht_map c ht' = map_put c (ht_map c ht) x None"
    "b \<longleftrightarrow> ht_map c ht x \<noteq> None" "same_parameters ht ht'"
    "ht_count ht' = ht_count ht - (if b then 1 else 0)"
proof -
  have s: "struct_ok c ht" "\<not> over_threshold ht" using assms(1) by (simp_all add: table_ok_iff)
  have "table_ok c ht' \<and> ht_map c ht' = map_put c (ht_map c ht) x None \<and> (b \<longleftrightarrow> ht_map c ht x \<noteq> None) \<and>
    same_parameters ht ht' \<and> ht_count ht' = ht_count ht - (if b then 1 else 0)"
  proof (cases "table_ref c ht (Obj x)")
    case None
    then have m: "ht_map c ht x = None" using table_ref_None_iff[OF assms(1)] by simp
    have eq: "ht' = ht" "\<not> b" using assms(2) None by (simp_all add: remhash_def)
    have "map_put c (ht_map c ht) x None = ht_map c ht"
    proof (rule ext)
      fix y
      have "ht_map c ht y = None" if xy: "key_test c (Obj x) (Obj y)"
        using m test_trans[OF _ test_sym[OF xy]] unfolding ht_map_None_iff by (auto simp: entry_at_def is_live_iff)
      then show "map_put c (ht_map c ht) x None y = ht_map c ht y" by (simp add: map_put_def)
    qed
    then show ?thesis using assms(1) m eq by simp
  next
    case (Some i)
    then have e: "entry_at c (ht_table ht) x i" using table_ref_iff[OF assms(1)] by simp
    then have n: "i < length (ht_table ht)" "is_live (ht_table ht ! i)" by (simp_all add: entry_at_def)
    have eq: "ht' = bury i ht" "b" using assms(2) Some by (simp_all add: remhash_def bury_def)
    have "\<not> over_threshold (bury i ht)"
      using s(2) nat_gt_double_mono[OF _ diff_le_self] table_bury(3)[of ht i]
      by (auto simp: over_threshold_def same_parameters_def)
    moreover have "ht_map c ht x \<noteq> None" using e by (auto simp: ht_map_None_iff)
    ultimately show ?thesis
      using bury_struct[OF s(1) n] ht_map_bury[OF s(1) e] eq by (simp add: table_ok_iff)
  qed
  then show "table_ok c ht'" "ht_map c ht' = map_put c (ht_map c ht) x None"
    "b \<longleftrightarrow> ht_map c ht x \<noteq> None" "same_parameters ht ht'"
    "ht_count ht' = ht_count ht - (if b then 1 else 0)" by simp_all
qed

end

end
