(* ===== verification/HashGrow.thy ===== *)
theory HashGrow
  imports HashRefine
begin

text \<open>
  Storing into a table, with the rehashing it may cause, on any amount of fuel:
  whatever it returns keeps the invariant and updates the map in one place.
\<close>

section \<open>What a table holds, entry by entry\<close>

fun put_entries :: "'a key_class \<Rightarrow> ('a \<Rightarrow> 'a tsp option) \<Rightarrow> 'a key_value_pair list \<Rightarrow> 'a \<Rightarrow> 'a tsp option" where
  "put_entries c m [] = m"
| "put_entries c m (e # es) =
     (case kv_key e of
        Obj x \<Rightarrow> put_entries c (map_put c m x (Some (kv_value e))) es
      | _ \<Rightarrow> put_entries c m es)"

fun fresh_entries :: "'a key_class \<Rightarrow> ('a \<Rightarrow> 'a tsp option) \<Rightarrow> 'a key_value_pair list \<Rightarrow> bool" where
  "fresh_entries c m [] \<longleftrightarrow> True"
| "fresh_entries c m (e # es) \<longleftrightarrow>
     (case kv_key e of
        Obj x \<Rightarrow> m x = None \<and> fresh_entries c (map_put c m x (Some (kv_value e))) es
      | _ \<Rightarrow> fresh_entries c m es)"

lemma put_entries_cases:
  "(put_entries c m es y = m y \<and> (\<forall>e \<in> set es. is_live e \<longrightarrow> \<not> key_test c (kv_key e) (Obj y))) \<or>
   (\<exists>e \<in> set es. is_live e \<and> key_test c (kv_key e) (Obj y) \<and> put_entries c m es y = Some (kv_value e))"
proof (induction es arbitrary: m)
  case (Cons e es)
  show ?case
  proof (cases "kv_key e")
    case (Obj x)
    then show ?thesis
      using Cons.IH[of "map_put c m x (Some (kv_value e))"]
      by (cases "key_test c (Obj x) (Obj y)") (auto simp: map_put_def is_live_def)
  qed (use Cons.IH[of m] in \<open>auto simp: is_live_def\<close>)
qed simp

lemma fresh_entriesI:
  assumes "sorted_wrt (\<lambda>e e'. is_live e \<longrightarrow> is_live e' \<longrightarrow> \<not> key_test c (kv_key e) (kv_key e')) es"
    and "\<And>e x. e \<in> set es \<Longrightarrow> kv_key e = Obj x \<Longrightarrow> m x = None"
  shows "fresh_entries c m es"
  using assms
proof (induction es arbitrary: m)
  case (Cons e es)
  show ?case
  proof (cases "kv_key e")
    case (Obj x)
    have "fresh_entries c (map_put c m x (Some (kv_value e))) es"
    proof (rule Cons.IH)
      show "map_put c m x (Some (kv_value e)) y = None" if "e' \<in> set es" "kv_key e' = Obj y" for e' y
        using Cons.prems that Obj by (auto simp: map_put_def is_live_def)
    qed (use Cons.prems(1) in simp)
    then show ?thesis using Cons.prems(2)[of e x] Obj by simp
  next
    case No_key
    have "fresh_entries c m es" by (rule Cons.IH) (use Cons.prems in auto)
    then show ?thesis using No_key by simp
  next
    case Deleted
    have "fresh_entries c m es" by (rule Cons.IH) (use Cons.prems in auto)
    then show ?thesis using Deleted by simp
  qed
qed simp

lemma fresh_table:
  assumes "table_distinct c t"
  shows "fresh_entries c (\<lambda>x. None) t"
proof (rule fresh_entriesI)
  show "sorted_wrt (\<lambda>e e'. is_live e \<longrightarrow> is_live e' \<longrightarrow> \<not> key_test c (kv_key e) (kv_key e')) t"
    unfolding sorted_wrt_iff_nth_less
  proof (intro allI impI notI)
    fix i j assume "i < j" "j < length t" "is_live (t ! i)" "is_live (t ! j)" "key_test c (kv_key (t ! i)) (kv_key (t ! j))"
    then have "i = j" using assms unfolding table_distinct_def by (meson order.strict_trans)
    then show False using \<open>i < j\<close> by simp
  qed
qed simp

definition stored :: "'a key_class \<Rightarrow> 'a hash_table \<Rightarrow> ('a \<Rightarrow> 'a tsp option) \<Rightarrow> nat \<Rightarrow> 'a hash_table \<Rightarrow> bool" where
  "stored c ht m n ht' \<longleftrightarrow> table_ok c ht' \<and> ht_map c ht' = m \<and> ht_count ht' = n \<and> same_parameters ht ht'"

lemma stored_trans:
  "stored c ht m n ht' \<Longrightarrow> stored c ht' m' n' ht'' \<Longrightarrow> stored c ht m' n' ht''"
  by (auto simp: stored_def intro: same_parameters_trans)

definition count_put :: "('a \<Rightarrow> 'a tsp option) \<Rightarrow> 'a \<Rightarrow> nat \<Rightarrow> nat" where
  "count_put m x n = (if m x = None then n + 1 else n)"

lemma setf_gethash_Suc:
  "setf_gethash (Suc f) c ht (Obj x) v =
     (case table_ref c ht (Obj x) of
        Some i \<Rightarrow> Some (Inr (set_value i v ht))
      | None \<Rightarrow>
          (case first_free (ht_table ht) (probes (length (ht_table ht)) (sxhash_key c (Obj x) (length (ht_table ht)))) of
             Some w \<Rightarrow>
               (if over_threshold (place_new w (Obj x) v ht)
                then (case rehash f c (place_new w (Obj x) v ht) True No_key of
                        None \<Rightarrow> None
                      | Some (Inl e) \<Rightarrow> Some (Inl e)
                      | Some (Inr (ht'', _)) \<Rightarrow> Some (Inr ht''))
                else Some (Inr (place_new w (Obj x) v ht)))
           | None \<Rightarrow>
               (case rehash f c ht True No_key of
                  None \<Rightarrow> None
                | Some (Inl e) \<Rightarrow> Some (Inl e)
                | Some (Inr (ht', _)) \<Rightarrow> setf_gethash f c ht' (Obj x) v)))"
  unfolding setf_gethash.simps Let_def set_value_def place_new_def by simp

context hashing
begin

lemma put_entries_table:
  assumes "table_distinct c (ht_table ht)"
  shows "put_entries c (\<lambda>x. None) (ht_table ht) = ht_map c ht"
proof (rule ext)
  fix y
  have *: "\<exists>i. entry_at c (ht_table ht) y i \<and> ht_table ht ! i = e"
    if "e \<in> set (ht_table ht)" "is_live e" "key_test c (kv_key e) (Obj y)" for e
    using that by (auto simp: entry_at_def in_set_conv_nth)
  from put_entries_cases[of c "\<lambda>x. None" "ht_table ht" y] show "put_entries c (\<lambda>x. None) (ht_table ht) y = ht_map c ht y"
  proof (elim disjE conjE bexE)
    assume "put_entries c (\<lambda>x. None) (ht_table ht) y = None"
      "\<forall>e \<in> set (ht_table ht). is_live e \<longrightarrow> \<not> key_test c (kv_key e) (Obj y)"
    moreover from this(2) have "ht_map c ht y = None" unfolding ht_map_None_iff by (auto simp: entry_at_def)
    ultimately show ?thesis by simp
  next
    fix e assume e: "e \<in> set (ht_table ht)" "is_live e" "key_test c (kv_key e) (Obj y)"
      "put_entries c (\<lambda>x. None) (ht_table ht) y = Some (kv_value e)"
    from *[OF e(1-3)] obtain i where "entry_at c (ht_table ht) y i" "ht_table ht ! i = e" by blast
    then show ?thesis using ht_map_entry[OF assms] e(4) by simp
  qed
qed

section \<open>One round of storing\<close>

lemma found_stored:
  assumes "table_ok c ht" "table_ref c ht (Obj x) = Some i"
  shows "stored c ht (map_put c (ht_map c ht) x (Some v)) (count_put (ht_map c ht) x (ht_count ht)) (set_value i v ht)"
proof -
  have s: "struct_ok c ht" "\<not> over_threshold ht" using assms(1) by (simp_all add: table_ok_iff)
  have e: "entry_at c (ht_table ht) x i" using assms by (simp add: table_ref_iff)
  then have "i < length (ht_table ht)" "ht_map c ht x \<noteq> None" by (auto simp: entry_at_def ht_map_None_iff)
  moreover have "\<not> over_threshold (set_value i v ht)"
    using s(2) over_threshold_cong[of "set_value i v ht" ht] by simp
  ultimately show ?thesis
    using set_value_struct[OF s(1)] ht_map_set_value[OF s(1) e] by (simp add: stored_def table_ok_iff count_put_def)
qed

definition stores :: "nat \<Rightarrow> bool" where
  "stores f \<longleftrightarrow>
     (\<forall>ht x v ht'. table_ok c ht \<longrightarrow> setf_gethash f c ht (Obj x) v = Some (Inr ht') \<longrightarrow>
        stored c ht (map_put c (ht_map c ht) x (Some v)) (count_put (ht_map c ht) x (ht_count ht)) ht')"

lemma storesD:
  "stores f \<Longrightarrow> table_ok c ht \<Longrightarrow> setf_gethash f c ht (Obj x) v = Some (Inr ht') \<Longrightarrow>
   stored c ht (map_put c (ht_map c ht) x (Some v)) (count_put (ht_map c ht) x (ht_count ht)) ht'"
  by (simp add: stores_def)

lemma reinsert_stored:
  assumes "stores f" "table_ok c ht" "fresh_entries c (ht_map c ht) es"
    and "reinsert f c ht es key found = Some (Inr (ht', found'))"
  shows "stored c ht (put_entries c (ht_map c ht) es) (ht_count ht + length (filter is_live es)) ht'"
  using assms(2-)
proof (induction es arbitrary: ht found)
  case Nil
  then show ?case by (simp add: stored_def)
next
  case (Cons e es)
  show ?case
  proof (cases "kv_key e")
    case (Obj x)
    have fr: "ht_map c ht x = None" "fresh_entries c (map_put c (ht_map c ht) x (Some (kv_value e))) es"
      using Cons.prems(2) Obj by simp_all
    obtain ht1 found1 where 1: "setf_gethash f c ht (Obj x) (kv_value e) = Some (Inr ht1)"
      "reinsert f c ht1 es key found1 = Some (Inr (ht', found'))"
      using Cons.prems(3) Obj by (simp add: Let_def split: option.splits sum.splits)
    have st: "stored c ht (map_put c (ht_map c ht) x (Some (kv_value e))) (ht_count ht + 1) ht1"
      using storesD[OF assms(1) Cons.prems(1) 1(1)] fr(1) by (simp add: count_put_def)
    then have ok1: "table_ok c ht1" "ht_map c ht1 = map_put c (ht_map c ht) x (Some (kv_value e))"
      "ht_count ht1 = ht_count ht + 1" by (simp_all add: stored_def)
    have "stored c ht1 (put_entries c (ht_map c ht1) es) (ht_count ht1 + length (filter is_live es)) ht'"
      by (rule Cons.IH[OF ok1(1) _ 1(2)]) (simp add: ok1(2) fr(2))
    then have "stored c ht (put_entries c (ht_map c ht1) es) (ht_count ht1 + length (filter is_live es)) ht'"
      by (rule stored_trans[OF st])
    moreover have "is_live e" using Obj by (simp add: is_live_iff)
    ultimately show ?thesis using Obj by (simp add: ok1)
  qed (use Cons in \<open>simp_all add: is_live_def\<close>)
qed

lemma rehash_stored:
  assumes "stores f" "struct_ok c ht" "rehash (Suc f) c ht expand key = Some (Inr (ht', found))"
  shows "stored c ht (ht_map c ht) (ht_count ht) ht'"
proof -
  let ?e = "resize_empty_table (nat (new_size ht expand)) (ht\<lparr>ht_table := []\<rparr>)"
  obtain f0 where r: "reinsert f c ?e (ht_table ht) key None = Some (Inr (ht', f0))"
    using assms(3) by (auto split: if_splits option.splits sum.splits)
  have thr: "threshold_ok (ht_rehash_threshold ?e)"
    using assms(2) resize_empty_table(3)[of ht "nat (new_size ht expand)"] by (simp add: struct_ok_def same_parameters_def)
  have e: "table_ok c ?e" "ht_map c ?e = (\<lambda>x. None)"
    using empty_table_ok[OF resize_empty_table(1) _ resize_empty_table(2) thr] by simp_all
  have d: "table_distinct c (ht_table ht)" "ht_count ht = length (filter is_live (ht_table ht))"
    using assms(2) by (simp_all add: struct_ok_def)
  have "stored c ?e (put_entries c (ht_map c ?e) (ht_table ht)) (ht_count ?e + length (filter is_live (ht_table ht))) ht'"
    by (rule reinsert_stored[OF assms(1) e(1) _ r]) (simp only: e(2) fresh_table[OF d(1)])
  then show ?thesis
    using put_entries_table[OF d(1)] e(2) d(2)
      same_parameters_trans[OF resize_empty_table(3)[of ht "nat (new_size ht expand)"]]
    by (simp add: stored_def)
qed

lemma stores_step:
  assumes IH: "\<And>g. g < f \<Longrightarrow> stores g"
  shows "stores f"
  unfolding stores_def
proof (intro allI impI)
  fix ht x v ht'
  assume ok: "table_ok c ht" and r: "setf_gethash f c ht (Obj x) v = Some (Inr ht')"
  have s: "struct_ok c ht" using ok by (simp add: table_ok_iff)
  obtain g where f: "f = Suc g" using r by (cases f) simp_all
  let ?m = "map_put c (ht_map c ht) x (Some v)" and ?n = "count_put (ht_map c ht) x (ht_count ht)"
  note r' = r[unfolded f setf_gethash_Suc]
  have re: "stored c h (ht_map c h) (ht_count h) h'"
    if h: "rehash g c h True No_key = Some (Inr (h', k))" and sh: "struct_ok c h" for h h' k
  proof -
    obtain g' where "g = Suc g'" using h by (cases g) simp_all
    with f have "stores g'" by (intro IH) simp
    from rehash_stored[OF this sh h[unfolded \<open>g = Suc g'\<close>]] show ?thesis .
  qed
  show "stored c ht ?m ?n ht'"
  proof (cases "table_ref c ht (Obj x)")
    case (Some i)
    then show ?thesis using r' found_stored[OF ok Some, of v] by simp
  next
    case None
    then have new: "ht_map c ht x = None" using ok table_ref_None_iff by blast
    let ?w = "first_free (ht_table ht) (probes (length (ht_table ht)) (sxhash_key c (Obj x) (length (ht_table ht))))"
    show ?thesis
    proof (cases ?w)
      case w: (Some w)
      let ?h = "place_new w (Obj x) v ht"
      have h: "struct_ok c ?h" "ht_map c ?h = ?m" "ht_count ?h = ?n" "same_parameters ht ?h"
        using place_new_struct[OF s new w] ht_map_place_new[OF s new w] new by (simp_all add: count_put_def)
      show ?thesis
      proof (cases "over_threshold ?h")
        case True
        then obtain k where "rehash g c ?h True No_key = Some (Inr (ht', k))"
          using r' None w by (auto split: option.splits sum.splits)
        from re[OF this h(1)] show ?thesis
          unfolding stored_def h(2,3) by (blast intro: same_parameters_trans[OF h(4)])
      next
        case False
        then have "ht' = ?h" using r' None w by simp
        then show ?thesis using h False by (simp add: stored_def table_ok_iff)
      qed
    next
      case w: None
      then obtain h k where h: "rehash g c ht True No_key = Some (Inr (h, k))" "setf_gethash g c h (Obj x) v = Some (Inr ht')"
        using r' None by (auto split: option.splits sum.splits)
      have st: "stored c ht (ht_map c ht) (ht_count ht) h" by (rule re[OF h(1) s])
      then have "table_ok c h" "ht_map c h = ht_map c ht" "ht_count h = ht_count ht" by (simp_all add: stored_def)
      then have "stored c h ?m ?n ht'" using storesD[OF IH[of g] _ h(2)] f by simp
      then show ?thesis by (rule stored_trans[OF st])
    qed
  qed
qed

lemma all_store: "stores f"
  by (induction f rule: less_induct) (rule stores_step)

lemmas setf_gethash_stored = storesD[OF all_store]
lemmas rehash_keeps = rehash_stored[OF all_store]

end

end
