(* ===== verification/HashFloat.thy ===== *)
theory HashFloat
  imports HashTables
begin

text \<open>
  What the rounded products of a hash table are worth: the relative error of a
  product, its exactness on integers, and the comparisons and the truncation
  read on real numbers.
\<close>

definition dval :: "double \<Rightarrow> real" where
  "dval d = of_int (mantissa d) * 2 powi expo d"

section \<open>Rounding\<close>

lemma round53_exact: "0 \<le> p \<Longrightarrow> bitlen p \<le> 53 \<Longrightarrow> round53 p = (p, 0)"
  by (auto simp: round53_def Let_def sgn_if)

lemma bitlen_large:
  assumes "53 < bitlen p"
  shows "2 ^ (52 + nat (bitlen p - 53)) \<le> p"
proof -
  have "0 < p" using assms bitlen_eq_zero_iff[of p] by linarith
  then have "2 ^ nat (bitlen p - 1) \<le> p" by (rule bitlen_bounds[THEN conjunct1])
  moreover have "nat (bitlen p - 1) = 52 + nat (bitlen p - 53)" using assms by simp
  ultimately show ?thesis by simp
qed

text \<open>The rounded mantissa is the quotient by a power of two or one more.\<close>

lemma round53_parts:
  assumes "0 \<le> p" "round53 p = (m, k)"
  obtains "k = 0" "m = p"
  | q where "0 < k" "q = p div 2 ^ k" "2 ^ 52 \<le> q" "m = q \<or> m = q + 1"
proof (cases "bitlen p \<le> 53")
  case True
  then show ?thesis using that(1) assms by (simp add: round53_exact)
next
  case False
  then have k: "k = nat (bitlen p) - 53" using assms by (auto simp: round53_def Let_def)
  then have k': "k = nat (bitlen p - 53)" "0 < k" using False by simp_all
  have "2 ^ (52 + k) \<le> p" using bitlen_large[of p] False k' by simp
  then have q: "2 ^ 52 \<le> p div 2 ^ k" using zdiv_mono1[of "2 ^ (52 + k)" p "2 ^ k"] by (simp add: power_add)
  moreover have "p \<noteq> 0" using q by auto
  ultimately have "m = p div 2 ^ k \<or> m = p div 2 ^ k + 1"
    using assms by (auto simp: round53_def Let_def k[symmetric] sgn_if split: if_splits)
  then show ?thesis using that(2)[OF k'(2) refl q] by simp
qed

lemma close_bounds:
  fixes r :: real
  assumes "x \<le> r" "r < x + K" "x \<le> y" "y \<le> x + K" "K \<le> r * B"
  shows "r * (1 - B) \<le> y \<and> y \<le> r * (1 + B)"
proof -
  define z where "z = r * B"
  have z: "r * (1 - B) = r - z" "r * (1 + B) = r + z" by (simp_all add: algebra_simps z_def)
  have K: "K \<le> z" using assms(5) by (simp only: z_def)
  show ?thesis unfolding z using assms(1-4) K by linarith
qed

lemma round53_close:
  assumes "0 \<le> p" "round53 p = (m, k)"
  shows "real_of_int p * (1 - 1 / 2 ^ 52) \<le> real_of_int m * 2 ^ k"
    and "real_of_int m * 2 ^ k \<le> real_of_int p * (1 + 1 / 2 ^ 52)"
proof -
  have "real_of_int p * (1 - 1 / 2 ^ 52) \<le> real_of_int m * 2 ^ k \<and>
    real_of_int m * 2 ^ k \<le> real_of_int p * (1 + 1 / 2 ^ 52)"
    using assms
  proof (cases rule: round53_parts)
    case 1
    then show ?thesis using assms(1) by (simp add: field_simps)
  next
    case (2 q)
    let ?r = "real_of_int p" and ?K = "2 ^ k :: real"
    have p: "q * 2 ^ k + p mod 2 ^ k = p" unfolding 2(2) by (rule div_mult_mod_eq)
    have "0 \<le> p mod 2 ^ k" "p mod 2 ^ k < 2 ^ k" by simp_all
    with p have "q * 2 ^ k \<le> p" "p < q * 2 ^ k + 2 ^ k" by linarith+
    then have "real_of_int (q * 2 ^ k) \<le> ?r" "?r < real_of_int (q * 2 ^ k + 2 ^ k)"
      by (simp_all only: of_int_le_iff of_int_less_iff)
    then have b: "real_of_int q * ?K \<le> ?r" "?r < real_of_int q * ?K + ?K" by simp_all
    have "2 ^ 52 \<le> real_of_int q" using 2(3) by (metis of_int_le_iff of_int_numeral of_int_power)
    then have "2 ^ 52 * ?K \<le> real_of_int q * ?K" by (intro mult_right_mono) simp_all
    then have "2 ^ 52 * ?K \<le> ?r" using b(1) by (rule order.trans)
    then have K: "?K \<le> ?r / 2 ^ 52" by (simp add: field_simps)
    have m: "real_of_int q * ?K \<le> real_of_int m * ?K" "real_of_int m * ?K \<le> real_of_int q * ?K + ?K"
      using 2(4) by (auto simp: algebra_simps)
    define B :: real where "B = 1 / 2 ^ 52"
    have "?K \<le> ?r * B" using K by (simp add: B_def)
    then have "?r * (1 - B) \<le> real_of_int m * ?K \<and> real_of_int m * ?K \<le> ?r * (1 + B)"
      by (rule close_bounds[OF b m])
    then show ?thesis unfolding B_def .
  qed
  then show "real_of_int p * (1 - 1 / 2 ^ 52) \<le> real_of_int m * 2 ^ k"
    "real_of_int m * 2 ^ k \<le> real_of_int p * (1 + 1 / 2 ^ 52)" by blast+
qed

text \<open>Rounding does not fall below an integer that a double holds exactly.\<close>

lemma round53_integer:
  fixes c :: int
  assumes "0 \<le> p" "round53 p = (m, k)" "0 \<le> c" "c < 2 ^ 53" "real_of_int c \<le> real_of_int p * 2 powi e"
  shows "real_of_int c \<le> real_of_int m * 2 powi (e + int k)"
  using assms(1,2)
proof (cases rule: round53_parts)
  case 1
  then show ?thesis using assms(5) by simp
next
  case (2 q)
  have "real_of_int c \<le> real_of_int q * 2 powi (e + int k)"
  proof (cases "0 < e + int k")
    case True
    then have "2 powi 1 \<le> (2 powi (e + int k) :: real)" by (intro power_int_increasing) simp_all
    moreover have q: "2 ^ 52 \<le> real_of_int q" using 2(3) by (metis of_int_le_iff of_int_numeral of_int_power)
    ultimately have "2 ^ 52 * 2 \<le> real_of_int q * 2 powi (e + int k)" by (intro mult_mono) simp_all
    moreover have "real_of_int c < 2 ^ 53" using assms(4) by (metis of_int_less_iff of_int_numeral of_int_power)
    ultimately show ?thesis by simp
  next
    case False
    define j where "j = nat (- (e + int k))"
    have j: "e + int k = - int j" using False by (simp add: j_def)
    have "real_of_int c * 2 ^ j \<le> real_of_int p * 2 powi e * 2 ^ j" using assms(5) by (intro mult_right_mono) simp_all
    also have "\<dots> = real_of_int p * (2 powi e * 2 powi int j)" by simp
    also have "2 powi e * 2 powi int j = (2 powi (e + int j) :: real)" by (simp add: power_int_add)
    also have "e + int j = - int k" using j by simp
    finally have "real_of_int c * 2 ^ j * 2 ^ k \<le> real_of_int p" by (simp add: power_int_minus field_simps)
    then have "c * 2 ^ j * 2 ^ k \<le> p" by (metis (mono_tags) of_int_le_iff of_int_mult of_int_numeral of_int_power)
    then have "c * 2 ^ j \<le> q" using zdiv_mono1[of "c * 2 ^ j * 2 ^ k" p "2 ^ k"] 2(2) by simp
    then have "real_of_int c * 2 ^ j \<le> real_of_int q" by (metis (mono_tags) of_int_le_iff of_int_mult of_int_numeral of_int_power)
    then show ?thesis unfolding j by (simp add: power_int_minus field_simps)
  qed
  also have "\<dots> \<le> real_of_int m * 2 powi (e + int k)" using 2(4) by (intro mult_right_mono) auto
  finally show ?thesis .
qed

section \<open>The operations on real values\<close>

lemma powi_nat: "0 \<le> e \<Longrightarrow> (2 :: real) powi e = 2 ^ nat e"
  by (simp add: power_int_def)

lemma powi_neg: "e < 0 \<Longrightarrow> (2 :: real) powi e * 2 ^ nat (- e) = 1"
  by (simp add: power_int_def flip: power_mult_distrib)

lemma nat_gt_double_iff: "nat_gt_double c d \<longleftrightarrow> dval d < real c"
proof (cases "0 \<le> expo d")
  case True
  have "real_of_int (mantissa d * 2 ^ nat (expo d)) < real_of_int (int c) \<longleftrightarrow> mantissa d * 2 ^ nat (expo d) < int c"
    by (rule of_int_less_iff)
  then show ?thesis using True by (simp add: nat_gt_double_def dval_def powi_nat)
next
  case False
  have "real_of_int (mantissa d) < real_of_int (int c * 2 ^ nat (- expo d)) \<longleftrightarrow> mantissa d < int c * 2 ^ nat (- expo d)"
    by (rule of_int_less_iff)
  moreover have "dval d * 2 ^ nat (- expo d) = real_of_int (mantissa d)"
    using False powi_neg[of "expo d"] by (simp add: dval_def mult.assoc)
  moreover have "dval d < real c \<longleftrightarrow> dval d * 2 ^ nat (- expo d) < real c * 2 ^ nat (- expo d)" by simp
  ultimately show ?thesis using False by (simp add: nat_gt_double_def)
qed

lemma double_less_iff: "double_less a b \<longleftrightarrow> dval a < dval b"
proof -
  define e where "e = min (expo a) (expo b)"
  have v: "dval d = real_of_int (mantissa d * 2 ^ nat (expo d - e)) * 2 powi e" if "e \<le> expo d" for d
  proof -
    have "(2 :: real) powi expo d = 2 powi (e + (expo d - e))" by simp
    also have "\<dots> = 2 powi e * 2 powi (expo d - e)" by (rule power_int_add) simp
    finally have "(2 :: real) powi expo d = 2 powi e * 2 powi (expo d - e)" .
    then show ?thesis using that by (simp add: dval_def powi_nat)
  qed
  have "dval a < dval b \<longleftrightarrow>
    real_of_int (mantissa a * 2 ^ nat (expo a - e)) < real_of_int (mantissa b * 2 ^ nat (expo b - e))"
    by (simp only: v[of a] v[of b] e_def min.cobounded1 min.cobounded2) simp
  also have "\<dots> \<longleftrightarrow> mantissa a * 2 ^ nat (expo a - e) < mantissa b * 2 ^ nat (expo b - e)" by (rule of_int_less_iff)
  finally show ?thesis by (simp add: double_less_def e_def Let_def)
qed

lemma dval_times:
  assumes "0 \<le> mantissa d"
  shows "dval d * real n * (1 - 1 / 2 ^ 52) \<le> dval (double_times d n)"
    and "dval (double_times d n) \<le> dval d * real n * (1 + 1 / 2 ^ 52)"
    and "0 \<le> mantissa (double_times d n)"
proof -
  obtain m k where r: "round53 (mantissa d * int n) = (m, k)" by (cases "round53 (mantissa d * int n)")
  have p: "0 \<le> mantissa d * int n" using assms by simp
  have v: "dval (double_times d n) = (real_of_int m * 2 ^ k) * 2 powi expo d"
    by (simp add: dval_def double_times_def r power_int_add)
  have w: "dval d * real n = real_of_int (mantissa d * int n) * 2 powi expo d" by (simp add: dval_def)
  show "dval d * real n * (1 - 1 / 2 ^ 52) \<le> dval (double_times d n)"
    using mult_right_mono[OF round53_close(1)[OF p r], of "2 powi expo d"] unfolding v w by (simp add: algebra_simps)
  show "dval (double_times d n) \<le> dval d * real n * (1 + 1 / 2 ^ 52)"
    using mult_right_mono[OF round53_close(2)[OF p r], of "2 powi expo d"] unfolding v w by (simp add: algebra_simps)
  show "0 \<le> mantissa (double_times d n)"
    using p r by (cases rule: round53_parts[OF p r]) (auto simp: double_times_def)
qed

lemma double_trunc_ge:
  assumes "0 \<le> mantissa d" "real_of_int c \<le> dval d"
  shows "c \<le> double_trunc d"
proof (cases "0 \<le> expo d")
  case True
  then have "real_of_int c \<le> real_of_int (mantissa d * 2 ^ nat (expo d))" using assms(2) by (simp add: dval_def powi_nat)
  then show ?thesis using True by (simp only: of_int_le_iff double_trunc_def if_True)
next
  case False
  have "real_of_int c * 2 ^ nat (- expo d) \<le> dval d * 2 ^ nat (- expo d)" using assms(2) by (intro mult_right_mono) simp_all
  also have "\<dots> = real_of_int (mantissa d)" using False powi_neg[of "expo d"] by (simp add: dval_def mult.assoc)
  finally have "c * 2 ^ nat (- expo d) \<le> mantissa d"
    by (metis (mono_tags) of_int_le_iff of_int_mult of_int_numeral of_int_power)
  then have "c \<le> mantissa d div 2 ^ nat (- expo d)"
    using zdiv_mono1[of "c * 2 ^ nat (- expo d)" "mantissa d" "2 ^ nat (- expo d)"] by simp
  then show ?thesis using False assms(1) by (auto simp: double_trunc_def sgn_if)
qed

end
