(* ===== verification/HashTotal.thy ===== *)
theory HashTotal
  imports HashGrow HashFloat
begin

text \<open>
  When storing into a table ends: with a positive threshold and a rehash size
  that makes every table larger, the rehashing a store may cause stops.
\<close>

section \<open>Room and growth\<close>

text \<open>The count of a table that is not over its threshold is below its size: a free slot is always there.\<close>

lemma dval_default: "dval default_rehash_threshold = 6305039478318694 / 2 ^ 53"
  by (simp add: dval_def default_rehash_threshold_def power_int_minus field_simps)

lemma threshold_val:
  assumes "threshold_ok d"
  shows "0 \<le> dval d" "dval d \<le> 71 / 100"
proof -
  show "0 \<le> dval d" using assms by (simp add: threshold_ok_def dval_def)
  have "dval d \<le> dval default_rehash_threshold" using assms by (simp add: threshold_ok_def double_less_iff)
  then show "dval d \<le> 71 / 100" unfolding dval_default by simp
qed

lemma over_threshold_iff:
  "over_threshold ht \<longleftrightarrow> dval (double_times (ht_rehash_threshold ht) (length (ht_table ht))) < real (ht_count ht)"
  by (simp add: over_threshold_def nat_gt_double_iff)

lemma table_has_room:
  assumes "table_ok c ht"
  shows "ht_count ht < length (ht_table ht)"
proof -
  let ?t = "ht_rehash_threshold ht" and ?n = "real (length (ht_table ht))"
  have t: "0 \<le> mantissa ?t" "dval ?t \<le> 71 / 100" and n: "0 < ?n"
    using table_okD(1,5)[OF assms] threshold_val(2) by (auto simp: threshold_ok_def)
  have "real (ht_count ht) \<le> dval (double_times ?t (length (ht_table ht)))"
    using table_okD(6)[OF assms] by (simp add: over_threshold_iff)
  also have "\<dots> \<le> dval ?t * ?n * (1 + 1 / 2 ^ 52)" by (rule dval_times(2)[OF t(1)])
  also have "\<dots> \<le> 71 / 100 * ?n * (1 + 1 / 2 ^ 52)" using t(2) n by (intro mult_right_mono) simp_all
  also have "\<dots> < ?n" using n by simp
  finally show ?thesis by simp
qed

lemma first_free_found:
  assumes "table_ok c ht"
  shows "first_free (ht_table ht) (probes (length (ht_table ht)) (sxhash_key c k (length (ht_table ht)))) \<noteq> None"
proof
  let ?n = "length (ht_table ht)"
  assume no: "first_free (ht_table ht) (probes ?n (sxhash_key c k ?n)) = None"
  have "set (probes ?n (sxhash_key c k ?n)) = {0..<?n}"
    using table_has_room[OF assms] by (intro set_probes sxhash_key_less) linarith
  then have "length (filter is_live (ht_table ht)) = ?n"
    using first_free_None[OF no] by (intro all_live_count) simp
  then show False using table_has_room[OF assms] table_okD(2)[OF assms] by simp
qed

text \<open>A rehash size under which every table of at least the minimal size becomes larger.\<close>

definition grows :: "rehash_number \<Rightarrow> bool" where
  "grows r \<longleftrightarrow>
     (case r of
        Rehash_integer i \<Rightarrow> 1 \<le> i
      | Rehash_float d \<Rightarrow> \<not> double_less d \<lparr>mantissa = 17, expo = - 4\<rparr>
      | Rehash_other \<Rightarrow> False)"

definition well_tuned :: "'a hash_table \<Rightarrow> bool" where
  "well_tuned ht \<longleftrightarrow> grows (ht_rehash_size ht) \<and> 0 < mantissa (ht_rehash_threshold ht)"

lemma well_tuned_same: "same_parameters ht ht' \<Longrightarrow> well_tuned ht' = well_tuned ht"
  by (simp add: well_tuned_def same_parameters_def)

lemma float_grows:
  assumes "17 / 16 \<le> dval d" "16 \<le> n"
  shows "int n + 1 \<le> double_trunc (double_times d n)"
proof -
  have "0 < dval d" using assms(1) by linarith
  moreover have "\<not> (2 :: real) powi expo d < 0" by (simp add: not_less)
  ultimately have m: "0 \<le> mantissa d" by (auto simp: dval_def zero_less_mult_iff)
  have prod: "real n + real n / 16 \<le> dval d * real n" using mult_right_mono[OF assms(1), of "real n"] by simp
  have "real_of_int (int n + 1) \<le> dval (double_times d n)"
  proof (cases "int n + 1 < 2 ^ 53")
    case True
    obtain q k where r: "round53 (mantissa d * int n) = (q, k)" by (cases "round53 (mantissa d * int n)")
    have "real_of_int (int n + 1) \<le> real_of_int (mantissa d * int n) * 2 powi expo d"
    proof -
      have v: "real_of_int (mantissa d * int n) * 2 powi expo d = dval d * real n" by (simp add: dval_def)
      have "1 \<le> real n / 16" using assms(2) by simp
      with prod have "real n + 1 \<le> dval d * real n" by linarith
      then show ?thesis unfolding v by simp
    qed
    from round53_integer[OF _ r _ True this] m show ?thesis by (simp add: dval_def double_times_def r)
  next
    case False
    have "real n + 1 \<le> (real n + real n / 16) * (1 - 1 / 2 ^ 52)" using False by simp
    also have "\<dots> \<le> dval d * real n * (1 - 1 / 2 ^ 52)" using prod by (intro mult_right_mono) simp_all
    also have "\<dots> \<le> dval (double_times d n)" by (rule dval_times(1)[OF m])
    finally show ?thesis by simp
  qed
  then show ?thesis by (rule double_trunc_ge[OF dval_times(3)[OF m]])
qed

lemma new_size_grows:
  assumes "grows (ht_rehash_size ht)" "16 \<le> length (ht_table ht)"
  shows "int (length (ht_table ht)) + 1 \<le> new_size ht True"
proof (cases "ht_rehash_size ht")
  case (Rehash_integer i)
  then show ?thesis using assms(1) by (simp add: new_size_def grows_def)
next
  case (Rehash_float d)
  have "dval \<lparr>mantissa = 17, expo = - 4\<rparr> = 17 / 16" by (simp add: dval_def power_int_minus)
  then have "17 / 16 \<le> dval d" using assms(1) Rehash_float by (simp add: grows_def double_less_iff)
  then show ?thesis using float_grows[OF _ assms(2)] Rehash_float by (simp add: new_size_def)
next
  case Rehash_other
  then show ?thesis using assms(1) by (simp add: grows_def)
qed

text \<open>From this size on the threshold leaves room for the given number of entries.\<close>

definition enough_size :: "double \<Rightarrow> nat \<Rightarrow> nat" where
  "enough_size t n = nat \<lceil>2 * real n / dval t\<rceil>"

lemma enough_size_not_over:
  assumes "0 < mantissa (ht_rehash_threshold ht)" "enough_size (ht_rehash_threshold ht) n \<le> length (ht_table ht)"
    "ht_count ht \<le> n"
  shows "\<not> over_threshold ht"
proof -
  let ?t = "ht_rehash_threshold ht" and ?n = "real (length (ht_table ht))"
  have t: "0 < dval ?t" using assms(1) by (simp add: dval_def)
  have "2 * real n / dval ?t \<le> ?n" using assms(2) by (simp add: enough_size_def ceiling_le_iff)
  then have "2 * real n \<le> dval ?t * ?n" using t by (simp add: field_simps)
  then have "2 * real n * (1 - 1 / 2 ^ 52) \<le> dval ?t * ?n * (1 - 1 / 2 ^ 52)" by (intro mult_right_mono) simp_all
  also have "\<dots> \<le> dval (double_times ?t (length (ht_table ht)))" using assms(1) by (intro dval_times(1)) simp
  finally have "2 * real n * (1 - 1 / 2 ^ 52) \<le> dval (double_times ?t (length (ht_table ht)))" .
  then show ?thesis using assms(3) by (simp add: over_threshold_iff)
qed

section \<open>Storing ends\<close>

context hashing
begin

definition ends_at :: "nat \<Rightarrow> nat \<Rightarrow> nat \<Rightarrow> bool" where
  "ends_at n d f \<longleftrightarrow>
     (\<forall>ht x v. table_ok c ht \<longrightarrow> well_tuned ht \<longrightarrow> ht_count ht + 1 \<le> n \<longrightarrow>
        enough_size (ht_rehash_threshold ht) n \<le> length (ht_table ht) + d \<longrightarrow>
        (\<exists>ht'. setf_gethash f c ht (Obj x) v = Some (Inr ht') \<and> length (ht_table ht) \<le> length (ht_table ht')))"

lemma ends_atD:
  assumes "ends_at n d f" "table_ok c ht" "well_tuned ht" "ht_count ht + 1 \<le> n"
    "enough_size (ht_rehash_threshold ht) n \<le> length (ht_table ht) + d"
  obtains ht' where "setf_gethash f c ht (Obj x) v = Some (Inr ht')" "length (ht_table ht) \<le> length (ht_table ht')"
  using assms that by (auto simp: ends_at_def)

lemma reinsert_ends:
  assumes e: "ends_at n d f"
  shows "table_ok c ht \<Longrightarrow> well_tuned ht \<Longrightarrow> ht_count ht + length (filter is_live es) \<le> n \<Longrightarrow>
    enough_size (ht_rehash_threshold ht) n \<le> length (ht_table ht) + d \<Longrightarrow>
    \<exists>ht' k. reinsert f c ht es key found = Some (Inr (ht', k)) \<and> length (ht_table ht) \<le> length (ht_table ht')"
proof (induction es arbitrary: ht found)
  case (Cons e es)
  show ?case
  proof (cases "kv_key e")
    case (Obj x)
    then have l: "is_live e" by (simp add: is_live_iff)
    obtain ht1 where 1: "setf_gethash f c ht (Obj x) (kv_value e) = Some (Inr ht1)"
      "length (ht_table ht) \<le> length (ht_table ht1)"
    proof (rule ends_atD[OF e Cons.prems(1,2) _ Cons.prems(4)])
      show "ht_count ht + 1 \<le> n" using Cons.prems(3) l by simp
    qed
    have "stored c ht (map_put c (ht_map c ht) x (Some (kv_value e))) (count_put (ht_map c ht) x (ht_count ht)) ht1"
      by (rule setf_gethash_stored[OF Cons.prems(1) 1(1)])
    then have ok: "table_ok c ht1" "ht_count ht1 \<le> ht_count ht + 1" and p: "same_parameters ht ht1"
      by (simp_all add: stored_def count_put_def)
    have w: "well_tuned ht1" using Cons.prems(2) well_tuned_same[OF p] by simp
    let ?f = "if found = None \<and> key \<noteq> No_key \<and> key_test c (kv_key e) key then Some (kv_key e) else found"
    have "\<exists>ht' k. reinsert f c ht1 es key ?f = Some (Inr (ht', k)) \<and> length (ht_table ht1) \<le> length (ht_table ht')"
    proof (rule Cons.IH[OF ok(1) w])
      show "ht_count ht1 + length (filter is_live es) \<le> n" using Cons.prems(3) ok(2) l by simp
      show "enough_size (ht_rehash_threshold ht1) n \<le> length (ht_table ht1) + d"
        using Cons.prems(4) 1(2) p by (simp add: same_parameters_def)
    qed
    then show ?thesis using Obj 1 by (auto simp: Let_def)
  next
    case No_key
    then show ?thesis using Cons by (simp add: is_live_def)
  next
    case Deleted
    then show ?thesis using Cons by (simp add: is_live_def)
  qed
qed simp

lemma rehash_ends:
  assumes e: "ends_at n d f" and s: "struct_ok c ht" and w: "well_tuned ht" and "ht_count ht \<le> n"
    and sz: "int (length (ht_table ht)) \<le> new_size ht x"
    and d: "enough_size (ht_rehash_threshold ht) n \<le> nat (new_size ht x) + d"
  shows "\<exists>ht' k. rehash (Suc f) c ht x key = Some (Inr (ht', k)) \<and> length (ht_table ht) \<le> length (ht_table ht')"
proof -
  let ?e = "resize_empty_table (nat (new_size ht x)) (ht\<lparr>ht_table := []\<rparr>)"
  have p: "same_parameters ht ?e" by (rule resize_empty_table(3))
  have n: "length (ht_table ?e) = nat (new_size ht x)" "length (ht_table ht) \<le> length (ht_table ?e)"
    using sz struct_size[OF s] by simp_all
  have thr: "threshold_ok (ht_rehash_threshold ?e)" using s p by (simp add: struct_ok_def same_parameters_def)
  have ok: "table_ok c ?e" using empty_table_ok(1)[OF resize_empty_table(1) _ resize_empty_table(2) thr] by simp
  have "\<exists>ht' k. reinsert f c ?e (ht_table ht) key None = Some (Inr (ht', k)) \<and> length (ht_table ?e) \<le> length (ht_table ht')"
  proof (rule reinsert_ends[OF e ok])
    show "well_tuned ?e" using w well_tuned_same[OF p] by simp
    show "ht_count ?e + length (filter is_live (ht_table ht)) \<le> n" using s assms(4) by (simp add: struct_ok_def)
    show "enough_size (ht_rehash_threshold ?e) n \<le> length (ht_table ?e) + d"
      using d n(1) p by (simp add: same_parameters_def)
  qed
  then show ?thesis using sz n(2) by auto
qed

lemma ends_step:
  assumes d: "d = 0 \<or> ends_at n (d - 1) f"
  shows "ends_at n d (Suc (Suc f))"
  unfolding ends_at_def
proof (intro allI impI)
  fix ht x v
  assume ok: "table_ok c ht" and w: "well_tuned ht" and n: "ht_count ht + 1 \<le> n"
    and sz: "enough_size (ht_rehash_threshold ht) n \<le> length (ht_table ht) + d"
  have s: "struct_ok c ht" using ok by (simp add: table_ok_iff)
  let ?slot = "first_free (ht_table ht) (probes (length (ht_table ht)) (sxhash_key c (Obj x) (length (ht_table ht))))"
  show "\<exists>ht'. setf_gethash (Suc (Suc f)) c ht (Obj x) v = Some (Inr ht') \<and> length (ht_table ht) \<le> length (ht_table ht')"
  proof (cases "table_ref c ht (Obj x)")
    case (Some i)
    then show ?thesis unfolding setf_gethash_Suc by simp
  next
    case None
    then have new: "ht_map c ht x = None" using ok table_ref_None_iff by blast
    obtain slot where slot: "?slot = Some slot" using first_free_found[OF ok] by blast
    let ?h = "place_new slot (Obj x) v ht"
    have l: "length (ht_table ?h) = length (ht_table ht)" "ht_count ?h \<le> n" using n by simp_all
    have p: "same_parameters ht ?h" by simp
    show ?thesis
    proof (cases "over_threshold ?h")
      case True
      have t: "0 < mantissa (ht_rehash_threshold ?h)" using w p by (simp add: well_tuned_def same_parameters_def)
      have "length (ht_table ?h) < enough_size (ht_rehash_threshold ?h) n"
        using enough_size_not_over[OF t _ l(2)] True by (meson not_le)
      then have d1: "d \<noteq> 0" using sz l(1) p by (auto simp: same_parameters_def)
      have g: "int (length (ht_table ?h)) + 1 \<le> new_size ?h True"
        using w p struct_size[OF s] l(1) by (intro new_size_grows) (simp_all add: well_tuned_def same_parameters_def)
      have "\<exists>ht' k. rehash (Suc f) c ?h True No_key = Some (Inr (ht', k)) \<and> length (ht_table ?h) \<le> length (ht_table ht')"
      proof (rule rehash_ends[OF _ place_new_struct[OF s new slot] _ l(2)])
        show "ends_at n (d - 1) f" using d d1 by simp
        show "well_tuned ?h" using w well_tuned_same[OF p] by simp
        show "enough_size (ht_rehash_threshold ?h) n \<le> nat (new_size ?h True) + (d - 1)"
          using sz g d1 p l(1) by (auto simp: same_parameters_def)
        show "int (length (ht_table ?h)) \<le> new_size ?h True" using g by simp
      qed
      then show ?thesis unfolding setf_gethash_Suc using None slot True l(1) by auto
    next
      case False
      then show ?thesis unfolding setf_gethash_Suc using None slot l(1) by simp
    qed
  qed
qed

lemma ends_fuel: "ends_at n d (Suc (Suc (2 * d + g)))"
proof (induction d)
  case 0
  show ?case by (rule ends_step) simp
next
  case (Suc d)
  have "ends_at n (Suc d) (Suc (Suc (Suc (Suc (2 * d + g)))))" by (rule ends_step) (use Suc in simp)
  then show ?case by simp
qed

end

text \<open>This much fuel is enough for a table.\<close>

definition enough_fuel :: "'a hash_table \<Rightarrow> nat" where
  "enough_fuel ht = 2 * enough_size (ht_rehash_threshold ht) (ht_count ht + 1) + 2"

context hashing
begin

lemma setf_gethash_ends:
  assumes "table_ok c ht" "well_tuned ht" "enough_fuel ht \<le> f"
  shows "\<exists>ht'. setf_gethash f c ht (Obj x) v = Some (Inr ht') \<and>
    stored c ht (map_put c (ht_map c ht) x (Some v)) (count_put (ht_map c ht) x (ht_count ht)) ht'"
proof -
  let ?d = "enough_size (ht_rehash_threshold ht) (ht_count ht + 1)"
  obtain g where "f = enough_fuel ht + g" using le_Suc_ex[OF assms(3)] by blast
  then have "f = Suc (Suc (2 * ?d + g))" by (simp add: enough_fuel_def)
  then have "ends_at (ht_count ht + 1) ?d f" using ends_fuel by simp
  then obtain ht' where ht': "setf_gethash f c ht (Obj x) v = Some (Inr ht')"
    by (rule ends_atD[OF _ assms(1,2)]) simp_all
  then show ?thesis using setf_gethash_stored[OF assms(1) ht'] by blast
qed

end

end
