(* ===== verification/HashLaws.thy ===== *)
theory HashLaws
  imports HashKeys HashTotal
begin

text \<open>
  The EQ, EQL and EQUAL tables satisfy the laws of a key class: their tests are
  equivalences and objects that test equal have the same hash code.
\<close>

section \<open>The tests are equivalences\<close>

lemma cl_eql_refl: "cl_eql x x"
  by (cases x) simp_all

lemma cl_eql_sym: "cl_eql x y \<Longrightarrow> cl_eql y x"
  by (induction x arbitrary: y) (auto split: lobj.splits)

lemma cl_eql_trans: "cl_eql x y \<Longrightarrow> cl_eql y z \<Longrightarrow> cl_eql x z"
proof (induction x arbitrary: y z)
  case (Ratio a num den)
  then show ?case by (cases y; cases z) (auto intro: cl_eql_refl)
next
  case (Complex a re im)
  then show ?case by (cases y; cases z) (auto intro: cl_eql_refl)
qed (auto split: lobj.splits)

lemma cl_equal_refl: "cl_equal x x"
  by (cases x) simp_all

lemma cl_equal_sym: "cl_equal x y \<Longrightarrow> cl_equal y x"
proof (induction x arbitrary: y)
  case (Cons_cell a car cdr)
  then show ?case by (cases y) (auto split: if_splits)
qed (use cl_eql_sym in \<open>auto split: lobj.splits\<close>)

lemma cl_equal_trans: "cl_equal x y \<Longrightarrow> cl_equal y z \<Longrightarrow> cl_equal x z"
proof (induction x arbitrary: y z)
  case (Cons_cell a car cdr)
  then show ?case by (cases y; cases z) (auto intro: cl_equal_refl split: if_splits)
next
  case (Ratio a num den)
  then show ?case by (cases y; cases z) (auto intro: cl_eql_refl cl_eql_trans)
next
  case (Complex a re im)
  then show ?case by (cases y; cases z) (auto intro: cl_eql_refl cl_eql_trans)
qed (auto split: lobj.splits)

section \<open>The hash codes respect the tests\<close>

lemma cl_eql_sxhash: "cl_eql x y \<Longrightarrow> clasp_sxhash env x = clasp_sxhash env y"
proof (induction x arbitrary: y)
  case (Ratio a num den)
  from Ratio.prems show ?case by (cases y) (auto intro!: ext dest!: Ratio.IH)
next
  case (Complex a re im)
  from Complex.prems show ?case by (cases y) (auto intro!: ext dest!: Complex.IH)
qed (auto simp: fun_eq_iff sxhash_bignum_def split: lobj.splits)

lemma cl_eql_hash: "cl_eql x y \<Longrightarrow> sxhash_eql env x hg = sxhash_eql env y hg"
  using cl_eql_sxhash[of x y env]
  by (cases x; cases y) (auto simp: sxhash_eql_def hash_object_def is_number_def)

lemma cl_equal_hash: "cl_equal x y \<Longrightarrow> sxhash_equal env x = sxhash_equal env y"
proof (induction x arbitrary: y)
  case (Cons_cell a car cdr)
  from Cons_cell.prems show ?case by (cases y) (auto intro!: ext dest!: Cons_cell.IH split: if_splits)
next
  case (Bignum a v)
  then show ?case using cl_eql_sxhash[of "Bignum a v" y env] by (cases y) (auto intro!: ext simp: hash_object_def)
next
  case (Double_float a w)
  then show ?case using cl_eql_sxhash[of "Double_float a w" y env] by (cases y) (auto intro!: ext simp: hash_object_def)
next
  case (Ratio a num den)
  then show ?case using cl_eql_sxhash[of "Ratio a num den" y env] by (cases y) (auto intro!: ext simp: hash_object_def)
next
  case (Complex a re im)
  then show ?case using cl_eql_sxhash[of "Complex a re im" y env] by (cases y) (auto intro!: ext simp: hash_object_def)
qed (auto simp: fun_eq_iff split: lobj.splits)

interpretation eq_table: hashing "eq_class env" for env
  by unfold_locales (simp_all add: eq_class_def)

interpretation eql_table: hashing "eql_class env" for env
proof unfold_locales
  fix x y z
  show "key_test (eql_class env) (Obj x) (Obj x)" by (simp add: eql_class_def obj_test_def cl_eql_refl)
  show "key_test (eql_class env) (Obj x) (Obj y) \<Longrightarrow> key_test (eql_class env) (Obj y) (Obj x)"
    by (simp add: eql_class_def obj_test_def cl_eql_sym)
  show "key_test (eql_class env) (Obj x) (Obj y) \<Longrightarrow> key_test (eql_class env) (Obj y) (Obj z) \<Longrightarrow>
    key_test (eql_class env) (Obj x) (Obj z)"
    by (simp add: eql_class_def obj_test_def) (rule cl_eql_trans)
  show "key_test (eql_class env) (Obj x) (Obj y) \<Longrightarrow> raw_hash (eql_class env) (Obj x) = raw_hash (eql_class env) (Obj y)"
    by (simp add: eql_class_def obj_test_def obj_hash_def cl_eql_hash[of x y])
qed (simp add: eql_class_def)

interpretation equal_table: hashing "equal_class env" for env
proof unfold_locales
  fix x y z
  show "key_test (equal_class env) (Obj x) (Obj x)" by (simp add: equal_class_def obj_test_def cl_equal_refl)
  show "key_test (equal_class env) (Obj x) (Obj y) \<Longrightarrow> key_test (equal_class env) (Obj y) (Obj x)"
    by (simp add: equal_class_def obj_test_def cl_equal_sym)
  show "key_test (equal_class env) (Obj x) (Obj y) \<Longrightarrow> key_test (equal_class env) (Obj y) (Obj z) \<Longrightarrow>
    key_test (equal_class env) (Obj x) (Obj z)"
    by (simp add: equal_class_def obj_test_def) (rule cl_equal_trans)
  show "key_test (equal_class env) (Obj x) (Obj y) \<Longrightarrow> raw_hash (equal_class env) (Obj x) = raw_hash (equal_class env) (Obj y)"
    by (simp add: equal_class_def obj_test_def obj_hash_def cl_equal_hash[of x y])
qed (simp add: equal_class_def)

end
