(* ===== verification/HashProgram.thy ===== *)
theory HashProgram
  imports HashLaws
begin

text \<open>
  Sequences of operations on a hash table against a map, tables written out and
  read back, and the parameters under which storing never returns.
\<close>

section \<open>Sequences of operations\<close>

datatype 'a table_op = Op_put 'a "'a tsp" | Op_rem 'a | Op_clear | Op_rehash

fun run_ops ::
  "nat \<Rightarrow> 'a key_class \<Rightarrow> 'a hash_table \<Rightarrow> 'a table_op list \<Rightarrow> (hash_error + 'a hash_table) option" where
  "run_ops f c ht [] = Some (Inr ht)"
| "run_ops f c ht (Op_put x v # ops) =
     (case setf_gethash f c ht (Obj x) v of
        None \<Rightarrow> None
      | Some (Inl e) \<Rightarrow> Some (Inl e)
      | Some (Inr ht') \<Rightarrow> run_ops f c ht' ops)"
| "run_ops f c ht (Op_rem x # ops) = run_ops f c (fst (remhash c ht (Obj x))) ops"
| "run_ops f c ht (Op_clear # ops) = run_ops f c (clrhash ht) ops"
| "run_ops f c ht (Op_rehash # ops) =
     (case force_rehash f c ht of
        None \<Rightarrow> None
      | Some (Inl e) \<Rightarrow> Some (Inl e)
      | Some (Inr ht') \<Rightarrow> run_ops f c ht' ops)"

text \<open>The same operations on a map from objects, up to the test, to values.\<close>

fun spec_ops :: "'a key_class \<Rightarrow> ('a \<Rightarrow> 'a tsp option) \<Rightarrow> 'a table_op list \<Rightarrow> 'a \<Rightarrow> 'a tsp option" where
  "spec_ops c m [] = m"
| "spec_ops c m (Op_put x v # ops) = spec_ops c (map_put c m x (Some v)) ops"
| "spec_ops c m (Op_rem x # ops) = spec_ops c (map_put c m x None) ops"
| "spec_ops c m (Op_clear # ops) = spec_ops c (\<lambda>x. None) ops"
| "spec_ops c m (Op_rehash # ops) = spec_ops c m ops"

lemma threshold_ok_fix: "threshold_ok (maybe_fix_rehash_threshold t)"
  by (auto simp: maybe_fix_rehash_threshold_def threshold_ok_def double_less_iff) (simp_all add: default_rehash_threshold_def)

lemma fix_threshold_ok: "threshold_ok t \<Longrightarrow> maybe_fix_rehash_threshold t = t"
  by (simp add: maybe_fix_rehash_threshold_def threshold_ok_def)

lemma create_table_fields:
  "ht_table (create_hash_table sz rs t) = replicate (max (sz mod 2 ^ 32) 16) free_entry"
  "ht_count (create_hash_table sz rs t) = 0"
  "ht_rehash_size (create_hash_table sz rs t) = rs"
  "ht_rehash_threshold (create_hash_table sz rs t) = maybe_fix_rehash_threshold t"
  by (auto simp: create_hash_table_def ht_setup_def new_hash_table_def resize_empty_table_def vec_resize_def Let_def max_def)

lemma create_table:
  "table_ok c (create_hash_table sz rs t)"
  "ht_map c (create_hash_table sz rs t) = (\<lambda>x. None)"
  by (rule empty_table_ok[OF create_table_fields(1) _ create_table_fields(2)];
      simp add: create_table_fields(4) threshold_ok_fix)+

lemma clrhash_stored:
  assumes "table_ok c ht"
  shows "stored c ht (\<lambda>x. None) 0 (clrhash ht)"
proof -
  have t: "threshold_ok (ht_rehash_threshold ht)" using table_okD(5)[OF assms] .
  have e: "ht_table (clrhash ht) = replicate 16 free_entry" "ht_count (clrhash ht) = 0"
    by (simp_all add: clrhash_def ht_setup_def resize_empty_table_def vec_resize_def)
  have p: "same_parameters ht (clrhash ht)"
    by (simp add: clrhash_def ht_setup_def same_parameters_def fix_threshold_ok[OF t])
  then have "threshold_ok (ht_rehash_threshold (clrhash ht))" using t by (simp add: same_parameters_def)
  then show ?thesis using empty_table_ok[OF e(1) _ e(2), of c] e(2) p by (simp add: stored_def)
qed

context hashing
begin

lemma force_rehash_ends:
  assumes ok: "table_ok c ht" and w: "well_tuned ht" and f: "enough_fuel ht + 1 \<le> f"
  shows "\<exists>ht'. force_rehash f c ht = Some (Inr ht') \<and> stored c ht (ht_map c ht) (ht_count ht) ht'"
proof -
  let ?d = "enough_size (ht_rehash_threshold ht) (ht_count ht + 1)"
  obtain g where "f = enough_fuel ht + 1 + g" using le_Suc_ex[OF f] by blast
  then have g: "f = Suc (Suc (Suc (2 * ?d + g)))" by (simp add: enough_fuel_def)
  have s: "struct_ok c ht" using ok by (simp add: table_ok_iff)
  have "\<exists>ht' k. rehash f c ht False No_key = Some (Inr (ht', k)) \<and> length (ht_table ht) \<le> length (ht_table ht')"
    unfolding g by (rule rehash_ends[OF ends_fuel[where d = ?d and n = "ht_count ht + 1"] s w]) (simp_all add: new_size_def)
  then obtain ht' k where r: "rehash f c ht False No_key = Some (Inr (ht', k))" by blast
  then have "stored c ht (ht_map c ht) (ht_count ht) ht'"
    using rehash_keeps[OF s] unfolding g by blast
  with r show ?thesis by (simp add: force_rehash_def)
qed

end

text \<open>Fuel for a sequence of operations: each of them adds at most one entry.\<close>

definition program_fuel :: "double \<Rightarrow> nat \<Rightarrow> nat" where
  "program_fuel t n = 2 * enough_size t n + 3"

lemma enough_size_mono: "0 < mantissa t \<Longrightarrow> n \<le> m \<Longrightarrow> enough_size t n \<le> enough_size t m"
  unfolding enough_size_def by (intro nat_mono ceiling_mono divide_right_mono) (simp_all add: dval_def)

lemma program_fuelD:
  assumes "0 < mantissa (ht_rehash_threshold ht)" "program_fuel (ht_rehash_threshold ht) (ht_count ht + Suc n) \<le> f"
  shows "enough_fuel ht + 1 \<le> f"
  using assms(2) enough_size_mono[OF assms(1), of "ht_count ht + 1" "ht_count ht + Suc n"]
  by (simp add: program_fuel_def enough_fuel_def)

lemma program_fuel_less:
  "0 < mantissa t \<Longrightarrow> n \<le> m \<Longrightarrow> program_fuel t m \<le> f \<Longrightarrow> program_fuel t n \<le> f"
  using enough_size_mono[of t n m] by (simp add: program_fuel_def)

context hashing
begin

lemma run_ops_refines:
  assumes "table_ok c ht" "well_tuned ht" "program_fuel (ht_rehash_threshold ht) (ht_count ht + length ops) \<le> f"
  shows "\<exists>ht'. run_ops f c ht ops = Some (Inr ht') \<and> table_ok c ht' \<and>
    same_parameters ht ht' \<and> ht_map c ht' = spec_ops c (ht_map c ht) ops"
  using assms
proof (induction ops arbitrary: ht)
  case Nil
  then show ?case by auto
next
  case (Cons p ops)
  have t: "0 < mantissa (ht_rehash_threshold ht)" using Cons.prems(2) by (simp add: well_tuned_def)
  have f: "enough_fuel ht + 1 \<le> f" "enough_fuel ht \<le> f"
    using program_fuelD[OF t] Cons.prems(3) by fastforce+
  have tail: "\<exists>ht'. run_ops f c ht1 ops = Some (Inr ht') \<and> table_ok c ht' \<and>
      same_parameters ht ht' \<and> ht_map c ht' = spec_ops c m ops"
    if st: "stored c ht m n ht1" and n: "n \<le> ht_count ht + 1" for m n ht1
  proof -
    have 1: "table_ok c ht1" "ht_map c ht1 = m" "ht_count ht1 = n" "same_parameters ht ht1"
      using st by (simp_all add: stored_def)
    have "program_fuel (ht_rehash_threshold ht1) (ht_count ht1 + length ops) \<le> f"
      using program_fuel_less[OF t _ Cons.prems(3), of "n + length ops"] n 1(3,4) by (simp add: same_parameters_def)
    from Cons.IH[OF 1(1) _ this] Cons.prems(2) well_tuned_same[OF 1(4)] 1(2) same_parameters_trans[OF 1(4)]
    show ?thesis by auto
  qed
  show ?case
  proof (cases p)
    case (Op_put x v)
    obtain ht1 where "setf_gethash f c ht (Obj x) v = Some (Inr ht1)"
      "stored c ht (map_put c (ht_map c ht) x (Some v)) (count_put (ht_map c ht) x (ht_count ht)) ht1"
      using setf_gethash_ends[OF Cons.prems(1,2) f(2)] by blast
    then show ?thesis using tail[of _ _ ht1] Op_put by (simp add: count_put_def)
  next
    case (Op_rem x)
    obtain ht1 b where r: "remhash c ht (Obj x) = (ht1, b)" by fastforce
    have "stored c ht (map_put c (ht_map c ht) x None) (ht_count ht - (if b then 1 else 0)) ht1"
      using remhash_ok[OF Cons.prems(1) r] by (simp add: stored_def)
    then show ?thesis using tail[of _ _ ht1] Op_rem r by simp
  next
    case Op_clear
    then show ?thesis using tail[OF clrhash_stored[OF Cons.prems(1)]] by simp
  next
    case Op_rehash
    obtain ht1 where "force_rehash f c ht = Some (Inr ht1)" "stored c ht (ht_map c ht) (ht_count ht) ht1"
      using force_rehash_ends[OF Cons.prems(1,2) f(1)] by blast
    then show ?thesis using tail[of _ _ ht1] Op_rehash by simp
  qed
qed

end

section \<open>Writing a table out and reading it back\<close>

definition entry_pairs :: "'a key_value_pair list \<Rightarrow> 'a tsp list" where
  "entry_pairs es = concat (map (\<lambda>e. [kv_key e, kv_value e]) es)"

lemma length_entry_pairs: "length (entry_pairs es) = 2 * length es"
  by (induction es) (simp_all add: entry_pairs_def)

lemma write_list_full: "length bs = length code \<Longrightarrow> write_list code 0 bs = bs"
  by (rule nth_equalityI) (simp_all add: write_list_nth)

lemma fold_entry_pairs: "fold (\<lambda>e res. res @ [kv_key e, kv_value e]) es acc = acc @ entry_pairs es"
  by (induction es arbitrary: acc) (simp_all add: entry_pairs_def)

lemma save_pairs_entries: "table_ok c ht \<Longrightarrow> save_pairs nil ht = entry_pairs (live_entries ht)"
  by (simp add: save_pairs_def map_hash_def fold_entry_pairs write_list_full length_entry_pairs table_okD(2) live_entries_def)

lemma hash_table_pairs_entries: "table_ok c ht \<Longrightarrow> hash_table_pairs nil ht = entry_pairs (live_entries ht)"
  by (simp add: hash_table_pairs_def write_list_full length_entry_pairs table_okD(2) live_entries_def flip: entry_pairs_def)

definition put_ops :: "'a key_value_pair list \<Rightarrow> 'a table_op list" where
  "put_ops es = map (\<lambda>e. case kv_key e of Obj x \<Rightarrow> Op_put x (kv_value e) | _ \<Rightarrow> Op_rehash) es"

lemma load_pairs_run:
  "\<forall>e \<in> set es. is_live e \<Longrightarrow> load_pairs f c ht (entry_pairs es) = run_ops f c ht (put_ops es)"
proof (induction es arbitrary: ht)
  case (Cons e es)
  then obtain x where "kv_key e = Obj x" by (auto simp: is_live_iff)
  then show ?case using Cons by (simp add: entry_pairs_def put_ops_def split: option.split sum.split)
qed (simp add: entry_pairs_def put_ops_def)

lemma spec_put_ops: "\<forall>e \<in> set es. is_live e \<Longrightarrow> spec_ops c m (put_ops es) = put_entries c m es"
proof (induction es arbitrary: m)
  case (Cons e es)
  then obtain x where "kv_key e = Obj x" by (auto simp: is_live_iff)
  then show ?case using Cons by (simp add: put_ops_def)
qed (simp add: put_ops_def)

lemma put_entries_live: "put_entries c m (filter is_live es) = put_entries c m es"
  by (induction es arbitrary: m) (auto simp: is_live_iff split: tsp.splits)

context hashing
begin

lemma load_saved:
  assumes "table_ok c ht" "table_ok c ht0" "well_tuned ht0" "program_fuel (ht_rehash_threshold ht0) (ht_count ht) \<le> f"
  shows "\<exists>ht'. load_fields f c ht0 (save_pairs nil ht) = Some (Inr ht') \<and> table_ok c ht' \<and> ht_map c ht' = ht_map c ht"
proof -
  let ?es = "live_entries ht"
  have live: "\<forall>e \<in> set ?es. is_live e" by (simp add: live_entries_def)
  have c: "table_ok c (clrhash ht0)" "ht_map c (clrhash ht0) = (\<lambda>x. None)" "ht_count (clrhash ht0) = 0"
    "same_parameters ht0 (clrhash ht0)"
    using clrhash_stored[OF assms(2)] by (simp_all add: stored_def)
  have n: "length (put_ops ?es) = ht_count ht" using table_okD(2)[OF assms(1)] by (simp add: put_ops_def live_entries_def)
  have "\<exists>ht'. run_ops f c (clrhash ht0) (put_ops ?es) = Some (Inr ht') \<and> table_ok c ht' \<and>
    same_parameters (clrhash ht0) ht' \<and> ht_map c ht' = spec_ops c (ht_map c (clrhash ht0)) (put_ops ?es)"
  proof (rule run_ops_refines[OF c(1)])
    show "well_tuned (clrhash ht0)" using assms(3) well_tuned_same[OF c(4)] by simp
    show "program_fuel (ht_rehash_threshold (clrhash ht0)) (ht_count (clrhash ht0) + length (put_ops ?es)) \<le> f"
      using assms(4) c(3,4) n by (simp add: same_parameters_def)
  qed
  moreover have "spec_ops c (\<lambda>x. None) (put_ops ?es) = ht_map c ht"
    using spec_put_ops[OF live, of c "\<lambda>x. None"] put_entries_table[OF table_okD(4)[OF assms(1)]]
    by (simp add: live_entries_def put_entries_live)
  ultimately show ?thesis
    using load_pairs_run[OF live, of f c "clrhash ht0"] by (simp add: load_fields_def save_pairs_entries[OF assms(1)] c(2)) blast
qed

end

section \<open>Parameters that never let a store return\<close>

lemma double_times_zero: "mantissa t = 0 \<Longrightarrow> mantissa (double_times t n) = 0"
  by (simp add: double_times_def round53_def Let_def)

lemma zero_threshold_over:
  assumes "mantissa (ht_rehash_threshold ht) = 0" "0 < ht_count ht"
  shows "over_threshold ht"
  using double_times_zero[OF assms(1)] assms(2) by (simp add: over_threshold_def nat_gt_double_def)

lemma search_free_table:
  assumes "\<And>i. i \<in> set cs \<Longrightarrow> table ! i = free_entry"
  shows "search_slots test table (Obj x) cs = None" "eq_search_slots table (Obj x) cs = None"
    "cs \<noteq> [] \<Longrightarrow> first_free table cs = Some (hd cs)"
  using assms by (induction cs) (simp_all add: Let_def)

lemma table_ref_free:
  assumes "ht_table ht = replicate n free_entry" "0 < n"
  shows "table_ref c ht (Obj x) = None"
    "first_free (ht_table ht) (probes n (sxhash_key c (Obj x) n)) \<noteq> None"
proof -
  let ?cs = "probes n (sxhash_key c (Obj x) n)"
  have cs: "set ?cs = {0..<n}" using assms(2) by (intro set_probes sxhash_key_less)
  then have e: "\<And>i. i \<in> set ?cs \<Longrightarrow> ht_table ht ! i = free_entry" using assms(1) by simp
  have "?cs \<noteq> []" using cs assms(2) by (metis atLeastLessThan_empty_iff2 list.set(1))
  then show "first_free (ht_table ht) ?cs \<noteq> None" using search_free_table(3)[of ?cs, OF e] by simp
  show "table_ref c ht (Obj x) = None"
    using search_free_table(1,2)[of ?cs "ht_table ht", OF e] assms(1) by (simp add: table_ref_def search_table_def)
qed

end
