(* ===== verification/HashSystem.thy ===== *)
theory HashSystem
  imports HashProgram
begin

text \<open>
  The properties of hash tables: what a sequence of operations computes, what
  survives writing a table out, and the two kinds of legal parameters under
  which storing a key never returns.
\<close>

section \<open>Stores that go round in circles\<close>

definition never_shrinks_away :: "rehash_number \<Rightarrow> bool" where
  "never_shrinks_away r \<longleftrightarrow>
     (case r of Rehash_integer i \<Rightarrow> 0 \<le> i | Rehash_float d \<Rightarrow> 0 \<le> mantissa d | Rehash_other \<Rightarrow> True)"

lemma new_size_nonneg:
  assumes "never_shrinks_away (ht_rehash_size ht)"
  shows "0 \<le> new_size ht True"
proof (cases "ht_rehash_size ht")
  case (Rehash_float d)
  then have "0 \<le> mantissa (double_times d (length (ht_table ht)))"
    using assms dval_times(3)[of d] by (simp add: never_shrinks_away_def)
  then show ?thesis using Rehash_float by (auto simp: new_size_def double_trunc_def sgn_if pos_imp_zdiv_nonneg_iff)
qed (use assms in \<open>simp_all add: never_shrinks_away_def new_size_def\<close>)

lemma reinsert_stuck:
  assumes "\<And>x v. setf_gethash f c ht (Obj x) v = None" "\<exists>e \<in> set es. is_live e"
  shows "reinsert f c ht es key found = None"
  using assms(2)
proof (induction es)
  case (Cons e es)
  show ?case
  proof (cases "kv_key e")
    case (Obj x)
    then show ?thesis using assms(1) by (simp add: Let_def)
  qed (use Cons in \<open>auto simp: is_live_def\<close>)
qed simp

lemma zero_threshold_stuck:
  assumes "mantissa (ht_rehash_threshold ht) = 0" "never_shrinks_away (ht_rehash_size ht)"
    and "table_ref c ht (Obj x) = None"
    and "first_free (ht_table ht) (probes (length (ht_table ht)) (sxhash_key c (Obj x) (length (ht_table ht)))) = Some w"
    and "w < length (ht_table ht)"
  shows "setf_gethash f c ht (Obj x) v = None"
  using assms
proof (induction f arbitrary: ht x v w rule: less_induct)
  case (less f)
  let ?h = "place_new w (Obj x) v ht"
  have "over_threshold ?h"
    using less.prems(1) table_place_new(3)[of ht w "Obj x" v] by (intro zero_threshold_over) (simp_all add: same_parameters_def)
  moreover have "rehash g c ?h True No_key = None" if g: "f = Suc g" for g
  proof (cases g)
    case (Suc g')
    let ?e = "resize_empty_table (nat (new_size ?h True)) (?h\<lparr>ht_table := []\<rparr>)"
    have p: "same_parameters ht ?e"
      by (rule same_parameters_trans[OF table_place_new(3) resize_empty_table(3)])
    have n: "0 < max (nat (new_size ?h True)) 16" by simp
    have "setf_gethash g' c ?e (Obj y) u = None" for y u
    proof -
      obtain w' where w': "first_free (ht_table ?e) (probes (length (ht_table ?e)) (sxhash_key c (Obj y) (length (ht_table ?e)))) = Some w'"
        using table_ref_free(2)[OF resize_empty_table(1) n, where c = c and x = y] by fastforce
      moreover have "w' < length (ht_table ?e)"
        using first_free_Some[OF w'] set_probes[OF sxhash_key_less[OF n], of c "Obj y"] by simp
      ultimately show ?thesis
      proof (intro less.IH)
        show "g' < f" using g Suc by simp
        show "mantissa (ht_rehash_threshold ?e) = 0" "never_shrinks_away (ht_rehash_size ?e)"
          using less.prems(1,2) p by (simp_all add: same_parameters_def)
        show "table_ref c ?e (Obj y) = None" by (rule table_ref_free(1)[OF resize_empty_table(1) n])
      qed (use w' in auto)
    qed
    moreover have "\<exists>e \<in> set (ht_table ?h). is_live e"
      using less.prems(5) by (intro bexI[of _ "\<lparr>kv_key = Obj x, kv_value = v\<rparr>"]) (simp_all add: is_live_def set_update_memI)
    ultimately have "reinsert g' c ?e (ht_table ?h) No_key None = None" by (rule reinsert_stuck)
    then show ?thesis
      using new_size_nonneg[of ?h] less.prems(2) table_place_new(3)[of ht w "Obj x" v] Suc by (simp add: same_parameters_def)
  qed simp
  ultimately show ?case using less.prems(3,4) 
    by (cases f) (simp_all add: setf_gethash_Suc del: setf_gethash.simps(2))
qed

text \<open>
  A rehash size that leaves a table of 16 slots at 16 slots: storing the twelfth
  key stores the twelve keys again into a table of the same size.
\<close>

lemma eleven_fit: "\<not> nat_gt_double n (double_times default_rehash_threshold 16)" if "n \<le> 11"
proof -
  have "\<not> nat_gt_double 11 (double_times default_rehash_threshold 16)" by code_simp
  then show ?thesis using nat_gt_double_mono[OF _ that] by blast
qed

lemma twelve_overflow: "nat_gt_double 12 (double_times default_rehash_threshold 16)"
  by code_simp

definition stays_at_16 :: "rehash_number \<Rightarrow> bool" where
  "stays_at_16 r \<longleftrightarrow>
     (case r of
        Rehash_integer i \<Rightarrow> - 16 \<le> i \<and> i \<le> 0
      | Rehash_float d \<Rightarrow> 0 \<le> double_trunc (double_times d 16) \<and> double_trunc (double_times d 16) \<le> 16
      | Rehash_other \<Rightarrow> True)"

lemma stays_at_16_new_size:
  "stays_at_16 (ht_rehash_size ht) \<Longrightarrow> length (ht_table ht) = 16 \<Longrightarrow> 0 \<le> new_size ht True \<and> nat (new_size ht True) \<le> 16"
  by (auto simp: stays_at_16_def new_size_def split: rehash_number.splits)

definition cramped :: "'a key_class \<Rightarrow> 'a hash_table \<Rightarrow> bool" where
  "cramped c ht \<longleftrightarrow>
     table_ok c ht \<and> length (ht_table ht) = 16 \<and> ht_rehash_threshold ht = default_rehash_threshold \<and>
     stays_at_16 (ht_rehash_size ht)"

context hashing
begin

lemma cramped_store:
  assumes "cramped c ht" "ht_map c ht x = None" "ht_count ht < 11"
    and "setf_gethash f c ht (Obj x) v = r"
  shows "r = None \<or> (\<exists>ht'. r = Some (Inr ht') \<and> cramped c ht' \<and> ht_count ht' = ht_count ht + 1 \<and>
    ht_map c ht' = map_put c (ht_map c ht) x (Some v))"
proof (cases f)
  case (Suc g)
  have ok: "table_ok c ht" using assms(1) by (simp add: cramped_def)
  have ref: "table_ref c ht (Obj x) = None" using assms(2) table_ref_None_iff[OF ok] by simp
  obtain w where w: "first_free (ht_table ht) (probes (length (ht_table ht)) (sxhash_key c (Obj x) (length (ht_table ht)))) = Some w"
    using first_free_found[OF ok] by blast
  have no: "\<not> over_threshold (place_new w (Obj x) v ht)"
    using assms(1,3) eleven_fit[of "ht_count ht + 1"] table_place_new(3)[of ht w "Obj x" v]
    by (simp add: over_threshold_def cramped_def same_parameters_def)
  then have r: "r = Some (Inr (place_new w (Obj x) v ht))"
    using assms(4) ref w Suc by (simp add: setf_gethash_Suc del: setf_gethash.simps(2))
  have "stored c ht (map_put c (ht_map c ht) x (Some v)) (count_put (ht_map c ht) x (ht_count ht)) (place_new w (Obj x) v ht)"
    by (rule setf_gethash_stored[OF ok]) (use assms(4) r in blast)
  then show ?thesis using r assms(1,2) by (simp add: stored_def cramped_def same_parameters_def count_put_def)
qed (use assms(4) in simp)

lemma cramped_reinsert:
  assumes stuck: "\<And>ht x v. cramped c ht \<Longrightarrow> ht_count ht = 11 \<Longrightarrow> ht_map c ht x = None \<Longrightarrow> setf_gethash f c ht (Obj x) v = None"
  shows "cramped c ht \<Longrightarrow> ht_count ht \<le> 11 \<Longrightarrow> ht_count ht + length (filter is_live es) = 12 \<Longrightarrow>
    fresh_entries c (ht_map c ht) es \<Longrightarrow> reinsert f c ht es key found = None"
proof (induction es arbitrary: ht found)
  case (Cons e es)
  show ?case
  proof (cases "kv_key e")
    case (Obj x)
    have l: "is_live e" using Obj by (simp add: is_live_iff)
    have new: "ht_map c ht x = None" "fresh_entries c (map_put c (ht_map c ht) x (Some (kv_value e))) es"
      using Cons.prems(4) Obj by simp_all
    show ?thesis
    proof (cases "ht_count ht = 11")
      case True
      then show ?thesis using stuck[OF Cons.prems(1) True new(1)] Obj by (simp add: Let_def)
    next
      case False
      then have lt: "ht_count ht < 11" using Cons.prems(2) by simp
      from cramped_store[OF Cons.prems(1) new(1) lt refl, of f "kv_value e"] show ?thesis
      proof (elim disjE exE conjE)
        fix ht1 assume 1: "setf_gethash f c ht (Obj x) (kv_value e) = Some (Inr ht1)" "cramped c ht1"
          "ht_count ht1 = ht_count ht + 1" "ht_map c ht1 = map_put c (ht_map c ht) x (Some (kv_value e))"
        have "reinsert f c ht1 es key found' = None" for found'
          using Cons.IH[OF 1(2), of found'] 1(3,4) lt Cons.prems(3) l new(2) by simp
        then show ?thesis using Obj 1(1) by (simp add: Let_def)
      qed (simp add: Obj Let_def)
    qed
  qed (use Cons in \<open>simp_all add: is_live_def\<close>)
qed simp

lemma cramped_stuck:
  "cramped c ht \<Longrightarrow> ht_count ht = 11 \<Longrightarrow> ht_map c ht x = None \<Longrightarrow> setf_gethash f c ht (Obj x) v = None"
proof (induction f arbitrary: ht x v rule: less_induct)
  case (less f)
  have ok: "table_ok c ht" and s: "struct_ok c ht" using less.prems(1) by (simp_all add: cramped_def table_ok_iff)
  have ref: "table_ref c ht (Obj x) = None" using less.prems(3) table_ref_None_iff[OF ok] by simp
  obtain w where w: "first_free (ht_table ht) (probes (length (ht_table ht)) (sxhash_key c (Obj x) (length (ht_table ht)))) = Some w"
    using first_free_found[OF ok] by blast
  let ?h = "place_new w (Obj x) v ht"
  have h: "struct_ok c ?h" "length (ht_table ?h) = 16" "ht_count ?h = 12" "ht_rehash_threshold ?h = default_rehash_threshold"
    "stays_at_16 (ht_rehash_size ?h)"
    using place_new_struct[OF s less.prems(3) w] less.prems(1,2) table_place_new(3)[of ht w "Obj x" v]
    by (simp_all add: cramped_def same_parameters_def)
  have over: "over_threshold ?h" using twelve_overflow by (simp only: over_threshold_def h(2-4))
  have "rehash g c ?h True No_key = None" if g: "f = Suc g" for g
  proof (cases g)
    case (Suc g')
    let ?e = "resize_empty_table (nat (new_size ?h True)) (?h\<lparr>ht_table := []\<rparr>)"
    have p: "same_parameters ?h ?e" by (rule resize_empty_table(3))
    have sz: "0 \<le> new_size ?h True" "nat (new_size ?h True) \<le> 16" using stays_at_16_new_size[OF h(5,2)] by simp_all
    have thr: "threshold_ok (ht_rehash_threshold ?e)" using h(1) p by (simp add: struct_ok_def same_parameters_def)
    have "table_ok c ?e" "ht_map c ?e = (\<lambda>x. None)"
      using empty_table_ok[OF resize_empty_table(1) _ resize_empty_table(2) thr] by simp_all
    moreover from this(1) have "cramped c ?e" using p h(4,5) sz(2) by (simp add: cramped_def same_parameters_def)
    moreover have "length (filter is_live (ht_table ?h)) = 12" "table_distinct c (ht_table ?h)"
      using h(1,3) by (simp_all add: struct_ok_def)
    ultimately have "reinsert g' c ?e (ht_table ?h) No_key None = None"
      using cramped_reinsert[of g' ?e "ht_table ?h"] less.IH[of g'] fresh_table[of c "ht_table ?h"] g Suc by simp
    then show ?thesis using sz(1) Suc by simp
  qed simp
  then show ?case using ref w over by (cases f) (simp_all add: setf_gethash_Suc del: setf_gethash.simps(2))
qed

lemma cramped_run:
  assumes "cramped c ht" "ht_count ht \<le> 11" "ht_count ht + length xs = 12"
    and "sorted_wrt (\<lambda>x y. \<not> key_test c (Obj x) (Obj y)) xs" "\<forall>x \<in> set xs. ht_map c ht x = None"
  shows "run_ops f c ht (map (\<lambda>x. Op_put x (val x)) xs) = None"
  using assms
proof (induction xs arbitrary: ht)
  case (Cons x xs)
  have new: "ht_map c ht x = None" using Cons.prems(5) by simp
  show ?case
  proof (cases "ht_count ht = 11")
    case True
    then show ?thesis using cramped_stuck[OF Cons.prems(1) True new] by simp
  next
    case False
    then have lt: "ht_count ht < 11" using Cons.prems(2) by simp
    from cramped_store[OF Cons.prems(1) new lt refl, of f "val x"] show ?thesis
    proof (elim disjE exE conjE)
      fix ht1 assume 1: "setf_gethash f c ht (Obj x) (val x) = Some (Inr ht1)" "cramped c ht1"
        "ht_count ht1 = ht_count ht + 1" "ht_map c ht1 = map_put c (ht_map c ht) x (Some (val x))"
      have "run_ops f c ht1 (map (\<lambda>x. Op_put x (val x)) xs) = None"
        using Cons.IH[OF 1(2)] 1(3,4) lt Cons.prems(3-5) by (simp add: map_put_def)
      then show ?thesis using 1(1) by simp
    qed simp
  qed
qed simp

end

section \<open>Properties\<close>

definition plain_env :: henv where
  "plain_env =
     \<lparr>general_badge = (\<lambda>a. word_of_nat a), cons_badge = (\<lambda>a. word_of_nat a), sym_home = (\<lambda>a. None),
      sym_name_of = (\<lambda>a. [a]), nil_home = 0, marker_bits = (\<lambda>k. 0), wild_integer = (\<lambda>d. 0), upcase_char = (\<lambda>ch. ch)\<rparr>"

definition standard_class :: "henv \<Rightarrow> lobj key_class \<Rightarrow> bool" where
  "standard_class env c \<longleftrightarrow> c = eq_class env \<or> c = eql_class env \<or> c = equal_class env"

lemma standard_hashing: "standard_class env c \<Longrightarrow> hashing c"
  using eq_table.hashing_axioms eql_table.hashing_axioms equal_table.hashing_axioms by (auto simp: standard_class_def)

definition two_point_zero :: double where
  "two_point_zero = \<lparr>mantissa = 1, expo = 1\<rparr>"

lemma default_grows: "grows (Rehash_float two_point_zero)"
  by (simp add: grows_def two_point_zero_def double_less_def)

lemma fix_default [simp]: "maybe_fix_rehash_threshold default_rehash_threshold = default_rehash_threshold"
  by code_simp

lemma dval_default_pos: "0 < mantissa default_rehash_threshold"
  by (simp add: default_rehash_threshold_def)

lemma fixed_mantissa: "0 < mantissa t \<Longrightarrow> 0 < mantissa (maybe_fix_rehash_threshold t)"
  by (simp add: maybe_fix_rehash_threshold_def dval_default_pos)


lemma default_fuel: "program_fuel default_rehash_threshold 3 \<le> 40"
  by (simp add: program_fuel_def enough_size_def dval_default ceiling_le_iff)




text \<open>C0: a rehash threshold of zero, which \<open>make-hash-table\<close> accepts as the standard allows it, makes the first
  \<open>setf gethash\<close> on a new table run forever, whatever the class of the table: the entry is stored, one entry is
  more than none, so the table is made again and the entry stored into the new table, and so on.\<close>
theorem zero_threshold_never_returns:
  fixes c :: "'a key_class"
  assumes "mantissa t = 0" "never_shrinks_away rs"
  shows "setf_gethash f c (create_hash_table sz rs t) (Obj x) v = None"
proof -
  have t: "mantissa (maybe_fix_rehash_threshold t) = 0"
    using assms(1) by (simp add: maybe_fix_rehash_threshold_def double_less_iff dval_default) (simp add: dval_def)
  have n: "0 < max (sz mod 2 ^ 32) 16" by simp
  obtain w where w: "first_free (ht_table (create_hash_table sz rs t :: 'a hash_table))
      (probes (max (sz mod 2 ^ 32) 16) (sxhash_key c (Obj x) (max (sz mod 2 ^ 32) 16))) = Some w"
    using table_ref_free(2)[OF create_table_fields(1)[of sz rs t] n, where c = c and x = x] by blast
  have wn: "w < max (sz mod 2 ^ 32) 16" using first_free_Some[OF w] set_probes[OF sxhash_key_less[OF n], of c "Obj x"] by simp
  show ?thesis
  proof (rule zero_threshold_stuck)
    show "table_ref c (create_hash_table sz rs t) (Obj x) = None" by (rule table_ref_free(1)[OF create_table_fields(1) n])
  qed (use t assms(2) w wn in \<open>simp_all add: create_table_fields\<close>)
qed

theorem zero_threshold_never_returns_witness:
  "setf_gethash 100 (eql_class plain_env) (create_hash_table 16 (Rehash_float two_point_zero) \<lparr>mantissa = 0, expo = 0\<rparr>)
     (Obj (Fixnum 1)) (Obj (Fixnum 2)) = None"
  by (rule zero_threshold_never_returns) (simp_all add: never_shrinks_away_def two_point_zero_def)

text \<open>C33: a rehash size that does not take a table of 16 slots to 17, such as 1.05, which the standard allows, makes
  storing twelve different keys into a new table run forever: at the twelfth the table is over its threshold,
  and its twelve entries are stored again into a table of 16 slots, where the twelfth is too many again.\<close>
theorem small_rehash_size_never_returns:
  assumes "standard_class env c" "stays_at_16 rs"
    and "length xs = 12" "sorted_wrt (\<lambda>x y. \<not> key_test c (Obj x) (Obj y)) xs"
  shows "run_ops f c (create_hash_table 16 rs default_rehash_threshold) (map (\<lambda>x. Op_put x (val x)) xs) = None"
proof (rule hashing.cramped_run[OF standard_hashing[OF assms(1)]])
  show "cramped c (create_hash_table 16 rs default_rehash_threshold)"
    using assms(2) by (simp add: cramped_def create_table(1) create_table_fields)
qed (use assms(3,4) in \<open>simp_all add: create_table(2) create_table_fields\<close>)

theorem small_rehash_size_never_returns_witness:
  "run_ops 1000 (eql_class plain_env)
     (create_hash_table 16 (Rehash_float \<lparr>mantissa = 4728779608739021, expo = - 52\<rparr>) default_rehash_threshold)
     (map (\<lambda>x. Op_put x (Obj x)) (map Fixnum [1, 2, 3, 4, 5, 6, 7, 8, 9, 10, 11, 12])) = None"
proof (rule small_rehash_size_never_returns)
  show "standard_class plain_env (eql_class plain_env)" by (simp add: standard_class_def)
  show "stays_at_16 (Rehash_float \<lparr>mantissa = 4728779608739021, expo = - 52\<rparr>)" by code_simp
qed (simp_all add: eql_class_def obj_test_def)

section \<open>Where the hash codes of EQUALP tables go wrong\<close>

text \<open>Minus one as a fixnum and as a single float are EQUALP; their hash codes differ.\<close>

lemma equalp_hash_differs:
  "decode_single 0xBF800000 = Some \<lparr>mantissa = - 8388608, expo = - 23\<rparr>"
  "hg_parts (sxhash_equalp env (Fixnum (- 1)) new_generator) = [- 1]"
  "hg_parts (sxhash_equalp env (Single_float 0xBF800000) new_generator) = [1]"
  by (simp_all add: decode_single_def decode_float_def when_filling_def is_filling_def new_generator_def add_value_def
      is_full_def abs_floor_def floor_double_def)

text \<open>The hash code of a symbol in an EQUAL table changes when the symbol loses its home package.\<close>

lemma unintern_changes_hash:
  "hg_parts (sxhash_equal (env\<lparr>sym_home := (\<lambda>a. Some p)\<rparr>) (Symbol a) new_generator) =
     [ucast (general_badge env p), fold (\<lambda>c hash. push_bit 5 hash + hash + word_of_nat c) (sym_name_of env a) 5381]"
  "length (hg_parts (sxhash_equal (env\<lparr>sym_home := (\<lambda>a. None)\<rparr>) (Symbol a) new_generator)) = 3"
  by (simp_all add: sxhash_equal_symbol_def when_filling_def is_filling_def new_generator_def sxhash_equal_package_def
      add_value_def is_full_def ranged_sxhash_def)

text \<open>After \<open>remhash\<close> the slot of the key is still a bucket, with the marker as its key.\<close>

lemma bucket_of_deleted:
  assumes "i < length (ht_table ht)" "kv_value (ht_table ht ! i) = Obj v"
  shows "hash_table_bucket (bury i ht) i = Some (Deleted, Obj v)"
  using assms by (simp add: hash_table_bucket_def)

end
