(* ===== verification/QuickSort.thy ===== *)
theory QuickSort
  imports Prelude "HOL-Library.Multiset"
begin

text \<open>
  Sorting (sort.h): quicksort on a range of a vector with a stack of ranges still
  to be sorted, \<open>cl:sort\<close> on top of it (lisp.cc), and the order in which classes
  are tried by single dispatch (singleDispatchGenericFunction.cc).
\<close>

section \<open>The program\<close>

definition swap_elems :: "'a list \<Rightarrow> nat \<Rightarrow> nat \<Rightarrow> 'a list" where
  "swap_elems a x y = (let t = a ! x in (a[x := a ! y])[y := t])"

text \<open>The two inner loops.  The second is given \<open>j + 1\<close>, as \<open>j\<close> may come to stand before \<open>i\<close>.\<close>

function scan_up :: "('a \<Rightarrow> 'a \<Rightarrow> bool) \<Rightarrow> 'a list \<Rightarrow> nat \<Rightarrow> nat \<Rightarrow> nat \<Rightarrow> nat" where
  "scan_up comparer a m n i = (if i \<le> n \<and> comparer (a ! i) (a ! m) then scan_up comparer a m n (i + 1) else i)"
  by pat_completeness auto
termination by (relation "measure (\<lambda>(c, a, m, n, i). Suc n - i)") auto

function scan_down :: "('a \<Rightarrow> 'a \<Rightarrow> bool) \<Rightarrow> 'a list \<Rightarrow> nat \<Rightarrow> nat \<Rightarrow> nat \<Rightarrow> nat" where
  "scan_down comparer a m i j1 =
     (if i < j1 \<and> \<not> comparer (a ! (j1 - 1)) (a ! m) then scan_down comparer a m i (j1 - 1) else j1)"
  by pat_completeness auto
termination by (relation "measure (\<lambda>(c, a, m, i, j1). j1)") auto

declare scan_up.simps [simp del] scan_down.simps [simp del]

text \<open>
  The loops that repeat them may run for ever on an inconsistent memory, so they
  are partial here; on a range of the vector they are shown to return.
\<close>

partial_function (option) partition_loop ::
  "('a \<Rightarrow> 'a \<Rightarrow> bool) \<Rightarrow> 'a list \<Rightarrow> nat \<Rightarrow> nat \<Rightarrow> nat \<Rightarrow> nat \<Rightarrow> ('a list \<times> nat) option" where
  [code]: "partition_loop comparer a m n i j1 =
     (if i < j1
      then
        let i' = scan_up comparer a m n i;
            j1' = scan_down comparer a m i' j1;
            a' = (if i' + 1 < j1' then swap_elems a i' (j1' - 1) else a)
        in partition_loop comparer a' m n i' j1'
      else Some (a, j1))"

text \<open>One range: the middle element becomes the pivot, and ends up between the two parts.\<close>

definition partition_range :: "('a \<Rightarrow> 'a \<Rightarrow> bool) \<Rightarrow> 'a list \<Rightarrow> nat \<Rightarrow> nat \<Rightarrow> ('a list \<times> nat) option" where
  "partition_range comparer a m en =
     (let n = en - 1;
          k = m + (n - m) div 2;
          a1 = swap_elems a m k
      in case partition_loop comparer a1 m n (m + 1) (n + 1) of
           None \<Rightarrow> None
         | Some (a2, j1) \<Rightarrow> Some (swap_elems a2 m (j1 - 1), j1 - 1))"

partial_function (option) quick_sort_loop ::
  "('a \<Rightarrow> 'a \<Rightarrow> bool) \<Rightarrow> 'a list \<Rightarrow> (nat \<times> nat) list \<Rightarrow> 'a list option" where
  [code]: "quick_sort_loop comparer a work =
     (case work of
        [] \<Rightarrow> Some a
      | (m, en) # work' \<Rightarrow>
          if en - m \<le> 1 then quick_sort_loop comparer a work'
          else
            (case partition_range comparer a m en of
               None \<Rightarrow> None
             | Some (a', j) \<Rightarrow> quick_sort_loop comparer a' ((j + 1, en) # (m, j) # work')))"

definition quick_sort :: "('a \<Rightarrow> 'a \<Rightarrow> bool) \<Rightarrow> 'a list \<Rightarrow> nat \<Rightarrow> nat \<Rightarrow> 'a list option" where
  "quick_sort comparer a m en = quick_sort_loop comparer a [(m, en)]"

text \<open>The variant that leaves a range alone when its neighbours are in order.\<close>

definition in_order :: "('a \<Rightarrow> 'a \<Rightarrow> bool) \<Rightarrow> 'a list \<Rightarrow> nat \<Rightarrow> nat \<Rightarrow> bool" where
  "in_order comparer a m en = list_all (\<lambda>ii. comparer (a ! ii) (a ! (ii + 1))) [m..<en - 1]"

partial_function (option) check_sort_loop ::
  "('a \<Rightarrow> 'a \<Rightarrow> bool) \<Rightarrow> 'a list \<Rightarrow> (nat \<times> nat) list \<Rightarrow> 'a list option" where
  [code]: "check_sort_loop comparer a work =
     (case work of
        [] \<Rightarrow> Some a
      | (m, en) # work' \<Rightarrow>
          if en - m \<le> 1 then check_sort_loop comparer a work'
          else if in_order comparer a m en then check_sort_loop comparer a work'
          else
            (case partition_range comparer a m en of
               None \<Rightarrow> None
             | Some (a', j) \<Rightarrow> check_sort_loop comparer a' ((j + 1, en) # (m, j) # work')))"

definition quick_sort_first_check_order :: "('a \<Rightarrow> 'a \<Rightarrow> bool) \<Rightarrow> 'a list \<Rightarrow> nat \<Rightarrow> nat \<Rightarrow> 'a list option" where
  "quick_sort_first_check_order comparer a m en = check_sort_loop comparer a [(m, en)]"

text \<open>\<open>cl:sort\<close> of a list with a predicate and a key function.\<close>

definition order_by_sort_function :: "('k \<Rightarrow> 'k \<Rightarrow> bool) \<Rightarrow> ('a \<Rightarrow> 'k) \<Rightarrow> 'a \<Rightarrow> 'a \<Rightarrow> bool" where
  "order_by_sort_function proc key x y = proc (key x) (key y)"

definition cl_sort :: "'a list \<Rightarrow> ('k \<Rightarrow> 'k \<Rightarrow> bool) \<Rightarrow> ('a \<Rightarrow> 'k) \<Rightarrow> 'a list option" where
  "cl_sort sequence predicate key =
     (if length sequence = 0 then Some []
      else quick_sort (order_by_sort_function predicate key) sequence 0 (length sequence))"

text \<open>
  A dispatch vector alternates classes and methods; it is a list of pairs here.  A
  class comes before another when it is in the precedence list of the other.
\<close>

definition order_by_class_precedence :: "('c \<Rightarrow> 'c list) \<Rightarrow> 'c \<Rightarrow> 'c \<Rightarrow> bool" where
  "order_by_class_precedence cpl x y \<longleftrightarrow> cpl y \<noteq> [] \<and> x \<in> set (cpl y)"

fun rebuild_vector :: "('c \<times> 'm) list \<Rightarrow> 'c list \<Rightarrow> ('c \<times> 'm) list option" where
  "rebuild_vector vec [] = Some []"
| "rebuild_vector vec (cl # cls) =
     (case find (\<lambda>(c, m). c = cl) vec of
        None \<Rightarrow> None
      | Some (c, m) \<Rightarrow>
          (case rebuild_vector vec cls of None \<Rightarrow> None | Some rest \<Rightarrow> Some ((cl, m) # rest)))"

definition sort_dispatch_vector :: "('c \<Rightarrow> 'c list) \<Rightarrow> ('c \<times> 'm) list \<Rightarrow> ('c \<times> 'm) list option" where
  "sort_dispatch_vector cpl vec =
     (if 2 * length vec \<le> 2 then Some vec
      else
        case quick_sort (order_by_class_precedence cpl) (map fst vec) 0 (length vec) of
          None \<Rightarrow> None
        | Some classes \<Rightarrow> rebuild_vector vec classes)"

section \<open>The inner loops\<close>

lemma scan_up_stop: "\<not> (i \<le> n \<and> c (a ! i) (a ! m)) \<Longrightarrow> scan_up c a m n i = i"
  by (subst scan_up.simps) (simp only: if_False)

lemma scan_up_more: "i \<le> n \<and> c (a ! i) (a ! m) \<Longrightarrow> scan_up c a m n i = scan_up c a m n (i + 1)"
  by (subst scan_up.simps) (simp only: if_True simp_thms)

lemma scan_down_stop: "\<not> (i < j \<and> \<not> c (a ! (j - 1)) (a ! m)) \<Longrightarrow> scan_down c a m i j = j"
  by (subst scan_down.simps) (simp only: if_False)

lemma scan_down_more: "i < j \<and> \<not> c (a ! (j - 1)) (a ! m) \<Longrightarrow> scan_down c a m i j = scan_down c a m i (j - 1)"
  by (subst scan_down.simps) (simp only: if_True simp_thms)

lemma scan_up_ge: "i \<le> scan_up c a m n i"
proof (induction c a m n i rule: scan_up.induct)
  case (1 c a m n i)
  show ?case
  proof (cases "i \<le> n \<and> c (a ! i) (a ! m)")
    case True
    show ?thesis using 1[OF True] unfolding scan_up_more[of i n c a m, OF True] by linarith
  next
    case False
    show ?thesis unfolding scan_up_stop[of i n c a m, OF False] by simp
  qed
qed

lemma scan_up_le: "i \<le> Suc n \<Longrightarrow> scan_up c a m n i \<le> Suc n"
proof (induction c a m n i rule: scan_up.induct)
  case (1 c a m n i)
  show ?case
  proof (cases "i \<le> n \<and> c (a ! i) (a ! m)")
    case True
    then have "i + 1 \<le> Suc n" by simp
    then show ?thesis using 1(1)[OF True] unfolding scan_up_more[of i n c a m, OF True] by blast
  next
    case False
    show ?thesis using 1(2) unfolding scan_up_stop[of i n c a m, OF False] .
  qed
qed

lemma scan_up_below: "i \<le> k \<Longrightarrow> k < scan_up c a m n i \<Longrightarrow> c (a ! k) (a ! m)"
proof (induction c a m n i rule: scan_up.induct)
  case (1 c a m n i)
  show ?case
  proof (cases "i \<le> n \<and> c (a ! i) (a ! m)")
    case True
    show ?thesis
    proof (cases "k = i")
      case False
      then have "i + 1 \<le> k" using 1(2) by simp
      then show ?thesis using 1(1)[OF True] 1(3) unfolding scan_up_more[of i n c a m, OF True] by blast
    qed (use True in simp)
  next
    case False
    then show ?thesis using 1(2,3) unfolding scan_up_stop[of i n c a m, OF False] by linarith
  qed
qed

lemma scan_up_at: "scan_up c a m n i \<le> n \<Longrightarrow> \<not> c (a ! scan_up c a m n i) (a ! m)"
proof (induction c a m n i rule: scan_up.induct)
  case (1 c a m n i)
  show ?case
  proof (cases "i \<le> n \<and> c (a ! i) (a ! m)")
    case True
    show ?thesis using 1(1)[OF True] 1(2) unfolding scan_up_more[of i n c a m, OF True] .
  next
    case False
    show ?thesis using False 1(2) unfolding scan_up_stop[of i n c a m, OF False] by blast
  qed
qed

lemma scan_down_le: "scan_down c a m i j \<le> j"
proof (induction c a m i j rule: scan_down.induct)
  case (1 c a m i j)
  show ?case
  proof (cases "i < j \<and> \<not> c (a ! (j - 1)) (a ! m)")
    case True
    show ?thesis using 1[OF True] unfolding scan_down_more[of i j c a m, OF True] by linarith
  next
    case False
    show ?thesis unfolding scan_down_stop[of i j c a m, OF False] by simp
  qed
qed

lemma scan_down_ge: "i \<le> j \<Longrightarrow> i \<le> scan_down c a m i j"
proof (induction c a m i j rule: scan_down.induct)
  case (1 c a m i j)
  show ?case
  proof (cases "i < j \<and> \<not> c (a ! (j - 1)) (a ! m)")
    case True
    then have "i \<le> j - 1" by linarith
    then show ?thesis using 1(1)[OF True] unfolding scan_down_more[of i j c a m, OF True] by blast
  next
    case False
    show ?thesis using 1(2) unfolding scan_down_stop[of i j c a m, OF False] .
  qed
qed

lemma scan_down_above: "scan_down c a m i j \<le> k \<Longrightarrow> k < j \<Longrightarrow> \<not> c (a ! k) (a ! m)"
proof (induction c a m i j rule: scan_down.induct)
  case (1 c a m i j)
  show ?case
  proof (cases "i < j \<and> \<not> c (a ! (j - 1)) (a ! m)")
    case True
    show ?thesis
    proof (cases "k = j - 1")
      case False
      then have "k < j - 1" using 1(3) by linarith
      then show ?thesis using 1(1)[OF True] 1(2) unfolding scan_down_more[of i j c a m, OF True] by blast
    qed (use True in simp)
  next
    case False
    show ?thesis using 1(2,3) unfolding scan_down_stop[of i j c a m, OF False] by linarith
  qed
qed

lemma scan_down_at: "i < scan_down c a m i j \<Longrightarrow> c (a ! (scan_down c a m i j - 1)) (a ! m)"
proof (induction c a m i j rule: scan_down.induct)
  case (1 c a m i j)
  show ?case
  proof (cases "i < j \<and> \<not> c (a ! (j - 1)) (a ! m)")
    case True
    show ?thesis using 1(1)[OF True] 1(2) unfolding scan_down_more[of i j c a m, OF True] .
  next
    case False
    show ?thesis using False 1(2) unfolding scan_down_stop[of i j c a m, OF False] by blast
  qed
qed

section \<open>Permutations of a range\<close>

definition perm_in :: "nat \<Rightarrow> nat \<Rightarrow> 'a list \<Rightarrow> 'a list \<Rightarrow> bool" where
  "perm_in m e a b \<longleftrightarrow> length b = length a \<and> mset b = mset a \<and> (\<forall>i. i < m \<or> e \<le> i \<longrightarrow> b ! i = a ! i)"

lemma perm_in_refl [simp]: "perm_in m e a a"
  by (simp add: perm_in_def)

lemma perm_in_trans: "perm_in m e a b \<Longrightarrow> perm_in m e b d \<Longrightarrow> perm_in m e a d"
  by (simp add: perm_in_def)

lemma perm_in_mono: "perm_in m e a b \<Longrightarrow> m' \<le> m \<Longrightarrow> e \<le> e' \<Longrightarrow> perm_in m' e' a b"
  by (auto simp: perm_in_def)

lemma length_swap [simp]: "length (swap_elems a x y) = length a"
  by (simp add: swap_elems_def Let_def)

lemma nth_swap:
  "x < length a \<Longrightarrow> y < length a \<Longrightarrow>
   swap_elems a x y ! k = (if k = y then a ! x else if k = x then a ! y else a ! k)"
  by (simp add: swap_elems_def Let_def nth_list_update)

lemma perm_in_swap:
  assumes "m \<le> x" "m \<le> y" "x < e" "y < e" "e \<le> length a"
  shows "perm_in m e a (swap_elems a x y)"
proof -
  have "mset (swap_elems a x y) = mset a"
    using mset_swap[of y a x] assms by (simp add: swap_elems_def Let_def)
  then show ?thesis using assms by (auto simp: perm_in_def nth_swap)
qed

text \<open>A permutation of a range keeps what holds of every element of the range.\<close>

lemma perm_in_range:
  assumes p: "perm_in m e a b" and "e \<le> length a" and all: "\<And>k. m \<le> k \<Longrightarrow> k < e \<Longrightarrow> P (a ! k)" and k: "m \<le> k" "k < e"
  shows "P (b ! k)"
proof -
  have l: "length b = length a" using p by (simp add: perm_in_def)
  have t: "take m b = take m a" by (rule nth_equalityI) (use p k assms(2) in \<open>simp_all add: perm_in_def\<close>)
  have d: "drop e b = drop e a" by (rule nth_equalityI) (use p assms(2) in \<open>simp_all add: perm_in_def\<close>)
  have split: "mset xs = mset (take m xs) + mset (take (e - m) (drop m xs)) + mset (drop e xs)" for xs :: "'a list"
  proof -
    have "xs = take m xs @ take (e - m) (drop m xs) @ drop (e - m) (drop m xs)" by (simp only: append_take_drop_id)
    then have "mset xs = mset (take m xs) + (mset (take (e - m) (drop m xs)) + mset (drop (e - m) (drop m xs)))"
      by (metis mset_append)
    moreover have "drop (e - m) (drop m xs) = drop e xs" using k by simp
    ultimately show ?thesis by (simp add: add.assoc)
  qed
  have "mset (take (e - m) (drop m b)) = mset (take (e - m) (drop m a))"
    using split[of a] split[of b] p t d by (simp add: perm_in_def)
  then have s: "set (take (e - m) (drop m b)) = set (take (e - m) (drop m a))" by (metis set_mset_mset)
  have "b ! k \<in> set (take (e - m) (drop m b))"
    using k assms(2) l by (auto simp: in_set_conv_nth intro!: exI[of _ "k - m"])
  then have "b ! k \<in> set (take (e - m) (drop m a))" by (simp only: s)
  then obtain k' where "k' < e - m" "b ! k = a ! (m + k')" using assms(2) k by (auto simp: in_set_conv_nth)
  then show ?thesis using all[of "m + k'"] by simp
qed

section \<open>Partitioning\<close>

definition parted :: "('a \<Rightarrow> 'a \<Rightarrow> bool) \<Rightarrow> 'a list \<Rightarrow> nat \<Rightarrow> nat \<Rightarrow> nat \<Rightarrow> nat \<Rightarrow> bool" where
  "parted c a m n i j \<longleftrightarrow>
     (\<forall>k. m < k \<and> k < i \<longrightarrow> c (a ! k) (a ! m)) \<and> (\<forall>k. j \<le> k \<and> k \<le> n \<longrightarrow> \<not> c (a ! k) (a ! m))"

lemma partition_loop_end: "\<not> i < j \<Longrightarrow> partition_loop c a m n i j = Some (a, j)"
  by (subst partition_loop.simps) simp

lemma scans:
  assumes "parted c a m n i j" "m < i" "i < j" "j \<le> n + 1"
  defines "i' \<equiv> scan_up c a m n i" and "j' \<equiv> scan_down c a m (scan_up c a m n i) j"
  shows "i \<le> i'" "i' \<le> j'" "j' \<le> j" "parted c a m n i' j'"
    "i' < j' \<Longrightarrow> \<not> c (a ! i') (a ! m)" "i' < j' \<Longrightarrow> c (a ! (j' - 1)) (a ! m)"
proof -
  show i: "i \<le> i'" unfolding i'_def by (rule scan_up_ge)
  have "i' \<le> j"
  proof (rule ccontr)
    assume "\<not> i' \<le> j"
    then have "j < i'" by simp
    moreover have "i' \<le> n + 1" using scan_up_le[of i n c a m] assms(3,4) by (simp add: i'_def)
    ultimately have "c (a ! j) (a ! m)" "j \<le> n" using scan_up_below[of i j c a m n] assms(3) by (simp_all add: i'_def)
    then show False using assms(1) by (simp add: parted_def)
  qed
  then show ij: "i' \<le> j'" unfolding i'_def j'_def by (rule scan_down_ge)
  show jj: "j' \<le> j" unfolding j'_def by (rule scan_down_le)
  show "parted c a m n i' j'"
    unfolding parted_def
  proof (intro conjI allI impI)
    fix k assume "m < k \<and> k < i'"
    then show "c (a ! k) (a ! m)" using assms(1) scan_up_below[of i k c a m n] by (cases "k < i") (auto simp: parted_def i'_def)
  next
    fix k assume "j' \<le> k \<and> k \<le> n"
    then show "\<not> c (a ! k) (a ! m)"
      using assms(1) scan_down_above[of c a m "scan_up c a m n i" j k] by (cases "k < j") (auto simp: parted_def j'_def)
  qed
  show "\<not> c (a ! i') (a ! m)" if "i' < j'"
    using scan_up_at[of c a m n i] that jj assms(4) by (simp add: i'_def)
  show "c (a ! (j' - 1)) (a ! m)" if "i' < j'"
    using scan_down_at[of "scan_up c a m n i" c a m j] that by (simp add: i'_def j'_def)
qed

definition stuck :: "('a \<Rightarrow> 'a \<Rightarrow> bool) \<Rightarrow> 'a list \<Rightarrow> nat \<Rightarrow> nat \<Rightarrow> nat \<Rightarrow> nat" where
  "stuck c a m i j = (if \<not> c (a ! i) (a ! m) \<and> c (a ! (j - 1)) (a ! m) then 1 else 0)"

lemma partition_loop_spec:
  assumes "parted c a m n i j" "m < i" "i \<le> j" "j \<le> n + 1" "n < length a"
  shows "\<exists>a' k. partition_loop c a m n i j = Some (a', k) \<and> perm_in (m + 1) (n + 1) a a' \<and> m < k \<and> k \<le> n + 1 \<and> parted c a' m n k k"
  using assms
proof (induction "2 * (j - i) + stuck c a m i j" arbitrary: a i j rule: less_induct)
  case less
  show ?case
  proof (cases "i < j")
    case False
    then have "i = j" using less.prems(3) by simp
    then show ?thesis using less.prems by (simp add: partition_loop_end)
  next
    case True
    define i' j' where "i' = scan_up c a m n i" and "j' = scan_down c a m (scan_up c a m n i) j"
    note S = scans[OF less.prems(1,2) True less.prems(4), folded i'_def j'_def]
    have loop: "partition_loop c a m n i j =
        partition_loop c (if i' + 1 < j' then swap_elems a i' (j' - 1) else a) m n i' j'"
      using True by (subst partition_loop.simps) (simp add: i'_def j'_def Let_def)
    show ?thesis
    proof (cases "i' + 1 < j'")
      case False
      have "i' = j'"
      proof (rule ccontr)
        assume "i' \<noteq> j'"
        then have "i' < j'" "j' - 1 = i'" using False S(2) by linarith+
        then show False using S(5,6) by simp
      qed
      then show ?thesis using loop S less.prems(2,4) by (auto simp: partition_loop_end)
    next
      case lt: True
      let ?a = "swap_elems a i' (j' - 1)"
      have b: "i' < length a" "j' - 1 < length a" "m < i'" "m < j' - 1" "i' \<noteq> j' - 1"
        using lt S(1,3) less.prems(2,4,5) by linarith+
      have p: "perm_in (m + 1) (n + 1) a ?a"
        using b S(3) less.prems(4,5) lt by (intro perm_in_swap) linarith+
      have m: "?a ! m = a ! m" using b by (simp add: nth_swap)
      have part: "parted c ?a m n i' j'"
        using S(4) b lt unfolding parted_def m by (auto simp: nth_swap)
      have new: "stuck c ?a m i' j' = 0" using b S(6) lt m by (simp add: stuck_def nth_swap)
      have dec: "2 * (j' - i') + stuck c ?a m i' j' < 2 * (j - i) + stuck c a m i j"
      proof (cases "i' = i \<and> j' = j")
        case True
        then have "stuck c a m i j = 1" using S(5,6) lt by (simp add: stuck_def)
        then show ?thesis using True new by simp
      next
        case False
        then have "j' - i' < j - i" using S(1-3) True lt by linarith
        then show ?thesis using new by simp
      qed
      have "\<exists>a' k. partition_loop c ?a m n i' j' = Some (a', k) \<and> perm_in (m + 1) (n + 1) ?a a' \<and>
          m < k \<and> k \<le> n + 1 \<and> parted c a' m n k k"
        using b S(2,3) less.prems(4,5) by (intro less.hyps[OF dec part]) simp_all
      then show ?thesis using loop lt perm_in_trans[OF p] by auto
    qed
  qed
qed

lemma partition_range_spec:
  assumes "m + 1 < en" "en \<le> length a"
  shows "\<exists>a' j. partition_range c a m en = Some (a', j) \<and> perm_in m en a a' \<and> m \<le> j \<and> j < en \<and>
    (\<forall>k. m \<le> k \<and> k < j \<longrightarrow> c (a' ! k) (a' ! j)) \<and> (\<forall>k. j < k \<and> k < en \<longrightarrow> \<not> c (a' ! k) (a' ! j))"
proof -
  let ?n = "en - 1" and ?k = "m + (en - 1 - m) div 2"
  let ?a1 = "swap_elems a m ?k"
  have n: "?n + 1 = en" "m < ?n" using assms(1) by linarith+
  have "(en - 1 - m) div 2 \<le> en - 1 - m" by simp
  then have k: "?k < en" "m \<le> ?k" using assms(1) by linarith+
  have p1: "perm_in m en a ?a1" using k assms by (intro perm_in_swap) linarith+
  have "\<exists>a2 j1. partition_loop c ?a1 m ?n (m + 1) (?n + 1) = Some (a2, j1) \<and> perm_in (m + 1) (?n + 1) ?a1 a2 \<and>
      m < j1 \<and> j1 \<le> ?n + 1 \<and> parted c a2 m ?n j1 j1"
    using n assms by (intro partition_loop_spec) (auto simp: parted_def)
  then obtain a2 j1 where 2: "partition_loop c ?a1 m ?n (m + 1) (?n + 1) = Some (a2, j1)" "perm_in (m + 1) en ?a1 a2"
    "m < j1" "j1 \<le> en" "parted c a2 m ?n j1 j1" unfolding n(1) by blast
  have l: "length a2 = length a" using 2(2) by (simp add: perm_in_def)
  let ?a3 = "swap_elems a2 m (j1 - 1)"
  have j: "m \<le> j1 - 1" "j1 - 1 < en" using 2(3,4) by linarith+
  have p3: "perm_in m en a2 ?a3" using j assms l by (intro perm_in_swap) linarith+
  have p: "perm_in m en a ?a3"
    using perm_in_trans[OF perm_in_trans[OF p1 perm_in_mono[OF 2(2)]] p3] by simp
  have len: "m < length a2" "j1 - 1 < length a2" using j assms l by linarith+
  have low: "c (?a3 ! k) (?a3 ! (j1 - 1))" if "m \<le> k" "k < j1 - 1" for k
    using 2(5) that len j unfolding parted_def nth_swap[OF len] by (cases "k = m") auto
  have high: "\<not> c (?a3 ! k) (?a3 ! (j1 - 1))" if "j1 - 1 < k" "k < en" for k
  proof -
    have "j1 \<le> k" "k \<le> ?n" "k \<noteq> m" using that j by linarith+
    then show ?thesis using 2(5) that unfolding parted_def nth_swap[OF len] by simp
  qed
  have "partition_range c a m en = Some (?a3, j1 - 1)" using 2(1) by (simp add: partition_range_def Let_def)
  then show ?thesis using p j low high by blast
qed

section \<open>Sorting\<close>

text \<open>No element stands behind one it comes before, unless they come before each other.\<close>

definition ordered :: "('a \<Rightarrow> 'a \<Rightarrow> bool) \<Rightarrow> 'a list \<Rightarrow> nat \<Rightarrow> nat \<Rightarrow> bool" where
  "ordered c a m e \<longleftrightarrow> (\<forall>i k. m \<le> i \<and> i < k \<and> k < e \<longrightarrow> c (a ! k) (a ! i) \<longrightarrow> c (a ! i) (a ! k))"

lemma ordered_parts:
  assumes t: "transp c" and "ordered c a m j" "ordered c a (j + 1) e"
    and low: "\<And>k. m \<le> k \<Longrightarrow> k < j \<Longrightarrow> c (a ! k) (a ! j)"
    and high: "\<And>k. j < k \<Longrightarrow> k < e \<Longrightarrow> \<not> c (a ! k) (a ! j)"
  shows "ordered c a m e"
  unfolding ordered_def
proof (intro allI impI, elim conjE)
  fix i k assume i: "m \<le> i" "i < k" "k < e" and b: "c (a ! k) (a ! i)"
  consider "k < j" | "k = j" | "j < i" | "i = j" | "i < j" "j < k" using i(2) by linarith
  then show "c (a ! i) (a ! k)"
  proof cases
    case 1
    then show ?thesis using assms(2) i b by (simp add: ordered_def)
  next
    case 2
    then show ?thesis using low i by simp
  next
    case 3
    then show ?thesis using assms(3) i b by (simp add: ordered_def)
  next
    case 4
    then show ?thesis using high i b by simp
  next
    case 5
    then show ?thesis using high[of k] low[of i] i b transpD[OF t b] by blast
  qed
qed

lemma parts_ordered:
  assumes t: "transp c" and je: "j < e" "m \<le> j" "e \<le> length a"
    and low: "\<forall>k. m \<le> k \<and> k < j \<longrightarrow> c (a ! k) (a ! j)" and high: "\<forall>k. j < k \<and> k < e \<longrightarrow> \<not> c (a ! k) (a ! j)"
    and p2: "perm_in (j + 1) e a a2" and o2: "ordered c a2 (j + 1) e"
    and p3: "perm_in m j a2 a3" and o3: "ordered c a3 m j"
  shows "ordered c a3 m e" "perm_in m e a a3"
proof -
  have l: "length a2 = length a" using p2 by (simp add: perm_in_def)
  have a3: "a3 ! k = a2 ! k" if "j \<le> k" for k using p3 that by (simp add: perm_in_def)
  have a2: "a2 ! k = a ! k" if "k \<le> j" for k using p2 that by (simp add: perm_in_def)
  show "ordered c a3 m e"
  proof (rule ordered_parts[OF t o3])
    show "ordered c a3 (j + 1) e" using o2 by (simp add: ordered_def a3)
    show "c (a3 ! k) (a3 ! j)" if k: "m \<le> k" "k < j" for k
    proof -
      have "c (a3 ! k) (a ! j)"
        using perm_in_range[OF p3, of "\<lambda>x. c x (a ! j)"] je l low k a2 by simp
      then show ?thesis by (simp add: a3 a2)
    qed
    show "\<not> c (a3 ! k) (a3 ! j)" if k: "j < k" "k < e" for k
    proof -
      have "\<not> c (a2 ! k) (a ! j)"
        using perm_in_range[OF p2, of "\<lambda>x. \<not> c x (a ! j)"] je high k by simp
      then show ?thesis using k by (simp add: a3 a2)
    qed
  qed
  show "perm_in m e a a3"
    using perm_in_trans[OF perm_in_mono[OF p2] perm_in_mono[OF p3]] je by simp
qed

lemma quick_sort_loop_Cons:
  "quick_sort_loop c a ((m, en) # work) =
     (if en - m \<le> 1 then quick_sort_loop c a work
      else
        (case partition_range c a m en of
           None \<Rightarrow> None
         | Some (a', j) \<Rightarrow> quick_sort_loop c a' ((j + 1, en) # (m, j) # work)))"
  by (subst quick_sort_loop.simps) simp

lemma check_sort_loop_Cons:
  "check_sort_loop c a ((m, en) # work) =
     (if en - m \<le> 1 then check_sort_loop c a work
      else if in_order c a m en then check_sort_loop c a work
      else
        (case partition_range c a m en of
           None \<Rightarrow> None
         | Some (a', j) \<Rightarrow> check_sort_loop c a' ((j + 1, en) # (m, j) # work)))"
  by (subst check_sort_loop.simps) simp

lemma quick_sort_loop_Nil: "quick_sort_loop c a [] = Some a" "check_sort_loop c a [] = Some a"
  by (subst quick_sort_loop.simps, simp) (subst check_sort_loop.simps, simp)

lemma short_ordered: "e - m \<le> 1 \<Longrightarrow> ordered c a m e"
  by (auto simp: ordered_def)

lemma quick_sort_loop_spec:
  assumes "transp c" "e \<le> length a"
  shows "\<exists>a'. quick_sort_loop c a ((m, e) # work) = quick_sort_loop c a' work \<and> perm_in m e a a' \<and> ordered c a' m e"
  using assms(2)
proof (induction "e - m" arbitrary: a m e work rule: less_induct)
  case less
  show ?case
  proof (cases "e - m \<le> 1")
    case True
    then have "quick_sort_loop c a ((m, e) # work) = quick_sort_loop c a work" by (simp add: quick_sort_loop_Cons)
    then show ?thesis using short_ordered[OF True] perm_in_refl by blast
  next
    case False
    then have "m + 1 < e" by auto
    then obtain a1 j where 1: "partition_range c a m e = Some (a1, j)" "perm_in m e a a1" "m \<le> j" "j < e"
      "\<forall>k. m \<le> k \<and> k < j \<longrightarrow> c (a1 ! k) (a1 ! j)" "\<forall>k. j < k \<and> k < e \<longrightarrow> \<not> c (a1 ! k) (a1 ! j)"
      using partition_range_spec[of m e a c] less.prems by blast
    have d: "e - (j + 1) < e - m" "j - m < e - m" using 1(3,4) by linarith+
    have l1: "e \<le> length a1" using 1(2) less.prems by (simp add: perm_in_def)
    obtain a2 where 2: "quick_sort_loop c a1 ((j + 1, e) # (m, j) # work) = quick_sort_loop c a2 ((m, j) # work)"
      "perm_in (j + 1) e a1 a2" "ordered c a2 (j + 1) e"
      using less.hyps[of e "j + 1" a1 "(m, j) # work"] l1 d(1) by blast
    have l2: "j \<le> length a2" using 2(2) l1 1(4) by (simp add: perm_in_def)
    obtain a3 where 3: "quick_sort_loop c a2 ((m, j) # work) = quick_sort_loop c a3 work"
      "perm_in m j a2 a3" "ordered c a3 m j"
      using less.hyps[of j m a2 work] l2 d(2) by blast
    have "ordered c a3 m e" "perm_in m e a1 a3"
      using parts_ordered[OF assms(1) 1(4,3) l1 1(5,6) 2(2,3) 3(2,3)] by blast+
    moreover have "quick_sort_loop c a ((m, e) # work) = quick_sort_loop c a3 work"
      using False 1(1) 2(1) 3(1) by (simp add: quick_sort_loop_Cons)
    ultimately show ?thesis using perm_in_trans[OF 1(2)] by blast
  qed
qed

text \<open>A range whose neighbours are in order is in order.\<close>

lemma in_order_ordered:
  assumes "transp c" "in_order c a m e"
  shows "ordered c a m e"
proof -
  have step: "c (a ! k) (a ! (k + 1))" if "m \<le> k" "k < e - 1" for k
    using assms(2) that by (simp add: in_order_def list_all_iff)
  have "c (a ! i) (a ! (i + 1 + d))" if "m \<le> i" "i + 1 + d < e" for i d
    using that
  proof (induction d)
    case 0
    then show ?case using step[of i] by simp
  next
    case (Suc d)
    then have "c (a ! i) (a ! (i + 1 + d))" "c (a ! (i + 1 + d)) (a ! (i + 1 + d + 1))" using step[of "i + 1 + d"] by simp_all
    then have "c (a ! i) (a ! (i + 1 + d + 1))" by (rule transpD[OF assms(1)])
    then show ?case by simp
  qed
  then have "c (a ! i) (a ! k)" if "m \<le> i" "i < k" "k < e" for i k
    using that by (metis add.commute less_imp_Suc_add plus_1_eq_Suc add_Suc_right add_Suc)
  then show ?thesis by (auto simp: ordered_def)
qed

lemma check_sort_loop_spec:
  assumes "transp c" "e \<le> length a"
  shows "\<exists>a'. check_sort_loop c a ((m, e) # work) = check_sort_loop c a' work \<and> perm_in m e a a' \<and> ordered c a' m e"
  using assms(2)
proof (induction "e - m" arbitrary: a m e work rule: less_induct)
  case less
  show ?case
  proof (cases "e - m \<le> 1 \<or> in_order c a m e")
    case True
    then have "check_sort_loop c a ((m, e) # work) = check_sort_loop c a work" by (auto simp: check_sort_loop_Cons)
    moreover have "ordered c a m e" using True short_ordered in_order_ordered[OF assms(1)] by blast
    ultimately show ?thesis using perm_in_refl by blast
  next
    case False
    then have "m + 1 < e" by auto
    then obtain a1 j where 1: "partition_range c a m e = Some (a1, j)" "perm_in m e a a1" "m \<le> j" "j < e"
      "\<forall>k. m \<le> k \<and> k < j \<longrightarrow> c (a1 ! k) (a1 ! j)" "\<forall>k. j < k \<and> k < e \<longrightarrow> \<not> c (a1 ! k) (a1 ! j)"
      using partition_range_spec[of m e a c] less.prems by blast
    have d: "e - (j + 1) < e - m" "j - m < e - m" using 1(3,4) by linarith+
    have l1: "e \<le> length a1" using 1(2) less.prems by (simp add: perm_in_def)
    obtain a2 where 2: "check_sort_loop c a1 ((j + 1, e) # (m, j) # work) = check_sort_loop c a2 ((m, j) # work)"
      "perm_in (j + 1) e a1 a2" "ordered c a2 (j + 1) e"
      using less.hyps[of e "j + 1" a1 "(m, j) # work"] l1 d(1) by blast
    have l2: "j \<le> length a2" using 2(2) l1 1(4) by (simp add: perm_in_def)
    obtain a3 where 3: "check_sort_loop c a2 ((m, j) # work) = check_sort_loop c a3 work"
      "perm_in m j a2 a3" "ordered c a3 m j"
      using less.hyps[of j m a2 work] l2 d(2) by blast
    have "ordered c a3 m e" "perm_in m e a1 a3"
      using parts_ordered[OF assms(1) 1(4,3) l1 1(5,6) 2(2,3) 3(2,3)] by blast+
    moreover have "check_sort_loop c a ((m, e) # work) = check_sort_loop c a3 work"
      using False 1(1) 2(1) 3(1) by (simp add: check_sort_loop_Cons)
    ultimately show ?thesis using perm_in_trans[OF 1(2)] by blast
  qed
qed

lemma quick_sort_spec:
  assumes "transp c" "e \<le> length a"
  shows "\<exists>a'. quick_sort c a m e = Some a' \<and> perm_in m e a a' \<and> ordered c a' m e"
    and "\<exists>a'. quick_sort_first_check_order c a m e = Some a' \<and> perm_in m e a a' \<and> ordered c a' m e"
  using quick_sort_loop_spec[OF assms, of m "[]"] check_sort_loop_spec[OF assms, of m "[]"]
  by (auto simp: quick_sort_def quick_sort_first_check_order_def quick_sort_loop_Nil)

section \<open>Properties\<close>

lemma ordered_sorted_wrt: "ordered c a 0 (length a) \<longleftrightarrow> sorted_wrt (\<lambda>x y. c y x \<longrightarrow> c x y) a"
  by (auto simp: ordered_def sorted_wrt_iff_nth_less)

lemma transp_key: "transp p \<Longrightarrow> transp (order_by_sort_function p key)"
  by (auto simp: transp_def order_by_sort_function_def)

text \<open>C0: \<open>cl:sort\<close> sorts. With a predicate that is transitive on the keys, total or not, it returns, the result
  has the elements of the list as often as the list has them, and no element stands behind one
  it must precede (unless each must precede the other).\<close>
theorem cl_sort_sorts:
  assumes "transp predicate"
  shows "\<exists>r. cl_sort xs predicate key = Some r \<and> mset r = mset xs \<and>
    sorted_wrt (\<lambda>x y. predicate (key y) (key x) \<longrightarrow> predicate (key x) (key y)) r"
proof (cases "length xs = 0")
  case False
  from quick_sort_spec(1)[OF transp_key[OF assms, of key], of "length xs" xs 0]
  obtain r where "quick_sort (order_by_sort_function predicate key) xs 0 (length xs) = Some r" "perm_in 0 (length xs) xs r"
    "ordered (order_by_sort_function predicate key) r 0 (length xs)" by auto
  with False show ?thesis
    using ordered_sorted_wrt[of "order_by_sort_function predicate key" r]
    by (auto simp: cl_sort_def perm_in_def order_by_sort_function_def)
qed (simp add: cl_sort_def)

theorem cl_sort_sorts_witness:
  "\<exists>r. cl_sort [3, 1, 2, 1] (<) (\<lambda>x :: nat. x) = Some r \<and> mset r = {#1, 1, 2, 3#} \<and> sorted r"
proof -
  have "transp ((<) :: nat \<Rightarrow> nat \<Rightarrow> bool)" by (simp add: transp_def)
  from cl_sort_sorts[OF this, of "[3, 1, 2, 1]" "\<lambda>x. x"] show ?thesis
    by (auto simp: add_mset_commute elim!: sorted_wrt_mono_rel[rotated])
qed

lemma rebuild_vector_mset:
  assumes "distinct (map fst vec)" "set cls \<subseteq> set (map fst vec)"
  shows "\<exists>v. rebuild_vector vec cls = Some v \<and> map fst v = cls \<and> set v \<subseteq> set vec"
  using assms(2)
proof (induction cls)
  case (Cons cl cls)
  then obtain v where v: "rebuild_vector vec cls = Some v" "map fst v = cls" "set v \<subseteq> set vec" by auto
  have "find (\<lambda>(c, m). c = cl) vec \<noteq> None" using Cons.prems by (auto simp: find_None_iff)
  then obtain c m where f: "find (\<lambda>(c, m). c = cl) vec = Some (c, m)" by fastforce
  then have "c = cl" "(c, m) \<in> set vec" unfolding find_Some_iff by (auto dest: nth_mem)
  then show ?case using f v by simp
qed simp

text \<open>C35: the dispatch vector of a single dispatch generic function is put into an order in which no class comes
  before one of its superclasses, when precedence lists are transitive; each class keeps its method and
  none is lost. Classes without a common subclass need not be comparable for that.\<close>
theorem sort_dispatch_vector_sorts:
  assumes "transp (order_by_class_precedence cpl)" "distinct (map fst vec)"
  shows "\<exists>v. sort_dispatch_vector cpl vec = Some v \<and> mset v = mset vec \<and>
    sorted_wrt (\<lambda>x y. fst y \<in> set (cpl (fst x)) \<longrightarrow> fst x \<in> set (cpl (fst y))) v"
proof (cases "2 * length vec \<le> 2")
  case True
  then have "length vec \<le> 1" by simp
  then have "vec = [] \<or> (\<exists>x. vec = [x])" by (cases vec; cases "tl vec") auto
  then show ?thesis by (auto simp: sort_dispatch_vector_def)
next
  case False
  let ?c = "order_by_class_precedence cpl"
  from quick_sort_spec(1)[OF assms(1), of "length vec" "map fst vec" 0]
  obtain cls where q: "quick_sort ?c (map fst vec) 0 (length vec) = Some cls"
    and p: "perm_in 0 (length vec) (map fst vec) cls" and o: "ordered ?c cls 0 (length vec)" by auto
  have m: "mset cls = mset (map fst vec)" "length cls = length vec" using p by (simp_all add: perm_in_def)
  then have s: "set cls = set (map fst vec)" and d: "distinct cls"
    using assms(2) by (metis set_mset_mset) (metis assms(2) m(1) distinct_count_atmost_1 set_mset_mset)
  obtain v where v: "rebuild_vector vec cls = Some v" "map fst v = cls" "set v \<subseteq> set vec"
    using rebuild_vector_mset[OF assms(2)] s by blast
  have dv: "distinct v" using d v(2) distinct_map by blast
  have "set v = set vec"
  proof (rule card_subset_eq)
    show "card (set v) = card (set vec)"
      using distinct_card[OF dv] distinct_card[of vec] assms(2) m(2) v(2) by (metis distinct_map length_map)
  qed (use v in simp_all)
  then have "mset v = mset vec" using dv assms(2) by (metis distinct_map set_eq_iff_mset_eq_distinct)
  moreover have "sorted_wrt (\<lambda>x y. ?c y x \<longrightarrow> ?c x y) (map fst v)" using o m(2) v(2) by (simp flip: ordered_sorted_wrt)
  then have "sorted_wrt (\<lambda>x y. fst y \<in> set (cpl (fst x)) \<longrightarrow> fst x \<in> set (cpl (fst y))) v"
    unfolding sorted_wrt_map by (rule sorted_wrt_mono_rel[rotated]) (auto simp: order_by_class_precedence_def)
  ultimately show ?thesis using False q v(1) by (auto simp: sort_dispatch_vector_def)
qed

theorem sort_dispatch_vector_sorts_witness:
  "\<exists>v. sort_dispatch_vector (\<lambda>c :: nat. upt 0 (c + 1)) [(2, ''b''), (0, ''t''), (1, ''a'')] = Some v \<and>
     mset v = {#(0, ''t''), (1, ''a''), (2, ''b'')#}"
proof -
  have "transp (order_by_class_precedence (\<lambda>c :: nat. upt 0 (c + 1)))"
    by (auto simp: transp_def order_by_class_precedence_def)
  from sort_dispatch_vector_sorts[OF this, of "[(2, ''b''), (0, ''t''), (1, ''a'')]"] show ?thesis
    by (auto simp: add_mset_commute)
qed

end
