(* ===== verification/Backquote.thy ===== *)
theory Backquote
  imports Prelude
begin

text \<open>
  Backquote (backquote.cc): a template with unquoted parts is rewritten into a form
  that builds the list.  The rewriting uses internal tokens for \<open>quote\<close>, \<open>list\<close>, \<open>append\<close>,
  which are replaced at the end.  Conses are compared by their contents here: the code
  uses their identity only to share unchanged lists.  Assertions are compiled out.
\<close>

section \<open>Forms\<close>

text \<open>The symbols the code compares with; the first six are the internal tokens.\<close>

datatype bq_symbol =
  Bq_list | Bq_append | Bq_list_star | Bq_nconc | Bq_clobberable | Bq_quote
  | Quasiquote | Unquote | Unquote_splice | Unquote_nsplice
  | Cl_list | Backquote_append | Cl_nconc | Cl_list_star | Cl_cons | Cl_quote
  | Named nat

datatype sexp = SNil | SSym bq_symbol | SAtom nat | SCons sexp sexp

datatype bq_error =
  Splice_after_backquote sexp
  | Nsplice_after_backquote sexp
  | Dotted_splice sexp
  | Dotted_nsplice sexp
  | No_arguments
  | Not_a_list sexp

fun slist :: "sexp list \<Rightarrow> sexp" where
  "slist [] = SNil"
| "slist (x # xs) = SCons x (slist xs)"

fun scar :: "sexp \<Rightarrow> bq_error + sexp" where
  "scar (SCons a d) = Inr a"
| "scar SNil = Inr SNil"
| "scar x = Inl (Not_a_list x)"

fun scdr :: "sexp \<Rightarrow> bq_error + sexp" where
  "scdr (SCons a d) = Inr d"
| "scdr SNil = Inr SNil"
| "scdr x = Inl (Not_a_list x)"

definition scadr :: "sexp \<Rightarrow> bq_error + sexp" where
  "scadr x = bind_res (scdr x) scar"

definition scddr :: "sexp \<Rightarrow> bq_error + sexp" where
  "scddr x = bind_res (scdr x) scdr"

fun sconsp :: "sexp \<Rightarrow> bool" where
  "sconsp (SCons a d) = True"
| "sconsp x = False"

text \<open>Conversion to a \<open>List_sp\<close>, and iteration over one.\<close>

fun to_list :: "sexp \<Rightarrow> bq_error + sexp" where
  "to_list SNil = Inr SNil"
| "to_list (SCons a d) = Inr (SCons a d)"
| "to_list x = Inl (Not_a_list x)"

fun sitems :: "sexp \<Rightarrow> bq_error + sexp list" where
  "sitems SNil = Inr []"
| "sitems (SCons a d) = bind_res (sitems d) (\<lambda>xs. Inr (a # xs))"
| "sitems x = Inl (Not_a_list x)"

text \<open>\<open>ql::list::dot\<close>, and \<open>nreconc\<close>.\<close>

fun dotted :: "sexp list \<Rightarrow> sexp \<Rightarrow> sexp" where
  "dotted [] t = t"
| "dotted (x # xs) t = SCons x (dotted xs t)"

fun nreconc :: "sexp \<Rightarrow> sexp \<Rightarrow> bq_error + sexp" where
  "nreconc SNil t = Inr t"
| "nreconc (SCons a d) t = nreconc d (SCons a t)"
| "nreconc x t = Inl (Not_a_list x)"

section \<open>Appending\<close>

text \<open>The function the expansion calls, on its arguments, and the one for a list of lists.\<close>

fun backquote_append :: "sexp list \<Rightarrow> bq_error + sexp" where
  "backquote_append [] = Inl No_arguments"
| "backquote_append [x] = Inr x"
| "backquote_append (x # y # ys) =
     bind_res (sitems x) (\<lambda>xs. bind_res (backquote_append (y # ys)) (\<lambda>r. Inr (dotted xs r)))"

fun append_cells :: "sexp \<Rightarrow> bq_error + sexp" where
  "append_cells (SCons a (SCons b d)) =
     bind_res (sitems a) (\<lambda>xs. bind_res (append_cells (SCons b d)) (\<lambda>r. Inr (dotted xs r)))"
| "append_cells x = scar x"

definition backquote_append_list :: "sexp \<Rightarrow> bq_error + sexp" where
  "backquote_append_list ls = bind_res (to_list ls) (\<lambda>l. bind_res (append_cells l) to_list)"

section \<open>Predicates and maps\<close>

fun splicing_frob :: "sexp \<Rightarrow> bool" where
  "splicing_frob (SCons h d) \<longleftrightarrow> h = SSym Unquote_splice \<or> h = SSym Unquote_nsplice"
| "splicing_frob x \<longleftrightarrow> False"

fun frob :: "sexp \<Rightarrow> bool" where
  "frob (SCons h d) \<longleftrightarrow> h = SSym Unquote \<or> h = SSym Unquote_splice \<or> h = SSym Unquote_nsplice"
| "frob x \<longleftrightarrow> False"

fun null_or_quoted :: "sexp \<Rightarrow> bool" where
  "null_or_quoted SNil \<longleftrightarrow> True"
| "null_or_quoted (SCons h d) \<longleftrightarrow> h = SSym Bq_quote"
| "null_or_quoted x \<longleftrightarrow> False"

text \<open>\<open>every\<close>, \<open>notany\<close> and \<open>mapcar\<close> on one list.\<close>

fun every_list :: "(sexp \<Rightarrow> bool) \<Rightarrow> sexp \<Rightarrow> bq_error + bool" where
  "every_list p SNil = Inr True"
| "every_list p (SCons a d) = (if p a then every_list p d else Inr False)"
| "every_list p x = Inl (Not_a_list x)"

definition notany_list :: "(sexp \<Rightarrow> bool) \<Rightarrow> sexp \<Rightarrow> bq_error + bool" where
  "notany_list p x = every_list (\<lambda>a. \<not> p a) x"

fun mapcar :: "(sexp \<Rightarrow> bq_error + sexp) \<Rightarrow> sexp \<Rightarrow> bq_error + sexp" where
  "mapcar f SNil = Inr SNil"
| "mapcar f (SCons a d) = bind_res (f a) (\<lambda>a'. bind_res (mapcar f d) (\<lambda>d'. Inr (SCons a' d')))"
| "mapcar f x = Inl (Not_a_list x)"

fun maptree :: "(sexp \<Rightarrow> bq_error + sexp) \<Rightarrow> sexp \<Rightarrow> bq_error + sexp" where
  "maptree f (SCons a d) =
     bind_res (f a) (\<lambda>a'. bind_res (maptree f d) (\<lambda>d'.
       Inr (if a' = a \<and> d' = d then SCons a d else SCons a' d')))"
| "maptree f x = f x"

text \<open>\<open>maptree\<close> applies its function to the cars of a list and to what ends it.\<close>

fun spine :: "sexp \<Rightarrow> sexp set" where
  "spine (SCons a d) = insert a (spine d)"
| "spine x = {x}"

lemma maptree_cong [fundef_cong]:
  "x = y \<Longrightarrow> (\<And>z. z \<in> spine y \<Longrightarrow> f z = g z) \<Longrightarrow> maptree f x = maptree g y"
proof (induction x arbitrary: y)
  case (SCons a d)
  have "maptree f d = maptree g d" using SCons.IH(2)[OF refl] SCons.prems by auto
  moreover have "f a = g a" using SCons.prems by auto
  ultimately show ?case unfolding SCons.prems(1)[symmetric] by simp
qed auto

lemma spine_le: "z \<in> spine d \<Longrightarrow> size z \<le> size d"
  by (induction d) auto

lemma spine_size: "z \<in> spine (SCons a d) \<Longrightarrow> size z < size (SCons a d)"
  by (auto dest: spine_le)

lemma scadr_size: "scadr x = Inr y \<Longrightarrow> sconsp x \<Longrightarrow> size y < size x"
  by (cases x rule: sconsp.cases; auto simp: scadr_def elim: scar.elims)

lemma bind_res_cong [fundef_cong]:
  "r = r' \<Longrightarrow> (\<And>a. r' = Inr a \<Longrightarrow> f a = g a) \<Longrightarrow> bind_res r f = bind_res r' g"
  by (cases r') auto

section \<open>Simplification\<close>

definition quote_nil :: sexp where
  "quote_nil = slist [SSym Bq_quote, SNil]"

definition attach_append :: "bq_symbol \<Rightarrow> sexp \<Rightarrow> sexp \<Rightarrow> bq_error + sexp" where
  "attach_append op item result =
     (if null_or_quoted item \<and> null_or_quoted result then
        bind_res (scadr item) (\<lambda>a. bind_res (scadr result) (\<lambda>b.
        bind_res (backquote_append_list (slist [a, b])) (\<lambda>v.
        Inr (slist [SSym Bq_quote, v]))))
      else if result = quote_nil then
        Inr (if splicing_frob item then slist [SSym op, item] else item)
      else
        (case result of
           SCons h d \<Rightarrow> Inr (if h = SSym op then SCons h (SCons item d) else slist [SSym op, item, result])
         | _ \<Rightarrow> Inr (slist [SSym op, item, result])))"

definition attach_conses :: "sexp \<Rightarrow> sexp \<Rightarrow> bq_error + sexp" where
  "attach_conses items result =
     bind_res (every_list null_or_quoted items) (\<lambda>quoted.
       if quoted \<and> null_or_quoted result then
         bind_res (mapcar scadr items) (\<lambda>vs. bind_res (scadr result) (\<lambda>b.
         bind_res (backquote_append_list (slist [vs, b])) (\<lambda>v.
         Inr (slist [SSym Bq_quote, v]))))
       else if result = quote_nil then Inr (SCons (SSym Bq_list) items)
       else
         (case result of
            SCons h d \<Rightarrow>
              if h = SSym Bq_list \<or> h = SSym Bq_list_star then
                bind_res (backquote_append_list (slist [items, d])) (\<lambda>v. Inr (SCons h v))
              else bind_res (backquote_append_list (slist [items, slist [result]])) (\<lambda>v. Inr (SCons (SSym Bq_list_star) v))
          | _ \<Rightarrow> bind_res (backquote_append_list (slist [items, slist [result]])) (\<lambda>v. Inr (SCons (SSym Bq_list_star) v))))"

fun last_car :: "sexp \<Rightarrow> sexp" where
  "last_car (SCons a (SCons b d)) = last_car (SCons b d)"
| "last_car (SCons a d) = a"
| "last_car x = SNil"

definition sreverse :: "sexp \<Rightarrow> bq_error + sexp" where
  "sreverse x = bind_res (sitems x) (\<lambda>xs. Inr (slist (rev xs)))"

text \<open>One argument of \<open>append\<close>, from the last to the first; each is chosen by its head.\<close>

definition simplify_arg :: "sexp \<Rightarrow> sexp \<Rightarrow> bq_error + sexp" where
  "simplify_arg head result =
     (case head of
        SCons h d \<Rightarrow>
          bind_res (if h = SSym Bq_list \<or> h = SSym Bq_list_star then notany_list splicing_frob d else Inr False) (\<lambda>plain.
          if h = SSym Bq_list \<and> plain then attach_conses d result
          else if h = SSym Bq_list_star \<and> plain then
            bind_res (sreverse d) (\<lambda>rev1. bind_res (scdr rev1) (\<lambda>r. bind_res (sreverse r) (\<lambda>rev2.
            bind_res (to_list (last_car head)) (\<lambda>l.
            bind_res (attach_append Bq_append l result) (attach_conses rev2)))))
          else
            bind_res (if h = SSym Bq_quote
                      then bind_res (scar d) (\<lambda>v. if sconsp v \<and> \<not> frob v
                             then bind_res (scdr d) (\<lambda>r. Inr (r = SNil)) else Inr False)
                      else Inr False) (\<lambda>quoted.
            if quoted then
              bind_res (scar d) (\<lambda>v. bind_res (scar v) (\<lambda>e.
              attach_conses (slist [slist [SSym Bq_quote, e]]) result))
            else if h = SSym Bq_clobberable then bind_res (scar d) (\<lambda>v. attach_append Bq_nconc v result)
            else attach_append Bq_append head result))
      | _ \<Rightarrow> attach_append Bq_append head result)"

text \<open>The loop steps to the next argument before it looks at one, so it misses the first
  of the reversed list and ends with \<open>NIL\<close>.\<close>

fun simplify_loop :: "sexp list \<Rightarrow> sexp \<Rightarrow> bq_error + sexp" where
  "simplify_loop [] result = Inr result"
| "simplify_loop (_ # args) result =
     bind_res (simplify_arg (case args of [] \<Rightarrow> SNil | h # _ \<Rightarrow> h) result) (simplify_loop args)"

definition simplify_args :: "sexp \<Rightarrow> bq_error + sexp" where
  "simplify_args x =
     bind_res (scdr x) (\<lambda>d. if sconsp d then bind_res (sitems d) (\<lambda>args. simplify_loop (rev args) SNil)
                            else Inl (Not_a_list d))"

function bq_simplify :: "sexp \<Rightarrow> bq_error + sexp" where
  "bq_simplify x =
     (case x of
        SCons a d \<Rightarrow>
          if a = SSym Bq_quote then Inr x
          else bind_res (maptree bq_simplify (SCons a d)) (\<lambda>x'.
                 if scar x' \<noteq> Inr (SSym Bq_append) then Inr x' else simplify_args x')
      | _ \<Rightarrow> Inr x)"
  by pat_completeness auto
termination by (relation "measure size") (auto dest: spine_le)

declare bq_simplify.simps [simp del]

section \<open>Replacing the tokens\<close>

definition untoken :: "bq_symbol \<Rightarrow> bq_symbol" where
  "untoken s = (case s of
     Bq_list \<Rightarrow> Cl_list | Bq_append \<Rightarrow> Backquote_append | Bq_nconc \<Rightarrow> Cl_nconc
   | Bq_list_star \<Rightarrow> Cl_list_star | Bq_quote \<Rightarrow> Cl_quote | _ \<Rightarrow> s)"

function remove_tokens :: "sexp \<Rightarrow> bq_error + sexp" where
  "remove_tokens x =
     (case x of
        SSym s \<Rightarrow> Inr (SSym (untoken s))
      | SCons h d \<Rightarrow>
          if h = SSym Bq_clobberable then bind_res (scadr (SCons h d)) remove_tokens
          else bind_res (if h = SSym Bq_list_star
                         then bind_res (scddr x) (\<lambda>r. if sconsp r then bind_res (scdr r) (\<lambda>e. Inr (e = SNil)) else Inr False)
                         else Inr False) (\<lambda>two.
            if two then bind_res (maptree remove_tokens d) (\<lambda>d'. Inr (SCons (SSym Cl_cons) d'))
            else maptree remove_tokens (SCons h d))
      | _ \<Rightarrow> Inr x)"
  by pat_completeness auto
termination
  by (relation "measure size") (auto dest: spine_le scadr_size)

declare remove_tokens.simps [simp del]

section \<open>Processing a template\<close>

text \<open>What \<open>backquote_completely_process\<close> does with a processed template: simplification is run for
  its errors only, as its result is not used.\<close>

definition bq_finish :: "bool \<Rightarrow> sexp \<Rightarrow> bq_error + sexp" where
  "bq_finish simplify raw =
     (if simplify
      then bind_res (bq_simplify raw) (\<lambda>p. bind_res (remove_tokens p) (\<lambda>_. remove_tokens raw))
      else remove_tokens raw)"

text \<open>
  A nested backquote is processed completely first and its expansion is then a template again,
  so that the recursion is nested; the expansion has fewer backquotes.
\<close>

function bq_process :: "bool \<Rightarrow> sexp \<Rightarrow> bq_error + sexp"
  and bq_process_loop :: "bool \<Rightarrow> sexp \<Rightarrow> sexp \<Rightarrow> bq_error + sexp"
  and bq_bracket :: "bool \<Rightarrow> sexp \<Rightarrow> bq_error + sexp" where
  "bq_process sf ox =
     (case ox of
        SCons ax d \<Rightarrow>
          if ax = SSym Quasiquote then
            bind_res (scadr ox) (\<lambda>y. bind_res (bq_process sf y) (\<lambda>raw.
            bind_res (bq_finish sf raw) (\<lambda>passone. bq_process sf passone)))
          else if ax = SSym Unquote then scadr ox
          else if ax = SSym Unquote_splice then bind_res (scadr ox) (\<lambda>y. Inl (Splice_after_backquote y))
          else if ax = SSym Unquote_nsplice then bind_res (scadr ox) (\<lambda>y. Inl (Nsplice_after_backquote y))
          else bq_process_loop sf ox SNil
      | _ \<Rightarrow> Inr (slist [SSym Bq_quote, ox]))"
| "bq_process_loop sf p q =
     (case p of
        SCons a d \<Rightarrow>
          if a = SSym Unquote then
            bind_res (scadr p) (\<lambda>y. bind_res (nreconc q (slist [y])) (\<lambda>n. Inr (SCons (SSym Bq_append) n)))
          else if a = SSym Unquote_splice then Inl (Dotted_splice p)
          else if a = SSym Unquote_nsplice then Inl (Dotted_nsplice p)
          else bind_res (bq_bracket sf a) (\<lambda>b. bq_process_loop sf d (SCons b q))
      | _ \<Rightarrow> bind_res (nreconc q (slist [slist [SSym Bq_quote, p]])) (\<lambda>n. Inr (SCons (SSym Bq_append) n)))"
| "bq_bracket sf x =
     (case x of
        SCons h d \<Rightarrow>
          if h = SSym Unquote then bind_res (scadr x) (\<lambda>y. Inr (slist [SSym Bq_list, y]))
          else if h = SSym Unquote_splice then scadr x
          else if h = SSym Unquote_nsplice then bind_res (scadr x) (\<lambda>y. Inr (slist [SSym Bq_clobberable, y]))
          else bind_res (bq_process sf x) (\<lambda>y. Inr (slist [SSym Bq_list, y]))
      | _ \<Rightarrow> bind_res (bq_process sf x) (\<lambda>y. Inr (slist [SSym Bq_list, y])))"
  by pat_completeness auto

text \<open>The backquotes in a form.\<close>

fun quasis :: "sexp \<Rightarrow> nat" where
  "quasis (SCons a d) = quasis a + quasis d"
| "quasis (SSym s) = (if s = Quasiquote then 1 else 0)"
| "quasis x = 0"

lemma quasis_scadr: "scadr x = Inr y \<Longrightarrow> quasis y \<le> quasis x"
  by (cases x; auto simp: scadr_def elim!: scar.elims)

lemma quasis_scadr_head: "scadr (SCons h d) = Inr y \<Longrightarrow> quasis h + quasis y \<le> quasis (SCons h d)"
  by (auto simp: scadr_def elim!: scar.elims)

lemma quasis_maptree:
  "(\<And>z v. z \<in> spine x \<Longrightarrow> f z = Inr v \<Longrightarrow> quasis v \<le> quasis z) \<Longrightarrow> maptree f x = Inr y \<Longrightarrow> quasis y \<le> quasis x"
proof (induction x arbitrary: y)
  case (SCons a d)
  from SCons.prems(2) obtain a' d' where 1: "f a = Inr a'" "maptree f d = Inr d'" "y = SCons a' d'"
    by (auto simp: bind_res_Inr_iff)
  have "quasis a' \<le> quasis a" "quasis d' \<le> quasis d" using SCons.prems(1) SCons.IH(2) 1 by auto
  then show ?case using 1(3) by simp
qed auto

lemma untoken_quasi [simp]: "untoken s = Quasiquote \<longleftrightarrow> s = Quasiquote"
  by (cases s) (simp_all add: untoken_def)

lemma remove_tokens_Cons:
  "remove_tokens (SCons h d) = Inr y \<Longrightarrow>
   h = SSym Bq_clobberable \<and> (\<exists>v. scadr (SCons h d) = Inr v \<and> remove_tokens v = Inr y) \<or>
   h = SSym Bq_list_star \<and> (\<exists>d'. maptree remove_tokens d = Inr d' \<and> y = SCons (SSym Cl_cons) d') \<or>
   maptree remove_tokens (SCons h d) = Inr y"
  by (subst (asm) remove_tokens.simps) (auto simp: bind_res_Inr_iff split: if_splits)

lemma quasis_remove_tokens: "remove_tokens x = Inr y \<Longrightarrow> quasis y \<le> quasis x"
proof (induction "size x" arbitrary: x y rule: less_induct)
  case less
  note IH = less.hyps
  show ?case
  proof (cases x)
    case (SCons h d)
    have m: "quasis v \<le> quasis z" if "maptree remove_tokens z = Inr v" "spine z \<subseteq> spine x" for z v
      using quasis_maptree[OF _ that(1)] that(2) IH spine_size[of _ h d] SCons by blast
    have v: "quasis y \<le> quasis x" if "scadr x = Inr v" "remove_tokens v = Inr y" for v
      using IH[of v y] scadr_size[OF that(1)] that quasis_scadr[OF that(1)] SCons by fastforce
    consider "\<exists>v. scadr x = Inr v \<and> remove_tokens v = Inr y"
      | d' where "maptree remove_tokens d = Inr d'" "y = SCons (SSym Cl_cons) d'"
      | "maptree remove_tokens x = Inr y"
      using remove_tokens_Cons[of h d y] less.prems SCons by blast
    then show ?thesis
    proof cases
      case 2
      then have "quasis d' \<le> quasis d" using m[of d d'] SCons by auto
      then show ?thesis using 2(2) SCons by simp
    qed (use m v in blast)+
  qed (use less.prems in \<open>auto simp: remove_tokens.simps\<close>)
qed

lemma quasis_finish: "bq_finish sf x = Inr y \<Longrightarrow> quasis y \<le> quasis x"
  by (auto simp: bq_finish_def bind_res_Inr_iff quasis_remove_tokens split: if_splits)

lemma quasis_nreconc: "nreconc q t = Inr y \<Longrightarrow> quasis y = quasis q + quasis t"
  by (induction q t rule: nreconc.induct) auto

lemma quasis_process:
  "bq_process_bq_process_loop_bq_bracket_dom (Inl (sf, x)) \<Longrightarrow> bq_process sf x = Inr y \<Longrightarrow> quasis y \<le> quasis x"
  "bq_process_bq_process_loop_bq_bracket_dom (Inr (Inl (sf, x, q))) \<Longrightarrow> bq_process_loop sf x q = Inr y \<Longrightarrow> quasis y \<le> quasis x + quasis q"
  "bq_process_bq_process_loop_bq_bracket_dom (Inr (Inr (sf, x))) \<Longrightarrow> bq_bracket sf x = Inr y \<Longrightarrow> quasis y \<le> quasis x"
proof (induction arbitrary: y and y and y rule: bq_process_bq_process_loop_bq_bracket.pinduct)
  case (1 sf ox)
  from 1(5)[unfolded bq_process.psimps[OF 1(1)]] show ?case
  proof (cases ox)
    case (SCons h d)
    note IH = 1(2,3,4)[OF SCons]
    show ?thesis
    proof (cases "h = SSym Quasiquote")
      case True
      with 1(5)[unfolded bq_process.psimps[OF 1(1)]] SCons obtain v raw p
        where v: "scadr ox = Inr v" "bq_process sf v = Inr raw" "bq_finish sf raw = Inr p" "bq_process sf p = Inr y"
        by (auto simp: bind_res_Inr_iff)
      have "quasis v \<le> quasis ox" using quasis_scadr v(1) .
      moreover have "quasis raw \<le> quasis v" using IH(1)[OF True v(1,2)] .
      moreover have "quasis p \<le> quasis raw" using quasis_finish v(3) .
      moreover have "quasis y \<le> quasis p" using IH(2)[OF True v] .
      ultimately show ?thesis by linarith
    next
      case False
      note F = False
      show ?thesis
      proof (cases "h = SSym Unquote")
        case True
        with F 1(5)[unfolded bq_process.psimps[OF 1(1)]] SCons show ?thesis using quasis_scadr[of ox y] by simp
      next
        case False
        with F 1(5)[unfolded bq_process.psimps[OF 1(1)]] SCons
        have "h \<noteq> SSym Unquote_splice" "h \<noteq> SSym Unquote_nsplice" "bq_process_loop sf ox SNil = Inr y"
          by (auto simp: bind_res_Inr_iff split: if_splits)
        then show ?thesis using IH(3)[OF F False] by simp
      qed
    qed
  qed auto
next
  case (2 sf p q)
  note IH = 2(2,3)
  from 2(4)[unfolded bq_process_loop.psimps[OF 2(1)]] show ?case
  proof (cases p)
    case (SCons a d)
    with 2(4)[unfolded bq_process_loop.psimps[OF 2(1)]] consider
      v n where "scadr p = Inr v" "nreconc q (slist [v]) = Inr n" "y = SCons (SSym Bq_append) n"
      | b where "a \<noteq> SSym Unquote" "a \<noteq> SSym Unquote_splice" "a \<noteq> SSym Unquote_nsplice" "bq_bracket sf a = Inr b"
          "bq_process_loop sf d (SCons b q) = Inr y"
      by (auto simp: bind_res_Inr_iff split: if_splits)
    then show ?thesis
    proof cases
      case 1
      then show ?thesis using quasis_scadr[OF 1(1)] quasis_nreconc[OF 1(2)] by simp
    next
      case 2
      then show ?thesis using IH(1)[OF SCons 2(1,2,3,4)] IH(2)[OF SCons 2(1,2,3,4,5)] SCons by simp
    qed
  qed (auto simp: bind_res_Inr_iff dest!: quasis_nreconc)
next
  case (3 sf x)
  note IH = 3(5) 3(2,3,4)
  from 3(6)[unfolded bq_bracket.psimps[OF 3(1)]] show ?case
  proof (cases x)
    case (SCons h d)
    with 3(6)[unfolded bq_bracket.psimps[OF 3(1)]] consider
      v where "scadr x = Inr v" "y = slist [SSym Bq_list, v] \<or> y = v \<or> y = slist [SSym Bq_clobberable, v]"
      | v where "bq_process sf x = Inr v" "y = slist [SSym Bq_list, v]" 
        "h \<noteq> SSym Unquote" "h \<noteq> SSym Unquote_splice" "h \<noteq> SSym Unquote_nsplice"
      by (auto simp: bind_res_Inr_iff split: if_splits)
    then show ?thesis
    proof cases
      case 1
      then show ?thesis using quasis_scadr[OF 1(1)] by auto
    next
      case 2
      then show ?thesis using IH(1)[OF SCons 2(3,4,5,1)] by simp
    qed
  qed (use IH(2-4) in \<open>fastforce simp: bind_res_Inr_iff\<close>)+
qed

lemma process_dom: "All bq_process_bq_process_loop_bq_bracket_dom"
proof (relation "measures [case_sum (\<lambda>(sf, x). quasis x) (case_sum (\<lambda>(sf, p, q). quasis p) (\<lambda>(sf, x). quasis x)),
    case_sum (\<lambda>(sf, x). 3 * size x + 1) (case_sum (\<lambda>(sf, p, q). 3 * size p) (\<lambda>(sf, x). 3 * size x + 2))]", goal_cases)
  case (2 sf ox ax d y)
  then show ?case using quasis_scadr_head[of ax d y] by simp
next
  case (3 sf ox ax d y raw p)
  then have "quasis p \<le> quasis y" using quasis_finish quasis_process(1) order_trans by blast
  then show ?case using quasis_scadr_head[of ax d y] 3 by simp
qed auto

termination bq_process
  by (rule process_dom)

lemma quasis_bq_process: "bq_process sf x = Inr y \<Longrightarrow> quasis y \<le> quasis x"
  using quasis_process(1) process_dom by blast

declare bq_process.simps [simp del] bq_process_loop.simps [simp del] bq_bracket.simps [simp del]

definition completely_process :: "bool \<Rightarrow> sexp \<Rightarrow> bq_error + sexp" where
  "completely_process sf x = bind_res (bq_process sf x) (bq_finish sf)"

text \<open>The macro, whose argument is the whole form.\<close>

definition macro_quasiquote :: "bool \<Rightarrow> sexp \<Rightarrow> bq_error + sexp" where
  "macro_quasiquote sf whole = bind_res (to_list whole) (\<lambda>w. bind_res (scadr w) (completely_process sf))"

end
