(* ===== verification/BackquoteOk.thy ===== *)
theory BackquoteOk
  imports Backquote
begin

text \<open>
  What an expansion of backquote means.  \<open>inst\<close> builds the list a template stands for, given
  the values of the forms in it; the expansion evaluates to that list.  On the way it
  is shown that simplification, whose result the code drops, never fails.
\<close>

section \<open>Forms without tokens\<close>

definition is_token :: "bq_symbol \<Rightarrow> bool" where
  "is_token s \<longleftrightarrow> s \<in> {Bq_list, Bq_append, Bq_list_star, Bq_nconc, Bq_clobberable, Bq_quote}"

fun no_tokens :: "sexp \<Rightarrow> bool" where
  "no_tokens (SCons a d) \<longleftrightarrow> no_tokens a \<and> no_tokens d"
| "no_tokens (SSym s) \<longleftrightarrow> \<not> is_token s"
| "no_tokens x \<longleftrightarrow> True"

lemma no_token_heads [simp]:
  "no_tokens h \<Longrightarrow> h \<noteq> SSym Bq_list" "no_tokens h \<Longrightarrow> h \<noteq> SSym Bq_append" "no_tokens h \<Longrightarrow> h \<noteq> SSym Bq_list_star"
  "no_tokens h \<Longrightarrow> h \<noteq> SSym Bq_nconc" "no_tokens h \<Longrightarrow> h \<noteq> SSym Bq_clobberable" "no_tokens h \<Longrightarrow> h \<noteq> SSym Bq_quote"
  by (auto simp: is_token_def)

lemma no_tokens_scadr: "scadr x = Inr y \<Longrightarrow> no_tokens x \<Longrightarrow> no_tokens y"
  by (cases x; auto simp: scadr_def elim!: scar.elims)

lemma maptree_id: "(\<And>z. z \<in> spine x \<Longrightarrow> f z = Inr z) \<Longrightarrow> maptree f x = Inr x"
  by (induction x) auto

lemma no_tokens_spine: "z \<in> spine x \<Longrightarrow> no_tokens x \<Longrightarrow> no_tokens z"
  by (induction x) auto

lemma remove_tokens_id: "no_tokens x \<Longrightarrow> remove_tokens x = Inr x"
proof (induction "size x" arbitrary: x rule: less_induct)
  case less
  show ?case
  proof (cases x)
    case (SCons h d)
    have "maptree remove_tokens x = Inr x"
      by (rule maptree_id) (use less SCons spine_size no_tokens_spine in blast)
    then show ?thesis using less.prems SCons by (subst remove_tokens.simps) simp
  next
    case (SSym s)
    then show ?thesis using less.prems by (cases s) (simp_all add: remove_tokens.simps untoken_def is_token_def)
  qed (simp_all add: remove_tokens.simps)
qed

lemma bq_simplify_id: "no_tokens x \<Longrightarrow> bq_simplify x = Inr x"
proof (induction "size x" arbitrary: x rule: less_induct)
  case less
  show ?case
  proof (cases x)
    case (SCons h d)
    have "maptree bq_simplify x = Inr x"
      by (rule maptree_id) (use less SCons spine_size no_tokens_spine in blast)
    then show ?thesis using less.prems SCons by (subst bq_simplify.simps) simp
  qed (simp_all add: bq_simplify.simps)
qed

section \<open>The forms processing makes\<close>

inductive raw :: "sexp \<Rightarrow> bool" and raw_args :: "sexp \<Rightarrow> bool" where
  raw_plain: "no_tokens f \<Longrightarrow> raw f"
| raw_quote: "no_tokens v \<Longrightarrow> raw (slist [SSym Bq_quote, v])"
| raw_append: "raw_args d \<Longrightarrow> raw (SCons (SSym Bq_append) d)"
| last_plain: "no_tokens f \<Longrightarrow> raw_args (slist [f])"
| last_quote: "no_tokens v \<Longrightarrow> raw_args (slist [slist [SSym Bq_quote, v]])"
| arg_list: "raw x \<Longrightarrow> raw_args d \<Longrightarrow> raw_args (SCons (slist [SSym Bq_list, x]) d)"
| arg_plain: "no_tokens f \<Longrightarrow> raw_args d \<Longrightarrow> raw_args (SCons f d)"
| arg_clobberable: "no_tokens f \<Longrightarrow> raw_args d \<Longrightarrow> raw_args (SCons (slist [SSym Bq_clobberable, f]) d)"

lemmas untoken_simps = untoken_def bq_symbol.case

lemma remove_tokens_token:
  "remove_tokens (SSym s) = Inr (SSym (untoken s))" "remove_tokens SNil = Inr SNil"
  by (simp_all add: remove_tokens.simps)

lemma remove_tokens_call:
  "h \<noteq> Bq_clobberable \<Longrightarrow> h \<noteq> Bq_list_star \<Longrightarrow> 
   remove_tokens (SCons (SSym h) d) = bind_res (maptree remove_tokens d) (\<lambda>d'. Inr (SCons (SSym (untoken h)) d'))"
  by (subst remove_tokens.simps) (auto simp: remove_tokens_token intro!: bind_res_cong)

lemma remove_tokens_clobberable: "remove_tokens (slist [SSym Bq_clobberable, f]) = remove_tokens f"
  by (subst remove_tokens.simps) (simp add: scadr_def)

lemma remove_tokens_quote: "no_tokens v \<Longrightarrow> remove_tokens (slist [SSym Bq_quote, v]) = Inr (slist [SSym Cl_quote, v])"
  by (simp add: remove_tokens_call remove_tokens_id remove_tokens_token untoken_def)

lemma remove_tokens_raw:
  "raw r \<Longrightarrow> \<exists>e. remove_tokens r = Inr e \<and> no_tokens e"
  "raw_args d \<Longrightarrow> \<exists>e. maptree remove_tokens d = Inr e \<and> no_tokens e"
proof (induction rule: raw_raw_args.inducts)
  case (raw_append d)
  then show ?case by (auto simp: remove_tokens_call untoken_def is_token_def)
next
  case (arg_list x d)
  then show ?case by (auto simp: remove_tokens_call untoken_def is_token_def remove_tokens_token)
next
  case (arg_clobberable f d)
  then show ?case by (auto simp del: slist.simps simp: remove_tokens_clobberable remove_tokens_id)
qed (auto simp: remove_tokens_id remove_tokens_call remove_tokens_token untoken_def is_token_def)

section \<open>Simplification never fails\<close>

inductive simplified :: "sexp \<Rightarrow> bool" where
  simp_plain: "no_tokens f \<Longrightarrow> simplified f"
| simp_quote: "no_tokens v \<Longrightarrow> simplified (slist [SSym Bq_quote, v])"
| simp_call: "op \<in> {Bq_list, Bq_list_star, Bq_append, Bq_nconc} \<Longrightarrow> (\<forall>x \<in> set xs. simplified x) \<Longrightarrow>
    simplified (SCons (SSym op) (slist xs))"
| simp_clobberable: "no_tokens f \<Longrightarrow> simplified (slist [SSym Bq_clobberable, f])"

text \<open>The result the loop collects: a quoted one is a quoted list.\<close>

definition collected :: "sexp \<Rightarrow> bool" where
  "collected r \<longleftrightarrow> simplified r \<and> (\<forall>v. r = slist [SSym Bq_quote, v] \<longrightarrow> v = SNil \<or> sconsp v) \<and> (\<forall>d. r \<noteq> SCons (SSym Bq_clobberable) d)"

lemma sitems_slist [simp]: "sitems (slist xs) = Inr xs"
  by (induction xs) simp_all

lemma dotted_slist [simp]: "dotted xs (slist ys) = slist (xs @ ys)"
  by (induction xs) simp_all

lemma to_list_slist [simp]: "to_list (slist xs) = Inr (slist xs)"
  by (cases xs) simp_all

lemma slist_eq_SNil [simp]: "slist xs = SNil \<longleftrightarrow> xs = []"
  by (cases xs) simp_all

lemma maptree_slist:
  "(\<forall>x \<in> set xs. \<exists>y. f x = Inr y) \<Longrightarrow> f SNil = Inr SNil \<Longrightarrow> \<exists>ys. maptree f (slist xs) = Inr (slist ys) \<and> list_all2 (\<lambda>x y. f x = Inr y) xs ys"
proof (induction xs)
  case (Cons x xs)
  then obtain y ys where "f x = Inr y" "maptree f (slist xs) = Inr (slist ys)" "list_all2 (\<lambda>x y. f x = Inr y) xs ys" by auto
  then show ?case by (auto intro!: exI[of _ "y # ys"])
qed (auto intro: exI[of _ "[]"])

lemma remove_tokens_simplified: "simplified s \<Longrightarrow> \<exists>e. remove_tokens s = Inr e"
proof (induction rule: simplified.induct)
  case (simp_call op xs)
  from maptree_slist[of xs remove_tokens] simp_call(2) remove_tokens_token(2)
  obtain ys where ys: "maptree remove_tokens (slist xs) = Inr (slist ys)" by blast
  have "\<exists>b. (bind_res (scddr (SCons h (slist xs))) (\<lambda>r. if sconsp r then bind_res (scdr r) (\<lambda>e. Inr (e = SNil)) else Inr False)) = Inr b" for h
    by (cases xs; cases "tl xs") (auto simp: scddr_def)
  then obtain b where "bind_res (scddr (SCons (SSym Bq_list_star) (slist xs))) (\<lambda>r. if sconsp r then bind_res (scdr r) (\<lambda>e. Inr (e = SNil)) else Inr False) = Inr b"
    by blast
  then show ?case using simp_call(1) ys
    by (subst remove_tokens.simps) (auto simp: remove_tokens_token)
qed (simp_all del: slist.simps add: remove_tokens_id remove_tokens_quote remove_tokens_clobberable)

lemma append_two:
  assumes "sitems a = Inr xs" "b = SNil \<or> sconsp b \<or> xs \<noteq> []"
  shows "backquote_append_list (slist [a, b]) = Inr (dotted xs b)"
  using assms by (cases xs; cases b) (auto simp: backquote_append_list_def)

lemma no_tokens_dotted [simp]: "no_tokens (dotted xs b) \<longleftrightarrow> (\<forall>x \<in> set xs. no_tokens x) \<and> no_tokens b"
  by (induction xs) auto

lemma collected_quote:
  "collected r \<Longrightarrow> null_or_quoted r \<Longrightarrow> \<exists>v. scadr r = Inr v \<and> no_tokens v \<and> (v = SNil \<or> sconsp v)"
  by (cases r rule: null_or_quoted.cases)
    (auto simp: collected_def scadr_def is_token_def elim!: simplified.cases)

lemma collected_new_quote: "no_tokens v \<Longrightarrow> v = SNil \<or> sconsp v \<Longrightarrow> collected (slist [SSym Bq_quote, v])"
  using simp_quote[of v] by (auto simp: collected_def)

lemma collected_call:
  "op \<in> {Bq_list, Bq_list_star, Bq_append, Bq_nconc} \<Longrightarrow> (\<forall>x \<in> set xs. simplified x) \<Longrightarrow> collected (SCons (SSym op) (slist xs))"
  by (auto simp: collected_def intro: simp_call)

lemma collected_plain: "no_tokens f \<Longrightarrow> collected f"
  by (auto simp: collected_def is_token_def intro: simp_plain)

lemma simplified_call_items:
  "simplified (SCons (SSym op) d) \<Longrightarrow> op \<in> {Bq_list, Bq_list_star, Bq_append, Bq_nconc} \<Longrightarrow> \<exists>xs. d = slist xs \<and> (\<forall>x \<in> set xs. simplified x)"
  by (erule simplified.cases) (auto simp: is_token_def)

lemma attach_append_collected:
  assumes "collected f" "collected r" "op = Bq_append \<or> op = Bq_nconc" "null_or_quoted f \<Longrightarrow> f = SNil"
  shows "\<exists>s. attach_append op f r = Inr s \<and> collected s"
proof -
  have call: "collected (slist [SSym op, f, r])" "collected (slist [SSym op, f])"
    using assms(1-3) collected_call[of op "[f, r]"] collected_call[of op "[f]"] by (auto simp: collected_def)
  show ?thesis
  proof (cases "null_or_quoted f \<and> null_or_quoted r")
    case True
    then have "f = SNil" using assms(4) by blast
    moreover obtain v where v: "scadr r = Inr v" "no_tokens v" "v = SNil \<or> sconsp v"
      using collected_quote[OF assms(2)] True by blast
    moreover have "backquote_append_list (slist [SNil, v]) = Inr v"
      using append_two[of SNil "[]" v] v(3) by simp
    ultimately show ?thesis using True collected_new_quote[OF v(2,3)] by (simp add: attach_append_def scadr_def)
  next
    case False
    note F = False
    show ?thesis
    proof (cases "r = quote_nil")
      case True
      then show ?thesis using F call(2) assms(1) by (auto simp: attach_append_def)
    next
      case False
      show ?thesis
      proof (cases "\<exists>d. r = SCons (SSym op) d")
        case True
        then obtain xs where "r = SCons (SSym op) (slist xs)" "\<forall>x \<in> set xs. simplified x"
          using simplified_call_items[of op] assms(2,3) by (fastforce simp: collected_def)
        then show ?thesis using F False assms(1,3) collected_call[of op "f # xs"]
          by (auto simp: attach_append_def collected_def)
      next
        case no: False
        then have "attach_append op f r = Inr (slist [SSym op, f, r])"
          using F False by (auto simp: attach_append_def split: sexp.split)
        then show ?thesis using call(1) by blast
      qed
    qed
  qed
qed

lemma attach_append_plain:
  assumes "no_tokens f" "collected r" "op = Bq_append \<or> op = Bq_nconc"
  shows "\<exists>s. attach_append op f r = Inr s \<and> collected s"
proof (rule attach_append_collected)
  show "f = SNil" if "null_or_quoted f" using that assms(1) by (cases f rule: null_or_quoted.cases) (auto simp: is_token_def)
qed (use assms collected_plain in auto)

lemma attach_conses_collected:
  assumes x: "simplified x" "\<forall>d. x \<noteq> SCons (SSym Bq_clobberable) d" and r: "collected r"
  shows "\<exists>s. attach_conses (slist [x]) r = Inr s \<and> collected s"
proof (cases "null_or_quoted x \<and> null_or_quoted r")
  case True
  obtain v where v: "scadr x = Inr v" "no_tokens v"
    using x(1) True by (cases x rule: null_or_quoted.cases) (auto simp: scadr_def is_token_def elim!: simplified.cases)
  obtain w where w: "scadr r = Inr w" "no_tokens w" "w = SNil \<or> sconsp w"
    using collected_quote[OF r] True by blast
  have "backquote_append_list (slist [slist [v], w]) = Inr (SCons v w)"
    using append_two[of "slist [v]" "[v]" w] by simp
  then show ?thesis using True v w collected_new_quote[of "SCons v w"] by (simp add: attach_conses_def)
next
  case False
  note F = False
  have one: "collected (slist [SSym Bq_list, x])" using collected_call[of Bq_list "[x]"] x by simp
  have two: "collected (slist [SSym Bq_list_star, x, r])" using collected_call[of Bq_list_star "[x, r]"] x r by (simp add: collected_def)
  have app: "backquote_append_list (slist [slist [x], slist [r]]) = Inr (slist [x, r])"
    using append_two[of "slist [x]" "[x]" "slist [r]"] by simp
  show ?thesis
  proof (cases "\<exists>op d. r = SCons (SSym op) d \<and> (op = Bq_list \<or> op = Bq_list_star)")
    case True
    then obtain op xs where op: "r = SCons (SSym op) (slist xs)" "op = Bq_list \<or> op = Bq_list_star" "\<forall>x \<in> set xs. simplified x"
      using simplified_call_items r by (fastforce simp: collected_def)
    moreover have "backquote_append_list (slist [slist [x], slist xs]) = Inr (slist (x # xs))"
      using append_two[of "slist [x]" "[x]" "slist xs"] by simp
    ultimately show ?thesis using F collected_call[of op "x # xs"] x(1)
      by (auto simp: attach_conses_def quote_nil_def)
  next
    case no: False
    then have "attach_conses (slist [x]) r = Inr (slist [SSym Bq_list, x]) \<or> attach_conses (slist [x]) r = Inr (slist [SSym Bq_list_star, x, r])"
      using F app by (auto simp: attach_conses_def split: sexp.split)
    then show ?thesis using one two by blast
  qed
qed

lemma simplify_loop_collected:
  assumes "\<forall>x \<in> set args. no_tokens x \<or> (\<exists>y. x = slist [SSym Bq_list, y] \<and> simplified y \<and> (\<forall>d. y \<noteq> SCons (SSym Bq_clobberable) d))
    \<or> (\<exists>f. no_tokens f \<and> x = slist [SSym Bq_clobberable, f])" and "collected r"
  shows "\<exists>s. simplify_loop (x0 # args) r = Inr s \<and> collected s"
  using assms
proof (induction args arbitrary: x0 r)
  case Nil
  obtain s where "attach_append Bq_append SNil r = Inr s" "collected s"
    using attach_append_plain[of SNil r] Nil by auto
  then show ?case by (simp add: simplify_arg_def)
next
  case (Cons x args)
  have "\<exists>s. simplify_arg x r = Inr s \<and> collected s"
  proof -
    consider "no_tokens x"
      | y where "x = slist [SSym Bq_list, y]" "simplified y" "\<forall>d. y \<noteq> SCons (SSym Bq_clobberable) d"
      | f where "no_tokens f" "x = slist [SSym Bq_clobberable, f]" using Cons.prems(1) by auto
    then show ?thesis
    proof cases
      case 1
      then have "simplify_arg x r = attach_append Bq_append x r" by (auto simp: simplify_arg_def is_token_def split: sexp.split)
      then show ?thesis using attach_append_plain[OF 1 Cons.prems(2)] by simp
    next
      case 2
      have "notany_list splicing_frob (slist [y]) = Inr (\<not> splicing_frob y)" by (simp add: notany_list_def)
      then have "simplify_arg x r = (if splicing_frob y then attach_append Bq_append x r else attach_conses (slist [y]) r)"
        using 2(1) by (auto simp: simplify_arg_def)
      moreover have "\<exists>s. attach_append Bq_append x r = Inr s \<and> collected s"
        using 2 attach_append_collected[of x r Bq_append] collected_call[of Bq_list "[y]"] Cons.prems(2) by simp
      ultimately show ?thesis using attach_conses_collected[OF 2(2,3) Cons.prems(2)] by simp
    next
      case 3
      then have "simplify_arg x r = attach_append Bq_nconc f r" by (auto simp: simplify_arg_def)
      then show ?thesis using attach_append_plain[OF 3(1) Cons.prems(2)] by simp
    qed
  qed
  then obtain s where "simplify_arg x r = Inr s" "collected s" by blast
  with Cons.IH[of s x] Cons.prems(1) show ?case by auto
qed

lemma bq_simplify_call:
  "h \<noteq> Bq_quote \<Longrightarrow> h \<noteq> Bq_append \<Longrightarrow> bq_simplify (SCons (SSym h) d) = bind_res (maptree bq_simplify d) (\<lambda>d'. Inr (SCons (SSym h) d'))"
  by (subst bq_simplify.simps) (auto simp: bq_simplify.simps[of "SSym h"] bind_res_def split: sum.split)

lemma bq_simplify_append:
  "bq_simplify (SCons (SSym Bq_append) d) = bind_res (maptree bq_simplify d) (\<lambda>d'. simplify_args (SCons (SSym Bq_append) d'))"
  by (subst bq_simplify.simps) (auto simp: bq_simplify.simps[of "SSym _"] bind_res_def split: sum.split)

lemma bq_simplify_quote: "bq_simplify (slist [SSym Bq_quote, v]) = Inr (slist [SSym Bq_quote, v])"
  by (simp add: bq_simplify.simps)

lemma bq_simplify_atom [simp]: "bq_simplify SNil = Inr SNil" "bq_simplify (SSym s) = Inr (SSym s)"
  by (simp_all add: bq_simplify.simps)

definition arg_ok :: "sexp \<Rightarrow> bool" where
  "arg_ok x \<longleftrightarrow> no_tokens x \<or> (\<exists>y. x = slist [SSym Bq_list, y] \<and> simplified y \<and> (\<forall>d. y \<noteq> SCons (SSym Bq_clobberable) d))
    \<or> (\<exists>f. no_tokens f \<and> x = slist [SSym Bq_clobberable, f])"

lemma bq_simplify_raw:
  "raw r \<Longrightarrow> \<exists>s. bq_simplify r = Inr s \<and> simplified s \<and> (\<forall>d. s \<noteq> SCons (SSym Bq_clobberable) d)"
  "raw_args d \<Longrightarrow> \<exists>xs l. maptree bq_simplify d = Inr (slist (xs @ [l])) \<and> (\<forall>x \<in> set xs. arg_ok x)"
proof (induction rule: raw_raw_args.inducts)
  case (raw_plain f)
  then show ?case by (auto simp: bq_simplify_id is_token_def intro: simp_plain)
next
  case (raw_quote v)
  then show ?case using simp_quote[of v] by (auto simp: bq_simplify_quote simp del: slist.simps) simp
next
  case (raw_append d)
  then obtain xs l where x: "maptree bq_simplify d = Inr (slist (xs @ [l]))" "\<forall>x \<in> set xs. arg_ok x" by blast
  then have "simplify_args (SCons (SSym Bq_append) (slist (xs @ [l]))) = simplify_loop (l # rev xs) SNil"
    by (cases xs) (simp_all add: simplify_args_def)
  then show ?case
    using simplify_loop_collected[of "rev xs" SNil l] x collected_plain[of SNil]
    by (auto simp: bq_simplify_append arg_ok_def collected_def)
next
  case (last_plain f)
  then show ?case using bq_simplify_id[of f] by (auto intro!: exI[of _ "[]"])
next
  case (last_quote v)
  then show ?case using bq_simplify_quote[of v] by (auto intro!: exI[of _ "[]"])
next
  case (arg_list x d)
  then obtain s xs l where s: "bq_simplify x = Inr s" "simplified s" "\<forall>d. s \<noteq> SCons (SSym Bq_clobberable) d"
    "maptree bq_simplify d = Inr (slist (xs @ [l]))" "\<forall>x \<in> set xs. arg_ok x" by blast
  then have "bq_simplify (slist [SSym Bq_list, x]) = Inr (slist [SSym Bq_list, s])" by (simp add: bq_simplify_call)
  then show ?case using s by (intro exI[of _ "slist [SSym Bq_list, s] # xs"] exI[of _ l]) (auto simp: arg_ok_def)
next
  case (arg_plain f d)
  then obtain xs l where s: "maptree bq_simplify d = Inr (slist (xs @ [l]))" "\<forall>x \<in> set xs. arg_ok x" by blast
  then show ?case using bq_simplify_id[of f] arg_plain(1)
    by (intro exI[of _ "f # xs"] exI[of _ l]) (auto simp: arg_ok_def)
next
  case (arg_clobberable f d)
  then obtain xs l where s: "maptree bq_simplify d = Inr (slist (xs @ [l]))" "\<forall>x \<in> set xs. arg_ok x" by blast
  have "bq_simplify (slist [SSym Bq_clobberable, f]) = Inr (slist [SSym Bq_clobberable, f])"
    using bq_simplify_id[OF arg_clobberable(1)] by (simp add: bq_simplify_call)
  then show ?case using s arg_clobberable(1)
    by (intro exI[of _ "slist [SSym Bq_clobberable, f] # xs"] exI[of _ l]) (auto simp: arg_ok_def)
qed

lemma bq_finish_raw: "raw r \<Longrightarrow> bq_finish sf r = remove_tokens r"
  using bq_simplify_raw(1)[of r] remove_tokens_simplified by (fastforce simp: bq_finish_def)

end
