(* ===== verification/BackquoteMeaning.thy ===== *)
theory BackquoteMeaning
  imports BackquoteOk
begin

text \<open>
  The list a backquote template stands for, and that its expansion evaluates to it.
\<close>

section \<open>Evaluating an expansion\<close>

text \<open>The forms an expansion is made of; all others are left to the evaluator of the system.\<close>

fun bq_eval :: "(sexp \<Rightarrow> sexp option) \<Rightarrow> sexp \<Rightarrow> sexp option"
  and bq_evals :: "(sexp \<Rightarrow> sexp option) \<Rightarrow> sexp \<Rightarrow> sexp list option" where
  "bq_eval ev (SCons h d) =
     (if h = SSym Cl_quote then (case d of SCons x SNil \<Rightarrow> Some x | _ \<Rightarrow> None)
      else if h = SSym Cl_list then map_option slist (bq_evals ev d)
      else if h = SSym Backquote_append then
        (case bq_evals ev d of None \<Rightarrow> None | Some vs \<Rightarrow>
           (case backquote_append vs of Inl _ \<Rightarrow> None | Inr v \<Rightarrow> Some v))
      else ev (SCons h d))"
| "bq_eval ev x = ev x"
| "bq_evals ev SNil = Some []"
| "bq_evals ev (SCons a d) =
     (case bq_eval ev a of None \<Rightarrow> None | Some v \<Rightarrow> map_option ((#) v) (bq_evals ev d))"
| "bq_evals ev x = None"

section \<open>What a template stands for\<close>

definition splice_value :: "sexp \<Rightarrow> sexp \<Rightarrow> sexp option" where
  "splice_value v r = (case sitems v of Inl _ \<Rightarrow> None | Inr xs \<Rightarrow> Some (dotted xs r))"

definition eval_second :: "(sexp \<Rightarrow> sexp option) \<Rightarrow> sexp \<Rightarrow> sexp option" where
  "eval_second ev x = (case scadr x of Inl _ \<Rightarrow> None | Inr f \<Rightarrow> bq_eval ev f)"

text \<open>
  A nested backquote stands for what its expansion, read as a template, stands for.  An
  unquoted form stands for its value, and a spliced one for the elements of its value;
  neither may be spliced where there is no list around it.
\<close>

function inst :: "(sexp \<Rightarrow> sexp option) \<Rightarrow> sexp \<Rightarrow> sexp option"
  and inst_rest :: "(sexp \<Rightarrow> sexp option) \<Rightarrow> sexp \<Rightarrow> sexp option" where
  "inst ev x =
     (case x of
        SCons h d \<Rightarrow>
          if h = SSym Quasiquote then
            (case scadr x of Inl _ \<Rightarrow> None | Inr y \<Rightarrow>
              (case completely_process False y of Inl _ \<Rightarrow> None | Inr e \<Rightarrow> inst ev e))
          else if h = SSym Unquote then eval_second ev x
          else if splicing_frob x then None
          else inst_rest ev x
      | _ \<Rightarrow> Some x)"
| "inst_rest ev x =
     (case x of
        SCons a d \<Rightarrow>
          if a = SSym Unquote then eval_second ev x
          else if splicing_frob x then None
          else if splicing_frob a then
            (case eval_second ev a of None \<Rightarrow> None | Some v \<Rightarrow> Option.bind (inst_rest ev d) (splice_value v))
          else
            (case inst ev a of None \<Rightarrow> None | Some v \<Rightarrow> map_option (SCons v) (inst_rest ev d))
      | _ \<Rightarrow> Some x)"
  by pat_completeness auto
termination
proof (relation "measures [case_sum (\<lambda>(ev, x). quasis x) (\<lambda>(ev, x). quasis x),
    case_sum (\<lambda>(ev, x). 2 * size x + 1) (\<lambda>(ev, x). 2 * size x)]", goal_cases)
  case (2 ev x h d y e)
  then obtain r where "bq_process False y = Inr r" "bq_finish False r = Inr e"
    by (auto simp: completely_process_def bind_res_Inr_iff)
  then have "quasis e \<le> quasis y" using quasis_finish quasis_bq_process le_trans by blast
  then show ?case using quasis_scadr_head[of h d y] 2 by simp
qed auto

declare inst.simps [simp del] inst_rest.simps [simp del]

section \<open>What processing makes\<close>

lemma bq_process_Cons:
  "bq_process sf (SCons h d) =
     (if h = SSym Quasiquote then
        bind_res (scadr (SCons h d)) (\<lambda>y. bind_res (bq_process sf y) (\<lambda>raw. bind_res (bq_finish sf raw) (bq_process sf)))
      else if h = SSym Unquote then scadr (SCons h d)
      else if h = SSym Unquote_splice then bind_res (scadr (SCons h d)) (\<lambda>y. Inl (Splice_after_backquote y))
      else if h = SSym Unquote_nsplice then bind_res (scadr (SCons h d)) (\<lambda>y. Inl (Nsplice_after_backquote y))
      else bq_process_loop sf (SCons h d) SNil)"
  by (subst bq_process.simps) simp

lemma bq_process_loop_Cons:
  "bq_process_loop sf (SCons a d) q =
     (if a = SSym Unquote then
        bind_res (scadr (SCons a d)) (\<lambda>y. bind_res (nreconc q (slist [y])) (\<lambda>n. Inr (SCons (SSym Bq_append) n)))
      else if a = SSym Unquote_splice then Inl (Dotted_splice (SCons a d))
      else if a = SSym Unquote_nsplice then Inl (Dotted_nsplice (SCons a d))
      else bind_res (bq_bracket sf a) (\<lambda>b. bq_process_loop sf d (SCons b q)))"
  by (subst bq_process_loop.simps) simp

lemma bq_bracket_Cons:
  "bq_bracket sf (SCons h d) =
     (if h = SSym Unquote then bind_res (scadr (SCons h d)) (\<lambda>y. Inr (slist [SSym Bq_list, y]))
      else if h = SSym Unquote_splice then scadr (SCons h d)
      else if h = SSym Unquote_nsplice then bind_res (scadr (SCons h d)) (\<lambda>y. Inr (slist [SSym Bq_clobberable, y]))
      else bind_res (bq_process sf (SCons h d)) (\<lambda>y. Inr (slist [SSym Bq_list, y])))"
  by (subst bq_bracket.simps) simp

lemma inst_Cons:
  "inst ev (SCons h d) =
     (if h = SSym Quasiquote then
        (case scadr (SCons h d) of Inl _ \<Rightarrow> None | Inr y \<Rightarrow>
          (case completely_process False y of Inl _ \<Rightarrow> None | Inr e \<Rightarrow> inst ev e))
      else if h = SSym Unquote then eval_second ev (SCons h d)
      else if splicing_frob (SCons h d) then None
      else inst_rest ev (SCons h d))"
  by (subst inst.simps) simp

lemma process_atom:
  assumes "\<not> sconsp x"
  shows "bq_process sf x = Inr (slist [SSym Bq_quote, x])"
    and "bq_process_loop sf x q = bind_res (nreconc q (slist [slist [SSym Bq_quote, x]])) (\<lambda>n. Inr (SCons (SSym Bq_append) n))"
    and "bq_bracket sf x = Inr (slist [SSym Bq_list, slist [SSym Bq_quote, x]])"
    and "inst ev x = Some x" "inst_rest ev x = Some x"
proof -
  show p: "bq_process sf x = Inr (slist [SSym Bq_quote, x])"
    using assms by (subst bq_process.simps) (cases x; simp)
  show "bq_process_loop sf x q = bind_res (nreconc q (slist [slist [SSym Bq_quote, x]])) (\<lambda>n. Inr (SCons (SSym Bq_append) n))"
    using assms by (subst bq_process_loop.simps) (cases x; simp)
  show "bq_bracket sf x = Inr (slist [SSym Bq_list, slist [SSym Bq_quote, x]])"
    using assms p by (subst bq_bracket.simps) (cases x; simp)
  show "inst ev x = Some x" "inst_rest ev x = Some x"
    using assms by (cases x; subst inst.simps inst_rest.simps; simp)+
qed

definition raw_elem :: "sexp \<Rightarrow> bool" where
  "raw_elem x \<longleftrightarrow> (\<forall>d. raw_args d \<longrightarrow> raw_args (SCons x d))"

lemma raw_elems: "raw x \<Longrightarrow> raw_elem (slist [SSym Bq_list, x])" "no_tokens f \<Longrightarrow> raw_elem f"
  "no_tokens f \<Longrightarrow> raw_elem (slist [SSym Bq_clobberable, f])"
  unfolding raw_elem_def by (blast intro: raw_raw_args.intros)+

lemma nreconc_sitems: "sitems q = Inr xs \<Longrightarrow> nreconc q t = Inr (dotted (rev xs) t)"
proof (induction q t arbitrary: xs rule: nreconc.induct)
  case (2 a d t)
  then obtain ys where "sitems d = Inr ys" "xs = a # ys" by (auto simp: bind_res_Inr_iff)
  moreover have "dotted (zs @ [a]) t = dotted zs (SCons a t)" for zs by (induction zs) simp_all
  ultimately show ?case using 2 by simp
qed simp_all

lemma raw_args_dotted: "list_all raw_elem xs \<Longrightarrow> raw_args d \<Longrightarrow> raw_args (dotted xs d)"
  by (induction xs) (auto simp: raw_elem_def)

lemma process_raw:
  "no_tokens x \<Longrightarrow> bq_process sf x = Inr r \<Longrightarrow> raw r"
  "no_tokens p \<Longrightarrow> sitems q = Inr qs \<Longrightarrow> list_all raw_elem qs \<Longrightarrow> bq_process_loop sf p q = Inr r \<Longrightarrow> raw r"
  "no_tokens x \<Longrightarrow> bq_bracket sf x = Inr r \<Longrightarrow> raw_elem r"
proof (induction sf x and sf p q and sf x arbitrary: r and r qs and r rule: bq_process_bq_process_loop_bq_bracket.induct)
  case (1 sf ox)
  show ?case
  proof (cases ox)
    case (SCons h d)
    from 1(5) SCons consider
      v w p where "h = SSym Quasiquote" "scadr ox = Inr v" "bq_process sf v = Inr w" "bq_finish sf w = Inr p" "bq_process sf p = Inr r"
      | "scadr ox = Inr r"
      | "h \<noteq> SSym Quasiquote" "h \<noteq> SSym Unquote" "h \<noteq> SSym Unquote_splice" "h \<noteq> SSym Unquote_nsplice" "bq_process_loop sf ox SNil = Inr r"
      by (auto simp: bq_process_Cons bind_res_Inr_iff split: if_splits)
    then show ?thesis
    proof cases
      case a: 1
      have "raw w" by (rule 1(1)[OF SCons a(1,2) no_tokens_scadr[OF a(2) 1(4)] a(3)])
      then have "no_tokens p" using bq_finish_raw[of w sf] a(4) remove_tokens_raw(1)[of w] by auto
      then show ?thesis by (rule 1(2)[OF SCons a(1,2,3,4) _ a(5)])
    next
      case 2
      show ?thesis by (rule raw_plain[OF no_tokens_scadr[OF 2 1(4)]])
    next
      case a: 3
      show ?thesis by (rule 1(3)[OF SCons a(1,2,3,4) 1(4) _ _ a(5), of "[]"]) (simp_all add: list_all_iff)
    qed
  qed (use 1(4,5) raw_quote[of ox] in \<open>auto simp: process_atom\<close>)
next
  case (2 sf p q)
  have last: "raw r" if "r = SCons (SSym Bq_append) n" "nreconc q d = Inr n" "raw_args d" for n d
    using that nreconc_sitems[OF 2(4), of d] raw_args_dotted[of "rev qs" d] 2(5) by (auto intro: raw_append)
  show ?case
  proof (cases p)
    case (SCons a d)
    from 2(6) SCons consider
      v n where "scadr p = Inr v" "nreconc q (slist [v]) = Inr n" "r = SCons (SSym Bq_append) n"
      | b where "a \<noteq> SSym Unquote" "a \<noteq> SSym Unquote_splice" "a \<noteq> SSym Unquote_nsplice" "bq_bracket sf a = Inr b"
          "bq_process_loop sf d (SCons b q) = Inr r"
      by (auto simp: bq_process_loop_Cons bind_res_Inr_iff split: if_splits)
    then show ?thesis
    proof cases
      case a: 1
      show ?thesis using last[OF a(3,2)] last_plain[OF no_tokens_scadr[OF a(1) 2(3)]] by blast
    next
      case a: 2
      have n: "no_tokens d" using 2(3) SCons by simp
      have "raw_elem b" by (rule 2(1)[OF SCons a(1,2,3) _ a(4)]) (use 2(3) SCons in simp)
      then show ?thesis using 2(4,5) by (intro 2(2)[OF SCons a(1,2,3,4) n _ _ a(5), of "b # qs"]) simp_all
    qed
  qed (use 2(3,6) last last_quote[of p] in \<open>auto simp: process_atom bind_res_Inr_iff\<close>)
next
  case (3 sf x)
  show ?case
  proof (cases x)
    case (SCons h d)
    from 3(6) SCons consider
      v where "scadr x = Inr v" "r = slist [SSym Bq_list, v] \<or> r = v \<or> r = slist [SSym Bq_clobberable, v]"
      | v where "bq_process sf x = Inr v" "r = slist [SSym Bq_list, v]" 
        "h \<noteq> SSym Unquote" "h \<noteq> SSym Unquote_splice" "h \<noteq> SSym Unquote_nsplice"
      by (auto simp: bq_bracket_Cons bind_res_Inr_iff split: if_splits)
    then show ?thesis
    proof cases
      case a: 1
      show ?thesis using raw_elems raw_plain no_tokens_scadr[OF a(1) 3(5)] a(2) by blast
    next
      case a: 2
      show ?thesis using 3(4)[OF SCons a(3,4,5) 3(5) a(1)] raw_elems(1) a(2) by blast
    qed
  qed (use 3(5,6) raw_elems(1) raw_quote[of x] in \<open>auto simp: process_atom bind_res_Inr_iff\<close>)
qed

text \<open>Whether simplification is switched on makes no difference.\<close>

lemma finish_flag: "raw r \<Longrightarrow> bq_finish sf r = bq_finish False r"
  by (simp add: bq_finish_raw)

lemma finish_no_tokens: "raw r \<Longrightarrow> bq_finish sf r = Inr e \<Longrightarrow> no_tokens e"
  using bq_finish_raw[of r sf] remove_tokens_raw(1)[of r] by auto

lemma process_flag:
  "no_tokens x \<Longrightarrow> bq_process sf x = bq_process False x"
  "no_tokens p \<Longrightarrow> bq_process_loop sf p q = bq_process_loop False p q"
  "no_tokens x \<Longrightarrow> bq_bracket sf x = bq_bracket False x"
proof (induction sf x and sf p q and sf x rule: bq_process_bq_process_loop_bq_bracket.induct)
  case (1 sf ox)
  show ?case
  proof (cases ox)
    case (SCons h d)
    show ?thesis
    proof (cases "h = SSym Quasiquote")
      case True
      have "bind_res (scadr ox) (\<lambda>y. bind_res (bq_process sf y) (\<lambda>w. bind_res (bq_finish sf w) (bq_process sf))) =
        bind_res (scadr ox) (\<lambda>y. bind_res (bq_process False y) (\<lambda>w. bind_res (bq_finish False w) (bq_process False)))"
      proof (intro bind_res_cong refl)
        fix y w p
        assume y: "scadr ox = Inr y"
        show e: "bq_process sf y = bq_process False y" by (rule 1(1)[OF SCons True y no_tokens_scadr[OF y 1(4)]])
        assume w: "bq_process False y = Inr w"
        have r: "raw w" by (rule process_raw(1)[OF no_tokens_scadr[OF y 1(4)] w])
        show f: "bq_finish sf w = bq_finish False w" by (rule finish_flag[OF r])
        assume p: "bq_finish False w = Inr p"
        show "bq_process sf p = bq_process False p"
          using 1(2)[OF SCons True y] e w f p finish_no_tokens[OF r p] by simp
      qed
      then show ?thesis using SCons True by (simp add: bq_process_Cons)
    next
      case False
      then show ?thesis using 1(3)[OF SCons False _ _ _ 1(4)] SCons by (simp add: bq_process_Cons)
    qed
  qed (simp_all add: process_atom)
next
  case (2 sf p q)
  show ?case
  proof (cases p)
    case (SCons a d)
    then have n: "no_tokens a" "no_tokens d" using 2(3) by simp_all
    have "bind_res (bq_bracket sf a) (\<lambda>b. bq_process_loop sf d (SCons b q)) =
        bind_res (bq_bracket False a) (\<lambda>b. bq_process_loop False d (SCons b q))"
      if h: "a \<noteq> SSym Unquote" "a \<noteq> SSym Unquote_splice" "a \<noteq> SSym Unquote_nsplice"
      using 2(1)[OF SCons h n(1)] 2(2)[OF SCons h _ n(2)] by (intro bind_res_cong) simp_all
    then show ?thesis using SCons by (simp add: bq_process_loop_Cons)
  qed (simp_all add: process_atom)
next
  case (3 sf x)
  show ?case
  proof (cases x)
    case (SCons h d)
    then show ?thesis using 3(4)[OF SCons _ _ _ 3(5)] by (simp add: bq_bracket_Cons)
  qed (simp_all add: process_atom)
qed

lemma completely_process_flag: "no_tokens x \<Longrightarrow> completely_process sf x = completely_process False x"
  using process_flag(1)[of x sf] process_raw(1)[of x False] finish_flag
  by (auto simp: completely_process_def intro!: bind_res_cong)

section \<open>The expansion evaluates to the list\<close>

definition args_value :: "(sexp \<Rightarrow> sexp option) \<Rightarrow> sexp \<Rightarrow> sexp option" where
  "args_value ev d = (case bq_evals ev d of None \<Rightarrow> None | Some vs \<Rightarrow>
     (case backquote_append vs of Inl _ \<Rightarrow> None | Inr v \<Rightarrow> Some v))"

definition elem_value :: "(sexp \<Rightarrow> sexp option) \<Rightarrow> sexp \<Rightarrow> sexp \<Rightarrow> sexp option" where
  "elem_value ev a r =
     (if splicing_frob a then Option.bind (eval_second ev a) (\<lambda>v. splice_value v r)
      else map_option (\<lambda>v. SCons v r) (inst ev a))"

lemma inst_rest_Cons:
  "a \<noteq> SSym Unquote \<Longrightarrow> \<not> splicing_frob (SCons a d) \<Longrightarrow> inst_rest ev (SCons a d) = Option.bind (inst_rest ev d) (elem_value ev a)"
  by (subst inst_rest.simps; cases "inst_rest ev d"; cases "eval_second ev a"; cases "inst ev a")
    (auto simp: elem_value_def)

lemma args_value_Cons:
  assumes "sconsp d"
  shows "args_value ev (SCons f d) = (case bq_eval ev f of None \<Rightarrow> None | Some v \<Rightarrow> Option.bind (args_value ev d) (splice_value v))"
proof -
  obtain x y where d: "d = SCons x y" using assms by (cases d) auto
  have "vs \<noteq> []" if "bq_evals ev d = Some vs" for vs using that d by (auto split: option.splits)
  then show ?thesis
    by (cases "bq_evals ev d"; cases "bq_eval ev f")
      (auto simp: args_value_def splice_value_def bind_res_def neq_Nil_conv split: sum.splits option.splits)
qed

lemma args_value_one: "args_value ev (slist [f]) = bq_eval ev f"
  by (auto simp: args_value_def split: option.splits)

lemma splice_value_one [simp]: "splice_value (slist [v]) r = Some (SCons v r)"
  by (simp add: splice_value_def)

lemma bq_eval_quote: "bq_eval ev (slist [SSym Cl_quote, v]) = Some v"
  by simp

lemma process_inst:
  "no_tokens x \<Longrightarrow> sf = False \<Longrightarrow>
     (case bq_process sf x of Inl _ \<Rightarrow> inst ev x = None
      | Inr r \<Rightarrow> \<exists>e. remove_tokens r = Inr e \<and> bq_eval ev e = inst ev x)"
  "no_tokens p \<Longrightarrow> sf = False \<Longrightarrow> sitems q = Inr qs \<Longrightarrow>
     (case bq_process_loop sf p q of Inl _ \<Rightarrow> inst_rest ev p = None
      | Inr r \<Rightarrow> \<exists>d e. r = SCons (SSym Bq_append) (dotted (rev qs) d) \<and> sconsp d \<and>
          maptree remove_tokens d = Inr e \<and> args_value ev e = inst_rest ev p)"
  "no_tokens x \<Longrightarrow> sf = False \<Longrightarrow>
     (case bq_bracket sf x of Inl _ \<Rightarrow> (\<forall>r. elem_value ev x r = None)
      | Inr b \<Rightarrow> \<exists>e. remove_tokens b = Inr e \<and>
          (\<forall>r. (case bq_eval ev e of None \<Rightarrow> None | Some v \<Rightarrow> splice_value v r) = elem_value ev x r))"
proof (induction sf x and sf p q and sf x arbitrary: and qs and rule: bq_process_bq_process_loop_bq_bracket.induct)
  case (1 sf ox)
  show ?case
  proof (cases ox)
    case (SCons h d)
    have sec: "case scadr ox of Inl _ \<Rightarrow> eval_second ev ox = None
      | Inr r \<Rightarrow> \<exists>e. remove_tokens r = Inr e \<and> bq_eval ev e = eval_second ev ox"
      using no_tokens_scadr[OF _ 1(4)] by (auto simp: eval_second_def remove_tokens_id split: sum.splits)
    consider "h = SSym Quasiquote" | "h = SSym Unquote" | "splicing_frob ox"
      | "h \<noteq> SSym Quasiquote" "h \<noteq> SSym Unquote" "\<not> splicing_frob ox" by blast
    then show ?thesis
    proof cases
      case 3
      then show ?thesis using SCons by (auto simp: bq_process_Cons inst_Cons bind_res_def split: sum.splits)
    next
      case 2
      then have "inst ev ox = eval_second ev ox" "bq_process sf ox = scadr ox" using SCons by (simp_all add: bq_process_Cons inst_Cons)
      then show ?thesis using sec by (simp only:)
    next
      case a: 4
      then have h: "h \<noteq> SSym Unquote_splice" "h \<noteq> SSym Unquote_nsplice" using SCons by auto
      have p: "bq_process sf ox = bq_process_loop sf ox SNil" and i: "inst ev ox = inst_rest ev ox"
        using SCons a h by (simp_all add: bq_process_Cons inst_Cons)
      have "case bq_process_loop sf ox SNil of Inl _ \<Rightarrow> inst_rest ev ox = None
        | Inr r \<Rightarrow> \<exists>d e. r = SCons (SSym Bq_append) (dotted (rev []) d) \<and> sconsp d \<and>
          maptree remove_tokens d = Inr e \<and> args_value ev e = inst_rest ev ox"
        by (rule 1(3)[OF SCons a(1,2) h 1(4,5)]) simp
      then show ?thesis unfolding p i
        by (auto simp: remove_tokens_call untoken_def args_value_def split: sum.splits)
    next
      case q: 1
      show ?thesis
      proof (cases "scadr ox")
        case (Inl e)
        then show ?thesis using SCons q by (simp add: bq_process_Cons inst_Cons)
      next
        case y: (Inr y)
        have ny: "no_tokens y" by (rule no_tokens_scadr[OF y 1(4)])
        show ?thesis
        proof (cases "completely_process False y")
          case (Inl e)
          then have "inst ev ox = None" using SCons q y by (simp add: inst_Cons)
          moreover have "\<exists>e. bq_process sf ox = Inl e" using Inl
            using SCons q y 1(5) by (auto simp: bq_process_Cons completely_process_def bind_res_def split: sum.splits)
          ultimately show ?thesis by auto
        next
          case (Inr p)
          then obtain w where w: "bq_process False y = Inr w" "bq_finish False w = Inr p"
            by (auto simp: completely_process_def bind_res_Inr_iff)
          have np: "no_tokens p" by (rule finish_no_tokens[OF process_raw(1)[OF ny w(1)] w(2)])
          have i: "inst ev ox = inst ev p" using SCons q y Inr by (simp add: inst_Cons)
          have p: "bq_process sf ox = bq_process sf p"
            using SCons q y w 1(5) by (simp add: bq_process_Cons)
          show ?thesis unfolding i p using 1(2)[OF SCons q y _ _ np 1(5)] w 1(5) by simp
        qed
      qed
    qed
  qed (use 1(4) in \<open>auto simp: process_atom remove_tokens_quote bq_eval_quote simp del: slist.simps\<close>)
next
  case (2 sf p q)
  have q: "nreconc q t = Inr (dotted (rev qs) t)" for t by (rule nreconc_sitems[OF 2(5)])
  have atom: ?case if "\<not> sconsp p"
  proof -
    have "maptree remove_tokens (slist [slist [SSym Bq_quote, p]]) = Inr (slist [slist [SSym Cl_quote, p]])"
      using remove_tokens_quote[OF 2(3)] by (simp add: remove_tokens_token)
    moreover have l: "bq_process_loop sf p q = Inr (SCons (SSym Bq_append) (dotted (rev qs) (slist [slist [SSym Bq_quote, p]])))"
      using that q by (simp add: process_atom)
    ultimately show ?thesis unfolding l sum.case
      using that args_value_one[of ev "slist [SSym Cl_quote, p]"] bq_eval_quote[of ev p]
      by (intro exI[of _ "slist [slist [SSym Bq_quote, p]]"] exI[of _ "slist [slist [SSym Cl_quote, p]]"]) (simp add: process_atom)
  qed
  show ?case
  proof (cases p)
    case (SCons a d)
    have n: "no_tokens a" "no_tokens d" using 2(3) SCons by simp_all
    show ?thesis
    proof (cases "a = SSym Unquote \<or> splicing_frob p")
      case True
      show ?thesis
      proof (cases "a = SSym Unquote")
        case u: True
        show ?thesis
        proof (cases "scadr p")
          case (Inr f)
          then have "maptree remove_tokens (slist [f]) = Inr (slist [f])"
            using remove_tokens_id[OF no_tokens_scadr[OF Inr 2(3)]] by (simp add: remove_tokens_token)
          moreover have "inst_rest ev p = bq_eval ev f"
            using SCons u Inr by (subst inst_rest.simps) (simp add: eval_second_def)
          moreover have "bq_process_loop sf p q = Inr (SCons (SSym Bq_append) (dotted (rev qs) (slist [f])))"
            using SCons u Inr q by (simp add: bq_process_loop_Cons)
          ultimately show ?thesis using args_value_one[of ev f] by fastforce
        next
          case (Inl e)
          then have "inst_rest ev p = None" using SCons u by (subst inst_rest.simps) (simp add: eval_second_def)
          then show ?thesis using Inl SCons u by (simp add: bq_process_loop_Cons)
        qed
      next
        case False
        then have "inst_rest ev p = None" using True SCons by (subst inst_rest.simps) simp
        then show ?thesis using True False SCons by (auto simp: bq_process_loop_Cons)
      qed
    next
      case False
      then have h: "a \<noteq> SSym Unquote" "a \<noteq> SSym Unquote_splice" "a \<noteq> SSym Unquote_nsplice" using SCons by auto
      have i: "inst_rest ev p = Option.bind (inst_rest ev d) (elem_value ev a)" using inst_rest_Cons[of a d ev] h SCons by simp
      have l: "bq_process_loop sf p q = bind_res (bq_bracket sf a) (\<lambda>b. bq_process_loop sf d (SCons b q))"
        using h SCons by (simp add: bq_process_loop_Cons)
      note IH1 = 2(1)[OF SCons h n(1) 2(4)]
      show ?thesis
      proof (cases "bq_bracket sf a")
        case (Inl e)
        then have "elem_value ev a r = None" for r using IH1 by simp
        then show ?thesis using i l Inl by (simp add: bind_eq_None_conv)
      next
        case b: (Inr b)
        then obtain b' where b': "remove_tokens b = Inr b'"
          "\<forall>r. (case bq_eval ev b' of None \<Rightarrow> None | Some v \<Rightarrow> splice_value v r) = elem_value ev a r" using IH1 by auto
        have IH2: "case bq_process_loop sf d (SCons b q) of Inl _ \<Rightarrow> inst_rest ev d = None
          | Inr r \<Rightarrow> \<exists>d' e. r = SCons (SSym Bq_append) (dotted (rev (b # qs)) d') \<and> sconsp d' \<and>
            maptree remove_tokens d' = Inr e \<and> args_value ev e = inst_rest ev d"
          by (rule 2(2)[OF SCons h b n(2) 2(4)]) (use 2(5) in simp)
        show ?thesis
        proof (cases "bq_process_loop sf d (SCons b q)")
          case (Inl e)
          then show ?thesis using i l b IH2 by simp
        next
          case (Inr r)
          then obtain d' e where d': "r = SCons (SSym Bq_append) (dotted (rev (b # qs)) d')" "sconsp d'"
            "maptree remove_tokens d' = Inr e" "args_value ev e = inst_rest ev d" using IH2 by auto
          have dot: "dotted (zs @ [b]) d' = dotted zs (SCons b d')" for zs by (induction zs) simp_all
          obtain x y where "d' = SCons x y" using d'(2) by (cases d') auto
          then have "sconsp e" using d'(3) by (auto simp: bind_res_Inr_iff)
          then have "args_value ev (SCons b' e) = inst_rest ev p"
            using args_value_Cons[of e ev b'] b'(2) d'(4) i
            by (cases "bq_eval ev b'"; cases "inst_rest ev d") (auto simp: fun_eq_iff)
          moreover have "maptree remove_tokens (SCons b d') = Inr (SCons b' e)" using b'(1) d'(3) by simp
          ultimately show ?thesis using l b Inr d'(1) dot[of "rev qs"] by fastforce
        qed
      qed
    qed
  qed (use atom in simp_all)
next
  case (3 sf x)
  have sec: "case scadr x of Inl _ \<Rightarrow> eval_second ev x = None
    | Inr r \<Rightarrow> remove_tokens r = Inr r \<and> bq_eval ev r = eval_second ev x"
    using no_tokens_scadr[OF _ 3(5)] by (auto simp: eval_second_def remove_tokens_id split: sum.splits)
  have listed: "\<exists>e. remove_tokens (slist [SSym Bq_list, y]) = Inr e \<and>
      (\<forall>r. (case bq_eval ev e of None \<Rightarrow> None | Some v \<Rightarrow> splice_value v r) = map_option (\<lambda>v. SCons v r) (bq_eval ev f))"
    if "remove_tokens y = Inr f" for y f
    using that splice_value_one
    by (auto simp: remove_tokens_call remove_tokens_token untoken_def split: option.splits)
  show ?case
  proof (cases "sconsp x \<and> (frob x)")
    case True
    then obtain h d where x: "x = SCons h d" by (cases x) auto
    show ?thesis
    proof (cases "scadr x")
      case (Inl e)
      then show ?thesis using True sec x by (auto simp: bq_bracket_Cons elem_value_def inst_Cons)
    next
      case (Inr f)
      note f = sec[unfolded Inr sum.case]
      show ?thesis
      proof (cases "splicing_frob x")
        case s: True
        then have "bq_bracket sf x = Inr f \<or> bq_bracket sf x = Inr (slist [SSym Bq_clobberable, f])"
          using Inr x by (auto simp: bq_bracket_Cons)
        moreover have "(case bq_eval ev f of None \<Rightarrow> None | Some v \<Rightarrow> splice_value v r) = elem_value ev x r" for r
          using s f by (auto simp: elem_value_def split: option.splits)
        ultimately show ?thesis using f remove_tokens_clobberable[of f] by (auto simp del: slist.simps)
      next
        case False
        then have "h = SSym Unquote" using True x by auto
        then have "bq_bracket sf x = Inr (slist [SSym Bq_list, f])" "inst ev x = bq_eval ev f"
          using Inr x f by (auto simp: bq_bracket_Cons inst_Cons)
        then show ?thesis using False listed[of f f] f by (simp add: elem_value_def del: slist.simps)
      qed
    qed
  next
    case False
    then have s: "\<not> splicing_frob x" and b: "bq_bracket sf x = bind_res (bq_process sf x) (\<lambda>y. Inr (slist [SSym Bq_list, y]))"
      by (cases x; auto simp: bq_bracket_Cons process_atom)+
    have p: "case bq_process sf x of Inl _ \<Rightarrow> inst ev x = None
      | Inr r \<Rightarrow> \<exists>e. remove_tokens r = Inr e \<and> bq_eval ev e = inst ev x"
      using 3(1)[OF _ 3(5,6)] 3(2)[OF _ 3(5,6)] 3(3)[OF _ 3(5,6)] 3(4)[OF _ _ _ _ 3(5,6)] False
      by (cases x) auto
    show ?thesis
    proof (cases "bq_process sf x")
      case (Inl e)
      then show ?thesis using p b s by (simp add: elem_value_def)
    next
      case (Inr y)
      then obtain e where "remove_tokens y = Inr e" "bq_eval ev e = inst ev x" using p by auto
      then show ?thesis using listed[of y e] b s Inr by (simp add: elem_value_def del: slist.simps)
    qed
  qed
qed

section \<open>Properties\<close>

text \<open>C36: expanding a backquote template, nested backquotes included, ends; when it ends with an error, the template stands
  for nothing, and otherwise the expansion, free of internal tokens, evaluates to the list the
  template stands for. The template must not contain internal tokens.\<close>
theorem backquote_expansion_correct:
  assumes "no_tokens t"
  shows "case completely_process sf t of
      Inl _ \<Rightarrow> inst ev t = None
    | Inr e \<Rightarrow> no_tokens e \<and> bq_eval ev e = inst ev t"
proof -
  have c: "completely_process sf t = completely_process False t" by (rule completely_process_flag[OF assms])
  show ?thesis
  proof (cases "bq_process False t")
    case (Inl e)
    then show ?thesis unfolding c using process_inst(1)[OF assms refl, of ev] by (simp add: completely_process_def)
  next
    case (Inr w)
    have r: "raw w" by (rule process_raw(1)[OF assms Inr])
    obtain e where e: "remove_tokens w = Inr e" "bq_eval ev e = inst ev t"
      using process_inst(1)[OF assms refl, of ev] Inr by auto
    then have "completely_process False t = Inr e" using Inr r by (simp add: completely_process_def bq_finish_raw)
    then show ?thesis using c e(2) finish_no_tokens[OF r, of False e] e(1) bq_finish_raw[OF r] by simp
  qed
qed

text \<open>The template \<open>(1 ,x ,@y . 2)\<close> where \<open>x\<close> is 5 and \<open>y\<close> the list of 6 and 7.\<close>

definition sample_template :: sexp where
  "sample_template = SCons (SAtom 1) (SCons (slist [SSym Unquote, SSym (Named 0)])
     (SCons (slist [SSym Unquote_splice, SSym (Named 1)]) (SAtom 2)))"

definition sample_values :: "sexp \<Rightarrow> sexp option" where
  "sample_values f = (if f = SSym (Named 0) then Some (SAtom 5)
     else if f = SSym (Named 1) then Some (slist [SAtom 6, SAtom 7]) else None)"

theorem backquote_expansion_correct_witness:
  "\<exists>e. completely_process True sample_template = Inr e \<and>
     bq_eval sample_values e = Some (SCons (SAtom 1) (SCons (SAtom 5) (SCons (SAtom 6) (SCons (SAtom 7) (SAtom 2)))))"
proof -
  have n: "no_tokens sample_template" by (simp add: sample_template_def is_token_def)
  have "inst sample_values sample_template = Some (SCons (SAtom 1) (SCons (SAtom 5) (SCons (SAtom 6) (SCons (SAtom 7) (SAtom 2)))))"
    by (simp add: sample_template_def inst_Cons inst_rest_Cons process_atom elem_value_def eval_second_def scadr_def
        sample_values_def splice_value_def)
  then show ?thesis using backquote_expansion_correct[OF n, where sf = True and ev = sample_values] by (auto split: sum.splits)
qed

text \<open>Simplification would drop the last argument of \<open>append\<close>: the template \<open>(1 . ,x)\<close> becomes \<open>'(1)\<close>.\<close>

lemma simplification_drops_tail:
  "bq_process True (SCons (SAtom 1) (slist [SSym Unquote, SSym (Named 0)])) =
     Inr (slist [SSym Bq_append, slist [SSym Bq_list, slist [SSym Bq_quote, SAtom 1]], SSym (Named 0)])"
  "bq_simplify (slist [SSym Bq_append, slist [SSym Bq_list, slist [SSym Bq_quote, SAtom 1]], SSym (Named 0)]) =
     Inr (slist [SSym Bq_quote, slist [SAtom 1]])"
  by (simp_all add: bq_process_Cons bq_process_loop_Cons process_atom scadr_def bq_simplify_append bq_simplify_call bq_simplify.simps
      simplify_args_def simplify_arg_def notany_list_def attach_conses_def attach_append_def
      backquote_append_list_def)

end
