(* ===== verification/FaslLoader.thy ===== *)
theory FaslLoader
  imports Prelude "HOL-Library.Word"
begin

unbundle bit_operations_syntax

text \<open>
  The loader of compiled files (loadltv.cc).  A file is a header and a sequence of
  instructions that create objects, number them in the order of their creation, and
  refer to them by number.  What the instructions create and call is the Lisp system,
  the argument \<open>runtime\<close>: each of its calls may signal an error or change the world.
\<close>

section \<open>The Lisp system\<close>

datatype uaet =
  U_nil | U_base_char | U_character | U_single_float | U_double_float | U_bit
  | U_ub2 | U_ub4 | U_ub8 | U_ub16 | U_ub32 | U_ub64 | U_sb8 | U_sb16 | U_sb32 | U_sb64 | U_t

datatype elem = E_char "32 word" | E_single "32 word" | E_double "64 word" | E_int int

datatype table_test = Test_eq | Test_eql | Test_equal | Test_equalp

datatype 'v decl_spec = D_inline | D_notinline | D_dynamic_extent | D_ignore | D_ignorable | D_other 'v

datatype 'v debug_var = Debug_var 'v "16 word" bool "'v decl_spec list"

datatype 'v debug_item =
  Di_function 'v
  | Di_vars "32 word" "32 word" "'v debug_var list"
  | Di_location "32 word" "32 word" 'v "64 word" "64 word" "64 word"
  | Di_decls "32 word" "32 word" 'v
  | Di_the "32 word" "32 word" 'v "32 word"
  | Di_block "32 word" "32 word" 'v "32 word"
  | Di_exit "32 word" "32 word" "32 word"
  | Di_macro "32 word" "32 word" 'v
  | Di_if "32 word" "32 word" "32 word"
  | Di_tagbody "32 word" "32 word" "('v \<times> 32 word) list"

datatype 'v call =
  Make_cons
  | Rplaca 'v 'v
  | Rplacd 'v 'v
  | Make_vector uaet nat
  | Make_mdarray "16 word list" uaet
  | Set_element 'v nat elem
  | Row_major_aset 'v nat 'v
  | Make_hash_table table_test "16 word"
  | Set_gethash 'v 'v 'v
  | Make_integer int
  | Find_package 'v
  | Make_bignum "64 word" "64 word list"
  | Make_single "32 word"
  | Make_double "64 word"
  | Divide 'v 'v
  | Make_complex 'v 'v
  | Make_symbol 'v
  | Intern 'v 'v
  | Make_character "32 word"
  | Make_pathname 'v 'v 'v 'v 'v 'v
  | Make_function 'v "16 word" "16 word" "32 word" "32 word"
  | Make_module "8 word list"
  | Set_literals 'v "'v list"
  | Fdefinition 'v
  | Function_cell 'v
  | Variable_cell 'v
  | Apply_function 'v "'v list"
  | Find_class 'v
  | Set_function_name 'v 'v
  | Set_trampoline 'v 'v
  | Set_docstring 'v 'v
  | Set_lambda_list 'v 'v
  | Set_source_pos 'v 'v "64 word" "64 word" "64 word"
  | File_scope 'v
  | Set_debug_info 'v "'v debug_item list"

datatype vtype =
  Cons_t | Array_t | Hash_table_t | String_t | Simple_string_t | Integer_t | Real_t | Symbol_t
  | Package_t | Module_t | Function_t | Bytecode_fun_t | File_scope_t

datatype fasl_error =
  Bad_magic | Bad_version | Short_header
  | Out_of_range nat | Uninitialized nat | Already_set nat | Not_initialized nat
  | Bad_continuation "8 word" | Bad_utf8 "8 word" | Bad_uaet "8 word" | Bad_packing "8 word"
  | Bad_test "8 word" | Bad_opcode "8 word" | Bad_debug_op "8 word"
  | Wrong_type vtype | Signalled nat

text \<open>
  \<open>nil_byte\<close> is the low byte of what \<open>unsafe_fixnum\<close> makes of \<open>NIL\<close>, which reading a byte
  returns at the end of the file.
\<close>

record ('v, 'w) runtime =
  perform :: "'v call \<Rightarrow> 'w \<Rightarrow> fasl_error + 'v \<times> 'w"
  is_a :: "vtype \<Rightarrow> 'v \<Rightarrow> 'w \<Rightarrow> bool"
  text_of :: "'v \<Rightarrow> 'w \<Rightarrow> string"
  nil_value :: 'v
  t_value :: 'v
  nil_byte :: "8 word"

section \<open>The loader\<close>

record ('v, 'w) loader =
  input :: "8 word list"
  literals :: "'v option list"
  index_bytes :: nat
  next_object :: nat
  world :: 'w

type_synonym ('v, 'w, 'a) ld = "('v, 'w) loader \<Rightarrow> fasl_error + 'a \<times> ('v, 'w) loader"

definition ld_return :: "'a \<Rightarrow> ('v, 'w, 'a) ld" where
  "ld_return a = (\<lambda>s. Inr (a, s))"

definition ld_bind :: "('v, 'w, 'a) ld \<Rightarrow> ('a \<Rightarrow> ('v, 'w, 'b) ld) \<Rightarrow> ('v, 'w, 'b) ld" where
  "ld_bind m f = (\<lambda>s. case m s of Inl e \<Rightarrow> Inl e | Inr (a, s') \<Rightarrow> f a s')"

definition ld_error :: "fasl_error \<Rightarrow> ('v, 'w, 'a) ld" where
  "ld_error e = (\<lambda>s. Inl e)"

definition call :: "('v, 'w) runtime \<Rightarrow> 'v call \<Rightarrow> ('v, 'w, 'v) ld" where
  "call rt c = (\<lambda>s. case perform rt c (world s) of
     Inl e \<Rightarrow> Inl e | Inr (v, w) \<Rightarrow> Inr (v, s\<lparr>world := w\<rparr>))"

definition effect :: "('v, 'w) runtime \<Rightarrow> 'v call \<Rightarrow> ('v, 'w, unit) ld" where
  "effect rt c = ld_bind (call rt c) (\<lambda>_. ld_return ())"

text \<open>\<open>gc::As<T>\<close>, and the test \<open>gc::IsA<T>\<close>.\<close>

definition as_type :: "('v, 'w) runtime \<Rightarrow> vtype \<Rightarrow> 'v \<Rightarrow> ('v, 'w, 'v) ld" where
  "as_type rt t v = (\<lambda>s. if is_a rt t v (world s) then Inr (v, s) else Inl (Wrong_type t))"

definition when_type :: "('v, 'w) runtime \<Rightarrow> vtype \<Rightarrow> 'v \<Rightarrow> ('v, 'w, unit) ld \<Rightarrow> ('v, 'w, unit) ld" where
  "when_type rt t v m = (\<lambda>s. if is_a rt t v (world s) then m s else Inr ((), s))"

text \<open>A loop that reads \<open>n\<close> things.\<close>

fun ld_times :: "nat \<Rightarrow> ('v, 'w, 'a) ld \<Rightarrow> ('v, 'w, 'a list) ld" where
  "ld_times 0 m = ld_return []"
| "ld_times (Suc n) m = ld_bind m (\<lambda>a. ld_bind (ld_times n m) (\<lambda>as. ld_return (a # as)))"

section \<open>Reading\<close>

definition read_u8 :: "('v, 'w) runtime \<Rightarrow> ('v, 'w, 8 word) ld" where
  "read_u8 rt = (\<lambda>s. case input s of [] \<Rightarrow> Inr (nil_byte rt, s) | b # r \<Rightarrow> Inr (b, s\<lparr>input := r\<rparr>))"

definition read_s8 :: "('v, 'w) runtime \<Rightarrow> ('v, 'w, int) ld" where
  "read_s8 rt = ld_bind (read_u8 rt) (\<lambda>b. ld_return (sint b))"

definition read_u16 :: "('v, 'w) runtime \<Rightarrow> ('v, 'w, 16 word) ld" where
  "read_u16 rt = ld_bind (read_u8 rt) (\<lambda>high. ld_bind (read_u8 rt) (\<lambda>low.
     ld_return (push_bit 8 (ucast high) OR ucast low)))"

definition read_s16 :: "('v, 'w) runtime \<Rightarrow> ('v, 'w, int) ld" where
  "read_s16 rt = ld_bind (read_u16 rt) (\<lambda>w. ld_return (sint w))"

definition read_u32 :: "('v, 'w) runtime \<Rightarrow> ('v, 'w, 32 word) ld" where
  "read_u32 rt =
     ld_bind (read_u8 rt) (\<lambda>b0. ld_bind (read_u8 rt) (\<lambda>b1. ld_bind (read_u8 rt) (\<lambda>b2. ld_bind (read_u8 rt) (\<lambda>b3.
     ld_return (push_bit 24 (ucast b0) OR push_bit 16 (ucast b1) OR push_bit 8 (ucast b2) OR push_bit 0 (ucast b3))))))"

definition read_s32 :: "('v, 'w) runtime \<Rightarrow> ('v, 'w, int) ld" where
  "read_s32 rt = ld_bind (read_u32 rt) (\<lambda>w. ld_return (sint w))"

definition read_u64 :: "('v, 'w) runtime \<Rightarrow> ('v, 'w, 64 word) ld" where
  "read_u64 rt =
     ld_bind (read_u8 rt) (\<lambda>b0. ld_bind (read_u8 rt) (\<lambda>b1. ld_bind (read_u8 rt) (\<lambda>b2. ld_bind (read_u8 rt) (\<lambda>b3.
     ld_bind (read_u8 rt) (\<lambda>b4. ld_bind (read_u8 rt) (\<lambda>b5. ld_bind (read_u8 rt) (\<lambda>b6. ld_bind (read_u8 rt) (\<lambda>b7.
     ld_return (push_bit 56 (ucast b0) OR push_bit 48 (ucast b1) OR push_bit 40 (ucast b2) OR push_bit 32 (ucast b3) OR
       push_bit 24 (ucast b4) OR push_bit 16 (ucast b5) OR push_bit 8 (ucast b6) OR push_bit 0 (ucast b7))))))))))"

definition read_s64 :: "('v, 'w) runtime \<Rightarrow> ('v, 'w, int) ld" where
  "read_s64 rt = ld_bind (read_u64 rt) (\<lambda>w. ld_return (sint w))"

definition read_continuation_byte :: "('v, 'w) runtime \<Rightarrow> ('v, 'w, 8 word) ld" where
  "read_continuation_byte rt = ld_bind (read_u8 rt) (\<lambda>b.
     if drop_bit 6 b = 2 then ld_return (b AND 63) else ld_error (Bad_continuation b))"

text \<open>The order in which the operands of \<open>|\<close> are evaluated is left to right here.\<close>

definition read_utf8 :: "('v, 'w) runtime \<Rightarrow> ('v, 'w, 32 word) ld" where
  "read_utf8 rt = ld_bind (read_u8 rt) (\<lambda>head.
     if drop_bit 7 head = 0 then ld_return (ucast head)
     else if drop_bit 5 head = 6 then
       ld_bind (read_continuation_byte rt) (\<lambda>b1.
       ld_return (push_bit 6 (ucast (head AND 31)) OR ucast b1))
     else if drop_bit 4 head = 14 then
       ld_bind (read_continuation_byte rt) (\<lambda>b1. ld_bind (read_continuation_byte rt) (\<lambda>b2.
       ld_return (push_bit 12 (ucast (head AND 15)) OR push_bit 6 (ucast b1) OR ucast b2)))
     else if drop_bit 3 head = 30 then
       ld_bind (read_continuation_byte rt) (\<lambda>b1. ld_bind (read_continuation_byte rt) (\<lambda>b2.
       ld_bind (read_continuation_byte rt) (\<lambda>b3.
       ld_return (push_bit 18 (ucast (head AND 7)) OR push_bit 12 (ucast b1) OR push_bit 6 (ucast b2) OR ucast b3))))
     else ld_error (Bad_utf8 head))"

definition read_index :: "('v, 'w) runtime \<Rightarrow> ('v, 'w, nat) ld" where
  "read_index rt = (\<lambda>s.
     if index_bytes s = 1 then ld_bind (read_u8 rt) (\<lambda>w. ld_return (unat w)) s
     else if index_bytes s = 2 then ld_bind (read_u16 rt) (\<lambda>w. ld_return (unat w)) s
     else if index_bytes s = 4 then ld_bind (read_u32 rt) (\<lambda>w. ld_return (unat w)) s
     else ld_bind (read_u64 rt) (\<lambda>w. ld_return (unat w)) s)"

section \<open>The table of objects\<close>

definition next_index :: "('v, 'w, nat) ld" where
  "next_index = (\<lambda>s. Inr (next_object s, s\<lparr>next_object := next_object s + 1\<rparr>))"

fun first_unbound :: "nat \<Rightarrow> 'v option list \<Rightarrow> nat option" where
  "first_unbound i [] = None"
| "first_unbound i (v # vs) = (if v = None then Some i else first_unbound (i + 1) vs)"

definition check_initialization :: "('v, 'w, unit) ld" where
  "check_initialization = (\<lambda>s. case first_unbound 0 (literals s) of
     Some i \<Rightarrow> Inl (Not_initialized i) | None \<Rightarrow> Inr ((), s))"

definition ltv_at :: "nat \<Rightarrow> 'v option list \<Rightarrow> fasl_error + 'v" where
  "ltv_at i ls =
     (if i \<ge> length ls then Inl (Out_of_range i)
      else case ls ! i of None \<Rightarrow> Inl (Uninitialized i) | Some v \<Rightarrow> Inr v)"

definition get_ltv :: "nat \<Rightarrow> ('v, 'w, 'v) ld" where
  "get_ltv i = (\<lambda>s. case ltv_at i (literals s) of Inl e \<Rightarrow> Inl e | Inr v \<Rightarrow> Inr (v, s))"

definition set_ltv :: "'v \<Rightarrow> nat \<Rightarrow> ('v, 'w, unit) ld" where
  "set_ltv v i = (\<lambda>s.
     if i \<ge> length (literals s) then Inl (Out_of_range i)
     else if literals s ! i \<noteq> None then Inl (Already_set i)
     else Inr ((), s\<lparr>literals := (literals s)[i := Some v]\<rparr>))"

text \<open>\<open>get_ltv(read_index())\<close>, alone and with a conversion.\<close>

definition read_ltv :: "('v, 'w) runtime \<Rightarrow> ('v, 'w, 'v) ld" where
  "read_ltv rt = ld_bind (read_index rt) get_ltv"

definition read_as :: "('v, 'w) runtime \<Rightarrow> vtype \<Rightarrow> ('v, 'w, 'v) ld" where
  "read_as rt t = ld_bind (read_ltv rt) (as_type rt t)"

end
