(* ===== verification/FaslOps.thy ===== *)
theory FaslOps
  imports FaslLoader
begin

text \<open>
  The instructions of the loader, its main loop, and the function that links compiled
  files into one (loadltv.cc).
\<close>

fun ld_for :: "'i list \<Rightarrow> ('i \<Rightarrow> ('v, 'w, unit) ld) \<Rightarrow> ('v, 'w, unit) ld" where
  "ld_for [] f = ld_return ()"
| "ld_for (i # is) f = ld_bind (f i) (\<lambda>_. ld_for is f)"

text \<open>An instruction that creates an object takes its number before it reads its operands.\<close>

definition creating :: "('v, 'w, 'v) ld \<Rightarrow> ('v, 'w, unit) ld" where
  "creating m = ld_bind next_index (\<lambda>i. ld_bind m (\<lambda>v. set_ltv v i))"

section \<open>Conses\<close>

definition op_nil :: "('v, 'w) runtime \<Rightarrow> ('v, 'w, unit) ld" where
  "op_nil rt = creating (ld_return (nil_value rt))"

definition op_t :: "('v, 'w) runtime \<Rightarrow> ('v, 'w, unit) ld" where
  "op_t rt = creating (ld_return (t_value rt))"

definition op_cons :: "('v, 'w) runtime \<Rightarrow> ('v, 'w, unit) ld" where
  "op_cons rt = creating (call rt Make_cons)"

definition op_rplaca :: "('v, 'w) runtime \<Rightarrow> ('v, 'w, unit) ld" where
  "op_rplaca rt = ld_bind (read_as rt Cons_t) (\<lambda>c. ld_bind (read_ltv rt) (\<lambda>v. effect rt (Rplaca c v)))"

definition op_rplacd :: "('v, 'w) runtime \<Rightarrow> ('v, 'w, unit) ld" where
  "op_rplacd rt = ld_bind (read_as rt Cons_t) (\<lambda>c. ld_bind (read_ltv rt) (\<lambda>v. effect rt (Rplacd c v)))"

section \<open>Arrays\<close>

definition decode_uaet :: "8 word \<Rightarrow> fasl_error + uaet" where
  "decode_uaet code =
     (if code = 0x00 then Inr U_nil else if code = 0x80 then Inr U_base_char
      else if code = 0xC0 then Inr U_character else if code = 0x20 then Inr U_single_float
      else if code = 0x60 then Inr U_double_float else if code = 0x01 then Inr U_bit
      else if code = 0x02 then Inr U_ub2 else if code = 0x03 then Inr U_ub4
      else if code = 0x04 then Inr U_ub8 else if code = 0x05 then Inr U_ub16
      else if code = 0x06 then Inr U_ub32 else if code = 0x07 then Inr U_ub64
      else if code = 0x84 then Inr U_sb8 else if code = 0x85 then Inr U_sb16
      else if code = 0x86 then Inr U_sb32 else if code = 0x87 then Inr U_sb64
      else if code = 0xFF then Inr U_t
      else Inl (Bad_uaet code))"

definition sub_bits :: "nat \<Rightarrow> 8 word \<Rightarrow> nat \<Rightarrow> 8 word" where
  "sub_bits nbits byte j =
     (let perbyte = 8 div nbits;
          mask = push_bit nbits 1 - 1;
          bit_index = nbits * (perbyte - j - 1)
      in drop_bit bit_index (byte AND push_bit bit_index mask))"

definition fill_sub_byte :: "('v, 'w) runtime \<Rightarrow> 'v \<Rightarrow> nat \<Rightarrow> nat \<Rightarrow> ('v, 'w, unit) ld" where
  "fill_sub_byte rt arr total_size nbits =
     (let perbyte = 8 div nbits;
          full_bytes = total_size div perbyte;
          remainder = total_size mod perbyte;
          unpack = (\<lambda>index n. ld_bind (read_u8 rt) (\<lambda>byte.
            ld_for [0..<n] (\<lambda>j. effect rt (Set_element arr (index + j) (E_int (uint (sub_bits nbits byte j)))))))
      in ld_bind (ld_for [0..<full_bytes] (\<lambda>byte_index. unpack (perbyte * byte_index) perbyte)) (\<lambda>_.
         if remainder \<noteq> 0 then unpack (perbyte * full_bytes) remainder else ld_return ()))"

definition read_array :: "('v, 'w) runtime \<Rightarrow> 'v \<Rightarrow> nat \<Rightarrow> ('v, 'w, elem) ld \<Rightarrow> ('v, 'w, unit) ld" where
  "read_array rt arr total_size m = ld_for [0..<total_size] (\<lambda>i. ld_bind m (\<lambda>e. effect rt (Set_element arr i e)))"

definition fill_array :: "('v, 'w) runtime \<Rightarrow> 'v \<Rightarrow> nat \<Rightarrow> 8 word \<Rightarrow> ('v, 'w, unit) ld" where
  "fill_array rt arr total_size packing =
     (case decode_uaet packing of
        Inl _ \<Rightarrow> ld_error (Bad_packing packing)
      | Inr U_nil \<Rightarrow> ld_return ()
      | Inr U_base_char \<Rightarrow> read_array rt arr total_size (ld_bind (read_u8 rt) (\<lambda>b. ld_return (E_char (ucast b))))
      | Inr U_character \<Rightarrow> read_array rt arr total_size (ld_bind (read_utf8 rt) (\<lambda>c. ld_return (E_char c)))
      | Inr U_single_float \<Rightarrow> read_array rt arr total_size (ld_bind (read_u32 rt) (\<lambda>w. ld_return (E_single w)))
      | Inr U_double_float \<Rightarrow> read_array rt arr total_size (ld_bind (read_u64 rt) (\<lambda>w. ld_return (E_double w)))
      | Inr U_bit \<Rightarrow> fill_sub_byte rt arr total_size 1
      | Inr U_ub2 \<Rightarrow> fill_sub_byte rt arr total_size 2
      | Inr U_ub4 \<Rightarrow> fill_sub_byte rt arr total_size 4
      | Inr U_ub8 \<Rightarrow> read_array rt arr total_size (ld_bind (read_u8 rt) (\<lambda>w. ld_return (E_int (uint w))))
      | Inr U_ub16 \<Rightarrow> read_array rt arr total_size (ld_bind (read_u16 rt) (\<lambda>w. ld_return (E_int (uint w))))
      | Inr U_ub32 \<Rightarrow> read_array rt arr total_size (ld_bind (read_u32 rt) (\<lambda>w. ld_return (E_int (uint w))))
      | Inr U_ub64 \<Rightarrow> read_array rt arr total_size (ld_bind (read_u64 rt) (\<lambda>w. ld_return (E_int (uint w))))
      | Inr U_sb8 \<Rightarrow> read_array rt arr total_size (ld_bind (read_s8 rt) (\<lambda>i. ld_return (E_int i)))
      | Inr U_sb16 \<Rightarrow> read_array rt arr total_size (ld_bind (read_s16 rt) (\<lambda>i. ld_return (E_int i)))
      | Inr U_sb32 \<Rightarrow> read_array rt arr total_size (ld_bind (read_s32 rt) (\<lambda>i. ld_return (E_int i)))
      | Inr U_sb64 \<Rightarrow> read_array rt arr total_size (ld_bind (read_s64 rt) (\<lambda>i. ld_return (E_int i)))
      | Inr U_t \<Rightarrow> ld_return ())"

definition array_total :: "16 word list \<Rightarrow> 64 word" where
  "array_total dims = foldl (\<lambda>total_size dim. total_size * ucast dim) 1 dims"

definition make_array :: "('v, 'w) runtime \<Rightarrow> 16 word list \<Rightarrow> uaet \<Rightarrow> ('v, 'w, 'v) ld" where
  "make_array rt dims u =
     ld_bind (if length dims = 1 then call rt (Make_vector u (unat (array_total dims))) else call rt (Make_mdarray dims u))
       (as_type rt Array_t)"

definition op_array :: "('v, 'w) runtime \<Rightarrow> ('v, 'w, unit) ld" where
  "op_array rt =
     ld_bind next_index (\<lambda>index.
     ld_bind (read_u8 rt) (\<lambda>code.
     case decode_uaet code of
       Inl e \<Rightarrow> ld_error e
     | Inr u \<Rightarrow>
         ld_bind (read_u8 rt) (\<lambda>packing. ld_bind (read_u8 rt) (\<lambda>rank.
         ld_bind (ld_times (unat rank) (read_u16 rt)) (\<lambda>dims.
         ld_bind (make_array rt dims u) (\<lambda>arr.
         ld_bind (set_ltv arr index) (\<lambda>_.
         fill_array rt arr (unat (array_total dims)) packing)))))))"

definition op_srma :: "('v, 'w) runtime \<Rightarrow> ('v, 'w, unit) ld" where
  "op_srma rt = ld_bind (read_as rt Array_t) (\<lambda>arr. ld_bind (read_u16 rt) (\<lambda>i. ld_bind (read_ltv rt) (\<lambda>v.
     effect rt (Row_major_aset arr (unat i) v))))"

section \<open>Hash tables\<close>

definition op_hasht :: "('v, 'w) runtime \<Rightarrow> ('v, 'w, unit) ld" where
  "op_hasht rt = creating (
     ld_bind (read_u8 rt) (\<lambda>code. ld_bind (read_u16 rt) (\<lambda>count.
     if code = 0 then call rt (Make_hash_table Test_eq count)
     else if code = 1 then call rt (Make_hash_table Test_eql count)
     else if code = 2 then call rt (Make_hash_table Test_equal count)
     else if code = 3 then call rt (Make_hash_table Test_equalp count)
     else ld_error (Bad_test code))))"

definition op_shash :: "('v, 'w) runtime \<Rightarrow> ('v, 'w, unit) ld" where
  "op_shash rt = ld_bind (read_as rt Hash_table_t) (\<lambda>ht. ld_bind (read_ltv rt) (\<lambda>k. ld_bind (read_ltv rt) (\<lambda>v.
     effect rt (Set_gethash ht k v))))"

section \<open>Numbers, symbols and pathnames\<close>

definition op_sb64 :: "('v, 'w) runtime \<Rightarrow> ('v, 'w, unit) ld" where
  "op_sb64 rt = creating (ld_bind (read_s64 rt) (\<lambda>i. call rt (Make_integer i)))"

definition op_package :: "('v, 'w) runtime \<Rightarrow> ('v, 'w, unit) ld" where
  "op_package rt = creating (ld_bind (read_as rt String_t) (\<lambda>name. call rt (Find_package name)))"

text \<open>The limbs come from the most significant; the list has the least significant first.\<close>

definition op_bignum :: "('v, 'w) runtime \<Rightarrow> ('v, 'w, unit) ld" where
  "op_bignum rt = creating (
     ld_bind (read_u64 rt) (\<lambda>ssize. ld_bind (ld_times (nat \<bar>sint ssize\<bar>) (read_u64 rt)) (\<lambda>limbs.
     call rt (Make_bignum ssize (rev limbs)))))"

definition op_float :: "('v, 'w) runtime \<Rightarrow> ('v, 'w, unit) ld" where
  "op_float rt = creating (ld_bind (read_u32 rt) (\<lambda>w. call rt (Make_single w)))"

definition op_double :: "('v, 'w) runtime \<Rightarrow> ('v, 'w, unit) ld" where
  "op_double rt = creating (ld_bind (read_u64 rt) (\<lambda>w. call rt (Make_double w)))"

definition op_ratio :: "('v, 'w) runtime \<Rightarrow> ('v, 'w, unit) ld" where
  "op_ratio rt = creating (ld_bind (read_as rt Integer_t) (\<lambda>n. ld_bind (read_as rt Integer_t) (\<lambda>d. call rt (Divide n d))))"

definition op_complex :: "('v, 'w) runtime \<Rightarrow> ('v, 'w, unit) ld" where
  "op_complex rt = creating (ld_bind (read_as rt Real_t) (\<lambda>r. ld_bind (read_as rt Real_t) (\<lambda>i. call rt (Make_complex r i))))"

definition op_symbol :: "('v, 'w) runtime \<Rightarrow> ('v, 'w, unit) ld" where
  "op_symbol rt = creating (ld_bind (read_as rt Simple_string_t) (\<lambda>name. call rt (Make_symbol name)))"

definition op_intern :: "('v, 'w) runtime \<Rightarrow> ('v, 'w, unit) ld" where
  "op_intern rt = creating (ld_bind (read_as rt Package_t) (\<lambda>pack. ld_bind (read_as rt Simple_string_t) (\<lambda>name.
     call rt (Intern pack name))))"

definition op_character :: "('v, 'w) runtime \<Rightarrow> ('v, 'w, unit) ld" where
  "op_character rt = creating (ld_bind (read_u32 rt) (\<lambda>code. call rt (Make_character code)))"

definition op_pathname :: "('v, 'w) runtime \<Rightarrow> ('v, 'w, unit) ld" where
  "op_pathname rt = creating (
     ld_bind (read_ltv rt) (\<lambda>host. ld_bind (read_ltv rt) (\<lambda>device. ld_bind (read_ltv rt) (\<lambda>directory.
     ld_bind (read_ltv rt) (\<lambda>name. ld_bind (read_ltv rt) (\<lambda>type. ld_bind (read_ltv rt) (\<lambda>version.
     call rt (Make_pathname host device directory name type version))))))))"

section \<open>Code\<close>

definition op_bcfunc :: "('v, 'w) runtime \<Rightarrow> ('v, 'w, unit) ld" where
  "op_bcfunc rt = creating (
     ld_bind (read_u32 rt) (\<lambda>entry_point. ld_bind (read_u32 rt) (\<lambda>final_size.
     ld_bind (read_u16 rt) (\<lambda>nlocals. ld_bind (read_u16 rt) (\<lambda>nclosed.
     ld_bind (read_as rt Module_t) (\<lambda>module.
     call rt (Make_function module nlocals nclosed entry_point final_size)))))))"

text \<open>\<open>read-sequence\<close> stops at the end of the file and leaves the rest of the vector zero.\<close>

definition read_sequence :: "nat \<Rightarrow> ('v, 'w, 8 word list) ld" where
  "read_sequence len = (\<lambda>s.
     let bytes = take len (input s)
     in Inr (bytes @ replicate (len - length bytes) 0, s\<lparr>input := drop len (input s)\<rparr>))"

definition op_bcmod :: "('v, 'w) runtime \<Rightarrow> ('v, 'w, unit) ld" where
  "op_bcmod rt = creating (
     ld_bind (read_u32 rt) (\<lambda>len. ld_bind (read_sequence (unat len)) (\<lambda>bytes. call rt (Make_module bytes))))"

definition op_slits :: "('v, 'w) runtime \<Rightarrow> ('v, 'w, unit) ld" where
  "op_slits rt = ld_bind (read_as rt Module_t) (\<lambda>module. ld_bind (read_u16 rt) (\<lambda>len.
     ld_bind (ld_times (unat len) (read_ltv rt)) (\<lambda>lits. effect rt (Set_literals module lits))))"

definition op_fdef :: "('v, 'w) runtime \<Rightarrow> ('v, 'w, unit) ld" where
  "op_fdef rt = creating (ld_bind (read_ltv rt) (\<lambda>name. call rt (Fdefinition name)))"

definition op_fcell :: "('v, 'w) runtime \<Rightarrow> ('v, 'w, unit) ld" where
  "op_fcell rt = creating (ld_bind (read_ltv rt) (\<lambda>name. call rt (Function_cell name)))"

definition op_vcell :: "('v, 'w) runtime \<Rightarrow> ('v, 'w, unit) ld" where
  "op_vcell rt = creating (ld_bind (read_as rt Symbol_t) (\<lambda>name. call rt (Variable_cell name)))"

definition op_create :: "('v, 'w) runtime \<Rightarrow> ('v, 'w, unit) ld" where
  "op_create rt = creating (
     ld_bind (read_as rt Function_t) (\<lambda>func. ld_bind (read_u16 rt) (\<lambda>nargs.
     ld_bind (ld_times (unat nargs) (read_ltv rt)) (\<lambda>args. call rt (Apply_function func args)))))"

definition op_init :: "('v, 'w) runtime \<Rightarrow> ('v, 'w, unit) ld" where
  "op_init rt =
     ld_bind (read_as rt Function_t) (\<lambda>func. ld_bind (read_u16 rt) (\<lambda>nargs.
     ld_bind (ld_times (unat nargs) (read_ltv rt)) (\<lambda>args. effect rt (Apply_function func args))))"

definition op_class :: "('v, 'w) runtime \<Rightarrow> ('v, 'w, unit) ld" where
  "op_class rt = creating (ld_bind (read_as rt Symbol_t) (\<lambda>name. call rt (Find_class name)))"

definition op_environment :: "('v, 'w) runtime \<Rightarrow> ('v, 'w, unit) ld" where
  "op_environment rt = creating (ld_return (nil_value rt))"

end
