(* ===== verification/FaslMain.thy ===== *)
theory FaslMain
  imports FaslOps
begin

text \<open>
  Attributes of objects, the table of instructions, loading a file, and linking files
  (loadltv.cc).
\<close>

section \<open>Attributes\<close>

definition attr_name :: "('v, 'w) runtime \<Rightarrow> ('v, 'w, unit) ld" where
  "attr_name rt = ld_bind (read_ltv rt) (\<lambda>named. ld_bind (read_ltv rt) (\<lambda>name.
     when_type rt Function_t named (
       ld_bind (effect rt (Set_function_name named name)) (\<lambda>_.
       when_type rt Bytecode_fun_t named (effect rt (Set_trampoline named name))))))"

definition attr_docstring :: "('v, 'w) runtime \<Rightarrow> ('v, 'w, unit) ld" where
  "attr_docstring rt = ld_bind (read_ltv rt) (\<lambda>function. ld_bind (read_ltv rt) (\<lambda>docstring.
     when_type rt Function_t function (effect rt (Set_docstring function docstring))))"

definition attr_lambda_list :: "('v, 'w) runtime \<Rightarrow> ('v, 'w, unit) ld" where
  "attr_lambda_list rt = ld_bind (read_ltv rt) (\<lambda>function. ld_bind (read_ltv rt) (\<lambda>lambda_list.
     when_type rt Function_t function (effect rt (Set_lambda_list function lambda_list))))"

definition attr_source_pos_info :: "('v, 'w) runtime \<Rightarrow> ('v, 'w, unit) ld" where
  "attr_source_pos_info rt = ld_bind (read_as rt Function_t) (\<lambda>func. ld_bind (read_ltv rt) (\<lambda>path.
     ld_bind (read_u64 rt) (\<lambda>line. ld_bind (read_u64 rt) (\<lambda>column. ld_bind (read_u64 rt) (\<lambda>filepos.
     effect rt (Set_source_pos func path filepos line column))))))"

definition di_op_function :: "('v, 'w) runtime \<Rightarrow> ('v, 'w, 'v debug_item) ld" where
  "di_op_function rt = ld_bind (read_ltv rt) (\<lambda>f. ld_return (Di_function f))"

text \<open>The flags of a variable: \<open>00NNDIIC\<close>.\<close>

definition flag_decls :: "8 word \<Rightarrow> 'v decl_spec list" where
  "flag_decls flags =
     (let inl = drop_bit 4 (flags AND 48); ign = drop_bit 1 (flags AND 6)
      in (if inl = 1 then [D_inline] else if inl = 2 then [D_notinline] else []) @
         (if flags AND 8 \<noteq> 0 then [D_dynamic_extent] else []) @
         (if ign = 1 then [D_ignore] else if ign = 2 then [D_ignorable] else []))"

definition read_debug_var :: "('v, 'w) runtime \<Rightarrow> ('v, 'w, 'v debug_var) ld" where
  "read_debug_var rt = ld_bind (read_ltv rt) (\<lambda>name. ld_bind (read_u16 rt) (\<lambda>framei.
     ld_bind (read_u8 rt) (\<lambda>flags. ld_bind (read_u16 rt) (\<lambda>dcount.
     ld_bind (ld_times (unat dcount) (read_ltv rt)) (\<lambda>extra.
     ld_return (Debug_var name framei (flags AND 1 \<noteq> 0) (flag_decls flags @ map D_other extra)))))))"

definition with_range :: "('v, 'w) runtime \<Rightarrow> (32 word \<Rightarrow> 32 word \<Rightarrow> ('v, 'w, 'a) ld) \<Rightarrow> ('v, 'w, 'a) ld" where
  "with_range rt f = ld_bind (read_u32 rt) (\<lambda>start. ld_bind (read_u32 rt) (f start))"

definition di_op_vars :: "('v, 'w) runtime \<Rightarrow> ('v, 'w, 'v debug_item) ld" where
  "di_op_vars rt = with_range rt (\<lambda>start end'. ld_bind (read_u16 rt) (\<lambda>bcount.
     ld_bind (ld_times (unat bcount) (read_debug_var rt)) (\<lambda>bindings. ld_return (Di_vars start end' bindings))))"

definition di_op_location :: "('v, 'w) runtime \<Rightarrow> ('v, 'w, 'v debug_item) ld" where
  "di_op_location rt = with_range rt (\<lambda>start end'. ld_bind (read_ltv rt) (\<lambda>path.
     ld_bind (read_u64 rt) (\<lambda>line. ld_bind (read_u64 rt) (\<lambda>column. ld_bind (read_u64 rt) (\<lambda>filepos.
     ld_bind (ld_bind (call rt (File_scope path)) (as_type rt File_scope_t)) (\<lambda>sfi.
     ld_return (Di_location start end' sfi filepos line column)))))))"

definition di_op_decls :: "('v, 'w) runtime \<Rightarrow> ('v, 'w, 'v debug_item) ld" where
  "di_op_decls rt = with_range rt (\<lambda>start end'. ld_bind (read_ltv rt) (\<lambda>d. ld_return (Di_decls start end' d)))"

definition di_op_the :: "('v, 'w) runtime \<Rightarrow> ('v, 'w, 'v debug_item) ld" where
  "di_op_the rt = with_range rt (\<lambda>start end'. ld_bind (read_ltv rt) (\<lambda>type. ld_bind (read_u32 rt) (\<lambda>receiving.
     ld_return (Di_the start end' type receiving))))"

definition di_op_block :: "('v, 'w) runtime \<Rightarrow> ('v, 'w, 'v debug_item) ld" where
  "di_op_block rt = with_range rt (\<lambda>start end'. ld_bind (read_ltv rt) (\<lambda>name. ld_bind (read_u32 rt) (\<lambda>receiving.
     ld_return (Di_block start end' name receiving))))"

definition di_op_exit :: "('v, 'w) runtime \<Rightarrow> ('v, 'w, 'v debug_item) ld" where
  "di_op_exit rt = with_range rt (\<lambda>start end'. ld_bind (read_u32 rt) (\<lambda>receiving. ld_return (Di_exit start end' receiving)))"

definition di_op_macro :: "('v, 'w) runtime \<Rightarrow> ('v, 'w, 'v debug_item) ld" where
  "di_op_macro rt = with_range rt (\<lambda>start end'. ld_bind (read_ltv rt) (\<lambda>name. ld_return (Di_macro start end' name)))"

definition di_op_if :: "('v, 'w) runtime \<Rightarrow> ('v, 'w, 'v debug_item) ld" where
  "di_op_if rt = with_range rt (\<lambda>start end'. ld_bind (read_u32 rt) (\<lambda>receiving. ld_return (Di_if start end' receiving)))"

definition read_tag :: "('v, 'w) runtime \<Rightarrow> ('v, 'w, 'v \<times> 32 word) ld" where
  "read_tag rt = ld_bind (read_ltv rt) (\<lambda>tag. ld_bind (read_u32 rt) (\<lambda>ip. ld_return (tag, ip)))"

definition di_op_tagbody :: "('v, 'w) runtime \<Rightarrow> ('v, 'w, 'v debug_item) ld" where
  "di_op_tagbody rt = with_range rt (\<lambda>start end'. ld_bind (read_u16 rt) (\<lambda>ntags.
     ld_bind (ld_times (unat ntags) (read_tag rt)) (\<lambda>tags. ld_return (Di_tagbody start end' tags))))"

definition read_debug_item :: "('v, 'w) runtime \<Rightarrow> ('v, 'w, 'v debug_item) ld" where
  "read_debug_item rt = ld_bind (read_u8 rt) (\<lambda>op.
     if op = 0 then di_op_function rt
     else if op = 1 then di_op_vars rt
     else if op = 2 then di_op_location rt
     else if op = 3 then di_op_decls rt
     else if op = 4 then di_op_the rt
     else if op = 5 then di_op_block rt
     else if op = 6 then di_op_exit rt
     else if op = 7 then di_op_macro rt
     else if op = 8 then di_op_if rt
     else if op = 9 then di_op_tagbody rt
     else ld_error (Bad_debug_op op))"

definition attr_module_debug_info :: "('v, 'w) runtime \<Rightarrow> ('v, 'w, unit) ld" where
  "attr_module_debug_info rt = ld_bind (read_as rt Module_t) (\<lambda>module. ld_bind (read_u32 rt) (\<lambda>icount.
     ld_bind (ld_times (unat icount) (read_debug_item rt)) (\<lambda>items. effect rt (Set_debug_info module items))))"

text \<open>The number of bytes is used only to skip an attribute whose name is not known.\<close>

definition op_attribute :: "('v, 'w) runtime \<Rightarrow> ('v, 'w, unit) ld" where
  "op_attribute rt = ld_bind (read_as rt String_t) (\<lambda>v. (\<lambda>s.
     let name = text_of rt v (world s) in
     ld_bind (read_u32 rt) (\<lambda>attrbytes.
       if name = ''name'' then attr_name rt
       else if name = ''docstring'' then attr_docstring rt
       else if name = ''lambda-list'' then attr_lambda_list rt
       else if name = ''clasp:source-pos-info'' then attr_source_pos_info rt
       else if name = ''clasp:module-debug-info'' then attr_module_debug_info rt
       else ld_for [0..<unat attrbytes] (\<lambda>_. ld_bind (read_u8 rt) (\<lambda>_. ld_return ()))) s))"

section \<open>Instructions\<close>

definition index_width :: "64 word \<Rightarrow> nat" where
  "index_width nobjs = (if nobjs \<le> 0xFF then 1 else if nobjs \<le> 0xFFFF then 2 else if nobjs \<le> 0xFFFFFFFF then 4 else 8)"

definition op_init_object_array :: "('v, 'w) runtime \<Rightarrow> ('v, 'w, unit) ld" where
  "op_init_object_array rt = ld_bind check_initialization (\<lambda>_. ld_bind (read_u64 rt) (\<lambda>nobjs. (\<lambda>s.
     Inr ((), s\<lparr>index_bytes := index_width nobjs, next_object := 0, literals := replicate (unat nobjs) None\<rparr>))))"

definition load_instruction :: "('v, 'w) runtime \<Rightarrow> ('v, 'w, unit) ld" where
  "load_instruction rt = ld_bind (read_u8 rt) (\<lambda>opcode.
     if opcode = 65 then op_nil rt
     else if opcode = 66 then op_t rt
     else if opcode = 69 then op_cons rt
     else if opcode = 70 then op_rplaca rt
     else if opcode = 71 then op_rplacd rt
     else if opcode = 74 then op_array rt
     else if opcode = 75 then op_srma rt
     else if opcode = 76 then op_hasht rt
     else if opcode = 77 then op_shash rt
     else if opcode = 78 then op_sb64 rt
     else if opcode = 79 then op_package rt
     else if opcode = 80 then op_bignum rt
     else if opcode = 90 then op_float rt
     else if opcode = 91 then op_double rt
     else if opcode = 67 then op_ratio rt
     else if opcode = 68 then op_complex rt
     else if opcode = 81 then op_symbol rt
     else if opcode = 82 then op_intern rt
     else if opcode = 83 then op_character rt
     else if opcode = 85 then op_pathname rt
     else if opcode = 87 then op_bcfunc rt
     else if opcode = 88 then op_bcmod rt
     else if opcode = 89 then op_slits rt
     else if opcode = 95 then op_fdef rt
     else if opcode = 96 then op_fcell rt
     else if opcode = 97 then op_vcell rt
     else if opcode = 93 then op_create rt
     else if opcode = 94 then op_init rt
     else if opcode = 98 then op_class rt
     else if opcode = 99 then op_init_object_array rt
     else if opcode = 100 then op_environment rt
     else if opcode = 255 then op_attribute rt
     else ld_error (Bad_opcode opcode))"

section \<open>Files\<close>

definition header_size :: nat where "header_size = 16"

definition magic :: "8 word list" where
  "magic = [0x8d, 0x74, 0x98, 0xb1]"

definition bc_version :: "16 word \<times> 16 word" where
  "bc_version = (0, 14)"

definition version_less :: "16 word \<times> 16 word \<Rightarrow> 16 word \<times> 16 word \<Rightarrow> bool" where
  "version_less v w \<longleftrightarrow> fst v < fst w \<or> fst v = fst w \<and> snd v < snd w"

text \<open>A buffer of fewer than 16 bytes has not been filled, or is read beyond its end.\<close>

definition header_decode :: "8 word list \<Rightarrow> fasl_error + 64 word" where
  "header_decode h =
     (if length h < header_size then Inl Short_header
      else if take 4 h \<noteq> magic then Inl Bad_magic
      else
        let version = (push_bit 8 (ucast (h ! 4)) OR ucast (h ! 5), push_bit 8 (ucast (h ! 6)) OR ucast (h ! 7))
        in if version_less version bc_version \<or> version_less bc_version version then Inl Bad_version
           else Inr (push_bit 56 (ucast (h ! 8)) OR push_bit 48 (ucast (h ! 9)) OR push_bit 40 (ucast (h ! 10)) OR
             push_bit 32 (ucast (h ! 11)) OR push_bit 24 (ucast (h ! 12)) OR push_bit 16 (ucast (h ! 13)) OR
             push_bit 8 (ucast (h ! 14)) OR push_bit 0 (ucast (h ! 15))))"

definition header_encode :: "64 word \<Rightarrow> 8 word list" where
  "header_encode n =
     magic @
     [ucast (drop_bit 8 (fst bc_version)), ucast (fst bc_version), ucast (drop_bit 8 (snd bc_version)), ucast (snd bc_version)] @
     [ucast (drop_bit 56 n), ucast (drop_bit 48 n), ucast (drop_bit 40 n), ucast (drop_bit 32 n),
      ucast (drop_bit 24 n), ucast (drop_bit 16 n), ucast (drop_bit 8 n), ucast n]"

definition load_main :: "('v, 'w) runtime \<Rightarrow> ('v, 'w, unit) ld" where
  "load_main rt = (\<lambda>s.
     case header_decode (take header_size (input s)) of
       Inl e \<Rightarrow> Inl e
     | Inr ninsts \<Rightarrow>
         ld_bind (ld_for [0..<unat ninsts] (\<lambda>_. load_instruction rt)) (\<lambda>_. check_initialization)
           (s\<lparr>input := drop header_size (input s)\<rparr>))"

text \<open>A loader starts with an empty table.  The result is the table and the world.\<close>

definition new_loader :: "8 word list \<Rightarrow> 'w \<Rightarrow> ('v, 'w) loader" where
  "new_loader bytes w = \<lparr>input = bytes, literals = [], index_bytes = 1, next_object = 0, world = w\<rparr>"

definition load_bytecode :: "('v, 'w) runtime \<Rightarrow> 8 word list \<Rightarrow> 'w \<Rightarrow> fasl_error + 'w" where
  "load_bytecode rt bytes w =
     (case load_main rt (new_loader bytes w) of Inl e \<Rightarrow> Inl e | Inr (_, s) \<Rightarrow> Inr (world s))"

fun sum_counts :: "8 word list list \<Rightarrow> fasl_error + 64 word" where
  "sum_counts [] = Inr 0"
| "sum_counts (f # fs) = bind_res (header_decode f) (\<lambda>n. bind_res (sum_counts fs) (\<lambda>m. Inr (n + m)))"

definition link_fasl_files :: "8 word list list \<Rightarrow> fasl_error + 8 word list" where
  "link_fasl_files files = bind_res (sum_counts files) (\<lambda>n.
     Inr (header_encode n @ concat (map (drop header_size) files)))"

end
