(* ===== verification/FaslWriter.thy ===== *)
theory FaslWriter
  imports FaslMain
begin

text \<open>
  The writer of compiled files (\<open>kernel/cmp/cmpltv.lisp\<close>): instructions whose operands are
  the numbers of objects, and their encoding.  A writer that signals an error is \<open>None\<close>.
\<close>

section \<open>Instructions\<close>

datatype debug_info =
  I_function nat
  | I_vars "32 word" "32 word" "(nat \<times> 16 word \<times> bool \<times> bool \<times> unit decl_spec option \<times> unit decl_spec option \<times> nat list) list"
  | I_location "32 word" "32 word" nat "64 word" "64 word" "64 word"
  | I_decls "32 word" "32 word" nat
  | I_the "32 word" "32 word" nat "32 word"
  | I_block "32 word" "32 word" nat "32 word"
  | I_exit "32 word" "32 word" "32 word"
  | I_macro "32 word" "32 word" nat
  | I_if "32 word" "32 word" "32 word"
  | I_tagbody "32 word" "32 word" "(nat \<times> 32 word) list"

datatype attribute =
  A_name nat nat
  | A_docstring nat nat
  | A_lambda_list nat nat
  | A_source_pos nat nat "64 word" "64 word" "64 word"
  | A_debug_info nat "debug_info list"
  | A_mutable_ltv nat "16 word list"

datatype instruction =
  W_nil | W_t | W_cons | W_environment
  | W_rplaca nat nat | W_rplacd nat nat
  | W_array uaet uaet "nat list" "elem list"
  | W_setf_aref nat nat nat
  | W_hash_table table_test nat
  | W_setf_gethash nat nat nat
  | W_sb64 int | W_bignum int | W_single "32 word" | W_double "64 word"
  | W_ratio nat nat | W_complex nat nat
  | W_package nat | W_symbol nat | W_intern nat nat | W_character "32 word"
  | W_pathname nat nat nat nat nat nat
  | W_function "32 word" "32 word" "16 word" "16 word" nat
  | W_module "8 word list" | W_setf_literals nat "nat list"
  | W_fdefinition nat | W_fcell nat | W_vcell nat | W_class nat
  | W_create nat "nat list" | W_initialize nat "nat list"
  | W_attribute nat attribute

fun creatorp :: "instruction \<Rightarrow> bool" where
  "creatorp (W_rplaca _ _) = False"
| "creatorp (W_rplacd _ _) = False"
| "creatorp (W_setf_aref _ _ _) = False"
| "creatorp (W_setf_gethash _ _ _) = False"
| "creatorp (W_setf_literals _ _) = False"
| "creatorp (W_initialize _ _) = False"
| "creatorp (W_attribute _ _) = False"
| "creatorp _ = True"

section \<open>Bytes\<close>

definition write_b :: "nat \<Rightarrow> int \<Rightarrow> 8 word list" where
  "write_b n i = map (\<lambda>k. word_of_int (drop_bit (8 * k) i)) (rev [0..<n])"

text \<open>
  The number of an object.  \<open>write-index\<close> accepts 1, 2, 4 and 8 bytes; a file without objects, for which the
  width would be 0, has no references to write.
\<close>

definition write_index :: "nat \<Rightarrow> nat \<Rightarrow> 8 word list" where
  "write_index ib i = write_b ib (int i)"

text \<open>Writers in sequence.\<close>

fun write_all :: "8 word list option list \<Rightarrow> 8 word list option" where
  "write_all [] = Some []"
| "write_all (None # ws) = None"
| "write_all (Some b # ws) = map_option ((@) b) (write_all ws)"

definition write_utf8_codepoint :: "int \<Rightarrow> 8 word list option" where
  "write_utf8_codepoint c =
     (let ldb = (\<lambda>n p. drop_bit p c AND mask n) in
      if c < 0x80 then Some [word_of_int c]
      else if c < 0x800 then Some [word_of_int (0xC0 OR ldb 5 6), word_of_int (0x80 OR ldb 6 0)]
      else if c < 0x10000 then Some [word_of_int (0xE0 OR ldb 4 12), word_of_int (0x80 OR ldb 6 6), word_of_int (0x80 OR ldb 6 0)]
      else if c < 0x110000 then
        Some [word_of_int (0xF0 OR ldb 3 18), word_of_int (0x80 OR ldb 6 12), word_of_int (0x80 OR ldb 6 6), word_of_int (0x80 OR ldb 6 0)]
      else None)"

section \<open>Arrays\<close>

definition uaet_code :: "uaet \<Rightarrow> int" where
  "uaet_code u = (case u of
     U_nil \<Rightarrow> 0x00 | U_base_char \<Rightarrow> 0x80 | U_character \<Rightarrow> 0xC0 | U_single_float \<Rightarrow> 0x20 | U_double_float \<Rightarrow> 0x60
   | U_bit \<Rightarrow> 0x01 | U_ub2 \<Rightarrow> 0x02 | U_ub4 \<Rightarrow> 0x03 | U_ub8 \<Rightarrow> 0x04 | U_ub16 \<Rightarrow> 0x05 | U_ub32 \<Rightarrow> 0x06 | U_ub64 \<Rightarrow> 0x07
   | U_sb8 \<Rightarrow> 0x84 | U_sb16 \<Rightarrow> 0x85 | U_sb32 \<Rightarrow> 0x86 | U_sb64 \<Rightarrow> 0x87 | U_t \<Rightarrow> 0xFF)"

definition write_dimensions :: "nat list \<Rightarrow> 8 word list option" where
  "write_dimensions dims =
     (if \<not> length dims < 256 then None
      else if \<not> prod_list dims < 65536 then None
      else Some (write_b 1 (int (length dims)) @ concat (map (\<lambda>d. write_b 2 (int d)) dims)))"

text \<open>
  The elements of an array that go into one byte.  \<open>write-sub-byte\<close> divides the size by 8 whatever
  the number of elements in a byte, and a remainder that does not fit gives a negative shift.
\<close>

fun pack_bits :: "nat \<Rightarrow> nat \<Rightarrow> int list \<Rightarrow> int" where
  "pack_bits nbits shift [] = 0"
| "pack_bits nbits shift (x # xs) = push_bit shift x OR pack_bits nbits (shift - nbits) xs"

definition write_sub_byte :: "nat \<Rightarrow> int list \<Rightarrow> 8 word list option" where
  "write_sub_byte nbits elems =
     (let perbyte = 8 div nbits;
          full_bytes = length elems div 8;
          remainder = length elems mod 8;
          pack = (\<lambda>xs. word_of_int (pack_bits nbits (8 - nbits) xs) :: 8 word);
          body = map (\<lambda>k. pack (take perbyte (drop (perbyte * k) elems))) [0..<full_bytes]
      in if remainder = 0 then Some body
         else if remainder > perbyte then None
         else Some (body @ [pack (take remainder (drop (perbyte * full_bytes) elems))]))"

fun elem_value :: "elem \<Rightarrow> int" where
  "elem_value (E_char c) = uint c"
| "elem_value (E_single w) = uint w"
| "elem_value (E_double w) = uint w"
| "elem_value (E_int i) = i"

definition write_elems :: "uaet \<Rightarrow> elem list \<Rightarrow> 8 word list option" where
  "write_elems packing elems =
     (let dump = (\<lambda>n. Some (concat (map (\<lambda>e. write_b n (elem_value e)) elems))) in
      case packing of
        U_nil \<Rightarrow> Some [] | U_t \<Rightarrow> Some []
      | U_base_char \<Rightarrow> dump 1 | U_character \<Rightarrow> write_all (map (\<lambda>e. write_utf8_codepoint (elem_value e)) elems)
      | U_single_float \<Rightarrow> dump 4 | U_double_float \<Rightarrow> dump 8
      | U_bit \<Rightarrow> write_sub_byte 1 (map elem_value elems)
      | U_ub2 \<Rightarrow> write_sub_byte 2 (map elem_value elems)
      | U_ub4 \<Rightarrow> write_sub_byte 4 (map elem_value elems)
      | U_ub8 \<Rightarrow> dump 1 | U_ub16 \<Rightarrow> dump 2 | U_ub32 \<Rightarrow> dump 4 | U_ub64 \<Rightarrow> dump 8
      | U_sb8 \<Rightarrow> dump 1 | U_sb16 \<Rightarrow> dump 2 | U_sb32 \<Rightarrow> dump 4 | U_sb64 \<Rightarrow> dump 8)"

section \<open>Numbers\<close>

fun integer_length :: "nat \<Rightarrow> nat" where
  "integer_length n = (if n = 0 then 0 else 1 + integer_length (n div 2))"

declare integer_length.simps [simp del]

definition ceiling_div :: "nat \<Rightarrow> nat \<Rightarrow> nat" where
  "ceiling_div a b = (a + b - 1) div b"

definition write_bignum :: "int \<Rightarrow> 8 word list" where
  "write_bignum number =
     (let anumber = \<bar>number\<bar>;
          nwords = ceiling_div (integer_length (nat anumber)) 64
      in write_b 8 (if number < 0 then - int nwords else int nwords) @
         concat (map (\<lambda>i. write_b 8 (drop_bit (64 * i) anumber AND mask 64)) (rev [0..<nwords])))"

section \<open>Attributes\<close>

definition flag_bits :: "unit decl_spec option \<Rightarrow> int" where
  "flag_bits d = (case d of
     Some D_inline \<Rightarrow> 1 | Some D_notinline \<Rightarrow> 2 | Some D_ignore \<Rightarrow> 1 | Some D_ignorable \<Rightarrow> 2 | _ \<Rightarrow> 0)"

definition bdv_flags :: "bool \<Rightarrow> bool \<Rightarrow> unit decl_spec option \<Rightarrow> unit decl_spec option \<Rightarrow> int" where
  "bdv_flags cellp dxp ign inl =
     push_bit 4 (flag_bits inl) OR push_bit 3 (of_bool dxp) OR push_bit 1 (flag_bits ign) OR of_bool cellp"

fun encode_info :: "nat \<Rightarrow> debug_info \<Rightarrow> 8 word list" where
  "encode_info ib (I_function f) = write_b 1 0 @ write_index ib f"
| "encode_info ib (I_vars start en vars) =
     write_b 1 1 @ write_b 4 (uint start) @ write_b 4 (uint en) @ write_b 2 (int (length vars)) @
     concat (map (\<lambda>(name, framei, cellp, dxp, ign, inl, decls).
       write_index ib name @ write_b 2 (uint framei) @ write_b 1 (bdv_flags cellp dxp ign inl) @
       write_b 2 (int (length decls)) @ concat (map (write_index ib) decls)) vars)"
| "encode_info ib (I_location start en path line column filepos) =
     write_b 1 2 @ write_b 4 (uint start) @ write_b 4 (uint en) @ write_index ib path @
     write_b 8 (uint line) @ write_b 8 (uint column) @ write_b 8 (uint filepos)"
| "encode_info ib (I_decls start en d) = write_b 1 3 @ write_b 4 (uint start) @ write_b 4 (uint en) @ write_index ib d"
| "encode_info ib (I_the start en type receiving) =
     write_b 1 4 @ write_b 4 (uint start) @ write_b 4 (uint en) @ write_index ib type @ write_b 4 (sint receiving)"
| "encode_info ib (I_block start en name receiving) =
     write_b 1 5 @ write_b 4 (uint start) @ write_b 4 (uint en) @ write_index ib name @ write_b 4 (sint receiving)"
| "encode_info ib (I_exit start en receiving) =
     write_b 1 6 @ write_b 4 (uint start) @ write_b 4 (uint en) @ write_b 4 (sint receiving)"
| "encode_info ib (I_macro start en name) = write_b 1 7 @ write_b 4 (uint start) @ write_b 4 (uint en) @ write_index ib name"
| "encode_info ib (I_if start en receiving) =
     write_b 1 8 @ write_b 4 (uint start) @ write_b 4 (uint en) @ write_b 4 (sint receiving)"
| "encode_info ib (I_tagbody start en tags) =
     write_b 1 9 @ write_b 4 (uint start) @ write_b 4 (uint en) @ write_b 2 (int (length tags)) @
     concat (map (\<lambda>(tag, ip). write_index ib tag @ write_b 4 (uint ip)) tags)"

fun info_length :: "nat \<Rightarrow> debug_info \<Rightarrow> nat" where
  "info_length ib (I_function f) = 1 + ib"
| "info_length ib (I_vars start en vars) =
     1 + 4 + 4 + 2 + sum_list (map (\<lambda>(name, framei, cellp, dxp, ign, inl, decls). ib + 2 + 1 + 2 + ib * length decls) vars)"
| "info_length ib (I_location start en path line column filepos) = 1 + 4 + 4 + ib + 8 + 8 + 8"
| "info_length ib (I_decls start en d) = 1 + 4 + 4 + ib"
| "info_length ib (I_the start en type receiving) = 1 + 4 + 4 + ib + 4"
| "info_length ib (I_block start en name receiving) = 1 + 4 + 4 + ib + 4"
| "info_length ib (I_exit start en receiving) = 1 + 4 + 4 + 4"
| "info_length ib (I_macro start en name) = 1 + 4 + 4 + ib"
| "info_length ib (I_if start en receiving) = 1 + 4 + 4 + 4"
| "info_length ib (I_tagbody start en tags) = 1 + 4 + 4 + 2 + length tags * (ib + 4)"

fun encode_attribute :: "nat \<Rightarrow> attribute \<Rightarrow> 8 word list" where
  "encode_attribute ib (A_name obj name) = write_b 4 (int (ib + ib)) @ write_index ib obj @ write_index ib name"
| "encode_attribute ib (A_docstring obj doc) = write_b 4 (int (ib + ib)) @ write_index ib obj @ write_index ib doc"
| "encode_attribute ib (A_lambda_list f ll) = write_b 4 (int (ib + ib)) @ write_index ib f @ write_index ib ll"
| "encode_attribute ib (A_source_pos f path line column filepos) =
     write_b 4 (int (ib + ib + 8 + 8 + 8)) @ write_index ib f @ write_index ib path @
     write_b 8 (uint line) @ write_b 8 (uint column) @ write_b 8 (uint filepos)"
| "encode_attribute ib (A_debug_info module infos) =
     write_b 4 (int (sum_list (map (info_length ib) infos))) @ write_index ib module @
     write_b 4 (int (length infos)) @ concat (map (encode_info ib) infos)"
| "encode_attribute ib (A_mutable_ltv module indices) =
     write_b 4 (int (2 + ib + 2 * length indices)) @ write_index ib module @
     write_b 2 (int (length indices)) @ concat (map (\<lambda>i. write_b 2 (uint i)) indices)"

section \<open>Encoding\<close>

definition test_code :: "table_test \<Rightarrow> int" where
  "test_code t = (case t of Test_eq \<Rightarrow> 0 | Test_eql \<Rightarrow> 1 | Test_equal \<Rightarrow> 2 | Test_equalp \<Rightarrow> 3)"

fun encode :: "nat \<Rightarrow> instruction \<Rightarrow> 8 word list option" where
  "encode ib W_nil = Some (write_b 1 65)"
| "encode ib W_t = Some (write_b 1 66)"
| "encode ib W_cons = Some (write_b 1 69)"
| "encode ib W_environment = Some (write_b 1 100)"
| "encode ib (W_rplaca c v) = Some (write_b 1 70 @ write_index ib c @ write_index ib v)"
| "encode ib (W_rplacd c v) = Some (write_b 1 71 @ write_index ib c @ write_index ib v)"
| "encode ib (W_array u packing dims elems) =
     write_all [Some (write_b 1 74), Some (write_b 1 (uaet_code u)), Some (write_b 1 (uaet_code packing)),
       write_dimensions dims, write_elems packing elems]"
| "encode ib (W_setf_aref a i v) = Some (write_b 1 75 @ write_index ib a @ write_b 2 (int i) @ write_index ib v)"
| "encode ib (W_hash_table t count) = Some (write_b 1 76 @ write_b 1 (test_code t) @ write_b 2 (int (min count 0xFFFF)))"
| "encode ib (W_setf_gethash h k v) = Some (write_b 1 77 @ write_index ib h @ write_index ib k @ write_index ib v)"
| "encode ib (W_sb64 i) = Some (write_b 1 78 @ write_b 8 i)"
| "encode ib (W_bignum i) = Some (write_b 1 80 @ write_bignum i)"
| "encode ib (W_single w) = Some (write_b 1 90 @ write_b 4 (uint w))"
| "encode ib (W_double w) = Some (write_b 1 91 @ write_b 8 (uint w))"
| "encode ib (W_ratio n d) = Some (write_b 1 67 @ write_index ib n @ write_index ib d)"
| "encode ib (W_complex r i) = Some (write_b 1 68 @ write_index ib r @ write_index ib i)"
| "encode ib (W_package n) = Some (write_b 1 79 @ write_index ib n)"
| "encode ib (W_symbol n) = Some (write_b 1 81 @ write_index ib n)"
| "encode ib (W_intern p n) = Some (write_b 1 82 @ write_index ib p @ write_index ib n)"
| "encode ib (W_character c) = Some (write_b 1 83 @ write_b 4 (uint c))"
| "encode ib (W_pathname h d dir n t v) = Some (write_b 1 85 @ write_index ib h @ write_index ib d @ write_index ib dir @
     write_index ib n @ write_index ib t @ write_index ib v)"
| "encode ib (W_function entry fsize nlocals nclosed module) = Some (write_b 1 87 @ write_b 4 (uint entry) @
     write_b 4 (uint fsize) @ write_b 2 (uint nlocals) @ write_b 2 (uint nclosed) @ write_index ib module)"
| "encode ib (W_module code) =
     (if length code > 2 ^ 32 then None else Some (write_b 1 88 @ write_b 4 (int (length code)) @ code))"
| "encode ib (W_setf_literals module lits) =
     Some (write_b 1 89 @ write_index ib module @ write_b 2 (int (length lits)) @ concat (map (write_index ib) lits))"
| "encode ib (W_fdefinition n) = Some (write_b 1 95 @ write_index ib n)"
| "encode ib (W_fcell n) = Some (write_b 1 96 @ write_index ib n)"
| "encode ib (W_vcell n) = Some (write_b 1 97 @ write_index ib n)"
| "encode ib (W_class n) = Some (write_b 1 98 @ write_index ib n)"
| "encode ib (W_create f args) =
     Some (write_b 1 93 @ write_index ib f @ write_b 2 (int (length args)) @ concat (map (write_index ib) args))"
| "encode ib (W_initialize f args) =
     Some (write_b 1 94 @ write_index ib f @ write_b 2 (int (length args)) @ concat (map (write_index ib) args))"
| "encode ib (W_attribute n a) = Some (write_b 1 255 @ write_index ib n @ encode_attribute ib a)"

text \<open>The bytes of an index, as \<open>(ash 1 (1- (ceiling (integer-length nobjs) 8)))\<close>.\<close>

definition writer_index_bytes :: "nat \<Rightarrow> nat" where
  "writer_index_bytes nobjs =
     (let c = ceiling_div (integer_length nobjs) 8 in if c = 0 then 0 else 2 ^ (c - 1))"

definition write_bytecode :: "instruction list \<Rightarrow> 8 word list option" where
  "write_bytecode instructions =
     (let nobjs = length (filter creatorp instructions);
          ib = writer_index_bytes nobjs;
          ninsts = 1 + length instructions
      in map_option (\<lambda>body. write_b 4 0x8d7498b1 @ write_b 2 0 @ write_b 2 14 @ write_b 8 (int ninsts) @
             write_b 1 99 @ write_b 8 (int nobjs) @ body)
           (write_all (map (encode ib) instructions)))"

end
