(* ===== verification/FaslRead.thy ===== *)
theory FaslRead
  imports FaslWriter
begin

text \<open>
  Reading back what has been written.  \<open>reads n m bs m'\<close> says that with indices of \<open>n\<close> bytes
  the reader \<open>m\<close> takes exactly the bytes \<open>bs\<close> off the file and then does what \<open>m'\<close> does.
\<close>

section \<open>The monad\<close>

definition steady :: "('v, 'w, 'a) ld \<Rightarrow> bool" where
  "steady m \<longleftrightarrow>
     (\<forall>s x. m (s\<lparr>input := x\<rparr>) = (case m s of Inl e \<Rightarrow> Inl e | Inr (a, s') \<Rightarrow> Inr (a, s'\<lparr>input := x\<rparr>))) \<and>
     (\<forall>s a s'. m s = Inr (a, s') \<longrightarrow> index_bytes s' = index_bytes s)"

definition reads :: "nat \<Rightarrow> ('v, 'w, 'a) ld \<Rightarrow> 8 word list \<Rightarrow> ('v, 'w, 'a) ld \<Rightarrow> bool" where
  "reads n m bs m' \<longleftrightarrow> (\<forall>s r. index_bytes s = n \<longrightarrow> m (s\<lparr>input := bs @ r\<rparr>) = m' (s\<lparr>input := r\<rparr>))"

named_theorems steady_intros "actions that read nothing"
named_theorems reads_intros "what readers read"

lemma ld_bind_return [simp]: "ld_bind (ld_return a) f = f a"
  by (simp add: ld_bind_def ld_return_def)

lemma ld_bind_return_right [simp]: "ld_bind m ld_return = m"
  by (auto simp: ld_bind_def ld_return_def fun_eq_iff split: sum.split)

lemma ld_bind_assoc: "ld_bind (ld_bind m f) g = ld_bind m (\<lambda>a. ld_bind (f a) g)"
  by (auto simp: ld_bind_def fun_eq_iff split: sum.split)

lemma steady_return [steady_intros]: "steady (ld_return a)"
  by (simp add: steady_def ld_return_def)

lemma steady_error [steady_intros]: "steady (ld_error e)"
  by (simp add: steady_def ld_error_def)

lemma steady_bind [steady_intros]:
  assumes m: "steady m" and f: "\<And>a. steady (f a)"
  shows "steady (ld_bind m f)"
proof -
  have 1: "m (s\<lparr>input := x\<rparr>) = (case m s of Inl e \<Rightarrow> Inl e | Inr (a, s') \<Rightarrow> Inr (a, s'\<lparr>input := x\<rparr>))" for s x
    using m by (simp add: steady_def)
  have 2: "f a (s\<lparr>input := x\<rparr>) = (case f a s of Inl e \<Rightarrow> Inl e | Inr (b, s') \<Rightarrow> Inr (b, s'\<lparr>input := x\<rparr>))" for a s x
    using f by (simp add: steady_def)
  have 3: "index_bytes s' = index_bytes s" if "ld_bind m f s = Inr (b, s')" for s b s'
  proof -
    from that obtain a t where "m s = Inr (a, t)" "f a t = Inr (b, s')" by (auto simp: ld_bind_def split: sum.splits)
    then show ?thesis using m f unfolding steady_def by metis
  qed
  show ?thesis unfolding steady_def
  proof (intro conjI allI impI)
    fix s x
    show "ld_bind m f (s\<lparr>input := x\<rparr>) = (case ld_bind m f s of Inl e \<Rightarrow> Inl e | Inr (a, s') \<Rightarrow> Inr (a, s'\<lparr>input := x\<rparr>))"
      unfolding ld_bind_def 1 by (cases "m s") (auto simp: 2)
  qed (rule 3)
qed

lemma steady_call [steady_intros]: "steady (call rt c)"
  by (auto simp: steady_def call_def split: sum.splits)

lemma steady_effect [steady_intros]: "steady (effect rt c)"
  unfolding effect_def by (intro steady_intros)

lemma steady_as_type [steady_intros]: "steady (as_type rt t v)"
  by (auto simp: steady_def as_type_def)

lemma steady_when_type [steady_intros]: "steady m \<Longrightarrow> steady (when_type rt t v m)"
  by (auto simp: steady_def when_type_def)

lemma steady_get_ltv [steady_intros]: "steady (get_ltv i)"
  by (auto simp: steady_def get_ltv_def split: sum.splits)

lemma steady_set_ltv [steady_intros]: "steady (set_ltv v i)"
  by (auto simp: steady_def set_ltv_def split: if_splits)

lemma steady_next_index [steady_intros]: "steady next_index"
  by (auto simp: steady_def next_index_def)

lemma steady_check [steady_intros]: "steady check_initialization"
  by (auto simp: steady_def check_initialization_def split: option.splits)

lemma steady_for [steady_intros]: "(\<And>i. steady (f i)) \<Longrightarrow> steady (ld_for is f)"
  by (induction "is") (auto intro: steady_intros)

lemma steady_creating [steady_intros]: "steady m \<Longrightarrow> steady (creating m)"
  unfolding creating_def by (intro steady_intros)

section \<open>Composing readers\<close>

lemma reads_nothing: "reads n m [] m"
  by (simp add: reads_def)

lemma reads_bind:
  assumes r: "reads n m bs m'" and f: "\<And>a. reads n (f a) cs (f' a)" and m: "steady m'"
  shows "reads n (ld_bind m f) (bs @ cs) (ld_bind m' f')"
  unfolding reads_def
proof (intro allI impI)
  fix s :: "('a, 'b) loader" and r
  assume n: "index_bytes s = n"
  have 1: "m (s\<lparr>input := (bs @ cs) @ r\<rparr>) = m' (s\<lparr>input := cs @ r\<rparr>)"
    using assms(1) n by (simp add: reads_def)
  have 2: "m' (s\<lparr>input := x\<rparr>) = (case m' s of Inl e \<Rightarrow> Inl e | Inr (a, s') \<Rightarrow> Inr (a, s'\<lparr>input := x\<rparr>))" for x
    using m by (simp add: steady_def)
  show "ld_bind m f (s\<lparr>input := (bs @ cs) @ r\<rparr>) = ld_bind m' f' (s\<lparr>input := r\<rparr>)"
  proof (cases "m' s")
    case (Inl e)
    then show ?thesis by (simp add: ld_bind_def 1[simplified] 2)
  next
    case (Inr p)
    obtain a t where p: "p = (a, t)" by (cases p)
    then have "index_bytes t = n" using m n Inr by (metis steady_def)
    then have "f a (t\<lparr>input := cs @ r\<rparr>) = f' a (t\<lparr>input := r\<rparr>)" using f by (simp add: reads_def)
    then show ?thesis using Inr p by (simp add: ld_bind_def 1[simplified] 2)
  qed
qed

text \<open>A reader of a value, and what follows it.\<close>

lemma reads_value:
  "reads n m bs (ld_return a) \<Longrightarrow> reads n (f a) cs m' \<Longrightarrow> reads n (ld_bind m f) (bs @ cs) m'"
  unfolding reads_def ld_bind_def ld_return_def by simp

lemma reads_then:
  "steady m \<Longrightarrow> (\<And>a. reads n (f a) cs (f' a)) \<Longrightarrow> reads n (ld_bind m f) cs (ld_bind m f')"
  using reads_bind[OF reads_nothing, where f = f and f' = f'] by fastforce

lemma reads_map:
  "reads n m bs (ld_return a) \<Longrightarrow> reads n (ld_bind m (\<lambda>x. ld_return (g x))) bs (ld_return (g a))"
  using reads_value[of n m bs a "\<lambda>x. ld_return (g x)" "[]"] reads_nothing by fastforce

section \<open>Numbers\<close>

lemma write_b_1: "write_b 1 i = [word_of_int i]"
  by (simp add: write_b_def)

lemma length_write_b [simp]: "length (write_b n i) = n"
  by (simp add: write_b_def)

lemma upt_numeral: "[0..<2] = [0, 1::nat]" "[0..<4] = [0, 1, 2, 3::nat]" "[0..<8] = [0, 1, 2, 3, 4, 5, 6, 7::nat]"
  by (simp_all add: upt_rec)

lemma reads_u8: "reads n (read_u8 rt) [b] (ld_return b)"
  by (simp add: reads_def read_u8_def ld_return_def)

lemma reads_b1: "reads n (read_u8 rt) (write_b 1 i) (ld_return (word_of_int i))"
  unfolding write_b_1 by (rule reads_u8)

lemma reads_b2: "reads n (read_u16 rt) (write_b 2 i) (ld_return (word_of_int i))"
proof -
  have w: "write_b 2 i = [word_of_int (drop_bit 8 i), word_of_int i]" by (simp add: write_b_def upt_numeral)
  have e: "push_bit 8 (ucast (word_of_int (drop_bit 8 i) :: 8 word)) OR ucast (word_of_int i :: 8 word) = (word_of_int i :: 16 word)"
    by (rule bit_word_eqI) (auto simp: bit_simps)
  show ?thesis unfolding reads_def read_u16_def w
    by (simp add: ld_bind_def ld_return_def read_u8_def e)
qed

text \<open>The bytes of a word, put together one by one from the lowest.\<close>

lemma next_byte:
  "push_bit k (word_of_int (take_bit 8 (drop_bit k i))) OR word_of_int (take_bit k i) = (word_of_int (take_bit (k + 8) i) :: 'a::len word)"
  by (rule bit_word_eqI) (auto simp: bit_simps)

lemma low_byte: "ucast (word_of_int i :: 8 word) = (word_of_int (take_bit 8 i) :: 'a::len word)"
  by (rule bit_word_eqI) (auto simp: bit_simps)

lemmas bytes_of_word = next_byte[of 8, simplified] next_byte[of 16, simplified] next_byte[of 24, simplified]
  next_byte[of 32, simplified] next_byte[of 40, simplified] next_byte[of 48, simplified] next_byte[of 56, simplified] low_byte

lemma word_of_take_bit: "word_of_int (take_bit LENGTH('a) i) = (word_of_int i :: 'a::len word)"
  by (rule bit_word_eqI) (simp add: bit_simps)

lemma reads_b4: "reads n (read_u32 rt) (write_b 4 i) (ld_return (word_of_int i))"
proof -
  have w: "write_b 4 i = [word_of_int (drop_bit 24 i), word_of_int (drop_bit 16 i), word_of_int (drop_bit 8 i), word_of_int i]"
    by (simp add: write_b_def upt_numeral)
  show ?thesis unfolding reads_def read_u32_def w
    using word_of_take_bit[where 'a = 32, of i] by (simp add: ld_bind_def ld_return_def read_u8_def bytes_of_word)
qed

lemma reads_b8: "reads n (read_u64 rt) (write_b 8 i) (ld_return (word_of_int i))"
proof -
  have w: "write_b 8 i = map (\<lambda>k. word_of_int (drop_bit k i)) [56, 48, 40, 32, 24, 16, 8, 0]"
    by (simp add: write_b_def upt_numeral)
  show ?thesis unfolding reads_def read_u64_def w
    using word_of_take_bit[where 'a = 64, of i] by (simp add: ld_bind_def ld_return_def read_u8_def bytes_of_word)
qed

lemma sint_word_of_int_id:
  "- (2 ^ (LENGTH('a) - 1)) \<le> i \<Longrightarrow> i < 2 ^ (LENGTH('a) - 1) \<Longrightarrow> sint (word_of_int i :: 'a::len word) = i"
  by (simp add: sint_sbintrunc' signed_take_bit_int_eq_self)

lemma uint_word_of_int_id: "0 \<le> i \<Longrightarrow> i < 2 ^ LENGTH('a) \<Longrightarrow> uint (word_of_int i :: 'a::len word) = i"
  by (simp add: uint_word_of_int take_bit_int_eq_self)

lemma reads_s8: "- 128 \<le> i \<Longrightarrow> i < 128 \<Longrightarrow> reads n (read_s8 rt) (write_b 1 i) (ld_return i)"
  unfolding read_s8_def using reads_map[OF reads_b1[of n rt i], of sint] by (simp add: sint_word_of_int_id)

lemma reads_s16: "- (2 ^ 15) \<le> i \<Longrightarrow> i < 2 ^ 15 \<Longrightarrow> reads n (read_s16 rt) (write_b 2 i) (ld_return i)"
  unfolding read_s16_def using reads_map[OF reads_b2[of n rt i], of sint] by (simp add: sint_word_of_int_id)

lemma reads_s32: "- (2 ^ 31) \<le> i \<Longrightarrow> i < 2 ^ 31 \<Longrightarrow> reads n (read_s32 rt) (write_b 4 i) (ld_return i)"
  unfolding read_s32_def using reads_map[OF reads_b4[of n rt i], of sint] by (simp add: sint_word_of_int_id)

lemma reads_s64: "- (2 ^ 63) \<le> i \<Longrightarrow> i < 2 ^ 63 \<Longrightarrow> reads n (read_s64 rt) (write_b 8 i) (ld_return i)"
  unfolding read_s64_def using reads_map[OF reads_b8[of n rt i], of sint] by (simp add: sint_word_of_int_id)

lemma reads_word:
  "reads n (read_u16 rt) (write_b 2 (uint w)) (ld_return w)"
  "reads n (read_u32 rt) (write_b 4 (uint v)) (ld_return v)"
  "reads n (read_u32 rt) (write_b 4 (sint v)) (ld_return v)"
  "reads n (read_u64 rt) (write_b 8 (uint u)) (ld_return u)"
  using reads_b2[of n rt "uint w"] reads_b4[of n rt "uint v"] reads_b4[of n rt "sint v"] reads_b8[of n rt "uint u"] by simp_all

section \<open>References\<close>

lemma unat_word_of_int_id: "i < 2 ^ LENGTH('a) \<Longrightarrow> unat (word_of_int (int i) :: 'a::len word) = i"
proof -
  assume "i < 2 ^ LENGTH('a)"
  then have "nat (uint (word_of_int (int i) :: 'a word)) = i" by (subst uint_word_of_int_id) simp_all
  then show ?thesis by (simp only: unat_eq_nat_uint)
qed

lemma reads_index:
  assumes "n = 1 \<or> n = 2 \<or> n = 4 \<or> n = 8" "i < 256 ^ n"
  shows "reads n (read_index rt) (write_index n i) (ld_return i)"
proof -
  consider "n = 1" | "n = 2" | "n = 4" | "n = 8" using assms(1) by blast
  then show ?thesis
  proof cases
    case 1
    then show ?thesis using reads_map[OF reads_b1[of 1 rt "int i"], of unat] unat_word_of_int_id[where 'a = 8, of i] assms(2)
      by (simp add: reads_def read_index_def write_index_def)
  next
    case 2
    then show ?thesis using reads_map[OF reads_b2[of 2 rt "int i"], of unat] unat_word_of_int_id[where 'a = 16, of i] assms(2)
      by (simp add: reads_def read_index_def write_index_def)
  next
    case 3
    then show ?thesis using reads_map[OF reads_b4[of 4 rt "int i"], of unat] unat_word_of_int_id[where 'a = 32, of i] assms(2)
      by (simp add: reads_def read_index_def write_index_def)
  next
    case 4
    then show ?thesis using reads_map[OF reads_b8[of 8 rt "int i"], of unat] unat_word_of_int_id[where 'a = 64, of i] assms(2)
      by (simp add: reads_def read_index_def write_index_def)
  qed
qed

definition ref_ok :: "nat \<Rightarrow> nat \<Rightarrow> bool" where
  "ref_ok n i \<longleftrightarrow> (n = 1 \<or> n = 2 \<or> n = 4 \<or> n = 8) \<and> i < 256 ^ n"

lemma reads_ltv: "ref_ok n i \<Longrightarrow> reads n (read_ltv rt) (write_index n i) (get_ltv i)"
  unfolding read_ltv_def ref_ok_def
  using reads_value[OF reads_index[of n i rt], where f = get_ltv and cs = "[]" and m' = "get_ltv i"] reads_nothing by fastforce

definition get_as :: "('v, 'w) runtime \<Rightarrow> vtype \<Rightarrow> nat \<Rightarrow> ('v, 'w, 'v) ld" where
  "get_as rt t i = ld_bind (get_ltv i) (as_type rt t)"

lemma steady_get_as [steady_intros]: "steady (get_as rt t i)"
  unfolding get_as_def by (intro steady_intros)

lemma reads_as: "ref_ok n i \<Longrightarrow> reads n (read_as rt t) (write_index n i) (get_as rt t i)"
  unfolding read_as_def get_as_def
  using reads_bind[OF reads_ltv[of n i rt] reads_nothing steady_get_ltv] by fastforce

section \<open>Sequences\<close>

text \<open>The actions of a list, whose results are collected.\<close>

fun ld_map :: "('i \<Rightarrow> ('v, 'w, 'a) ld) \<Rightarrow> 'i list \<Rightarrow> ('v, 'w, 'a list) ld" where
  "ld_map f [] = ld_return []"
| "ld_map f (x # xs) = ld_bind (f x) (\<lambda>a. ld_bind (ld_map f xs) (\<lambda>as. ld_return (a # as)))"

lemma steady_map [steady_intros]: "(\<And>x. steady (f x)) \<Longrightarrow> steady (ld_map f xs)"
  by (induction xs) (auto intro: steady_intros)

lemma reads_times:
  assumes "\<And>x. x \<in> set xs \<Longrightarrow> reads n m (w x) (f x)" "\<And>x. steady (f x)"
  shows "reads n (ld_times (length xs) m) (concat (map w xs)) (ld_map f xs)"
  using assms(1)
proof (induction xs)
  case (Cons x xs)
  have "reads n (ld_bind (ld_times (length xs) m) (\<lambda>as. ld_return (a # as))) (concat (map w xs) @ [])
      (ld_bind (ld_map f xs) (\<lambda>as. ld_return (a # as)))" for a
    by (rule reads_bind[OF Cons.IH reads_nothing]) (use Cons.prems assms(2) steady_map in auto)
  then show ?case
    using reads_bind[OF Cons.prems[of x], where f = "\<lambda>a. ld_bind (ld_times (length xs) m) (\<lambda>as. ld_return (a # as))"] assms(2)
    by simp
qed (simp add: reads_nothing)

lemma ld_map_return: "ld_map (\<lambda>x. ld_return (g x)) xs = ld_return (map g xs)"
  by (induction xs) simp_all

lemma reads_values:
  assumes "\<And>x. x \<in> set xs \<Longrightarrow> reads n m (w x) (ld_return (g x))"
  shows "reads n (ld_times (length xs) m) (concat (map w xs)) (ld_return (map g xs))"
  using reads_times[where f = "\<lambda>x. ld_return (g x)", OF assms steady_return, of xs] by (simp add: ld_map_return)

lemma reads_ltvs:
  "list_all (ref_ok n) is \<Longrightarrow> reads n (ld_times (length is) (read_ltv rt)) (concat (map (write_index n) is)) (ld_map get_ltv is)"
  by (rule reads_times) (auto simp: list_all_iff reads_ltv intro: steady_intros)

lemma reads_for:
  assumes "\<And>k x. (k, x) \<in> set (zip ks xs) \<Longrightarrow> reads n (f k) (w x) (g k x)" "length ks = length xs" "\<And>k x. steady (g k x)"
  shows "reads n (ld_for ks f) (concat (map w xs)) (ld_for (zip ks xs) (\<lambda>(k, x). g k x))"
  using assms(2,1)
proof (induction ks xs rule: list_induct2)
  case (Cons k ks x xs)
  have "reads n (ld_for ks f) (concat (map w xs)) (ld_for (zip ks xs) (\<lambda>(k, x). g k x))"
    using Cons.IH Cons.prems by simp
  then show ?case using reads_bind[OF Cons.prems[of k x]] assms(3) by simp
qed (simp add: reads_nothing)

end
