(* ===== verification/FaslExec.thy ===== *)
theory FaslExec
  imports FaslRead
begin

text \<open>
  What an instruction does, apart from its encoding, and that the loader does it when it
  reads the encoding of the instruction.
\<close>

section \<open>Executing instructions\<close>

definition set_elems :: "('v, 'w) runtime \<Rightarrow> 'v \<Rightarrow> uaet \<Rightarrow> elem list \<Rightarrow> ('v, 'w, unit) ld" where
  "set_elems rt arr packing elems =
     (if packing = U_nil \<or> packing = U_t then ld_return ()
      else ld_for (zip [0..<length elems] elems) (\<lambda>(i, e). effect rt (Set_element arr i e)))"

definition bignum_words :: "int \<Rightarrow> nat" where
  "bignum_words i = ceiling_div (integer_length (nat \<bar>i\<bar>)) 64"

definition bignum_limbs :: "int \<Rightarrow> 64 word list" where
  "bignum_limbs i = map (\<lambda>k. word_of_int (drop_bit (64 * k) \<bar>i\<bar>)) [0..<bignum_words i]"

definition var_decls :: "bool \<Rightarrow> unit decl_spec option \<Rightarrow> unit decl_spec option \<Rightarrow> 'v decl_spec list" where
  "var_decls dxp ign inl =
     (case inl of Some D_inline \<Rightarrow> [D_inline] | Some D_notinline \<Rightarrow> [D_notinline] | _ \<Rightarrow> []) @
     (if dxp then [D_dynamic_extent] else []) @
     (case ign of Some D_ignore \<Rightarrow> [D_ignore] | Some D_ignorable \<Rightarrow> [D_ignorable] | _ \<Rightarrow> [])"

fun exec_info :: "('v, 'w) runtime \<Rightarrow> debug_info \<Rightarrow> ('v, 'w, 'v debug_item) ld" where
  "exec_info rt (I_function f) = ld_bind (get_ltv f) (\<lambda>f. ld_return (Di_function f))"
| "exec_info rt (I_vars start en vars) =
     ld_bind (ld_map (\<lambda>(name, framei, cellp, dxp, ign, inl, decls).
       ld_bind (get_ltv name) (\<lambda>name. ld_bind (ld_map get_ltv decls) (\<lambda>extra.
       ld_return (Debug_var name framei cellp (var_decls dxp ign inl @ map D_other extra))))) vars)
       (\<lambda>bs. ld_return (Di_vars start en bs))"
| "exec_info rt (I_location start en path line column filepos) = ld_bind (get_ltv path) (\<lambda>path.
     ld_bind (ld_bind (call rt (File_scope path)) (as_type rt File_scope_t)) (\<lambda>sfi.
     ld_return (Di_location start en sfi filepos line column)))"
| "exec_info rt (I_decls start en d) = ld_bind (get_ltv d) (\<lambda>d. ld_return (Di_decls start en d))"
| "exec_info rt (I_the start en type receiving) = ld_bind (get_ltv type) (\<lambda>t. ld_return (Di_the start en t receiving))"
| "exec_info rt (I_block start en name receiving) = ld_bind (get_ltv name) (\<lambda>n. ld_return (Di_block start en n receiving))"
| "exec_info rt (I_exit start en receiving) = ld_return (Di_exit start en receiving)"
| "exec_info rt (I_macro start en name) = ld_bind (get_ltv name) (\<lambda>n. ld_return (Di_macro start en n))"
| "exec_info rt (I_if start en receiving) = ld_return (Di_if start en receiving)"
| "exec_info rt (I_tagbody start en tags) =
     ld_bind (ld_map (\<lambda>(tag, ip). ld_bind (get_ltv tag) (\<lambda>t. ld_return (t, ip))) tags) (\<lambda>ts. ld_return (Di_tagbody start en ts))"

fun attribute_text :: "attribute \<Rightarrow> string" where
  "attribute_text (A_name _ _) = ''name''"
| "attribute_text (A_docstring _ _) = ''docstring''"
| "attribute_text (A_lambda_list _ _) = ''lambda-list''"
| "attribute_text (A_source_pos _ _ _ _ _) = ''clasp:source-pos-info''"
| "attribute_text (A_debug_info _ _) = ''clasp:module-debug-info''"
| "attribute_text (A_mutable_ltv _ _) = ''clasp:module-mutable-ltv''"

fun exec_attribute :: "('v, 'w) runtime \<Rightarrow> attribute \<Rightarrow> ('v, 'w, unit) ld" where
  "exec_attribute rt (A_name obj name) = ld_bind (get_ltv obj) (\<lambda>named. ld_bind (get_ltv name) (\<lambda>name.
     when_type rt Function_t named (ld_bind (effect rt (Set_function_name named name)) (\<lambda>_.
       when_type rt Bytecode_fun_t named (effect rt (Set_trampoline named name))))))"
| "exec_attribute rt (A_docstring f d) = ld_bind (get_ltv f) (\<lambda>f. ld_bind (get_ltv d) (\<lambda>d.
     when_type rt Function_t f (effect rt (Set_docstring f d))))"
| "exec_attribute rt (A_lambda_list f l) = ld_bind (get_ltv f) (\<lambda>f. ld_bind (get_ltv l) (\<lambda>l.
     when_type rt Function_t f (effect rt (Set_lambda_list f l))))"
| "exec_attribute rt (A_source_pos f path line column filepos) = ld_bind (get_as rt Function_t f) (\<lambda>f. ld_bind (get_ltv path) (\<lambda>path.
     effect rt (Set_source_pos f path filepos line column)))"
| "exec_attribute rt (A_debug_info m infos) = ld_bind (get_as rt Module_t m) (\<lambda>m. ld_bind (ld_map (exec_info rt) infos) (\<lambda>items.
     effect rt (Set_debug_info m items)))"
| "exec_attribute rt (A_mutable_ltv m indices) = ld_return ()"

fun exec :: "('v, 'w) runtime \<Rightarrow> instruction \<Rightarrow> ('v, 'w, unit) ld" where
  "exec rt W_nil = creating (ld_return (nil_value rt))"
| "exec rt W_t = creating (ld_return (t_value rt))"
| "exec rt W_cons = creating (call rt Make_cons)"
| "exec rt W_environment = creating (ld_return (nil_value rt))"
| "exec rt (W_rplaca c v) = ld_bind (get_as rt Cons_t c) (\<lambda>c. ld_bind (get_ltv v) (\<lambda>v. effect rt (Rplaca c v)))"
| "exec rt (W_rplacd c v) = ld_bind (get_as rt Cons_t c) (\<lambda>c. ld_bind (get_ltv v) (\<lambda>v. effect rt (Rplacd c v)))"
| "exec rt (W_array u packing dims elems) = ld_bind next_index (\<lambda>i. ld_bind (make_array rt (map of_nat dims) u) (\<lambda>arr.
     ld_bind (set_ltv arr i) (\<lambda>_. set_elems rt arr packing elems)))"
| "exec rt (W_setf_aref a i v) = ld_bind (get_as rt Array_t a) (\<lambda>a. ld_bind (get_ltv v) (\<lambda>v. effect rt (Row_major_aset a i v)))"
| "exec rt (W_hash_table t count) = creating (call rt (Make_hash_table t (of_nat (min count 0xFFFF))))"
| "exec rt (W_setf_gethash h k v) = ld_bind (get_as rt Hash_table_t h) (\<lambda>h. ld_bind (get_ltv k) (\<lambda>k. ld_bind (get_ltv v) (\<lambda>v.
     effect rt (Set_gethash h k v))))"
| "exec rt (W_sb64 i) = creating (call rt (Make_integer i))"
| "exec rt (W_bignum i) = creating (call rt (Make_bignum (word_of_int (sgn i * int (bignum_words i))) (bignum_limbs i)))"
| "exec rt (W_single w) = creating (call rt (Make_single w))"
| "exec rt (W_double w) = creating (call rt (Make_double w))"
| "exec rt (W_ratio n d) = creating (ld_bind (get_as rt Integer_t n) (\<lambda>n. ld_bind (get_as rt Integer_t d) (\<lambda>d. call rt (Divide n d))))"
| "exec rt (W_complex r i) = creating (ld_bind (get_as rt Real_t r) (\<lambda>r. ld_bind (get_as rt Real_t i) (\<lambda>i. call rt (Make_complex r i))))"
| "exec rt (W_package n) = creating (ld_bind (get_as rt String_t n) (\<lambda>n. call rt (Find_package n)))"
| "exec rt (W_symbol n) = creating (ld_bind (get_as rt Simple_string_t n) (\<lambda>n. call rt (Make_symbol n)))"
| "exec rt (W_intern p n) = creating (ld_bind (get_as rt Package_t p) (\<lambda>p. ld_bind (get_as rt Simple_string_t n) (\<lambda>n. call rt (Intern p n))))"
| "exec rt (W_character c) = creating (call rt (Make_character c))"
| "exec rt (W_pathname h d dir n t v) = creating (ld_bind (get_ltv h) (\<lambda>h. ld_bind (get_ltv d) (\<lambda>d. ld_bind (get_ltv dir) (\<lambda>dir.
     ld_bind (get_ltv n) (\<lambda>n. ld_bind (get_ltv t) (\<lambda>t. ld_bind (get_ltv v) (\<lambda>v. call rt (Make_pathname h d dir n t v))))))))"
| "exec rt (W_function entry fsize nlocals nclosed m) =
     creating (ld_bind (get_as rt Module_t m) (\<lambda>m. call rt (Make_function m nlocals nclosed entry fsize)))"
| "exec rt (W_module code) = creating (call rt (Make_module code))"
| "exec rt (W_setf_literals m lits) = ld_bind (get_as rt Module_t m) (\<lambda>m. ld_bind (ld_map get_ltv lits) (\<lambda>lits. effect rt (Set_literals m lits)))"
| "exec rt (W_fdefinition n) = creating (ld_bind (get_ltv n) (\<lambda>n. call rt (Fdefinition n)))"
| "exec rt (W_fcell n) = creating (ld_bind (get_ltv n) (\<lambda>n. call rt (Function_cell n)))"
| "exec rt (W_vcell n) = creating (ld_bind (get_as rt Symbol_t n) (\<lambda>n. call rt (Variable_cell n)))"
| "exec rt (W_class n) = creating (ld_bind (get_as rt Symbol_t n) (\<lambda>n. call rt (Find_class n)))"
| "exec rt (W_create f args) = creating (ld_bind (get_as rt Function_t f) (\<lambda>f. ld_bind (ld_map get_ltv args) (\<lambda>args.
     call rt (Apply_function f args))))"
| "exec rt (W_initialize f args) = ld_bind (get_as rt Function_t f) (\<lambda>f. ld_bind (ld_map get_ltv args) (\<lambda>args.
     effect rt (Apply_function f args)))"
| "exec rt (W_attribute n a) = ld_bind (get_as rt String_t n) (\<lambda>_. exec_attribute rt a)"

lemma steady_make_array [steady_intros]: "steady (make_array rt dims u)"
  unfolding make_array_def by (simp add: steady_intros)

lemma steady_set_elems [steady_intros]: "steady (set_elems rt arr p es)"
  unfolding set_elems_def by (auto intro!: steady_intros)

lemma steady_exec_info [steady_intros]: "steady (exec_info rt i)"
  by (cases i) (auto intro!: steady_intros)

lemma steady_exec_attribute [steady_intros]: "steady (exec_attribute rt a)"
  by (cases a) (auto intro!: steady_intros)

lemma steady_exec [steady_intros]: "steady (exec rt i)"
  by (cases i) (auto intro!: steady_intros)

end
