(* ===== verification/FaslRefine.thy ===== *)
theory FaslRefine
  imports FaslExec
begin

text \<open>Each instruction, read from its encoding, does what it means.\<close>

section \<open>Instructions that can be written\<close>

definition count16 :: "'a list \<Rightarrow> bool" where
  "count16 xs \<longleftrightarrow> length xs < 65536"

fun elem_fits :: "uaet \<Rightarrow> elem \<Rightarrow> bool" where
  "elem_fits U_base_char (E_char c) \<longleftrightarrow> c < 256"
| "elem_fits U_character (E_char c) \<longleftrightarrow> c < 0x110000"
| "elem_fits U_single_float (E_single w) \<longleftrightarrow> True"
| "elem_fits U_double_float (E_double w) \<longleftrightarrow> True"
| "elem_fits U_bit (E_int i) \<longleftrightarrow> i = 0 \<or> i = 1"
| "elem_fits U_ub8 (E_int i) \<longleftrightarrow> 0 \<le> i \<and> i < 2 ^ 8"
| "elem_fits U_ub16 (E_int i) \<longleftrightarrow> 0 \<le> i \<and> i < 2 ^ 16"
| "elem_fits U_ub32 (E_int i) \<longleftrightarrow> 0 \<le> i \<and> i < 2 ^ 32"
| "elem_fits U_ub64 (E_int i) \<longleftrightarrow> 0 \<le> i \<and> i < 2 ^ 64"
| "elem_fits U_sb8 (E_int i) \<longleftrightarrow> - (2 ^ 7) \<le> i \<and> i < 2 ^ 7"
| "elem_fits U_sb16 (E_int i) \<longleftrightarrow> - (2 ^ 15) \<le> i \<and> i < 2 ^ 15"
| "elem_fits U_sb32 (E_int i) \<longleftrightarrow> - (2 ^ 31) \<le> i \<and> i < 2 ^ 31"
| "elem_fits U_sb64 (E_int i) \<longleftrightarrow> - (2 ^ 63) \<le> i \<and> i < 2 ^ 63"
| "elem_fits _ _ \<longleftrightarrow> False"

text \<open>
  Arrays of 2 and 4 bits are left out: the writer packs them wrongly.  A packing \<open>T\<close> or \<open>NIL\<close> has no
  elements here.
\<close>

definition array_fits :: "uaet \<Rightarrow> nat list \<Rightarrow> elem list \<Rightarrow> bool" where
  "array_fits packing dims elems \<longleftrightarrow>
     list_all (\<lambda>d. d < 65536) dims \<and>
     (if packing = U_nil \<or> packing = U_t then elems = []
      else length elems = prod_list dims \<and> list_all (elem_fits packing) elems)"

fun info_fits :: "nat \<Rightarrow> debug_info \<Rightarrow> bool" where
  "info_fits n (I_function f) \<longleftrightarrow> ref_ok n f"
| "info_fits n (I_vars start en vars) \<longleftrightarrow>
     count16 vars \<and> list_all (\<lambda>(name, framei, cellp, dxp, ign, inl, decls). 
       ref_ok n name \<and> count16 decls \<and> list_all (ref_ok n) decls \<and>
       ign \<in> {None, Some D_ignore, Some D_ignorable} \<and> inl \<in> {None, Some D_inline, Some D_notinline}) vars"
| "info_fits n (I_location start en path line column filepos) \<longleftrightarrow> ref_ok n path"
| "info_fits n (I_decls start en d) \<longleftrightarrow> ref_ok n d"
| "info_fits n (I_the start en type receiving) \<longleftrightarrow> ref_ok n type"
| "info_fits n (I_block start en name receiving) \<longleftrightarrow> ref_ok n name"
| "info_fits n (I_macro start en name) \<longleftrightarrow> ref_ok n name"
| "info_fits n (I_tagbody start en tags) \<longleftrightarrow> count16 tags \<and> list_all (\<lambda>(tag, ip). ref_ok n tag) tags"
| "info_fits n _ \<longleftrightarrow> True"

fun attribute_fits :: "nat \<Rightarrow> attribute \<Rightarrow> bool" where
  "attribute_fits n (A_name a b) \<longleftrightarrow> ref_ok n a \<and> ref_ok n b"
| "attribute_fits n (A_docstring a b) \<longleftrightarrow> ref_ok n a \<and> ref_ok n b"
| "attribute_fits n (A_lambda_list a b) \<longleftrightarrow> ref_ok n a \<and> ref_ok n b"
| "attribute_fits n (A_source_pos a b _ _ _) \<longleftrightarrow> ref_ok n a \<and> ref_ok n b"
| "attribute_fits n (A_debug_info m infos) \<longleftrightarrow> ref_ok n m \<and> length infos < 2 ^ 32 \<and> list_all (info_fits n) infos"
| "attribute_fits n (A_mutable_ltv m indices) \<longleftrightarrow> count16 indices"

fun fits :: "nat \<Rightarrow> instruction \<Rightarrow> bool" where
  "fits n (W_rplaca a b) \<longleftrightarrow> ref_ok n a \<and> ref_ok n b"
| "fits n (W_rplacd a b) \<longleftrightarrow> ref_ok n a \<and> ref_ok n b"
| "fits n (W_array u packing dims elems) \<longleftrightarrow> array_fits packing dims elems"
| "fits n (W_setf_aref a i v) \<longleftrightarrow> ref_ok n a \<and> i < 65536 \<and> ref_ok n v"
| "fits n (W_setf_gethash a b c) \<longleftrightarrow> ref_ok n a \<and> ref_ok n b \<and> ref_ok n c"
| "fits n (W_sb64 i) \<longleftrightarrow> - (2 ^ 63) \<le> i \<and> i < 2 ^ 63"
| "fits n (W_bignum i) \<longleftrightarrow> bignum_words i < 2 ^ 63"
| "fits n (W_ratio a b) \<longleftrightarrow> ref_ok n a \<and> ref_ok n b"
| "fits n (W_complex a b) \<longleftrightarrow> ref_ok n a \<and> ref_ok n b"
| "fits n (W_package a) \<longleftrightarrow> ref_ok n a"
| "fits n (W_symbol a) \<longleftrightarrow> ref_ok n a"
| "fits n (W_intern a b) \<longleftrightarrow> ref_ok n a \<and> ref_ok n b"
| "fits n (W_pathname a b c d e f) \<longleftrightarrow> list_all (ref_ok n) [a, b, c, d, e, f]"
| "fits n (W_function _ _ _ _ m) \<longleftrightarrow> ref_ok n m"
| "fits n (W_module code) \<longleftrightarrow> length code < 2 ^ 32"
| "fits n (W_setf_literals m lits) \<longleftrightarrow> ref_ok n m \<and> count16 lits \<and> list_all (ref_ok n) lits"
| "fits n (W_fdefinition a) \<longleftrightarrow> ref_ok n a"
| "fits n (W_fcell a) \<longleftrightarrow> ref_ok n a"
| "fits n (W_vcell a) \<longleftrightarrow> ref_ok n a"
| "fits n (W_class a) \<longleftrightarrow> ref_ok n a"
| "fits n (W_create f args) \<longleftrightarrow> ref_ok n f \<and> count16 args \<and> list_all (ref_ok n) args"
| "fits n (W_initialize f args) \<longleftrightarrow> ref_ok n f \<and> count16 args \<and> list_all (ref_ok n) args"
| "fits n (W_attribute a attr) \<longleftrightarrow> ref_ok n a \<and> attribute_fits n attr"
| "fits n _ \<longleftrightarrow> True"

section \<open>Rules\<close>

named_theorems reads_rules "one step of a reader, by the form of the bytes"

lemma reads_last:
  "reads n m bs m' \<Longrightarrow> steady m' \<Longrightarrow> reads n (ld_bind m f) bs (ld_bind m' f)"
  using reads_bind[OF _ reads_nothing, of n m bs m' f] by fastforce

lemma bind_as [reads_rules]:
  "ref_ok n i \<Longrightarrow> (\<And>a. reads n (f a) cs (f' a)) \<Longrightarrow> reads n (ld_bind (read_as rt t) f) (write_index n i @ cs) (ld_bind (get_as rt t i) f')"
  by (rule reads_bind[OF reads_as]) (auto intro: steady_intros)

lemma bind_ltv [reads_rules]:
  "ref_ok n i \<Longrightarrow> (\<And>a. reads n (f a) cs (f' a)) \<Longrightarrow> reads n (ld_bind (read_ltv rt) f) (write_index n i @ cs) (ld_bind (get_ltv i) f')"
  by (rule reads_bind[OF reads_ltv]) (auto intro: steady_intros)

lemma last_as [reads_rules]:
  "ref_ok n i \<Longrightarrow> reads n (ld_bind (read_as rt t) f) (write_index n i) (ld_bind (get_as rt t i) f)"
  by (rule reads_last[OF reads_as]) (auto intro: steady_intros)

lemma last_ltv [reads_rules]:
  "ref_ok n i \<Longrightarrow> reads n (ld_bind (read_ltv rt) f) (write_index n i) (ld_bind (get_ltv i) f)"
  by (rule reads_last[OF reads_ltv]) (auto intro: steady_intros)

lemma bind_word [reads_rules]:
  "reads n (f2 w2) cs m' \<Longrightarrow> reads n (ld_bind (read_u16 rt) f2) (write_b 2 (uint w2) @ cs) m'"
  "reads n (f4 w4) cs m' \<Longrightarrow> reads n (ld_bind (read_u32 rt) f4) (write_b 4 (uint w4) @ cs) m'"
  "reads n (f4 w4) cs m' \<Longrightarrow> reads n (ld_bind (read_u32 rt) f4) (write_b 4 (sint w4) @ cs) m'"
  "reads n (f8 w8) cs m' \<Longrightarrow> reads n (ld_bind (read_u64 rt) f8) (write_b 8 (uint w8) @ cs) m'"
  by (rule reads_value, rule reads_word, assumption)+

lemma value_last: "reads n m bs (ld_return a) \<Longrightarrow> m' = f a \<Longrightarrow> reads n (ld_bind m f) bs m'"
  using reads_value[of n m bs a f "[]" "f a"] reads_nothing[of n "f a"] by simp

lemma last_word [reads_rules]:
  "reads n (ld_bind (read_u16 rt) f2) (write_b 2 (uint w2)) (f2 w2)"
  "reads n (ld_bind (read_u32 rt) f4) (write_b 4 (uint w4)) (f4 w4)"
  "reads n (ld_bind (read_u32 rt) f4) (write_b 4 (sint w4)) (f4 w4)"
  "reads n (ld_bind (read_u64 rt) f8) (write_b 8 (uint w8)) (f8 w8)"
  by (rule value_last, rule reads_word, rule refl)+

lemma bind_byte:
  "reads n (f (word_of_int i)) cs m' \<Longrightarrow> reads n (ld_bind (read_u8 rt) f) (write_b 1 i @ cs) m'"
  by (rule reads_value[OF reads_b1])

lemma bind_length16 [reads_rules]:
  assumes "count16 xs" "\<And>w. unat w = length xs \<Longrightarrow> reads n (f w) cs m'"
  shows "reads n (ld_bind (read_u16 rt) f) (write_b 2 (int (length xs)) @ cs) m'"
  by (rule reads_value[OF reads_b2 assms(2)]) (use assms(1) in \<open>simp add: count16_def unat_word_of_int_id del: of_int_of_nat_eq\<close>)

lemma bind_ltvs [reads_rules]:
  assumes "list_all (ref_ok n) is" "k = length is" "\<And>as. reads n (f as) cs (f' as)"
  shows "reads n (ld_bind (ld_times k (read_ltv rt)) f) (concat (map (write_index n) is) @ cs) (ld_bind (ld_map get_ltv is) f')"
  unfolding assms(2) by (rule reads_bind[OF reads_ltvs[OF assms(1)] assms(3)]) (auto intro: steady_intros)

lemma last_ltvs [reads_rules]:
  assumes "list_all (ref_ok n) is" "k = length is"
  shows "reads n (ld_bind (ld_times k (read_ltv rt)) f) (concat (map (write_index n) is)) (ld_bind (ld_map get_ltv is) f)"
  unfolding assms(2) by (rule reads_last[OF reads_ltvs[OF assms(1)]]) (auto intro: steady_intros)

lemma reads_creating:
  "reads n m bs m' \<Longrightarrow> steady m' \<Longrightarrow> reads n (creating m) bs (creating m')"
  unfolding creating_def by (intro reads_then reads_last steady_intros)

text \<open>An instruction is its opcode and what follows.\<close>

lemma reads_opcode:
  "reads n (op_nil rt) bs m' \<Longrightarrow> reads n (load_instruction rt) (write_b 1 65 @ bs) m'"
  "reads n (op_t rt) bs m' \<Longrightarrow> reads n (load_instruction rt) (write_b 1 66 @ bs) m'"
  "reads n (op_cons rt) bs m' \<Longrightarrow> reads n (load_instruction rt) (write_b 1 69 @ bs) m'"
  "reads n (op_rplaca rt) bs m' \<Longrightarrow> reads n (load_instruction rt) (write_b 1 70 @ bs) m'"
  "reads n (op_rplacd rt) bs m' \<Longrightarrow> reads n (load_instruction rt) (write_b 1 71 @ bs) m'"
  "reads n (op_array rt) bs m' \<Longrightarrow> reads n (load_instruction rt) (write_b 1 74 @ bs) m'"
  "reads n (op_srma rt) bs m' \<Longrightarrow> reads n (load_instruction rt) (write_b 1 75 @ bs) m'"
  "reads n (op_hasht rt) bs m' \<Longrightarrow> reads n (load_instruction rt) (write_b 1 76 @ bs) m'"
  "reads n (op_shash rt) bs m' \<Longrightarrow> reads n (load_instruction rt) (write_b 1 77 @ bs) m'"
  "reads n (op_sb64 rt) bs m' \<Longrightarrow> reads n (load_instruction rt) (write_b 1 78 @ bs) m'"
  "reads n (op_package rt) bs m' \<Longrightarrow> reads n (load_instruction rt) (write_b 1 79 @ bs) m'"
  "reads n (op_bignum rt) bs m' \<Longrightarrow> reads n (load_instruction rt) (write_b 1 80 @ bs) m'"
  "reads n (op_float rt) bs m' \<Longrightarrow> reads n (load_instruction rt) (write_b 1 90 @ bs) m'"
  "reads n (op_double rt) bs m' \<Longrightarrow> reads n (load_instruction rt) (write_b 1 91 @ bs) m'"
  "reads n (op_ratio rt) bs m' \<Longrightarrow> reads n (load_instruction rt) (write_b 1 67 @ bs) m'"
  "reads n (op_complex rt) bs m' \<Longrightarrow> reads n (load_instruction rt) (write_b 1 68 @ bs) m'"
  "reads n (op_symbol rt) bs m' \<Longrightarrow> reads n (load_instruction rt) (write_b 1 81 @ bs) m'"
  "reads n (op_intern rt) bs m' \<Longrightarrow> reads n (load_instruction rt) (write_b 1 82 @ bs) m'"
  "reads n (op_character rt) bs m' \<Longrightarrow> reads n (load_instruction rt) (write_b 1 83 @ bs) m'"
  "reads n (op_pathname rt) bs m' \<Longrightarrow> reads n (load_instruction rt) (write_b 1 85 @ bs) m'"
  "reads n (op_bcfunc rt) bs m' \<Longrightarrow> reads n (load_instruction rt) (write_b 1 87 @ bs) m'"
  "reads n (op_bcmod rt) bs m' \<Longrightarrow> reads n (load_instruction rt) (write_b 1 88 @ bs) m'"
  "reads n (op_slits rt) bs m' \<Longrightarrow> reads n (load_instruction rt) (write_b 1 89 @ bs) m'"
  "reads n (op_fdef rt) bs m' \<Longrightarrow> reads n (load_instruction rt) (write_b 1 95 @ bs) m'"
  "reads n (op_fcell rt) bs m' \<Longrightarrow> reads n (load_instruction rt) (write_b 1 96 @ bs) m'"
  "reads n (op_vcell rt) bs m' \<Longrightarrow> reads n (load_instruction rt) (write_b 1 97 @ bs) m'"
  "reads n (op_create rt) bs m' \<Longrightarrow> reads n (load_instruction rt) (write_b 1 93 @ bs) m'"
  "reads n (op_init rt) bs m' \<Longrightarrow> reads n (load_instruction rt) (write_b 1 94 @ bs) m'"
  "reads n (op_class rt) bs m' \<Longrightarrow> reads n (load_instruction rt) (write_b 1 98 @ bs) m'"
  "reads n (op_environment rt) bs m' \<Longrightarrow> reads n (load_instruction rt) (write_b 1 100 @ bs) m'"
  "reads n (op_attribute rt) bs m' \<Longrightarrow> reads n (load_instruction rt) (write_b 1 255 @ bs) m'"
  unfolding load_instruction_def by (rule bind_byte, simp)+

lemmas reads_opcode_alone = reads_opcode(1,2,3,30)[where bs = "[]", unfolded append_Nil2]

text \<open>Instructions whose operands are references and words.\<close>

lemmas op_defs = op_nil_def op_t_def op_cons_def op_environment_def op_rplaca_def op_rplacd_def op_srma_def op_shash_def
  op_package_def op_float_def op_double_def op_ratio_def op_complex_def op_symbol_def op_intern_def
  op_character_def op_pathname_def op_bcfunc_def op_slits_def op_fdef_def op_fcell_def op_vcell_def op_create_def op_init_def op_class_def

fun plain_operands :: "instruction \<Rightarrow> bool" where
  "plain_operands (W_array _ _ _ _) = False"
| "plain_operands (W_hash_table _ _) = False"
| "plain_operands (W_sb64 _) = False"
| "plain_operands (W_bignum _) = False"
| "plain_operands (W_module _) = False"
| "plain_operands (W_setf_aref _ _ _) = False"
| "plain_operands (W_attribute _ _) = False"
| "plain_operands _ = True"

lemma reads_operands:
  assumes "fits n i" "encode n i = Some bs" "plain_operands i"
  shows "reads n (load_instruction rt) bs (exec rt i)"
  using assms
  by (cases i) (auto simp: op_defs simp del: One_nat_def
      intro!: reads_opcode reads_opcode_alone reads_nothing reads_creating reads_rules steady_intros)

text \<open>Hash tables, integers, code and elements of arrays.\<close>

lemma reads_setf_aref:
  assumes "fits n (W_setf_aref a i v)" "encode n (W_setf_aref a i v) = Some bs"
  shows "reads n (load_instruction rt) bs (exec rt (W_setf_aref a i v))"
proof -
  have u: "unat (word_of_int (int i) :: 16 word) = i" using assms(1) by (intro unat_word_of_int_id) simp
  have "reads n (ld_bind (read_u16 rt) (\<lambda>i. ld_bind (read_ltv rt) (\<lambda>v. effect rt (Row_major_aset arr (unat i) v))))
      (write_b 2 (int i) @ write_index n v) (ld_bind (get_ltv v) (\<lambda>v. effect rt (Row_major_aset arr i v)))" for arr
    by (rule reads_value[OF reads_b2]) (unfold u, rule reads_rules, use assms(1) in simp)
  then show ?thesis using assms by (auto simp: op_srma_def simp del: One_nat_def intro!: reads_opcode bind_as)
qed

lemma reads_hash_table:
  assumes "encode n (W_hash_table t count) = Some bs"
  shows "reads n (load_instruction rt) bs (exec rt (W_hash_table t count))"
proof -
  have w: "word_of_int (int (min count 65535)) = (of_nat (min count 65535) :: 16 word)" by simp
  have "reads n (ld_bind (read_u16 rt) (\<lambda>count. g count)) (write_b 2 (int (min count 65535)))  (g (of_nat (min count 65535)))" for g
    by (rule value_last[OF reads_b2]) (simp only: w)
  then show ?thesis using assms
    by (cases t) (auto simp: op_hasht_def test_code_def simp del: One_nat_def of_nat_min intro!: reads_opcode reads_creating bind_byte steady_intros)
qed

lemma reads_sb64:
  assumes "fits n (W_sb64 i)" "encode n (W_sb64 i) = Some bs"
  shows "reads n (load_instruction rt) bs (exec rt (W_sb64 i))"
proof -
  have r: "reads n (read_s64 rt) (write_b 8 i) (ld_return i)" using assms(1) by (intro reads_s64) simp_all
  show ?thesis using assms
    by (auto simp: op_sb64_def simp del: One_nat_def intro!: reads_opcode reads_creating steady_intros value_last[OF r])
qed

lemma reads_module:
  assumes "fits n (W_module code)" "encode n (W_module code) = Some bs"
  shows "reads n (load_instruction rt) bs (exec rt (W_module code))"
proof -
  have u: "unat (word_of_int (int (length code)) :: 32 word) = length code" using assms(1) by (intro unat_word_of_int_id) simp
  have "reads n (read_sequence (length code)) code (ld_return code)"
    by (simp add: reads_def read_sequence_def ld_return_def)
  then have "reads n (ld_bind (read_u32 rt) (\<lambda>len. ld_bind (read_sequence (unat len)) (\<lambda>bytes. call rt (Make_module bytes))))
      (write_b 4 (int (length code)) @ code) (call rt (Make_module code))"
    by (intro reads_value[OF reads_b4]) (unfold u, rule value_last, simp_all)
  then show ?thesis using assms
    by (auto simp: op_bcmod_def simp del: One_nat_def intro!: reads_opcode reads_creating steady_intros)
qed

lemma integer_length_0 [simp]: "integer_length 0 = 0"
  by (subst integer_length.simps) simp

lemma bignum_words_0 [simp]: "bignum_words 0 = 0"
  by (simp add: bignum_words_def ceiling_div_def)

lemma reads_bignum:
  assumes "fits n (W_bignum i)" "encode n (W_bignum i) = Some bs"
  shows "reads n (load_instruction rt) bs (exec rt (W_bignum i))"
proof -
  let ?k = "bignum_words i" and ?w = "\<lambda>k. drop_bit (64 * k) \<bar>i\<bar> AND mask 64"
  have sg: "(if i < 0 then - int ?k else int ?k) = sgn i * int ?k"
    by (cases "i = 0") (auto simp: sgn_if)
  have fits: "?k < 2 ^ 63" using assms(1) by simp
  have s: "nat \<bar>sint (word_of_int (sgn i * int ?k) :: 64 word)\<bar> = ?k"
  proof (cases "i = 0")
    case True
    then show ?thesis by simp
  next
    case False
    have "sint (word_of_int (sgn i * int ?k) :: 64 word) = sgn i * int ?k"
      by (rule sint_word_of_int_id) (use fits in \<open>auto simp: sgn_if\<close>)
    then show ?thesis using False by (auto simp: sgn_if)
  qed
  have limbs: "word_of_int (?w k) = (word_of_int (drop_bit (64 * k) \<bar>i\<bar>) :: 64 word)" for k
    by (rule bit_word_eqI) (simp add: bit_simps)
  have r: "reads n (ld_times (length xs) (read_u64 rt)) (concat (map (\<lambda>k. write_b 8 (?w k)) xs))
      (ld_return (map (\<lambda>k. word_of_int (drop_bit (64 * k) \<bar>i\<bar>)) xs))" for xs
    by (rule reads_values) (use reads_b8[of n rt "?w _"] limbs in simp)
  have rw: "rev (map (\<lambda>k. word_of_int (drop_bit (64 * k) \<bar>i\<bar>)) (rev [0..<?k])) = bignum_limbs i"
    by (simp add: bignum_limbs_def rev_map)
  have "reads n (ld_bind (ld_times (nat \<bar>sint (word_of_int (sgn i * int ?k) :: 64 word)\<bar>) (read_u64 rt))
      (\<lambda>limbs. call rt (Make_bignum (word_of_int (sgn i * int ?k)) (rev limbs))))
    (concat (map (\<lambda>k. write_b 8 (?w k)) (rev [0..<?k]))) (call rt (Make_bignum (word_of_int (sgn i * int ?k)) (bignum_limbs i)))"
    unfolding s by (rule value_last[OF r[of "rev [0..<?k]", unfolded length_rev length_upt diff_zero]]) (simp only: rw)
  then have "reads n (ld_bind (read_u64 rt) (\<lambda>ssize. ld_bind (ld_times (nat \<bar>sint ssize\<bar>) (read_u64 rt))
      (\<lambda>limbs. call rt (Make_bignum ssize (rev limbs))))) (write_bignum i)
      (call rt (Make_bignum (word_of_int (sgn i * int ?k)) (bignum_limbs i)))"
    unfolding write_bignum_def Let_def bignum_words_def[symmetric] sg by (rule reads_value[OF reads_b8])
  then show ?thesis using assms
    by (auto simp: op_bignum_def simp del: One_nat_def intro!: reads_opcode reads_creating steady_intros)
qed

end
