(* ===== verification/FaslAttributes.thy ===== *)
theory FaslAttributes
  imports FaslRefine
begin

text \<open>Reading attributes and debug information as they are written.\<close>

lemma reads_range:
  "reads n (f start en) cs m' \<Longrightarrow> reads n (with_range rt f) (write_b 4 (uint start) @ write_b 4 (uint en) @ cs) m'"
  unfolding with_range_def by (intro bind_word)

text \<open>The fields of the flags of a variable.\<close>

lemma flag_fields:
  assumes "ign \<in> {None, Some D_ignore, Some D_ignorable}" "inl \<in> {None, Some D_inline, Some D_notinline}"
    and "w = (word_of_int (bdv_flags c d ign inl) :: 8 word)"
  shows "drop_bit 4 (w AND 48) = word_of_int (flag_bits inl)" "drop_bit 1 (w AND 6) = word_of_int (flag_bits ign)"
    "w AND 8 \<noteq> 0 \<longleftrightarrow> d" "w AND 1 \<noteq> 0 \<longleftrightarrow> c"
proof -
  have "\<forall>c \<in> {True, False}. \<forall>d \<in> {True, False}. \<forall>ign \<in> {None, Some D_ignore, Some D_ignorable}. \<forall>inl \<in> {None, Some D_inline, Some D_notinline}.
      let w = word_of_int (bdv_flags c d ign inl) :: 8 word
      in drop_bit 4 (w AND 48) = word_of_int (flag_bits inl) \<and> drop_bit 1 (w AND 6) = word_of_int (flag_bits ign) \<and>
         (w AND 8 \<noteq> 0) = d \<and> (w AND 1 \<noteq> 0) = c"
    by code_simp
  then have "let w = word_of_int (bdv_flags c d ign inl) :: 8 word
      in drop_bit 4 (w AND 48) = word_of_int (flag_bits inl) \<and> drop_bit 1 (w AND 6) = word_of_int (flag_bits ign) \<and>
         (w AND 8 \<noteq> 0) = d \<and> (w AND 1 \<noteq> 0) = c"
    using assms(1,2) by (cases c; cases d; blast)
  then show "drop_bit 4 (w AND 48) = word_of_int (flag_bits inl)" "drop_bit 1 (w AND 6) = word_of_int (flag_bits ign)"
    "w AND 8 \<noteq> 0 \<longleftrightarrow> d" "w AND 1 \<noteq> 0 \<longleftrightarrow> c"
    unfolding assms(3) Let_def by blast+
qed

lemma flags_decls:
  assumes "ign \<in> {None, Some D_ignore, Some D_ignorable}" "inl \<in> {None, Some D_inline, Some D_notinline}"
  shows "flag_decls (word_of_int (bdv_flags c d ign inl)) = var_decls d ign inl"
  unfolding flag_decls_def Let_def var_decls_def flag_fields[OF assms refl]
  using assms by (auto simp: flag_bits_def)

lemma reads_debug_var:
  assumes "ref_ok n name" "count16 decls" "list_all (ref_ok n) decls"
    and "ign \<in> {None, Some D_ignore, Some D_ignorable}" "inl \<in> {None, Some D_inline, Some D_notinline}"
  shows "reads n (read_debug_var rt)
    (write_index n name @ write_b 2 (uint framei) @ write_b 1 (bdv_flags cellp dxp ign inl) @
     write_b 2 (int (length decls)) @ concat (map (write_index n) decls))
    (ld_bind (get_ltv name) (\<lambda>name. ld_bind (ld_map get_ltv decls) (\<lambda>extra.
       ld_return (Debug_var name framei cellp (var_decls dxp ign inl @ map D_other extra)))))"
  unfolding read_debug_var_def
  by (rule bind_ltv[OF assms(1)], rule bind_word(1), rule bind_byte, rule bind_length16[OF assms(2)])
    (simp only: flags_decls[OF assms(4,5)] flag_fields(4)[OF assms(4,5) refl] last_ltvs[OF assms(3)])

lemma reads_list16:
  assumes "count16 xs" "\<And>x. x \<in> set xs \<Longrightarrow> reads n m (w x) (g x)" "\<And>x. steady (g x)"
  shows "reads n (ld_bind (read_u16 rt) (\<lambda>k. ld_bind (ld_times (unat k) m) f))
    (write_b 2 (int (length xs)) @ concat (map w xs)) (ld_bind (ld_map g xs) f)"
  by (rule bind_length16[OF assms(1)]) (simp only: reads_last[OF reads_times[OF assms(2,3)] steady_map[OF assms(3)]])

lemma reads_info:
  assumes "info_fits n i"
  shows "reads n (read_debug_item rt) (encode_info n i) (exec_info rt i)"
proof (cases i)
  case (I_vars start en vars)
  show ?thesis unfolding I_vars encode_info.simps exec_info.simps read_debug_item_def di_op_vars_def
  proof (rule bind_byte, simp del: One_nat_def, rule reads_range, rule reads_list16)
    fix v assume "v \<in> set vars"
    with assms I_vars obtain name framei cellp dxp ign inl decls where "v = (name, framei, cellp, dxp, ign, inl, decls)"
      "ref_ok n name" "count16 decls" "list_all (ref_ok n) decls"
      "ign \<in> {None, Some D_ignore, Some D_ignorable}" "inl \<in> {None, Some D_inline, Some D_notinline}"
      by (cases v) (auto simp: list_all_iff)
    then show "reads n (read_debug_var rt)
       ((\<lambda>(name, framei, cellp, dxp, ign, inl, decls).
          write_index n name @ write_b 2 (uint framei) @ write_b 1 (bdv_flags cellp dxp ign inl) @
          write_b 2 (int (length decls)) @ concat (map (write_index n) decls)) v)
       ((\<lambda>(name, framei, cellp, dxp, ign, inl, decls).
          ld_bind (get_ltv name) (\<lambda>name. ld_bind (ld_map get_ltv decls) (\<lambda>extra.
          ld_return (Debug_var name framei cellp (var_decls dxp ign inl @ map D_other extra))))) v)"
      by (simp only: prod.case reads_debug_var)
  qed (use assms I_vars in \<open>auto intro!: steady_intros split: prod.split\<close>)
next
  case (I_tagbody start en tags)
  show ?thesis unfolding I_tagbody encode_info.simps exec_info.simps read_debug_item_def di_op_tagbody_def
    by (rule bind_byte, simp, rule reads_range, rule reads_list16)
      (use assms I_tagbody in \<open>auto simp: list_all_iff read_tag_def intro!: bind_ltv last_word steady_intros\<close>)
qed (use assms in \<open>auto simp: read_debug_item_def di_op_function_def di_op_location_def di_op_decls_def di_op_the_def di_op_block_def
      di_op_exit_def di_op_macro_def di_op_if_def simp del: One_nat_def intro!: bind_byte reads_range reads_rules\<close>)

section \<open>Attributes\<close>

definition attribute_body :: "('v, 'w) runtime \<Rightarrow> string \<Rightarrow> ('v, 'w, unit) ld" where
  "attribute_body rt name = ld_bind (read_u32 rt) (\<lambda>attrbytes.
       if name = ''name'' then attr_name rt
       else if name = ''docstring'' then attr_docstring rt
       else if name = ''lambda-list'' then attr_lambda_list rt
       else if name = ''clasp:source-pos-info'' then attr_source_pos_info rt
       else if name = ''clasp:module-debug-info'' then attr_module_debug_info rt
       else ld_for [0..<unat attrbytes] (\<lambda>_. ld_bind (read_u8 rt) (\<lambda>_. ld_return ())))"

lemma op_attribute_body:
  "op_attribute rt = ld_bind (read_as rt String_t) (\<lambda>v s. attribute_body rt (text_of rt v (world s)) s)"
  unfolding op_attribute_def attribute_body_def Let_def ..

lemma reads_skip: "reads n (ld_for [0..<length bs] (\<lambda>_. ld_bind (read_u8 rt) (\<lambda>_. ld_return ()))) bs (ld_return ())"
proof -
  have "reads n (ld_for ks (\<lambda>_. ld_bind (read_u8 rt) (\<lambda>_. ld_return ()))) bs (ld_return ())"
    if "length ks = length bs" for ks :: "nat list"
    using that
  proof (induction ks bs rule: list_induct2)
    case (Cons k ks b bs)
    have "reads n (ld_bind (read_u8 rt) (\<lambda>_. ld_return ())) [b] (ld_return ())" by (rule value_last[OF reads_u8]) simp
    from reads_value[OF this, where f = "\<lambda>_. ld_for ks (\<lambda>_. ld_bind (read_u8 rt) (\<lambda>_. ld_return ()))", OF Cons.IH]
    show ?case by simp
  qed (simp add: reads_nothing)
  then show ?thesis by simp
qed

lemma bind_length32: "reads n (f (word_of_int i)) cs m' \<Longrightarrow> reads n (ld_bind (read_u32 rt) f) (write_b 4 i @ cs) m'"
  by (rule reads_value[OF reads_b4])

lemma length_write_index [simp]: "length (write_index n i) = n"
  by (simp add: write_index_def)

lemma length_write_bs: "length (concat (map (\<lambda>i. write_b k (g i)) xs)) = k * length xs"
  by (induction xs) simp_all

lemma reads_attribute_body:
  assumes fits: "attribute_fits n a" and n: "n \<le> 8"
  shows "reads n (attribute_body rt (attribute_text a)) (encode_attribute n a) (exec_attribute rt a)"
proof (cases a)
  case (A_debug_info m infos)
  have u: "unat (word_of_int (int (length infos)) :: 32 word) = length infos" using fits A_debug_info by (intro unat_word_of_int_id) simp
  have "reads n (ld_times (length infos) (read_debug_item rt)) (concat (map (encode_info n) infos)) (ld_map (exec_info rt) infos)"
    by (rule reads_times) (use fits A_debug_info in \<open>auto simp: list_all_iff intro: reads_info steady_intros\<close>)
  then have "reads n (ld_bind (read_u32 rt) (\<lambda>icount. ld_bind (ld_times (unat icount) (read_debug_item rt)) f))
     (write_b 4 (int (length infos)) @ concat (map (encode_info n) infos)) (ld_bind (ld_map (exec_info rt) infos) f)" for f
    by (intro bind_length32) (unfold u, intro reads_last, auto intro: steady_intros)
  then show ?thesis using fits A_debug_info
    by (auto simp: attribute_body_def attr_module_debug_info_def intro!: bind_length32[of n _ "int (sum_list _)"] bind_as)
next
  case (A_mutable_ltv m indices)
  let ?bs = "write_index n m @ write_b 2 (int (length indices)) @ concat (map (\<lambda>i. write_b 2 (uint i)) indices)"
  have l: "length ?bs = 2 + n + 2 * length indices" by (simp add: length_write_bs)
  have u: "unat (word_of_int (int (length ?bs)) :: 32 word) = length ?bs"
    by (rule unat_word_of_int_id, unfold l) (use fits A_mutable_ltv n in \<open>simp add: count16_def\<close>)
  have "reads n (attribute_body rt ''clasp:module-mutable-ltv'') (write_b 4 (int (length ?bs)) @ ?bs) (ld_return ())"
    unfolding attribute_body_def
    by (rule bind_length32) (unfold u, simp only: list.inject char.inject simp_thms if_False if_True, rule reads_skip)
  then show ?thesis unfolding A_mutable_ltv l by simp
qed (use fits in \<open>auto simp: attribute_body_def attr_name_def attr_docstring_def attr_lambda_list_def attr_source_pos_info_def
    intro!: bind_length32 reads_rules\<close>)

text \<open>The first operand of the instruction is a string whose text is the name of the attribute.\<close>

fun named_right :: "('v, 'w) runtime \<Rightarrow> instruction \<Rightarrow> ('v, 'w) loader \<Rightarrow> bool" where
  "named_right rt (W_attribute k a) s =
     (case get_as rt String_t k s of Inl _ \<Rightarrow> True | Inr (v, _) \<Rightarrow> text_of rt v (world s) = attribute_text a)"
| "named_right rt _ s = True"

lemma get_as_result: "get_as rt t i s = Inr (v, s') \<Longrightarrow> s' = s"
  by (auto simp: get_as_def ld_bind_def get_ltv_def as_type_def split: sum.splits if_splits)

lemma get_as_input: "get_as rt t i (s\<lparr>input := x\<rparr>) = (case get_as rt t i s of Inl e \<Rightarrow> Inl e | Inr (v, _) \<Rightarrow> Inr (v, s\<lparr>input := x\<rparr>))"
  by (auto simp: get_as_def ld_bind_def get_ltv_def as_type_def split: sum.splits)

lemma load_attribute:
  assumes fits: "fits n (W_attribute k a)" and named: "named_right rt (W_attribute k a) s" and n: "index_bytes s = n"
    and bs: "encode n (W_attribute k a) = Some bs"
  shows "load_instruction rt (s\<lparr>input := bs @ r\<rparr>) = exec rt (W_attribute k a) (s\<lparr>input := r\<rparr>)"
proof -
  have ok: "ref_ok n k" "attribute_fits n a" "n \<le> 8" using fits by (auto simp: ref_ok_def)
  have b: "bs = write_b 1 255 @ write_index n k @ encode_attribute n a" using bs by simp
  have 1: "load_instruction rt (s\<lparr>input := bs @ r\<rparr>) = op_attribute rt (s\<lparr>input := write_index n k @ encode_attribute n a @ r\<rparr>)"
    using reads_opcode(31)[OF reads_nothing, of n rt] n by (simp add: reads_def b del: One_nat_def)
  have 2: "read_as rt String_t (s\<lparr>input := write_index n k @ x\<rparr>) = get_as rt String_t k (s\<lparr>input := x\<rparr>)" for x
    using reads_as[OF ok(1), of rt String_t] n by (simp add: reads_def)
  have 3: "attribute_body rt (attribute_text a) (s\<lparr>input := encode_attribute n a @ r\<rparr>) = exec_attribute rt a (s\<lparr>input := r\<rparr>)"
    using reads_attribute_body[OF ok(2,3), of rt] n by (simp add: reads_def)
  show ?thesis
  proof (cases "get_as rt String_t k s")
    case (Inl e)
    then show ?thesis by (simp add: 1 op_attribute_body ld_bind_def 2 get_as_input)
  next
    case (Inr p)
    then show ?thesis using named 3 by (cases p) (simp add: 1 op_attribute_body ld_bind_def 2 get_as_input)
  qed
qed

end
