(* ===== verification/FaslArrays.thy ===== *)
theory FaslArrays
  imports FaslAttributes
begin

text \<open>Reading arrays as they are written: dimensions, characters, bits and the other elements.\<close>

section \<open>Element types and dimensions\<close>

lemma decode_encoded_uaet [simp]: "decode_uaet (word_of_int (uaet_code u)) = Inr u"
  by (cases u) (simp_all add: uaet_code_def decode_uaet_def)

lemma array_total_product:
  assumes "list_all (\<lambda>d. d < 65536) dims"
  shows "array_total (map of_nat dims) = of_nat (prod_list dims)"
proof -
  have "foldl (\<lambda>total_size (dim :: 16 word). total_size * ucast dim) t (map of_nat dims) = t * (of_nat (prod_list dims) :: 64 word)" for t
    using assms
  proof (induction dims arbitrary: t)
    case (Cons d ds)
    have u: "(ucast (of_nat d :: 16 word) :: 64 word) = of_nat d"
      using Cons.prems by (simp add: unsigned_of_nat take_bit_nat_eq_self)
    show ?case using Cons.IH[of "t * of_nat d"] Cons.prems by (simp add: u mult.assoc)
  qed simp
  then show ?thesis by (simp add: array_total_def)
qed

lemma reads_dimensions:
  assumes "write_dimensions dims = Some bs" "reads n (f (map of_nat dims)) cs m'"
  shows "reads n (ld_bind (read_u8 rt) (\<lambda>rank. ld_bind (ld_times (unat rank) (read_u16 rt)) f)) (bs @ cs) m'"
proof -
  have b: "bs = write_b 1 (int (length dims)) @ concat (map (\<lambda>d. write_b 2 (int d)) dims)" and l: "length dims < 256"
    using assms(1) by (auto simp: write_dimensions_def split: if_splits)
  have u: "unat (word_of_int (int (length dims)) :: 8 word) = length dims" using l by (intro unat_word_of_int_id) simp
  have r: "reads n (ld_times (length dims) (read_u16 rt)) (concat (map (\<lambda>d. write_b 2 (int d)) dims)) (ld_return (map of_nat dims))"
    by (rule reads_values) (use reads_b2 in \<open>metis of_int_of_nat_eq\<close>)
  show ?thesis unfolding b append_assoc
    by (rule bind_byte) (unfold u, rule reads_value[OF r], rule assms(2))
qed

section \<open>Elements in bytes of their own\<close>

lemma reads_elements:
  assumes "\<And>e. e \<in> set elems \<Longrightarrow> reads n m (w e) (ld_return e)"
  shows "reads n (read_array rt arr (length elems) m) (concat (map w elems))
    (ld_for (zip [0..<length elems] elems) (\<lambda>(i, e). effect rt (Set_element arr i e)))"
  unfolding read_array_def
  by (rule reads_for) (auto intro!: value_last assms steady_intros dest: set_zip_rightD)

lemma write_all_map:
  "write_all (map g xs) = Some bs \<Longrightarrow> (\<forall>x \<in> set xs. g x = Some (the (g x))) \<and> bs = concat (map (\<lambda>x. the (g x)) xs)"
proof (induction xs arbitrary: bs)
  case (Cons x xs)
  then show ?case by (cases "g x") auto
qed simp

section \<open>Characters\<close>

lemma utf8_heads:
  "\<forall>l \<in> set [0..31]. drop_bit 7 (word_of_int (0xC0 OR l) :: 8 word) \<noteq> 0 \<and>
     drop_bit 5 (word_of_int (0xC0 OR l) :: 8 word) = 6 \<and> word_of_int (0xC0 OR l) AND 31 = (word_of_int l :: 8 word)"
  "\<forall>l \<in> set [0..15]. drop_bit 7 (word_of_int (0xE0 OR l) :: 8 word) \<noteq> 0 \<and> drop_bit 5 (word_of_int (0xE0 OR l) :: 8 word) \<noteq> 6 \<and>
     drop_bit 4 (word_of_int (0xE0 OR l) :: 8 word) = 14 \<and> word_of_int (0xE0 OR l) AND 15 = (word_of_int l :: 8 word)"
  "\<forall>l \<in> set [0..7]. drop_bit 7 (word_of_int (0xF0 OR l) :: 8 word) \<noteq> 0 \<and> drop_bit 5 (word_of_int (0xF0 OR l) :: 8 word) \<noteq> 6 \<and>
     drop_bit 4 (word_of_int (0xF0 OR l) :: 8 word) \<noteq> 14 \<and> drop_bit 3 (word_of_int (0xF0 OR l) :: 8 word) = 30 \<and>
     word_of_int (0xF0 OR l) AND 7 = (word_of_int l :: 8 word)"
  "\<forall>l \<in> set [0..63]. drop_bit 6 (word_of_int (0x80 OR l) :: 8 word) = 2 \<and> word_of_int (0x80 OR l) AND 63 = (word_of_int l :: 8 word)"
  by code_simp+

lemma and_mask_range: "i AND mask k \<in> set [0..2 ^ k - 1 :: int]"
  by (simp add: take_bit_eq_mask[symmetric])

lemma ldb_ranges:
  "i AND mask 5 \<in> set [0..31 :: int]" "i AND mask 4 \<in> set [0..15 :: int]"
  "i AND mask 3 \<in> set [0..7 :: int]" "i AND mask 6 \<in> set [0..63 :: int]"
  using and_mask_range[of i 5] and_mask_range[of i 4] and_mask_range[of i 3] and_mask_range[of i 6] by simp_all

lemmas utf8_fields = utf8_heads(1)[THEN bspec[OF _ ldb_ranges(1)]] utf8_heads(2)[THEN bspec[OF _ ldb_ranges(2)]]
  utf8_heads(3)[THEN bspec[OF _ ldb_ranges(3)]] utf8_heads(4)[THEN bspec[OF _ ldb_ranges(4)]]

lemma reads_continuation:
  "reads n (read_continuation_byte rt) [word_of_int (0x80 OR (i AND mask 6))] (ld_return (word_of_int (i AND mask 6)))"
  unfolding read_continuation_byte_def
  by (rule value_last[OF reads_u8]) (simp only: utf8_fields if_True simp_thms)

lemma low_characters: "0 \<le> i \<Longrightarrow> i < 128 \<Longrightarrow> drop_bit 7 (word_of_int i :: 8 word) = 0"
proof -
  assume "0 \<le> i" "i < 128"
  then have i: "take_bit 7 i = i" by (simp add: take_bit_int_eq_self)
  have "drop_bit 7 (word_of_int (take_bit 7 i) :: 8 word) = 0" by (rule bit_word_eqI) (simp add: bit_simps)
  then show ?thesis by (simp only: i)
qed

lemma join_field:
  assumes "m \<le> 8"
  shows "push_bit k (ucast (word_of_int (drop_bit k i AND mask m) :: 8 word)) OR word_of_int (take_bit k i)
    = (word_of_int (take_bit (k + m) i) :: 'a::len word)"
proof (rule bit_word_eqI)
  fix j assume "j < LENGTH('a)"
  then show "bit (push_bit k (ucast (word_of_int (drop_bit k i AND mask m) :: 8 word)) OR word_of_int (take_bit k i) :: 'a word) j
    = bit (word_of_int (take_bit (k + m) i) :: 'a word) j"
    using assms by (cases "j < k") (auto simp: bit_simps)
qed

lemma first_field: "ucast (word_of_int (i AND mask 6) :: 8 word) = (word_of_int (take_bit 6 i) :: 32 word)"
  using join_field[of 6 0 i, where 'a = 32] by simp

lemma fields_fit: "0 \<le> i \<Longrightarrow> i < 2 ^ k \<Longrightarrow> (word_of_int (take_bit k i) :: 'a::len word) = word_of_int i"
  by (simp add: take_bit_int_eq_self)

lemma join_fields:
  assumes "0 \<le> i"
  shows "i < 0x800 \<Longrightarrow> push_bit 6 (ucast (word_of_int (drop_bit 6 i AND mask 5) :: 8 word)) OR ucast (word_of_int (i AND mask 6) :: 8 word)
     = (word_of_int i :: 32 word)"
  and "i < 0x10000 \<Longrightarrow> push_bit 12 (ucast (word_of_int (drop_bit 12 i AND mask 4) :: 8 word)) OR
     push_bit 6 (ucast (word_of_int (drop_bit 6 i AND mask 6) :: 8 word)) OR ucast (word_of_int (i AND mask 6) :: 8 word)
     = (word_of_int i :: 32 word)"
  and "i < 0x110000 \<Longrightarrow> push_bit 18 (ucast (word_of_int (drop_bit 18 i AND mask 3) :: 8 word)) OR
     push_bit 12 (ucast (word_of_int (drop_bit 12 i AND mask 6) :: 8 word)) OR
     push_bit 6 (ucast (word_of_int (drop_bit 6 i AND mask 6) :: 8 word)) OR ucast (word_of_int (i AND mask 6) :: 8 word)
     = (word_of_int i :: 32 word)"
  using assms join_field[of 5 6 i, where 'a = 32] join_field[of 6 6 i, where 'a = 32] join_field[of 4 12 i, where 'a = 32]
    join_field[of 6 12 i, where 'a = 32] join_field[of 3 18 i, where 'a = 32]
    fields_fit[of i 11, where 'a = 32] fields_fit[of i 16, where 'a = 32] fields_fit[of i 21, where 'a = 32]
  by (simp_all only: first_field) simp_all

lemma reads_character:
  assumes "write_utf8_codepoint (uint c) = Some bs"
  shows "reads n (read_utf8 rt) bs (ld_return c)"
proof -
  let ?i = "uint c"
  have byte: "reads n (ld_bind (read_u8 rt) f) (b # cs) m'" if "reads n (f b) cs m'" for f b cs m'
    using reads_value[where f = f, OF reads_u8 that] by simp
  have cont: "reads n (ld_bind (read_continuation_byte rt) f) (word_of_int (0x80 OR (i AND mask 6)) # cs) m'"
    if "reads n (f (word_of_int (i AND mask 6))) cs m'" for f i cs m'
    using reads_value[where f = f, OF reads_continuation that] by simp
  have self: "(word_of_int ?i :: 32 word) = c" by simp
  consider "?i < 0x80" | "\<not> ?i < 0x80" "?i < 0x800" | "\<not> ?i < 0x80" "\<not> ?i < 0x800" "?i < 0x10000"
    | "\<not> ?i < 0x80" "\<not> ?i < 0x800" "\<not> ?i < 0x10000" "?i < 0x110000"
    using assms by (auto simp: write_utf8_codepoint_def split: if_splits)
  then show ?thesis
  proof cases
    case 1
    then have b: "bs = [word_of_int ?i]" using assms by (simp add: write_utf8_codepoint_def)
    have u: "(ucast (word_of_int ?i :: 8 word) :: 32 word) = c"
      using low_byte[of ?i, where 'a = 32] 1 by (simp add: take_bit_int_eq_self)
    show ?thesis unfolding b read_utf8_def
      by (rule byte) (simp only: low_characters[OF uint_ge_0 1] u if_True simp_thms reads_nothing)
  next
    case 2
    then have b: "bs = [word_of_int (0xC0 OR (drop_bit 6 ?i AND mask 5)), word_of_int (0x80 OR (drop_bit 0 ?i AND mask 6))]"
      using assms by (simp add: write_utf8_codepoint_def)
    show ?thesis unfolding b read_utf8_def
      by (rule byte, simp only: utf8_fields if_True if_False simp_thms, rule cont)
        (simp only: drop_bit_0 id_apply join_fields(1)[OF uint_ge_0 2(2)] self reads_nothing)
  next
    case 3
    then have b: "bs = [word_of_int (0xE0 OR (drop_bit 12 ?i AND mask 4)), word_of_int (0x80 OR (drop_bit 6 ?i AND mask 6)),
        word_of_int (0x80 OR (drop_bit 0 ?i AND mask 6))]"
      using assms by (simp add: write_utf8_codepoint_def)
    show ?thesis unfolding b read_utf8_def
      by (rule byte, simp only: utf8_fields if_True if_False simp_thms, rule cont, rule cont)
        (simp only: drop_bit_0 id_apply join_fields(2)[OF uint_ge_0 3(3)] self reads_nothing)
  next
    case 4
    then have b: "bs = [word_of_int (0xF0 OR (drop_bit 18 ?i AND mask 3)), word_of_int (0x80 OR (drop_bit 12 ?i AND mask 6)),
        word_of_int (0x80 OR (drop_bit 6 ?i AND mask 6)), word_of_int (0x80 OR (drop_bit 0 ?i AND mask 6))]"
      using assms by (simp add: write_utf8_codepoint_def)
    show ?thesis unfolding b read_utf8_def
      by (rule byte, simp only: utf8_fields if_True if_False simp_thms, rule cont, rule cont, rule cont)
        (simp only: drop_bit_0 id_apply join_fields(3)[OF uint_ge_0 4(4)] self reads_nothing)
  qed
qed

section \<open>Bits\<close>

lemma bit_pack:
  "length xs \<le> s + 1 \<Longrightarrow> set xs \<subseteq> {0, 1} \<Longrightarrow>
   bit (pack_bits 1 s xs) m \<longleftrightarrow> m \<le> s \<and> s - m < length xs \<and> xs ! (s - m) = 1"
proof (induction xs arbitrary: s)
  case (Cons x xs)
  have x: "bit (push_bit s x) m \<longleftrightarrow> m = s \<and> x = 1" using Cons.prems(2) by (auto simp: bit_simps)
  show ?case
  proof (cases s)
    case 0
    then show ?thesis using Cons.prems x by (auto simp: bit_or_iff)
  next
    case (Suc t)
    then show ?thesis using Cons.IH[of t] Cons.prems x
      by (cases "m = s") (auto simp: bit_or_iff Suc_diff_le le_Suc_eq)
  qed
qed simp

lemma sub_bit_packed:
  assumes "length xs \<le> 8" "set xs \<subseteq> {0, 1}" "j < length xs"
  shows "uint (sub_bits 1 (word_of_int (pack_bits 1 7 xs)) j) = xs ! j"
proof -
  have j: "j < 8" using assms by simp
  have "sub_bits 1 (word_of_int (pack_bits 1 7 xs)) j = (of_bool (bit (pack_bits 1 7 xs) (7 - j)) :: 8 word)"
    by (rule bit_word_eqI) (use j in \<open>auto simp: sub_bits_def Let_def bit_simps\<close>)
  also have "bit (pack_bits 1 7 xs) (7 - j) \<longleftrightarrow> xs ! j = 1" using bit_pack[of xs 7 "7 - j"] assms j by simp
  finally have "uint (sub_bits 1 (word_of_int (pack_bits 1 7 xs)) j) = of_bool (xs ! j = 1)" by simp
  moreover have "xs ! j \<in> {0, 1}" using assms by (meson nth_mem subset_iff)
  ultimately show ?thesis by auto
qed

lemma ld_for_map: "ld_for (map h xs) f = ld_for xs (\<lambda>x. f (h x))"
  by (induction xs) simp_all

lemma ld_for_append: "ld_for (xs @ ys) f = ld_bind (ld_for xs f) (\<lambda>_. ld_for ys f)"
  by (induction xs) (simp_all add: ld_bind_assoc)

lemma ld_for_cong: "xs = ys \<Longrightarrow> (\<And>x. x \<in> set ys \<Longrightarrow> f x = g x) \<Longrightarrow> ld_for xs f = ld_for ys g"
proof (induction ys arbitrary: xs)
  case (Cons y ys)
  then show ?case by simp
qed simp

text \<open>A byte holds up to eight elements.\<close>

abbreviation "bit_elem e \<equiv> e = E_int 0 \<or> e = E_int 1"

definition unpack_bits :: "('v, 'w) runtime \<Rightarrow> 'v \<Rightarrow> nat \<Rightarrow> nat \<Rightarrow> ('v, 'w, unit) ld" where
  "unpack_bits rt arr index k = ld_bind (read_u8 rt) (\<lambda>byte. ld_for [0..<k] (\<lambda>j.
     effect rt (Set_element arr (index + j) (E_int (uint (sub_bits 1 byte j))))))"

definition bit_byte :: "elem list \<Rightarrow> 8 word" where
  "bit_byte es = word_of_int (pack_bits 1 7 (map elem_value es))"

definition store_elems :: "('v, 'w) runtime \<Rightarrow> 'v \<Rightarrow> elem list \<Rightarrow> nat list \<Rightarrow> ('v, 'w, unit) ld" where
  "store_elems rt arr es is = ld_for is (\<lambda>i. effect rt (Set_element arr i (es ! i)))"

lemma steady_store [steady_intros]: "steady (store_elems rt arr es is)"
  unfolding store_elems_def by (intro steady_intros)

lemma reads_byte_of_bits:
  assumes es: "\<forall>e \<in> set es. bit_elem e" and k: "k \<le> 8" "b + k \<le> length es"
  shows "reads n (unpack_bits rt arr b k) [bit_byte (take k (drop b es))] (store_elems rt arr es (map ((+) b) [0..<k]))"
  unfolding unpack_bits_def store_elems_def ld_for_map
proof (rule value_last[OF reads_u8], rule ld_for_cong[OF refl])
  fix j assume "j \<in> set [0..<k]"
  then have j: "j < k" by simp
  let ?xs = "map elem_value (take k (drop b es))"
  have l: "length ?xs = k" using k by simp
  have "set ?xs \<subseteq> {0, 1}" using es by (fastforce dest: in_set_takeD in_set_dropD)
  then have "uint (sub_bits 1 (bit_byte (take k (drop b es))) j) = ?xs ! j"
    unfolding bit_byte_def using sub_bit_packed[of ?xs j] l j k by (simp only:)
  moreover have "?xs ! j = elem_value (es ! (b + j))" "bit_elem (es ! (b + j))" using es j k by simp_all
  ultimately show "effect rt (Set_element arr (b + j) (es ! (b + j))) =
      effect rt (Set_element arr (b + j) (E_int (uint (sub_bits 1 (bit_byte (take k (drop b es))) j))))"
    by auto
qed

lemma upt_from: "map ((+) b) [0..<k] = [b..<b + k]"
  by (induction k) simp_all

lemma reads_full_bytes:
  assumes es: "\<forall>e \<in> set es. bit_elem e" and m: "8 * m \<le> length es"
  shows "reads n (ld_for [0..<m] (\<lambda>b. unpack_bits rt arr (8 * b) 8)) (map (\<lambda>b. bit_byte (take 8 (drop (8 * b) es))) [0..<m])
    (store_elems rt arr es [0..<8 * m])"
  using m
proof (induction m)
  case (Suc m)
  have "reads n (unpack_bits rt arr (8 * m) 8) [bit_byte (take 8 (drop (8 * m) es))] (store_elems rt arr es (map ((+) (8 * m)) [0..<8]))"
    by (rule reads_byte_of_bits[OF es]) (use Suc.prems in simp_all)
  moreover have "map ((+) (8 * m)) [0..<8] = [8 * m..<8 * Suc m]" using upt_from[of "8 * m" 8] by (simp add: add.commute)
  ultimately have last: "reads n (unpack_bits rt arr (8 * m) 8) [bit_byte (take 8 (drop (8 * m) es))] (store_elems rt arr es [8 * m..<8 * Suc m])"
    by (simp only:)
  have upt: "[0..<8 * Suc m] = [0..<8 * m] @ [8 * m..<8 * Suc m]" using upt_add_eq_append[of 0 "8 * m" 8] by (simp add: add.commute)
  have "reads n (ld_bind (ld_for [0..<m] (\<lambda>b. unpack_bits rt arr (8 * b) 8)) (\<lambda>_. unpack_bits rt arr (8 * m) 8))
      (map (\<lambda>b. bit_byte (take 8 (drop (8 * b) es))) [0..<m] @ [bit_byte (take 8 (drop (8 * m) es))])
      (ld_bind (store_elems rt arr es [0..<8 * m]) (\<lambda>_. store_elems rt arr es [8 * m..<8 * Suc m]))"
    by (rule reads_bind) (use Suc.IH Suc.prems last in \<open>simp_all add: steady_intros\<close>)
  then show ?case unfolding upt store_elems_def ld_for_append by (simp add: ld_for_append)
qed (simp add: reads_nothing store_elems_def)

lemma reads_bits:
  assumes bs: "write_sub_byte 1 (map elem_value es) = Some bs" and es: "\<forall>e \<in> set es. bit_elem e"
  shows "reads n (fill_sub_byte rt arr (length es) 1) bs (store_elems rt arr es [0..<length es])"
proof -
  let ?m = "length es div 8" and ?r = "length es mod 8"
  have lens: "8 * ?m + ?r = length es" by simp
  have fill: "fill_sub_byte rt arr (length es) 1 = ld_bind (ld_for [0..<?m] (\<lambda>b. unpack_bits rt arr (8 * b) 8))
      (\<lambda>_. if ?r \<noteq> 0 then unpack_bits rt arr (8 * ?m) ?r else ld_return ())"
    unfolding fill_sub_byte_def unpack_bits_def Let_def by (simp del: One_nat_def)
  note full = reads_full_bytes[OF es, of ?m n rt arr]
  show ?thesis
  proof (cases "?r = 0")
    case True
    then have "bs = map (\<lambda>b. bit_byte (take 8 (drop (8 * b) es))) [0..<?m]"
      using bs by (simp add: write_sub_byte_def bit_byte_def Let_def take_map drop_map)
    then show ?thesis using full True lens unfolding fill by (simp add: ld_bind_return_right[unfolded ld_return_def])
  next
    case False
    then have b: "bs = map (\<lambda>b. bit_byte (take 8 (drop (8 * b) es))) [0..<?m] @ [bit_byte (take ?r (drop (8 * ?m) es))]"
      using bs by (simp add: write_sub_byte_def bit_byte_def Let_def take_map drop_map split: if_splits)
    have "reads n (unpack_bits rt arr (8 * ?m) ?r) [bit_byte (take ?r (drop (8 * ?m) es))] (store_elems rt arr es (map ((+) (8 * ?m)) [0..<?r]))"
      by (rule reads_byte_of_bits[OF es]) simp_all
    moreover have "map ((+) (8 * ?m)) [0..<?r] = [8 * ?m..<length es]" using upt_from[of "8 * ?m" ?r] lens by (simp only:)
    ultimately have last: "reads n (unpack_bits rt arr (8 * ?m) ?r) [bit_byte (take ?r (drop (8 * ?m) es))] (store_elems rt arr es [8 * ?m..<length es])"
      by (simp only:)
    have upt: "[0..<length es] = [0..<8 * ?m] @ [8 * ?m..<length es]" using upt_add_eq_append[of 0 "8 * ?m" ?r] lens by simp
    have "reads n (fill_sub_byte rt arr (length es) 1) bs
        (ld_bind (store_elems rt arr es [0..<8 * ?m]) (\<lambda>_. store_elems rt arr es [8 * ?m..<length es]))"
      unfolding fill b by (rule reads_bind) (use False full last in \<open>simp_all add: steady_intros\<close>)
    then show ?thesis using upt by (simp add: store_elems_def ld_for_append)
  qed
qed

lemma store_zip: "ld_for (zip [0..<length es] es) (\<lambda>(i, e). effect rt (Set_element arr i e)) = store_elems rt arr es [0..<length es]"
proof -
  have "zip [0..<length es] es = map (\<lambda>i. (i, es ! i)) [0..<length es]" by (rule nth_equalityI) simp_all
  then show ?thesis by (simp add: ld_for_map store_elems_def)
qed

section \<open>The whole array\<close>

lemma element_rules:
  "c < 256 \<Longrightarrow> reads n (ld_bind (read_u8 rt) (\<lambda>b. ld_return (E_char (ucast b)))) (write_b 1 (uint c)) (ld_return (E_char c))"
  "reads n (ld_bind (read_u32 rt) (\<lambda>w. ld_return (E_single w))) (write_b 4 (uint w4)) (ld_return (E_single w4))"
  "reads n (ld_bind (read_u64 rt) (\<lambda>w. ld_return (E_double w))) (write_b 8 (uint w8)) (ld_return (E_double w8))"
  "0 \<le> i \<Longrightarrow> i < 2 ^ 8 \<Longrightarrow> reads n (ld_bind (read_u8 rt) (\<lambda>w. ld_return (E_int (uint w)))) (write_b 1 i) (ld_return (E_int i))"
  "0 \<le> i \<Longrightarrow> i < 2 ^ 16 \<Longrightarrow> reads n (ld_bind (read_u16 rt) (\<lambda>w. ld_return (E_int (uint w)))) (write_b 2 i) (ld_return (E_int i))"
  "0 \<le> i \<Longrightarrow> i < 2 ^ 32 \<Longrightarrow> reads n (ld_bind (read_u32 rt) (\<lambda>w. ld_return (E_int (uint w)))) (write_b 4 i) (ld_return (E_int i))"
  "0 \<le> i \<Longrightarrow> i < 2 ^ 64 \<Longrightarrow> reads n (ld_bind (read_u64 rt) (\<lambda>w. ld_return (E_int (uint w)))) (write_b 8 i) (ld_return (E_int i))"
  "- (2 ^ 7) \<le> i \<Longrightarrow> i < 2 ^ 7 \<Longrightarrow> reads n (ld_bind (read_s8 rt) (\<lambda>i. ld_return (E_int i))) (write_b 1 i) (ld_return (E_int i))"
  "- (2 ^ 15) \<le> i \<Longrightarrow> i < 2 ^ 15 \<Longrightarrow> reads n (ld_bind (read_s16 rt) (\<lambda>i. ld_return (E_int i))) (write_b 2 i) (ld_return (E_int i))"
  "- (2 ^ 31) \<le> i \<Longrightarrow> i < 2 ^ 31 \<Longrightarrow> reads n (ld_bind (read_s32 rt) (\<lambda>i. ld_return (E_int i))) (write_b 4 i) (ld_return (E_int i))"
  "- (2 ^ 63) \<le> i \<Longrightarrow> i < 2 ^ 63 \<Longrightarrow> reads n (ld_bind (read_s64 rt) (\<lambda>i. ld_return (E_int i))) (write_b 8 i) (ld_return (E_int i))"
proof -
  show "reads n (ld_bind (read_u8 rt) (\<lambda>b. ld_return (E_char (ucast b)))) (write_b 1 (uint c)) (ld_return (E_char c))" if "c < 256"
  proof (rule value_last[OF reads_b1])
    have "uint c < 256" using that by (simp add: word_less_def)
    then have "ucast (word_of_int (uint c) :: 8 word) = (word_of_int (uint c) :: 32 word)"
      unfolding low_byte by (simp add: take_bit_int_eq_self)
    then show "ld_return (E_char c) = ld_return (E_char (ucast (word_of_int (uint c) :: 8 word)))" by simp
  qed
qed (rule value_last, rule reads_word reads_b1 reads_b2 reads_b4 reads_b8 reads_s8 reads_s16 reads_s32 reads_s64;
    simp add: uint_word_of_int_id)+

lemma reads_set_elems:
  assumes "list_all (elem_fits p) es" "p \<noteq> U_nil" "p \<noteq> U_t" "\<And>e. elem_fits p e \<Longrightarrow> reads n m (w e) (ld_return e)"
  shows "reads n (read_array rt arr (length es) m) (concat (map w es)) (set_elems rt arr p es)"
  using reads_elements[of es n m w] assms by (simp add: set_elems_def list_all_iff)

lemma no_sub_byte: "elem_fits U_ub2 e \<longleftrightarrow> False" "elem_fits U_ub4 e \<longleftrightarrow> False"
  by (cases e; simp)+

lemma reads_fill:
  assumes bs: "write_elems packing es = Some bs" and es: "list_all (elem_fits packing) es" and p: "packing \<noteq> U_nil" "packing \<noteq> U_t"
  shows "reads n (fill_array rt arr (length es) (word_of_int (uaet_code packing))) bs (set_elems rt arr packing es)"
proof -
  have fit: "elem_fits packing e" if "e \<in> set es" for e using es that by (simp add: list_all_iff)
  have as_elem: "reads n (ld_bind m (\<lambda>x. ld_return (f x))) b (ld_return e)" if "reads n m b (ld_return x)" "f x = e"
    for m :: "('a, 'b, 'c) ld" and f :: "'c \<Rightarrow> elem" and b x e
    using reads_map[OF that(1), of f] that(2) by simp
  show ?thesis
  proof (cases packing)
    case U_bit
    have "\<forall>e \<in> set es. bit_elem e" using fit U_bit by (metis elem_fits.simps elem.exhaust)
    then show ?thesis using reads_bits bs U_bit
      by (simp add: fill_array_def set_elems_def store_zip write_elems_def del: One_nat_def)
  next
    case U_character
    then have w: "bs = concat (map (\<lambda>e. the (write_utf8_codepoint (elem_value e))) es)"
      "\<forall>e \<in> set es. write_utf8_codepoint (elem_value e) = Some (the (write_utf8_codepoint (elem_value e)))"
      using bs write_all_map[of "\<lambda>e. write_utf8_codepoint (elem_value e)" es bs] by (auto simp: write_elems_def)
    have r: "reads n (ld_bind (read_utf8 rt) (\<lambda>c. ld_return (E_char c))) (the (write_utf8_codepoint (elem_value e))) (ld_return e)"
      if e: "e \<in> set es" for e
    proof -
      obtain c where c: "e = E_char c" using fit[OF e] U_character by (cases e) auto
      have "write_utf8_codepoint (uint c) = Some (the (write_utf8_codepoint (elem_value e)))" using w(2) e c by auto
      from reads_character[OF this] show ?thesis by (rule as_elem) (simp add: c)
    qed
    show ?thesis using reads_elements[of es, OF r, of rt arr] U_character w(1)
      by (simp add: fill_array_def set_elems_def)
  next
    case U_ub2
    then have "es = []" using fit by (cases es) (auto simp: no_sub_byte)
    then show ?thesis using bs U_ub2 by (auto simp: write_elems_def write_sub_byte_def fill_array_def fill_sub_byte_def set_elems_def reads_nothing)
  next
    case U_ub4
    then have "es = []" using fit by (cases es) (auto simp: no_sub_byte)
    then show ?thesis using bs U_ub4 by (auto simp: write_elems_def write_sub_byte_def fill_array_def fill_sub_byte_def set_elems_def reads_nothing)
  qed (use bs es p in \<open>auto simp: write_elems_def fill_array_def simp del: One_nat_def
      intro!: reads_set_elems element_rules elim!: elem_fits.elims(2)\<close>)
qed

lemma reads_array:
  assumes fits: "fits n (W_array u packing dims es)" and bs: "encode n (W_array u packing dims es) = Some bs"
  shows "reads n (load_instruction rt) bs (exec rt (W_array u packing dims es))"
proof -
  obtain d e where d: "write_dimensions dims = Some d" and e: "write_elems packing es = Some e"
    and b: "bs = write_b 1 74 @ write_b 1 (uaet_code u) @ write_b 1 (uaet_code packing) @ d @ e"
    using bs by (cases "write_dimensions dims"; cases "write_elems packing es") auto
  have p: "prod_list dims < 65536" using d by (auto simp: write_dimensions_def split: if_splits)
  have dims: "array_total (map of_nat dims) = of_nat (prod_list dims)"
    using array_total_product fits by (simp add: array_fits_def)
  then have t: "unat (array_total (map of_nat dims)) = prod_list dims"
    using p by (simp add: unsigned_of_nat take_bit_nat_eq_self)
  have fill: "reads n (fill_array rt arr (prod_list dims) (word_of_int (uaet_code packing))) e (set_elems rt arr packing es)" for arr
  proof (cases "packing = U_nil \<or> packing = U_t")
    case True
    then have "e = []" using e by (auto simp: write_elems_def)
    then show ?thesis using True by (auto simp: fill_array_def set_elems_def reads_nothing)
  next
    case False
    then show ?thesis using reads_fill[OF e] fits by (auto simp: array_fits_def)
  qed
  have "reads n (op_array rt) (write_b 1 (uaet_code u) @ write_b 1 (uaet_code packing) @ d @ e) (exec rt (W_array u packing dims es))"
    unfolding op_array_def exec.simps
    by (rule reads_then[OF steady_next_index], rule bind_byte, simp only: decode_encoded_uaet sum.case,
        rule bind_byte, rule reads_dimensions[OF d], rule reads_then[OF steady_make_array], rule reads_then[OF steady_set_ltv])
      (simp only: t fill)
  then show ?thesis unfolding b by (rule reads_opcode)
qed

end
