(* ===== verification/FaslSystem.thy ===== *)
theory FaslSystem
  imports FaslArrays
begin

text \<open>
  Files: what the writer writes, alone or linked with others, loads as its instructions
  executed one after the other.
\<close>

section \<open>Instructions\<close>

lemma load_encoded:
  assumes fits: "fits n i" and bs: "encode n i = Some bs" and n: "index_bytes s = n" and named: "named_right rt i s"
  shows "load_instruction rt (s\<lparr>input := bs @ input s\<rparr>) = exec rt i s"
proof (cases "\<exists>k a. i = W_attribute k a")
  case True
  then show ?thesis using load_attribute[of n _ _ rt s bs "input s"] assms by auto
next
  case False
  have "reads n (load_instruction rt) bs (exec rt i)"
  proof (cases "plain_operands i")
    case True
    then show ?thesis by (rule reads_operands[OF fits bs])
  next
    case False
    with fits bs \<open>\<not> (\<exists>k a. i = W_attribute k a)\<close> show ?thesis
      by (cases i) (auto simp del: exec.simps encode.simps fits.simps
          intro: reads_array reads_setf_aref reads_hash_table reads_sb64 reads_module reads_bignum)
  qed
  then show ?thesis using n by (simp add: reads_def)
qed

text \<open>The texts of the names of the attributes, along the execution.\<close>

fun named_along :: "('v, 'w) runtime \<Rightarrow> instruction list \<Rightarrow> ('v, 'w) loader \<Rightarrow> bool" where
  "named_along rt [] s = True"
| "named_along rt (i # is) s =
     (named_right rt i s \<and> (case exec rt i s of Inl _ \<Rightarrow> True | Inr (_, s') \<Rightarrow> named_along rt is s'))"

lemma exec_input: "exec rt i (s\<lparr>input := x\<rparr>) = (case exec rt i s of Inl e \<Rightarrow> Inl e | Inr (a, s') \<Rightarrow> Inr (a, s'\<lparr>input := x\<rparr>))"
  using steady_exec[of rt i] by (simp add: steady_def)

lemma load_instructions:
  assumes "list_all (fits n) is" "write_all (map (encode n) is) = Some bs" "index_bytes s = n" "named_along rt is s"
  shows "ld_for is (\<lambda>_. load_instruction rt) (s\<lparr>input := bs @ r\<rparr>) = ld_for is (exec rt) (s\<lparr>input := r\<rparr>)"
  using assms
proof (induction "is" arbitrary: bs s)
  case (Cons i "is")
  obtain b cs where b: "encode n i = Some b" and cs: "write_all (map (encode n) is) = Some cs" and bs: "bs = b @ cs"
    using Cons.prems(2) by (cases "encode n i") auto
  have step: "load_instruction rt (s\<lparr>input := bs @ r\<rparr>) = exec rt i (s\<lparr>input := cs @ r\<rparr>)"
    using load_encoded[of n i b "s\<lparr>input := cs @ r\<rparr>" rt] Cons.prems b bs by (cases i) (auto simp: get_as_input split: sum.splits)
  show ?case
  proof (cases "exec rt i s")
    case (Inl e)
    then show ?thesis by (simp add: ld_bind_def step exec_input)
  next
    case (Inr p)
    obtain a s' where p: "p = (a, s')" by (cases p)
    have "index_bytes s' = n" using steady_exec[of rt i] Inr p Cons.prems(3) by (auto simp: steady_def)
    then have "ld_for is (\<lambda>_. load_instruction rt) (s'\<lparr>input := cs @ r\<rparr>) = ld_for is (exec rt) (s'\<lparr>input := r\<rparr>)"
      using Cons.IH[OF _ cs] Cons.prems Inr p by simp
    then show ?thesis using Inr p by (simp add: ld_bind_def step exec_input)
  qed
qed simp

section \<open>The number of bytes of an index\<close>

lemma integer_length_le: "integer_length n \<le> k \<longleftrightarrow> n < 2 ^ k"
proof (induction n arbitrary: k rule: integer_length.induct)
  case (1 n)
  show ?case
  proof (cases "n = 0")
    case False
    then have l: "integer_length n = 1 + integer_length (n div 2)" by (subst integer_length.simps) simp
    show ?thesis
    proof (cases k)
      case (Suc j)
      then show ?thesis using 1[OF False, of j] l by auto
    qed (use False l in simp)
  qed simp
qed

lemma index_widths_agree:
  assumes "0 < nobjs" "nobjs < 2 ^ 32"
  shows "writer_index_bytes nobjs = index_width (of_nat nobjs) \<longleftrightarrow> nobjs < 2 ^ 24"
proof -
  have u: "unat (of_nat nobjs :: 64 word) = nobjs" using assms(2) by (simp add: unsigned_of_nat take_bit_nat_eq_self)
  let ?l = "integer_length nobjs"
  have "?l \<noteq> 0" using integer_length_le[of nobjs 0] assms(1) by simp
  moreover have "?l \<le> 32" using integer_length_le[of nobjs 32] assms(2) by simp
  moreover have "?l \<le> 8 \<longleftrightarrow> nobjs < 256" "?l \<le> 16 \<longleftrightarrow> nobjs < 65536" "?l \<le> 24 \<longleftrightarrow> nobjs < 2 ^ 24"
    using integer_length_le[of nobjs 8] integer_length_le[of nobjs 16] integer_length_le[of nobjs 24] by simp_all
  ultimately have c: "ceiling_div ?l 8 = (if nobjs < 256 then 1 else if nobjs < 65536 then 2 else if nobjs < 2 ^ 24 then 3 else 4)"
    unfolding ceiling_div_def by (auto simp: div_nat_eqI)
  have "index_width (of_nat nobjs) = (if nobjs < 256 then 1 else if nobjs < 65536 then 2 else 4)"
    using assms(2) by (auto simp: index_width_def word_le_nat_alt u)
  then show ?thesis unfolding writer_index_bytes_def Let_def c by auto
qed

end
