(* ===== verification/FaslTable.thy ===== *)
theory FaslTable
  imports FaslSystem
begin

text \<open>
  The table of objects: an instruction that creates an object gives it the next number, and
  no other instruction changes the table.
\<close>

definition quiet :: "('v, 'w, 'a) ld \<Rightarrow> bool" where
  "quiet m \<longleftrightarrow> (\<forall>s a s'. m s = Inr (a, s') \<longrightarrow> literals s' = literals s \<and> next_object s' = next_object s)"

named_theorems quiet_intros "actions that leave the table"

lemma quiet_return [quiet_intros]: "quiet (ld_return a)"
  by (simp add: quiet_def ld_return_def)

lemma quiet_bind [quiet_intros]:
  assumes "quiet m" "\<And>a. quiet (f a)"
  shows "quiet (ld_bind m f)"
  unfolding quiet_def
proof (intro allI impI)
  fix s b s' assume "ld_bind m f s = Inr (b, s')"
  then obtain a t where "m s = Inr (a, t)" "f a t = Inr (b, s')" by (auto simp: ld_bind_def split: sum.splits)
  then show "literals s' = literals s \<and> next_object s' = next_object s" using assms unfolding quiet_def by metis
qed

lemma quiet_call [quiet_intros]: "quiet (call rt c)"
  by (auto simp: quiet_def call_def split: sum.splits)

lemma quiet_effect [quiet_intros]: "quiet (effect rt c)"
  unfolding effect_def by (intro quiet_intros)

lemma quiet_as_type [quiet_intros]: "quiet (as_type rt t v)"
  by (auto simp: quiet_def as_type_def split: if_splits)

lemma quiet_when_type [quiet_intros]: "quiet m \<Longrightarrow> quiet (when_type rt t v m)"
  by (auto simp: quiet_def when_type_def split: if_splits)

lemma quiet_get_ltv [quiet_intros]: "quiet (get_ltv i)"
  by (auto simp: quiet_def get_ltv_def split: sum.splits)

lemma quiet_get_as [quiet_intros]: "quiet (get_as rt t i)"
  unfolding get_as_def by (intro quiet_intros)

lemma quiet_for [quiet_intros]: "(\<And>i. quiet (f i)) \<Longrightarrow> quiet (ld_for is f)"
  by (induction "is") (auto intro: quiet_intros)

lemma quiet_map [quiet_intros]: "(\<And>i. quiet (f i)) \<Longrightarrow> quiet (ld_map f is)"
  by (induction "is") (auto intro: quiet_intros)

lemma quiet_make_array [quiet_intros]: "quiet (make_array rt dims u)"
  unfolding make_array_def by (simp add: quiet_intros)

lemma quiet_set_elems [quiet_intros]: "quiet (set_elems rt arr p es)"
  unfolding set_elems_def by (auto intro!: quiet_intros)

lemma quiet_exec_info [quiet_intros]: "quiet (exec_info rt i)"
  by (cases i) (auto intro!: quiet_intros)

lemma quiet_exec_attribute [quiet_intros]: "quiet (exec_attribute rt a)"
  by (cases a) (auto intro!: quiet_intros)

section \<open>Numbering\<close>

text \<open>\<open>numbers m\<close>: \<open>m\<close> gives the next number to one object.\<close>

definition numbers :: "('v, 'w, 'a) ld \<Rightarrow> bool" where
  "numbers m \<longleftrightarrow> (\<forall>s a s'. m s = Inr (a, s') \<longrightarrow> next_object s' = next_object s + 1 \<and>
     next_object s < length (literals s) \<and> (\<exists>v. literals s' = (literals s)[next_object s := Some v]))"

lemma numbers_array:
  assumes "quiet m" "\<And>v. quiet (f v)"
  shows "numbers (ld_bind next_index (\<lambda>i. ld_bind m (\<lambda>v. ld_bind (set_ltv v i) (\<lambda>_. f v))))"
  unfolding numbers_def
proof (intro allI impI)
  fix s a s' assume "ld_bind next_index (\<lambda>i. ld_bind m (\<lambda>v. ld_bind (set_ltv v i) (\<lambda>_. f v))) s = Inr (a, s')"
  then obtain v t u where m: "m (s\<lparr>next_object := next_object s + 1\<rparr>) = Inr (v, t)"
    and st: "set_ltv v (next_object s) t = Inr ((), u)" and f: "f v u = Inr (a, s')"
    by (auto simp: ld_bind_def next_index_def split: sum.splits)
  have "literals t = literals s" "next_object t = next_object s + 1" using assms(1) m by (auto simp: quiet_def)
  moreover have "literals s' = literals u" "next_object s' = next_object u" using assms(2) f by (auto simp: quiet_def)
  ultimately show "next_object s' = next_object s + 1 \<and> next_object s < length (literals s) \<and>
      (\<exists>v. literals s' = (literals s)[next_object s := Some v])"
    using st by (auto simp: set_ltv_def split: if_splits)
qed

lemma numbers_creating: "quiet m \<Longrightarrow> numbers (creating m)"
proof -
  have "ld_bind m' (\<lambda>_. ld_return ()) = m'" for m' :: "('a, 'b, unit) ld" using ld_bind_return_right[of m'] by (simp add: unit_abs_eta_conv)
  then show "quiet m \<Longrightarrow> numbers (creating m)" for m :: "('a, 'b, 'a) ld"
    using numbers_array[of m "\<lambda>_. ld_return ()"] unfolding creating_def by (simp add: quiet_intros)
qed

lemma exec_numbers: "creatorp i \<Longrightarrow> numbers (exec rt i)"
  by (cases i) (auto intro!: numbers_creating numbers_array quiet_intros)

lemma exec_quiet: "\<not> creatorp i \<Longrightarrow> quiet (exec rt i)"
  by (cases i) (auto intro!: quiet_intros)

text \<open>A file that has been executed has numbered all its objects.\<close>

definition numbered :: "nat \<Rightarrow> ('v, 'w) loader \<Rightarrow> bool" where
  "numbered n s \<longleftrightarrow> next_object s \<le> n \<and> (\<exists>vs. literals s = map Some vs @ replicate (n - next_object s) None \<and> length vs = next_object s)"

lemma exec_numbered:
  assumes "exec rt i s = Inr (a, s')" "numbered n s"
  shows "numbered n s' \<and> next_object s' = next_object s + (if creatorp i then 1 else 0)"
proof (cases "creatorp i")
  case True
  obtain vs where vs: "literals s = map Some vs @ replicate (n - next_object s) None" "length vs = next_object s" "next_object s \<le> n"
    using assms(2) by (auto simp: numbered_def)
  obtain v where v: "literals s' = (literals s)[next_object s := Some v]" "next_object s' = next_object s + 1" "next_object s < length (literals s)"
    using exec_numbers[OF True, of rt] assms(1) by (auto simp: numbers_def)
  have less: "next_object s < n" using v(3) vs by simp
  then have "replicate (n - next_object s) None = None # replicate (n - next_object s - 1) (None :: 'a option)"
    by (cases "n - next_object s") auto
  then have "literals s' = map Some (vs @ [v]) @ replicate (n - next_object s') None"
    using v(1,2) vs by (simp add: list_update_append)
  then show ?thesis unfolding numbered_def using v(2) vs(2) less True by (auto intro!: exI[of _ "vs @ [v]"])
next
  case False
  then show ?thesis using exec_quiet[OF False, of rt] assms by (auto simp: quiet_def numbered_def)
qed

lemma run_numbered:
  "ld_for is (exec rt) s = Inr (a, s') \<Longrightarrow> numbered n s \<Longrightarrow>
   numbered n s' \<and> next_object s' = next_object s + length (filter creatorp is)"
proof (induction "is" arbitrary: s)
  case (Cons i "is")
  then obtain b t where "exec rt i s = Inr (b, t)" "ld_for is (exec rt) t = Inr (a, s')"
    by (auto simp: ld_bind_def split: sum.splits)
  then show ?case using exec_numbered[of rt i s b t n] Cons.IH[of t] Cons.prems(2) by (auto split: if_splits)
qed (simp add: ld_return_def)

lemma first_unbound_all: "first_unbound k (map Some vs) = None"
  by (induction vs arbitrary: k) simp_all

lemma all_numbered: "numbered n s \<Longrightarrow> next_object s = n \<Longrightarrow> check_initialization s = Inr ((), s)"
  by (auto simp: numbered_def check_initialization_def first_unbound_all)

end
