(* ===== verification/FaslFiles.thy ===== *)
theory FaslFiles
  imports FaslTable
begin

text \<open>Headers, and the loading and linking of written files.\<close>

section \<open>Headers\<close>

lemma header_encoded: "header_encode w = write_b 4 0x8d7498b1 @ write_b 2 0 @ write_b 2 14 @ write_b 8 (uint w)"
proof -
  have b: "word_of_int (drop_bit k (uint w)) = (ucast (drop_bit k w) :: 8 word)" for k
    by (rule bit_word_eqI) (simp add: bit_simps)
  show ?thesis
    by (simp add: header_encode_def magic_def bc_version_def write_b_def upt_numeral b)
qed

lemma length_header [simp]: "length (header_encode w) = 16"
  by (simp add: header_encoded)

lemma header_round_trip: "header_decode (header_encode w @ rest) = Inr w"
proof -
  have "push_bit 56 (ucast (ucast (drop_bit 56 w) :: 8 word)) OR push_bit 48 (ucast (ucast (drop_bit 48 w) :: 8 word)) OR
      push_bit 40 (ucast (ucast (drop_bit 40 w) :: 8 word)) OR push_bit 32 (ucast (ucast (drop_bit 32 w) :: 8 word)) OR
      push_bit 24 (ucast (ucast (drop_bit 24 w) :: 8 word)) OR push_bit 16 (ucast (ucast (drop_bit 16 w) :: 8 word)) OR
      push_bit 8 (ucast (ucast (drop_bit 8 w) :: 8 word)) OR push_bit 0 (ucast (ucast w :: 8 word)) = w"
  proof -
    have b: "ucast (drop_bit k w) = (word_of_int (take_bit 8 (drop_bit k (uint w))) :: 8 word)" for k
      by (rule bit_word_eqI) (simp add: bit_simps)
    have c: "(ucast (ucast (drop_bit k w) :: 8 word) :: 64 word) = word_of_int (take_bit 8 (drop_bit k (uint w)))" for k
      by (rule bit_word_eqI) (auto simp: bit_simps)
    show ?thesis
      using word_of_take_bit[where 'a = 64, of "uint w"] c[of 0] by (simp add: c bytes_of_word)
  qed
  then show ?thesis
    by (simp add: header_decode_def header_encode_def header_size_def magic_def bc_version_def version_less_def nth_Cons')
qed

section \<open>Executing files\<close>

abbreviation objects :: "instruction list \<Rightarrow> nat" where
  "objects is \<equiv> length (filter creatorp is)"

definition initial :: "nat \<Rightarrow> 'w \<Rightarrow> ('v, 'w) loader" where
  "initial n w = \<lparr>input = [], literals = replicate n None, index_bytes = index_width (of_nat n), next_object = 0, world = w\<rparr>"

definition run_file :: "('v, 'w) runtime \<Rightarrow> instruction list \<Rightarrow> 'w \<Rightarrow> fasl_error + 'w" where
  "run_file rt is w = (case ld_for is (exec rt) (initial (objects is) w) of Inl e \<Rightarrow> Inl e | Inr (_, s) \<Rightarrow> Inr (world s))"

fun run_files :: "('v, 'w) runtime \<Rightarrow> instruction list list \<Rightarrow> 'w \<Rightarrow> fasl_error + 'w" where
  "run_files rt [] w = Inr w"
| "run_files rt (is # iss) w = bind_res (run_file rt is w) (run_files rt iss)"

definition writable :: "instruction list \<Rightarrow> bool" where
  "writable is \<longleftrightarrow> 0 < objects is \<and> objects is < 2 ^ 24 \<and> list_all (fits (index_width (of_nat (objects is)))) is"

definition attributes_named :: "('v, 'w) runtime \<Rightarrow> instruction list \<Rightarrow> 'w \<Rightarrow> bool" where
  "attributes_named rt is w \<longleftrightarrow> named_along rt is (initial (objects is) w)"

fun files_named :: "('v, 'w) runtime \<Rightarrow> instruction list list \<Rightarrow> 'w \<Rightarrow> bool" where
  "files_named rt [] w = True"
| "files_named rt (is # iss) w =
     (attributes_named rt is w \<and> (case run_file rt is w of Inl _ \<Rightarrow> True | Inr w' \<Rightarrow> files_named rt iss w'))"

text \<open>A written file is a header and a body.\<close>

definition body_of :: "instruction list \<Rightarrow> 8 word list \<Rightarrow> bool" where
  "body_of is body \<longleftrightarrow> (\<exists>bs. write_all (map (encode (index_width (of_nat (objects is)))) is) = Some bs \<and>
     body = write_b 1 99 @ write_b 8 (int (objects is)) @ bs)"

lemma written_file:
  assumes "write_bytecode is = Some file" "writable is" "1 + length is < 2 ^ 64"
  shows "\<exists>body. file = header_encode (of_nat (1 + length is)) @ body \<and> body_of is body"
proof -
  have ib: "writer_index_bytes (objects is) = index_width (of_nat (objects is))"
    using index_widths_agree[of "objects is"] assms(2) by (simp add: writable_def)
  have u: "uint (of_nat (1 + length is) :: 64 word) = int (1 + length is)"
    using assms(3) by (simp only: unsigned_of_nat) (simp add: take_bit_nat_eq_self)
  show ?thesis using assms(1) unfolding write_bytecode_def Let_def ib body_of_def header_encoded u by auto
qed

section \<open>Loading bodies\<close>

abbreviation loads :: "('v, 'w) runtime \<Rightarrow> nat \<Rightarrow> ('v, 'w, unit) ld" where
  "loads rt n \<equiv> ld_for [0..<n] (\<lambda>_. load_instruction rt)"

lemma ld_for_const: "length xs = length ys \<Longrightarrow> ld_for xs (\<lambda>_. m) = ld_for ys (\<lambda>_. m)"
  by (induction xs ys rule: list_induct2) simp_all

lemma loads_append: "loads rt (m + n) = ld_bind (loads rt m) (\<lambda>_. loads rt n)"
proof -
  have "ld_for [m..<m + n] (\<lambda>_. load_instruction rt) = loads rt n" by (rule ld_for_const) simp
  then show ?thesis using upt_add_eq_append[of 0 m n] by (simp add: ld_for_append)
qed

definition ready :: "('v, 'w) loader \<Rightarrow> bool" where
  "ready s \<longleftrightarrow> first_unbound 0 (literals s) = None"

lemma load_init:
  assumes "ready s" "n < 2 ^ 64"
  shows "load_instruction rt (s\<lparr>input := write_b 1 99 @ write_b 8 (int n) @ r\<rparr>) = Inr ((), (initial n (world s))\<lparr>input := r\<rparr>)"
proof -
  have u: "unat (word_of_int (int n) :: 64 word) = n" using assms(2) by (intro unat_word_of_int_id) simp
  have "reads k (load_instruction rt) (write_b 1 99) (op_init_object_array rt)" for k
    unfolding load_instruction_def by (rule value_last[OF reads_b1]) simp
  then have 1: "load_instruction rt (t\<lparr>input := write_b 1 99 @ x\<rparr>) = op_init_object_array rt (t\<lparr>input := x\<rparr>)" for t x
    by (simp add: reads_def)
  have 2: "read_u64 rt (t\<lparr>input := write_b 8 i @ x\<rparr>) = Inr (word_of_int i, t\<lparr>input := x\<rparr>)" for t i x
    using reads_b8[of _ rt i] by (simp add: reads_def ld_return_def)
  have "op_init_object_array rt (s\<lparr>input := write_b 8 (int n) @ r\<rparr>) = Inr ((), (initial n (world s))\<lparr>input := r\<rparr>)"
    using assms(1) u 2[where t = s and i = "int n" and x = r] by (cases s) (simp add: op_init_object_array_def ld_bind_def check_initialization_def ready_def initial_def)
  then show ?thesis by (simp only: 1)
qed

lemma load_body:
  assumes "ready s" "writable is" "attributes_named rt is (world s)" "body_of is body"
  shows "(case run_file rt is (world s) of
      Inl e \<Rightarrow> loads rt (1 + length is) (s\<lparr>input := body @ r\<rparr>) = Inl e
    | Inr w \<Rightarrow> \<exists>s'. loads rt (1 + length is) (s\<lparr>input := body @ r\<rparr>) = Inr ((), s'\<lparr>input := r\<rparr>) \<and> ready s' \<and> world s' = w)"
proof -
  let ?n = "objects is" and ?s = "initial (objects is) (world s)"
  obtain bs where bs: "write_all (map (encode (index_width (of_nat ?n))) is) = Some bs"
    and body: "body = write_b 1 99 @ write_b 8 (int ?n) @ bs"
    using assms(4) by (auto simp: body_of_def)
  have ib: "index_bytes ?s = index_width (of_nat ?n)" by (simp add: initial_def)
  have each: "loads rt (length is) = ld_for is (\<lambda>_. load_instruction rt)" by (rule ld_for_const) simp
  have "loads rt (1 + length is) (s\<lparr>input := body @ r\<rparr>) = loads rt (length is) (?s\<lparr>input := bs @ r\<rparr>)"
    using load_init[OF assms(1), of ?n rt "bs @ r"] assms(2) unfolding loads_append
    by (simp add: body ld_bind_def ld_return_def writable_def)
  also have "\<dots> = ld_for is (\<lambda>_. load_instruction rt) (?s\<lparr>input := bs @ r\<rparr>)" by (simp only: each)
  also have "\<dots> = ld_for is (exec rt) (?s\<lparr>input := r\<rparr>)"
    by (rule load_instructions[OF _ bs ib]) (use assms in \<open>simp_all add: writable_def attributes_named_def\<close>)
  also have "\<dots> = (case ld_for is (exec rt) ?s of Inl e \<Rightarrow> Inl e | Inr (a, s') \<Rightarrow> Inr (a, s'\<lparr>input := r\<rparr>))"
    by (rule steady_for[OF steady_exec, unfolded steady_def, THEN conjunct1, rule_format])
  finally have run: "loads rt (1 + length is) (s\<lparr>input := body @ r\<rparr>) = \<dots>" .
  have "ready s'" if "ld_for is (exec rt) ?s = Inr (a, s')" for a s'
  proof -
    have "numbered ?n s'" "next_object s' = ?n" using run_numbered[OF that, of ?n] by (auto simp: numbered_def initial_def)
    from all_numbered[OF this] show ?thesis by (simp add: ready_def check_initialization_def split: option.splits)
  qed
  then show ?thesis unfolding run by (auto simp: run_file_def split: sum.splits)
qed

section \<open>Loading written files\<close>

lemma load_bodies:
  assumes "list_all2 body_of iss bodies" "list_all writable iss" "files_named rt iss (world s)" "ready s"
  shows "(case ld_bind (loads rt (sum_list (map (\<lambda>is. 1 + length is) iss))) (\<lambda>_. check_initialization) (s\<lparr>input := concat bodies\<rparr>) of
      Inl e \<Rightarrow> Inl e | Inr (_, s') \<Rightarrow> Inr (world s')) = run_files rt iss (world s)"
  using assms
proof (induction iss bodies arbitrary: s rule: list_all2_induct)
  case Nil
  then show ?case by (simp add: check_initialization_def ready_def)
next
  case (Cons "is" iss body bodies)
  note body = load_body[OF Cons.prems(3) _ _ Cons.hyps(1), of rt "concat bodies"]
  let ?n = "1 + length is" and ?rest = "ld_bind (loads rt (sum_list (map (\<lambda>is. 1 + length is) iss))) (\<lambda>_. check_initialization)"
  have split: "ld_bind (loads rt (sum_list (map (\<lambda>is. 1 + length is) (is # iss)))) (\<lambda>_. check_initialization) =
      ld_bind (loads rt ?n) (\<lambda>_. ?rest)"
    unfolding list.map sum_list.Cons loads_append[of ?n] ld_bind_assoc ..
  show ?case unfolding split
  proof (cases "run_file rt is (world s)")
    case (Inl e)
    then have "loads rt ?n (s\<lparr>input := concat (body # bodies)\<rparr>) = Inl e" using body Cons.prems by simp
    then show "(case ld_bind (loads rt ?n) (\<lambda>_. ?rest) (s\<lparr>input := concat (body # bodies)\<rparr>) of
        Inl e \<Rightarrow> Inl e | Inr (_, s') \<Rightarrow> Inr (world s')) = run_files rt (is # iss) (world s)"
      unfolding ld_bind_def using Inl by (simp only: sum.case run_files.simps bind_res_simps)
  next
    case (Inr w)
    then obtain s' where s': "loads rt ?n (s\<lparr>input := concat (body # bodies)\<rparr>) = Inr ((), s'\<lparr>input := concat bodies\<rparr>)"
      "ready s'" "world s' = w"
      using body Cons.prems by auto
    have "(case ?rest (s'\<lparr>input := concat bodies\<rparr>) of Inl e \<Rightarrow> Inl e | Inr (_, s') \<Rightarrow> Inr (world s')) = run_files rt iss w"
      using Cons.IH[of s'] Cons.prems Inr s' by simp
    then show "(case ld_bind (loads rt ?n) (\<lambda>_. ?rest) (s\<lparr>input := concat (body # bodies)\<rparr>) of
        Inl e \<Rightarrow> Inl e | Inr (_, s') \<Rightarrow> Inr (world s')) = run_files rt (is # iss) (world s)"
      unfolding ld_bind_def[of "loads rt ?n"] using Inr by (simp only: s' sum.case prod.case run_files.simps bind_res_simps)
  qed
qed

lemma load_linked:
  assumes "list_all2 body_of iss bodies" "list_all writable iss" "files_named rt iss w"
    and n: "sum_list (map (\<lambda>is. 1 + length is) iss) < 2 ^ 64"
  shows "load_bytecode rt (header_encode (of_nat (sum_list (map (\<lambda>is. 1 + length is) iss))) @ concat bodies) w = run_files rt iss w"
proof -
  let ?N = "sum_list (map (\<lambda>is. 1 + length is) iss)" and ?h = "header_encode (of_nat (sum_list (map (\<lambda>is. 1 + length is) iss)))"
  let ?s = "new_loader (?h @ concat bodies) w"
  have N: "unat (of_nat ?N :: 64 word) = ?N" using n by (simp only: unsigned_of_nat) (simp add: take_bit_nat_eq_self)
  have h: "header_decode (take header_size (?h @ concat bodies)) = Inr (of_nat ?N)"
    using header_round_trip[of "of_nat ?N" "[]"] by (simp add: header_size_def)
  have main: "load_main rt ?s = ld_bind (loads rt ?N) (\<lambda>_. check_initialization) (?s\<lparr>input := concat bodies\<rparr>)"
    unfolding load_main_def new_loader_def using h by (simp only: loader.simps sum.case N) (simp add: header_size_def)
  have r: "ready ?s" and world: "world ?s = w" by (simp_all add: ready_def new_loader_def)
  show ?thesis unfolding load_bytecode_def main
    using load_bodies[OF assms(1,2), of rt ?s, unfolded world, OF assms(3) r] .
qed

lemma written_file_runs:
  assumes "write_bytecode is = Some file" "writable is" "1 + length is < 2 ^ 64" "attributes_named rt is w"
  shows "load_bytecode rt file w = run_file rt is w"
proof -
  obtain body where b: "file = header_encode (of_nat (1 + length is)) @ body" "body_of is body"
    using written_file[OF assms(1-3)] by blast
  have "load_bytecode rt (header_encode (of_nat (sum_list (map (\<lambda>is. 1 + length is) [is]))) @ concat [body]) w = run_files rt [is] w"
    by (rule load_linked) (use assms b(2) in \<open>auto split: sum.split\<close>)
  then show ?thesis unfolding b(1) by (cases "run_file rt is w") simp_all
qed

fun load_files :: "('v, 'w) runtime \<Rightarrow> 8 word list list \<Rightarrow> 'w \<Rightarrow> fasl_error + 'w" where
  "load_files rt [] w = Inr w"
| "load_files rt (f # fs) w = bind_res (load_bytecode rt f w) (load_files rt fs)"

lemma load_files_run:
  assumes "list_all2 (\<lambda>is f. write_bytecode is = Some f) iss files" "list_all writable iss"
    and "list_all (\<lambda>is. 1 + length is < 2 ^ 64) iss" "files_named rt iss w"
  shows "load_files rt files w = run_files rt iss w"
  using assms
proof (induction iss files arbitrary: w rule: list_all2_induct)
  case (Cons "is" iss f files)
  have "load_bytecode rt f w = run_file rt is w" by (rule written_file_runs) (use Cons in simp_all)
  then show ?case using Cons by (cases "run_file rt is w") simp_all
qed simp

lemma linked_bodies:
  assumes "list_all2 (\<lambda>is f. write_bytecode is = Some f) iss files" "list_all writable iss"
    and "list_all (\<lambda>is. 1 + length is < 2 ^ 64) iss"
  shows "list_all2 body_of iss (map (drop header_size) files) \<and>
    sum_counts files = Inr (of_nat (sum_list (map (\<lambda>is. 1 + length is) iss)))"
  using assms
proof (induction iss files rule: list_all2_induct)
  case (Cons "is" iss f files)
  obtain body where b: "f = header_encode (of_nat (1 + length is)) @ body" "body_of is body"
    using written_file[OF Cons.hyps(1)] Cons.prems by auto
  then have "header_decode f = Inr (of_nat (1 + length is))" "drop header_size f = body"
    by (simp_all only: header_round_trip) (simp add: header_size_def)
  then show ?case using Cons b(2) by simp
qed simp



section \<open>An instance\<close>

text \<open>A system whose world counts the calls.\<close>

definition counting_runtime :: "(nat, nat) runtime" where
  "counting_runtime = \<lparr>perform = (\<lambda>c w. Inr (w, Suc w)), is_a = (\<lambda>_ _ _. True), text_of = (\<lambda>_ _. ''name''),
     nil_value = 0, t_value = 1, nil_byte = 0\<rparr>"

definition sample_file :: "instruction list" where
  "sample_file = [W_nil, W_array U_base_char U_base_char [1] [E_char 110], W_cons, W_rplaca 2 0, W_attribute 1 (A_name 0 1)]"

definition other_file :: "instruction list" where
  "other_file = [W_t, W_sb64 (- 5), W_hash_table Test_equal 3, W_setf_gethash 2 0 1]"

lemmas sample_defs = sample_file_def other_file_def counting_runtime_def

lemma samples_written: "\<exists>file. write_bytecode sample_file = Some file" "\<exists>file. write_bytecode other_file = Some file"
  by (simp_all add: write_bytecode_def sample_defs write_dimensions_def write_elems_def Let_def)

lemma samples_writable: "writable sample_file" "writable other_file"
  by (simp_all add: writable_def sample_defs index_width_def ref_ok_def array_fits_def)

lemmas action_defs = creating_def next_index_def make_array_def array_total_def call_def effect_def as_type_def when_type_def
  get_as_def get_ltv_def ltv_at_def set_ltv_def set_elems_def ld_bind_def ld_return_def

lemma samples_run:
  "run_file counting_runtime sample_file 0 = Inr 6" "run_file counting_runtime other_file 6 = Inr 9"
  by (simp_all add: run_file_def sample_defs initial_def action_defs)

lemma samples_named:
  "attributes_named counting_runtime sample_file 0" "attributes_named counting_runtime other_file 6"
  by (simp_all add: attributes_named_def sample_defs initial_def action_defs)



end
