(* ===== verification/FaslSafe.thy ===== *)
theory FaslSafe
  imports FaslFiles
begin

text \<open>
  The table of the loader on any input, and the theorems on files.
\<close>

section \<open>Objects keep their numbers\<close>

definition table_kept :: "('v, 'w) loader \<Rightarrow> ('v, 'w) loader \<Rightarrow> bool" where
  "table_kept s s' \<longleftrightarrow> index_bytes s' = index_bytes s \<and> next_object s \<le> next_object s' \<and>
     length (literals s') = length (literals s) \<and>
     (\<forall>i v. i < length (literals s) \<longrightarrow> literals s ! i = Some v \<longrightarrow> literals s' ! i = Some v)"

definition table_safe :: "('v, 'w, 'a) ld \<Rightarrow> bool" where
  "table_safe m \<longleftrightarrow> (\<forall>s a s'. m s = Inr (a, s') \<longrightarrow> table_kept s s')"

named_theorems safe_intros "actions that keep the table"

lemma table_kept_refl [simp]: "table_kept s s"
  by (simp add: table_kept_def)

lemma table_kept_trans: "table_kept s t \<Longrightarrow> table_kept t u \<Longrightarrow> table_kept s u"
  by (simp add: table_kept_def)

lemma safe_return [safe_intros]: "table_safe (ld_return a)"
  by (simp add: table_safe_def ld_return_def)

lemma safe_error [safe_intros]: "table_safe (ld_error e)"
  by (simp add: table_safe_def ld_error_def)

lemma safe_bind [safe_intros]:
  assumes "table_safe m" "\<And>a. table_safe (f a)"
  shows "table_safe (ld_bind m f)"
  unfolding table_safe_def
proof (intro allI impI)
  fix s b s' assume "ld_bind m f s = Inr (b, s')"
  then obtain a t where "m s = Inr (a, t)" "f a t = Inr (b, s')" by (auto simp: ld_bind_def split: sum.splits)
  then show "table_kept s s'" using assms table_kept_trans unfolding table_safe_def by metis
qed

lemma safe_state: "(\<And>s a s'. m s = Inr (a, s') \<Longrightarrow> literals s' = literals s \<and> index_bytes s' = index_bytes s \<and> next_object s \<le> next_object s') \<Longrightarrow> table_safe m"
  by (simp add: table_safe_def table_kept_def)

lemma safe_steps [safe_intros]:
  "table_safe (call rt c)" "table_safe (as_type rt t v)" "table_safe (get_ltv i)" "table_safe next_index" "table_safe check_initialization"
  "table_safe (read_u8 rt)" "table_safe (read_sequence k)"
  by (rule safe_state; auto simp: call_def as_type_def get_ltv_def next_index_def check_initialization_def read_u8_def
      read_sequence_def Let_def split: sum.splits if_splits option.splits list.splits)+

lemma safe_set_ltv [safe_intros]: "table_safe (set_ltv v i)"
  by (auto simp: table_safe_def set_ltv_def table_kept_def nth_list_update split: if_splits)

lemma safe_when_type [safe_intros]: "table_safe m \<Longrightarrow> table_safe (when_type rt t v m)"
  by (auto simp: table_safe_def when_type_def)

lemma safe_effect [safe_intros]: "table_safe (effect rt c)"
  unfolding effect_def by (intro safe_intros)

lemma safe_for [safe_intros]: "(\<And>i. table_safe (f i)) \<Longrightarrow> table_safe (ld_for is f)"
  by (induction "is") (auto intro: safe_intros)

lemma safe_times [safe_intros]: "table_safe m \<Longrightarrow> table_safe (ld_times n m)"
  by (induction n) (auto intro: safe_intros)

lemma safe_creating [safe_intros]: "table_safe m \<Longrightarrow> table_safe (creating m)"
  unfolding creating_def by (intro safe_intros)

lemma safe_words [safe_intros]: "table_safe (read_u16 rt)" "table_safe (read_u32 rt)" "table_safe (read_u64 rt)"
  unfolding read_u16_def read_u32_def read_u64_def by (intro safe_intros)+

lemma safe_numbers [safe_intros]:
  "table_safe (read_s8 rt)" "table_safe (read_s16 rt)" "table_safe (read_s32 rt)" "table_safe (read_s64 rt)"
  unfolding read_s8_def read_s16_def read_s32_def read_s64_def by (intro safe_intros)+

lemma safe_utf8 [safe_intros]: "table_safe (read_utf8 rt)"
  unfolding read_utf8_def read_continuation_byte_def by (auto intro!: safe_intros)

lemma safe_index [safe_intros]: "table_safe (read_index rt)"
proof -
  have "table_safe (ld_bind (read_u8 rt) (\<lambda>w. ld_return (unat w)))" "table_safe (ld_bind (read_u16 rt) (\<lambda>w. ld_return (unat w)))"
    "table_safe (ld_bind (read_u32 rt) (\<lambda>w. ld_return (unat w)))" "table_safe (ld_bind (read_u64 rt) (\<lambda>w. ld_return (unat w)))"
    by (intro safe_intros)+
  then show ?thesis unfolding table_safe_def read_index_def by (auto split: if_splits)
qed

lemma safe_refs [safe_intros]: "table_safe (read_ltv rt)" "table_safe (read_as rt t)"
  unfolding read_ltv_def read_as_def by (intro safe_intros)+

section \<open>Instructions\<close>

lemma safe_arrays [safe_intros]: "table_safe (make_array rt dims u)" "table_safe (fill_sub_byte rt arr n k)" "table_safe m \<Longrightarrow> table_safe (read_array rt arr n m)"
  unfolding make_array_def fill_sub_byte_def read_array_def Let_def by (auto intro!: safe_intros)

lemma safe_fill [safe_intros]: "table_safe (fill_array rt arr n packing)"
  unfolding fill_array_def by (auto split: sum.split uaet.split intro!: safe_intros)

lemma safe_op_array [safe_intros]: "table_safe (op_array rt)"
  unfolding op_array_def by (auto split: sum.split intro!: safe_intros)

lemma safe_debug_item [safe_intros]: "table_safe (read_debug_item rt)"
  unfolding read_debug_item_def di_op_function_def di_op_vars_def di_op_location_def di_op_decls_def di_op_the_def di_op_block_def
    di_op_exit_def di_op_macro_def di_op_if_def di_op_tagbody_def with_range_def read_debug_var_def read_tag_def
  by (auto intro!: safe_intros)

lemma safe_attribute [safe_intros]: "table_safe (op_attribute rt)"
proof -
  have body: "table_safe (attribute_body rt name)" for name
    unfolding attribute_body_def attr_name_def attr_docstring_def attr_lambda_list_def attr_source_pos_info_def attr_module_debug_info_def
    by (auto intro!: safe_intros)
  have "table_safe (\<lambda>s. attribute_body rt (text_of rt v (world s)) s)" for v
    unfolding table_safe_def using body unfolding table_safe_def by blast
  then show ?thesis unfolding op_attribute_body by (intro safe_intros)
qed

lemma safe_ops [safe_intros]:
  "table_safe (op_nil rt)" "table_safe (op_t rt)" "table_safe (op_cons rt)" "table_safe (op_environment rt)" "table_safe (op_rplaca rt)" "table_safe (op_rplacd rt)"
  "table_safe (op_srma rt)" "table_safe (op_hasht rt)" "table_safe (op_shash rt)" "table_safe (op_sb64 rt)" "table_safe (op_package rt)" "table_safe (op_bignum rt)"
  "table_safe (op_float rt)" "table_safe (op_double rt)" "table_safe (op_ratio rt)" "table_safe (op_complex rt)" "table_safe (op_symbol rt)" "table_safe (op_intern rt)"
  "table_safe (op_character rt)" "table_safe (op_pathname rt)" "table_safe (op_bcfunc rt)" "table_safe (op_bcmod rt)" "table_safe (op_slits rt)" "table_safe (op_fdef rt)"
  "table_safe (op_fcell rt)" "table_safe (op_vcell rt)" "table_safe (op_create rt)" "table_safe (op_init rt)" "table_safe (op_class rt)"
  unfolding op_defs op_sb64_def op_bignum_def op_bcmod_def op_hasht_def by (auto intro!: safe_intros)

lemma safe_result: "table_safe m \<Longrightarrow> m s = Inr (a, s') \<Longrightarrow> table_kept s s'"
  by (simp add: table_safe_def)

lemma table_kept_input [simp]: "table_kept (s\<lparr>input := x\<rparr>) s' = table_kept s s'"
  by (simp add: table_kept_def)

text \<open>C39: On any file, well formed or not, an instruction other than the one that starts a new table leaves every
  object the number it has, and the table and the indices their sizes.\<close>

theorem objects_keep_their_numbers:
  assumes "load_instruction rt s = Inr (a, s')" "input s = opcode # r" "opcode \<noteq> 99"
    and "i < length (literals s)" "literals s ! i = Some v"
  shows "literals s' ! i = Some v \<and> length (literals s') = length (literals s) \<and> index_bytes s' = index_bytes s"
proof -
  define t where "t = s\<lparr>input := r\<rparr>"
  have "read_u8 rt s = Inr (opcode, t)" using assms(2) by (simp add: read_u8_def t_def)
  then have "table_kept t s'"
    using assms(1,3) unfolding load_instruction_def ld_bind_def
    by (auto split: if_splits simp: ld_error_def elim!: safe_result[rotated] intro: safe_intros)
  then have "table_kept s s'" by (simp add: t_def)
  then show ?thesis using assms(4,5) by (simp add: table_kept_def)
qed

lemma objects_keep_their_numbers_witness:
  "literals (\<lparr>input = [], literals = [Some 7, Some 0], index_bytes = 1, next_object = 2, world = 1\<rparr> :: (nat, nat) loader) ! 0 = Some 7"
proof -
  have "load_instruction counting_runtime \<lparr>input = [69], literals = [Some 7, None], index_bytes = 1, next_object = 1, world = 0\<rparr> =
      Inr ((), \<lparr>input = [], literals = [Some 7, Some 0], index_bytes = 1, next_object = 2, world = 1\<rparr>)"
    by (simp add: load_instruction_def read_u8_def op_cons_def action_defs counting_runtime_def)
  from objects_keep_their_numbers[OF this, of 69 "[]" 0 7] show ?thesis by simp
qed

section \<open>Disagreements of the writer and the loader\<close>



text \<open>Eight elements of four bits are written into one byte, where the loader reads four; nine are an error.\<close>

lemma sub_byte_arrays_cut:
  "write_sub_byte 4 [1, 2, 3, 4, 5, 6, 7, 8] = Some [0x12]" "write_sub_byte 4 [1, 2, 3] = None"
  by code_simp+

text \<open>An attribute of a module that the writer can write is skipped by the loader.\<close>

lemma mutable_ltv_skipped:
  "attribute_fits n (A_mutable_ltv m indices) \<Longrightarrow> n \<le> 8 \<Longrightarrow>
   reads n (attribute_body rt ''clasp:module-mutable-ltv'') (encode_attribute n (A_mutable_ltv m indices)) (ld_return ())"
  using reads_attribute_body[of n "A_mutable_ltv m indices" rt] by simp

end
